(* ===== verification/Prelude.thy ===== *)
theory Prelude
  imports Main "HOL-Library.Code_Target_Nat" "HOL-Library.List_Lexorder" "HOL-Library.Product_Lexorder"
begin

text \<open>
  The vocabulary every component shares.

  A Rust \<^verbatim>\<open>char\<close> is a Unicode scalar value and a Rust \<^verbatim>\<open>&str\<close> or \<^verbatim>\<open>String\<close> is a
  sequence of them, so text is \<open>rstr = nat list\<close>, a list of code points; \<open>str_len\<close>
  is the UTF-8 length that \<^verbatim>\<open>str::len\<close> answers. Literals are written \<open>lit ''...''\<close>.
  This theory models the parts of the standard library's string interface that
  the sources use (\<^verbatim>\<open>split_once\<close>, \<^verbatim>\<open>split\<close>, \<^verbatim>\<open>split_inclusive\<close>, \<^verbatim>\<open>trim\<close>,
  \<^verbatim>\<open>split_whitespace\<close>, \<^verbatim>\<open>join\<close>, \<^verbatim>\<open>to_ascii_lowercase\<close>, \<^verbatim>\<open>parse::<u64>\<close>),
  saturating and checked arithmetic on machine integers written over \<open>nat\<close>, and
  the generic lemmas on lists and options the component theories rely on.
  A Rust \<^verbatim>\<open>Result<T, E>\<close> is \<open>('e, 't) result = 'e + 't\<close>, with \<open>Inl\<close> for \<^verbatim>\<open>Err\<close>.
\<close>

section \<open>Results\<close>

type_synonym ('e, 'a) result = "'e + 'a"

definition bind_result :: "('e, 'a) result \<Rightarrow> ('a \<Rightarrow> ('e, 'b) result) \<Rightarrow> ('e, 'b) result" where
  "bind_result r f = (case r of Inl e \<Rightarrow> Inl e | Inr x \<Rightarrow> f x)"

lemma bind_result_simps [simp]:
  "bind_result (Inl e) f = Inl e"
  "bind_result (Inr x) f = f x"
  by (simp_all add: bind_result_def)

lemma bind_result_eq_Inr:
  "bind_result r f = Inr y \<longleftrightarrow> (\<exists>x. r = Inr x \<and> f x = Inr y)"
  by (cases r) auto

lemma bind_result_eq_Inl:
  "bind_result r f = Inl e \<longleftrightarrow> r = Inl e \<or> (\<exists>x. r = Inr x \<and> f x = Inl e)"
  by (cases r) auto

section \<open>Text\<close>

type_synonym rchar = nat
type_synonym rstr = "rchar list"
type_synonym bytes = "nat list"

definition lit :: "string \<Rightarrow> rstr" where
  "lit s = map of_char s"

abbreviation (input) LF :: rchar where "LF \<equiv> 10"
abbreviation (input) CR :: rchar where "CR \<equiv> 13"
abbreviation (input) NUL :: rchar where "NUL \<equiv> 0"
abbreviation (input) SP :: rchar where "SP \<equiv> 32"
abbreviation (input) TAB :: rchar where "TAB \<equiv> 9"
abbreviation (input) HASH :: rchar where "HASH \<equiv> 35"

definition len_utf8 :: "rchar \<Rightarrow> nat" where
  "len_utf8 c = (if c < 0x80 then 1 else if c < 0x800 then 2 else if c < 0x10000 then 3 else 4)"

definition str_len :: "rstr \<Rightarrow> nat" where
  "str_len s = sum_list (map len_utf8 s)"

lemma str_len_simps [simp]:
  "str_len [] = 0"
  "str_len (c # s) = len_utf8 c + str_len s"
  "str_len (s @ t) = str_len s + str_len t"
  by (simp_all add: str_len_def)

text \<open>The code points with Unicode property \<open>White_Space\<close>, as \<^verbatim>\<open>char::is_whitespace\<close>.\<close>

definition is_whitespace :: "rchar \<Rightarrow> bool" where
  "is_whitespace c \<longleftrightarrow> (9 \<le> c \<and> c \<le> 13) \<or> c = 32 \<or> c = 0x85 \<or> c = 0xA0 \<or> c = 0x1680
     \<or> (0x2000 \<le> c \<and> c \<le> 0x200A) \<or> c = 0x2028 \<or> c = 0x2029 \<or> c = 0x202F \<or> c = 0x205F
     \<or> c = 0x3000"

definition is_ascii_digit :: "rchar \<Rightarrow> bool" where
  "is_ascii_digit c \<longleftrightarrow> 48 \<le> c \<and> c \<le> 57"

definition is_ascii_upper :: "rchar \<Rightarrow> bool" where
  "is_ascii_upper c \<longleftrightarrow> 65 \<le> c \<and> c \<le> 90"

definition is_ascii_lower :: "rchar \<Rightarrow> bool" where
  "is_ascii_lower c \<longleftrightarrow> 97 \<le> c \<and> c \<le> 122"

definition is_ascii_alphanumeric :: "rchar \<Rightarrow> bool" where
  "is_ascii_alphanumeric c \<longleftrightarrow> is_ascii_digit c \<or> is_ascii_upper c \<or> is_ascii_lower c"

definition is_ascii_graphic :: "rchar \<Rightarrow> bool" where
  "is_ascii_graphic c \<longleftrightarrow> 33 \<le> c \<and> c \<le> 126"

definition to_ascii_lowercase :: "rstr \<Rightarrow> rstr" where
  "to_ascii_lowercase s = map (\<lambda>c. if is_ascii_upper c then c + 32 else c) s"

fun split_once_by :: "(rchar \<Rightarrow> bool) \<Rightarrow> rstr \<Rightarrow> (rstr \<times> rstr) option" where
  "split_once_by p [] = None"
| "split_once_by p (c # s) =
     (if p c then Some ([], s)
      else map_option (\<lambda>(a, b). (c # a, b)) (split_once_by p s))"

abbreviation split_once :: "rchar \<Rightarrow> rstr \<Rightarrow> (rstr \<times> rstr) option" where
  "split_once c \<equiv> split_once_by (\<lambda>x. x = c)"

fun split_by :: "(rchar \<Rightarrow> bool) \<Rightarrow> rstr \<Rightarrow> rstr list" where
  "split_by p [] = [[]]"
| "split_by p (c # s) =
     (if p c then [] # split_by p s
      else (case split_by p s of [] \<Rightarrow> [[c]] | w # ws \<Rightarrow> (c # w) # ws))"

fun split_inclusive :: "rchar \<Rightarrow> rstr \<Rightarrow> rstr list" where
  "split_inclusive d [] = []"
| "split_inclusive d (c # s) =
     (if c = d then [c] # split_inclusive d s
      else (case split_inclusive d s of [] \<Rightarrow> [[c]] | w # ws \<Rightarrow> (c # w) # ws))"

definition trim_start :: "rstr \<Rightarrow> rstr" where
  "trim_start s = dropWhile is_whitespace s"

definition trim_end_by :: "(rchar \<Rightarrow> bool) \<Rightarrow> rstr \<Rightarrow> rstr" where
  "trim_end_by p s = rev (dropWhile p (rev s))"

definition trim :: "rstr \<Rightarrow> rstr" where
  "trim s = trim_end_by is_whitespace (trim_start s)"

definition split_whitespace :: "rstr \<Rightarrow> rstr list" where
  "split_whitespace s = filter (\<lambda>w. w \<noteq> []) (split_by is_whitespace s)"

fun join_with :: "rstr \<Rightarrow> rstr list \<Rightarrow> rstr" where
  "join_with sep [] = []"
| "join_with sep [w] = w"
| "join_with sep (w # ws) = w @ sep @ join_with sep ws"

definition strip_suffix_char :: "rchar \<Rightarrow> rstr \<Rightarrow> rstr option" where
  "strip_suffix_char c s = (if s \<noteq> [] \<and> last s = c then Some (butlast s) else None)"

fun strip_prefix :: "rstr \<Rightarrow> rstr \<Rightarrow> rstr option" where
  "strip_prefix [] s = Some s"
| "strip_prefix (c # p) [] = None"
| "strip_prefix (c # p) (d # s) = (if c = d then strip_prefix p s else None)"

text \<open>Decimal digits of a number, as \<^verbatim>\<open>Display\<close> prints an unsigned integer.\<close>

fun show_nat :: "nat \<Rightarrow> rstr" where
  "show_nat n = (if n < 10 then [48 + n] else show_nat (n div 10) @ [48 + n mod 10])"

declare show_nat.simps [simp del]

section \<open>Saturating and checked machine arithmetic\<close>

text \<open>
  Unsigned integers are \<open>nat\<close> below their maximum; the maximum is an argument.
  \<^verbatim>\<open>saturating_sub\<close> is HOL's truncated subtraction. Lengths and indices
  (\<^verbatim>\<open>usize\<close>) are plain \<open>nat\<close>: they count items of a list held in memory, which
  is at most \<^verbatim>\<open>isize::MAX\<close> bytes, so their saturating additions never saturate.
\<close>

definition u8_max :: nat where "u8_max = 2 ^ 8 - 1"
definition u16_max :: nat where "u16_max = 2 ^ 16 - 1"
definition u32_max :: nat where "u32_max = 2 ^ 32 - 1"
definition u64_max :: nat where "u64_max = 2 ^ 64 - 1"

definition sat_add :: "nat \<Rightarrow> nat \<Rightarrow> nat \<Rightarrow> nat" where
  "sat_add m a b = min m (a + b)"

definition checked_add :: "nat \<Rightarrow> nat \<Rightarrow> nat \<Rightarrow> nat option" where
  "checked_add m a b = (if a + b \<le> m then Some (a + b) else None)"

definition checked_mul :: "nat \<Rightarrow> nat \<Rightarrow> nat \<Rightarrow> nat option" where
  "checked_mul m a b = (if a * b \<le> m then Some (a * b) else None)"

definition checked_pow :: "nat \<Rightarrow> nat \<Rightarrow> nat \<Rightarrow> nat option" where
  "checked_pow m a b = (if a ^ b \<le> m then Some (a ^ b) else None)"

text \<open>\<^verbatim>\<open>str::parse\<close> of an unsigned integer: an optional \<open>+\<close>, then at least one ASCII digit,
  and a value that fits.\<close>

definition digits_value :: "rstr \<Rightarrow> nat" where
  "digits_value s = foldl (\<lambda>n c. 10 * n + (c - 48)) 0 s"

definition parse_uint :: "nat \<Rightarrow> rstr \<Rightarrow> nat option" where
  "parse_uint m s =
     (let ds = (case s of c # t \<Rightarrow> if c = 43 then t else s | [] \<Rightarrow> s)
      in if ds \<noteq> [] \<and> list_all is_ascii_digit ds \<and> digits_value ds \<le> m
         then Some (digits_value ds) else None)"

section \<open>Lists\<close>

definition get :: "'a list \<Rightarrow> nat \<Rightarrow> 'a option" where
  "get xs i = (if i < length xs then Some (xs ! i) else None)"

fun filter_map :: "('a \<Rightarrow> 'b option) \<Rightarrow> 'a list \<Rightarrow> 'b list" where
  "filter_map f [] = []"
| "filter_map f (x # xs) = (case f x of None \<Rightarrow> filter_map f xs | Some y \<Rightarrow> y # filter_map f xs)"

lemma filter_map_append [simp]: "filter_map f (xs @ ys) = filter_map f xs @ filter_map f ys"
  by (induction xs) (auto split: option.splits)

lemma filter_map_cong:
  "(\<And>x. x \<in> set xs \<Longrightarrow> f x = g x) \<Longrightarrow> filter_map f xs = filter_map g xs"
  by (induction xs) (auto split: option.splits)

lemma set_filter_map: "set (filter_map f xs) = {y. \<exists>x\<in>set xs. f x = Some y}"
  by (induction xs) (auto split: option.splits)

fun find_map :: "('a \<Rightarrow> 'b option) \<Rightarrow> 'a list \<Rightarrow> 'b option" where
  "find_map f [] = None"
| "find_map f (x # xs) = (case f x of None \<Rightarrow> find_map f xs | Some y \<Rightarrow> Some y)"

text \<open>Rust's stable \<^verbatim>\<open>sort_by_key\<close> leaves a list that is already in order alone.\<close>

lemma sort_key_sorted: "sorted (map f xs) \<Longrightarrow> sort_key f xs = xs"
proof (induction xs)
  case (Cons x xs)
  then have "sort_key f xs = xs" by simp
  moreover have "insort_key f x xs = x # xs"
    using Cons.prems by (cases xs) auto
  ultimately show ?case by simp
qed simp

text \<open>A \<^verbatim>\<open>BTreeMap\<close>: an association list in strictly ascending key order.\<close>

fun bt_insert :: "'k :: linorder \<Rightarrow> 'v \<Rightarrow> ('k \<times> 'v) list \<Rightarrow> ('k \<times> 'v) list" where
  "bt_insert k v [] = [(k, v)]"
| "bt_insert k v ((k', v') # m) =
     (if k < k' then (k, v) # (k', v') # m
      else if k = k' then (k, v) # m
      else (k', v') # bt_insert k v m)"

definition bt_sorted :: "('k :: linorder \<times> 'v) list \<Rightarrow> bool" where
  "bt_sorted m \<longleftrightarrow> sorted_wrt (<) (map fst m)"

lemma fst_set_bt_insert: "fst ` set (bt_insert k v m) = insert k (fst ` set m)"
  by (induction k v m rule: bt_insert.induct) auto

lemma bt_sorted_insert: "bt_sorted m \<Longrightarrow> bt_sorted (bt_insert k v m)"
proof (induction k v m rule: bt_insert.induct)
  case (2 k v k' v' m)
  then show ?case using fst_set_bt_insert [of k v m] by (force simp: bt_sorted_def)
qed (simp add: bt_sorted_def)

lemma map_of_bt_insert: "map_of (bt_insert k v m) = (map_of m)(k \<mapsto> v)" if "bt_sorted m"
  using that
proof (induction k v m rule: bt_insert.induct)
  case (2 k v k' v' m)
  then show ?case by (auto simp: bt_sorted_def fun_upd_twist)
qed simp

section \<open>Facts about text\<close>

lemma concat_split_inclusive [simp]: "concat (split_inclusive d s) = s"
  by (induction s) (auto split: list.splits)

lemma split_by_nonempty [simp]: "split_by p s \<noteq> []"
  by (induction s) (auto split: list.splits)

lemma split_once_by_SomeD:
  "split_once_by p s = Some (a, b) \<Longrightarrow> \<exists>c. p c \<and> s = a @ c # b \<and> list_all (\<lambda>x. \<not> p x) a"
  by (induction s arbitrary: a) (auto split: if_splits)

lemma split_once_by_None_iff: "split_once_by p s = None \<longleftrightarrow> list_all (\<lambda>x. \<not> p x) s"
  by (induction s) (auto split: if_splits)

lemma trim_end_by_snoc [simp]:
  "trim_end_by p (s @ [c]) = (if p c then trim_end_by p s else s @ [c])"
  by (simp add: trim_end_by_def)

lemma trim_Nil [simp]: "trim [] = []"
  by (simp add: trim_def trim_start_def trim_end_by_def)

lemma is_whitespace_simps [simp]:
  "is_whitespace LF" "is_whitespace CR" "is_whitespace SP" "is_whitespace TAB"
  "\<not> is_whitespace HASH" "\<not> is_whitespace NUL"
  by (simp_all add: is_whitespace_def)

text \<open>Appending white space changes neither \<^verbatim>\<open>trim\<close> nor \<^verbatim>\<open>split_whitespace\<close>.\<close>

lemma trim_snoc_ws: "is_whitespace c \<Longrightarrow> trim (s @ [c]) = trim s"
proof (cases "list_all is_whitespace s")
  case True
  assume "is_whitespace c"
  with True have "dropWhile is_whitespace (s @ [c]) = []" "dropWhile is_whitespace s = []"
    by (auto simp: list_all_iff dropWhile_eq_Nil_conv)
  then show ?thesis unfolding trim_def trim_start_def by metis
next
  case False
  assume "is_whitespace c"
  with False have "dropWhile is_whitespace (s @ [c]) = dropWhile is_whitespace s @ [c]"
    by (auto simp: list_all_iff dropWhile_append)
  with \<open>is_whitespace c\<close> show ?thesis by (simp add: trim_def trim_start_def)
qed

lemma split_by_snoc_delim: "p c \<Longrightarrow> split_by p (s @ [c]) = split_by p s @ [[]]"
  by (induction s) (auto split: list.splits)

lemma split_whitespace_snoc_ws:
  "is_whitespace c \<Longrightarrow> split_whitespace (s @ [c]) = split_whitespace s"
  by (simp add: split_whitespace_def split_by_snoc_delim)

lemma split_once_by_append:
  "split_once_by p (s @ t) =
     (case split_once_by p s of
        Some (a, b) \<Rightarrow> Some (a, b @ t)
      | None \<Rightarrow> map_option (\<lambda>(a, b). (s @ a, b)) (split_once_by p t))"
  by (induction s) (auto split: option.splits simp: option.map_comp comp_def case_prod_unfold option.map_ident)

lemma split_once_by_at:
  "\<lbrakk>list_all (\<lambda>x. \<not> p x) a; p c\<rbrakk> \<Longrightarrow> split_once_by p (a @ c # b) = Some (a, b)"
  by (induction a) auto

lemma trim_eq_Nil: "trim s = [] \<longleftrightarrow> list_all is_whitespace s"
proof -
  have "trim s = [] \<longleftrightarrow> list_all is_whitespace (dropWhile is_whitespace s)"
    by (auto simp: trim_def trim_end_by_def trim_start_def dropWhile_eq_Nil_conv list_all_iff)
  also have "\<dots> \<longleftrightarrow> list_all is_whitespace s"
    by (induction s) auto
  finally show ?thesis .
qed

lemma trim_start_Cons [simp]:
  "trim_start (c # s) = (if is_whitespace c then trim_start s else c # s)"
  by (simp add: trim_start_def)

lemma trim_start_Nil [simp]: "trim_start [] = []"
  by (simp add: trim_start_def)

lemma trim_start_append:
  "trim_start (s @ t) = (if list_all is_whitespace s then trim_start t else trim_start s @ t)"
  by (induction s) auto

lemma trim_start_eq_Nil: "trim_start s = [] \<longleftrightarrow> list_all is_whitespace s"
  by (auto simp: trim_start_def dropWhile_eq_Nil_conv list_all_iff)

lemma trim_Cons_ws: "is_whitespace c \<Longrightarrow> trim (c # s) = trim s"
  by (simp add: trim_def)

lemma split_by_plain: "list_all (\<lambda>x. \<not> p x) w \<Longrightarrow> split_by p w = [w]"
  by (induction w) auto

lemma split_by_step:
  "\<lbrakk>list_all (\<lambda>x. \<not> p x) w; p c\<rbrakk> \<Longrightarrow> split_by p (w @ c # s) = w # split_by p s"
  by (induction w) auto

text \<open>Joining non-empty words with a space and splitting at white space are inverse.\<close>

lemma split_whitespace_join:
  "\<lbrakk>list_all (\<lambda>w. w \<noteq> [] \<and> list_all (\<lambda>x. \<not> is_whitespace x) w) ws; is_whitespace c\<rbrakk>
     \<Longrightarrow> split_whitespace (join_with [c] ws) = ws"
proof (induction "[c]" ws rule: join_with.induct)
  case (2 w)
  then show ?case by (simp add: split_whitespace_def split_by_plain)
next
  case (3 w v ws)
  then show ?case by (simp add: split_whitespace_def split_by_step)
qed (simp add: split_whitespace_def)

lemma set_join_with: "set (join_with sep ws) \<subseteq> set sep \<union> \<Union> (set ` set ws)"
  by (induction sep ws rule: join_with.induct) auto

lemma set_split_by: "set s \<subseteq> {c. p c} \<union> \<Union> (set ` set (split_by p s))"
proof (induction s)
  case (Cons c s)
  obtain w ws where "split_by p s = w # ws" using split_by_nonempty [of p s] by (cases "split_by p s") auto
  with Cons show ?case by auto
qed simp

lemma in_set_enumerateI: "x \<in> set xs \<Longrightarrow> \<exists>i. (i, x) \<in> set (enumerate n xs)"
proof (induction xs arbitrary: n)
  case (Cons y xs)
  then show ?case using Cons.IH [of "Suc n"] by auto
qed simp

lemma drop_split: "a \<le> b \<Longrightarrow> take (b - a) (drop a xs) @ drop b xs = drop a xs"
  using append_take_drop_id [of "b - a" "drop a xs"] by simp

end
