(* ===== verification/Align.thy ===== *)
theory Align
  imports Prelude
begin

text \<open>
  \<^verbatim>\<open>crates/detent-core/src/align.rs\<close>: the bounded greedy Myers search that aligns two
  sequences, its backtracking, and the fallback script. The frontier \<^verbatim>\<open>front\<close> is a
  list indexed by the shifted diagonal \<^verbatim>\<open>kidx\<close>, \<^verbatim>\<open>trace\<close> the list of snapshots.
  The lemmas show that the result of \<open>align\<close> is an edit script from the old to the
  new sequence, that no script is shorter, and that \<open>align\<close> gives up exactly when
  every script is longer than the cap.
\<close>

section \<open>The code\<close>

definition MAX_EDIT_DISTANCE :: nat where
  "MAX_EDIT_DISTANCE = 512"

datatype step = Equal nat nat | Delete nat | Insert nat

definition cell :: "nat list \<Rightarrow> nat \<Rightarrow> nat" where
  "cell front index = (case get front index of Some x \<Rightarrow> x | None \<Rightarrow> 0)"

definition set_cell :: "nat list \<Rightarrow> nat \<Rightarrow> nat \<Rightarrow> nat list" where
  "set_cell front index value = (if index < length front then front[index := value] else front)"

definition came_from_down :: "nat list \<Rightarrow> nat \<Rightarrow> nat \<Rightarrow> nat \<Rightarrow> bool" where
  "came_from_down front kidx lo hi \<longleftrightarrow>
     kidx = lo \<or> (kidx \<noteq> hi \<and> cell front (kidx - 1) < cell front (kidx + 1))"

text \<open>The inner \<^verbatim>\<open>while\<close> of \<^verbatim>\<open>align\<close>: follow equal items along a diagonal.\<close>

function slide :: "'a list \<Rightarrow> 'a list \<Rightarrow> nat \<Rightarrow> nat \<Rightarrow> nat \<times> nat" where
  "slide old new oldi newi =
     (if oldi < length old \<and> newi < length new \<and> get old oldi = get new newi
      then slide old new (oldi + 1) (newi + 1) else (oldi, newi))"
  by pat_completeness auto
termination
  by (relation "measure (\<lambda>(old, new, oldi, newi). length old - oldi)") auto

declare slide.simps [simp del]

text \<open>The point one diagonal reaches in one pass: the starting cell, then the slide.\<close>

definition diag_end ::
  "'a list \<Rightarrow> 'a list \<Rightarrow> nat \<Rightarrow> nat list \<Rightarrow> nat \<Rightarrow> nat \<Rightarrow> nat \<Rightarrow> nat \<times> nat" where
  "diag_end old new offset front lo hi kidx =
     (let oldi = (if came_from_down front kidx lo hi then cell front (kidx + 1)
                  else cell front (kidx - 1) + 1);
          newi = oldi + offset - kidx
      in slide old new oldi newi)"

text \<open>The \<^verbatim>\<open>while kidx <= hi\<close> loop. \<open>None\<close> is the \<^verbatim>\<open>return\<close> from inside it: both ends are
  reached. \<open>Some\<close> carries the frontier the pass leaves behind.\<close>

function scan_pass ::
  "'a list \<Rightarrow> 'a list \<Rightarrow> nat \<Rightarrow> nat \<Rightarrow> nat \<Rightarrow> nat \<Rightarrow> nat list \<Rightarrow> nat list option" where
  "scan_pass old new offset lo hi kidx front =
     (if kidx \<le> hi then
        (let (oldi, newi) = diag_end old new offset front lo hi kidx;
             front' = set_cell front kidx oldi
         in if length old \<le> oldi \<and> length new \<le> newi then None
            else scan_pass old new offset lo hi (kidx + 2) front')
      else Some front)"
  by pat_completeness auto
termination
  by (relation "measure (\<lambda>(old, new, offset, lo, hi, kidx, front). hi + 1 - kidx)") auto

declare scan_pass.simps [simp del]

text \<open>The \<^verbatim>\<open>while\<close> of \<^verbatim>\<open>backtrack\<close>; \<open>steps\<close> is the vector it pushes to.\<close>

fun back_slide :: "nat \<Rightarrow> nat \<Rightarrow> nat \<Rightarrow> nat \<Rightarrow> step list \<Rightarrow> nat \<times> nat \<times> step list" where
  "back_slide prev_old prev_new oldi newi steps =
     (if prev_old < oldi \<and> prev_new < newi
      then back_slide prev_old prev_new (oldi - 1) (newi - 1) (steps @ [Equal (oldi - 1) (newi - 1)])
      else (oldi, newi, steps))"

declare back_slide.simps [simp del]

text \<open>The body of the \<^verbatim>\<open>for dist in (0..=last_dist).rev()\<close> loop of \<^verbatim>\<open>backtrack\<close>, after the
  \<^verbatim>\<open>let Some(front) ... else break\<close>, and the loop over the distances still to visit.\<close>

definition back_step ::
  "nat list \<Rightarrow> nat \<Rightarrow> nat \<Rightarrow> nat \<Rightarrow> nat \<Rightarrow> step list \<Rightarrow> nat \<times> nat \<times> step list" where
  "back_step front offset dist oldi newi steps =
     (let kidx = offset + oldi - newi;
          lo = offset - dist;
          hi = offset + dist;
          down = came_from_down front kidx lo hi;
          prev_kidx = (if down then kidx + 1 else kidx - 1);
          prev_old = cell front prev_kidx;
          prev_new = prev_old + offset - prev_kidx;
          (oldi, newi, steps) = back_slide prev_old prev_new oldi newi steps
      in if 0 < dist then
           (if down then (oldi, newi - 1, steps @ [Insert (newi - 1)])
            else (oldi - 1, newi, steps @ [Delete (oldi - 1)]))
         else (oldi, newi, steps))"

fun back_loop :: "nat list list \<Rightarrow> nat \<Rightarrow> nat list \<Rightarrow> nat \<Rightarrow> nat \<Rightarrow> step list \<Rightarrow> step list" where
  "back_loop trace offset [] oldi newi steps = steps"
| "back_loop trace offset (dist # dists) oldi newi steps =
     (case get trace dist of
        None \<Rightarrow> steps
      | Some front \<Rightarrow>
          (case back_step front offset dist oldi newi steps of
             (oldi, newi, steps) \<Rightarrow> back_loop trace offset dists oldi newi steps))"

definition backtrack :: "nat list list \<Rightarrow> nat \<Rightarrow> nat \<Rightarrow> nat \<Rightarrow> nat \<Rightarrow> step list" where
  "backtrack trace offset last_dist old_len new_len =
     rev (back_loop trace offset (rev [0..<last_dist + 1]) old_len new_len [])"

text \<open>The \<^verbatim>\<open>for dist in 0..=max_dist\<close> loop of \<^verbatim>\<open>align\<close>; \<open>offset\<close> is \<open>max_dist\<close>.\<close>

function search ::
  "'a list \<Rightarrow> 'a list \<Rightarrow> nat \<Rightarrow> nat \<Rightarrow> nat list \<Rightarrow> nat list list \<Rightarrow> step list option" where
  "search old new max_dist dist front trace =
     (if dist \<le> max_dist then
        (let offset = max_dist;
             trace' = trace @ [front];
             lo = offset - dist;
             hi = offset + dist
         in case scan_pass old new offset lo hi lo front of
              None \<Rightarrow> Some (backtrack trace' offset dist (length old) (length new))
            | Some front' \<Rightarrow> search old new max_dist (dist + 1) front' trace')
      else None)"
  by pat_completeness auto
termination
  by (relation "measure (\<lambda>(old, new, max_dist, dist, front, trace). max_dist + 1 - dist)") auto

declare search.simps [simp del]

definition align :: "'a list \<Rightarrow> 'a list \<Rightarrow> step list option" where
  "align old new =
     (let max_dist = min (length old + length new) MAX_EDIT_DISTANCE;
          width = max_dist * 2 + 1
      in search old new max_dist 0 (replicate width 0) [])"

definition replace_all :: "nat \<Rightarrow> nat \<Rightarrow> step list" where
  "replace_all old_len new_len = map Delete [0..<old_len] @ map Insert [0..<new_len]"

section \<open>Edit scripts\<close>

text \<open>
  The meaning of a script: it visits the old items and the new items in order, each
  exactly once, and calls two items equal only where they are.
\<close>

fun walk :: "'a list \<Rightarrow> 'a list \<Rightarrow> nat \<Rightarrow> nat \<Rightarrow> step list \<Rightarrow> (nat \<times> nat) option" where
  "walk old new i j [] = Some (i, j)"
| "walk old new i j (Equal a b # s) =
     (if a = i \<and> b = j \<and> i < length old \<and> j < length new \<and> old ! i = new ! j
      then walk old new (i + 1) (j + 1) s else None)"
| "walk old new i j (Delete a # s) =
     (if a = i \<and> i < length old then walk old new (i + 1) j s else None)"
| "walk old new i j (Insert b # s) =
     (if b = j \<and> j < length new then walk old new i (j + 1) s else None)"

definition valid_script :: "'a list \<Rightarrow> 'a list \<Rightarrow> step list \<Rightarrow> bool" where
  "valid_script old new s \<longleftrightarrow> walk old new 0 0 s = Some (length old, length new)"

fun is_change :: "step \<Rightarrow> bool" where
  "is_change (Equal a b) = False"
| "is_change (Delete a) = True"
| "is_change (Insert b) = True"

definition cost :: "step list \<Rightarrow> nat" where
  "cost s = length (filter is_change s)"

lemma cost_simps [simp]:
  "cost [] = 0"
  "cost (Equal a b # s) = cost s"
  "cost (Delete a # s) = Suc (cost s)"
  "cost (Insert a # s) = Suc (cost s)"
  "cost (s @ t) = cost s + cost t"
  by (simp_all add: cost_def)

lemma walk_append:
  "walk old new i j (s @ t) =
     (case walk old new i j s of None \<Rightarrow> None | Some (i', j') \<Rightarrow> walk old new i' j' t)"
  by (induction old new i j s rule: walk.induct) auto

lemma walk_deletes:
  "i + n \<le> length old \<Longrightarrow> walk old new i j (map Delete [i..<i + n]) = Some (i + n, j)"
proof (induction n arbitrary: i)
  case (Suc n)
  have "[i..<i + Suc n] = i # [Suc i..<Suc i + n]" by (simp add: upt_conv_Cons del: upt_Suc)
  with Suc.IH [of "Suc i"] Suc.prems show ?case by simp
qed simp

lemma walk_inserts:
  "j + n \<le> length new \<Longrightarrow> walk old new i j (map Insert [j..<j + n]) = Some (i, j + n)"
proof (induction n arbitrary: j)
  case (Suc n)
  have "[j..<j + Suc n] = j # [Suc j..<Suc j + n]" by (simp add: upt_conv_Cons del: upt_Suc)
  with Suc.IH [of "Suc j"] Suc.prems show ?case by simp
qed simp

lemma replace_all_valid: "valid_script old new (replace_all (length old) (length new))"
  using walk_deletes [of 0 "length old" old new 0] walk_inserts [of 0 "length new" new old "length old"]
  by (simp add: valid_script_def replace_all_def walk_append)

lemma cost_replace_all [simp]: "cost (replace_all m n) = m + n"
  by (simp add: cost_def replace_all_def filter_map comp_def)

section \<open>Reachable points of the edit graph\<close>

inductive reach :: "'a list \<Rightarrow> 'a list \<Rightarrow> nat \<Rightarrow> nat \<Rightarrow> nat \<Rightarrow> bool" for old new where
  start: "reach old new 0 0 0"
| diag: "\<lbrakk>reach old new d x y; x < length old; y < length new; old ! x = new ! y\<rbrakk>
    \<Longrightarrow> reach old new d (Suc x) (Suc y)"
| right: "reach old new d x y \<Longrightarrow> reach old new (Suc d) (Suc x) y"
| down: "reach old new d x y \<Longrightarrow> reach old new (Suc d) x (Suc y)"

text \<open>A diagonal is visited by pass \<open>d\<close> when it is in range and has the right parity.\<close>

definition visited :: "nat \<Rightarrow> nat \<Rightarrow> nat \<Rightarrow> bool" where
  "visited offset d k \<longleftrightarrow> offset - d \<le> k \<and> k \<le> offset + d \<and> even (k + offset + d)"

lemma walk_reach:
  "\<lbrakk>reach old new d i j; walk old new i j s = Some (i', j')\<rbrakk> \<Longrightarrow> reach old new (d + cost s) i' j'"
proof (induction old new i j s arbitrary: d rule: walk.induct)
  case (2 old new i j a b s)
  then show ?case using diag [of old new d i j] by (auto split: if_splits)
next
  case (3 old new i j a s)
  then show ?case using right [of old new d i j] 3(1) [of "Suc d"] by (auto split: if_splits)
next
  case (4 old new i j a s)
  then show ?case using down [of old new d i j] 4(1) [of "Suc d"] by (auto split: if_splits)
qed auto

lemma reach_diagonal:
  "reach old new d x y \<Longrightarrow> x \<le> y + d \<and> y \<le> x + d \<and> even (x + y + d)"
  by (induction rule: reach.induct) auto

lemma reach_visited:
  assumes "reach old new d x y" and "x + offset = y + k"
  shows "visited offset d k"
proof -
  note b = reach_diagonal [OF assms(1)]
  have "even (x + offset) = even (y + k)" using assms(2) by (simp only:)
  then have "even (k + offset + d)" using b by auto
  moreover have "offset - d \<le> k" "k \<le> offset + d" using b assms(2) by auto
  ultimately show ?thesis by (simp add: visited_def)
qed

text \<open>A point outside the grid costs at least one more edit per item it lies beyond.\<close>

lemma reach_clip:
  "reach old new d x y \<Longrightarrow>
     \<exists>d'. reach old new d' (min x (length old)) (min y (length new))
        \<and> d' + (x - length old) + (y - length new) \<le> d"
proof (induction rule: reach.induct)
  case start
  then show ?case using reach.start by force
next
  case (diag d x y)
  then obtain d' where "reach old new d' x y" "d' \<le> d" by auto
  with diag.hyps show ?case by (intro exI [of _ d']) (auto intro: reach.diag)
next
  case (right d x y)
  then obtain d' where d': "reach old new d' (min x (length old)) (min y (length new))"
    "d' + (x - length old) + (y - length new) \<le> d" by auto
  show ?case
  proof (cases "x < length old")
    case True
    with d' reach.right [OF d'(1)] show ?thesis by (intro exI [of _ "Suc d'"]) auto
  next
    case False
    with d' show ?thesis by (intro exI [of _ d']) auto
  qed
next
  case (down d x y)
  then obtain d' where d': "reach old new d' (min x (length old)) (min y (length new))"
    "d' + (x - length old) + (y - length new) \<le> d" by auto
  show ?case
  proof (cases "y < length new")
    case True
    with d' reach.down [OF d'(1)] show ?thesis by (intro exI [of _ "Suc d'"]) auto
  next
    case False
    with d' show ?thesis by (intro exI [of _ d']) auto
  qed
qed

section \<open>Sliding along a diagonal\<close>

lemma slide_props:
  "slide old new x y = (x', y') \<Longrightarrow> x \<le> x' \<and> y \<le> y' \<and> x' + y = y' + x
     \<and> \<not> (x' < length old \<and> y' < length new \<and> old ! x' = new ! y')
     \<and> (\<forall>i<x' - x. x + i < length old \<and> y + i < length new \<and> old ! (x + i) = new ! (y + i))"
proof (induction old new x y rule: slide.induct)
  case (1 old new x y)
  show ?case
  proof (cases "x < length old \<and> y < length new \<and> old ! x = new ! y")
    case True
    with 1 have IH: "Suc x \<le> x' \<and> Suc y \<le> y' \<and> x' + Suc y = y' + Suc x
        \<and> \<not> (x' < length old \<and> y' < length new \<and> old ! x' = new ! y')
        \<and> (\<forall>i<x' - Suc x. Suc x + i < length old \<and> Suc y + i < length new
             \<and> old ! (Suc x + i) = new ! (Suc y + i))"
      by (simp add: slide.simps [of old new x y] get_def)
    have "x + i < length old \<and> y + i < length new \<and> old ! (x + i) = new ! (y + i)"
      if "i < x' - x" for i
      using IH True that by (cases i) auto
    with IH show ?thesis by auto
  next
    case False
    with 1 show ?thesis by (auto simp: slide.simps [of old new x y] get_def split: if_splits)
  qed
qed

lemma slide_reach:
  "\<lbrakk>reach old new d x y; slide old new x y = (x', y')\<rbrakk> \<Longrightarrow> reach old new d x' y'"
proof (induction old new x y rule: slide.induct)
  case (1 old new x y)
  then show ?case
    by (auto simp: slide.simps [of old new x y] get_def split: if_splits intro: reach.diag)
qed

lemma slide_mono:
  "\<lbrakk>x \<le> u; x + v = y + u\<rbrakk> \<Longrightarrow> fst (slide old new x y) \<le> fst (slide old new u v)"
proof (induction old new x y rule: slide.induct)
  case (1 old new x y)
  have le: "u \<le> fst (slide old new u v)"
    using slide_props [of old new u v] by (cases "slide old new u v") auto
  show ?case
  proof (cases "x < length old \<and> y < length new \<and> get old x = get new y \<and> x \<noteq> u")
    case True
    with 1 show ?thesis by (subst slide.simps) auto
  next
    case False
    with 1 have "x = u \<and> y = v \<or> fst (slide old new x y) = x" by (subst slide.simps) auto
    with 1 le show ?thesis by auto
  qed
qed

text \<open>Every reachable point lies on the slide that follows its last edit.\<close>

definition after_edit :: "'a list \<Rightarrow> 'a list \<Rightarrow> nat \<Rightarrow> nat \<Rightarrow> nat \<Rightarrow> bool" where
  "after_edit old new d x y \<longleftrightarrow>
     (case d of 0 \<Rightarrow> x = 0 \<and> y = 0
      | Suc d' \<Rightarrow> (\<exists>p. x = Suc p \<and> reach old new d' p y) \<or> (\<exists>q. y = Suc q \<and> reach old new d' x q))"

lemma reach_last:
  "reach old new d x y \<Longrightarrow>
     \<exists>u v. after_edit old new d u v \<and> u + y = v + x \<and> x \<le> fst (slide old new u v)"
proof (induction rule: reach.induct)
  case start
  then show ?case by (auto simp: after_edit_def)
next
  case (diag d x y)
  then obtain u v where uv: "after_edit old new d u v" "u + y = v + x"
    "x \<le> fst (slide old new u v)" by auto
  obtain x' y' where s: "slide old new u v = (x', y')" by fastforce
  have "x \<noteq> x'"
  proof
    assume "x = x'"
    with slide_props [OF s] uv have "y = y'" by simp
    with \<open>x = x'\<close> slide_props [OF s] diag.hyps show False by simp
  qed
  with uv s show ?case by (intro exI [of _ u] exI [of _ v]) auto
next
  case (right d x y)
  then show ?case
    using slide_props [of old new "Suc x" y]
    by (intro exI [of _ "Suc x"] exI [of _ y])
      (cases "slide old new (Suc x) y"; auto simp: after_edit_def)
next
  case (down d x y)
  then show ?case
    using slide_props [of old new x "Suc y"]
    by (intro exI [of _ x] exI [of _ "Suc y"])
      (cases "slide old new x (Suc y)"; auto simp: after_edit_def)
qed

section \<open>One pass of the search\<close>

text \<open>\<open>x\<close> is the furthest old index that \<open>d\<close> edits reach on diagonal \<open>k\<close>.\<close>

definition best :: "'a list \<Rightarrow> 'a list \<Rightarrow> nat \<Rightarrow> nat \<Rightarrow> nat \<Rightarrow> nat \<Rightarrow> bool" where
  "best old new offset d k x \<longleftrightarrow> k \<le> x + offset \<and> reach old new d x (x + offset - k)
     \<and> (\<forall>x' y'. reach old new d x' y' \<longrightarrow> x' + offset = y' + k \<longrightarrow> x' \<le> x)"

lemma best_unique: "best old new offset d k x \<Longrightarrow> best old new offset d k x' \<Longrightarrow> x = x'"
  unfolding best_def by (metis add.commute add_diff_inverse_nat le_antisym not_less)

text \<open>The frontier before pass \<open>d\<close>: the starting zeros, or the furthest points of pass \<open>d - 1\<close>.\<close>

definition ready :: "'a list \<Rightarrow> 'a list \<Rightarrow> nat \<Rightarrow> nat \<Rightarrow> nat list \<Rightarrow> bool" where
  "ready old new offset d front \<longleftrightarrow> length front = 2 * offset + 1 \<and>
     (case d of 0 \<Rightarrow> (\<forall>j. cell front j = 0)
      | Suc d' \<Rightarrow> (\<forall>j. visited offset d' j \<longrightarrow> best old new offset d' j (cell front j)
           \<and> \<not> (length old \<le> cell front j \<and> length new \<le> cell front j + offset - j)))"

lemma start_max:
  "after_edit old new 0 u v \<Longrightarrow> u = 0 \<and> v = 0"
  by (simp add: after_edit_def)

text \<open>Where one diagonal starts in one pass is the furthest point one edit leads to.\<close>

lemma visited_Suc:
  assumes "visited offset (Suc d) j" and "Suc d \<le> offset"
  shows "j \<noteq> offset + Suc d \<Longrightarrow> visited offset d (j + 1)"
    and "j \<noteq> offset - Suc d \<Longrightarrow> 0 < j \<and> visited offset d (j - 1)"
proof -
  show "j \<noteq> offset + Suc d \<Longrightarrow> visited offset d (j + 1)"
  proof -
    assume "j \<noteq> offset + Suc d"
    moreover have "j \<noteq> offset + d" using assms by (auto simp: visited_def)
    ultimately show ?thesis using assms by (auto simp: visited_def)
  qed
  assume "j \<noteq> offset - Suc d"
  moreover have "j \<noteq> offset - d"
  proof
    assume "j = offset - d"
    then have "even (j + d) = even offset" using assms(2) by simp
    then show False using assms(1) by (auto simp: visited_def)
  qed
  ultimately have "offset - d < j" using assms by (auto simp: visited_def)
  then obtain i where "j = Suc i" by (cases j) auto
  then show "0 < j \<and> visited offset d (j - 1)"
    using assms \<open>offset - d < j\<close> by (auto simp: visited_def)
qed

definition diag_start :: "nat list \<Rightarrow> nat \<Rightarrow> nat \<Rightarrow> nat \<Rightarrow> nat" where
  "diag_start front lo hi kidx =
     (if came_from_down front kidx lo hi then cell front (kidx + 1) else cell front (kidx - 1) + 1)"

lemma diag_end_slide:
  "diag_end old new offset front lo hi kidx =
     slide old new (diag_start front lo hi kidx) (diag_start front lo hi kidx + offset - kidx)"
  by (simp add: diag_end_def diag_start_def Let_def)

lemma came_from_down_end: "came_from_down front k lo hi \<Longrightarrow> k = hi \<Longrightarrow> k = lo"
  by (auto simp: came_from_down_def)

lemma diag_start_edit:
  assumes "ready old new offset (Suc d) front" and "visited offset (Suc d) j" and "Suc d \<le> offset"
  defines "x \<equiv> diag_start front (offset - Suc d) (offset + Suc d) j"
  shows "j \<le> x + offset \<and> after_edit old new (Suc d) x (x + offset - j)"
proof (cases "came_from_down front j (offset - Suc d) (offset + Suc d)")
  case True
  with came_from_down_end [OF True] assms(3) have "j \<noteq> offset + Suc d" by auto
  with visited_Suc assms have "visited offset d (j + 1)" by blast
  with assms(1) have "best old new offset d (j + 1) (cell front (j + 1))" by (simp add: ready_def)
  with True show ?thesis
    by (auto simp: x_def diag_start_def best_def after_edit_def
        intro!: exI [of _ "cell front (j + 1) + offset - (j + 1)"])
next
  case False
  then have "j \<noteq> offset - Suc d" by (simp add: came_from_down_def)
  with visited_Suc assms have v: "0 < j" "visited offset d (j - 1)" by blast+
  with assms(1) have "best old new offset d (j - 1) (cell front (j - 1))" by (simp add: ready_def)
  moreover have "Suc (cell front (j - 1) + offset) - j = cell front (j - 1) + offset - (j - 1)"
    using v by auto
  ultimately show ?thesis using False v
    by (auto simp: x_def diag_start_def best_def after_edit_def)
qed

lemma diag_start_max:
  assumes "ready old new offset (Suc d) front" and "visited offset (Suc d) j" and "Suc d \<le> offset"
    and "after_edit old new (Suc d) u v" and "u + offset = v + j"
  shows "u \<le> diag_start front (offset - Suc d) (offset + Suc d) j"
proof -
  have best: "best old new offset d k (cell front k)" if "visited offset d k" for k
    using assms(1) that by (simp add: ready_def)
  have up: "p \<le> cell front k" if "reach old new d p q" "p + offset = q + k" for p q k
    using best [OF reach_visited [OF that]] that by (auto simp: best_def)
  consider (right) p where "u = Suc p" "reach old new d p v"
    | (down) q where "v = Suc q" "reach old new d u q"
    using assms(4) by (auto simp: after_edit_def)
  then show ?thesis
  proof cases
    case right
    have "visited offset d (j - 1) \<and> 0 < j"
    proof -
      have "j \<noteq> offset - Suc d" using reach_diagonal [OF right(2)] right(1) assms(3,5) by auto
      then show ?thesis using visited_Suc(2) [OF assms(2,3)] by auto
    qed
    then have "p \<le> cell front (j - 1)" and "j \<noteq> offset - Suc d"
      using up [OF right(2), of "j - 1"] right assms(3,5) reach_diagonal [OF right(2)] by auto
    then show ?thesis using right(1) by (auto simp: diag_start_def came_from_down_def)
  next
    case down
    have "u \<le> cell front (j + 1)" using up [OF down(2), of "j + 1"] down assms(5) by auto
    moreover have "j \<noteq> offset + Suc d"
      using reach_diagonal [OF down(2)] down(1) assms(5) by auto
    ultimately show ?thesis by (auto simp: diag_start_def came_from_down_def)
  qed
qed

lemma diag_end_best:
  assumes "ready old new offset d front" and "visited offset d j" and "d \<le> offset"
    and "diag_end old new offset front (offset - d) (offset + d) j = (x, y)"
  shows "best old new offset d j x \<and> y = x + offset - j \<and> j \<le> x + offset"
proof -
  define s where "s = diag_start front (offset - d) (offset + d) j"
  have slide: "slide old new s (s + offset - j) = (x, y)"
    using assms(4) by (simp add: diag_end_slide s_def)
  have s: "j \<le> s + offset \<and> after_edit old new d s (s + offset - j)
    \<and> (\<forall>u v. after_edit old new d u v \<longrightarrow> u + offset = v + j \<longrightarrow> u \<le> s)"
  proof (cases d)
    case 0
    then have "j = offset" using assms(2) by (simp add: visited_def)
    then show ?thesis using 0 assms(1)
      by (auto simp: s_def ready_def diag_start_def came_from_down_def after_edit_def)
  next
    case (Suc d')
    then show ?thesis using diag_start_edit diag_start_max assms s_def by blast
  qed
  have "reach old new d s (s + offset - j)"
    using s by (cases d) (auto simp: after_edit_def intro: reach.intros)
  then have r: "reach old new d x y" using slide_reach slide by blast
  have xy: "y = x + offset - j \<and> j \<le> x + offset" using slide_props [OF slide] s by auto
  have "x' \<le> x" if "reach old new d x' y'" "x' + offset = y' + j" for x' y'
  proof -
    from reach_last [OF that(1)] obtain u v where uv: "after_edit old new d u v"
      "u + y' = v + x'" "x' \<le> fst (slide old new u v)" by auto
    then have "u \<le> s" "u + (s + offset - j) = v + s" using s that(2) by auto
    then have "fst (slide old new u v) \<le> fst (slide old new s (s + offset - j))"
      by (rule slide_mono)
    with uv slide show ?thesis by simp
  qed
  with r xy show ?thesis by (auto simp: best_def)
qed

text \<open>A pass writes only diagonals of its own parity and reads only the others.\<close>

lemma cell_set_cell:
  "cell (set_cell front i v) j = (if j = i \<and> i < length front then v else cell front j)"
  by (auto simp: cell_def set_cell_def get_def)

lemma length_set_cell [simp]: "length (set_cell front i v) = length front"
  by (simp add: set_cell_def)

lemma diag_end_other_parity:
  assumes "even (i + j)" and "lo \<le> j" and "lo < j \<or> j = lo"
  shows "diag_end old new offset (set_cell front i v) lo hi j = diag_end old new offset front lo hi j"
proof -
  have "cell (set_cell front i v) (j + 1) = cell front (j + 1)"
    using assms(1) by (auto simp: cell_set_cell)
  moreover have "cell (set_cell front i v) (j - 1) = cell front (j - 1)" if "lo < j"
    using assms(1) that by (cases j) (auto simp: cell_set_cell)
  ultimately show ?thesis using assms(3)
    by (auto simp: diag_end_slide diag_start_def came_from_down_def)
qed

definition ends :: "'a list \<Rightarrow> 'a list \<Rightarrow> nat \<times> nat \<Rightarrow> bool" where
  "ends old new p \<longleftrightarrow> length old \<le> fst p \<and> length new \<le> snd p"

lemma scan_pass_Some:
  assumes "scan_pass old new offset lo hi kidx front = Some front'" and "lo \<le> kidx"
  shows "length front' = length front \<and>
    (\<forall>j. if kidx \<le> j \<and> j \<le> hi \<and> even (kidx + j)
         then \<not> ends old new (diag_end old new offset front lo hi j)
            \<and> (j < length front \<longrightarrow> cell front' j = fst (diag_end old new offset front lo hi j))
         else cell front' j = cell front j)"
  using assms
proof (induction old new offset lo hi kidx front rule: scan_pass.induct)
  case (1 old new offset lo hi kidx front)
  show ?case
  proof (cases "kidx \<le> hi")
    case False
    with 1 show ?thesis by (auto simp: scan_pass.simps [of old new offset lo hi kidx])
  next
    case True
    define p where "p = diag_end old new offset front lo hi kidx"
    define f1 where "f1 = set_cell front kidx (fst p)"
    have step: "\<not> ends old new p" "scan_pass old new offset lo hi (kidx + 2) f1 = Some front'"
      using 1(2) True
      by (auto simp: scan_pass.simps [of old new offset lo hi kidx] p_def f1_def ends_def
          split: prod.splits if_splits)
    have IH: "length front' = length f1 \<and>
      (\<forall>j. if kidx + 2 \<le> j \<and> j \<le> hi \<and> even (kidx + 2 + j)
         then \<not> ends old new (diag_end old new offset f1 lo hi j)
            \<and> (j < length f1 \<longrightarrow> cell front' j = fst (diag_end old new offset f1 lo hi j))
         else cell front' j = cell f1 j)"
      using step 1(3) by (intro 1(1) [OF True p_def prod.collapse f1_def]) (auto simp: ends_def)
    have same: "diag_end old new offset f1 lo hi j = diag_end old new offset front lo hi j"
      if "kidx \<le> j" "even (kidx + j)" for j
      using that 1(3) unfolding f1_def by (intro diag_end_other_parity) auto
    have "if kidx \<le> j \<and> j \<le> hi \<and> even (kidx + j)
         then \<not> ends old new (diag_end old new offset front lo hi j)
            \<and> (j < length front \<longrightarrow> cell front' j = fst (diag_end old new offset front lo hi j))
         else cell front' j = cell front j" for j
    proof (cases "j = kidx")
      case True
      with IH have "cell front' j = cell f1 j" by (auto dest: spec [of _ j])
      with True step(1) \<open>kidx \<le> hi\<close> show ?thesis by (auto simp: f1_def cell_set_cell p_def)
    next
      case False
      have "kidx + 2 \<le> j \<longleftrightarrow> kidx \<le> j" if "even (kidx + j)"
        using that False by (cases "j = kidx + 1") auto
      moreover have "cell f1 j = cell front j" using False by (simp add: f1_def cell_set_cell)
      ultimately show ?thesis using IH same [of j] by (auto simp: f1_def dest: spec [of _ j])
    qed
    moreover have "length front' = length front" using conjunct1 [OF IH] by (simp add: f1_def)
    ultimately show ?thesis by blast
  qed
qed

lemma scan_pass_None:
  assumes "scan_pass old new offset lo hi kidx front = None" and "lo \<le> kidx"
  shows "\<exists>j. kidx \<le> j \<and> j \<le> hi \<and> even (kidx + j)
    \<and> ends old new (diag_end old new offset front lo hi j)"
  using assms
proof (induction old new offset lo hi kidx front rule: scan_pass.induct)
  case (1 old new offset lo hi kidx front)
  define p where "p = diag_end old new offset front lo hi kidx"
  define f1 where "f1 = set_cell front kidx (fst p)"
  show ?case
  proof (cases "kidx \<le> hi \<and> \<not> ends old new p")
    case False
    with 1(2) show ?thesis
      by (auto simp: scan_pass.simps [of old new offset lo hi kidx] p_def intro!: exI [of _ kidx]
          split: if_splits)
  next
    case True
    with 1(2) have "scan_pass old new offset lo hi (kidx + 2) f1 = None"
      by (auto simp: scan_pass.simps [of old new offset lo hi kidx] p_def f1_def ends_def
          split: prod.splits if_splits)
    then have "\<exists>j. kidx + 2 \<le> j \<and> j \<le> hi \<and> even (kidx + 2 + j)
        \<and> ends old new (diag_end old new offset f1 lo hi j)"
      using 1(3) True by (intro 1(1) [OF _ p_def prod.collapse f1_def]) (auto simp: ends_def)
    then obtain j where j: "kidx + 2 \<le> j" "j \<le> hi" "even (kidx + 2 + j)"
      "ends old new (diag_end old new offset f1 lo hi j)" by blast
    then have "diag_end old new offset f1 lo hi j = diag_end old new offset front lo hi j"
      unfolding f1_def using 1(3) by (intro diag_end_other_parity) auto
    with j show ?thesis by (intro exI [of _ j]) auto
  qed
qed

lemma visited_range:
  assumes "d \<le> offset"
  shows "visited offset d j \<longleftrightarrow> offset - d \<le> j \<and> j \<le> offset + d \<and> even (offset - d + j)"
proof -
  have "even (offset - d + j) = even (j + offset + d)" using assms by auto
  then show ?thesis by (simp add: visited_def)
qed

text \<open>A pass that does not return leaves the frontier ready for the next one.\<close>

lemma scan_pass_ready:
  assumes "ready old new offset d front" and "d \<le> offset"
    and "scan_pass old new offset (offset - d) (offset + d) (offset - d) front = Some front'"
  shows "ready old new offset (Suc d) front'"
proof -
  note sp = scan_pass_Some [OF assms(3) order_refl]
  have len: "length front' = 2 * offset + 1" using sp assms(1) by (simp add: ready_def)
  have "best old new offset d j (cell front' j)
      \<and> \<not> (length old \<le> cell front' j \<and> length new \<le> cell front' j + offset - j)"
    if v: "visited offset d j" for j
  proof -
    obtain x y where xy: "diag_end old new offset front (offset - d) (offset + d) j = (x, y)"
      by fastforce
    have "j < length front" using v assms(1,2) by (auto simp: visited_def ready_def)
    moreover have "offset - d \<le> j \<and> j \<le> offset + d \<and> even (offset - d + j)"
      using v by (simp only: visited_range [OF assms(2)])
    ultimately have "cell front' j = x" "\<not> ends old new (x, y)"
      using spec [OF conjunct2 [OF sp], of j] xy by (simp_all only: if_True fst_conv simp_thms)
    with diag_end_best [OF assms(1) v assms(2) xy] show ?thesis by (auto simp: ends_def)
  qed
  with len show ?thesis by (simp add: ready_def)
qed

section \<open>Backtracking\<close>

lemma back_slide_steps:
  assumes "slide old new u v = (x, y)" and "u = p \<and> q \<le> v \<or> v = q \<and> p \<le> u"
  shows "\<exists>bs. back_slide p q x y steps = (u, v, steps @ bs)
    \<and> walk old new u v (rev bs) = Some (x, y) \<and> cost bs = 0"
proof -
  note sp = slide_props [OF assms(1)]
  have "\<exists>bs. back_slide p q (u + n) (v + n) steps = (u, v, steps @ bs)
      \<and> walk old new u v (rev bs) = Some (u + n, v + n) \<and> cost bs = 0" if "n \<le> x - u" for n
    using that
  proof (induction n arbitrary: steps)
    case 0
    then show ?case using assms(2) by (auto simp: back_slide.simps [of p q u v] intro!: exI [of _ "[]"])
  next
    case (Suc n)
    let ?e = "Equal (u + n) (v + n)"
    obtain bs where b: "back_slide p q (u + n) (v + n) (steps @ [?e]) = (u, v, (steps @ [?e]) @ bs)"
      "walk old new u v (rev bs) = Some (u + n, v + n)" "cost bs = 0"
      using Suc.IH [of "steps @ [?e]"] Suc.prems by auto
    have "u + n < length old \<and> v + n < length new \<and> old ! (u + n) = new ! (v + n)"
      using sp Suc.prems by auto
    with b assms(2) show ?case
      by (intro exI [of _ "?e # bs"])
        (auto simp: back_slide.simps [of p q "Suc (u + n)" "Suc (v + n)"] walk_append)
  qed
  moreover have "u + (x - u) = x" "v + (x - u) = y" using sp by auto
  ultimately show ?thesis by (metis le_refl)
qed

lemma back_loop_steps:
  assumes "\<forall>i\<le>dist. ready old new offset i (trace ! i)" and "dist < length trace" and "dist \<le> offset"
    and "visited offset dist k" and "best old new offset dist k oldi" and "newi = oldi + offset - k"
    and "oldi \<le> length old" and "newi \<le> length new"
  shows "\<exists>bs. back_loop trace offset (rev [0..<dist + 1]) oldi newi steps = steps @ bs
    \<and> walk old new 0 0 (rev bs) = Some (oldi, newi) \<and> cost bs = dist"
  using assms
proof (induction dist arbitrary: k oldi newi steps)
  case 0
  obtain x y where xy: "diag_end old new offset (trace ! 0) (offset - 0) (offset + 0) k = (x, y)"
    by fastforce
  have k: "k = offset" using 0 by (simp add: visited_def)
  have z: "cell (trace ! 0) j = 0" for j using 0(1) by (simp add: ready_def)
  have "x = oldi \<and> y = newi"
    using diag_end_best [OF _ 0(4) 0(3) xy] 0(1,6) best_unique [OF 0(5), of x] by auto
  then have "slide old new 0 0 = (oldi, newi)"
    using xy k z by (simp add: diag_end_slide diag_start_def came_from_down_def)
  from back_slide_steps [OF this, of 0 0 steps] obtain bs where
    "back_slide 0 0 oldi newi steps = (0, 0, steps @ bs)"
    "walk old new 0 0 (rev bs) = Some (oldi, newi)" "cost bs = 0" by auto
  moreover have "offset + oldi - newi = offset" using 0 k by simp
  ultimately show ?case using 0(2) z
    by (intro exI [of _ bs])
      (auto simp: get_def back_step_def Let_def came_from_down_def)
next
  case (Suc d)
  let ?f = "trace ! Suc d" and ?lo = "offset - Suc d" and ?hi = "offset + Suc d"
  have ready: "ready old new offset (Suc d) ?f" using Suc.prems(1) by simp
  obtain x y where xy: "diag_end old new offset ?f ?lo ?hi k = (x, y)" by fastforce
  have "x = oldi \<and> y = newi"
    using diag_end_best [OF ready Suc.prems(4,3) xy] Suc.prems(5,6) best_unique by blast
  define down where "down = came_from_down ?f k ?lo ?hi"
  define pk where "pk = (if down then k + 1 else k - 1)"
  define px where "px = cell ?f pk"
  define py where "py = px + offset - pk"
  define u where "u = (if down then px else px + 1)"
  have kidx: "offset + oldi - newi = k"
    using Suc.prems(5,6) by (auto simp: best_def)
  have "0 < k" if "\<not> down" using visited_Suc(2) [OF Suc.prems(4,3)] that
    by (auto simp: down_def came_from_down_def)
  have vis: "visited offset d pk"
    using visited_Suc [OF Suc.prems(4,3)] came_from_down_end [of ?f k ?lo ?hi] Suc.prems(3)
    by (auto simp: pk_def down_def came_from_down_def)
  then have pbest: "best old new offset d pk px" using ready by (simp add: ready_def px_def)
  have v: "u + offset - k = (if down then py + 1 else py)"
    using pbest \<open>\<not> down \<Longrightarrow> 0 < k\<close>
    by (cases down) (auto simp: py_def u_def pk_def best_def Suc_diff_le)
  have slide: "slide old new u (u + offset - k) = (oldi, newi)"
    using xy \<open>x = oldi \<and> y = newi\<close>
    by (auto simp: diag_end_slide diag_start_def u_def px_def pk_def down_def split: if_splits)
  have le: "u \<le> oldi" "u + offset - k \<le> newi" using slide_props [OF slide] by auto
  obtain bs where bs: "back_slide px py oldi newi steps = (u, u + offset - k, steps @ bs)"
    "walk old new u (u + offset - k) (rev bs) = Some (oldi, newi)" "cost bs = 0"
    using back_slide_steps [OF slide, of px py steps] v by (auto simp: u_def split: if_splits)
  define e where "e = (if down then Insert py else Delete px)"
  have step: "back_step ?f offset (Suc d) oldi newi steps = (px, py, steps @ bs @ [e])"
    using bs v
    by (simp only: back_step_def kidx Let_def down_def [symmetric] pk_def [symmetric]
        px_def [symmetric] py_def [symmetric]) (auto simp: u_def e_def split: if_splits)
  have e: "walk old new px py [e] = Some (u, u + offset - k)"
    using le v Suc.prems(7,8) by (auto simp: e_def u_def split: if_splits)
  have grid: "px \<le> length old" "py \<le> length new"
    using le v Suc.prems(7,8) by (auto simp: u_def split: if_splits)
  obtain bs2 where b2:
    "back_loop trace offset (rev [0..<d + 1]) px py (steps @ bs @ [e]) = (steps @ bs @ [e]) @ bs2"
    "walk old new 0 0 (rev bs2) = Some (px, py)" "cost bs2 = d"
    using Suc.IH [OF _ _ _ vis pbest py_def grid, of "steps @ bs @ [e]"] Suc.prems(1-3)
    by (auto simp del: upt_Suc)
  have "back_loop trace offset (rev [0..<Suc d + 1]) oldi newi steps = steps @ (bs @ [e] @ bs2)"
    using step b2(1) Suc.prems(2) by (simp add: get_def)
  moreover have "walk old new 0 0 (rev (bs @ [e] @ bs2)) = Some (oldi, newi)"
    using b2(2) e bs(2) walk_append [of old new px py "[e]" "rev bs"] by (simp add: walk_append)
  moreover have "cost (bs @ [e] @ bs2) = Suc d" using b2(3) bs(3) by (simp add: e_def)
  ultimately show ?case by blast
qed

section \<open>The search\<close>

lemma pass_return:
  assumes "\<forall>i\<le>d. ready old new offset i (trace ! i)" and "d \<le> offset" and "d < length trace"
    and "scan_pass old new offset (offset - d) (offset + d) (offset - d) (trace ! d) = None"
  shows "\<exists>k. visited offset d k \<and> best old new offset d k (length old)
    \<and> length new = length old + offset - k"
proof -
  from scan_pass_None [OF assms(4)] obtain k where k: "visited offset d k"
    "ends old new (diag_end old new offset (trace ! d) (offset - d) (offset + d) k)"
    by (auto simp only: visited_range [OF assms(2)])
  then obtain x y where xy: "diag_end old new offset (trace ! d) (offset - d) (offset + d) k = (x, y)"
    and ge: "length old \<le> x" "length new \<le> y" by (auto simp: ends_def intro: prod.collapse [symmetric])
  have b: "best old new offset d k x" "y = x + offset - k" "k \<le> x + offset"
    using diag_end_best [OF _ k(1) assms(2) xy] assms(1) by auto
  then have "reach old new d x y" by (simp add: best_def)
  from reach_clip [OF this] ge obtain d' where d': "reach old new d' (length old) (length new)"
    "d' + (x - length old) + (y - length new) \<le> d" by (auto simp: min_absorb2)
  have "\<not> d' < d"
  proof
    assume "d' < d"
    then have "ready old new offset (Suc d') (trace ! Suc d')" using assms(1) by auto
    moreover have "d' \<le> offset" using \<open>d' < d\<close> assms(2) by simp
    then obtain k' where k': "length old + offset = length new + k'"
      using reach_diagonal [OF d'(1)] that [of "length old + offset - length new"] by simp
    moreover note vis = reach_visited [OF d'(1) k']
    ultimately have "best old new offset d' k' (cell (trace ! Suc d') k')"
      "\<not> (length old \<le> cell (trace ! Suc d') k'
          \<and> length new \<le> cell (trace ! Suc d') k' + offset - k')"
      by (auto simp: ready_def)
    moreover from this have "length old \<le> cell (trace ! Suc d') k'"
      using d'(1) k' by (auto simp: best_def)
    ultimately show False using k' by (auto simp: best_def)
  qed
  with d'(2) ge have "x = length old" "y = length new" by auto
  with b k(1) show ?thesis by auto
qed

lemma not_reached:
  assumes "ready old new offset (Suc d) front" and "d \<le> offset"
  shows "\<not> reach old new d (length old) (length new)"
proof
  assume r: "reach old new d (length old) (length new)"
  obtain k where k: "length old + offset = length new + k"
    using reach_diagonal [OF r] assms(2) that [of "length old + offset - length new"] by simp
  with reach_visited [OF r k] assms(1) have
    "best old new offset d k (cell front k)"
    "\<not> (length old \<le> cell front k \<and> length new \<le> cell front k + offset - k)"
    by (auto simp: ready_def)
  moreover from this have "length old \<le> cell front k" using r k by (auto simp: best_def)
  ultimately show False using k by auto
qed

lemma search_result:
  assumes "\<forall>i\<le>d. ready old new m i ((trace @ [front]) ! i)" and "length trace = d" and "d \<le> Suc m"
  shows "case search old new m d front trace of
      Some s \<Rightarrow> valid_script old new s \<and> cost s \<le> m
        \<and> (\<forall>c<cost s. \<not> reach old new c (length old) (length new))
    | None \<Rightarrow> (\<forall>c\<le>m. \<not> reach old new c (length old) (length new))"
  using assms
proof (induction old new m d front trace rule: search.induct)
  case (1 old new m d front trace)
  have below: "\<not> reach old new c (length old) (length new)" if "c < d" for c
    using 1(2) that 1(4) not_reached [of old new m c "(trace @ [front]) ! Suc c"] by auto
  have front: "(trace @ [front]) ! d = front" unfolding 1(3) [symmetric] by simp
  show ?case
  proof (cases "d \<le> m")
    case False
    with below show ?thesis by (simp add: search.simps [of old new m d])
  next
    case True
    show ?thesis
    proof (cases "scan_pass old new m (m - d) (m + d) (m - d) front")
      case None
      have s: "search old new m d front trace
          = Some (backtrack (trace @ [front]) m d (length old) (length new))"
        using True None by (simp add: search.simps [of old new m d] Let_def)
      from pass_return [OF 1(2) True] None front 1(3) obtain k where k: "visited m d k"
        "best old new m d k (length old)" "length new = length old + m - k" by auto
      from back_loop_steps [OF 1(2) _ True k, of "[]"] 1(3) obtain bs where
        "back_loop (trace @ [front]) m (rev [0..<d + 1]) (length old) (length new) [] = bs"
        "walk old new 0 0 (rev bs) = Some (length old, length new)" "cost bs = d" by auto
      with s True below show ?thesis
        by (simp add: backtrack_def valid_script_def cost_def flip: rev_filter)
    next
      case (Some front')
      then have s: "search old new m d front trace = search old new m (d + 1) front' (trace @ [front])"
        using True by (simp add: search.simps [of old new m d] Let_def)
      have "ready old new m (Suc d) front'"
        using scan_pass_ready [OF _ True Some] 1(2) front by auto
      then have "\<forall>i\<le>d + 1. ready old new m i (((trace @ [front]) @ [front']) ! i)"
        using 1(2,3) nth_append [of "trace @ [front]" "[front']"] by (auto simp: le_Suc_eq)
      with 1(1) [OF True refl refl refl refl Some] 1(3) True show ?thesis unfolding s by simp
    qed
  qed
qed

lemma align_result:
  "case align old new of
      Some s \<Rightarrow> valid_script old new s \<and> cost s \<le> min (length old + length new) MAX_EDIT_DISTANCE
        \<and> (\<forall>c<cost s. \<not> reach old new c (length old) (length new))
    | None \<Rightarrow> (\<forall>c\<le>min (length old + length new) MAX_EDIT_DISTANCE.
        \<not> reach old new c (length old) (length new))"
proof -
  let ?m = "min (length old + length new) MAX_EDIT_DISTANCE"
  have "ready old new ?m 0 (replicate (?m * 2 + 1) 0)"
    by (auto simp: ready_def cell_def get_def simp del: replicate_Suc)
  then show ?thesis
    using search_result [of 0 old new ?m "[]" "replicate (?m * 2 + 1) 0"]
    by (simp add: align_def Let_def)
qed

lemma valid_reach: "valid_script old new s \<Longrightarrow> reach old new (cost s) (length old) (length new)"
  using walk_reach [OF reach.start, of old new s] by (simp add: valid_script_def)

lemma align_valid: "align old new = Some s \<Longrightarrow> valid_script old new s"
  using align_result [of old new] by simp

lemma align_None_iff:
  "align old new = None \<longleftrightarrow> (\<forall>s. valid_script old new s \<longrightarrow> MAX_EDIT_DISTANCE < cost s)"
proof (cases "align old new")
  case None
  with align_result [of old new]
  have far: "\<not> reach old new c (length old) (length new)"
    if "c \<le> min (length old + length new) MAX_EDIT_DISTANCE" for c
    using that by simp
  have "MAX_EDIT_DISTANCE < length old + length new"
    using far [of "length old + length new"] valid_reach [OF replace_all_valid, of old new] by fastforce
  then have "MAX_EDIT_DISTANCE < cost s" if "valid_script old new s" for s
    using far [of "cost s"] valid_reach [OF that] by (cases "cost s \<le> MAX_EDIT_DISTANCE") auto
  then show ?thesis using None by simp
next
  case (Some s)
  with align_result [of old new] show ?thesis by (auto simp: not_less)
qed

lemma align_minimal:
  "\<lbrakk>align old new = Some s; valid_script old new t\<rbrakk> \<Longrightarrow> cost s \<le> cost t"
  using align_result [of old new] valid_reach [of old new t] by (auto simp: not_less)

text \<open>The script of both callers: \<open>align\<close>, or \<open>replace_all\<close> where it gives up.\<close>

definition align_or_replace :: "'a list \<Rightarrow> 'a list \<Rightarrow> step list" where
  "align_or_replace old new =
     (case align old new of Some s \<Rightarrow> s | None \<Rightarrow> replace_all (length old) (length new))"

lemma align_or_replace_valid: "valid_script old new (align_or_replace old new)"
  using align_valid [of old new] replace_all_valid by (auto simp: align_or_replace_def split: option.splits)

lemma walk_equals:
  assumes "k + n \<le> length xs"
  shows "walk xs xs k k (map (\<lambda>i. Equal i i) [k..<k + n]) = Some (k + n, k + n)"
  using assms
proof (induction n arbitrary: k)
  case (Suc n)
  have "[k..<k + Suc n] = k # [Suc k..<Suc k + n]" by (simp add: upt_conv_Cons del: upt_Suc)
  with Suc.IH [of "Suc k"] Suc.prems show ?case by simp
qed simp

lemma cost_zero_walk:
  "\<lbrakk>walk old new i j s = Some (i', j'); cost s = 0\<rbrakk>
     \<Longrightarrow> s = map (\<lambda>n. Equal (i + n) (j + n)) [0..<length s] \<and> i' = i + length s \<and> j' = j + length s"
proof (induction old new i j s rule: walk.induct)
  case (2 old new i j a b s)
  then show ?case by (auto split: if_splits simp: upt_conv_Cons map_Suc_upt [symmetric] comp_def
        simp del: upt_Suc map_Suc_upt)
qed (auto split: if_splits)

lemma align_same: "align xs xs = Some (map (\<lambda>i. Equal i i) [0..<length xs])"
proof -
  let ?e = "map (\<lambda>i. Equal i i) [0..<length xs]"
  have v: "valid_script xs xs ?e" "cost ?e = 0"
    using walk_equals [of 0 "length xs" xs] by (simp_all add: valid_script_def cost_def filter_map comp_def)
  then obtain s where s: "align xs xs = Some s" using align_None_iff [of xs xs] by fastforce
  then have "cost s = 0" using align_minimal [OF s v(1)] v(2) by simp
  then show ?thesis using cost_zero_walk [of xs xs 0 0 s] align_valid [OF s] s
    by (simp add: valid_script_def)
qed

section \<open>Properties\<close>

text \<open>C14. When \<^verbatim>\<open>align\<close> returns a script, it is an edit script from the old to the new sequence that
  visits every old and every new index once and in order, and no edit script is shorter.\<close>

theorem align_shortest:
  assumes "align old new = Some s"
  shows "valid_script old new s \<and> (\<forall>t. valid_script old new t \<longrightarrow> cost s \<le> cost t)"
  using align_valid [OF assms] align_minimal [OF assms] by blast

theorem align_shortest_witness:
  "valid_script [1, 2, 3, 4] [1, 3, 5, 4 :: nat] [Equal 0 0, Delete 1, Equal 2 1, Insert 2, Equal 3 3]
   \<and> cost [Equal 0 0, Delete 1, Equal 2 1, Insert 2, Equal 3 3]
     \<le> cost (replace_all (length [1, 2, 3, 4 :: nat]) (length [1, 3, 5, 4 :: nat]))"
proof -
  have "align [1, 2, 3, 4] [1, 3, 5, 4 :: nat] = Some [Equal 0 0, Delete 1, Equal 2 1, Insert 2, Equal 3 3]"
    by code_simp
  from align_shortest [OF this] show ?thesis using replace_all_valid by blast
qed

text \<open>\<^verbatim>\<open>align\<close> gives up exactly when every edit script is longer than \<^verbatim>\<open>MAX_EDIT_DISTANCE\<close>.\<close>

theorem align_gives_up:
  "align old new = None \<longleftrightarrow> (\<forall>s. valid_script old new s \<longrightarrow> MAX_EDIT_DISTANCE < cost s)"
  by (rule align_None_iff)

theorem align_gives_up_witness: "align [1 :: nat] [2] \<noteq> None"
proof
  assume "align [1 :: nat] [2] = None"
  then have "\<forall>s. valid_script [1 :: nat] [2] s \<longrightarrow> MAX_EDIT_DISTANCE < cost s"
    using align_gives_up [of "[1 :: nat]" "[2]"] by simp
  moreover have "valid_script [1 :: nat] [2] [Delete 0, Insert 0]" by (simp add: valid_script_def)
  ultimately show False by (force simp: MAX_EDIT_DISTANCE_def)
qed

text \<open>Two equal sequences are aligned item by item, with nothing deleted or inserted.\<close>

theorem align_identity: "align xs xs = Some (map (\<lambda>i. Equal i i) [0..<length xs])"
  by (rule align_same)

end
