(* ===== verification/Document.thy ===== *)
theory Document
  imports Prelude
begin

text \<open>
  \<^verbatim>\<open>crates/detent-core/src/doc.rs\<close>, the lossless line-oriented document: its data, parsing
  and printing, the three single-line edits and \<^verbatim>\<open>normalize\<close>. A Rust method that takes
  \<^verbatim>\<open>&mut self\<close> becomes a function from the document to the changed document. Plans of
  entry edits are the subject of theory \<open>Entry_Edit\<close>.

  The invariant \<open>doc_ok\<close> says when a list of lines is the parse of a text: it is what
  \<^verbatim>\<open>normalize\<close> restores, and every operation keeps it.
\<close>

section \<open>The code\<close>

record span =
  sp_start :: nat
  sp_end :: nat

datatype line_ending = Lf | CrLf | NoEnding

fun ending_str :: "line_ending \<Rightarrow> rstr" where
  "ending_str Lf = [LF]"
| "ending_str CrLf = [CR, LF]"
| "ending_str NoEnding = []"

datatype line_kind = Blank | Comment | Directive | Unknown

record line =
  kind :: line_kind
  raw :: rstr
  ending :: line_ending
  span :: span

definition span_new :: "nat \<Rightarrow> nat \<Rightarrow> span" where
  "span_new s e = \<lparr>sp_start = s, sp_end = e\<rparr>"

definition line_new :: "rstr \<Rightarrow> line_kind \<Rightarrow> line_ending \<Rightarrow> line" where
  "line_new r k e = \<lparr>kind = k, raw = r, ending = e, span = span_new 0 0\<rparr>"

text \<open>\<^verbatim>\<open>EditError\<close> and \<^verbatim>\<open>EditReport\<close> of \<^verbatim>\<open>module.rs\<close>, which every edit answers with.\<close>

datatype edit_error =
    LineBreakInValue rstr
  | IndexOutOfRange nat nat
  | Unsupported rstr

record edit_report =
  changed_lines :: nat
  added :: nat
  removed :: nat

record document =
  lines :: "line list"
  classify :: "rstr \<Rightarrow> line_kind"

text \<open>The terminator a segment of \<^verbatim>\<open>split_inclusive\<close> ends in, and the text before it.\<close>

definition split_ending :: "rstr \<Rightarrow> rstr \<times> line_ending" where
  "split_ending segment =
     (case strip_suffix_char LF segment of
        Some body \<Rightarrow>
          (case strip_suffix_char CR body of
             Some body' \<Rightarrow> (body', CrLf)
           | None \<Rightarrow> (body, Lf))
      | None \<Rightarrow> (segment, NoEnding))"

fun parse_segments :: "(rstr \<Rightarrow> line_kind) \<Rightarrow> nat \<Rightarrow> rstr list \<Rightarrow> line list" where
  "parse_segments cl offset [] = []"
| "parse_segments cl offset (segment # rest) =
     (let (r, e) = split_ending segment
      in \<lparr>kind = cl r, raw = r, ending = e, span = span_new offset (offset + str_len r)\<rparr>
         # parse_segments cl (offset + str_len segment) rest)"

definition parse :: "rstr \<Rightarrow> (rstr \<Rightarrow> line_kind) \<Rightarrow> document" where
  "parse src cl = \<lparr>lines = parse_segments cl 0 (split_inclusive LF src), classify = cl\<rparr>"

definition line_text :: "line \<Rightarrow> rstr" where
  "line_text l = raw l @ ending_str (ending l)"

definition render :: "document \<Rightarrow> rstr" where
  "render d = concat (map line_text (lines d))"

definition lines_of_kind :: "document \<Rightarrow> line_kind \<Rightarrow> line list" where
  "lines_of_kind d k = filter (\<lambda>l. kind l = k) (lines d)"

definition dominant_ending :: "document \<Rightarrow> line_ending" where
  "dominant_ending d =
     (let crlf = length (filter (\<lambda>l. ending l = CrLf) (lines d));
          lf = length (filter (\<lambda>l. ending l = Lf) (lines d))
      in if lf < crlf then CrLf else Lf)"

text \<open>The three passes of \<^verbatim>\<open>normalize\<close>.\<close>

definition settle_cr :: "line \<Rightarrow> line" where
  "settle_cr l =
     (if ending l = Lf \<and> raw l \<noteq> [] \<and> last (raw l) = CR
      then l\<lparr>raw := butlast (raw l), ending := CrLf\<rparr> else l)"

definition drop_empty_tail :: "line list \<Rightarrow> line list" where
  "drop_empty_tail ls =
     (if ls \<noteq> [] \<and> ending (last ls) = NoEnding \<and> raw (last ls) = [] then butlast ls else ls)"

fun respan :: "nat \<Rightarrow> line list \<Rightarrow> line list" where
  "respan offset [] = []"
| "respan offset (l # ls) =
     (let sp = span_new offset (offset + str_len (raw l))
      in l\<lparr>span := sp\<rparr> # respan (sp_end sp + str_len (ending_str (ending l))) ls)"

definition normalize_lines :: "line list \<Rightarrow> line list" where
  "normalize_lines ls = respan 0 (drop_empty_tail (map settle_cr ls))"

definition normalize :: "document \<Rightarrow> document" where
  "normalize d = d\<lparr>lines := normalize_lines (lines d)\<rparr>"

definition rebuild :: "(line list \<Rightarrow> line list) \<Rightarrow> document \<Rightarrow> document" where
  "rebuild f d = normalize (d\<lparr>lines := f (lines d)\<rparr>)"

definition check_raw :: "rstr \<Rightarrow> (edit_error, unit) result" where
  "check_raw r =
     (if list_ex (\<lambda>c. c = LF \<or> c = CR \<or> c = NUL) r then Inl (LineBreakInValue r) else Inr ())"

text \<open>\<^verbatim>\<open>lines.last_mut()\<close> with an assignment to the ending.\<close>

definition set_last_ending :: "line_ending \<Rightarrow> line list \<Rightarrow> line list" where
  "set_last_ending e ls = (if ls = [] then [] else butlast ls @ [(last ls)\<lparr>ending := e\<rparr>])"

definition insert_line :: "nat \<Rightarrow> rstr \<Rightarrow> document \<Rightarrow> (edit_error, document) result" where
  "insert_line idx r d =
     bind_result (check_raw r) (\<lambda>_.
       if length (lines d) < idx then Inl (IndexOutOfRange idx (length (lines d)))
       else
         (let dominant = dominant_ending d;
              at_end = (idx = length (lines d) \<and> lines d \<noteq> [] \<and> ending (last (lines d)) = NoEnding);
              ls = (if at_end then set_last_ending dominant (lines d) else lines d);
              e = (if at_end then NoEnding else dominant);
              new = line_new r (classify d r) e
          in Inr (normalize (d\<lparr>lines := take idx ls @ new # drop idx ls\<rparr>))))"

definition replace_raw :: "nat \<Rightarrow> rstr \<Rightarrow> document \<Rightarrow> (edit_error, document) result" where
  "replace_raw idx r d =
     bind_result (check_raw r) (\<lambda>_.
       case get (lines d) idx of
         None \<Rightarrow> Inl (IndexOutOfRange idx (length (lines d)))
       | Some l \<Rightarrow>
           Inr (normalize (d\<lparr>lines := (lines d)[idx := l\<lparr>kind := classify d r, raw := r\<rparr>]\<rparr>)))"

definition remove_line :: "nat \<Rightarrow> document \<Rightarrow> (edit_error, document) result" where
  "remove_line idx d =
     (if length (lines d) \<le> idx then Inl (IndexOutOfRange idx (length (lines d)))
      else
        (let gone = lines d ! idx;
             ls = take idx (lines d) @ drop (idx + 1) (lines d)
         in Inr (normalize (d\<lparr>lines :=
              (if ending gone = NoEnding then set_last_ending NoEnding ls else ls)\<rparr>))))"

section \<open>The invariant\<close>

text \<open>
  A line holds no terminator in its text; an \<^verbatim>\<open>Lf\<close> line does not end in a carriage return,
  which would make it a \<^verbatim>\<open>CrLf\<close> line; only the last line may lack a terminator, and then
  it is not empty; and the spans are the byte offsets of the rendered text.
\<close>

definition line_ok :: "line \<Rightarrow> bool" where
  "line_ok l \<longleftrightarrow> LF \<notin> set (raw l) \<and> (ending l = Lf \<longrightarrow> raw l = [] \<or> last (raw l) \<noteq> CR)"

definition ended :: "line \<Rightarrow> bool" where
  "ended l \<longleftrightarrow> ending l \<noteq> NoEnding"

text \<open>The shape an edit leaves before \<^verbatim>\<open>normalize\<close>.\<close>

definition shape :: "line list \<Rightarrow> bool" where
  "shape ls \<longleftrightarrow> (\<forall>l\<in>set ls. LF \<notin> set (raw l)) \<and> (\<forall>l\<in>set (butlast ls). ended l)"

definition lines_ok :: "line list \<Rightarrow> bool" where
  "lines_ok ls \<longleftrightarrow> list_all line_ok ls \<and> list_all ended (butlast ls)
     \<and> (ls \<noteq> [] \<longrightarrow> ended (last ls) \<or> raw (last ls) \<noteq> []) \<and> respan 0 ls = ls"

definition kinds_ok :: "(rstr \<Rightarrow> line_kind) \<Rightarrow> line list \<Rightarrow> bool" where
  "kinds_ok cl ls \<longleftrightarrow> list_all (\<lambda>l. kind l = cl (raw l)) ls"

definition doc_ok :: "document \<Rightarrow> bool" where
  "doc_ok d \<longleftrightarrow> lines_ok (lines d)"

lemmas doc_defs = doc_ok_def lines_ok_def line_ok_def ended_def list_all_iff

section \<open>Terminators\<close>

lemma split_ending_text: "split_ending s = (r, e) \<Longrightarrow> r @ ending_str e = s"
proof (cases s rule: rev_cases)
  case (snoc t c)
  then show "split_ending s = (r, e) \<Longrightarrow> r @ ending_str e = s"
    by (cases t rule: rev_cases)
      (auto simp: split_ending_def strip_suffix_char_def butlast_append split: if_splits)
qed (auto simp: split_ending_def strip_suffix_char_def)

lemma split_ending_line:
  assumes "LF \<notin> set r" and "e = Lf \<Longrightarrow> r = [] \<or> last r \<noteq> CR" and "e = NoEnding \<Longrightarrow> r \<noteq> []"
  shows "split_ending (r @ ending_str e) = (r, e)"
proof (cases e)
  case CrLf
  then have "r @ ending_str e = (r @ [CR]) @ [LF]" by simp
  then show ?thesis using CrLf unfolding split_ending_def strip_suffix_char_def
    by (simp only: butlast_snoc last_snoc) simp
next
  case NoEnding
  then have "last r \<noteq> LF" using assms by (metis last_in_set)
  then show ?thesis using NoEnding by (simp add: split_ending_def strip_suffix_char_def)
qed (use assms in \<open>auto simp: split_ending_def strip_suffix_char_def\<close>)

lemma split_ending_props:
  assumes "split_ending seg = (r, e)" and "seg \<noteq> []" and "LF \<notin> set (butlast seg)"
  shows "LF \<notin> set r" and "e = Lf \<Longrightarrow> r = [] \<or> last r \<noteq> CR" and "e = NoEnding \<longleftrightarrow> last seg \<noteq> LF"
    and "e = NoEnding \<Longrightarrow> r \<noteq> []"
proof -
  have "set seg = insert (last seg) (set (butlast seg))"
    using assms(2) by (metis append_butlast_last_id list.simps(15) rotate1.simps(2) set_rotate1)
  then show "LF \<notin> set r" "e = Lf \<Longrightarrow> r = [] \<or> last r \<noteq> CR" "e = NoEnding \<longleftrightarrow> last seg \<noteq> LF"
    "e = NoEnding \<Longrightarrow> r \<noteq> []"
    using assms by (auto simp: split_ending_def strip_suffix_char_def
        dest: in_set_butlastD split: option.splits if_splits)
qed

lemma segments_wf:
  "\<forall>seg\<in>set (split_inclusive d s). seg \<noteq> [] \<and> d \<notin> set (butlast seg)"
  by (induction s) (auto split: list.splits if_splits)

lemma segments_ended: "\<forall>seg\<in>set (butlast (split_inclusive d s)). seg \<noteq> [] \<and> last seg = d"
  by (induction s) (auto split: list.splits if_splits)

lemma split_inclusive_line:
  "d \<notin> set r \<Longrightarrow> split_inclusive d (r @ d # s) = (r @ [d]) # split_inclusive d s"
  by (induction r) auto

lemma split_inclusive_tail:
  "d \<notin> set r \<Longrightarrow> r \<noteq> [] \<Longrightarrow> split_inclusive d r = [r]"
proof (induction r)
  case (Cons c r)
  then show ?case by (cases r) auto
qed simp

section \<open>Parsing and rendering\<close>

lemma parse_segments_text: "concat (map line_text (parse_segments cl off segs)) = concat segs"
  by (induction segs arbitrary: off)
    (auto simp: line_text_def split_ending_text Let_def split: prod.splits)

lemma render_parse [simp]: "render (parse src cl) = src"
  by (simp add: render_def parse_def parse_segments_text)

lemma respan_parse_segments:
  "\<forall>seg\<in>set segs. seg \<noteq> [] \<Longrightarrow> respan off (parse_segments cl off segs) = parse_segments cl off segs"
proof (induction segs arbitrary: off)
  case (Cons seg segs)
  obtain r e where re: "split_ending seg = (r, e)" by fastforce
  then have "str_len seg = str_len r + str_len (ending_str e)"
    using split_ending_text [OF re] by (metis str_len_simps(3))
  then show ?case using Cons re by (simp add: span_new_def add.assoc)
qed simp

lemma length_parse_segments [simp]: "length (parse_segments cl off segs) = length segs"
  by (induction segs arbitrary: off) (auto simp: Let_def split: prod.splits)

lemma parse_segments_line:
  "l \<in> set (parse_segments cl off segs) \<Longrightarrow>
     \<exists>seg\<in>set segs. split_ending seg = (raw l, ending l) \<and> kind l = cl (raw l)"
  by (induction segs arbitrary: off) (auto simp: Let_def split: prod.splits)

lemma butlast_parse_segments:
  "butlast (parse_segments cl off segs) = parse_segments cl off (butlast segs)"
  by (induction segs arbitrary: off)
    (auto simp: Let_def parse_segments.simps split: prod.splits dest!: arg_cong [of _ "[]" length])

lemma last_parse_segments:
  "segs \<noteq> [] \<Longrightarrow> split_ending (last segs) =
     (raw (last (parse_segments cl off segs)), ending (last (parse_segments cl off segs)))"
proof (induction segs arbitrary: off)
  case (Cons seg segs)
  then show ?case by (cases segs) (auto simp: Let_def split: prod.splits)
qed simp

lemma parse_doc_ok [simp]: "doc_ok (parse src cl)"
proof -
  let ?segs = "split_inclusive LF src" and ?ls = "parse_segments cl 0 (split_inclusive LF src)"
  have ok: "line_ok l" if "l \<in> set ?ls" for l
    using parse_segments_line [OF that] segments_wf split_ending_props(1,2)
    unfolding line_ok_def by metis
  have "ended l" if "l \<in> set (butlast ?ls)" for l
    using parse_segments_line that segments_ended [of LF src] segments_wf [of LF src]
      split_ending_props(3) in_set_butlastD
    unfolding ended_def butlast_parse_segments by metis
  moreover have "ended (last ?ls) \<or> raw (last ?ls) \<noteq> []" if "?ls \<noteq> []"
  proof -
    have "?segs \<noteq> []" using that by auto
    then show ?thesis using last_parse_segments [of ?segs cl 0] segments_wf [of LF src]
        split_ending_props(4) unfolding ended_def by (metis last_in_set)
  qed
  moreover have "respan 0 ?ls = ?ls"
    using segments_wf by (intro respan_parse_segments) auto
  ultimately show ?thesis using ok by (simp add: doc_ok_def parse_def lines_ok_def list_all_iff)
qed

lemma parse_kinds_ok [simp]: "kinds_ok cl (lines (parse src cl))"
  using parse_segments_line unfolding kinds_ok_def list_all_iff parse_def by fastforce

text \<open>A list of lines that satisfies the invariant is the parse of its own text.\<close>

lemma line_text_segments:
  assumes "list_all line_ok ls" and "list_all ended (butlast ls)"
    and "ls \<noteq> [] \<longrightarrow> ended (last ls) \<or> raw (last ls) \<noteq> []"
  shows "split_inclusive LF (concat (map line_text ls)) = map line_text ls"
  using assms
proof (induction ls)
  case (Cons l ls)
  have "split_inclusive LF (line_text l @ concat (map line_text ls))
      = line_text l # split_inclusive LF (concat (map line_text ls))"
  proof (cases "ended l")
    case True
    then obtain r where "line_text l = r @ [LF]" "LF \<notin> set r"
      using Cons.prems(1) by (cases "ending l") (auto simp: line_text_def line_ok_def ended_def)
    then show ?thesis using split_inclusive_line by simp
  next
    case False
    then have "ls = []" "raw l \<noteq> []" using Cons.prems(2,3) by (auto split: if_splits)
    then show ?thesis using False Cons.prems(1) split_inclusive_tail
      by (auto simp: line_text_def line_ok_def ended_def)
  qed
  with Cons show ?case by (cases ls) auto
qed simp

lemma parse_segments_lines:
  assumes "list_all line_ok ls" and "list_all ended (butlast ls)"
    and "ls \<noteq> [] \<longrightarrow> ended (last ls) \<or> raw (last ls) \<noteq> []"
    and "respan off ls = ls" and "kinds_ok cl ls"
  shows "parse_segments cl off (map line_text ls) = ls"
  using assms
proof (induction ls arbitrary: off)
  case (Cons l ls)
  have "split_ending (line_text l) = (raw l, ending l)"
    unfolding line_text_def using Cons.prems(1-3)
    by (intro split_ending_line) (auto simp: line_ok_def ended_def split: if_splits)
  moreover have "respan (off + str_len (line_text l)) ls = ls"
    and "span l = span_new off (off + str_len (raw l))"
    using Cons.prems(4) by (auto simp: Let_def span_new_def line_text_def add.assoc dest: arg_cong [of _ l span])
  ultimately show ?case using Cons
    by (cases ls) (auto simp: Let_def kinds_ok_def)
qed simp

lemma parse_render:
  assumes "doc_ok d" and "kinds_ok (classify d) (lines d)"
  shows "parse (render d) (classify d) = d"
  using assms line_text_segments [of "lines d"] parse_segments_lines [of "lines d" 0 "classify d"]
  by (simp add: parse_def render_def doc_ok_def lines_ok_def)

section \<open>Normalization\<close>

lemma settle_cr_text [simp]: "line_text (settle_cr l) = line_text l"
proof (cases "ending l = Lf \<and> raw l \<noteq> [] \<and> last (raw l) = CR")
  case True
  then have "butlast (raw l) @ [CR] = raw l" using append_butlast_last_id by force
  then have "butlast (raw l) @ [CR, LF] = raw l @ [LF]"
    by (metis append.assoc append_Cons append_Nil)
  with True show ?thesis by (simp add: settle_cr_def line_text_def)
qed (auto simp: settle_cr_def)

lemma drop_empty_tail_text:
  "concat (map line_text (drop_empty_tail ls)) = concat (map line_text ls)"
proof (cases ls rule: rev_cases)
  case (snoc ks l)
  then show ?thesis by (simp add: drop_empty_tail_def line_text_def)
qed (simp add: drop_empty_tail_def)

lemma respan_text [simp]: "map line_text (respan off ls) = map line_text ls"
  by (induction ls arbitrary: off) (auto simp: Let_def line_text_def)

lemma respan_map:
  "(\<And>l sp. f (l\<lparr>span := sp\<rparr>) = f l) \<Longrightarrow> map f (respan off ls) = map f ls"
  by (induction ls arbitrary: off) (auto simp: Let_def)

lemma respan_fields [simp]:
  "map kind (respan off ls) = map kind ls"
  "map raw (respan off ls) = map raw ls"
  "map ending (respan off ls) = map ending ls"
  by (simp_all add: respan_map)

lemma respan_respan [simp]: "respan off (respan off ls) = respan off ls"
  by (induction ls arbitrary: off) (auto simp: Let_def)

lemma respan_Nil_iff [simp]: "respan off ls = [] \<longleftrightarrow> ls = []"
  by (cases ls) (auto simp: Let_def)

lemma respan_butlast: "butlast (respan off ls) = respan off (butlast ls)"
  by (induction ls arbitrary: off) (auto simp: Let_def)

lemma respan_last: "ls \<noteq> [] \<Longrightarrow> raw (last (respan off ls)) = raw (last ls) \<and> ending (last (respan off ls)) = ending (last ls)"
  using last_map [of "respan off ls" raw] last_map [of ls raw]
    last_map [of "respan off ls" ending] last_map [of ls ending]
  by (metis respan_Nil_iff respan_fields(2,3))

lemma respan_list_all:
  "(\<And>l sp. P (l\<lparr>span := sp\<rparr>) = P l) \<Longrightarrow> list_all P (respan off ls) = list_all P ls"
  by (induction ls arbitrary: off) (auto simp: Let_def)

lemma render_normalize [simp]: "render (normalize d) = render d"
proof -
  have "map line_text (map settle_cr (lines d)) = map line_text (lines d)" by simp
  then show ?thesis
    by (simp add: render_def normalize_def normalize_lines_def drop_empty_tail_text del: map_map)
qed

lemma settle_cr_ok: "LF \<notin> set (raw l) \<Longrightarrow> line_ok (settle_cr l)"
  by (auto simp: settle_cr_def line_ok_def dest: in_set_butlastD)

lemma settle_cr_ended [simp]: "ended (settle_cr l) = ended l"
  by (simp add: settle_cr_def ended_def)

lemma butlast_drop_empty_tail_subset: "set (butlast (drop_empty_tail ls)) \<subseteq> set (butlast ls)"
  by (auto simp: drop_empty_tail_def dest: in_set_butlastD)

lemma normalize_lines_ok:
  assumes "shape ls"
  shows "lines_ok (normalize_lines ls)"
proof -
  let ?ks = "drop_empty_tail (map settle_cr ls)"
  have "set ?ks \<subseteq> set (map settle_cr ls)"
    by (auto simp: drop_empty_tail_def dest: in_set_butlastD)
  then have 1: "list_all line_ok ?ks"
    using assms settle_cr_ok unfolding shape_def list_all_iff by fastforce
  have pre: "\<forall>l\<in>set (butlast (map settle_cr ls)). ended l"
    using assms by (simp add: shape_def flip: map_butlast)
  then have 2: "list_all ended (butlast ?ks)"
    using butlast_drop_empty_tail_subset [of "map settle_cr ls"] by (auto simp: list_all_iff)
  have 3: "?ks \<noteq> [] \<longrightarrow> ended (last ?ks) \<or> raw (last ?ks) \<noteq> []"
  proof (cases "map settle_cr ls" rule: rev_cases)
    case (snoc ks l)
    with pre have "\<forall>k\<in>set ks. ended k" by simp
    with snoc show ?thesis by (auto simp: drop_empty_tail_def ended_def)
  qed (simp add: drop_empty_tail_def)
  show ?thesis unfolding lines_ok_def normalize_lines_def
    using 1 2 3 respan_last [of ?ks 0]
    by (auto simp: respan_butlast respan_list_all line_ok_def ended_def)
qed

lemma normalize_doc_ok: "shape (lines d) \<Longrightarrow> doc_ok (normalize d)"
  by (simp add: doc_ok_def normalize_def normalize_lines_ok)

lemma normalize_lines_id:
  assumes "lines_ok ls"
  shows "normalize_lines ls = ls"
proof -
  have "map settle_cr ls = ls"
    using assms by (intro map_idI) (auto simp: settle_cr_def lines_ok_def line_ok_def list_all_iff)
  moreover have "drop_empty_tail ls = ls"
    using assms by (auto simp: drop_empty_tail_def lines_ok_def ended_def)
  ultimately show ?thesis using assms by (simp add: normalize_lines_def lines_ok_def)
qed

lemma normalize_kinds_ok:
  assumes "kinds_ok cl ls" and "\<And>r. cl (r @ [CR]) = cl r"
  shows "kinds_ok cl (normalize_lines ls)"
proof -
  have "kind (settle_cr l) = cl (raw (settle_cr l))" if "kind l = cl (raw l)" for l
    using that assms(2) [of "butlast (raw l)"] append_butlast_last_id [of "raw l"]
    by (cases "raw l" rule: rev_cases) (auto simp: settle_cr_def)
  then have "list_all (\<lambda>l. kind l = cl (raw l)) (map settle_cr ls)"
    using assms(1) by (auto simp: kinds_ok_def list_all_iff)
  then show ?thesis unfolding kinds_ok_def normalize_lines_def
    by (subst respan_list_all)
      (auto simp: drop_empty_tail_def list_all_iff simp del: set_map dest!: in_set_butlastD)
qed

section \<open>The single-line edits\<close>

lemma doc_ok_shape: "doc_ok d \<Longrightarrow> shape (lines d)"
  by (auto simp: doc_defs shape_def)

lemma check_raw_Inr [simp]:
  "check_raw r = Inr u \<longleftrightarrow> LF \<notin> set r \<and> CR \<notin> set r \<and> NUL \<notin> set r"
  by (auto simp: check_raw_def list_ex_iff)

lemma check_raw_Inl [simp]:
  "check_raw r = Inl e \<longleftrightarrow> e = LineBreakInValue r \<and> (LF \<in> set r \<or> CR \<in> set r \<or> NUL \<in> set r)"
  by (auto simp: check_raw_def list_ex_iff)

lemma bind_check_raw [simp]:
  "\<lbrakk>LF \<notin> set r; CR \<notin> set r; NUL \<notin> set r\<rbrakk> \<Longrightarrow> bind_result (check_raw r) f = f ()"
  using check_raw_Inr [of r "()"] by (simp del: check_raw_Inr add: check_raw_def list_ex_iff)

lemma check_raw_line_ok:
  "\<lbrakk>check_raw r = Inr (); raw l = r\<rbrakk> \<Longrightarrow> line_ok l"
  using last_in_set [of r] unfolding line_ok_def check_raw_Inr by metis

lemma dominant_not_None [simp]: "dominant_ending d \<noteq> NoEnding"
  by (simp add: dominant_ending_def Let_def)

lemma dominant_ended [simp]: "ended (line_new r k (dominant_ending d))"
  by (simp add: ended_def line_new_def)

lemma raw_line_new [simp]: "raw (line_new r k e) = r" "kind (line_new r k e) = k" "ending (line_new r k e) = e"
  by (simp_all add: line_new_def)

lemma set_last_ending_fields [simp]:
  "map raw (set_last_ending e ls) = map raw ls" "map kind (set_last_ending e ls) = map kind ls"
  by (cases ls rule: rev_cases; simp add: set_last_ending_def)+

lemma length_set_last_ending [simp]: "length (set_last_ending e ls) = length ls"
  by (simp add: set_last_ending_def)

lemma shape_iff: "shape ls \<longleftrightarrow> (\<forall>r\<in>set (map raw ls). LF \<notin> set r) \<and> (\<forall>l\<in>set (butlast ls). ended l)"
  by (simp add: shape_def)

lemma butlast_set_last_ending [simp]: "butlast (set_last_ending e ls) = butlast ls"
  by (simp add: set_last_ending_def)

lemma shape_set_last_ending [simp]: "shape (set_last_ending e ls) = shape ls"
  by (simp only: shape_iff set_last_ending_fields butlast_set_last_ending)

lemma shape_insert:
  assumes "shape ls" and "LF \<notin> set r" and "i \<le> length ls"
    and "i < length ls \<Longrightarrow> ended (line_new r k e)" and "i = length ls \<Longrightarrow> \<forall>l\<in>set ls. ended l"
  shows "shape (take i ls @ line_new r k e # drop i ls)"
proof (cases "i = length ls")
  case True
  then show ?thesis using assms by (auto simp: shape_def butlast_append)
next
  case False
  then have i: "i < length ls" "drop i ls \<noteq> []" using assms(3) by auto
  have "set (butlast (drop i ls)) \<subseteq> set (butlast ls)" "set (take i ls) \<subseteq> set (butlast ls)"
    using i by (auto simp: butlast_drop set_drop_subset subsetD [OF set_drop_subset]
        take_butlast [symmetric] dest: in_set_takeD)
  then show ?thesis using assms i by (auto simp: shape_def butlast_append dest: in_set_takeD in_set_dropD)
qed

text \<open>Each edit in one equation, without the machinery of the early returns.\<close>

definition breaks_line :: "rstr \<Rightarrow> bool" where
  "breaks_line r \<longleftrightarrow> LF \<in> set r \<or> CR \<in> set r \<or> NUL \<in> set r"

definition unterminated :: "document \<Rightarrow> bool" where
  "unterminated d \<longleftrightarrow> lines d \<noteq> [] \<and> ending (last (lines d)) = NoEnding"

lemma bind_check_raw_if:
  "bind_result (check_raw r) f = (if breaks_line r then Inl (LineBreakInValue r) else f ())"
  by (auto simp: check_raw_def list_ex_iff breaks_line_def)

lemma insert_line_eq:
  "insert_line idx r d =
     (if breaks_line r then Inl (LineBreakInValue r)
      else if length (lines d) < idx then Inl (IndexOutOfRange idx (length (lines d)))
      else Inr (normalize (d\<lparr>lines :=
        (if idx = length (lines d) \<and> unterminated d
         then set_last_ending (dominant_ending d) (lines d) @ [line_new r (classify d r) NoEnding]
         else take idx (lines d) @ line_new r (classify d r) (dominant_ending d) # drop idx (lines d))\<rparr>)))"
  by (auto simp: insert_line_def bind_check_raw_if Let_def unterminated_def)

lemma replace_raw_eq:
  "replace_raw idx r d =
     (if breaks_line r then Inl (LineBreakInValue r)
      else if length (lines d) \<le> idx then Inl (IndexOutOfRange idx (length (lines d)))
      else Inr (normalize (d\<lparr>lines :=
        take idx (lines d) @ (lines d ! idx)\<lparr>kind := classify d r, raw := r\<rparr> # drop (idx + 1) (lines d)\<rparr>)))"
  by (auto simp: replace_raw_def bind_check_raw_if get_def upd_conv_take_nth_drop)

lemma insert_line_ok:
  assumes "doc_ok d" and "insert_line idx r d = Inr d'"
  shows "doc_ok d'"
proof -
  have sh: "shape (lines d)" using doc_ok_shape [OF assms(1)] .
  have i: "idx \<le> length (lines d)" "LF \<notin> set r"
    using assms(2) by (auto simp: insert_line_eq breaks_line_def split: if_splits)
  show ?thesis
  proof (cases "idx = length (lines d) \<and> unterminated d")
    case True
    let ?ls = "set_last_ending (dominant_ending d) (lines d)"
    have "\<forall>l\<in>set ?ls. ended l"
      using True sh by (cases "lines d" rule: rev_cases)
        (auto simp: shape_def set_last_ending_def ended_def unterminated_def)
    then have "shape (take idx ?ls @ line_new r (classify d r) NoEnding # drop idx ?ls)"
      using sh i True by (intro shape_insert) auto
    then show ?thesis using True assms(2)
      by (auto simp: insert_line_eq split: if_splits intro!: normalize_doc_ok)
  next
    case False
    have "\<forall>l\<in>set (lines d). ended l" if "idx = length (lines d)"
      using False that sh by (cases "lines d" rule: rev_cases)
        (auto simp: shape_def unterminated_def ended_def)
    then have "shape (take idx (lines d) @ line_new r (classify d r) (dominant_ending d) # drop idx (lines d))"
      using sh i by (intro shape_insert) auto
    then show ?thesis using False assms(2)
      by (auto simp: insert_line_eq split: if_splits intro!: normalize_doc_ok)
  qed
qed

lemma replace_raw_ok:
  assumes "doc_ok d" and "replace_raw idx r d = Inr d'"
  shows "doc_ok d'"
proof -
  let ?l = "(lines d ! idx)\<lparr>kind := classify d r, raw := r\<rparr>"
  have i: "idx < length (lines d)" "LF \<notin> set r"
    and d': "d' = normalize (d\<lparr>lines := (lines d)[idx := ?l]\<rparr>)"
    using assms(2) by (auto simp: replace_raw_eq breaks_line_def upd_conv_take_nth_drop split: if_splits)
  have sh: "shape (lines d)" using doc_ok_shape [OF assms(1)] .
  have "ended ?l" if "idx < length (lines d) - 1"
  proof -
    have "lines d ! idx = butlast (lines d) ! idx" using that by (simp add: nth_butlast)
    moreover have "butlast (lines d) ! idx \<in> set (butlast (lines d))" using that by simp
    ultimately show ?thesis using sh by (auto simp: shape_def ended_def)
  qed
  then have "\<forall>l\<in>set (butlast ((lines d)[idx := ?l])). ended l"
    using sh i(1) set_update_subset_insert [of "butlast (lines d)" idx ?l]
    by (auto simp: shape_def butlast_list_update)
  moreover have "LF \<notin> set (raw l)" if "l \<in> set ((lines d)[idx := ?l])" for l
    using sh i(2) that set_update_subset_insert [of "lines d" idx ?l] by (auto simp: shape_def)
  ultimately show ?thesis unfolding d' by (intro normalize_doc_ok) (simp add: shape_def)
qed

lemma shape_remove:
  assumes "shape ls" and "i < length ls"
  shows "shape (take i ls @ drop (i + 1) ls)"
proof -
  have "set (take i ls) \<subseteq> set (butlast ls)" using assms(2)
    by (metis butlast_take in_set_takeD subsetI take_butlast)
  moreover have "set (butlast (drop (i + 1) ls)) \<subseteq> set (butlast ls)"
    by (metis butlast_drop set_drop_subset)
  moreover have "set (butlast (take i ls)) \<subseteq> set (butlast ls)"
    using \<open>set (take i ls) \<subseteq> set (butlast ls)\<close> by (auto dest: in_set_butlastD)
  ultimately show ?thesis using assms(1)
    by (auto simp: shape_def butlast_append dest: in_set_takeD in_set_dropD)
qed

lemma remove_line_ok:
  assumes "doc_ok d" and "remove_line idx d = Inr d'"
  shows "doc_ok d'"
proof -
  let ?ls = "take idx (lines d) @ drop (idx + 1) (lines d)"
  have i: "idx < length (lines d)" using assms(2) by (auto simp: remove_line_def split: if_splits)
  then have d': "d' = normalize (d\<lparr>lines := if ending (lines d ! idx) = NoEnding
      then set_last_ending NoEnding ?ls else ?ls\<rparr>)"
    using assms(2) by (auto simp: remove_line_def Let_def)
  have "shape ?ls" using shape_remove doc_ok_shape assms(1) i by blast
  then show ?thesis unfolding d' by (intro normalize_doc_ok) simp
qed

text \<open>A sequence of edits, each applied to the document the one before left behind; an edit
  that fails leaves it as it was, as a caller that keeps going sees it.\<close>

datatype edit = InsertLine nat rstr | ReplaceRaw nat rstr | RemoveLine nat

fun apply_edit :: "edit \<Rightarrow> document \<Rightarrow> document" where
  "apply_edit (InsertLine i r) d = (case insert_line i r d of Inl _ \<Rightarrow> d | Inr d' \<Rightarrow> d')"
| "apply_edit (ReplaceRaw i r) d = (case replace_raw i r d of Inl _ \<Rightarrow> d | Inr d' \<Rightarrow> d')"
| "apply_edit (RemoveLine i) d = (case remove_line i d of Inl _ \<Rightarrow> d | Inr d' \<Rightarrow> d')"

lemma apply_edit_ok: "doc_ok d \<Longrightarrow> doc_ok (apply_edit e d)"
  by (cases e) (auto split: sum.splits intro: insert_line_ok replace_raw_ok remove_line_ok)

lemma apply_edits_ok: "doc_ok d \<Longrightarrow> doc_ok (fold apply_edit es d)"
  by (induction es arbitrary: d) (auto intro: apply_edit_ok)

lemma normalize_classify [simp]: "classify (normalize d) = classify d"
  by (simp add: normalize_def)

lemma apply_edit_classify [simp]: "classify (apply_edit e d) = classify d"
  by (cases e) (auto simp: insert_line_def replace_raw_def remove_line_def bind_result_def Let_def
      split: sum.splits option.splits)

lemma kinds_ok_normalize:
  "\<lbrakk>kinds_ok (classify d) (lines d); \<And>r. classify d (r @ [CR]) = classify d r\<rbrakk>
     \<Longrightarrow> kinds_ok (classify d) (lines (normalize d))"
  by (simp add: normalize_def normalize_kinds_ok)

lemma set_last_ending_kinds_ok [simp]: "kinds_ok cl (set_last_ending e ls) = kinds_ok cl ls"
  by (cases ls rule: rev_cases) (auto simp: kinds_ok_def set_last_ending_def)

lemma kinds_ok_append [simp]: "kinds_ok cl (xs @ ys) \<longleftrightarrow> kinds_ok cl xs \<and> kinds_ok cl ys"
  by (simp add: kinds_ok_def)

lemma kinds_ok_Cons [simp]: "kinds_ok cl (l # ls) \<longleftrightarrow> kind l = cl (raw l) \<and> kinds_ok cl ls"
  by (simp add: kinds_ok_def)

lemma kinds_ok_Nil [simp]: "kinds_ok cl []"
  by (simp add: kinds_ok_def)

lemma kinds_ok_part: "kinds_ok cl ls \<Longrightarrow> kinds_ok cl (take i ls) \<and> kinds_ok cl (drop i ls)"
  by (metis append_take_drop_id kinds_ok_append)

lemma apply_edit_kinds_ok:
  assumes "kinds_ok (classify d) (lines d)" and "\<And>r. classify d (r @ [CR]) = classify d r"
  shows "kinds_ok (classify d) (lines (apply_edit e d))"
proof -
  have norm: "kinds_ok (classify d) (lines (normalize (d\<lparr>lines := ls\<rparr>)))" if "kinds_ok (classify d) ls" for ls
    using that assms(2) kinds_ok_normalize [of "d\<lparr>lines := ls\<rparr>"] by simp
  show ?thesis
  proof (cases e)
    case (InsertLine i r)
    then show ?thesis using assms(1) kinds_ok_part [OF assms(1), of i]
      by (auto simp: insert_line_eq intro!: norm)
  next
    case (ReplaceRaw i r)
    then show ?thesis using assms(1) kinds_ok_part [OF assms(1)]
      by (auto simp: replace_raw_eq intro!: norm)
  next
    case (RemoveLine i)
    then show ?thesis using assms(1) kinds_ok_part [OF assms(1)]
      by (auto simp: remove_line_def Let_def intro!: norm)
  qed
qed

lemma apply_edits_kinds_ok:
  assumes "kinds_ok (classify d) (lines d)" and "\<And>r. classify d (r @ [CR]) = classify d r"
  shows "kinds_ok (classify d) (lines (fold apply_edit es d)) \<and> classify (fold apply_edit es d) = classify d"
  using assms
proof (induction es arbitrary: d)
  case (Cons e es)
  then show ?case using Cons.IH [of "apply_edit e d"] apply_edit_kinds_ok [of d e] by simp
qed simp

section \<open>Properties\<close>

text \<open>Rendering what was parsed reproduces the source, for every text and every classifier.\<close>

theorem lossless: "render (parse src cl) = src"
  by (rule render_parse)

text \<open>C37. Whatever edits are made to a parsed document, the document stays canonical: parsing its
  rendered text gives the same lines, terminators, byte spans and, for a classifier that does not look
  at a trailing carriage return, the same kinds.\<close>

theorem edits_stay_canonical:
  assumes "\<forall>r. cl (r @ [CR]) = cl r"
  shows "parse (render (fold apply_edit es (parse src cl))) cl = fold apply_edit es (parse src cl)"
proof -
  let ?d = "parse src cl"
  have cl: "classify ?d = cl" by (simp add: parse_def)
  then have "kinds_ok cl (lines (fold apply_edit es ?d))" "classify (fold apply_edit es ?d) = cl"
    using apply_edits_kinds_ok [of ?d es] assms by auto
  then show ?thesis using parse_render [of "fold apply_edit es ?d"] apply_edits_ok [of ?d es] by simp
qed

theorem edits_stay_canonical_witness:
  "parse (render (fold apply_edit [InsertLine 1 (lit ''b''), RemoveLine 0] (parse (lit ''a'') (\<lambda>_. Directive))))
       (\<lambda>_. Directive)
     = fold apply_edit [InsertLine 1 (lit ''b''), RemoveLine 0] (parse (lit ''a'') (\<lambda>_. Directive))"
  by (rule edits_stay_canonical) simp

definition text_of :: "line list \<Rightarrow> rstr" where
  "text_of ls = concat (map line_text ls)"

lemma render_lines [simp]: "render (d\<lparr>lines := ls\<rparr>) = text_of ls"
  by (simp add: render_def text_of_def)

lemma text_of_simps [simp]:
  "text_of [] = []" "text_of (l # ls) = line_text l @ text_of ls" "text_of (xs @ ys) = text_of xs @ text_of ys"
  by (simp_all add: text_of_def)

lemma line_text_new [simp]: "line_text (line_new r k e) = r @ ending_str e"
  by (simp add: line_text_def)

text \<open>Inserting a line puts exactly its text and the dominant terminator before line \<open>idx\<close>; after an
  unterminated last line it completes that line and stays unterminated itself. It fails exactly on a
  text with a line break or NUL and on an index past the end.\<close>

theorem insert_line_text:
  "case insert_line idx r d of
     Inl e \<Rightarrow> (e = LineBreakInValue r \<and> breaks_line r)
       \<or> (e = IndexOutOfRange idx (length (lines d)) \<and> length (lines d) < idx)
   | Inr d' \<Rightarrow> \<not> breaks_line r \<and> idx \<le> length (lines d) \<and> render d' =
       (if idx = length (lines d) \<and> unterminated d
        then render d @ ending_str (dominant_ending d) @ r
        else text_of (take idx (lines d)) @ r @ ending_str (dominant_ending d) @ text_of (drop idx (lines d)))"
proof -
  have "text_of (set_last_ending e (lines d)) = render d @ ending_str e" if "unterminated d" for e
    using that by (cases "lines d" rule: rev_cases)
      (auto simp: unterminated_def set_last_ending_def render_def text_of_def line_text_def)
  then show ?thesis by (auto simp: insert_line_eq)
qed

text \<open>Replacing a line changes the text of that line and nothing else, its terminator included.\<close>

theorem replace_raw_text:
  "case replace_raw idx r d of
     Inl e \<Rightarrow> (e = LineBreakInValue r \<and> breaks_line r)
       \<or> (e = IndexOutOfRange idx (length (lines d)) \<and> length (lines d) \<le> idx)
   | Inr d' \<Rightarrow> \<not> breaks_line r \<and> idx < length (lines d) \<and> render d' =
       text_of (take idx (lines d)) @ r @ ending_str (ending (lines d ! idx)) @ text_of (drop (idx + 1) (lines d))"
  by (auto simp: replace_raw_eq line_text_def)

text \<open>Removing a line removes its text and terminator; when it was the unterminated last line of a
  parsed document, the line before it gives up its terminator.\<close>

theorem remove_line_text:
  assumes "doc_ok d"
  shows "case remove_line idx d of
     Inl e \<Rightarrow> e = IndexOutOfRange idx (length (lines d)) \<and> length (lines d) \<le> idx
   | Inr d' \<Rightarrow> idx < length (lines d) \<and> render d' =
       (if ending (lines d ! idx) = NoEnding \<and> 0 < idx
        then text_of (take (idx - 1) (lines d)) @ raw (lines d ! (idx - 1))
        else text_of (take idx (lines d)) @ text_of (drop (idx + 1) (lines d)))"
proof (cases "idx < length (lines d) \<and> ending (lines d ! idx) = NoEnding")
  case True
  have "Suc idx = length (lines d)"
  proof (rule ccontr)
    assume "Suc idx \<noteq> length (lines d)"
    then have "idx < length (butlast (lines d))" using True by auto
    then have "ended (lines d ! idx)"
      using assms nth_mem [of idx "butlast (lines d)"]
      by (auto simp: doc_ok_def lines_ok_def list_all_iff nth_butlast)
    with True show False by (simp add: ended_def)
  qed
  moreover have "take idx (lines d) = take (idx - 1) (lines d) @ [lines d ! (idx - 1)]" if "0 < idx"
    using True that by (metis Suc_diff_1 less_imp_diff_less take_Suc_conv_app_nth)
  ultimately show ?thesis using True
    by (cases idx) (auto simp: remove_line_def Let_def set_last_ending_def line_text_def butlast_append)
qed (auto simp: remove_line_def Let_def)

theorem remove_line_text_witness:
  "map_sum (\<lambda>e. e) render (remove_line 1 (parse [97, 10, 98] (\<lambda>_. Directive))) = Inr [97]"
proof -
  have "doc_ok (parse [97, 10, 98] (\<lambda>_. Directive))" by simp
  from remove_line_text [OF this, of 1] show ?thesis
    by (cases "remove_line 1 (parse [97, 10, 98] (\<lambda>_. Directive))")
      (auto simp: parse_def Let_def split_ending_def strip_suffix_char_def)
qed

text \<open>\<^verbatim>\<open>normalize\<close> restores the invariant and changes no rendered byte, and it leaves a document that
  already satisfies the invariant alone.\<close>

theorem normalize_restores:
  assumes "shape (lines d)"
  shows "doc_ok (normalize d) \<and> render (normalize d) = render d \<and> normalize (normalize d) = normalize d"
proof -
  have ok: "doc_ok (normalize d)" using normalize_doc_ok [OF assms] .
  then have "normalize (normalize d) = normalize d"
    using normalize_lines_id [of "lines (normalize d)"] by (simp add: doc_ok_def normalize_def)
  with ok show ?thesis by simp
qed

theorem normalize_restores_witness:
  "render (normalize \<lparr>lines = [line_new [97, CR] Directive Lf, line_new [] Blank NoEnding], classify = \<lambda>_. Blank\<rparr>)
     = [97, CR, LF]"
  using normalize_restores [of "\<lparr>lines = [line_new [97, CR] Directive Lf, line_new [] Blank NoEnding],
    classify = \<lambda>_. Blank\<rparr>"] by (simp add: shape_def ended_def render_def line_text_def)

text \<open>\<^verbatim>\<open>normalize\<close> moves a carriage return out of a line without classifying the line again: for a
  classifier that looks at it, appending a line to a document leaves a kind that parsing the rendered
  text does not give.\<close>

theorem normalize_keeps_stale_kind:
  "\<exists>cl src r. parse (render (apply_edit (InsertLine 1 r) (parse src cl))) cl \<noteq> apply_edit (InsertLine 1 r) (parse src cl)"
proof -
  let ?cl = "\<lambda>r :: rstr. if CR \<in> set r then Unknown else Directive"
  have "map kind (lines (apply_edit (InsertLine 1 [98]) (parse [97, CR] ?cl))) = [Unknown, Directive]"
    by code_simp
  moreover have "map kind (lines (parse (render (apply_edit (InsertLine 1 [98]) (parse [97, CR] ?cl))) ?cl))
      = [Directive, Directive]"
    by code_simp
  ultimately have "parse (render (apply_edit (InsertLine 1 [98]) (parse [97, CR] ?cl))) ?cl
      \<noteq> apply_edit (InsertLine 1 [98]) (parse [97, CR] ?cl)" by auto
  then show ?thesis by blast
qed

end
