(* ===== verification/Entry_Edit.thy ===== *)
theory Entry_Edit
  imports Align Document
begin

text \<open>
  The entry edits of \<^verbatim>\<open>crates/detent-core/src/doc.rs\<close>: \<^verbatim>\<open>EntryPlan\<close>, \<^verbatim>\<open>settle_run\<close>,
  \<^verbatim>\<open>Document::plan_entries\<close>, \<^verbatim>\<open>section_end\<close>, \<^verbatim>\<open>apply_plan\<close> and \<^verbatim>\<open>edit_entries\<close>. A plan is built
  from the alignment of the entries a document has with the entries wanted, and carried
  out in one pass over the lines.

  The locale \<open>entry_format\<close> is the contract a module's \<^verbatim>\<open>parse\<close> and \<^verbatim>\<open>render\<close> callbacks keep; in
  it, \<open>edit_entries\<close> is shown to leave a document whose entries are exactly the wanted ones.
\<close>

section \<open>The code\<close>

record entry_plan =
  ep_replace :: "(nat \<times> rstr) list"
  ep_remove :: "nat list"
  ep_insert :: "(nat \<times> rstr) list"

definition plan_default :: entry_plan where
  "plan_default = \<lparr>ep_replace = [], ep_remove = [], ep_insert = []\<rparr>"

definition plan_extend :: "entry_plan \<Rightarrow> entry_plan \<Rightarrow> entry_plan" where
  "plan_extend p q =
     \<lparr>ep_replace = ep_replace p @ ep_replace q, ep_remove = ep_remove p @ ep_remove q,
      ep_insert = ep_insert p @ ep_insert q\<rparr>"

definition plan_replace :: "nat \<Rightarrow> rstr \<Rightarrow> entry_plan \<Rightarrow> (edit_error, entry_plan) result" where
  "plan_replace row r p =
     bind_result (check_raw r) (\<lambda>_. Inr (p\<lparr>ep_replace := ep_replace p @ [(row, r)]\<rparr>))"

definition plan_remove :: "nat \<Rightarrow> entry_plan \<Rightarrow> entry_plan" where
  "plan_remove row p = p\<lparr>ep_remove := ep_remove p @ [row]\<rparr>"

definition plan_insert :: "nat \<Rightarrow> rstr \<Rightarrow> entry_plan \<Rightarrow> (edit_error, entry_plan) result" where
  "plan_insert at r p =
     bind_result (check_raw r) (\<lambda>_. Inr (p\<lparr>ep_insert := ep_insert p @ [(at, r)]\<rparr>))"

datatype slot = OnLine nat | NewLine rstr

text \<open>\<open>gone\<close> is the drained vector of deleted rows, consumed from the front.\<close>

fun settle_run ::
  "nat list \<Rightarrow> 'e list \<Rightarrow> ('e \<Rightarrow> (edit_error, rstr) result) \<Rightarrow> entry_plan \<Rightarrow> slot list
     \<Rightarrow> (edit_error, entry_plan \<times> slot list) result" where
  "settle_run gone [] rend plan slots = Inr (plan\<lparr>ep_remove := ep_remove plan @ gone\<rparr>, slots)"
| "settle_run gone (entry # inserted) rend plan slots =
     bind_result (rend entry) (\<lambda>r.
       bind_result (check_raw r) (\<lambda>_.
         case gone of
           row # gone' \<Rightarrow> settle_run gone' inserted rend
             (plan\<lparr>ep_replace := ep_replace plan @ [(row, r)]\<rparr>) (slots @ [OnLine row])
         | [] \<Rightarrow> settle_run [] inserted rend plan (slots @ [NewLine r])))"

text \<open>The loop over the rows: the directive lines that parse, with their entries.\<close>

fun entry_rows :: "(rstr \<Rightarrow> 'e option) \<Rightarrow> nat \<Rightarrow> line list \<Rightarrow> (nat \<times> 'e) list" where
  "entry_rows prs row [] = []"
| "entry_rows prs row (l # ls) =
     (if kind l = Directive then
        (case prs (raw l) of
           Some entry \<Rightarrow> (row, entry) # entry_rows prs (row + 1) ls
         | None \<Rightarrow> entry_rows prs (row + 1) ls)
      else entry_rows prs (row + 1) ls)"

definition option_list :: "'a option \<Rightarrow> 'a list" where
  "option_list x = (case x of None \<Rightarrow> [] | Some y \<Rightarrow> [y])"

fun plan_steps ::
  "nat list \<Rightarrow> 'e list \<Rightarrow> ('e \<Rightarrow> (edit_error, rstr) result) \<Rightarrow> step list \<Rightarrow> nat list \<Rightarrow> 'e list
     \<Rightarrow> entry_plan \<Rightarrow> slot list \<Rightarrow> (edit_error, entry_plan \<times> slot list) result" where
  "plan_steps rows wanted rend [] deleted inserted plan slots =
     settle_run deleted inserted rend plan slots"
| "plan_steps rows wanted rend (Delete old # steps) deleted inserted plan slots =
     plan_steps rows wanted rend steps (deleted @ option_list (get rows old)) inserted plan slots"
| "plan_steps rows wanted rend (Insert new # steps) deleted inserted plan slots =
     plan_steps rows wanted rend steps deleted (inserted @ option_list (get wanted new)) plan slots"
| "plan_steps rows wanted rend (Equal old new # steps) deleted inserted plan slots =
     bind_result (settle_run deleted inserted rend plan slots) (\<lambda>(plan', slots').
       plan_steps rows wanted rend steps [] [] plan'
         (slots' @ map OnLine (option_list (get rows old))))"

text \<open>The line of the next entry that has one, for each slot.\<close>

fun next_rows_loop :: "slot list \<Rightarrow> nat option \<Rightarrow> nat option list" where
  "next_rows_loop [] next_row = []"
| "next_rows_loop (s # ss) next_row =
     next_row # next_rows_loop ss (case s of OnLine row \<Rightarrow> Some row | NewLine _ \<Rightarrow> next_row)"

definition next_rows :: "slot list \<Rightarrow> nat option list" where
  "next_rows slots = rev (next_rows_loop (rev slots) None)"

text \<open>The \<^verbatim>\<open>while end > from\<close> loop of \<^verbatim>\<open>section_end\<close>.\<close>

fun back_over :: "line list \<Rightarrow> nat \<Rightarrow> nat \<Rightarrow> nat" where
  "back_over ls from e =
     (if from < e \<and> (case get ls (e - 1) of
           Some l \<Rightarrow> kind l = Blank \<or> kind l = Comment | None \<Rightarrow> False)
      then back_over ls from (e - 1) else e)"

declare back_over.simps [simp del]

definition section_end :: "document \<Rightarrow> nat \<Rightarrow> nat \<Rightarrow> (rstr \<Rightarrow> bool) \<Rightarrow> nat" where
  "section_end d from limit opens_section =
     (let candidates = drop from (take limit (enumerate 0 (lines d)));
          e = (case find (\<lambda>(row, l). opens_section (raw l)) candidates of
                 Some (row, _) \<Rightarrow> row | None \<Rightarrow> limit)
      in back_over (lines d) from e)"

fun place_slots ::
  "document \<Rightarrow> (rstr \<Rightarrow> bool) \<Rightarrow> (slot \<times> nat option) list \<Rightarrow> nat option \<Rightarrow> entry_plan \<Rightarrow> entry_plan" where
  "place_slots d opens_section [] at plan = plan"
| "place_slots d opens_section ((OnLine row, next_row) # rest) at plan =
     place_slots d opens_section rest (Some (row + 1)) plan"
| "place_slots d opens_section ((NewLine r, next_row) # rest) at plan =
     (let limit = (case next_row of Some row \<Rightarrow> row | None \<Rightarrow> length (lines d));
          here = (case at of
                    Some from \<Rightarrow> if opens_section r then section_end d from limit opens_section
                                 else from
                  | None \<Rightarrow> limit)
      in place_slots d opens_section rest (Some here)
           (plan\<lparr>ep_insert := ep_insert plan @ [(here, r)]\<rparr>))"

definition plan_entries ::
  "document \<Rightarrow> 'e list \<Rightarrow> (rstr \<Rightarrow> 'e option) \<Rightarrow> ('e \<Rightarrow> (edit_error, rstr) result)
     \<Rightarrow> (rstr \<Rightarrow> bool) \<Rightarrow> (edit_error, entry_plan) result" where
  "plan_entries d wanted prs rend opens_section =
     (let found = entry_rows prs 0 (lines d);
          rows = map fst found;
          have = map snd found;
          steps = (case align have wanted of
                     Some s \<Rightarrow> s | None \<Rightarrow> replace_all (length have) (length wanted))
      in bind_result (plan_steps rows wanted rend steps [] [] plan_default []) (\<lambda>(plan, slots).
           Inr (place_slots d opens_section (zip slots (next_rows slots)) None plan)))"

text \<open>\<^verbatim>\<open>while let Some(..) = insert.next_if(|at| at <= row)\<close>: the inserts due at this row.\<close>

fun take_inserts :: "nat \<Rightarrow> (nat \<times> rstr) list \<Rightarrow> rstr list \<times> (nat \<times> rstr) list" where
  "take_inserts row [] = ([], [])"
| "take_inserts row ((at, r) # ins) =
     (if at \<le> row then (let (now, later) = take_inserts row ins in (r # now, later))
      else ([], (at, r) # ins))"

fun apply_rows ::
  "(rstr \<Rightarrow> line_kind) \<Rightarrow> line_ending \<Rightarrow> nat \<Rightarrow> line list \<Rightarrow> (nat \<times> rstr) list \<Rightarrow> nat list
     \<Rightarrow> (nat \<times> rstr) list \<Rightarrow> line list" where
  "apply_rows cl dominant row [] rep rem ins = map (\<lambda>(_, r). line_new r (cl r) dominant) ins"
| "apply_rows cl dominant row (l # ls) rep rem ins =
     (let (now, later) = take_inserts row ins;
          new_lines = map (\<lambda>r. line_new r (cl r) dominant) now
      in new_lines @
         (if rem \<noteq> [] \<and> hd rem = row
          then apply_rows cl dominant (row + 1) ls rep (tl rem) later
          else
            (let (l, rep) =
               (case rep of
                  (at, r) # rep' \<Rightarrow>
                    if at = row then (l\<lparr>kind := cl r, raw := r\<rparr>, rep') else (l, rep)
                | [] \<Rightarrow> (l, rep));
                 l = (if ending l = NoEnding then l\<lparr>ending := dominant\<rparr> else l)
             in l # apply_rows cl dominant (row + 1) ls rep rem later)))"

definition apply_plan :: "entry_plan \<Rightarrow> document \<Rightarrow> document \<times> edit_report" where
  "apply_plan plan d =
     (let report = \<lparr>changed_lines = length (ep_replace plan), added = length (ep_insert plan),
                    removed = length (ep_remove plan)\<rparr>;
          rep = sort_key fst (ep_replace plan);
          rem = sort (ep_remove plan);
          ins = sort_key fst (ep_insert plan);
          dominant = dominant_ending d;
          d' = rebuild (\<lambda>old.
            (let unterminated = (old \<noteq> [] \<and> ending (last old) = NoEnding);
                 ls = apply_rows (classify d) dominant 0 old rep rem ins
             in if unterminated then set_last_ending NoEnding ls else ls)) d
      in (d', report))"

definition edit_entries ::
  "document \<Rightarrow> 'e list \<Rightarrow> (rstr \<Rightarrow> 'e option) \<Rightarrow> ('e \<Rightarrow> (edit_error, rstr) result)
     \<Rightarrow> (rstr \<Rightarrow> bool) \<Rightarrow> (edit_error, document \<times> edit_report) result" where
  "edit_entries d wanted prs rend opens_section =
     bind_result (plan_entries d wanted prs rend opens_section) (\<lambda>plan. Inr (apply_plan plan d))"

section \<open>Entries of a document\<close>

definition line_entry :: "(rstr \<Rightarrow> 'e option) \<Rightarrow> line \<Rightarrow> 'e option" where
  "line_entry prs l = (if kind l = Directive then prs (raw l) else None)"

definition entries :: "(rstr \<Rightarrow> 'e option) \<Rightarrow> line list \<Rightarrow> 'e list" where
  "entries prs ls = filter_map (line_entry prs) ls"

lemma entries_append [simp]: "entries prs (xs @ ys) = entries prs xs @ entries prs ys"
  by (simp add: entries_def)

lemma entries_simps [simp]:
  "entries prs [] = []"
  "entries prs (l # ls) = option_list (line_entry prs l) @ entries prs ls"
  by (simp_all add: entries_def option_list_def split: option.splits)

lemma snd_entry_rows: "map snd (entry_rows prs k ls) = entries prs ls"
  by (induction ls arbitrary: k) (auto simp: line_entry_def option_list_def split: option.splits)

lemma entry_rows_iff:
  "(row, e) \<in> set (entry_rows prs k ls) \<longleftrightarrow>
     k \<le> row \<and> row < k + length ls \<and> line_entry prs (ls ! (row - k)) = Some e"
proof (induction ls arbitrary: k)
  case (Cons l ls)
  have "(row, e) \<in> set (entry_rows prs k (l # ls)) \<longleftrightarrow>
      row = k \<and> line_entry prs l = Some e \<or> (row, e) \<in> set (entry_rows prs (k + 1) ls)"
    by (auto simp: line_entry_def split: option.splits)
  also have "\<dots> \<longleftrightarrow> k \<le> row \<and> row < k + length (l # ls) \<and> line_entry prs ((l # ls) ! (row - k)) = Some e"
  proof (cases "row = k")
    case False
    then show ?thesis unfolding Cons.IH by (cases "row - k") (auto simp: nth_Cons' diff_Suc split: nat.splits)
  next
    case True
    then show ?thesis unfolding Cons.IH by auto
  qed
  finally show ?case .
qed simp

lemma sorted_entry_rows: "sorted_wrt (<) (map fst (entry_rows prs k ls))"
proof (induction ls arbitrary: k)
  case (Cons l ls)
  have "\<forall>r\<in>fst ` set (entry_rows prs (k + 1) ls). k < r"
    using entry_rows_iff [of _ _ prs "k + 1" ls] by force
  with Cons show ?case by (auto split: option.splits)
qed simp

section \<open>What the pass over the lines leaves\<close>

lemma sorted_filter_split:
  assumes "sorted (map f xs)"
  shows "filter (\<lambda>x. n \<le> f x) xs = filter (\<lambda>x. f x = n) xs @ filter (\<lambda>x. Suc n \<le> f x) xs"
  using assms
proof (induction xs)
  case (Cons x xs)
  show ?case
  proof (cases "Suc n \<le> f x")
    case True
    then have "filter (\<lambda>x. f x = n) xs = []" using Cons.prems by (auto simp: filter_empty_conv)
    with True Cons show ?thesis by auto
  qed (use Cons in auto)
qed simp

lemma filter_key_unique:
  "distinct (map fst ps) \<Longrightarrow>
     filter (\<lambda>p. fst p = n) ps = (case map_of ps n of None \<Rightarrow> [] | Some v \<Rightarrow> [(n, v)])"
proof (induction ps)
  case (Cons p ps)
  obtain a v where [simp]: "p = (a, v)" by fastforce
  have "map_of ps a = None" using Cons.prems by (simp add: map_of_eq_None_iff)
  with Cons show ?case by auto
qed simp

lemma filter_member_unique: "distinct xs \<Longrightarrow> filter (\<lambda>x. x = n) xs = (if n \<in> set xs then [n] else [])"
  by (induction xs) auto

lemma take_inserts_run:
  "\<lbrakk>\<forall>p\<in>set now. fst p \<le> row; \<forall>p\<in>set later. row < fst p\<rbrakk>
     \<Longrightarrow> take_inserts row (now @ later) = (map snd now, later)"
proof (induction now)
  case Nil
  then show ?case by (cases later) auto
qed auto

definition new_lines :: "(rstr \<Rightarrow> line_kind) \<Rightarrow> line_ending \<Rightarrow> (nat \<times> rstr) list \<Rightarrow> line list" where
  "new_lines cl dmn ins = map (\<lambda>p. line_new (snd p) (cl (snd p)) dmn) ins"

definition set_ending :: "line_ending \<Rightarrow> line \<Rightarrow> line" where
  "set_ending dmn l = (if ending l = NoEnding then l\<lparr>ending := dmn\<rparr> else l)"

definition rewritten :: "(rstr \<Rightarrow> line_kind) \<Rightarrow> (nat \<times> rstr) list \<Rightarrow> nat \<Rightarrow> line \<Rightarrow> line" where
  "rewritten cl rep row l =
     (case map_of rep row of Some r \<Rightarrow> l\<lparr>kind := cl r, raw := r\<rparr> | None \<Rightarrow> l)"

fun layout ::
  "(rstr \<Rightarrow> line_kind) \<Rightarrow> line_ending \<Rightarrow> (nat \<times> rstr) list \<Rightarrow> nat list \<Rightarrow> (nat \<times> rstr) list
     \<Rightarrow> nat \<Rightarrow> line list \<Rightarrow> line list" where
  "layout cl dmn rep rem ins row [] = new_lines cl dmn (filter (\<lambda>p. row \<le> fst p) ins)"
| "layout cl dmn rep rem ins row (l # ls) =
     new_lines cl dmn (filter (\<lambda>p. fst p = row) ins)
     @ (if row \<in> set rem then [] else [set_ending dmn (rewritten cl rep row l)])
     @ layout cl dmn rep rem ins (row + 1) ls"

lemma apply_rows_layout:
  assumes "sorted (map fst rep)" "distinct (map fst rep)" "sorted rem" "distinct rem"
    and "sorted (map fst ins)" and "fst ` set rep \<inter> set rem = {}"
  shows "apply_rows cl dmn row ls (filter (\<lambda>p. row \<le> fst p) rep) (filter (\<lambda>r. row \<le> r) rem)
      (filter (\<lambda>p. row \<le> fst p) ins) = layout cl dmn rep rem ins row ls"
proof (induction ls arbitrary: row)
  case Nil
  then show ?case by (simp add: new_lines_def case_prod_unfold)
next
  case (Cons l ls)
  have ins: "take_inserts row (filter (\<lambda>p. row \<le> fst p) ins) =
      (map snd (filter (\<lambda>p. fst p = row) ins), filter (\<lambda>p. row + 1 \<le> fst p) ins)"
    unfolding sorted_filter_split [OF assms(5), of row] by (subst take_inserts_run) auto
  have rem: "filter (\<lambda>r. row \<le> r) rem =
      (if row \<in> set rem then [row] else []) @ filter (\<lambda>r. row + 1 \<le> r) rem"
    using sorted_filter_split [of "\<lambda>x. x" rem row] assms(3,4) by (simp add: filter_member_unique)
  have hd_rem: "\<not> (filter (\<lambda>r. row + 1 \<le> r) rem \<noteq> [] \<and> hd (filter (\<lambda>r. row + 1 \<le> r) rem) = row)"
    using hd_in_set [of "filter (\<lambda>r. row + 1 \<le> r) rem"] by auto
  have rep: "filter (\<lambda>p. row \<le> fst p) rep =
      (case map_of rep row of None \<Rightarrow> [] | Some r \<Rightarrow> [(row, r)]) @ filter (\<lambda>p. row + 1 \<le> fst p) rep"
    unfolding sorted_filter_split [OF assms(1), of row] filter_key_unique [OF assms(2)] by simp
  have later: "(case filter (\<lambda>p. row + 1 \<le> fst p) rep of
      (at, r) # rep' \<Rightarrow> if at = row then (l\<lparr>kind := cl r, raw := r\<rparr>, rep')
        else (l, filter (\<lambda>p. row + 1 \<le> fst p) rep)
    | [] \<Rightarrow> (l, filter (\<lambda>p. row + 1 \<le> fst p) rep)) = (l, filter (\<lambda>p. row + 1 \<le> fst p) rep)"
  proof (cases "filter (\<lambda>p. row + 1 \<le> fst p) rep")
    case (Cons q qs)
    then have "q \<in> set (filter (\<lambda>p. row + 1 \<le> fst p) rep)" by simp
    then show ?thesis using Cons by (auto split: prod.splits)
  qed simp
  show ?case
  proof (cases "row \<in> set rem")
    case True
    then have "map_of rep row = None" using assms(6) by (force simp: map_of_eq_None_iff)
    then show ?thesis using True Cons.IH [of "row + 1"] ins rem rep
      by (simp add: new_lines_def comp_def)
  next
    case False
    then have rem': "filter (\<lambda>r. row \<le> r) rem = filter (\<lambda>r. row + 1 \<le> r) rem"
      using rem by simp
    show ?thesis
    proof (cases "map_of rep row")
      case None
      then have rep': "filter (\<lambda>p. row \<le> fst p) rep = filter (\<lambda>p. row + 1 \<le> fst p) rep"
        using rep by simp
      show ?thesis using False None Cons.IH [of "row + 1"]
        unfolding apply_rows.simps ins rem' rep' later if_not_P [OF hd_rem]
        by (simp add: new_lines_def comp_def rewritten_def set_ending_def)
    next
      case (Some r)
      then have rep': "filter (\<lambda>p. row \<le> fst p) rep = (row, r) # filter (\<lambda>p. row + 1 \<le> fst p) rep"
        using rep by simp
      show ?thesis using False Some Cons.IH [of "row + 1"]
        unfolding apply_rows.simps ins rem' rep' if_not_P [OF hd_rem]
        by (simp add: new_lines_def comp_def rewritten_def set_ending_def)
    qed
  qed
qed

section \<open>Settling the runs of an alignment\<close>

definition slot_row :: "slot \<Rightarrow> nat option" where
  "slot_row s = (case s of OnLine row \<Rightarrow> Some row | NewLine _ \<Rightarrow> None)"

definition slot_rows :: "slot list \<Rightarrow> nat list" where
  "slot_rows ss = filter_map slot_row ss"

lemma slot_rows_simps [simp]:
  "slot_rows [] = []"
  "slot_rows (OnLine row # ss) = row # slot_rows ss"
  "slot_rows (NewLine r # ss) = slot_rows ss"
  "slot_rows (ss @ ts) = slot_rows ss @ slot_rows ts"
  by (simp_all add: slot_rows_def slot_row_def)

definition slot_ok ::
  "('e \<Rightarrow> (edit_error, rstr) result) \<Rightarrow> (nat \<times> 'e) list \<Rightarrow> (nat \<times> rstr) list \<Rightarrow> slot \<Rightarrow> 'e \<Rightarrow> bool" where
  "slot_ok rend found rep s e \<longleftrightarrow>
     (case s of
        NewLine r \<Rightarrow> rend e = Inr r \<and> check_raw r = Inr ()
      | OnLine row \<Rightarrow>
          (case map_of rep row of
             Some r \<Rightarrow> rend e = Inr r \<and> check_raw r = Inr ()
           | None \<Rightarrow> (row, e) \<in> set found))"

text \<open>
  The first \<open>i\<close> entry lines are settled: the slots hold the entries \<open>ws\<close>, their lines and
  the removed lines partition the first \<open>i\<close> entry lines, and every list is in line order.
\<close>

definition settled ::
  "('e \<Rightarrow> (edit_error, rstr) result) \<Rightarrow> (nat \<times> 'e) list \<Rightarrow> nat \<Rightarrow> entry_plan \<Rightarrow> slot list \<Rightarrow> 'e list \<Rightarrow> bool"
  where
  "settled rend found i plan ss ws \<longleftrightarrow>
     list_all2 (slot_ok rend found (ep_replace plan)) ss ws
     \<and> sorted_wrt (<) (slot_rows ss) \<and> sorted_wrt (<) (ep_remove plan)
     \<and> sorted_wrt (<) (map fst (ep_replace plan))
     \<and> set (map fst (ep_replace plan)) \<subseteq> set (slot_rows ss)
     \<and> set (slot_rows ss) \<union> set (ep_remove plan) = set (take i (map fst found))
     \<and> set (slot_rows ss) \<inter> set (ep_remove plan) = {} \<and> ep_insert plan = []"

lemma sorted_wrt_snoc: "sorted_wrt R (xs @ [x]) \<longleftrightarrow> sorted_wrt R xs \<and> (\<forall>y\<in>set xs. R y x)"
  by (auto simp: sorted_wrt_append)

lemma take_row:
  assumes "sorted_wrt (<) rows" and "i < length rows"
  shows "\<forall>r\<in>set (take i rows). r < rows ! i" and "set (take (Suc i) rows) = insert (rows ! i) (set (take i rows))"
  using assms by (auto simp: sorted_wrt_iff_nth_less in_set_conv_nth take_Suc_conv_app_nth)

lemma slot_ok_snoc:
  "\<lbrakk>list_all2 (slot_ok rend found rep) ss ws; row \<notin> set (slot_rows ss)\<rbrakk>
     \<Longrightarrow> list_all2 (slot_ok rend found (rep @ [(row, r)])) ss ws"
proof (induction ss ws rule: list_all2_induct)
  case (Cons s ss w ws)
  then show ?case by (cases s) (auto simp: slot_ok_def map_add_def split: option.splits)
qed simp

lemma settled_rows:
  assumes "settled rend found i plan ss ws" and "sorted_wrt (<) (map fst found)" and "i < length found"
  defines "row \<equiv> fst (found ! i)"
  shows "\<forall>r\<in>set (slot_rows ss). r < row" "\<forall>r\<in>set (ep_remove plan). r < row"
    "\<forall>r\<in>fst ` set (ep_replace plan). r < row" "row \<notin> set (slot_rows ss)" "row \<notin> set (ep_remove plan)"
    "row \<notin> fst ` set (ep_replace plan)"
    "set (take (Suc i) (map fst found)) = insert row (set (take i (map fst found)))"
  using assms take_row [of "map fst found" i] unfolding settled_def by auto

lemma settled_keep:
  assumes "settled rend found i plan ss ws" and "sorted_wrt (<) (map fst found)" and "i < length found"
  shows "settled rend found (Suc i) plan (ss @ [OnLine (fst (found ! i))]) (ws @ [snd (found ! i)])"
proof -
  note rows = settled_rows [OF assms]
  have "map_of (ep_replace plan) (fst (found ! i)) = None" using rows(6) by (simp add: map_of_eq_None_iff)
  then have "slot_ok rend found (ep_replace plan) (OnLine (fst (found ! i))) (snd (found ! i))"
    using assms(3) by (auto simp: slot_ok_def)
  then show ?thesis using assms(1) rows
    unfolding settled_def rows(7) by (auto simp: sorted_wrt_snoc list_all2_append list_all2_lengthD)
qed

lemma settled_rewrite:
  assumes "settled rend found i plan ss ws" and "sorted_wrt (<) (map fst found)" and "i < length found"
    and "rend e = Inr r" and "check_raw r = Inr ()"
  shows "settled rend found (Suc i) (plan\<lparr>ep_replace := ep_replace plan @ [(fst (found ! i), r)]\<rparr>)
    (ss @ [OnLine (fst (found ! i))]) (ws @ [e])"
proof -
  note rows = settled_rows [OF assms(1-3)]
  let ?rep = "ep_replace plan @ [(fst (found ! i), r)]"
  have "map_of (ep_replace plan) (fst (found ! i)) = None" using rows(6) by (simp add: map_of_eq_None_iff)
  then have "slot_ok rend found ?rep (OnLine (fst (found ! i))) e"
    using assms(4,5) by (auto simp: slot_ok_def map_add_def)
  moreover have "list_all2 (slot_ok rend found ?rep) ss ws"
    using assms(1) rows(4) by (intro slot_ok_snoc) (auto simp: settled_def)
  ultimately show ?thesis using assms(1) rows
    unfolding settled_def rows(7) by (auto simp: sorted_wrt_snoc list_all2_append list_all2_lengthD)
qed

lemma settled_drop:
  assumes "settled rend found i plan ss ws" and "sorted_wrt (<) (map fst found)" and "i < length found"
  shows "settled rend found (Suc i) (plan\<lparr>ep_remove := ep_remove plan @ [fst (found ! i)]\<rparr>) ss ws"
  using assms(1) settled_rows [OF assms] unfolding settled_def by (auto simp: sorted_wrt_snoc)

lemma settled_new:
  assumes "settled rend found i plan ss ws" and "rend e = Inr r" and "check_raw r = Inr ()"
  shows "settled rend found i plan (ss @ [NewLine r]) (ws @ [e])"
  using assms unfolding settled_def by (auto simp: list_all2_append list_all2_lengthD slot_ok_def)

lemma settled_drops:
  assumes "settled rend found i plan ss ws" and "sorted_wrt (<) (map fst found)" and "i + m \<le> length found"
  shows "settled rend found (i + m)
    (plan\<lparr>ep_remove := ep_remove plan @ map fst (take m (drop i found))\<rparr>) ss ws"
  using assms
proof (induction m arbitrary: i plan)
  case (Suc m)
  have "take (Suc m) (drop i found) = found ! i # take m (drop (Suc i) found)"
    using Suc.prems(3) by (simp add: Cons_nth_drop_Suc [symmetric])
  then show ?case
    using Suc.IH [OF settled_drop [OF Suc.prems(1,2)]] Suc.prems by simp
qed (simp add: settled_def)

lemma settle_run_settled:
  assumes "settled rend found i plan ss ws" and "sorted_wrt (<) (map fst found)" and "i + m \<le> length found"
    and "settle_run (map fst (take m (drop i found))) inserted rend plan ss = Inr (plan', ss')"
  shows "settled rend found (i + m) plan' ss' (ws @ inserted)"
  using assms
proof (induction inserted arbitrary: i m plan ss ws)
  case Nil
  then show ?case using settled_drops [of rend found i plan ss ws m] by simp
next
  case (Cons e inserted)
  show ?case
  proof (cases m)
    case 0
    then obtain r where r: "rend e = Inr r" "check_raw r = Inr ()"
      "settle_run [] inserted rend plan (ss @ [NewLine r]) = Inr (plan', ss')"
      using Cons.prems(4) by (auto simp: bind_result_eq_Inr)
    then show ?thesis
      using Cons.IH [OF settled_new [OF Cons.prems(1) r(1,2)] Cons.prems(2), of 0] Cons.prems(3) 0 by simp
  next
    case (Suc m')
    then have i: "i < length found" using Cons.prems(3) by simp
    then have rows: "map fst (take m (drop i found)) = fst (found ! i) # map fst (take m' (drop (Suc i) found))"
      using Suc by (simp add: Cons_nth_drop_Suc [symmetric])
    obtain r where r: "rend e = Inr r" "check_raw r = Inr ()"
      "settle_run (map fst (take m' (drop (Suc i) found))) inserted rend
         (plan\<lparr>ep_replace := ep_replace plan @ [(fst (found ! i), r)]\<rparr>)
         (ss @ [OnLine (fst (found ! i))]) = Inr (plan', ss')"
      using Cons.prems(4) unfolding rows by (auto simp: bind_result_eq_Inr)
    then show ?thesis
      using Cons.IH [OF settled_rewrite [OF Cons.prems(1,2) i r(1,2)] Cons.prems(2) _ r(3)]
        Cons.prems(3) Suc by simp
  qed
qed

lemma plan_steps_settled:
  assumes "settled rend found i0 plan ss (take j0 wanted)" and "sorted_wrt (<) (map fst found)"
    and "walk (map snd found) wanted i j steps = Some (length found, length wanted)"
    and "i0 \<le> i" "j0 \<le> j" "i \<le> length found" "j \<le> length wanted"
    and "plan_steps (map fst found) wanted rend steps (map fst (take (i - i0) (drop i0 found)))
       (take (j - j0) (drop j0 wanted)) plan ss = Inr (plan', ss')"
  shows "settled rend found (length found) plan' ss' wanted"
  using assms
proof (induction "map snd found" wanted i j steps arbitrary: i0 j0 plan ss rule: walk.induct)
  case (1 wanted i j)
  then show ?case
    using settle_run_settled [of rend found i0 plan ss "take j0 wanted" "i - i0"] by fastforce
next
  case (2 wanted i j a b steps)
  then obtain plan1 ss1 where run: "settle_run (map fst (take (i - i0) (drop i0 found)))
      (take (j - j0) (drop j0 wanted)) rend plan ss = Inr (plan1, ss1)"
    and rest: "plan_steps (map fst found) wanted rend steps [] [] plan1
      (ss1 @ map OnLine (option_list (get (map fst found) a))) = Inr (plan', ss')"
    by (auto simp: bind_result_eq_Inr)
  have w: "a = i" "b = j" "i < length found" "j < length wanted" "snd (found ! i) = wanted ! j"
    "walk (map snd found) wanted (i + 1) (j + 1) steps = Some (length found, length wanted)"
    using "2.prems"(3) by (auto split: if_splits)
  have "take j wanted = take j0 wanted @ take (j - j0) (drop j0 wanted)"
    using "2.prems"(5) by (metis le_add_diff_inverse take_add)
  then have "settled rend found i plan1 ss1 (take j wanted)"
    using settle_run_settled [OF "2.prems"(1,2) _ run] "2.prems"(4,6) by simp
  from settled_keep [OF this "2.prems"(2) w(3)] w
  have "settled rend found (i + 1) plan1 (ss1 @ [OnLine (fst (found ! i))]) (take (j + 1) wanted)"
    by (simp add: take_Suc_conv_app_nth)
  then show ?case
    using "2.hyps" [of "i + 1" plan1 _ "j + 1"] "2.prems"(2) w rest
    by (simp add: get_def option_list_def)
next
  case (3 wanted i j a steps)
  then have w: "a = i" "i < length found"
    "walk (map snd found) wanted (i + 1) j steps = Some (length found, length wanted)"
    by (auto split: if_splits)
  have "map fst (take (i + 1 - i0) (drop i0 found)) = map fst (take (i - i0) (drop i0 found)) @ [fst (found ! i)]"
    using "3.prems"(4) w by (simp add: Suc_diff_le take_Suc_conv_app_nth)
  with 3 w show ?case by (simp add: get_def option_list_def)
next
  case (4 wanted i j b steps)
  then have w: "b = j" "j < length wanted"
    "walk (map snd found) wanted i (j + 1) steps = Some (length found, length wanted)"
    by (auto split: if_splits)
  have "take (j + 1 - j0) (drop j0 wanted) = take (j - j0) (drop j0 wanted) @ [wanted ! j]"
    using "4.prems"(5) w by (simp add: Suc_diff_le take_Suc_conv_app_nth)
  with 4 w show ?case by (simp add: get_def option_list_def)
qed

section \<open>Placing the new lines\<close>

fun first_row :: "slot list \<Rightarrow> nat option" where
  "first_row [] = None"
| "first_row (OnLine row # ss) = Some row"
| "first_row (NewLine r # ss) = first_row ss"

lemma first_row_snoc:
  "first_row (ss @ [s]) = (case first_row ss of Some row \<Rightarrow> Some row | None \<Rightarrow> first_row [s])"
  by (induction ss rule: first_row.induct) auto

lemma next_rows_loop_snoc:
  "next_rows_loop (ss @ [s]) nr = next_rows_loop ss nr @
     [case first_row (rev ss) of Some row \<Rightarrow> Some row | None \<Rightarrow> nr]"
proof (induction ss arbitrary: nr)
  case (Cons t ss)
  then show ?case by (cases t) (auto simp: first_row_snoc split: option.splits)
qed simp

lemma next_rows_Cons: "next_rows (s # ss) = first_row ss # next_rows ss"
  by (simp add: next_rows_def next_rows_loop_snoc split: option.splits)

lemma next_rows_Nil [simp]: "next_rows [] = []"
  by (simp add: next_rows_def)

text \<open>The position of every slot: \<open>2 * row + 1\<close> for a line, \<open>2 * at\<close> for a line inserted before row \<open>at\<close>.\<close>

fun slot_keys :: "document \<Rightarrow> (rstr \<Rightarrow> bool) \<Rightarrow> slot list \<Rightarrow> nat option \<Rightarrow> nat list" where
  "slot_keys d opens [] at = []"
| "slot_keys d opens (OnLine row # ss) at = (2 * row + 1) # slot_keys d opens ss (Some (row + 1))"
| "slot_keys d opens (NewLine r # ss) at =
     (let limit = (case first_row ss of Some row \<Rightarrow> row | None \<Rightarrow> length (lines d));
          here = (case at of
                    Some from \<Rightarrow> if opens r then section_end d from limit opens else from
                  | None \<Rightarrow> limit)
      in 2 * here # slot_keys d opens ss (Some here))"

fun slot_inserts :: "slot list \<Rightarrow> nat list \<Rightarrow> (nat \<times> rstr) list" where
  "slot_inserts (NewLine r # ss) (k # ks) = (k div 2, r) # slot_inserts ss ks"
| "slot_inserts (OnLine row # ss) (k # ks) = slot_inserts ss ks"
| "slot_inserts _ _ = []"

lemma place_slots_keys:
  "place_slots d opens (zip ss (next_rows ss)) at plan =
     plan\<lparr>ep_insert := ep_insert plan @ slot_inserts ss (slot_keys d opens ss at)\<rparr>"
proof (induction ss arbitrary: at plan)
  case (Cons s ss)
  then show ?case by (cases s) (auto simp: next_rows_Cons Let_def)
qed simp

lemma back_over_bounds: "from \<le> e \<Longrightarrow> from \<le> back_over ls from e \<and> back_over ls from e \<le> e"
proof (induction ls "from" e rule: back_over.induct)
  case (1 ls "from" e)
  show ?case
  proof (cases "from < e \<and> (case get ls (e - 1) of
        Some l \<Rightarrow> kind l = Blank \<or> kind l = Comment | None \<Rightarrow> False)")
    case True
    with 1 have "from \<le> back_over ls from (e - 1) \<and> back_over ls from (e - 1) \<le> e - 1" by fastforce
    with True show ?thesis by (subst (1 2) back_over.simps) auto
  next
    case False
    with 1 show ?thesis by (subst (1 2) back_over.simps) auto
  qed
qed

lemma section_end_bounds:
  assumes "from \<le> limit"
  shows "from \<le> section_end d from limit opens \<and> section_end d from limit opens \<le> limit"
proof -
  let ?c = "drop from (take limit (enumerate 0 (lines d)))"
  have "from \<le> row \<and> row \<le> limit" if "find (\<lambda>(row, l). opens (raw l)) ?c = Some (row, l)" for row l
  proof -
    from that have "(row, l) \<in> set ?c" by (auto simp: find_Some_iff in_set_conv_nth)
    then obtain i where i: "i < length ?c" "?c ! i = (row, l)" by (auto simp: in_set_conv_nth)
    then have "from + i < limit" "from + i < length (lines d)" by auto
    then show ?thesis using i(2) by (simp add: nth_enumerate_eq)
  qed
  note found = this
  define e where "e = (case find (\<lambda>(row, l). opens (raw l)) ?c of Some (row, _) \<Rightarrow> row | None \<Rightarrow> limit)"
  have "from \<le> e \<and> e \<le> limit"
  proof (cases "find (\<lambda>(row, l). opens (raw l)) ?c")
    case (Some p)
    then obtain row l where "find (\<lambda>(row, l). opens (raw l)) ?c = Some (row, l)" by (cases p) auto
    with found show ?thesis unfolding e_def by simp
  qed (simp add: e_def assms)
  moreover have "section_end d from limit opens = back_over (lines d) from e"
    by (simp only: section_end_def Let_def e_def)
  ultimately show ?thesis using back_over_bounds [of "from" e "lines d"] by auto
qed

lemma slot_keys_sorted:
  assumes "sorted_wrt (<) (slot_rows ss)" and "\<forall>r\<in>set (slot_rows ss). r < length (lines d)"
    and "\<forall>a. at = Some a \<longrightarrow> a \<le> length (lines d) \<and> (\<forall>r\<in>set (slot_rows ss). a \<le> r)"
  shows "sorted (slot_keys d opens ss at) \<and> (\<forall>k\<in>set (slot_keys d opens ss at). k \<le> 2 * length (lines d)
      \<and> (\<forall>a. at = Some a \<longrightarrow> 2 * a \<le> k))"
  using assms
proof (induction d opens ss at rule: slot_keys.induct)
  case (2 d opens row ss at)
  then have "sorted (slot_keys d opens ss (Some (row + 1)))
      \<and> (\<forall>k\<in>set (slot_keys d opens ss (Some (row + 1))). k \<le> 2 * length (lines d) \<and> 2 * (row + 1) \<le> k)"
    by (simp add: Suc_le_eq)
  with 2 show ?case by fastforce
next
  case (3 d opens r ss at)
  define limit where "limit = (case first_row ss of Some row \<Rightarrow> row | None \<Rightarrow> length (lines d))"
  define here where "here = (case at of
      Some from \<Rightarrow> if opens r then section_end d from limit opens else from | None \<Rightarrow> limit)"
  have fr: "first_row ss = (case slot_rows ss of [] \<Rightarrow> None | row # _ \<Rightarrow> Some row)"
    by (induction ss rule: first_row.induct) auto
  have limit: "limit \<le> length (lines d)" "\<forall>r\<in>set (slot_rows ss). limit \<le> r"
    using "3.prems" fr by (auto simp: limit_def split: list.splits)
  have at: "a \<le> limit" if "at = Some a" for a
    using "3.prems"(3) fr that by (auto simp: limit_def split: list.splits)
  have here: "here \<le> limit" "\<forall>a. at = Some a \<longrightarrow> a \<le> here"
    using at section_end_bounds by (auto simp: here_def split: option.splits)
  then have "sorted (slot_keys d opens ss (Some here))
      \<and> (\<forall>k\<in>set (slot_keys d opens ss (Some here)). k \<le> 2 * length (lines d) \<and> 2 * here \<le> k)"
    using "3.IH" [OF limit_def here_def] "3.prems" limit by fastforce
  moreover have "slot_keys d opens (NewLine r # ss) at = 2 * here # slot_keys d opens ss (Some here)"
    by (simp only: slot_keys.simps Let_def limit_def [symmetric] here_def [symmetric])
  ultimately show ?case using here limit by fastforce
qed simp

lemma length_slot_keys [simp]: "length (slot_keys d opens ss at) = length ss"
  by (induction d opens ss at rule: slot_keys.induct) (auto simp: Let_def)

definition key_fits :: "slot \<Rightarrow> nat \<Rightarrow> bool" where
  "key_fits s k \<longleftrightarrow> (case s of OnLine row \<Rightarrow> k = 2 * row + 1 | NewLine _ \<Rightarrow> even k)"

lemma slot_keys_fit: "list_all2 key_fits ss (slot_keys d opens ss at)"
  by (induction d opens ss at rule: slot_keys.induct) (auto simp: Let_def key_fits_def)

section \<open>The entries after an edit\<close>

lemma slots_at_row:
  assumes "list_all2 P ss ws" and "distinct (slot_rows ss)" and "list_all2 key_fits ss ks"
  shows "if row \<in> set (slot_rows ss)
    then \<exists>e. P (OnLine row) e \<and> map snd (filter (\<lambda>q. fst q = 2 * row + 1) (zip ks ws)) = [e]
    else map snd (filter (\<lambda>q. fst q = 2 * row + 1) (zip ks ws)) = []"
  using assms
proof (induction ss ws arbitrary: ks rule: list_all2_induct)
  case (Cons s ss w ws)
  then obtain k ks' where ks: "ks = k # ks'" "key_fits s k" "list_all2 key_fits ss ks'"
    by (auto simp: list_all2_Cons1)
  have "k \<noteq> 2 * row + 1" if "s \<noteq> OnLine row"
    using ks(2) that by (cases s) (auto simp: key_fits_def)
  moreover have "k = 2 * row + 1" if "s = OnLine row" using ks(2) that by (simp add: key_fits_def)
  ultimately show ?case using Cons.IH [OF _ ks(3)] Cons.prems(1) Cons.hyps(1) ks(1)
    by (cases s) (auto split: if_splits)
qed simp

lemma slot_inserts_bound:
  "\<forall>k\<in>set ks. k \<le> 2 * n \<Longrightarrow> \<forall>p\<in>set (slot_inserts ss ks). fst p \<le> n"
  by (induction ss ks rule: slot_inserts.induct) auto

lemma slot_inserts_sorted:
  "sorted ks \<Longrightarrow> sorted (map fst (slot_inserts ss ks))"
proof (induction ss ks rule: slot_inserts.induct)
  case (1 r ss k ks)
  have "fst p \<in> (\<lambda>k. k div 2) ` set ks" if "p \<in> set (slot_inserts ss ks)" for p
    using that by (induction ss ks rule: slot_inserts.induct) auto
  then have "\<forall>p\<in>set (slot_inserts ss ks). k div 2 \<le> fst p" using 1 by (force intro: div_le_mono)
  with 1 show ?case by auto
qed auto

lemma slot_inserts_raw:
  "\<lbrakk>list_all2 (slot_ok rend found rep) ss ws; p \<in> set (slot_inserts ss ks)\<rbrakk>
     \<Longrightarrow> check_raw (snd p) = Inr () \<and> (\<exists>e\<in>set ws. rend e = Inr (snd p))"
proof (induction ss ws arbitrary: ks rule: list_all2_induct)
  case (Cons s ss w ws)
  then show ?case by (cases s; cases ks) (auto simp: slot_ok_def)
qed simp

lemma settled_lines:
  assumes "settled rend found i plan ss ws" and "\<forall>r\<in>fst ` set found. r < n"
  shows "\<forall>r\<in>set (slot_rows ss). r < n"
  using assms set_take_subset [of i "map fst found"] unfolding settled_def by fastforce

lemma sorted_wrt_less_distinct: "sorted_wrt (<) (xs :: nat list) \<Longrightarrow> distinct xs"
  by (simp add: strict_sorted_iff)

lemma line_entry_set_ending [simp]: "line_entry prs (set_ending e l) = line_entry prs l"
  by (simp add: line_entry_def set_ending_def)

lemma plan_entries_settled:
  assumes "plan_entries d wanted prs rend opens = Inr plan"
  defines "found \<equiv> entry_rows prs 0 (lines d)"
  obtains plan0 ss where "settled rend found (length found) plan0 ss wanted"
    and "plan = plan0\<lparr>ep_insert := slot_inserts ss (slot_keys d opens ss None)\<rparr>"
proof -
  let ?have = "map snd found"
  have steps: "plan_entries d wanted prs rend opens =
      bind_result (plan_steps (map fst found) wanted rend (align_or_replace ?have wanted) [] [] plan_default [])
        (\<lambda>(plan, slots). Inr (place_slots d opens (zip slots (next_rows slots)) None plan))"
    by (simp add: plan_entries_def found_def align_or_replace_def Let_def)
  from assms(1) obtain plan0 ss where p:
    "plan_steps (map fst found) wanted rend (align_or_replace ?have wanted) [] [] plan_default [] = Inr (plan0, ss)"
    "plan = place_slots d opens (zip ss (next_rows ss)) None plan0"
    unfolding steps by (auto simp: bind_result_eq_Inr)
  have "settled rend found 0 plan_default [] (take 0 wanted)"
    by (simp add: settled_def plan_default_def)
  then have st: "settled rend found (length found) plan0 ss wanted"
    using plan_steps_settled [of rend found 0 plan_default "[]" 0 wanted 0 0 "align_or_replace ?have wanted" plan0 ss]
      align_or_replace_valid [of ?have wanted] p(1) sorted_entry_rows [of prs 0 "lines d"]
    by (simp add: valid_script_def found_def)
  moreover from st have "ep_insert plan0 = []" by (simp add: settled_def)
  ultimately show ?thesis using that p(2) by (simp add: place_slots_keys)
qed

lemma apply_plan_layout:
  assumes "sorted_wrt (<) (map fst (ep_replace plan))" and "sorted_wrt (<) (ep_remove plan)"
    and "sorted (map fst (ep_insert plan))" and "fst ` set (ep_replace plan) \<inter> set (ep_remove plan) = {}"
  shows "lines (fst (apply_plan plan d)) = normalize_lines
    (let ls = layout (classify d) (dominant_ending d) (ep_replace plan) (ep_remove plan) (ep_insert plan) 0 (lines d)
     in if lines d \<noteq> [] \<and> ending (last (lines d)) = NoEnding then set_last_ending NoEnding ls else ls)"
proof -
  have "sorted (map fst (ep_replace plan))" "sorted (ep_remove plan)"
    using assms(1,2) by (simp_all add: strict_sorted_iff)
  moreover have "distinct (map fst (ep_replace plan))" "distinct (ep_remove plan)"
    using assms(1,2) by (simp_all add: strict_sorted_iff)
  moreover note apply_rows_layout [of "ep_replace plan" "ep_remove plan" "ep_insert plan" "classify d"
      "dominant_ending d" 0 "lines d"]
  ultimately show ?thesis using assms(3,4)
    by (simp add: apply_plan_def rebuild_def normalize_def Let_def sort_key_sorted sorted_sort_id
        new_lines_def case_prod_unfold)
qed

lemma entries_zip:
  "entries prs ls =
     filter_map (\<lambda>(k, r). if k = Directive then prs r else None) (zip (map kind ls) (map raw ls))"
  by (induction ls) (auto simp: line_entry_def option_list_def split: option.splits)

lemma entries_fields:
  "\<lbrakk>map kind ls = map kind ks; map raw ls = map raw ks\<rbrakk> \<Longrightarrow> entries prs ls = entries prs ks"
  by (simp add: entries_zip)

lemma entries_respan [simp]: "entries prs (respan off ls) = entries prs ls"
  by (rule entries_fields) simp_all

lemma entries_set_last_ending [simp]: "entries prs (set_last_ending e ls) = entries prs ls"
  by (rule entries_fields) simp_all

section \<open>Every edit keeps the invariant\<close>

lemma layout_raw:
  assumes "\<forall>p\<in>set rep. LF \<notin> set (snd p)" and "\<forall>p\<in>set ins. LF \<notin> set (snd p)" and "\<forall>l\<in>set ls. LF \<notin> set (raw l)"
    and "dmn \<noteq> NoEnding"
  shows "\<forall>l\<in>set (layout cl dmn rep rem ins row ls). LF \<notin> set (raw l) \<and> ended l"
  using assms(3)
proof (induction ls arbitrary: row)
  case Nil
  then show ?case using assms(2,4) by (auto simp: new_lines_def ended_def)
next
  case (Cons l ls)
  have "LF \<notin> set (raw (rewritten cl rep row l))"
    using Cons.prems assms(1) by (force simp: rewritten_def dest: map_of_SomeD split: option.splits)
  with Cons assms(2,4) show ?case by (auto simp: new_lines_def ended_def set_ending_def)
qed

lemma ended_shape: "\<forall>l\<in>set ls. LF \<notin> set (raw l) \<and> ended l \<Longrightarrow> shape ls"
  by (auto simp: shape_def dest: in_set_butlastD)

lemma apply_plan_classify [simp]: "classify (fst (apply_plan plan d)) = classify d"
  by (simp add: apply_plan_def rebuild_def normalize_def Let_def)

text \<open>What a plan of \<open>plan_entries\<close> looks like, and what carrying it out leaves.\<close>

definition orderly :: "entry_plan \<Rightarrow> bool" where
  "orderly plan \<longleftrightarrow> sorted_wrt (<) (map fst (ep_replace plan)) \<and> sorted_wrt (<) (ep_remove plan)
     \<and> sorted (map fst (ep_insert plan)) \<and> fst ` set (ep_replace plan) \<inter> set (ep_remove plan) = {}"

definition plan_safe :: "entry_plan \<Rightarrow> bool" where
  "plan_safe plan \<longleftrightarrow> (\<forall>p\<in>set (ep_replace plan) \<union> set (ep_insert plan). check_raw (snd p) = Inr ())"

lemma settled_replaced_safe:
  assumes "list_all2 (slot_ok rend found rep) ss ws" and "map_of rep row = Some r" and "row \<in> set (slot_rows ss)"
  shows "check_raw r = Inr ()"
  using assms
proof (induction ss ws rule: list_all2_induct)
  case (Cons s ss w ws)
  then show ?case by (cases s) (auto simp: slot_ok_def)
qed simp

lemma plan_entries_orderly:
  assumes "plan_entries d wanted prs rend opens = Inr plan"
  shows "orderly plan \<and> plan_safe plan"
proof -
  let ?found = "entry_rows prs 0 (lines d)"
  from plan_entries_settled [OF assms] obtain plan0 ss where
    st: "settled rend ?found (length ?found) plan0 ss wanted"
    and p: "plan = plan0\<lparr>ep_insert := slot_inserts ss (slot_keys d opens ss None)\<rparr>" by blast
  have "\<forall>r\<in>fst ` set ?found. r < length (lines d)" using entry_rows_iff [of _ _ prs 0 "lines d"] by fastforce
  from settled_lines [OF st this] st
  have "sorted (slot_keys d opens ss None)" using slot_keys_sorted [of ss d None opens] by (auto simp: settled_def)
  then have "orderly plan" using st slot_inserts_sorted p by (auto simp: orderly_def settled_def)
  moreover have "check_raw (snd q) = Inr ()" if "q \<in> set (ep_replace plan)" for q
  proof -
    have "map_of (ep_replace plan0) (fst q) = Some (snd q)" "fst q \<in> set (slot_rows ss)"
      using that st p by (auto simp: settled_def strict_sorted_iff)
    then show ?thesis using settled_replaced_safe [of rend ?found "ep_replace plan0" ss wanted] st
      unfolding settled_def by blast
  qed
  moreover have "check_raw (snd q) = Inr ()" if "q \<in> set (ep_insert plan)" for q
    using slot_inserts_raw [of rend ?found "ep_replace plan0" ss wanted q] st that p
    by (auto simp: settled_def)
  ultimately show ?thesis by (auto simp: plan_safe_def)
qed

lemma apply_plan_ok:
  assumes "orderly plan" and "plan_safe plan" and "doc_ok d"
  shows "doc_ok (fst (apply_plan plan d))"
proof -
  let ?ls = "layout (classify d) (dominant_ending d) (ep_replace plan) (ep_remove plan) (ep_insert plan) 0 (lines d)"
  have "\<forall>l\<in>set ?ls. LF \<notin> set (raw l) \<and> ended l"
    using assms(2) doc_ok_shape [OF assms(3)] by (intro layout_raw) (auto simp: plan_safe_def shape_def)
  then have "shape ?ls" by (rule ended_shape)
  then show ?thesis using apply_plan_layout [of plan d] assms(1) normalize_lines_ok
    by (auto simp: doc_ok_def orderly_def Let_def)
qed

lemma layout_kinds_ok: "kinds_ok cl ls \<Longrightarrow> kinds_ok cl (layout cl dmn rep rem ins row ls)"
proof (induction ls arbitrary: row)
  case (Cons l ls)
  then show ?case
    by (auto simp: kinds_ok_def new_lines_def list_all_iff set_ending_def rewritten_def split: option.splits)
qed (auto simp: kinds_ok_def new_lines_def list_all_iff)

lemma apply_plan_kinds_ok:
  assumes "orderly plan" and "kinds_ok (classify d) (lines d)" and "\<And>r. classify d (r @ [CR]) = classify d r"
  shows "kinds_ok (classify d) (lines (fst (apply_plan plan d)))"
  using apply_plan_layout [of plan d] assms(1) layout_kinds_ok [OF assms(2)]
    normalize_kinds_ok [where cl = "classify d"] assms(3)
  by (simp add: orderly_def Let_def)

section \<open>An edit that asks for nothing\<close>

lemma layout_nothing: "layout cl dmn [] [] [] row ls = map (set_ending dmn) ls"
  by (induction ls arbitrary: row) (auto simp: new_lines_def rewritten_def)

lemma set_ending_back:
  assumes "lines_ok ls"
  shows "(let ks = map (set_ending dmn) ls in
    if ls \<noteq> [] \<and> ending (last ls) = NoEnding then set_last_ending NoEnding ks else ks) = ls"
proof (cases ls rule: rev_cases)
  case (snoc ks l)
  then have "map (set_ending dmn) ks = ks"
    using assms by (intro map_idI) (auto simp: lines_ok_def list_all_iff set_ending_def ended_def)
  moreover have "(set_ending dmn l)\<lparr>ending := NoEnding\<rparr> = l" if "ending l = NoEnding"
    using that by (cases l) (simp add: set_ending_def)
  ultimately show ?thesis using snoc by (auto simp: set_last_ending_def set_ending_def)
qed simp

lemma plan_steps_equal:
  assumes "k + n \<le> length rows"
  shows "plan_steps rows wanted rend (map (\<lambda>i. Equal i i) [k..<k + n]) [] [] plan ss
    = Inr (plan, ss @ map OnLine (take n (drop k rows)))"
  using assms
proof (induction n arbitrary: k ss)
  case (Suc n)
  have "[k..<k + Suc n] = k # [Suc k..<Suc k + n]" by (simp add: upt_conv_Cons del: upt_Suc)
  moreover have "drop k rows = rows ! k # drop (Suc k) rows" using Suc.prems by (simp add: Cons_nth_drop_Suc)
  ultimately show ?case using Suc.IH [of "Suc k"] Suc.prems by (simp add: get_def option_list_def)
qed simp

lemma slot_inserts_lines [simp]: "slot_inserts (map OnLine rows) ks = []"
proof (induction rows arbitrary: ks)
  case (Cons row rows)
  then show ?case by (cases ks) auto
qed simp

lemma edit_entries_noop:
  assumes "doc_ok d"
  shows "edit_entries d (entries prs (lines d)) prs rend opens
    = Inr (d, \<lparr>changed_lines = 0, added = 0, removed = 0\<rparr>)"
proof -
  let ?found = "entry_rows prs 0 (lines d)"
  have "plan_entries d (entries prs (lines d)) prs rend opens = Inr plan_default"
    using plan_steps_equal [of 0 "length ?found" "map fst ?found" "map snd ?found" rend plan_default "[]"]
    by (simp add: plan_entries_def snd_entry_rows [symmetric, of prs _ 0] align_same Let_def
        place_slots_keys plan_default_def flip: map_map)
  moreover have "lines (fst (apply_plan plan_default d)) = lines d"
    using apply_plan_layout [of plan_default d] assms set_ending_back [of "lines d"]
    by (simp add: plan_default_def layout_nothing normalize_lines_id doc_ok_def)
  moreover have "snd (apply_plan plan_default d) = \<lparr>changed_lines = 0, added = 0, removed = 0\<rparr>"
    by (simp add: apply_plan_def Let_def plan_default_def)
  moreover have "classify (fst (apply_plan plan_default d)) = classify d" by simp
  ultimately show ?thesis
    by (cases "apply_plan plan_default d") (simp add: edit_entries_def)
qed

section \<open>The size of a plan and when planning fails\<close>

definition new_slots :: "slot list \<Rightarrow> nat" where
  "new_slots ss = length (filter (\<lambda>s. slot_row s = None) ss)"

definition plan_size :: "entry_plan \<Rightarrow> slot list \<Rightarrow> nat" where
  "plan_size plan ss = 2 * length (ep_replace plan) + length (ep_remove plan) + new_slots ss"

lemma new_slots_simps [simp]:
  "new_slots (ss @ [OnLine row]) = new_slots ss" "new_slots (ss @ [NewLine r]) = Suc (new_slots ss)"
  by (simp_all add: new_slots_def slot_row_def)

lemma settle_run_size:
  "settle_run gone inserted rend plan ss = Inr (plan', ss')
     \<Longrightarrow> plan_size plan' ss' = plan_size plan ss + length gone + length inserted"
proof (induction gone inserted rend plan ss rule: settle_run.induct)
  case (2 gone entry inserted rend plan ss)
  then show ?case by (cases gone) (auto simp: bind_result_eq_Inr plan_size_def)
qed (auto simp: plan_size_def)

lemma plan_steps_size:
  "\<lbrakk>walk (map snd found) wanted i j steps = Some (i', j');
    plan_steps (map fst found) wanted rend steps deleted inserted plan ss = Inr (plan', ss')\<rbrakk>
   \<Longrightarrow> plan_size plan' ss' = plan_size plan ss + length deleted + length inserted + cost steps"
proof (induction "map snd found" wanted i j steps arbitrary: deleted inserted plan ss rule: walk.induct)
  case (1 wanted i j)
  then show ?case using settle_run_size by fastforce
next
  case (2 wanted i j a b steps)
  then obtain plan1 ss1 where run: "settle_run deleted inserted rend plan ss = Inr (plan1, ss1)"
    and rest: "plan_steps (map fst found) wanted rend steps [] [] plan1
      (ss1 @ map OnLine (option_list (get (map fst found) a))) = Inr (plan', ss')"
    and w: "a < length found" "walk (map snd found) wanted (i + 1) (j + 1) steps = Some (i', j')"
    by (auto simp: bind_result_eq_Inr split: if_splits)
  show ?case using settle_run_size [OF run] "2.hyps" [OF _ w(2) rest] "2.prems"(1) w(1)
    by (auto simp: get_def option_list_def plan_size_def split: if_splits)
next
  case (3 wanted i j a steps)
  then show ?case by (fastforce simp: get_def option_list_def split: if_splits)
next
  case (4 wanted i j a steps)
  then show ?case by (fastforce simp: get_def option_list_def split: if_splits)
qed

lemma length_slot_inserts: "length ss = length ks \<Longrightarrow> length (slot_inserts ss ks) = new_slots ss"
proof (induction ss ks rule: slot_inserts.induct)
qed (auto simp: new_slots_def slot_row_def)

lemma edit_entries_size:
  assumes "edit_entries d wanted prs rend opens = Inr (d', report)"
  shows "2 * changed_lines report + removed report + added report
    = cost (align_or_replace (entries prs (lines d)) wanted)"
proof -
  let ?found = "entry_rows prs 0 (lines d)"
  let ?steps = "align_or_replace (map snd ?found) wanted"
  from assms obtain plan where plan: "plan_entries d wanted prs rend opens = Inr plan"
    "report = snd (apply_plan plan d)"
    by (auto simp: edit_entries_def bind_result_eq_Inr)
  then obtain plan0 ss where
    run: "plan_steps (map fst ?found) wanted rend ?steps [] [] plan_default [] = Inr (plan0, ss)"
    and p: "plan = place_slots d opens (zip ss (next_rows ss)) None plan0"
    by (auto simp: plan_entries_def Let_def bind_result_eq_Inr align_or_replace_def)
  have "walk (map snd ?found) wanted 0 0 ?steps = Some (length ?found, length wanted)"
    using align_or_replace_valid [of "map snd ?found" wanted] by (simp add: valid_script_def)
  from plan_steps_size [OF this run] have size: "plan_size plan0 ss = cost ?steps"
    by (simp add: plan_size_def plan_default_def new_slots_def)
  have "ep_insert plan0 = []"
    using plan_steps_settled [of rend ?found 0 plan_default "[]" 0 wanted 0 0 ?steps plan0 ss]
      align_or_replace_valid [of "map snd ?found" wanted] run sorted_entry_rows [of prs 0 "lines d"]
    by (simp add: valid_script_def settled_def plan_default_def)
  then show ?thesis using size plan(2) p
    by (simp add: plan_size_def apply_plan_def Let_def place_slots_keys length_slot_inserts snd_entry_rows)
qed

lemma settle_run_total:
  "\<forall>e\<in>set inserted. \<exists>r. rend e = Inr r \<and> check_raw r = Inr () \<Longrightarrow>
     \<exists>plan' ss'. settle_run gone inserted rend plan ss = Inr (plan', ss')"
proof (induction gone inserted rend plan ss rule: settle_run.induct)
  case (2 gone entry inserted rend plan ss)
  from "2.prems" obtain r where "rend entry = Inr r" "check_raw r = Inr ()" by auto
  with 2 show ?case by (cases gone) auto
qed auto

lemma plan_steps_total:
  "\<lbrakk>\<forall>e\<in>set wanted. \<exists>r. rend e = Inr r \<and> check_raw r = Inr (); set inserted \<subseteq> set wanted\<rbrakk> \<Longrightarrow>
     \<exists>plan' ss'. plan_steps rows wanted rend steps deleted inserted plan ss = Inr (plan', ss')"
proof (induction rows wanted rend steps deleted inserted plan ss rule: plan_steps.induct)
  case (1 rows wanted rend deleted inserted plan ss)
  then show ?case using settle_run_total [of inserted rend] by (simp del: check_raw_Inr) blast
next
  case (4 rows wanted rend old new steps deleted inserted plan ss)
  from "4.prems" obtain plan1 ss1 where "settle_run deleted inserted rend plan ss = Inr (plan1, ss1)"
    using settle_run_total [of inserted rend] by blast
  with 4 show ?case by auto
qed (auto simp: get_def option_list_def)

lemma edit_entries_total:
  assumes "\<forall>e\<in>set wanted. \<exists>r. rend e = Inr r \<and> check_raw r = Inr ()"
  shows "\<exists>d' report. edit_entries d wanted prs rend opens = Inr (d', report)"
  using plan_steps_total [OF assms, of "[]"]
  by (auto simp: edit_entries_def plan_entries_def Let_def bind_result_eq_Inr)
    (metis (no_types, lifting) bind_result_simps(2) case_prod_conv surj_pair)

section \<open>The lines that are not entries\<close>

definition others :: "(rstr \<Rightarrow> 'e option) \<Rightarrow> line list \<Rightarrow> line list" where
  "others prs ls = filter (\<lambda>l. line_entry prs l = None) ls"

definition line_fields :: "line \<Rightarrow> line_kind \<times> rstr \<times> line_ending" where
  "line_fields l = (kind l, raw l, ending l)"

lemma others_respan: "map line_fields (others prs (respan off ls)) = map line_fields (others prs ls)"
  by (induction ls arbitrary: off) (auto simp: others_def line_fields_def line_entry_def Let_def)

lemma normalize_terminated:
  assumes "\<forall>l\<in>set ls. line_ok l \<and> ended l"
  shows "normalize_lines ls = respan 0 ls"
proof -
  have "map settle_cr ls = ls"
    using assms by (intro map_idI) (auto simp: settle_cr_def line_ok_def)
  moreover have "drop_empty_tail ls = ls"
    using assms by (cases ls rule: rev_cases) (auto simp: drop_empty_tail_def ended_def)
  ultimately show ?thesis by (simp add: normalize_lines_def)
qed

lemma new_lines_ok:
  assumes "\<forall>p\<in>set ins. check_raw (snd p) = Inr ()" and "dmn \<noteq> NoEnding" and "k \<in> set (new_lines cl dmn ins)"
  shows "line_ok k \<and> ended k"
proof -
  from assms(3) obtain p where p: "p \<in> set ins" "k = line_new (snd p) (cl (snd p)) dmn"
    by (auto simp: new_lines_def)
  then have "check_raw (snd p) = Inr ()" using assms(1) by blast
  then show ?thesis using p(2) assms(2) check_raw_line_ok [of "snd p" k] by (auto simp: ended_def)
qed

lemma layout_line_ok:
  assumes "plan_safe plan" and "\<forall>l\<in>set ls. line_ok l" and "dmn \<noteq> NoEnding"
    and "\<forall>l\<in>set ls. ended l"
  shows "\<forall>l\<in>set (layout cl dmn (ep_replace plan) rem (ep_insert plan) row ls). line_ok l \<and> ended l"
  using assms(2,4)
proof (induction ls arbitrary: row)
  case Nil
  then show ?case using assms(1,3) new_lines_ok [of "filter (\<lambda>p. row \<le> fst p) (ep_insert plan)" dmn _ cl]
    by (simp add: plan_safe_def del: check_raw_Inr)
next
  case (Cons l ls)
  have l: "line_ok (rewritten cl (ep_replace plan) row l) \<and> ended (rewritten cl (ep_replace plan) row l)"
  proof (cases "map_of (ep_replace plan) row")
    case (Some r)
    then have "check_raw r = Inr ()" using assms(1) by (force simp: plan_safe_def dest: map_of_SomeD)
    then show ?thesis using Some Cons.prems check_raw_line_ok [of r "rewritten cl (ep_replace plan) row l"]
      by (simp add: rewritten_def ended_def)
  qed (use Cons.prems in \<open>simp add: rewritten_def\<close>)
  then have e: "set_ending dmn (rewritten cl (ep_replace plan) row l) = rewritten cl (ep_replace plan) row l"
    by (simp add: set_ending_def ended_def)
  have new: "line_ok k \<and> ended k" if "k \<in> set (new_lines cl dmn (filter (\<lambda>p. fst p = row) (ep_insert plan)))" for k
    using that assms(1,3) new_lines_ok [of "filter (\<lambda>p. fst p = row) (ep_insert plan)" dmn k cl]
    by (simp add: plan_safe_def del: check_raw_Inr)
  have IH: "\<forall>l\<in>set (layout cl dmn (ep_replace plan) rem (ep_insert plan) (row + 1) ls). line_ok l \<and> ended l"
    using Cons.prems by (intro Cons.IH) simp_all
  show ?case unfolding layout.simps e set_append ball_Un
    using l new IH by (intro conjI ballI) (auto split: if_splits)
qed

lemma edit_entries_plan:
  assumes "edit_entries d wanted prs rend opens = Inr (d', report)"
  obtains plan where "plan_entries d wanted prs rend opens = Inr plan" and "d' = fst (apply_plan plan d)"
    and "report = snd (apply_plan plan d)"
proof -
  from assms obtain plan where p: "plan_entries d wanted prs rend opens = Inr plan"
    "apply_plan plan d = (d', report)"
    unfolding edit_entries_def bind_result_eq_Inr by auto
  have "d' = fst (apply_plan plan d)" "report = snd (apply_plan plan d)" unfolding p(2) by simp_all
  with p(1) show ?thesis by (rule that)
qed

lemma edit_entries_ok:
  assumes "edit_entries d wanted prs rend opens = Inr (d', report)" and "doc_ok d"
  shows "doc_ok d'"
proof -
  obtain plan where p: "plan_entries d wanted prs rend opens = Inr plan" "d' = fst (apply_plan plan d)"
    using edit_entries_plan [OF assms(1)] .
  then show ?thesis using plan_entries_orderly [OF p(1)] apply_plan_ok assms(2) by blast
qed

text \<open>Where a wanted entry comes from: it was there already, or it was rendered and found safe.\<close>

lemma slot_ok_source:
  assumes "list_all2 (slot_ok rend found rep) ss ws" and "e \<in> set ws"
  shows "(\<exists>row. (row, e) \<in> set found) \<or> (\<exists>r. rend e = Inr r \<and> check_raw r = Inr ())"
  using assms
proof (induction ss ws rule: list_all2_induct)
  case (Cons s ss w ws)
  then show ?case by (cases s) (auto simp: slot_ok_def split: option.splits)
qed simp

lemma edit_entries_source:
  assumes "edit_entries d wanted prs rend opens = Inr (d', report)" and "e \<in> set wanted"
  shows "e \<in> set (entries prs (lines d)) \<or> (\<exists>r. rend e = Inr r \<and> check_raw r = Inr ())"
proof -
  obtain plan where "plan_entries d wanted prs rend opens = Inr plan"
    using edit_entries_plan [OF assms(1)] .
  from plan_entries_settled [OF this] obtain plan0 ss where
    "settled rend (entry_rows prs 0 (lines d)) (length (entry_rows prs 0 (lines d))) plan0 ss wanted" .
  then have "list_all2 (slot_ok rend (entry_rows prs 0 (lines d)) (ep_replace plan0)) ss wanted"
    by (simp add: settled_def)
  note slot_ok_source [OF this assms(2)]
  moreover have "e \<in> set (entries prs (lines d))" if "(row, e) \<in> set (entry_rows prs 0 (lines d))" for row
    using that by (force simp flip: snd_entry_rows [of prs 0])
  ultimately show ?thesis by blast
qed

text \<open>The contract of a module's line callbacks.\<close>

locale entry_format =
  fixes cl :: "rstr \<Rightarrow> line_kind"
    and prs :: "rstr \<Rightarrow> 'e option"
    and rend :: "'e \<Rightarrow> (edit_error, rstr) result"
  assumes rendered_entry: "rend e = Inr r \<Longrightarrow> check_raw r = Inr () \<Longrightarrow> prs r = Some e \<and> cl r = Directive"
    and parse_cr: "prs (r @ [CR]) = prs r"
    and parse_empty: "prs [] = None"
begin

lemma inserted_entries:
  assumes "list_all2 (slot_ok rend found rep) ss ws" and "list_all2 key_fits ss ks"
  shows "entries prs (new_lines cl dmn (filter (\<lambda>p. fst p = row) (slot_inserts ss ks)))
    = map snd (filter (\<lambda>q. fst q = 2 * row) (zip ks ws))"
  using assms
proof (induction ss ws arbitrary: ks rule: list_all2_induct)
  case (Cons s ss w ws)
  then obtain k ks' where ks: "ks = k # ks'" "key_fits s k" "list_all2 key_fits ss ks'"
    by (auto simp: list_all2_Cons1)
  show ?case
  proof (cases s)
    case (OnLine r)
    then have "odd k" using ks(2) by (simp add: key_fits_def)
    then have "k \<noteq> 2 * row" by auto
    then show ?thesis using Cons.IH [OF ks(3)] OnLine ks(1) by simp
  next
    case (NewLine r)
    then have "k div 2 = row \<longleftrightarrow> k = 2 * row" using ks(2) by (auto simp: key_fits_def)
    moreover have "prs r = Some w \<and> cl r = Directive"
      using Cons.hyps(1) NewLine rendered_entry [of w r] by (simp add: slot_ok_def)
    ultimately show ?thesis using Cons.IH [OF ks(3)] NewLine ks(1)
      by (auto simp: new_lines_def line_entry_def option_list_def)
  qed
qed (simp add: new_lines_def)

lemma kept_entries:
  assumes "settled rend (entry_rows prs 0 ls) (length (entry_rows prs 0 ls)) plan ss ws"
    and "list_all2 key_fits ss ks" and "row < length ls"
  shows "(if row \<in> set (ep_remove plan) then []
      else option_list (line_entry prs (rewritten cl (ep_replace plan) row (ls ! row))))
    = map snd (filter (\<lambda>q. fst q = 2 * row + 1) (zip ks ws))"
proof -
  let ?found = "entry_rows prs 0 ls" and ?rep = "ep_replace plan"
  have st: "list_all2 (slot_ok rend ?found ?rep) ss ws" "distinct (slot_rows ss)"
    "set (slot_rows ss) \<union> set (ep_remove plan) = fst ` set ?found"
    "set (slot_rows ss) \<inter> set (ep_remove plan) = {}" "fst ` set ?rep \<subseteq> set (slot_rows ss)"
    using assms(1) by (auto simp: settled_def dest: sorted_wrt_less_distinct)
  note at = slots_at_row [OF st(1,2) assms(2), of row]
  show ?thesis
  proof (cases "row \<in> set (slot_rows ss)")
    case True
    with at obtain e where e: "slot_ok rend ?found ?rep (OnLine row) e"
      "map snd (filter (\<lambda>q. fst q = 2 * row + 1) (zip ks ws)) = [e]" by auto
    have "line_entry prs (rewritten cl ?rep row (ls ! row)) = Some e"
      using e(1) rendered_entry entry_rows_iff [of row e prs 0 ls]
      by (auto simp: slot_ok_def rewritten_def line_entry_def split: option.splits if_splits)
    then show ?thesis using e(2) True st(4) by (auto simp: option_list_def)
  next
    case False
    have "line_entry prs (ls ! row) = None" if "row \<notin> set (ep_remove plan)"
    proof -
      have "row \<notin> fst ` set ?found" using False that st(3) by blast
      then have "(row, e) \<notin> set ?found" for e by force
      then show ?thesis using entry_rows_iff [of row _ prs 0 ls] assms(3)
        by (cases "line_entry prs (ls ! row)") auto
    qed
    moreover have "map_of ?rep row = None" using False st(5) by (auto simp: map_of_eq_None_iff)
    ultimately show ?thesis using at False by (simp add: rewritten_def option_list_def)
  qed
qed

lemma layout_entries:
  assumes "settled rend (entry_rows prs 0 ls) (length (entry_rows prs 0 ls)) plan ss ws"
    and "list_all2 key_fits ss ks" and "sorted ks" and "\<forall>k\<in>set ks. k \<le> 2 * length ls"
  shows "entries prs (layout cl dmn (ep_replace plan) (ep_remove plan) (slot_inserts ss ks) 0 ls) = ws"
proof -
  let ?lay = "layout cl dmn (ep_replace plan) (ep_remove plan) (slot_inserts ss ks)"
  let ?Q = "zip ks ws"
  have st: "list_all2 (slot_ok rend (entry_rows prs 0 ls) (ep_replace plan)) ss ws"
    using assms(1) by (simp add: settled_def)
  have len: "length ks = length ws" using st assms(2) by (simp add: list_all2_lengthD [symmetric])
  then have sQ: "sorted (map fst ?Q)" using assms(3) by simp
  have split: "filter (\<lambda>q. 2 * row \<le> fst q) ?Q = filter (\<lambda>q. fst q = 2 * row) ?Q
      @ filter (\<lambda>q. fst q = 2 * row + 1) ?Q @ filter (\<lambda>q. 2 * (row + 1) \<le> fst q) ?Q" for row
    using sorted_filter_split [OF sQ, of "2 * row"] sorted_filter_split [OF sQ, of "2 * row + 1"] by simp
  have "entries prs (?lay row (drop row ls)) = map snd (filter (\<lambda>q. 2 * row \<le> fst q) ?Q)"
    if "row \<le> length ls" for row
    using that
  proof (induction "length ls - row" arbitrary: row)
    case 0
    then have "row = length ls" by simp
    moreover have "filter (\<lambda>p. row \<le> fst p) (slot_inserts ss ks) = filter (\<lambda>p. fst p = row) (slot_inserts ss ks)"
      using slot_inserts_bound [OF assms(4), of ss] \<open>row = length ls\<close> by (intro filter_cong) auto
    moreover have "filter (\<lambda>q. 2 * row \<le> fst q) ?Q = filter (\<lambda>q. fst q = 2 * row) ?Q"
      using assms(4) \<open>row = length ls\<close> by (intro filter_cong) (auto dest!: set_zip_leftD)
    ultimately show ?case using inserted_entries [OF st assms(2), of dmn row] by simp
  next
    case (Suc m)
    then have row: "row < length ls" by simp
    then have "drop row ls = ls ! row # drop (row + 1) ls" by (simp add: Cons_nth_drop_Suc)
    then show ?case
      using Suc.hyps(1) [of "row + 1"] Suc.hyps(2) row inserted_entries [OF st assms(2), of dmn row]
        kept_entries [OF assms(1,2) row]
      by (auto simp: split [of row] split: if_splits)
  qed
  from this [of 0] show ?thesis using len by simp
qed

lemma normalize_entries: "entries prs (normalize_lines ls) = entries prs ls"
proof -
  have "line_entry prs (settle_cr l) = line_entry prs l" for l
  proof (cases "raw l" rule: rev_cases)
    case (snoc r c)
    then show ?thesis using parse_cr [of r] by (auto simp: settle_cr_def line_entry_def)
  qed (simp add: settle_cr_def line_entry_def)
  then have "entries prs (map settle_cr ls) = entries prs ls" by (induction ls) auto
  moreover have "entries prs (drop_empty_tail ks) = entries prs ks" for ks
  proof (cases ks rule: rev_cases)
    case (snoc js l)
    then show ?thesis
      by (auto simp: drop_empty_tail_def line_entry_def parse_empty option_list_def)
  qed (simp add: drop_empty_tail_def)
  ultimately show ?thesis by (simp add: normalize_lines_def)
qed

theorem edit_entries_wanted:
  assumes "edit_entries d wanted prs rend opens = Inr (d', report)" and "classify d = cl"
  shows "entries prs (lines d') = wanted"
proof -
  let ?found = "entry_rows prs 0 (lines d)"
  from assms(1) obtain plan where plan: "plan_entries d wanted prs rend opens = Inr plan"
    "(d', report) = apply_plan plan d"
    by (auto simp: edit_entries_def bind_result_eq_Inr)
  from plan_entries_settled [OF plan(1)] obtain plan0 ss where
    st: "settled rend ?found (length ?found) plan0 ss wanted"
    and p: "plan = plan0\<lparr>ep_insert := slot_inserts ss (slot_keys d opens ss None)\<rparr>" by blast
  let ?ks = "slot_keys d opens ss None"
  have "\<forall>r\<in>fst ` set ?found. r < length (lines d)" using entry_rows_iff [of _ _ prs 0 "lines d"] by fastforce
  from settled_lines [OF st this] st
  have ks: "sorted ?ks" "\<forall>k\<in>set ?ks. k \<le> 2 * length (lines d)"
    using slot_keys_sorted [of ss d None opens] by (auto simp: settled_def)
  have "fst ` set (ep_replace plan0) \<inter> set (ep_remove plan0) = {}" using st by (auto simp: settled_def)
  then have "lines d' = normalize_lines (let ls = layout cl (dominant_ending d) (ep_replace plan0)
        (ep_remove plan0) (slot_inserts ss ?ks) 0 (lines d)
     in if lines d \<noteq> [] \<and> ending (last (lines d)) = NoEnding then set_last_ending NoEnding ls else ls)"
    using apply_plan_layout [of plan d] plan(2) st slot_inserts_sorted [OF ks(1), of ss] assms(2)
    by (metis (no_types, lifting) fst_conv p entry_plan.select_convs(3) entry_plan.surjective
        entry_plan.update_convs(3) settled_def entry_plan.select_convs(1,2))
  then show ?thesis
    using layout_entries [OF st slot_keys_fit ks, of "dominant_ending d"]
    by (simp add: normalize_entries Let_def)
qed

lemma layout_others:
  assumes "settled rend (entry_rows prs 0 ls) (length (entry_rows prs 0 ls)) plan ss ws" and "row \<le> length ls"
  shows "others prs (layout cl dmn (ep_replace plan) (ep_remove plan) (slot_inserts ss ks) row (drop row ls))
    = map (set_ending dmn) (others prs (drop row ls))"
proof -
  let ?found = "entry_rows prs 0 ls" and ?rep = "ep_replace plan"
  have st: "list_all2 (slot_ok rend ?found ?rep) ss ws"
    "set (slot_rows ss) \<union> set (ep_remove plan) = fst ` set ?found" "fst ` set ?rep \<subseteq> set (slot_rows ss)"
    using assms(1) by (auto simp: settled_def)
  have ent: "line_entry prs (ls ! r) \<noteq> None" if "r \<in> set (slot_rows ss) \<union> set (ep_remove plan)" for r
    using that entry_rows_iff [of r _ prs 0 ls] unfolding st(2) by force
  have ins: "others prs (new_lines cl dmn (filter P (slot_inserts ss ks))) = []" for P
    using slot_inserts_raw [OF st(1), of _ ks] rendered_entry
    by (fastforce simp: others_def new_lines_def filter_empty_conv line_entry_def)
  show ?thesis using assms(2)
  proof (induction "length ls - row" arbitrary: row)
    case 0
    then show ?case using ins by (simp add: others_def)
  next
    case (Suc m)
    then have row: "row < length ls" by simp
    then have d: "drop row ls = ls ! row # drop (row + 1) ls" by (simp add: Cons_nth_drop_Suc)
    have "line_entry prs (rewritten cl ?rep row (ls ! row)) = None \<longleftrightarrow> line_entry prs (ls ! row) = None"
      "line_entry prs (ls ! row) = None \<Longrightarrow> rewritten cl ?rep row (ls ! row) = ls ! row"
    proof -
      have "row \<in> set (slot_rows ss)" "check_raw r = Inr ()" "\<exists>e. rend e = Inr r" if "map_of ?rep row = Some r" for r
      proof -
        show r: "row \<in> set (slot_rows ss)" using that st(3) by (force dest: map_of_SomeD)
        show "check_raw r = Inr ()" using settled_replaced_safe [OF st(1) that r] .
        show "\<exists>e. rend e = Inr r"
          using st(1) r that by (induction ss ws rule: list_all2_induct)
            (auto simp: slot_ok_def slot_row_def slot_rows_def split: slot.splits)
      qed
      then show "line_entry prs (rewritten cl ?rep row (ls ! row)) = None \<longleftrightarrow> line_entry prs (ls ! row) = None"
        "line_entry prs (ls ! row) = None \<Longrightarrow> rewritten cl ?rep row (ls ! row) = ls ! row"
        using ent [of row] rendered_entry
        by (cases "map_of ?rep row"; fastforce simp: rewritten_def line_entry_def)+
    qed
    then show ?case using Suc.hyps(1) [of "row + 1"] Suc.hyps(2) row ins ent [of row]
      unfolding d by (auto simp: others_def)
  qed
qed

theorem edit_entries_others:
  assumes "edit_entries d wanted prs rend opens = Inr (d', report)" and "classify d = cl"
    and "doc_ok d" and "list_all ended (lines d)"
  shows "map line_fields (others prs (lines d')) = map line_fields (others prs (lines d))"
proof -
  let ?found = "entry_rows prs 0 (lines d)" and ?dmn = "dominant_ending d"
  from assms(1) obtain plan where plan: "plan_entries d wanted prs rend opens = Inr plan"
    "d' = fst (apply_plan plan d)"
    by (auto simp: edit_entries_def bind_result_eq_Inr)
  from plan_entries_settled [OF plan(1)] obtain plan0 ss where
    st: "settled rend ?found (length ?found) plan0 ss wanted"
    and p: "plan = plan0\<lparr>ep_insert := slot_inserts ss (slot_keys d opens ss None)\<rparr>" by blast
  let ?L = "layout cl ?dmn (ep_replace plan) (ep_remove plan) (ep_insert plan) 0 (lines d)"
  have os: "orderly plan" "plan_safe plan" using plan_entries_orderly [OF plan(1)] by auto
  have T: "\<not> (lines d \<noteq> [] \<and> ending (last (lines d)) = NoEnding)"
    using assms(4) by (auto simp: list_all_iff ended_def)
  have "lines d' = normalize_lines ?L"
    using apply_plan_layout [of plan d] os(1) assms(2) plan(2)
    unfolding orderly_def Let_def if_not_P [OF T] by blast
  also have "\<dots> = respan 0 ?L"
    using assms(3,4) by (intro normalize_terminated layout_line_ok [OF os(2)])
      (simp_all add: doc_ok_def lines_ok_def list_all_iff)
  finally have "map line_fields (others prs (lines d')) = map line_fields (others prs ?L)" by (simp add: others_respan)
  also have "others prs ?L = map (set_ending ?dmn) (others prs (lines d))"
    using layout_others [OF st, of 0 ?dmn "slot_keys d opens ss None"] p by simp
  also have "\<dots> = others prs (lines d)"
    using assms(4) by (intro map_idI) (auto simp: others_def set_ending_def list_all_iff ended_def)
  finally show ?thesis .
qed

end

section \<open>Properties\<close>

text \<open>An edit touches as few lines as the alignment allows: counting a rewritten line as one entry
  out and one in, the report adds up to the length of the edit script, and when \<^verbatim>\<open>align\<close> did not give up,
  no script between the entries is shorter.\<close>

theorem edit_entries_minimal:
  assumes "edit_entries d wanted prs rend opens = Inr (d', report)"
  shows "2 * changed_lines report + removed report + added report
      = cost (align_or_replace (entries prs (lines d)) wanted)
    \<and> (align (entries prs (lines d)) wanted \<noteq> None \<longrightarrow>
        (\<forall>t. valid_script (entries prs (lines d)) wanted t \<longrightarrow>
          2 * changed_lines report + removed report + added report \<le> cost t))"
proof -
  have size: "2 * changed_lines report + removed report + added report
      = cost (align_or_replace (entries prs (lines d)) wanted)"
    by (rule edit_entries_size [OF assms])
  moreover have "cost (align_or_replace (entries prs (lines d)) wanted) \<le> cost t"
    if "align (entries prs (lines d)) wanted \<noteq> None" "valid_script (entries prs (lines d)) wanted t" for t
    using that align_minimal by (auto simp: align_or_replace_def)
  ultimately show ?thesis by simp
qed

definition word_parse :: "rstr \<Rightarrow> rstr option" where
  "word_parse r = (if r = [] then None else Some r)"

definition word_doc :: document where
  "word_doc = parse (lit ''a'' @ [LF] @ lit ''b'' @ [LF]) (\<lambda>_. Directive)"

definition report_of :: "(edit_error, document \<times> edit_report) result \<Rightarrow> edit_report option" where
  "report_of r = (case r of Inl _ \<Rightarrow> None | Inr (_, report) \<Rightarrow> Some report)"

theorem edit_entries_minimal_witness:
  "cost (align_or_replace (entries word_parse (lines word_doc)) [lit ''b'', lit ''c'']) = 2"
proof -
  have r: "report_of (edit_entries word_doc [lit ''b'', lit ''c''] word_parse Inr (\<lambda>_. False))
      = Some \<lparr>changed_lines = 0, added = 1, removed = 1\<rparr>" by code_simp
  obtain d' report where e: "edit_entries word_doc [lit ''b'', lit ''c''] word_parse Inr (\<lambda>_. False) = Inr (d', report)"
    using r by (cases "edit_entries word_doc [lit ''b'', lit ''c''] word_parse Inr (\<lambda>_. False)")
      (auto simp: report_of_def)
  with r have "report = \<lparr>changed_lines = 0, added = 1, removed = 1\<rparr>" by (simp add: report_of_def)
  with edit_entries_minimal [OF e] show ?thesis by simp
qed

text \<open>An edit that asks for the entries the document already has changes nothing, whatever the
  callbacks, and reports no change.\<close>

theorem edit_entries_idle:
  assumes "doc_ok d"
  shows "edit_entries d (entries prs (lines d)) prs rend opens
    = Inr (d, \<lparr>changed_lines = 0, added = 0, removed = 0\<rparr>)"
  by (rule edit_entries_noop [OF assms])

theorem edit_entries_idle_witness:
  "edit_entries word_doc (entries word_parse (lines word_doc)) word_parse Inr (\<lambda>_. True)
     = Inr (word_doc, \<lparr>changed_lines = 0, added = 0, removed = 0\<rparr>)"
  by (rule edit_entries_idle) (simp add: word_doc_def)

end
