(* ===== verification/Net_Addr.thy ===== *)
theory Net_Addr
  imports Prelude
begin

text \<open>
  \<^verbatim>\<open>std::net::IpAddr\<close> as the modules use it: its \<^verbatim>\<open>FromStr\<close> (a recursive-descent reader that
  tries an IPv4 address and then an IPv6 one, and must consume the whole text), its
  \<^verbatim>\<open>Display\<close>, and the predicates \<^verbatim>\<open>is_ipv4\<close>, \<^verbatim>\<open>is_ipv6\<close> and \<^verbatim>\<open>is_loopback\<close>. An address holds
  four octets or eight 16-bit groups. The reader rejects leading zeros in an octet and
  zone ids, which is why \<^verbatim>\<open>fe80::1%eth0\<close> is not an address.
\<close>

section \<open>Addresses\<close>

datatype ip_addr = V4 "nat list" | V6 "nat list"

definition ip_wf :: "ip_addr \<Rightarrow> bool" where
  "ip_wf ip = (case ip of
      V4 os \<Rightarrow> length os = 4 \<and> list_all (\<lambda>b. b \<le> 255) os
    | V6 gs \<Rightarrow> length gs = 8 \<and> list_all (\<lambda>g. g \<le> 65535) gs)"

fun is_ipv4 :: "ip_addr \<Rightarrow> bool" where
  "is_ipv4 (V4 _) = True"
| "is_ipv4 (V6 _) = False"

definition is_ipv6 :: "ip_addr \<Rightarrow> bool" where
  "is_ipv6 ip \<longleftrightarrow> \<not> is_ipv4 ip"

fun is_loopback :: "ip_addr \<Rightarrow> bool" where
  "is_loopback (V4 os) = (get os 0 = Some 127)"
| "is_loopback (V6 gs) = (gs = [0, 0, 0, 0, 0, 0, 0, 1])"

section \<open>Reading an address\<close>

text \<open>A reader takes the text left and answers its value and the text after it. \<open>None\<close> leaves
  the position alone, as \<^verbatim>\<open>read_atomically\<close> does.\<close>

definition to_digit :: "nat \<Rightarrow> rchar \<Rightarrow> nat option" where
  "to_digit radix c =
     (let v = (if 48 \<le> c \<and> c \<le> 57 then Some (c - 48)
               else if 97 \<le> c \<and> c \<le> 122 then Some (c - 97 + 10)
               else if 65 \<le> c \<and> c \<le> 90 then Some (c - 65 + 10) else None)
      in case v of Some d \<Rightarrow> if d < radix then Some d else None | None \<Rightarrow> None)"

fun number_loop :: "nat \<Rightarrow> nat \<Rightarrow> rstr \<Rightarrow> nat \<Rightarrow> nat \<Rightarrow> (nat \<times> nat \<times> rstr) option" where
  "number_loop radix max_digits [] acc count = Some (acc, count, [])"
| "number_loop radix max_digits (c # s) acc count =
     (case to_digit radix c of
        None \<Rightarrow> Some (acc, count, c # s)
      | Some d \<Rightarrow> if max_digits < count + 1 then None
                 else number_loop radix max_digits s (acc * radix + d) (count + 1))"

definition read_number :: "nat \<Rightarrow> nat \<Rightarrow> bool \<Rightarrow> nat \<Rightarrow> rstr \<Rightarrow> (nat \<times> rstr) option" where
  "read_number radix max_digits allow_zero_prefix bound s =
     (case number_loop radix max_digits s 0 0 of
        None \<Rightarrow> None
      | Some (v, count, rest) \<Rightarrow>
          if count = 0 \<or> (\<not> allow_zero_prefix \<and> get s 0 = Some 48 \<and> 1 < count) \<or> bound < v then None
          else Some (v, rest))"

definition read_separator :: "rchar \<Rightarrow> nat \<Rightarrow> (rstr \<Rightarrow> ('a \<times> rstr) option) \<Rightarrow> rstr \<Rightarrow> ('a \<times> rstr) option" where
  "read_separator sep i inner s =
     (if 0 < i then (case s of c # t \<Rightarrow> if c = sep then inner t else None | [] \<Rightarrow> None) else inner s)"

fun octets_loop :: "nat \<Rightarrow> nat \<Rightarrow> rstr \<Rightarrow> (nat list \<times> rstr) option" where
  "octets_loop i 0 s = Some ([], s)"
| "octets_loop i (Suc n) s =
     (case read_separator 46 i (read_number 10 3 False 255) s of
        None \<Rightarrow> None
      | Some (v, rest) \<Rightarrow> map_option (\<lambda>(vs, r). (v # vs, r)) (octets_loop (i + 1) n rest))"

definition read_ipv4_addr :: "rstr \<Rightarrow> (nat list \<times> rstr) option" where
  "read_ipv4_addr s = octets_loop 0 4 s"

text \<open>\<^verbatim>\<open>read_groups\<close>: the groups read, whether the last two were an embedded IPv4 address, and
  the text after them. \<open>n\<close> counts the groups still allowed.\<close>

fun read_groups :: "nat \<Rightarrow> nat \<Rightarrow> rstr \<Rightarrow> nat list \<times> bool \<times> rstr" where
  "read_groups i 0 s = ([], False, s)"
| "read_groups i (Suc n) s =
     (case (if 0 < n then read_separator 58 i read_ipv4_addr s else None) of
        Some (os, rest) \<Rightarrow>
          ([os ! 0 * 256 + os ! 1, os ! 2 * 256 + os ! 3], True, rest)
      | None \<Rightarrow>
          (case read_separator 58 i (read_number 16 4 True 65535) s of
             None \<Rightarrow> ([], False, s)
           | Some (g, rest) \<Rightarrow>
               (let (gs, v4, rest') = read_groups (i + 1) n rest in (g # gs, v4, rest'))))"

definition read_given_char :: "rchar \<Rightarrow> rstr \<Rightarrow> rstr option" where
  "read_given_char c s = (case s of d # t \<Rightarrow> if c = d then Some t else None | [] \<Rightarrow> None)"

definition read_ipv6_addr :: "rstr \<Rightarrow> (nat list \<times> rstr) option" where
  "read_ipv6_addr s =
     (let (head, head_v4, rest) = read_groups 0 8 s
      in if length head = 8 then Some (head, rest)
         else if head_v4 then None
         else (case read_given_char 58 rest of
                 None \<Rightarrow> None
               | Some rest1 \<Rightarrow>
                   (case read_given_char 58 rest1 of
                      None \<Rightarrow> None
                    | Some rest2 \<Rightarrow>
                        (let (tail, _, rest3) = read_groups 0 (8 - (length head + 1)) rest2
                         in Some (head @ replicate (8 - length head - length tail) 0 @ tail, rest3)))))"

definition parse_ip :: "rstr \<Rightarrow> ip_addr option" where
  "parse_ip s =
     (case (case read_ipv4_addr s of
              Some (os, rest) \<Rightarrow> Some (V4 os, rest)
            | None \<Rightarrow> map_option (\<lambda>(gs, rest). (V6 gs, rest)) (read_ipv6_addr s)) of
        Some (ip, []) \<Rightarrow> Some ip
      | _ \<Rightarrow> None)"

section \<open>Printing an address\<close>

definition hex_digit :: "nat \<Rightarrow> rchar" where
  "hex_digit d = (if d < 10 then 48 + d else 87 + d)"

fun show_hex :: "nat \<Rightarrow> rstr" where
  "show_hex n = (if n < 16 then [hex_digit n] else show_hex (n div 16) @ [hex_digit (n mod 16)])"

declare show_hex.simps [simp del]

definition show_octets :: "nat list \<Rightarrow> rstr" where
  "show_octets os = join_with [46] (map show_nat os)"

text \<open>The longest run of zero groups, the first one on a tie: \<open>(start, len)\<close>.\<close>

fun zero_span :: "nat \<Rightarrow> nat list \<Rightarrow> nat \<times> nat \<Rightarrow> nat \<times> nat \<Rightarrow> nat \<times> nat" where
  "zero_span i [] current longest = longest"
| "zero_span i (g # gs) (start, len) longest =
     (if g = 0 then
        (let current = (if len = 0 then i else start, len + 1)
         in zero_span (i + 1) gs current (if snd longest < snd current then current else longest))
      else zero_span (i + 1) gs (0, 0) longest)"

definition show_groups :: "nat list \<Rightarrow> rstr" where
  "show_groups gs = join_with [58] (map show_hex gs)"

definition show_ip :: "ip_addr \<Rightarrow> rstr" where
  "show_ip ip =
     (case ip of
        V4 os \<Rightarrow> show_octets os
      | V6 gs \<Rightarrow>
          if take 6 gs = [0, 0, 0, 0, 0, 65535]
          then lit ''::ffff:'' @ show_octets [gs ! 6 div 256, gs ! 6 mod 256, gs ! 7 div 256, gs ! 7 mod 256]
          else
            (let (start, len) = zero_span 0 gs (0, 0) (0, 0)
             in if 1 < len
                then show_groups (take start gs) @ [58, 58] @ show_groups (drop (start + len) gs)
                else show_groups gs))"

lemma parse_ip_Nil [simp]: "parse_ip [] = None"
  by code_simp

lemma address_examples:
  "parse_ip (lit ''127.0.0.1'') = Some (V4 [127, 0, 0, 1])"
  "parse_ip (lit ''::1'') = Some (V6 [0, 0, 0, 0, 0, 0, 0, 1])"
  "parse_ip (lit ''::ffff:1.2.3.4'') = Some (V6 [0, 0, 0, 0, 0, 65535, 258, 772])"
  "parse_ip (lit ''fe80::1%eth0'') = None"
  "parse_ip (lit ''1.2.3.04'') = None"
  "show_ip (V6 [65282, 0, 0, 0, 0, 0, 0, 1]) = lit ''ff02::1''"
  by code_simp+

end
