(* ===== verification/Diag.thy ===== *)
theory Diag
  imports Document
begin

text \<open>
  \<^verbatim>\<open>crates/detent-core/src/diag.rs\<close>: the findings a module's \<^verbatim>\<open>validate\<close> answers with. A message id
  and a field path are text; the arguments are a \<^verbatim>\<open>BTreeMap\<close>.
\<close>

datatype severity = Error | Warning | Recommendation

record diagnostic =
  dg_severity :: severity
  dg_id :: rstr
  dg_field :: "rstr option"
  dg_span :: "span option"
  dg_args :: "(rstr \<times> rstr) list"

definition diagnostic_new :: "severity \<Rightarrow> rstr \<Rightarrow> diagnostic" where
  "diagnostic_new sev mid =
     \<lparr>dg_severity = sev, dg_id = mid, dg_field = None, dg_span = None, dg_args = []\<rparr>"

definition with_field :: "rstr \<Rightarrow> diagnostic \<Rightarrow> diagnostic" where
  "with_field f d = d\<lparr>dg_field := Some f\<rparr>"

definition with_span :: "span \<Rightarrow> diagnostic \<Rightarrow> diagnostic" where
  "with_span sp d = d\<lparr>dg_span := Some sp\<rparr>"

definition with_arg :: "rstr \<Rightarrow> rstr \<Rightarrow> diagnostic \<Rightarrow> diagnostic" where
  "with_arg k v d = d\<lparr>dg_args := bt_insert k v (dg_args d)\<rparr>"

type_synonym diagnostics = "diagnostic list"

definition has_errors :: "diagnostics \<Rightarrow> bool" where
  "has_errors ds = list_ex (\<lambda>d. dg_severity d = Error) ds"

lemma severity_simps [simp]:
  "dg_severity (diagnostic_new sev mid) = sev"
  "dg_severity (with_field f d) = dg_severity d"
  "dg_severity (with_span sp d) = dg_severity d"
  "dg_severity (with_arg k v d) = dg_severity d"
  by (simp_all add: diagnostic_new_def with_field_def with_span_def with_arg_def)

lemma has_errors_simps [simp]:
  "\<not> has_errors []"
  "has_errors (d # ds) \<longleftrightarrow> dg_severity d = Error \<or> has_errors ds"
  "has_errors (ds @ es) \<longleftrightarrow> has_errors ds \<or> has_errors es"
  by (auto simp: has_errors_def)

end
