(* ===== verification/Module_Sdk.thy ===== *)
theory Module_Sdk
  imports Document
begin

text \<open>
  \<^verbatim>\<open>crates/detent-core/src/module.rs\<close>: the \<^verbatim>\<open>ConfigModule\<close> trait and the JSON adapter \<^verbatim>\<open>Dyn\<close>. The four
  functions of a module that the adapter calls are a record. Serde's (de)serialization of the
  module's model is code of another crate and a parameter: \<open>to_json\<close> and \<open>from_json\<close>.

  The locale \<open>conformant\<close> states the invariants 1 to 4 of the trait's documentation, and derives from
  them what a caller of the adapter relies on; theory \<open>Hosts\<close> interprets it. Invariant 5 is a
  property of each module's line printer and invariant 6 a bound on time.
\<close>

section \<open>The code\<close>

datatype parse_error = Malformed rstr "span option"

datatype model_error = Shape rstr | Unrepresentable rstr "span option"

datatype dyn_error = ParseErr parse_error | ModelErr model_error | EditErr edit_error

record ('d, 'm) config_module =
  cm_parse :: "rstr \<Rightarrow> (parse_error, 'd) result"
  cm_render :: "'d \<Rightarrow> rstr"
  cm_to_model :: "'d \<Rightarrow> (model_error, 'm) result"
  cm_apply :: "'d \<Rightarrow> 'm \<Rightarrow> (edit_error, 'd \<times> edit_report) result"

definition map_err :: "('e \<Rightarrow> 'f) \<Rightarrow> ('e, 'a) result \<Rightarrow> ('f, 'a) result" where
  "map_err f r = (case r of Inl e \<Rightarrow> Inl (f e) | Inr x \<Rightarrow> Inr x)"

lemma map_err_simps [simp]: "map_err f (Inl e) = Inl (f e)" "map_err f (Inr x) = Inr x"
  by (simp_all add: map_err_def)

lemma map_err_eq_Inr [simp]: "map_err f r = Inr x \<longleftrightarrow> r = Inr x"
  by (cases r) auto

definition parse_to_model_json ::
  "('d, 'm) config_module \<Rightarrow> ('m \<Rightarrow> (model_error, 'j) result) \<Rightarrow> rstr \<Rightarrow> (dyn_error, 'j) result" where
  "parse_to_model_json M to_json src =
     bind_result (map_err ParseErr (cm_parse M src)) (\<lambda>doc.
       bind_result (map_err ModelErr (cm_to_model M doc)) (\<lambda>model.
         map_err ModelErr (to_json model)))"

definition apply_json ::
  "('d, 'm) config_module \<Rightarrow> ('j \<Rightarrow> (model_error, 'm) result) \<Rightarrow> rstr \<Rightarrow> 'j \<Rightarrow> (dyn_error, rstr) result" where
  "apply_json M from_json src model_json =
     bind_result (map_err ParseErr (cm_parse M src)) (\<lambda>doc.
       bind_result (map_err ModelErr (from_json model_json)) (\<lambda>model.
         bind_result (map_err EditErr (cm_apply M doc model)) (\<lambda>(doc', _).
           Inr (cm_render M doc'))))"

section \<open>The contract of a module\<close>

locale conformant =
  fixes M :: "('d, 'm) config_module"
    and doc_good :: "'d \<Rightarrow> bool"
  assumes parse_good: "cm_parse M src = Inr doc \<Longrightarrow> doc_good doc"
    and render_parse: "cm_parse M src = Inr doc \<Longrightarrow> cm_render M doc = src"
    and apply_noop: "\<lbrakk>doc_good doc; cm_to_model M doc = Inr m\<rbrakk> \<Longrightarrow> \<exists>report. cm_apply M doc m = Inr (doc, report)"
    and apply_good: "\<lbrakk>doc_good doc; cm_apply M doc m = Inr (doc', report)\<rbrakk> \<Longrightarrow> doc_good doc'"
    and apply_model: "\<lbrakk>doc_good doc; cm_apply M doc m = Inr (doc', report)\<rbrakk> \<Longrightarrow> cm_to_model M doc' = Inr m"
    and reparse: "doc_good doc \<Longrightarrow> cm_parse M (cm_render M doc) = Inr doc"
begin

text \<open>Reading the model of a file and writing it back changes nothing.\<close>

lemma apply_json_read:
  assumes "parse_to_model_json M to_json src = Inr j" and "\<And>m j. to_json m = Inr j \<Longrightarrow> from_json j = Inr m"
  shows "apply_json M from_json src j = Inr src"
proof -
  from assms(1) obtain doc m where d: "cm_parse M src = Inr doc" "cm_to_model M doc = Inr m" "to_json m = Inr j"
    by (auto simp: parse_to_model_json_def bind_result_eq_Inr)
  with apply_noop [OF parse_good [OF d(1)] d(2)] assms(2) [OF d(3)] show ?thesis
    by (auto simp: apply_json_def render_parse)
qed

text \<open>What was written is what is read next.\<close>

lemma read_apply_json:
  assumes "apply_json M from_json src j = Inr out" and "\<And>m j. from_json j = Inr m \<Longrightarrow> to_json m = Inr j"
  shows "parse_to_model_json M to_json out = Inr j"
proof -
  from assms(1) obtain doc m doc' report where d: "cm_parse M src = Inr doc" "from_json j = Inr m"
    "cm_apply M doc m = Inr (doc', report)" "out = cm_render M doc'"
    by (auto simp: apply_json_def bind_result_eq_Inr)
  have good: "doc_good doc'" using apply_good [OF parse_good [OF d(1)] d(3)] .
  show ?thesis using reparse [OF good] apply_model [OF parse_good [OF d(1)] d(3)] assms(2) [OF d(2)] d(4)
    by (simp add: parse_to_model_json_def)
qed

text \<open>Writing the same model twice is writing it once.\<close>

lemma apply_json_idem:
  assumes "apply_json M from_json src j = Inr out"
  shows "apply_json M from_json out j = Inr out"
proof -
  from assms obtain doc m doc' report where d: "cm_parse M src = Inr doc" "from_json j = Inr m"
    "cm_apply M doc m = Inr (doc', report)" "out = cm_render M doc'"
    by (auto simp: apply_json_def bind_result_eq_Inr)
  have good: "doc_good doc'" using apply_good [OF parse_good [OF d(1)] d(3)] .
  from apply_noop [OF good apply_model [OF parse_good [OF d(1)] d(3)]] show ?thesis
    using reparse [OF good] d(2,4) by (auto simp: apply_json_def)
qed

end

end
