(* ===== verification/Text_Ops.thy ===== *)
theory Text_Ops
  imports Prelude
begin

text \<open>
  More of the standard library, as the monitor and the operations engine use it: UTF-8 in both
  directions (\<^verbatim>\<open>str::from_utf8\<close>, \<^verbatim>\<open>String::from_utf8_lossy\<close>, \<^verbatim>\<open>str::as_bytes\<close>), the substring
  operations of \<^verbatim>\<open>str\<close>, \<^verbatim>\<open>str::lines\<close>, numbers in another radix, and \<^verbatim>\<open>std::path\<close>: two paths are
  equal, and one starts with another, by their components.
\<close>

section \<open>UTF-8\<close>


definition is_scalar :: "rchar \<Rightarrow> bool" where
  "is_scalar c \<longleftrightarrow> c < 0xD800 \<or> (0xE000 \<le> c \<and> c < 0x110000)"

definition encode_char :: "rchar \<Rightarrow> bytes" where
  "encode_char c =
     (if c < 0x80 then [c]
      else if c < 0x800 then [0xC0 + c div 64, 0x80 + c mod 64]
      else if c < 0x10000 then [0xE0 + c div 4096, 0x80 + c div 64 mod 64, 0x80 + c mod 64]
      else [0xF0 + c div 262144, 0x80 + c div 4096 mod 64, 0x80 + c div 64 mod 64, 0x80 + c mod 64])"

definition as_bytes :: "rstr \<Rightarrow> bytes" where
  "as_bytes s = concat (map encode_char s)"

definition between :: "nat \<Rightarrow> nat \<Rightarrow> nat \<Rightarrow> bool" where
  "between lo hi b \<longleftrightarrow> lo \<le> b \<and> b \<le> hi"

text \<open>The range of the second byte after a lead byte of three or four bytes.\<close>

definition second_ok :: "nat \<Rightarrow> nat \<Rightarrow> bool" where
  "second_ok b c =
     (if b = 0xE0 then between 0xA0 0xBF c
      else if b = 0xED then between 0x80 0x9F c
      else if b = 0xF0 then between 0x90 0xBF c
      else if b = 0xF4 then between 0x80 0x8F c
      else between 0x80 0xBF c)"

text \<open>The next character of a byte sequence, or the number of bytes of the ill-formed piece: a
  maximal prefix of a well-formed sequence, at least one byte.\<close>

datatype piece = Char rchar bytes | Bad nat bytes

definition next_char :: "nat \<Rightarrow> bytes \<Rightarrow> piece" where
  "next_char b r =
     (if b < 0x80 then Char b r
      else if between 0xC2 0xDF b then
        (case r of c # r1 \<Rightarrow> if between 0x80 0xBF c then Char ((b - 0xC0) * 64 + (c - 0x80)) r1 else Bad 1 r
         | [] \<Rightarrow> Bad 1 r)
      else if between 0xE0 0xEF b then
        (case r of c # r1 \<Rightarrow>
           if second_ok b c then
             (case r1 of d # r2 \<Rightarrow>
                if between 0x80 0xBF d
                then Char ((b - 0xE0) * 4096 + (c - 0x80) * 64 + (d - 0x80)) r2 else Bad 2 r1
              | [] \<Rightarrow> Bad 2 r1)
           else Bad 1 r
         | [] \<Rightarrow> Bad 1 r)
      else if between 0xF0 0xF4 b then
        (case r of c # r1 \<Rightarrow>
           if second_ok b c then
             (case r1 of d # r2 \<Rightarrow>
                if between 0x80 0xBF d then
                  (case r2 of e # r3 \<Rightarrow>
                     if between 0x80 0xBF e
                     then Char ((b - 0xF0) * 262144 + (c - 0x80) * 4096 + (d - 0x80) * 64 + (e - 0x80)) r3
                     else Bad 3 r2
                   | [] \<Rightarrow> Bad 3 r2)
                else Bad 2 r1
              | [] \<Rightarrow> Bad 2 r1)
           else Bad 1 r
         | [] \<Rightarrow> Bad 1 r)
      else Bad 1 r)"

lemma next_char_shorter:
  "next_char b r = Char c r' \<Longrightarrow> length r' \<le> length r"
  "next_char b r = Bad n r' \<Longrightarrow> length r' \<le> length r"
  by (auto simp: next_char_def split: if_splits list.splits)

text \<open>\<^verbatim>\<open>str::from_utf8\<close>; the error is \<^verbatim>\<open>valid_up_to\<close>, the number of well-formed bytes before it.\<close>

function from_utf8_at :: "nat \<Rightarrow> bytes \<Rightarrow> (nat, rstr) result" where
  "from_utf8_at n [] = Inr []"
| "from_utf8_at n (b # r) =
     (case next_char b r of
        Char c r' \<Rightarrow> bind_result (from_utf8_at (n + len_utf8 c) r') (\<lambda>s. Inr (c # s))
      | Bad _ _ \<Rightarrow> Inl n)"
  by pat_completeness auto
termination
  by (relation "measure (length \<circ> snd)") (auto simp: le_imp_less_Suc dest: next_char_shorter)

definition from_utf8 :: "bytes \<Rightarrow> (nat, rstr) result" where
  "from_utf8 b = from_utf8_at 0 b"

text \<open>\<^verbatim>\<open>String::from_utf8_lossy\<close>: each ill-formed piece becomes U+FFFD.\<close>

function from_utf8_lossy :: "bytes \<Rightarrow> rstr" where
  "from_utf8_lossy [] = []"
| "from_utf8_lossy (b # r) =
     (case next_char b r of
        Char c r' \<Rightarrow> c # from_utf8_lossy r'
      | Bad _ r' \<Rightarrow> 0xFFFD # from_utf8_lossy r')"
  by pat_completeness auto
termination
  by (relation "measure length") (auto simp: le_imp_less_Suc dest: next_char_shorter)

lemma split64: "(n :: nat) = n div 64 * 64 + n mod 64" "n div 4096 = n div 64 div 64" "n div 262144 = n div 4096 div 64"
  using div_mult2_eq [of n 64 64] div_mult2_eq [of n 4096 64] by simp_all

lemma next_char_encode:
  assumes "is_scalar c"
  shows "next_char (hd (encode_char c)) (tl (encode_char c) @ r) = Char c r"
proof -
  consider (one) "c < 0x80" | (two) "0x80 \<le> c" "c < 0x800" | (three) "0x800 \<le> c" "c < 0x10000"
    | (four) "0x10000 \<le> c" "c < 0x110000"
    using assms by (force simp: is_scalar_def)
  then show ?thesis
  proof cases
    case one
    then show ?thesis by (simp add: encode_char_def next_char_def)
  next
    case two
    define q m where "q = c div 64" and "m = c mod 64"
    have c: "c = q * 64 + m" "m < 64" by (simp_all add: q_def m_def)
    with two show ?thesis
      by (simp add: encode_char_def next_char_def between_def flip: q_def m_def)
  next
    case three
    define q m n where "q = c div 4096" and "m = c div 64 mod 64" and "n = c mod 64"
    have "c div 64 = q * 64 + m" unfolding q_def m_def split64(2) by (rule split64(1))
    moreover have "c = c div 64 * 64 + n" unfolding n_def by (rule split64(1))
    ultimately have c: "c = q * 4096 + m * 64 + n" "m < 64" "n < 64" by (linarith, simp_all add: m_def n_def)
    have "q \<noteq> 13 \<or> m < 32" using assms three c by (auto simp: is_scalar_def)
    moreover have "q < 16" "q = 0 \<Longrightarrow> 32 \<le> m" using three c by auto
    ultimately show ?thesis using three c(2,3)
      by (simp add: encode_char_def next_char_def between_def second_ok_def flip: q_def m_def n_def)
        (use c(1) in auto)
  next
    case four
    define p q m n where "p = c div 262144" and "q = c div 4096 mod 64" and "m = c div 64 mod 64" and "n = c mod 64"
    have "c div 4096 = p * 64 + q" unfolding p_def q_def split64(3) by (rule split64(1))
    moreover have "c div 64 = c div 4096 * 64 + m" unfolding m_def split64(2) by (rule split64(1))
    moreover have "c = c div 64 * 64 + n" unfolding n_def by (rule split64(1))
    ultimately have c: "c = p * 262144 + q * 4096 + m * 64 + n" "q < 64" "m < 64" "n < 64"
      by (linarith, simp_all add: q_def m_def n_def)
    have "p < 5" "p = 0 \<Longrightarrow> 16 \<le> q" "p = 4 \<Longrightarrow> q < 16" using four c by auto
    then show ?thesis using four c(2-4)
      by (simp add: encode_char_def next_char_def between_def second_ok_def
          flip: p_def q_def m_def n_def) (use c(1) in auto)
  qed
qed

lemma encode_char_nonempty [simp]: "encode_char c \<noteq> []"
  by (simp add: encode_char_def)

lemma length_encode_char: "c < 0x110000 \<Longrightarrow> length (encode_char c) = len_utf8 c"
  by (simp add: encode_char_def len_utf8_def)

lemma as_bytes_simps [simp]:
  "as_bytes [] = []"
  "as_bytes (c # s) = encode_char c @ as_bytes s"
  "as_bytes (s @ t) = as_bytes s @ as_bytes t"
  by (simp_all add: as_bytes_def)

lemma from_utf8_step:
  assumes "is_scalar c"
  shows "from_utf8_at n (encode_char c @ r) = bind_result (from_utf8_at (n + len_utf8 c) r) (\<lambda>s. Inr (c # s))"
    and "from_utf8_lossy (encode_char c @ r) = c # from_utf8_lossy r"
  using next_char_encode [OF assms, of r] by (cases "encode_char c"; simp)+

lemma from_utf8_as_bytes [simp]:
  "list_all is_scalar s \<Longrightarrow> from_utf8 (as_bytes s) = Inr s"
proof -
  have "from_utf8_at n (as_bytes s) = Inr s" if "list_all is_scalar s" for n
    using that by (induction s arbitrary: n) (simp_all add: from_utf8_step)
  then show "list_all is_scalar s \<Longrightarrow> from_utf8 (as_bytes s) = Inr s" by (simp add: from_utf8_def)
qed

lemma from_utf8_lossy_as_bytes [simp]:
  "list_all is_scalar s \<Longrightarrow> from_utf8_lossy (as_bytes s) = s"
  by (induction s) (simp_all add: from_utf8_step)

section \<open>Substrings\<close>

text \<open>The longest prefix of at most \<open>n\<close> bytes that ends on a character boundary.\<close>

fun take_bytes :: "nat \<Rightarrow> rstr \<Rightarrow> rstr" where
  "take_bytes n [] = []"
| "take_bytes n (c # s) = (if len_utf8 c \<le> n then c # take_bytes (n - len_utf8 c) s else [])"

definition starts_with :: "rstr \<Rightarrow> rstr \<Rightarrow> bool" where
  "starts_with p s \<longleftrightarrow> strip_prefix p s \<noteq> None"

definition ends_with :: "rstr \<Rightarrow> rstr \<Rightarrow> bool" where
  "ends_with p s \<longleftrightarrow> starts_with (rev p) (rev s)"

fun contains_str :: "rstr \<Rightarrow> rstr \<Rightarrow> bool" where
  "contains_str p [] = (p = [])"
| "contains_str p (c # s) = (starts_with p (c # s) \<or> contains_str p s)"

text \<open>\<^verbatim>\<open>str::find\<close>, as the text before the first occurrence and the text after it.\<close>

fun split_str :: "rstr \<Rightarrow> rstr \<Rightarrow> (rstr \<times> rstr) option" where
  "split_str p [] = (if p = [] then Some ([], []) else None)"
| "split_str p (c # s) =
     (case strip_prefix p (c # s) of
        Some r \<Rightarrow> Some ([], r)
      | None \<Rightarrow> map_option (\<lambda>(a, b). (c # a, b)) (split_str p s))"

lemma split_str_shorter: "split_str p s = Some (a, b) \<Longrightarrow> length b + length p + length a = length s"
proof (induction p s arbitrary: a b rule: split_str.induct)
  case (2 p c s)
  have "length r + length p = length t" if "strip_prefix p t = Some r" for t r
    using that by (induction p t rule: strip_prefix.induct) (auto split: if_splits)
  with 2 show ?case by (force split: option.splits)
qed (auto split: if_splits)

text \<open>\<^verbatim>\<open>str::replace\<close> of a nonempty pattern; \<^verbatim>\<open>str::match_indices\<close> as the texts from each occurrence on.\<close>

function replace_str :: "rstr \<Rightarrow> rstr \<Rightarrow> rstr \<Rightarrow> rstr" where
  "replace_str p q s =
     (case split_str p s of
        Some (a, b) \<Rightarrow> if p = [] then s else a @ q @ replace_str p q b
      | None \<Rightarrow> s)"
  by pat_completeness auto
termination
  by (relation "measure (\<lambda>(p, q, s). length s)") (auto dest!: split_str_shorter simp flip: length_greater_0_conv)

function tails_at :: "rstr \<Rightarrow> rstr \<Rightarrow> rstr list" where
  "tails_at p s =
     (case split_str p s of
        Some (a, b) \<Rightarrow> if p = [] then [] else (p @ b) # tails_at p b
      | None \<Rightarrow> [])"
  by pat_completeness auto
termination
  by (relation "measure (\<lambda>(p, s). length s)") (auto dest!: split_str_shorter simp flip: length_greater_0_conv)

declare replace_str.simps [simp del] tails_at.simps [simp del]

text \<open>\<^verbatim>\<open>str::rfind\<close> and \<^verbatim>\<open>rsplit_once\<close> of a character: the text before the last one and after it.\<close>

definition rsplit_once :: "rchar \<Rightarrow> rstr \<Rightarrow> (rstr \<times> rstr) option" where
  "rsplit_once c s = map_option (\<lambda>(a, b). (rev b, rev a)) (split_once c (rev s))"

definition str_lines :: "rstr \<Rightarrow> rstr list" where
  "str_lines s =
     map (\<lambda>l. case strip_suffix_char LF l of
           None \<Rightarrow> l
         | Some m \<Rightarrow> (case strip_suffix_char CR m of None \<Rightarrow> m | Some n \<Rightarrow> n))
       (split_inclusive LF s)"

section \<open>Numbers in a radix\<close>

definition digit_of :: "rchar \<Rightarrow> nat option" where
  "digit_of c =
     (if is_ascii_digit c then Some (c - 48)
      else if is_ascii_lower c then Some (c - 87)
      else if is_ascii_upper c then Some (c - 55)
      else None)"

definition from_radix_digits :: "nat \<Rightarrow> nat \<Rightarrow> rstr \<Rightarrow> nat option" where
  "from_radix_digits radix bound ds =
     (if ds = [] then None
      else foldl (\<lambda>acc c. case (acc, digit_of c) of
               (Some n, Some d) \<Rightarrow> if d < radix \<and> n * radix + d \<le> bound then Some (n * radix + d) else None
             | _ \<Rightarrow> None) (Some 0) ds)"

text \<open>\<^verbatim>\<open>from_str_radix\<close> of an unsigned type: a leading plus sign is accepted before the digits.\<close>

definition from_str_radix :: "nat \<Rightarrow> nat \<Rightarrow> rstr \<Rightarrow> nat option" where
  "from_str_radix radix bound s =
     (case s of
        c # t \<Rightarrow> if c = 43 then from_radix_digits radix bound t else from_radix_digits radix bound s
      | [] \<Rightarrow> None)"

definition char_from_u32 :: "nat \<Rightarrow> rchar option" where
  "char_from_u32 n = (if is_scalar n then Some n else None)"

section \<open>Paths\<close>

datatype component = RootDir | CurDir | ParentDir | Normal rstr

abbreviation (input) SLASH :: rchar where "SLASH \<equiv> 47"

type_synonym path = rstr
type_synonym digest = rstr

definition is_absolute :: "path \<Rightarrow> bool" where
  "is_absolute p \<longleftrightarrow> p \<noteq> [] \<and> hd p = SLASH"

definition component_of :: "rstr \<Rightarrow> component" where
  "component_of w = (if w = [46, 46] then ParentDir else Normal w)"

definition components :: "path \<Rightarrow> component list" where
  "components p =
     (let parts = split_by (\<lambda>c. c = SLASH) p;
          body = map component_of (filter (\<lambda>w. w \<noteq> [] \<and> w \<noteq> [46]) parts)
      in if is_absolute p then RootDir # body
         else if parts \<noteq> [] \<and> hd parts = [46] then CurDir # body
         else body)"

definition path_eq :: "path \<Rightarrow> path \<Rightarrow> bool" where
  "path_eq a b \<longleftrightarrow> components a = components b"

definition path_starts_with :: "path \<Rightarrow> path \<Rightarrow> bool" where
  "path_starts_with p base \<longleftrightarrow> take (length (components base)) (components p) = components base"

fun component_text :: "component \<Rightarrow> rstr" where
  "component_text RootDir = []"
| "component_text CurDir = [46]"
| "component_text ParentDir = [46, 46]"
| "component_text (Normal w) = w"

text \<open>A path with these components; \<^verbatim>\<open>Path::parent\<close> answers one up to the equality above.\<close>

definition path_of :: "component list \<Rightarrow> path" where
  "path_of cs = (if cs = [RootDir] then [SLASH] else join_with [SLASH] (map component_text cs))"

definition path_parent :: "path \<Rightarrow> path option" where
  "path_parent p =
     (let cs = components p
      in if cs = [] \<or> last cs = RootDir then None else Some (path_of (butlast cs)))"

definition file_name :: "path \<Rightarrow> rstr option" where
  "file_name p =
     (let cs = components p
      in if cs = [] then None else (case last cs of Normal w \<Rightarrow> Some w | _ \<Rightarrow> None))"

definition path_join :: "path \<Rightarrow> path \<Rightarrow> path" where
  "path_join a b =
     (if is_absolute b then b
      else if a = [] \<or> last a = SLASH then a @ b
      else a @ [SLASH] @ b)"

end
