(* ===== verification/Descriptor.thy ===== *)
theory Descriptor
  imports Text_Ops
begin

text \<open>
  \<^verbatim>\<open>crates/detent-core/src/descriptor.rs\<close>: what a module declares about itself and what is known about
  the host. The \<^verbatim>\<open>x-detent\<close> schema hints of the file are JSON for the user interface and are left out.
  A path specification is its text, a message id is text.
\<close>

datatype target_kind = TkFile | TkDropInDir | TkDirectory

datatype owner = OwnerRoot | OwnerNamed rstr

datatype os = Linux | MacOs | OtherOs

datatype init_system = InitSystemd | InitOpenRc | InitLaunchd | InitNone

record host_profile =
  hp_os :: os
  hp_init :: init_system
  hp_hostname :: rstr
  hp_service_versions :: "(rstr \<times> rstr) list"
  hp_ram_mib :: nat

definition service_version :: "host_profile \<Rightarrow> rstr \<Rightarrow> rstr option" where
  "service_version profile service = map_of (hp_service_versions profile) service"

record target_spec =
  ts_path :: rstr
  ts_kind :: target_kind
  ts_mode :: nat
  ts_owner :: owner
  ts_backend_detect :: "host_profile \<Rightarrow> bool"

record upstream =
  up_project :: rstr
  up_repo_url :: rstr
  up_tracked_version :: rstr
  up_release_feed :: "rstr option"
  up_docs :: "rstr list"

record unit_names =
  un_systemd :: "rstr list"
  un_openrc :: "rstr list"
  un_bsdrc :: "rstr list"

datatype core_action = CaRestart | CaReload | CaStart | CaStop

record reload_command =
  rc_program :: rstr
  rc_args :: "rstr list"

record service_binding =
  sb_units :: unit_names
  sb_actions :: "core_action list"
  sb_applies_to :: "rstr list"
  sb_reload :: "reload_command list"

definition serves :: "service_binding \<Rightarrow> rstr \<Rightarrow> bool" where
  "serves b path \<longleftrightarrow> sb_applies_to b = [] \<or> list_ex (\<lambda>spec. spec = path) (sb_applies_to b)"

datatype arg_template = ArgLiteral rstr | ArgTempFile

datatype check_expectation = ExitZero | StdoutContains rstr

record external_check =
  ec_program :: rstr
  ec_args :: "arg_template list"
  ec_expects :: check_expectation
  ec_applies_to :: "rstr list"
  ec_stage_as :: "rstr option"
  ec_run_as_dir_owner :: bool

definition judges :: "external_check \<Rightarrow> rstr \<Rightarrow> bool" where
  "judges c path \<longleftrightarrow> ec_applies_to c = [] \<or> list_ex (\<lambda>spec. spec = path) (ec_applies_to c)"

record mount_unit =
  mu_mountpoint :: rstr
  mu_unit :: rstr

record module_descriptor =
  md_id :: rstr
  md_display_name_id :: rstr
  md_targets :: "target_spec list"
  md_upstream :: upstream
  md_services :: "service_binding list"
  md_checks :: "external_check list"
  md_commit_confirm :: bool
  md_reload_unit_files :: bool
  md_added_mounts :: "(rstr \<Rightarrow> rstr \<Rightarrow> mount_unit list) option"
  md_security_notes :: "rstr list"

definition last_segment :: "rstr \<Rightarrow> rstr" where
  "last_segment path = last (split_by (\<lambda>c. c = SLASH) path)"

text \<open>Where a file a module declares at more than one path is taken: the chosen path when it exists or
  has no alternative, else the first detected file of the same name that exists, else the first
  detected drop-in file of the chosen path.\<close>

definition relocated ::
  "module_descriptor \<Rightarrow> target_spec \<Rightarrow> host_profile \<Rightarrow> (rstr \<Rightarrow> bool) \<Rightarrow> target_spec" where
  "relocated d chosen profile exists =
     (let drop_ins = ts_path chosen @ lit ''.d/'';
          detected_file = (\<lambda>t. ts_kind chosen = TkFile \<and> ts_kind t = TkFile \<and> ts_path t \<noteq> ts_path chosen
                                \<and> ts_backend_detect t profile);
          alternatives = filter (\<lambda>t. detected_file t \<and> last_segment (ts_path t) = last_segment (ts_path chosen)) (md_targets d);
          drop_in = filter (\<lambda>t. detected_file t \<and> starts_with drop_ins (ts_path t)) (md_targets d)
      in if (alternatives = [] \<and> drop_in = []) \<or> exists (ts_path chosen) then chosen
         else case find (\<lambda>t. exists (ts_path t)) alternatives of
                Some t \<Rightarrow> t
              | None \<Rightarrow> (case drop_in of t # _ \<Rightarrow> t | [] \<Rightarrow> chosen))"

lemma find_in_set: "find P xs = Some x \<Longrightarrow> x \<in> set xs \<and> P x"
  by (induction xs) (auto split: if_splits)

lemma relocated_cases:
  "relocated d chosen profile exists = chosen
   \<or> (relocated d chosen profile exists \<in> set (md_targets d)
      \<and> ts_backend_detect (relocated d chosen profile exists) profile
      \<and> ts_kind (relocated d chosen profile exists) = TkFile)"
proof -
  have hd_filter: "x \<in> set xs \<and> P x" if "filter P xs = x # ys" for P :: "target_spec \<Rightarrow> bool" and x xs ys
  proof -
    have "x \<in> set (filter P xs)" using that by simp
    then show ?thesis by simp
  qed
  show ?thesis unfolding relocated_def Let_def
    by (auto split: option.splits list.splits dest!: find_in_set hd_filter)
qed

end
