(* ===== verification/Hosts.thy ===== *)
theory Hosts
  imports Entry_Edit Net_Addr Diag Module_Sdk Descriptor
begin

text \<open>
  \<^verbatim>\<open>crates/modules/hosts/src/lib.rs\<close>: the \<^verbatim>\<open>/etc/hosts\<close> module, the reference implementation of
  \<^verbatim>\<open>ConfigModule\<close>. Its line callbacks are an instance of \<open>entry_format\<close>, so everything shown there
  of \<open>edit_entries\<close> holds of its \<^verbatim>\<open>apply\<close>.
\<close>

section \<open>The model and its text\<close>

record host_entry =
  he_ip :: ip_addr
  he_hostnames :: "rstr list"
  he_comment :: "rstr option"

record hosts_model =
  hm_entries :: "host_entry list"

definition split_comment :: "rstr \<Rightarrow> rstr \<times> rstr option" where
  "split_comment r =
     (case split_once HASH r of
        Some (fs, comment) \<Rightarrow> (fs, Some (trim comment))
      | None \<Rightarrow> (r, None))"

definition parse_entry :: "rstr \<Rightarrow> host_entry option" where
  "parse_entry r =
     (let (fs, comment) = split_comment r
      in case split_once_by is_whitespace (trim_start fs) of
           None \<Rightarrow> None
         | Some (address, rest) \<Rightarrow>
             (case parse_ip address of
                None \<Rightarrow> None
              | Some ip \<Rightarrow>
                  (let hostnames = split_whitespace rest
                   in if hostnames = [] then None
                      else Some \<lparr>he_ip = ip, he_hostnames = hostnames, he_comment = comment\<rparr>)))"

definition hosts_classify :: "rstr \<Rightarrow> line_kind" where
  "hosts_classify r =
     (if trim r = [] then Blank
      else if (case trim_start r of c # _ \<Rightarrow> c = HASH | [] \<Rightarrow> False) then Comment
      else if parse_entry r \<noteq> None then Directive
      else Unknown)"

definition entry_text :: "host_entry \<Rightarrow> rstr" where
  "entry_text e =
     show_ip (he_ip e) @ [TAB] @ join_with [SP] (he_hostnames e) @
     (case he_comment e of
        Some comment \<Rightarrow> [TAB, HASH] @ (if comment \<noteq> [] then SP # comment else [])
      | None \<Rightarrow> [])"

text \<open>The \<^verbatim>\<open>{raw:?}\<close> of the \<^verbatim>\<open>Unsupported\<close> message is kept as the plain text of the line.\<close>

definition render_line :: "host_entry \<Rightarrow> (edit_error, rstr) result" where
  "render_line e =
     (let r = entry_text e
      in if list_ex (\<lambda>c. c = LF \<or> c = CR \<or> c = NUL) r then Inl (LineBreakInValue r)
         else if parse_entry r \<noteq> Some e
         then Inl (Unsupported (lit ''entry does not round-trip through the file format: '' @ r))
         else Inr r)"

section \<open>Validation\<close>

definition ENTRY_COUNT_ADVICE_THRESHOLD :: nat where "ENTRY_COUNT_ADVICE_THRESHOLD = 500"
definition MAX_HOSTNAME_LEN :: nat where "MAX_HOSTNAME_LEN = 253"
definition MAX_LABEL_LEN :: nat where "MAX_LABEL_LEN = 63"

definition is_valid_label :: "rstr \<Rightarrow> bool" where
  "is_valid_label label \<longleftrightarrow> label \<noteq> [] \<and> str_len label \<le> MAX_LABEL_LEN
     \<and> hd label \<noteq> 45 \<and> last label \<noteq> 45 \<and> list_all (\<lambda>c. is_ascii_alphanumeric c \<or> c = 45) label"

definition is_valid_hostname :: "rstr \<Rightarrow> bool" where
  "is_valid_hostname name \<longleftrightarrow>
     \<not> (name = [] \<or> MAX_HOSTNAME_LEN < str_len name \<or> last name = 46)
     \<and> list_all is_valid_label (split_by (\<lambda>c. c = 46) name)"

definition zone_id_address :: "rstr \<Rightarrow> rstr option" where
  "zone_id_address name =
     (case split_once 37 name of
        None \<Rightarrow> None
      | Some (address, _) \<Rightarrow> map_option (\<lambda>_. address) (parse_ip address))"

definition hostname_finding :: "nat \<Rightarrow> nat \<Rightarrow> rstr \<Rightarrow> diagnostics" where
  "hostname_finding index position name =
     (let field = lit ''entries/'' @ show_nat index @ lit ''/hostnames/'' @ show_nat position
      in case zone_id_address name of
           Some address \<Rightarrow>
             [with_arg (lit ''address'') address (with_arg (lit ''name'') name (with_field field
               (diagnostic_new Error (lit ''hosts-ipv6-zone-unsupported''))))]
         | None \<Rightarrow>
             if parse_ip name \<noteq> None then
               [with_arg (lit ''name'') name (with_field field
                 (diagnostic_new Error (lit ''hosts-hostname-is-ip'')))]
             else if \<not> is_valid_hostname name then
               [with_arg (lit ''name'') name (with_field field
                 (diagnostic_new Error (lit ''hosts-invalid-hostname'')))]
             else [])"

definition validate_hostnames :: "host_entry \<Rightarrow> nat \<Rightarrow> diagnostics" where
  "validate_hostnames e index =
     (if he_hostnames e = [] then
        [with_field (lit ''entries/'' @ show_nat index @ lit ''/hostnames'')
          (diagnostic_new Error (lit ''hosts-no-hostnames''))]
      else [])
     @ concat (map (\<lambda>(position, name). hostname_finding index position name)
         (enumerate 0 (he_hostnames e)))"

fun canonical_loop :: "nat \<Rightarrow> host_entry list \<Rightarrow> (rstr \<times> bool) set \<Rightarrow> diagnostics" where
  "canonical_loop index [] seen = []"
| "canonical_loop index (e # es) seen =
     (case he_hostnames e of
        [] \<Rightarrow> canonical_loop (index + 1) es seen
      | canonical # _ \<Rightarrow>
          (let key = (to_ascii_lowercase canonical, is_ipv6 (he_ip e))
           in (if key \<in> seen then
                 [with_arg (lit ''name'') canonical
                   (with_field (lit ''entries/'' @ show_nat index @ lit ''/hostnames/0'')
                     (diagnostic_new Error (lit ''hosts-duplicate-canonical'')))]
               else [])
              @ canonical_loop (index + 1) es (insert key seen)))"

definition validate_canonical_uniqueness :: "hosts_model \<Rightarrow> diagnostics" where
  "validate_canonical_uniqueness m = canonical_loop 0 (hm_entries m) {}"

text \<open>\<^verbatim>\<open>BTreeMap<String, BTreeSet<IpAddr>>\<close>; the address sets are lists without repetition.\<close>

definition add_address :: "rstr \<Rightarrow> ip_addr \<Rightarrow> (rstr \<times> ip_addr list) list \<Rightarrow> (rstr \<times> ip_addr list) list" where
  "add_address name ip by_name =
     (let old = (case map_of by_name name of Some ips \<Rightarrow> ips | None \<Rightarrow> [])
      in bt_insert name (List.insert ip old) by_name)"

definition names_by_address :: "hosts_model \<Rightarrow> (rstr \<times> ip_addr list) list" where
  "names_by_address m =
     fold (\<lambda>e by_name. fold (\<lambda>name. add_address (to_ascii_lowercase name) (he_ip e)) (he_hostnames e) by_name)
       (hm_entries m) []"

definition validate_address_families :: "hosts_model \<Rightarrow> diagnostics" where
  "validate_address_families m =
     concat (map (\<lambda>(name, addresses).
         (let v4 = length (filter is_ipv4 addresses);
              v6 = length (filter is_ipv6 addresses)
          in if 1 < v4 \<or> 1 < v6 then
               [with_arg (lit ''name'') name (with_field (lit ''entries'')
                 (diagnostic_new Warning (lit ''hosts-hostname-multiple-ips'')))]
             else []))
       (names_by_address m))"

definition eq_ignore_ascii_case :: "rstr \<Rightarrow> rstr \<Rightarrow> bool" where
  "eq_ignore_ascii_case a b \<longleftrightarrow> to_ascii_lowercase a = to_ascii_lowercase b"

definition names_localhost :: "host_entry \<Rightarrow> bool" where
  "names_localhost e = list_ex (\<lambda>n. eq_ignore_ascii_case n (lit ''localhost'')) (he_hostnames e)"

definition names_ipv6_alias :: "host_entry \<Rightarrow> bool" where
  "names_ipv6_alias e =
     list_ex (\<lambda>n. eq_ignore_ascii_case n (lit ''ip6-localhost'')
       \<or> eq_ignore_ascii_case n (lit ''ip6-loopback'')) (he_hostnames e)"

fun localhost_loop :: "nat \<Rightarrow> host_entry list \<Rightarrow> bool \<Rightarrow> bool \<Rightarrow> bool \<times> bool \<times> diagnostics" where
  "localhost_loop index [] present ipv6_present = (present, ipv6_present, [])"
| "localhost_loop index (e # es) present ipv6_present =
     (let is_localhost = names_localhost e;
          is_ipv6_alias = names_ipv6_alias e
      in if \<not> is_localhost \<and> \<not> is_ipv6_alias then localhost_loop (index + 1) es present ipv6_present
         else
           (let present = (present \<or> is_localhost)
            in if is_loopback (he_ip e) then
                 localhost_loop (index + 1) es present
                   (ipv6_present \<or> (is_ipv6 (he_ip e) \<and> (is_localhost \<or> is_ipv6_alias)))
               else
                 (let (p, v6, ds) = localhost_loop (index + 1) es present ipv6_present
                  in (p, v6, with_arg (lit ''ip'') (show_ip (he_ip e))
                        (with_field (lit ''entries/'' @ show_nat index @ lit ''/ip'')
                          (diagnostic_new Error (lit ''hosts-localhost-not-loopback''))) # ds))))"

definition validate_localhost :: "hosts_model \<Rightarrow> diagnostics" where
  "validate_localhost m =
     (let (present, ipv6_present, ds) = localhost_loop 0 (hm_entries m) False False
      in ds
         @ (if \<not> present then [diagnostic_new Error (lit ''hosts-missing-localhost'')] else [])
         @ (if \<not> ipv6_present
            then [diagnostic_new Recommendation (lit ''hosts-missing-ipv6-localhost'')] else []))"

section \<open>The module\<close>

definition hosts_parse :: "rstr \<Rightarrow> document" where
  "hosts_parse src = parse src hosts_classify"

definition hosts_to_model :: "document \<Rightarrow> hosts_model" where
  "hosts_to_model d =
     \<lparr>hm_entries = filter_map (\<lambda>l. parse_entry (raw l)) (lines_of_kind d Directive)\<rparr>"

definition hosts_apply :: "document \<Rightarrow> hosts_model \<Rightarrow> (edit_error, document \<times> edit_report) result" where
  "hosts_apply d m = edit_entries d (hm_entries m) parse_entry render_line (\<lambda>_. False)"

definition hosts_validate :: "hosts_model \<Rightarrow> diagnostics" where
  "hosts_validate m =
     concat (map (\<lambda>(index, e). validate_hostnames e index) (enumerate 0 (hm_entries m)))
     @ validate_canonical_uniqueness m
     @ validate_address_families m
     @ validate_localhost m
     @ (if ENTRY_COUNT_ADVICE_THRESHOLD < length (hm_entries m) then
          [with_arg (lit ''count'') (show_nat (length (hm_entries m)))
            (with_field (lit ''entries'') (diagnostic_new Recommendation (lit ''hosts-too-many-entries'')))]
        else [])"

definition default_entry :: "ip_addr \<Rightarrow> rstr list \<Rightarrow> host_entry" where
  "default_entry ip names = \<lparr>he_ip = ip, he_hostnames = names, he_comment = None\<rparr>"

definition hosts_defaults :: "os \<Rightarrow> rstr \<Rightarrow> hosts_model" where
  "hosts_defaults os hostname =
     \<lparr>hm_entries = default_entry (V4 [127, 0, 0, 1]) [lit ''localhost''] #
       (case os of
          MacOs \<Rightarrow>
            [default_entry (V4 [255, 255, 255, 255]) [lit ''broadcasthost''],
             default_entry (V6 [0, 0, 0, 0, 0, 0, 0, 1]) [lit ''localhost'']]
        | Linux \<Rightarrow>
            (if hostname \<noteq> [] then [default_entry (V4 [127, 0, 1, 1]) [hostname]] else [])
            @ [default_entry (V6 [0, 0, 0, 0, 0, 0, 0, 1])
                 [lit ''localhost'', lit ''ip6-localhost'', lit ''ip6-loopback''],
               default_entry (V6 [0xff02, 0, 0, 0, 0, 0, 0, 1]) [lit ''ip6-allnodes''],
               default_entry (V6 [0xff02, 0, 0, 0, 0, 0, 0, 2]) [lit ''ip6-allrouters'']]
        | OtherOs \<Rightarrow> [default_entry (V6 [0, 0, 0, 0, 0, 0, 0, 1]) [lit ''localhost'']])\<rparr>"

section \<open>The line callbacks keep the contract\<close>

lemma parse_entry_Nil [simp]: "parse_entry [] = None"
  by (simp add: parse_entry_def split_comment_def)

lemma parse_entry_fields:
  assumes "parse_entry r = Some e"
  obtains fs comment where "split_comment r = (fs, comment)" and "trim_start fs \<noteq> []"
proof -
  obtain fs comment where s: "split_comment r = (fs, comment)" by fastforce
  with assms have "trim_start fs \<noteq> []" by (auto simp: parse_entry_def)
  with s that show ?thesis by blast
qed

lemma parse_entry_Directive:
  assumes "parse_entry r = Some e"
  shows "hosts_classify r = Directive"
proof -
  obtain fs comment where s: "split_comment r = (fs, comment)" "trim_start fs \<noteq> []"
    using parse_entry_fields [OF assms] .
  then have fs: "\<not> list_all is_whitespace fs" by (simp add: trim_start_eq_Nil)
  have "\<exists>t. r = fs @ t \<and> HASH \<notin> set fs"
    using s(1) split_once_by_SomeD [of "\<lambda>x. x = HASH" r] split_once_by_None_iff [of "\<lambda>x. x = HASH" r]
    by (fastforce simp: split_comment_def list_all_iff split: option.splits)
  then obtain t where t: "r = fs @ t" "HASH \<notin> set fs" by blast
  then have 1: "trim r \<noteq> []" and 2: "trim_start r = trim_start fs @ t"
    using fs by (auto simp: trim_eq_Nil trim_start_append)
  moreover have "set (trim_start fs) \<subseteq> set fs" by (auto simp: trim_start_def dest: set_dropWhileD)
  ultimately have "hd (trim_start r) \<noteq> HASH"
    using s(2) t(2) hd_in_set [of "trim_start fs"] by (metis hd_append2 subsetD)
  then show ?thesis using 1 assms by (auto simp: hosts_classify_def split: list.splits)
qed

lemma parse_entry_cr: "parse_entry (r @ [CR]) = parse_entry r"
proof (cases "split_once HASH r")
  case (Some p)
  then show ?thesis
    by (cases p) (simp add: parse_entry_def split_comment_def split_once_by_append trim_snoc_ws)
next
  case None
  then have c: "split_comment r = (r, None)" "split_comment (r @ [CR]) = (r @ [CR], None)"
    by (auto simp: split_comment_def split_once_by_append)
  show ?thesis
  proof (cases "list_all is_whitespace r")
    case True
    then have "trim_start r = []" "trim_start (r @ [CR]) = []"
      by (simp_all add: trim_start_eq_Nil)
    then show ?thesis using c by (simp add: parse_entry_def)
  next
    case False
    have "parse_entry (r @ [CR]) = parse_entry r" if "split_once_by is_whitespace (trim_start r) = None"
      using that c False
      by (simp add: parse_entry_def trim_start_append split_once_by_append split_whitespace_def
          split: option.splits)
    moreover have "parse_entry (r @ [CR]) = parse_entry r"
      if "split_once_by is_whitespace (trim_start r) = Some p" for p
      using that c False
      by (cases p) (simp add: parse_entry_def trim_start_append split_once_by_append
          split_whitespace_snoc_ws Let_def split: option.splits)
    ultimately show ?thesis by blast
  qed
qed

lemma hosts_classify_cr: "hosts_classify (r @ [CR]) = hosts_classify r"
proof (cases "list_all is_whitespace r")
  case False
  then have "trim_start r \<noteq> []" by (simp add: trim_start_eq_Nil)
  with False show ?thesis
    by (auto simp: hosts_classify_def trim_snoc_ws trim_start_append parse_entry_cr split: list.splits)
qed (simp add: hosts_classify_def trim_snoc_ws trim_eq_Nil)

interpretation hosts: entry_format hosts_classify parse_entry render_line
proof
  fix e r
  assume "render_line e = Inr r"
  then have "parse_entry r = Some e" by (auto simp: render_line_def Let_def split: if_splits)
  then show "parse_entry r = Some e \<and> hosts_classify r = Directive" by (simp add: parse_entry_Directive)
qed (simp_all add: parse_entry_cr)

lemma hosts_to_model_entries: "hm_entries (hosts_to_model d) = entries parse_entry (lines d)"
proof -
  have "filter_map (\<lambda>l. parse_entry (raw l)) (filter (\<lambda>l. kind l = Directive) ls) = entries parse_entry ls" for ls
    by (induction ls) (auto simp: line_entry_def option_list_def split: option.splits)
  then show ?thesis by (simp add: hosts_to_model_def lines_of_kind_def)
qed

section \<open>Every sound entry can be written\<close>

definition entry_sound :: "host_entry \<Rightarrow> bool" where
  "entry_sound e \<longleftrightarrow> parse_ip (show_ip (he_ip e)) = Some (he_ip e) \<and> he_hostnames e \<noteq> []
     \<and> list_all (\<lambda>w. w \<noteq> [] \<and> list_all (\<lambda>c. \<not> is_whitespace c \<and> c \<noteq> HASH \<and> c \<noteq> NUL) w) (he_hostnames e)
     \<and> (case he_comment e of None \<Rightarrow> True
        | Some c \<Rightarrow> trim c = c \<and> LF \<notin> set c \<and> CR \<notin> set c \<and> NUL \<notin> set c)"

definition addr_char :: "rchar \<Rightarrow> bool" where
  "addr_char c \<longleftrightarrow> (48 \<le> c \<and> c \<le> 58) \<or> (97 \<le> c \<and> c \<le> 102) \<or> c = 46"

lemma show_nat_chars: "c \<in> set (show_nat n) \<Longrightarrow> addr_char c"
proof (induction n rule: show_nat.induct)
  case (1 n)
  have "n mod 10 < 10" by simp
  then show ?case using 1 by (subst (asm) show_nat.simps) (auto simp: addr_char_def split: if_splits)
qed

lemma show_hex_chars: "c \<in> set (show_hex n) \<Longrightarrow> addr_char c"
proof (induction n rule: show_hex.induct)
  case (1 n)
  have "n mod 16 < 16" by simp
  then show ?case using 1
    by (subst (asm) show_hex.simps) (auto simp: addr_char_def hex_digit_def split: if_splits)
qed

lemma join_addr_chars:
  "\<lbrakk>\<And>w x. w \<in> set ws \<Longrightarrow> x \<in> set w \<Longrightarrow> addr_char x; addr_char s; c \<in> set (join_with [s] ws)\<rbrakk> \<Longrightarrow> addr_char c"
  using set_join_with [of "[s]" ws] by auto

lemma show_ip_chars: "c \<in> set (show_ip ip) \<Longrightarrow> addr_char c"
proof -
  have oct: "addr_char c" if "c \<in> set (show_octets os)" for os
    using that unfolding show_octets_def
    by (rule join_addr_chars [rotated 2]) (auto simp: addr_char_def dest: show_nat_chars)
  have grp: "addr_char c" if "c \<in> set (show_groups gs)" for gs
    using that unfolding show_groups_def
    by (rule join_addr_chars [rotated 2]) (auto simp: addr_char_def dest: show_hex_chars)
  assume "c \<in> set (show_ip ip)"
  then show ?thesis
  proof (cases ip)
    case (V6 gs)
    then show ?thesis using \<open>c \<in> set (show_ip ip)\<close> oct grp
      by (auto simp: show_ip_def Let_def lit_def addr_char_def split: if_splits prod.splits)
  qed (auto simp: show_ip_def oct)
qed

lemma addr_char_plain: "addr_char c \<Longrightarrow> \<not> is_whitespace c \<and> c \<noteq> HASH \<and> c \<noteq> NUL"
  by (auto simp: addr_char_def is_whitespace_def)

lemma entry_text_parses:
  assumes "entry_sound e"
  shows "parse_entry (entry_text e) = Some e"
proof -
  let ?ip = "show_ip (he_ip e)" and ?names = "join_with [SP] (he_hostnames e)"
  have ip: "list_all (\<lambda>c. \<not> is_whitespace c \<and> c \<noteq> HASH) ?ip" "?ip \<noteq> []"
    using assms show_ip_chars addr_char_plain
    by (auto simp: list_all_iff entry_sound_def)
  have "set ?names \<subseteq> {SP} \<union> \<Union> (set ` set (he_hostnames e))"
    using set_join_with [of "[SP]" "he_hostnames e"] by simp
  moreover have "HASH \<notin> \<Union> (set ` set (he_hostnames e))"
    using assms by (auto simp: entry_sound_def list_all_iff)
  ultimately have names: "HASH \<notin> set ?names" by auto
  obtain tail where tail: "split_comment (entry_text e) = (?ip @ TAB # ?names @ tail, he_comment e)"
    "tail = [] \<or> tail = [TAB]"
  proof (cases "he_comment e")
    case None
    moreover have "split_once HASH (?ip @ TAB # ?names) = None"
      using ip names by (auto simp: split_once_by_None_iff list_all_iff)
    ultimately have "split_comment (entry_text e) = (?ip @ TAB # ?names @ [], he_comment e)"
      by (simp add: split_comment_def entry_text_def)
    with that show ?thesis by blast
  next
    case (Some c)
    let ?c = "if c \<noteq> [] then SP # c else []"
    have "split_once HASH ((?ip @ TAB # ?names @ [TAB]) @ HASH # ?c) = Some (?ip @ TAB # ?names @ [TAB], ?c)"
      using ip names by (intro split_once_by_at) (auto simp: list_all_iff)
    moreover have "trim ?c = c" using assms Some by (auto simp: entry_sound_def trim_Cons_ws)
    moreover have "entry_text e = (?ip @ TAB # ?names @ [TAB]) @ HASH # ?c"
      using Some by (simp add: entry_text_def)
    ultimately have "split_comment (entry_text e) = (?ip @ TAB # ?names @ [TAB], he_comment e)"
      using Some by (simp only: split_comment_def option.simps prod.simps)
    with that show ?thesis by blast
  qed
  have "trim_start (?ip @ TAB # ?names @ tail) = ?ip @ TAB # ?names @ tail"
    using ip by (cases ?ip) auto
  moreover have "split_once_by is_whitespace (?ip @ TAB # ?names @ tail) = Some (?ip, ?names @ tail)"
    using ip by (intro split_once_by_at) (auto simp: list_all_iff)
  moreover have "split_whitespace ?names = he_hostnames e"
    using assms by (intro split_whitespace_join) (auto simp: entry_sound_def list_all_iff)
  then have "split_whitespace (?names @ tail) = he_hostnames e"
    using tail(2) split_whitespace_snoc_ws [of TAB ?names] by auto
  ultimately show ?thesis using assms tail(1) by (simp add: parse_entry_def entry_sound_def Let_def)
qed

lemma entry_text_plain:
  assumes "entry_sound e"
  shows "LF \<notin> set (entry_text e) \<and> CR \<notin> set (entry_text e) \<and> NUL \<notin> set (entry_text e)"
proof -
  have "c \<noteq> LF \<and> c \<noteq> CR \<and> c \<noteq> NUL" if "c \<in> set (show_ip (he_ip e))" for c
    using addr_char_plain [OF show_ip_chars [OF that]] by (auto simp: is_whitespace_def)
  moreover have "c \<noteq> LF \<and> c \<noteq> CR \<and> c \<noteq> NUL" if "c \<in> set (join_with [SP] (he_hostnames e))" for c
  proof -
    from that set_join_with [of "[SP]" "he_hostnames e"]
    consider "c = SP" | w where "w \<in> set (he_hostnames e)" "c \<in> set w" by auto
    then show ?thesis
    proof cases
      case 2
      then have "\<not> is_whitespace c \<and> c \<noteq> NUL" using assms by (simp add: entry_sound_def list_all_iff)
      then show ?thesis by (auto simp: is_whitespace_def)
    qed simp
  qed
  moreover have "c \<noteq> LF \<and> c \<noteq> CR \<and> c \<noteq> NUL"
    if "he_comment e = Some t" "c \<in> set t" for c t
    using that assms by (auto simp: entry_sound_def intro!: gr0I)
  ultimately have "c \<noteq> LF \<and> c \<noteq> CR \<and> c \<noteq> NUL" if "c \<in> set (entry_text e)" for c
    using that by (cases "he_comment e") (auto simp: entry_text_def split: if_splits)
  then show ?thesis by blast
qed

lemma render_line_sound: "entry_sound e \<Longrightarrow> render_line e = Inr (entry_text e)"
  using entry_text_parses [of e] entry_text_plain [of e]
  by (auto simp: render_line_def list_ex_iff Let_def intro!: gr0I)

section \<open>The module conforms\<close>

definition hosts_module :: "(document, hosts_model) config_module" where
  "hosts_module =
     \<lparr>cm_parse = \<lambda>src. Inr (hosts_parse src), cm_render = render,
      cm_to_model = \<lambda>d. Inr (hosts_to_model d), cm_apply = hosts_apply\<rparr>"

definition hosts_doc :: "document \<Rightarrow> bool" where
  "hosts_doc d \<longleftrightarrow> doc_ok d \<and> classify d = hosts_classify \<and> kinds_ok hosts_classify (lines d)"

lemma hosts_parse_doc [simp]: "hosts_doc (hosts_parse src)"
  by (simp add: hosts_doc_def hosts_parse_def) (simp add: parse_def)

lemma hosts_apply_plan:
  assumes "hosts_apply d m = Inr (d', report)"
  obtains plan where "orderly plan" and "plan_safe plan" and "(d', report) = apply_plan plan d"
proof -
  from assms obtain plan where "plan_entries d (hm_entries m) parse_entry render_line (\<lambda>_. False) = Inr plan"
    "(d', report) = apply_plan plan d"
    by (auto simp: hosts_apply_def edit_entries_def bind_result_eq_Inr)
  with plan_entries_orderly that show ?thesis by blast
qed

lemma hosts_apply_doc:
  assumes "hosts_doc d" and "hosts_apply d m = Inr (d', report)"
  shows "hosts_doc d'"
proof -
  obtain plan where p: "orderly plan" "plan_safe plan" "d' = fst (apply_plan plan d)"
    using hosts_apply_plan [OF assms(2)] by (metis fst_conv)
  then show ?thesis using assms(1) apply_plan_ok [OF p(1,2), of d]
      apply_plan_kinds_ok [OF p(1), of d] hosts_classify_cr
    by (simp add: hosts_doc_def)
qed

lemma hosts_apply_model:
  assumes "hosts_doc d" and "hosts_apply d m = Inr (d', report)"
  shows "hosts_to_model d' = m"
  using hosts.edit_entries_wanted [OF assms(2) [unfolded hosts_apply_def]] assms(1)
  by (simp add: hosts_doc_def hosts_to_model_entries hosts_model.equality)

lemma hosts_apply_noop:
  "doc_ok d \<Longrightarrow> hosts_apply d (hosts_to_model d)
     = Inr (d, \<lparr>changed_lines = 0, added = 0, removed = 0\<rparr>)"
  by (simp add: hosts_apply_def hosts_to_model_entries edit_entries_noop)

lemma hosts_reparse: "hosts_doc d \<Longrightarrow> hosts_parse (render d) = d"
  using parse_render [of d] by (simp add: hosts_doc_def hosts_parse_def)

interpretation hosts_sdk: conformant hosts_module hosts_doc
proof
  fix doc m doc' report
  assume "hosts_doc doc" "cm_apply hosts_module doc m = Inr (doc', report)"
  then show "hosts_doc doc'" "cm_to_model hosts_module doc' = Inr m"
    using hosts_apply_doc hosts_apply_model by (auto simp: hosts_module_def)
next
  fix doc m
  assume "hosts_doc doc" "cm_to_model hosts_module doc = Inr m"
  then show "\<exists>report. cm_apply hosts_module doc m = Inr (doc, report)"
    using hosts_apply_noop [of doc] by (auto simp: hosts_module_def hosts_doc_def)
qed (auto simp: hosts_module_def hosts_reparse, simp add: hosts_parse_def)

section \<open>Validation\<close>

lemma labels_chars:
  assumes "list_all is_valid_label (split_by (\<lambda>c. c = 46) name)" and "c \<in> set name"
  shows "is_ascii_alphanumeric c \<or> c = 45 \<or> c = 46"
proof -
  consider "c = 46" | w where "w \<in> set (split_by (\<lambda>c. c = 46) name)" "c \<in> set w"
    using set_split_by [of name "\<lambda>c. c = 46"] assms(2) by auto
  then show ?thesis using assms(1) by cases (auto simp: is_valid_label_def list_all_iff)
qed

lemma valid_hostname_plain:
  "is_valid_hostname name \<Longrightarrow> name \<noteq> [] \<and> list_all (\<lambda>c. \<not> is_whitespace c \<and> c \<noteq> HASH \<and> c \<noteq> NUL) name"
  using labels_chars [of name]
  by (fastforce simp: is_valid_hostname_def list_all_iff is_ascii_alphanumeric_def is_ascii_digit_def
      is_ascii_upper_def is_ascii_lower_def is_whitespace_def)

lemma has_errors_concat: "has_errors (concat dss) \<longleftrightarrow> (\<exists>ds\<in>set dss. has_errors ds)"
  by (auto simp: has_errors_def list_ex_iff)

lemma hostname_finding_ok: "\<not> has_errors (hostname_finding i p name) \<Longrightarrow> is_valid_hostname name"
  by (auto simp: hostname_finding_def Let_def split: option.splits if_splits)

lemma validate_hostnames_ok:
  assumes "\<not> has_errors (validate_hostnames e i)"
  shows "he_hostnames e \<noteq> [] \<and> list_all is_valid_hostname (he_hostnames e)"
proof -
  have "is_valid_hostname name" if "name \<in> set (he_hostnames e)" for name
  proof -
    obtain p where "(p, name) \<in> set (enumerate 0 (he_hostnames e))"
      using in_set_enumerateI [of name "he_hostnames e" 0] \<open>name \<in> set (he_hostnames e)\<close> by blast
    then have "\<not> has_errors (hostname_finding i p name)"
      using assms by (auto simp: validate_hostnames_def has_errors_concat)
    then show ?thesis by (rule hostname_finding_ok)
  qed
  then show ?thesis using assms by (auto simp: validate_hostnames_def list_all_iff split: if_splits)
qed

lemma hosts_validate_names:
  assumes "\<not> has_errors (hosts_validate m)" and "e \<in> set (hm_entries m)"
  shows "he_hostnames e \<noteq> [] \<and> list_all is_valid_hostname (he_hostnames e)"
proof -
  obtain i where "(i, e) \<in> set (enumerate 0 (hm_entries m))"
    using in_set_enumerateI [OF assms(2), of 0] by blast
  then have "\<not> has_errors (validate_hostnames e i)"
    using assms(1) by (auto simp: hosts_validate_def has_errors_concat)
  then show ?thesis by (rule validate_hostnames_ok)
qed

definition canonical_key :: "host_entry \<Rightarrow> (rstr \<times> bool) option" where
  "canonical_key e = (case he_hostnames e of [] \<Rightarrow> None
     | canonical # _ \<Rightarrow> Some (to_ascii_lowercase canonical, is_ipv6 (he_ip e)))"

lemma canonical_loop_Nil:
  "canonical_loop i es seen = [] \<longleftrightarrow>
     distinct (filter_map canonical_key es) \<and> set (filter_map canonical_key es) \<inter> seen = {}"
  by (induction i es seen rule: canonical_loop.induct)
    (auto simp: canonical_key_def Let_def split: list.splits)

section \<open>Properties\<close>

text \<open>C15. After a successful \<^verbatim>\<open>apply\<close> of a model to a parsed hosts file, reading the model back gives
  exactly that model, and rendering and parsing the result gives the same document.\<close>

theorem hosts_apply_exact:
  assumes "hosts_apply (hosts_parse src) m = Inr (d', report)"
  shows "hosts_to_model d' = m \<and> hosts_parse (render d') = d'"
  using hosts_apply_model [OF hosts_parse_doc assms] hosts_reparse [OF hosts_apply_doc [OF hosts_parse_doc assms]]
  by blast

definition sample_hosts :: rstr where
  "sample_hosts = lit ''# local'' @ [LF] @ lit ''127.0.0.1'' @ [TAB] @ lit ''localhost'' @ [LF] @ lit ''bogus'' @ [LF]"

definition sample_model :: hosts_model where
  "sample_model = \<lparr>hm_entries =
     [\<lparr>he_ip = V4 [127, 0, 0, 1], he_hostnames = [lit ''localhost''], he_comment = None\<rparr>,
      \<lparr>he_ip = V4 [10, 0, 0, 7], he_hostnames = [lit ''db'', lit ''db.lan''], he_comment = Some (lit ''new'')\<rparr>]\<rparr>"

definition applied_text :: "(edit_error, document \<times> edit_report) result \<Rightarrow> rstr option" where
  "applied_text r = (case r of Inl _ \<Rightarrow> None | Inr (d, _) \<Rightarrow> Some (render d))"

lemma sample_text:
  "applied_text (hosts_apply (hosts_parse sample_hosts) sample_model) =
     Some (lit ''# local'' @ [LF] @ lit ''127.0.0.1'' @ [TAB] @ lit ''localhost'' @ [LF] @
       lit ''10.0.0.7'' @ [TAB] @ lit ''db db.lan'' @ [TAB] @ lit ''# new'' @ [LF] @ lit ''bogus'' @ [LF])"
  by code_simp

lemma sample_applies: "\<exists>d' report. hosts_apply (hosts_parse sample_hosts) sample_model = Inr (d', report)"
  using sample_text
  by (cases "hosts_apply (hosts_parse sample_hosts) sample_model") (auto simp: applied_text_def)

theorem hosts_apply_exact_witness:
  "\<exists>d' report. hosts_apply (hosts_parse sample_hosts) sample_model = Inr (d', report)
     \<and> hosts_to_model d' = sample_model \<and> hosts_parse (render d') = d'"
  using sample_applies hosts_apply_exact by blast

text \<open>Applying the model a parsed hosts file has changes not one byte of it.\<close>

theorem hosts_apply_idle:
  "hosts_apply (hosts_parse src) (hosts_to_model (hosts_parse src))
     = Inr (hosts_parse src, \<lparr>changed_lines = 0, added = 0, removed = 0\<rparr>)"
  by (rule hosts_apply_noop) (simp add: hosts_parse_def)

text \<open>In a hosts file whose last line is terminated, an edit keeps every line that is not an entry,
  comments, blank lines and lines the module does not understand: in order, byte for byte, with their
  terminators.\<close>

theorem hosts_apply_keeps_others:
  assumes "hosts_apply (hosts_parse src) m = Inr (d', report)" and "list_all ended (lines (hosts_parse src))"
  shows "map line_fields (others parse_entry (lines d')) = map line_fields (others parse_entry (lines (hosts_parse src)))"
  using hosts.edit_entries_others [OF assms(1) [unfolded hosts_apply_def] _ _ assms(2)]
    hosts_parse_doc [of src] by (simp add: hosts_doc_def)

theorem hosts_apply_keeps_others_witness:
  "\<exists>d' report. hosts_apply (hosts_parse sample_hosts) sample_model = Inr (d', report)
     \<and> map line_fields (others parse_entry (lines d'))
       = [(Comment, lit ''# local'', Lf), (Unknown, lit ''bogus'', Lf)]"
proof -
  obtain d' report where a: "hosts_apply (hosts_parse sample_hosts) sample_model = Inr (d', report)"
    using sample_applies by blast
  have "list_all ended (lines (hosts_parse sample_hosts))"
    "map line_fields (others parse_entry (lines (hosts_parse sample_hosts)))
       = [(Comment, lit ''# local'', Lf), (Unknown, lit ''bogus'', Lf)]"
    by code_simp+
  with hosts_apply_keeps_others [OF a] a show ?thesis by auto
qed

text \<open>A value cannot break out of its line: an entry that is not in the file yet and whose text has a
  line feed, a carriage return or a NUL makes \<^verbatim>\<open>apply\<close> fail, so nothing of it is written.\<close>

theorem hosts_injection_rejected:
  assumes "e \<in> set (hm_entries m)" and "e \<notin> set (hm_entries (hosts_to_model d))" and "breaks_line (entry_text e)"
  shows "\<exists>err. hosts_apply d m = Inl err"
proof (cases "hosts_apply d m")
  case (Inr p)
  obtain d' report where "p = (d', report)" by fastforce
  with Inr have "edit_entries d (hm_entries m) parse_entry render_line (\<lambda>_. False) = Inr (d', report)"
    by (simp add: hosts_apply_def)
  from edit_entries_source [OF this assms(1)] assms(2)
  obtain r where "render_line e = Inr r" by (auto simp: hosts_to_model_entries)
  with assms(3) show ?thesis
    by (auto simp: render_line_def Let_def breaks_line_def list_ex_iff split: if_splits)
qed simp

theorem hosts_injection_rejected_witness:
  "\<exists>err. hosts_apply (hosts_parse sample_hosts)
     \<lparr>hm_entries = [\<lparr>he_ip = V4 [10, 0, 0, 1], he_hostnames = [lit ''a'' @ [LF] @ lit ''0.0.0.0 b''], he_comment = None\<rparr>]\<rparr>
     = Inl err"
proof -
  let ?e = "\<lparr>he_ip = V4 [10, 0, 0, 1], he_hostnames = [lit ''a'' @ [LF] @ lit ''0.0.0.0 b''], he_comment = None\<rparr>"
  have "?e \<notin> set (hm_entries (hosts_to_model (hosts_parse sample_hosts)))" by code_simp
  moreover have "breaks_line (entry_text ?e)" by code_simp
  ultimately show ?thesis by (intro hosts_injection_rejected [of ?e]) simp_all
qed

text \<open>A model that validates without an error, whose comments are trimmed and free of line breaks and
  whose addresses print in a form that reads back, can be applied to every hosts file.\<close>

theorem hosts_valid_model_applies:
  assumes "\<not> has_errors (hosts_validate m)"
    and "\<forall>e\<in>set (hm_entries m). parse_ip (show_ip (he_ip e)) = Some (he_ip e)
      \<and> (case he_comment e of None \<Rightarrow> True | Some c \<Rightarrow> trim c = c \<and> \<not> breaks_line c)"
  shows "\<exists>d' report. hosts_apply (hosts_parse src) m = Inr (d', report)"
proof -
  have "entry_sound e" if "e \<in> set (hm_entries m)" for e
    using hosts_validate_names [OF assms(1) that] assms(2) that valid_hostname_plain
    by (auto simp: entry_sound_def list_all_iff breaks_line_def split: option.splits)
  then have "\<exists>r. render_line e = Inr r \<and> check_raw r = Inr ()" if "e \<in> set (hm_entries m)" for e
    using that render_line_sound entry_text_plain by fastforce
  then show ?thesis unfolding hosts_apply_def by (intro edit_entries_total) blast
qed

theorem hosts_valid_model_applies_witness:
  "\<exists>d' report. hosts_apply (hosts_parse (lit ''junk'')) sample_model = Inr (d', report)"
proof -
  have "\<not> has_errors (hosts_validate sample_model)" by code_simp
  moreover have "list_all (\<lambda>e. parse_ip (show_ip (he_ip e)) = Some (he_ip e)
      \<and> (case he_comment e of None \<Rightarrow> True | Some c \<Rightarrow> trim c = c \<and> \<not> breaks_line c)) (hm_entries sample_model)"
    by code_simp
  ultimately show ?thesis by (intro hosts_valid_model_applies) (simp_all add: list_all_iff)
qed

text \<open>The duplicate check reports nothing exactly when no canonical name, compared without case, is
  claimed twice within one address family.\<close>

theorem hosts_duplicate_check:
  "validate_canonical_uniqueness m = [] \<longleftrightarrow> distinct (filter_map canonical_key (hm_entries m))"
  by (simp add: validate_canonical_uniqueness_def canonical_loop_Nil)

text \<open>Through the JSON adapter, writing a model twice is the same as writing it once: the second write
  of the same model to the first write's output returns that output.\<close>

theorem hosts_apply_json_idempotent:
  assumes "apply_json hosts_module from_json src j = Inr out"
  shows "apply_json hosts_module from_json out j = Inr out"
  by (rule hosts_sdk.apply_json_idem [OF assms])

theorem hosts_apply_json_idempotent_witness:
  "\<exists>out. apply_json hosts_module Inr sample_hosts sample_model = Inr out
     \<and> apply_json hosts_module Inr out sample_model = Inr out"
proof -
  obtain d' report where "hosts_apply (hosts_parse sample_hosts) sample_model = Inr (d', report)"
    using sample_applies by blast
  then have a: "apply_json hosts_module Inr sample_hosts sample_model = Inr (render d')"
    by (simp add: apply_json_def hosts_module_def)
  show ?thesis by (rule exI conjI a hosts_apply_json_idempotent [OF a])+
qed

text \<open>Through the JSON adapter, what was written is what is read next, for a serialization of the
  model that is inverse to its deserialization.\<close>

theorem hosts_read_after_write:
  assumes "apply_json hosts_module from_json src j = Inr out" and "\<forall>m j. from_json j = Inr m \<longrightarrow> to_json m = Inr j"
  shows "parse_to_model_json hosts_module to_json out = Inr j"
  using hosts_sdk.read_apply_json [OF assms(1)] assms(2) by blast

theorem hosts_read_after_write_witness:
  "\<exists>out. apply_json hosts_module Inr sample_hosts sample_model = Inr out
     \<and> parse_to_model_json hosts_module Inr out = Inr sample_model"
proof -
  obtain d' report where "hosts_apply (hosts_parse sample_hosts) sample_model = Inr (d', report)"
    using sample_applies by blast
  then have "apply_json hosts_module Inr sample_hosts sample_model = Inr (render d')"
    by (simp add: apply_json_def hosts_module_def)
  then show ?thesis using hosts_read_after_write [of Inr sample_hosts sample_model "render d'" Inr] by auto
qed

end
