(* ===== verification/Unified_Diff.thy ===== *)
theory Unified_Diff
  imports Align
begin

text \<open>
  \<^verbatim>\<open>crates/detent-ops/src/diff.rs\<close>: the unified diff of a plan preview. Lines keep their terminators,
  the edit script comes from \<^verbatim>\<open>align\<close>, and changed steps are grouped into hunks with context. The
  reference is \<open>patch\<close>, which applies hunks to a text the way a patch tool does and fails on a hunk
  that does not fit; the hunks of \<open>diff\<close> patch the old text to the new one.
\<close>

section \<open>The code\<close>

definition DEFAULT_CONTEXT :: nat where
  "DEFAULT_CONTEXT = 3"

datatype diff_line = DContext rstr | DDelete rstr | DInsert rstr

fun dl_text :: "diff_line \<Rightarrow> rstr" where
  "dl_text (DContext t) = t"
| "dl_text (DDelete t) = t"
| "dl_text (DInsert t) = t"

fun marker :: "diff_line \<Rightarrow> rchar" where
  "marker (DContext _) = SP"
| "marker (DDelete _) = 45"
| "marker (DInsert _) = 43"

record hunk =
  old_start :: nat
  old_lines :: nat
  new_start :: nat
  new_lines :: nat
  hunk_lines :: "diff_line list"

definition header :: "hunk \<Rightarrow> rstr" where
  "header h = lit ''@@ -'' @ show_nat (old_start h) @ lit '','' @ show_nat (old_lines h) @ lit '' +''
     @ show_nat (new_start h) @ lit '','' @ show_nat (new_lines h) @ lit '' @@''"

definition split_lines :: "rstr \<Rightarrow> rstr list" where
  "split_lines text = split_inclusive LF text"

fun positions_from :: "nat \<Rightarrow> nat \<Rightarrow> step list \<Rightarrow> (nat \<times> nat) list" where
  "positions_from i j [] = []"
| "positions_from i j (s # steps) =
     (let (i', j') = (case s of
          Equal _ _ \<Rightarrow> (i + 1, j + 1)
        | Delete _ \<Rightarrow> (i + 1, j)
        | Insert _ \<Rightarrow> (i, j + 1))
      in (i', j') # positions_from i' j' steps)"

definition positions :: "step list \<Rightarrow> (nat \<times> nat) list" where
  "positions steps = (0, 0) # positions_from 0 0 steps"

text \<open>One round of the loop of \<^verbatim>\<open>groups\<close>.\<close>

definition group_step :: "nat \<Rightarrow> nat \<Rightarrow> nat \<Rightarrow> step \<Rightarrow> (nat \<times> nat) list \<Rightarrow> (nat \<times> nat) list" where
  "group_step len context index s out =
     (if \<not> is_change s then out
      else
        (let start = index - context;
             e = min (index + context + 1) len
         in if out \<noteq> [] \<and> start \<le> snd (last out)
            then butlast out @ [(fst (last out), max (snd (last out)) e)]
            else out @ [(start, e)]))"

fun groups_loop :: "nat \<Rightarrow> nat \<Rightarrow> nat \<Rightarrow> step list \<Rightarrow> (nat \<times> nat) list \<Rightarrow> (nat \<times> nat) list" where
  "groups_loop len context index [] out = out"
| "groups_loop len context index (s # steps) out =
     groups_loop len context (index + 1) steps (group_step len context index s out)"

definition groups :: "step list \<Rightarrow> nat \<Rightarrow> (nat \<times> nat) list" where
  "groups steps context = groups_loop (length steps) context 0 steps []"

definition start_of :: "nat \<Rightarrow> nat \<Rightarrow> nat" where
  "start_of first count = (if count = 0 then first else first + 1)"

definition text_at :: "rstr list \<Rightarrow> nat \<Rightarrow> rstr" where
  "text_at ls index = (case get ls index of Some t \<Rightarrow> t | None \<Rightarrow> [])"

fun diff_line_of :: "rstr list \<Rightarrow> rstr list \<Rightarrow> step \<Rightarrow> diff_line" where
  "diff_line_of olds news (Equal index _) = DContext (text_at olds index)"
| "diff_line_of olds news (Delete index) = DDelete (text_at olds index)"
| "diff_line_of olds news (Insert index) = DInsert (text_at news index)"

definition position_at :: "(nat \<times> nat) list \<Rightarrow> nat \<Rightarrow> nat \<times> nat" where
  "position_at at k = (case get at k of Some p \<Rightarrow> p | None \<Rightarrow> (0, 0))"

definition hunk_of :: "rstr list \<Rightarrow> rstr list \<Rightarrow> step list \<Rightarrow> nat \<times> nat \<Rightarrow> hunk" where
  "hunk_of olds news steps g =
     (let (start, e) = g;
          at = positions steps;
          (old_begin, new_begin) = position_at at start;
          (old_end, new_end) = position_at at e;
          old_count = old_end - old_begin;
          new_count = new_end - new_begin;
          ls = (if start \<le> e \<and> e \<le> length steps
                then map (diff_line_of olds news) (drop start (take e steps)) else [])
      in \<lparr>old_start = start_of old_begin old_count, old_lines = old_count,
          new_start = start_of new_begin new_count, new_lines = new_count, hunk_lines = ls\<rparr>)"

definition diff :: "rstr \<Rightarrow> rstr \<Rightarrow> nat \<Rightarrow> hunk list" where
  "diff old new context =
     (let olds = split_lines old;
          news = split_lines new
      in if olds = news then []
         else
           (let steps = (case align olds news of
                  Some s \<Rightarrow> s | None \<Rightarrow> replace_all (length olds) (length news))
            in map (hunk_of olds news steps) (groups steps context)))"

definition render_line_of :: "diff_line \<Rightarrow> rstr" where
  "render_line_of l =
     marker l # dl_text l @
     (if dl_text l \<noteq> [] \<and> last (dl_text l) = LF then []
      else [LF, 92] @ lit '' No newline at end of file'' @ [LF])"

definition render_unified :: "rstr \<Rightarrow> rstr \<Rightarrow> hunk list \<Rightarrow> rstr" where
  "render_unified old_label new_label hunks =
     (if hunks = [] then []
      else lit ''--- '' @ old_label @ [LF] @ lit ''+++ '' @ new_label @ [LF] @
        concat (map (\<lambda>h. header h @ [LF] @ concat (map render_line_of (hunk_lines h))) hunks))"

section \<open>Applying hunks\<close>

fun old_side :: "diff_line list \<Rightarrow> rstr list" where
  "old_side [] = []"
| "old_side (DContext t # ls) = t # old_side ls"
| "old_side (DDelete t # ls) = t # old_side ls"
| "old_side (DInsert t # ls) = old_side ls"

fun new_side :: "diff_line list \<Rightarrow> rstr list" where
  "new_side [] = []"
| "new_side (DContext t # ls) = t # new_side ls"
| "new_side (DDelete t # ls) = new_side ls"
| "new_side (DInsert t # ls) = t # new_side ls"

text \<open>A start is the 1-based number of the first line the hunk covers, or the number of lines
  before it when it covers none.\<close>

definition hunk_begin :: "nat \<Rightarrow> nat \<Rightarrow> nat" where
  "hunk_begin start count = (if count = 0 then start else start - 1)"

text \<open>\<open>patch olds cursor emitted hunks\<close>: \<open>cursor\<close> old lines are consumed and \<open>emitted\<close> new lines
  written. A hunk fits when it starts at or after the cursor, its old side is the old text
  there, its counts are those of its body, and its new start is where the output stands.\<close>

definition hunk_fits :: "rstr list \<Rightarrow> nat \<Rightarrow> nat \<Rightarrow> hunk \<Rightarrow> bool" where
  "hunk_fits olds cursor emitted h =
     (let b = hunk_begin (old_start h) (old_lines h)
      in cursor \<le> b \<and> b + old_lines h \<le> length olds
         \<and> length (old_side (hunk_lines h)) = old_lines h \<and> length (new_side (hunk_lines h)) = new_lines h
         \<and> take (old_lines h) (drop b olds) = old_side (hunk_lines h)
         \<and> hunk_begin (new_start h) (new_lines h) = emitted + (b - cursor))"

fun patch :: "rstr list \<Rightarrow> nat \<Rightarrow> nat \<Rightarrow> hunk list \<Rightarrow> rstr list option" where
  "patch olds cursor emitted [] = Some (drop cursor olds)"
| "patch olds cursor emitted (h # hs) =
     (if hunk_fits olds cursor emitted h
      then map_option (\<lambda>rest. take (hunk_begin (old_start h) (old_lines h) - cursor) (drop cursor olds)
               @ new_side (hunk_lines h) @ rest)
             (patch olds (hunk_begin (old_start h) (old_lines h) + old_lines h)
               (hunk_begin (new_start h) (new_lines h) + new_lines h) hs)
      else None)"

section \<open>The hunks of a script\<close>

fun covers :: "step list \<Rightarrow> nat \<Rightarrow> (nat \<times> nat) list \<Rightarrow> nat \<Rightarrow> bool" where
  "covers steps c [] k = (\<forall>i. c \<le> i \<and> i < k \<longrightarrow> \<not> is_change (steps ! i))"
| "covers steps c ((s, e) # gs) k =
     (c \<le> s \<and> s \<le> e \<and> e \<le> length steps \<and> (\<forall>i. c \<le> i \<and> i < s \<longrightarrow> \<not> is_change (steps ! i)) \<and> covers steps e gs k)"

lemma covers_snoc:
  "covers steps c (gs @ [(s, e)]) k \<longleftrightarrow>
     covers steps c gs s \<and> (if gs = [] then c else snd (last gs)) \<le> s \<and> s \<le> e \<and> e \<le> length steps
     \<and> (\<forall>i. e \<le> i \<and> i < k \<longrightarrow> \<not> is_change (steps ! i))"
  by (induction gs arbitrary: c) auto

lemma covers_shrink: "covers steps c gs k \<Longrightarrow> k' \<le> k \<Longrightarrow> covers steps c gs k'"
  by (induction steps c gs k rule: covers.induct) auto

lemma covers_extend:
  "covers steps c gs k \<Longrightarrow> \<not> is_change (steps ! k) \<Longrightarrow> covers steps c gs (Suc k)"
  by (induction steps c gs k rule: covers.induct) (auto simp: less_Suc_eq)

lemma group_step_covers:
  assumes "covers steps 0 out k" and "k < length steps"
  shows "covers steps 0 (group_step (length steps) ctx k (steps ! k) out) (Suc k)"
proof (cases "is_change (steps ! k)")
  case False
  then show ?thesis using assms covers_extend by (simp add: group_step_def)
next
  case True
  show ?thesis
  proof (cases out rule: rev_cases)
    case Nil
    then show ?thesis using True assms by (auto simp: group_step_def Let_def min_def)
  next
    case (snoc gs g)
    obtain s e where [simp]: "g = (s, e)" by fastforce
    have c: "covers steps 0 gs s" "(if gs = [] then 0 else snd (last gs)) \<le> s" "s \<le> e" "e \<le> length steps"
      "\<forall>i. e \<le> i \<and> i < k \<longrightarrow> \<not> is_change (steps ! i)"
      using assms(1) snoc by (auto simp: covers_snoc)
    show ?thesis
    proof (cases "k - ctx \<le> e")
      case merge: True
      then show ?thesis using True snoc c assms(2)
        by (auto simp: group_step_def Let_def covers_snoc min_def max_def)
    next
      case False
      then have "covers steps 0 out (k - ctx)" using covers_shrink [OF assms(1)] by simp
      then have "covers steps 0 (out @ [(k - ctx, min (k + ctx + 1) (length steps))]) (Suc k)"
        unfolding covers_snoc using False snoc assms(2) by auto
      then show ?thesis using False True snoc by (simp add: group_step_def Let_def)
    qed
  qed
qed

lemma groups_covers: "covers steps 0 (groups steps ctx) (length steps)"
proof -
  have "covers steps 0 (groups_loop (length steps) ctx k (drop k steps) out) (length steps)"
    if "covers steps 0 out k" "k \<le> length steps" for k out
    using that
  proof (induction "length steps - k" arbitrary: k out)
    case 0
    then show ?case by simp
  next
    case (Suc n)
    then have k: "k < length steps" by simp
    then have "drop k steps = steps ! k # drop (Suc k) steps" by (simp add: Cons_nth_drop_Suc)
    then show ?case using Suc k group_step_covers [OF Suc.prems(1) k] by simp
  qed
  from this [of "[]" 0] show ?thesis by (simp add: groups_def)
qed

lemma position_at_simps [simp]:
  "position_at (p # ps) 0 = p" "position_at (p # ps) (Suc k) = position_at ps k"
  by (simp_all add: position_at_def get_def)

text \<open>\<open>positions\<close> is where the script stands before each step.\<close>

lemma position_walk:
  assumes "walk old new i j steps = Some (i', j')" and "k \<le> length steps"
  defines "p \<equiv> position_at ((i, j) # positions_from i j steps) k"
  shows "walk old new i j (take k steps) = Some p \<and> walk old new (fst p) (snd p) (drop k steps) = Some (i', j')"
  using assms(1,2) unfolding p_def
proof (induction old new i j steps arbitrary: k rule: walk.induct)
  case (2 old new i j a b steps)
  then show ?case by (cases k) (auto split: if_splits)
next
  case (3 old new i j a steps)
  then show ?case by (cases k) (auto split: if_splits)
next
  case (4 old new i j a steps)
  then show ?case by (cases k) (auto split: if_splits)
qed auto

text \<open>A stretch of a script covers a stretch of either text.\<close>

lemma walk_sides:
  "walk olds news i j steps = Some (i', j') \<Longrightarrow>
     i \<le> i' \<and> j \<le> j' \<and> (i \<le> length olds \<longrightarrow> i' \<le> length olds) \<and> (j \<le> length news \<longrightarrow> j' \<le> length news)
     \<and> old_side (map (diff_line_of olds news) steps) = take (i' - i) (drop i olds)
     \<and> new_side (map (diff_line_of olds news) steps) = take (j' - j) (drop j news)"
proof (induction olds news i j steps rule: walk.induct)
  case (2 olds news i j a b steps)
  then have w: "a = i" "i < length olds" "j < length news" "olds ! i = news ! j"
    "walk olds news (i + 1) (j + 1) steps = Some (i', j')" by (auto split: if_splits)
  have "drop i olds = olds ! i # drop (Suc i) olds" "drop j news = news ! j # drop (Suc j) news"
    using w(2,3) by (metis Cons_nth_drop_Suc)+
  then show ?case using 2 w by (auto simp: text_at_def get_def Suc_diff_le take_Cons' split: if_splits)
next
  case (3 olds news i j a steps)
  then have w: "a = i" "i < length olds" "walk olds news (i + 1) j steps = Some (i', j')" by (auto split: if_splits)
  have "drop i olds = olds ! i # drop (Suc i) olds" using w by (simp add: Cons_nth_drop_Suc)
  then show ?case using 3 w by (auto simp: text_at_def get_def Suc_diff_le take_Cons' split: if_splits)
next
  case (4 olds news i j a steps)
  then have w: "a = j" "j < length news" "walk olds news i (j + 1) steps = Some (i', j')" by (auto split: if_splits)
  have "drop j news = news ! j # drop (Suc j) news" using w by (simp add: Cons_nth_drop_Suc)
  then show ?case using 4 w by (auto simp: text_at_def get_def Suc_diff_le take_Cons' split: if_splits)
qed auto

lemma walk_unchanged:
  "\<lbrakk>walk olds news i j steps = Some (i', j'); \<forall>s\<in>set steps. \<not> is_change s\<rbrakk> \<Longrightarrow>
     old_side (map (diff_line_of olds news) steps) = new_side (map (diff_line_of olds news) steps)
     \<and> i' - i = j' - j"
proof (induction olds news i j steps rule: walk.induct)
  case (2 olds news i j a b steps)
  then show ?case using walk_sides [of olds news "Suc i" "Suc j" steps i' j'] by (auto split: if_splits)
qed auto

section \<open>Patching\<close>

lemma hunk_begin_start_of [simp]: "hunk_begin (start_of b n) n = b"
  by (simp add: hunk_begin_def start_of_def)

lemma walk_segment:
  assumes "walk olds news i j (take a steps) = Some p" and "walk olds news i j (take b steps) = Some q" and "a \<le> b"
  shows "walk olds news (fst p) (snd p) (drop a (take b steps)) = Some q"
proof -
  have "take b steps = take a steps @ drop a (take b steps)"
    using assms(3) by (metis append_take_drop_id min.absorb1 take_take)
  with assms(1,2) show ?thesis by (metis (no_types, lifting) case_prod_unfold option.simps(5) walk_append)
qed

lemma patch_covers:
  assumes v: "walk olds news 0 0 steps = Some (length olds, length news)"
    and "covers steps k gs (length steps)" and "k \<le> length steps"
  defines "at \<equiv> position_at (positions steps)"
  shows "patch olds (fst (at k)) (snd (at k)) (map (hunk_of olds news steps) gs) = Some (drop (snd (at k)) news)"
proof -
  have pos: "walk olds news 0 0 (take n steps) = Some (at n)" if "n \<le> length steps" for n
    using position_walk [OF v that] by (simp add: at_def positions_def)
  have seg: "walk olds news (fst (at a)) (snd (at a)) (drop a (take b steps)) = Some (fst (at b), snd (at b))"
    if "a \<le> b" "b \<le> length steps" for a b
    using walk_segment [OF pos pos] that by simp
  have pos': "walk olds news 0 0 (take n steps) = Some (fst (at n), snd (at n))" if "n \<le> length steps" for n
    using pos [OF that] by simp
  have sides: "fst (at a) \<le> fst (at b) \<and> snd (at a) \<le> snd (at b) \<and> fst (at b) \<le> length olds
      \<and> old_side (map (diff_line_of olds news) (drop a (take b steps))) = take (fst (at b) - fst (at a)) (drop (fst (at a)) olds)
      \<and> new_side (map (diff_line_of olds news) (drop a (take b steps))) = take (snd (at b) - snd (at a)) (drop (snd (at a)) news)
      \<and> snd (at b) \<le> length news"
    if "a \<le> b" "b \<le> length steps" for a b
  proof -
    have "a \<le> length steps" using that by simp
    from walk_sides [OF pos' [OF this]] have "fst (at a) \<le> length olds" "snd (at a) \<le> length news" by blast+
    with walk_sides [OF seg [OF that]] show ?thesis by blast
  qed
  have same: "take (fst (at b) - fst (at a)) (drop (fst (at a)) olds) = take (snd (at b) - snd (at a)) (drop (snd (at a)) news)
      \<and> fst (at b) - fst (at a) = snd (at b) - snd (at a)"
    if "a \<le> b" "b \<le> length steps" "\<forall>i. a \<le> i \<and> i < b \<longrightarrow> \<not> is_change (steps ! i)" for a b
  proof -
    have "\<forall>s\<in>set (drop a (take b steps)). \<not> is_change s"
      using that by (auto simp: in_set_conv_nth)
    note un = walk_unchanged [OF seg [OF that(1,2)] this]
    from sides [OF that(1,2)] have
      "old_side (map (diff_line_of olds news) (drop a (take b steps))) = take (fst (at b) - fst (at a)) (drop (fst (at a)) olds)"
      "new_side (map (diff_line_of olds news) (drop a (take b steps))) = take (snd (at b) - snd (at a)) (drop (snd (at a)) news)"
      by blast+
    with un show ?thesis by argo
  qed
  have last: "at (length steps) = (length olds, length news)" using pos [of "length steps"] v by simp
  show ?thesis using assms(2,3)
  proof (induction gs arbitrary: k)
    case Nil
    then show ?case using same [of k "length steps"] last by simp
  next
    case (Cons g gs)
    obtain s e where g: "g = (s, e)" by fastforce
    with Cons.prems have c: "k \<le> s" "s \<le> e" "e \<le> length steps"
      "\<forall>i. k \<le> i \<and> i < s \<longrightarrow> \<not> is_change (steps ! i)" "covers steps e gs (length steps)" by auto
    define h where "h = hunk_of olds news steps (s, e)"
    have h: "old_lines h = fst (at e) - fst (at s)" "new_lines h = snd (at e) - snd (at s)"
      "old_start h = start_of (fst (at s)) (fst (at e) - fst (at s))"
      "new_start h = start_of (snd (at s)) (snd (at e) - snd (at s))"
      "hunk_lines h = map (diff_line_of olds news) (drop s (take e steps))"
      using c(2,3) by (simp_all add: h_def hunk_of_def Let_def at_def case_prod_unfold)
    note ks = sides [OF c(1)] and se = sides [OF c(2,3)] and eq = same [OF c(1) order_trans [OF c(2,3)] c(4)]
    have "hunk_fits olds (fst (at k)) (snd (at k)) h"
      using ks se eq c(2,3) by (simp add: hunk_fits_def h Let_def min_absorb2 diff_le_mono)
    moreover have "patch olds (fst (at e)) (snd (at e)) (map (hunk_of olds news steps) gs) = Some (drop (snd (at e)) news)"
      using Cons.IH [OF c(5,3)] .
    moreover have "take (fst (at s) - fst (at k)) (drop (fst (at k)) olds)
        = take (snd (at s) - snd (at k)) (drop (snd (at k)) news)"
      by (rule conjunct1 [OF eq])
    then have "drop (snd (at k)) news = take (fst (at s) - fst (at k)) (drop (fst (at k)) olds)
        @ take (snd (at e) - snd (at s)) (drop (snd (at s)) news) @ drop (snd (at e)) news"
      using ks se c(2,3) by (simp add: drop_split)
    ultimately show ?case using se by (simp add: g h h_def [symmetric])
  qed
qed

lemma split_lines_inject: "split_lines a = split_lines b \<longleftrightarrow> a = b"
  by (metis concat_split_inclusive split_lines_def)

lemma diff_groups:
  "old \<noteq> new \<Longrightarrow> diff old new ctx = map (hunk_of (split_lines old) (split_lines new)
     (align_or_replace (split_lines old) (split_lines new)))
       (groups (align_or_replace (split_lines old) (split_lines new)) ctx)"
  by (simp add: diff_def Let_def split_lines_inject align_or_replace_def)

lemma diff_patch: "patch (split_lines old) 0 0 (diff old new ctx) = Some (split_lines new)"
proof (cases "old = new")
  case True
  then show ?thesis by (simp add: diff_def)
next
  case False
  let ?s = "align_or_replace (split_lines old) (split_lines new)"
  have "walk (split_lines old) (split_lines new) 0 0 ?s = Some (length (split_lines old), length (split_lines new))"
    using align_or_replace_valid by (simp add: valid_script_def)
  from patch_covers [OF this groups_covers] show ?thesis
    by (simp add: diff_groups [OF False] positions_def)
qed

section \<open>Properties\<close>

text \<open>C35. The hunks of \<^verbatim>\<open>diff\<close>, for every amount of context, apply to the lines of the old text, each one
  at the line numbers its header states, and give the lines of the new text.\<close>

theorem diff_patches:
  "patch (split_lines old) 0 0 (diff old new ctx) = Some (split_lines new)"
  by (rule diff_patch)

text \<open>The diff of two texts is empty exactly when they are the same, and then so is its rendering.\<close>

theorem diff_empty_iff:
  "(diff old new ctx = [] \<longleftrightarrow> old = new) \<and> (render_unified a b (diff old new ctx) = [] \<longleftrightarrow> old = new)"
proof -
  have "old = new" if "diff old new ctx = []"
    using diff_patch [of old new ctx] that by (simp add: split_lines_inject)
  moreover have "diff old old ctx = []" by (simp add: diff_def)
  ultimately show ?thesis by (auto simp: render_unified_def lit_def)
qed

text \<open>The documentation of \<^verbatim>\<open>Hunk\<close> has a start of \<open>0\<close> for a side that contributes no lines; the code gives the
  number of lines before the change, which is what makes the hunk appliable.\<close>

lemma insertion_start_not_zero:
  "map old_start (diff (lit ''a'' @ [LF] @ lit ''b'' @ [LF]) (lit ''a'' @ [LF] @ lit ''x'' @ [LF] @ lit ''b'' @ [LF]) 0) = [1]
   \<and> map old_lines (diff (lit ''a'' @ [LF] @ lit ''b'' @ [LF]) (lit ''a'' @ [LF] @ lit ''x'' @ [LF] @ lit ''b'' @ [LF]) 0) = [0]"
  by code_simp

end
