(* ===== verification/Operations.thy ===== *)
theory Operations
  imports Prelude
begin

text \<open>
  \<^verbatim>\<open>crates/detent-ops/src/identity.rs\<close>, \<^verbatim>\<open>op.rs\<close> and \<^verbatim>\<open>authz.rs\<close>: the caller, the one enum every front
  end constructs, and the authorization hook; and \<^verbatim>\<open>crates/detent-web/src/authz.rs\<close>, the scoped
  policy of the web layer. A JSON value is a type parameter, a digest, a commit id and a backup id are
  numbers or text the operations only carry.
\<close>

section \<open>Identities and operations\<close>

datatype identity_kind = LocalUser | Session | Token

record identity =
  id_subject :: rstr
  id_kind :: identity_kind

definition identity_local :: "rstr \<Rightarrow> identity" where
  "identity_local subject = \<lparr>id_subject = subject, id_kind = LocalUser\<rparr>"

definition identity_new :: "rstr \<Rightarrow> identity_kind \<Rightarrow> identity" where
  "identity_new subject k = \<lparr>id_subject = subject, id_kind = k\<rparr>"

datatype service_command = Restart | Reload | Start | Stop

record audit_query =
  q_module :: "rstr option"
  q_who :: "rstr option"
  q_limit :: "nat option"

datatype 'j operation =
    ListModules
  | GetModule rstr
  | Validate rstr 'j
  | Plan rstr 'j
  | Apply rstr 'j "rstr option" "service_command option" "nat option"
  | ConfirmCommit nat
  | RollbackCommit nat
  | ListBackups rstr
  | Restore rstr nat "rstr option"
  | ServiceStatus rstr
  | ServiceAction rstr service_command
  | HostProfile
  | AuditQuery audit_query
  | UpdateStatus
  | CertStatus
  | CertRenew
  | UpdateApply rstr

datatype op_kind =
    KListModules | KGetModule | KValidate | KPlan | KApply | KConfirmCommit | KRollbackCommit
  | KListBackups | KRestore | KServiceStatus | KServiceAction | KHostProfile | KAuditQuery
  | KUpdateStatus | KCertStatus | KCertRenew | KUpdateApply

fun op_kind_of :: "'j operation \<Rightarrow> op_kind" where
  "op_kind_of ListModules = KListModules"
| "op_kind_of (GetModule _) = KGetModule"
| "op_kind_of (Validate _ _) = KValidate"
| "op_kind_of (Plan _ _) = KPlan"
| "op_kind_of (Apply _ _ _ _ _) = KApply"
| "op_kind_of (ConfirmCommit _) = KConfirmCommit"
| "op_kind_of (RollbackCommit _) = KRollbackCommit"
| "op_kind_of (ListBackups _) = KListBackups"
| "op_kind_of (Restore _ _ _) = KRestore"
| "op_kind_of (ServiceStatus _) = KServiceStatus"
| "op_kind_of (ServiceAction _ _) = KServiceAction"
| "op_kind_of HostProfile = KHostProfile"
| "op_kind_of (AuditQuery _) = KAuditQuery"
| "op_kind_of UpdateStatus = KUpdateStatus"
| "op_kind_of CertStatus = KCertStatus"
| "op_kind_of CertRenew = KCertRenew"
| "op_kind_of (UpdateApply _) = KUpdateApply"

fun op_module :: "'j operation \<Rightarrow> rstr option" where
  "op_module (GetModule i) = Some i"
| "op_module (Validate i _) = Some i"
| "op_module (Plan i _) = Some i"
| "op_module (Apply i _ _ _ _) = Some i"
| "op_module (ListBackups i) = Some i"
| "op_module (Restore i _ _) = Some i"
| "op_module (ServiceStatus i) = Some i"
| "op_module (ServiceAction i _) = Some i"
| "op_module ListModules = None"
| "op_module (ConfirmCommit _) = None"
| "op_module (RollbackCommit _) = None"
| "op_module HostProfile = None"
| "op_module UpdateStatus = None"
| "op_module CertStatus = None"
| "op_module CertRenew = None"
| "op_module (UpdateApply _) = None"
| "op_module (AuditQuery _) = None"

definition is_mutating :: "'j operation \<Rightarrow> bool" where
  "is_mutating op = (case op of
      Apply _ _ _ _ _ \<Rightarrow> True
    | ConfirmCommit _ \<Rightarrow> True
    | RollbackCommit _ \<Rightarrow> True
    | Restore _ _ _ \<Rightarrow> True
    | ServiceAction _ _ \<Rightarrow> True
    | CertRenew \<Rightarrow> True
    | UpdateApply _ \<Rightarrow> True
    | _ \<Rightarrow> False)"

section \<open>Authorization\<close>

record denied =
  dn_id :: rstr
  dn_required_scope :: "rstr option"

definition denied_with_scope :: "rstr \<Rightarrow> rstr \<Rightarrow> denied" where
  "denied_with_scope mid scope = \<lparr>dn_id = mid, dn_required_scope = Some scope\<rparr>"

definition allow_all_permit :: "identity \<Rightarrow> 'j operation \<Rightarrow> (denied, unit) result" where
  "allow_all_permit who op = Inr ()"

datatype scope = Read | Write

fun scope_str :: "scope \<Rightarrow> rstr" where
  "scope_str Read = lit ''read''"
| "scope_str Write = lit ''write''"

record scopes =
  sc_write :: bool

definition scopes_of :: "scope \<Rightarrow> scopes" where
  "scopes_of s = (case s of Read \<Rightarrow> \<lparr>sc_write = False\<rparr> | Write \<Rightarrow> \<lparr>sc_write = True\<rparr>)"

definition scopes_allows :: "scopes \<Rightarrow> scope \<Rightarrow> bool" where
  "scopes_allows held needed = (case needed of Read \<Rightarrow> True | Write \<Rightarrow> sc_write held)"

definition scopes_names :: "scopes \<Rightarrow> rstr list" where
  "scopes_names held = (if sc_write held then [scope_str Read, scope_str Write] else [scope_str Read])"

fun required_scope :: "'j operation \<Rightarrow> scope" where
  "required_scope (Apply _ _ _ _ _) = Write"
| "required_scope (ConfirmCommit _) = Write"
| "required_scope (RollbackCommit _) = Write"
| "required_scope (Restore _ _ _) = Write"
| "required_scope (ServiceAction _ _) = Write"
| "required_scope CertRenew = Write"
| "required_scope (UpdateApply _) = Write"
| "required_scope ListModules = Read"
| "required_scope (GetModule _) = Read"
| "required_scope (Validate _ _) = Read"
| "required_scope (Plan _ _) = Read"
| "required_scope (ListBackups _) = Read"
| "required_scope (ServiceStatus _) = Read"
| "required_scope HostProfile = Read"
| "required_scope CertStatus = Read"
| "required_scope UpdateStatus = Read"
| "required_scope (AuditQuery _) = Read"

fun requires_step_up :: "'j operation \<Rightarrow> bool" where
  "requires_step_up (Apply _ _ _ _ _) = True"
| "requires_step_up (Restore _ _ _) = True"
| "requires_step_up CertRenew = True"
| "requires_step_up (UpdateApply _) = True"
| "requires_step_up ListModules = False"
| "requires_step_up (GetModule _) = False"
| "requires_step_up (Validate _ _) = False"
| "requires_step_up (Plan _ _) = False"
| "requires_step_up (ConfirmCommit _) = False"
| "requires_step_up (RollbackCommit _) = False"
| "requires_step_up (ListBackups _) = False"
| "requires_step_up (ServiceStatus _) = False"
| "requires_step_up (ServiceAction _ _) = False"
| "requires_step_up HostProfile = False"
| "requires_step_up CertStatus = False"
| "requires_step_up UpdateStatus = False"
| "requires_step_up (AuditQuery _) = False"

definition DENIED_SCOPE_ID :: rstr where
  "DENIED_SCOPE_ID = lit ''web-denied-scope''"

definition scoped_permit :: "scopes \<Rightarrow> identity \<Rightarrow> 'j operation \<Rightarrow> (denied, unit) result" where
  "scoped_permit held who op =
     (let needed = required_scope op
      in if scopes_allows held needed then Inr ()
         else Inl (denied_with_scope DENIED_SCOPE_ID (scope_str needed)))"

lemma required_scope_mutating: "required_scope op = Write \<longleftrightarrow> is_mutating op"
  by (cases op) (auto simp: is_mutating_def)

section \<open>Properties\<close>

text \<open>The scoped policy permits an operation exactly when it changes nothing or the caller holds the write
  scope, and a refusal names that scope; every operation that asks for a step-up needs the write scope.\<close>

theorem scoped_permit_exact:
  "scoped_permit held who op =
     (if is_mutating op \<and> \<not> sc_write held
      then Inl \<lparr>dn_id = lit ''web-denied-scope'', dn_required_scope = Some (lit ''write'')\<rparr> else Inr ())
   \<and> (if requires_step_up op then is_mutating op else True)"
  by (cases op) (auto simp: scoped_permit_def Let_def scopes_allows_def is_mutating_def
      denied_with_scope_def DENIED_SCOPE_ID_def)

end
