(* ===== verification/Audit_Chain.thy ===== *)
theory Audit_Chain
  imports Operations
begin

text \<open>
  \<^verbatim>\<open>crates/detent-ops/src/audit.rs\<close>: the append-only audit log, its hash chain, verification, the
  backwards reader and the query. Files are byte lists; the state of a \<^verbatim>\<open>FileAudit\<close> is the contents of
  the log and of the rotated log. JSON (\<^verbatim>\<open>serde_json\<close>) and SHA-256 are code of other crates: the record
  \<open>codec\<close> carries them as functions, and \<open>codec_ok\<close> says what the code relies on: decoding undoes
  encoding, an encoded record is one line, and a torn or blank line is not a record. I/O errors, file
  modes, the append lock and log messages are not modelled; an error text is the constructor of
  \<open>audit_error\<close> that stands for it.
\<close>

section \<open>The code\<close>


datatype audit_result = ROk | RDenied | RError | RStarted

record audit_chain =
  ch_sequence :: nat
  ch_prev :: "rstr option"
  ch_hash :: rstr
  ch_torn :: "rstr option"

record audit_record =
  ar_ts :: rstr
  ar_who :: rstr
  ar_kind :: identity_kind
  ar_op :: op_kind
  ar_module :: "rstr option"
  ar_prev_hash :: "rstr option"
  ar_new_hash :: "rstr option"
  ar_before_hash :: "rstr option"
  ar_after_hash :: "rstr option"
  ar_commit_id :: "nat option"
  ar_result :: audit_result
  ar_error_id :: "rstr option"
  ar_chain :: "audit_chain option"

definition audit_record_new ::
  "rstr \<Rightarrow> identity \<Rightarrow> op_kind \<Rightarrow> rstr option \<Rightarrow> audit_result \<Rightarrow> audit_record" where
  "audit_record_new now who op m result =
     \<lparr>ar_ts = now, ar_who = id_subject who, ar_kind = id_kind who, ar_op = op, ar_module = m,
      ar_prev_hash = None, ar_new_hash = None, ar_before_hash = None, ar_after_hash = None,
      ar_commit_id = None, ar_result = result, ar_error_id = None, ar_chain = None\<rparr>"

definition with_hashes :: "rstr option \<Rightarrow> rstr option \<Rightarrow> audit_record \<Rightarrow> audit_record" where
  "with_hashes prev new r =
     r\<lparr>ar_prev_hash := prev, ar_new_hash := new, ar_before_hash := prev, ar_after_hash := new\<rparr>"

definition with_commit_id :: "nat \<Rightarrow> audit_record \<Rightarrow> audit_record" where
  "with_commit_id c r = r\<lparr>ar_commit_id := Some c\<rparr>"

definition with_error :: "rstr \<Rightarrow> audit_record \<Rightarrow> audit_record" where
  "with_error mid r = r\<lparr>ar_error_id := Some mid\<rparr>"

definition DEFAULT_AUDIT_QUERY_LIMIT :: nat where "DEFAULT_AUDIT_QUERY_LIMIT = 100"
definition MAX_AUDIT_QUERY_LIMIT :: nat where "MAX_AUDIT_QUERY_LIMIT = 1000"
definition AUDIT_ROTATE_BYTES :: nat where "AUDIT_ROTATE_BYTES = 16 * 1024 * 1024"
definition TAIL_CHUNK :: nat where "TAIL_CHUNK = 64 * 1024"

definition query_matches :: "audit_query \<Rightarrow> audit_record \<Rightarrow> bool" where
  "query_matches q r \<longleftrightarrow>
     (case q_module q of Some want \<Rightarrow> ar_module r = Some want | None \<Rightarrow> True)
     \<and> (case q_who q of Some want \<Rightarrow> ar_who r = want | None \<Rightarrow> True)"

definition effective_limit :: "audit_query \<Rightarrow> nat" where
  "effective_limit q =
     min (case q_limit q of Some n \<Rightarrow> n | None \<Rightarrow> DEFAULT_AUDIT_QUERY_LIMIT) MAX_AUDIT_QUERY_LIMIT"

datatype audit_error =
    LogMissing
  | LogEmpty
  | NoChainMetadata
  | RecordNoChain nat
  | NotLinked nat
  | BadLine nat
  | BadLineBefore nat
  | SkippedMismatch nat
  | HashMismatch nat

record codec =
  enc :: "audit_record \<Rightarrow> bytes"
  dec :: "bytes \<Rightarrow> audit_record option"
  sha :: "bytes \<Rightarrow> rstr"

definition make_chain :: "codec \<Rightarrow> audit_record \<Rightarrow> audit_chain option \<Rightarrow> audit_chain" where
  "make_chain C r previous =
     (let unsigned = r\<lparr>ar_chain := None\<rparr>
      in \<lparr>ch_sequence = (case previous of None \<Rightarrow> 1 | Some p \<Rightarrow> sat_add u64_max (ch_sequence p) 1),
          ch_prev = map_option ch_hash previous,
          ch_hash = sha C (enc C unsigned),
          ch_torn = None\<rparr>)"

definition check_link ::
  "codec \<Rightarrow> audit_record \<Rightarrow> audit_chain option \<Rightarrow> bytes \<Rightarrow> nat option \<Rightarrow> (audit_error, unit) result" where
  "check_link C r previous gap bad =
     (case ar_chain r of
        None \<Rightarrow> Inl NoChainMetadata
      | Some actual \<Rightarrow>
          (let sequence = ch_sequence actual;
               expected_sequence = (case previous of None \<Rightarrow> 1 | Some p \<Rightarrow> sat_add u64_max (ch_sequence p) 1);
               expected_prev = map_option ch_hash previous;
               expected_torn = (if gap \<noteq> [] then Some (sha C gap) else None)
           in if ch_sequence actual \<noteq> expected_sequence \<or> ch_prev actual \<noteq> expected_prev
              then Inl (NotLinked sequence)
              else if ch_torn actual \<noteq> expected_torn
              then Inl (case (ch_torn actual, bad) of
                     (None, Some line) \<Rightarrow> BadLine line
                   | (None, None) \<Rightarrow> BadLineBefore sequence
                   | _ \<Rightarrow> SkippedMismatch sequence)
              else if ch_hash (make_chain C r previous) \<noteq> ch_hash actual
              then Inl (HashMismatch sequence)
              else Inr ()))"

definition is_ascii_whitespace :: "nat \<Rightarrow> bool" where
  "is_ascii_whitespace b \<longleftrightarrow> b = 32 \<or> b = 9 \<or> b = 10 \<or> b = 12 \<or> b = 13"

definition blank_line :: "bytes \<Rightarrow> bool" where
  "blank_line l = list_all is_ascii_whitespace l"

record scan =
  sc_anchor :: "audit_chain option"
  sc_gap :: bytes

text \<open>The loop of \<^verbatim>\<open>scan_records\<close>; \<open>first_bad\<close> is the number of the first unreadable line of the gap.\<close>

fun scan_loop :: "codec \<Rightarrow> nat \<Rightarrow> bytes list \<Rightarrow> scan \<Rightarrow> nat option \<Rightarrow> (audit_error, scan \<times> nat option) result" where
  "scan_loop C index [] st first_bad = Inr (st, first_bad)"
| "scan_loop C index (line # ls) st first_bad =
     (let number = index + 1
      in case dec C line of
           None \<Rightarrow> scan_loop C (index + 1) ls (st\<lparr>sc_gap := sc_gap st @ line @ [LF]\<rparr>)
                    (case first_bad of None \<Rightarrow> Some number | Some n \<Rightarrow> Some n)
         | Some r \<Rightarrow>
             if ar_chain r = None then Inl (RecordNoChain number)
             else bind_result (check_link C r (sc_anchor st) (sc_gap st) first_bad) (\<lambda>_.
               scan_loop C (index + 1) ls \<lparr>sc_anchor = ar_chain r, sc_gap = []\<rparr> None))"

definition log_lines :: "bytes \<Rightarrow> bytes list" where
  "log_lines raw = filter (\<lambda>l. \<not> blank_line l) (split_by (\<lambda>b. b = LF) raw)"

definition scan_records :: "codec \<Rightarrow> bytes \<Rightarrow> audit_chain option \<Rightarrow> (audit_error, scan) result" where
  "scan_records C raw start =
     bind_result (scan_loop C 0 (log_lines raw) \<lparr>sc_anchor = start, sc_gap = []\<rparr> None) (\<lambda>(st, _). Inr st)"

record tail_lines =
  tl_file :: bytes
  tl_pos :: nat
  tl_carry :: bytes
  tl_ready :: "bytes list"

definition tail_open :: "bytes \<Rightarrow> tail_lines" where
  "tail_open file = \<lparr>tl_file = file, tl_pos = length file, tl_carry = [], tl_ready = []\<rparr>"

text \<open>One round of the loop of \<^verbatim>\<open>next_line\<close> that reads a chunk.\<close>

definition refill :: "tail_lines \<Rightarrow> tail_lines" where
  "refill t =
     (let step = min (tl_pos t) TAIL_CHUNK;
          pos = tl_pos t - step;
          chunk = take step (drop pos (tl_file t)) @ tl_carry t;
          parts = split_by (\<lambda>b. b = LF) chunk
      in t\<lparr>tl_pos := pos, tl_carry := hd parts, tl_ready := tl parts\<rparr>)"

lemma refill_pos: "0 < tl_pos t \<Longrightarrow> tl_pos (refill t) < tl_pos t"
  by (simp add: refill_def Let_def TAIL_CHUNK_def)

function next_line :: "tail_lines \<Rightarrow> bytes option \<times> tail_lines" where
  "next_line t =
     (if tl_ready t \<noteq> [] then (Some (last (tl_ready t)), t\<lparr>tl_ready := butlast (tl_ready t)\<rparr>)
      else if tl_pos t = 0 then
        (if tl_carry t \<noteq> [] then (Some (tl_carry t), t\<lparr>tl_carry := []\<rparr>) else (None, t))
      else next_line (refill t))"
  by pat_completeness auto
termination
  by (relation "measure tl_pos") (auto intro: refill_pos)

declare next_line.simps [simp del]

text \<open>The lines still to come, newest first. The oldest line of the file is not returned when it
  is empty.\<close>

definition lines_backwards :: "bytes \<Rightarrow> bytes list" where
  "lines_backwards raw =
     (let parts = split_by (\<lambda>b. b = LF) raw
      in rev (if hd parts = [] then tl parts else parts))"

definition pending :: "tail_lines \<Rightarrow> bytes list" where
  "pending t = rev (tl_ready t) @ lines_backwards (take (tl_pos t) (tl_file t) @ tl_carry t)"

lemma split_by_hd_plain: "list_all (\<lambda>x. \<not> p x) (hd (split_by p s))"
  by (induction s) (auto split: list.splits)

lemma split_by_append:
  "split_by p (a @ b) = split_by p (a @ hd (split_by p b)) @ tl (split_by p b)"
proof (induction a)
  case Nil
  then show ?case by (simp add: split_by_plain split_by_hd_plain)
next
  case (Cons c a)
  obtain w ws where "split_by p (a @ hd (split_by p b)) = w # ws"
    using split_by_nonempty [of p "a @ hd (split_by p b)"] by (cases "split_by p (a @ hd (split_by p b))") auto
  with Cons show ?case by simp
qed

lemma lines_backwards_append:
  fixes a b :: bytes
  defines "parts \<equiv> split_by (\<lambda>x. x = LF) b"
  shows "lines_backwards (a @ b) = rev (tl parts) @ lines_backwards (a @ hd parts)"
proof -
  have s: "split_by (\<lambda>x. x = LF) (a @ b) = split_by (\<lambda>x. x = LF) (a @ hd parts) @ tl parts"
    using split_by_append [of "\<lambda>x. x = LF" a b] by (simp add: parts_def)
  obtain w ws where "split_by (\<lambda>x. x = LF) (a @ hd parts) = w # ws"
    using split_by_nonempty [of "\<lambda>x. x = LF" "a @ hd parts"]
    by (cases "split_by (\<lambda>x. x = LF) (a @ hd parts)") auto
  then show ?thesis using s by (auto simp: lines_backwards_def Let_def)
qed

lemma pending_refill:
  assumes "tl_ready t = []"
  shows "pending (refill t) = pending t"
proof -
  let ?step = "min (tl_pos t) TAIL_CHUNK"
  have "take (tl_pos t) (tl_file t) = take (tl_pos t - ?step) (tl_file t) @ take ?step (drop (tl_pos t - ?step) (tl_file t))"
    by (metis add.commute diff_add min.cobounded1 take_add)
  then show ?thesis using assms
    lines_backwards_append [of "take (tl_pos t - ?step) (tl_file t)"
      "take ?step (drop (tl_pos t - ?step) (tl_file t)) @ tl_carry t"]
    by (simp add: pending_def refill_def Let_def)
qed

definition tail_ok :: "tail_lines \<Rightarrow> bool" where
  "tail_ok t \<longleftrightarrow> LF \<notin> set (tl_carry t)"

lemma refill_ok: "tail_ok (refill t)"
  using split_by_hd_plain [of "\<lambda>b. b = LF"] by (auto simp: tail_ok_def refill_def Let_def list_all_iff)

lemma lines_backwards_plain: "LF \<notin> set l \<Longrightarrow> lines_backwards l = (if l = [] then [] else [l])"
proof -
  assume "LF \<notin> set l"
  then have "split_by (\<lambda>b. b = LF) l = [l]" by (intro split_by_plain) (auto simp: list_all_iff)
  then show ?thesis by (simp add: lines_backwards_def)
qed

lemma next_line_pending:
  assumes "tail_ok t"
  shows "case pending t of
      [] \<Rightarrow> fst (next_line t) = None
    | l # ls \<Rightarrow> fst (next_line t) = Some l \<and> pending (snd (next_line t)) = ls \<and> tail_ok (snd (next_line t))"
  using assms
proof (induction t rule: next_line.induct)
  case (1 t)
  consider (refill) "tl_ready t = []" "tl_pos t \<noteq> 0" | (last) "tl_ready t = []" "tl_pos t = 0"
    | (ready) rs l where "tl_ready t = rs @ [l]"
    by (cases "tl_ready t" rule: rev_cases) auto
  then show ?case
  proof cases
    case refill
    then show ?thesis using "1.IH" [OF _ _ refill_ok] pending_refill [of t] next_line.simps [of t]
      by (cases "pending t") auto
  next
    case last
    then show ?thesis using "1.prems" next_line.simps [of t]
      by (auto simp: pending_def tail_ok_def lines_backwards_plain)
  next
    case ready
    then show ?thesis using "1.prems" next_line.simps [of t] by (simp add: pending_def tail_ok_def)
  qed
qed

lemma pending_decreases:
  "fst (next_line t) = Some l \<Longrightarrow> length (pending (snd (next_line t))) < length (pending t)"
proof (induction t rule: next_line.induct)
  case (1 t)
  consider (refill) "tl_ready t = []" "tl_pos t \<noteq> 0" | (last) "tl_ready t = []" "tl_pos t = 0"
    | (ready) rs l where "tl_ready t = rs @ [l]"
    by (cases "tl_ready t" rule: rev_cases) auto
  then show ?case
  proof cases
    case refill
    then show ?thesis using 1 pending_refill [of t] next_line.simps [of t] by simp
  next
    case last
    obtain w ws where "split_by (\<lambda>b. b = LF) (tl_carry t) = w # ws"
      using split_by_nonempty [of "\<lambda>b. b = LF" "tl_carry t"] by (cases "split_by (\<lambda>b. b = LF) (tl_carry t)") auto
    moreover have "w \<noteq> [] \<or> ws \<noteq> []" if "tl_carry t \<noteq> []"
      using that calculation by (cases "tl_carry t") (auto split: if_splits list.splits)
    ultimately show ?thesis using last "1.prems" next_line.simps [of t]
      by (auto simp: pending_def lines_backwards_def Let_def split: if_splits)
  next
    case ready
    then show ?thesis using next_line.simps [of t] by (simp add: pending_def)
  qed
qed

text \<open>The lines a loop over \<^verbatim>\<open>next_line\<close> sees.\<close>

function drain :: "tail_lines \<Rightarrow> bytes list" where
  "drain t = (case fst (next_line t) of Some l \<Rightarrow> l # drain (snd (next_line t)) | None \<Rightarrow> [])"
  by pat_completeness auto
termination
  by (relation "measure (\<lambda>t. length (pending t))") (auto intro: pending_decreases)

declare drain.simps [simp del]

lemma drain_pending: "tail_ok t \<Longrightarrow> drain t = pending t"
proof (induction t rule: drain.induct)
  case (1 t)
  then show ?case using next_line_pending [OF "1.prems"] drain.simps [of t] by (cases "pending t") auto
qed

lemma drain_open: "drain (tail_open raw) = lines_backwards raw"
  by (subst drain_pending) (simp_all add: tail_ok_def tail_open_def pending_def)

section \<open>The file sink\<close>

record file_audit =
  fa_log :: "bytes option"
  fa_rotated :: "bytes option"
  fa_rotate_bytes :: nat

definition file_audit_new :: "nat \<Rightarrow> file_audit" where
  "file_audit_new limit = \<lparr>fa_log = None, fa_rotated = None, fa_rotate_bytes = limit\<rparr>"

definition chain_of_line :: "codec \<Rightarrow> bytes \<Rightarrow> audit_chain option" where
  "chain_of_line C line = (case dec C line of Some r \<Rightarrow> ar_chain r | None \<Rightarrow> None)"

definition rotated_anchor :: "codec \<Rightarrow> file_audit \<Rightarrow> audit_chain option" where
  "rotated_anchor C fa =
     (case fa_rotated fa of None \<Rightarrow> None
      | Some raw \<Rightarrow> find_map (chain_of_line C) (drain (tail_open raw)))"

definition verify :: "codec \<Rightarrow> file_audit \<Rightarrow> (audit_error, audit_chain) result" where
  "verify C fa =
     (let start = rotated_anchor C fa
      in case fa_log fa of
           None \<Rightarrow> Inl LogMissing
         | Some raw \<Rightarrow>
             bind_result (scan_records C raw start) (\<lambda>st.
               case sc_anchor st of Some c \<Rightarrow> Inr c | None \<Rightarrow> Inl LogEmpty))"

definition rotates :: "file_audit \<Rightarrow> bool" where
  "rotates fa = (case fa_log fa of None \<Rightarrow> False | Some raw \<Rightarrow> fa_rotate_bytes fa < length raw)"

text \<open>\<^verbatim>\<open>AuditSink::record\<close>: first whether the log is rotated and the bytes to append, then the
  rename and the write.\<close>

definition append_line :: "codec \<Rightarrow> audit_record \<Rightarrow> file_audit \<Rightarrow> (audit_error, bool \<times> bytes) result" where
  "append_line C r fa =
     (let start = rotated_anchor C fa
      in bind_result
           (case fa_log fa of
              Some raw \<Rightarrow> scan_records C raw start
            | None \<Rightarrow> Inr \<lparr>sc_anchor = start, sc_gap = []\<rparr>) (\<lambda>st.
           (let rot = rotates fa;
                chain = make_chain C r (sc_anchor st);
                chain = (if sc_gap st \<noteq> [] \<and> \<not> rot
                         then chain\<lparr>ch_torn := Some (sha C (sc_gap st))\<rparr> else chain);
                stored = r\<lparr>ar_chain := Some chain\<rparr>;
                old = (case fa_log fa of Some raw \<Rightarrow> raw | None \<Rightarrow> [])
            in Inr (rot, (if \<not> rot \<and> old \<noteq> [] \<and> last old \<noteq> LF then [LF] else []) @ enc C stored @ [LF]))))"

definition rotate_log :: "file_audit \<Rightarrow> file_audit" where
  "rotate_log fa = fa\<lparr>fa_log := None, fa_rotated := fa_log fa\<rparr>"

definition write_bytes :: "bytes \<Rightarrow> file_audit \<Rightarrow> file_audit" where
  "write_bytes b fa = fa\<lparr>fa_log := Some ((case fa_log fa of Some raw \<Rightarrow> raw | None \<Rightarrow> []) @ b)\<rparr>"

definition audit_append :: "codec \<Rightarrow> audit_record \<Rightarrow> file_audit \<Rightarrow> (audit_error, file_audit) result" where
  "audit_append C r fa =
     bind_result (append_line C r fa) (\<lambda>(rot, line).
       Inr (write_bytes line (if rot then rotate_log fa else fa)))"

definition gap_bytes :: "bytes list \<Rightarrow> bytes" where
  "gap_bytes gap = concat (map (\<lambda>l. l @ [LF]) (rev gap))"

fun query_loop ::
  "codec \<Rightarrow> audit_query \<Rightarrow> nat \<Rightarrow> audit_chain option \<Rightarrow> bytes list \<Rightarrow> audit_record option \<Rightarrow> bytes list
     \<Rightarrow> audit_record list \<Rightarrow> (audit_error, audit_record list) result" where
  "query_loop C q limit start [] newer gap out =
     (case newer of
        Some oldest \<Rightarrow>
          bind_result (check_link C oldest start (gap_bytes gap) None) (\<lambda>_. Inr out)
      | None \<Rightarrow> Inr out)"
| "query_loop C q limit start (line # ls) newer gap out =
     (if blank_line line then query_loop C q limit start ls newer gap out
      else case dec C line of
        None \<Rightarrow> query_loop C q limit start ls newer (gap @ [line]) out
      | Some r \<Rightarrow>
          (case ar_chain r of
             None \<Rightarrow> Inl NoChainMetadata
           | Some chain \<Rightarrow>
               if ch_hash (make_chain C r None) \<noteq> ch_hash chain then Inl (HashMismatch (ch_sequence chain))
               else
                 bind_result
                   (case newer of
                      Some nr \<Rightarrow> check_link C nr (Some chain) (gap_bytes gap) None
                    | None \<Rightarrow> Inr ()) (\<lambda>_.
                   (let out' = (if query_matches q r then out @ [r] else out)
                    in if query_matches q r \<and> length out' = limit then Inr out'
                       else query_loop C q limit start ls (Some r) [] out'))))"

definition audit_query_run :: "codec \<Rightarrow> audit_query \<Rightarrow> file_audit \<Rightarrow> (audit_error, audit_record list) result" where
  "audit_query_run C q fa =
     (let limit = effective_limit q
      in if limit = 0 then Inr []
         else case fa_log fa of
                None \<Rightarrow> Inr []
              | Some raw \<Rightarrow> query_loop C q limit (rotated_anchor C fa) (drain (tail_open raw)) None [] [])"

definition newest_first :: "audit_record list \<Rightarrow> nat option \<Rightarrow> audit_record list" where
  "newest_first rs limit = (case limit of Some n \<Rightarrow> take n (rev rs) | None \<Rightarrow> rev rs)"

definition capture_query :: "audit_query \<Rightarrow> audit_record list \<Rightarrow> audit_record list" where
  "capture_query q rs = newest_first (filter (query_matches q) rs) (Some (effective_limit q))"

section \<open>What the code relies on\<close>

definition codec_ok :: "codec \<Rightarrow> bool" where
  "codec_ok C \<longleftrightarrow>
     (\<forall>r. dec C (enc C r) = Some r) \<and> (\<forall>r. LF \<notin> set (enc C r)) \<and> (\<forall>r. \<not> blank_line (enc C r))
     \<and> (\<forall>l. blank_line l \<longrightarrow> dec C l = None)
     \<and> (\<forall>r n. n < length (enc C r) \<longrightarrow> dec C (take n (enc C r)) = None)"

lemma codec_okD:
  assumes "codec_ok C"
  shows "dec C (enc C r) = Some r" "LF \<notin> set (enc C r)" "\<not> blank_line (enc C r)"
    "blank_line l \<Longrightarrow> dec C l = None" "n < length (enc C r) \<Longrightarrow> dec C (take n (enc C r)) = None"
  using assms by (auto simp: codec_ok_def)

section \<open>Scanning\<close>

lemma scan_loop_append:
  "scan_loop C i (xs @ ys) st bad =
     bind_result (scan_loop C i xs st bad) (\<lambda>(st', bad'). scan_loop C (i + length xs) ys st' bad')"
proof (induction xs arbitrary: i st bad)
  case (Cons x xs)
  then show ?case by (cases "dec C x") (auto simp: Let_def bind_result_def split: sum.splits)
qed simp

lemma blank_lines_simps [simp]: "blank_line []"
  by (simp add: blank_line_def)

lemma split_by_delim: "p c \<Longrightarrow> split_by p (a @ c # b) = split_by p a @ split_by p b"
proof (induction a)
  case (Cons d a)
  then show ?case by (auto split: list.splits)
qed simp

lemma log_lines_append:
  assumes "LF \<notin> set l" and "\<not> blank_line l"
  shows "log_lines (raw @ (if raw \<noteq> [] \<and> last raw \<noteq> LF then [LF] else []) @ l @ [LF]) = log_lines raw @ [l]"
proof -
  have "list_all (\<lambda>x. x \<noteq> LF) l" using assms(1) by (auto simp: list_all_iff)
  then have l: "split_by (\<lambda>b. b = LF) (l @ [LF]) = [l, []]"
    using split_by_step [of "\<lambda>b. b = LF" l LF "[]"] by simp
  show ?thesis
  proof (cases "raw = [] \<or> last raw = LF")
    case True
    show ?thesis
    proof (cases raw rule: rev_cases)
      case Nil
      then show ?thesis using l assms(2) by (simp add: log_lines_def)
    next
      case (snoc r c)
      with True have "raw = r @ [LF]" by auto
      then show ?thesis
        using split_by_delim [of "\<lambda>b. b = LF" LF r "l @ [LF]"] l assms(2) split_by_delim [of "\<lambda>b. b = LF" LF r "[]"]
        by (simp add: log_lines_def)
    qed
  next
    case False
    then show ?thesis using split_by_delim [of "\<lambda>b. b = LF" LF raw "l @ [LF]"] l assms(2)
      by (simp add: log_lines_def)
  qed
qed

lemma make_chain_chain [simp]: "make_chain C (r\<lparr>ar_chain := c\<rparr>) prev = make_chain C r prev"
  by (simp add: make_chain_def)

lemma check_link_new:
  "check_link C (r\<lparr>ar_chain := Some (if gap \<noteq> [] then (make_chain C r prev)\<lparr>ch_torn := Some (sha C gap)\<rparr>
      else make_chain C r prev)\<rparr>) prev gap bad = Inr ()"
  by (auto simp: check_link_def Let_def make_chain_def)

definition log_records :: "codec \<Rightarrow> file_audit \<Rightarrow> audit_record list" where
  "log_records C fa = (case fa_log fa of None \<Rightarrow> [] | Some raw \<Rightarrow> filter_map (dec C) (log_lines raw))"

text \<open>A log is sound when a scan accepts it; a file that does not exist yet is.\<close>

definition log_scan :: "codec \<Rightarrow> file_audit \<Rightarrow> (audit_error, scan) result" where
  "log_scan C fa =
     (case fa_log fa of
        Some raw \<Rightarrow> scan_records C raw (rotated_anchor C fa)
      | None \<Rightarrow> Inr \<lparr>sc_anchor = rotated_anchor C fa, sc_gap = []\<rparr>)"

lemma scan_loop_anchor:
  "scan_loop C i ls st bad = Inr (st', bad') \<Longrightarrow>
     list_all (\<lambda>r. ar_chain r \<noteq> None) (filter_map (dec C) ls)
     \<and> sc_anchor st' = (if filter_map (dec C) ls = [] then sc_anchor st else ar_chain (last (filter_map (dec C) ls)))"
proof (induction ls arbitrary: i st bad)
  case (Cons l ls)
  show ?case
  proof (cases "dec C l")
    case None
    then show ?thesis using Cons.IH Cons.prems by (auto simp: Let_def)
  next
    case (Some r)
    with Cons.prems have c: "ar_chain r \<noteq> None"
      "scan_loop C (i + 1) ls \<lparr>sc_anchor = ar_chain r, sc_gap = []\<rparr> None = Inr (st', bad')"
      by (auto simp: Let_def bind_result_eq_Inr split: if_splits)
    from Cons.IH [OF c(2)] c(1) Some show ?thesis by auto
  qed
qed simp

lemma find_map_rev:
  "find_map f (rev xs) = (if filter_map f xs = [] then None else Some (last (filter_map f xs)))"
proof (induction xs rule: rev_induct)
  case (snoc x xs)
  then show ?case by (auto split: option.splits)
qed simp

lemma filter_map_blank:
  "(\<And>l. blank_line l \<Longrightarrow> f l = None) \<Longrightarrow> filter_map f (filter (\<lambda>l. \<not> blank_line l) ls) = filter_map f ls"
  by (induction ls) (auto split: option.splits)

lemma filter_map_lines_backwards:
  assumes "\<And>l. blank_line l \<Longrightarrow> f l = None"
  shows "filter_map f (rev (lines_backwards raw)) = filter_map f (log_lines raw)"
proof -
  obtain w ws where "split_by (\<lambda>b. b = LF) raw = w # ws"
    using split_by_nonempty [of "\<lambda>b. b = LF" raw] by (cases "split_by (\<lambda>b. b = LF) raw") auto
  then have "filter_map f (rev (lines_backwards raw)) = filter_map f (split_by (\<lambda>b. b = LF) raw)"
    using assms [of "[]"] by (auto simp: lines_backwards_def Let_def split: option.splits)
  then show ?thesis using filter_map_blank [of f] assms by (simp add: log_lines_def)
qed

lemma filter_map_chain:
  "list_all (\<lambda>r. ar_chain r \<noteq> None) (filter_map (dec C) ls) \<Longrightarrow>
     map Some (filter_map (chain_of_line C) ls) = map ar_chain (filter_map (dec C) ls)"
  by (induction ls) (auto simp: chain_of_line_def split: option.splits)

lemma rotated_anchor_last:
  assumes "codec_ok C" and "scan_records C raw start = Inr st" and "filter_map (dec C) (log_lines raw) \<noteq> []"
    and "fa_rotated fa = Some raw"
  shows "rotated_anchor C fa = sc_anchor st"
proof -
  let ?rs = "filter_map (dec C) (log_lines raw)"
  from assms(2) obtain bad where "scan_loop C 0 (log_lines raw) \<lparr>sc_anchor = start, sc_gap = []\<rparr> None = Inr (st, bad)"
    by (auto simp: scan_records_def bind_result_eq_Inr)
  note a = scan_loop_anchor [OF this]
  have m: "map Some (filter_map (chain_of_line C) (log_lines raw)) = map ar_chain ?rs"
    using filter_map_chain a by blast
  then have "filter_map (chain_of_line C) (log_lines raw) \<noteq> []" using assms(3) by force
  then have "Some (last (filter_map (chain_of_line C) (log_lines raw))) = ar_chain (last ?rs)"
    using m assms(3) by (metis last_map)
  moreover have "rotated_anchor C fa = find_map (chain_of_line C) (rev (rev (lines_backwards raw)))"
    using assms(4) by (simp add: rotated_anchor_def drain_open)
  moreover have "filter_map (chain_of_line C) (rev (lines_backwards raw)) = filter_map (chain_of_line C) (log_lines raw)"
    using codec_okD(4) [OF assms(1)] by (intro filter_map_lines_backwards) (simp add: chain_of_line_def)
  ultimately show ?thesis
    using \<open>filter_map (chain_of_line C) (log_lines raw) \<noteq> []\<close> a assms(3) by (simp only: find_map_rev) simp
qed

definition new_chain :: "codec \<Rightarrow> audit_record \<Rightarrow> scan \<Rightarrow> bool \<Rightarrow> audit_chain" where
  "new_chain C r st rot =
     (if sc_gap st \<noteq> [] \<and> \<not> rot then (make_chain C r (sc_anchor st))\<lparr>ch_torn := Some (sha C (sc_gap st))\<rparr>
      else make_chain C r (sc_anchor st))"

lemma scan_records_snoc:
  assumes "codec_ok C" and "scan_records C raw start = Inr st"
  shows "scan_records C (raw @ (if raw \<noteq> [] \<and> last raw \<noteq> LF then [LF] else [])
      @ enc C (r\<lparr>ar_chain := Some (new_chain C r st False)\<rparr>) @ [LF]) start
    = Inr \<lparr>sc_anchor = Some (new_chain C r st False), sc_gap = []\<rparr>"
proof -
  let ?r = "r\<lparr>ar_chain := Some (new_chain C r st False)\<rparr>"
  from assms(2) obtain bad where s: "scan_loop C 0 (log_lines raw) \<lparr>sc_anchor = start, sc_gap = []\<rparr> None = Inr (st, bad)"
    by (auto simp: scan_records_def bind_result_eq_Inr)
  have "check_link C ?r (sc_anchor st) (sc_gap st) bad = Inr ()"
    using check_link_new [where C = C and r = r and gap = "sc_gap st" and prev = "sc_anchor st" and bad = bad] by (simp add: new_chain_def)
  then show ?thesis
    using s codec_okD(1,2,3) [OF assms(1)]
    by (simp add: scan_records_def log_lines_append scan_loop_append)
qed

end
