(* ===== verification/Audit_Log.thy ===== *)
theory Audit_Log
  imports Audit_Chain
begin

text \<open>
  What the audit log of \<open>Audit_Chain\<close> promises: an append extends the chain that \<^verbatim>\<open>verify\<close> accepts,
  also after a torn append and across a rotation; a query returns the newest matching records; an accepted log
  is a chain of sequence numbers and digests, and what that chain does not protect. The last section holds
  a concrete codec, at which the hypotheses on JSON are checked.
\<close>

section \<open>Appending\<close>

lemma append_line_scan:
  assumes "log_scan C fa = Inr st"
  shows "append_line C r fa = Inr (rotates fa,
    (if \<not> rotates fa \<and> (case fa_log fa of Some raw \<Rightarrow> raw | None \<Rightarrow> []) \<noteq> []
        \<and> last (case fa_log fa of Some raw \<Rightarrow> raw | None \<Rightarrow> []) \<noteq> LF then [LF] else [])
    @ enc C (r\<lparr>ar_chain := Some (new_chain C r st (rotates fa))\<rparr>) @ [LF])"
  using assms by (simp add: append_line_def log_scan_def Let_def new_chain_def)

text \<open>Bytes that stop inside the encoding of a record add an unreadable line, or none.\<close>

lemma log_lines_partial:
  assumes "LF \<notin> set l"
  shows "log_lines (raw @ (if raw \<noteq> [] \<and> last raw \<noteq> LF then [LF] else []) @ l)
    = log_lines raw @ (if blank_line l then [] else [l])"
proof -
  have l: "split_by (\<lambda>b. b = LF) l = [l]" using assms by (intro split_by_plain) (auto simp: list_all_iff)
  show ?thesis
  proof (cases raw rule: rev_cases)
    case Nil
    then show ?thesis using l by (simp add: log_lines_def)
  next
    case (snoc r c)
    show ?thesis
    proof (cases "c = LF")
      case True
      then show ?thesis
        using snoc split_by_delim [of "\<lambda>b. b = LF" LF r l] l split_by_delim [of "\<lambda>b. b = LF" LF r "[]"]
        by (simp add: log_lines_def)
    next
      case False
      then show ?thesis using snoc split_by_delim [of "\<lambda>b. b = LF" LF raw l] l by (simp add: log_lines_def)
    qed
  qed
qed

lemma scan_records_lines:
  "log_lines raw' = log_lines raw \<Longrightarrow> scan_records C raw' start = scan_records C raw start"
  by (simp add: scan_records_def)

lemma scan_records_torn:
  assumes "codec_ok C" and "scan_records C raw start = Inr st"
    and "pre = (if raw \<noteq> [] \<and> last raw \<noteq> LF then [LF] else [])"
    and "e = enc C (r\<lparr>ar_chain := Some (new_chain C r st False)\<rparr>)"
  shows "\<exists>st'. scan_records C (raw @ take n (pre @ e @ [LF])) start = Inr st'"
proof -
  have full: "scan_records C (raw @ pre @ e @ [LF]) start
      = Inr \<lparr>sc_anchor = Some (new_chain C r st False), sc_gap = []\<rparr>"
    using scan_records_snoc [OF assms(1,2), where r = r] unfolding assms(3,4) .
  consider "n = 0" | "n \<noteq> 0" "n < length pre" | m where "n = length pre + m" "m < length e"
    | "n = length pre + length e" | "length pre + length e < n"
    by (metis add_diff_inverse_nat add_less_cancel_left linorder_neqE_nat not_less_zero)
  then show ?thesis
  proof cases
    case 1
    then show ?thesis using assms(2) by simp
  next
    case 2
    then show ?thesis using assms(3) by (auto split: if_splits)
  next
    case 3
    let ?l = "take m e"
    have p: "LF \<notin> set ?l" using codec_okD(2) [OF assms(1)] assms(4) by (auto dest: in_set_takeD)
    have d: "dec C ?l = None" using codec_okD(5) [OF assms(1)] 3(2) assms(4) by simp
    have "log_lines (raw @ take n (pre @ e @ [LF])) = log_lines raw @ (if blank_line ?l then [] else [?l])"
      using log_lines_partial [OF p, of raw] 3 assms(3) by simp
    then show ?thesis using assms(2) d
      by (auto simp: scan_records_def scan_loop_append bind_result_eq_Inr)
  next
    case 4
    have p: "LF \<notin> set e" using codec_okD(2) [OF assms(1)] assms(4) by simp
    have "log_lines (raw @ take n (pre @ e @ [LF])) = log_lines (raw @ pre @ e @ [LF])"
      using log_lines_partial [OF p, of raw] log_lines_append [OF p, of raw] 4 assms(3,4)
        codec_okD(3) [OF assms(1)] by simp
    then show ?thesis using full scan_records_lines by metis
  next
    case 5
    then have "take n (pre @ e @ [LF]) = pre @ e @ [LF]" by simp
    then show ?thesis using full by metis
  qed
qed

lemma filter_map_none: "filter_map f ls = [] \<Longrightarrow> (\<And>l. f l = None \<Longrightarrow> g l = None) \<Longrightarrow> filter_map g ls = []"
  by (induction ls) (auto split: option.splits)

lemma scan_unreadable:
  "filter_map (dec C) ls = [] \<Longrightarrow> \<exists>st' bad'. scan_loop C i ls st bad = Inr (st', bad') \<and> sc_anchor st' = sc_anchor st"
proof (induction ls arbitrary: i st bad)
  case (Cons l ls)
  then have d: "dec C l = None" "filter_map (dec C) ls = []" by (cases "dec C l"; auto)+
  from Cons.IH [OF d(2), of "Suc i" "st\<lparr>sc_gap := sc_gap st @ l @ [LF]\<rparr>" "case bad of None \<Rightarrow> Some (Suc i) | Some n \<Rightarrow> Some n"]
  show ?case using d by (simp add: Let_def)
qed simp

lemma unreadable_anchor:
  assumes "codec_ok C" and "filter_map (dec C) (log_lines raw) = []" and "fa_rotated fa = Some raw"
  shows "rotated_anchor C fa = None"
proof -
  have "filter_map (chain_of_line C) (rev (lines_backwards raw)) = []"
    using filter_map_lines_backwards [of "chain_of_line C" raw] assms(2) codec_okD(4) [OF assms(1)]
    by (simp add: chain_of_line_def filter_map_none)
  then show ?thesis
    using find_map_rev [of "chain_of_line C" "rev (lines_backwards raw)"] assms(3) by (simp add: rotated_anchor_def drain_open)
qed

lemma scan_unread:
  assumes "fa_log fa = Some raw" and "log_records C fa = []"
  shows "\<exists>st. log_scan C fa = Inr st \<and> sc_anchor st = rotated_anchor C fa"
  using scan_unreadable [of C "log_lines raw" 0 "\<lparr>sc_anchor = rotated_anchor C fa, sc_gap = []\<rparr>" None] assms
  by (auto simp: log_scan_def scan_records_def log_records_def)

text \<open>An append of a log that is to be rotated although it holds no record replaces the rotated log, and with it the record that the
  new one continues, if there is one. In every other case an append keeps the chain.\<close>

definition keeps_chain :: "codec \<Rightarrow> file_audit \<Rightarrow> bool" where
  "keeps_chain C fa \<longleftrightarrow> (rotates fa \<longrightarrow> log_records C fa \<noteq> [] \<or> rotated_anchor C fa = None)"

lemma rotate_log_scan:
  assumes "codec_ok C" and "log_scan C fa = Inr st" and "fa_log fa = Some raw" and "log_records C fa \<noteq> [] \<or> rotated_anchor C fa = None"
  shows "rotated_anchor C (rotate_log fa) = sc_anchor st"
    and "log_scan C (rotate_log fa) = Inr \<lparr>sc_anchor = sc_anchor st, sc_gap = []\<rparr>"
proof -
  have st: "scan_records C raw (rotated_anchor C fa) = Inr st" using assms(2,3) by (simp add: log_scan_def)
  show "rotated_anchor C (rotate_log fa) = sc_anchor st"
  proof (cases "log_records C fa = []")
    case True
    then have "rotated_anchor C (rotate_log fa) = None"
      using unreadable_anchor [OF assms(1), of raw "rotate_log fa"] assms(3) by (simp add: log_records_def rotate_log_def)
    then show ?thesis using scan_unread [OF assms(3) True] assms(2,4) True by auto
  next
    case False
    then show ?thesis using rotated_anchor_last [OF assms(1) st, of "rotate_log fa"] assms(3) by (simp add: log_records_def rotate_log_def)
  qed
  then show "log_scan C (rotate_log fa) = Inr \<lparr>sc_anchor = sc_anchor st, sc_gap = []\<rparr>"
    by (simp add: log_scan_def rotate_log_def)
qed

lemma log_scan_raw:
  "log_scan C fa = scan_records C (case fa_log fa of Some raw \<Rightarrow> raw | None \<Rightarrow> []) (rotated_anchor C fa)"
  by (simp add: log_scan_def scan_records_def log_lines_def split: option.splits)

lemma rotated_anchor_log [simp]: "rotated_anchor C (fa\<lparr>fa_log := x\<rparr>) = rotated_anchor C fa"
  by (simp add: rotated_anchor_def)

lemma write_bytes_scan:
  "log_scan C (write_bytes b fa)
    = scan_records C ((case fa_log fa of Some raw \<Rightarrow> raw | None \<Rightarrow> []) @ b) (rotated_anchor C fa)"
  by (simp add: log_scan_def write_bytes_def)

lemma log_records_raw:
  "log_records C fa = filter_map (dec C) (log_lines (case fa_log fa of Some raw \<Rightarrow> raw | None \<Rightarrow> []))"
  by (simp add: log_records_def log_lines_def split: option.splits)

text \<open>The log an append writes to: the current one, or none yet after a rotation.\<close>

definition target_log :: "file_audit \<Rightarrow> file_audit" where
  "target_log fa = (if rotates fa then rotate_log fa else fa)"

lemma rotates_log: "rotates fa \<Longrightarrow> \<exists>raw. fa_log fa = Some raw"
  by (auto simp: rotates_def split: option.splits)

lemma target_scan:
  assumes "codec_ok C" and "log_scan C fa = Inr st" and "keeps_chain C fa"
  obtains st' where "log_scan C (target_log fa) = Inr st'"
    and "new_chain C r st (rotates fa) = new_chain C r st' False"
    and "sc_anchor st' = sc_anchor st"
proof (cases "rotates fa")
  case True
  then obtain raw where "fa_log fa = Some raw" using rotates_log by blast
  then have "log_scan C (target_log fa) = Inr \<lparr>sc_anchor = sc_anchor st, sc_gap = []\<rparr>"
    using rotate_log_scan(2) [OF assms(1,2)] assms(3) True by (simp add: target_log_def keeps_chain_def)
  then show ?thesis using that True by (simp add: new_chain_def)
next
  case False
  then show ?thesis using that assms(2) by (simp add: target_log_def)
qed

text \<open>The bytes an append writes, seen from the log it writes to.\<close>

lemma append_line_target:
  assumes "log_scan C fa = Inr st"
  shows "append_line C r fa = Inr (rotates fa,
    (if (case fa_log (target_log fa) of Some raw \<Rightarrow> raw | None \<Rightarrow> []) \<noteq> []
        \<and> last (case fa_log (target_log fa) of Some raw \<Rightarrow> raw | None \<Rightarrow> []) \<noteq> LF then [LF] else [])
    @ enc C (r\<lparr>ar_chain := Some (new_chain C r st (rotates fa))\<rparr>) @ [LF])"
  using append_line_scan [OF assms, of r] by (simp add: target_log_def rotate_log_def)

lemma audit_append_scan:
  assumes "codec_ok C" and "log_scan C fa = Inr st" and "keeps_chain C fa"
  shows "\<exists>fa'. audit_append C r fa = Inr fa' \<and> fa_log fa' \<noteq> None
    \<and> log_scan C fa' = Inr \<lparr>sc_anchor = Some (new_chain C r st (rotates fa)), sc_gap = []\<rparr>
    \<and> log_records C fa' = log_records C (target_log fa) @ [r\<lparr>ar_chain := Some (new_chain C r st (rotates fa))\<rparr>]"
proof -
  obtain st' where st': "log_scan C (target_log fa) = Inr st'"
    "new_chain C r st (rotates fa) = new_chain C r st' False"
    using target_scan [OF assms, where r = r] by blast
  let ?raw = "case fa_log (target_log fa) of Some raw \<Rightarrow> raw | None \<Rightarrow> []"
  let ?r = "r\<lparr>ar_chain := Some (new_chain C r st' False)\<rparr>"
  let ?line = "(if ?raw \<noteq> [] \<and> last ?raw \<noteq> LF then [LF] else []) @ enc C ?r @ [LF]"
  have "audit_append C r fa = Inr (write_bytes ?line (target_log fa))"
    using append_line_target [OF assms(2), of r] st'(2) by (simp add: audit_append_def target_log_def)
  moreover have "log_scan C (write_bytes ?line (target_log fa))
      = Inr \<lparr>sc_anchor = Some (new_chain C r st' False), sc_gap = []\<rparr>"
    using scan_records_snoc [OF assms(1) st'(1) [unfolded log_scan_raw], where r = r]
    by (simp add: write_bytes_scan)
  moreover have "log_records C (write_bytes ?line (target_log fa)) = log_records C (target_log fa) @ [?r]"
    using log_lines_append [OF codec_okD(2,3) [OF assms(1)], where raw = ?raw] codec_okD(1) [OF assms(1)]
    by (simp add: log_records_raw write_bytes_def)
  ultimately show ?thesis using st'(2) by (auto simp: write_bytes_def)
qed

section \<open>The states of a log\<close>

text \<open>The states that appends, appends cut off anywhere and rotations lead to, as long as none loses the chain.\<close>

inductive log_state :: "codec \<Rightarrow> nat \<Rightarrow> file_audit \<Rightarrow> bool" for C limit where
  fresh: "log_state C limit (file_audit_new limit)"
| appended: "log_state C limit fa \<Longrightarrow> keeps_chain C fa \<Longrightarrow> audit_append C r fa = Inr fa'
    \<Longrightarrow> log_state C limit fa'"
| torn: "log_state C limit fa \<Longrightarrow> keeps_chain C fa \<Longrightarrow> append_line C r fa = Inr (rot, line)
    \<Longrightarrow> log_state C limit (write_bytes (take n line) (if rot then rotate_log fa else fa))"
| renamed: "log_state C limit fa \<Longrightarrow> keeps_chain C fa \<Longrightarrow> append_line C r fa = Inr (True, line)
    \<Longrightarrow> log_state C limit (rotate_log fa)"

lemma rotated_append_line: "append_line C r fa = Inr (rot, line) \<Longrightarrow> rot = rotates fa"
  by (auto simp: append_line_def Let_def bind_result_eq_Inr)

lemma log_state_scan:
  assumes "codec_ok C"
  shows "log_state C limit fa \<Longrightarrow> \<exists>st. log_scan C fa = Inr st"
proof (induction rule: log_state.induct)
  case fresh
  then show ?case by (simp add: file_audit_new_def log_scan_def)
next
  case (appended fa r fa')
  then obtain st where "log_scan C fa = Inr st" by blast
  then show ?case using audit_append_scan [OF assms, of fa st r] appended by auto
next
  case (torn fa r rot line n)
  then obtain st where st: "log_scan C fa = Inr st" by blast
  obtain st' where st': "log_scan C (target_log fa) = Inr st'"
    "new_chain C r st (rotates fa) = new_chain C r st' False"
    using target_scan [OF assms st, where r = r] torn by blast
  have "(if rot then rotate_log fa else fa) = target_log fa"
    using torn rotated_append_line by (simp add: target_log_def)
  then show ?case
    using scan_records_torn [OF assms st'(1) [unfolded log_scan_raw] refl refl, where r = r and n = n]
      append_line_target [OF st, of r] st'(2) torn by (simp add: write_bytes_scan)
next
  case (renamed fa r line)
  then obtain st raw where "log_scan C fa = Inr st" "fa_log fa = Some raw"
    using rotated_append_line rotates_log by metis
  then show ?case using rotate_log_scan [OF assms] renamed rotated_append_line
    by (auto simp: keeps_chain_def)
qed

section \<open>Queries\<close>

lemma check_link_bad: "check_link C r prev gap bad = Inr () \<longleftrightarrow> check_link C r prev gap None = Inr ()"
  by (auto simp: check_link_def Let_def split: option.splits if_splits)

lemma check_link_hash:
  "check_link C r prev gap bad = Inr () \<Longrightarrow> \<exists>c. ar_chain r = Some c \<and> ch_hash (make_chain C r None) = ch_hash c"
  by (auto simp: check_link_def Let_def make_chain_def split: option.splits if_splits)

lemma query_loop_blank:
  "query_loop C q limit start ls newer gap out
    = query_loop C q limit start (filter (\<lambda>l. \<not> blank_line l) ls) newer gap out"
proof (induction ls arbitrary: newer gap out)
  case (Cons l ls)
  show ?case
  proof (cases "blank_line l")
    case True
    then show ?thesis using Cons by simp
  next
    case False
    show ?thesis unfolding filter.simps(2) using False
      by (simp only: query_loop.simps if_False if_True not_False_eq_True simp_thms) (simp only: Cons.IH [symmetric])
  qed
qed simp

text \<open>A query reads the log backwards and has to find each link the forward scan accepted.\<close>

lemma query_loop_scan:
  assumes "scan_loop C 0 ls \<lparr>sc_anchor = start, sc_gap = []\<rparr> None = Inr (st, bad)"
    and "list_all (\<lambda>l. \<not> blank_line l) ls" and "length out < limit"
    and "case newer of None \<Rightarrow> True | Some nr \<Rightarrow> check_link C nr (sc_anchor st) (sc_gap st @ gap_bytes gap) None = Inr ()"
  shows "query_loop C q limit start (rev ls) newer gap out
    = Inr (take limit (out @ filter (query_matches q) (rev (filter_map (dec C) ls))))"
  using assms
proof (induction ls arbitrary: st bad newer gap out rule: rev_induct)
  case Nil
  then show ?case by (auto simp: gap_bytes_def split: option.splits)
next
  case (snoc l ls)
  from snoc.prems(1) obtain st0 bad0 where s0: "scan_loop C 0 ls \<lparr>sc_anchor = start, sc_gap = []\<rparr> None = Inr (st0, bad0)"
    and s1: "scan_loop C (length ls) [l] st0 bad0 = Inr (st, bad)"
    by (auto simp: scan_loop_append bind_result_eq_Inr)
  show ?case
  proof (cases "dec C l")
    case None
    then have "st = st0\<lparr>sc_gap := sc_gap st0 @ l @ [LF]\<rparr>" using s1 by (auto simp: Let_def)
    then show ?thesis using None snoc.IH [OF s0, where out = out and newer = newer and gap = "gap @ [l]"] snoc.prems(2-4)
      by (auto simp: gap_bytes_def split: option.splits)
  next
    case (Some r)
    then have c: "check_link C r (sc_anchor st0) (sc_gap st0) bad0 = Inr ()"
      and st: "st = \<lparr>sc_anchor = ar_chain r, sc_gap = []\<rparr>"
      using s1 by (auto simp: Let_def bind_result_eq_Inr split: if_splits)
    obtain chain where chain: "ar_chain r = Some chain" "ch_hash (make_chain C r None) = ch_hash chain"
      using check_link_hash [OF c] by blast
    let ?out = "if query_matches q r then out @ [r] else out"
    have link: "(case newer of Some nr \<Rightarrow> check_link C nr (Some chain) (gap_bytes gap) None
        | None \<Rightarrow> Inr ()) = Inr ()"
      using snoc.prems(4) st chain(1) by (auto simp: gap_bytes_def split: option.splits)
    have step: "query_loop C q limit start (rev (ls @ [l])) newer gap out =
        (if query_matches q r \<and> length ?out = limit then Inr ?out
         else query_loop C q limit start (rev ls) (Some r) [] ?out)"
      using snoc.prems(2) Some chain link by (simp add: Let_def)
    show ?thesis
    proof (cases "query_matches q r \<and> length ?out = limit")
      case True
      then have l: "limit = Suc (length out)" by auto
      have "take limit (out @ r # xs) = out @ [r]" for xs by (simp add: l)
      then show ?thesis unfolding step using Some True l by simp
    next
      case False
      then have "length ?out < limit" using snoc.prems(3) by auto
      then have "query_loop C q limit start (rev ls) (Some r) [] ?out
          = Inr (take limit (?out @ filter (query_matches q) (rev (filter_map (dec C) ls))))"
        using iffD1 [OF check_link_bad c] snoc.prems(2) by (intro snoc.IH [OF s0]) (auto simp: gap_bytes_def)
      then show ?thesis unfolding step using False Some by (auto simp del: take_append)
    qed
  qed
qed

lemma lines_backwards_log_lines: "filter (\<lambda>l. \<not> blank_line l) (lines_backwards raw) = rev (log_lines raw)"
proof -
  obtain w ws where "split_by (\<lambda>b. b = LF) raw = w # ws"
    using split_by_nonempty [of "\<lambda>b. b = LF" raw] by (cases "split_by (\<lambda>b. b = LF) raw") auto
  then show ?thesis by (auto simp: lines_backwards_def log_lines_def Let_def rev_filter)
qed

lemma audit_query_scan:
  assumes "log_scan C fa = Inr st"
  shows "audit_query_run C q fa = Inr (take (effective_limit q) (filter (query_matches q) (rev (log_records C fa))))"
proof (cases "effective_limit q = 0 \<or> fa_log fa = None")
  case True
  then show ?thesis by (auto simp: audit_query_run_def Let_def log_records_def)
next
  case False
  then obtain raw where raw: "fa_log fa = Some raw" by auto
  then obtain bad where s: "scan_loop C 0 (log_lines raw) \<lparr>sc_anchor = rotated_anchor C fa, sc_gap = []\<rparr> None = Inr (st, bad)"
    using assms by (auto simp: log_scan_def scan_records_def bind_result_eq_Inr)
  have "list_all (\<lambda>l. \<not> blank_line l) (log_lines raw)" by (simp add: log_lines_def list_all_iff)
  from query_loop_scan [OF s this, where out = "[]" and limit = "effective_limit q" and newer = None and gap = "[]" and q = q] show ?thesis
    using False raw query_loop_blank [of C q "effective_limit q" _ "lines_backwards raw"]
    by (simp add: audit_query_run_def Let_def drain_open lines_backwards_log_lines log_records_def)
qed

section \<open>What an accepted log is\<close>

text \<open>Records are chained from \<open>prev\<close> when each carries the next sequence number, the digest of the
  record before it and the digest of its own contents.\<close>

fun chained :: "codec \<Rightarrow> audit_chain option \<Rightarrow> audit_record list \<Rightarrow> bool" where
  "chained C prev [] \<longleftrightarrow> True"
| "chained C prev (r # rs) \<longleftrightarrow>
     (case ar_chain r of
        None \<Rightarrow> False
      | Some c \<Rightarrow>
          ch_sequence c = (case prev of None \<Rightarrow> 1 | Some p \<Rightarrow> sat_add u64_max (ch_sequence p) 1)
          \<and> ch_prev c = map_option ch_hash prev
          \<and> ch_hash c = sha C (enc C (r\<lparr>ar_chain := None\<rparr>))
          \<and> chained C (Some c) rs)"

lemma check_link_iff:
  "check_link C r prev gap bad = Inr () \<longleftrightarrow>
     chained C prev [r] \<and> (case ar_chain r of None \<Rightarrow> True
       | Some c \<Rightarrow> ch_torn c = (if gap = [] then None else Some (sha C gap)))"
  by (auto simp: check_link_def Let_def make_chain_def split: option.splits if_splits)

lemma scan_loop_chained:
  "scan_loop C i ls st bad = Inr (st', bad') \<Longrightarrow> chained C (sc_anchor st) (filter_map (dec C) ls)"
proof (induction ls arbitrary: i st bad)
  case (Cons l ls)
  show ?case
  proof (cases "dec C l")
    case None
    with Cons.prems have "scan_loop C (i + 1) ls (st\<lparr>sc_gap := sc_gap st @ l @ [LF]\<rparr>)
        (case bad of None \<Rightarrow> Some (Suc i) | Some n \<Rightarrow> Some n) = Inr (st', bad')"
      by (simp add: Let_def)
    from Cons.IH [OF this] show ?thesis using None by simp
  next
    case (Some r)
    with Cons.prems have "check_link C r (sc_anchor st) (sc_gap st) bad = Inr ()"
      "scan_loop C (i + 1) ls \<lparr>sc_anchor = ar_chain r, sc_gap = []\<rparr> None = Inr (st', bad')"
      by (auto simp: Let_def bind_result_eq_Inr split: if_splits)
    from this(1) Cons.IH [OF this(2)] Some show ?thesis by (auto simp: check_link_iff split: option.splits)
  qed
qed simp

lemma log_scan_chained:
  assumes "log_scan C fa = Inr st"
  shows "chained C (rotated_anchor C fa) (log_records C fa)
    \<and> sc_anchor st = (if log_records C fa = [] then rotated_anchor C fa else ar_chain (last (log_records C fa)))"
proof -
  let ?ls = "log_lines (case fa_log fa of Some raw \<Rightarrow> raw | None \<Rightarrow> [])"
  obtain bad where s: "scan_loop C 0 ?ls \<lparr>sc_anchor = rotated_anchor C fa, sc_gap = []\<rparr> None = Inr (st, bad)"
    using assms by (auto simp: log_scan_raw scan_records_def bind_result_eq_Inr)
  show ?thesis using scan_loop_anchor [OF s] scan_loop_chained [OF s] by (simp add: log_records_raw)
qed

lemma verify_scan: "verify C fa = Inr c \<longleftrightarrow> (\<exists>st. log_scan C fa = Inr st \<and> sc_anchor st = Some c \<and> fa_log fa \<noteq> None)"
  by (auto simp: verify_def log_scan_def Let_def bind_result_eq_Inr split: option.splits)

lemma verify_log_scan:
  "fa_log fa = Some raw \<Longrightarrow> verify C fa = bind_result (log_scan C fa) (\<lambda>st.
     case sc_anchor st of Some c \<Rightarrow> Inr c | None \<Rightarrow> Inl LogEmpty)"
  by (simp add: verify_def log_scan_def)

text \<open>A log written by successive appends, as bytes.\<close>

fun seal :: "codec \<Rightarrow> audit_chain option \<Rightarrow> audit_record list \<Rightarrow> audit_record list" where
  "seal C prev [] = []"
| "seal C prev (r # rs) = r\<lparr>ar_chain := Some (make_chain C r prev)\<rparr> # seal C (Some (make_chain C r prev)) rs"

definition log_bytes :: "codec \<Rightarrow> audit_record list \<Rightarrow> bytes" where
  "log_bytes C rs = concat (map (\<lambda>r. enc C r @ [LF]) rs)"

definition written_log :: "codec \<Rightarrow> audit_record list \<Rightarrow> file_audit" where
  "written_log C rs = (file_audit_new AUDIT_ROTATE_BYTES)\<lparr>fa_log := Some (log_bytes C (seal C None rs))\<rparr>"

lemma log_lines_bytes:
  assumes "codec_ok C"
  shows "log_lines (log_bytes C rs) = map (enc C) rs"
proof (induction rs rule: rev_induct)
  case Nil
  then show ?case by (simp add: log_bytes_def log_lines_def)
next
  case (snoc r rs)
  have "log_bytes C rs = [] \<or> last (log_bytes C rs) = LF"
    by (cases rs rule: rev_cases) (auto simp: log_bytes_def)
  then show ?case using log_lines_append [OF codec_okD(2,3) [OF assms], of "log_bytes C rs" r] snoc
    by (auto simp: log_bytes_def)
qed

lemma scan_sealed:
  assumes "codec_ok C"
  shows "scan_loop C i (map (enc C) (seal C prev rs)) \<lparr>sc_anchor = prev, sc_gap = []\<rparr> None
    = Inr (\<lparr>sc_anchor = (if rs = [] then prev else ar_chain (last (seal C prev rs))), sc_gap = []\<rparr>, None)"
proof (induction rs arbitrary: i prev)
  case (Cons r rs)
  have "check_link C (r\<lparr>ar_chain := Some (make_chain C r prev)\<rparr>) prev [] None = Inr ()"
    using check_link_new [where gap = "[]" and C = C and r = r] by simp
  moreover have "seal C prev' rs = [] \<longleftrightarrow> rs = []" for prev' by (cases rs) auto
  ultimately show ?case using Cons by (simp add: Let_def codec_okD(1) [OF assms])
qed simp

lemma verify_written:
  assumes "codec_ok C" and "rs \<noteq> []"
  shows "verify C (written_log C rs) = (case ar_chain (last (seal C None rs)) of Some c \<Rightarrow> Inr c | None \<Rightarrow> Inl LogEmpty)"
  using scan_sealed [OF assms(1), of 0 None rs] assms(2)
  by (simp add: verify_def written_log_def file_audit_new_def rotated_anchor_def scan_records_def
      log_lines_bytes [OF assms(1)])

lemma seal_last: "rs \<noteq> [] \<Longrightarrow> \<exists>c. ar_chain (last (seal C prev rs)) = Some c"
proof (induction rs arbitrary: prev)
  case (Cons r rs)
  then show ?case by (cases rs) auto
qed simp

lemma append_line_log_scan:
  "log_scan C fa = Inl e \<Longrightarrow> append_line C r fa = Inl e"
  by (simp add: append_line_def log_scan_def Let_def)

lemma append_loses_chain:
  assumes "codec_ok C" and "\<not> keeps_chain C fa"
  shows "\<exists>fa' n. audit_append C r fa = Inr fa' \<and> verify C fa' = Inl (NotLinked n)
    \<and> audit_append C r' fa' = Inl (NotLinked n)"
proof -
  obtain p where fa: "rotates fa" "log_records C fa = []" "rotated_anchor C fa = Some p" using assms(2) by (auto simp: keeps_chain_def)
  obtain raw where raw: "fa_log fa = Some raw" using fa(1) rotates_log by blast
  obtain st where st: "log_scan C fa = Inr st" "sc_anchor st = Some p" using scan_unread [OF raw fa(2)] fa(3) by auto
  let ?c = "new_chain C r st True" and ?r = "r\<lparr>ar_chain := Some (new_chain C r st True)\<rparr>"
  let ?fa = "fa\<lparr>fa_log := Some (enc C ?r @ [LF]), fa_rotated := Some raw\<rparr>"
  have app: "audit_append C r fa = Inr ?fa"
    using append_line_scan [OF st(1), of r] fa(1) raw
    by (simp add: audit_append_def write_bytes_def rotate_log_def)
  have anchor: "rotated_anchor C ?fa = None"
    using unreadable_anchor [OF assms(1), of raw ?fa] fa(2) raw by (simp add: log_records_def)
  have "log_lines (enc C ?r @ [LF]) = [enc C ?r]"
    using log_lines_append [OF codec_okD(2,3) [OF assms(1)], of "[]" ?r] by (simp add: log_lines_def [of "[]"])
  moreover have "check_link C ?r None [] None = Inl (NotLinked (ch_sequence ?c))"
    using st(2) by (simp add: check_link_def new_chain_def make_chain_def Let_def)
  ultimately have "log_scan C ?fa = Inl (NotLinked (ch_sequence ?c))"
    using anchor by (simp add: log_scan_def scan_records_def codec_okD(1) [OF assms(1)] Let_def)
  then show ?thesis using app
    by (intro exI [of _ ?fa] exI [of _ "ch_sequence ?c"])
       (simp add: verify_log_scan append_line_log_scan audit_append_def)
qed

section \<open>A concrete codec\<close>

text \<open>Each number is shifted by 100, so that no byte is a blank; a list, and the whole record, starts
  with its length. The decoder accepts the encodings only.\<close>

definition put_nat :: "nat \<Rightarrow> bytes" where "put_nat n = [n + 100]"

fun get_nat :: "bytes \<Rightarrow> (nat \<times> bytes) option" where
  "get_nat [] = None"
| "get_nat (b # s) = Some (b - 100, s)"

definition put_str :: "rstr \<Rightarrow> bytes" where "put_str s = (length s + 100) # map (\<lambda>c. c + 100) s"

fun get_str :: "bytes \<Rightarrow> (rstr \<times> bytes) option" where
  "get_str [] = None"
| "get_str (b # s) = Some (map (\<lambda>c. c - 100) (take (b - 100) s), drop (b - 100) s)"

definition put_opt :: "('a \<Rightarrow> bytes) \<Rightarrow> 'a option \<Rightarrow> bytes" where
  "put_opt p x = (case x of None \<Rightarrow> [100] | Some y \<Rightarrow> 101 # p y)"

definition get_opt :: "(bytes \<Rightarrow> ('a \<times> bytes) option) \<Rightarrow> bytes \<Rightarrow> ('a option \<times> bytes) option" where
  "get_opt g s = (case s of [] \<Rightarrow> None
     | b # s' \<Rightarrow> if b = 100 then Some (None, s') else map_option (\<lambda>(y, t). (Some y, t)) (g s'))"

definition put_enum :: "'a list \<Rightarrow> 'a \<Rightarrow> bytes" where
  "put_enum xs x = [length (takeWhile (\<lambda>y. y \<noteq> x) xs) + 100]"

definition get_enum :: "'a list \<Rightarrow> bytes \<Rightarrow> ('a \<times> bytes) option" where
  "get_enum xs s = (case s of [] \<Rightarrow> None | b # s' \<Rightarrow> if b - 100 < length xs then Some (xs ! (b - 100), s') else None)"

lemma get_put [simp]:
  "get_nat (put_nat n @ s) = Some (n, s)" "get_str (put_str t @ s) = Some (t, s)"
  by (simp_all add: put_nat_def put_str_def comp_def)

lemma get_put_opt [simp]: "(\<And>y s. g (p y @ s) = Some (y, s)) \<Longrightarrow> get_opt g (put_opt p x @ s) = Some (x, s)"
  by (cases x) (simp_all add: put_opt_def get_opt_def)

lemma nth_length_takeWhile_neq: "x \<in> set xs \<Longrightarrow> length (takeWhile (\<lambda>y. y \<noteq> x) xs) < length xs
    \<and> xs ! length (takeWhile (\<lambda>y. y \<noteq> x) xs) = x"
  by (induction xs) auto

lemma get_put_enum [simp]: "x \<in> set xs \<Longrightarrow> get_enum xs (put_enum xs x @ s) = Some (x, s)"
  using nth_length_takeWhile_neq [of x xs] by (simp add: put_enum_def get_enum_def)

definition put_chain :: "audit_chain \<Rightarrow> bytes" where
  "put_chain c = put_nat (ch_sequence c) @ put_opt put_str (ch_prev c) @ put_str (ch_hash c) @ put_opt put_str (ch_torn c)"

definition get_chain :: "bytes \<Rightarrow> (audit_chain \<times> bytes) option" where
  "get_chain s =
     Option.bind (get_nat s) (\<lambda>(q, s). Option.bind (get_opt get_str s) (\<lambda>(p, s).
     Option.bind (get_str s) (\<lambda>(h, s). Option.bind (get_opt get_str s) (\<lambda>(t, s).
     Some (\<lparr>ch_sequence = q, ch_prev = p, ch_hash = h, ch_torn = t\<rparr>, s)))))"

lemma get_put_chain [simp]: "get_chain (put_chain c @ s) = Some (c, s)"
  by (simp add: get_chain_def put_chain_def)

definition id_kinds :: "identity_kind list" where "id_kinds = [LocalUser, Session, Token]"

definition op_kinds :: "op_kind list" where
  "op_kinds = [KListModules, KGetModule, KValidate, KPlan, KApply, KConfirmCommit, KRollbackCommit,
     KListBackups, KRestore, KServiceStatus, KServiceAction, KHostProfile, KAuditQuery, KUpdateStatus,
     KCertStatus, KCertRenew, KUpdateApply]"

definition audit_results :: "audit_result list" where "audit_results = [ROk, RDenied, RError, RStarted]"

lemma id_kinds_all [simp]: "k \<in> set id_kinds"
  by (cases k) (simp_all add: id_kinds_def)

lemma op_kinds_all [simp]: "k \<in> set op_kinds"
  by (cases k) (simp_all add: op_kinds_def)

lemma audit_results_all [simp]: "k \<in> set audit_results"
  by (cases k) (simp_all add: audit_results_def)

definition put_record :: "audit_record \<Rightarrow> bytes" where
  "put_record r =
     put_str (ar_ts r) @ put_str (ar_who r) @ put_enum id_kinds (ar_kind r) @ put_enum op_kinds (ar_op r)
     @ put_opt put_str (ar_module r) @ put_opt put_str (ar_prev_hash r) @ put_opt put_str (ar_new_hash r)
     @ put_opt put_str (ar_before_hash r) @ put_opt put_str (ar_after_hash r) @ put_opt put_nat (ar_commit_id r)
     @ put_enum audit_results (ar_result r) @ put_opt put_str (ar_error_id r) @ put_opt put_chain (ar_chain r)"

definition get_record :: "bytes \<Rightarrow> (audit_record \<times> bytes) option" where
  "get_record s =
     Option.bind (get_str s) (\<lambda>(ts, s). Option.bind (get_str s) (\<lambda>(who, s).
     Option.bind (get_enum id_kinds s) (\<lambda>(k, s). Option.bind (get_enum op_kinds s) (\<lambda>(o', s).
     Option.bind (get_opt get_str s) (\<lambda>(m, s). Option.bind (get_opt get_str s) (\<lambda>(ph, s).
     Option.bind (get_opt get_str s) (\<lambda>(nh, s). Option.bind (get_opt get_str s) (\<lambda>(bh, s).
     Option.bind (get_opt get_str s) (\<lambda>(ah, s). Option.bind (get_opt get_nat s) (\<lambda>(c, s).
     Option.bind (get_enum audit_results s) (\<lambda>(res, s). Option.bind (get_opt get_str s) (\<lambda>(e, s).
     Option.bind (get_opt get_chain s) (\<lambda>(ch, s).
       Some (\<lparr>ar_ts = ts, ar_who = who, ar_kind = k, ar_op = o', ar_module = m, ar_prev_hash = ph,
         ar_new_hash = nh, ar_before_hash = bh, ar_after_hash = ah, ar_commit_id = c, ar_result = res,
         ar_error_id = e, ar_chain = ch\<rparr>, s))))))))))))))"

lemma get_put_record: "get_record (put_record r @ s) = Some (r, s)"
  by (simp add: get_record_def put_record_def)

definition enc0 :: "audit_record \<Rightarrow> bytes" where
  "enc0 r = (length (put_record r) + 100) # put_record r"

definition dec0 :: "bytes \<Rightarrow> audit_record option" where
  "dec0 l = Option.bind (get_record (tl l)) (\<lambda>(r, _). if enc0 r = l then Some r else None)"

definition codec0 :: codec where
  "codec0 = \<lparr>enc = enc0, dec = dec0, sha = (\<lambda>b. b)\<rparr>"

lemma put_high:
  "list_all (\<lambda>b. 100 \<le> b) (put_nat n)" "list_all (\<lambda>b. 100 \<le> b) (put_str t)"
  "list_all (\<lambda>b. 100 \<le> b) (put_enum xs x)"
  "(\<And>y. list_all (\<lambda>b. 100 \<le> b) (p y)) \<Longrightarrow> list_all (\<lambda>b. 100 \<le> b) (put_opt p z)"
  by (auto simp: put_nat_def put_str_def put_enum_def put_opt_def list_all_iff split: option.splits)

lemma enc0_high: "list_all (\<lambda>b. 100 \<le> b) (enc0 r)"
  by (simp add: enc0_def put_record_def put_chain_def put_high)

lemma dec0_enc0: "dec0 (enc0 r) = Some r"
  using get_put_record [of r "[]"] by (simp add: dec0_def enc0_def)

lemma dec0_Some: "dec0 l = Some r \<Longrightarrow> l = enc0 r"
  by (auto simp: dec0_def bind_eq_Some_conv split: if_splits)

lemma dec0_prefix: "n < length (enc0 r) \<Longrightarrow> dec0 (take n (enc0 r)) = None"
proof (rule ccontr)
  assume n: "n < length (enc0 r)" and "dec0 (take n (enc0 r)) \<noteq> None"
  then obtain r' where "take n (enc0 r) = enc0 r'" using dec0_Some by blast
  then show False using n by (cases n) (auto simp: enc0_def dest: arg_cong [where f = length])
qed

lemma codec0_ok: "codec_ok codec0"
proof -
  have "LF \<notin> set (enc0 r)" "\<not> blank_line (enc0 r)" for r
    using enc0_high [of r] by (auto simp: list_all_iff enc0_def blank_line_def is_ascii_whitespace_def)
  moreover have "dec0 l = None" if "blank_line l" for l
    using that calculation(2) dec0_Some by (cases "dec0 l") auto
  ultimately show ?thesis by (auto simp: codec_ok_def codec0_def dec0_enc0 dec0_prefix)
qed

section \<open>Properties\<close>

text \<open>Reading a file backwards in chunks of 64 KiB gives its lines, the last first, whatever the chunk
  borders cut; only an empty first line is not returned.\<close>

theorem tail_lines_exact:
  "drain (tail_open raw) =
     (let parts = split_by (\<lambda>b. b = LF) raw in rev (if hd parts = [] then tl parts else parts))"
  by (simp add: drain_open lines_backwards_def)

definition newest_chain :: "codec \<Rightarrow> file_audit \<Rightarrow> audit_chain option" where
  "newest_chain C fa = (if log_records C fa = [] then rotated_anchor C fa else ar_chain (last (log_records C fa)))"

text \<open>C24. Whether an append keeps the chain, exactly. Take any state that appends, appends cut off at any byte, and rotations lead
  to, none of which lost the chain. The next append succeeds. If it does not rotate, or the log it rotates holds a record, or there is
  no earlier record at all, then verifying the log afterwards returns the chain entry of the record just appended: it carries the digest of
  the record's contents, the digest of the record before it (in this log or in the rotated one) and the next sequence number. In the one
  other case, the rotation of a log without a record over a rotated log with one, verifying the log afterwards fails.\<close>

theorem append_then_verify:
  assumes "codec_ok C" and "log_state C limit fa"
  shows "\<exists>fa'. audit_append C r fa = Inr fa' \<and>
    (if keeps_chain C fa then
       \<exists>c. verify C fa' = Inr c \<and> last (log_records C fa') = r\<lparr>ar_chain := Some c\<rparr> \<and> ch_hash c = sha C (enc C (r\<lparr>ar_chain := None\<rparr>))
         \<and> ch_prev c = map_option ch_hash (newest_chain C fa)
         \<and> ch_sequence c = (case newest_chain C fa of None \<Rightarrow> 1 | Some p \<Rightarrow> min u64_max (ch_sequence p + 1))
     else \<exists>n. verify C fa' = Inl (NotLinked n))"
proof (cases "keeps_chain C fa")
  case True
  obtain st where st: "log_scan C fa = Inr st" using log_state_scan assms(1,2) by blast
  obtain fa' where fa': "audit_append C r fa = Inr fa'" "fa_log fa' \<noteq> None"
    and s': "log_scan C fa' = Inr \<lparr>sc_anchor = Some (new_chain C r st (rotates fa)), sc_gap = []\<rparr>"
    "log_records C fa' = log_records C (target_log fa) @ [r\<lparr>ar_chain := Some (new_chain C r st (rotates fa))\<rparr>]"
    using audit_append_scan [OF assms(1) st True, of r] by blast
  have "verify C fa' = Inr (new_chain C r st (rotates fa))" using fa' s' by (auto simp: verify_scan)
  moreover have "sc_anchor st = newest_chain C fa" using log_scan_chained [OF st] by (simp add: newest_chain_def)
  ultimately show ?thesis using True fa' s'
    by (auto simp: new_chain_def make_chain_def Let_def sat_add_def split: option.splits)
next
  case False
  then show ?thesis using append_loses_chain [OF assms(1) False, of r r] by auto
qed

definition record0 :: audit_record where
  "record0 = audit_record_new (lit ''2026-01-01T00:00:00Z'') (identity_local (lit ''root'')) KApply
     (Some (lit ''hosts'')) ROk"

text \<open>A log with one record, then a rotation and an append cut off after nine bytes, then an append that closes the torn line.\<close>

definition one_log :: file_audit where
  "one_log = (case audit_append codec0 record0 (file_audit_new 20) of Inr fa \<Rightarrow> fa | Inl _ \<Rightarrow> file_audit_new 20)"

definition torn_log :: file_audit where
  "torn_log = (case append_line codec0 record0 one_log of
     Inr (rot, line) \<Rightarrow> write_bytes (take 9 line) (if rot then rotate_log one_log else one_log) | Inl _ \<Rightarrow> one_log)"

lemma torn_log_state: "log_state codec0 20 torn_log"
proof -
  have "keeps_chain codec0 (file_audit_new 20)" by (simp add: keeps_chain_def rotates_def file_audit_new_def)
  moreover have "case audit_append codec0 record0 (file_audit_new 20) of Inr _ \<Rightarrow> True | Inl _ \<Rightarrow> False" by code_simp
  then have "audit_append codec0 record0 (file_audit_new 20) = Inr one_log" by (simp add: one_log_def split: sum.splits)
  ultimately have one: "log_state codec0 20 one_log" by (rule log_state.appended [OF log_state.fresh])
  have "log_records codec0 one_log \<noteq> []" by code_simp
  then have k: "keeps_chain codec0 one_log" by (simp add: keeps_chain_def)
  show ?thesis using log_state.torn [OF one k, of record0 _ _ 9] one unfolding torn_log_def by (auto split: sum.splits)
qed

theorem append_then_verify_witness:
  "log_records codec0 torn_log = [] \<and> keeps_chain codec0 torn_log \<and> map_option ch_sequence (newest_chain codec0 torn_log) = Some 1
    \<and> (\<exists>fa' c. audit_append codec0 record0 torn_log = Inr fa' \<and> verify codec0 fa' = Inr c \<and> ch_sequence c = 2
         \<and> last (log_records codec0 fa') = record0\<lparr>ar_chain := Some c\<rparr>)"
proof -
  have "log_records codec0 torn_log = []" "\<not> rotates torn_log" "map_option ch_sequence (newest_chain codec0 torn_log) = Some 1"
    by code_simp+
  then show ?thesis using append_then_verify [OF codec0_ok torn_log_state, of record0] by (auto simp: keeps_chain_def u64_max_def)
qed

text \<open>In every state that appends, torn appends and rotations lead to, a query returns the newest
  records of the current log that match its filters, the newest first, as many as its limit allows.\<close>

theorem query_newest_matching:
  assumes "codec_ok C" and "log_state C limit fa"
  shows "audit_query_run C q fa =
    Inr (take (effective_limit q) (rev (filter (query_matches q) (log_records C fa))))"
  using log_state_scan [OF assms] audit_query_scan by (metis rev_filter)

theorem query_newest_matching_witness:
  "audit_query_run codec0 \<lparr>q_module = None, q_who = None, q_limit = Some 5\<rparr> (file_audit_new 7) =
    Inr (take (effective_limit \<lparr>q_module = None, q_who = None, q_limit = Some 5\<rparr>)
      (rev (filter (query_matches \<lparr>q_module = None, q_who = None, q_limit = Some 5\<rparr>)
        (log_records codec0 (file_audit_new 7)))))"
  by (rule query_newest_matching [OF codec0_ok log_state.fresh])

text \<open>A log is accepted only when its records are numbered without a gap from the end of the rotated
  log on, each names the digest of the record before it and carries the digest of its own contents; what
  \<^verbatim>\<open>verify\<close> returns is the chain entry of the newest record.\<close>

theorem verify_means_chained:
  assumes "verify C fa = Inr c"
  shows "chained C (rotated_anchor C fa) (log_records C fa)
    \<and> Some c = (if log_records C fa = [] then rotated_anchor C fa else ar_chain (last (log_records C fa)))"
  using assms log_scan_chained by (metis verify_scan)

theorem verify_means_chained_witness:
  "chained codec0 (rotated_anchor codec0 (written_log codec0 [record0])) (log_records codec0 (written_log codec0 [record0]))"
  using verify_means_chained [of codec0 "written_log codec0 [record0]" "make_chain codec0 record0 None"]
    verify_written [OF codec0_ok, of "[record0]"] by simp

text \<open>The digest of a record covers its contents and not its link. So the oldest record of a log can be
  replaced by any other when the link of the second is rewritten: every later record stays as it is, and
  \<^verbatim>\<open>verify\<close> returns the same sequence number and digest as before.\<close>

theorem forged_record_verifies:
  assumes "codec_ok C"
  shows "\<exists>head. verify C (written_log C (r # r2 # r3 # rs)) = Inr head
    \<and> verify C (written_log C (r' # r2 # r3 # rs)) = Inr head
    \<and> drop 2 (seal C None (r' # r2 # r3 # rs)) = drop 2 (seal C None (r # r2 # r3 # rs))"
proof -
  have d: "drop 2 (seal C None (r' # r2 # r3 # rs)) = drop 2 (seal C None (r # r2 # r3 # rs))"
    by (simp add: make_chain_def)
  then have "last (seal C None (r' # r2 # r3 # rs)) = last (seal C None (r # r2 # r3 # rs))"
    by (simp add: make_chain_def)
  moreover obtain head where "ar_chain (last (seal C None (r # r2 # r3 # rs))) = Some head"
    using seal_last [of "r # r2 # r3 # rs"] by blast
  ultimately show ?thesis using d verify_written [OF assms, of "_ # r2 # r3 # rs"] by auto
qed

theorem forged_record_verifies_witness:
  "\<exists>head. verify codec0 (written_log codec0 [record0, record0, record0]) = Inr head
    \<and> verify codec0 (written_log codec0 [record0\<lparr>ar_who := []\<rparr>, record0, record0]) = Inr head"
  using forged_record_verifies [OF codec0_ok, of record0 record0 record0 "[]" "record0\<lparr>ar_who := []\<rparr>"] by blast

text \<open>When the current log is to be rotated and holds torn lines but no record, the append replaces
  the rotated log that held the end of the chain. The append succeeds, and from then on \<^verbatim>\<open>verify\<close> and
  every further append refuse the log.\<close>

theorem empty_rotation_loses_chain:
  assumes "codec_ok C" and "rotates fa" and "log_records C fa = []" and "rotated_anchor C fa = Some p"
  shows "\<exists>fa' n. audit_append C r fa = Inr fa' \<and> verify C fa' = Inl (NotLinked n)
    \<and> audit_append C r' fa' = Inl (NotLinked n)"
  using append_loses_chain [OF assms(1), of fa r r'] assms by (auto simp: keeps_chain_def)

definition emptied_log :: file_audit where
  "emptied_log = \<lparr>fa_log = Some [65], fa_rotated = fa_log (written_log codec0 [record0]), fa_rotate_bytes = 0\<rparr>"

theorem empty_rotation_loses_chain_witness:
  "\<exists>fa' n. audit_append codec0 record0 emptied_log = Inr fa' \<and> verify codec0 fa' = Inl (NotLinked n)"
proof -
  have "rotated_anchor codec0 emptied_log = Some (make_chain codec0 record0 None)" by code_simp
  moreover have "log_records codec0 emptied_log = []" by code_simp
  moreover have "rotates emptied_log" by code_simp
  ultimately show ?thesis using empty_rotation_loses_chain [OF codec0_ok, of emptied_log] by blast
qed

end
