(* ===== verification/Tables.thy ===== *)
theory Tables
  imports Prelude
begin

text \<open>
  What the in-memory stores of the web layer share: \<^verbatim>\<open>std::collections::HashMap\<close>, the clock, and the
  shape of their invariants.

  A hash map is an association list with distinct keys. The order in which a map is iterated is not
  specified, so an operation that picks an entry by iterating takes the order as an argument \<open>ord\<close>, and the
  properties hold for every \<open>ord\<close> that lists the entries (\<open>iterates\<close>). An \<^verbatim>\<open>Instant\<close> and a \<^verbatim>\<open>Duration\<close>
  are nanoseconds.
\<close>

section \<open>Hash maps\<close>

type_synonym ('k, 'v) hash_map = "('k \<times> 'v) list"

definition hm_ok :: "('k, 'v) hash_map \<Rightarrow> bool" where
  "hm_ok m \<longleftrightarrow> distinct (map fst m)"

abbreviation hm_get :: "('k, 'v) hash_map \<Rightarrow> 'k \<Rightarrow> 'v option" where
  "hm_get \<equiv> map_of"

fun hm_put :: "'k \<Rightarrow> 'v \<Rightarrow> ('k, 'v) hash_map \<Rightarrow> ('k, 'v) hash_map" where
  "hm_put k v [] = [(k, v)]"
| "hm_put k v ((k', v') # m) = (if k' = k then (k, v) # m else (k', v') # hm_put k v m)"

definition hm_del :: "'k \<Rightarrow> ('k, 'v) hash_map \<Rightarrow> ('k, 'v) hash_map" where
  "hm_del k m = filter (\<lambda>e. fst e \<noteq> k) m"

definition hm_retain :: "('v \<Rightarrow> bool) \<Rightarrow> ('k, 'v) hash_map \<Rightarrow> ('k, 'v) hash_map" where
  "hm_retain p m = filter (\<lambda>e. p (snd e)) m"

text \<open>\<^verbatim>\<open>Iterator::min_by_key\<close>: the first of the elements with the least key.\<close>

fun min_by_key :: "('a \<Rightarrow> nat) \<Rightarrow> 'a list \<Rightarrow> 'a option" where
  "min_by_key f [] = None"
| "min_by_key f (x # xs) =
     (case min_by_key f xs of None \<Rightarrow> Some x | Some y \<Rightarrow> Some (if f x \<le> f y then x else y))"

type_synonym ('k, 'v) iter_order = "('k, 'v) hash_map \<Rightarrow> ('k \<times> 'v) list"

definition iterates :: "('k, 'v) iter_order \<Rightarrow> bool" where
  "iterates ord \<longleftrightarrow> (\<forall>m. set (ord m) = set m \<and> length (ord m) = length m)"

text \<open>Remove the entry with the least \<open>stamp\<close>.\<close>

definition evict_least :: "('k, 'v) iter_order \<Rightarrow> ('v \<Rightarrow> nat) \<Rightarrow> ('k, 'v) hash_map \<Rightarrow> ('k, 'v) hash_map" where
  "evict_least ord stamp m =
     (case min_by_key (\<lambda>e. stamp (snd e)) (ord m) of Some e \<Rightarrow> hm_del (fst e) m | None \<Rightarrow> m)"

lemma iterates_id: "iterates (\<lambda>m. m)"
  by (simp add: iterates_def)

lemma hm_get_put [simp]: "hm_get (hm_put k v m) = (hm_get m)(k \<mapsto> v)"
  by (induction k v m rule: hm_put.induct) auto

lemma hm_keys_put [simp]: "fst ` set (hm_put k v m) = insert k (fst ` set m)"
  by (induction k v m rule: hm_put.induct) auto

lemma hm_ok_Nil [simp]: "hm_ok []"
  by (simp add: hm_ok_def)

lemma hm_ok_put [simp]: "hm_ok m \<Longrightarrow> hm_ok (hm_put k v m)"
proof (induction k v m rule: hm_put.induct)
  case (2 k v k' v' m)
  then show ?case using hm_keys_put [of k v m] by (auto simp: hm_ok_def simp del: hm_keys_put)
qed (simp add: hm_ok_def)

lemma hm_put_length: "length (hm_put k v m) = (if k \<in> fst ` set m then length m else Suc (length m))"
  by (induction k v m rule: hm_put.induct) auto

lemma hm_get_del [simp]: "hm_get (hm_del k m) = (hm_get m)(k := None)"
  by (induction m) (auto simp: hm_del_def)

lemma hm_ok_filter: "hm_ok m \<Longrightarrow> hm_ok (filter p m)"
  by (simp add: hm_ok_def distinct_map_filter)

lemma hm_ok_del [simp]: "hm_ok m \<Longrightarrow> hm_ok (hm_del k m)"
  by (simp add: hm_del_def hm_ok_filter)

lemma hm_ok_retain [simp]: "hm_ok m \<Longrightarrow> hm_ok (hm_retain p m)"
  by (simp add: hm_retain_def hm_ok_filter)

lemma hm_get_retain [simp]:
  "hm_ok m \<Longrightarrow> hm_get (hm_retain p m) k = (case hm_get m k of Some v \<Rightarrow> if p v then Some v else None | None \<Rightarrow> None)"
proof (induction m)
  case (Cons e m)
  have "map_of (filter (\<lambda>e. p (snd e)) m) (fst e) = None" if "hm_ok (e # m)"
    using that by (force simp: hm_ok_def map_of_eq_None_iff)
  with Cons show ?case by (cases e) (auto simp: hm_retain_def hm_ok_def)
qed (simp add: hm_retain_def)

lemma hm_length_retain: "length (hm_retain p m) \<le> length m"
  by (simp add: hm_retain_def)

lemma hm_length_del: "length (hm_del k m) \<le> length m"
  by (simp add: hm_del_def)

lemma hm_length_del_in: "k \<in> fst ` set m \<Longrightarrow> length (hm_del k m) < length m"
  by (auto simp: hm_del_def intro!: length_filter_less)

lemma hm_get_in: "hm_get m k = Some v \<Longrightarrow> (k, v) \<in> set m"
  by (rule map_of_SomeD)

lemma hm_in_get: "hm_ok m \<Longrightarrow> (k, v) \<in> set m \<Longrightarrow> hm_get m k = Some v"
  by (simp add: hm_ok_def)

lemma hm_get_None: "hm_get m k = None \<longleftrightarrow> k \<notin> fst ` set m"
  by (rule map_of_eq_None_iff)

lemma hm_put_set: "set (hm_put k v m) \<subseteq> insert (k, v) (set m)"
  by (induction k v m rule: hm_put.induct) auto

lemma hm_retain_set: "set (hm_retain p m) \<subseteq> set m"
  by (auto simp: hm_retain_def)

lemma hm_del_set: "set (hm_del k m) \<subseteq> set m"
  by (auto simp: hm_del_def)

lemma min_by_key_Some: "xs \<noteq> [] \<Longrightarrow> \<exists>x. min_by_key f xs = Some x \<and> x \<in> set xs \<and> (\<forall>y\<in>set xs. f x \<le> f y)"
proof (induction xs)
  case (Cons x xs)
  then show ?case by (cases "xs = []") (auto split: option.splits)
qed simp

lemma iterates_min:
  assumes "iterates ord" and "m \<noteq> []"
  obtains k v where "min_by_key f (ord m) = Some (k, v)" and "(k, v) \<in> set m" and "\<And>e. e \<in> set m \<Longrightarrow> f (k, v) \<le> f e"
proof -
  have "ord m \<noteq> []" "set (ord m) = set m" using assms by (auto simp: iterates_def) (metis length_0_conv)
  then show ?thesis using min_by_key_Some [of "ord m" f] that by auto
qed

lemma evict_least_ok: "hm_ok m \<Longrightarrow> hm_ok (evict_least ord stamp m)"
  by (simp add: evict_least_def split: option.splits)

lemma evict_least_set: "set (evict_least ord stamp m) \<subseteq> set m"
  using hm_del_set by (force simp: evict_least_def split: option.splits)

lemma evict_least_length:
  assumes "iterates ord" and "m \<noteq> []"
  shows "length (evict_least ord stamp m) < length m"
proof -
  obtain k v where "min_by_key (\<lambda>e. stamp (snd e)) (ord m) = Some (k, v)" "(k, v) \<in> set m"
    using iterates_min [OF assms, of "\<lambda>e. stamp (snd e)"] by blast
  then show ?thesis using hm_length_del_in [of k m] by (force simp: evict_least_def)
qed

text \<open>Only an entry whose stamp is least can go.\<close>

lemma evict_least_keeps:
  assumes "iterates ord" and "hm_ok m" and "hm_get m k = Some v" and "hm_get m k' = Some v'" and "stamp v' < stamp v"
  shows "hm_get (evict_least ord stamp m) k = Some v"
proof -
  have "m \<noteq> []" using assms(3) by auto
  then obtain a w where m: "min_by_key (\<lambda>e. stamp (snd e)) (ord m) = Some (a, w)" "(a, w) \<in> set m"
    and least: "\<And>e. e \<in> set m \<Longrightarrow> stamp w \<le> stamp (snd e)"
    using iterates_min [OF assms(1), of m "\<lambda>e. stamp (snd e)"] by (metis snd_conv)
  have "a \<noteq> k"
  proof
    assume "a = k"
    then have "w = v" using hm_in_get [OF assms(2) m(2)] assms(3) by simp
    then show False using least [OF hm_get_in [OF assms(4)]] assms(5) by simp
  qed
  then show ?thesis using m assms(3) by (simp add: evict_least_def)
qed

section \<open>The clock\<close>

definition SEC :: nat where "SEC = 1000000000"

text \<open>The largest \<^verbatim>\<open>Instant\<close>: 64 signed bits of seconds.\<close>

definition instant_max :: nat where "instant_max = (2 ^ 63 - 1) * SEC + (SEC - 1)"

definition instant_add :: "nat \<Rightarrow> nat \<Rightarrow> nat option" where
  "instant_add t d = checked_add instant_max t d"

text \<open>Whole seconds of a duration, rounded up.\<close>

definition secs_up :: "nat \<Rightarrow> nat" where
  "secs_up d = (let whole = d div SEC in if 0 < d mod SEC then sat_add u64_max whole 1 else whole)"

lemma SEC_pos [simp]: "0 < SEC"
  by (simp add: SEC_def)

lemma secs_up_ge:
  assumes "d div SEC < u64_max"
  shows "d \<le> secs_up d * SEC" and "0 < d \<Longrightarrow> 0 < secs_up d"
proof -
  have *: "d div SEC * SEC + d mod SEC = d" by (rule div_mult_mod_eq)
  have "d mod SEC < SEC" by simp
  then have "d \<le> (if 0 < d mod SEC then Suc (d div SEC) else d div SEC) * SEC" using * by (cases "0 < d mod SEC"; simp; linarith)
  then show "d \<le> secs_up d * SEC" using assms by (auto simp: secs_up_def Let_def sat_add_def)
  then show "0 < d \<Longrightarrow> 0 < secs_up d" by (cases "secs_up d") auto
qed

lemma secs_up_exact [simp]: "n \<le> u64_max \<Longrightarrow> secs_up (n * SEC) = n"
  by (simp add: secs_up_def)

section \<open>Stores as state machines\<close>

text \<open>A store starts in some states and moves by its operations; an invariant that holds at the start and
  that every operation keeps holds in every state it can be in.\<close>

locale machine =
  fixes start :: "'s \<Rightarrow> bool" and step :: "'s \<Rightarrow> 's \<Rightarrow> bool" and inv :: "'s \<Rightarrow> bool"
  assumes start_inv: "start s \<Longrightarrow> inv s"
    and step_inv: "step s t \<Longrightarrow> inv s \<Longrightarrow> inv t"
begin

lemma reachable_inv: "step\<^sup>*\<^sup>* s t \<Longrightarrow> start s \<Longrightarrow> inv t"
  by (induction rule: rtranclp_induct) (auto intro: start_inv step_inv)

end

section \<open>Tables with one entry per key\<close>

text \<open>A store whose operation touches the entry of one key only, as long as the table has room, answers each
  key as if it had a store of its own. Each event carries the iteration order the table happens to have.\<close>

fun table_run :: "(('k, 'v) iter_order \<Rightarrow> 'k \<Rightarrow> 'i \<Rightarrow> ('k, 'v) hash_map \<Rightarrow> 'o \<times> ('k, 'v) hash_map)
    \<Rightarrow> (('k, 'v) iter_order \<times> 'k \<times> 'i) list \<Rightarrow> ('k, 'v) hash_map \<Rightarrow> ('k \<times> 'o) list \<times> ('k, 'v) hash_map" where
  "table_run op [] m = ([], m)"
| "table_run op ((ord, k, i) # es) m =
     (let (ans, m1) = op ord k i m; (rest, m2) = table_run op es m1 in ((k, ans) # rest, m2))"

fun entry_run :: "('i \<Rightarrow> 'v option \<Rightarrow> 'o \<times> 'v) \<Rightarrow> 'i list \<Rightarrow> 'v option \<Rightarrow> 'o list \<times> 'v option" where
  "entry_run one [] v = ([], v)"
| "entry_run one (i # is) v =
     (let (ans, v1) = one i v; (rest, v2) = entry_run one is (Some v1) in (ans # rest, v2))"

definition events_of :: "'k \<Rightarrow> ('q \<times> 'k \<times> 'i) list \<Rightarrow> 'i list" where
  "events_of k es = map (\<lambda>e. snd (snd e)) (filter (\<lambda>e. fst (snd e) = k) es)"

definition answers_of :: "'k \<Rightarrow> ('k \<times> 'o) list \<Rightarrow> 'o list" where
  "answers_of k as = map snd (filter (\<lambda>a. fst a = k) as)"

definition event_keys :: "('q \<times> 'k \<times> 'i) list \<Rightarrow> 'k set" where
  "event_keys es = (\<lambda>e. fst (snd e)) ` set es"

lemma event_keys_simps [simp]:
  "event_keys [] = {}" "event_keys ((ord, k, i) # es) = insert k (event_keys es)"
  by (auto simp: event_keys_def)

lemma events_of_simps [simp]:
  "events_of k [] = []" "events_of k ((ord, k', i) # es) = (if k' = k then [i] else []) @ events_of k es"
  by (auto simp: events_of_def)

lemma answers_of_simps [simp]:
  "answers_of k [] = []" "answers_of k ((k', x) # as) = (if k' = k then [x] else []) @ answers_of k as"
  by (auto simp: answers_of_def)

lemma hm_length_keys: "hm_ok m \<Longrightarrow> length m = card (fst ` set m)"
  by (metis distinct_card hm_ok_def length_map list.set_map)

locale keyed_table =
  fixes cap :: nat
    and op :: "('k, 'v) iter_order \<Rightarrow> 'k \<Rightarrow> 'i \<Rightarrow> ('k, 'v) hash_map \<Rightarrow> 'o \<times> ('k, 'v) hash_map"
    and one :: "'i \<Rightarrow> 'v option \<Rightarrow> 'o \<times> 'v"
  assumes op_room: "length m < cap \<Longrightarrow> op ord k i m = (let (ans, v) = one i (hm_get m k) in (ans, hm_put k v m))"
begin

lemma run_per_key:
  assumes "hm_ok m" and "finite ks" and "fst ` set m \<subseteq> ks" and "event_keys es \<subseteq> ks" and "card ks < cap"
  shows "answers_of k (fst (table_run op es m)) = fst (entry_run one (events_of k es) (hm_get m k))
    \<and> hm_get (snd (table_run op es m)) k = snd (entry_run one (events_of k es) (hm_get m k))"
  using assms(1,3,4)
proof (induction es arbitrary: m)
  case (Cons e es)
  obtain ord k' i where e: "e = (ord, k', i)" by (cases e) auto
  have "length m \<le> card ks" using Cons.prems(1,2) assms(2) by (simp add: hm_length_keys card_mono)
  then have op: "op ord k' i m = (fst (one i (hm_get m k')), hm_put k' (snd (one i (hm_get m k'))) m)"
    using op_room [of m] assms(5) by (simp add: case_prod_unfold Let_def)
  have "fst ` set (hm_put k' (snd (one i (hm_get m k'))) m) \<subseteq> ks" using Cons.prems(2,3) e by auto
  with Cons.IH [of "hm_put k' (snd (one i (hm_get m k'))) m"] Cons.prems
  show ?case by (auto simp: e op case_prod_unfold Let_def)
qed simp

end

end
