(* ===== verification/Auth_Error.thy ===== *)
theory Auth_Error
  imports Prelude
begin

text \<open>
  \<^verbatim>\<open>AuthError\<close> of \<^verbatim>\<open>crates/detent-web/src/auth/mod.rs\<close>: every way an authentication step fails, the
  message and the HTTP status each answers with. The errors of other crates that some variants carry are
  not kept.
\<close>

datatype auth_error =
    Entropy | Params | Hash | NameInvalid rstr | PasswordTooShort | PasswordTooLong | PasswordUnchanged
  | PasswordChangeRequired | StepUpRequired | UserExists | UnknownUser | InvalidCredentials | TotpReplayed
  | RateLimited nat | SessionLimit | Busy | Unauthenticated | AmbiguousCredentials | CsrfRejected
  | UnknownToken | UnknownSession | TokenLimit | TokenLabelInvalid | TokenExpiryInvalid | TokenTotpRequired
  | TotpSecretInvalid | TotpEnrolled | TotpNotEnrolled | TotpNoPending | TotpRequired
  | StoreRead | StorePrepare | StoreWrite | StoreMalformed

fun auth_message_id :: "auth_error \<Rightarrow> rstr" where
  "auth_message_id Entropy = lit ''web-auth-entropy-unavailable''"
| "auth_message_id Params = lit ''web-auth-argon2-params''"
| "auth_message_id Hash = lit ''web-auth-hash-failed''"
| "auth_message_id (NameInvalid _) = lit ''web-auth-user-name-invalid''"
| "auth_message_id PasswordTooShort = lit ''web-auth-password-too-short''"
| "auth_message_id PasswordTooLong = lit ''web-auth-password-too-long''"
| "auth_message_id PasswordUnchanged = lit ''web-auth-password-unchanged''"
| "auth_message_id PasswordChangeRequired = lit ''web-auth-password-change-required''"
| "auth_message_id StepUpRequired = lit ''web-auth-step-up-required''"
| "auth_message_id UserExists = lit ''web-auth-user-exists''"
| "auth_message_id UnknownUser = lit ''web-auth-user-unknown''"
| "auth_message_id InvalidCredentials = lit ''web-auth-invalid-credentials''"
| "auth_message_id TotpReplayed = lit ''web-auth-invalid-credentials''"
| "auth_message_id (RateLimited _) = lit ''web-auth-rate-limited''"
| "auth_message_id SessionLimit = lit ''web-auth-session-limit''"
| "auth_message_id Busy = lit ''web-auth-busy''"
| "auth_message_id Unauthenticated = lit ''web-auth-unauthenticated''"
| "auth_message_id AmbiguousCredentials = lit ''web-auth-ambiguous-credentials''"
| "auth_message_id CsrfRejected = lit ''web-auth-csrf-rejected''"
| "auth_message_id UnknownToken = lit ''web-auth-token-unknown''"
| "auth_message_id UnknownSession = lit ''web-auth-session-unknown''"
| "auth_message_id TokenLimit = lit ''web-auth-token-limit''"
| "auth_message_id TokenLabelInvalid = lit ''web-auth-token-label-invalid''"
| "auth_message_id TokenExpiryInvalid = lit ''web-auth-token-expiry-invalid''"
| "auth_message_id TokenTotpRequired = lit ''web-auth-token-totp-required''"
| "auth_message_id TotpSecretInvalid = lit ''web-auth-totp-secret-invalid''"
| "auth_message_id TotpEnrolled = lit ''web-auth-totp-enrolled''"
| "auth_message_id TotpNotEnrolled = lit ''web-auth-totp-not-enrolled''"
| "auth_message_id TotpNoPending = lit ''web-auth-totp-no-pending''"
| "auth_message_id TotpRequired = lit ''web-auth-totp-required''"
| "auth_message_id StoreRead = lit ''web-auth-store-unreadable''"
| "auth_message_id StorePrepare = lit ''web-auth-store-unwritable''"
| "auth_message_id StoreWrite = lit ''web-auth-store-write-failed''"
| "auth_message_id StoreMalformed = lit ''web-auth-store-malformed''"

definition auth_status :: "auth_error \<Rightarrow> nat" where
  "auth_status e = (case e of
      InvalidCredentials \<Rightarrow> 401 | TotpReplayed \<Rightarrow> 401 | Unauthenticated \<Rightarrow> 401
    | RateLimited _ \<Rightarrow> 429
    | SessionLimit \<Rightarrow> 503 | Busy \<Rightarrow> 503
    | CsrfRejected \<Rightarrow> 403 | PasswordChangeRequired \<Rightarrow> 403 | StepUpRequired \<Rightarrow> 403 | TokenTotpRequired \<Rightarrow> 403
    | UserExists \<Rightarrow> 409 | TokenLimit \<Rightarrow> 409 | TotpEnrolled \<Rightarrow> 409 | TotpNotEnrolled \<Rightarrow> 409
    | TotpNoPending \<Rightarrow> 409 | TotpRequired \<Rightarrow> 409
    | UnknownUser \<Rightarrow> 404 | UnknownToken \<Rightarrow> 404 | UnknownSession \<Rightarrow> 404
    | NameInvalid _ \<Rightarrow> 400 | PasswordTooShort \<Rightarrow> 400 | PasswordTooLong \<Rightarrow> 400 | PasswordUnchanged \<Rightarrow> 400
    | AmbiguousCredentials \<Rightarrow> 400 | TokenLabelInvalid \<Rightarrow> 400 | TokenExpiryInvalid \<Rightarrow> 400
    | TotpSecretInvalid \<Rightarrow> 400 | StoreMalformed \<Rightarrow> 400
    | Entropy \<Rightarrow> 500 | Params \<Rightarrow> 500 | Hash \<Rightarrow> 500 | StoreRead \<Rightarrow> 500 | StorePrepare \<Rightarrow> 500 | StoreWrite \<Rightarrow> 500)"

text \<open>The doc comment of \<^verbatim>\<open>status\<close> says that the store failures answer 500; a malformed store answers 400.\<close>

lemma malformed_store_is_client_error: "auth_status StoreMalformed = 400" "auth_status StoreRead = 500"
  by (simp_all add: auth_status_def)

end
