(* ===== verification/Rate_Limit.thy ===== *)
theory Rate_Limit
  imports Tables Net_Addr Auth_Error
begin

text \<open>
  \<^verbatim>\<open>crates/detent-web/src/auth/ratelimit.rs\<close>: the login limiter. One bucket per source address and one per
  submitted user name count failures; the count past \<^verbatim>\<open>max_failures\<close> sets a lockout that doubles. A poisoned
  lock is not modelled. The limiter is a record of two bounded tables, and its operations are functions on it.
\<close>

section \<open>The code\<close>

fun normalize_ip :: "ip_addr \<Rightarrow> ip_addr" where
  "normalize_ip (V4 os) = V4 os"
| "normalize_ip (V6 gs) = V6 (take 4 gs @ map (\<lambda>_. 0) (drop 4 gs))"

definition MAX_TRACKED :: nat where "MAX_TRACKED = 4096"
definition BASE_BACKOFF :: nat where "BASE_BACKOFF = 2 * SEC"
definition MAX_BACKOFF :: nat where "MAX_BACKOFF = 15 * 60 * SEC"
definition BUCKET_TTL :: nat where "BUCKET_TTL = 60 * 60 * SEC"

datatype principal = Ip ip_addr | User rstr

record bucket =
  bk_failures :: nat
  bk_blocked_until :: "nat option"
  bk_last_seen :: nat

record 'k buckets =
  bs_map :: "('k, bucket) hash_map"
  bs_cap :: nat

definition buckets_new :: "nat \<Rightarrow> 'k buckets" where
  "buckets_new cap = \<lparr>bs_map = [], bs_cap = cap\<rparr>"

definition retry_after :: "'k buckets \<Rightarrow> 'k \<Rightarrow> nat \<Rightarrow> nat option" where
  "retry_after bs key now =
     (case hm_get (bs_map bs) key of
        None \<Rightarrow> None
      | Some b \<Rightarrow>
          (case bk_blocked_until b of
             None \<Rightarrow> None
           | Some deadline \<Rightarrow>
               (let remaining = deadline - now
                in if remaining = 0 then None else Some (secs_up remaining))))"

definition backoff_for :: "nat \<Rightarrow> nat" where
  "backoff_for over =
     (let doublings = over - 1
      in case checked_pow u32_max 2 doublings of
           None \<Rightarrow> MAX_BACKOFF
         | Some factor \<Rightarrow>
             (case checked_mul (u64_max * SEC + (SEC - 1)) BASE_BACKOFF factor of
                None \<Rightarrow> MAX_BACKOFF
              | Some backoff \<Rightarrow> min backoff MAX_BACKOFF))"

definition buckets_sweep :: "nat \<Rightarrow> 'k buckets \<Rightarrow> 'k buckets" where
  "buckets_sweep now bs = bs\<lparr>bs_map := hm_retain (\<lambda>b. now - bk_last_seen b < BUCKET_TTL) (bs_map bs)\<rparr>"

definition make_room :: "('k, bucket) iter_order \<Rightarrow> nat \<Rightarrow> 'k buckets \<Rightarrow> 'k buckets" where
  "make_room ord now bs =
     (if length (bs_map bs) < bs_cap bs then bs
      else let bs = buckets_sweep now bs
           in if length (bs_map bs) < bs_cap bs then bs
              else bs\<lparr>bs_map := evict_least ord bk_last_seen (bs_map bs)\<rparr>)"

definition fail :: "('k, bucket) iter_order \<Rightarrow> 'k \<Rightarrow> nat \<Rightarrow> nat \<Rightarrow> 'k buckets \<Rightarrow> bool \<times> 'k buckets" where
  "fail ord key max_failures now bs =
     (let bs = make_room ord now bs;
          b = (case hm_get (bs_map bs) key of
                 Some b \<Rightarrow> b
               | None \<Rightarrow> \<lparr>bk_failures = 0, bk_blocked_until = None, bk_last_seen = now\<rparr>);
          b = b\<lparr>bk_failures := sat_add u32_max (bk_failures b) 1, bk_last_seen := now\<rparr>;
          over = sat_add u32_max (bk_failures b) 1 - max_failures
      in if over = 0 then (False, bs\<lparr>bs_map := hm_put key b (bs_map bs)\<rparr>)
         else (True, bs\<lparr>bs_map := hm_put key (b\<lparr>bk_blocked_until := instant_add now (backoff_for over)\<rparr>) (bs_map bs)\<rparr>))"

definition clear :: "'k \<Rightarrow> 'k buckets \<Rightarrow> 'k buckets" where
  "clear key bs = bs\<lparr>bs_map := hm_del key (bs_map bs)\<rparr>"

record rate_limiter =
  rl_ips :: "ip_addr buckets"
  rl_users :: "rstr buckets"
  rl_max_failures :: nat

definition limiter_new :: "nat \<Rightarrow> rate_limiter" where
  "limiter_new max_failures =
     \<lparr>rl_ips = buckets_new MAX_TRACKED, rl_users = buckets_new MAX_TRACKED, rl_max_failures = max max_failures 1\<rparr>"

text \<open>\<^verbatim>\<open>Option::max\<close>: \<open>None\<close> is the least.\<close>

definition option_max :: "nat option \<Rightarrow> nat option \<Rightarrow> nat option" where
  "option_max a b = (case (a, b) of (None, y) \<Rightarrow> y | (x, None) \<Rightarrow> x | (Some x, Some y) \<Rightarrow> Some (max x y))"

definition limiter_check :: "rate_limiter \<Rightarrow> ip_addr \<Rightarrow> rstr \<Rightarrow> nat \<Rightarrow> (auth_error, unit) result" where
  "limiter_check rl ip user now =
     (let ip = normalize_ip ip
      in case option_max (retry_after (rl_ips rl) ip now) (retry_after (rl_users rl) user now) of
           Some secs \<Rightarrow> Inl (RateLimited secs)
         | None \<Rightarrow> Inr ())"

definition record_failure ::
  "(ip_addr, bucket) iter_order \<Rightarrow> (rstr, bucket) iter_order \<Rightarrow> ip_addr \<Rightarrow> rstr \<Rightarrow> nat \<Rightarrow> rate_limiter
     \<Rightarrow> principal list \<times> rate_limiter" where
  "record_failure ord_ip ord_user ip user now rl =
     (let ip = normalize_ip ip;
          (ip_locked, ips) = fail ord_ip ip (rl_max_failures rl) now (rl_ips rl);
          (user_locked, users) = fail ord_user user (rl_max_failures rl) now (rl_users rl)
      in ((if ip_locked then [Ip ip] else []) @ (if user_locked then [User user] else []),
          rl\<lparr>rl_ips := ips, rl_users := users\<rparr>))"

definition record_success :: "ip_addr \<Rightarrow> rstr \<Rightarrow> rate_limiter \<Rightarrow> rate_limiter" where
  "record_success ip user rl =
     rl\<lparr>rl_ips := clear (normalize_ip ip) (rl_ips rl), rl_users := clear user (rl_users rl)\<rparr>"

definition limiter_sweep :: "nat \<Rightarrow> rate_limiter \<Rightarrow> rate_limiter" where
  "limiter_sweep now rl = rl\<lparr>rl_ips := buckets_sweep now (rl_ips rl), rl_users := buckets_sweep now (rl_users rl)\<rparr>"

definition limiter_tracked :: "rate_limiter \<Rightarrow> nat \<times> nat" where
  "limiter_tracked rl = (length (bs_map (rl_ips rl)), length (bs_map (rl_users rl)))"

section \<open>One table\<close>

lemma backoff_for_le: "backoff_for over \<le> MAX_BACKOFF"
  by (simp add: backoff_for_def Let_def split: option.splits)

lemma backoff_for_exact: "1 \<le> over \<Longrightarrow> backoff_for over = min (2 ^ over) 900 * SEC"
proof -
  assume "1 \<le> over"
  then obtain n where n: "over = Suc n" by (cases over) auto
  show ?thesis
  proof (cases "n \<le> 9")
    case True
    then have "(2::nat) ^ n \<le> 2 ^ 9" by (intro power_increasing) auto
    then show ?thesis using n
      by (auto simp: backoff_for_def checked_pow_def checked_mul_def u32_max_def u64_max_def BASE_BACKOFF_def
          MAX_BACKOFF_def SEC_def)
  next
    case False
    then have "(2::nat) ^ 10 \<le> 2 ^ n" by (intro power_increasing) auto
    then show ?thesis using n
      by (auto simp: backoff_for_def checked_pow_def checked_mul_def u32_max_def u64_max_def BASE_BACKOFF_def
          MAX_BACKOFF_def SEC_def)
  qed
qed

text \<open>The table is a map within its bound; a locked bucket has counted \<open>mf\<close> failures, and its lockout ends
  at most \<open>MAX_BACKOFF\<close> after it was last touched.\<close>

definition bucket_ok :: "nat \<Rightarrow> bucket \<Rightarrow> bool" where
  "bucket_ok mf b \<longleftrightarrow> (case bk_blocked_until b of
      None \<Rightarrow> True
    | Some d \<Rightarrow> d \<le> bk_last_seen b + MAX_BACKOFF \<and> mf < sat_add u32_max (bk_failures b) 1)"

definition buckets_ok :: "nat \<Rightarrow> 'k buckets \<Rightarrow> bool" where
  "buckets_ok mf bs \<longleftrightarrow> hm_ok (bs_map bs) \<and> 0 < bs_cap bs \<and> length (bs_map bs) \<le> bs_cap bs
     \<and> (\<forall>e\<in>set (bs_map bs). bucket_ok mf (snd e))"

lemma buckets_new_ok: "0 < cap \<Longrightarrow> buckets_ok mf (buckets_new cap)"
  by (simp add: buckets_ok_def buckets_new_def)

lemma buckets_ok_shrink:
  assumes "buckets_ok mf bs" and "hm_ok m" and "set m \<subseteq> set (bs_map bs)" and "length m \<le> length (bs_map bs)"
  shows "buckets_ok mf (bs\<lparr>bs_map := m\<rparr>)"
  using assms by (auto simp: buckets_ok_def)

lemma buckets_sweep_ok: "buckets_ok mf bs \<Longrightarrow> buckets_ok mf (buckets_sweep now bs)"
  unfolding buckets_sweep_def
  by (rule buckets_ok_shrink) (auto simp: buckets_ok_def hm_length_retain intro: subsetD [OF hm_retain_set])

lemma clear_ok: "buckets_ok mf bs \<Longrightarrow> buckets_ok mf (clear key bs)"
  unfolding clear_def
  by (rule buckets_ok_shrink) (auto simp: buckets_ok_def hm_length_del intro: subsetD [OF hm_del_set])

lemma make_room_ok:
  assumes "iterates ord" and "buckets_ok mf bs"
  shows "buckets_ok mf (make_room ord now bs)" and "length (bs_map (make_room ord now bs)) < bs_cap bs"
    and "bs_cap (make_room ord now bs) = bs_cap bs"
proof -
  let ?sw = "buckets_sweep now bs"
  have sw: "buckets_ok mf ?sw" "bs_cap ?sw = bs_cap bs"
    using assms(2) buckets_sweep_ok by (auto simp: buckets_sweep_def)
  have less: "length (evict_least ord bk_last_seen (bs_map ?sw)) < length (bs_map ?sw)"
    if "\<not> length (bs_map ?sw) < bs_cap bs"
    using evict_least_length [OF assms(1), of "bs_map ?sw"] that assms(2) by (cases "bs_map ?sw") (auto simp: buckets_ok_def)
  have "buckets_ok mf (?sw\<lparr>bs_map := evict_least ord bk_last_seen (bs_map ?sw)\<rparr>)" if "\<not> length (bs_map ?sw) < bs_cap bs"
    using less [OF that] sw(1) evict_least_set
    by (intro buckets_ok_shrink) (auto simp: buckets_ok_def evict_least_ok intro: subsetD [OF evict_least_set])
  then show "buckets_ok mf (make_room ord now bs)" using assms(2) sw by (simp add: make_room_def Let_def)
  have "length (bs_map ?sw) \<le> bs_cap bs" using sw by (simp add: buckets_ok_def)
  then show "length (bs_map (make_room ord now bs)) < bs_cap bs"
    using less sw(2) by (auto simp: make_room_def Let_def)
  show "bs_cap (make_room ord now bs) = bs_cap bs" using sw(2) by (simp add: make_room_def Let_def)
qed

text \<open>The bucket a failure leaves.\<close>

definition failed_bucket :: "nat \<Rightarrow> nat \<Rightarrow> bucket option \<Rightarrow> bucket" where
  "failed_bucket mf now old =
     (let f = sat_add u32_max (case old of Some b \<Rightarrow> bk_failures b | None \<Rightarrow> 0) 1; over = sat_add u32_max f 1 - mf
      in \<lparr>bk_failures = f,
          bk_blocked_until = (if over = 0 then (case old of Some b \<Rightarrow> bk_blocked_until b | None \<Rightarrow> None)
             else instant_add now (backoff_for over)),
          bk_last_seen = now\<rparr>)"

lemma fail_eq:
  "fail ord key mf now bs =
     (let r = make_room ord now bs; b = failed_bucket mf now (hm_get (bs_map r) key)
      in (mf < sat_add u32_max (bk_failures b) 1, r\<lparr>bs_map := hm_put key b (bs_map r)\<rparr>))"
proof (cases "hm_get (bs_map (make_room ord now bs)) key")
  case None
  then show ?thesis by (simp add: fail_def failed_bucket_def Let_def)
next
  case (Some b)
  then show ?thesis by (cases b) (simp add: fail_def failed_bucket_def Let_def)
qed

lemma failed_bucket_ok: "(\<And>b. old = Some b \<Longrightarrow> bucket_ok mf b) \<Longrightarrow> bucket_ok mf (failed_bucket mf now old)"
  using backoff_for_le
  by (cases old) (auto simp: failed_bucket_def Let_def bucket_ok_def instant_add_def checked_add_def sat_add_def
      split: option.splits)

lemma fail_ok:
  assumes "iterates ord" and "buckets_ok mf bs"
  shows "buckets_ok mf (snd (fail ord key mf now bs)) \<and> bs_cap (snd (fail ord key mf now bs)) = bs_cap bs"
proof -
  let ?r = "make_room ord now bs"
  let ?b = "failed_bucket mf now (hm_get (bs_map ?r) key)"
  note r = make_room_ok [OF assms, of now]
  have "bucket_ok mf ?b" using r(1) hm_get_in by (intro failed_bucket_ok) (force simp: buckets_ok_def)
  then show ?thesis using r hm_put_set [of key ?b "bs_map ?r"] hm_put_length [of key ?b "bs_map ?r"]
    by (auto simp: fail_eq Let_def buckets_ok_def)
qed

section \<open>The limiter as a state machine\<close>

inductive limiter_step :: "rate_limiter \<Rightarrow> rate_limiter \<Rightarrow> bool" where
  failure: "iterates ord_ip \<Longrightarrow> iterates ord_user
    \<Longrightarrow> limiter_step rl (snd (record_failure ord_ip ord_user ip user now rl))"
| success: "limiter_step rl (record_success ip user rl)"
| swept: "limiter_step rl (limiter_sweep now rl)"

definition limiter_start :: "rate_limiter \<Rightarrow> bool" where
  "limiter_start rl \<longleftrightarrow> rl = limiter_new (rl_max_failures rl)"

definition limiter_inv :: "rate_limiter \<Rightarrow> bool" where
  "limiter_inv rl \<longleftrightarrow> buckets_ok (rl_max_failures rl) (rl_ips rl) \<and> buckets_ok (rl_max_failures rl) (rl_users rl)
     \<and> bs_cap (rl_ips rl) = MAX_TRACKED \<and> bs_cap (rl_users rl) = MAX_TRACKED"

interpretation limiter: machine limiter_start limiter_step limiter_inv
proof unfold_locales
  fix s assume "limiter_start s"
  then have s: "s = limiter_new (rl_max_failures s)" by (simp add: limiter_start_def)
  show "limiter_inv s"
    by (subst s) (simp add: limiter_inv_def limiter_new_def buckets_new_ok MAX_TRACKED_def, simp add: buckets_new_def)
next
  fix s t assume "limiter_step s t" and inv: "limiter_inv s"
  then show "limiter_inv t"
  proof cases
    case (failure ord_ip ord_user ip user now)
    then show ?thesis using inv by (simp add: limiter_inv_def record_failure_def Let_def case_prod_unfold fail_ok)
  next
    case (success ip user)
    then show ?thesis using inv by (simp add: limiter_inv_def record_success_def clear_ok) (simp add: clear_def)
  next
    case (swept now)
    then show ?thesis using inv
      by (simp add: limiter_inv_def limiter_sweep_def buckets_sweep_ok) (simp add: buckets_sweep_def)
  qed
qed

section \<open>Lockouts\<close>

lemma retry_after_sweep:
  assumes "buckets_ok mf bs" and "now \<le> t"
  shows "retry_after (buckets_sweep now bs) key t = retry_after bs key t"
proof (cases "hm_get (bs_map bs) key")
  case None
  then show ?thesis using assms(1) by (simp add: retry_after_def buckets_sweep_def buckets_ok_def)
next
  case (Some b)
  then have "bucket_ok mf b" using hm_get_in assms(1) by (fastforce simp: buckets_ok_def)
  moreover have "MAX_BACKOFF < BUCKET_TTL" by (simp add: MAX_BACKOFF_def BUCKET_TTL_def)
  ultimately have "d - t = 0" if "bk_blocked_until b = Some d" "\<not> now - bk_last_seen b < BUCKET_TTL" for d
    using that assms(2) by (auto simp: bucket_ok_def)
  then show ?thesis using Some assms(1)
    by (auto simp: retry_after_def buckets_sweep_def buckets_ok_def Let_def split: option.splits)
qed

lemma make_room_room: "length (bs_map bs) < bs_cap bs \<Longrightarrow> make_room ord now bs = bs"
  by (simp add: make_room_def)

text \<open>What a failure does to the waiting time, while the table has room.\<close>

lemma fail_lockout:
  fixes bs :: "'k buckets" and key :: 'k
  defines "f \<equiv> (case hm_get (bs_map bs) key of Some b \<Rightarrow> bk_failures b | None \<Rightarrow> 0)"
  assumes "buckets_ok mf bs" and "length (bs_map bs) < bs_cap bs" and "f + 2 \<le> u32_max"
    and "now + MAX_BACKOFF \<le> instant_max" and "now \<le> t"
  shows "fst (fail ord key mf now bs) \<longleftrightarrow> mf \<le> f + 1"
    and "retry_after (snd (fail ord key mf now bs)) key t =
      (if f + 1 < mf \<or> now + min (2 ^ (f + 2 - mf)) 900 * SEC \<le> t then None
       else Some (secs_up (now + min (2 ^ (f + 2 - mf)) 900 * SEC - t)))"
    and "key' \<noteq> key \<Longrightarrow> retry_after (snd (fail ord key mf now bs)) key' t = retry_after bs key' t"
proof -
  let ?b = "failed_bucket mf now (hm_get (bs_map bs) key)"
  have e: "fail ord key mf now bs = (mf < sat_add u32_max (bk_failures ?b) 1, bs\<lparr>bs_map := hm_put key ?b (bs_map bs)\<rparr>)"
    using assms(3) by (simp add: fail_eq make_room_room Let_def)
  have f: "bk_failures ?b = f + 1" using assms(4)
    by (simp add: failed_bucket_def Let_def f_def sat_add_def)
  then show "fst (fail ord key mf now bs) \<longleftrightarrow> mf \<le> f + 1" using assms(4) by (auto simp: e sat_add_def)
  have old: "bk_blocked_until b = None" if "hm_get (bs_map bs) key = Some b" "f + 1 < mf" for b
    using that assms(2,4) hm_get_in [OF that(1)]
    by (fastforce simp: buckets_ok_def bucket_ok_def f_def sat_add_def split: option.splits)
  have "bk_blocked_until ?b = (if f + 1 < mf then None else Some (now + min (2 ^ (f + 2 - mf)) 900 * SEC))"
  proof (cases "f + 1 < mf")
    case True
    then show ?thesis using old assms(4)
      by (auto simp: failed_bucket_def Let_def f_def sat_add_def split: option.splits)
  next
    case False
    then have "backoff_for (f + 2 - mf) = min (2 ^ (f + 2 - mf)) 900 * SEC" by (intro backoff_for_exact) simp
    moreover have "backoff_for (f + 2 - mf) \<le> MAX_BACKOFF" by (rule backoff_for_le)
    ultimately have "instant_add now (backoff_for (f + 2 - mf)) = Some (now + min (2 ^ (f + 2 - mf)) 900 * SEC)"
      using assms(5) by (simp add: instant_add_def checked_add_def)
    then show ?thesis using False assms(4) f by (simp add: failed_bucket_def Let_def sat_add_def)
  qed
  then show "retry_after (snd (fail ord key mf now bs)) key t =
      (if f + 1 < mf \<or> now + min (2 ^ (f + 2 - mf)) 900 * SEC \<le> t then None
       else Some (secs_up (now + min (2 ^ (f + 2 - mf)) 900 * SEC - t)))"
    by (simp add: e retry_after_def Let_def)
  show "key' \<noteq> key \<Longrightarrow> retry_after (snd (fail ord key mf now bs)) key' t = retry_after bs key' t"
    by (simp add: e retry_after_def)
qed

definition failures_of :: "'k buckets \<Rightarrow> 'k \<Rightarrow> nat" where
  "failures_of bs key = (case hm_get (bs_map bs) key of Some b \<Rightarrow> bk_failures b | None \<Rightarrow> 0)"

definition lockout_secs :: "nat \<Rightarrow> nat \<Rightarrow> nat" where
  "lockout_secs mf n = min (2 ^ (n + 1 - mf)) 900"

lemma check_limited:
  "retry_after (rl_ips rl) (normalize_ip ip) t = Some s \<or> retry_after (rl_users rl) user t = Some s
    \<Longrightarrow> \<exists>s'\<ge>s. limiter_check rl ip user t = Inl (RateLimited s')"
  by (auto simp: limiter_check_def option_max_def Let_def split: option.splits)

lemma fail_waits:
  assumes "buckets_ok mf bs" and "length (bs_map bs) < bs_cap bs" and "n = failures_of bs key + 1" and "n < u32_max"
    and "now + MAX_BACKOFF \<le> instant_max" and "mf \<le> n" and "now \<le> t" and "t < now + lockout_secs mf n * SEC"
  obtains s where "retry_after (snd (fail ord key mf now bs)) key t = Some s"
    and "now + lockout_secs mf n * SEC - t \<le> s * SEC"
proof -
  let ?left = "now + lockout_secs mf n * SEC - t"
  have "retry_after (snd (fail ord key mf now bs)) key t = Some (secs_up ?left)"
    using fail_lockout(2) [OF assms(1,2) _ assms(5,7), of key ord] assms(3,4,6,8)
    by (simp add: failures_of_def lockout_secs_def)
  moreover have "lockout_secs mf n * SEC \<le> 900 * SEC" by (rule mult_le_mono1) (simp add: lockout_secs_def)
  then have "?left \<le> 900 * SEC" using assms(7) by linarith
  then have "?left div SEC \<le> 900" using div_le_mono [of ?left "900 * SEC" SEC] by simp
  then have "?left div SEC < u64_max" by (simp add: u64_max_def)
  ultimately show ?thesis using that secs_up_ge(1) by blast
qed

lemma limiter_reachable: "limiter_step\<^sup>*\<^sup>* (limiter_new n) rl \<Longrightarrow> limiter_inv rl"
  by (erule limiter.reachable_inv) (simp add: limiter_start_def limiter_new_def)

lemma limiter_check_sweep:
  assumes "limiter_inv rl" and "now \<le> t"
  shows "limiter_check (limiter_sweep now rl) ip user t = limiter_check rl ip user t"
proof -
  have "buckets_ok (rl_max_failures rl) (rl_ips rl)" "buckets_ok (rl_max_failures rl) (rl_users rl)"
    using assms(1) by (simp_all add: limiter_inv_def)
  from this [THEN retry_after_sweep, OF assms(2)] show ?thesis
    by (simp add: limiter_check_def limiter_sweep_def)
qed

lemma check_waits:
  assumes "retry_after (rl_ips rl) (normalize_ip ip) t = Some s \<or> retry_after (rl_users rl) user t = Some s"
    and "d \<le> s * SEC"
  shows "\<exists>s. limiter_check rl ip user t = Inl (RateLimited s) \<and> d \<le> s * SEC"
proof -
  obtain s' where "s \<le> s'" "limiter_check rl ip user t = Inl (RateLimited s')"
    using check_limited [OF assms(1)] by blast
  moreover have "s * SEC \<le> s' * SEC" using \<open>s \<le> s'\<close> by (rule mult_le_mono1)
  ultimately show ?thesis using assms(2) by (metis order_trans)
qed

section \<open>Properties\<close>

text \<open>In every state the limiter can reach, each table holds at most 4096 principals, and dropping
  idle buckets releases nobody: from the sweep on, every check answers as it would have without it.\<close>

theorem limiter_bounded:
  assumes "limiter_step\<^sup>*\<^sup>* (limiter_new n) rl" and "now \<le> t"
  shows "fst (limiter_tracked rl) \<le> 4096 \<and> snd (limiter_tracked rl) \<le> 4096
    \<and> limiter_check (limiter_sweep now rl) ip user t = limiter_check rl ip user t"
proof -
  have "limiter_inv rl" using limiter_reachable assms(1) by blast
  then show ?thesis using limiter_check_sweep [OF _ assms(2)]
    by (auto simp: limiter_inv_def limiter_tracked_def buckets_ok_def MAX_TRACKED_def)
qed

theorem limiter_bounded_witness:
  "fst (limiter_tracked (limiter_sweep 5 (limiter_new 3))) \<le> 4096"
  using limiter_bounded [of 3 "limiter_sweep 5 (limiter_new 3)" 0 0] limiter_step.swept by blast

text \<open>The failure that brings an address to \<open>max_failures\<close> or more, counted with this one, locks out the
  whole /64 it belongs to for 2, 4, 8 ... seconds, at most 900: until then every attempt from there is refused,
  whatever user it names, and the wait that is answered is long enough. The same holds for the user name from
  whatever address it is tried.\<close>

theorem lockout_enforced:
  assumes "limiter_step\<^sup>*\<^sup>* (limiter_new m) rl" and "iterates ord_ip" and "iterates ord_user"
    and "fst (limiter_tracked rl) < 4096" and "snd (limiter_tracked rl) < 4096"
    and "now + MAX_BACKOFF \<le> instant_max" and "now \<le> t"
    and "rl' = snd (record_failure ord_ip ord_user ip user now rl)"
  shows "(let n = failures_of (rl_ips rl) (normalize_ip ip) + 1; until = now + lockout_secs (rl_max_failures rl) n * SEC
      in rl_max_failures rl \<le> n \<and> n < u32_max \<and> t < until \<and> normalize_ip ip2 = normalize_ip ip
        \<longrightarrow> (\<exists>s. limiter_check rl' ip2 user2 t = Inl (RateLimited s) \<and> until - t \<le> s * SEC))
    \<and> (let n = failures_of (rl_users rl) user + 1; until = now + lockout_secs (rl_max_failures rl) n * SEC
      in rl_max_failures rl \<le> n \<and> n < u32_max \<and> t < until
        \<longrightarrow> (\<exists>s. limiter_check rl' ip2 user t = Inl (RateLimited s) \<and> until - t \<le> s * SEC))"
proof -
  have inv: "limiter_inv rl" using limiter_reachable assms(1) by blast
  let ?mf = "rl_max_failures rl"
  have rl': "rl_ips rl' = snd (fail ord_ip (normalize_ip ip) ?mf now (rl_ips rl))"
    "rl_users rl' = snd (fail ord_user user ?mf now (rl_users rl))"
    using assms(8) by (simp_all add: record_failure_def Let_def case_prod_unfold)
  have room: "length (bs_map (rl_ips rl)) < bs_cap (rl_ips rl)" "length (bs_map (rl_users rl)) < bs_cap (rl_users rl)"
    using inv assms(4,5) by (simp_all add: limiter_inv_def limiter_tracked_def MAX_TRACKED_def)
  have ok: "buckets_ok ?mf (rl_ips rl)" "buckets_ok ?mf (rl_users rl)" using inv by (simp_all add: limiter_inv_def)
  note by_ip = fail_waits [OF ok(1) room(1) refl _ assms(6) _ assms(7), of "normalize_ip ip" ord_ip]
  note by_user = fail_waits [OF ok(2) room(2) refl _ assms(6) _ assms(7), of user ord_user]
  show ?thesis unfolding Let_def
  proof (intro conjI impI; elim conjE)
    assume "?mf \<le> failures_of (rl_ips rl) (normalize_ip ip) + 1" "failures_of (rl_ips rl) (normalize_ip ip) + 1 < u32_max"
      "t < now + lockout_secs ?mf (failures_of (rl_ips rl) (normalize_ip ip) + 1) * SEC" "normalize_ip ip2 = normalize_ip ip"
    then show "\<exists>s. limiter_check rl' ip2 user2 t = Inl (RateLimited s)
        \<and> now + lockout_secs ?mf (failures_of (rl_ips rl) (normalize_ip ip) + 1) * SEC - t \<le> s * SEC"
      using by_ip check_waits rl'(1) by metis
  next
    assume "?mf \<le> failures_of (rl_users rl) user + 1" "failures_of (rl_users rl) user + 1 < u32_max"
      "t < now + lockout_secs ?mf (failures_of (rl_users rl) user + 1) * SEC"
    then show "\<exists>s. limiter_check rl' ip2 user t = Inl (RateLimited s)
        \<and> now + lockout_secs ?mf (failures_of (rl_users rl) user + 1) * SEC - t \<le> s * SEC"
      using by_user check_waits rl'(2) by metis
  qed
qed

theorem lockout_enforced_witness:
  "\<exists>s. limiter_check (snd (record_failure (\<lambda>m. m) (\<lambda>m. m) (V4 [10, 0, 0, 1]) (lit ''root'') 7 (limiter_new 1)))
     (V4 [10, 0, 0, 1]) (lit ''alice'') 8 = Inl (RateLimited s) \<and> 7 + 2 * SEC - 8 \<le> s * SEC"
  using lockout_enforced [of 1 "limiter_new 1" "\<lambda>m. m" "\<lambda>m. m" 7 8 _ "V4 [10, 0, 0, 1]" "lit ''root''" "V4 [10, 0, 0, 1]" "lit ''alice''"]
  by (simp add: iterates_id limiter_new_def limiter_tracked_def buckets_new_def failures_of_def lockout_secs_def
      MAX_BACKOFF_def instant_max_def u32_max_def SEC_def)

text \<open>A failure makes room before it looks for its own bucket, so in a full table it can evict the bucket
  it is about to count in: a locked principal that is the least recently seen one loses its failures and its
  lockout by failing once more.\<close>

theorem failure_forgets_own_bucket:
  assumes "iterates ord" and "hm_ok (bs_map bs)" and "bs_cap bs = length (bs_map bs)" and "(key, b) \<in> set (bs_map bs)"
    and "\<forall>e\<in>set (bs_map bs). now - bk_last_seen (snd e) < BUCKET_TTL"
    and "\<forall>e\<in>set (bs_map bs). fst e \<noteq> key \<longrightarrow> bk_last_seen b < bk_last_seen (snd e)"
    and "2 \<le> mf"
  shows "fail ord key mf now bs = (False, bs\<lparr>bs_map := hm_del key (bs_map bs) @
      [(key, \<lparr>bk_failures = 1, bk_blocked_until = None, bk_last_seen = now\<rparr>)]\<rparr>)"
proof -
  have sw: "buckets_sweep now bs = bs"
    using assms(5) by (cases bs) (simp add: buckets_sweep_def hm_retain_def)
  have "bs_map bs \<noteq> []" using assms(4) by auto
  then obtain k v where m: "min_by_key (\<lambda>e. bk_last_seen (snd e)) (ord (bs_map bs)) = Some (k, v)" "(k, v) \<in> set (bs_map bs)"
    "bk_last_seen v \<le> bk_last_seen b"
    using iterates_min [OF assms(1), of "bs_map bs" "\<lambda>e. bk_last_seen (snd e)"] assms(4) by (metis snd_conv)
  then have "k = key" using assms(6) by force
  then have r: "make_room ord now bs = bs\<lparr>bs_map := hm_del key (bs_map bs)\<rparr>"
    using m(1) assms(3) sw by (simp add: make_room_def evict_least_def)
  have "hm_put key x (hm_del key ms) = hm_del key ms @ [(key, x)]" for x and ms :: "('a, bucket) hash_map"
    by (induction ms) (auto simp: hm_del_def)
  then show ?thesis using r assms(7) by (simp add: fail_eq Let_def failed_bucket_def sat_add_def u32_max_def)
qed

theorem failure_forgets_own_bucket_witness:
  "fail (\<lambda>m. m) (1::nat) 5 10 \<lparr>bs_map = [(1, \<lparr>bk_failures = 9, bk_blocked_until = Some 99, bk_last_seen = 3\<rparr>)], bs_cap = 1\<rparr>
    = (False, \<lparr>bs_map = [(1, \<lparr>bk_failures = 1, bk_blocked_until = None, bk_last_seen = 10\<rparr>)], bs_cap = 1\<rparr>)"
  using failure_forgets_own_bucket [of "\<lambda>m. m"
      "\<lparr>bs_map = [(1::nat, \<lparr>bk_failures = 9, bk_blocked_until = Some 99, bk_last_seen = 3\<rparr>)], bs_cap = 1\<rparr>" 1
      "\<lparr>bk_failures = 9, bk_blocked_until = Some 99, bk_last_seen = 3\<rparr>" 10 5]
  by (simp add: iterates_id hm_ok_def BUCKET_TTL_def SEC_def hm_del_def)

end
