(* ===== verification/Token_Limit.thy ===== *)
theory Token_Limit
  imports Tables
begin

text \<open>
  \<^verbatim>\<open>crates/detent-web/src/auth/tokenlimit.rs\<close>: a request budget per API token, a token bucket kept as
  the instant at which it is full again. A poisoned lock is not modelled.
\<close>

section \<open>The code\<close>

definition MAX_TOKENS :: nat where "MAX_TOKENS = 64"
definition TRACKED_MARGIN :: nat where "TRACKED_MARGIN = 8"
definition MAX_TRACKED_TOKENS :: nat where "MAX_TRACKED_TOKENS = MAX_TOKENS + TRACKED_MARGIN"
definition MINUTE :: nat where "MINUTE = 60 * SEC"
definition duration_max :: nat where "duration_max = u64_max * SEC + (SEC - 1)"

datatype admission = Allowed | Limited nat bool

record token_bucket =
  tb_full_at :: nat
  tb_limited :: bool

record token_limiter =
  tk_buckets :: "(rstr, token_bucket) hash_map"
  tk_interval :: nat
  tk_tolerance :: nat

definition token_limiter_new :: "nat \<Rightarrow> nat \<Rightarrow> token_limiter" where
  "token_limiter_new burst rate_per_minute =
     (let interval = MINUTE div max rate_per_minute 1;
          tolerance = (case checked_mul duration_max interval (max burst 1 - 1) of Some d \<Rightarrow> d | None \<Rightarrow> duration_max)
      in \<lparr>tk_buckets = [], tk_interval = interval, tk_tolerance = tolerance\<rparr>)"

definition token_make_room ::
  "(rstr, token_bucket) iter_order \<Rightarrow> nat \<Rightarrow> (rstr, token_bucket) hash_map \<Rightarrow> (rstr, token_bucket) hash_map" where
  "token_make_room ord now m =
     (if length m < MAX_TRACKED_TOKENS then m
      else let m = hm_retain (\<lambda>b. now < tb_full_at b) m
           in if length m < MAX_TRACKED_TOKENS then m else evict_least ord tb_full_at m)"

definition token_check ::
  "(rstr, token_bucket) iter_order \<Rightarrow> rstr \<Rightarrow> nat \<Rightarrow> token_limiter \<Rightarrow> admission \<times> token_limiter" where
  "token_check ord tid now lim =
     (let m = (if hm_get (tk_buckets lim) tid = None then token_make_room ord now (tk_buckets lim) else tk_buckets lim);
          b = (case hm_get m tid of Some b \<Rightarrow> b | None \<Rightarrow> \<lparr>tb_full_at = now, tb_limited = False\<rparr>);
          b = (if tb_full_at b \<le> now then \<lparr>tb_full_at = now, tb_limited = False\<rparr> else b);
          debt = tb_full_at b - now
      in if tk_tolerance lim < debt
         then (Limited (secs_up (debt - tk_tolerance lim)) (\<not> tb_limited b),
               lim\<lparr>tk_buckets := hm_put tid (b\<lparr>tb_limited := True\<rparr>) m\<rparr>)
         else (Allowed,
               lim\<lparr>tk_buckets := hm_put tid (b\<lparr>tb_full_at := (case instant_add (tb_full_at b) (tk_interval lim) of
                   Some t \<Rightarrow> t | None \<Rightarrow> tb_full_at b)\<rparr>) m\<rparr>))"

definition token_tracked :: "token_limiter \<Rightarrow> nat" where
  "token_tracked lim = length (tk_buckets lim)"

section \<open>One bucket\<close>

definition charge :: "nat \<Rightarrow> nat \<Rightarrow> nat \<Rightarrow> token_bucket option \<Rightarrow> admission \<times> token_bucket" where
  "charge interval tolerance now old =
     (let b = (case old of Some b \<Rightarrow> b | None \<Rightarrow> \<lparr>tb_full_at = now, tb_limited = False\<rparr>);
          b = (if tb_full_at b \<le> now then \<lparr>tb_full_at = now, tb_limited = False\<rparr> else b);
          debt = tb_full_at b - now
      in if tolerance < debt
         then (Limited (secs_up (debt - tolerance)) (\<not> tb_limited b), b\<lparr>tb_limited := True\<rparr>)
         else (Allowed, b\<lparr>tb_full_at := (case instant_add (tb_full_at b) interval of
                   Some t \<Rightarrow> t | None \<Rightarrow> tb_full_at b)\<rparr>))"

lemma token_check_charge:
  "token_check ord tid now lim =
     (let m = (if hm_get (tk_buckets lim) tid = None then token_make_room ord now (tk_buckets lim) else tk_buckets lim);
          (a, b) = charge (tk_interval lim) (tk_tolerance lim) now (hm_get m tid)
      in (a, lim\<lparr>tk_buckets := hm_put tid b m\<rparr>))"
  by (simp add: token_check_def charge_def Let_def)

definition token_table ::
  "nat \<Rightarrow> nat \<Rightarrow> (rstr, token_bucket) iter_order \<Rightarrow> rstr \<Rightarrow> nat \<Rightarrow> (rstr, token_bucket) hash_map
     \<Rightarrow> admission \<times> (rstr, token_bucket) hash_map" where
  "token_table interval tolerance ord tid now m =
     (let (a, lim) = token_check ord tid now \<lparr>tk_buckets = m, tk_interval = interval, tk_tolerance = tolerance\<rparr>
      in (a, tk_buckets lim))"

interpretation token: keyed_table MAX_TRACKED_TOKENS "token_table interval tolerance" "charge interval tolerance"
  for interval tolerance
  by unfold_locales (simp add: token_table_def token_check_charge token_make_room_def case_prod_unfold Let_def)

definition count_allowed :: "admission list \<Rightarrow> nat" where
  "count_allowed as = length (filter (\<lambda>a. a = Allowed) as)"

text \<open>Each admitted request moves the bucket one interval on, and no request is admitted that is more than
  the tolerance behind.\<close>

lemma charge_run_bound:
  assumes "sorted (t # ts)" and "last (t # ts) + tolerance + interval \<le> instant_max"
    and "0 < count_allowed (fst (entry_run (charge interval tolerance) (t # ts) old))"
    and "F = (case old of Some b \<Rightarrow> max (tb_full_at b) t | None \<Rightarrow> t)"
  shows "F + interval * count_allowed (fst (entry_run (charge interval tolerance) (t # ts) old))
    \<le> last (t # ts) + tolerance + interval"
  using assms
proof (induction ts arbitrary: t old F)
  case Nil
  then show ?case
    by (auto simp: count_allowed_def charge_def Let_def split: option.splits if_splits)
next
  case (Cons t' ts)
  let ?run = "\<lambda>o'. count_allowed (fst (entry_run (charge interval tolerance) (t' # ts) o'))"
  obtain a b where c: "charge interval tolerance t old = (a, b)" by (cases "charge interval tolerance t old")
  have split: "count_allowed (fst (entry_run (charge interval tolerance) (t # t' # ts) old))
      = (if a = Allowed then 1 else 0) + ?run (Some b)"
    by (simp add: c count_allowed_def case_prod_unfold Let_def)
  have le: "t \<le> t'" "t' \<le> last (t' # ts)" "sorted (t' # ts)" using Cons.prems(1) by auto
  have "last (t # t' # ts) = last (t' # ts)" by simp
  then have fits: "t + tolerance + interval \<le> instant_max" using Cons.prems(2) le by linarith
  have b: "if a = Allowed then F \<le> t + tolerance \<and> tb_full_at b = F + interval else F \<le> tb_full_at b"
    using c Cons.prems(4) fits
    by (auto simp: charge_def Let_def instant_add_def checked_add_def split: option.splits if_splits)
  show ?case
  proof (cases "0 < ?run (Some b)")
    case True
    have "max (tb_full_at b) t' + interval * ?run (Some b) \<le> last (t' # ts) + tolerance + interval"
      by (rule Cons.IH) (use True le Cons.prems in auto)
    then show ?thesis unfolding split using b by (auto split: if_splits)
  next
    case False
    then have "a = Allowed" using Cons.prems(3) unfolding split by (auto split: if_splits)
    moreover have "?run (Some b) = 0" using False by simp
    moreover have "t \<le> last (t # t' # ts)" using le by (metis last_ConsR list.distinct(1) order_trans)
    ultimately show ?thesis unfolding split using b by (auto simp del: last.simps entry_run.simps)
  qed
qed

section \<open>Properties\<close>

lemma interval_pos: "rate \<le> u32_max \<Longrightarrow> 0 < tk_interval (token_limiter_new burst rate)"
  by (simp add: token_limiter_new_def Let_def MINUTE_def SEC_def u32_max_def div_greater_zero_iff)

lemma tolerance_exact:
  assumes "burst \<le> u32_max"
  shows "tk_tolerance (token_limiter_new burst rate) = tk_interval (token_limiter_new burst rate) * (max burst 1 - 1)"
proof -
  have "MINUTE div max rate 1 \<le> MINUTE" by simp
  then have "MINUTE div max rate 1 * (max burst 1 - 1) \<le> MINUTE * u32_max" using assms by (intro mult_le_mono) auto
  also have "\<dots> \<le> duration_max" by (simp add: MINUTE_def u32_max_def duration_max_def u64_max_def SEC_def)
  finally show ?thesis by (simp add: token_limiter_new_def Let_def checked_mul_def)
qed

text \<open>C36. Among fewer than 72 tokens, whatever the others do, a token that asks at times between \<open>t\<close> and the
  last one of \<open>ts\<close> is admitted at most \<open>burst\<close> times plus once for each interval of the time that passes.\<close>

theorem token_rate_bounded:
  assumes "lim = token_limiter_new burst rate" and "burst \<le> u32_max" and "rate \<le> u32_max"
    and "card (event_keys es) < 72" and "events_of tid es = t # ts" and "sorted (t # ts)"
    and "last (t # ts) + tk_tolerance lim + tk_interval lim \<le> instant_max"
  shows "count_allowed (answers_of tid (fst (table_run (token_table (tk_interval lim) (tk_tolerance lim)) es (tk_buckets lim))))
    \<le> max burst 1 + (last (t # ts) - t) div tk_interval lim"
proof -
  let ?i = "tk_interval lim" and ?c = "charge (tk_interval lim) (tk_tolerance lim)"
  have "finite (event_keys es)" by (simp add: event_keys_def)
  moreover have "tk_buckets lim = []" using assms(1) by (simp add: token_limiter_new_def Let_def)
  ultimately have run: "answers_of tid (fst (table_run (token_table ?i (tk_tolerance lim)) es (tk_buckets lim)))
      = fst (entry_run ?c (t # ts) None)"
    using token.run_per_key [where m = "[]" and ks = "event_keys es" and es = es and k = tid and interval = ?i and tolerance = "tk_tolerance lim"] assms(4,5)
    by (simp add: MAX_TRACKED_TOKENS_def MAX_TOKENS_def TRACKED_MARGIN_def)
  let ?n = "count_allowed (fst (entry_run ?c (t # ts) None))"
  have "?i * ?n \<le> (last (t # ts) - t) + ?i * max burst 1"
  proof (cases "?n = 0")
    case False
    then have "t + ?i * ?n \<le> last (t # ts) + tk_tolerance lim + ?i"
      using charge_run_bound [OF assms(6,7), of None t] by simp
    moreover have "tk_tolerance lim + ?i = ?i * max burst 1"
      using tolerance_exact [OF assms(2)] assms(1) by (cases "max burst 1") auto
    moreover have "t \<le> last (t # ts)" using assms(6) by auto
    ultimately show ?thesis by linarith
  qed simp
  then have "?i * ?n div ?i \<le> ((last (t # ts) - t) + ?i * max burst 1) div ?i" by (rule div_le_mono)
  then show ?thesis using interval_pos [OF assms(3), of burst] assms(1) run by (simp add: add.commute)
qed

theorem token_rate_bounded_witness:
  "count_allowed (answers_of (lit ''a'') (fst (table_run (token_table (30 * SEC) (30 * SEC))
      [(\<lambda>m. m, lit ''a'', 0), (\<lambda>m. m, lit ''b'', 1), (\<lambda>m. m, lit ''a'', 2), (\<lambda>m. m, lit ''a'', 3)] []))) \<le> 2"
proof -
  have "token_limiter_new 2 2 = \<lparr>tk_buckets = [], tk_interval = 30 * SEC, tk_tolerance = 30 * SEC\<rparr>"
    by code_simp
  then show ?thesis
    using token_rate_bounded [OF refl, of 2 2
      "[(\<lambda>m. m, lit ''a'', 0), (\<lambda>m. m, lit ''b'', 1), (\<lambda>m. m, lit ''a'', 2), (\<lambda>m. m, lit ''a'', 3)]" "lit ''a''" 0 "[2, 3]"]
    by (simp add: lit_def u32_max_def card_insert_if instant_max_def SEC_def)
qed

definition token_inv :: "token_limiter \<Rightarrow> bool" where
  "token_inv lim \<longleftrightarrow> hm_ok (tk_buckets lim) \<and> length (tk_buckets lim) \<le> MAX_TRACKED_TOKENS
     \<and> (\<forall>e\<in>set (tk_buckets lim). tb_full_at (snd e) \<le> instant_max)"

definition token_start :: "token_limiter \<Rightarrow> bool" where
  "token_start lim \<longleftrightarrow> (\<exists>burst rate. lim = token_limiter_new burst rate)"

inductive token_step :: "token_limiter \<Rightarrow> token_limiter \<Rightarrow> bool" where
  "iterates ord \<Longrightarrow> now \<le> instant_max \<Longrightarrow> token_step lim (snd (token_check ord tid now lim))"

lemma charge_instant:
  "now \<le> instant_max \<Longrightarrow> (\<And>b. old = Some b \<Longrightarrow> tb_full_at b \<le> instant_max)
    \<Longrightarrow> tb_full_at (snd (charge interval tolerance now old)) \<le> instant_max"
  by (cases old) (auto simp: charge_def Let_def instant_add_def checked_add_def)

lemma token_make_room_inv:
  assumes "iterates ord" and "token_inv lim"
  shows "hm_ok (token_make_room ord now (tk_buckets lim))"
    and "set (token_make_room ord now (tk_buckets lim)) \<subseteq> set (tk_buckets lim)"
    and "length (token_make_room ord now (tk_buckets lim)) < MAX_TRACKED_TOKENS"
proof -
  let ?m = "hm_retain (\<lambda>b. now < tb_full_at b) (tk_buckets lim)"
  have m: "hm_ok ?m" "set ?m \<subseteq> set (tk_buckets lim)" "length ?m \<le> MAX_TRACKED_TOKENS"
    using assms(2) hm_retain_set [of _ "tk_buckets lim"]
      order_trans [OF hm_length_retain [of "\<lambda>b. now < tb_full_at b" "tk_buckets lim"]] by (auto simp: token_inv_def)
  then show "hm_ok (token_make_room ord now (tk_buckets lim))"
    using assms(2) by (auto simp: token_make_room_def token_inv_def Let_def evict_least_ok)
  show "set (token_make_room ord now (tk_buckets lim)) \<subseteq> set (tk_buckets lim)"
    using m(2) evict_least_set [of ord tb_full_at ?m] by (auto simp: token_make_room_def Let_def)
  have "?m \<noteq> []" if "\<not> length ?m < MAX_TRACKED_TOKENS"
    using that by (auto simp: MAX_TRACKED_TOKENS_def MAX_TOKENS_def)
  then show "length (token_make_room ord now (tk_buckets lim)) < MAX_TRACKED_TOKENS"
    using evict_least_length [OF assms(1), of ?m tb_full_at] m(3) by (auto simp: token_make_room_def Let_def)
qed

lemma token_inv_put:
  assumes "token_inv lim" and "hm_ok m" and "set m \<subseteq> set (tk_buckets lim)"
    and "tid \<in> fst ` set m \<or> length m < MAX_TRACKED_TOKENS" and "length m \<le> MAX_TRACKED_TOKENS"
    and "tb_full_at b \<le> instant_max"
  shows "token_inv (lim\<lparr>tk_buckets := hm_put tid b m\<rparr>)"
proof -
  have "tb_full_at (snd e) \<le> instant_max" if "e \<in> set (hm_put tid b m)" for e
  proof -
    have "e = (tid, b) \<or> e \<in> set (tk_buckets lim)" using that hm_put_set [of tid b m] assms(3) by blast
    then show ?thesis using assms(1,6) by (auto simp: token_inv_def)
  qed
  then show ?thesis using assms(2,4,5) hm_put_length [of tid b m] by (auto simp: token_inv_def)
qed

interpretation token_limiter: machine token_start token_step token_inv
proof unfold_locales
  fix s assume "token_start s"
  then show "token_inv s" by (auto simp: token_start_def token_inv_def token_limiter_new_def Let_def)
next
  fix s t assume "token_step s t" and inv: "token_inv s"
  then obtain ord now tid where st: "iterates ord" "now \<le> instant_max" "t = snd (token_check ord tid now s)"
    by (auto elim: token_step.cases)
  let ?m = "if hm_get (tk_buckets s) tid = None then token_make_room ord now (tk_buckets s) else tk_buckets s"
  let ?b = "snd (charge (tk_interval s) (tk_tolerance s) now (hm_get ?m tid))"
  have m: "hm_ok ?m" "set ?m \<subseteq> set (tk_buckets s)"
    "tid \<in> fst ` set ?m \<or> length ?m < MAX_TRACKED_TOKENS" "length ?m \<le> MAX_TRACKED_TOKENS"
    using token_make_room_inv [OF st(1) inv, of now] inv
    by (auto simp: token_inv_def hm_get_None)
  have "tb_full_at ?b \<le> instant_max"
    using m(2) inv hm_get_in [of ?m tid] by (intro charge_instant st(2)) (force simp: token_inv_def)
  then have "token_inv (s\<lparr>tk_buckets := hm_put tid ?b ?m\<rparr>)"
    by (rule token_inv_put [OF inv m])
  then show "token_inv t" unfolding st(3) by (simp add: token_check_charge Let_def case_prod_unfold)
qed

lemma charge_retry:
  assumes "charge interval tolerance now old = (Limited r first, b)" and "\<And>b. old = Some b \<Longrightarrow> tb_full_at b \<le> instant_max"
  shows "fst (charge interval tolerance (now + r * SEC) (Some b)) = Allowed"
proof -
  from assms(1) obtain b0 where b0: "old = Some b0" "now < tb_full_at b0" "tolerance < tb_full_at b0 - now"
    and b: "b = b0\<lparr>tb_limited := True\<rparr>" "r = secs_up (tb_full_at b0 - now - tolerance)"
    by (auto simp: charge_def Let_def split: option.splits if_splits)
  have "(tb_full_at b0 - now - tolerance) div SEC \<le> instant_max div SEC"
    using assms(2) [OF b0(1)] by (intro div_le_mono) simp
  also have "\<dots> < u64_max" by (simp add: instant_max_def u64_max_def SEC_def)
  finally have "tb_full_at b0 - now - tolerance \<le> r * SEC" unfolding b(2) by (rule secs_up_ge(1))
  then show ?thesis using b(1) by (auto simp: charge_def Let_def)
qed

text \<open>In every state the limiter can reach, at most 72 tokens are tracked, and a token that was refused
  and waits the seconds it was told is admitted.\<close>

theorem token_retry_admitted:
  assumes "token_step\<^sup>*\<^sup>* (token_limiter_new burst rate) lim" and "iterates ord" and "now \<le> instant_max"
    and "token_check ord tid now lim = (Limited r first, lim')"
  shows "token_tracked lim' \<le> 72 \<and> fst (token_check ord' tid (now + r * SEC) lim') = Allowed"
proof -
  have start: "token_start (token_limiter_new burst rate)" by (auto simp: token_start_def)
  have inv: "token_inv lim" using token_limiter.reachable_inv [OF assms(1) start] .
  have "token_inv lim'" using token_limiter.step_inv [OF token_step.intros [OF assms(2,3), of lim tid] inv] assms(4) by simp
  moreover define m where "m = (if hm_get (tk_buckets lim) tid = None then token_make_room ord now (tk_buckets lim) else tk_buckets lim)"
  have sub: "set m \<subseteq> set (tk_buckets lim)" using token_make_room_inv(2) [OF assms(2) inv] by (auto simp: m_def)
  obtain b where c: "charge (tk_interval lim) (tk_tolerance lim) now (hm_get m tid) = (Limited r first, b)"
    and lim': "lim' = lim\<lparr>tk_buckets := hm_put tid b m\<rparr>"
    using assms(4) unfolding token_check_charge m_def [symmetric] Let_def
    by (cases "charge (tk_interval lim) (tk_tolerance lim) now (hm_get m tid)") auto
  have "tb_full_at b' \<le> instant_max" if "hm_get m tid = Some b'" for b'
    using hm_get_in [OF that] sub inv by (force simp: token_inv_def)
  from charge_retry [OF c this] have "fst (token_check ord' tid (now + r * SEC) lim') = Allowed"
    by (simp add: token_check_charge lim' Let_def case_prod_unfold)
  ultimately show ?thesis by (simp add: token_inv_def token_tracked_def MAX_TRACKED_TOKENS_def MAX_TOKENS_def TRACKED_MARGIN_def)
qed

theorem token_retry_admitted_witness:
  "fst (token_check (\<lambda>m. m) (lit ''a'') (0 + 60 * SEC)
     (snd (token_check (\<lambda>m. m) (lit ''a'') 0 (snd (token_check (\<lambda>m. m) (lit ''a'') 0 (token_limiter_new 1 1)))))) = Allowed"
proof -
  let ?lim = "snd (token_check (\<lambda>m. m) (lit ''a'') 0 (token_limiter_new 1 1))"
  have "token_check (\<lambda>m. m) (lit ''a'') 0 ?lim = (Limited 60 True, snd (token_check (\<lambda>m. m) (lit ''a'') 0 ?lim))"
    by code_simp
  moreover have "token_step\<^sup>*\<^sup>* (token_limiter_new 1 1) ?lim"
    by (intro r_into_rtranclp token_step.intros iterates_id) simp
  ultimately show ?thesis using token_retry_admitted [of 1 1 ?lim "\<lambda>m. m" 0 "lit ''a''" 60 True _ "\<lambda>m. m"]
    by (simp add: iterates_id)
qed

end
