(* ===== verification/Coalesce.thy ===== *)
theory Coalesce
  imports Tables Rate_Limit
begin

text \<open>
  \<^verbatim>\<open>crates/detent-web/src/auth/coalesce.rs\<close>: at most one audit record per client and minute for rejected
  credentials, the others counted. A poisoned lock is not modelled.
\<close>

section \<open>The code\<close>

definition WINDOW :: nat where "WINDOW = 60 * SEC"
definition MAX_CLIENTS :: nat where "MAX_CLIENTS = 256"

record coalesce_entry =
  ce_logged_at :: nat
  ce_suppressed :: nat

type_synonym coalescer = "(ip_addr, coalesce_entry) hash_map"

definition coalescer_new :: coalescer where "coalescer_new = []"

definition admit_at :: "(ip_addr, coalesce_entry) iter_order \<Rightarrow> ip_addr \<Rightarrow> nat \<Rightarrow> coalescer \<Rightarrow> nat option \<times> coalescer" where
  "admit_at ord key now clients =
     (case hm_get clients key of
        Some e \<Rightarrow>
          if now - ce_logged_at e < WINDOW
          then (None, hm_put key (e\<lparr>ce_suppressed := sat_add u32_max (ce_suppressed e) 1\<rparr>) clients)
          else (Some (ce_suppressed e), hm_put key \<lparr>ce_logged_at = now, ce_suppressed = 0\<rparr> clients)
      | None \<Rightarrow>
          (let clients = (if MAX_CLIENTS \<le> length clients then evict_least ord ce_logged_at clients else clients)
           in (Some 0, hm_put key \<lparr>ce_logged_at = now, ce_suppressed = 0\<rparr> clients)))"

definition admit :: "(ip_addr, coalesce_entry) iter_order \<Rightarrow> ip_addr \<Rightarrow> nat \<Rightarrow> coalescer \<Rightarrow> nat option \<times> coalescer" where
  "admit ord ip now clients = (let key = normalize_ip ip in admit_at ord key now clients)"

definition coalescer_tracked :: "coalescer \<Rightarrow> nat" where
  "coalescer_tracked clients = length clients"

section \<open>One client\<close>

definition admit_one :: "nat \<Rightarrow> coalesce_entry option \<Rightarrow> nat option \<times> coalesce_entry" where
  "admit_one now old =
     (case old of
        Some e \<Rightarrow>
          if now - ce_logged_at e < WINDOW then (None, e\<lparr>ce_suppressed := sat_add u32_max (ce_suppressed e) 1\<rparr>)
          else (Some (ce_suppressed e), \<lparr>ce_logged_at = now, ce_suppressed = 0\<rparr>)
      | None \<Rightarrow> (Some 0, \<lparr>ce_logged_at = now, ce_suppressed = 0\<rparr>))"

interpretation coalesce: keyed_table MAX_CLIENTS admit_at admit_one
  by unfold_locales (auto simp: admit_at_def admit_one_def Let_def split: option.splits)

text \<open>What a client sent and what it was answered: the rejections are those of the records, each with the ones
  held back before it, and those counted since.\<close>

definition logged :: "nat option list \<Rightarrow> nat" where
  "logged as = sum_list (map (\<lambda>a. case a of Some n \<Rightarrow> n + 1 | None \<Rightarrow> 0) as)"

definition held :: "coalesce_entry option \<Rightarrow> nat" where
  "held e = (case e of Some e \<Rightarrow> ce_suppressed e | None \<Rightarrow> 0)"

lemma admit_conserves:
  "held e + length ts \<le> u32_max \<Longrightarrow>
     logged (fst (entry_run admit_one ts e)) + held (snd (entry_run admit_one ts e)) = held e + length ts"
proof (induction ts arbitrary: e)
  case (Cons t ts)
  obtain a e' where a: "admit_one t e = (a, e')" by (cases "admit_one t e")
  then have step: "(case a of Some n \<Rightarrow> n + 1 | None \<Rightarrow> 0) + ce_suppressed e' = held e + 1"
    using Cons.prems by (auto simp: admit_one_def held_def sat_add_def split: option.splits if_splits)
  then have "held (Some e') + length ts \<le> u32_max" using Cons.prems by (simp add: held_def)
  from Cons.IH [OF this] step show ?case
    by (simp add: a Let_def case_prod_unfold logged_def held_def)
qed (simp add: logged_def)

text \<open>The times at which a record is written.\<close>

definition record_times :: "nat list \<Rightarrow> nat option list \<Rightarrow> nat list" where
  "record_times ts as = map fst (filter (\<lambda>(t, a). a \<noteq> None) (zip ts as))"

lemma record_times_simps [simp]:
  "record_times [] as = []" "record_times (t # ts) (a # as) = (if a = None then [] else [t]) @ record_times ts as"
  by (simp_all add: record_times_def)

lemma admit_spaced:
  "sorted_wrt (\<lambda>t u. t + WINDOW \<le> u) (record_times ts (fst (entry_run admit_one ts e)))
   \<and> (\<forall>e'. e = Some e' \<longrightarrow> (\<forall>t\<in>set (record_times ts (fst (entry_run admit_one ts e))). ce_logged_at e' + WINDOW \<le> t))"
proof (induction ts arbitrary: e)
  case (Cons t ts)
  obtain a e' where a: "admit_one t e = (a, e')" by (cases "admit_one t e")
  let ?rest = "record_times ts (fst (entry_run admit_one ts (Some e')))"
  have rest: "sorted_wrt (\<lambda>t u. t + WINDOW \<le> u) ?rest" "\<And>u. u \<in> set ?rest \<Longrightarrow> ce_logged_at e' + WINDOW \<le> u"
    using Cons.IH [of "Some e'"] by auto
  have run: "record_times (t # ts) (fst (entry_run admit_one (t # ts) e)) = (if a = None then [] else [t]) @ ?rest"
    by (simp add: a Let_def case_prod_unfold)
  have "if a = None then \<exists>e0. e = Some e0 \<and> ce_logged_at e' = ce_logged_at e0
      else ce_logged_at e' = t \<and> (\<forall>e0. e = Some e0 \<longrightarrow> ce_logged_at e0 + WINDOW \<le> t)"
    using a by (auto simp: admit_one_def WINDOW_def SEC_def split: option.splits if_splits)
  then show ?case unfolding run using rest by (cases "a = None") fastforce+
qed simp

text \<open>Only the /64 of an address matters.\<close>

definition norm_events :: "('q \<times> ip_addr \<times> nat) list \<Rightarrow> ('q \<times> ip_addr \<times> nat) list" where
  "norm_events es = map (\<lambda>(ord, ip, now). (ord, normalize_ip ip, now)) es"

lemma admit_run_norm:
  "table_run admit_at (norm_events es) m =
     (map (\<lambda>(ip, a). (normalize_ip ip, a)) (fst (table_run admit es m)), snd (table_run admit es m))"
proof (induction es arbitrary: m)
  case (Cons ev es)
  obtain ord ip now where "ev = (ord, ip, now)" by (cases ev) auto
  then show ?case using Cons by (simp add: norm_events_def admit_def Let_def case_prod_unfold)
qed (simp add: norm_events_def)

section \<open>Properties\<close>

text \<open>While fewer than 256 clients are seen, a client, that is an IPv4 address or a /64, has its records
  written at least a minute apart, whatever the others do; and no rejection is lost: those the records
  report, each with the ones held back before it, and those still held back are all the client sent.\<close>

theorem coalesced_not_lost:
  assumes "card (event_keys (norm_events es)) < 256" and "client = normalize_ip ip"
    and "ts = events_of client (norm_events es)" and "length ts \<le> u32_max"
    and "answers = map snd (filter (\<lambda>(ip, a). normalize_ip ip = client) (fst (table_run admit es coalescer_new)))"
  shows "sorted_wrt (\<lambda>t u. t + 60 * SEC \<le> u) (record_times ts answers)
    \<and> logged answers + held (hm_get (snd (table_run admit es coalescer_new)) client) = length ts"
proof -
  let ?run = "entry_run admit_one ts None"
  have "finite (event_keys (norm_events es))" by (simp add: event_keys_def)
  from coalesce.run_per_key [OF hm_ok_Nil this, of "norm_events es" client] assms(1,3)
  have "answers_of client (fst (table_run admit_at (norm_events es) [])) = fst ?run"
    and "hm_get (snd (table_run admit_at (norm_events es) [])) client = snd ?run"
    by (simp_all add: MAX_CLIENTS_def)
  moreover have "answers_of client (fst (table_run admit_at (norm_events es) [])) = answers"
    unfolding admit_run_norm assms(5) answers_of_def
    by (simp add: filter_map comp_def case_prod_unfold coalescer_new_def)
  ultimately have run: "answers = fst ?run" "hm_get (snd (table_run admit es coalescer_new)) client = snd ?run"
    by (simp_all add: admit_run_norm coalescer_new_def)
  then show ?thesis
    using admit_spaced [of ts None] admit_conserves [of None ts] assms(4) by (simp add: WINDOW_def held_def)
qed

theorem coalesced_not_lost_witness:
  "logged (map snd (filter (\<lambda>(ip, a). normalize_ip ip = V4 [10, 0, 0, 1])
      (fst (table_run admit [(\<lambda>m. m, V4 [10, 0, 0, 1], 0), (\<lambda>m. m, V4 [10, 0, 0, 1], 7)] coalescer_new))))
    + held (hm_get (snd (table_run admit [(\<lambda>m. m, V4 [10, 0, 0, 1], 0), (\<lambda>m. m, V4 [10, 0, 0, 1], 7)] coalescer_new))
        (V4 [10, 0, 0, 1])) = length (events_of (V4 [10, 0, 0, 1]) (norm_events [(\<lambda>m. m, V4 [10, 0, 0, 1], 0), (\<lambda>m. m, V4 [10, 0, 0, 1], 7)]))"
  using coalesced_not_lost [of "[(\<lambda>m. m, V4 [10, 0, 0, 1], 0), (\<lambda>m. m, V4 [10, 0, 0, 1], 7)]" "V4 [10, 0, 0, 1]"
      "V4 [10, 0, 0, 1]", OF _ _ refl _ refl]
  by (simp add: norm_events_def u32_max_def)

end
