(* ===== verification/Session_Store.thy ===== *)
theory Session_Store
  imports Tables Operations Auth_Error
begin

text \<open>
  \<^verbatim>\<open>crates/detent-web/src/auth/session.rs\<close>: the in-memory session table, its timeouts, rotation, handles,
  step-up and pending second factor, and the session cookie. SHA-256 is code of another crate: \<open>key_of\<close> is an
  argument, and no property assumes that it has no collisions. The random id, token and handle of a new session
  are an argument \<open>fresh\<close>, \<open>None\<close> when the system has no random bytes. Constant-time comparison is equality. A
  poisoned lock, debug output and the background task are not modelled.
\<close>

section \<open>Sessions\<close>

definition COOKIE_NAME :: rstr where "COOKIE_NAME = lit ''__Host-detent_session''"
definition MAX_SESSIONS :: nat where "MAX_SESSIONS = 256"
definition PENDING_TOTP_TTL :: nat where "PENDING_TOTP_TTL = 10 * 60 * SEC"
definition STEP_UP_TTL :: nat where "STEP_UP_TTL = 5 * 60 * SEC"

record session =
  se_subject :: rstr
  se_scopes :: scopes
  se_csrf_token :: rstr
  se_created :: nat
  se_last_seen :: nat
  se_totp_satisfied :: bool
  se_must_change_password :: bool
  se_handle :: rstr
  se_step_up :: "nat option"

definition step_up_left :: "session \<Rightarrow> nat \<Rightarrow> nat option" where
  "step_up_left s now =
     (case se_step_up s of
        None \<Rightarrow> None
      | Some at \<Rightarrow> (let since = now - at in if since < STEP_UP_TTL then Some (STEP_UP_TTL - since) else None))"

record session_view =
  sv_subject :: rstr
  sv_scopes :: "rstr list"
  sv_csrf_token :: rstr
  sv_expires_in_secs :: nat
  sv_totp_satisfied :: bool
  sv_must_change_password :: bool
  sv_step_up_expires_in_secs :: "nat option"

record session_summary =
  ss_handle :: rstr
  ss_created_unix_s :: int
  ss_last_seen_unix_s :: int
  ss_expires_in_secs :: nat
  ss_totp_satisfied :: bool
  ss_current :: bool

definition set_cookie_value :: "rstr \<Rightarrow> rstr" where
  "set_cookie_value sid = COOKIE_NAME @ lit ''='' @ sid @ lit ''; Secure; HttpOnly; SameSite=Strict; Path=/''"

definition clear_cookie_value :: rstr where
  "clear_cookie_value = COOKIE_NAME @ lit ''=; Secure; HttpOnly; SameSite=Strict; Path=/; Max-Age=0''"

definition cookie_value :: "rstr \<Rightarrow> rstr option" where
  "cookie_value header =
     find_map (\<lambda>pair. case split_once 61 pair of
         None \<Rightarrow> None
       | Some (name, value) \<Rightarrow> if trim name = COOKIE_NAME then Some (trim value) else None)
       (split_by (\<lambda>c. c = 59) header)"

record session_entry =
  en_id :: rstr
  en_session :: session
  en_pending_totp :: "(nat list \<times> nat) option"

record 'd session_store =
  st_entries :: "('d, session_entry) hash_map"
  st_idle :: nat
  st_absolute :: nat
  st_capacity :: nat

definition handle_eq :: "rstr \<Rightarrow> rstr \<Rightarrow> bool" where
  "handle_eq stored presented \<longleftrightarrow> length stored = length presented \<and> stored = presented"

definition i64_max :: int where "i64_max = 2 ^ 63 - 1"
definition i64_min :: int where "i64_min = - (2 ^ 63)"

definition unix_of :: "nat \<Rightarrow> nat \<Rightarrow> int \<Rightarrow> int" where
  "unix_of at now now_unix =
     (let ago = min (int ((now - at) div SEC)) i64_max in max i64_min (min i64_max (now_unix - ago)))"

section \<open>The table\<close>

definition store_with_capacity :: "nat \<Rightarrow> nat \<Rightarrow> nat \<Rightarrow> 'd session_store" where
  "store_with_capacity idle absolute capacity =
     \<lparr>st_entries = [], st_idle = idle, st_absolute = absolute, st_capacity = max capacity 1\<rparr>"

definition store_new :: "nat \<Rightarrow> nat \<Rightarrow> 'd session_store" where
  "store_new idle absolute = store_with_capacity idle absolute MAX_SESSIONS"

definition store_len :: "'d session_store \<Rightarrow> nat" where
  "store_len st = length (st_entries st)"

definition expired :: "session \<Rightarrow> nat \<Rightarrow> nat \<Rightarrow> nat \<Rightarrow> bool" where
  "expired s idle absolute now \<longleftrightarrow> idle \<le> now - se_last_seen s \<or> absolute \<le> now - se_created s"

definition evict_expired :: "nat \<Rightarrow> 'd session_store \<Rightarrow> 'd session_store" where
  "evict_expired now st =
     st\<lparr>st_entries := hm_retain (\<lambda>e. \<not> expired (en_session e) (st_idle st) (st_absolute st) now) (st_entries st)\<rparr>"

definition create ::
  "(rstr \<Rightarrow> 'd) \<Rightarrow> (rstr \<times> rstr \<times> rstr) option \<Rightarrow> rstr \<Rightarrow> scopes \<Rightarrow> bool \<Rightarrow> nat \<Rightarrow> 'd session_store
     \<Rightarrow> (auth_error, rstr \<times> session) result \<times> 'd session_store" where
  "create key_of fresh subject held totp_satisfied now st =
     (case fresh of
        None \<Rightarrow> (Inl Entropy, st)
      | Some (sid, csrf, handle) \<Rightarrow>
          (let s = \<lparr>se_subject = subject, se_scopes = held, se_csrf_token = csrf, se_created = now,
                    se_last_seen = now, se_totp_satisfied = totp_satisfied, se_must_change_password = False,
                    se_handle = handle, se_step_up = None\<rparr>;
               st = evict_expired now st
           in if st_capacity st \<le> length (st_entries st) then (Inl SessionLimit, st)
              else (Inr (sid, s),
                    st\<lparr>st_entries := hm_put (key_of sid) \<lparr>en_id = sid, en_session = s, en_pending_totp = None\<rparr>
                                      (st_entries st)\<rparr>)))"

definition lookup :: "(rstr \<Rightarrow> 'd) \<Rightarrow> rstr \<Rightarrow> nat \<Rightarrow> 'd session_store \<Rightarrow> session option \<times> 'd session_store" where
  "lookup key_of presented now st =
     (let key = key_of presented
      in case hm_get (st_entries st) key of
           None \<Rightarrow> (None, st)
         | Some e \<Rightarrow>
             if en_id e \<noteq> presented then (None, st)
             else if expired (en_session e) (st_idle st) (st_absolute st) now
             then (None, st\<lparr>st_entries := hm_del key (st_entries st)\<rparr>)
             else (let s = (en_session e)\<lparr>se_last_seen := now\<rparr>
                   in (Some s, st\<lparr>st_entries := hm_put key (e\<lparr>en_session := s\<rparr>) (st_entries st)\<rparr>)))"

definition rotate_session ::
  "(rstr \<Rightarrow> 'd) \<Rightarrow> (rstr \<times> rstr \<times> rstr) option \<Rightarrow> rstr \<Rightarrow> rstr \<Rightarrow> scopes option \<Rightarrow> bool option \<Rightarrow> nat
     \<Rightarrow> 'd session_store \<Rightarrow> (auth_error, (rstr \<times> session) option) result \<times> 'd session_store" where
  "rotate_session key_of fresh presented subject held totp_satisfied now st =
     (case fresh of
        None \<Rightarrow> (Inl Entropy, st)
      | Some (sid, csrf, handle) \<Rightarrow>
          (let key = key_of presented
           in case hm_get (st_entries st) key of
                None \<Rightarrow> (Inr None, st)
              | Some e \<Rightarrow>
                  (let gone = st\<lparr>st_entries := hm_del key (st_entries st)\<rparr>; old = en_session e
                   in if en_id e \<noteq> presented \<or> expired old (st_idle st) (st_absolute st) now then (Inr None, gone)
                      else if se_subject old \<noteq> subject then (Inr None, gone)
                      else (let s = \<lparr>se_subject = se_subject old,
                                     se_scopes = (case held of Some h \<Rightarrow> h | None \<Rightarrow> se_scopes old),
                                     se_csrf_token = csrf, se_created = se_created old, se_last_seen = now,
                                     se_totp_satisfied = (case totp_satisfied of Some b \<Rightarrow> b | None \<Rightarrow> se_totp_satisfied old),
                                     se_must_change_password = False, se_handle = handle, se_step_up = None\<rparr>
                            in (Inr (Some (sid, s)),
                                gone\<lparr>st_entries := hm_put (key_of sid)
                                       \<lparr>en_id = sid, en_session = s, en_pending_totp = None\<rparr> (st_entries gone)\<rparr>)))))"

definition revoke_subject :: "rstr \<Rightarrow> 'd session_store \<Rightarrow> 'd session_store" where
  "revoke_subject subject st = st\<lparr>st_entries := hm_retain (\<lambda>e. se_subject (en_session e) \<noteq> subject) (st_entries st)\<rparr>"

definition expires_in :: "'d session_store \<Rightarrow> session \<Rightarrow> nat \<Rightarrow> nat" where
  "expires_in st s now =
     (let idle_left = st_idle st - (now - se_last_seen s); absolute_left = st_absolute st - (now - se_created s)
      in min idle_left absolute_left)"

definition list_sessions ::
  "('d, session_entry) iter_order \<Rightarrow> rstr \<Rightarrow> rstr \<Rightarrow> nat \<Rightarrow> int \<Rightarrow> 'd session_store
     \<Rightarrow> session_summary list \<times> 'd session_store" where
  "list_sessions ord subject current now now_unix st =
     (let st = evict_expired now st;
          listed = map (\<lambda>e. \<lparr>ss_handle = se_handle (en_session e),
                             ss_created_unix_s = unix_of (se_created (en_session e)) now now_unix,
                             ss_last_seen_unix_s = unix_of (se_last_seen (en_session e)) now now_unix,
                             ss_expires_in_secs = expires_in st (en_session e) now div SEC,
                             ss_totp_satisfied = se_totp_satisfied (en_session e),
                             ss_current = handle_eq (se_handle (en_session e)) current\<rparr>)
                     (filter (\<lambda>e. se_subject (en_session e) = subject) (map snd (ord (st_entries st))))
      in (sort_key (\<lambda>x. (- ss_created_unix_s x, ss_handle x)) listed, st))"

definition revoke_handle :: "rstr \<Rightarrow> rstr \<Rightarrow> 'd session_store \<Rightarrow> bool \<times> 'd session_store" where
  "revoke_handle subject handle st =
     (let before = length (st_entries st);
          es = hm_retain (\<lambda>e. \<not> (handle_eq (se_handle (en_session e)) handle \<and> se_subject (en_session e) = subject))
                 (st_entries st)
      in (before \<noteq> length es, st\<lparr>st_entries := es\<rparr>))"

definition revoke_others :: "rstr \<Rightarrow> rstr \<Rightarrow> 'd session_store \<Rightarrow> nat \<times> 'd session_store" where
  "revoke_others subject keep st =
     (let before = length (st_entries st);
          es = hm_retain (\<lambda>e. se_subject (en_session e) \<noteq> subject \<or> handle_eq (se_handle (en_session e)) keep)
                 (st_entries st)
      in (before - length es, st\<lparr>st_entries := es\<rparr>))"

definition logout :: "(rstr \<Rightarrow> 'd) \<Rightarrow> rstr \<Rightarrow> 'd session_store \<Rightarrow> bool \<times> 'd session_store" where
  "logout key_of presented st =
     (let key = key_of presented
      in case hm_get (st_entries st) key of
           Some e \<Rightarrow> if en_id e = presented then (True, st\<lparr>st_entries := hm_del key (st_entries st)\<rparr>) else (False, st)
         | None \<Rightarrow> (False, st))"

definition store_sweep :: "nat \<Rightarrow> 'd session_store \<Rightarrow> nat \<times> 'd session_store" where
  "store_sweep now st =
     (let before = length (st_entries st); st = evict_expired now st in (before - length (st_entries st), st))"

definition view_session :: "'d session_store \<Rightarrow> session \<Rightarrow> nat \<Rightarrow> session_view" where
  "view_session st s now =
     \<lparr>sv_subject = se_subject s, sv_scopes = scopes_names (se_scopes s), sv_csrf_token = se_csrf_token s,
      sv_expires_in_secs = expires_in st s now div SEC, sv_totp_satisfied = se_totp_satisfied s,
      sv_must_change_password = se_must_change_password s,
      sv_step_up_expires_in_secs = map_option (\<lambda>left. left div SEC) (step_up_left s now)\<rparr>"

definition step_up :: "(rstr \<Rightarrow> 'd) \<Rightarrow> rstr \<Rightarrow> nat \<Rightarrow> 'd session_store \<Rightarrow> bool \<times> 'd session_store" where
  "step_up key_of presented now st =
     (let key = key_of presented
      in case hm_get (st_entries st) key of
           None \<Rightarrow> (False, st)
         | Some e \<Rightarrow>
             if en_id e \<noteq> presented then (False, st)
             else if expired (en_session e) (st_idle st) (st_absolute st) now
             then (False, st\<lparr>st_entries := hm_del key (st_entries st)\<rparr>)
             else (True, st\<lparr>st_entries := hm_put key (e\<lparr>en_session := (en_session e)\<lparr>se_step_up := Some now\<rparr>\<rparr>)
                                           (st_entries st)\<rparr>))"

definition restrict :: "(rstr \<Rightarrow> 'd) \<Rightarrow> rstr \<Rightarrow> 'd session_store \<Rightarrow> session option \<times> 'd session_store" where
  "restrict key_of presented st =
     (case hm_get (st_entries st) (key_of presented) of
        None \<Rightarrow> (None, st)
      | Some e \<Rightarrow>
          if en_id e \<noteq> presented then (None, st)
          else (let s = (en_session e)\<lparr>se_must_change_password := True\<rparr>
                in (Some s, st\<lparr>st_entries := hm_put (key_of presented) (e\<lparr>en_session := s\<rparr>) (st_entries st)\<rparr>)))"

definition set_pending_totp ::
  "(rstr \<Rightarrow> 'd) \<Rightarrow> rstr \<Rightarrow> nat list \<Rightarrow> nat \<Rightarrow> 'd session_store \<Rightarrow> bool \<times> 'd session_store" where
  "set_pending_totp key_of presented secret now st =
     (case hm_get (st_entries st) (key_of presented) of
        None \<Rightarrow> (False, st)
      | Some e \<Rightarrow>
          if en_id e \<noteq> presented then (False, st)
          else (True, st\<lparr>st_entries := hm_put (key_of presented) (e\<lparr>en_pending_totp := Some (secret, now)\<rparr>) (st_entries st)\<rparr>))"

definition pending_totp ::
  "(rstr \<Rightarrow> 'd) \<Rightarrow> rstr \<Rightarrow> nat \<Rightarrow> 'd session_store \<Rightarrow> nat list option \<times> 'd session_store" where
  "pending_totp key_of presented now st =
     (case hm_get (st_entries st) (key_of presented) of
        None \<Rightarrow> (None, st)
      | Some e \<Rightarrow>
          if en_id e \<noteq> presented then (None, st)
          else (case en_pending_totp e of
                  None \<Rightarrow> (None, st)
                | Some (secret, started) \<Rightarrow>
                    if PENDING_TOTP_TTL \<le> now - started
                    then (None, st\<lparr>st_entries := hm_put (key_of presented) (e\<lparr>en_pending_totp := None\<rparr>) (st_entries st)\<rparr>)
                    else (Some secret, st)))"

definition take_pending_totp :: "(rstr \<Rightarrow> 'd) \<Rightarrow> rstr \<Rightarrow> 'd session_store \<Rightarrow> bool \<times> 'd session_store" where
  "take_pending_totp key_of presented st =
     (case hm_get (st_entries st) (key_of presented) of
        None \<Rightarrow> (False, st)
      | Some e \<Rightarrow>
          if en_id e \<noteq> presented then (False, st)
          else (en_pending_totp e \<noteq> None,
                st\<lparr>st_entries := hm_put (key_of presented) (e\<lparr>en_pending_totp := None\<rparr>) (st_entries st)\<rparr>))"

end
