(* ===== verification/Session_Trace.thy ===== *)
theory Session_Trace
  imports Session_Store
begin

text \<open>
  What the session table of \<open>Session_Store\<close> promises over whole histories: every state a sequence of calls
  leads to is well formed and within its capacity, a session that is found was issued and has not been ended,
  and a step-up was asked for.
\<close>

section \<open>Calls and histories\<close>

datatype ('d) session_op =
    SCreate "(rstr \<times> rstr \<times> rstr) option" rstr scopes bool nat
  | SLookup rstr nat
  | SRotate "(rstr \<times> rstr \<times> rstr) option" rstr rstr "scopes option" "bool option" nat
  | SRevokeSubject rstr
  | SList "('d, session_entry) iter_order" rstr rstr nat int
  | SRevokeHandle rstr rstr
  | SRevokeOthers rstr rstr
  | SLogout rstr
  | SSweep nat
  | SStepUp rstr nat
  | SRestrict rstr
  | SSetPending rstr "nat list" nat
  | SPending rstr nat
  | STakePending rstr

fun session_do :: "(rstr \<Rightarrow> 'd) \<Rightarrow> 'd session_op \<Rightarrow> 'd session_store \<Rightarrow> 'd session_store" where
  "session_do K (SCreate fresh subject held totp now) st = snd (create K fresh subject held totp now st)"
| "session_do K (SLookup p now) st = snd (lookup K p now st)"
| "session_do K (SRotate fresh p subject held totp now) st = snd (rotate_session K fresh p subject held totp now st)"
| "session_do K (SRevokeSubject subject) st = revoke_subject subject st"
| "session_do K (SList ord subject current now now_unix) st = snd (list_sessions ord subject current now now_unix st)"
| "session_do K (SRevokeHandle subject h) st = snd (revoke_handle subject h st)"
| "session_do K (SRevokeOthers subject h) st = snd (revoke_others subject h st)"
| "session_do K (SLogout p) st = snd (logout K p st)"
| "session_do K (SSweep now) st = snd (store_sweep now st)"
| "session_do K (SStepUp p now) st = snd (step_up K p now st)"
| "session_do K (SRestrict p) st = snd (restrict K p st)"
| "session_do K (SSetPending p secret now) st = snd (set_pending_totp K p secret now st)"
| "session_do K (SPending p now) st = snd (pending_totp K p now st)"
| "session_do K (STakePending p) st = snd (take_pending_totp K p st)"

definition session_run :: "(rstr \<Rightarrow> 'd) \<Rightarrow> 'd session_op list \<Rightarrow> 'd session_store \<Rightarrow> 'd session_store" where
  "session_run K ops st = fold (session_do K) ops st"

text \<open>The id a call may issue, and to whom.\<close>

fun issues :: "'d session_op \<Rightarrow> (rstr \<times> rstr) option" where
  "issues (SCreate (Some (sid, csrf, handle)) subject held totp now) = Some (sid, subject)"
| "issues (SRotate (Some (sid, csrf, handle)) p subject held totp now) = Some (sid, subject)"
| "issues _ = None"

text \<open>The session a call uses, and when: it issues it, or looks it up.\<close>

fun uses :: "'d session_op \<Rightarrow> (rstr \<times> nat) option" where
  "uses (SCreate (Some (sid, csrf, handle)) subject held totp now) = Some (sid, now)"
| "uses (SRotate (Some (sid, csrf, handle)) p subject held totp now) = Some (sid, now)"
| "uses (SLookup p now) = Some (p, now)"
| "uses _ = None"

text \<open>An id goes back to a login of a user at a time: the login issued it, or it was rotated from such an id for the same user.\<close>

inductive logged_in :: "'d session_op list \<Rightarrow> rstr \<Rightarrow> rstr \<Rightarrow> nat \<Rightarrow> bool" for ops where
  login: "SCreate (Some (sid, csrf, handle)) u held totp t \<in> set ops \<Longrightarrow> logged_in ops sid u t"
| rotated: "logged_in ops p u t \<Longrightarrow> SRotate (Some (sid, csrf, handle)) p u held totp now \<in> set ops \<Longrightarrow> logged_in ops sid u t"

section \<open>One call\<close>

definition store_ok :: "(rstr \<Rightarrow> 'd) \<Rightarrow> 'd session_store \<Rightarrow> bool" where
  "store_ok K st \<longleftrightarrow> hm_ok (st_entries st) \<and> (\<forall>e\<in>set (st_entries st). fst e = K (en_id (snd e)))
     \<and> length (st_entries st) \<le> st_capacity st"

text \<open>An entry after a call is one from before with the same owner, perhaps stepped up, or the one just issued.\<close>

definition kin :: "session_entry \<Rightarrow> session_entry \<Rightarrow> bool" where
  "kin e e' \<longleftrightarrow> en_id e' = en_id e \<and> se_subject (en_session e') = se_subject (en_session e)
     \<and> se_created (en_session e') = se_created (en_session e)"

definition touched :: "'d session_op \<Rightarrow> session_entry \<Rightarrow> session_entry \<Rightarrow> bool" where
  "touched op e e' \<longleftrightarrow> kin e e'
     \<and> (se_step_up (en_session e') = se_step_up (en_session e)
        \<or> (\<exists>now. op = SStepUp (en_id e) now \<and> se_step_up (en_session e') = Some now))
     \<and> (se_last_seen (en_session e') = se_last_seen (en_session e) \<or> op = SLookup (en_id e) (se_last_seen (en_session e')))"

definition issued :: "'d session_op \<Rightarrow> ('d, session_entry) hash_map \<Rightarrow> session_entry \<Rightarrow> bool" where
  "issued op es e \<longleftrightarrow> se_step_up (en_session e) = None \<and>
     ((\<exists>csrf handle held totp.
         op = SCreate (Some (en_id e, csrf, handle)) (se_subject (en_session e)) held totp (se_created (en_session e))
         \<and> se_last_seen (en_session e) = se_created (en_session e))
      \<or> (\<exists>csrf handle held totp y. y \<in> set es
         \<and> op = SRotate (Some (en_id e, csrf, handle)) (en_id (snd y)) (se_subject (en_session e)) held totp (se_last_seen (en_session e))
         \<and> se_subject (en_session (snd y)) = se_subject (en_session e) \<and> se_created (en_session (snd y)) = se_created (en_session e)))"

definition from_call :: "'d session_op \<Rightarrow> ('d, session_entry) hash_map \<Rightarrow> 'd \<times> session_entry \<Rightarrow> bool" where
  "from_call op es x \<longleftrightarrow> (\<exists>e. (fst x, e) \<in> set es \<and> touched op e (snd x)) \<or> issued op es (snd x)"

lemma touched_refl [simp]: "touched op e e"
  by (simp add: touched_def kin_def)

lemma issued_issues: "issued op es e \<Longrightarrow> issues op = Some (en_id e, se_subject (en_session e))"
  by (auto simp: issued_def)

text \<open>A call either drops entries, or replaces one, or drops some and adds the one it issues.\<close>

inductive moves :: "(rstr \<Rightarrow> 'd) \<Rightarrow> 'd session_op \<Rightarrow> 'd session_store \<Rightarrow> 'd session_store \<Rightarrow> bool" for K op st where
  drops: "set es \<subseteq> set (st_entries st) \<Longrightarrow> hm_ok es \<Longrightarrow> length es \<le> length (st_entries st)
    \<Longrightarrow> moves K op st (st\<lparr>st_entries := es\<rparr>)"
| touches: "hm_get (st_entries st) (K (en_id e)) = Some e \<Longrightarrow> touched op e e'
    \<Longrightarrow> moves K op st (st\<lparr>st_entries := hm_put (K (en_id e)) e' (st_entries st)\<rparr>)"
| adds: "set es \<subseteq> set (st_entries st) \<Longrightarrow> hm_ok es \<Longrightarrow> length es < st_capacity st \<Longrightarrow> issued op (st_entries st) e'
    \<Longrightarrow> moves K op st (st\<lparr>st_entries := hm_put (K (en_id e')) e' es\<rparr>)"

lemma moves_same: "hm_ok (st_entries st) \<Longrightarrow> moves K op st st"
  using moves.drops [of "st_entries st" st K op] by simp

lemma moves_retain: "hm_ok (st_entries st) \<Longrightarrow> moves K op st (st\<lparr>st_entries := hm_retain p (st_entries st)\<rparr>)"
  by (rule moves.drops) (auto simp: hm_length_retain intro: subsetD [OF hm_retain_set])

lemma moves_del: "hm_ok (st_entries st) \<Longrightarrow> moves K op st (st\<lparr>st_entries := hm_del k (st_entries st)\<rparr>)"
  by (rule moves.drops) (auto simp: hm_length_del intro: subsetD [OF hm_del_set])

lemmas moves_intros = moves_same moves_retain moves_del

lemma moves_touch:
  "hm_get (st_entries st) (K p) = Some e \<Longrightarrow> en_id e = p \<Longrightarrow> touched op e e'
    \<Longrightarrow> moves K op st (st\<lparr>st_entries := hm_put (K p) e' (st_entries st)\<rparr>)"
  using moves.touches [of st K e op e'] by auto

lemma moves_add:
  "set es \<subseteq> set (st_entries st) \<Longrightarrow> hm_ok es \<Longrightarrow> length es < st_capacity st
    \<Longrightarrow> issued op (st_entries st) \<lparr>en_id = sid, en_session = s, en_pending_totp = x\<rparr>
    \<Longrightarrow> moves K op st (st\<lparr>st_entries := hm_put (K sid) \<lparr>en_id = sid, en_session = s, en_pending_totp = x\<rparr> es\<rparr>)"
  using moves.adds [of es st op "\<lparr>en_id = sid, en_session = s, en_pending_totp = x\<rparr>" K] by simp

lemma moves_create:
  assumes "hm_ok (st_entries st)"
  shows "moves K (SCreate fresh subject held totp now) st (snd (create K fresh subject held totp now st))"
proof (cases fresh)
  case None
  then show ?thesis using moves_same [OF assms] by (simp add: create_def)
next
  case (Some f)
  obtain sid csrf handle where f: "f = (sid, csrf, handle)" by (cases f) auto
  let ?es = "hm_retain (\<lambda>e. \<not> expired (en_session e) (st_idle st) (st_absolute st) now) (st_entries st)"
  have es: "set ?es \<subseteq> set (st_entries st)" "hm_ok ?es" using assms by (auto intro: subsetD [OF hm_retain_set])
  show ?thesis
  proof (cases "length ?es < st_capacity st")
    case True
    then have "snd (create K fresh subject held totp now st) = st\<lparr>st_entries := hm_put (K sid)
        \<lparr>en_id = sid, en_session = \<lparr>se_subject = subject, se_scopes = held, se_csrf_token = csrf, se_created = now,
           se_last_seen = now, se_totp_satisfied = totp, se_must_change_password = False, se_handle = handle,
           se_step_up = None\<rparr>, en_pending_totp = None\<rparr> ?es\<rparr>"
      by (simp add: create_def Some f Let_def evict_expired_def)
    then show ?thesis using moves_add [OF es True] Some f by (simp add: issued_def)
  next
    case False
    then show ?thesis using moves_retain [OF assms] by (simp add: create_def Some f Let_def evict_expired_def)
  qed
qed

lemma moves_rotate:
  assumes "store_ok K st"
  shows "moves K (SRotate fresh p subject held totp now) st (snd (rotate_session K fresh p subject held totp now st))"
proof -
  have ok: "hm_ok (st_entries st)" using assms by (simp add: store_ok_def)
  show ?thesis
  proof (cases "\<exists>sid csrf handle e. fresh = Some (sid, csrf, handle) \<and> hm_get (st_entries st) (K p) = Some e
      \<and> en_id e = p \<and> \<not> expired (en_session e) (st_idle st) (st_absolute st) now \<and> se_subject (en_session e) = subject")
    case False
    then show ?thesis using moves_same [OF ok] moves_del [OF ok]
      by (auto simp: rotate_session_def Let_def split: option.splits)
  next
    case True
    then obtain sid csrf handle e where f: "fresh = Some (sid, csrf, handle)" "hm_get (st_entries st) (K p) = Some e"
      "en_id e = p" "\<not> expired (en_session e) (st_idle st) (st_absolute st) now" "se_subject (en_session e) = subject"
      by blast
    have "K p \<in> fst ` set (st_entries st)" using hm_get_in [OF f(2)] by force
    then have "length (hm_del (K p) (st_entries st)) < st_capacity st"
      using hm_length_del_in [of "K p" "st_entries st"] assms by (auto simp: store_ok_def)
    moreover have "set (hm_del (K p) (st_entries st)) \<subseteq> set (st_entries st)" by (rule hm_del_set)
    moreover have "(K p, e) \<in> set (st_entries st)" using hm_get_in [OF f(2)] .
    ultimately show ?thesis using f ok by (simp add: rotate_session_def Let_def) (rule moves_add; force simp: issued_def)
  qed
qed

lemma session_do_moves:
  assumes "store_ok K st"
  shows "moves K op st (session_do K op st)"
proof -
  have ok: "hm_ok (st_entries st)" using assms by (simp add: store_ok_def)
  note simps = touched_def kin_def Let_def ok moves_intros
  show ?thesis
  proof (cases op)
    case (SLookup p now)
    then show ?thesis by (auto simp: lookup_def simps intro!: moves_touch split: option.splits)
  next
    case (SStepUp p now)
    then show ?thesis by (auto simp: step_up_def simps intro!: moves_touch split: option.splits)
  next
    case (SRestrict p)
    then show ?thesis by (auto simp: restrict_def simps intro!: moves_touch split: option.splits)
  next
    case (SSetPending p x now)
    then show ?thesis by (auto simp: set_pending_totp_def simps intro!: moves_touch split: option.splits)
  next
    case (SPending p now)
    then show ?thesis by (auto simp: pending_totp_def simps intro!: moves_touch split: option.splits)
  next
    case (STakePending p)
    then show ?thesis by (auto simp: take_pending_totp_def simps intro!: moves_touch split: option.splits)
  next
    case (SLogout p)
    then show ?thesis by (auto simp: logout_def simps split: option.splits)
  qed (simp_all add: moves_create moves_rotate assms revoke_subject_def list_sessions_def revoke_handle_def
      revoke_others_def store_sweep_def evict_expired_def simps)
qed

lemma moves_from_call: "moves K op st st' \<Longrightarrow> x \<in> set (st_entries st') \<Longrightarrow> from_call op (st_entries st) x"
proof (induction rule: moves.induct)
  case (drops es)
  then have "(fst x, snd x) \<in> set (st_entries st)" by auto
  then show ?case unfolding from_call_def using touched_refl by blast
next
  case (touches e e')
  then consider "x = (K (en_id e), e')" | "x \<in> set (st_entries st)" using hm_put_set by fastforce
  then show ?case
  proof cases
    case 1
    then show ?thesis using touches hm_get_in [OF touches(1)] by (auto simp: from_call_def)
  next
    case 2
    then have "(fst x, snd x) \<in> set (st_entries st)" by auto
    then show ?thesis unfolding from_call_def using touched_refl by blast
  qed
next
  case (adds es e')
  then consider "x = (K (en_id e'), e')" | "(fst x, snd x) \<in> set (st_entries st)" using hm_put_set by fastforce
  then show ?case unfolding from_call_def using adds(4) touched_refl by cases (simp, blast)
qed

lemma store_ok_put:
  assumes "store_ok K st" and "set es \<subseteq> set (st_entries st)" and "hm_ok es"
    and "K (en_id e) \<in> fst ` set es \<and> length es \<le> st_capacity st \<or> length es < st_capacity st"
  shows "store_ok K (st\<lparr>st_entries := hm_put (K (en_id e)) e es\<rparr>)"
proof -
  have "fst x = K (en_id (snd x))" if "x \<in> set (hm_put (K (en_id e)) e es)" for x
  proof -
    have "x = (K (en_id e), e) \<or> x \<in> set (st_entries st)" using that hm_put_set assms(2) by fastforce
    then show ?thesis using assms(1) by (auto simp: store_ok_def)
  qed
  then show ?thesis using assms(3,4) hm_put_length [of "K (en_id e)" e es] by (auto simp: store_ok_def)
qed

lemma moves_store_ok: "moves K op st st' \<Longrightarrow> store_ok K st \<Longrightarrow> store_ok K st'"
proof (induction rule: moves.induct)
  case (drops es)
  then show ?case by (auto simp: store_ok_def)
next
  case (touches e e')
  then have "K (en_id e') \<in> fst ` set (st_entries st)" using hm_get_in by (force simp: touched_def kin_def)
  then show ?case using store_ok_put [of K st "st_entries st" e'] touches by (auto simp: store_ok_def touched_def kin_def)
next
  case (adds es e')
  then show ?case using store_ok_put [of K st es e'] by blast
qed

text \<open>The configuration of a store never changes.\<close>

lemma moves_config:
  "moves K op st st' \<Longrightarrow> st_capacity st' = st_capacity st \<and> st_idle st' = st_idle st \<and> st_absolute st' = st_absolute st"
  by (induction rule: moves.induct) auto

section \<open>Histories\<close>

definition session_start :: "'d session_store \<Rightarrow> bool" where
  "session_start st \<longleftrightarrow> st_entries st = []"

definition session_step :: "(rstr \<Rightarrow> 'd) \<Rightarrow> 'd session_store \<Rightarrow> 'd session_store \<Rightarrow> bool" where
  "session_step K st st' \<longleftrightarrow> (\<exists>op. st' = session_do K op st)"

interpretation sessions: machine session_start "session_step K" "store_ok K" for K :: "rstr \<Rightarrow> 'd"
proof unfold_locales
  show "store_ok K s" if "session_start s" for s
    using that by (simp add: session_start_def store_ok_def)
  show "store_ok K t" if "session_step K s t" "store_ok K s" for s t
    using that moves_store_ok [OF session_do_moves] by (auto simp: session_step_def)
qed

lemma session_run_simps [simp]:
  "session_run K [] st = st" "session_run K (op # ops) st = session_run K ops (session_do K op st)"
  "session_run K (ops @ ops') st = session_run K ops' (session_run K ops st)"
  by (simp_all add: session_run_def)

lemma session_run_steps: "(session_step K)\<^sup>*\<^sup>* st (session_run K ops st)"
proof (induction ops arbitrary: st)
  case (Cons op ops)
  have "session_step K st (session_do K op st)" by (auto simp: session_step_def)
  with Cons [of "session_do K op st"] show ?case by (simp add: converse_rtranclp_into_rtranclp)
qed simp

lemma session_run_ok: "store_ok K (session_run K ops (store_with_capacity i a c))"
  by (rule sessions.reachable_inv [OF session_run_steps]) (simp add: session_start_def store_with_capacity_def)

lemma session_run_config:
  "store_ok K st \<Longrightarrow> st_capacity (session_run K ops st) = st_capacity st \<and> st_idle (session_run K ops st) = st_idle st
    \<and> st_absolute (session_run K ops st) = st_absolute st"
proof (induction ops arbitrary: st)
  case (Cons op ops)
  from session_do_moves [OF Cons.prems, of op] show ?case
    using Cons.IH [of "session_do K op st"] Cons.prems moves_config moves_store_ok by fastforce
qed simp

text \<open>A property of entries that no call of a list breaks holds of every entry after them.\<close>

lemma session_run_entries:
  assumes "store_ok K st" and "\<And>x. x \<in> set (st_entries st) \<Longrightarrow> P x"
    and "\<And>op es x. op \<in> set ops \<Longrightarrow> from_call op es x \<Longrightarrow> (\<And>y. y \<in> set es \<Longrightarrow> P y) \<Longrightarrow> P x"
    and "x \<in> set (st_entries (session_run K ops st))"
  shows "P x"
  using assms
proof (induction ops arbitrary: st)
  case (Cons op ops)
  note m = session_do_moves [OF Cons.prems(1), of op]
  have "P y" if "y \<in> set (st_entries (session_do K op st))" for y
    using Cons.prems(2,3) moves_from_call [OF m that] by (metis list.set_intros(1))
  moreover have "x \<in> set (st_entries (session_run K ops (session_do K op st)))" using Cons.prems(4) by simp
  ultimately show ?case using Cons.IH [OF moves_store_ok [OF m Cons.prems(1)]] Cons.prems(3)
    by (metis list.set_intros(2))
qed simp

definition traced :: "'d session_op list \<Rightarrow> session_entry \<Rightarrow> bool" where
  "traced ops e \<longleftrightarrow> logged_in ops (en_id e) (se_subject (en_session e)) (se_created (en_session e))
     \<and> (\<exists>op\<in>set ops. uses op = Some (en_id e, se_last_seen (en_session e)))
     \<and> (\<forall>t. se_step_up (en_session e) = Some t \<longrightarrow> SStepUp (en_id e) t \<in> set ops)"

lemma traced_touched: "traced ops e \<Longrightarrow> op \<in> set ops \<Longrightarrow> touched op e e' \<Longrightarrow> traced ops e'"
  by (auto simp: traced_def touched_def kin_def) (metis uses.simps(3))+

lemma traced_issued:
  assumes "issued op es e" and "op \<in> set ops" and "\<And>y. y \<in> set es \<Longrightarrow> traced ops (snd y)"
  shows "traced ops e"
  using assms(1) unfolding issued_def
proof (elim conjE disjE exE)
  fix csrf handle held totp
  assume op: "op = SCreate (Some (en_id e, csrf, handle)) (se_subject (en_session e)) held totp (se_created (en_session e))"
    and e: "se_step_up (en_session e) = None" "se_last_seen (en_session e) = se_created (en_session e)"
  have "logged_in ops (en_id e) (se_subject (en_session e)) (se_created (en_session e))"
    by (rule logged_in.login) (use op assms(2) in simp)
  moreover have "uses op = Some (en_id e, se_last_seen (en_session e))" using op e(2) by simp
  ultimately show ?thesis using assms(2) e by (auto simp: traced_def)
next
  fix csrf handle held totp y
  assume y: "y \<in> set es" and op: "op = SRotate (Some (en_id e, csrf, handle)) (en_id (snd y)) (se_subject (en_session e)) held totp (se_last_seen (en_session e))"
    and e: "se_step_up (en_session e) = None" "se_subject (en_session (snd y)) = se_subject (en_session e)"
      "se_created (en_session (snd y)) = se_created (en_session e)"
  have "logged_in ops (en_id (snd y)) (se_subject (en_session e)) (se_created (en_session e))"
    using assms(3) [OF y] e by (simp add: traced_def)
  then have "logged_in ops (en_id e) (se_subject (en_session e)) (se_created (en_session e))"
    by (rule logged_in.rotated) (use op assms(2) in simp)
  moreover have "uses op = Some (en_id e, se_last_seen (en_session e))" using op by simp
  ultimately show ?thesis using assms(2) e by (auto simp: traced_def)
qed

lemma session_run_traced:
  assumes "x \<in> set (st_entries (session_run K ops (store_with_capacity i a c)))"
  shows "traced ops (snd x)"
proof (rule session_run_entries [OF _ _ _ assms, where P = "\<lambda>x. traced ops (snd x)"])
  show "store_ok K (store_with_capacity i a c)" by (simp add: store_ok_def store_with_capacity_def)
  show "traced ops (snd x)" if "x \<in> set (st_entries (store_with_capacity i a c :: 'a session_store))" for x
    using that by (simp add: store_with_capacity_def)
  fix op :: "'a session_op" and es x
  assume op: "op \<in> set ops" "from_call op es x" and old: "\<And>y. y \<in> set es \<Longrightarrow> traced ops (snd y)"
  from op(2) show "traced ops (snd x)" unfolding from_call_def
    using traced_touched [OF _ op(1)] traced_issued [OF _ op(1) old] old by fastforce
qed

lemma lookup_found:
  assumes "lookup K p now st = (Some s, st')"
  obtains e where "(K p, e) \<in> set (st_entries st)" and "en_id e = p" and "s = (en_session e)\<lparr>se_last_seen := now\<rparr>"
    and "\<not> expired (en_session e) (st_idle st) (st_absolute st) now"
  using assms hm_get_in by (fastforce simp: lookup_def Let_def split: option.splits if_splits)

text \<open>No entry is left for an id, or for a user.\<close>

lemma session_run_gone:
  assumes "store_ok K st" and "\<And>x. x \<in> set (st_entries st) \<Longrightarrow> \<not> Q (en_id (snd x)) (se_subject (en_session (snd x)))"
    and "\<And>op sid u. op \<in> set ops \<Longrightarrow> issues op = Some (sid, u) \<Longrightarrow> \<not> Q sid u"
    and "lookup K p now (session_run K ops st) = (Some s, st')"
  shows "\<not> Q p (se_subject s)"
proof -
  obtain e where e: "(K p, e) \<in> set (st_entries (session_run K ops st))" "en_id e = p" "se_subject (en_session e) = se_subject s"
    using lookup_found [OF assms(4)] by (metis session.select_convs(1) session.surjective session.update_convs(5))
  have "\<not> Q (en_id (snd (K p, e))) (se_subject (en_session (snd (K p, e))))"
    by (rule session_run_entries [OF assms(1) _ _ e(1), where P = "\<lambda>x. \<not> Q (en_id (snd x)) (se_subject (en_session (snd x)))"])
       (use assms(2,3) in \<open>auto simp: from_call_def touched_def kin_def dest: issued_issues\<close>)
  then show ?thesis using e by simp
qed

lemma store_ok_get:
  assumes "store_ok K st" and "x \<in> set (st_entries st)"
  shows "hm_get (st_entries st) (K (en_id (snd x))) = Some (snd x)"
proof -
  have "x = (K (en_id (snd x)), snd x)" using assms by (simp add: store_ok_def prod_eq_iff)
  then show ?thesis using assms hm_in_get unfolding store_ok_def by metis
qed

lemma logout_gone:
  assumes "store_ok K st" and "x \<in> set (st_entries (session_do K (SLogout p) st))"
  shows "en_id (snd x) \<noteq> p"
proof
  assume p: "en_id (snd x) = p"
  have ok: "store_ok K (session_do K (SLogout p) st)" using moves_store_ok [OF session_do_moves] assms(1) by blast
  then have "hm_get (st_entries (session_do K (SLogout p) st)) (K p) = Some (snd x)"
    using store_ok_get [OF ok assms(2)] p by simp
  then show False using p by (auto simp: logout_def Let_def split: option.splits if_splits)
qed

lemma rotate_gone:
  assumes "store_ok K st" and "sid \<noteq> p"
    and "x \<in> set (st_entries (session_do K (SRotate (Some (sid, csrf, handle)) p subject held totp now) st))"
  shows "en_id (snd x) \<noteq> p"
proof
  let ?st = "session_do K (SRotate (Some (sid, csrf, handle)) p subject held totp now) st"
  assume p: "en_id (snd x) = p"
  have ok: "store_ok K ?st" using moves_store_ok [OF session_do_moves] assms(1) by blast
  then obtain y where "hm_get (st_entries ?st) (K p) = Some y" "en_id y = p"
    using store_ok_get [OF ok assms(3)] p by auto
  then show False using assms(2) by (auto simp: rotate_session_def Let_def split: option.splits if_splits)
qed

section \<open>Properties\<close>

text \<open>C25. In every state a history of calls leads to, at most the configured number of sessions is live. A
  session that a presented id finds goes back, through rotations for the same user only, to a login of exactly its user, at the time
  the session says; that login is not older than the absolute limit. The id was issued or looked up within the idle limit,
  and when the session counts as stepped up, that id stepped up less than five minutes ago.\<close>

theorem session_traceable:
  assumes "st = session_run K ops (store_with_capacity idle absolute capacity)"
    and "lookup K p now st = (Some s, st')"
  shows "store_len st \<le> max capacity 1
    \<and> logged_in ops p (se_subject s) (se_created s) \<and> now - se_created s < absolute
    \<and> (\<exists>op\<in>set ops. \<exists>t. uses op = Some (p, t) \<and> now - t < idle)
    \<and> (if step_up_left s now = None then True else \<exists>t. SStepUp p t \<in> set ops \<and> now < t + 300 * SEC)"
proof -
  obtain e where e: "(K p, e) \<in> set (st_entries st)" "en_id e = p" "s = (en_session e)\<lparr>se_last_seen := now\<rparr>"
    "\<not> expired (en_session e) (st_idle st) (st_absolute st) now"
    using lookup_found [OF assms(2)] .
  have init: "store_ok K (store_with_capacity idle absolute capacity)"
    by (simp add: store_ok_def store_with_capacity_def)
  have tr: "traced ops e" using session_run_traced [of "(K p, e)" K ops] e(1) assms(1) by simp
  have cap: "store_len st \<le> st_capacity st"
    using session_run_ok [of K ops idle absolute capacity] assms(1) by (simp add: store_ok_def store_len_def)
  have conf: "st_capacity st = max capacity 1" "st_absolute st = absolute" "st_idle st = idle"
    using session_run_config [OF init, of ops] assms(1) by (simp_all add: store_with_capacity_def)
  have idle: "now - se_last_seen (en_session e) < idle" "now - se_created s < absolute"
    using e(3,4) conf by (auto simp: expired_def)
  have "\<exists>op\<in>set ops. \<exists>t. uses op = Some (p, t) \<and> now - t < idle" using tr e(2) idle(1) by (auto simp: traced_def)
  moreover have "if step_up_left s now = None then True else \<exists>t. SStepUp p t \<in> set ops \<and> now < t + 300 * SEC"
    using tr e(2,3) by (auto simp: traced_def step_up_left_def Let_def STEP_UP_TTL_def split: option.splits if_splits)
  ultimately show ?thesis using tr cap conf idle(2) e(2,3) by (auto simp: traced_def)
qed

text \<open>A login at 0, rotated at 50 and stepped up at 55: at 120 the idle limit of 100 is not reached, counted from the rotation, and the
  session is 120 old, counted from the login.\<close>

definition trace_ops :: "rstr session_op list" where
  "trace_ops = [SCreate (Some ([1], [2], [3])) [7] \<lparr>sc_write = True\<rparr> True 0, SRotate (Some ([4], [5], [6])) [1] [7] None None 50, SStepUp [4] 55]"

theorem session_traceable_witness:
  "\<exists>s st'. lookup (\<lambda>x. x) [4] 120 (session_run (\<lambda>x. x) trace_ops (store_with_capacity 100 200 9)) = (Some s, st')
     \<and> logged_in trace_ops [4] [7] (se_created s) \<and> 120 - se_created s < 200
     \<and> (\<exists>op\<in>set trace_ops. \<exists>t. uses op = Some ([4], t) \<and> 120 - t < 100)
     \<and> (\<exists>t. SStepUp [4] t \<in> set trace_ops \<and> 120 < t + 300 * SEC)"
proof -
  let ?l = "lookup (\<lambda>x. x) [4] 120 (session_run (\<lambda>x. x) trace_ops (store_with_capacity 100 200 9))"
  have "\<exists>s. fst ?l = Some s \<and> se_subject s = [7] \<and> step_up_left s 120 \<noteq> None"
    by (simp add: trace_ops_def create_def rotate_session_def step_up_def lookup_def evict_expired_def store_with_capacity_def hm_retain_def
      expired_def step_up_left_def STEP_UP_TTL_def SEC_def Let_def)
  then obtain s where s: "fst ?l = Some s" "se_subject s = [7]" "step_up_left s 120 \<noteq> None" by blast
  then have l: "?l = (Some s, snd ?l)" by (simp add: prod_eq_iff)
  show ?thesis
    by (intro exI) (rule conjI [OF l], use session_traceable [OF refl l] s(2,3) in auto)
qed

text \<open>An id that was logged out or rotated away finds nothing again, however the history goes on, unless the
  same id is issued anew.\<close>

theorem ended_session_stays_ended:
  assumes "ending = SLogout p \<or> (\<exists>sid csrf handle subject held totp t.
      ending = SRotate (Some (sid, csrf, handle)) p subject held totp t \<and> sid \<noteq> p)"
    and "\<forall>op\<in>set ops2. \<forall>u. issues op \<noteq> Some (p, u)"
  shows "fst (lookup K p now (session_run K (ops1 @ ending # ops2) (store_with_capacity idle absolute capacity))) = None"
proof (rule ccontr)
  let ?st1 = "session_run K ops1 (store_with_capacity idle absolute capacity)"
  let ?st = "session_run K ops2 (session_do K ending ?st1)"
  assume "\<not> ?thesis"
  then obtain s st' where l: "lookup K p now ?st = (Some s, st')"
    by (cases "lookup K p now ?st") auto
  have ok1: "store_ok K ?st1" by (rule session_run_ok)
  then have ok: "store_ok K (session_do K ending ?st1)" using moves_store_ok [OF session_do_moves] by blast
  have "en_id (snd x) \<noteq> p" if "x \<in> set (st_entries (session_do K ending ?st1))" for x
    using that assms(1) logout_gone [OF ok1] rotate_gone [OF ok1] by blast
  then have "\<not> (p = p)"
    by (intro session_run_gone [OF ok _ _ l, where Q = "\<lambda>sid u. sid = p"]) (use assms(2) in auto)
  then show False by simp
qed

theorem ended_session_stays_ended_witness:
  "fst (lookup (\<lambda>x. x) [1] 9 (session_run (\<lambda>x. x)
     ([SCreate (Some ([1], [2], [3])) [7] \<lparr>sc_write = True\<rparr> True 0] @ SLogout [1] # [SSweep 3])
     (store_with_capacity 100 200 9))) = None"
  by (rule ended_session_stays_ended) simp_all

text \<open>After all sessions of a user are revoked no id finds a session of that user, until one is issued to
  them anew.\<close>

theorem revoked_user_has_no_session:
  assumes "\<forall>op\<in>set ops2. \<forall>sid. issues op \<noteq> Some (sid, u)"
    and "lookup K p now (session_run K (ops1 @ SRevokeSubject u # ops2) (store_with_capacity idle absolute capacity))
      = (Some s, st')"
  shows "se_subject s \<noteq> u"
proof -
  let ?st1 = "session_run K ops1 (store_with_capacity idle absolute capacity)"
  have ok: "store_ok K (session_do K (SRevokeSubject u) ?st1)"
    using moves_store_ok [OF session_do_moves] session_run_ok by blast
  have "se_subject (en_session (snd x)) \<noteq> u" if "x \<in> set (st_entries (session_do K (SRevokeSubject u) ?st1))" for x
    using that by (auto simp: revoke_subject_def hm_retain_def)
  moreover have l: "lookup K p now (session_run K ops2 (session_do K (SRevokeSubject u) ?st1)) = (Some s, st')"
    using assms(2) by simp
  ultimately show ?thesis
    using session_run_gone [OF ok _ _ l, where Q = "\<lambda>sid v. v = u"] assms(1) by metis
qed

theorem revoked_user_has_no_session_witness:
  "se_subject (the (fst (lookup (\<lambda>x. x) [4] 9 (session_run (\<lambda>x. x)
     ([SCreate (Some ([4], [2], [3])) [8] \<lparr>sc_write = True\<rparr> True 0] @ SRevokeSubject [7] # [SSweep 3])
     (store_with_capacity 100 200 9))))) \<noteq> [7]"
proof -
  let ?r = "lookup (\<lambda>x. x) [4] 9 (session_run (\<lambda>x. x)
     ([SCreate (Some ([4], [2], [3])) [8] \<lparr>sc_write = True\<rparr> True 0] @ SRevokeSubject [7] # [SSweep 3])
     (store_with_capacity 100 200 9))"
  have "fst ?r \<noteq> None" by (simp add: create_def lookup_def evict_expired_def store_with_capacity_def hm_retain_def
      expired_def revoke_subject_def store_sweep_def Let_def)
  then obtain s where r: "?r = (Some s, snd ?r)" by (cases ?r) auto
  from r have "the (fst ?r) = s" by (metis fst_conv option.sel)
  with revoked_user_has_no_session [OF _ r] show ?thesis by simp
qed

text \<open>A session is rotated only for its own user and only while it is live; the new one keeps the user and
  the absolute deadline, has no step-up, and is found under the new id. Rotating it for another user ends it.\<close>

theorem rotation_exact:
  assumes "hm_get (st_entries st) (K p) = Some e" and "en_id e = p" and "sid \<noteq> p"
    and "rotate_session K (Some (sid, csrf, handle)) p subject held totp now st = (Inr answer, st')"
  shows "(case answer of
      Some (sid', s) \<Rightarrow> sid' = sid \<and> subject = se_subject (en_session e)
        \<and> \<not> expired (en_session e) (st_idle st) (st_absolute st) now
        \<and> se_subject s = subject \<and> se_created s = se_created (en_session e) \<and> step_up_left s now = None
        \<and> fst (lookup K sid now st') = (if st_idle st = 0 then None else Some s)
    | None \<Rightarrow> (subject \<noteq> se_subject (en_session e) \<or> expired (en_session e) (st_idle st) (st_absolute st) now)
        \<and> fst (lookup K p now st') = None)"
proof (cases "expired (en_session e) (st_idle st) (st_absolute st) now \<or> se_subject (en_session e) \<noteq> subject")
  case True
  then have "answer = None" "st' = st\<lparr>st_entries := hm_del (K p) (st_entries st)\<rparr>"
    using assms by (auto simp: rotate_session_def Let_def split: if_splits)
  then show ?thesis using True by (auto simp: lookup_def)
next
  case False
  then obtain s where s: "answer = Some (sid, s)"
    "st' = st\<lparr>st_entries := hm_put (K sid) \<lparr>en_id = sid, en_session = s, en_pending_totp = None\<rparr> (hm_del (K p) (st_entries st))\<rparr>"
    "se_subject s = subject" "se_created s = se_created (en_session e)" "se_step_up s = None" "se_last_seen s = now"
    using assms by (auto simp: rotate_session_def Let_def)
  have "s\<lparr>se_last_seen := now\<rparr> = s" using s(6) by (cases s) simp
  then show ?thesis using s False
    by (auto simp: lookup_def expired_def step_up_left_def Let_def)
qed

theorem rotation_exact_witness:
  "fst (lookup (\<lambda>x. x) [5] 4 (snd (rotate_session (\<lambda>x. x) (Some ([5], [6], [7])) [1] [9] None None 4
     (session_run (\<lambda>x. x) [SCreate (Some ([1], [2], [3])) [9] \<lparr>sc_write = True\<rparr> True 0] (store_new 100 200))))) \<noteq> None"
proof -
  let ?st = "session_run (\<lambda>x. x) [SCreate (Some ([1], [2], [3])) [9] \<lparr>sc_write = True\<rparr> True 0] (store_new 100 200)"
  let ?r = "rotate_session (\<lambda>x. x) (Some ([5], [6], [7])) [1] [9] None None 4 ?st"
  have e: "\<exists>e. hm_get (st_entries ?st) [1] = Some e \<and> en_id e = [1] \<and> se_subject (en_session e) = [9]
      \<and> \<not> expired (en_session e) (st_idle ?st) (st_absolute ?st) 4 \<and> st_idle ?st = 100"
    by (simp add: create_def evict_expired_def store_new_def store_with_capacity_def hm_retain_def expired_def MAX_SESSIONS_def Let_def)
  then obtain e where e: "hm_get (st_entries ?st) [1] = Some e" "en_id e = [1]" "se_subject (en_session e) = [9]"
      "\<not> expired (en_session e) (st_idle ?st) (st_absolute ?st) 4" "st_idle ?st = 100" by blast
  obtain answer where r: "?r = (Inr answer, snd ?r)"
    using e by (simp add: rotate_session_def Let_def)
  from rotation_exact [of _ "\<lambda>x. x", OF e(1,2) _ r] e show ?thesis by (auto split: option.splits)
qed

text \<open>The documentation says that the second factor of an enrolment is kept when a live session took it. The
  call does not look at the timeouts: a session that has expired and was not swept yet takes it.\<close>

lemma expired_session_takes_pending:
  assumes "hm_get (st_entries st) (K p) = Some e" and "en_id e = p"
    and "expired (en_session e) (st_idle st) (st_absolute st) now"
  shows "fst (set_pending_totp K p secret now st) \<and> fst (lookup K p now st) = None"
  using assms by (simp add: set_pending_totp_def lookup_def)

end
