(* ===== verification/Base32.thy ===== *)
theory Base32
  imports Prelude "HOL-Library.Word"
begin

text \<open>
  \<^verbatim>\<open>crates/detent-web/src/auth/base32.rs\<close>: base32 as TOTP keys are typed, on the 16-bit buffer of the code.
  Bytes are \<open>8 word\<close>, the buffer is a \<open>16 word\<close> whose upper bits are shifted out, and text is a list of code
  points: a code point outside ASCII is outside the alphabet, as each of its bytes is.
\<close>

unbundle bit_operations_syntax

section \<open>The code\<close>

definition ALPHABET :: rstr where
  "ALPHABET = lit ''ABCDEFGHIJKLMNOPQRSTUVWXYZ234567''"

text \<open>The inner loop of \<^verbatim>\<open>encode\<close>: while five bits are there, push their symbol.\<close>

fun encode_drain :: "16 word \<Rightarrow> nat \<Rightarrow> rstr \<times> nat" where
  "encode_drain buffer bits =
     (if 5 \<le> bits
      then let bits = bits - 5;
               index = unat (drop_bit bits buffer AND 0x1f);
               (rest, left) = encode_drain buffer bits
           in ((case get ALPHABET index of Some symbol \<Rightarrow> symbol # rest | None \<Rightarrow> rest), left)
      else ([], bits))"

declare encode_drain.simps [simp del]

fun encode_loop :: "8 word list \<Rightarrow> 16 word \<Rightarrow> nat \<Rightarrow> rstr" where
  "encode_loop [] buffer bits =
     (if 0 < bits
      then let index = unat (push_bit (5 - bits) buffer AND 0x1f)
           in (case get ALPHABET index of Some symbol \<Rightarrow> [symbol] | None \<Rightarrow> [])
      else [])"
| "encode_loop (byte # bytes) buffer bits =
     (let buffer = push_bit 8 buffer OR ucast byte;
          (out, left) = encode_drain buffer (bits + 8)
      in out @ encode_loop bytes buffer left)"

definition encode :: "8 word list \<Rightarrow> rstr" where
  "encode bytes = encode_loop bytes 0 0"

definition symbol_value :: "rchar \<Rightarrow> nat option" where
  "symbol_value symbol =
     (if 65 \<le> symbol \<and> symbol \<le> 90 then Some (symbol - 65)
      else if 97 \<le> symbol \<and> symbol \<le> 122 then Some (symbol - 97)
      else if 50 \<le> symbol \<and> symbol \<le> 55 then Some (symbol - 50 + 26)
      else None)"

fun decode_loop :: "rstr \<Rightarrow> 16 word \<Rightarrow> nat \<Rightarrow> bool \<Rightarrow> (8 word list \<times> 16 word \<times> nat) option" where
  "decode_loop [] buffer bits ended = Some ([], buffer, bits)"
| "decode_loop (symbol # text) buffer bits ended =
     (if symbol = 61 then decode_loop text buffer bits True
      else if ended then None
      else case symbol_value symbol of
             None \<Rightarrow> None
           | Some v \<Rightarrow>
               (let buffer = push_bit 5 buffer OR word_of_nat v; bits = bits + 5
                in if 8 \<le> bits
                   then let bits = bits - 8; byte = ucast (drop_bit bits buffer AND 0xff)
                        in map_option (\<lambda>(out, b, n). (byte # out, b, n)) (decode_loop text buffer bits ended)
                   else decode_loop text buffer bits ended))"

definition decode :: "rstr \<Rightarrow> 8 word list option" where
  "decode text =
     (case decode_loop text 0 0 False of
        None \<Rightarrow> None
      | Some (out, buffer, bits) \<Rightarrow>
          if 5 \<le> bits \<or> buffer AND (push_bit bits 1 - 1) \<noteq> 0 then None else Some out)"

section \<open>Bit strings\<close>

text \<open>The low \<open>k\<close> bits of a word, the most significant first.\<close>

definition bits_of :: "nat \<Rightarrow> 'a::len word \<Rightarrow> bool list" where
  "bits_of k w = map (bit w) (rev [0..<k])"

lemma bits_of_length [simp]: "length (bits_of k w) = k"
  by (simp add: bits_of_def)

lemma bits_of_eq: "bits_of k v = bits_of k w \<longleftrightarrow> (\<forall>i<k. bit v i = bit w i)"
  by (auto simp: bits_of_def)

lemma bits_of_append:
  "(\<And>i. i < m \<Longrightarrow> bit w i = bit v i) \<Longrightarrow> (\<And>i. i < k \<Longrightarrow> bit w (m + i) = bit u i)
    \<Longrightarrow> bits_of (k + m) w = bits_of k u @ bits_of m v"
proof (induction k)
  case 0
  then show ?case by (auto simp: bits_of_def)
next
  case (Suc k)
  then show ?case by (simp add: bits_of_def add.commute)
qed

lemma bits_of_inj8: "bits_of 8 v = bits_of 8 w \<Longrightarrow> v = (w :: 8 word)"
  by (rule bit_word_eqI) (simp add: bits_of_eq)

text \<open>Shifting in, and reading a group off the top.\<close>

lemma bits_push8: "k \<le> 4 \<Longrightarrow> bits_of (k + 8) (push_bit 8 buf OR ucast (b :: 8 word) :: 16 word) = bits_of k buf @ bits_of 8 b"
  by (rule bits_of_append) (auto simp: bit_simps dest: bit_imp_le_length)

lemma mask5: "(0x1f :: 16 word) = mask 5"
  by (simp add: mask_eq_exp_minus_1)

lemma mask8: "(0xff :: 16 word) = mask 8"
  by (simp add: mask_eq_exp_minus_1)

lemma bits_group5: "k + 5 \<le> 16 \<Longrightarrow> bits_of (k + 5) buf = bits_of 5 (drop_bit k buf AND 0x1f :: 16 word) @ bits_of k buf"
proof -
  have "bits_of (5 + k) buf = bits_of 5 (drop_bit k buf AND 0x1f :: 16 word) @ bits_of k buf"
    by (rule bits_of_append) (auto simp: mask5 bit_simps)
  then show ?thesis by (simp add: add.commute)
qed

lemma bits_push5: "bits_of (k + 5) (push_bit 5 buf OR v :: 16 word) = bits_of k buf @ bits_of 5 v"
  if "k \<le> 7" "v = v AND mask 5"
proof (rule bits_of_append)
  show "bit (push_bit 5 buf OR v) i = bit v i" if "i < 5" for i using that by (simp add: bit_simps)
  have "\<not> bit v (5 + i)" for i
    by (subst \<open>v = v AND mask 5\<close>) (simp add: bit_simps)
  then show "bit (push_bit 5 buf OR v) (5 + i) = bit buf i" if "i < k" for i
    using that \<open>k \<le> 7\<close> by (simp add: bit_simps)
qed

lemma bits_group8: "k \<le> 8 \<Longrightarrow> bits_of (k + 8) (buf :: 16 word)
    = bits_of 8 (ucast (drop_bit k buf AND 0xff) :: 8 word) @ bits_of k buf"
proof -
  assume "k \<le> 8"
  then have "bits_of (8 + k) buf = bits_of 8 (ucast (drop_bit k buf AND 0xff) :: 8 word) @ bits_of k buf"
    by (intro bits_of_append) (auto simp: mask8 bit_simps)
  then show ?thesis by (simp add: add.commute)
qed

lemma bits_last: "k < 5 \<Longrightarrow> bits_of 5 (push_bit (5 - k) buf AND 0x1f :: 16 word) = bits_of k buf @ replicate (5 - k) False"
proof -
  assume k: "k < 5"
  have "bits_of (k + (5 - k)) (push_bit (5 - k) buf AND 0x1f :: 16 word) = bits_of k buf @ bits_of (5 - k) (0 :: 16 word)"
    by (rule bits_of_append) (use k in \<open>auto simp: mask5 bit_simps\<close>)
  moreover have "bits_of (5 - k) (0 :: 16 word) = replicate (5 - k) False"
    by (rule nth_equalityI) (simp_all add: bits_of_def)
  ultimately show ?thesis using k by simp
qed

lemma bits_zero: "k < 16 \<Longrightarrow> (buf AND (push_bit k 1 - 1) = (0 :: 16 word)) \<longleftrightarrow> bits_of k buf = replicate k False"
proof -
  assume k: "k < 16"
  have "push_bit k 1 - 1 = (mask k :: 16 word)" by (simp add: mask_eq_exp_minus_1 push_bit_eq_mult)
  then have "(buf AND (push_bit k 1 - 1) = (0 :: 16 word)) \<longleftrightarrow> (\<forall>i<k. \<not> bit buf i)"
    using k by (auto simp: bit_eq_iff bit_simps) (meson less_trans)
  also have "\<dots> \<longleftrightarrow> bits_of k buf = replicate k False"
    by (auto simp: bits_of_def list_eq_iff_nth_eq rev_nth)
       (metis Suc_diff_Suc diff_diff_cancel diff_less_Suc less_imp_le_nat zero_less_diff Suc_leI diff_Suc_less gr_implies_not0 linorder_neqE_nat not_less_zero)
  finally show ?thesis .
qed

section \<open>Symbols\<close>

definition sym_bits :: "rchar \<Rightarrow> bool list" where
  "sym_bits c = bits_of 5 (word_of_nat (case symbol_value c of Some v \<Rightarrow> v | None \<Rightarrow> 0) :: 16 word)"

definition text_bits :: "rstr \<Rightarrow> bool list" where
  "text_bits s = concat (map sym_bits s)"

definition byte_bits :: "8 word list \<Rightarrow> bool list" where
  "byte_bits bs = concat (map (bits_of 8) bs)"

lemma text_bits_simps [simp]:
  "text_bits [] = []" "text_bits (c # s) = sym_bits c @ text_bits s" "text_bits (s @ t) = text_bits s @ text_bits t"
  by (simp_all add: text_bits_def)

lemma byte_bits_simps [simp]: "byte_bits [] = []" "byte_bits (b # bs) = bits_of 8 b @ byte_bits bs"
  by (simp_all add: byte_bits_def)

lemma text_bits_length [simp]: "length (text_bits s) = 5 * length s"
  by (induction s) (simp_all add: sym_bits_def)

lemma byte_bits_length [simp]: "length (byte_bits bs) = 8 * length bs"
  by (induction bs) simp_all

lemma byte_bits_inj: "byte_bits bs = byte_bits cs \<Longrightarrow> bs = cs"
proof (induction bs arbitrary: cs)
  case Nil
  then show ?case by (cases cs) (auto dest: arg_cong [where f = length])
next
  case (Cons b bs)
  then obtain c cs' where "cs = c # cs'" by (cases cs) (auto dest: arg_cong [where f = length])
  with Cons show ?case by (auto dest: bits_of_inj8)
qed

text \<open>The alphabet in order, and the value of each of its symbols.\<close>

lemma alphabet_values: "list_all (\<lambda>i. get ALPHABET i = Some (ALPHABET ! i) \<and> symbol_value (ALPHABET ! i) = Some i) [0..<32]"
  by code_simp

lemma alphabet_at: "i < 32 \<Longrightarrow> get ALPHABET i = Some (ALPHABET ! i)" "i < 32 \<Longrightarrow> symbol_value (ALPHABET ! i) = Some i"
  using alphabet_values by (auto simp: list_all_iff)

lemma alphabet_length: "length ALPHABET = 32"
  by code_simp

lemma symbol_value_less: "symbol_value c = Some v \<Longrightarrow> v < 32"
  by (auto simp: symbol_value_def split: if_splits)

lemma group_symbol:
  assumes "w = w AND (0x1f :: 16 word)"
  obtains c where "get ALPHABET (unat w) = Some c" and "sym_bits c = bits_of 5 w" and "c \<in> set ALPHABET"
proof -
  have "unat w < 32" using assms and_mask_less' [of 5 w] by (simp add: mask5 word_less_nat_alt)
  then have "get ALPHABET (unat w) = Some (ALPHABET ! unat w)" "symbol_value (ALPHABET ! unat w) = Some (unat w)"
    "ALPHABET ! unat w \<in> set ALPHABET"
    using alphabet_at by (simp_all add: alphabet_length)
  then show ?thesis using that by (simp add: sym_bits_def)
qed

section \<open>Encoding\<close>

lemma encode_drain_bits:
  "bits \<le> 16 \<Longrightarrow> encode_drain buf bits = (out, left) \<Longrightarrow>
     left < 5 \<and> text_bits out @ bits_of left buf = bits_of bits buf \<and> set out \<subseteq> set ALPHABET"
proof (induction buf bits arbitrary: out left rule: encode_drain.induct)
  case (1 buf bits)
  show ?case
  proof (cases "5 \<le> bits")
    case True
    obtain rest left' where r: "encode_drain buf (bits - 5) = (rest, left')" by (cases "encode_drain buf (bits - 5)")
    obtain c where c: "get ALPHABET (unat (drop_bit (bits - 5) buf AND 0x1f)) = Some c"
      "sym_bits c = bits_of 5 (drop_bit (bits - 5) buf AND 0x1f)" "c \<in> set ALPHABET"
      using group_symbol [of "drop_bit (bits - 5) buf AND 0x1f"] by (auto simp: and.assoc)
    have "out = c # rest" "left = left'"
      using "1.prems"(2) True r c(1) by (simp_all add: encode_drain.simps [of buf bits] Let_def)
    moreover have "left' < 5 \<and> text_bits rest @ bits_of left' buf = bits_of (bits - 5) buf \<and> set rest \<subseteq> set ALPHABET"
      using "1.IH" [OF True refl refl _ r] "1.prems"(1) by simp
    ultimately show ?thesis using bits_group5 [of "bits - 5" buf] True "1.prems"(1) c by simp
  next
    case False
    then show ?thesis using "1.prems" by (simp add: encode_drain.simps [of buf bits])
  qed
qed

lemma encode_loop_bits:
  "bits < 5 \<Longrightarrow> \<exists>p<5. text_bits (encode_loop bs buf bits) = bits_of bits buf @ byte_bits bs @ replicate p False
     \<and> set (encode_loop bs buf bits) \<subseteq> set ALPHABET"
proof (induction bs buf bits rule: encode_loop.induct)
  case (1 buf bits)
  show ?case
  proof (cases "bits = 0")
    case False
    obtain c where c: "get ALPHABET (unat (push_bit (5 - bits) buf AND 0x1f)) = Some c"
      "sym_bits c = bits_of 5 (push_bit (5 - bits) buf AND 0x1f)" "c \<in> set ALPHABET"
      using group_symbol [of "push_bit (5 - bits) buf AND 0x1f"] by (auto simp: and.assoc)
    then show ?thesis using False bits_last [OF "1.prems", of buf] "1.prems"
      by (intro exI [of _ "5 - bits"]) simp
  qed (simp add: bits_of_def)
next
  case (2 b bs buf bits)
  let ?buf = "push_bit 8 buf OR ucast b :: 16 word"
  obtain out left where d: "encode_drain ?buf (bits + 8) = (out, left)" by (cases "encode_drain ?buf (bits + 8)")
  have o: "left < 5" "text_bits out @ bits_of left ?buf = bits_of bits buf @ bits_of 8 b" "set out \<subseteq> set ALPHABET"
    using encode_drain_bits [OF _ d] "2.prems" bits_push8 [of bits buf b] by simp_all
  obtain p where "p < 5" "text_bits (encode_loop bs ?buf left) = bits_of left ?buf @ byte_bits bs @ replicate p False"
    "set (encode_loop bs ?buf left) \<subseteq> set ALPHABET"
    using "2.IH" [OF refl d [symmetric] refl o(1)] by auto
  moreover have "encode_loop (b # bs) buf bits = out @ encode_loop bs ?buf left" by (simp add: d)
  ultimately show ?case using o by (intro exI [of _ p]) (metis Un_subset_iff append.assoc byte_bits_simps(2) set_append text_bits_simps(3))
qed

section \<open>Decoding\<close>

definition is_symbol :: "rchar \<Rightarrow> bool" where
  "is_symbol c \<longleftrightarrow> symbol_value c \<noteq> None"

lemma is_symbol_pad [simp]: "\<not> is_symbol 61"
  by (simp add: is_symbol_def symbol_value_def)

lemma word_of_nat_mask5: "v < 32 \<Longrightarrow> (word_of_nat v :: 16 word) = word_of_nat v AND mask 5"
  by (rule less_mask_eq [symmetric]) (simp add: word_less_nat_alt unat_of_nat)

lemma decode_loop_bits:
  "list_all is_symbol s \<Longrightarrow> bits < 8 \<Longrightarrow> \<exists>out buf' n. decode_loop s buf bits False = Some (out, buf', n) \<and> n < 8
     \<and> byte_bits out @ bits_of n buf' = bits_of bits buf @ text_bits s"
proof (induction s arbitrary: buf bits)
  case (Cons c s)
  obtain v where v: "symbol_value c = Some v" using Cons.prems(1) by (auto simp: is_symbol_def)
  let ?buf = "push_bit 5 buf OR word_of_nat v :: 16 word"
  have c: "c \<noteq> 61" using Cons.prems(1) by auto
  have push: "bits_of (bits + 5) ?buf = bits_of bits buf @ sym_bits c"
    using bits_push5 [of bits "word_of_nat v" buf] word_of_nat_mask5 symbol_value_less [OF v] Cons.prems(2) v
    by (simp add: sym_bits_def)
  show ?case
  proof (cases "8 \<le> bits + 5")
    case True
    let ?n = "bits + 5 - 8"
    obtain out buf' n where "decode_loop s ?buf ?n False = Some (out, buf', n)" "n < 8"
      "byte_bits out @ bits_of n buf' = bits_of ?n ?buf @ text_bits s"
      using Cons.IH [of ?n ?buf] Cons.prems by fastforce
    then show ?thesis using v c True push bits_group8 [of ?n ?buf] Cons.prems(2)
      by (simp add: Let_def add.commute)
  next
    case False
    then show ?thesis using Cons.IH [of "bits + 5" ?buf] Cons.prems v c push by (simp add: Let_def)
  qed
qed simp

lemma decode_loop_pad: "decode_loop (s @ replicate k 61) buf bits False = decode_loop s buf bits False" if "list_all is_symbol s"
proof -
  have pad: "decode_loop (replicate k 61) buf bits ended = Some ([], buf, bits)" for buf bits ended
    by (induction k arbitrary: ended) simp_all
  from that show ?thesis
    by (induction s arbitrary: buf bits) (auto simp: pad Let_def split: option.splits)
qed

lemma decode_loop_Some:
  "decode_loop t buf bits ended = Some r \<Longrightarrow> \<exists>s k. t = s @ replicate k 61 \<and> list_all is_symbol s \<and> (ended \<longrightarrow> s = [])"
proof (induction t arbitrary: buf bits ended r)
  case Nil
  then show ?case by (intro exI [of _ "[]"] exI [of _ 0]) simp
next
  case (Cons c t)
  show ?case
  proof (cases "c = 61")
    case True
    then obtain s k where "t = s @ replicate k 61" "s = []" using Cons.IH [of buf bits True r] Cons.prems by auto
    then show ?thesis using True by (intro exI [of _ "[]"] exI [of _ "Suc k"]) simp
  next
    case False
    then have sym: "is_symbol c" "\<not> ended" using Cons.prems by (auto simp: is_symbol_def split: if_splits option.splits)
    obtain buf' bits' r' where "decode_loop t buf' bits' False = Some r'"
      using Cons.prems False sym(2) by (auto simp: Let_def split: option.splits if_splits)
    then obtain s k where "t = s @ replicate k 61" "list_all is_symbol s" using Cons.IH by blast
    then show ?thesis using sym by (intro exI [of _ "c # s"] exI [of _ k]) simp
  qed
qed

text \<open>On text made of symbols the decoder returns exactly the bytes whose bits are those of the text up to
  fewer than five zeros.\<close>

lemma decode_iff:
  assumes "list_all is_symbol s"
  shows "decode (s @ replicate k 61) = Some bs \<longleftrightarrow> (\<exists>n<5. text_bits s = byte_bits bs @ replicate n False)"
proof -
  obtain out buf n where d: "decode_loop s 0 0 False = Some (out, buf, n)" "n < 8"
    "byte_bits out @ bits_of n buf = text_bits s"
    using decode_loop_bits [OF assms, of 0 0] by (auto simp: bits_of_def)
  have dec: "decode (s @ replicate k 61) = (if 5 \<le> n \<or> bits_of n buf \<noteq> replicate n False then None else Some out)"
    using d(1,2) decode_loop_pad [OF assms] bits_zero [of n buf] by (simp add: decode_def)
  show ?thesis
  proof
    assume "decode (s @ replicate k 61) = Some bs"
    then have "n < 5" "bits_of n buf = replicate n False" "out = bs" using dec by (auto split: if_splits)
    then show "\<exists>n<5. text_bits s = byte_bits bs @ replicate n False" using d(3) by auto
  next
    assume "\<exists>n<5. text_bits s = byte_bits bs @ replicate n False"
    then obtain p where p: "p < 5" "byte_bits out @ bits_of n buf = byte_bits bs @ replicate p False" using d(3) by auto
    have "8 * length out + n = 8 * length bs + p" using arg_cong [OF p(2), of length] by simp
    then have len: "length out = length bs" "n = p" using d(2) p(1) by presburger+
    then have "byte_bits out = byte_bits bs" "bits_of n buf = replicate n False" using p(2) by auto
    then show "decode (s @ replicate k 61) = Some bs" using dec byte_bits_inj len p(1) by simp
  qed
qed

lemma alphabet_symbols: "set s \<subseteq> set ALPHABET \<Longrightarrow> list_all is_symbol s"
proof -
  have "list_all is_symbol ALPHABET" by code_simp
  then show "set s \<subseteq> set ALPHABET \<Longrightarrow> list_all is_symbol s" by (auto simp: list_all_iff)
qed

definition to_upper :: "rchar \<Rightarrow> rchar" where
  "to_upper c = (if 97 \<le> c \<and> c \<le> 122 then c - 32 else c)"

lemma symbol_upper: "symbol_value c = Some v \<Longrightarrow> to_upper c = ALPHABET ! v"
proof -
  have a: "list_all (\<lambda>i. ALPHABET ! i = 65 + i) [0..<26]" "list_all (\<lambda>i. ALPHABET ! (i + 26) = 50 + i) [0..<6]"
    by code_simp+
  then have "i < 26 \<Longrightarrow> ALPHABET ! i = 65 + i" "i < 6 \<Longrightarrow> ALPHABET ! (i + 26) = 50 + i" for i
    by (auto simp: list_all_iff)
  note a = this(1) this(2) [of "c - 50"]
  assume "symbol_value c = Some v"
  then show ?thesis using a by (auto simp: symbol_value_def to_upper_def split: if_splits)
qed

lemma sym_bits_inj: "is_symbol c \<Longrightarrow> is_symbol d \<Longrightarrow> sym_bits c = sym_bits d \<Longrightarrow> symbol_value c = symbol_value d"
proof -
  assume c: "is_symbol c" "is_symbol d" "sym_bits c = sym_bits d"
  then obtain v w where v: "symbol_value c = Some v" "symbol_value d = Some w" by (auto simp: is_symbol_def)
  then have lt: "v < 32" "w < 32" using symbol_value_less by auto
  have "(word_of_nat v :: 16 word) AND mask 5 = word_of_nat w AND mask 5"
    using c(3) v by (intro bit_word_eqI) (auto simp: sym_bits_def bits_of_eq bit_simps)
  then have "(word_of_nat v :: 16 word) = word_of_nat w" using word_of_nat_mask5 lt by metis
  then have "unat (word_of_nat v :: 16 word) = unat (word_of_nat w :: 16 word)" by simp
  then show ?thesis using v lt by (simp add: unat_of_nat)
qed

lemma text_bits_upper:
  "list_all is_symbol s \<Longrightarrow> set e \<subseteq> set ALPHABET \<Longrightarrow> text_bits e = text_bits s \<Longrightarrow> e = map to_upper s"
proof (induction s arbitrary: e)
  case Nil
  then show ?case by (cases e) (auto dest: arg_cong [where f = length] simp: sym_bits_def)
next
  case (Cons c s)
  then obtain d e' where e: "e = d # e'" by (cases e) (auto dest: arg_cong [where f = length] simp: sym_bits_def)
  have sym: "is_symbol d" "sym_bits d = sym_bits c" "text_bits e' = text_bits s"
    using Cons.prems e alphabet_symbols [of "[d]"] by (auto simp: sym_bits_def)
  then obtain v where v: "symbol_value d = Some v" "symbol_value c = Some v"
    using sym_bits_inj [of d c] Cons.prems(1) by (auto simp: is_symbol_def)
  have "\<not> (97 \<le> x \<and> x \<le> 122)" if "x \<in> set ALPHABET" for x
    using that by (auto simp: ALPHABET_def lit_def)
  then have "d = to_upper d" using Cons.prems(2) e by (auto simp: to_upper_def)
  then have "d = to_upper c" using symbol_upper v by metis
  then show ?case using Cons.IH [OF _ _ sym(3)] Cons.prems e by simp
qed

lemma base32_decode_encode: "decode (encode bs) = Some bs"
proof -
  obtain p where "p < 5" "text_bits (encode bs) = byte_bits bs @ replicate p False" "set (encode bs) \<subseteq> set ALPHABET"
    using encode_loop_bits [of 0 bs 0] by (auto simp: encode_def bits_of_def)
  then show ?thesis using decode_iff [OF alphabet_symbols, of "encode bs" 0 bs] by auto
qed

section \<open>Properties\<close>

text \<open>C34. Decoding what was encoded gives the bytes back, also with any padding after it.\<close>

theorem base32_roundtrip: "decode (encode bs @ replicate k 61) = Some bs"
proof -
  obtain p where "p < 5" "text_bits (encode bs) = byte_bits bs @ replicate p False" "set (encode bs) \<subseteq> set ALPHABET"
    using encode_loop_bits [of 0 bs 0] by (auto simp: encode_def bits_of_def)
  then show ?thesis using decode_iff [OF alphabet_symbols] by blast
qed

text \<open>Only canonical text is decoded: whatever is accepted is, in upper case and without its padding, what
  the bytes it decodes to are encoded as.\<close>

theorem base32_canonical:
  assumes "decode t = Some bs"
  shows "\<exists>s k. t = s @ replicate k 61 \<and> encode bs = map to_upper s"
proof -
  obtain r where "decode_loop t 0 0 False = Some r" using assms by (auto simp: decode_def split: option.splits)
  then obtain s k where t: "t = s @ replicate k 61" and s: "list_all is_symbol s" using decode_loop_Some by blast
  then obtain n where n: "n < 5" "text_bits s = byte_bits bs @ replicate n False"
    using assms decode_iff [OF s] by auto
  obtain p where p: "p < 5" "text_bits (encode bs) = byte_bits bs @ replicate p False" "set (encode bs) \<subseteq> set ALPHABET"
    using encode_loop_bits [of 0 bs 0] by (auto simp: encode_def bits_of_def)
  have "5 * length s = 8 * length bs + n" "5 * length (encode bs) = 8 * length bs + p"
    using arg_cong [OF n(2), of length] arg_cong [OF p(2), of length] by simp_all
  then have "n = p" using n(1) p(1) by presburger
  then have "encode bs = map to_upper s" using text_bits_upper [OF s p(3)] n(2) p(2) by simp
  then show ?thesis using t by blast
qed

theorem base32_canonical_witness:
  "\<exists>s k. lit ''mzxw6===='' = s @ replicate k 61 \<and> encode [102, 111, 111] = map to_upper s"
proof -
  have "decode (lit ''mzxw6===='') = Some [102, 111, 111]" by code_simp
  then show ?thesis by (rule base32_canonical)
qed

end
