(* ===== verification/Totp.thy ===== *)
theory Totp
  imports Base32 Auth_Error
begin

text \<open>
  \<^verbatim>\<open>crates/detent-web/src/auth/totp.rs\<close> and the hexadecimal form of \<^verbatim>\<open>secret.rs\<close>: time-based one-time
  passwords and the guard against replay. HMAC-SHA1 is code of another crate: \<open>hmac\<close>, from key and message to
  tag, is an argument. Constant-time comparison is equality.
\<close>

section \<open>Hexadecimal\<close>

definition hex_digit :: "8 word \<Rightarrow> rchar" where
  "hex_digit value = (let v = unat (value AND 0x0f) in if v < 10 then 48 + v else 87 + v)"

definition hex :: "8 word list \<Rightarrow> rstr" where
  "hex bytes = concat (map (\<lambda>byte. [hex_digit (drop_bit 4 byte), hex_digit (byte AND 0x0f)]) bytes)"

section \<open>One-time passwords\<close>

definition STEP_SECS :: nat where "STEP_SECS = 30"
definition WINDOW_STEPS :: nat where "WINDOW_STEPS = 1"
definition MIN_SECRET_BYTES :: nat where "MIN_SECRET_BYTES = 16"
definition TOTP_SECRET_BYTES :: nat where "TOTP_SECRET_BYTES = 20"
definition ISSUER :: rstr where "ISSUER = lit ''detent''"
definition MODULUS :: nat where "MODULUS = 1000000"

type_synonym totp_secret = "8 word list"
type_synonym hmac = "8 word list \<Rightarrow> 8 word list \<Rightarrow> 8 word list"

definition from_base32 :: "rstr \<Rightarrow> (auth_error, totp_secret) result" where
  "from_base32 text =
     (case decode text of
        None \<Rightarrow> Inl TotpSecretInvalid
      | Some bytes \<Rightarrow> if length bytes < MIN_SECRET_BYTES then Inl TotpSecretInvalid else Inr bytes)"

definition to_base32 :: "totp_secret \<Rightarrow> rstr" where
  "to_base32 secret = encode secret"

definition upper_hex :: "8 word \<Rightarrow> rchar" where
  "upper_hex value = (let v = unat (value AND 0x0f) in if v < 10 then 48 + v else 55 + v)"

definition is_unreserved :: "nat \<Rightarrow> bool" where
  "is_unreserved b \<longleftrightarrow> 48 \<le> b \<and> b \<le> 57 \<or> 65 \<le> b \<and> b \<le> 90 \<or> 97 \<le> b \<and> b \<le> 122
     \<or> b = 45 \<or> b = 46 \<or> b = 95 \<or> b = 126"

definition percent_encode :: "8 word list \<Rightarrow> rstr" where
  "percent_encode bytes =
     concat (map (\<lambda>byte. if is_unreserved (unat byte) then [unat byte]
                         else [37, upper_hex (drop_bit 4 byte), upper_hex byte]) bytes)"

definition otpauth_uri :: "totp_secret \<Rightarrow> 8 word list \<Rightarrow> rstr" where
  "otpauth_uri secret account =
     (let issuer = percent_encode (map word_of_nat ISSUER);
          label = issuer @ lit '':'' @ percent_encode account
      in lit ''otpauth://totp/'' @ label @ lit ''?secret='' @ to_base32 secret @ lit ''&issuer='' @ issuer
         @ lit ''&algorithm=SHA1&digits=6&period=30'')"

definition to_be_bytes :: "nat \<Rightarrow> 8 word list" where
  "to_be_bytes counter = map (\<lambda>i. word_of_nat (counter div 256 ^ i)) [7, 6, 5, 4, 3, 2, 1, 0]"

definition truncate_tag :: "8 word list \<Rightarrow> nat" where
  "truncate_tag tag =
     (let offset = unat ((if tag = [] then 0 else last tag) AND 0x0f);
          value = fold (\<lambda>step v. push_bit 8 v OR ucast (case get tag (offset + step) of Some byte \<Rightarrow> byte | None \<Rightarrow> 0))
                    [0, 1, 2, 3] (0 :: 32 word)
      in unat (value AND 0x7fffffff) mod MODULUS)"

definition pad6 :: "nat \<Rightarrow> rstr" where
  "pad6 n = (let s = show_nat n in replicate (6 - length s) 48 @ s)"

definition code_at :: "hmac \<Rightarrow> totp_secret \<Rightarrow> nat \<Rightarrow> rstr" where
  "code_at hmac secret counter = pad6 (truncate_tag (hmac secret (to_be_bytes counter)))"

text \<open>The loop of \<^verbatim>\<open>verify\<close> over the offsets 0 to 2, with no early exit.\<close>

fun verify_loop :: "hmac \<Rightarrow> totp_secret \<Rightarrow> rstr \<Rightarrow> nat option \<Rightarrow> nat \<Rightarrow> nat list \<Rightarrow> nat option \<Rightarrow> nat option" where
  "verify_loop hmac secret code last_counter first [] accepted = accepted"
| "verify_loop hmac secret code last_counter first (offset # offsets) accepted =
     (let counter = sat_add u64_max first offset;
          matches = code_at hmac secret counter = code;
          fresh = (case last_counter of None \<Rightarrow> True | Some l \<Rightarrow> l < counter)
      in verify_loop hmac secret code last_counter first offsets (if matches \<and> fresh then Some counter else accepted))"

definition totp_verify :: "hmac \<Rightarrow> totp_secret \<Rightarrow> rstr \<Rightarrow> nat \<Rightarrow> nat option \<Rightarrow> nat option" where
  "totp_verify hmac secret code unix_secs last_counter =
     (let step = unix_secs div STEP_SECS; first = step - WINDOW_STEPS
      in verify_loop hmac secret code last_counter first [0..<2 * WINDOW_STEPS + 1] None)"

definition totp_check :: "hmac \<Rightarrow> totp_secret \<Rightarrow> rstr \<Rightarrow> nat \<Rightarrow> nat option \<Rightarrow> (auth_error, nat) result" where
  "totp_check hmac secret code unix_secs last_counter =
     (case totp_verify hmac secret code unix_secs last_counter of
        Some counter \<Rightarrow> Inr counter
      | None \<Rightarrow>
          (let step = unix_secs div STEP_SECS; first = step - WINDOW_STEPS;
               replayed = list_ex (\<lambda>offset. code_at hmac secret (sat_add u64_max first offset) = code) [0..<2 * WINDOW_STEPS + 1]
           in Inl (if replayed then TotpReplayed else InvalidCredentials)))"

section \<open>The window\<close>

definition window :: "nat \<Rightarrow> nat list" where
  "window unix_secs = (let first = unix_secs div 30 - 1 in [first, first + 1, first + 2])"

definition fresh_counter :: "nat option \<Rightarrow> nat \<Rightarrow> bool" where
  "fresh_counter last_counter c \<longleftrightarrow> (case last_counter of None \<Rightarrow> True | Some l \<Rightarrow> l < c)"

lemma window_small: "unix_secs \<le> u64_max \<Longrightarrow> unix_secs div 30 - 1 + 2 \<le> u64_max"
  by (simp add: u64_max_def)

lemma window_offsets: "[0..<2 * WINDOW_STEPS + 1] = [0, 1, 2]"
  by code_simp

lemma totp_verify_find:
  assumes "unix_secs \<le> u64_max"
  shows "totp_verify hmac secret code unix_secs last_counter =
    List.find (\<lambda>c. code_at hmac secret c = code \<and> fresh_counter last_counter c) (rev (window unix_secs))"
proof -
  define f where "f = unix_secs div 30 - 1"
  have f: "sat_add u64_max f 0 = f" "sat_add u64_max f (Suc 0) = Suc f" "sat_add u64_max f 2 = Suc (Suc f)"
    using window_small [OF assms] by (simp_all add: f_def sat_add_def)
  show ?thesis unfolding totp_verify_def STEP_SECS_def Let_def window_offsets window_def
    unfolding WINDOW_STEPS_def f_def [symmetric]
    by (simp add: f fresh_counter_def [symmetric] Let_def)
qed

text \<open>The answers to a series of attempts, the counter of each accepted one kept for the next.\<close>

fun attempts :: "hmac \<Rightarrow> totp_secret \<Rightarrow> nat option \<Rightarrow> (rstr \<times> nat) list \<Rightarrow> nat list" where
  "attempts hmac secret last_counter [] = []"
| "attempts hmac secret last_counter ((code, unix_secs) # rest) =
     (case totp_verify hmac secret code unix_secs last_counter of
        Some c \<Rightarrow> c # attempts hmac secret (Some c) rest
      | None \<Rightarrow> attempts hmac secret last_counter rest)"

lemma totp_verify_iff:
  assumes "unix_secs \<le> u64_max"
  shows "totp_verify hmac secret code unix_secs last_counter = Some c \<longleftrightarrow>
    c \<in> set (window unix_secs) \<and> code_at hmac secret c = code \<and> fresh_counter last_counter c
    \<and> (\<forall>d\<in>set (window unix_secs). c < d \<longrightarrow> code_at hmac secret d \<noteq> code)"
  unfolding totp_verify_find [OF assms]
  by (auto simp: window_def Let_def fresh_counter_def split: option.splits)

lemma attempts_increase:
  "list_all (\<lambda>(code, t). t \<le> u64_max) tries \<Longrightarrow> sorted_wrt (<) (attempts hmac secret last_counter tries)
     \<and> (\<forall>c\<in>set (attempts hmac secret last_counter tries). fresh_counter last_counter c)"
proof (induction tries arbitrary: last_counter)
  case (Cons att tries)
  obtain code t where a: "att = (code, t)" by (cases att)
  show ?case
  proof (cases "totp_verify hmac secret code t last_counter")
    case None
    then show ?thesis using Cons a by simp
  next
    case (Some c)
    then have "fresh_counter last_counter c" using Cons.prems a totp_verify_iff by auto
    then show ?thesis using Some a Cons.IH [of "Some c"] Cons.prems
      by (auto simp: fresh_counter_def split: option.splits)
  qed
qed simp

lemma upper_hex_unreserved: "is_unreserved (upper_hex b)"
proof -
  have "(0x0f :: 8 word) = mask 4" by (simp add: mask_eq_exp_minus_1)
  then have "unat (b AND 0x0f) < 16" using and_mask_less' [of 4 b] by (simp add: word_less_nat_alt)
  then show ?thesis by (auto simp: upper_hex_def Let_def is_unreserved_def)
qed

section \<open>Properties\<close>

text \<open>A code is accepted exactly when it is the code of a step within one of the current one that is later
  than the last accepted one, and the latest such step is answered; in the first thirty seconds of 1970 the
  window is the steps 0 to 2. A refused code counts as replayed exactly when it is the code of some step of the
  window.\<close>

theorem totp_window:
  assumes "unix_secs \<le> u64_max"
  shows "totp_check hmac secret code unix_secs last_counter =
    (let good = filter (\<lambda>c. code_at hmac secret c = code) (window unix_secs);
         new = filter (\<lambda>c. case last_counter of None \<Rightarrow> True | Some l \<Rightarrow> l < c) good
     in if new \<noteq> [] then Inr (last new) else if good \<noteq> [] then Inl TotpReplayed else Inl InvalidCredentials)"
proof -
  define f where "f = unix_secs div 30 - 1"
  have f: "sat_add u64_max f 0 = f" "sat_add u64_max f (Suc 0) = Suc f" "sat_add u64_max f 2 = Suc (Suc f)"
    using window_small [OF assms] by (simp_all add: f_def sat_add_def)
  show ?thesis
    unfolding totp_check_def totp_verify_find [OF assms] STEP_SECS_def Let_def window_offsets window_def
    unfolding WINDOW_STEPS_def f_def [symmetric]
    by (auto simp: f fresh_counter_def split: option.splits)
qed

theorem totp_window_witness:
  "totp_check (\<lambda>k m. m @ [0]) [] (lit ''000000'') 59 (Some 2) =
    (let good = filter (\<lambda>c. code_at (\<lambda>k m. m @ [0]) [] c = lit ''000000'') (window 59);
         new = filter (\<lambda>c. case Some 2 of None \<Rightarrow> True | Some l \<Rightarrow> l < c) good
     in if new \<noteq> [] then Inr (last new) else if good \<noteq> [] then Inl TotpReplayed else Inl InvalidCredentials)"
  by (rule totp_window) (simp add: u64_max_def)

text \<open>Over any series of attempts, at whatever times, when the counter of each accepted code is kept for the
  next, the accepted counters increase: no code is accepted twice for the same step.\<close>

theorem totp_no_replay:
  assumes "list_all (\<lambda>(code, t). t \<le> u64_max) tries"
  shows "distinct (attempts hmac secret last_counter tries) \<and> sorted (attempts hmac secret last_counter tries)"
  using attempts_increase [OF assms] strict_sorted_iff by blast

theorem totp_no_replay_witness:
  "distinct (attempts (\<lambda>k m. m) [] None [(lit ''000000'', 0), (lit ''000000'', 31)])"
  using totp_no_replay [of "[(lit ''000000'', 0), (lit ''000000'', 31)]" "\<lambda>k m. m" "[]" None] by (simp add: u64_max_def)

text \<open>A key of at least sixteen bytes is read back from its base32 form, and a shorter one is refused; and
  the label of the enrolment address cannot be broken by the account name, whatever bytes it has: it becomes
  unreserved characters and escapes.\<close>

theorem totp_secret_roundtrip:
  "from_base32 (to_base32 secret) = (if 16 \<le> length secret then Inr secret else Inl TotpSecretInvalid)
   \<and> list_all (\<lambda>c. is_unreserved c \<or> c = 37) (percent_encode account)"
proof -
  have "decode (encode secret) = Some secret" using base32_decode_encode [of secret] .
  moreover have "is_unreserved c \<or> c = 37" if "c \<in> set (percent_encode account)" for c
    using that upper_hex_unreserved by (auto simp: percent_encode_def split: if_splits)
  ultimately show ?thesis
    by (auto simp: from_base32_def to_base32_def MIN_SECRET_BYTES_def list_all_iff)
qed

end
