(* ===== verification/Proto.thy ===== *)
theory Proto
  imports Descriptor
begin

text \<open>
  \<^verbatim>\<open>crates/detent-platform/src/privsep/proto.rs\<close>: the closed set of requests the worker may send to the
  privileged monitor and the responses it may get, and the rule for release tags. Ids are indices into the
  monitor's tables (numbers), a digest is its hexadecimal text. \<^verbatim>\<open>semver\<close> and \<^verbatim>\<open>postcard\<close> are other
  crates: the records \<open>semver\<close> and \<open>wire\<close> carry the functions the code calls, and \<open>wire_ok\<close> is what
  \<^verbatim>\<open>postcard\<close> documents: a value taken from its own encoding is that value and leaves the rest.
\<close>

section \<open>Release tags\<close>

definition PROTO_VERSION :: nat where "PROTO_VERSION = 4"
definition MAX_FRAME :: nat where "MAX_FRAME = 1024 * 1024"
definition MAX_RELEASE_TAG_LEN :: nat where "MAX_RELEASE_TAG_LEN = 64"

record 'v semver =
  sv_parse :: "rstr \<Rightarrow> 'v option"
  sv_build_empty :: "'v \<Rightarrow> bool"
  sv_greater :: "'v \<Rightarrow> 'v \<Rightarrow> bool"
  sv_zero :: 'v
  sv_pkg_version :: rstr

definition tag_version :: "'v semver \<Rightarrow> rstr \<Rightarrow> 'v option" where
  "tag_version S tag = (case strip_prefix (lit ''v'') tag of Some version \<Rightarrow> sv_parse S version | None \<Rightarrow> None)"

definition is_release_tag :: "'v semver \<Rightarrow> rstr \<Rightarrow> bool" where
  "is_release_tag S tag \<longleftrightarrow>
     str_len tag \<le> MAX_RELEASE_TAG_LEN
     \<and> list_all (\<lambda>b. is_ascii_alphanumeric b \<or> b = 46 \<or> b = 45) (as_bytes tag)
     \<and> (case tag_version S tag of Some v \<Rightarrow> sv_build_empty S v | None \<Rightarrow> False)"

datatype tag_refusal = NotReleaseTag | NotNewer

definition check_update_tag :: "'v semver \<Rightarrow> rstr \<Rightarrow> (tag_refusal, unit) result" where
  "check_update_tag S tag =
     (if \<not> is_release_tag S tag then Inl NotReleaseTag
      else let current = (case sv_parse S (sv_pkg_version S) of Some v \<Rightarrow> v | None \<Rightarrow> sv_zero S)
           in case tag_version S tag of
                Some v \<Rightarrow> if sv_greater S v current then Inr () else Inl NotNewer
              | None \<Rightarrow> Inl NotReleaseTag)"

section \<open>Messages\<close>


datatype path_kind = PkFile | PkDropInDir | PkDirectory

fun path_kind_of :: "target_kind \<Rightarrow> path_kind" where
  "path_kind_of TkFile = PkFile"
| "path_kind_of TkDropInDir = PkDropInDir"
| "path_kind_of TkDirectory = PkDirectory"

datatype wire_action = WaRestart | WaReload | WaStart | WaStop | WaStatus

fun to_core :: "wire_action \<Rightarrow> core_action option" where
  "to_core WaRestart = Some CaRestart"
| "to_core WaReload = Some CaReload"
| "to_core WaStart = Some CaStart"
| "to_core WaStop = Some CaStop"
| "to_core WaStatus = None"

fun wire_of_core :: "core_action \<Rightarrow> wire_action" where
  "wire_of_core CaRestart = WaRestart"
| "wire_of_core CaReload = WaReload"
| "wire_of_core CaStart = WaStart"
| "wire_of_core CaStop = WaStop"

lemma to_core_wire [simp]: "to_core (wire_of_core a) = Some a"
  by (cases a) simp_all

record pending_service =
  ps_binding :: nat
  ps_action :: wire_action

datatype request =
    RqHello nat
  | RqReadTarget nat
  | RqWriteTarget nat "digest option" bytes bool
  | RqRunCheck nat bytes
  | RqService nat wire_action
  | RqListBackups nat
  | RqRestore nat nat
  | RqStartConfirmTimer nat nat "pending_service option"
  | RqConfirmCommit nat
  | RqMount nat
  | RqReplaceBinary rstr nat digest
  | RqShutdown
  | RqRollbackCommit nat
  | RqPendingCommit
  | RqReloadUnitFiles nat
  | RqStageBegin rstr nat digest bytes
  | RqStageUpdate nat bytes
  | RqStartUpdate rstr

fun changes_state :: "request \<Rightarrow> bool" where
  "changes_state (RqWriteTarget _ _ _ _) = True"
| "changes_state (RqRestore _ _) = True"
| "changes_state (RqStartConfirmTimer _ _ _) = True"
| "changes_state (RqConfirmCommit _) = True"
| "changes_state (RqRollbackCommit _) = True"
| "changes_state (RqMount _) = True"
| "changes_state (RqReplaceBinary _ _ _) = True"
| "changes_state (RqReloadUnitFiles _) = True"
| "changes_state (RqStageBegin _ _ _ _) = True"
| "changes_state (RqStageUpdate _ _) = True"
| "changes_state (RqStartUpdate _) = True"
| "changes_state (RqService _ action) = (action \<noteq> WaStatus)"
| "changes_state (RqHello _) = False"
| "changes_state (RqReadTarget _) = False"
| "changes_state (RqRunCheck _ _) = False"
| "changes_state (RqListBackups _) = False"
| "changes_state RqPendingCommit = False"
| "changes_state RqShutdown = False"

record target_info =
  ti_id :: nat
  ti_module :: nat
  ti_path :: rstr
  ti_kind :: path_kind

record check_info =
  ci_id :: nat
  ci_module :: nat
  ci_program :: rstr
  ci_targets :: "nat list"

record binding_info =
  bi_id :: nat
  bi_module :: nat
  bi_unit :: rstr
  bi_actions :: "wire_action list"
  bi_targets :: "nat list"

record module_info =
  mi_id :: nat
  mi_name :: rstr
  mi_commit_confirm :: bool

record hello_ack_t =
  ha_proto :: nat
  ha_modules :: "module_info list"
  ha_targets :: "target_info list"
  ha_checks :: "check_info list"
  ha_bindings :: "binding_info list"

record target_contents =
  tc_target :: nat
  tc_bytes :: bytes
  tc_digest :: digest

record write_receipt =
  wr_target :: nat
  wr_prev_digest :: "digest option"
  wr_new_digest :: digest
  wr_created :: bool
  wr_backed_up :: bool
  wr_owner_preserved :: bool

record backup_info =
  bk_id :: nat
  bk_target :: nat
  bk_name :: rstr
  bk_created_unix_s :: nat
  bk_digest :: digest
  bk_len :: nat

record check_outcome =
  co_check :: nat
  co_passed :: bool
  co_exit_code :: "int option"
  co_detail :: rstr

record service_outcome =
  so_binding :: nat
  so_active :: bool
  so_detail :: rstr

datatype unit_state = UsActive | UsInactive | UsFailed | UsActivating | UsDeactivating | UsUnknown

record unit_status =
  us_unit :: rstr
  us_state :: unit_state
  us_enabled :: "bool option"
  us_since :: "(nat \<times> nat) option"

datatype mount_state = MsMounted | MsAlreadyMounted | MsPending | MsFailed | MsProtected | MsStopped

record mount_outcome =
  mo_mountpoint :: rstr
  mo_unit :: rstr
  mo_state :: mount_state
  mo_detail :: rstr

datatype id_kind = IdTarget | IdCheck | IdBinding | IdModule | IdBackup | IdCommit

datatype proto_error =
    PeVersionMismatch nat nat
  | PeHandshakeRequired
  | PeUnknownId id_kind nat
  | PeActionNotAllowed
  | PeConflict digest "digest option"
  | PeCommitPending nat
  | PeCommitExpired nat
  | PeUnsupported rstr
  | PeUnavailable rstr
  | PeIo rstr
  | PeVerificationFailed
  | PeNotFound
  | PeStateLockUnavailable
  | PeUpdateRunning

datatype response =
    RsHelloAck hello_ack_t
  | RsTarget target_contents
  | RsWritten write_receipt
  | RsChecked check_outcome
  | RsServiced service_outcome
  | RsBackups "backup_info list"
  | RsRestored nat digest
  | RsConfirmTimerStarted nat nat nat
  | RsCommitted nat
  | RsShuttingDown
  | RsError proto_error
  | RsRolledBack nat nat
  | RsReplaced rstr
  | RsPending "nat option"
  | RsUnitFilesReloaded rstr
  | RsMounted bool "mount_outcome list"
  | RsStaged nat
  | RsUpdateStarted rstr
  | RsUnitStatus unit_status

section \<open>Codec\<close>

datatype codec_error = Oversize nat | MalformedMessage

record 'a wire =
  to_allocvec :: "'a \<Rightarrow> bytes option"
  take_from_bytes :: "bytes \<Rightarrow> ('a \<times> bytes) option"

definition encode_message :: "'a wire \<Rightarrow> 'a \<Rightarrow> (codec_error, bytes) result" where
  "encode_message W value =
     (case to_allocvec W value of
        None \<Rightarrow> Inl MalformedMessage
      | Some b \<Rightarrow> if MAX_FRAME < length b then Inl (Oversize (length b)) else Inr b)"

definition decode_message :: "'a wire \<Rightarrow> bytes \<Rightarrow> (codec_error, 'a) result" where
  "decode_message W b =
     (if MAX_FRAME < length b then Inl (Oversize (length b))
      else case take_from_bytes W b of
             None \<Rightarrow> Inl MalformedMessage
           | Some (value, remainder) \<Rightarrow> if remainder \<noteq> [] then Inl MalformedMessage else Inr value)"

definition wire_ok :: "'a wire \<Rightarrow> bool" where
  "wire_ok W \<longleftrightarrow> (\<forall>v b r. to_allocvec W v = Some b \<longrightarrow> take_from_bytes W (b @ r) = Some (v, r) \<and> list_all (\<lambda>x. x < 256) b)"

lemma decode_encode_message:
  "wire_ok W \<Longrightarrow> encode_message W v = Inr b \<Longrightarrow> decode_message W b = Inr v"
  by (auto simp: wire_ok_def encode_message_def decode_message_def split: option.splits if_splits)
    (metis append_Nil2 fst_conv option.inject snd_conv)+

lemma is_release_tag_chars:
  assumes "is_release_tag S tag" and "c \<in> set tag"
  shows "is_ascii_alphanumeric c \<or> c = 46 \<or> c = 45"
proof -
  have "c \<in> set (as_bytes tag)" if "c < 0x80" using assms(2) that by (auto simp: as_bytes_def encode_char_def)
  moreover have "c < 0x80"
  proof (rule ccontr)
    assume big: "\<not> c < 0x80"
    then have "\<exists>b \<in> set (encode_char c). 0x80 \<le> b"
      by (intro bexI [of _ "hd (encode_char c)"] hd_in_set) (auto simp: encode_char_def)
    then obtain b where "b \<in> set (as_bytes tag)" "0x80 \<le> b" using assms(2) by (auto simp: as_bytes_def)
    then show False using assms(1)
      by (auto simp: is_release_tag_def list_all_iff is_ascii_alphanumeric_def is_ascii_digit_def
          is_ascii_upper_def is_ascii_lower_def)
  qed
  ultimately show ?thesis using assms(1) by (auto simp: is_release_tag_def list_all_iff)
qed

end
