(* ===== verification/Allowlist.thy ===== *)
theory Allowlist
  imports Proto
begin

text \<open>
  \<^verbatim>\<open>crates/detent-platform/src/privsep/allowlist.rs\<close>: the tables the monitor builds once from the compiled-in
  descriptors, which turn the ids of a request into files, validators and services.
\<close>

section \<open>The code\<close>

definition DEFAULT_STATE_ROOT :: path where "DEFAULT_STATE_ROOT = lit ''/var/lib/detent''"
definition BACKUPS_DIR :: path where "BACKUPS_DIR = lit ''backups''"
definition CHECK_TMP_DIR :: path where "CHECK_TMP_DIR = lit ''tmp''"
definition CANDIDATE_PREFIX :: rstr where "CANDIDATE_PREFIX = lit ''.detent-candidate-''"
definition DEFAULT_KEEP_BACKUPS :: nat where "DEFAULT_KEEP_BACKUPS = 20"

datatype init_flavor = FlavorSystemd | FlavorOpenRc | FlavorBsdRc

record allow_config =
  cf_state_root :: path
  cf_keep_backups :: nat
  cf_init :: init_flavor
  cf_activate_mounts :: bool

definition config_default :: allow_config where
  "config_default = \<lparr>cf_state_root = DEFAULT_STATE_ROOT, cf_keep_backups = DEFAULT_KEEP_BACKUPS,
     cf_init = FlavorSystemd, cf_activate_mounts = False\<rparr>"

definition with_state_root :: "path \<Rightarrow> allow_config" where
  "with_state_root root = config_default\<lparr>cf_state_root := root\<rparr>"

datatype allowlist_error =
    TooManyEntries rstr nat
  | DuplicateModule rstr
  | RelativeTargetPath rstr

record target_entry =
  te_id :: nat
  te_module :: nat
  te_path :: path
  te_kind :: path_kind
  te_create_mode :: nat
  te_backup_dir :: path

record check_entry =
  ce_id :: nat
  ce_module :: nat
  ce_check :: external_check
  ce_targets :: "nat list"

record binding_entry =
  be_id :: nat
  be_module :: nat
  be_binding :: service_binding
  be_targets :: "nat list"

record allowlist =
  al_config :: allow_config
  al_modules :: "module_descriptor list"
  al_targets :: "target_entry list"
  al_checks :: "check_entry list"
  al_bindings :: "binding_entry list"
  al_by_name :: "(rstr \<times> nat) list"

definition narrow_u16 :: "nat \<Rightarrow> rstr \<Rightarrow> (allowlist_error, nat) result" where
  "narrow_u16 index kind = (if index \<le> u16_max then Inr index else Inl (TooManyEntries kind 16))"

definition narrow_u16_saturating :: "nat \<Rightarrow> nat" where
  "narrow_u16_saturating index = (if index \<le> u16_max then index else u16_max)"

definition backup_dir_for :: "path \<Rightarrow> rstr \<Rightarrow> path" where
  "backup_dir_for state_root m = path_join (path_join state_root BACKUPS_DIR) m"

definition resolve_target ::
  "nat \<Rightarrow> nat \<Rightarrow> module_descriptor \<Rightarrow> target_spec \<Rightarrow> path \<Rightarrow> nat \<Rightarrow> (allowlist_error, target_entry) result" where
  "resolve_target tid m d t module_backups ordinal =
     (if \<not> is_absolute (ts_path t) then Inl (RelativeTargetPath (md_id d))
      else Inr \<lparr>te_id = tid, te_module = m, te_path = ts_path t, te_kind = path_kind_of (ts_kind t),
                te_create_mode = ts_mode t, te_backup_dir = path_join module_backups (show_nat ordinal)\<rparr>)"

definition preferred_unit :: "service_binding \<Rightarrow> init_flavor \<Rightarrow> rstr" where
  "preferred_unit b init =
     (let names = (case init of
            FlavorSystemd \<Rightarrow> un_systemd (sb_units b)
          | FlavorOpenRc \<Rightarrow> un_openrc (sb_units b)
          | FlavorBsdRc \<Rightarrow> un_bsdrc (sb_units b))
      in case names of n # _ \<Rightarrow> n | [] \<Rightarrow> (case un_systemd (sb_units b) of n # _ \<Rightarrow> n | [] \<Rightarrow> []))"

text \<open>The three inner loops of \<^verbatim>\<open>from_modules\<close>.\<close>

fun add_targets ::
  "nat \<Rightarrow> module_descriptor \<Rightarrow> path \<Rightarrow> nat \<Rightarrow> target_spec list \<Rightarrow> target_entry list
     \<Rightarrow> (allowlist_error, target_entry list) result" where
  "add_targets m d backups ordinal [] targets = Inr targets"
| "add_targets m d backups ordinal (t # ts) targets =
     bind_result (narrow_u16 (length targets) (lit ''target'')) (\<lambda>tid.
       bind_result (resolve_target tid m d t backups ordinal) (\<lambda>entry.
         add_targets m d backups (ordinal + 1) ts (targets @ [entry])))"

definition own_targets :: "nat \<Rightarrow> target_entry list \<Rightarrow> (rstr \<Rightarrow> bool) \<Rightarrow> nat list" where
  "own_targets first_target targets keep =
     map te_id (filter (\<lambda>e. keep (te_path e)) (drop first_target targets))"

fun add_checks ::
  "nat \<Rightarrow> ((rstr \<Rightarrow> bool) \<Rightarrow> nat list) \<Rightarrow> external_check list \<Rightarrow> check_entry list
     \<Rightarrow> (allowlist_error, check_entry list) result" where
  "add_checks m own [] checks = Inr checks"
| "add_checks m own (c # cs) checks =
     bind_result (narrow_u16 (length checks) (lit ''check'')) (\<lambda>cid.
       add_checks m own cs (checks @ [\<lparr>ce_id = cid, ce_module = m, ce_check = c, ce_targets = own (judges c)\<rparr>]))"

fun add_bindings ::
  "nat \<Rightarrow> ((rstr \<Rightarrow> bool) \<Rightarrow> nat list) \<Rightarrow> service_binding list \<Rightarrow> binding_entry list
     \<Rightarrow> (allowlist_error, binding_entry list) result" where
  "add_bindings m own [] bindings = Inr bindings"
| "add_bindings m own (b # bs) bindings =
     bind_result (narrow_u16 (length bindings) (lit ''binding'')) (\<lambda>bid.
       add_bindings m own bs (bindings @ [\<lparr>be_id = bid, be_module = m, be_binding = b, be_targets = own (serves b)\<rparr>]))"

fun add_modules ::
  "allow_config \<Rightarrow> nat \<Rightarrow> module_descriptor list \<Rightarrow> allowlist \<Rightarrow> (allowlist_error, allowlist) result" where
  "add_modules cfg index [] al = Inr al"
| "add_modules cfg index (d # ds) al =
     bind_result (narrow_u16 index (lit ''module'')) (\<lambda>m.
       if map_of (al_by_name al) (md_id d) \<noteq> None then Inl (DuplicateModule (md_id d))
       else
         bind_result (add_targets m d (backup_dir_for (cf_state_root cfg) (md_id d)) 0 (md_targets d) (al_targets al)) (\<lambda>targets.
           let own = own_targets (length (al_targets al)) targets
           in bind_result (add_checks m own (md_checks d) (al_checks al)) (\<lambda>checks.
             bind_result (add_bindings m own (md_services d) (al_bindings al)) (\<lambda>bindings.
               add_modules cfg (index + 1) ds
                 (al\<lparr>al_targets := targets, al_checks := checks, al_bindings := bindings,
                     al_by_name := bt_insert (md_id d) m (al_by_name al)\<rparr>)))))"

definition from_modules :: "module_descriptor list \<Rightarrow> allow_config \<Rightarrow> (allowlist_error, allowlist) result" where
  "from_modules modules cfg =
     add_modules cfg 0 modules
       \<lparr>al_config = cfg, al_modules = modules, al_targets = [], al_checks = [], al_bindings = [], al_by_name = []\<rparr>"

definition al_state_root :: "allowlist \<Rightarrow> path" where "al_state_root al = cf_state_root (al_config al)"
definition al_keep_backups :: "allowlist \<Rightarrow> nat" where "al_keep_backups al = cf_keep_backups (al_config al)"
definition al_target :: "allowlist \<Rightarrow> nat \<Rightarrow> target_entry option" where "al_target al i = get (al_targets al) i"
definition al_check :: "allowlist \<Rightarrow> nat \<Rightarrow> check_entry option" where "al_check al i = get (al_checks al) i"
definition al_binding :: "allowlist \<Rightarrow> nat \<Rightarrow> binding_entry option" where "al_binding al i = get (al_bindings al) i"
definition al_module :: "allowlist \<Rightarrow> nat \<Rightarrow> module_descriptor option" where "al_module al i = get (al_modules al) i"
definition al_module_id :: "allowlist \<Rightarrow> rstr \<Rightarrow> nat option" where "al_module_id al name = map_of (al_by_name al) name"

definition targets_of :: "allowlist \<Rightarrow> nat \<Rightarrow> target_entry list" where
  "targets_of al m = filter (\<lambda>t. te_module t = m) (al_targets al)"

definition checks_of :: "allowlist \<Rightarrow> nat \<Rightarrow> check_entry list" where
  "checks_of al m = filter (\<lambda>c. ce_module c = m) (al_checks al)"

definition modules_at :: "allowlist \<Rightarrow> path \<Rightarrow> module_descriptor list" where
  "modules_at al p = filter_map (\<lambda>t. al_module al (te_module t)) (filter (\<lambda>t. path_eq (te_path t) p) (al_targets al))"

definition reloads_unit_files :: "allowlist \<Rightarrow> bool" where
  "reloads_unit_files al = list_ex md_reload_unit_files (al_modules al)"

definition starts_mounts_after :: "allowlist \<Rightarrow> path \<Rightarrow> bool" where
  "starts_mounts_after al p = list_ex (\<lambda>m. md_added_mounts m \<noteq> None) (modules_at al p)"

definition reloads_unit_files_after :: "allowlist \<Rightarrow> path \<Rightarrow> bool" where
  "reloads_unit_files_after al p = list_ex md_reload_unit_files (modules_at al p)"

definition primary_target :: "allowlist \<Rightarrow> nat \<Rightarrow> host_profile \<Rightarrow> (rstr \<Rightarrow> bool) \<Rightarrow> target_entry option" where
  "primary_target al m profile exists =
     (case al_module al m of
        None \<Rightarrow> None
      | Some d \<Rightarrow>
          (let targets = filter (\<lambda>e. te_kind e = PkFile) (targets_of al m);
               at = (\<lambda>t. find (\<lambda>e. te_path e = ts_path t) targets)
           in case (case find (\<lambda>t. at t \<noteq> None) (filter (\<lambda>t. ts_backend_detect t profile) (md_targets d)) of
                      Some t \<Rightarrow> at (relocated d t profile exists)
                    | None \<Rightarrow> None) of
                Some e \<Rightarrow> Some e
              | None \<Rightarrow> (case targets of e # _ \<Rightarrow> Some e | [] \<Rightarrow> None)))"

definition candidate_dir :: "allowlist \<Rightarrow> nat \<Rightarrow> host_profile \<Rightarrow> (rstr \<Rightarrow> bool) \<Rightarrow> path option" where
  "candidate_dir al m profile exists =
     (case primary_target al m profile exists of Some e \<Rightarrow> path_parent (te_path e) | None \<Rightarrow> None)"

definition check_candidate_dir :: "allowlist \<Rightarrow> nat \<Rightarrow> host_profile \<Rightarrow> (rstr \<Rightarrow> bool) \<Rightarrow> path option" where
  "check_candidate_dir al cid profile exists =
     (case al_check al cid of
        None \<Rightarrow> None
      | Some e \<Rightarrow>
          if ec_applies_to (ce_check e) = [] then candidate_dir al (ce_module e) profile exists
          else case find (\<lambda>t. te_kind t = PkFile) (filter_map (al_target al) (ce_targets e)) of
                 Some t \<Rightarrow> path_parent (te_path t)
               | None \<Rightarrow> None)"

definition hello_ack :: "allowlist \<Rightarrow> hello_ack_t" where
  "hello_ack al =
     \<lparr>ha_proto = PROTO_VERSION,
      ha_modules = map (\<lambda>(i, d). \<lparr>mi_id = narrow_u16_saturating i, mi_name = md_id d, mi_commit_confirm = md_commit_confirm d\<rparr>)
        (enumerate 0 (al_modules al)),
      ha_targets = map (\<lambda>e. \<lparr>ti_id = te_id e, ti_module = te_module e, ti_path = te_path e, ti_kind = te_kind e\<rparr>) (al_targets al),
      ha_checks = map (\<lambda>e. \<lparr>ci_id = ce_id e, ci_module = ce_module e, ci_program = ec_program (ce_check e),
        ci_targets = ce_targets e\<rparr>) (al_checks al),
      ha_bindings = map (\<lambda>e. \<lparr>bi_id = be_id e, bi_module = be_module e,
        bi_unit = preferred_unit (be_binding e) (cf_init (al_config al)),
        bi_actions = map wire_of_core (sb_actions (be_binding e)), bi_targets = be_targets e\<rparr>) (al_bindings al)\<rparr>"

section \<open>The tables are what the modules declare\<close>

definition target_row :: "module_descriptor list \<Rightarrow> nat \<Rightarrow> nat \<Rightarrow> target_entry \<Rightarrow> bool" where
  "target_row ms n i e \<longleftrightarrow>
     te_id e = i \<and> i \<le> u16_max \<and> te_module e < n \<and> is_absolute (te_path e)
     \<and> (\<exists>t \<in> set (md_targets (ms ! te_module e)). te_path e = ts_path t \<and> te_kind e = path_kind_of (ts_kind t))"

definition owned :: "target_entry list \<Rightarrow> nat \<Rightarrow> (rstr \<Rightarrow> bool) \<Rightarrow> nat set" where
  "owned targets m keep = te_id ` {e \<in> set targets. te_module e = m \<and> keep (te_path e)}"

definition check_row :: "module_descriptor list \<Rightarrow> target_entry list \<Rightarrow> nat \<Rightarrow> nat \<Rightarrow> check_entry \<Rightarrow> bool" where
  "check_row ms targets n i c \<longleftrightarrow>
     ce_id c = i \<and> i \<le> u16_max \<and> ce_module c < n \<and> ce_check c \<in> set (md_checks (ms ! ce_module c))
     \<and> set (ce_targets c) = owned targets (ce_module c) (judges (ce_check c))"

definition binding_row :: "module_descriptor list \<Rightarrow> target_entry list \<Rightarrow> nat \<Rightarrow> nat \<Rightarrow> binding_entry \<Rightarrow> bool" where
  "binding_row ms targets n i b \<longleftrightarrow>
     be_id b = i \<and> i \<le> u16_max \<and> be_module b < n \<and> be_binding b \<in> set (md_services (ms ! be_module b))
     \<and> set (be_targets b) = owned targets (be_module b) (serves (be_binding b))"

definition rows :: "(nat \<Rightarrow> 'a \<Rightarrow> bool) \<Rightarrow> 'a list \<Rightarrow> bool" where
  "rows P xs \<longleftrightarrow> (\<forall>i < length xs. P i (xs ! i))"

definition tables_ok :: "nat \<Rightarrow> allowlist \<Rightarrow> bool" where
  "tables_ok n al \<longleftrightarrow>
     rows (target_row (al_modules al) n) (al_targets al)
     \<and> rows (check_row (al_modules al) (al_targets al) n) (al_checks al)
     \<and> rows (binding_row (al_modules al) (al_targets al) n) (al_bindings al)
     \<and> bt_sorted (al_by_name al)
     \<and> (\<forall>name i. map_of (al_by_name al) name = Some i \<longleftrightarrow> i < n \<and> md_id (al_modules al ! i) = name)"

definition allow_ok :: "allowlist \<Rightarrow> bool" where
  "allow_ok al \<longleftrightarrow> tables_ok (length (al_modules al)) al \<and> length (al_modules al) \<le> u16_max + 1"

lemma rows_simps [simp]: "rows P []"
  by (simp add: rows_def)

lemma rows_snoc: "rows P (xs @ [x]) \<longleftrightarrow> rows P xs \<and> P (length xs) x"
  by (auto simp: rows_def nth_append less_Suc_eq)

lemma rows_append: "rows P xs \<Longrightarrow> rows (\<lambda>i. P (length xs + i)) ys \<Longrightarrow> rows P (xs @ ys)"
  by (auto simp: rows_def nth_append) (metis add_diff_inverse_nat nat_add_left_cancel_less)

lemma rows_mono: "rows P xs \<Longrightarrow> (\<And>i x. x \<in> set xs \<Longrightarrow> P i x \<Longrightarrow> Q i x) \<Longrightarrow> rows Q xs"
  by (simp add: rows_def)

lemma rowsD: "rows P xs \<Longrightarrow> get xs i = Some x \<Longrightarrow> P i x"
  by (auto simp: rows_def get_def split: if_splits)

lemma rows_in_set: "rows P xs \<Longrightarrow> x \<in> set xs \<Longrightarrow> \<exists>i. P i x"
  by (auto simp: rows_def in_set_conv_nth)

lemma narrow_u16_eq_Inr [simp]: "narrow_u16 i k = Inr j \<longleftrightarrow> j = i \<and> i \<le> u16_max"
  by (auto simp: narrow_u16_def)

lemma add_targets_rows:
  assumes "add_targets m d backups ordinal ts targets = Inr out"
    and "rows (target_row ms (Suc m)) targets" and "set ts \<subseteq> set (md_targets d)" and "ms ! m = d"
  shows "rows (target_row ms (Suc m)) out
    \<and> (\<exists>new. out = targets @ new \<and> (\<forall>e \<in> set new. te_module e = m))"
  using assms
proof (induction m d backups ordinal ts targets rule: add_targets.induct)
  case (2 m d backups ordinal t ts targets)
  obtain e where e: "resolve_target (length targets) m d t backups ordinal = Inr e" "length targets \<le> u16_max"
    "add_targets m d backups (ordinal + 1) ts (targets @ [e]) = Inr out"
    using "2.prems"(1) by (auto simp: bind_result_eq_Inr)
  have "target_row ms (Suc m) (length targets) e" "te_module e = m"
    using e "2.prems"(3,4) by (auto simp: resolve_target_def target_row_def split: if_splits)
  then have "rows (target_row ms (Suc m)) (targets @ [e])" using "2.prems"(2) by (simp add: rows_snoc)
  from "2.IH" [OF e(3) this] \<open>te_module e = m\<close> "2.prems"(3,4) show ?case by auto
qed simp

lemma add_checks_rows:
  assumes "add_checks m own cs checks = Inr out" and "rows (check_row ms targets (Suc m)) checks"
    and "set cs \<subseteq> set (md_checks (ms ! m))" and "\<And>keep. set (own keep) = owned targets m keep"
  shows "rows (check_row ms targets (Suc m)) out"
  using assms
proof (induction m own cs checks rule: add_checks.induct)
  case (2 m own c cs checks)
  let ?c = "\<lparr>ce_id = length checks, ce_module = m, ce_check = c, ce_targets = own (judges c)\<rparr>"
  have c: "length checks \<le> u16_max" "add_checks m own cs (checks @ [?c]) = Inr out"
    using "2.prems"(1) by (auto simp: bind_result_eq_Inr)
  then have "check_row ms targets (Suc m) (length checks) ?c"
    using "2.prems"(3,4) by (simp add: check_row_def)
  then have "rows (check_row ms targets (Suc m)) (checks @ [?c])" using "2.prems"(2) by (simp add: rows_snoc)
  with "2.IH" c "2.prems"(3,4) show ?case by (auto simp: narrow_u16_def)
qed simp

lemma add_bindings_rows:
  assumes "add_bindings m own bs bindings = Inr out" and "rows (binding_row ms targets (Suc m)) bindings"
    and "set bs \<subseteq> set (md_services (ms ! m))" and "\<And>keep. set (own keep) = owned targets m keep"
  shows "rows (binding_row ms targets (Suc m)) out"
  using assms
proof (induction m own bs bindings rule: add_bindings.induct)
  case (2 m own b bs bindings)
  let ?b = "\<lparr>be_id = length bindings, be_module = m, be_binding = b, be_targets = own (serves b)\<rparr>"
  have b: "length bindings \<le> u16_max" "add_bindings m own bs (bindings @ [?b]) = Inr out"
    using "2.prems"(1) by (auto simp: bind_result_eq_Inr)
  then have "binding_row ms targets (Suc m) (length bindings) ?b"
    using "2.prems"(3,4) by (simp add: binding_row_def)
  then have "rows (binding_row ms targets (Suc m)) (bindings @ [?b])" using "2.prems"(2) by (simp add: rows_snoc)
  with "2.IH" b "2.prems"(3,4) show ?case by (auto simp: narrow_u16_def)
qed simp

lemma owned_extend:
  assumes "\<forall>e \<in> set new. te_module e = m" and "k < m"
  shows "owned (targets @ new) k keep = owned targets k keep"
  using assms by (auto simp: owned_def)

lemma own_targets_owned:
  assumes "rows (target_row ms m) targets" and "\<forall>e \<in> set new. te_module e = m"
  shows "set (own_targets (length targets) (targets @ new) keep) = owned (targets @ new) m keep"
proof -
  have "te_module e < m" if "e \<in> set targets" for e
    using rows_in_set [OF assms(1) that] by (auto simp: target_row_def)
  then have "{e \<in> set (targets @ new). te_module e = m \<and> keep (te_path e)} = {e \<in> set new. keep (te_path e)}"
    using assms(2) by auto
  then show ?thesis by (simp add: own_targets_def owned_def)
qed

lemma add_modules_ok:
  assumes "add_modules cfg m ds al = Inr out" and "tables_ok m al" and "drop m (al_modules al) = ds"
    and "m \<le> u16_max + 1" and "m \<le> length (al_modules al)"
  shows "allow_ok out \<and> al_modules out = al_modules al \<and> al_config out = al_config al"
  using assms
proof (induction cfg m ds al rule: add_modules.induct)
  case (1 cfg m al)
  then have "length (al_modules al) = m" by simp
  with 1 show ?case by (simp add: allow_ok_def)
next
  case (2 cfg m d ds al)
  let ?ms = "al_modules al"
  have d: "m < length ?ms" using "2.prems"(3) by (metis drop_all linorder_not_le list.distinct(1))
  then have "drop m ?ms = ?ms ! m # drop (Suc m) ?ms" by (rule Cons_nth_drop_Suc [symmetric])
  with "2.prems"(3) d have d: "m < length ?ms" "?ms ! m = d" "drop (Suc m) ?ms = ds" by auto
  obtain targets checks bindings where
    run: "add_targets m d (backup_dir_for (cf_state_root cfg) (md_id d)) 0 (md_targets d) (al_targets al) = Inr targets"
      "add_checks m (own_targets (length (al_targets al)) targets) (md_checks d) (al_checks al) = Inr checks"
      "add_bindings m (own_targets (length (al_targets al)) targets) (md_services d) (al_bindings al) = Inr bindings"
      "m \<le> u16_max" "map_of (al_by_name al) (md_id d) = None"
    and rest: "add_modules cfg (m + 1) ds (al\<lparr>al_targets := targets, al_checks := checks, al_bindings := bindings,
        al_by_name := bt_insert (md_id d) m (al_by_name al)\<rparr>) = Inr out" (is "add_modules _ _ _ ?al' = _")
    using "2.prems"(1) by (auto simp: bind_result_eq_Inr Let_def split: if_splits)
  from "2.prems"(2) have old: "rows (target_row ?ms m) (al_targets al)"
    and names: "bt_sorted (al_by_name al)"
      "\<And>name i. map_of (al_by_name al) name = Some i \<longleftrightarrow> i < m \<and> md_id (?ms ! i) = name"
    by (auto simp: tables_ok_def)
  have "rows (target_row ?ms (Suc m)) (al_targets al)"
    using old by (rule rows_mono) (auto simp: target_row_def)
  from add_targets_rows [OF run(1) this subset_refl d(2)] obtain new where
    t: "rows (target_row ?ms (Suc m)) targets" "targets = al_targets al @ new" "\<forall>e \<in> set new. te_module e = m"
    by auto
  have own: "set (own_targets (length (al_targets al)) targets keep) = owned targets m keep" for keep
    using own_targets_owned [OF old t(3)] t(2) by simp
  have ext: "owned targets k keep = owned (al_targets al) k keep" if "k < m" for k keep
    using owned_extend [OF t(3) that] t(2) by simp
  have "rows (check_row ?ms targets (Suc m)) (al_checks al)"
    using "2.prems"(2) unfolding tables_ok_def by (elim conjE rows_mono) (auto simp: check_row_def ext)
  from add_checks_rows [OF run(2) this _ own] have c: "rows (check_row ?ms targets (Suc m)) checks" using d(2) by simp
  have "rows (binding_row ?ms targets (Suc m)) (al_bindings al)"
    using "2.prems"(2) unfolding tables_ok_def by (elim conjE rows_mono) (auto simp: binding_row_def ext)
  from add_bindings_rows [OF run(3) this _ own] have b: "rows (binding_row ?ms targets (Suc m)) bindings" using d(2) by simp
  have fresh: "md_id (?ms ! i) \<noteq> md_id (?ms ! m)" if "i < m" for i
    using names(2) [of "md_id d" i] run(5) d(2) that by auto
  have "tables_ok (m + 1) ?al'" using t(1) c b names(1) d(2)
    by (auto simp: tables_ok_def bt_sorted_insert map_of_bt_insert less_Suc_eq names(2) fresh)
  from "2.IH" [OF _ _ rest this] d(1,3) run(4,5) show ?case by simp
qed

lemma from_modules_ok:
  assumes "from_modules ms cfg = Inr al"
  shows "allow_ok al \<and> al_modules al = ms \<and> al_config al = cfg"
  using add_modules_ok [OF assms [unfolded from_modules_def]]
  by (simp add: tables_ok_def bt_sorted_def)

end
