(* ===== verification/Transport.thy ===== *)
theory Transport
  imports Proto
begin

text \<open>
  \<^verbatim>\<open>crates/detent-platform/src/privsep/transport.rs\<close>: length-prefixed messages over a stream socket. What
  \<^verbatim>\<open>read\<close> delivers is a list of events: chunks of any size, \<^verbatim>\<open>EINTR\<close>, the end of the stream, a timeout or
  another failure. A chunk longer than the buffer leaves its tail for the next read. When the list is
  exhausted nothing arrives any more and the read times out.
\<close>

section \<open>The code\<close>

definition HEADER_LEN :: nat where "HEADER_LEN = 4"

datatype channel_error =
    CeClosed
  | CeOversize nat
  | CeDecode codec_error
  | CeTimeout
  | CeIo nat

definition is_protocol_violation :: "channel_error \<Rightarrow> bool" where
  "is_protocol_violation e = (case e of CeOversize _ \<Rightarrow> True | CeDecode _ \<Rightarrow> True | _ \<Rightarrow> False)"

datatype io_kind = IkInterrupted | IkWouldBlock | IkTimedOut | IkBrokenPipe | IkConnectionReset
  | IkUnexpectedEof | IkInvalidInput | IkOther nat

fun io_code :: "io_kind \<Rightarrow> nat" where
  "io_code (IkOther n) = n"
| "io_code _ = 0"

definition is_timeout :: "io_kind \<Rightarrow> bool" where
  "is_timeout k \<longleftrightarrow> k = IkWouldBlock \<or> k = IkTimedOut"

definition map_timeout_error :: "io_kind \<Rightarrow> nat \<Rightarrow> channel_error" where
  "map_timeout_error k timeout = (if k = IkInvalidInput \<and> timeout \<noteq> 0 then CeClosed else CeIo (io_code k))"

definition map_write_error :: "io_kind \<Rightarrow> channel_error" where
  "map_write_error k =
     (if k = IkBrokenPipe \<or> k = IkConnectionReset \<or> k = IkUnexpectedEof then CeClosed
      else if k = IkWouldBlock \<or> k = IkTimedOut then CeTimeout
      else CeIo (io_code k))"

datatype rx = RxData bytes | RxFail io_kind

datatype filled = FilledFull bytes | FilledIdle

text \<open>\<open>n\<close> bytes are wanted and \<open>got\<close> are in the buffer.\<close>

fun read_exact_or_idle :: "nat \<Rightarrow> bytes \<Rightarrow> rx list \<Rightarrow> (channel_error, filled) result \<times> rx list" where
  "read_exact_or_idle n got [] =
     (if n \<le> length got then (Inr (FilledFull got), [])
      else (if got = [] then Inr FilledIdle else Inl CeTimeout, []))"
| "read_exact_or_idle n got (RxData c # xs) =
     (if n \<le> length got then (Inr (FilledFull got), RxData c # xs)
      else if c = [] then (Inl CeClosed, xs)
      else let room = n - length got in
           if length c \<le> room then read_exact_or_idle n (got @ c) xs
           else (Inr (FilledFull (got @ take room c)), RxData (drop room c) # xs))"
| "read_exact_or_idle n got (RxFail k # xs) =
     (if n \<le> length got then (Inr (FilledFull got), RxFail k # xs)
      else if k = IkInterrupted then read_exact_or_idle n got xs
      else if is_timeout k then (if got = [] then Inr FilledIdle else Inl CeTimeout, xs)
      else (Inl (CeIo (io_code k)), xs))"

definition u32_from_be :: "bytes \<Rightarrow> nat" where
  "u32_from_be b = foldl (\<lambda>a x. a * 256 + x) 0 b"

definition u32_to_be :: "nat \<Rightarrow> bytes" where
  "u32_to_be n = [n div 16777216 mod 256, n div 65536 mod 256, n div 256 mod 256, n mod 256]"

text \<open>What \<^verbatim>\<open>send\<close> hands to \<^verbatim>\<open>write_all\<close>.\<close>

definition frame_of :: "'a wire \<Rightarrow> 'a \<Rightarrow> (channel_error, bytes) result" where
  "frame_of W message =
     (case encode_message W message of
        Inl (Oversize n) \<Rightarrow> Inl (CeOversize n)
      | Inl e \<Rightarrow> Inl (CeDecode e)
      | Inr body \<Rightarrow> if length body < 2 ^ 32 then Inr (u32_to_be (length body) @ body) else Inl (CeOversize (length body)))"

definition poll_recv :: "'a wire \<Rightarrow> rx list \<Rightarrow> (channel_error, 'a option) result \<times> rx list" where
  "poll_recv W xs =
     (case read_exact_or_idle HEADER_LEN [] xs of
        (Inl e, xs1) \<Rightarrow> (Inl e, xs1)
      | (Inr FilledIdle, xs1) \<Rightarrow> (Inr None, xs1)
      | (Inr (FilledFull h), xs1) \<Rightarrow>
          (let len = u32_from_be h in
           if MAX_FRAME < len then (Inl (CeOversize len), xs1)
           else case read_exact_or_idle len [] xs1 of
                  (Inl e, xs2) \<Rightarrow> (Inl e, xs2)
                | (Inr FilledIdle, xs2) \<Rightarrow> (Inl CeTimeout, xs2)
                | (Inr (FilledFull body), xs2) \<Rightarrow>
                    (case decode_message W body of
                       Inl e \<Rightarrow> (Inl (CeDecode e), xs2)
                     | Inr v \<Rightarrow> (Inr (Some v), xs2))))"

definition recv :: "'a wire \<Rightarrow> rx list \<Rightarrow> (channel_error, 'a) result \<times> rx list" where
  "recv W xs =
     (case poll_recv W xs of
        (Inl e, xs') \<Rightarrow> (Inl e, xs')
      | (Inr None, xs') \<Rightarrow> (Inl CeTimeout, xs')
      | (Inr (Some v), xs') \<Rightarrow> (Inr v, xs'))"

text \<open>Receive until something other than a message comes.\<close>

fun recv_many :: "nat \<Rightarrow> 'a wire \<Rightarrow> rx list \<Rightarrow> 'a list \<times> rx list" where
  "recv_many n W xs =
     (if n = 0 then ([], xs)
      else case recv W xs of
             (Inl _, xs') \<Rightarrow> ([], xs')
           | (Inr v, xs') \<Rightarrow> (case recv_many (n - 1) W xs' of (vs, ys) \<Rightarrow> (v # vs, ys)))"

declare recv_many.simps [simp del]

section \<open>Framing survives any fragmentation\<close>

text \<open>A stream that only delivers data, in non-empty chunks, with interruptions in between.\<close>

definition clean :: "rx list \<Rightarrow> bool" where
  "clean xs \<longleftrightarrow> list_all (\<lambda>x. case x of RxData c \<Rightarrow> c \<noteq> [] | RxFail k \<Rightarrow> k = IkInterrupted) xs"

definition rx_bytes :: "rx list \<Rightarrow> bytes" where
  "rx_bytes xs = concat (map (\<lambda>x. case x of RxData c \<Rightarrow> c | RxFail _ \<Rightarrow> []) xs)"

lemma clean_simps [simp]:
  "clean []" "clean (RxData c # xs) \<longleftrightarrow> c \<noteq> [] \<and> clean xs" "clean (RxFail k # xs) \<longleftrightarrow> k = IkInterrupted \<and> clean xs"
  by (auto simp: clean_def)

lemma rx_bytes_simps [simp]:
  "rx_bytes [] = []" "rx_bytes (RxData c # xs) = c @ rx_bytes xs" "rx_bytes (RxFail k # xs) = rx_bytes xs"
  by (auto simp: rx_bytes_def)

lemma read_exact_clean:
  assumes "clean xs" and "n \<le> length got + length (rx_bytes xs)" and "length got \<le> n"
  shows "\<exists>ys. read_exact_or_idle n got xs = (Inr (FilledFull (take n (got @ rx_bytes xs))), ys)
    \<and> clean ys \<and> got @ rx_bytes xs = take n (got @ rx_bytes xs) @ rx_bytes ys"
  using assms
proof (induction n got xs rule: read_exact_or_idle.induct)
  case (2 n got c xs)
  consider "length got = n" | "length got < n" "length c \<le> n - length got" | "length got < n" "n - length got < length c"
    using "2.prems"(3) by linarith
  then show ?case
  proof cases
    case 2
    then show ?thesis using "2.IH" "2.prems" by auto
  qed (use "2.prems" in \<open>auto simp: Let_def\<close>)
next
  case (3 n got k xs)
  then show ?case by auto
qed auto

lemma u32_roundtrip: "n < 2 ^ 32 \<Longrightarrow> u32_from_be (u32_to_be n) = n"
proof -
  assume n: "n < 2 ^ 32"
  define a b c where "a = n div 256" and "b = a div 256" and "c = b div 256"
  have abc: "n div 65536 = b" "n div 16777216 = c" by (simp_all add: a_def b_def c_def flip: div_mult2_eq)
  have "c < 256" using n unfolding abc(2) [symmetric] by (simp add: less_mult_imp_div_less)
  then have "u32_from_be (u32_to_be n) = ((c * 256 + b mod 256) * 256 + a mod 256) * 256 + n mod 256"
    by (simp add: u32_from_be_def u32_to_be_def abc a_def)
  also have "c * 256 + b mod 256 = b" by (simp add: c_def)
  also have "b * 256 + a mod 256 = a" by (simp add: b_def)
  also have "a * 256 + n mod 256 = n" by (simp add: a_def)
  finally show ?thesis .
qed

lemma length_u32_to_be [simp]: "length (u32_to_be n) = HEADER_LEN"
  by (simp add: u32_to_be_def HEADER_LEN_def)

lemma recv_frame:
  assumes "wire_ok W" and "frame_of W v = Inr f" and "clean xs" and "rx_bytes xs = f @ rest"
  shows "\<exists>ys. recv W xs = (Inr v, ys) \<and> clean ys \<and> rx_bytes ys = rest"
proof -
  obtain body where b: "encode_message W v = Inr body" "length body < 2 ^ 32" "f = u32_to_be (length body) @ body"
    using assms(2) by (auto simp: frame_of_def split: sum.splits codec_error.splits if_splits)
  have small: "length body \<le> MAX_FRAME" using b(1) by (auto simp: encode_message_def split: option.splits if_splits)
  have dec: "decode_message W body = Inr v" using decode_encode_message [OF assms(1) b(1)] .
  obtain ys where ys: "read_exact_or_idle HEADER_LEN [] xs = (Inr (FilledFull (u32_to_be (length body))), ys)"
    "clean ys" "rx_bytes ys = body @ rest"
    using read_exact_clean [OF assms(3), of HEADER_LEN "[]"] assms(4) b(3) by auto
  obtain zs where zs: "read_exact_or_idle (length body) [] ys = (Inr (FilledFull body), zs)" "clean zs" "rx_bytes zs = rest"
    using read_exact_clean [OF ys(2), of "length body" "[]"] ys(3) by auto
  have "recv W xs = (Inr v, zs)" unfolding recv_def poll_recv_def
    using ys(1) zs(1) small dec u32_roundtrip [OF b(2)] by (simp add: Let_def)
  then show ?thesis using zs by blast
qed

text \<open>C32. Framing: whatever chunks the kernel cuts the stream into, and however often a read is interrupted,
  the receiver gets exactly the messages that were sent, in order, and the bytes after them are untouched.\<close>

theorem recv_any_chunking:
  assumes "wire_ok W" and "list_all2 (\<lambda>v f. frame_of W v = Inr f) vs fs" and "clean xs"
    and "rx_bytes xs = concat fs @ rest"
  shows "\<exists>ys. recv_many (length vs) W xs = (vs, ys) \<and> clean ys \<and> rx_bytes ys = rest"
  using assms(2-4)
proof (induction vs fs arbitrary: xs rule: list_all2_induct)
  case Nil
  then show ?case by (simp add: recv_many.simps)
next
  case (Cons v vs f fs)
  obtain ys where ys: "recv W xs = (Inr v, ys)" "clean ys" "rx_bytes ys = concat fs @ rest"
    using recv_frame [OF assms(1) Cons(1) Cons(4)] Cons(5) by auto
  then show ?case using Cons(3) [OF ys(2,3)] by (auto simp: recv_many.simps [of "Suc _"])
qed

definition byte_wire :: "nat wire" where
  "byte_wire = \<lparr>to_allocvec = (\<lambda>v. if v < 256 then Some [v] else None),
     take_from_bytes = (\<lambda>b. case b of [] \<Rightarrow> None | x # r \<Rightarrow> Some (x, r))\<rparr>"

lemma byte_wire_ok: "wire_ok byte_wire"
  by (simp add: wire_ok_def byte_wire_def)

theorem recv_any_chunking_witness:
  "\<exists>ys. recv_many (length [7, 9 :: nat]) byte_wire
     [RxData [0, 0], RxFail IkInterrupted, RxData [0, 1, 7, 0], RxData [0, 0, 1, 9, 5]] = ([7, 9], ys)
     \<and> clean ys \<and> rx_bytes ys = [5]"
  by (rule recv_any_chunking [OF byte_wire_ok, of _ "[[0, 0, 0, 1, 7], [0, 0, 0, 1, 9]]"])
    (simp_all add: frame_of_def encode_message_def byte_wire_def MAX_FRAME_def u32_to_be_def)

end
