(* ===== verification/Syscalls.thy ===== *)
theory Syscalls
  imports Text_Ops "HOL-Library.AList"
begin

text \<open>
  The operating system as the file code sees it. A path is the list of its components, which is what
  \<^verbatim>\<open>Path\<close> compares and what a system call resolves. The state holds the regular files with contents, mode,
  owner, inode and extended attributes, the directories, and which directories refuse a new entry (a
  read-only file system). Every call first takes the next event of a script: \<open>Fine\<close>, a fault the
  environment injects, or the death of the process; a write that is cut short leaves a prefix. A theorem for
  every script therefore covers every point at which a call can fail or the process can die. The errors the
  file system itself decides, \<^verbatim>\<open>ENOENT\<close> and \<^verbatim>\<open>EEXIST\<close>, are never injected: they say what the state says.
  What is on disk is what was written: loss of unsynced data at a power failure, and other processes that
  change the same directory in between, are not modelled.
\<close>

section \<open>State\<close>

type_synonym key = "component list"

datatype hard = EROFS | EACCES | EPERM | ENOTSUP | ENOSYS | EINVAL | ERANGE | ENODATA | EOTHER nat

datatype errno = ENOENT | EEXIST | Hard hard

datatype error_kind = KNotFound | KAlreadyExists | KReadOnlyFilesystem | KPermissionDenied | KOther

text \<open>\<^verbatim>\<open>std::io::Error::kind\<close>, as far as the code asks: \<^verbatim>\<open>EACCES\<close> and \<^verbatim>\<open>EPERM\<close> are both
  \<^verbatim>\<open>PermissionDenied\<close>.\<close>

fun kind_of_errno :: "errno \<Rightarrow> error_kind" where
  "kind_of_errno ENOENT = KNotFound"
| "kind_of_errno EEXIST = KAlreadyExists"
| "kind_of_errno (Hard EROFS) = KReadOnlyFilesystem"
| "kind_of_errno (Hard EACCES) = KPermissionDenied"
| "kind_of_errno (Hard EPERM) = KPermissionDenied"
| "kind_of_errno (Hard _) = KOther"

datatype sysevent = Fine | Fault nat hard | Kill nat

record regular =
  f_contents :: bytes
  f_mode :: nat
  f_uid :: nat
  f_gid :: nat
  f_ino :: nat
  f_xattrs :: "(rstr \<times> bytes) list"
  f_mtime :: nat

datatype node = Reg regular | Symlink | Special

record osys =
  os_files :: "(key \<times> node) list"
  os_dirs :: "key list"
  os_frozen :: "key list"
  os_euid :: nat
  os_egid :: nat
  os_next_ino :: nat
  os_clock :: "nat \<Rightarrow> nat"
  os_ticks :: nat
  os_token :: "nat \<Rightarrow> nat \<Rightarrow> rstr"
  os_script :: "sysevent list"

definition node_at :: "osys \<Rightarrow> key \<Rightarrow> node option" where
  "node_at s k = map_of (os_files s) k"

definition put_node :: "key \<Rightarrow> node \<Rightarrow> osys \<Rightarrow> osys" where
  "put_node k n s = s\<lparr>os_files := AList.update k n (os_files s)\<rparr>"

definition del_node :: "key \<Rightarrow> osys \<Rightarrow> osys" where
  "del_node k s = s\<lparr>os_files := AList.delete k (os_files s)\<rparr>"

definition contents_at :: "osys \<Rightarrow> key \<Rightarrow> bytes option" where
  "contents_at s k = (case node_at s k of Some (Reg f) \<Rightarrow> Some (f_contents f) | _ \<Rightarrow> None)"

lemma node_at_put [simp]: "node_at (put_node k n s) k' = (if k' = k then Some n else node_at s k')"
  by (simp add: node_at_def put_node_def update_conv')

lemma node_at_del [simp]: "node_at (del_node k s) k' = (if k' = k then None else node_at s k')"
  by (auto simp: node_at_def del_node_def delete_conv')

lemma os_fields_put [simp]:
  "os_dirs (put_node k n s) = os_dirs s" "os_frozen (put_node k n s) = os_frozen s"
  "os_script (put_node k n s) = os_script s" "os_next_ino (put_node k n s) = os_next_ino s"
  "os_dirs (del_node k s) = os_dirs s" "os_frozen (del_node k s) = os_frozen s"
  "os_script (del_node k s) = os_script s" "os_next_ino (del_node k s) = os_next_ino s"
  by (simp_all add: put_node_def del_node_def)

section \<open>Computations\<close>


datatype atomic_error =
    AeRelativePath key
  | AeSymlink key
  | AeNotRegularFile key
  | AeConflict digest "digest option"
  | AeIo rstr key errno
  | AeBadDigest
  | AeClock

datatype stop = Killed | Failed atomic_error

type_synonym 'a sys = "osys \<Rightarrow> (stop, 'a) result \<times> osys"

definition ret :: "'a \<Rightarrow> 'a sys" where
  "ret x s = (Inr x, s)"

definition stop_with :: "atomic_error \<Rightarrow> 'a sys" where
  "stop_with e s = (Inl (Failed e), s)"

definition andthen :: "'a sys \<Rightarrow> ('a \<Rightarrow> 'b sys) \<Rightarrow> 'b sys" where
  "andthen m f s = (case m s of (Inl e, s') \<Rightarrow> (Inl e, s') | (Inr x, s') \<Rightarrow> f x s')"

definition lift :: "(atomic_error, 'a) result \<Rightarrow> 'a sys" where
  "lift r = (case r of Inl e \<Rightarrow> stop_with e | Inr x \<Rightarrow> ret x)"

definition reads :: "(osys \<Rightarrow> 'a) \<Rightarrow> 'a sys" where
  "reads f s = (Inr (f s), s)"

definition modify :: "(osys \<Rightarrow> osys) \<Rightarrow> unit sys" where
  "modify f s = (Inr (), f s)"

text \<open>Take the next event; \<open>syscall_cut\<close> also says how much of a write happened.\<close>

definition syscall_cut :: "rstr \<Rightarrow> key \<Rightarrow> osys \<Rightarrow> (nat \<times> stop) option \<times> osys" where
  "syscall_cut op p s =
     (case os_script s of
        [] \<Rightarrow> (None, s)
      | e # es \<Rightarrow>
          (case e of
             Fine \<Rightarrow> None
           | Fault n h \<Rightarrow> Some (n, Failed (AeIo op p (Hard h)))
           | Kill n \<Rightarrow> Some (n, Killed), s\<lparr>os_script := es\<rparr>))"

definition syscall :: "rstr \<Rightarrow> key \<Rightarrow> unit sys" where
  "syscall op p s =
     (case syscall_cut op p s of
        (None, s') \<Rightarrow> (Inr (), s')
      | (Some (_, e), s') \<Rightarrow> (Inl e, s'))"

definition write_file :: "key \<Rightarrow> key \<Rightarrow> bytes \<Rightarrow> unit sys" where
  "write_file k p b s =
     (case node_at s k of
        Some (Reg f) \<Rightarrow>
          (case syscall_cut (lit ''write'') p s of
             (None, s') \<Rightarrow> (Inr (), put_node k (Reg (f\<lparr>f_contents := f_contents f @ b\<rparr>)) s')
           | (Some (n, e), s') \<Rightarrow> (Inl e, put_node k (Reg (f\<lparr>f_contents := f_contents f @ take n b\<rparr>)) s'))
      | _ \<Rightarrow> (Inl (Failed (AeIo (lit ''write'') p ENOENT)), s))"

definition sys_unlink :: "key \<Rightarrow> key \<Rightarrow> unit sys" where
  "sys_unlink k p =
     andthen (syscall (lit ''unlinkat'') p) (\<lambda>_ s.
       if node_at s k = None then (Inl (Failed (AeIo (lit ''unlinkat'') p ENOENT)), s)
       else (Inr (), del_node k s))"

definition sys_rename :: "key \<Rightarrow> key \<Rightarrow> key \<Rightarrow> unit sys" where
  "sys_rename src dst p =
     andthen (syscall (lit ''renameat'') p) (\<lambda>_ s.
       case node_at s src of
         None \<Rightarrow> (Inl (Failed (AeIo (lit ''renameat'') p ENOENT)), s)
       | Some n \<Rightarrow> (Inr (), put_node dst n (del_node src s)))"

text \<open>\<^verbatim>\<open>openat\<close> with \<^verbatim>\<open>O_CREAT | O_EXCL | O_NOFOLLOW\<close>.\<close>

definition sys_create :: "key \<Rightarrow> key \<Rightarrow> nat \<Rightarrow> unit sys" where
  "sys_create k p mode =
     andthen (syscall (lit ''openat'') p) (\<lambda>_ s.
       if node_at s k \<noteq> None then (Inl (Failed (AeIo (lit ''openat'') p EEXIST)), s)
       else if butlast k \<in> set (os_frozen s) then (Inl (Failed (AeIo (lit ''openat'') p (Hard EROFS))), s)
       else (Inr (), put_node k (Reg \<lparr>f_contents = [], f_mode = mode, f_uid = os_euid s, f_gid = os_egid s,
               f_ino = os_next_ino s, f_xattrs = [], f_mtime = os_clock s (os_ticks s)\<rparr>)
               (s\<lparr>os_next_ino := Suc (os_next_ino s)\<rparr>)))"

definition update_file :: "rstr \<Rightarrow> key \<Rightarrow> key \<Rightarrow> (regular \<Rightarrow> regular) \<Rightarrow> unit sys" where
  "update_file op k p f =
     andthen (syscall op p) (\<lambda>_ s.
       case node_at s k of
         Some (Reg g) \<Rightarrow> (Inr (), put_node k (Reg (f g)) s)
       | _ \<Rightarrow> (Inl (Failed (AeIo op p ENOENT)), s))"

definition file_at :: "key \<Rightarrow> osys \<Rightarrow> regular" where
  "file_at k s = (case node_at s k of Some (Reg f) \<Rightarrow> f
     | _ \<Rightarrow> \<lparr>f_contents = [], f_mode = 0, f_uid = 0, f_gid = 0, f_ino = 0, f_xattrs = [], f_mtime = 0\<rparr>)"

definition open_dir :: "key \<Rightarrow> unit sys" where
  "open_dir dir =
     andthen (syscall (lit ''open'') dir) (\<lambda>_ s.
       if dir \<in> set (os_dirs s) then (Inr (), s) else (Inl (Failed (AeIo (lit ''open'') dir ENOENT)), s))"

definition fsync :: "key \<Rightarrow> unit sys" where
  "fsync p = syscall (lit ''fsync'') p"

fun prefixes_of :: "key \<Rightarrow> key list" where
  "prefixes_of p = map (\<lambda>n. take (Suc n) p) [0 ..< length p]"

definition create_dir_all :: "rstr \<Rightarrow> key \<Rightarrow> unit sys" where
  "create_dir_all op dir =
     andthen (syscall op dir) (\<lambda>_. modify (\<lambda>s. s\<lparr>os_dirs := prefixes_of dir @ os_dirs s\<rparr>))"

text \<open>\<^verbatim>\<open>SystemTime::now\<close> and a fresh random token.\<close>

definition sys_now :: "nat sys" where
  "sys_now s = (Inr (os_clock s (os_ticks s)), s\<lparr>os_ticks := Suc (os_ticks s)\<rparr>)"

text \<open>Run \<open>m\<close>; when it fails, remove \<open>k\<close> and keep the failure (\<^verbatim>\<open>TempGuard\<close>). A dead process
  removes nothing.\<close>

definition guarded :: "key \<Rightarrow> 'a sys \<Rightarrow> 'a sys" where
  "guarded k m s =
     (case m s of
        (Inl (Failed e), s') \<Rightarrow>
          (case sys_unlink k k s' of
             (Inl Killed, s'') \<Rightarrow> (Inl Killed, s'')
           | (_, s'') \<Rightarrow> (Inl (Failed e), s''))
      | r \<Rightarrow> r)"

lemma andthen_simps [simp]:
  "andthen (ret x) f = f x" "andthen (stop_with e) f = stop_with e" "lift (Inr x) = ret x" "lift (Inl e) = stop_with e"
  by (auto simp: andthen_def ret_def stop_with_def lift_def fun_eq_iff)

section \<open>Triples\<close>

text \<open>From a state with \<open>P\<close> the computation returns with \<open>Q\<close> or stops with \<open>R\<close>.\<close>

definition triple :: "(osys \<Rightarrow> bool) \<Rightarrow> 'a sys \<Rightarrow> ('a \<Rightarrow> osys \<Rightarrow> bool) \<Rightarrow> (stop \<Rightarrow> osys \<Rightarrow> bool) \<Rightarrow> bool" where
  "triple P m Q R \<longleftrightarrow> (\<forall>s. P s \<longrightarrow> (case m s of (Inr x, s') \<Rightarrow> Q x s' | (Inl e, s') \<Rightarrow> R e s'))"

named_theorems triples

lemma tripleD:
  assumes "triple P m Q R" and "P s"
  shows "m s = (Inr x, s') \<Longrightarrow> Q x s'" "m s = (Inl e, s') \<Longrightarrow> R e s'"
  using assms by (auto simp: triple_def split: prod.splits sum.splits)

lemma triple_conseq:
  assumes "triple P m Q R" and "\<And>s. P' s \<Longrightarrow> P s" and "\<And>x s. Q x s \<Longrightarrow> Q' x s" and "\<And>e s. R e s \<Longrightarrow> R' e s"
  shows "triple P' m Q' R'"
  using assms unfolding triple_def by (fastforce split: prod.splits sum.splits)

lemma triple_ret [triples]: "(\<And>s. P s \<Longrightarrow> Q x s) \<Longrightarrow> triple P (ret x) Q R"
  by (simp add: triple_def ret_def)

lemma triple_stop_with [triples]: "(\<And>s. P s \<Longrightarrow> R (Failed e) s) \<Longrightarrow> triple P (stop_with e) Q R"
  by (simp add: triple_def stop_with_def)

lemma triple_lift [triples]:
  "(\<And>e s. r = Inl e \<Longrightarrow> P s \<Longrightarrow> R (Failed e) s) \<Longrightarrow> (\<And>x s. r = Inr x \<Longrightarrow> P s \<Longrightarrow> Q x s) \<Longrightarrow> triple P (lift r) Q R"
  by (cases r) (auto simp: lift_def intro: triples)

lemma triple_reads [triples]: "(\<And>s. P s \<Longrightarrow> Q (f s) s) \<Longrightarrow> triple P (reads f) Q R"
  by (simp add: triple_def reads_def)

lemma triple_modify [triples]: "(\<And>s. P s \<Longrightarrow> Q () (f s)) \<Longrightarrow> triple P (modify f) Q R"
  by (simp add: triple_def modify_def)

lemma triple_andthen:
  assumes "triple P m Q R" and "\<And>x. triple (Q x) (f x) S R"
  shows "triple P (andthen m f) S R"
  using assms unfolding triple_def andthen_def by (fastforce split: prod.splits sum.splits)

lemma triple_if [triples]:
  "(b \<Longrightarrow> triple P m Q R) \<Longrightarrow> (\<not> b \<Longrightarrow> triple P n Q R) \<Longrightarrow> triple P (if b then m else n) Q R"
  by simp

lemma triple_case_option [triples]:
  "(v = None \<Longrightarrow> triple P m Q R) \<Longrightarrow> (\<And>x. v = Some x \<Longrightarrow> triple P (n x) Q R) \<Longrightarrow>
   triple P (case v of None \<Rightarrow> m | Some x \<Rightarrow> n x) Q R"
  by (cases v) auto

text \<open>An assertion is quiet when it does not look at the script.\<close>

definition quiet :: "(osys \<Rightarrow> bool) \<Rightarrow> bool" where
  "quiet P \<longleftrightarrow> (\<forall>s es. P s \<longrightarrow> P (s\<lparr>os_script := es\<rparr>))"

lemma quietI: "(\<And>s es. P s \<Longrightarrow> P (s\<lparr>os_script := es\<rparr>)) \<Longrightarrow> quiet P"
  by (simp add: quiet_def)

lemma quietD: "quiet P \<Longrightarrow> P s \<Longrightarrow> P (s\<lparr>os_script := es\<rparr>)"
  by (simp add: quiet_def)

lemma node_at_script [simp]: "node_at (s\<lparr>os_script := es\<rparr>) = node_at s"
  by (rule ext) (simp add: node_at_def)

lemma syscall_cut_cases:
  "\<exists>r es. syscall_cut op p s = (r, s\<lparr>os_script := es\<rparr>) \<and> (\<forall>n e. r = Some (n, e) \<longrightarrow> e = Killed \<or> (\<exists>h. e = Failed (AeIo op p (Hard h))))"
proof (cases "os_script s")
  case Nil
  then have "s\<lparr>os_script := []\<rparr> = s" by (metis osys.surjective osys.update_convs(10))
  with Nil show ?thesis by (auto simp: syscall_cut_def intro: exI [of _ "[]"])
next
  case (Cons e es)
  then show ?thesis by (cases e) (auto simp: syscall_cut_def)
qed

text \<open>A call keeps a quiet assertion and stops, if it does, with its own error or dead.\<close>

lemma triple_syscall:
  assumes "quiet P" and "\<And>s. P s \<Longrightarrow> Q () s" and "\<And>s. P s \<Longrightarrow> R Killed s"
    and "\<And>s h. P s \<Longrightarrow> R (Failed (AeIo op p (Hard h))) s"
  shows "triple P (syscall op p) Q R"
  unfolding triple_def
proof (intro allI impI)
  fix s assume "P s"
  obtain r es where r: "syscall_cut op p s = (r, s\<lparr>os_script := es\<rparr>)"
    and e: "\<And>n e. r = Some (n, e) \<Longrightarrow> e = Killed \<or> (\<exists>h. e = Failed (AeIo op p (Hard h)))"
    using syscall_cut_cases [of op p s] by metis
  have "P (s\<lparr>os_script := es\<rparr>)" using assms(1) \<open>P s\<close> by (rule quietD)
  then show "case syscall op p s of (Inr x, s') \<Rightarrow> Q x s' | (Inl e, s') \<Rightarrow> R e s'"
    using assms(2-4) e by (cases r) (auto simp: syscall_def r)
qed

end
