(* ===== verification/Atomic_File.thy ===== *)
theory Atomic_File
  imports Syscalls
begin

text \<open>
  \<^verbatim>\<open>crates/detent-platform/src/fs/atomic.rs\<close>: writing a file atomically with a backup, the in-place fallback
  with its marker, listing and restoring backups. SHA-256, the formatting of a timestamp (\<^verbatim>\<open>time\<close>) and
  JSON (\<^verbatim>\<open>serde_json\<close>) are other crates' code: the record \<open>fsenv\<close> carries them.
\<close>

section \<open>The code\<close>

subsection \<open>Digests and requests\<close>

definition BACKUP_FILE_MODE :: nat where "BACKUP_FILE_MODE = 384"
definition BACKUP_DIR_MODE :: nat where "BACKUP_DIR_MODE = 448"
definition NAME_ATTEMPTS :: nat where "NAME_ATTEMPTS = 32"
definition BACKUP_DIGEST_HEX_LEN :: nat where "BACKUP_DIGEST_HEX_LEN = 8"

definition is_ascii_hexdigit :: "nat \<Rightarrow> bool" where
  "is_ascii_hexdigit b \<longleftrightarrow> is_ascii_digit b \<or> (65 \<le> b \<and> b \<le> 70) \<or> (97 \<le> b \<and> b \<le> 102)"

definition short_hex :: "digest \<Rightarrow> rstr" where
  "short_hex d = take BACKUP_DIGEST_HEX_LEN d"

text \<open>The digest is held as the text \<^verbatim>\<open>Display\<close> prints, so parsing is a check and lower case.\<close>

definition digest_from_str :: "rstr \<Rightarrow> (atomic_error, digest) result" where
  "digest_from_str t =
     (if length (as_bytes t) \<noteq> 64 \<or> \<not> list_all is_ascii_hexdigit (as_bytes t) then Inl AeBadDigest
      else Inr (to_ascii_lowercase t))"

record in_place_marker =
  im_path :: key
  im_backup :: "key option"
  im_prev :: digest
  im_new :: digest

record fsenv =
  fe_sha :: "bytes \<Rightarrow> digest"
  fe_stamp :: "nat \<Rightarrow> rstr option"
  fe_marker_json :: "in_place_marker \<Rightarrow> bytes"
  fe_marker_parse :: "bytes \<Rightarrow> in_place_marker option"

datatype in_place = IpNever | IpMarker key | IpGuarded

record write_request =
  rq_path :: key
  rq_contents :: bytes
  rq_expected_prev :: "digest option"
  rq_backup_dir :: key
  rq_keep_backups :: nat
  rq_create_missing :: bool
  rq_create_mode :: nat
  rq_in_place :: in_place

definition write_request_new :: "key \<Rightarrow> bytes \<Rightarrow> key \<Rightarrow> write_request" where
  "write_request_new p contents backup_dir =
     \<lparr>rq_path = p, rq_contents = contents, rq_expected_prev = None, rq_backup_dir = backup_dir,
      rq_keep_backups = 20, rq_create_missing = False, rq_create_mode = 420, rq_in_place = IpNever\<rparr>"

record write_outcome =
  wo_prev_digest :: "digest option"
  wo_new_digest :: digest
  wo_backup :: "key option"
  wo_created :: bool
  wo_owner_preserved :: bool

record backup_entry =
  ba_path :: key
  ba_created :: nat
  ba_digest :: digest
  ba_len :: nat

definition xattr_unsupported :: "errno \<Rightarrow> bool" where
  "xattr_unsupported e \<longleftrightarrow> e \<in> {Hard ENOTSUP, Hard EPERM, Hard EACCES, Hard ENOSYS, Hard EINVAL, Hard ERANGE, Hard ENODATA}"

subsection \<open>Reading\<close>

definition split_path :: "key \<Rightarrow> (atomic_error, key \<times> rstr) result" where
  "split_path p =
     (if p = [] \<or> hd p \<noteq> RootDir then Inl (AeRelativePath p)
      else case last p of Normal name \<Rightarrow> Inr (butlast p, name) | _ \<Rightarrow> Inl (AeRelativePath p))"

definition at :: "key \<Rightarrow> rstr \<Rightarrow> key" where
  "at dir name = dir @ [Normal name]"

definition read_existing :: "key \<Rightarrow> rstr \<Rightarrow> key \<Rightarrow> regular option sys" where
  "read_existing dir name p =
     andthen (syscall (lit ''statat'') p) (\<lambda>_.
     andthen (reads (\<lambda>s. node_at s (at dir name))) (\<lambda>found.
       case found of
         None \<Rightarrow> ret None
       | Some n \<Rightarrow>
           (case n of
              Symlink \<Rightarrow> stop_with (AeSymlink p)
            | Special \<Rightarrow> stop_with (AeNotRegularFile p)
            | Reg f \<Rightarrow>
                andthen (syscall (lit ''openat'') p) (\<lambda>_.
                andthen (syscall (lit ''fstat'') p) (\<lambda>_.
                andthen (syscall (lit ''read'') p) (\<lambda>_.
                  ret (Some f)))))))"

definition read_with_digest :: "fsenv \<Rightarrow> key \<Rightarrow> (bytes \<times> digest) sys" where
  "read_with_digest E p =
     andthen (lift (split_path p)) (\<lambda>(dir, name).
     andthen (open_dir dir) (\<lambda>_.
     andthen (read_existing dir name p) (\<lambda>found.
       case found of
         Some f \<Rightarrow> ret (f_contents f, fe_sha E (f_contents f))
       | None \<Rightarrow> stop_with (AeIo (lit ''openat'') p ENOENT))))"

subsection \<open>Replacing by rename\<close>

text \<open>\<^verbatim>\<open>create_exclusive\<close>: the names of the attempts in order; only a name that is taken tries the next.\<close>

fun create_exclusive :: "key \<Rightarrow> key \<Rightarrow> nat \<Rightarrow> rstr list \<Rightarrow> rstr sys" where
  "create_exclusive dir p mode [] s = (Inl (Failed (AeIo (lit ''openat'') p EEXIST)), s)"
| "create_exclusive dir p mode (name # names) s =
     (case sys_create (at dir name) p mode s of
        (Inr _, s') \<Rightarrow> (Inr name, s')
      | (Inl (Failed (AeIo op q EEXIST)), s') \<Rightarrow> create_exclusive dir p mode names s'
      | (Inl e, s') \<Rightarrow> (Inl e, s'))"

definition temp_names :: "rstr list sys" where
  "temp_names s =
     (Inr (map (\<lambda>attempt. lit ''.detent-tmp-'' @ os_token s (os_ticks s) attempt) [0 ..< NAME_ATTEMPTS]),
      s\<lparr>os_ticks := Suc (os_ticks s)\<rparr>)"

definition chown_changes :: "nat \<times> nat \<Rightarrow> nat \<times> nat \<Rightarrow> nat \<Rightarrow> bool" where
  "chown_changes current target mode \<longleftrightarrow>
     fst current \<noteq> fst target \<or> snd current \<noteq> snd target \<or> mode div 1024 mod 4 \<noteq> 0"

text \<open>\<^verbatim>\<open>fchown\<close> that is refused with \<^verbatim>\<open>EPERM\<close> is not an error: the owner is not preserved.\<close>

definition try_chown :: "key \<Rightarrow> key \<Rightarrow> nat \<times> nat \<Rightarrow> bool sys" where
  "try_chown k p owner s =
     (case update_file (lit ''fchown'') k p (\<lambda>f. f\<lparr>f_uid := fst owner, f_gid := snd owner\<rparr>) s of
        (Inr _, s') \<Rightarrow> (Inr True, s')
      | (Inl (Failed (AeIo op q (Hard EPERM))), s') \<Rightarrow> (Inr False, s')
      | (Inl e, s') \<Rightarrow> (Inl e, s'))"

text \<open>One attribute: read it from the source, set it on the destination; an error that means that
  attributes are not supported is ignored.\<close>

definition ignoring :: "(errno \<Rightarrow> bool) \<Rightarrow> unit sys \<Rightarrow> bool sys" where
  "ignoring ok m s =
     (case m s of
        (Inr _, s') \<Rightarrow> (Inr True, s')
      | (Inl (Failed (AeIo op q e)), s') \<Rightarrow> if ok e then (Inr False, s') else (Inl (Failed (AeIo op q e)), s')
      | (Inl e, s') \<Rightarrow> (Inl e, s'))"

fun copy_xattr_list :: "(rstr \<times> bytes) list \<Rightarrow> key \<Rightarrow> key \<Rightarrow> unit sys" where
  "copy_xattr_list [] k p = ret ()"
| "copy_xattr_list ((name, value) # xs) k p =
     andthen (ignoring xattr_unsupported (syscall (lit ''fgetxattr'') p)) (\<lambda>got.
     andthen (if got then ignoring xattr_unsupported
                (update_file (lit ''fsetxattr'') k p (\<lambda>f. f\<lparr>f_xattrs := AList.update name value (f_xattrs f)\<rparr>))
              else ret False) (\<lambda>_.
       copy_xattr_list xs k p))"

definition copy_xattrs :: "regular \<Rightarrow> key \<Rightarrow> key \<Rightarrow> unit sys" where
  "copy_xattrs source k p =
     andthen (ignoring xattr_unsupported (syscall (lit ''flistxattr'') p)) (\<lambda>listed.
       if listed then copy_xattr_list (f_xattrs source) k p else ret ())"

text \<open>What \<^verbatim>\<open>replace_contents\<close> does while the guard is armed: mode, owner, attributes, contents,
  rename.\<close>

definition fill_temp ::
  "key \<Rightarrow> key \<Rightarrow> key \<Rightarrow> bytes \<Rightarrow> nat \<Rightarrow> (nat \<times> nat) option \<Rightarrow> regular option \<Rightarrow> bool sys" where
  "fill_temp temp target p contents mode owner source =
     andthen (update_file (lit ''fchmod'') temp p (\<lambda>f. f\<lparr>f_mode := mode\<rparr>)) (\<lambda>_.
     andthen
       (case owner of
          None \<Rightarrow> ret True
        | Some ids \<Rightarrow>
            andthen (syscall (lit ''fstat'') p) (\<lambda>_.
            andthen (reads (file_at temp)) (\<lambda>t.
              if chown_changes (f_uid t, f_gid t) ids mode then try_chown temp p ids else ret True))) (\<lambda>owner_preserved.
     andthen (case source of None \<Rightarrow> ret () | Some f \<Rightarrow> copy_xattrs f temp p) (\<lambda>_.
     andthen (write_file temp p contents) (\<lambda>_.
     andthen (fsync p) (\<lambda>_.
     andthen (sys_rename temp target p) (\<lambda>_.
       ret owner_preserved))))))"

definition replace_contents ::
  "key \<Rightarrow> rstr \<Rightarrow> key \<Rightarrow> bytes \<Rightarrow> nat \<Rightarrow> (nat \<times> nat) option \<Rightarrow> regular option \<Rightarrow> bool sys" where
  "replace_contents dir name p contents mode owner source =
     andthen temp_names (\<lambda>names.
     andthen (create_exclusive dir p mode names) (\<lambda>temp.
     andthen (guarded (at dir temp) (fill_temp (at dir temp) (at dir name) p contents mode owner source)) (\<lambda>owner_preserved.
     andthen (fsync p) (\<lambda>_.
       ret owner_preserved))))"

subsection \<open>Writing in place\<close>

definition temp_refused :: "atomic_error \<Rightarrow> bool" where
  "temp_refused e =
     (case e of
        AeIo op _ source \<Rightarrow> op = lit ''openat'' \<and> kind_of_errno source \<in> {KReadOnlyFilesystem, KPermissionDenied}
      | _ \<Rightarrow> False)"

definition write_marker :: "fsenv \<Rightarrow> key \<Rightarrow> in_place_marker \<Rightarrow> unit sys" where
  "write_marker E marker record =
     andthen (lift (split_path marker)) (\<lambda>(dir, name).
     andthen (open_dir dir) (\<lambda>_.
     andthen (sys_create (at dir name) marker BACKUP_FILE_MODE) (\<lambda>_.
     andthen (write_file (at dir name) marker (fe_marker_json E record)) (\<lambda>_.
     andthen (fsync marker) (\<lambda>_.
       fsync dir)))))"

definition remove_marker :: "key \<Rightarrow> unit sys" where
  "remove_marker marker =
     andthen (lift (split_path marker)) (\<lambda>(dir, name).
     andthen (open_dir dir) (\<lambda>_.
     andthen (sys_unlink (at dir name) marker) (\<lambda>_.
       fsync dir)))"

definition write_in_place :: "key \<Rightarrow> rstr \<Rightarrow> key \<Rightarrow> regular \<Rightarrow> bytes \<Rightarrow> unit sys" where
  "write_in_place dir name p found contents =
     andthen (update_file (lit ''openat'') (at dir name) p (\<lambda>f. f\<lparr>f_contents := []\<rparr>)) (\<lambda>_.
     andthen (syscall (lit ''fstat'') p) (\<lambda>_.
     andthen (syscall (lit ''fstat'') p) (\<lambda>_.
     andthen (reads (file_at (at dir name))) (\<lambda>now.
       if f_ino now \<noteq> f_ino found then stop_with (AeNotRegularFile p)
       else andthen (write_file (at dir name) p contents) (\<lambda>_. fsync p)))))"

subsection \<open>Backups\<close>

definition ensure_backup_dir :: "key \<Rightarrow> unit sys" where
  "ensure_backup_dir dir =
     andthen (reads (\<lambda>s. dir \<in> set (os_dirs s))) (\<lambda>there.
       if there then ret ()
       else andthen (create_dir_all (lit ''mkdir'') dir) (\<lambda>_.
            andthen (open_dir dir) (\<lambda>_.
              syscall (lit ''fchmod'') dir)))"

definition backup_name :: "fsenv \<Rightarrow> nat \<Rightarrow> rstr \<Rightarrow> digest \<Rightarrow> nat \<Rightarrow> rstr" where
  "backup_name E now stamp d attempt =
     (case fe_stamp E (now + attempt) of Some t \<Rightarrow> t | None \<Rightarrow> stamp) @ [45] @ short_hex d"

definition write_backup :: "fsenv \<Rightarrow> key \<Rightarrow> bytes \<Rightarrow> digest \<Rightarrow> nat \<Rightarrow> key sys" where
  "write_backup E dir contents d now =
     andthen (ensure_backup_dir dir) (\<lambda>_.
     andthen (lift (case fe_stamp E now of Some t \<Rightarrow> Inr t | None \<Rightarrow> Inl AeClock)) (\<lambda>stamp.
     andthen (open_dir dir) (\<lambda>_.
     andthen (create_exclusive dir dir BACKUP_FILE_MODE (map (backup_name E now stamp d) [0 ..< NAME_ATTEMPTS])) (\<lambda>name.
     andthen (guarded (at dir name)
       (andthen (update_file (lit ''fchmod'') (at dir name) (at dir name) (\<lambda>f. f\<lparr>f_mode := BACKUP_FILE_MODE\<rparr>)) (\<lambda>_.
        andthen (write_file (at dir name) (at dir name) contents) (\<lambda>_.
          fsync (at dir name))))) (\<lambda>_.
     andthen (fsync dir) (\<lambda>_.
       ret (at dir name)))))))"

definition is_backup_name :: "rstr \<Rightarrow> bool" where
  "is_backup_name name =
     (case rsplit_once 45 name of
        None \<Rightarrow> False
      | Some (stamp, short) \<Rightarrow>
          str_len short = BACKUP_DIGEST_HEX_LEN \<and> list_all is_ascii_hexdigit (as_bytes short)
          \<and> contains_str (lit ''T'') stamp \<and> stamp \<noteq> [] \<and> last stamp = 90)"

definition listing :: "key \<Rightarrow> osys \<Rightarrow> rstr list" where
  "listing dir s =
     filter_map (\<lambda>(k, n). case n of
         Reg _ \<Rightarrow> if k \<noteq> [] \<and> butlast k = dir then (case last k of Normal w \<Rightarrow> Some w | _ \<Rightarrow> None) else None
       | _ \<Rightarrow> None) (os_files s)"

definition backup_names :: "key \<Rightarrow> rstr list sys" where
  "backup_names dir =
     andthen (syscall (lit ''readdir'') dir) (\<lambda>_ s.
       if dir \<in> set (os_dirs s) then (Inr (filter is_backup_name (listing dir s)), s)
       else (Inl (Failed (AeIo (lit ''readdir'') dir ENOENT)), s))"

fun unlink_names :: "key \<Rightarrow> rstr list \<Rightarrow> unit sys" where
  "unlink_names dir [] = ret ()"
| "unlink_names dir (n # ns) =
     andthen (sys_unlink (at dir n) (at dir n)) (\<lambda>_. unlink_names dir ns)"

definition rotate_backups :: "key \<Rightarrow> nat \<Rightarrow> key \<Rightarrow> unit sys" where
  "rotate_backups dir keep newest =
     andthen (backup_names dir) (\<lambda>names.
       if length names \<le> keep then ret ()
       else
         let others = filter (\<lambda>n. newest = [] \<or> last newest \<noteq> Normal n) names;
             doomed = drop (keep - 1) (rev (sort others))
         in andthen (open_dir dir) (\<lambda>_.
            andthen (unlink_names dir doomed) (\<lambda>_.
              fsync dir)))"

subsection \<open>The atomic write\<close>

definition write_over ::
  "fsenv \<Rightarrow> write_request \<Rightarrow> key \<Rightarrow> rstr \<Rightarrow> regular option \<Rightarrow> key option \<Rightarrow> bool sys" where
  "write_over E req dir name existing backup s =
     (case (replace_contents dir name (rq_path req) (rq_contents req)
              (case existing of Some f \<Rightarrow> f_mode f | None \<Rightarrow> rq_create_mode req)
              (map_option (\<lambda>f. (f_uid f, f_gid f)) existing) existing s, existing) of
        ((Inl (Failed err), s'), Some found) \<Rightarrow>
          if temp_refused err then
            (case rq_in_place req of
               IpNever \<Rightarrow> (Inl (Failed err), s')
             | IpMarker marker \<Rightarrow>
                 (case backup of
                    None \<Rightarrow> (Inl (Failed err), s')
                  | Some b \<Rightarrow>
                      andthen (write_marker E marker \<lparr>im_path = rq_path req, im_backup = Some b,
                          im_prev = fe_sha E (f_contents found), im_new = fe_sha E (rq_contents req)\<rparr>) (\<lambda>_ s1.
                        case write_in_place dir name (rq_path req) found (rq_contents req) s1 of
                          (Inr _, s2) \<Rightarrow> andthen (remove_marker marker) (\<lambda>_. ret True) s2
                        | (Inl (Failed e), s2) \<Rightarrow>
                            (case e of
                               AeIo op _ _ \<Rightarrow>
                                 if op = lit ''openat''
                                 then andthen (remove_marker marker) (\<lambda>_. stop_with e) s2
                                 else (Inl (Failed e), s2)
                             | _ \<Rightarrow> (Inl (Failed e), s2))
                        | (Inl Killed, s2) \<Rightarrow> (Inl Killed, s2)) s')
             | IpGuarded \<Rightarrow>
                 andthen (write_in_place dir name (rq_path req) found (rq_contents req)) (\<lambda>_. ret True) s')
          else (Inl (Failed err), s')
      | (r, _) \<Rightarrow> r)"

definition check_expected :: "fsenv \<Rightarrow> write_request \<Rightarrow> regular option \<Rightarrow> unit sys" where
  "check_expected E req existing =
     (case rq_expected_prev req of
        None \<Rightarrow> ret ()
      | Some expected \<Rightarrow>
          let actual = map_option (\<lambda>f. fe_sha E (f_contents f)) existing
          in if actual \<noteq> Some expected then stop_with (AeConflict expected actual) else ret ())"

definition take_backup :: "fsenv \<Rightarrow> write_request \<Rightarrow> regular option \<Rightarrow> key option sys" where
  "take_backup E req existing =
     (case existing of
        None \<Rightarrow> ret None
      | Some found \<Rightarrow>
          if 0 < rq_keep_backups req then
            andthen sys_now (\<lambda>now.
            andthen (write_backup E (rq_backup_dir req) (f_contents found) (fe_sha E (f_contents found)) now) (\<lambda>p.
            andthen (rotate_backups (rq_backup_dir req) (rq_keep_backups req) p) (\<lambda>_.
              ret (Some p))))
          else ret None)"

text \<open>\<^verbatim>\<open>write_atomic\<close> after the current file is read.\<close>

definition write_existing :: "fsenv \<Rightarrow> write_request \<Rightarrow> key \<Rightarrow> rstr \<Rightarrow> regular option \<Rightarrow> write_outcome sys" where
  "write_existing E req dir name existing =
     andthen (check_expected E req existing) (\<lambda>_.
     andthen (take_backup E req existing) (\<lambda>backup.
     andthen (write_over E req dir name existing backup) (\<lambda>owner_preserved.
       ret \<lparr>wo_prev_digest = map_option (\<lambda>f. fe_sha E (f_contents f)) existing,
            wo_new_digest = fe_sha E (rq_contents req), wo_backup = backup,
            wo_created = (existing = None), wo_owner_preserved = owner_preserved\<rparr>)))"

definition write_atomic :: "fsenv \<Rightarrow> write_request \<Rightarrow> write_outcome sys" where
  "write_atomic E req =
     andthen (lift (split_path (rq_path req))) (\<lambda>(dir, name).
     andthen (if rq_create_missing req then create_dir_all (lit ''create_dir_all'') dir else ret ()) (\<lambda>_.
     andthen (open_dir dir) (\<lambda>_.
     andthen (read_existing dir name (rq_path req)) (\<lambda>existing.
       write_existing E req dir name existing))))"

subsection \<open>Listing and restoring\<close>

fun list_entries :: "fsenv \<Rightarrow> key \<Rightarrow> rstr list \<Rightarrow> backup_entry list sys" where
  "list_entries E dir [] = ret []"
| "list_entries E dir (n # ns) =
     andthen (read_with_digest E (at dir n)) (\<lambda>(contents, d).
     andthen (syscall (lit ''stat'') (at dir n)) (\<lambda>_.
     andthen (reads (file_at (at dir n))) (\<lambda>f.
     andthen (list_entries E dir ns) (\<lambda>rest.
       ret (\<lparr>ba_path = at dir n, ba_created = f_mtime f, ba_digest = d, ba_len = length contents\<rparr> # rest)))))"

definition list_backups :: "fsenv \<Rightarrow> key \<Rightarrow> backup_entry list sys" where
  "list_backups E dir s =
     (case backup_names dir s of
        (Inl (Failed (AeIo op p source)), s') \<Rightarrow>
          if kind_of_errno source = KNotFound then (Inr [], s') else (Inl (Failed (AeIo op p source)), s')
      | (Inl e, s') \<Rightarrow> (Inl e, s')
      | (Inr names, s') \<Rightarrow> list_entries E dir (rev (sort names)) s')"

definition restore_backup_with :: "fsenv \<Rightarrow> key \<Rightarrow> key \<Rightarrow> digest option \<Rightarrow> in_place \<Rightarrow> write_outcome sys" where
  "restore_backup_with E backup target expected_prev mode =
     andthen (lift (if backup = [] \<or> backup = [RootDir] then Inl (AeRelativePath backup) else Inr (butlast backup))) (\<lambda>backup_dir.
     andthen (read_with_digest E backup) (\<lambda>(contents, _).
       write_atomic E ((write_request_new target contents backup_dir)
         \<lparr>rq_expected_prev := expected_prev, rq_in_place := mode\<rparr>)))"

definition restore_backup_expecting :: "fsenv \<Rightarrow> key \<Rightarrow> key \<Rightarrow> digest option \<Rightarrow> write_outcome sys" where
  "restore_backup_expecting E backup target expected_prev = restore_backup_with E backup target expected_prev IpNever"

definition restore_backup :: "fsenv \<Rightarrow> key \<Rightarrow> key \<Rightarrow> write_outcome sys" where
  "restore_backup E backup target = restore_backup_expecting E backup target None"

end
