(* ===== verification/Exec_Deny.thy ===== *)
theory Exec_Deny
  imports Text_Ops "HOL-Library.Multiset"
begin

text \<open>
  \<^verbatim>\<open>crates/detent-platform/src/privsep/exec_deny.rs\<close>, the monitor's rule that a candidate file adds no
  directive that makes a daemon run or load code, and \<^verbatim>\<open>crates/detent-core/src/fstab.rs\<close>, the
  decoding of fstab fields it shares with the mounts module. Both files are modelled whole.
  The properties: the loop over the found directives is multiset inclusion; a new interfaces line that
  ifupdown puts into a shell command holds no character the shell acts on; a new fstab line mounts
  nothing in or over a protected tree.
\<close>

section \<open>The code\<close>

subsection \<open>\<^verbatim>\<open>fstab.rs\<close>\<close>

definition octal_byte :: "bytes \<Rightarrow> nat option" where
  "octal_byte digits =
     (if \<not> list_all (\<lambda>d. 48 \<le> d \<and> d \<le> 55) digits then None
      else case from_utf8 digits of Inl _ \<Rightarrow> None | Inr text \<Rightarrow> from_str_radix 8 u8_max text)"

function unmangle :: "bytes \<Rightarrow> bytes" where
  "unmangle [] = []"
| "unmangle (byte # tail) =
     (case (if byte = 92 \<and> 3 \<le> length tail then octal_byte (take 3 tail) else None) of
        Some decoded \<Rightarrow> decoded # unmangle (drop 3 tail)
      | None \<Rightarrow> byte # unmangle tail)"
  by pat_completeness auto
termination
  by (relation "measure length") auto

subsection \<open>Shared helpers\<close>

definition squash :: "rstr \<Rightarrow> rstr" where
  "squash text = join_with [SP] (split_whitespace text)"

definition join_continuations :: "rstr \<Rightarrow> rstr" where
  "join_continuations text = replace_str [92, LF] [SP] (replace_str [92, CR, LF] [SP] text)"

definition join_where :: "(rstr \<Rightarrow> bool) \<Rightarrow> rstr \<Rightarrow> rstr" where
  "join_where joins text =
     concat (map (\<lambda>line.
       (case strip_suffix_char LF line of
          None \<Rightarrow> line
        | Some body \<Rightarrow>
            (case rsplit_once 92 body of
               None \<Rightarrow> line
             | Some (head, tail) \<Rightarrow> if joins tail then head @ [SP] else line)))
       (split_inclusive LF text))"

definition key_value :: "rchar \<Rightarrow> rstr \<Rightarrow> rstr \<times> rstr" where
  "key_value sep line = (case split_once sep line of Some kv \<Rightarrow> kv | None \<Rightarrow> (line, []))"

definition starts_with_any :: "rchar list \<Rightarrow> rstr \<Rightarrow> bool" where
  "starts_with_any cs s \<longleftrightarrow> s \<noteq> [] \<and> hd s \<in> set cs"

definition one_of :: "string list \<Rightarrow> rstr \<Rightarrow> bool" where
  "one_of names w \<longleftrightarrow> list_ex (\<lambda>n. lit n = w) names"

subsection \<open>smb.conf\<close>

definition samba_exec_key :: "rstr \<Rightarrow> bool" where
  "samba_exec_key key \<longleftrightarrow>
     contains_str (lit ''exec'') key \<or> ends_with (lit ''script'') key \<or> ends_with (lit ''command'') key
     \<or> ends_with (lit ''backend'') key
     \<or> one_of [''include'', ''configfile'', ''panicaction'', ''vfsobjects'', ''preloadmodules''] key"

definition samba_directives :: "rstr \<Rightarrow> rstr list" where
  "samba_directives text =
     filter_map (\<lambda>l.
       let line = trim l
       in if line = [] \<or> starts_with_any [35, 59, 91] line then None
          else let (k, value) = key_value 61 line;
                   key = to_ascii_lowercase (filter (\<lambda>c. \<not> is_whitespace c \<and> c \<noteq> 95) k)
               in if samba_exec_key key then Some (key @ [61] @ squash value) else None)
       (str_lines text)"

definition samba :: "rstr \<Rightarrow> rstr list" where
  "samba text =
     (let readings = [text, join_where (\<lambda>t. t = []) text, join_continuations text,
                      join_where (list_all (\<lambda>c. c = SP \<or> c = TAB \<or> c = CR)) text];
          found = map (\<lambda>line. lit ''continued '' @ squash line)
                    (filter (\<lambda>line. starts_with_any [35, 59, 91] line \<and> line \<noteq> [] \<and> last line = 92)
                      (map trim (str_lines text)))
      in found @ concat (map (\<lambda>(view, reading).
           map (\<lambda>directive. show_nat view @ [58] @ directive) (samba_directives reading))
           (enumerate 0 readings)))"

subsection \<open>dnsmasq and Kea\<close>

definition dnsmasq :: "rstr \<Rightarrow> rstr list" where
  "dnsmasq text =
     filter_map (\<lambda>l.
       let line = trim l
       in if starts_with_any [35] line then None
          else let (k, value) = key_value 61 line;
                   key = to_ascii_lowercase (dropWhile (\<lambda>c. c = 45) (trim k))
               in if one_of [''dhcp-script'', ''dhcp-luascript'', ''dhcp-scriptuser'', ''conf-file'',
                     ''conf-dir'', ''conf-script''] key
                  then Some (key @ [61] @ squash value) else None)
       (str_lines text)"

text \<open>\<^verbatim>\<open>str::get(..n)\<close> with the rest: \<open>n\<close> counts bytes and must fall on a character boundary.\<close>

fun split_bytes :: "nat \<Rightarrow> rstr \<Rightarrow> (rstr \<times> rstr) option" where
  "split_bytes n [] = (if n = 0 then Some ([], []) else None)"
| "split_bytes n (c # s) =
     (if n = 0 then Some ([], c # s)
      else if len_utf8 c \<le> n then map_option (\<lambda>(a, b). (c # a, b)) (split_bytes (n - len_utf8 c) s) else None)"

lemma split_bytes_shorter: "split_bytes n s = Some (a, b) \<Longrightarrow> length b \<le> length s"
  by (induction n s arbitrary: a b rule: split_bytes.induct) (auto split: if_splits)

definition json_escape :: "rstr \<Rightarrow> (rchar \<times> rstr) option" where
  "json_escape after =
     (case split_bytes 4 after of
        None \<Rightarrow> None
      | Some (hex, r) \<Rightarrow>
          (case from_str_radix 16 u32_max hex of
             None \<Rightarrow> None
           | Some n \<Rightarrow> map_option (\<lambda>c. (c, r)) (char_from_u32 n)))"

lemma json_escape_shorter: "json_escape s = Some (c, r) \<Longrightarrow> length r \<le> length s"
  by (auto simp: json_escape_def dest: split_bytes_shorter split: option.splits)

function decode_json_escapes :: "rstr \<Rightarrow> rstr" where
  "decode_json_escapes rest =
     (case split_str [92, 117] rest of
        None \<Rightarrow> rest
      | Some (before, after) \<Rightarrow>
          before @ (case json_escape after of
              Some (c, r) \<Rightarrow> c # decode_json_escapes r
            | None \<Rightarrow> [92, 117] @ decode_json_escapes after))"
  by pat_completeness auto
termination
  by (relation "measure length") (auto dest!: split_str_shorter json_escape_shorter)

declare decode_json_escapes.simps [simp del]

fun bracket_scan :: "nat \<Rightarrow> bool \<Rightarrow> bool \<Rightarrow> rstr \<Rightarrow> rstr option" where
  "bracket_scan depth in_string escaped [] = None"
| "bracket_scan depth in_string escaped (c # s) =
     map_option (\<lambda>r. c # r)
       (if in_string then
          (if escaped then bracket_scan depth True False s
           else if c = 92 then bracket_scan depth True True s
           else if c = 34 then bracket_scan depth False False s
           else bracket_scan depth True False s)
        else if c = 34 then bracket_scan depth True escaped s
        else if c = 91 \<or> c = 123 then bracket_scan (depth + 1) False escaped s
        else if c = 93 \<or> c = 125 then
          (if depth - 1 = 0 then Some [] else bracket_scan (depth - 1) False escaped s)
        else bracket_scan depth False escaped s)"

definition bracketed :: "rstr \<Rightarrow> rstr" where
  "bracketed text = (case bracket_scan 0 False False text of Some p \<Rightarrow> p | None \<Rightarrow> text)"

definition kea :: "rstr \<Rightarrow> rstr list" where
  "kea text =
     (let doc = to_ascii_lowercase (squash (decode_json_escapes text));
          include = lit ''<?include'';
          libraries = [34] @ lit ''hooks-libraries'' @ [34]
      in map bracketed (tails_at libraries doc)
         @ map (\<lambda>rest. case split_str (lit ''?>'') rest of
              Some (a, _) \<Rightarrow> a @ lit ''?>''
            | None \<Rightarrow> rest) (tails_at include doc))"

subsection \<open>chrony\<close>

definition chrony :: "rstr \<Rightarrow> rstr list" where
  "chrony text =
     filter_map (\<lambda>l.
       let line = trim l
       in if starts_with_any [35, 33, 59, 37] line then None
          else let (k, value) = (case split_once_by is_whitespace line of Some kv \<Rightarrow> kv | None \<Rightarrow> (line, []));
                   key = to_ascii_lowercase k
               in if one_of [''include'', ''confdir'', ''sourcedir'', ''pidfile'', ''user''] key
                  then Some (key @ [SP] @ squash value) else None)
       (str_lines text)"

subsection \<open>unbound\<close>

text \<open>The loop over the tokens of one line; a directive with nothing after the colon takes the next
  token as its value.\<close>

function unbound_tokens :: "rstr \<Rightarrow> rstr list \<Rightarrow> rstr list" where
  "unbound_tokens line [] = []"
| "unbound_tokens line (token # tokens) =
     (case split_once 58 token of
        None \<Rightarrow> unbound_tokens line tokens
      | Some (k, v) \<Rightarrow>
          (let key = to_ascii_lowercase k;
               exec = one_of [''include'', ''include-toplevel'', ''python-script'', ''dynlib-file''] key;
               module_config = (key = lit ''module-config'')
           in if \<not> exec \<and> \<not> module_config then unbound_tokens line tokens
              else (let value = (if v = [] then (case tokens of t # _ \<Rightarrow> t | [] \<Rightarrow> []) else v);
                        more = unbound_tokens line (if v = [] then drop 1 tokens else tokens)
                    in if module_config then
                         (let rest = to_ascii_lowercase line
                          in if contains_str (lit ''python'') rest \<or> contains_str (lit ''dynlib'') rest
                             then (key @ lit '': '' @ squash rest) # more else more)
                       else (key @ lit '': '' @ value) # more)))"
  by pat_completeness auto
termination
  by (relation "measure (length \<circ> snd)") auto

definition unbound :: "rstr \<Rightarrow> rstr list" where
  "unbound text =
     concat (map (\<lambda>l. let line = hd (split_by (\<lambda>c. c = HASH) l) in unbound_tokens line (split_whitespace line))
       (str_lines text))"

subsection \<open>ifupdown\<close>

definition is_shell_inert :: "rchar \<Rightarrow> bool" where
  "is_shell_inert c \<longleftrightarrow>
     is_ascii_alphanumeric c \<or> c \<in> {46, 58, 47, 45, 95, 43, 44, 61, SP, TAB}"

definition plain_word :: "rstr \<Rightarrow> bool" where
  "plain_word w \<longleftrightarrow> w \<noteq> [] \<and> list_all (\<lambda>c. is_ascii_alphanumeric c \<or> c \<in> {46, 58, 47}) w"

definition is_route_form :: "rstr \<Rightarrow> bool" where
  "is_route_form line =
     (case split_whitespace line of
        [a, b, c, d, dest, e, gate] \<Rightarrow>
          a = lit ''up'' \<and> b = lit ''ip'' \<and> c = lit ''route'' \<and> d = lit ''add'' \<and> e = lit ''via''
          \<and> plain_word dest \<and> plain_word gate
      | _ \<Rightarrow> False)"

definition option_name :: "rstr \<Rightarrow> bool" where
  "option_name w \<longleftrightarrow> w \<noteq> [] \<and> is_ascii_alphanumeric (hd w)
     \<and> list_all (\<lambda>c. is_ascii_alphanumeric c \<or> c = 45 \<or> c = 95) w"

definition ifupdown_line :: "rstr \<Rightarrow> rstr option" where
  "ifupdown_line l =
     (let line = trim l
      in if starts_with_any [35] line then None
         else case split_whitespace line of
           [] \<Rightarrow> None
         | first # _ \<Rightarrow>
             (let key = to_ascii_lowercase (fst (key_value 61 first));
                  hook = one_of [''up'', ''down'', ''pre-up'', ''post-up'', ''pre-down'', ''post-down'',
                    ''source'', ''source-directory'', ''mapping'', ''script'', ''map''] key;
                  shell = (option_name first \<and> \<not> list_all is_shell_inert line)
              in if (hook \<and> \<not> (key = lit ''up'' \<and> is_route_form line)) \<or> shell then Some (squash line) else None))"

definition ifupdown :: "rstr \<Rightarrow> rstr list" where
  "ifupdown text = filter_map ifupdown_line (str_lines text)"

subsection \<open>fstab\<close>

definition SAFE_SYSTEMD_OPTIONS :: "rstr list" where
  "SAFE_SYSTEMD_OPTIONS =
     map lit [''automount'', ''idle-timeout'', ''mount-timeout'', ''device-timeout'', ''rw-only'']"

definition PROTECTED_TREES :: "rstr list" where
  "PROTECTED_TREES =
     map lit [''/bin'', ''/boot'', ''/etc'', ''/lib'', ''/lib32'', ''/lib64'', ''/libx32'', ''/root'', ''/run'',
       ''/sbin'', ''/usr'', ''/var/lib/detent'', ''/var/lock'', ''/var/run'']"

definition WRITABLE_DIRS :: "rstr list" where
  "WRITABLE_DIRS = map lit [''/tmp'', ''/var/tmp'', ''/dev/shm'']"

definition protected_mountpoint :: "rstr \<Rightarrow> bool" where
  "protected_mountpoint raw =
     (if one_of [''none'', ''swap''] raw then False
      else case from_utf8 (unmangle (as_bytes raw)) of
        Inl _ \<Rightarrow> True
      | Inr path \<Rightarrow>
          if \<not> is_absolute path \<or> ParentDir \<in> set (components path) then True
          else list_ex (\<lambda>tree. path_starts_with path tree \<or> path_starts_with tree path) PROTECTED_TREES
               \<or> list_ex (\<lambda>dir. path_starts_with path dir \<and> \<not> path_eq path dir) WRITABLE_DIRS)"

definition replaces_system_files :: "rstr list \<Rightarrow> bool" where
  "replaces_system_files fields =
     (case get fields 1 of
        None \<Rightarrow> False
      | Some mountpoint \<Rightarrow>
          if starts_with_any [35] (hd fields) then False
          else let overlay = (case get fields 2 of
                       Some t \<Rightarrow> contains_str (lit ''overlay'') (to_ascii_lowercase t) | None \<Rightarrow> False);
                   binds = (case get fields 3 of
                       Some options \<Rightarrow> list_ex (\<lambda>opt. one_of [''bind'', ''rbind''] opt
                           \<or> list_ex (\<lambda>k. starts_with (lit k) opt) [''lowerdir='', ''upperdir='', ''workdir=''])
                         (split_by (\<lambda>c. c = 44) (to_ascii_lowercase options))
                     | None \<Rightarrow> False)
               in overlay \<or> binds \<or> protected_mountpoint mountpoint)"

definition fstab_word :: "rstr \<Rightarrow> bool" where
  "fstab_word word \<longleftrightarrow>
     (case strip_prefix (lit ''x-systemd.'') word of
        Some opt \<Rightarrow> fst (key_value 61 opt) \<notin> set SAFE_SYSTEMD_OPTIONS
      | None \<Rightarrow> False)
     \<or> starts_with (lit ''helper='') word \<or> starts_with (lit ''uhelper='') word"

definition fstab_line :: "rstr \<Rightarrow> bool" where
  "fstab_line line \<longleftrightarrow>
     (let fields = split_whitespace line;
          fuse = (case get fields 2 of Some t \<Rightarrow> contains_str (lit ''fuse'') (to_ascii_lowercase t) | None \<Rightarrow> False)
      in fuse \<or> replaces_system_files fields
         \<or> list_ex (\<lambda>w. fstab_word (to_ascii_lowercase w)) (split_by (\<lambda>c. c = 44 \<or> is_whitespace c) line))"

definition fstab :: "rstr \<Rightarrow> rstr list" where
  "fstab text = map squash (filter fstab_line (str_lines text))"

subsection \<open>exports\<close>

definition is_plain_nonzero_id :: "rstr \<Rightarrow> bool" where
  "is_plain_nonzero_id i \<longleftrightarrow>
     i \<noteq> [] \<and> 49 \<le> hd i \<and> hd i \<le> 57 \<and> list_all is_ascii_digit i \<and> parse_uint u32_max i \<noteq> None"

definition exports_word :: "rstr \<Rightarrow> bool" where
  "exports_word word \<longleftrightarrow>
     word = lit ''no_root_squash''
     \<or> (case (case strip_prefix (lit ''anonuid='') word of Some i \<Rightarrow> Some i
              | None \<Rightarrow> strip_prefix (lit ''anongid='') word) of
          Some i \<Rightarrow> \<not> is_plain_nonzero_id i
        | None \<Rightarrow> False)"

definition exports :: "rstr \<Rightarrow> rstr list" where
  "exports text =
     map squash (filter (\<lambda>line. list_ex exports_word
         (split_by (\<lambda>c. c = 44 \<or> c = 40 \<or> c = 41 \<or> is_whitespace c) line))
       (str_lines (join_continuations text)))"

subsection \<open>The rule\<close>

definition exec_directives :: "rstr \<Rightarrow> rstr \<Rightarrow> rstr list" where
  "exec_directives m text =
     (if m = lit ''samba'' then samba text
      else if m = lit ''dhcp'' then dnsmasq text @ kea text
      else if m = lit ''chrony'' then chrony text
      else if m = lit ''resolver'' then unbound text
      else if m = lit ''network'' then ifupdown text
      else if m = lit ''mounts'' then fstab text
      else if m = lit ''nfs'' then exports text
      else [])"

fun position :: "'a \<Rightarrow> 'a list \<Rightarrow> nat option" where
  "position x [] = None"
| "position x (y # ys) = (if y = x then Some 0 else map_option Suc (position x ys))"

definition swap_remove :: "nat \<Rightarrow> 'a list \<Rightarrow> 'a list" where
  "swap_remove i xs = butlast (xs[i := last xs])"

fun any_unmatched :: "rstr list \<Rightarrow> rstr list \<Rightarrow> bool" where
  "any_unmatched before [] = False"
| "any_unmatched before (found # rest) =
     (case position found before of
        None \<Rightarrow> True
      | Some i \<Rightarrow> any_unmatched (swap_remove i before) rest)"

definition adds_exec_directive :: "rstr \<Rightarrow> bytes \<Rightarrow> bytes \<Rightarrow> bool" where
  "adds_exec_directive m previous candidate =
     any_unmatched (exec_directives m (from_utf8_lossy previous)) (exec_directives m (from_utf8_lossy candidate))"

section \<open>Matching directives\<close>

lemma position_Some: "position x xs = Some i \<Longrightarrow> i < length xs \<and> xs ! i = x"
  by (induction x xs arbitrary: i rule: position.induct) (auto split: if_splits)

lemma position_None: "position x xs = None \<longleftrightarrow> x \<notin> set xs"
  by (induction x xs rule: position.induct) auto

lemma mset_swap_remove: "i < length xs \<Longrightarrow> mset (swap_remove i xs) = mset xs - {#xs ! i#}"
  by (cases xs rule: rev_cases) (auto simp: swap_remove_def nth_append list_update_append mset_update)

lemma any_unmatched_mset: "any_unmatched before found \<longleftrightarrow> \<not> mset found \<subseteq># mset before"
proof (induction before found rule: any_unmatched.induct)
  case (2 before found rest)
  show ?case
  proof (cases "position found before")
    case None
    then have "found \<notin># mset before" by (simp add: position_None)
    then have "\<not> mset (found # rest) \<subseteq># mset before" by (metis insert_subset_eq_iff mset.simps(2))
    with None show ?thesis by simp
  next
    case (Some i)
    then have i: "i < length before" "before ! i = found" by (auto dest: position_Some)
    then have "found \<in># mset before" by (metis nth_mem set_mset_mset)
    with i Some 2 show ?thesis by (simp add: mset_swap_remove insert_subset_eq_iff)
  qed
qed simp

lemma accepted_directive_seen:
  assumes "\<not> adds_exec_directive m previous candidate"
    and "d \<in> set (exec_directives m (from_utf8_lossy candidate))"
  shows "d \<in> set (exec_directives m (from_utf8_lossy previous))"
  using assms by (simp add: adds_exec_directive_def any_unmatched_mset) (metis mset_subset_eqD set_mset_mset)

lemma split_whitespace_hd:
  assumes "split_whitespace (trim l) = first # ws"
  shows "hd (trim l) = hd first \<and> trim l \<noteq> []"
proof (cases "trim l")
  case Nil
  with assms show ?thesis by (simp add: split_whitespace_def)
next
  case (Cons c s)
  have "\<not> is_whitespace c"
  proof
    assume "is_whitespace c"
    have "trim_start l \<noteq> []" using Cons by (metis list.distinct(1) trim_def rev.simps(1) dropWhile.simps(1) trim_end_by_def)
    moreover obtain t where "trim_start l = trim l @ t"
      by (metis append_eq_append_conv2 rev_append rev_rev_ident takeWhile_dropWhile_id trim_def trim_end_by_def)
    ultimately have "hd (trim_start l) = c" using Cons by simp
    with \<open>trim_start l \<noteq> []\<close> \<open>is_whitespace c\<close> show False
      by (metis hd_dropWhile trim_start_def dropWhile_eq_Nil_conv)
  qed
  with Cons assms show ?thesis
    by (auto simp: split_whitespace_def split: list.splits)
qed

lemma new_ifupdown_line:
  assumes "ifupdown_line l = None" and "split_whitespace (trim l) = first # ws" and "option_name first"
  shows "list_all is_shell_inert (trim l)"
proof -
  have "\<not> starts_with_any [35] (trim l)" using split_whitespace_hd [OF assms(2)] assms(3)
    by (auto simp: starts_with_any_def option_name_def is_ascii_alphanumeric_def is_ascii_digit_def
        is_ascii_lower_def is_ascii_upper_def)
  with assms show ?thesis by (auto simp: ifupdown_line_def Let_def split: if_splits)
qed

section \<open>Properties\<close>

text \<open>C33. The monitor's rule is multiset inclusion: a candidate is refused exactly when some execution
  directive, name and value, stands in it more often than in the current file.\<close>

theorem exec_rule_exact:
  "adds_exec_directive m previous candidate \<longleftrightarrow>
     \<not> mset (exec_directives m (from_utf8_lossy candidate)) \<subseteq># mset (exec_directives m (from_utf8_lossy previous))"
  by (simp add: adds_exec_directive_def any_unmatched_mset)

text \<open>When the network module's candidate is accepted, every line of it that ifupdown reads as a
  stanza or an option, so that its value reaches a shell template, either holds only characters the shell
  takes as plain text, or stands in the current file already (up to runs of whitespace).\<close>

theorem new_interfaces_line_inert:
  assumes "\<not> adds_exec_directive (lit ''network'') previous candidate"
    and "l \<in> set (str_lines (from_utf8_lossy candidate))"
    and "split_whitespace (trim l) = first # ws" and "option_name first"
  shows "list_all is_shell_inert (trim l)
    \<or> (\<exists>l' \<in> set (str_lines (from_utf8_lossy previous)). squash (trim l') = squash (trim l))"
proof (cases "ifupdown_line l")
  case None
  then show ?thesis using new_ifupdown_line [OF _ assms(3,4)] by simp
next
  case (Some d)
  then have d: "d = squash (trim l)" by (auto simp: ifupdown_line_def Let_def split: if_splits list.splits)
  have ex: "exec_directives (lit ''network'') t = filter_map ifupdown_line (str_lines t)" for t
    by (simp add: exec_directives_def ifupdown_def lit_def)
  from Some assms(2) have "d \<in> set (exec_directives (lit ''network'') (from_utf8_lossy candidate))"
    by (auto simp: ex set_filter_map)
  from accepted_directive_seen [OF assms(1) this] obtain l' where
    "l' \<in> set (str_lines (from_utf8_lossy previous))" "ifupdown_line l' = Some d"
    by (auto simp: ex set_filter_map)
  then show ?thesis using d by (auto simp: ifupdown_line_def Let_def split: if_splits list.splits)
qed

text \<open>When the mounts module's candidate is accepted, an fstab entry that is not in the current file
  names an absolute mount point without a parent component that is neither in nor over a protected tree,
  nor below a world-writable directory.\<close>

theorem new_mount_spares_system:
  assumes "\<not> adds_exec_directive (lit ''mounts'') previous candidate"
    and "l \<in> set (str_lines (from_utf8_lossy candidate))"
    and "\<forall>l' \<in> set (str_lines (from_utf8_lossy previous)). squash l' \<noteq> squash l"
    and "split_whitespace l = spec # raw # rest" and "hd spec \<noteq> HASH" and "raw \<noteq> lit ''none''" and "raw \<noteq> lit ''swap''"
  shows "\<exists>path. from_utf8 (unmangle (as_bytes raw)) = Inr path \<and> is_absolute path \<and> ParentDir \<notin> set (components path)
    \<and> (\<forall>tree \<in> set PROTECTED_TREES. \<not> path_starts_with path tree \<and> \<not> path_starts_with tree path)
    \<and> (\<forall>dir \<in> set WRITABLE_DIRS. path_starts_with path dir \<longrightarrow> path_eq path dir)"
proof -
  have ex: "exec_directives (lit ''mounts'') t = map squash (filter fstab_line (str_lines t))" for t
    by (simp add: exec_directives_def fstab_def lit_def)
  have "\<not> fstab_line l"
  proof
    assume "fstab_line l"
    then have "squash l \<in> set (exec_directives (lit ''mounts'') (from_utf8_lossy candidate))"
      using assms(2) by (auto simp: ex)
    from accepted_directive_seen [OF assms(1) this] assms(3) show False by (auto simp: ex)
  qed
  then have "\<not> protected_mountpoint raw" using assms(4,5)
    by (auto simp: fstab_line_def replaces_system_files_def starts_with_any_def get_def Let_def)
  then show ?thesis using assms(6,7)
    by (auto simp: protected_mountpoint_def one_of_def list_ex_iff split: sum.splits if_splits)
qed

text \<open>The rule splits fields at every Unicode space, fstab(5) only at blanks and tabs. With a no-break
  space in its first field a line mounts over \<^verbatim>\<open>/etc\<close>, and the rule takes the second half of that field
  for the mount point.\<close>

definition spaced_mount_line :: rstr where
  "spaced_mount_line = lit ''tmpfs'' @ [0xA0] @ lit ''/srv /etc tmpfs defaults 0 0''"

lemma spaced_mount_accepted:
  "\<not> adds_exec_directive (lit ''mounts'') [] (as_bytes spaced_mount_line)
   \<and> get (filter (\<lambda>w. w \<noteq> []) (split_by (\<lambda>c. c = SP \<or> c = TAB) spaced_mount_line)) 1 = Some (lit ''/etc'')
   \<and> protected_mountpoint (lit ''/etc'')"
proof (intro conjI)
  show "\<not> adds_exec_directive (lit ''mounts'') [] (as_bytes spaced_mount_line)" by code_simp
  show "get (filter (\<lambda>w. w \<noteq> []) (split_by (\<lambda>c. c = SP \<or> c = TAB) spaced_mount_line)) 1 = Some (lit ''/etc'')"
    by code_simp
  show "protected_mountpoint (lit ''/etc'')" by code_simp
qed

section \<open>Witnesses\<close>

theorem new_interfaces_line_inert_witness: "list_all is_shell_inert (lit ''address 10.0.0.1'')"
proof -
  let ?l = "lit ''address 10.0.0.1''"
  have a: "\<not> adds_exec_directive (lit ''network'') [] ?l" by code_simp
  have b: "?l \<in> set (str_lines (from_utf8_lossy ?l))" by code_simp
  have c: "split_whitespace (trim ?l) = lit ''address'' # [lit ''10.0.0.1'']" by code_simp
  have d: "option_name (lit ''address'')" by code_simp
  have e: "str_lines (from_utf8_lossy []) = []" "trim ?l = ?l" by code_simp+
  from new_interfaces_line_inert [OF a b c d] show ?thesis unfolding e by simp
qed

theorem new_mount_spares_system_witness:
  "\<exists>path. from_utf8 (unmangle (as_bytes (lit ''/srv/my'' @ [92] @ lit ''040disk''))) = Inr path \<and> is_absolute path"
proof -
  let ?raw = "lit ''/srv/my'' @ [92] @ lit ''040disk''"
  let ?l = "lit ''/dev/sdb1 '' @ ?raw @ lit '' ext4 defaults 0 0''"
  have a: "\<not> adds_exec_directive (lit ''mounts'') [] ?l" by code_simp
  have b: "?l \<in> set (str_lines (from_utf8_lossy ?l))" by code_simp
  have c: "\<forall>l' \<in> set (str_lines (from_utf8_lossy [])). squash l' \<noteq> squash ?l" by code_simp
  have d: "split_whitespace ?l = lit ''/dev/sdb1'' # ?raw # map lit [''ext4'', ''defaults'', ''0'', ''0'']" by code_simp
  have e: "hd (lit ''/dev/sdb1'') \<noteq> HASH" "?raw \<noteq> lit ''none''" "?raw \<noteq> lit ''swap''" by code_simp+
  from new_mount_spares_system [OF a b c d e] show ?thesis by blast
qed

end
