(* ===== verification/Dyn_Module.thy ===== *)
theory Dyn_Module
  imports Module_Sdk Diag Descriptor
begin

text \<open>
  The object-safe view of a module (\<^verbatim>\<open>DynModule\<close> of \<^verbatim>\<open>crates/detent-core/src/module.rs\<close>) that the operations
  engine and the monitor hold: a record of its functions over JSON values, with the message ids of its
  errors. \<open>'j\<close> is the type of JSON values.
\<close>

record 'j dyn_module =
  dm_id :: rstr
  dm_descriptor :: module_descriptor
  dm_secret_pointers :: "rstr list"
  dm_schema_json :: 'j
  dm_model_target_json :: "'j \<Rightarrow> (dyn_error, rstr option) result"
  dm_parse_to_model_json :: "rstr \<Rightarrow> (dyn_error, 'j) result"
  dm_apply_json :: "rstr \<Rightarrow> 'j \<Rightarrow> (dyn_error, rstr) result"
  dm_validate_json :: "'j \<Rightarrow> host_profile \<Rightarrow> (dyn_error, diagnostics) result"
  dm_defaults_json :: "host_profile \<Rightarrow> (dyn_error, 'j) result"

fun parse_message_id :: "parse_error \<Rightarrow> rstr" where
  "parse_message_id (Malformed _ _) = lit ''core-parse-malformed''"

fun model_message_id :: "model_error \<Rightarrow> rstr" where
  "model_message_id (Shape _) = lit ''core-model-shape''"
| "model_message_id (Unrepresentable _ _) = lit ''core-model-unrepresentable''"

fun edit_message_id :: "edit_error \<Rightarrow> rstr" where
  "edit_message_id (LineBreakInValue _) = lit ''core-edit-line-break''"
| "edit_message_id (IndexOutOfRange _ _) = lit ''core-edit-index-out-of-range''"
| "edit_message_id (Unsupported _) = lit ''core-edit-unsupported''"

fun dyn_message_id :: "dyn_error \<Rightarrow> rstr" where
  "dyn_message_id (ParseErr e) = parse_message_id e"
| "dyn_message_id (ModelErr e) = model_message_id e"
| "dyn_message_id (EditErr e) = edit_message_id e"

end
