(* ===== verification/Monitor.thy ===== *)
theory Monitor
  imports Allowlist Transport Atomic_File Exec_Deny Dyn_Module "HOL-Library.Product_Lexorder"
begin

text \<open>
  \<^verbatim>\<open>crates/detent-platform/src/privsep/monitor.rs\<close>: the privileged server. It holds the allow-list, the journal
  of writes and the pending commit; the world is the operating system, the state of the collaborators
  (service manager, validators), the monotonic clock in milliseconds and
  the responses sent so far.

  A handler is a function of the world that answers \<open>None\<close> when the process dies in it. Collaborators are
  parameters, functions over their own state; they do not change the files. Parameters are also the module
  registry, \<^verbatim>\<open>semver\<close>, the JSON of the pending-commit marker, \<^verbatim>\<open>tempfile\<close>, and what \<^verbatim>\<open>open\<close> and \<^verbatim>\<open>fstat\<close> say about a
  directory. The clock stands still within one request. Log lines and the summary of a request are left out,
  and the text of an I/O error names the failed call and the kinds the code tells apart.
\<close>

section \<open>Types\<close>

definition PENDING_COMMIT_MARKER :: rstr where "PENDING_COMMIT_MARKER = lit ''pending-commit.json''"
definition IN_PLACE_MARKER :: rstr where "IN_PLACE_MARKER = lit ''write-in-progress.json''"
definition MAX_CONFIRM_TIMEOUT_S :: nat where "MAX_CONFIRM_TIMEOUT_S = 3600"
definition DETAIL_LIMIT :: nat where "DETAIL_LIMIT = 512"

datatype hook_error = HookUnavailable rstr | HookFailed rstr

fun hook_to_proto :: "hook_error \<Rightarrow> proto_error" where
  "hook_to_proto (HookUnavailable message) = PeUnavailable message"
| "hook_to_proto (HookFailed message) = PeIo message"

datatype update_start = UpStarted rstr | UpAlreadyRunning

record 'h hooks =
  hk_checks_configured :: bool
  hk_run_check :: "external_check \<Rightarrow> key \<Rightarrow> osys \<Rightarrow> 'h \<Rightarrow> (hook_error, check_outcome) result \<times> 'h"
  hk_service :: "service_binding \<Rightarrow> core_action \<Rightarrow> 'h \<Rightarrow> (hook_error, service_outcome) result \<times> 'h"
  hk_service_status :: "service_binding \<Rightarrow> 'h \<Rightarrow> (hook_error, unit_status) result \<times> 'h"
  hk_reload_unit_files :: "'h \<Rightarrow> (hook_error, rstr) result \<times> 'h"
  hk_start_added_mounts :: "nat \<Rightarrow> 'h \<Rightarrow> (hook_error, mount_outcome list) result \<times> 'h"
  hk_stop_started_mounts :: "'h \<Rightarrow> (hook_error, mount_outcome list) result \<times> 'h"
  hk_forget_started_mounts :: "'h \<Rightarrow> (hook_error, unit) result \<times> 'h"
  hk_start_update :: "rstr \<Rightarrow> 'h \<Rightarrow> (hook_error, update_start) result \<times> 'h"

datatype exit_reason = ExitShutdown | ExitPeerClosed | ExitProtocolMismatch | ExitProtocolViolation

datatype monitor_error = MeChannel channel_error | MeBusy | MeState rstr | MeCorruptMarker | MeLockUnavailable

record rollback_entry =
  re_target :: nat
  re_path :: path
  re_backup :: key
  re_new_digest :: "digest option"

record pending_commit_marker =
  pm_commit :: nat
  pm_deadline_unix_ms :: nat
  pm_entries :: "rollback_entry list"
  pm_service :: "pending_service option"

record pending_commit =
  pc_commit :: nat
  pc_deadline :: nat
  pc_entries :: "rollback_entry list"
  pc_service :: "pending_service option"

record recovered =
  rv_commit :: nat
  rv_restored :: nat
  rv_failures :: nat

datatype in_place_outcome = IpoWhole | IpoRestored | IpoFailed | IpoRefused

datatype dir_probe = ProbeFailed rstr | ProbeNotDir | ProbeDir nat nat

record ('h, 'j, 'v) menv =
  me_fs :: fsenv
  me_hooks :: "'h hooks"
  me_modules :: "'j dyn_module list"
  me_semver :: "'v semver"
  me_update_feature :: bool
  me_marker_json :: "pending_commit_marker \<Rightarrow> bytes"
  me_marker_parse :: "bytes \<Rightarrow> pending_commit_marker option"
  me_probe :: "osys \<Rightarrow> key \<Rightarrow> dir_probe"
  me_staging_dir :: key
  me_tempfile :: "rstr \<Rightarrow> key \<Rightarrow> key sys"
  me_dyn_text :: "dyn_error \<Rightarrow> rstr"
  me_euid :: nat

record monitor =
  mo_allow :: allowlist
  mo_greeted :: bool
  mo_journal :: "rollback_entry list"
  mo_pending :: "pending_commit option"
  mo_host_profile :: host_profile

record 'h world =
  w_os :: osys
  w_hooks :: 'h
  w_instant :: nat
  w_sent :: "response list"

section \<open>Computations that may die\<close>

type_synonym ('h, 'a) mon = "'h world \<Rightarrow> 'a option \<times> 'h world"

definition mret :: "'a \<Rightarrow> ('h, 'a) mon" where
  "mret x w = (Some x, w)"

definition mbind :: "('h, 'a) mon \<Rightarrow> ('a \<Rightarrow> ('h, 'b) mon) \<Rightarrow> ('h, 'b) mon" where
  "mbind m f w = (case m w of (None, w') \<Rightarrow> (None, w') | (Some x, w') \<Rightarrow> f x w')"

definition os_call :: "'a sys \<Rightarrow> ('h, (atomic_error, 'a) result) mon" where
  "os_call m w =
     (case m (w_os w) of
        (Inl Killed, s) \<Rightarrow> (None, w\<lparr>w_os := s\<rparr>)
      | (Inl (Failed e), s) \<Rightarrow> (Some (Inl e), w\<lparr>w_os := s\<rparr>)
      | (Inr x, s) \<Rightarrow> (Some (Inr x), w\<lparr>w_os := s\<rparr>))"

definition hook_call :: "('h \<Rightarrow> 'a \<times> 'h) \<Rightarrow> ('h, 'a) mon" where
  "hook_call f w = (case f (w_hooks w) of (x, h) \<Rightarrow> (Some x, w\<lparr>w_hooks := h\<rparr>))"

definition wreads :: "('h world \<Rightarrow> 'a) \<Rightarrow> ('h, 'a) mon" where
  "wreads f w = (Some (f w), w)"

section \<open>Helpers\<close>

fun kind_text :: "error_kind \<Rightarrow> rstr" where
  "kind_text KNotFound = lit ''entity not found''"
| "kind_text KAlreadyExists = lit ''entity already exists''"
| "kind_text KReadOnlyFilesystem = lit ''read-only filesystem or storage medium''"
| "kind_text KPermissionDenied = lit ''permission denied''"
| "kind_text KOther = lit ''other error''"

fun atomic_to_proto :: "atomic_error \<Rightarrow> proto_error" where
  "atomic_to_proto (AeConflict expected actual) = PeConflict expected actual"
| "atomic_to_proto (AeIo op _ source) = PeIo (op @ lit '': '' @ kind_text (kind_of_errno source))"
| "atomic_to_proto (AeRelativePath _) = PeIo (lit ''path is not absolute'')"
| "atomic_to_proto (AeSymlink _) = PeIo (lit ''target is a symlink'')"
| "atomic_to_proto (AeNotRegularFile _) = PeIo (lit ''target is not a regular file'')"
| "atomic_to_proto AeBadDigest = PeIo (lit ''invalid digest'')"
| "atomic_to_proto AeClock = PeIo (lit ''system clock out of range'')"

definition unknown :: "id_kind \<Rightarrow> nat \<Rightarrow> response" where
  "unknown k i = RsError (PeUnknownId k i)"

definition truncate :: "rstr \<Rightarrow> rstr" where
  "truncate detail = (if str_len detail \<le> DETAIL_LIMIT then detail else take_bytes DETAIL_LIMIT detail)"

definition is_not_found :: "atomic_error \<Rightarrow> bool" where
  "is_not_found e = (case e of AeIo _ _ source \<Rightarrow> kind_of_errno source = KNotFound | _ \<Rightarrow> False)"

definition refuse_update_tag :: "'v semver \<Rightarrow> rstr \<Rightarrow> tag_refusal \<Rightarrow> proto_error" where
  "refuse_update_tag S tag refusal =
     (case refusal of
        NotReleaseTag \<Rightarrow> PeIo (lit ''not a release tag'')
      | NotNewer \<Rightarrow> PeIo (lit ''refusing downgrade to '' @ tag @ lit '' from '' @ sv_pkg_version S))"

datatype dir_owner = OwnEuid | OwnEuidOrRoot | OwnAny

definition owner_accepts :: "dir_owner \<Rightarrow> nat \<Rightarrow> nat \<Rightarrow> bool" where
  "owner_accepts own uid euid =
     (case own of OwnEuid \<Rightarrow> uid = euid | OwnEuidOrRoot \<Rightarrow> uid = euid \<or> uid = 0 | OwnAny \<Rightarrow> True)"

definition of_candidate_dir :: "external_check \<Rightarrow> dir_owner" where
  "of_candidate_dir check = (if ec_run_as_dir_owner check then OwnAny else OwnEuidOrRoot)"

text \<open>A directory is trusted when it is a real directory with an accepted owner and neither group nor
  others may write: bits 4 and 1 of the mode.\<close>

definition require_trusted_dir :: "nat \<Rightarrow> dir_probe \<Rightarrow> rstr \<Rightarrow> dir_owner \<Rightarrow> (proto_error, unit) result" where
  "require_trusted_dir euid probe what own =
     (case probe of
        ProbeFailed text \<Rightarrow> Inl (PeIo text)
      | ProbeNotDir \<Rightarrow> Inl (PeIo (what @ lit '' is not trusted''))
      | ProbeDir uid mode \<Rightarrow>
          if \<not> owner_accepts own uid euid \<or> mode div 16 mod 2 = 1 \<or> mode div 2 mod 2 = 1
          then Inl (PeIo (what @ lit '' is not trusted'')) else Inr ())"

definition state_key :: "monitor \<Rightarrow> key" where
  "state_key M = components (al_state_root (mo_allow M))"

definition in_place_marker_key :: "monitor \<Rightarrow> key" where
  "in_place_marker_key M = at (state_key M) IN_PLACE_MARKER"

definition marker_key :: "monitor \<Rightarrow> key" where
  "marker_key M = at (state_key M) PENDING_COMMIT_MARKER"

definition entry_key :: "target_entry \<Rightarrow> key" where
  "entry_key e = components (te_path e)"

definition path_exists :: "osys \<Rightarrow> rstr \<Rightarrow> bool" where
  "path_exists s p \<longleftrightarrow> (case node_at s (components p) of
      Some Symlink \<Rightarrow> False | Some _ \<Rightarrow> True | None \<Rightarrow> components p \<in> set (os_dirs s))"

section \<open>Reading and validating\<close>

definition read_target :: "('h, 'j, 'v) menv \<Rightarrow> monitor \<Rightarrow> nat \<Rightarrow> ('h, response) mon" where
  "read_target E M i =
     (case al_target (mo_allow M) i of
        None \<Rightarrow> mret (unknown IdTarget i)
      | Some entry \<Rightarrow>
          mbind (os_call (read_with_digest (me_fs E) (entry_key entry))) (\<lambda>r.
            case r of
              Inr (b, d) \<Rightarrow> mret (RsTarget \<lparr>tc_target = i, tc_bytes = b, tc_digest = d\<rparr>)
            | Inl err \<Rightarrow> mret (RsError (if is_not_found err then PeNotFound else atomic_to_proto err))))"

definition validate_candidate :: "('h, 'j, 'v) menv \<Rightarrow> 'j dyn_module \<Rightarrow> bytes \<Rightarrow> host_profile \<Rightarrow> (response, unit) result" where
  "validate_candidate E m b profile =
     (case from_utf8 b of
        Inl _ \<Rightarrow> Inl (RsError (PeIo (lit ''module content is not valid UTF-8'')))
      | Inr source \<Rightarrow>
          (case dm_parse_to_model_json m source of
             Inl err \<Rightarrow> Inl (RsError (PeIo (lit ''module parser rejected candidate content: '' @ me_dyn_text E err)))
           | Inr model \<Rightarrow>
               (case dm_validate_json m model profile of
                  Inl err \<Rightarrow> Inl (RsError (PeIo (lit ''module validation rejected candidate content: '' @ me_dyn_text E err)))
                | Inr ds \<Rightarrow>
                    if has_errors ds then Inl (RsError (PeIo (lit ''module validation rejected candidate content'')))
                    else Inr ())))"

definition gate_content ::
  "('h, 'j, 'v) menv \<Rightarrow> monitor \<Rightarrow> nat \<Rightarrow> bytes list \<Rightarrow> bytes \<Rightarrow> (response, unit) result" where
  "gate_content E M m previous b =
     (case al_module (mo_allow M) m of
        None \<Rightarrow> Inl (unknown IdModule m)
      | Some d \<Rightarrow>
          if list_all (\<lambda>prev. adds_exec_directive (md_id d) prev b) previous
          then Inl (RsError (PeIo (lit ''module content adds a forbidden execution directive'')))
          else case find (\<lambda>x. dm_id x = md_id d) (me_modules E) of
                 None \<Rightarrow> Inl (RsError (PeIo (lit ''module parser is unavailable'')))
               | Some x \<Rightarrow> validate_candidate E x b (mo_host_profile M))"

definition create_candidate :: "('h, 'j, 'v) menv \<Rightarrow> key \<Rightarrow> key sys" where
  "create_candidate E dir = me_tempfile E CANDIDATE_PREFIX dir"

definition key_parent :: "key \<Rightarrow> key option" where
  "key_parent k = (if k = [] \<or> k = [RootDir] then None else Some (butlast k))"

definition sys_mkdir :: "key \<Rightarrow> unit sys" where
  "sys_mkdir d =
     andthen (syscall (lit ''mkdir'') d) (\<lambda>_ s.
       if d \<in> set (os_dirs s) \<or> node_at s d \<noteq> None then (Inl (Failed (AeIo (lit ''mkdir'') d EEXIST)), s)
       else (Inr (), s\<lparr>os_dirs := d # os_dirs s\<rparr>))"

definition error_kind_of :: "atomic_error \<Rightarrow> error_kind" where
  "error_kind_of e = (case e of AeIo _ _ source \<Rightarrow> kind_of_errno source | _ \<Rightarrow> KOther)"

definition staging_error :: "atomic_error \<Rightarrow> proto_error" where
  "staging_error e = PeIo (lit ''create monitor staging directory: '' @ kind_text (error_kind_of e))"

definition ensure_staging_dir :: "('h, 'j, 'v) menv \<Rightarrow> ('h, (proto_error, key) result) mon" where
  "ensure_staging_dir E =
     mbind (case key_parent (me_staging_dir E) of
              Some parent \<Rightarrow> if parent \<noteq> [] then os_call (create_dir_all (lit ''mkdir'') parent) else mret (Inr ())
            | None \<Rightarrow> mret (Inr ())) (\<lambda>made.
       case made of
         Inl err \<Rightarrow> mret (Inl (staging_error err))
       | Inr _ \<Rightarrow>
           mbind (os_call (sys_mkdir (me_staging_dir E))) (\<lambda>created.
             if (case created of Inl err \<Rightarrow> error_kind_of err \<noteq> KAlreadyExists | Inr _ \<Rightarrow> False)
             then mret (case created of Inl err \<Rightarrow> Inl (staging_error err) | Inr _ \<Rightarrow> Inr [])
             else
               mbind (wreads (\<lambda>w. me_probe E (w_os w) (me_staging_dir E))) (\<lambda>probe.
                 mret (bind_result (require_trusted_dir (me_euid E) probe (lit ''monitor staging directory'') OwnEuid)
                   (\<lambda>_. Inr (me_staging_dir E))))))"

definition cannot_create :: "atomic_error \<Rightarrow> proto_error" where
  "cannot_create e = PeIo (lit ''cannot create a candidate file: '' @ kind_text (error_kind_of e))"

definition stage_candidate :: "('h, 'j, 'v) menv \<Rightarrow> ('h, (proto_error, key) result) mon" where
  "stage_candidate E =
     mbind (ensure_staging_dir E) (\<lambda>staged.
       case staged of
         Inl err \<Rightarrow> mret (Inl err)
       | Inr dir \<Rightarrow> mbind (os_call (create_candidate E dir)) (\<lambda>r. mret (map_err cannot_create r)))"

definition create_check_candidate ::
  "('h, 'j, 'v) menv \<Rightarrow> monitor \<Rightarrow> nat \<Rightarrow> external_check \<Rightarrow> ('h, (proto_error, key) result) mon" where
  "create_check_candidate E M cid spec =
     mbind (wreads (\<lambda>w. check_candidate_dir (mo_allow M) cid (mo_host_profile M) (path_exists (w_os w)))) (\<lambda>place.
       case place of
         None \<Rightarrow> stage_candidate E
       | Some dir \<Rightarrow>
           mbind (wreads (\<lambda>w. me_probe E (w_os w) (components dir))) (\<lambda>probe.
             case require_trusted_dir (me_euid E) probe (lit ''candidate directory'') (of_candidate_dir spec) of
               Inl err \<Rightarrow> mret (Inl err)
             | Inr _ \<Rightarrow>
                 mbind (os_call (create_candidate E (components dir))) (\<lambda>r.
                   case r of
                     Inr k \<Rightarrow> mret (Inr k)
                   | Inl err \<Rightarrow>
                       if error_kind_of err = KReadOnlyFilesystem \<or> error_kind_of err = KPermissionDenied
                       then stage_candidate E
                       else mret (Inl (cannot_create err)))))"

definition write_all_and_sync :: "key \<Rightarrow> bytes \<Rightarrow> unit sys" where
  "write_all_and_sync k b = andthen (write_file k k b) (\<lambda>_. fsync k)"

text \<open>Run one validator on \<open>b\<close> in a candidate file that is removed afterwards (\<^verbatim>\<open>RemoveOnDrop\<close>).\<close>

definition judge_candidate ::
  "('h, 'j, 'v) menv \<Rightarrow> monitor \<Rightarrow> nat \<Rightarrow> external_check \<Rightarrow> bytes \<Rightarrow> ('h, (proto_error, check_outcome) result) mon" where
  "judge_candidate E M cid spec b =
     mbind (create_check_candidate E M cid spec) (\<lambda>created.
       case created of
         Inl err \<Rightarrow> mret (Inl err)
       | Inr k \<Rightarrow>
           mbind
             (mbind (os_call (write_all_and_sync k b)) (\<lambda>r.
                case r of
                  Inl err \<Rightarrow> mret (Inl (PeIo (lit ''cannot write the candidate file: '' @ kind_text (error_kind_of err))))
                | Inr _ \<Rightarrow>
                    mbind (wreads w_os) (\<lambda>os.
                    mbind (hook_call (hk_run_check (me_hooks E) spec k os)) (\<lambda>out.
                      mret (map_err hook_to_proto out))))) (\<lambda>answer.
           mbind (os_call (sys_unlink k k)) (\<lambda>_.
             mret answer)))"


section \<open>Writing a target\<close>

text \<open>The loop of \<^verbatim>\<open>revalidate\<close> over the validators that judge the file.\<close>

fun judge_all :: "('h, 'j, 'v) menv \<Rightarrow> monitor \<Rightarrow> bytes \<Rightarrow> check_entry list \<Rightarrow> ('h, (response, unit) result) mon" where
  "judge_all E M b [] = mret (Inr ())"
| "judge_all E M b (c # cs) =
     mbind (judge_candidate E M (ce_id c) (ce_check c) b) (\<lambda>r.
       case r of
         Inl err \<Rightarrow> mret (Inl (RsError err))
       | Inr out \<Rightarrow>
           if \<not> co_passed out then mret (Inl (RsError (PeIo (lit ''external validator rejected candidate content''))))
           else judge_all E M b cs)"

definition revalidate ::
  "('h, 'j, 'v) menv \<Rightarrow> monitor \<Rightarrow> nat \<Rightarrow> path \<Rightarrow> bytes \<Rightarrow> bytes \<Rightarrow> ('h, (response, unit) result) mon" where
  "revalidate E M m target previous b =
     (case gate_content E M m [previous] b of
        Inl refusal \<Rightarrow> mret (Inl refusal)
      | Inr _ \<Rightarrow>
          if \<not> hk_checks_configured (me_hooks E) then mret (Inr ())
          else judge_all E M b (filter (\<lambda>c. judges (ce_check c) target) (checks_of (mo_allow M) m)))"

definition previous_contents :: "(atomic_error, bytes \<times> digest) result \<Rightarrow> (proto_error, bytes) result" where
  "previous_contents r =
     (case r of
        Inr (contents, _) \<Rightarrow> Inr contents
      | Inl err \<Rightarrow> if is_not_found err then Inr [] else Inl (atomic_to_proto err))"

definition target_request :: "monitor \<Rightarrow> target_entry \<Rightarrow> digest option \<Rightarrow> bytes \<Rightarrow> write_request" where
  "target_request M entry expected b =
     \<lparr>rq_path = entry_key entry, rq_contents = b, rq_expected_prev = expected,
      rq_backup_dir = components (te_backup_dir entry), rq_keep_backups = al_keep_backups (mo_allow M),
      rq_create_missing = False, rq_create_mode = te_create_mode entry, rq_in_place = IpMarker (in_place_marker_key M)\<rparr>"

definition record_write :: "monitor \<Rightarrow> nat \<Rightarrow> target_entry \<Rightarrow> write_outcome \<Rightarrow> bool \<Rightarrow> monitor" where
  "record_write M i entry out journal =
     (case wo_backup out of
        Some backup \<Rightarrow>
          if journal then
            M\<lparr>mo_journal := (if mo_pending M = None then [] else mo_journal M)
                @ [\<lparr>re_target = i, re_path = te_path entry, re_backup = backup, re_new_digest = Some (wo_new_digest out)\<rparr>]\<rparr>
          else M
      | None \<Rightarrow> M)"

definition write_target ::
  "('h, 'j, 'v) menv \<Rightarrow> monitor \<Rightarrow> nat \<Rightarrow> digest option \<Rightarrow> bytes \<Rightarrow> bool \<Rightarrow> ('h, response \<times> monitor) mon" where
  "write_target E M i expected b journal =
     (case al_target (mo_allow M) i of
        None \<Rightarrow> mret (unknown IdTarget i, M)
      | Some entry \<Rightarrow>
          mbind (os_call (read_with_digest (me_fs E) (entry_key entry))) (\<lambda>r.
            case previous_contents r of
              Inl err \<Rightarrow> mret (RsError err, M)
            | Inr previous \<Rightarrow>
                mbind (revalidate E M (te_module entry) (te_path entry) previous b) (\<lambda>checked.
                  case checked of
                    Inl refusal \<Rightarrow> mret (refusal, M)
                  | Inr _ \<Rightarrow>
                      mbind (os_call (write_atomic (me_fs E) (target_request M entry expected b))) (\<lambda>written.
                        case written of
                          Inl err \<Rightarrow> mret (RsError (atomic_to_proto err), M)
                        | Inr out \<Rightarrow>
                            mret (RsWritten \<lparr>wr_target = i, wr_prev_digest = wo_prev_digest out,
                                wr_new_digest = wo_new_digest out, wr_created = wo_created out,
                                wr_backed_up = (wo_backup out \<noteq> None), wr_owner_preserved = wo_owner_preserved out\<rparr>,
                              record_write M i entry out journal)))))"

section \<open>Checks, services, mounts\<close>

fun read_all :: "('h, 'j, 'v) menv \<Rightarrow> target_entry list \<Rightarrow> ('h, bytes list) mon" where
  "read_all E [] = mret []"
| "read_all E (t # ts) =
     mbind (os_call (read_with_digest (me_fs E) (entry_key t))) (\<lambda>r.
     mbind (read_all E ts) (\<lambda>rest.
       mret (case r of Inr (contents, _) \<Rightarrow> contents # rest | Inl _ \<Rightarrow> rest)))"

definition run_check :: "('h, 'j, 'v) menv \<Rightarrow> monitor \<Rightarrow> nat \<Rightarrow> bytes \<Rightarrow> ('h, response) mon" where
  "run_check E M i b =
     (case al_check (mo_allow M) i of
        None \<Rightarrow> mret (unknown IdCheck i)
      | Some entry \<Rightarrow>
          mbind (read_all E (filter (\<lambda>t. te_kind t = PkFile) (filter_map (al_target (mo_allow M)) (ce_targets entry)))) (\<lambda>found.
            case gate_content E M (ce_module entry) (if found = [] then [[]] else found) b of
              Inl refusal \<Rightarrow> mret refusal
            | Inr _ \<Rightarrow>
                mbind (judge_candidate E M i (ce_check entry) b) (\<lambda>r.
                  mret (case r of
                          Inl err \<Rightarrow> RsError err
                        | Inr out \<Rightarrow> RsChecked (out\<lparr>co_check := i, co_detail := truncate (co_detail out)\<rparr>)))))"

definition service :: "('h, 'j, 'v) menv \<Rightarrow> monitor \<Rightarrow> nat \<Rightarrow> wire_action \<Rightarrow> ('h, response) mon" where
  "service E M i action =
     (case al_binding (mo_allow M) i of
        None \<Rightarrow> mret (unknown IdBinding i)
      | Some entry \<Rightarrow>
          (case to_core action of
             None \<Rightarrow>
               mbind (hook_call (hk_service_status (me_hooks E) (be_binding entry))) (\<lambda>r.
                 mret (case r of Inr status \<Rightarrow> RsUnitStatus status | Inl err \<Rightarrow> RsError (hook_to_proto err)))
           | Some core \<Rightarrow>
               if core \<notin> set (sb_actions (be_binding entry)) then mret (RsError PeActionNotAllowed)
               else
                 mbind (hook_call (hk_service (me_hooks E) (be_binding entry) core)) (\<lambda>r.
                   mret (case r of
                           Inr out \<Rightarrow> RsServiced (out\<lparr>so_binding := i, so_detail := truncate (so_detail out)\<rparr>)
                         | Inl err \<Rightarrow> RsError (hook_to_proto err)))))"

definition reload_unit_files :: "('h, 'j, 'v) menv \<Rightarrow> monitor \<Rightarrow> nat \<Rightarrow> ('h, response) mon" where
  "reload_unit_files E M m =
     (case al_module (mo_allow M) m of
        None \<Rightarrow> mret (unknown IdModule m)
      | Some d \<Rightarrow>
          if \<not> md_reload_unit_files d then mret (RsError PeActionNotAllowed)
          else
            mbind (hook_call (hk_reload_unit_files (me_hooks E))) (\<lambda>r.
              mret (case r of Inr detail \<Rightarrow> RsUnitFilesReloaded (truncate detail) | Inl err \<Rightarrow> RsError (hook_to_proto err))))"

definition mount :: "('h, 'j, 'v) menv \<Rightarrow> monitor \<Rightarrow> nat \<Rightarrow> ('h, response) mon" where
  "mount E M i =
     (case al_target (mo_allow M) i of
        None \<Rightarrow> mret (unknown IdTarget i)
      | Some entry \<Rightarrow>
          if (case al_module (mo_allow M) (te_module entry) of None \<Rightarrow> True | Some d \<Rightarrow> md_added_mounts d = None)
          then mret (RsError PeActionNotAllowed)
          else if \<not> cf_activate_mounts (al_config (mo_allow M)) then mret (RsMounted False [])
          else
            mbind (hook_call (hk_start_added_mounts (me_hooks E) i)) (\<lambda>r.
              mret (case r of
                      Inr units \<Rightarrow> RsMounted True (map (\<lambda>u. u\<lparr>mo_detail := truncate (mo_detail u)\<rparr>) units)
                    | Inl err \<Rightarrow> RsError (hook_to_proto err))))"

definition start_update :: "('h, 'j, 'v) menv \<Rightarrow> rstr \<Rightarrow> ('h, response) mon" where
  "start_update E tag =
     (case check_update_tag (me_semver E) tag of
        Inl refusal \<Rightarrow> mret (RsError (refuse_update_tag (me_semver E) tag refusal))
      | Inr _ \<Rightarrow>
          if \<not> me_update_feature E then mret (RsError (PeUnsupported (lit ''this build has no updater'')))
          else
            mbind (hook_call (hk_start_update (me_hooks E) tag)) (\<lambda>r.
              mret (case r of
                      Inr (UpStarted detail) \<Rightarrow> RsUpdateStarted (truncate detail)
                    | Inr UpAlreadyRunning \<Rightarrow> RsError PeUpdateRunning
                    | Inl err \<Rightarrow> RsError (hook_to_proto err))))"

section \<open>Backups\<close>

fun component_rank :: "component \<Rightarrow> nat \<times> rstr" where
  "component_rank RootDir = (0, [])"
| "component_rank CurDir = (1, [])"
| "component_rank ParentDir = (2, [])"
| "component_rank (Normal w) = (3, w)"

type_synonym backup_row = "nat \<times> key \<times> backup_entry"

text \<open>Newest first, then by path, as \<^verbatim>\<open>sort_by\<close> orders them.\<close>

definition row_key :: "backup_row \<Rightarrow> int \<times> (nat \<times> rstr) list" where
  "row_key row = (case row of (_, _, e) \<Rightarrow> (- int (ba_created e), map component_rank (ba_path e)))"

fun collect_rows :: "('h, 'j, 'v) menv \<Rightarrow> target_entry list \<Rightarrow> ('h, (response, backup_row list) result) mon" where
  "collect_rows E [] = mret (Inr [])"
| "collect_rows E (t # ts) =
     mbind (os_call (list_backups (me_fs E) (components (te_backup_dir t)))) (\<lambda>r.
       case r of
         Inl err \<Rightarrow> mret (Inl (RsError (atomic_to_proto err)))
       | Inr entries \<Rightarrow>
           mbind (collect_rows E ts) (\<lambda>rest.
             mret (bind_result rest (\<lambda>more. Inr (map (\<lambda>e. (te_id t, entry_key t, e)) entries @ more)))))"

definition key_file_name :: "key \<Rightarrow> rstr" where
  "key_file_name k = (if k = [] then [] else case last k of Normal w \<Rightarrow> w | _ \<Rightarrow> [])"

definition backup_info_of :: "nat \<Rightarrow> backup_row \<Rightarrow> backup_info" where
  "backup_info_of index row =
     (case row of (target, _, e) \<Rightarrow>
        \<lparr>bk_id = (if index \<le> u32_max then index else u32_max), bk_target = target, bk_name = key_file_name (ba_path e),
         bk_created_unix_s = ba_created e div 1000000000, bk_digest = ba_digest e, bk_len = ba_len e\<rparr>)"

definition collect_backups ::
  "('h, 'j, 'v) menv \<Rightarrow> monitor \<Rightarrow> nat \<Rightarrow> ('h, (response, (backup_info \<times> key \<times> key) list) result) mon" where
  "collect_backups E M m =
     (if al_module (mo_allow M) m = None then mret (Inl (unknown IdModule m))
      else
        mbind (collect_rows E (targets_of (mo_allow M) m)) (\<lambda>r.
          mret (bind_result r (\<lambda>found.
            Inr (map (\<lambda>(index, row). (backup_info_of index row, ba_path (snd (snd row)), fst (snd row)))
                   (enumerate 0 (sort_key row_key found)))))))"

definition list_module_backups :: "('h, 'j, 'v) menv \<Rightarrow> monitor \<Rightarrow> nat \<Rightarrow> ('h, response) mon" where
  "list_module_backups E M m =
     mbind (collect_backups E M m) (\<lambda>r.
       mret (case r of Inr entries \<Rightarrow> RsBackups (map fst entries) | Inl refusal \<Rightarrow> refusal))"

definition restore :: "('h, 'j, 'v) menv \<Rightarrow> monitor \<Rightarrow> nat \<Rightarrow> nat \<Rightarrow> ('h, response) mon" where
  "restore E M m backup =
     mbind (collect_backups E M m) (\<lambda>r.
       case r of
         Inl refusal \<Rightarrow> mret refusal
       | Inr entries \<Rightarrow>
           (case get entries backup of
              None \<Rightarrow> mret (unknown IdBackup backup)
            | Some (info, source, target) \<Rightarrow>
                mbind (os_call (restore_backup_with (me_fs E) source target None (IpMarker (in_place_marker_key M)))) (\<lambda>out.
                  mret (case out of
                          Inr o1 \<Rightarrow> RsRestored (bk_target info) (wo_new_digest o1)
                        | Inl err \<Rightarrow> RsError (atomic_to_proto err)))))"


section \<open>Commit-confirm\<close>

text \<open>\<^verbatim>\<open>open\<close> with \<^verbatim>\<open>O_WRONLY | O_CREAT\<close>, with or without \<^verbatim>\<open>O_TRUNC\<close>. The state directory holds
  regular files only.\<close>

definition open_create :: "key \<Rightarrow> nat \<Rightarrow> bool \<Rightarrow> unit sys" where
  "open_create k mode trunc =
     andthen (syscall (lit ''open'') k) (\<lambda>_ s.
       case node_at s k of
         Some (Reg f) \<Rightarrow> (Inr (), if trunc then put_node k (Reg (f\<lparr>f_contents := []\<rparr>)) s else s)
       | Some _ \<Rightarrow> (Inl (Failed (AeIo (lit ''open'') k (Hard EINVAL))), s)
       | None \<Rightarrow>
           if butlast k \<notin> set (os_dirs s) then (Inl (Failed (AeIo (lit ''open'') k ENOENT)), s)
           else if butlast k \<in> set (os_frozen s) then (Inl (Failed (AeIo (lit ''open'') k (Hard EROFS))), s)
           else (Inr (), put_node k (Reg \<lparr>f_contents = [], f_mode = mode, f_uid = os_euid s, f_gid = os_egid s,
                   f_ino = os_next_ino s, f_xattrs = [], f_mtime = os_clock s (os_ticks s)\<rparr>)
                   (s\<lparr>os_next_ino := Suc (os_next_ino s)\<rparr>)))"

definition write_private :: "key \<Rightarrow> bytes \<Rightarrow> unit sys" where
  "write_private k b =
     andthen (open_create k 384 True) (\<lambda>_.
     andthen (write_file k k b) (\<lambda>_.
       fsync k))"

definition fs_read :: "key \<Rightarrow> bytes sys" where
  "fs_read k =
     andthen (syscall (lit ''read'') k) (\<lambda>_ s.
       case node_at s k of
         Some (Reg f) \<Rightarrow> (Inr (f_contents f), s)
       | Some _ \<Rightarrow> (Inl (Failed (AeIo (lit ''read'') k (Hard EINVAL))), s)
       | None \<Rightarrow> (Inl (Failed (AeIo (lit ''read'') k ENOENT)), s))"

definition write_pending_marker ::
  "('h, 'j, 'v) menv \<Rightarrow> monitor \<Rightarrow> pending_commit_marker \<Rightarrow> ('h, (monitor_error, unit) result) mon" where
  "write_pending_marker E M marker =
     mbind (os_call (create_dir_all (lit ''create_dir_all'') (state_key M))) (\<lambda>r.
       case r of
         Inl _ \<Rightarrow> mret (Inl (MeState (lit ''create_dir_all'')))
       | Inr _ \<Rightarrow>
           mbind (os_call (write_private (marker_key M) (me_marker_json E marker))) (\<lambda>r2.
             mret (map_err (\<lambda>_. MeState (lit ''write'')) r2)))"

definition clear_marker :: "monitor \<Rightarrow> ('h, (monitor_error, unit) result) mon" where
  "clear_marker M =
     mbind (os_call (sys_unlink (marker_key M) (marker_key M))) (\<lambda>r.
       mret (case r of
               Inr _ \<Rightarrow> Inr ()
             | Inl err \<Rightarrow> if error_kind_of err = KNotFound then Inr () else Inl (MeState (lit ''remove_file''))))"

definition starts_mounts :: "monitor \<Rightarrow> rollback_entry list \<Rightarrow> bool" where
  "starts_mounts M entries = list_ex (\<lambda>e. starts_mounts_after (mo_allow M) (re_path e)) entries"

definition replay_reload ::
  "('h, 'j, 'v) menv \<Rightarrow> monitor \<Rightarrow> rollback_entry list \<Rightarrow> ('h, (hook_error, unit) result) mon" where
  "replay_reload E M entries =
     (if \<not> list_ex (\<lambda>e. reloads_unit_files_after (mo_allow M) (re_path e)) entries then mret (Inr ())
      else mbind (hook_call (hk_reload_unit_files (me_hooks E))) (\<lambda>r. mret (bind_result r (\<lambda>_. Inr ()))))"

definition stop_started_mounts ::
  "('h, 'j, 'v) menv \<Rightarrow> monitor \<Rightarrow> rollback_entry list \<Rightarrow> ('h, (hook_error, unit) result) mon" where
  "stop_started_mounts E M entries =
     (if \<not> starts_mounts M entries then mret (Inr ())
      else mbind (hook_call (hk_stop_started_mounts (me_hooks E))) (\<lambda>r. mret (bind_result r (\<lambda>_. Inr ()))))"

definition replay_service ::
  "('h, 'j, 'v) menv \<Rightarrow> monitor \<Rightarrow> pending_service option \<Rightarrow> ('h, (hook_error, unit) result) mon" where
  "replay_service E M svc =
     (case svc of
        None \<Rightarrow> mret (Inr ())
      | Some p \<Rightarrow>
          (case al_binding (mo_allow M) (ps_binding p) of
             None \<Rightarrow> mret (Inl (HookFailed (lit ''service binding '' @ show_nat (ps_binding p) @ lit '' disappeared'')))
           | Some entry \<Rightarrow>
               (case to_core (ps_action p) of
                  None \<Rightarrow> mret (Inl (HookFailed (lit ''pending service action is not mutating'')))
                | Some action \<Rightarrow>
                    if action \<notin> set (sb_actions (be_binding entry))
                    then mret (Inl (HookFailed (lit ''pending service action is no longer allowed'')))
                    else mbind (hook_call (hk_service (me_hooks E) (be_binding entry) action)) (\<lambda>r.
                           mret (bind_result r (\<lambda>_. Inr ()))))))"

text \<open>The restoring loop, newest write first: a target that was edited meanwhile is skipped, a failure
  does not stop the rest.\<close>

fun restore_entries :: "('h, 'j, 'v) menv \<Rightarrow> key \<Rightarrow> rollback_entry list \<Rightarrow> ('h, nat) mon" where
  "restore_entries E marker [] = mret 0"
| "restore_entries E marker (e # es) =
     mbind (os_call (restore_backup_with (me_fs E) (re_backup e) (components (re_path e)) (re_new_digest e) (IpMarker marker))) (\<lambda>r.
     mbind (restore_entries E marker es) (\<lambda>n.
       mret (case r of Inr _ \<Rightarrow> Suc n | Inl _ \<Rightarrow> n)))"

definition roll_back :: "('h, 'j, 'v) menv \<Rightarrow> rollback_entry list \<Rightarrow> key \<Rightarrow> ('h, nat) mon" where
  "roll_back E entries marker = restore_entries E marker (rev entries)"

text \<open>What \<^verbatim>\<open>rollback_pending_on_exit\<close>, \<^verbatim>\<open>rollback_commit\<close> and \<^verbatim>\<open>enforce_deadline\<close> do with the commit
  they took: stop the mounts, restore the files, reload, replay the service, remove the marker. Only the last
  step can fail the monitor.\<close>

definition undo_pending ::
  "('h, 'j, 'v) menv \<Rightarrow> monitor \<Rightarrow> pending_commit \<Rightarrow> ('h, (monitor_error, nat) result) mon" where
  "undo_pending E M p =
     mbind (stop_started_mounts E M (pc_entries p)) (\<lambda>_.
     mbind (roll_back E (pc_entries p) (in_place_marker_key M)) (\<lambda>restored.
     mbind (replay_reload E M (pc_entries p)) (\<lambda>_.
     mbind (replay_service E M (pc_service p)) (\<lambda>_.
     mbind (clear_marker M) (\<lambda>r.
       mret (bind_result r (\<lambda>_. Inr restored)))))))"

definition forget_pending :: "monitor \<Rightarrow> monitor" where
  "forget_pending M = M\<lparr>mo_pending := None\<rparr>"

definition rollback_pending_on_exit :: "('h, 'j, 'v) menv \<Rightarrow> monitor \<Rightarrow> ('h, (monitor_error, unit) result \<times> monitor) mon" where
  "rollback_pending_on_exit E M =
     (case mo_pending M of
        None \<Rightarrow> mret (Inr (), M)
      | Some p \<Rightarrow> mbind (undo_pending E M p) (\<lambda>r. mret (bind_result r (\<lambda>_. Inr ()), forget_pending M)))"

definition enforce_deadline :: "('h, 'j, 'v) menv \<Rightarrow> monitor \<Rightarrow> ('h, (monitor_error, unit) result \<times> monitor) mon" where
  "enforce_deadline E M =
     mbind (wreads w_instant) (\<lambda>now.
       case mo_pending M of
         None \<Rightarrow> mret (Inr (), M)
       | Some p \<Rightarrow>
           if now < pc_deadline p then mret (Inr (), M)
           else mbind (undo_pending E M p) (\<lambda>r. mret (bind_result r (\<lambda>_. Inr ()), forget_pending M)))"

definition rollback_commit ::
  "('h, 'j, 'v) menv \<Rightarrow> monitor \<Rightarrow> nat \<Rightarrow> ('h, (monitor_error, response) result \<times> monitor) mon" where
  "rollback_commit E M commit =
     (case mo_pending M of
        Some p \<Rightarrow>
          if pc_commit p = commit then
            mbind (undo_pending E M p) (\<lambda>r.
              mret (bind_result r (\<lambda>restored. Inr (RsRolledBack commit (min restored u16_max))), forget_pending M))
          else mret (Inr (unknown IdCommit commit), M)
      | None \<Rightarrow> mret (Inr (unknown IdCommit commit), M))"

definition clamp_timeout :: "nat \<Rightarrow> nat" where
  "clamp_timeout t = (if t < 1 then 1 else if MAX_CONFIRM_TIMEOUT_S < t then MAX_CONFIRM_TIMEOUT_S else t)"

definition start_confirm_timer ::
  "('h, 'j, 'v) menv \<Rightarrow> monitor \<Rightarrow> nat \<Rightarrow> nat \<Rightarrow> pending_service option \<Rightarrow> ('h, (monitor_error, response) result \<times> monitor) mon" where
  "start_confirm_timer E M commit timeout_s svc =
     (case mo_pending M of
        Some p \<Rightarrow> mret (Inr (RsError (PeCommitPending (pc_commit p))), M)
      | None \<Rightarrow>
          (let timeout = clamp_timeout timeout_s; entries = mo_journal M; M1 = M\<lparr>mo_journal := []\<rparr> in
           mbind (wreads w_instant) (\<lambda>now.
           mbind (os_call sys_now) (\<lambda>clock.
           mbind (write_pending_marker E M1 \<lparr>pm_commit = commit,
               pm_deadline_unix_ms = (case clock of Inr ns \<Rightarrow> ns div 1000000 | Inl _ \<Rightarrow> 0) + timeout * 1000,
               pm_entries = entries, pm_service = svc\<rparr>) (\<lambda>r.
             mret (case r of
                     Inl err \<Rightarrow> (Inl err, M1)
                   | Inr _ \<Rightarrow>
                       (Inr (RsConfirmTimerStarted commit timeout (min (length entries) u16_max)),
                        M1\<lparr>mo_pending := Some \<lparr>pc_commit = commit, pc_deadline = now + timeout * 1000,
                             pc_entries = entries, pc_service = svc\<rparr>\<rparr>)))))))"

definition confirm_commit ::
  "('h, 'j, 'v) menv \<Rightarrow> monitor \<Rightarrow> nat \<Rightarrow> ('h, (monitor_error, response) result \<times> monitor) mon" where
  "confirm_commit E M commit =
     mbind (wreads w_instant) (\<lambda>now.
       case mo_pending M of
         None \<Rightarrow> mret (Inr (unknown IdCommit commit), M)
       | Some p \<Rightarrow>
           if pc_commit p \<noteq> commit then mret (Inr (unknown IdCommit commit), M)
           else if pc_deadline p \<le> now then
             mbind (enforce_deadline E M) (\<lambda>(r, M1).
               mret (bind_result r (\<lambda>_. Inr (RsError (PeCommitExpired commit))), M1))
           else
             mbind (if starts_mounts M (pc_entries p)
                    then mbind (hook_call (hk_forget_started_mounts (me_hooks E))) (\<lambda>_. mret ())
                    else mret ()) (\<lambda>_.
             mbind (clear_marker M) (\<lambda>r.
               mret (bind_result r (\<lambda>_. Inr (RsCommitted commit)), forget_pending M))))"

section \<open>Recovery at startup\<close>

definition marker_entry :: "allowlist \<Rightarrow> in_place_marker \<Rightarrow> target_entry option" where
  "marker_entry al marker =
     find (\<lambda>e. entry_key e = im_path marker \<and> te_kind e = PkFile
         \<and> (case im_backup marker of Some b \<Rightarrow> key_parent b = Some (components (te_backup_dir e)) | None \<Rightarrow> False))
       (filter_map (al_target al) (filter (\<lambda>i. i \<le> u16_max) [0 ..< length (al_targets al)]))"

definition drop_in_place_marker :: "monitor \<Rightarrow> in_place_outcome \<Rightarrow> ('h, (monitor_error, in_place_outcome option) result) mon" where
  "drop_in_place_marker M outcome =
     mbind (os_call (remove_marker (in_place_marker_key M))) (\<lambda>r.
       mret (case r of Inr _ \<Rightarrow> Inr (Some outcome) | Inl _ \<Rightarrow> Inl (MeState (lit ''remove_file''))))"

definition recover_in_place :: "('h, 'j, 'v) menv \<Rightarrow> monitor \<Rightarrow> ('h, (monitor_error, in_place_outcome option) result) mon" where
  "recover_in_place E M =
     mbind (os_call (fs_read (in_place_marker_key M))) (\<lambda>r.
       case r of
         Inl err \<Rightarrow> mret (if error_kind_of err = KNotFound then Inr None else Inl (MeState (lit ''read'')))
       | Inr b \<Rightarrow>
           (case fe_marker_parse (me_fs E) b of
              None \<Rightarrow> mret (Inl MeCorruptMarker)
            | Some marker \<Rightarrow>
                (case (marker_entry (mo_allow M) marker, im_backup marker) of
                   (Some _, Some backup) \<Rightarrow>
                     mbind (os_call (read_with_digest (me_fs E) (im_path marker))) (\<lambda>found.
                       let now = (case found of Inr (_, d) \<Rightarrow> Some d | Inl _ \<Rightarrow> None) in
                       if now = Some (im_new marker) \<or> now = Some (im_prev marker)
                       then drop_in_place_marker M IpoWhole
                       else
                         mbind (os_call (restore_backup_with (me_fs E) backup (im_path marker) None IpGuarded)) (\<lambda>out.
                           case out of
                             Inr _ \<Rightarrow> drop_in_place_marker M IpoRestored
                           | Inl _ \<Rightarrow> mret (Inr (Some IpoFailed))))
                 | _ \<Rightarrow> drop_in_place_marker M IpoRefused)))"

definition failed_steps :: "(hook_error, unit) result \<Rightarrow> nat" where
  "failed_steps r = (case r of Inl _ \<Rightarrow> 1 | Inr _ \<Rightarrow> 0)"

definition recover_pending :: "('h, 'j, 'v) menv \<Rightarrow> monitor \<Rightarrow> ('h, (monitor_error, recovered option) result) mon" where
  "recover_pending E M =
     mbind (recover_in_place E M) (\<lambda>first.
       case first of
         Inl err \<Rightarrow> mret (Inl err)
       | Inr _ \<Rightarrow>
           mbind (os_call (fs_read (marker_key M))) (\<lambda>r.
             case r of
               Inl err \<Rightarrow> mret (if error_kind_of err = KNotFound then Inr None else Inl (MeState (lit ''read'')))
             | Inr b \<Rightarrow>
                 (case me_marker_parse E b of
                    None \<Rightarrow> mret (Inl MeCorruptMarker)
                  | Some marker \<Rightarrow>
                      mbind (stop_started_mounts E M (pm_entries marker)) (\<lambda>r1.
                      mbind (roll_back E (pm_entries marker) (in_place_marker_key M)) (\<lambda>restored.
                      mbind (replay_reload E M (pm_entries marker)) (\<lambda>r2.
                      mbind (replay_service E M (pm_service marker)) (\<lambda>r3.
                      mbind (os_call (sys_unlink (marker_key M) (marker_key M))) (\<lambda>gone.
                        mret (case gone of
                                Inl _ \<Rightarrow> Inl (MeState (lit ''remove_file''))
                              | Inr _ \<Rightarrow>
                                  Inr (Some \<lparr>rv_commit = pm_commit marker, rv_restored = restored,
                                    rv_failures = failed_steps r1 + (length (pm_entries marker) - restored)
                                      + failed_steps r2 + failed_steps r3\<rparr>))))))))))"

section \<open>Dispatch and the serving loop\<close>

definition answer :: "monitor \<Rightarrow> ('h, response) mon \<Rightarrow> ('h, (monitor_error, response) result \<times> monitor) mon" where
  "answer M m = mbind m (\<lambda>r. mret (Inr r, M))"

fun handle :: "('h, 'j, 'v) menv \<Rightarrow> monitor \<Rightarrow> request \<Rightarrow> ('h, (monitor_error, response) result \<times> monitor) mon" where
  "handle E M (RqHello _) = answer M (mret (RsError PeHandshakeRequired))"
| "handle E M (RqReadTarget i) = answer M (read_target E M i)"
| "handle E M (RqWriteTarget i expected b journal) =
     mbind (write_target E M i expected b journal) (\<lambda>(r, M1). mret (Inr r, M1))"
| "handle E M (RqRunCheck i b) = answer M (run_check E M i b)"
| "handle E M (RqService i action) = answer M (service E M i action)"
| "handle E M (RqListBackups m) = answer M (list_module_backups E M m)"
| "handle E M (RqRestore m backup) = answer M (restore E M m backup)"
| "handle E M (RqStartConfirmTimer commit timeout_s svc) = start_confirm_timer E M commit timeout_s svc"
| "handle E M (RqConfirmCommit commit) = confirm_commit E M commit"
| "handle E M (RqRollbackCommit commit) = rollback_commit E M commit"
| "handle E M RqPendingCommit = answer M (mret (RsPending (map_option pc_commit (mo_pending M))))"
| "handle E M (RqMount i) = answer M (mount E M i)"
| "handle E M (RqReplaceBinary _ _ _) =
     answer M (mret (RsError (PeUnsupported (lit ''the monitor installs no release; use StartUpdate''))))"
| "handle E M (RqStageBegin _ _ _ _) =
     answer M (mret (RsError (PeUnsupported (lit ''the monitor installs no release; use StartUpdate''))))"
| "handle E M (RqStageUpdate _ _) =
     answer M (mret (RsError (PeUnsupported (lit ''the monitor installs no release; use StartUpdate''))))"
| "handle E M RqShutdown = answer M (mret RsShuttingDown)"
| "handle E M (RqReloadUnitFiles m) = answer M (reload_unit_files E M m)"
| "handle E M (RqStartUpdate tag) = answer M (start_update E tag)"

definition dispatch ::
  "('h, 'j, 'v) menv \<Rightarrow> monitor \<Rightarrow> request \<Rightarrow> ('h, (monitor_error, response) result \<times> monitor) mon" where
  "dispatch E M req =
     (if \<not> mo_greeted M then
        mret (case req of
                RqHello proto \<Rightarrow>
                  if proto = PROTO_VERSION
                  then (Inr (RsHelloAck (hello_ack (mo_allow M))), M\<lparr>mo_greeted := True\<rparr>)
                  else (Inr (RsError (PeVersionMismatch PROTO_VERSION proto)), M)
              | _ \<Rightarrow> (Inr (RsError PeHandshakeRequired), M))
      else handle E M req)"

text \<open>One turn of the loop as the channel sees it: what setting the read timeout says when it has to be
  changed, what arrives and when, whether the response can be sent, and the time at the deadline check. When
  no event is left the monitor is still waiting.\<close>

record chan_event =
  ev_set_timeout :: "channel_error option"
  ev_recv :: "(channel_error, request option) result"
  ev_at :: nat
  ev_send :: "channel_error option"
  ev_end :: nat

definition PENDING_POLL :: nat where "PENDING_POLL = 20"

definition finish_send_error :: "channel_error \<Rightarrow> (monitor_error, exit_reason) result" where
  "finish_send_error e =
     (case e of
        CeClosed \<Rightarrow> Inr ExitPeerClosed
      | CeTimeout \<Rightarrow> Inr ExitPeerClosed
      | CeOversize _ \<Rightarrow> Inr ExitProtocolViolation
      | other \<Rightarrow> Inl (MeChannel other))"

definition fatal_response :: "response \<Rightarrow> bool" where
  "fatal_response r =
     (case r of
        RsError e \<Rightarrow> (case e of PeVersionMismatch _ _ \<Rightarrow> True | PeHandshakeRequired \<Rightarrow> True | _ \<Rightarrow> False)
      | _ \<Rightarrow> False)"

definition clock_to :: "nat \<Rightarrow> ('h, unit) mon" where
  "clock_to t w = (Some (), w\<lparr>w_instant := max t (w_instant w)\<rparr>)"

definition chan_send :: "response \<Rightarrow> channel_error option \<Rightarrow> ('h, channel_error option) mon" where
  "chan_send r fault w = (case fault of None \<Rightarrow> (Some None, w\<lparr>w_sent := w_sent w @ [r]\<rparr>) | Some e \<Rightarrow> (Some (Some e), w))"

definition serve_request ::
  "('h, 'j, 'v) menv \<Rightarrow> bool \<Rightarrow> monitor \<Rightarrow> request \<Rightarrow> ('h, (monitor_error, response) result \<times> monitor) mon" where
  "serve_request E lock_held M req =
     (if \<not> lock_held \<and> mo_greeted M \<and> changes_state req then mret (Inr (RsError PeStateLockUnavailable), M)
      else dispatch E M req)"

fun serve_loop ::
  "('h, 'j, 'v) menv \<Rightarrow> bool \<Rightarrow> nat \<Rightarrow> nat \<Rightarrow> monitor \<Rightarrow> chan_event list
     \<Rightarrow> ('h, (monitor_error, exit_reason) result option \<times> monitor) mon" where
  "serve_loop E lock_held idle timeout M [] = mret (None, M)"
| "serve_loop E lock_held idle timeout M (ev # evs) =
     (let want = (if mo_pending M \<noteq> None then PENDING_POLL else idle);
          next_turn = (\<lambda>M1.
            mbind (clock_to (ev_end ev)) (\<lambda>_.
            mbind (enforce_deadline E M1) (\<lambda>(r, M2).
              case r of
                Inl err \<Rightarrow> mret (Some (Inl err), M2)
              | Inr _ \<Rightarrow> serve_loop E lock_held idle want M2 evs)))
      in
      case (if timeout \<noteq> want then ev_set_timeout ev else None) of
        Some e \<Rightarrow> mret (Some (if e = CeClosed then Inr ExitPeerClosed else Inl (MeChannel e)), M)
      | None \<Rightarrow>
          (case ev_recv ev of
             Inl e \<Rightarrow>
               mret (Some (if e = CeClosed then Inr ExitPeerClosed
                           else if is_protocol_violation e then Inr ExitProtocolViolation
                           else Inl (MeChannel e)), M)
           | Inr None \<Rightarrow> next_turn M
           | Inr (Some req) \<Rightarrow>
               mbind (clock_to (ev_at ev)) (\<lambda>_.
               mbind (serve_request E lock_held M req) (\<lambda>(r, M1).
                 case r of
                   Inl err \<Rightarrow> mret (Some (Inl err), M1)
                 | Inr resp \<Rightarrow>
                     mbind (chan_send resp (ev_send ev)) (\<lambda>fault.
                       case fault of
                         Some e \<Rightarrow> mret (Some (finish_send_error e), M1)
                       | None \<Rightarrow>
                           if req = RqShutdown then mret (Some (Inr ExitShutdown), M1)
                           else if fatal_response resp then mret (Some (Inr ExitProtocolMismatch), M1)
                           else next_turn M1)))))"

definition exit_result ::
  "(monitor_error, exit_reason) result \<Rightarrow> (monitor_error, unit) result \<Rightarrow> (monitor_error, exit_reason) result" where
  "exit_result result cleanup =
     (case (result, cleanup) of
        (Inr reason, Inr _) \<Rightarrow> Inr reason
      | (Inl err, Inr _) \<Rightarrow> Inl err
      | (Inr _, Inl err) \<Rightarrow> Inl err
      | (Inl _, Inl err) \<Rightarrow> Inl err)"

definition serve_locked ::
  "('h, 'j, 'v) menv \<Rightarrow> bool \<Rightarrow> nat \<Rightarrow> monitor \<Rightarrow> chan_event list
     \<Rightarrow> ('h, (monitor_error, exit_reason) result option \<times> monitor) mon" where
  "serve_locked E lock_held idle M evs =
     mbind (serve_loop E lock_held idle idle M evs) (\<lambda>(r, M1).
       case r of
         None \<Rightarrow> mret (None, M1)
       | Some result \<Rightarrow>
           mbind (rollback_pending_on_exit E M1) (\<lambda>(cleanup, M2).
             mret (Some (exit_result result cleanup), M2)))"

definition MONITOR_LOCK :: rstr where "MONITOR_LOCK = lit ''monitor.lock''"

definition unavailable_when_denied :: "rstr \<Rightarrow> atomic_error \<Rightarrow> (monitor_error, bool) result" where
  "unavailable_when_denied op e = (if error_kind_of e = KPermissionDenied then Inr False else Inl (MeState op))"

text \<open>\<^verbatim>\<open>lock_state\<close>: whether the lock is held; \<open>busy\<close> says that another process has the lock.\<close>

definition lock_state :: "bool \<Rightarrow> key \<Rightarrow> ('h, (monitor_error, bool) result) mon" where
  "lock_state busy dir =
     mbind (os_call (create_dir_all (lit ''mkdir'') dir)) (\<lambda>r.
       case r of
         Inl e \<Rightarrow> mret (unavailable_when_denied (lit ''create_dir_all'') e)
       | Inr _ \<Rightarrow>
           mbind (os_call (open_create (at dir MONITOR_LOCK) 384 False)) (\<lambda>r2.
             mret (case r2 of
                     Inl e \<Rightarrow> unavailable_when_denied (lit ''open lock'') e
                   | Inr _ \<Rightarrow> if busy then Inl MeBusy else Inr True)))"

definition lock_exclusive :: "bool \<Rightarrow> key \<Rightarrow> ('h, (monitor_error, bool) result) mon" where
  "lock_exclusive busy dir =
     mbind (lock_state busy dir) (\<lambda>r.
       mret (bind_result r (\<lambda>held. if held then Inr True else Inl MeLockUnavailable)))"

definition serve ::
  "('h, 'j, 'v) menv \<Rightarrow> bool \<Rightarrow> nat \<Rightarrow> monitor \<Rightarrow> chan_event list
     \<Rightarrow> ('h, (monitor_error, exit_reason) result option \<times> monitor) mon" where
  "serve E busy idle M evs =
     mbind (lock_state busy (state_key M)) (\<lambda>locked.
       case locked of
         Inl err \<Rightarrow> mret (Some (Inl err), M)
       | Inr held \<Rightarrow>
           mbind (if held then recover_pending E M else mret (Inr None)) (\<lambda>recovered.
             case recovered of
               Inl err \<Rightarrow> mret (Some (Inl err), M)
             | Inr _ \<Rightarrow> serve_locked E held idle M evs))"

definition monitor_new :: "allowlist \<Rightarrow> host_profile \<Rightarrow> monitor" where
  "monitor_new al profile = \<lparr>mo_allow = al, mo_greeted = False, mo_journal = [], mo_pending = None, mo_host_profile = profile\<rparr>"

end
