(* ===== verification/Atomic_Write.thy ===== *)
theory Atomic_Write
  imports Atomic_File
begin

text \<open>
  What \<^verbatim>\<open>write_atomic\<close> guarantees for every script of faults: at every point at which a call fails or the
  process dies, the target holds its old or its new contents, or the in-place marker on disk names a
  backup with the old contents.
\<close>

section \<open>Which files a computation touches\<close>

definition touches :: "key set \<Rightarrow> 'a sys \<Rightarrow> bool" where
  "touches X m \<longleftrightarrow> (\<forall>s k. k \<notin> X \<longrightarrow> node_at (snd (m s)) k = node_at s k)"

named_theorems touch

lemma touchesD: "touches X m \<Longrightarrow> m s = (r, s') \<Longrightarrow> k \<notin> X \<Longrightarrow> node_at s' k = node_at s k"
  by (metis touches_def snd_conv)

lemma touches_mono: "touches X m \<Longrightarrow> X \<subseteq> Y \<Longrightarrow> touches Y m"
  by (auto simp: touches_def)

lemma touches_plain [touch]:
  "touches X (ret x)" "touches X (stop_with e)" "touches X (lift r)" "touches X (reads f)" "touches X sys_now"
  "touches X temp_names"
  by (auto simp: touches_def ret_def stop_with_def lift_def reads_def sys_now_def temp_names_def node_at_def split: sum.splits)

lemma touches_syscall [touch]: "touches X (syscall op p)"
proof (unfold touches_def, intro allI impI)
  fix s k
  obtain r es where "syscall_cut op p s = (r, s\<lparr>os_script := es\<rparr>)" using syscall_cut_cases by blast
  then show "node_at (snd (syscall op p s)) k = node_at s k" by (auto simp: syscall_def split: option.splits)
qed

lemma touches_andthen [touch]: "touches X m \<Longrightarrow> (\<And>x. touches X (f x)) \<Longrightarrow> touches X (andthen m f)"
  unfolding touches_def andthen_def by (auto split: prod.splits sum.splits) (metis snd_conv)+

lemma touches_local:
  "(\<And>s k. k \<notin> X \<Longrightarrow> node_at (snd (f s)) k = node_at s k) \<Longrightarrow> touches X f"
  by (simp add: touches_def)

lemma touches_if [touch]: "touches X m \<Longrightarrow> touches X n \<Longrightarrow> touches X (if b then m else n)"
  by simp

lemma touches_option [touch]:
  "touches X m \<Longrightarrow> (\<And>x. touches X (n x)) \<Longrightarrow> touches X (case v of None \<Rightarrow> m | Some x \<Rightarrow> n x)"
  by (cases v) auto

lemma touches_prod [touch]: "(\<And>a b. touches X (f a b)) \<Longrightarrow> touches X (case v of (a, b) \<Rightarrow> f a b)"
  by (cases v) auto

lemma touches_node [touch]:
  "(\<And>f. touches X (m f)) \<Longrightarrow> touches X n \<Longrightarrow> touches X r \<Longrightarrow> touches X (case v of Reg f \<Rightarrow> m f | Symlink \<Rightarrow> n | Special \<Rightarrow> r)"
  by (cases v) auto

lemma touches_open_dir [touch]: "touches X (open_dir d)"
  unfolding open_dir_def by (intro touches_andthen touches_syscall touches_local) auto

lemma touches_fsync [touch]: "touches X (fsync d)"
  unfolding fsync_def by (intro touch)

lemma touches_create_dir_all [touch]: "touches X (create_dir_all op d)"
  unfolding create_dir_all_def by (intro touches_andthen touches_syscall) (simp add: touches_def modify_def node_at_def)

lemma touches_write_file [touch]: "k \<in> X \<Longrightarrow> touches X (write_file k p b)"
proof (rule touches_local)
  fix s k' assume "k \<in> X" "k' \<notin> X"
  obtain r es where "syscall_cut (lit ''write'') p s = (r, s\<lparr>os_script := es\<rparr>)" using syscall_cut_cases by blast
  then show "node_at (snd (write_file k p b s)) k' = node_at s k'"
    using \<open>k \<in> X\<close> \<open>k' \<notin> X\<close> by (auto simp: write_file_def split: option.splits node.splits)
qed

lemma touches_unlink [touch]: "k \<in> X \<Longrightarrow> touches X (sys_unlink k p)"
  unfolding sys_unlink_def by (intro touches_andthen touches_syscall touches_local) auto

lemma touches_rename [touch]: "src \<in> X \<Longrightarrow> dst \<in> X \<Longrightarrow> touches X (sys_rename src dst p)"
  unfolding sys_rename_def by (intro touches_andthen touches_syscall touches_local) (auto split: option.splits)

lemma node_at_next_ino [simp]: "node_at (s\<lparr>os_next_ino := i\<rparr>) = node_at s"
  by (rule ext) (simp add: node_at_def)

lemma touches_create [touch]: "k \<in> X \<Longrightarrow> touches X (sys_create k p mode)"
  unfolding sys_create_def by (intro touches_andthen touches_syscall touches_local) auto

lemma touches_update [touch]: "k \<in> X \<Longrightarrow> touches X (update_file op k p f)"
  unfolding update_file_def by (intro touches_andthen touches_syscall touches_local) (auto split: option.splits node.splits)

lemma touches_wrapped:
  assumes "touches X m" and "\<And>s. snd (n s) = snd (m s)"
  shows "touches X n"
  using assms by (simp add: touches_def)

lemma snd_ignoring: "snd (ignoring ok m s) = snd (m s)"
  by (auto simp: ignoring_def split: prod.splits sum.splits stop.splits atomic_error.splits)

lemma touches_ignoring [touch]: "touches X m \<Longrightarrow> touches X (ignoring ok m)"
  by (rule touches_wrapped) (simp_all add: snd_ignoring)

lemma snd_try_chown:
  "snd (try_chown k p owner s) = snd (update_file (lit ''fchown'') k p (\<lambda>f. f\<lparr>f_uid := fst owner, f_gid := snd owner\<rparr>) s)"
  by (auto simp: try_chown_def split: prod.splits sum.splits stop.splits atomic_error.splits errno.splits hard.splits)

lemma touches_try_chown [touch]: "k \<in> X \<Longrightarrow> touches X (try_chown k p owner)"
  by (rule touches_wrapped [OF touches_update snd_try_chown])

lemma touches_copy_xattr_list [touch]: "k \<in> X \<Longrightarrow> touches X (copy_xattr_list xs k p)"
  by (induction xs k p rule: copy_xattr_list.induct) (auto intro!: touch)

lemma touches_copy_xattrs [touch]: "k \<in> X \<Longrightarrow> touches X (copy_xattrs f k p)"
  unfolding copy_xattrs_def by (intro touch)

lemma touches_guarded [touch]:
  assumes "touches X m" and "k \<in> X"
  shows "touches X (guarded k m)"
proof (rule touches_local)
  fix s k' assume "k' \<notin> X"
  then have m: "node_at (snd (m s)) k' = node_at s k'" and u: "node_at (snd (sys_unlink k k t)) k' = node_at t k'" for t
    using assms touches_unlink [OF assms(2)] by (auto simp: touches_def)
  obtain r t where rt: "m s = (r, t)" by force
  obtain r' t' where u': "sys_unlink k k t = (r', t')" by force
  show "node_at (snd (guarded k m s)) k' = node_at s k'" using m u [of t] rt u'
    by (auto simp: guarded_def split: sum.splits stop.splits)
qed

lemma touches_fill_temp: "touches {temp, target} (fill_temp temp target p contents mode owner source)"
  unfolding fill_temp_def by (intro touch) auto

lemma touches_read_existing [touch]: "touches X (read_existing dir name p)"
  unfolding read_existing_def by (intro touch)

lemma touches_read_with_digest [touch]: "touches X (read_with_digest E p)"
  unfolding read_with_digest_def by (intro touch)

lemma butlast_at [simp]: "butlast (at dir name) = dir"
  by (simp add: at_def)

lemma at_inject [simp]: "at d n = at d' n' \<longleftrightarrow> d = d' \<and> n = n'"
  by (simp add: at_def)

lemma split_path_at: "split_path p = Inr (dir, name) \<Longrightarrow> p = at dir name"
  by (auto simp: split_path_def at_def split: if_splits component.splits)
    (metis append_butlast_last_id)

lemma touches_lift:
  "(\<And>dir name. split_path p = Inr (dir, name) \<Longrightarrow> touches X (f dir name)) \<Longrightarrow>
   touches X (andthen (lift (split_path p)) (\<lambda>(dir, name). f dir name))"
  by (auto simp: touches_def andthen_def lift_def ret_def stop_with_def split: sum.splits)

lemma touches_marker [touch]: "touches {marker} (write_marker E marker record)" "touches {marker} (remove_marker marker)"
proof -
  show "touches {marker} (write_marker E marker record)"
    unfolding write_marker_def by (intro touches_lift touch) (auto dest: split_path_at)
  show "touches {marker} (remove_marker marker)"
    unfolding remove_marker_def by (intro touches_lift touch) (auto dest: split_path_at)
qed

section \<open>Triples for the calls\<close>

text \<open>In the rules below the assertion \<open>B\<close> holds wherever the computation stops.\<close>

lemma triple_call:
  assumes "quiet P" and "\<And>s. P s \<Longrightarrow> B s"
  shows "triple P (syscall op p) (\<lambda>_. P) (\<lambda>_. B)"
  by (rule triple_syscall) (use assms in auto)

lemma triple_fsync: "quiet P \<Longrightarrow> (\<And>s. P s \<Longrightarrow> B s) \<Longrightarrow> triple P (fsync p) (\<lambda>_. P) (\<lambda>_. B)"
  unfolding fsync_def by (rule triple_call)

lemma triple_update_file:
  assumes "quiet P" and "\<And>s. P s \<Longrightarrow> B s"
    and "\<And>s g. P s \<Longrightarrow> node_at s k = Some (Reg g) \<Longrightarrow> Q (put_node k (Reg (f g)) s)"
  shows "triple P (update_file op k p f) (\<lambda>_. Q) (\<lambda>_. B)"
  unfolding update_file_def
  by (rule triple_andthen [OF triple_call]) (use assms in \<open>auto simp: triple_def split: option.splits node.splits\<close>)

lemma triple_write_file:
  assumes "quiet P" and "\<And>s. P s \<Longrightarrow> B s"
    and "\<And>s g n. P s \<Longrightarrow> node_at s k = Some (Reg g) \<Longrightarrow> B (put_node k (Reg (g\<lparr>f_contents := f_contents g @ take n b\<rparr>)) s)"
    and "\<And>s g. P s \<Longrightarrow> node_at s k = Some (Reg g) \<Longrightarrow> Q (put_node k (Reg (g\<lparr>f_contents := f_contents g @ b\<rparr>)) s)"
  shows "triple P (write_file k p b) (\<lambda>_. Q) (\<lambda>_. B)"
  unfolding triple_def
proof (intro allI impI)
  fix s assume "P s"
  obtain r es where r: "syscall_cut (lit ''write'') p s = (r, s\<lparr>os_script := es\<rparr>)" using syscall_cut_cases by blast
  have p: "P (s\<lparr>os_script := es\<rparr>)" using assms(1) \<open>P s\<close> by (rule quietD)
  show "case write_file k p b s of (Inr x, s') \<Rightarrow> Q s' | (Inl e, s') \<Rightarrow> B s'"
    using assms(2) [OF \<open>P s\<close>] assms(3) [OF p] assms(4) [OF p]
    by (auto simp: write_file_def r split: option.splits node.splits)
qed

lemma triple_rename:
  assumes "quiet P" and "\<And>s. P s \<Longrightarrow> B s"
    and "\<And>s n. P s \<Longrightarrow> node_at s src = Some n \<Longrightarrow> Q (put_node dst n (del_node src s))"
  shows "triple P (sys_rename src dst p) (\<lambda>_. Q) (\<lambda>_. B)"
  unfolding sys_rename_def
  by (rule triple_andthen [OF triple_call]) (use assms in \<open>auto simp: triple_def split: option.splits\<close>)

lemma triple_ignoring:
  assumes "triple P m (\<lambda>_. P) (\<lambda>_. P)" and "\<And>s. P s \<Longrightarrow> B s"
  shows "triple P (ignoring ok m) (\<lambda>_. P) (\<lambda>_. B)"
  using assms unfolding triple_def ignoring_def
  by (auto split: prod.splits sum.splits stop.splits atomic_error.splits)

lemma triple_try_chown:
  assumes "triple P (update_file (lit ''fchown'') k p (\<lambda>f. f\<lparr>f_uid := fst owner, f_gid := snd owner\<rparr>)) (\<lambda>_. P) (\<lambda>_. P)"
    and "\<And>s. P s \<Longrightarrow> B s"
  shows "triple P (try_chown k p owner) (\<lambda>_. P) (\<lambda>_. B)"
  using assms unfolding triple_def try_chown_def
  by (auto split: prod.splits sum.splits stop.splits atomic_error.splits errno.splits hard.splits)

text \<open>A fresh temporary file is empty until the contents are written, and the target is as it was.\<close>

definition temp_ready :: "key \<Rightarrow> key \<Rightarrow> node option \<Rightarrow> osys \<Rightarrow> bool" where
  "temp_ready temp target n s \<longleftrightarrow>
     (\<exists>g. node_at s temp = Some (Reg g) \<and> f_contents g = []) \<and> node_at s target = n"

lemma quiet_temp_ready [simp]: "quiet (temp_ready temp target n)"
  by (simp add: quiet_def temp_ready_def)

lemma temp_readyD: "temp_ready temp target n s \<Longrightarrow> node_at s target = n"
  by (simp add: temp_ready_def)

lemma temp_ready_update:
  assumes "temp \<noteq> target" and "\<And>g. f_contents (f g) = f_contents g"
  shows "triple (temp_ready temp target n) (update_file op temp p f) (\<lambda>_. temp_ready temp target n) (\<lambda>_. temp_ready temp target n)"
  by (rule triple_update_file) (use assms in \<open>auto simp: temp_ready_def\<close>)

lemma triple_keep_ret: "(\<And>s. P s \<Longrightarrow> Q s) \<Longrightarrow> triple P (ret x) (\<lambda>_. Q) R"
  by (rule triple_ret)

lemma temp_ready_xattr_list:
  assumes "temp \<noteq> target"
  shows "triple (temp_ready temp target n) (copy_xattr_list xs temp p) (\<lambda>_. temp_ready temp target n) (\<lambda>_ s. node_at s target = n)"
  using assms
proof (induction xs temp p rule: copy_xattr_list.induct)
  case (1 k p)
  then show ?case by (auto intro: triple_ret)
next
  case (2 name "value" xs k p)
  show ?case unfolding copy_xattr_list.simps
    by (intro triple_andthen [OF triple_ignoring] triple_andthen [OF triple_if [OF triple_ignoring triple_keep_ret]]
        triple_call temp_ready_update 2) (auto simp: 2 dest: temp_readyD)
qed

lemma temp_ready_xattrs:
  assumes "temp \<noteq> target"
  shows "triple (temp_ready temp target n) (copy_xattrs f temp p) (\<lambda>_. temp_ready temp target n) (\<lambda>_ s. node_at s target = n)"
  unfolding copy_xattrs_def
  by (intro triple_andthen [OF triple_ignoring] triple_call triple_if temp_ready_xattr_list triple_ret assms)
    (auto dest: temp_readyD)

lemma fill_temp_triple:
  assumes "temp \<noteq> target"
  shows "triple (temp_ready temp target n) (fill_temp temp target p contents mode owner source)
    (\<lambda>_ s. contents_at s target = Some contents) (\<lambda>_ s. node_at s target = n)"
proof -
  let ?P = "temp_ready temp target n" and ?B = "\<lambda>s. node_at s target = n"
  let ?W = "\<lambda>s. contents_at s temp = Some contents \<and> node_at s target = n"
  have B: "?B s" if "?P s" for s using that by (simp add: temp_ready_def)
  have qW: "quiet ?W" by (simp add: quiet_def contents_at_def)
  have chmod: "triple ?P (update_file (lit ''fchmod'') temp p (\<lambda>f. f\<lparr>f_mode := mode\<rparr>)) (\<lambda>_. ?P) (\<lambda>_. ?B)"
    by (rule triple_conseq [OF temp_ready_update]) (use assms B in auto)
  have ch: "triple ?P (try_chown temp p ids) (\<lambda>_. ?P) (\<lambda>_. ?B)" for ids
    by (rule triple_try_chown [OF temp_ready_update]) (use assms B in auto)
  have own: "triple ?P (case owner of None \<Rightarrow> ret True | Some ids \<Rightarrow>
        andthen (syscall (lit ''fstat'') p) (\<lambda>_. andthen (reads (file_at temp)) (\<lambda>t.
          if chown_changes (f_uid t, f_gid t) ids mode then try_chown temp p ids else ret True))) (\<lambda>_. ?P) (\<lambda>_. ?B)"
    by (intro triple_case_option triple_keep_ret triple_andthen [OF triple_call] triple_andthen [OF triple_reads]
        triple_if ch) (use B ch in auto)
  have xs: "triple ?P (case source of None \<Rightarrow> ret () | Some f \<Rightarrow> copy_xattrs f temp p) (\<lambda>_. ?P) (\<lambda>_. ?B)"
    by (intro triple_case_option triple_keep_ret temp_ready_xattrs assms)
  have wr: "triple ?P (write_file temp p contents) (\<lambda>_. ?W) (\<lambda>_. ?B)"
    by (rule triple_write_file) (use assms in \<open>auto simp: temp_ready_def contents_at_def\<close>)
  have sync: "triple ?W (fsync p) (\<lambda>_. ?W) (\<lambda>_. ?B)" by (rule triple_fsync [OF qW]) simp
  have ren: "triple ?W (sys_rename temp target p) (\<lambda>_ s. contents_at s target = Some contents) (\<lambda>_. ?B)"
    by (rule triple_rename [OF qW]) (use assms in \<open>auto simp: contents_at_def split: option.splits node.splits\<close>)
  show ?thesis unfolding fill_temp_def
    by (intro triple_andthen [OF chmod] triple_andthen [OF own] triple_andthen [OF xs] triple_andthen [OF wr]
        triple_andthen [OF sync] triple_andthen [OF ren] triple_keep_ret)
qed

section \<open>Where an error comes from\<close>

lemma lit_eq_iff: "lit a = lit b \<longleftrightarrow> a = b"
  by (auto simp: lit_def inj_map_eq_map inj_def)

text \<open>The code tells a refused temporary file from later failures by the name of the failed call.\<close>

definition never :: "rstr \<Rightarrow> 'a sys \<Rightarrow> bool" where
  "never op m \<longleftrightarrow> (\<forall>s q e. fst (m s) \<noteq> Inl (Failed (AeIo op q e)))"

named_theorems nevers

lemma neverD: "never op m \<Longrightarrow> m s \<noteq> (Inl (Failed (AeIo op q e)), s')"
  by (metis fst_conv never_def)

lemma never_plain [nevers]: "never op (ret x)" "never op (reads f)"
  by (simp_all add: never_def ret_def reads_def)

lemma never_andthen [nevers]: "never op m \<Longrightarrow> (\<And>x. never op (f x)) \<Longrightarrow> never op (andthen m f)"
  unfolding never_def andthen_def by (auto split: prod.splits sum.splits) (metis fst_conv)+

lemma never_if [nevers]: "never op m \<Longrightarrow> never op n \<Longrightarrow> never op (if b then m else n)"
  by simp

lemma never_option [nevers]: "never op m \<Longrightarrow> (\<And>x. never op (n x)) \<Longrightarrow> never op (case v of None \<Rightarrow> m | Some x \<Rightarrow> n x)"
  by (cases v) auto

lemma never_syscall [nevers]: "op \<noteq> op' \<Longrightarrow> never op (syscall op' p)"
proof (unfold never_def, intro allI)
  fix s q e assume "op \<noteq> op'"
  obtain r es where "syscall_cut op' p s = (r, s\<lparr>os_script := es\<rparr>)"
    "\<forall>n e. r = Some (n, e) \<longrightarrow> e = Killed \<or> (\<exists>h. e = Failed (AeIo op' p (Hard h)))"
    using syscall_cut_cases by blast
  with \<open>op \<noteq> op'\<close> show "fst (syscall op' p s) \<noteq> Inl (Failed (AeIo op q e))"
    by (cases r) (auto simp: syscall_def)
qed

lemma never_fsync [nevers]: "op \<noteq> lit ''fsync'' \<Longrightarrow> never op (fsync p)"
  unfolding fsync_def by (rule never_syscall)

lemma never_update [nevers]: "op \<noteq> op' \<Longrightarrow> never op (update_file op' k p f)"
  unfolding update_file_def
  by (intro never_andthen never_syscall) (auto simp: never_def split: option.splits node.splits)

lemma never_write [nevers]: "op \<noteq> lit ''write'' \<Longrightarrow> never op (write_file k p b)"
proof (unfold never_def, intro allI)
  fix s q e assume "op \<noteq> lit ''write''"
  obtain r es where "syscall_cut (lit ''write'') p s = (r, s\<lparr>os_script := es\<rparr>)"
    "\<forall>n e. r = Some (n, e) \<longrightarrow> e = Killed \<or> (\<exists>h. e = Failed (AeIo (lit ''write'') p (Hard h)))"
    using syscall_cut_cases by blast
  with \<open>op \<noteq> lit ''write''\<close> show "fst (write_file k p b s) \<noteq> Inl (Failed (AeIo op q e))"
    by (auto simp: write_file_def split: option.splits node.splits)
qed

lemma never_rename [nevers]: "op \<noteq> lit ''renameat'' \<Longrightarrow> never op (sys_rename src dst p)"
  unfolding sys_rename_def by (intro never_andthen never_syscall) (auto simp: never_def split: option.splits)

lemma never_ignoring [nevers]: "never op m \<Longrightarrow> never op (ignoring ok m)"
  unfolding never_def ignoring_def
  by (auto split: prod.splits sum.splits stop.splits atomic_error.splits) (metis fst_conv)

lemma never_try_chown [nevers]: "op \<noteq> lit ''fchown'' \<Longrightarrow> never op (try_chown k p owner)"
  using never_update [of op "lit ''fchown''" k p "\<lambda>f. f\<lparr>f_uid := fst owner, f_gid := snd owner\<rparr>"]
  unfolding never_def try_chown_def
  by (auto split: prod.splits sum.splits stop.splits atomic_error.splits errno.splits hard.splits) (metis fst_conv)+

lemma never_guarded [nevers]: "never op m \<Longrightarrow> never op (guarded k m)"
  unfolding never_def guarded_def
  by (auto split: prod.splits sum.splits stop.splits) (metis fst_conv)+

lemma never_copy_xattr_list [nevers]:
  "op \<noteq> lit ''fgetxattr'' \<Longrightarrow> op \<noteq> lit ''fsetxattr'' \<Longrightarrow> never op (copy_xattr_list xs k p)"
  by (induction xs k p rule: copy_xattr_list.induct) (auto intro!: nevers)

lemma fill_temp_never_openat: "never (lit ''openat'') (fill_temp temp target p contents mode owner source)"
  unfolding fill_temp_def copy_xattrs_def by (intro nevers) (simp_all add: lit_eq_iff)

section \<open>Replacing by rename\<close>

lemma syscall_nodes: "syscall op p s = (r, s') \<Longrightarrow> node_at s' = node_at s"
  using touchesD [OF touches_syscall [of "{}"]] by fastforce

lemma create_exclusive_spec:
  assumes "create_exclusive dir p mode names s = (r, s')"
  shows "(\<forall>e. r = Inl e \<longrightarrow> node_at s' = node_at s)
    \<and> (\<forall>n. r = Inr n \<longrightarrow> n \<in> set names \<and> node_at s (at dir n) = None
        \<and> (\<exists>f. node_at s' (at dir n) = Some (Reg f) \<and> f_contents f = [])
        \<and> (\<forall>k. k \<noteq> at dir n \<longrightarrow> node_at s' k = node_at s k))"
  using assms
proof (induction dir p mode names s rule: create_exclusive.induct)
  case (2 dir p mode name names s)
  obtain r1 s1 where c: "sys_create (at dir name) p mode s = (r1, s1)" by force
  obtain r0 s0 where sc: "syscall (lit ''openat'') p s = (r0, s0)" by force
  have n0: "node_at s0 = node_at s" using syscall_nodes [OF sc] .
  have created: "(\<forall>e. r1 = Inl e \<longrightarrow> node_at s1 = node_at s)
    \<and> (r1 = Inr () \<longrightarrow> node_at s (at dir name) = None
        \<and> (\<exists>f. node_at s1 (at dir name) = Some (Reg f) \<and> f_contents f = [])
        \<and> (\<forall>k. k \<noteq> at dir name \<longrightarrow> node_at s1 k = node_at s k))"
    using c n0 by (auto simp: sys_create_def andthen_def sc split: sum.splits if_splits)
  have "(\<exists>op q. r1 = Inl (Failed (AeIo op q EEXIST))) \<or> r1 = Inr () \<or> (\<exists>e. r1 = Inl e \<and> (\<forall>op q. e \<noteq> Failed (AeIo op q EEXIST)))"
    by (cases r1) auto
  then show ?case
  proof (elim disjE exE conjE)
    fix op q assume r1: "r1 = Inl (Failed (AeIo op q EEXIST))"
    with "2.prems" c have rest: "create_exclusive dir p mode names s1 = (r, s')" by simp
    from "2.IH" [OF c [symmetric] r1 refl refl refl rest] created r1 show ?thesis by auto
  next
    assume "r1 = Inr ()"
    with "2.prems" c created show ?thesis by auto
  next
    fix e assume e: "r1 = Inl e" "\<forall>op q. e \<noteq> Failed (AeIo op q EEXIST)"
    with "2.prems" c have "r = Inl e \<and> s' = s1"
      by (auto split: stop.splits atomic_error.splits errno.splits)
    with created e show ?thesis by auto
  qed
qed auto

lemma replace_contents_spec:
  assumes "replace_contents dir name p contents mode owner source s = (r, s')"
    and "node_at s (at dir name) = Some n"
  shows "(\<forall>x. r = Inr x \<longrightarrow> contents_at s' (at dir name) = Some contents)
    \<and> (node_at s' (at dir name) = Some n \<or> contents_at s' (at dir name) = Some contents)
    \<and> (\<forall>q e. r = Inl (Failed (AeIo (lit ''openat'') q e)) \<longrightarrow> node_at s' = node_at s)
    \<and> (\<forall>k. k \<noteq> at dir name \<and> node_at s k \<noteq> None \<longrightarrow> node_at s' k = node_at s k)"
proof -
  let ?T = "at dir name"
  obtain names s1 where t: "temp_names s = (Inr names, s1)" by (simp add: temp_names_def)
  have n1: "node_at s1 = node_at s" using t by (auto simp: temp_names_def node_at_def)
  obtain r2 s2 where c: "create_exclusive dir p mode names s1 = (r2, s2)" by force
  note cs = create_exclusive_spec [OF c]
  show ?thesis
  proof (cases r2)
    case (Inl e)
    then have "r = Inl e" "s' = s2" using assms(1) by (auto simp: replace_contents_def andthen_def t c)
    with cs Inl n1 assms(2) show ?thesis by auto
  next
    case (Inr temp)
    let ?t = "at dir temp"
    have ne: "?t \<noteq> ?T" using cs Inr n1 assms(2) by auto
    have ready: "temp_ready ?t ?T (Some n) s2" using cs Inr n1 assms(2) ne by (auto simp: temp_ready_def)
    let ?fill = "fill_temp ?t ?T p contents mode owner source"
    obtain r3 s3 where f: "?fill s2 = (r3, s3)" by force
    obtain r4 s4 where g: "guarded ?t ?fill s2 = (r4, s4)" by force
    have keep: "node_at s4 k = node_at s k" if "k \<noteq> ?T" "node_at s k \<noteq> None" for k
    proof -
      have "k \<noteq> ?t" using that cs Inr n1 by auto
      then show ?thesis using touchesD [OF touches_guarded [OF touches_fill_temp] g, of k] that cs Inr n1 by auto
    qed
    have T4: "(\<forall>x. r4 = Inr x \<longrightarrow> contents_at s4 ?T = Some contents)
      \<and> (\<forall>e. r4 = Inl e \<longrightarrow> node_at s4 ?T = Some n)"
    proof (cases r3)
      case (Inl e)
      have T3: "node_at s3 ?T = Some n" using tripleD(2) [OF fill_temp_triple [OF ne] ready f [unfolded Inl]] .
      have "node_at (snd (sys_unlink ?t ?t s3)) ?T = Some n"
        using touchesD [OF touches_unlink [of ?t "{?t}"], of ?t s3] ne T3 by (metis prod.collapse singletonD insertI1)
      then show ?thesis using g f Inl T3
        by (auto simp: guarded_def split: stop.splits prod.splits sum.splits)
    next
      case (Inr x)
      then have "contents_at s3 ?T = Some contents" using tripleD(1) [OF fill_temp_triple [OF ne] ready f [unfolded Inr]] by simp
      then show ?thesis using g f Inr by (auto simp: guarded_def)
    qed
    have noopen: "r4 \<noteq> Inl (Failed (AeIo (lit ''openat'') q e))" for q e
      using neverD [OF never_guarded [OF fill_temp_never_openat]] g by blast
    show ?thesis
    proof (cases r4)
      case (Inl e)
      then have "r = Inl e" "s' = s4" using assms(1) by (auto simp: replace_contents_def andthen_def t c \<open>r2 = Inr temp\<close> g)
      with T4 keep noopen Inl show ?thesis by auto
    next
      case (Inr x)
      obtain r5 s5 where y: "fsync p s4 = (r5, s5)" by force
      have n5: "node_at s5 = node_at s4" using y syscall_nodes by (auto simp: fsync_def)
      have "never (lit ''openat'') (fsync p)" by (rule never_fsync) (simp add: lit_eq_iff)
      from neverD [OF this] y have "\<And>q e. r5 \<noteq> Inl (Failed (AeIo (lit ''openat'') q e))" by blast
      moreover have "s' = s5" "r = (case r5 of Inl e \<Rightarrow> Inl e | Inr _ \<Rightarrow> Inr x)"
        using assms(1) by (auto simp: replace_contents_def andthen_def t c \<open>r2 = Inr temp\<close> g Inr y ret_def split: sum.splits)
      ultimately show ?thesis using T4 keep Inr n5 by (auto simp: contents_at_def split: sum.splits)
    qed
  qed
qed

section \<open>Writing in place\<close>

lemma open_dir_nodes: "open_dir d s = (r, s') \<Longrightarrow> node_at s' = node_at s"
  using touchesD [OF touches_open_dir [of "{}"]] by fastforce

lemma triple_create_empty:
  assumes "quiet P" and "\<And>s. P s \<Longrightarrow> B s"
    and "\<And>s g. P s \<Longrightarrow> f_contents g = [] \<Longrightarrow> node_at s k = None \<Longrightarrow>
      Q (put_node k (Reg g) (s\<lparr>os_next_ino := Suc (os_next_ino s)\<rparr>))"
  shows "triple P (sys_create k p mode) (\<lambda>_. Q) (\<lambda>_. B)"
  unfolding sys_create_def
  by (rule triple_andthen [OF triple_call]) (use assms in \<open>auto simp: triple_def\<close>)

lemma write_marker_spec:
  assumes "write_marker E marker rec s = (Inr (), s')"
  shows "contents_at s' marker = Some (fe_marker_json E rec)"
proof -
  let ?T = "\<lambda>_. True" and ?e = "\<lambda>k s. \<exists>g. node_at s k = Some (Reg g) \<and> f_contents g = []"
  let ?j = "\<lambda>s. contents_at s marker = Some (fe_marker_json E rec)"
  have q: "quiet ?T" "quiet ?j" by (simp_all add: quiet_def contents_at_def)
  have "triple ?T (write_marker E marker rec) (\<lambda>_. ?j) (\<lambda>_. ?T)"
  proof (cases "split_path marker")
    case (Inl e)
    then show ?thesis by (simp add: write_marker_def triple_def stop_with_def)
  next
    case (Inr dn)
    obtain dir name where dn: "dn = (dir, name)" by force
    have m: "marker = at dir name" using Inr dn split_path_at by simp
    have "triple ?T (open_dir dir) (\<lambda>_. ?T) (\<lambda>_. ?T)" by (auto simp: triple_def split: prod.splits sum.splits)
    moreover have "triple ?T (sys_create marker marker BACKUP_FILE_MODE) (\<lambda>_. ?e marker) (\<lambda>_. ?T)"
      by (rule triple_create_empty) (simp_all add: q)
    moreover have "triple (?e marker) (write_file marker marker (fe_marker_json E rec)) (\<lambda>_. ?j) (\<lambda>_. ?T)"
      by (rule triple_write_file) (auto simp: quiet_def contents_at_def)
    moreover have "triple ?j (fsync k) (\<lambda>_. ?j) (\<lambda>_. ?T)" for k by (rule triple_fsync [OF q(2)]) simp
    ultimately have "triple ?T (andthen (open_dir dir) (\<lambda>_. andthen (sys_create marker marker BACKUP_FILE_MODE) (\<lambda>_.
        andthen (write_file marker marker (fe_marker_json E rec)) (\<lambda>_. andthen (fsync marker) (\<lambda>_. fsync dir))))) (\<lambda>_. ?j) (\<lambda>_. ?T)"
      by (blast intro: triple_andthen)
    moreover have "split_path (at dir name) = Inr (dir, name)" using Inr dn m by simp
    ultimately show ?thesis unfolding write_marker_def m by simp
  qed
  from tripleD(1) [OF this _ assms] show ?thesis by simp
qed

lemma write_in_place_spec:
  assumes "write_in_place dir name p found contents s = (r, s')"
    and "node_at s (at dir name) = Some (Reg found)"
  shows "(\<forall>x. r = Inr x \<longrightarrow> contents_at s' (at dir name) = Some contents)
    \<and> (\<forall>q e. r = Inl (Failed (AeIo (lit ''openat'') q e)) \<longrightarrow> node_at s' = node_at s)
    \<and> (\<forall>k. k \<noteq> at dir name \<longrightarrow> node_at s' k = node_at s k)"
proof -
  let ?T = "at dir name"
  let ?rest = "\<lambda>_. andthen (syscall (lit ''fstat'') p) (\<lambda>_. andthen (syscall (lit ''fstat'') p) (\<lambda>_.
     andthen (reads (file_at ?T)) (\<lambda>now. if f_ino now \<noteq> f_ino found then stop_with (AeNotRegularFile p)
       else andthen (write_file ?T p contents) (\<lambda>_. fsync p))))"
  let ?e = "\<lambda>s. \<exists>g. node_at s ?T = Some (Reg g) \<and> f_contents g = []" and ?c = "\<lambda>s. contents_at s ?T = Some contents"
  have q: "quiet ?e" "quiet ?c" by (simp_all add: quiet_def contents_at_def)
  have "never (lit ''openat'') (stop_with (AeNotRegularFile p))" by (simp add: never_def stop_with_def)
  then have nv: "never (lit ''openat'') (?rest ())" by (intro nevers) (simp_all add: lit_eq_iff)
  have tr: "triple ?e (?rest ()) (\<lambda>_. ?c) (\<lambda>_ _. True)"
    by (intro triple_andthen [OF triple_call [OF q(1)]] triple_andthen [OF triple_reads [where Q = "\<lambda>_. ?e"]] triple_if
        triple_stop_with triple_andthen [OF triple_write_file [where Q = ?c]] triple_fsync q) (auto simp: contents_at_def)
  have tc: "touches {?T} (write_in_place dir name p found contents)"
    unfolding write_in_place_def by (intro touch) auto
  obtain r1 s1 where o: "update_file (lit ''openat'') ?T p (\<lambda>f. f\<lparr>f_contents := []\<rparr>) s = (r1, s1)" by force
  obtain r0 s0 where sc: "syscall (lit ''openat'') p s = (r0, s0)" by force
  have n0: "node_at s0 = node_at s" using syscall_nodes [OF sc] .
  have opened: "(\<forall>e. r1 = Inl e \<longrightarrow> node_at s1 = node_at s) \<and> (r1 = Inr () \<longrightarrow> ?e s1)"
    using o n0 assms(2) by (auto simp: update_file_def andthen_def sc split: sum.splits)
  have "(\<forall>x. r = Inr x \<longrightarrow> ?c s') \<and> (\<forall>q e. r = Inl (Failed (AeIo (lit ''openat'') q e)) \<longrightarrow> node_at s' = node_at s)"
  proof (cases r1)
    case (Inl e)
    then have "r = Inl e" "s' = s1" using assms(1) by (simp_all add: write_in_place_def andthen_def [of "update_file _ _ _ _"] o)
    with Inl opened show ?thesis by auto
  next
    case (Inr u)
    then have "?rest () s1 = (r, s')" using assms(1) by (simp add: write_in_place_def andthen_def [of "update_file _ _ _ _"] o)
    moreover have "?e s1" using opened Inr by auto
    ultimately show ?thesis using tripleD(1) [OF tr, of s1 _ s'] neverD [OF nv, of s1 _ _ s'] by auto
  qed
  with touchesD [OF tc assms(1)] show ?thesis by auto
qed

section \<open>Backups\<close>

lemma write_backup_spec:
  assumes "write_backup E dir contents d now s = (r, s')"
  shows "(\<forall>k. node_at s k \<noteq> None \<longrightarrow> node_at s' k = node_at s k)
    \<and> (\<forall>p. r = Inr p \<longrightarrow> (\<exists>n. p = at dir n \<and> node_at s p = None \<and> contents_at s' p = Some contents))"
proof -
  obtain r1 s1 where e: "ensure_backup_dir dir s = (r1, s1)" by force
  have "touches {} (ensure_backup_dir dir)" unfolding ensure_backup_dir_def by (intro touch)
  then have n1: "node_at s1 = node_at s" using touchesD e by fastforce
  obtain r2 s2 where o: "open_dir dir s1 = (r2, s2)" by force
  have n2: "node_at s2 = node_at s" using open_dir_nodes [OF o] n1 by simp
  show ?thesis
  proof (cases "\<exists>t. r1 = Inr () \<and> fe_stamp E now = Some t \<and> r2 = Inr ()")
    case False
    then have "node_at s' = node_at s \<and> (\<forall>p. r \<noteq> Inr p)" using assms n1 n2
      by (cases "fe_stamp E now") (auto simp: write_backup_def andthen_def lift_def ret_def stop_with_def e o split: sum.splits)
    then show ?thesis by simp
  next
    case True
    then obtain t where t: "r1 = Inr ()" "fe_stamp E now = Some t" "r2 = Inr ()" by auto
    obtain r3 s3 where c: "create_exclusive dir dir BACKUP_FILE_MODE (map (backup_name E now t d) [0 ..< NAME_ATTEMPTS]) s2 = (r3, s3)"
      by force
    note cs = create_exclusive_spec [OF c]
    show ?thesis
    proof (cases r3)
      case (Inl err)
      then have "r = Inl err \<and> s' = s3" using assms t
        by (auto simp: write_backup_def andthen_def lift_def ret_def e o c)
      with cs Inl n2 show ?thesis by auto
    next
      case (Inr name)
      let ?b = "at dir name"
      let ?e = "\<lambda>s. \<exists>g. node_at s ?b = Some (Reg g) \<and> f_contents g = []" and ?c = "\<lambda>s. contents_at s ?b = Some contents"
      let ?m = "andthen (update_file (lit ''fchmod'') ?b ?b (\<lambda>f. f\<lparr>f_mode := BACKUP_FILE_MODE\<rparr>)) (\<lambda>_.
        andthen (write_file ?b ?b contents) (\<lambda>_. fsync ?b))"
      have q: "quiet ?e" "quiet ?c" by (simp_all add: quiet_def contents_at_def)
      have tr: "triple ?e ?m (\<lambda>_. ?c) (\<lambda>_ _. True)"
        by (intro triple_andthen [OF triple_update_file [where Q = ?e]] triple_andthen [OF triple_write_file [where Q = ?c]]
            triple_fsync q) (auto simp: contents_at_def)
      have tm: "touches {?b} (guarded ?b ?m)" by (intro touch) auto
      obtain r4 s4 where g: "guarded ?b ?m s2'' = (r4, s4)" if "s2'' = s3" for s2'' by force
      note g = g [OF refl]
      have fresh: "node_at s ?b = None" using cs Inr n2 by auto
      have k4: "node_at s4 k = node_at s k" if "k \<noteq> ?b" for k
        using touchesD [OF tm g, of k] cs Inr n2 that by auto
      have c4: "?c s4" if "r4 = Inr ()"
      proof -
        have "?m s3 = (Inr (), s4)" using g that by (auto simp: guarded_def split: prod.splits sum.splits stop.splits)
        from tripleD(1) [OF tr _ this] cs Inr show ?thesis by auto
      qed
      obtain r5 s5 where f: "fsync dir s4 = (r5, s5)" by force
      have n5: "node_at s5 = node_at s4" using f syscall_nodes by (auto simp: fsync_def)
      have "(s' = s4 \<or> s' = s5) \<and> (\<forall>p. r = Inr p \<longrightarrow> p = ?b \<and> r4 = Inr () \<and> s' = s5)"
        using assms t Inr g f
        by (cases r4; cases r5) (auto simp: write_backup_def andthen_def [of "ensure_backup_dir _"] andthen_def [of "lift _"]
            andthen_def [of "open_dir _"] andthen_def [of "create_exclusive _ _ _ _"] andthen_def [of "guarded _ _"]
            andthen_def [of "fsync _"] lift_def ret_def e o c)
      moreover have "node_at s4 k = node_at s k" if "node_at s k \<noteq> None" for k using k4 fresh that by metis
      moreover have "?c s5" if "r4 = Inr ()" using c4 [OF that] n5 by (simp add: contents_at_def)
      ultimately show ?thesis using n5 fresh by auto
    qed
  qed
qed

lemma touches_unlink_names: "at dir ` set ns \<subseteq> X \<Longrightarrow> touches X (unlink_names dir ns)"
  by (induction dir ns rule: unlink_names.induct) (auto intro!: touch)

lemma rotate_backups_touches: "touches {k. butlast k = dir \<and> k \<noteq> at dir n} (rotate_backups dir keep (at dir n))"
proof -
  have names: "touches X (backup_names dir)" for X
    unfolding backup_names_def by (intro touches_andthen touches_syscall touches_local) auto
  have "touches {k. butlast k = dir \<and> k \<noteq> at dir n}
      (unlink_names dir (drop m (rev (sort (filter (\<lambda>w. at dir n = [] \<or> last (at dir n) \<noteq> Normal w) ws)))))" for m ws
    by (rule touches_unlink_names) (auto simp: at_def dest!: in_set_dropD)
  then show ?thesis unfolding rotate_backups_def Let_def by (intro touch names)
qed

section \<open>The whole write\<close>

text \<open>The marker on disk records the write of \<open>req\<close> over \<open>f\<close>, and the backup it names holds the old contents.\<close>

definition covered :: "fsenv \<Rightarrow> write_request \<Rightarrow> regular \<Rightarrow> osys \<Rightarrow> bool" where
  "covered E req f s \<longleftrightarrow>
     (\<exists>marker b. rq_in_place req = IpMarker marker
        \<and> contents_at s marker = Some (fe_marker_json E \<lparr>im_path = rq_path req, im_backup = Some b,
            im_prev = fe_sha E (f_contents f), im_new = fe_sha E (rq_contents req)\<rparr>)
        \<and> contents_at s b = Some (f_contents f) \<and> butlast b = rq_backup_dir req)"

definition safe :: "fsenv \<Rightarrow> write_request \<Rightarrow> regular \<Rightarrow> osys \<Rightarrow> bool" where
  "safe E req f s \<longleftrightarrow>
     node_at s (rq_path req) = Some (Reg f) \<or> contents_at s (rq_path req) = Some (rq_contents req) \<or> covered E req f s"

lemma temp_refusedD: "temp_refused e \<Longrightarrow> \<exists>q err. e = AeIo (lit ''openat'') q err"
  by (auto simp: temp_refused_def split: atomic_error.splits)

lemma marked_write_spec:
  assumes run: "andthen (write_marker E marker rec) (\<lambda>_ s1.
        case write_in_place dir name p f contents s1 of
          (Inr _, s2) \<Rightarrow> andthen (remove_marker marker) (\<lambda>_. ret True) s2
        | (Inl (Failed e), s2) \<Rightarrow>
            (case e of AeIo op _ _ \<Rightarrow> if op = lit ''openat'' then andthen (remove_marker marker) (\<lambda>_. stop_with e) s2
                                      else (Inl (Failed e), s2)
             | _ \<Rightarrow> (Inl (Failed e), s2))
        | (Inl Killed, s2) \<Rightarrow> (Inl Killed, s2)) s = (r, s')"
    and T: "node_at s (at dir name) = Some (Reg f)" and ne: "marker \<noteq> at dir name"
  shows "(\<forall>x. r = Inr x \<longrightarrow> contents_at s' (at dir name) = Some contents)
    \<and> (node_at s' (at dir name) = Some (Reg f) \<or> contents_at s' (at dir name) = Some contents
        \<or> contents_at s' marker = Some (fe_marker_json E rec))
    \<and> (\<forall>k. k \<noteq> at dir name \<and> k \<noteq> marker \<longrightarrow> node_at s' k = node_at s k)"
proof -
  let ?T = "at dir name"
  obtain r1 s1 where m: "write_marker E marker rec s = (r1, s1)" by force
  have k1: "node_at s1 k = node_at s k" if "k \<noteq> marker" for k using touchesD [OF touches_marker(1) m] that by simp
  show ?thesis
  proof (cases r1)
    case (Inl e)
    then have "r = Inl e \<and> s' = s1" using run by (simp add: andthen_def m)
    with k1 T ne show ?thesis by auto
  next
    case (Inr u)
    have j: "contents_at s1 marker = Some (fe_marker_json E rec)" using write_marker_spec m Inr by simp
    have T1: "node_at s1 ?T = Some (Reg f)" using k1 T ne by metis
    obtain r2 s2 where w: "write_in_place dir name p f contents s1 = (r2, s2)" by force
    note ws = write_in_place_spec [OF w T1]
    obtain r3 s3 where d: "remove_marker marker s2 = (r3, s3)" by force
    have k3: "node_at s3 k = node_at s2 k" if "k \<noteq> marker" for k using touchesD [OF touches_marker(2) d] that by simp
    have j2: "contents_at s2 marker = Some (fe_marker_json E rec)" using ws j ne by (simp add: contents_at_def)
    have c3: "contents_at s3 ?T = contents_at s2 ?T" using k3 ne by (simp add: contents_at_def)
    have "(\<exists>x. r2 = Inr x) \<or> (\<exists>q e. r2 = Inl (Failed (AeIo (lit ''openat'') q e)))
       \<or> (\<exists>e. r2 = Inl e \<and> (\<forall>q err. e \<noteq> Failed (AeIo (lit ''openat'') q err)))" by (cases r2) auto
    then show ?thesis
    proof (elim disjE exE conjE)
      fix x assume "r2 = Inr x"
      then have "s' = s3" "contents_at s2 ?T = Some contents"
        using run Inr ws by (auto simp: andthen_def m w d ret_def split: sum.splits)
      then show ?thesis using k3 k1 ws c3 ne by auto
    next
      fix q e assume "r2 = Inl (Failed (AeIo (lit ''openat'') q e))"
      then have "s' = s3" "node_at s2 = node_at s1" "\<forall>x. r \<noteq> Inr x"
        using run Inr ws by (auto simp: andthen_def m w d stop_with_def split: sum.splits)
      then show ?thesis using k3 k1 T1 ne by auto
    next
      fix e assume e: "r2 = Inl e" "\<forall>q err. e \<noteq> Failed (AeIo (lit ''openat'') q err)"
      then have "s' = s2" "r = Inl e" using run Inr
        by (auto simp: andthen_def m w split: stop.splits atomic_error.splits)
      then show ?thesis using j2 ws k1 by auto
    qed
  qed
qed

lemma write_over_spec:
  assumes run: "write_over E req dir name (Some f) backup s = (r, s')"
    and path: "rq_path req = at dir name" and T: "node_at s (at dir name) = Some (Reg f)"
    and mode: "rq_in_place req \<noteq> IpGuarded"
    and marker: "\<And>marker. rq_in_place req = IpMarker marker \<Longrightarrow> marker \<noteq> rq_path req \<and> butlast marker \<noteq> rq_backup_dir req"
    and backup: "\<And>b. backup = Some b \<Longrightarrow> contents_at s b = Some (f_contents f) \<and> butlast b = rq_backup_dir req \<and> b \<noteq> rq_path req"
  shows "(\<forall>x. r = Inr x \<longrightarrow> contents_at s' (rq_path req) = Some (rq_contents req)) \<and> safe E req f s'
    \<and> (\<forall>b. backup = Some b \<longrightarrow> contents_at s' b = Some (f_contents f))
    \<and> (\<forall>k. node_at s k \<noteq> None \<and> k \<noteq> rq_path req \<and> rq_in_place req \<noteq> IpMarker k \<longrightarrow> node_at s' k = node_at s k)"
proof -
  let ?T = "at dir name"
  obtain r1 s1 where rep: "replace_contents dir name (rq_path req) (rq_contents req) (f_mode f) (Some (f_uid f, f_gid f)) (Some f) s = (r1, s1)"
    by force
  note rs = replace_contents_spec [OF rep T]
  have b1: "node_at s1 b = node_at s b" if "backup = Some b" for b
    using rs backup [OF that] path by (auto simp: contents_at_def split: option.splits)
  show ?thesis
  proof (cases "\<exists>err marker b. r1 = Inl (Failed err) \<and> temp_refused err \<and> rq_in_place req = IpMarker marker \<and> backup = Some b")
    case False
    have "r = r1 \<and> s' = s1" using run False mode
      by (auto simp: write_over_def rep split: sum.splits stop.splits if_splits in_place.splits option.splits)
    then show ?thesis using rs b1 backup path by (auto simp: safe_def contents_at_def)
  next
    case True
    then obtain err marker b where c: "r1 = Inl (Failed err)" "temp_refused err" "rq_in_place req = IpMarker marker" "backup = Some b"
      by auto
    have n1: "node_at s1 = node_at s" using temp_refusedD [OF c(2)] rs c(1) by auto
    have T1: "node_at s1 ?T = Some (Reg f)" using n1 T by simp
    have ne: "marker \<noteq> ?T" "butlast marker \<noteq> rq_backup_dir req" using marker [OF c(3)] path by auto
    from run have "andthen (write_marker E marker \<lparr>im_path = rq_path req, im_backup = Some b,
          im_prev = fe_sha E (f_contents f), im_new = fe_sha E (rq_contents req)\<rparr>) (\<lambda>_ s1.
        case write_in_place dir name (rq_path req) f (rq_contents req) s1 of
          (Inr _, s2) \<Rightarrow> andthen (remove_marker marker) (\<lambda>_. ret True) s2
        | (Inl (Failed e), s2) \<Rightarrow>
            (case e of AeIo op _ _ \<Rightarrow> if op = lit ''openat'' then andthen (remove_marker marker) (\<lambda>_. stop_with e) s2
                                      else (Inl (Failed e), s2)
             | _ \<Rightarrow> (Inl (Failed e), s2))
        | (Inl Killed, s2) \<Rightarrow> (Inl Killed, s2)) s1 = (r, s')"
      by (simp add: write_over_def rep c)
    note ms = marked_write_spec [OF this T1 ne(1)]
    have "b \<noteq> marker" "b \<noteq> ?T" using backup [OF c(4)] ne path by auto
    then have b': "contents_at s' b = Some (f_contents f)"
      using ms n1 backup [OF c(4)] by (simp add: contents_at_def)
    show ?thesis using ms b' c(3,4) backup [OF c(4)] path n1 by (auto simp: safe_def covered_def)
  qed
qed

lemma read_existing_spec:
  assumes "read_existing dir name p s = (Inr v, s')"
  shows "(node_at s (at dir name) = None \<and> v = None) \<or> (\<exists>f. node_at s (at dir name) = Some (Reg f) \<and> v = Some f)"
proof -
  obtain r0 s0 where sc: "syscall (lit ''statat'') p s = (r0, s0)" by force
  have "node_at s0 = node_at s" using syscall_nodes [OF sc] .
  with assms show ?thesis
    by (auto simp: read_existing_def andthen_def sc reads_def ret_def stop_with_def split: sum.splits option.splits node.splits prod.splits)
qed

lemma take_backup_spec:
  assumes "take_backup E req (Some f) s = (r, s')"
  shows "(\<forall>k. node_at s k \<noteq> None \<and> butlast k \<noteq> rq_backup_dir req \<longrightarrow> node_at s' k = node_at s k)
    \<and> (\<forall>v. r = Inr v \<longrightarrow> (v = None \<longleftrightarrow> rq_keep_backups req = 0))
    \<and> (\<forall>b. r = Inr (Some b) \<longrightarrow> contents_at s' b = Some (f_contents f) \<and> butlast b = rq_backup_dir req \<and> node_at s b = None)"
proof (cases "0 < rq_keep_backups req")
  case False
  then show ?thesis using assms by (auto simp: take_backup_def ret_def)
next
  case True
  let ?dir = "rq_backup_dir req"
  obtain now s1 where n: "sys_now s = (Inr now, s1)" by (simp add: sys_now_def)
  have n1: "node_at s1 = node_at s" using n by (auto simp: sys_now_def node_at_def)
  obtain r2 s2 where w: "write_backup E ?dir (f_contents f) (fe_sha E (f_contents f)) now s1 = (r2, s2)" by force
  note ws = write_backup_spec [OF w]
  show ?thesis
  proof (cases r2)
    case (Inl e)
    then have "r = Inl e \<and> s' = s2" using assms True by (simp add: take_backup_def andthen_def n w)
    with ws n1 show ?thesis by auto
  next
    case (Inr p)
    then obtain nm where p: "p = at ?dir nm" "node_at s p = None" "contents_at s2 p = Some (f_contents f)" using ws n1 by auto
    obtain r3 s3 where ro: "rotate_backups ?dir (rq_keep_backups req) p s2 = (r3, s3)" by force
    have k3: "node_at s3 k = node_at s2 k" if "butlast k \<noteq> ?dir \<or> k = p" for k
      using touchesD [OF rotate_backups_touches ro [unfolded p(1)], of k] that p(1) by auto
    have "s' = s3 \<and> r = (case r3 of Inl e \<Rightarrow> Inl e | Inr _ \<Rightarrow> Inr (Some p))"
      using assms True Inr by (auto simp: take_backup_def andthen_def n w ro ret_def split: sum.splits)
    with k3 ws n1 p True show ?thesis by (auto simp: contents_at_def split: sum.splits)
  qed
qed

text \<open>What every stop and every return of a write over the existing file \<open>f\<close> satisfies.\<close>

definition write_post :: "fsenv \<Rightarrow> write_request \<Rightarrow> regular \<Rightarrow> osys \<Rightarrow> (stop, write_outcome) result \<Rightarrow> osys \<Rightarrow> bool" where
  "write_post E req f s r s' \<longleftrightarrow>
     safe E req f s'
     \<and> (\<forall>k. node_at s k \<noteq> None \<and> k \<noteq> rq_path req \<and> butlast k \<noteq> rq_backup_dir req \<and> rq_in_place req \<noteq> IpMarker k
          \<longrightarrow> node_at s' k = node_at s k)
     \<and> (\<forall>out. r = Inr out \<longrightarrow> contents_at s' (rq_path req) = Some (rq_contents req)
          \<and> wo_prev_digest out = Some (fe_sha E (f_contents f)) \<and> wo_new_digest out = fe_sha E (rq_contents req)
          \<and> \<not> wo_created out \<and> (wo_backup out = None \<longleftrightarrow> rq_keep_backups req = 0)
          \<and> (\<forall>b. wo_backup out = Some b \<longrightarrow> contents_at s' b = Some (f_contents f) \<and> butlast b = rq_backup_dir req))
     \<and> (\<forall>expected. rq_expected_prev req = Some expected \<and> expected \<noteq> fe_sha E (f_contents f)
          \<longrightarrow> node_at s' = node_at s \<and> (\<forall>out. r \<noteq> Inr out))"

lemma write_post_stop:
  "node_at s (rq_path req) = Some (Reg f) \<Longrightarrow> node_at s' = node_at s \<Longrightarrow> write_post E req f s (Inl e) s'"
  by (simp add: write_post_def safe_def)

definition request_ok :: "write_request \<Rightarrow> bool" where
  "request_ok req \<longleftrightarrow>
     butlast (rq_path req) \<noteq> rq_backup_dir req \<and> rq_in_place req \<noteq> IpGuarded
     \<and> (\<forall>marker. rq_in_place req = IpMarker marker \<longrightarrow> marker \<noteq> rq_path req \<and> butlast marker \<noteq> rq_backup_dir req)"

lemma check_expected_cases:
  "check_expected E req (Some f) =
     (if \<exists>expected. rq_expected_prev req = Some expected \<and> expected \<noteq> fe_sha E (f_contents f)
      then stop_with (AeConflict (the (rq_expected_prev req)) (Some (fe_sha E (f_contents f)))) else ret ())"
  by (auto simp: check_expected_def split: option.splits)

lemma write_existing_spec:
  assumes run: "write_existing E req dir name (Some f) s = (r, s')"
    and T: "node_at s (rq_path req) = Some (Reg f)" and at: "rq_path req = at dir name" and ok: "request_ok req"
  shows "write_post E req f s r s'"
proof (cases "\<exists>expected. rq_expected_prev req = Some expected \<and> expected \<noteq> fe_sha E (f_contents f)")
  case True
  then show ?thesis using run write_post_stop [OF T]
    by (auto simp: write_existing_def check_expected_cases stop_with_def)
next
  case False
  then have "check_expected E req (Some f) = ret ()" unfolding check_expected_cases by auto
  then have run': "andthen (take_backup E req (Some f)) (\<lambda>backup. andthen (write_over E req dir name (Some f) backup) (\<lambda>w.
      ret \<lparr>wo_prev_digest = Some (fe_sha E (f_contents f)), wo_new_digest = fe_sha E (rq_contents req),
           wo_backup = backup, wo_created = False, wo_owner_preserved = w\<rparr>)) s = (r, s')"
    using run by (simp add: write_existing_def)
  obtain r2 s2 where tb: "take_backup E req (Some f) s = (r2, s2)" by force
  note ts = take_backup_spec [OF tb]
  have T2: "node_at s2 (rq_path req) = Some (Reg f)" using ts T ok by (auto simp: request_ok_def)
  show ?thesis
  proof (cases r2)
    case (Inl e)
    then have "r = Inl e \<and> s' = s2" using run' by (simp add: andthen_def tb)
    with ts T2 False show ?thesis by (auto simp: write_post_def safe_def)
  next
    case (Inr backup)
    obtain r3 s3 where wo: "write_over E req dir name (Some f) backup s2 = (r3, s3)" by force
    have bk: "contents_at s2 b = Some (f_contents f) \<and> butlast b = rq_backup_dir req \<and> b \<noteq> rq_path req" if "backup = Some b" for b
      using ts Inr that ok by (auto simp: request_ok_def)
    have "rq_in_place req \<noteq> IpGuarded" and mk: "\<And>m. rq_in_place req = IpMarker m \<Longrightarrow> m \<noteq> rq_path req \<and> butlast m \<noteq> rq_backup_dir req"
      using ok by (auto simp: request_ok_def)
    note os = write_over_spec [OF wo at T2 [unfolded at] this bk]
    have "s' = s3 \<and> r = (case r3 of Inl e \<Rightarrow> Inl e | Inr w \<Rightarrow> Inr \<lparr>wo_prev_digest = Some (fe_sha E (f_contents f)),
        wo_new_digest = fe_sha E (rq_contents req), wo_backup = backup, wo_created = False, wo_owner_preserved = w\<rparr>)"
      using run' by (auto simp: andthen_def tb Inr wo ret_def split: sum.splits)
    then show ?thesis using os ts False Inr bk by (auto simp: write_post_def split: sum.splits)
  qed
qed

lemma write_atomic_spec:
  assumes run: "write_atomic E req s = (r, s')"
    and T: "node_at s (rq_path req) = Some (Reg f)" and ok: "request_ok req"
  shows "write_post E req f s r s'"
proof (cases "split_path (rq_path req)")
  case (Inl e)
  then show ?thesis using run write_post_stop [OF T] by (auto simp: write_atomic_def stop_with_def)
next
  case (Inr dn)
  obtain d nm where dn: "dn = (d, nm)" by force
  have at: "rq_path req = at d nm" using split_path_at Inr dn by simp
  let ?m1 = "if rq_create_missing req then create_dir_all (lit ''create_dir_all'') d else ret ()"
  obtain r1 s1 where a: "?m1 s = (r1, s1)" by force
  obtain r2 s2 where b: "open_dir d s1 = (r2, s2)" by force
  obtain r3 s3 where c: "read_existing d nm (rq_path req) s2 = (r3, s3)" by force
  have t: "touches {} ?m1" "touches {} (read_existing d nm (rq_path req))" by (intro touch)+
  have n: "node_at s1 = node_at s" using touchesD [OF t(1) a] by auto
  moreover have "node_at s2 = node_at s1" using open_dir_nodes [OF b] .
  moreover have "node_at s3 = node_at s2" using touchesD [OF t(2) c] by auto
  ultimately have n: "node_at s1 = node_at s" "node_at s2 = node_at s" "node_at s3 = node_at s" by auto
  have run': "(case r1 of Inl e \<Rightarrow> (Inl e, s1) | Inr _ \<Rightarrow> (case r2 of Inl e \<Rightarrow> (Inl e, s2) | Inr _ \<Rightarrow>
      (case r3 of Inl e \<Rightarrow> (Inl e, s3) | Inr v \<Rightarrow> write_existing E req d nm v s3))) = (r, s')"
    using run unfolding write_atomic_def Inr dn by (auto simp: andthen_def a b c split: sum.splits)
  show ?thesis
  proof (cases "\<exists>v. r1 = Inr () \<and> r2 = Inr () \<and> r3 = Inr v")
    case False
    then show ?thesis using run' write_post_stop [OF T] n by (auto split: sum.splits)
  next
    case True
    then obtain v where v: "r1 = Inr ()" "r2 = Inr ()" "r3 = Inr v" by auto
    have "v = Some f" using read_existing_spec [OF c [unfolded v]] n T at by auto
    with run' v have "write_existing E req d nm (Some f) s3 = (r, s')" by simp
    from write_existing_spec [OF this _ at ok] n T show ?thesis by (simp add: write_post_def)
  qed
qed

end
