(* ===== verification/Atomic_Total.thy ===== *)
theory Atomic_Total
  imports Atomic_Write
begin

text \<open>
  The counterpart of \<open>Atomic_Write\<close> for a world in which no call is made to fail: the atomic write then
  returns, whatever the mode of writing, and changes the target and its backup directory only. A total
  correctness logic: \<open>works P m Q\<close> says that \<open>m\<close> returns from every calm state with \<open>P\<close>.
\<close>

section \<open>Total correctness\<close>

definition calm :: "osys \<Rightarrow> bool" where
  "calm s \<longleftrightarrow> os_script s = [] \<and> distinct (map fst (os_files s))"

definition steady :: "osys \<Rightarrow> osys \<Rightarrow> bool" where
  "steady s s' \<longleftrightarrow> set (os_dirs s) \<subseteq> set (os_dirs s') \<and> os_frozen s' = os_frozen s
     \<and> os_clock s' = os_clock s \<and> os_token s' = os_token s"

definition works :: "(osys \<Rightarrow> bool) \<Rightarrow> 'a sys \<Rightarrow> ('a \<Rightarrow> osys \<Rightarrow> bool) \<Rightarrow> bool" where
  "works P m Q \<longleftrightarrow> (\<forall>s. calm s \<longrightarrow> P s \<longrightarrow> (\<exists>x s'. m s = (Inr x, s') \<and> calm s' \<and> Q x s'))"

definition holds :: "osys \<Rightarrow> (key \<Rightarrow> node option) \<Rightarrow> osys \<Rightarrow> bool" where
  "holds s0 N s \<longleftrightarrow> node_at s = N \<and> steady s0 s"

lemma worksD: "works P m Q \<Longrightarrow> calm s \<Longrightarrow> P s \<Longrightarrow> \<exists>x s'. m s = (Inr x, s') \<and> calm s' \<and> Q x s'"
  by (simp add: works_def)

lemma worksI: "(\<And>s. calm s \<Longrightarrow> P s \<Longrightarrow> \<exists>x s'. m s = (Inr x, s') \<and> calm s' \<and> Q x s') \<Longrightarrow> works P m Q"
  by (simp add: works_def)

lemma works_conseq: "works P m Q \<Longrightarrow> (\<And>s. P' s \<Longrightarrow> P s) \<Longrightarrow> (\<And>x s. Q x s \<Longrightarrow> Q' x s) \<Longrightarrow> works P' m Q'"
  unfolding works_def by meson

lemma works_ret: "(\<And>s. P s \<Longrightarrow> Q x s) \<Longrightarrow> works P (ret x) Q"
  by (simp add: works_def ret_def)

lemma works_reads: "(\<And>s. P s \<Longrightarrow> Q (f s) s) \<Longrightarrow> works P (reads f) Q"
  by (simp add: works_def reads_def)

lemma works_keep: "works P (reads f) (\<lambda>_. P)"
  by (rule works_reads)

lemma works_andthen: "works P m R \<Longrightarrow> (\<And>x. works (R x) (f x) Q) \<Longrightarrow> works P (andthen m f) Q"
  unfolding works_def andthen_def by fastforce

lemma works_ex: "(\<And>g. A g \<Longrightarrow> works (B g) m Q) \<Longrightarrow> works (\<lambda>s. \<exists>g. A g \<and> B g s) m Q"
  unfolding works_def by blast

lemma works_pre: "(c \<Longrightarrow> works P m Q) \<Longrightarrow> works (\<lambda>s. c \<and> P s) m Q"
  unfolding works_def by blast

lemma calm_put [simp]: "calm s \<Longrightarrow> calm (put_node k n s)"
  by (simp add: calm_def put_node_def distinct_update)

lemma calm_del [simp]: "calm s \<Longrightarrow> calm (del_node k s)"
  by (simp add: calm_def del_node_def distinct_delete)

lemma calm_fields [simp]:
  "calm (s\<lparr>os_next_ino := i\<rparr>) = calm s" "calm (s\<lparr>os_ticks := i\<rparr>) = calm s" "calm (s\<lparr>os_dirs := d\<rparr>) = calm s"
  by (simp_all add: calm_def)

lemma steady_fields [simp]:
  "steady s0 (put_node k n s) = steady s0 s" "steady s0 (del_node k s) = steady s0 s"
  "steady s0 (s\<lparr>os_next_ino := i\<rparr>) = steady s0 s" "steady s0 (s\<lparr>os_ticks := i\<rparr>) = steady s0 s"
  by (simp_all add: steady_def put_node_def del_node_def)

lemma steady_refl [simp]: "steady s s"
  by (simp add: steady_def)

lemma steady_trans: "steady a b \<Longrightarrow> steady b c \<Longrightarrow> steady a c"
  by (auto simp: steady_def)

lemma node_at_fields [simp]:
  "node_at (s\<lparr>os_ticks := i\<rparr>) = node_at s" "node_at (s\<lparr>os_dirs := d\<rparr>) = node_at s"
  by (auto simp: node_at_def fun_eq_iff)

lemma node_at_put_fun: "node_at (put_node k n s) = (node_at s)(k \<mapsto> n)"
  by (rule ext) simp

lemma node_at_del_fun: "node_at (del_node k s) = (node_at s)(k := None)"
  by (rule ext) simp

lemma syscall_calm: "calm s \<Longrightarrow> syscall op p s = (Inr (), s)" "calm s \<Longrightarrow> syscall_cut op p s = (None, s)"
  by (simp_all add: syscall_def syscall_cut_def calm_def)

named_theorems total

lemma works_call [total]: "works P (syscall op p) (\<lambda>_. P)"
  by (simp add: works_def syscall_calm)

lemma works_fsync [total]: "works P (fsync p) (\<lambda>_. P)"
  unfolding fsync_def by (rule works_call)

lemma works_after_call:
  "(\<And>s. calm s \<Longrightarrow> P s \<Longrightarrow> \<exists>x s'. f () s = (Inr x, s') \<and> calm s' \<and> Q x s') \<Longrightarrow> works P (andthen (syscall op p) f) Q"
  by (simp add: works_def andthen_def syscall_calm)

lemma works_open_dir: "d \<in> set (os_dirs s0) \<Longrightarrow> works (holds s0 N) (open_dir d) (\<lambda>_. holds s0 N)"
  unfolding open_dir_def by (rule works_after_call) (auto simp: holds_def steady_def)

lemma works_update:
  "N k = Some (Reg g) \<Longrightarrow> works (holds s0 N) (update_file op k p f) (\<lambda>_. holds s0 (N(k \<mapsto> Reg (f g))))"
  unfolding update_file_def by (rule works_after_call) (auto simp: holds_def node_at_put_fun)

lemma works_write:
  "N k = Some (Reg g) \<Longrightarrow>
   works (holds s0 N) (write_file k p b) (\<lambda>_. holds s0 (N(k \<mapsto> Reg (g\<lparr>f_contents := f_contents g @ b\<rparr>))))"
  by (rule worksI) (auto simp: holds_def write_file_def syscall_calm node_at_put_fun)

lemma works_rename:
  "N src = Some n \<Longrightarrow> works (holds s0 N) (sys_rename src dst p) (\<lambda>_. holds s0 (N(src := None, dst \<mapsto> n)))"
  unfolding sys_rename_def by (rule works_after_call) (auto simp: holds_def node_at_put_fun node_at_del_fun)

lemma works_unlink: "N k \<noteq> None \<Longrightarrow> works (holds s0 N) (sys_unlink k p) (\<lambda>_. holds s0 (N(k := None)))"
  unfolding sys_unlink_def by (rule works_after_call) (auto simp: holds_def node_at_del_fun)

lemma works_create:
  assumes "N k = None" and "butlast k \<notin> set (os_frozen s0)"
  shows "works (holds s0 N) (sys_create k p mode) (\<lambda>_ s. \<exists>g. f_contents g = [] \<and> holds s0 (N(k \<mapsto> Reg g)) s)"
proof (rule worksI)
  fix s assume s: "calm s" "holds s0 N s"
  let ?g = "\<lparr>f_contents = [], f_mode = mode, f_uid = os_euid s, f_gid = os_egid s,
    f_ino = os_next_ino s, f_xattrs = [], f_mtime = os_clock s (os_ticks s)\<rparr>"
  have "sys_create k p mode s = (Inr (), put_node k (Reg ?g) (s\<lparr>os_next_ino := Suc (os_next_ino s)\<rparr>))"
    using s assms by (auto simp: sys_create_def andthen_def syscall_calm holds_def steady_def)
  moreover have "f_contents ?g = []" by simp
  moreover have "holds s0 (N(k \<mapsto> Reg ?g)) (put_node k (Reg ?g) (s\<lparr>os_next_ino := Suc (os_next_ino s)\<rparr>))"
    using s by (simp add: holds_def node_at_put_fun)
  ultimately show "\<exists>x s'. sys_create k p mode s = (Inr x, s') \<and> calm s'
      \<and> (\<exists>g. f_contents g = [] \<and> holds s0 (N(k \<mapsto> Reg g)) s')"
    using s(1) by (metis calm_fields(1) calm_put)
qed

lemma works_guarded: "works P m Q \<Longrightarrow> works P (guarded k m) Q"
  unfolding works_def guarded_def by fastforce

text \<open>A file being prepared: its contents are settled, the other attributes may change.\<close>

definition draft :: "osys \<Rightarrow> (key \<Rightarrow> node option) \<Rightarrow> key \<Rightarrow> bytes \<Rightarrow> osys \<Rightarrow> bool" where
  "draft s0 N k b s \<longleftrightarrow> (\<exists>g. f_contents g = b \<and> holds s0 (N(k \<mapsto> Reg g)) s)"

lemma works_draft: "(\<And>g. f_contents g = b \<Longrightarrow> works (holds s0 (N(k \<mapsto> Reg g))) m Q) \<Longrightarrow> works (draft s0 N k b) m Q"
  unfolding draft_def by (rule works_ex)

lemma draft_create:
  "N k = None \<Longrightarrow> butlast k \<notin> set (os_frozen s0) \<Longrightarrow> works (holds s0 N) (sys_create k p mode) (\<lambda>_. draft s0 N k [])"
  unfolding draft_def by (rule works_create)

lemma draft_update [total]:
  assumes "\<And>g. f_contents (f g) = f_contents g"
  shows "works (draft s0 N k b) (update_file op k p f) (\<lambda>_. draft s0 N k b)"
proof (rule works_draft, rule works_conseq [OF works_update])
  show "draft s0 N k b s" if "f_contents g = b" "holds s0 ((N(k \<mapsto> Reg g))(k \<mapsto> Reg (f g))) s" for g s
    using that assms by (auto simp: draft_def)
qed auto

lemma draft_write:
  "works (draft s0 N k b) (write_file k p c) (\<lambda>_. draft s0 N k (b @ c))"
proof (rule works_draft, rule works_conseq [OF works_write])
  show "draft s0 N k (b @ c) s"
    if "f_contents g = b" "holds s0 ((N(k \<mapsto> Reg g))(k \<mapsto> Reg (g\<lparr>f_contents := f_contents g @ c\<rparr>))) s" for g s
    using that by (auto simp: draft_def intro!: exI [of _ "g\<lparr>f_contents := f_contents g @ c\<rparr>"])
qed auto

lemma draft_rename:
  assumes "N src = None" and "src \<noteq> dst"
  shows "works (draft s0 N src b) (sys_rename src dst p) (\<lambda>_. draft s0 N dst b)"
proof (rule works_draft, rule works_conseq [OF works_rename])
  show "draft s0 N dst b s" if "f_contents g = b" "holds s0 ((N(src \<mapsto> Reg g))(src := None, dst \<mapsto> Reg g)) s" for g s
    using that assms by (auto simp: draft_def fun_upd_idem intro!: exI [of _ g])
qed auto

lemma works_ignoring: "works P m (\<lambda>_. P) \<Longrightarrow> works P (ignoring ok m) (\<lambda>_. P)"
  unfolding works_def ignoring_def by fastforce

lemma works_try_chown: "works (draft s0 N k b) (try_chown k p owner) (\<lambda>_. draft s0 N k b)"
  using draft_update [of "\<lambda>f. f\<lparr>f_uid := fst owner, f_gid := snd owner\<rparr>" s0 N k b "lit ''fchown''" p]
  unfolding works_def try_chown_def by fastforce

lemma works_xattr_list: "works (draft s0 N k b) (copy_xattr_list xs k p) (\<lambda>_. draft s0 N k b)"
proof (induction xs k p rule: copy_xattr_list.induct)
  case (2 name "value" xs k p)
  show ?case unfolding copy_xattr_list.simps
    by (intro works_andthen [OF works_ignoring [OF works_call]] works_andthen [OF _ 2] )
      (auto intro!: works_ignoring draft_update works_ret)
qed (auto intro: works_ret)

lemma works_copy_xattrs: "works (draft s0 N k b) (copy_xattrs f k p) (\<lambda>_. draft s0 N k b)"
  unfolding copy_xattrs_def
  by (rule works_andthen [OF works_ignoring [OF works_call]]) (auto intro: works_xattr_list works_ret)

lemma works_fill_temp:
  assumes "N temp = None" and "temp \<noteq> target"
  shows "works (draft s0 N temp []) (fill_temp temp target p contents mode owner source) (\<lambda>_. draft s0 N target contents)"
proof -
  have own: "works (draft s0 N temp []) (case owner of None \<Rightarrow> ret True
      | Some ids \<Rightarrow> andthen (syscall (lit ''fstat'') p) (\<lambda>_. andthen (reads (file_at temp)) (\<lambda>t.
          if chown_changes (f_uid t, f_gid t) ids mode then try_chown temp p ids else ret True))) (\<lambda>_. draft s0 N temp [])"
    by (cases owner) (auto intro!: works_ret works_try_chown works_andthen [OF works_call] works_andthen [OF works_keep])
  have src: "works (draft s0 N temp []) (case source of None \<Rightarrow> ret () | Some f \<Rightarrow> copy_xattrs f temp p) (\<lambda>_. draft s0 N temp [])"
    by (cases source) (auto intro: works_ret works_copy_xattrs)
  have wr: "works (draft s0 N temp []) (write_file temp p contents) (\<lambda>_. draft s0 N temp contents)"
    using draft_write [of s0 N temp "[]" p contents] by simp
  show ?thesis unfolding fill_temp_def
    by (intro works_andthen [OF draft_update] works_andthen [OF own] works_andthen [OF src] works_andthen [OF wr]
        works_andthen [OF works_fsync] works_andthen [OF draft_rename [where N = N, OF assms]] works_ret) simp_all
qed

section \<open>Replacing and writing in place\<close>

lemma create_exclusive_calm:
  assumes "calm s" and "holds s0 N s" and "\<exists>n \<in> set names. N (at dir n) = None"
  shows "(dir \<notin> set (os_frozen s0) \<longrightarrow> (\<exists>n s'. create_exclusive dir p mode names s = (Inr n, s') \<and> calm s'
            \<and> n \<in> set names \<and> N (at dir n) = None \<and> draft s0 N (at dir n) [] s'))
    \<and> (dir \<in> set (os_frozen s0) \<longrightarrow> create_exclusive dir p mode names s = (Inl (Failed (AeIo (lit ''openat'') p (Hard EROFS))), s))"
  using assms
proof (induction dir p mode names s rule: create_exclusive.induct)
  case (2 dir p mode name names s)
  have fr: "os_frozen s = os_frozen s0" and nd: "node_at s = N" using "2.prems"(2) by (auto simp: holds_def steady_def)
  show ?case
  proof (cases "N (at dir name) = None")
    case True
    show ?thesis
    proof (cases "dir \<in> set (os_frozen s0)")
      case True
      then have "sys_create (at dir name) p mode s = (Inl (Failed (AeIo (lit ''openat'') p (Hard EROFS))), s)"
        using "2.prems"(1) nd fr \<open>N (at dir name) = None\<close> by (simp add: sys_create_def andthen_def syscall_calm)
      with True show ?thesis by simp
    next
      case False
      obtain s' where "sys_create (at dir name) p mode s = (Inr (), s')" "calm s'" "draft s0 N (at dir name) [] s'"
        using worksD [OF draft_create [of N "at dir name" s0 p mode] "2.prems"(1,2)] True False by auto
      with True False show ?thesis by auto
    qed
  next
    case False
    then have c: "sys_create (at dir name) p mode s = (Inl (Failed (AeIo (lit ''openat'') p EEXIST)), s)"
      using "2.prems"(1) nd by (simp add: sys_create_def andthen_def syscall_calm)
    have ih: "calm s \<Longrightarrow> holds s0 N s \<Longrightarrow> \<exists>n\<in>set names. N (at dir n) = None \<Longrightarrow> ?thesis"
      using "2.IH" [OF c [symmetric] refl refl refl refl] c by auto
    have "\<exists>n\<in>set names. N (at dir n) = None" using "2.prems"(3) False by auto
    with ih "2.prems" show ?thesis by blast
  qed
qed simp

text \<open>At any time one of the next temporary names is free.\<close>

definition fresh_temps :: "osys \<Rightarrow> (key \<Rightarrow> node option) \<Rightarrow> key \<Rightarrow> bool" where
  "fresh_temps s N dir \<longleftrightarrow>
     (\<forall>t. \<exists>attempt < NAME_ATTEMPTS. N (at dir (lit ''.detent-tmp-'' @ os_token s t attempt)) = None)"

lemma temp_names_calm:
  assumes "holds s0 N s" and "fresh_temps s0 N dir" and "calm s"
  shows "\<exists>names s1. temp_names s = (Inr names, s1) \<and> calm s1 \<and> holds s0 N s1 \<and> (\<exists>n \<in> set names. N (at dir n) = None)"
proof -
  have tok: "os_token s = os_token s0" using assms(1) by (simp add: holds_def steady_def)
  obtain a where "a < NAME_ATTEMPTS" "N (at dir (lit ''.detent-tmp-'' @ os_token s0 (os_ticks s) a)) = None"
    using assms(2) by (auto simp: fresh_temps_def)
  then show ?thesis using assms tok by (auto simp: temp_names_def holds_def intro!: bexI [of _ a])
qed

lemma works_replace:
  assumes "dir \<notin> set (os_frozen s0)" and "fresh_temps s0 N dir" and "N (at dir name) \<noteq> None"
  shows "works (holds s0 N) (replace_contents dir name p contents mode owner source) (\<lambda>_. draft s0 N (at dir name) contents)"
proof (rule worksI)
  fix s assume s: "calm s" "holds s0 N s"
  obtain names s1 where t: "temp_names s = (Inr names, s1)" "calm s1" "holds s0 N s1" "\<exists>n \<in> set names. N (at dir n) = None"
    using temp_names_calm [OF s(2) assms(2) s(1)] by blast
  obtain n s2 where c: "create_exclusive dir p mode names s1 = (Inr n, s2)" "calm s2" "N (at dir n) = None" "draft s0 N (at dir n) [] s2"
    using create_exclusive_calm [OF t(2-4), of p mode] assms(1) by blast
  have ne: "at dir n \<noteq> at dir name" using c(3) assms(3) by metis
  obtain b s3 where f: "guarded (at dir n) (fill_temp (at dir n) (at dir name) p contents mode owner source) s2 = (Inr b, s3)"
    "calm s3" "draft s0 N (at dir name) contents s3"
    using worksD [OF works_guarded [OF works_fill_temp [where N = N, OF c(3) ne]] c(2,4)] by blast
  have "fsync p s3 = (Inr (), s3)" using f(2) by (simp add: fsync_def syscall_calm)
  then show "\<exists>x s'. replace_contents dir name p contents mode owner source s = (Inr x, s') \<and> calm s' \<and> draft s0 N (at dir name) contents s'"
    using t(1) c(1) f by (simp add: replace_contents_def andthen_def ret_def)
qed

lemma replace_refused:
  assumes "calm s" and "holds s0 N s" and "dir \<in> set (os_frozen s0)" and "fresh_temps s0 N dir"
  shows "\<exists>s'. replace_contents dir name p contents mode owner source s = (Inl (Failed (AeIo (lit ''openat'') p (Hard EROFS))), s')
    \<and> calm s' \<and> holds s0 N s'"
proof -
  obtain names s1 where t: "temp_names s = (Inr names, s1)" "calm s1" "holds s0 N s1" "\<exists>n \<in> set names. N (at dir n) = None"
    using temp_names_calm [OF assms(2,4,1)] by blast
  have "create_exclusive dir p mode names s1 = (Inl (Failed (AeIo (lit ''openat'') p (Hard EROFS))), s1)"
    using create_exclusive_calm [OF t(2-4), of p mode] assms(3) by blast
  then show ?thesis using t by (simp add: replace_contents_def andthen_def)
qed

lemma works_write_in_place:
  assumes "N (at dir name) = Some (Reg f)"
  shows "works (holds s0 N) (write_in_place dir name p f contents) (\<lambda>_. draft s0 N (at dir name) contents)"
proof -
  let ?N = "N(at dir name \<mapsto> Reg (f\<lparr>f_contents := []\<rparr>))"
  have rd: "works (holds s0 ?N) (reads (file_at (at dir name))) (\<lambda>now s. f_ino now = f_ino f \<and> holds s0 ?N s)"
    by (rule works_reads) (simp add: holds_def file_at_def)
  have wr: "works (holds s0 ?N) (write_file (at dir name) p contents) (\<lambda>_. draft s0 N (at dir name) contents)"
  proof (rule works_conseq [OF works_write])
    show "draft s0 N (at dir name) contents s"
      if "holds s0 (?N(at dir name \<mapsto> Reg ((f\<lparr>f_contents := []\<rparr>)\<lparr>f_contents := f_contents (f\<lparr>f_contents := []\<rparr>) @ contents\<rparr>))) s" for s
      using that by (auto simp: draft_def intro!: exI [of _ "f\<lparr>f_contents := contents\<rparr>"])
  qed auto
  show ?thesis unfolding write_in_place_def
    by (intro works_andthen [OF works_update [where g = f and N = N, OF assms]] works_andthen [OF works_call] works_andthen [OF rd] works_pre)
      (auto intro!: works_andthen [OF wr] works_fsync)
qed

lemma works_write_marker:
  assumes "split_path marker = Inr (d, n)" and "d \<in> set (os_dirs s0)" and "d \<notin> set (os_frozen s0)" and "N marker = None"
  shows "works (holds s0 N) (write_marker E marker rec) (\<lambda>_. draft s0 N marker (fe_marker_json E rec))"
proof -
  have m: "marker = at d n" using split_path_at [OF assms(1)] .
  have wr: "works (draft s0 N (at d n) []) (write_file (at d n) marker (fe_marker_json E rec))
      (\<lambda>_. draft s0 N (at d n) (fe_marker_json E rec))"
    using draft_write [of s0 N "at d n" "[]" marker "fe_marker_json E rec"] by simp
  have "works (holds s0 N) (andthen (open_dir d) (\<lambda>_. andthen (sys_create (at d n) marker BACKUP_FILE_MODE) (\<lambda>_.
      andthen (write_file (at d n) marker (fe_marker_json E rec)) (\<lambda>_. andthen (fsync marker) (\<lambda>_. fsync d)))))
      (\<lambda>_. draft s0 N (at d n) (fe_marker_json E rec))"
    using assms m by (intro works_andthen [OF works_open_dir] works_andthen [OF draft_create] works_andthen [OF wr]
        works_andthen [OF works_fsync] works_fsync) auto
  then show ?thesis using assms(1) m by (simp add: write_marker_def)
qed

lemma works_remove_marker:
  assumes "split_path marker = Inr (d, n)" and "d \<in> set (os_dirs s0)" and "N marker \<noteq> None"
  shows "works (holds s0 N) (remove_marker marker) (\<lambda>_. holds s0 (N(marker := None)))"
proof -
  have m: "marker = at d n" using split_path_at [OF assms(1)] .
  show ?thesis using assms m unfolding remove_marker_def
    by (auto intro!: works_andthen [OF works_open_dir] works_andthen [OF works_unlink [where N = N]] works_fsync)
qed

section \<open>Backups and the whole write\<close>

lemma distinct_filter_map:
  assumes "distinct (map fst xs)" and "\<And>x y w. f x = Some w \<Longrightarrow> f y = Some w \<Longrightarrow> fst x = fst y"
  shows "distinct (filter_map f xs)"
  using assms(1)
proof (induction xs)
  case (Cons x xs)
  show ?case
  proof (cases "f x")
    case (Some w)
    have "w \<notin> set (filter_map f xs)"
    proof
      assume "w \<in> set (filter_map f xs)"
      then obtain y where "y \<in> set xs" "f y = Some w" by (auto simp: set_filter_map)
      then show False using assms(2) [OF Some, of y] Cons.prems by (metis distinct.simps(2) image_eqI list.simps(9) set_map)
    qed
    then show ?thesis using Cons Some by simp
  qed (use Cons in simp)
qed simp

lemma at_iff: "k \<noteq> [] \<and> butlast k = dir \<and> last k = Normal w \<longleftrightarrow> k = at dir w"
  unfolding at_def by (metis append_butlast_last_id butlast_snoc last_snoc snoc_eq_iff_butlast)

lemma listing_nodes:
  assumes "calm s"
  shows "distinct (listing dir s)" and "n \<in> set (listing dir s) \<Longrightarrow> \<exists>f. node_at s (at dir n) = Some (Reg f)"
proof -
  define pick where "pick = (\<lambda>(k, n). case n of
         Reg _ \<Rightarrow> if k \<noteq> [] \<and> butlast k = dir then (case last k of Normal w \<Rightarrow> Some w | _ \<Rightarrow> None) else None
       | _ \<Rightarrow> None)"
  have pick: "fst x = at dir w \<and> (\<exists>f. snd x = Reg f)" if "pick x = Some w" for x w
    using that at_iff [of "fst x" dir w]
    by (auto simp: pick_def split: node.splits component.splits if_splits prod.splits)
  have d: "distinct (map fst (os_files s))" using assms by (simp add: calm_def)
  have l: "listing dir s = filter_map pick (os_files s)" by (simp add: listing_def pick_def)
  show "distinct (listing dir s)" unfolding l by (rule distinct_filter_map [OF d]) (use pick in metis)
  show "\<exists>f. node_at s (at dir n) = Some (Reg f)" if m: "n \<in> set (listing dir s)"
  proof -
    obtain x where x: "x \<in> set (os_files s)" "pick x = Some n" using m by (auto simp: l set_filter_map)
    then obtain f where "x = (at dir n, Reg f)" using pick [OF x(2)] by (metis prod.collapse)
    then show ?thesis using x(1) d by (auto simp: node_at_def)
  qed
qed

definition agree :: "key \<Rightarrow> (key \<Rightarrow> node option) \<Rightarrow> (key \<Rightarrow> node option) \<Rightarrow> bool" where
  "agree dir N N' \<longleftrightarrow> (\<forall>k. butlast k \<noteq> dir \<longrightarrow> N' k = N k)"

lemma works_unlink_names:
  assumes "distinct ns" and "\<And>n. n \<in> set ns \<Longrightarrow> N (at dir n) \<noteq> None"
  shows "works (holds s0 N) (unlink_names dir ns) (\<lambda>_ s. \<exists>N'. (\<forall>k. k \<notin> at dir ` set ns \<longrightarrow> N' k = N k) \<and> holds s0 N' s)"
  using assms
proof (induction ns arbitrary: N)
  case Nil
  then show ?case by (auto intro!: works_ret)
next
  case (Cons n ns)
  have "works (holds s0 (N(at dir n := None))) (unlink_names dir ns)
     (\<lambda>_ s. \<exists>N'. (\<forall>k. k \<notin> at dir ` set ns \<longrightarrow> N' k = (N(at dir n := None)) k) \<and> holds s0 N' s)"
    by (rule Cons.IH) (use Cons.prems in auto)
  then have rest: "works (holds s0 (N(at dir n := None))) (unlink_names dir ns)
     (\<lambda>_ s. \<exists>N'. (\<forall>k. k \<notin> at dir ` set (n # ns) \<longrightarrow> N' k = N k) \<and> holds s0 N' s)"
    by (rule works_conseq) (auto, metis)
  show ?case unfolding unlink_names.simps
    by (rule works_andthen [OF works_unlink rest]) (use Cons.prems in auto)
qed

lemma works_rotate:
  assumes "dir \<in> set (os_dirs s0)"
  shows "works (holds s0 N) (rotate_backups dir keep (at dir b))
    (\<lambda>_ s. \<exists>N'. (agree dir N N' \<and> N' (at dir b) = N (at dir b)) \<and> holds s0 N' s)"
proof (rule worksI)
  fix s assume s: "calm s" "holds s0 N s"
  let ?names = "filter is_backup_name (listing dir s)"
  have "dir \<in> set (os_dirs s)" using s(2) assms by (auto simp: holds_def steady_def)
  then have bn: "backup_names dir s = (Inr ?names, s)" using s(1) by (simp add: backup_names_def andthen_def syscall_calm)
  define doomed where "doomed = drop (keep - 1) (rev (sort (filter (\<lambda>n. at dir b = [] \<or> last (at dir b) \<noteq> Normal n) ?names)))"
  have dd: "distinct doomed" "\<And>n. n \<in> set doomed \<Longrightarrow> n \<noteq> b \<and> N (at dir n) \<noteq> None"
  proof -
    show "distinct doomed" unfolding doomed_def using listing_nodes(1) [OF s(1)] by simp
    show "n \<noteq> b \<and> N (at dir n) \<noteq> None" if "n \<in> set doomed" for n
      using in_set_dropD [OF that [unfolded doomed_def]] listing_nodes(2) [OF s(1), of n dir] s(2)
      by (auto simp: at_def holds_def)
  qed
  show "\<exists>x s'. rotate_backups dir keep (at dir b) s = (Inr x, s') \<and> calm s'
      \<and> (\<exists>N'. (agree dir N N' \<and> N' (at dir b) = N (at dir b)) \<and> holds s0 N' s')"
  proof (cases "length ?names \<le> keep")
    case True
    then show ?thesis using s bn by (auto simp: rotate_backups_def andthen_def ret_def agree_def)
  next
    case False
    obtain s1 N' where u: "unlink_names dir doomed s = (Inr (), s1)" "calm s1" "holds s0 N' s1"
      "\<forall>k. k \<notin> at dir ` set doomed \<longrightarrow> N' k = N k"
      using worksD [OF works_unlink_names [of doomed N dir, OF dd(1)] s] dd(2) by auto
    have "at dir b \<notin> at dir ` set doomed" using dd(2) [of b] by auto
    then have "N' (at dir b) = N (at dir b)" using u(4) by blast
    moreover have "agree dir N N'" unfolding agree_def
    proof (intro allI impI)
      fix k assume "butlast k \<noteq> dir"
      then have "k \<notin> at dir ` set doomed" by auto
      then show "N' k = N k" using u(4) by blast
    qed
    moreover have "rotate_backups dir keep (at dir b) s = (Inr (), s1)"
      using False bn u(1,2) s(1) \<open>dir \<in> set (os_dirs s)\<close>
      by (simp add: rotate_backups_def andthen_def doomed_def Let_def open_dir_def syscall_calm fsync_def)
    ultimately show ?thesis using u by blast
  qed
qed

text \<open>There is room for a backup of contents \<open>c\<close>: the directory is there and writable, the clock can be
  formatted, and one of the names is free at any time.\<close>

definition room :: "fsenv \<Rightarrow> osys \<Rightarrow> (key \<Rightarrow> node option) \<Rightarrow> key \<Rightarrow> bool" where
  "room E s N dir \<longleftrightarrow> dir \<in> set (os_dirs s) \<and> dir \<notin> set (os_frozen s)
     \<and> (\<forall>t d. \<exists>stamp. fe_stamp E (os_clock s t) = Some stamp
          \<and> (\<exists>a < NAME_ATTEMPTS. N (at dir (backup_name E (os_clock s t) stamp d a)) = None))"

lemma works_write_backup:
  assumes "room E s0 N dir"
  shows "works (holds s0 N) (write_backup E dir contents d (os_clock s0 t))
    (\<lambda>p s. \<exists>n. (p = at dir n \<and> N p = None) \<and> draft s0 N p contents s)"
proof (rule worksI)
  fix s assume s: "calm s" "holds s0 N s"
  have dir: "dir \<in> set (os_dirs s)" using s(2) assms by (auto simp: holds_def steady_def room_def)
  obtain stamp a where st: "fe_stamp E (os_clock s0 t) = Some stamp" "a < NAME_ATTEMPTS"
    "N (at dir (backup_name E (os_clock s0 t) stamp d a)) = None" using assms unfolding room_def by blast
  let ?names = "map (backup_name E (os_clock s0 t) stamp d) [0 ..< NAME_ATTEMPTS]"
  have free: "\<exists>n \<in> set ?names. N (at dir n) = None"
    using st(2,3) by (intro bexI [of _ "backup_name E (os_clock s0 t) stamp d a"]) auto
  have "dir \<notin> set (os_frozen s0)" using assms by (simp add: room_def)
  then obtain n s1 where c: "create_exclusive dir dir BACKUP_FILE_MODE ?names s = (Inr n, s1)" "calm s1"
    "N (at dir n) = None" "draft s0 N (at dir n) [] s1"
    using create_exclusive_calm [OF s free, of dir BACKUP_FILE_MODE] by blast
  let ?body = "andthen (update_file (lit ''fchmod'') (at dir n) (at dir n) (\<lambda>f. f\<lparr>f_mode := BACKUP_FILE_MODE\<rparr>)) (\<lambda>_.
        andthen (write_file (at dir n) (at dir n) contents) (\<lambda>_. fsync (at dir n)))"
  have wr: "works (draft s0 N (at dir n) []) (write_file (at dir n) (at dir n) contents) (\<lambda>_. draft s0 N (at dir n) contents)"
    using draft_write [of s0 N "at dir n" "[]" "at dir n" contents] by simp
  have "works (draft s0 N (at dir n) []) ?body (\<lambda>_. draft s0 N (at dir n) contents)"
    by (intro works_andthen [OF draft_update] works_andthen [OF wr] works_fsync) simp
  from worksD [OF works_guarded [OF this, of "at dir n"] c(2,4)]
  obtain s2 where g: "guarded (at dir n) ?body s1 = (Inr (), s2)" "calm s2" "draft s0 N (at dir n) contents s2" by auto
  have "write_backup E dir contents d (os_clock s0 t) s = (Inr (at dir n), s2)"
    using dir s(1) st(1) c(1) g(1,2)
    by (simp add: write_backup_def ensure_backup_dir_def andthen_def reads_def ret_def open_dir_def syscall_calm fsync_def)
  then show "\<exists>x s'. write_backup E dir contents d (os_clock s0 t) s = (Inr x, s') \<and> calm s'
      \<and> (\<exists>n. (x = at dir n \<and> N x = None) \<and> draft s0 N x contents s')"
    using g c(3) by blast
qed

lemma works_take_backup:
  assumes "room E s0 N (rq_backup_dir req)" and "0 < rq_keep_backups req"
  shows "works (holds s0 N) (take_backup E req (Some f))
    (\<lambda>v s. \<exists>N'. (agree (rq_backup_dir req) N N' \<and> v \<noteq> None) \<and> holds s0 N' s)"
proof -
  let ?dir = "rq_backup_dir req"
  have dir: "?dir \<in> set (os_dirs s0)" using assms(1) by (simp add: room_def)
  have now: "works (holds s0 N) sys_now (\<lambda>x s. \<exists>t. x = os_clock s0 t \<and> holds s0 N s)"
    by (rule worksI) (auto simp: sys_now_def holds_def steady_def)
  have rot: "works (draft s0 N (at ?dir n) c) (rotate_backups ?dir keep (at ?dir n))
      (\<lambda>_ s. \<exists>N'. agree ?dir N N' \<and> holds s0 N' s)" for n c keep
    by (rule works_draft, rule works_conseq [OF works_rotate [OF dir]]) (auto simp: agree_def, metis butlast_at)
  have bk: "works (\<lambda>s. \<exists>n. (p = at ?dir n \<and> N p = None) \<and> draft s0 N p (f_contents f) s)
      (andthen (rotate_backups ?dir (rq_keep_backups req) p) (\<lambda>_. ret (Some p)))
      (\<lambda>v s. \<exists>N'. (agree ?dir N N' \<and> v \<noteq> None) \<and> holds s0 N' s)" for p
    by (rule works_ex) (auto intro!: works_andthen [OF rot] works_ret)
  have rest: "works (\<lambda>s. \<exists>t. x = os_clock s0 t \<and> holds s0 N s)
      (andthen (write_backup E ?dir (f_contents f) (fe_sha E (f_contents f)) x) (\<lambda>p.
         andthen (rotate_backups ?dir (rq_keep_backups req) p) (\<lambda>_. ret (Some p))))
      (\<lambda>v s. \<exists>N'. (agree ?dir N N' \<and> v \<noteq> None) \<and> holds s0 N' s)" for x
    by (rule works_ex) (simp only:, rule works_andthen [OF works_write_backup [OF assms(1)] bk])
  show ?thesis using assms(2) works_andthen [OF now rest] by (simp add: take_backup_def)
qed

text \<open>The directory takes a temporary file, or the mode allows writing in place.\<close>

definition writable :: "osys \<Rightarrow> (key \<Rightarrow> node option) \<Rightarrow> write_request \<Rightarrow> bool" where
  "writable s N req \<longleftrightarrow>
     butlast (rq_path req) \<notin> set (os_frozen s) \<or> rq_in_place req = IpGuarded
     \<or> (\<exists>marker d n. rq_in_place req = IpMarker marker \<and> split_path marker = Inr (d, n) \<and> d \<in> set (os_dirs s)
          \<and> d \<notin> set (os_frozen s) \<and> N marker = None \<and> marker \<noteq> rq_path req)"

lemma write_over_calm:
  assumes s: "calm s" "holds s0 N s" and path: "rq_path req = at dir name" and T: "N (at dir name) = Some (Reg f)"
    and fresh: "fresh_temps s0 N dir" and wr: "writable s0 N req" and b: "backup = Some b"
  shows "\<exists>x s'. write_over E req dir name (Some f) backup s = (Inr x, s') \<and> calm s'
    \<and> draft s0 N (rq_path req) (rq_contents req) s'"
proof (cases "dir \<in> set (os_frozen s0)")
  case False
  obtain x s' where "replace_contents dir name (rq_path req) (rq_contents req) (f_mode f) (Some (f_uid f, f_gid f)) (Some f) s = (Inr x, s')"
    "calm s'" "draft s0 N (at dir name) (rq_contents req) s'"
    using worksD [OF works_replace [OF False fresh] s] T by blast
  then show ?thesis using path by (auto simp: write_over_def)
next
  case True
  obtain s1 where r: "replace_contents dir name (rq_path req) (rq_contents req) (f_mode f) (Some (f_uid f, f_gid f)) (Some f) s
      = (Inl (Failed (AeIo (lit ''openat'') (rq_path req) (Hard EROFS))), s1)" "calm s1" "holds s0 N s1"
    using replace_refused [OF s True fresh] by blast
  have ref: "temp_refused (AeIo (lit ''openat'') (rq_path req) (Hard EROFS))" by (simp add: temp_refused_def)
  show ?thesis
  proof (cases "rq_in_place req = IpGuarded")
    case True
    obtain s2 where "write_in_place dir name (rq_path req) f (rq_contents req) s1 = (Inr (), s2)" "calm s2"
      "draft s0 N (at dir name) (rq_contents req) s2"
      using worksD [OF works_write_in_place [where N = N, OF T] r(2,3)] by auto
    then show ?thesis using r(1) ref True path by (auto simp: write_over_def andthen_def ret_def)
  next
    case False
    then obtain marker d n where m: "rq_in_place req = IpMarker marker" "split_path marker = Inr (d, n)" "d \<in> set (os_dirs s0)"
      "d \<notin> set (os_frozen s0)" "N marker = None" "marker \<noteq> at dir name"
      using wr True path by (auto simp: writable_def)
    let ?rec = "\<lparr>im_path = rq_path req, im_backup = Some b, im_prev = fe_sha E (f_contents f), im_new = fe_sha E (rq_contents req)\<rparr>"
    obtain s2 g where w: "write_marker E marker ?rec s1 = (Inr (), s2)" "calm s2" "holds s0 (N(marker \<mapsto> Reg g)) s2"
      using worksD [OF works_write_marker [where N = N and E = E and rec = ?rec, OF m(2-5)] r(2,3)] by (auto simp: draft_def)
    have T2: "(N(marker \<mapsto> Reg g)) (at dir name) = Some (Reg f)" using T m(6) by auto
    obtain s3 h where p: "write_in_place dir name (rq_path req) f (rq_contents req) s2 = (Inr (), s3)" "calm s3"
      "f_contents h = rq_contents req" "holds s0 ((N(marker \<mapsto> Reg g))(at dir name \<mapsto> Reg h)) s3"
      using worksD [OF works_write_in_place [where N = "N(marker \<mapsto> Reg g)" and p = "rq_path req" and contents = "rq_contents req", OF T2] w(2,3)] by (auto simp: draft_def)
    have Mk: "((N(marker \<mapsto> Reg g))(at dir name \<mapsto> Reg h)) marker \<noteq> None" by simp
    obtain s4 where q: "remove_marker marker s3 = (Inr (), s4)" "calm s4"
      "holds s0 (((N(marker \<mapsto> Reg g))(at dir name \<mapsto> Reg h))(marker := None)) s4"
      using worksD [OF works_remove_marker [where N = "(N(marker \<mapsto> Reg g))(at dir name \<mapsto> Reg h)", OF m(2,3) Mk] p(2,4)] by auto
    have "((N(marker \<mapsto> Reg g))(at dir name \<mapsto> Reg h))(marker := None) = N(at dir name \<mapsto> Reg h)"
      using m(5,6) by (auto simp: fun_eq_iff)
    then have "draft s0 N (rq_path req) (rq_contents req) s4" using q(3) p(3) path by (auto simp: draft_def)
    moreover have "write_over E req dir name (Some f) backup s = (Inr True, s4)"
      using r(1) ref m(1) b w(1) p(1) q(1) by (simp add: write_over_def andthen_def ret_def)
    ultimately show ?thesis using q(2) by blast
  qed
qed

lemma write_atomic_calm:
  assumes s: "calm s" and sp: "split_path (rq_path req) = Inr (dir, name)" and dir: "dir \<in> set (os_dirs s)"
    and T: "node_at s (rq_path req) = Some (Reg f)" and cm: "\<not> rq_create_missing req"
    and ex: "\<And>d. rq_expected_prev req = Some d \<Longrightarrow> d = fe_sha E (f_contents f)"
    and keep: "0 < rq_keep_backups req" and room: "room E s (node_at s) (rq_backup_dir req)"
    and fresh: "fresh_temps s (node_at s) dir" and ne: "dir \<noteq> rq_backup_dir req"
    and wr: "writable s (node_at s) req" and mk: "\<And>marker. rq_in_place req = IpMarker marker \<Longrightarrow> butlast marker \<noteq> rq_backup_dir req"
  shows "\<exists>out s'. write_atomic E req s = (Inr out, s') \<and> calm s' \<and> steady s s'
    \<and> contents_at s' (rq_path req) = Some (rq_contents req)
    \<and> (\<forall>k. k \<noteq> rq_path req \<and> butlast k \<noteq> rq_backup_dir req \<longrightarrow> node_at s' k = node_at s k)"
proof -
  let ?N = "node_at s"
  have p: "rq_path req = at dir name" using split_path_at [OF sp] .
  have s0: "holds s ?N s" by (simp add: holds_def)
  have rd: "read_existing dir name (rq_path req) s = (Inr (Some f), s)"
    using s T p by (simp add: read_existing_def andthen_def syscall_calm reads_def ret_def)
  have ce: "check_expected E req (Some f) s = (Inr (), s)" using ex by (auto simp: check_expected_cases ret_def)
  obtain b s1 N1 where tb: "take_backup E req (Some f) s = (Inr (Some b), s1)" "calm s1" "holds s N1 s1" "agree (rq_backup_dir req) ?N N1"
    using worksD [OF works_take_backup [OF room keep, where f = f] s s0] by auto
  have T1: "N1 (at dir name) = Some (Reg f)" using tb(4) T p ne by (simp add: agree_def)
  have "fresh_temps s N1 dir" using fresh tb(4) ne by (simp add: fresh_temps_def agree_def)
  moreover have "writable s N1 req" using wr mk tb(4) by (fastforce simp: writable_def agree_def)
  ultimately obtain x s2 where w: "write_over E req dir name (Some f) (Some b) s1 = (Inr x, s2)" "calm s2"
    "draft s N1 (rq_path req) (rq_contents req) s2"
    using write_over_calm [OF tb(2,3) p T1 _ _ refl] by blast
  then obtain g where g: "f_contents g = rq_contents req" "node_at s2 = N1(rq_path req \<mapsto> Reg g)" "steady s s2"
    by (auto simp: draft_def holds_def)
  have "contents_at s2 (rq_path req) = Some (rq_contents req)" using g by (simp add: contents_at_def)
  moreover have "\<forall>k. k \<noteq> rq_path req \<and> butlast k \<noteq> rq_backup_dir req \<longrightarrow> node_at s2 k = ?N k"
    using g(2) tb(4) by (simp add: agree_def)
  moreover have "\<exists>out. write_atomic E req s = (Inr out, s2)"
    using sp cm s dir rd ce tb(1) w(1)
    by (simp add: write_atomic_def write_existing_def andthen_def open_dir_def syscall_calm ret_def)
  ultimately show ?thesis using w(2) g(3) by blast
qed

text \<open>The target of \<open>restore_backup_with\<close> can be restored: backup and target are there, the contents are
  the expected ones, and a new write succeeds.\<close>

definition restorable :: "fsenv \<Rightarrow> osys \<Rightarrow> key \<Rightarrow> key \<Rightarrow> digest option \<Rightarrow> in_place \<Rightarrow> bytes \<Rightarrow> bool" where
  "restorable E s backup target expected mode c \<longleftrightarrow>
     (\<exists>dir name bdir bname f. split_path target = Inr (dir, name) \<and> split_path backup = Inr (bdir, bname)
        \<and> dir \<in> set (os_dirs s) \<and> dir \<noteq> bdir \<and> contents_at s backup = Some c \<and> node_at s target = Some (Reg f)
        \<and> (\<forall>d. expected = Some d \<longrightarrow> d = fe_sha E (f_contents f))
        \<and> room E s (node_at s) bdir \<and> fresh_temps s (node_at s) dir
        \<and> writable s (node_at s) ((write_request_new target c bdir)\<lparr>rq_in_place := mode\<rparr>)
        \<and> (\<forall>marker. mode = IpMarker marker \<longrightarrow> butlast marker \<noteq> bdir))"

lemma read_with_digest_calm:
  assumes "calm s" and "split_path p = Inr (dir, name)" and "dir \<in> set (os_dirs s)" and "contents_at s p = Some c"
  shows "read_with_digest E p s = (Inr (c, fe_sha E c), s)"
proof -
  obtain f where "node_at s (at dir name) = Some (Reg f)" "f_contents f = c"
    using assms(4) split_path_at [OF assms(2)] by (auto simp: contents_at_def split: option.splits node.splits)
  then show ?thesis using assms
    by (simp add: read_with_digest_def andthen_def open_dir_def read_existing_def syscall_calm reads_def ret_def)
qed

lemma restore_calm:
  assumes s: "calm s" and r: "restorable E s backup target expected mode c"
  shows "\<exists>out s'. restore_backup_with E backup target expected mode s = (Inr out, s') \<and> calm s' \<and> steady s s'
    \<and> contents_at s' target = Some c
    \<and> (\<forall>k. k \<noteq> target \<and> butlast k \<noteq> butlast backup \<longrightarrow> node_at s' k = node_at s k)"
proof -
  obtain dir name bdir bname f where h: "split_path target = Inr (dir, name)" "split_path backup = Inr (bdir, bname)"
    "dir \<in> set (os_dirs s)" "dir \<noteq> bdir" "contents_at s backup = Some c" "node_at s target = Some (Reg f)"
    "\<And>d. expected = Some d \<Longrightarrow> d = fe_sha E (f_contents f)"
    "room E s (node_at s) bdir" "fresh_temps s (node_at s) dir"
    "writable s (node_at s) ((write_request_new target c bdir)\<lparr>rq_in_place := mode\<rparr>)"
    "\<And>marker. mode = IpMarker marker \<Longrightarrow> butlast marker \<noteq> bdir"
    using r unfolding restorable_def by blast
  let ?req = "(write_request_new target c bdir)\<lparr>rq_expected_prev := expected, rq_in_place := mode\<rparr>"
  have bd: "butlast backup = bdir" "backup \<noteq> []" "backup \<noteq> [RootDir]"
    using split_path_at [OF h(2)] by (auto simp: at_def append_eq_Cons_conv)
  have rd: "read_with_digest E backup s = (Inr (c, fe_sha E c), s)"
    by (rule read_with_digest_calm [OF s h(2) _ h(5)]) (use h(8) in \<open>simp add: room_def\<close>)
  have "\<exists>out s'. write_atomic E ?req s = (Inr out, s') \<and> calm s' \<and> steady s s' \<and> contents_at s' (rq_path ?req) = Some (rq_contents ?req)
    \<and> (\<forall>k. k \<noteq> rq_path ?req \<and> butlast k \<noteq> rq_backup_dir ?req \<longrightarrow> node_at s' k = node_at s k)"
    by (rule write_atomic_calm [OF s]) (use h in \<open>auto simp: write_request_new_def writable_def\<close>)
  then show ?thesis using rd bd by (simp add: restore_backup_with_def andthen_def write_request_new_def)
qed

end
