(* ===== verification/Example_World.thy ===== *)
theory Example_World
  imports Monitor Atomic_Total "HOL-Library.Countable"
begin

text \<open>
  One concrete instance of the parameters: the contents are their own digest, a marker is written as one number
  (every marker is an element of a countable type, so it can be read back), validators pass and services answer.
  The allow-list has one module with one file, the hosts file. The witnesses of the monitor's properties use it.
\<close>

instance component :: countable
  by countable_datatype

instance wire_action :: countable
  by countable_datatype

definition ex_marker_json :: "in_place_marker \<Rightarrow> bytes" where
  "ex_marker_json m = [to_nat (im_path m, im_backup m, im_prev m, im_new m)]"

definition ex_marker_parse :: "bytes \<Rightarrow> in_place_marker option" where
  "ex_marker_parse b =
     (case b of
        [n] \<Rightarrow> (case from_nat n of (p, k, prev, new) \<Rightarrow> Some \<lparr>im_path = p, im_backup = k, im_prev = prev, im_new = new\<rparr>)
      | _ \<Rightarrow> None)"

definition ex_fs :: fsenv where
  "ex_fs = \<lparr>fe_sha = (\<lambda>b. b), fe_stamp = (\<lambda>_. Some [84, 90]), fe_marker_json = ex_marker_json,
     fe_marker_parse = ex_marker_parse\<rparr>"

lemma ex_fs_simps [simp]:
  "fe_sha ex_fs b = b" "fe_stamp ex_fs n = Some [84, 90]" "fe_marker_json ex_fs = ex_marker_json"
  "fe_marker_parse ex_fs = ex_marker_parse"
  by (simp_all add: ex_fs_def)

lemma ex_marker_codec [simp]: "ex_marker_parse (ex_marker_json m) = Some m" "length (ex_marker_json m) = 1" "ex_marker_parse [] = None"
  by (simp_all add: ex_marker_parse_def ex_marker_json_def)

definition ex_entry_code :: "rollback_entry \<Rightarrow> nat \<times> path \<times> key \<times> digest option" where
  "ex_entry_code e = (re_target e, re_path e, re_backup e, re_new_digest e)"

definition ex_entry_of :: "nat \<times> path \<times> key \<times> digest option \<Rightarrow> rollback_entry" where
  "ex_entry_of t = (case t of (i, p, k, d) \<Rightarrow> \<lparr>re_target = i, re_path = p, re_backup = k, re_new_digest = d\<rparr>)"

definition ex_pending_json :: "pending_commit_marker \<Rightarrow> bytes" where
  "ex_pending_json m = [to_nat (pm_commit m, pm_deadline_unix_ms m, map ex_entry_code (pm_entries m),
     map_option (\<lambda>p. (ps_binding p, ps_action p)) (pm_service m))]"

definition ex_pending_parse :: "bytes \<Rightarrow> pending_commit_marker option" where
  "ex_pending_parse b =
     (case b of
        [n] \<Rightarrow> (case from_nat n of (c, d, es, s) \<Rightarrow>
          Some \<lparr>pm_commit = c, pm_deadline_unix_ms = d, pm_entries = map ex_entry_of es,
            pm_service = map_option (\<lambda>(i, a). \<lparr>ps_binding = i, ps_action = a\<rparr>) s\<rparr>)
      | _ \<Rightarrow> None)"

lemma ex_pending_codec [simp]: "ex_pending_parse (ex_pending_json m) = Some m" "ex_pending_parse [] = None"
proof -
  have "ex_entry_of (ex_entry_code e) = e" for e by (simp add: ex_entry_of_def ex_entry_code_def)
  then have "map ex_entry_of (map ex_entry_code es) = es" for es by (simp add: comp_def)
  moreover have "map_option (\<lambda>(i, a). \<lparr>ps_binding = i, ps_action = a\<rparr>) (map_option (\<lambda>p. (ps_binding p, ps_action p)) s) = s" for s
    by (cases s) simp_all
  ultimately show "ex_pending_parse (ex_pending_json m) = Some m" by (simp add: ex_pending_parse_def ex_pending_json_def)
qed (simp add: ex_pending_parse_def)

definition ex_tempfile :: "rstr \<Rightarrow> key \<Rightarrow> key sys" where
  "ex_tempfile prefix dir =
     andthen (create_exclusive dir dir 384 [prefix @ lit ''1'', prefix @ lit ''2'']) (\<lambda>n. ret (at dir n))"

definition ex_hooks :: "unit hooks" where
  "ex_hooks = \<lparr>hk_checks_configured = True,
     hk_run_check = (\<lambda>_ _ _ h. (Inr \<lparr>co_check = 0, co_passed = True, co_exit_code = Some 0, co_detail = []\<rparr>, h)),
     hk_service = (\<lambda>_ _ h. (Inr \<lparr>so_binding = 0, so_active = True, so_detail = []\<rparr>, h)),
     hk_service_status = (\<lambda>_ h. (Inl (HookUnavailable []), h)),
     hk_reload_unit_files = (\<lambda>h. (Inr [], h)), hk_start_added_mounts = (\<lambda>_ h. (Inr [], h)),
     hk_stop_started_mounts = (\<lambda>h. (Inr [], h)), hk_forget_started_mounts = (\<lambda>h. (Inr (), h)),
     hk_start_update = (\<lambda>_ h. (Inr UpAlreadyRunning, h))\<rparr>"

definition ex_descriptor :: module_descriptor where
  "ex_descriptor = \<lparr>md_id = lit ''hosts'', md_display_name_id = [],
     md_targets = [\<lparr>ts_path = lit ''/etc/hosts'', ts_kind = TkFile, ts_mode = 420, ts_owner = OwnerRoot, ts_backend_detect = (\<lambda>_. True)\<rparr>],
     md_upstream = \<lparr>up_project = [], up_repo_url = [], up_tracked_version = [], up_release_feed = None, up_docs = []\<rparr>,
     md_services = [], md_checks = [], md_commit_confirm = True, md_reload_unit_files = False, md_added_mounts = None,
     md_security_notes = []\<rparr>"

definition ex_module :: "nat dyn_module" where
  "ex_module = \<lparr>dm_id = lit ''hosts'', dm_descriptor = ex_descriptor, dm_secret_pointers = [], dm_schema_json = 0,
     dm_model_target_json = (\<lambda>_. Inr None), dm_parse_to_model_json = (\<lambda>_. Inr 0), dm_apply_json = (\<lambda>t _. Inr t),
     dm_validate_json = (\<lambda>_ _. Inr []), dm_defaults_json = (\<lambda>_. Inr 0)\<rparr>"

definition ex_env :: "(unit, nat, nat) menv" where
  "ex_env = \<lparr>me_fs = ex_fs, me_hooks = ex_hooks, me_modules = [ex_module],
     me_semver = \<lparr>sv_parse = (\<lambda>_. None), sv_build_empty = (\<lambda>_. True), sv_greater = (>), sv_zero = 0, sv_pkg_version = []\<rparr>,
     me_update_feature = False, me_marker_json = ex_pending_json, me_marker_parse = ex_pending_parse,
     me_probe = (\<lambda>_ _. ProbeDir 0 448), me_staging_dir = [RootDir, Normal (lit ''run'')],
     me_tempfile = ex_tempfile, me_dyn_text = (\<lambda>_. []), me_euid = 0\<rparr>"

definition ex_target :: target_entry where
  "ex_target = \<lparr>te_id = 0, te_module = 0, te_path = lit ''/etc/hosts'', te_kind = PkFile, te_create_mode = 420,
     te_backup_dir = lit ''/var/lib/detent/backups/hosts/0''\<rparr>"

definition ex_allow :: allowlist where
  "ex_allow = \<lparr>al_config = config_default, al_modules = [ex_descriptor], al_targets = [ex_target], al_checks = [],
     al_bindings = [], al_by_name = [(lit ''hosts'', 0)]\<rparr>"

lemma ex_allow_built: "from_modules [ex_descriptor] config_default = Inr ex_allow"
  by (simp add: from_modules_def ex_allow_def ex_target_def ex_descriptor_def narrow_u16_def resolve_target_def
      backup_dir_for_def path_join_def is_absolute_def config_default_def DEFAULT_STATE_ROOT_def BACKUPS_DIR_def lit_def
      u16_max_def show_nat.simps [of 0])

definition ex_profile :: host_profile where
  "ex_profile = \<lparr>hp_os = Linux, hp_init = InitSystemd, hp_hostname = [], hp_service_versions = [], hp_ram_mib = 1024\<rparr>"

definition ex_monitor :: monitor where
  "ex_monitor = monitor_new ex_allow ex_profile"

definition ex_file :: "bytes \<Rightarrow> regular" where
  "ex_file b = \<lparr>f_contents = b, f_mode = 420, f_uid = 0, f_gid = 0, f_ino = 1, f_xattrs = [], f_mtime = 0\<rparr>"

definition ex_dir :: "string list \<Rightarrow> key" where
  "ex_dir names = RootDir # map (\<lambda>n. Normal (lit n)) names"

definition ex_os :: "sysevent list \<Rightarrow> osys" where
  "ex_os script = \<lparr>os_files = [(ex_dir [''etc'', ''hosts''], Reg (ex_file [1, 2])), (ex_dir [''etc'', ''passwd''], Reg (ex_file [3]))],
     os_dirs = [ex_dir [''etc''], ex_dir [''var'', ''lib'', ''detent''], ex_dir [''var'', ''lib'', ''detent'', ''backups'', ''hosts'', ''0'']],
     os_frozen = [], os_euid = 0, os_egid = 0, os_next_ino = 5, os_clock = (\<lambda>_. 0), os_ticks = 0,
     os_token = (\<lambda>_ a. [a]), os_script = script\<rparr>"

definition ex_world :: "sysevent list \<Rightarrow> unit world" where
  "ex_world script = \<lparr>w_os = ex_os script, w_hooks = (), w_instant = 0, w_sent = []\<rparr>"

section \<open>The allow-list\<close>

text \<open>What the worker is told resolves: the ids of each list are the indices of its table, all of them and in order, and looking an id up
  gives the row whose name, path, kind, program and lists were announced with it.\<close>

definition resolves :: "allowlist \<Rightarrow> hello_ack_t \<Rightarrow> bool" where
  "resolves al ack \<longleftrightarrow>
     map mi_id (ha_modules ack) = [0 ..< length (al_modules al)]
     \<and> list_all (\<lambda>m. al_module_id al (mi_name m) = Some (mi_id m)
         \<and> (\<exists>d. al_module al (mi_id m) = Some d \<and> md_id d = mi_name m \<and> md_commit_confirm d = mi_commit_confirm m)) (ha_modules ack)
     \<and> map ti_id (ha_targets ack) = [0 ..< length (al_targets al)]
     \<and> list_all (\<lambda>t. \<exists>e. al_target al (ti_id t) = Some e \<and> te_path e = ti_path t \<and> te_module e = ti_module t \<and> te_kind e = ti_kind t) (ha_targets ack)
     \<and> map ci_id (ha_checks ack) = [0 ..< length (al_checks al)]
     \<and> list_all (\<lambda>c. \<exists>e. al_check al (ci_id c) = Some e \<and> ce_module e = ci_module c \<and> ec_program (ce_check e) = ci_program c
         \<and> ce_targets e = ci_targets c) (ha_checks ack)
     \<and> map bi_id (ha_bindings ack) = [0 ..< length (al_bindings al)]
     \<and> list_all (\<lambda>b. \<exists>e. al_binding al (bi_id b) = Some e \<and> be_module e = bi_module b \<and> be_targets e = bi_targets b
         \<and> bi_actions b = map wire_of_core (sb_actions (be_binding e))) (ha_bindings ack)"

lemma row_ids: "(\<And>i. i < length xs \<Longrightarrow> f (xs ! i) = i) \<Longrightarrow> map f xs = [0 ..< length xs]"
  by (rule nth_equalityI) simp_all

lemma hello_ack_resolves:
  assumes ok: "allow_ok al"
  shows "resolves al (hello_ack al)"
proof -
  have r: "rows (target_row (al_modules al) (length (al_modules al))) (al_targets al)"
    "rows (check_row (al_modules al) (al_targets al) (length (al_modules al))) (al_checks al)"
    "rows (binding_row (al_modules al) (al_targets al) (length (al_modules al))) (al_bindings al)"
    and names: "\<And>name i. map_of (al_by_name al) name = Some i \<longleftrightarrow> i < length (al_modules al) \<and> md_id (al_modules al ! i) = name"
    and few: "length (al_modules al) \<le> u16_max + 1"
    using ok unfolding allow_ok_def tables_ok_def by blast+
  have t: "te_id (al_targets al ! i) = i" if "i < length (al_targets al)" for i
    using r(1) that unfolding rows_def target_row_def by blast
  have c: "ce_id (al_checks al ! i) = i" if "i < length (al_checks al)" for i
    using r(2) that unfolding rows_def check_row_def by blast
  have b: "be_id (al_bindings al ! i) = i" if "i < length (al_bindings al)" for i
    using r(3) that unfolding rows_def binding_row_def by blast
  have m: "narrow_u16_saturating i = i" if "i < length (al_modules al)" for i
    using few that by (simp add: narrow_u16_saturating_def)
  have modules: "map mi_id (ha_modules (hello_ack al)) = [0 ..< length (al_modules al)]"
    by (rule nth_equalityI) (simp_all add: hello_ack_def nth_enumerate_eq m)
  have found: "list_all (\<lambda>x. al_module_id al (mi_name x) = Some (mi_id x)
         \<and> (\<exists>d. al_module al (mi_id x) = Some d \<and> md_id d = mi_name x \<and> md_commit_confirm d = mi_commit_confirm x)) (ha_modules (hello_ack al))"
    by (simp add: hello_ack_def list_all_length nth_enumerate_eq m al_module_id_def al_module_def get_def names)
  have ids: "map ti_id (ha_targets (hello_ack al)) = [0 ..< length (al_targets al)]" "map ci_id (ha_checks (hello_ack al)) = [0 ..< length (al_checks al)]"
    "map bi_id (ha_bindings (hello_ack al)) = [0 ..< length (al_bindings al)]"
    using row_ids [of "al_targets al" te_id] row_ids [of "al_checks al" ce_id] row_ids [of "al_bindings al" be_id] t c b
    by (simp_all add: hello_ack_def comp_def)
  show ?thesis unfolding resolves_def
    using modules found ids by (simp add: hello_ack_def list_all_length t c b al_target_def al_check_def al_binding_def get_def)
qed

text \<open>C31. The tables of the allow-list are well typed. Whenever the allow-list is built, every row carries its own index
  as its id, fits 16 bits, names an existing module that declares it, and has an absolute path; checks and bindings
  list exactly the targets of their module they judge or serve; the name table finds exactly the modules; and the handshake tells the
  worker every module, target, check and binding, each under the id that finds it in its table.\<close>

theorem allow_list_typed:
  assumes "from_modules ms cfg = Inr al"
  shows "allow_ok al \<and> al_modules al = ms \<and> al_config al = cfg \<and> resolves al (hello_ack al)"
  using from_modules_ok [OF assms] hello_ack_resolves by blast

theorem allow_list_typed_witness:
  "allow_ok ex_allow \<and> al_modules ex_allow = [ex_descriptor] \<and> al_config ex_allow = config_default
    \<and> resolves ex_allow (hello_ack ex_allow) \<and> map mi_id (ha_modules (hello_ack ex_allow)) = [0]"
  using allow_list_typed [OF ex_allow_built] by (simp add: resolves_def)

end
