(* ===== verification/Monitor_Frame.thy ===== *)
theory Monitor_Frame
  imports Example_World
begin

text \<open>
  What the monitor can touch. \<open>leaves X m\<close>: the computation \<open>m\<close> changes no file that exists outside of
  \<open>X\<close>, however it ends, the death of the process included. The rules are one per construct, so that the
  handlers follow by introduction.
\<close>

section \<open>Leaving files alone\<close>

definition spares :: "key set \<Rightarrow> osys \<Rightarrow> osys \<Rightarrow> bool" where
  "spares X s s' \<longleftrightarrow> (\<forall>k. k \<notin> X \<and> node_at s k \<noteq> None \<longrightarrow> node_at s' k = node_at s k)"

lemma spares_refl [simp]: "spares X s s"
  by (simp add: spares_def)

lemma spares_trans: "spares X a b \<Longrightarrow> spares X b c \<Longrightarrow> spares X a c"
  by (simp add: spares_def)

lemma spares_mono: "spares X a b \<Longrightarrow> X \<subseteq> Y \<Longrightarrow> spares Y a b"
  by (auto simp: spares_def)

definition sys_leaves :: "key set \<Rightarrow> 'a sys \<Rightarrow> bool" where
  "sys_leaves X m \<longleftrightarrow> (\<forall>s. spares X s (snd (m s)))"

lemma sys_leavesD: "sys_leaves X m \<Longrightarrow> m s = (r, s') \<Longrightarrow> spares X s s'"
  by (metis snd_conv sys_leaves_def)

lemma leaves_touches: "touches Y m \<Longrightarrow> Y \<subseteq> X \<Longrightarrow> sys_leaves X m"
  by (auto simp: sys_leaves_def spares_def touches_def)

lemma leaves_none: "touches {} m \<Longrightarrow> sys_leaves X m"
  by (rule leaves_touches) auto

lemma leaves_andthen: "sys_leaves X m \<Longrightarrow> (\<And>x. sys_leaves X (f x)) \<Longrightarrow> sys_leaves X (andthen m f)"
  unfolding sys_leaves_def andthen_def by (auto split: prod.splits sum.splits) (metis snd_conv spares_trans)+

lemma leaves_if: "sys_leaves X m \<Longrightarrow> sys_leaves X n \<Longrightarrow> sys_leaves X (if b then m else n)"
  by simp

lemma leaves_replace: "at dir name \<in> X \<Longrightarrow> sys_leaves X (replace_contents dir name p contents mode owner source)"
  unfolding sys_leaves_def
proof
  fix s assume X: "at dir name \<in> X"
  obtain names s1 where t: "temp_names s = (Inr names, s1)" "node_at s1 = node_at s"
    by (auto simp: temp_names_def node_at_def fun_eq_iff)
  obtain r s2 where c: "create_exclusive dir p mode names s1 = (r, s2)" by force
  note cs = create_exclusive_spec [OF c]
  show "spares X s (snd (replace_contents dir name p contents mode owner source s))"
  proof (cases r)
    case (Inl e)
    then show ?thesis using t c cs by (simp add: replace_contents_def andthen_def spares_def)
  next
    case (Inr n)
    obtain r3 s3 where g: "guarded (at dir n) (fill_temp (at dir n) (at dir name) p contents mode owner source) s2 = (r3, s3)" by force
    have tg: "touches {at dir n, at dir name} (guarded (at dir n) (fill_temp (at dir n) (at dir name) p contents mode owner source))"
      by (intro touches_guarded touches_fill_temp) simp
    have "node_at s3 k = node_at s k" if "k \<noteq> at dir n" "k \<noteq> at dir name" for k
      using touchesD [OF tg g, of k] that cs Inr t(2) by auto
    moreover have "node_at s (at dir n) = None" using cs Inr t(2) by simp
    moreover have "node_at (snd (replace_contents dir name p contents mode owner source s)) = node_at s3"
    proof (cases r3)
      case (Inl e)
      then show ?thesis using t c Inr g by (simp add: replace_contents_def andthen_def)
    next
      case (Inr x)
      have "touches {} (andthen (fsync p) (\<lambda>_. ret x))" by (intro touch)
      then have "node_at (snd (andthen (fsync p) (\<lambda>_. ret x) s3)) = node_at s3" by (auto simp: touches_def)
      then show ?thesis using t c \<open>r = Inr n\<close> Inr g by (simp add: replace_contents_def andthen_def [of temp_names]
            andthen_def [of "create_exclusive dir p mode names"] andthen_def [of "guarded _ _"])
    qed
    ultimately show ?thesis using X unfolding spares_def by (metis (no_types))
  qed
qed


lemma touches_create_exclusive: "touches {k. butlast k = dir} (create_exclusive dir p mode names)"
proof (rule touches_local)
  fix s k assume "k \<notin> {k. butlast k = dir}"
  then have ne: "k \<noteq> at dir n" for n by auto
  obtain r s' where c: "create_exclusive dir p mode names s = (r, s')" by force
  then show "node_at (snd (create_exclusive dir p mode names s)) k = node_at s k"
    using create_exclusive_spec [OF c] ne by (cases r) auto
qed

lemma touches_write_in_place: "touches {at dir name} (write_in_place dir name p found contents)"
  unfolding write_in_place_def by (intro touch) auto

lemma touches_rotate: "touches {k. butlast k = dir} (rotate_backups dir keep newest)"
proof -
  have names: "touches X (backup_names dir)" for X
    unfolding backup_names_def by (intro touches_andthen touches_syscall touches_local) auto
  have un: "touches {k. butlast k = dir} (unlink_names dir ns)" for ns by (rule touches_unlink_names) auto
  show ?thesis unfolding rotate_backups_def Let_def by (intro touch names un)
qed

lemma touches_write_backup: "touches {k. butlast k = dir} (write_backup E dir contents d now)"
proof -
  have "touches {k. butlast k = dir} (ensure_backup_dir dir)" unfolding ensure_backup_dir_def by (intro touch)
  then show ?thesis unfolding write_backup_def by (intro touch touches_create_exclusive) auto
qed

lemma touches_take_backup: "touches {k. butlast k = rq_backup_dir req} (take_backup E req existing)"
  unfolding take_backup_def by (intro touch touches_write_backup touches_rotate)

definition write_keys :: "write_request \<Rightarrow> key set" where
  "write_keys req = {k. k = rq_path req \<or> butlast k = rq_backup_dir req \<or> rq_in_place req = IpMarker k}"

lemma sys_leaves_at: "sys_leaves X m \<Longrightarrow> spares X s s' \<Longrightarrow> spares X s (snd (m s'))"
  by (meson spares_trans sys_leaves_def)

lemma leaves_write_over:
  assumes path: "rq_path req = at dir name"
  shows "sys_leaves (write_keys req) (write_over E req dir name existing backup)"
  unfolding sys_leaves_def
proof
  fix s
  let ?X = "write_keys req"
  obtain r s1 where rp: "replace_contents dir name (rq_path req) (rq_contents req)
      (case existing of Some f \<Rightarrow> f_mode f | None \<Rightarrow> rq_create_mode req)
      (map_option (\<lambda>f. (f_uid f, f_gid f)) existing) existing s = (r, s1)" by force
  have X: "at dir name \<in> ?X" using path by (simp add: write_keys_def)
  have s1: "spares ?X s s1" using sys_leavesD [OF leaves_replace [OF X] rp] .
  have wip: "sys_leaves ?X (write_in_place dir name p found c)" for p found c
    by (rule leaves_touches [OF touches_write_in_place]) (use X in simp)
  have guard: "sys_leaves ?X (andthen (write_in_place dir name p found c) (\<lambda>_. ret True))" for p found c
    by (rule leaves_andthen [OF wip], rule leaves_none, rule touches_plain)
  have mark: "sys_leaves ?X (andthen (write_marker E marker rec) (\<lambda>_ s1.
        case write_in_place dir name p f contents s1 of
          (Inr _, s2) \<Rightarrow> andthen (remove_marker marker) (\<lambda>_. ret True) s2
        | (Inl (Failed e), s2) \<Rightarrow>
            (case e of AeIo op _ _ \<Rightarrow> if op = lit ''openat'' then andthen (remove_marker marker) (\<lambda>_. stop_with e) s2
                                      else (Inl (Failed e), s2)
             | _ \<Rightarrow> (Inl (Failed e), s2))
        | (Inl Killed, s2) \<Rightarrow> (Inl Killed, s2)))"
    if "rq_in_place req = IpMarker marker" for marker rec p f contents
  proof (rule leaves_andthen)
    have mk: "{marker} \<subseteq> ?X" using that by (simp add: write_keys_def)
    show "sys_leaves ?X (write_marker E marker rec)" by (rule leaves_touches [OF touches_marker(1) mk])
    have rm: "sys_leaves ?X (andthen (remove_marker marker) (\<lambda>_. ret v))"
      "sys_leaves ?X (andthen (remove_marker marker) (\<lambda>_. stop_with e))" for v :: bool and e
      by (rule leaves_andthen [OF leaves_touches [OF touches_marker(2) mk]], rule leaves_none, rule touches_plain)+
    show "sys_leaves ?X (\<lambda>s1. case write_in_place dir name p f contents s1 of
          (Inr _, s2) \<Rightarrow> andthen (remove_marker marker) (\<lambda>_. ret True) s2
        | (Inl (Failed e), s2) \<Rightarrow>
            (case e of AeIo op _ _ \<Rightarrow> if op = lit ''openat'' then andthen (remove_marker marker) (\<lambda>_. stop_with e) s2
                                      else (Inl (Failed e), s2)
             | _ \<Rightarrow> (Inl (Failed e), s2))
        | (Inl Killed, s2) \<Rightarrow> (Inl Killed, s2))"
      unfolding sys_leaves_def
    proof
      fix s1
      obtain r2 s2 where w: "write_in_place dir name p f contents s1 = (r2, s2)" by force
      have "spares ?X s1 s2" using sys_leavesD [OF wip w] .
      then show "spares ?X s1 (snd (case write_in_place dir name p f contents s1 of
          (Inr _, s2) \<Rightarrow> andthen (remove_marker marker) (\<lambda>_. ret True) s2
        | (Inl (Failed e), s2) \<Rightarrow>
            (case e of AeIo op _ _ \<Rightarrow> if op = lit ''openat'' then andthen (remove_marker marker) (\<lambda>_. stop_with e) s2
                                      else (Inl (Failed e), s2)
             | _ \<Rightarrow> (Inl (Failed e), s2))
        | (Inl Killed, s2) \<Rightarrow> (Inl Killed, s2)))"
        using w sys_leaves_at [OF rm(1)] sys_leaves_at [OF rm(2)]
        by (auto split: sum.splits stop.splits atomic_error.splits)
    qed
  qed
  show "spares ?X s (snd (write_over E req dir name existing backup s))"
    using rp s1 sys_leaves_at [OF guard s1] sys_leaves_at [OF mark s1]
    by (auto simp: write_over_def split: sum.splits stop.splits option.splits in_place.splits)
qed

lemma leaves_write_atomic: "sys_leaves (write_keys req) (write_atomic E req)"
proof -
  have b: "{k. butlast k = rq_backup_dir req} \<subseteq> write_keys req" by (auto simp: write_keys_def)
  have ce: "touches {} (check_expected E req existing)" for existing
    unfolding check_expected_def Let_def by (intro touch)
  have "sys_leaves (write_keys req) (write_existing E req dir name existing)" if "rq_path req = at dir name" for dir name existing
    unfolding write_existing_def
    by (intro leaves_andthen leaves_none [OF ce] leaves_touches [OF touches_take_backup b] leaves_write_over [OF that]
        leaves_none [OF touches_plain(1)])
  then have body: "sys_leaves (write_keys req)
      (andthen (if rq_create_missing req then create_dir_all (lit ''create_dir_all'') dir else ret ()) (\<lambda>_.
       andthen (open_dir dir) (\<lambda>_. andthen (read_existing dir name (rq_path req)) (\<lambda>existing. write_existing E req dir name existing))))"
    if "rq_path req = at dir name" for dir name
    using that by (intro leaves_andthen) (auto intro: leaves_none touch)
  show ?thesis
  proof (cases "split_path (rq_path req)")
    case (Inl e)
    then show ?thesis by (simp add: write_atomic_def leaves_none touches_plain)
  next
    case (Inr dn)
    then show ?thesis using body split_path_at [of "rq_path req"] by (cases dn) (simp add: write_atomic_def)
  qed
qed

lemma leaves_restore:
  "sys_leaves {k. k = target \<or> butlast k = butlast backup \<or> mode = IpMarker k} (restore_backup_with E backup target expected mode)"
proof -
  let ?X = "{k. k = target \<or> butlast k = butlast backup \<or> mode = IpMarker k}"
  have w: "sys_leaves ?X (write_atomic E ((write_request_new target c (butlast backup))\<lparr>rq_expected_prev := expected, rq_in_place := mode\<rparr>))" for c
    using leaves_write_atomic [of "(write_request_new target c (butlast backup))\<lparr>rq_expected_prev := expected, rq_in_place := mode\<rparr>" E]
    by (simp add: write_keys_def write_request_new_def)
  have "sys_leaves ?X (andthen (read_with_digest E backup) (\<lambda>(contents, _).
       write_atomic E ((write_request_new target contents (butlast backup))\<lparr>rq_expected_prev := expected, rq_in_place := mode\<rparr>)))"
    by (rule leaves_andthen [OF leaves_none [OF touches_read_with_digest]]) (auto simp: w split: prod.splits)
  then show ?thesis by (auto simp: restore_backup_with_def leaves_none touches_plain)
qed

section \<open>The handlers\<close>

definition leaves :: "key set \<Rightarrow> ('h, 'a) mon \<Rightarrow> bool" where
  "leaves X m \<longleftrightarrow> (\<forall>w. spares X (w_os w) (w_os (snd (m w))))"

named_theorems leaving

lemma leavesD: "leaves X m \<Longrightarrow> m w = (r, w') \<Longrightarrow> spares X (w_os w) (w_os w')"
  by (metis leaves_def snd_conv)

lemma leaves_plain [leaving]: "leaves X (mret x)" "leaves X (wreads f)" "leaves X (hook_call g)" "leaves X (clock_to t)"
  "leaves X (chan_send resp fault)"
  by (auto simp: leaves_def mret_def wreads_def hook_call_def clock_to_def chan_send_def split: prod.splits option.splits)

lemma leaves_mbind [leaving]: "leaves X m \<Longrightarrow> (\<And>x. leaves X (f x)) \<Longrightarrow> leaves X (mbind m f)"
  unfolding leaves_def mbind_def by (auto split: prod.splits option.splits) (metis snd_conv spares_trans)+

lemma leaves_os: "sys_leaves X m \<Longrightarrow> leaves X (os_call m)"
  unfolding leaves_def os_call_def sys_leaves_def by (auto split: prod.splits sum.splits stop.splits) (metis snd_conv)+

lemma leaves_os_none [leaving]: "touches {} m \<Longrightarrow> leaves X (os_call m)"
  by (rule leaves_os [OF leaves_none])

lemma leaves_cases [leaving]:
  "leaves X m \<Longrightarrow> leaves X n \<Longrightarrow> leaves X (if b then m else n)"
  "leaves X m \<Longrightarrow> (\<And>x. leaves X (g x)) \<Longrightarrow> leaves X (case v of None \<Rightarrow> m | Some x \<Rightarrow> g x)"
  "(\<And>x. leaves X (g1 x)) \<Longrightarrow> (\<And>x. leaves X (g2 x)) \<Longrightarrow> leaves X (case u of Inl x \<Rightarrow> g1 x | Inr x \<Rightarrow> g2 x)"
  "(\<And>a b. leaves X (h a b)) \<Longrightarrow> leaves X (case p of (a, b) \<Rightarrow> h a b)"
  by (auto split: option.splits sum.splits prod.splits)

text \<open>What \<^verbatim>\<open>tempfile\<close> documents: a file that was not there is created, or nothing happens.\<close>

definition tempfile_ok :: "('h, 'j, 'v) menv \<Rightarrow> bool" where
  "tempfile_ok E \<longleftrightarrow> (\<forall>prefix dir s. case me_tempfile E prefix dir s of
       (Inr k, s') \<Rightarrow> node_at s k = None \<and> (\<exists>f. node_at s' k = Some (Reg f) \<and> f_contents f = [])
         \<and> (\<forall>k'. k' \<noteq> k \<longrightarrow> node_at s' k' = node_at s k')
     | (Inl _, s') \<Rightarrow> node_at s' = node_at s)"

text \<open>A candidate: either a refusal, or a file that was not there before.\<close>

definition creates :: "('h, ('e, key) result) mon \<Rightarrow> bool" where
  "creates m \<longleftrightarrow> (\<forall>w. spares {} (w_os w) (w_os (snd (m w)))
     \<and> (\<forall>k. fst (m w) = Some (Inr k) \<longrightarrow> node_at (w_os w) k = None))"

lemma creates_leaves: "creates m \<Longrightarrow> leaves {} m"
  by (simp add: creates_def leaves_def)

lemma creates_refusal: "leaves {} (m :: ('h, ('e, key) result) mon) \<Longrightarrow> (\<And>w k. fst (m w) \<noteq> Some (Inr k)) \<Longrightarrow> creates m"
  by (simp add: creates_def leaves_def)

lemma creates_mbind:
  assumes "leaves {} m" and "\<And>w x w'. m w = (Some x, w') \<Longrightarrow> node_at (w_os w') = node_at (w_os w)" and "\<And>x. creates (f x)"
  shows "creates (mbind m f)"
  unfolding creates_def
proof (intro allI conjI impI)
  fix w k
  show "spares {} (w_os w) (w_os (snd (mbind m f w)))"
    using leaves_mbind [OF assms(1) creates_leaves [OF assms(3)]] by (simp add: leaves_def)
  assume k: "fst (mbind m f w) = Some (Inr k)"
  then obtain x w' where "m w = (Some x, w')" "fst (f x w') = Some (Inr k)"
    by (auto simp: mbind_def split: prod.splits option.splits)
  then show "node_at (w_os w) k = None" using assms(2,3) by (metis creates_def)
qed

lemma creates_cases:
  "creates m \<Longrightarrow> creates n \<Longrightarrow> creates (if b then m else n)"
  "creates m \<Longrightarrow> (\<And>x. creates (g x)) \<Longrightarrow> creates (case v of None \<Rightarrow> m | Some x \<Rightarrow> g x)"
  "(\<And>x. creates (g1 x)) \<Longrightarrow> (\<And>x. creates (g2 x)) \<Longrightarrow> creates (case u of Inl x \<Rightarrow> g1 x | Inr x \<Rightarrow> g2 x)"
  by (auto split: option.splits sum.splits)

lemma creates_refuse: "creates (mret (Inl err))"
  by (simp add: creates_def mret_def)

lemma os_call_nodes: "touches {} m \<Longrightarrow> os_call m w = (x, w') \<Longrightarrow> node_at (w_os w') = node_at (w_os w)"
proof -
  assume t: "touches {} m" and o: "os_call m w = (x, w')"
  obtain r s where m: "m (w_os w) = (r, s)" by force
  have "node_at s = node_at (w_os w)" using touchesD [OF t m] by auto
  moreover have "w_os w' = s" using o m by (auto simp: os_call_def split: sum.splits stop.splits)
  ultimately show ?thesis by simp
qed

lemma sys_mkdir_touches: "touches {} (sys_mkdir d)"
  unfolding sys_mkdir_def by (intro touches_andthen touches_syscall touches_local) (auto simp: node_at_def)

text \<open>Computations that change no file at all.\<close>

definition inert :: "('h, 'a) mon \<Rightarrow> bool" where
  "inert m \<longleftrightarrow> (\<forall>w. node_at (w_os (snd (m w))) = node_at (w_os w))"

named_theorems inerts

lemma inert_plain [inerts]: "inert (mret x)" "inert (wreads f)" "inert (hook_call g)" "inert (clock_to t)" "inert (chan_send resp fault)"
  by (auto simp: inert_def mret_def wreads_def hook_call_def clock_to_def chan_send_def split: prod.splits option.splits)

lemma inert_os [inerts]: "touches {} m \<Longrightarrow> inert (os_call m)"
  unfolding inert_def by (metis os_call_nodes prod.collapse)

lemma inert_mbind [inerts]: "inert m \<Longrightarrow> (\<And>x. inert (f x)) \<Longrightarrow> inert (mbind m f)"
  unfolding inert_def mbind_def by (auto split: prod.splits option.splits) (metis snd_conv)+

lemma inert_cases [inerts]:
  "inert m \<Longrightarrow> inert n \<Longrightarrow> inert (if b then m else n)"
  "inert m \<Longrightarrow> (\<And>x. inert (g x)) \<Longrightarrow> inert (case v of None \<Rightarrow> m | Some x \<Rightarrow> g x)"
  "(\<And>x. inert (g1 x)) \<Longrightarrow> (\<And>x. inert (g2 x)) \<Longrightarrow> inert (case u of Inl x \<Rightarrow> g1 x | Inr x \<Rightarrow> g2 x)"
  "(\<And>a b. inert (h a b)) \<Longrightarrow> inert (case p of (a, b) \<Rightarrow> h a b)"
  by (auto split: option.splits sum.splits prod.splits)

lemma inert_leaves: "inert m \<Longrightarrow> leaves X m"
  by (simp add: inert_def leaves_def spares_def)

lemma creates_after: "inert m \<Longrightarrow> (\<And>x. creates (f x)) \<Longrightarrow> creates (mbind m f)"
  by (rule creates_mbind [OF inert_leaves]) (metis inert_def snd_conv)+

lemma creates_candidate:
  fixes g :: "atomic_error \<Rightarrow> ('h, ('e, key) result) mon"
  assumes "tempfile_ok E" and "\<And>e. creates (g e)"
  shows "creates (mbind (os_call (create_candidate E dir)) (\<lambda>r. case r of Inr k \<Rightarrow> mret (Inr k) | Inl e \<Rightarrow> g e))"
  unfolding creates_def
proof (intro allI)
  fix w :: "'h world"
  let ?m = "mbind (os_call (create_candidate E dir)) (\<lambda>r. case r of Inr k \<Rightarrow> mret (Inr k) | Inl e \<Rightarrow> g e)"
  obtain r s where t: "me_tempfile E CANDIDATE_PREFIX dir (w_os w) = (r, s)" by force
  have "case me_tempfile E CANDIDATE_PREFIX dir (w_os w) of
       (Inr k, s') \<Rightarrow> node_at (w_os w) k = None \<and> (\<exists>f. node_at s' k = Some (Reg f) \<and> f_contents f = [])
         \<and> (\<forall>k'. k' \<noteq> k \<longrightarrow> node_at s' k' = node_at (w_os w) k')
     | (Inl _, s') \<Rightarrow> node_at s' = node_at (w_os w)"
    using assms(1) [unfolded tempfile_ok_def, THEN spec, THEN spec, THEN spec] .
  then have ok: "case r of Inr k \<Rightarrow> node_at (w_os w) k = None \<and> (\<forall>k'. k' \<noteq> k \<longrightarrow> node_at s k' = node_at (w_os w) k')
      | Inl _ \<Rightarrow> node_at s = node_at (w_os w)"
    using t by (auto split: sum.splits)
  show "spares {} (w_os w) (w_os (snd (?m w))) \<and> (\<forall>k. fst (?m w) = Some (Inr k) \<longrightarrow> node_at (w_os w) k = None)"
  proof (cases r)
    case (Inr k)
    then have "?m w = (Some (Inr k), w\<lparr>w_os := s\<rparr>)" using t by (simp add: mbind_def os_call_def create_candidate_def mret_def)
    then show ?thesis using ok Inr by (auto simp: spares_def) (metis option.distinct(1))
  next
    case (Inl e)
    show ?thesis
    proof (cases e)
      case Killed
      then have "?m w = (None, w\<lparr>w_os := s\<rparr>)" using t Inl by (simp add: mbind_def os_call_def create_candidate_def)
      then show ?thesis using ok Inl by (simp add: spares_def)
    next
      case (Failed err)
      then have "?m w = g err (w\<lparr>w_os := s\<rparr>)" using t Inl by (simp add: mbind_def os_call_def create_candidate_def)
      moreover have "node_at (w_os (w\<lparr>w_os := s\<rparr>)) = node_at (w_os w)" using ok Inl by simp
      ultimately show ?thesis using assms(2) [of err, unfolded creates_def, rule_format, of "w\<lparr>w_os := s\<rparr>"]
        by (simp add: spares_def)
    qed
  qed
qed

lemma creates_stage:
  assumes "tempfile_ok E"
  shows "creates (stage_candidate E)"
proof -
  have st: "inert (ensure_staging_dir E)" unfolding ensure_staging_dir_def
    by (intro inerts touches_create_dir_all sys_mkdir_touches)
  have eq: "(\<lambda>r. mret (map_err cannot_create r)) = (\<lambda>r. case r of Inr k \<Rightarrow> mret (Inr k) | Inl e \<Rightarrow> mret (Inl (cannot_create e)))"
    by (auto simp: fun_eq_iff map_err_def split: sum.splits)
  show ?thesis unfolding stage_candidate_def eq
    by (intro creates_after [OF st] creates_cases creates_refuse creates_candidate [OF assms])
qed

lemma creates_check_candidate:
  assumes "tempfile_ok E"
  shows "creates (create_check_candidate E M cid spec)"
  unfolding create_check_candidate_def
  by (intro creates_after inert_plain creates_cases creates_stage [OF assms] creates_refuse creates_candidate [OF assms])

lemma leaves_judge:
  assumes "tempfile_ok E"
  shows "leaves {} (judge_candidate E M cid spec b)"
  unfolding leaves_def
proof
  fix w :: "'a world"
  obtain r w1 where c: "create_check_candidate E M cid spec w = (r, w1)" by force
  note cr = creates_check_candidate [OF assms, unfolded creates_def, rule_format, of w M cid spec]
  have s1: "spares {} (w_os w) (w_os w1)" using cr c by simp
  show "spares {} (w_os w) (w_os (snd (judge_candidate E M cid spec b w)))"
  proof (cases "\<exists>k. r = Some (Inr k)")
    case True
    then obtain k where k: "r = Some (Inr k)" "node_at (w_os w) k = None" using cr c by auto
    define rest where "rest = mbind
             (mbind (os_call (write_all_and_sync k b)) (\<lambda>r.
                case r of
                  Inl err \<Rightarrow> mret (Inl (PeIo (lit ''cannot write the candidate file: '' @ kind_text (error_kind_of err))))
                | Inr _ \<Rightarrow>
                    mbind (wreads w_os) (\<lambda>os.
                    mbind (hook_call (hk_run_check (me_hooks E) spec k os)) (\<lambda>out.
                      mret (map_err hook_to_proto out))))) (\<lambda>answer.
           mbind (os_call (sys_unlink k k)) (\<lambda>_. mret answer))"
    have "touches {k} (write_all_and_sync k b)" unfolding write_all_and_sync_def by (intro touch) simp
    then have "leaves {k} rest" unfolding rest_def
      by (intro leaves_mbind leaves_cases leaves_plain leaves_os leaves_touches touches_unlink) auto
    then have "spares {k} (w_os w1) (w_os (snd (rest w1)))" by (simp add: leaves_def)
    then have "spares {} (w_os w) (w_os (snd (rest w1)))" using s1 k(2) unfolding spares_def by (metis singletonD)
    moreover have "judge_candidate E M cid spec b w = rest w1" using c k(1) by (simp add: judge_candidate_def mbind_def rest_def)
    ultimately show ?thesis by simp
  next
    case False
    then show ?thesis using c s1 by (auto simp: judge_candidate_def mbind_def mret_def split: option.splits sum.splits)
  qed
qed

lemma leaves_judge_all: "tempfile_ok E \<Longrightarrow> leaves {} (judge_all E M b cs)"
  by (induction cs) (auto intro!: leaves_mbind leaves_judge leaves_plain split: sum.splits)

lemma leaves_mono: "leaves X m \<Longrightarrow> X \<subseteq> Y \<Longrightarrow> leaves Y m"
  unfolding leaves_def by (meson spares_mono)

lemma leaves_revalidate: "tempfile_ok E \<Longrightarrow> leaves {} (revalidate E M m target previous b)"
  unfolding revalidate_def by (intro leaves_cases leaves_plain leaves_judge_all)

lemma leaves_run_check:
  assumes "tempfile_ok E"
  shows "leaves {} (run_check E M i b)"
proof -
  have "inert (read_all E ts)" for ts
    by (induction ts) (auto intro!: inerts touches_read_with_digest)
  then show ?thesis unfolding run_check_def
    by (intro leaves_cases leaves_plain leaves_mbind inert_leaves leaves_judge [OF assms])
qed

lemma inert_read_target: "inert (read_target E M i)"
  unfolding read_target_def by (intro inerts touches_read_with_digest)

lemma inert_service: "inert (service E M i action)" "inert (reload_unit_files E M m)" "inert (mount E M i)" "inert (start_update E tag)"
  unfolding service_def reload_unit_files_def mount_def start_update_def by (intro inerts)+

lemma touches_list_backups: "touches {} (list_backups E dir)"
proof (rule touches_local)
  fix s k
  have e: "touches {} (list_entries E dir ns)" for ns
    by (induction ns) (auto intro!: touch split: prod.splits)
  have n: "touches {} (backup_names dir)"
    unfolding backup_names_def by (intro touches_andthen touches_syscall touches_local) auto
  obtain r s1 where b: "backup_names dir s = (r, s1)" by force
  have "node_at s1 k = node_at s k" using touchesD [OF n b] by simp
  moreover have "node_at (snd (list_entries E dir ns s1)) k = node_at s1 k" for ns using e by (simp add: touches_def)
  ultimately show "node_at (snd (list_backups E dir s)) k = node_at s k"
    using b by (auto simp: list_backups_def split: sum.splits stop.splits atomic_error.splits)
qed

lemma inert_collect_rows: "inert (collect_rows E ts)"
  by (induction ts) (auto intro!: inerts touches_list_backups split: sum.splits)

lemma inert_collect_backups: "inert (collect_backups E M m)" "inert (list_module_backups E M m)"
  unfolding collect_backups_def list_module_backups_def by (intro inerts inert_collect_rows)+

section \<open>Confinement\<close>

definition entry_ok :: "allowlist \<Rightarrow> rollback_entry \<Rightarrow> bool" where
  "entry_ok al e \<longleftrightarrow> (\<exists>t \<in> set (al_targets al). components (re_path e) = entry_key t
     \<and> butlast (re_backup e) = components (te_backup_dir t))"

text \<open>The monitor's journal and pending commit name allow-listed files and their backups.\<close>

definition entries_ok :: "monitor \<Rightarrow> bool" where
  "entries_ok M \<longleftrightarrow> list_all (entry_ok (mo_allow M)) (mo_journal M)
     \<and> (case mo_pending M of None \<Rightarrow> True | Some p \<Rightarrow> list_all (entry_ok (mo_allow M)) (pc_entries p))"

definition allowed_keys :: "monitor \<Rightarrow> key set" where
  "allowed_keys M =
     {k. (\<exists>t \<in> set (al_targets (mo_allow M)). k = entry_key t \<or> butlast k = components (te_backup_dir t))
         \<or> k = in_place_marker_key M \<or> k = marker_key M}"

lemma allowed_keys_cong: "mo_allow M' = mo_allow M \<Longrightarrow> allowed_keys M' = allowed_keys M"
  by (simp add: allowed_keys_def in_place_marker_key_def marker_key_def state_key_def)

definition confined :: "monitor \<Rightarrow> ('h, 'r \<times> monitor) mon \<Rightarrow> bool" where
  "confined M m \<longleftrightarrow> leaves (allowed_keys M) m
     \<and> (\<forall>w r M' w'. m w = (Some (r, M'), w') \<longrightarrow> mo_allow M' = mo_allow M \<and> entries_ok M')"

lemma confined_ret: "mo_allow M' = mo_allow M \<Longrightarrow> entries_ok M' \<Longrightarrow> confined M (mret (r, M'))"
  by (auto simp: confined_def leaves_plain mret_def)

lemma confined_mbind: "leaves (allowed_keys M) m \<Longrightarrow> (\<And>x. confined M (f x)) \<Longrightarrow> confined M (mbind m f)"
  unfolding confined_def by (auto intro!: leaves_mbind simp: mbind_def split: prod.splits option.splits)

lemma confined_cases:
  "confined M m \<Longrightarrow> confined M n \<Longrightarrow> confined M (if b then m else n)"
  "confined M m \<Longrightarrow> (\<And>x. confined M (g x)) \<Longrightarrow> confined M (case v of None \<Rightarrow> m | Some x \<Rightarrow> g x)"
  "(\<And>x. confined M (g1 x)) \<Longrightarrow> (\<And>x. confined M (g2 x)) \<Longrightarrow> confined M (case u of Inl x \<Rightarrow> g1 x | Inr x \<Rightarrow> g2 x)"
  by (auto split: option.splits sum.splits)

lemma confined_seq:
  assumes "confined M m" and "\<And>r M'. mo_allow M' = mo_allow M \<Longrightarrow> entries_ok M' \<Longrightarrow> confined M' (f (r, M'))"
  shows "confined M (mbind m f)"
  unfolding confined_def
proof (intro conjI allI impI)
  show "leaves (allowed_keys M) (mbind m f)" unfolding leaves_def
  proof
    fix w
    obtain v w1 where m: "m w = (v, w1)" by force
    have "leaves (allowed_keys M) m" using assms(1) by (simp add: confined_def)
    from leavesD [OF this m] have s1: "spares (allowed_keys M) (w_os w) (w_os w1)" .
    show "spares (allowed_keys M) (w_os w) (w_os (snd (mbind m f w)))"
    proof (cases v)
      case (Some rM)
      obtain r M' where rM: "rM = (r, M')" by force
      then have a: "mo_allow M' = mo_allow M" "entries_ok M'" using assms(1) m Some unfolding confined_def by blast+
      have "confined M' (f (r, M'))" by (rule assms(2) [OF a])
      moreover have "allowed_keys M' = allowed_keys M" using a(1) by (rule allowed_keys_cong)
      ultimately have "leaves (allowed_keys M) (f (r, M'))" by (simp add: confined_def)
      then show ?thesis using m Some rM s1 by (auto simp: mbind_def leaves_def intro: spares_trans)
    qed (use m s1 in \<open>simp add: mbind_def\<close>)
  qed
next
  fix w r M'' w'
  assume "mbind m f w = (Some (r, M''), w')"
  then obtain r1 M1 w1 where "m w = (Some (r1, M1), w1)" "f (r1, M1) w1 = (Some (r, M''), w')"
    by (auto simp: mbind_def split: prod.splits option.splits)
  then show "mo_allow M'' = mo_allow M" "entries_ok M''" using assms unfolding confined_def by metis+
qed

lemma confined_answer: "leaves (allowed_keys M) m \<Longrightarrow> entries_ok M \<Longrightarrow> confined M (answer M m)"
  unfolding answer_def by (intro confined_mbind confined_ret) simp_all

lemma al_target_in: "al_target al i = Some e \<Longrightarrow> e \<in> set (al_targets al)"
  by (auto simp: al_target_def get_def split: if_splits)

lemma write_outcome_backup:
  assumes "write_atomic E req s = (Inr out, s')" and "wo_backup out = Some b"
  shows "butlast b = rq_backup_dir req"
proof -
  have tb: "butlast b = rq_backup_dir req" if "take_backup E req existing s1 = (Inr (Some b), s2)" for existing s1 s2
    using that take_backup_spec [of E req _ s1] by (cases existing) (auto simp: take_backup_def ret_def)
  show ?thesis using assms
    by (auto simp: write_atomic_def write_existing_def andthen_def lift_def ret_def stop_with_def intro: tb
        split: sum.splits prod.splits)
qed

lemma confined_write_target:
  assumes "tempfile_ok E" and "entries_ok M"
  shows "confined M (write_target E M i expected b journal)"
proof (cases "al_target (mo_allow M) i")
  case None
  then show ?thesis using assms by (simp add: write_target_def confined_ret)
next
  case (Some t)
  note t = al_target_in [OF Some]
  let ?req = "target_request M t expected b"
  have keys: "write_keys ?req \<subseteq> allowed_keys M"
    using t by (auto simp: write_keys_def target_request_def allowed_keys_def)
  have rw: "entries_ok (record_write M i t out journal)" "mo_allow (record_write M i t out journal) = mo_allow M"
    if "\<And>bk. wo_backup out = Some bk \<Longrightarrow> butlast bk = components (te_backup_dir t)" for out
    using assms(2) t that
    by (auto simp: record_write_def entries_ok_def entry_ok_def entry_key_def split: option.splits)
  have wr: "confined M (mbind (os_call (write_atomic (me_fs E) ?req)) (\<lambda>written.
      case written of
        Inl err \<Rightarrow> mret (RsError (atomic_to_proto err), M)
      | Inr out \<Rightarrow> mret (RsWritten \<lparr>wr_target = i, wr_prev_digest = wo_prev_digest out,
            wr_new_digest = wo_new_digest out, wr_created = wo_created out,
            wr_backed_up = (wo_backup out \<noteq> None), wr_owner_preserved = wo_owner_preserved out\<rparr>,
          record_write M i t out journal)))" (is "confined M (mbind ?w ?k)")
    unfolding confined_def
  proof (intro conjI allI impI)
    have lv: "leaves (allowed_keys M) ?w"
      by (rule leaves_mono [OF leaves_os [OF leaves_write_atomic] keys])
    then show "leaves (allowed_keys M) (mbind ?w ?k)" by (intro leaves_mbind leaves_cases leaves_plain)
    fix w r M' w' assume run: "mbind ?w ?k w = (Some (r, M'), w')"
    obtain v w1 where v: "os_call (write_atomic (me_fs E) ?req) w = (Some v, w1)" "?k v w1 = (Some (r, M'), w')"
      using run by (auto simp: mbind_def split: prod.splits option.splits)
    show "mo_allow M' = mo_allow M" "entries_ok M'"
    proof -
      have "mo_allow M' = mo_allow M \<and> entries_ok M'"
      proof (cases v)
        case (Inl err)
        then show ?thesis using v(2) assms(2) by (auto simp: mret_def)
      next
        case (Inr out)
        obtain s1 where "write_atomic (me_fs E) ?req (w_os w) = (Inr out, s1)"
          using v(1) Inr by (auto simp: os_call_def split: prod.splits sum.splits stop.splits)
        from write_outcome_backup [OF this] have "\<And>bk. wo_backup out = Some bk \<Longrightarrow> butlast bk = components (te_backup_dir t)"
          by (simp add: target_request_def)
        from rw [OF this] show ?thesis using v(2) Inr by (auto simp: mret_def)
      qed
      then show "mo_allow M' = mo_allow M" "entries_ok M'" by simp_all
    qed
  qed
  have M: "confined M (mret (r, M))" for r :: response by (rule confined_ret) (use assms in simp_all)
  show ?thesis unfolding write_target_def Some option.case
    by (intro confined_mbind confined_cases M wr leaves_os_none touches_read_with_digest
        leaves_mono [OF leaves_revalidate [OF assms(1)]]) simp
qed

lemma list_backups_dir:
  assumes "list_backups E dir s = (Inr es, s')" and "e \<in> set es"
  shows "butlast (ba_path e) = dir"
proof -
  have le: "list_entries E dir ns s1 = (Inr es, s2) \<Longrightarrow> e \<in> set es \<Longrightarrow> butlast (ba_path e) = dir" for ns s1 s2 es
  proof (induction ns arbitrary: s1 s2 es)
    case (Cons n ns)
    then show ?case
      by (auto simp: andthen_def ret_def reads_def split: prod.splits sum.splits)
  qed (simp add: ret_def)
  show ?thesis using assms
    by (auto simp: list_backups_def intro: le split: prod.splits sum.splits stop.splits atomic_error.splits if_splits)
qed

definition row_ok :: "target_entry list \<Rightarrow> backup_row \<Rightarrow> bool" where
  "row_ok ts row \<longleftrightarrow> (\<exists>t \<in> set ts. fst (snd row) = entry_key t \<and> butlast (ba_path (snd (snd row))) = components (te_backup_dir t))"

lemma collect_rows_ok: "collect_rows E ts w = (Some (Inr found), w') \<Longrightarrow> row \<in> set found \<Longrightarrow> row_ok ts row"
proof (induction ts arbitrary: w w' found)
  case (Cons t ts)
  obtain es w1 more w2 where r: "os_call (list_backups (me_fs E) (components (te_backup_dir t))) w = (Some (Inr es), w1)"
    "collect_rows E ts w1 = (Some (Inr more), w2)" "found = map (\<lambda>e. (te_id t, entry_key t, e)) es @ more"
    using Cons.prems(1)
    by (auto simp: mbind_def mret_def bind_result_eq_Inr split: prod.splits option.splits sum.splits)
  obtain s1 where "list_backups (me_fs E) (components (te_backup_dir t)) (w_os w) = (Inr es, s1)"
    using r(1) by (auto simp: os_call_def split: prod.splits sum.splits stop.splits)
  from list_backups_dir [OF this] show ?case
    using Cons.IH [OF r(2)] Cons.prems(2) r(3) by (auto simp: row_ok_def)
qed (simp add: mret_def)

lemma collect_backups_ok:
  assumes "collect_backups E M m w = (Some (Inr entries), w')" and "(info, source, target) \<in> set entries"
  shows "\<exists>t \<in> set (al_targets (mo_allow M)). target = entry_key t \<and> butlast source = components (te_backup_dir t)"
proof -
  obtain found where f: "collect_rows E (targets_of (mo_allow M) m) w = (Some (Inr found), w')"
    "entries = map (\<lambda>(index, row). (backup_info_of index row, ba_path (snd (snd row)), fst (snd row))) (enumerate 0 (sort_key row_key found))"
    using assms(1)
    by (auto simp: collect_backups_def mbind_def mret_def bind_result_eq_Inr split: prod.splits option.splits if_splits)
  obtain i row where "(i, row) \<in> set (enumerate 0 (sort_key row_key found))" "source = ba_path (snd (snd row))" "target = fst (snd row)"
    using assms(2) f(2) by auto
  moreover from this have "row \<in> set found" by (auto simp: in_set_enumerate_eq) (metis length_sort nth_mem set_sort)
  ultimately show ?thesis using collect_rows_ok [OF f(1), of row] by (auto simp: row_ok_def targets_of_def)
qed

lemma leaves_restore_keys:
  assumes "t \<in> set (al_targets (mo_allow M))" and "target = entry_key t" and "butlast source = components (te_backup_dir t)"
  shows "leaves (allowed_keys M) (os_call (restore_backup_with F source target expected (IpMarker (in_place_marker_key M))))"
  by (rule leaves_mono [OF leaves_os [OF leaves_restore]]) (use assms in \<open>auto simp: allowed_keys_def\<close>)

lemma leaves_restore_request: "leaves (allowed_keys M) (restore E M m backup)"
  unfolding leaves_def
proof
  fix w :: "'a world"
  obtain r w1 where c: "collect_backups E M m w = (r, w1)" by force
  have s1: "spares (allowed_keys M) (w_os w) (w_os w1)"
    using leavesD [OF inert_leaves [OF inert_collect_backups(1)] c] .
  show "spares (allowed_keys M) (w_os w) (w_os (snd (restore E M m backup w)))"
  proof (cases "\<exists>entries info source target. r = Some (Inr entries) \<and> get entries backup = Some (info, source, target)")
    case True
    then obtain entries info source target where e: "r = Some (Inr entries)" "get entries backup = Some (info, source, target)" by blast
    have "(info, source, target) \<in> set entries" using e(2) by (auto simp: get_def split: if_splits) (metis nth_mem)
    then obtain t where t: "t \<in> set (al_targets (mo_allow M))" "target = entry_key t" "butlast source = components (te_backup_dir t)"
      using collect_backups_ok c e(1) by blast
    have "leaves (allowed_keys M) (mbind (os_call (restore_backup_with (me_fs E) source target None (IpMarker (in_place_marker_key M)))) (\<lambda>out.
        mret (case out of Inr o1 \<Rightarrow> RsRestored (bk_target info) (wo_new_digest o1) | Inl err \<Rightarrow> RsError (atomic_to_proto err))))"
      by (intro leaves_mbind leaves_restore_keys [OF t] leaves_plain)
    then show ?thesis using c e s1 by (auto simp: restore_def mbind_def [of "collect_backups E M m"] leaves_def intro: spares_trans)
  next
    case False
    then have "snd (restore E M m backup w) = w1" using c
      by (auto simp: restore_def mbind_def mret_def split: option.splits sum.splits)
    then show ?thesis using s1 by simp
  qed
qed

lemma leaves_restore_entries:
  "list_all (entry_ok (mo_allow M)) es \<Longrightarrow> leaves (allowed_keys M) (restore_entries E (in_place_marker_key M) es)"
proof (induction es)
  case (Cons e es)
  obtain t where "t \<in> set (al_targets (mo_allow M))" "components (re_path e) = entry_key t" "butlast (re_backup e) = components (te_backup_dir t)"
    using Cons.prems by (auto simp: entry_ok_def)
  then show ?case using Cons by (auto intro!: leaves_mbind leaves_restore_keys leaves_plain)
qed (simp add: leaves_plain)

lemma leaves_clear_marker: "leaves (allowed_keys M) (clear_marker M)"
  unfolding clear_marker_def
  by (intro leaves_mbind leaves_plain leaves_os leaves_touches [OF touches_unlink]) (auto simp: allowed_keys_def)

lemma inert_replay:
  "inert (stop_started_mounts E M es)" "inert (replay_reload E M es)" "inert (replay_service E M svc)"
  unfolding stop_started_mounts_def replay_reload_def replay_service_def by (intro inerts)+

lemma leaves_undo:
  assumes "list_all (entry_ok (mo_allow M)) (pc_entries p)"
  shows "leaves (allowed_keys M) (undo_pending E M p)"
proof -
  have "list_all (entry_ok (mo_allow M)) (rev (pc_entries p))" using assms by (simp add: list_all_iff)
  then show ?thesis unfolding undo_pending_def roll_back_def
    by (intro leaves_mbind leaves_plain inert_leaves [OF inert_replay(1)] inert_leaves [OF inert_replay(2)]
        inert_leaves [OF inert_replay(3)] leaves_restore_entries leaves_clear_marker)
qed

lemma entries_ok_forget: "entries_ok M \<Longrightarrow> entries_ok (forget_pending M)" "mo_allow (forget_pending M) = mo_allow M"
  by (simp_all add: entries_ok_def forget_pending_def)

lemma touches_open_create: "k \<in> X \<Longrightarrow> touches X (open_create k mode trunc)"
  unfolding open_create_def by (intro touches_andthen touches_syscall touches_local) (auto split: option.splits node.splits)

lemma leaves_write_pending_marker: "leaves (allowed_keys M) (write_pending_marker E M marker)"
proof -
  have "touches {marker_key M} (write_private (marker_key M) b)" for b
    unfolding write_private_def by (intro touches_andthen touches_open_create touches_write_file touches_fsync) simp_all
  then have w: "leaves (allowed_keys M) (os_call (write_private (marker_key M) b))" for b
    by (intro leaves_os leaves_touches) (auto simp: allowed_keys_def)
  show ?thesis unfolding write_pending_marker_def
    by (intro leaves_mbind leaves_cases leaves_plain w leaves_os_none [OF touches_create_dir_all])
qed

lemma pending_entries: "entries_ok M \<Longrightarrow> mo_pending M = Some p \<Longrightarrow> list_all (entry_ok (mo_allow M)) (pc_entries p)"
  by (simp add: entries_ok_def)

lemma confined_deadline:
  assumes "entries_ok M"
  shows "confined M (enforce_deadline E M)" and "confined M (rollback_pending_on_exit E M)" and "confined M (rollback_commit E M commit)"
proof -
  have f: "confined M (mret (r, forget_pending M))" for r :: "(monitor_error, 'x) result"
    by (rule confined_ret) (use assms entries_ok_forget in simp_all)
  have m: "confined M (mret (r, M))" for r :: "(monitor_error, 'x) result" by (rule confined_ret) (use assms in simp_all)
  show "confined M (enforce_deadline E M)" unfolding enforce_deadline_def
    by (cases "mo_pending M") (auto intro!: confined_mbind leaves_plain confined_cases m f leaves_undo [OF pending_entries [OF assms]])
  show "confined M (rollback_pending_on_exit E M)" unfolding rollback_pending_on_exit_def
    by (cases "mo_pending M") (auto intro!: confined_mbind m f leaves_undo [OF pending_entries [OF assms]])
  show "confined M (rollback_commit E M commit)" unfolding rollback_commit_def
    by (cases "mo_pending M") (auto intro!: confined_mbind m f leaves_undo [OF pending_entries [OF assms]])
qed

lemma confined_start_timer:
  assumes "entries_ok M"
  shows "confined M (start_confirm_timer E M commit timeout svc)"
proof (cases "mo_pending M")
  case None
  have ok: "entries_ok (M\<lparr>mo_journal := []\<rparr>)"
    "entries_ok (M\<lparr>mo_journal := [], mo_pending := Some \<lparr>pc_commit = c, pc_deadline = d, pc_entries = mo_journal M, pc_service = svc\<rparr>\<rparr>)" for c d
    using assms None by (simp_all add: entries_ok_def)
  have "leaves (allowed_keys M) (write_pending_marker E (M\<lparr>mo_journal := []\<rparr>) marker)" for marker
    using leaves_write_pending_marker [of "M\<lparr>mo_journal := []\<rparr>"] allowed_keys_cong [of "M\<lparr>mo_journal := []\<rparr>" M] by simp
  moreover have "touches {} sys_now" by (rule touches_plain)
  ultimately show ?thesis using None ok unfolding start_confirm_timer_def Let_def
    by (auto intro!: confined_mbind leaves_plain leaves_os_none confined_ret split: sum.splits)
qed (use assms in \<open>simp add: start_confirm_timer_def confined_ret\<close>)

lemma confined_confirm:
  assumes "entries_ok M"
  shows "confined M (confirm_commit E M commit)"
proof -
  have m: "confined M (mret (r, M))" "confined M (mret (r, forget_pending M))" for r :: "(monitor_error, response) result"
    by (rule confined_ret; use assms entries_ok_forget in simp)+
  have e: "confined M (mbind (enforce_deadline E M) (\<lambda>(r, M1). mret (bind_result r f, M1)))" for f :: "unit \<Rightarrow> (monitor_error, response) result"
    by (rule confined_seq [OF confined_deadline(1) [OF assms]]) (auto intro: confined_ret)
  show ?thesis unfolding confirm_commit_def
    by (intro confined_mbind confined_cases leaves_plain m e leaves_clear_marker leaves_cases leaves_mbind)
qed

lemma confined_handle:
  assumes "tempfile_ok E" and "entries_ok M"
  shows "confined M (handle E M req)"
proof (cases req)
  case (RqWriteTarget i expected b journal)
  have "confined M (mbind (write_target E M i expected b journal) (\<lambda>(r, M1). mret (Inr r :: (monitor_error, response) result, M1)))"
    by (rule confined_seq [OF confined_write_target [OF assms]]) (auto intro: confined_ret)
  then show ?thesis using RqWriteTarget by simp
qed (use assms in \<open>auto intro!: confined_answer confined_start_timer confined_confirm confined_deadline(3) leaves_plain
    leaves_mono [OF leaves_run_check] leaves_restore_request
    inert_leaves [OF inert_read_target] inert_leaves [OF inert_service(1)] inert_leaves [OF inert_service(2)]
    inert_leaves [OF inert_service(3)] inert_leaves [OF inert_service(4)] inert_leaves [OF inert_collect_backups(2)]\<close>)

lemma confined_serve_request:
  assumes "tempfile_ok E" and "entries_ok M"
  shows "confined M (serve_request E held M req)"
proof -
  have g: "entries_ok (M\<lparr>mo_greeted := True\<rparr>)" using assms(2) by (simp add: entries_ok_def split: option.splits)
  show ?thesis using assms g confined_handle [OF assms, of req]
    by (auto simp: serve_request_def dispatch_def intro!: confined_ret split: request.splits)
qed

lemma confined_serve_loop:
  assumes "tempfile_ok E" and "entries_ok M"
  shows "confined M (serve_loop E held idle timeout M evs)"
  using assms(2)
proof (induction evs arbitrary: timeout M)
  case Nil
  then show ?case by (simp add: confined_ret)
next
  case (Cons ev evs)
  have m: "confined M (mret (r, M))" if "entries_ok M" for r :: "(monitor_error, exit_reason) result option" and M
    by (rule confined_ret) (use that in simp_all)
  have nxt: "confined M (mbind (clock_to (ev_end ev)) (\<lambda>_. mbind (enforce_deadline E M) (\<lambda>(r, M2).
      case r of Inl err \<Rightarrow> mret (Some (Inl err), M2) | Inr _ \<Rightarrow> serve_loop E held idle want M2 evs)))"
    if "entries_ok M" for M want
    by (rule confined_mbind [OF leaves_plain(4)], rule confined_seq [OF confined_deadline(1) [OF that]])
      (auto intro!: confined_cases m Cons.IH)
  have srv: "confined M (mbind (serve_request E held M req) (\<lambda>(r, M1).
      case r of
        Inl err \<Rightarrow> mret (Some (Inl err), M1)
      | Inr resp \<Rightarrow>
          mbind (chan_send resp (ev_send ev)) (\<lambda>fault.
            case fault of
              Some e \<Rightarrow> mret (Some (finish_send_error e), M1)
            | None \<Rightarrow>
                if req = RqShutdown then mret (Some (Inr ExitShutdown), M1)
                else if fatal_response resp then mret (Some (Inr ExitProtocolMismatch), M1)
                else mbind (clock_to (ev_end ev)) (\<lambda>_. mbind (enforce_deadline E M1) (\<lambda>(r, M2).
                  case r of Inl err \<Rightarrow> mret (Some (Inl err), M2) | Inr _ \<Rightarrow> serve_loop E held idle want M2 evs)))))" for req want
    by (rule confined_seq [OF confined_serve_request [OF assms(1) Cons.prems]])
      (auto intro!: confined_cases m nxt confined_mbind leaves_plain)
  show ?case unfolding serve_loop.simps Let_def
    by (intro confined_cases m Cons.prems nxt confined_mbind [OF leaves_plain(4)] srv)
qed

lemma confined_serve_locked:
  assumes "tempfile_ok E" and "entries_ok M"
  shows "confined M (serve_locked E held idle M evs)"
  unfolding serve_locked_def
proof (rule confined_seq [OF confined_serve_loop [OF assms]])
  fix r :: "(monitor_error, exit_reason) result option" and M' :: monitor
  assume "mo_allow M' = mo_allow M" and ok: "entries_ok M'"
  have "confined M' (mbind (rollback_pending_on_exit E M') (\<lambda>(cleanup, M2). mret (Some (f cleanup), M2)))"
    for f :: "(monitor_error, unit) result \<Rightarrow> (monitor_error, exit_reason) result"
    by (rule confined_seq [OF confined_deadline(2) [OF ok]]) (auto intro: confined_ret)
  then show "confined M' (case (r, M') of (r, M1) \<Rightarrow> case r of None \<Rightarrow> mret (None, M1)
       | Some result \<Rightarrow> mbind (rollback_pending_on_exit E M1) (\<lambda>(cleanup, M2).
             mret (Some (exit_result result cleanup), M2)))"
    using ok by (cases r) (auto intro: confined_ret)
qed

text \<open>C3. Confinement: whatever the worker sends, in any order, with any failure of a call and if the process
  dies at any point, every file that exists and is neither an allow-listed target, nor in the backup directory
  of one, nor one of the two markers, is unchanged.\<close>

theorem monitor_confined:
  assumes "tempfile_ok E" and "entries_ok M" and "k \<notin> allowed_keys M" and "node_at (w_os w) k \<noteq> None"
  shows "node_at (w_os (snd (serve_locked E held idle M evs w))) k = node_at (w_os w) k"
  using confined_serve_locked [OF assms(1,2), of held idle evs] assms(3,4)
  by (auto simp: confined_def leaves_def spares_def)

lemma ex_tempfile_ok: "tempfile_ok ex_env"
  unfolding tempfile_ok_def
proof (intro allI)
  fix prefix dir s
  obtain r s' where c: "create_exclusive dir dir 384 [prefix @ lit ''1'', prefix @ lit ''2''] s = (r, s')" by force
  from create_exclusive_spec [OF c]
  show "case me_tempfile ex_env prefix dir s of
       (Inr k, s') \<Rightarrow> node_at s k = None \<and> (\<exists>f. node_at s' k = Some (Reg f) \<and> f_contents f = [])
         \<and> (\<forall>k'. k' \<noteq> k \<longrightarrow> node_at s' k' = node_at s k')
     | (Inl _, s') \<Rightarrow> node_at s' = node_at s"
    by (cases r) (auto simp: ex_env_def ex_tempfile_def andthen_def ret_def c simp del: create_exclusive.simps)
qed

lemma ex_keys [simp]:
  "entry_key ex_target = ex_dir [''etc'', ''hosts'']"
  "components (te_backup_dir ex_target) = ex_dir [''var'', ''lib'', ''detent'', ''backups'', ''hosts'', ''0'']"
  "state_key ex_monitor = ex_dir [''var'', ''lib'', ''detent'']"
  by code_simp+

lemma ex_allowed: "ex_dir [''etc'', ''passwd''] \<notin> allowed_keys ex_monitor"
proof -
  have "al_targets (mo_allow ex_monitor) = [ex_target]" by (simp add: ex_monitor_def monitor_new_def ex_allow_def)
  then show ?thesis
    by (auto simp: allowed_keys_def in_place_marker_key_def marker_key_def at_def ex_dir_def lit_eq_iff)
qed

lemma ex_entries_ok: "entries_ok ex_monitor"
  by (simp add: entries_ok_def ex_monitor_def monitor_new_def)

definition ex_events :: "chan_event list" where
  "ex_events = map (\<lambda>req. \<lparr>ev_set_timeout = None, ev_recv = Inr (Some req), ev_at = 1, ev_send = None, ev_end = 2\<rparr>)
     [RqHello PROTO_VERSION, RqWriteTarget 0 None [7] True, RqStartConfirmTimer 1 5 None]"

theorem monitor_confined_witness:
  "node_at (w_os (snd (serve_locked ex_env True 30 ex_monitor ex_events (ex_world [Fine, Fine, Fine, Fine, Kill 1]))))
     (ex_dir [''etc'', ''passwd'']) = node_at (ex_os []) (ex_dir [''etc'', ''passwd''])"
  using monitor_confined [OF ex_tempfile_ok ex_entries_ok ex_allowed,
      of "ex_world [Fine, Fine, Fine, Fine, Kill 1]" True 30 ex_events]
  by (simp add: ex_world_def ex_os_def node_at_def ex_dir_def lit_eq_iff)

section \<open>Without the lock, before the handshake\<close>

definition readonly :: "('h, 'r \<times> monitor) mon \<Rightarrow> bool" where
  "readonly m \<longleftrightarrow> leaves {} m \<and> (\<forall>w r M' w'. m w = (Some (r, M'), w') \<longrightarrow> mo_pending M' = None)"

lemma readonly_ret: "mo_pending M = None \<Longrightarrow> readonly (mret (r, M))"
  by (auto simp: readonly_def leaves_plain mret_def)

lemma readonly_mbind: "leaves {} m \<Longrightarrow> (\<And>x. readonly (f x)) \<Longrightarrow> readonly (mbind m f)"
  unfolding readonly_def by (auto intro!: leaves_mbind simp: mbind_def split: prod.splits option.splits)

lemma readonly_seq:
  assumes "readonly m" and "\<And>r M'. mo_pending M' = None \<Longrightarrow> readonly (f (r, M'))"
  shows "readonly (mbind m f)"
  unfolding readonly_def
proof (intro conjI allI impI)
  show "leaves {} (mbind m f)" unfolding leaves_def
  proof
    fix w
    obtain v w1 where m: "m w = (v, w1)" by force
    have "leaves {} m" using assms(1) by (simp add: readonly_def)
    from leavesD [OF this m] have s1: "spares {} (w_os w) (w_os w1)" .
    show "spares {} (w_os w) (w_os (snd (mbind m f w)))"
    proof (cases v)
      case (Some rM)
      obtain r M' where rM: "rM = (r, M')" by force
      then have "mo_pending M' = None" using assms(1) m Some unfolding readonly_def by blast
      from assms(2) [OF this] have "leaves {} (f (r, M'))" by (simp add: readonly_def)
      then show ?thesis using m Some rM s1 by (auto simp: mbind_def leaves_def intro: spares_trans)
    qed (use m s1 in \<open>simp add: mbind_def\<close>)
  qed
next
  fix w r M'' w'
  assume "mbind m f w = (Some (r, M''), w')"
  then obtain r1 M1 w1 where "m w = (Some (r1, M1), w1)" "f (r1, M1) w1 = (Some (r, M''), w')"
    by (auto simp: mbind_def split: prod.splits option.splits)
  then show "mo_pending M'' = None" using assms unfolding readonly_def by metis
qed

lemma readonly_cases:
  "readonly m \<Longrightarrow> readonly n \<Longrightarrow> readonly (if b then m else n)"
  "readonly m \<Longrightarrow> (\<And>x. readonly (g x)) \<Longrightarrow> readonly (case v of None \<Rightarrow> m | Some x \<Rightarrow> g x)"
  "(\<And>x. readonly (g1 x)) \<Longrightarrow> (\<And>x. readonly (g2 x)) \<Longrightarrow> readonly (case u of Inl x \<Rightarrow> g1 x | Inr x \<Rightarrow> g2 x)"
  by (auto split: option.splits sum.splits)

lemma readonly_answer: "leaves {} m \<Longrightarrow> mo_pending M = None \<Longrightarrow> readonly (answer M m)"
  unfolding answer_def by (intro readonly_mbind readonly_ret)

lemma readonly_handle:
  assumes "tempfile_ok E" and "mo_pending M = None" and "\<not> changes_state req"
  shows "readonly (handle E M req)"
  using assms
  by (cases req) (auto intro!: readonly_answer leaves_plain leaves_run_check inert_leaves [OF inert_read_target]
      inert_leaves [OF inert_service(1)] inert_leaves [OF inert_collect_backups(2)])

lemma readonly_request:
  assumes "tempfile_ok E" and "mo_pending M = None"
  shows "readonly (serve_request E False M req)"
  using assms readonly_handle [OF assms, of req]
  by (auto simp: serve_request_def dispatch_def intro!: readonly_ret split: request.splits)

lemma deadline_none: "mo_pending M = None \<Longrightarrow> enforce_deadline E M = mret (Inr (), M)"
  by (simp add: enforce_deadline_def mbind_def wreads_def mret_def fun_eq_iff)

lemma exit_none: "mo_pending M = None \<Longrightarrow> rollback_pending_on_exit E M = mret (Inr (), M)"
  by (simp add: rollback_pending_on_exit_def)

lemma mbind_mret [simp]: "mbind (mret x) f = f x"
  by (simp add: mbind_def mret_def fun_eq_iff)

lemma readonly_loop:
  assumes "tempfile_ok E" and "mo_pending M = None"
  shows "readonly (serve_loop E False idle timeout M evs)"
  using assms(2)
proof (induction evs arbitrary: timeout M)
  case Nil
  then show ?case by (simp add: readonly_ret)
next
  case (Cons ev evs)
  have nxt: "readonly (mbind (clock_to (ev_end ev)) (\<lambda>_. mbind (enforce_deadline E M) (\<lambda>(r, M2).
      case r of Inl err \<Rightarrow> mret (Some (Inl err), M2) | Inr _ \<Rightarrow> serve_loop E False idle want M2 evs)))"
    if "mo_pending M = None" for M want
    by (rule readonly_mbind [OF leaves_plain(4)]) (simp add: deadline_none [OF that] Cons.IH [OF that])
  show ?case unfolding serve_loop.simps Let_def
    by (intro readonly_cases readonly_ret Cons.prems nxt readonly_mbind [OF leaves_plain(4)]
        readonly_seq [OF readonly_request [OF assms(1) Cons.prems]])
      (auto intro!: readonly_cases readonly_ret nxt readonly_mbind leaves_plain)
qed

text \<open>A monitor that does not hold the state lock changes no file that exists and arms nothing, whatever
  it is asked.\<close>

theorem lockless_monitor_writes_nothing:
  assumes "tempfile_ok E" and "mo_pending M = None" and "node_at (w_os w) k \<noteq> None"
  shows "node_at (w_os (snd (serve_locked E False idle M evs w))) k = node_at (w_os w) k
    \<and> (\<forall>r M' w'. serve_locked E False idle M evs w = (Some (r, M'), w') \<longrightarrow> mo_pending M' = None)"
proof -
  have "readonly (serve_locked E False idle M evs)" unfolding serve_locked_def
  proof (rule readonly_seq [OF readonly_loop [OF assms(1,2)]])
    fix r :: "(monitor_error, exit_reason) result option" and M' :: monitor
    assume p: "mo_pending M' = None"
    then show "readonly (case (r, M') of (r, M1) \<Rightarrow> case r of None \<Rightarrow> mret (None, M1)
       | Some result \<Rightarrow> mbind (rollback_pending_on_exit E M1) (\<lambda>(cleanup, M2).
             mret (Some (exit_result result cleanup), M2)))"
      by (cases r) (auto simp: exit_none [OF p] intro: readonly_ret)
  qed
  then show ?thesis using assms(3) by (auto simp: readonly_def leaves_def spares_def)
qed

theorem lockless_monitor_writes_nothing_witness:
  "node_at (w_os (snd (serve_locked ex_env False 30 ex_monitor ex_events (ex_world [])))) (ex_dir [''etc'', ''hosts''])
     = node_at (ex_os []) (ex_dir [''etc'', ''hosts''])"
  using lockless_monitor_writes_nothing [OF ex_tempfile_ok, of ex_monitor "ex_world []" "ex_dir [''etc'', ''hosts'']" 30 ex_events]
  by (simp add: ex_world_def ex_os_def node_at_def ex_dir_def ex_monitor_def monitor_new_def)

lemma ungreeted_request:
  assumes "\<not> mo_greeted M" and "req \<noteq> RqHello PROTO_VERSION"
  shows "\<exists>e. serve_request E held M req = mret (Inr (RsError e), M) \<and> fatal_response (RsError e)"
  using assms by (cases req) (auto simp: serve_request_def dispatch_def fatal_response_def)

definition brief :: "monitor \<Rightarrow> 'h world \<Rightarrow> ('r \<times> monitor) option \<times> 'h world \<Rightarrow> bool" where
  "brief M w x \<longleftrightarrow> (\<exists>r sent t. x = (Some (r, M), w\<lparr>w_instant := t, w_sent := w_sent w @ sent\<rparr>)
     \<and> length sent \<le> 1 \<and> list_all fatal_response sent)"

lemma brief_ret: "brief M w (mret (r, M) w)"
  by (auto simp: brief_def mret_def intro!: exI [of _ "[]"] exI [of _ "w_instant w"])

lemma brief_clock: "brief M (w\<lparr>w_instant := t\<rparr>) x \<Longrightarrow> brief M w x"
  unfolding brief_def by fastforce

lemma brief_send:
  assumes "fatal_response resp"
  shows "brief M w (mbind (chan_send resp fault) (\<lambda>f. case f of Some e \<Rightarrow> mret (g e, M) | None \<Rightarrow> mret (r, M)) w)"
proof (cases fault)
  case None
  then show ?thesis using assms
    by (auto simp: brief_def mbind_def chan_send_def mret_def intro!: exI [of _ "[resp]"] exI [of _ "w_instant w"])
next
  case (Some e)
  then show ?thesis using brief_ret by (simp add: mbind_def chan_send_def)
qed

lemma brief_tick: "(\<And>w. brief M w (f () w)) \<Longrightarrow> brief M w (mbind (clock_to t) f w)"
  by (rule brief_clock [where t = "max t (w_instant w)"]) (simp add: mbind_def clock_to_def)

lemma ungreeted_loop:
  assumes "\<not> mo_greeted M" and "mo_pending M = None" and "\<forall>ev \<in> set evs. ev_recv ev \<noteq> Inr (Some (RqHello PROTO_VERSION))"
  shows "brief M w (serve_loop E held idle timeout M evs w)"
  using assms(3)
proof (induction evs arbitrary: timeout w)
  case Nil
  then show ?case by (simp add: brief_ret)
next
  case (Cons ev evs)
  let ?next = "\<lambda>want. mbind (clock_to (ev_end ev)) (\<lambda>_. mbind (enforce_deadline E M) (\<lambda>(r, M2).
      case r of Inl err \<Rightarrow> mret (Some (Inl err), M2) | Inr _ \<Rightarrow> serve_loop E held idle want M2 evs))"
  have nxt: "brief M w (?next want w)" for want
    by (rule brief_tick) (use Cons in \<open>simp add: deadline_none [OF assms(2)]\<close>)
  show ?case
  proof (cases "\<exists>req. ev_recv ev = Inr (Some req)")
    case True
    then obtain req where req: "ev_recv ev = Inr (Some req)" by blast
    then have "req \<noteq> RqHello PROTO_VERSION" using Cons.prems by auto
    then obtain e where e: "serve_request E held M req = mret (Inr (RsError e), M)" "fatal_response (RsError e)"
      using ungreeted_request [OF assms(1)] by blast
    have "brief M w (mbind (chan_send (RsError e) (ev_send ev)) (\<lambda>f. case f of
        Some e \<Rightarrow> mret (Some (finish_send_error e), M)
      | None \<Rightarrow> mret (Some (Inr (if req = RqShutdown then ExitShutdown else ExitProtocolMismatch)), M)) w)" for w
      by (rule brief_send [OF e(2)])
    then show ?thesis
      by (auto simp: Let_def req e brief_ret cong: option.case_cong intro!: brief_tick split: option.splits)
        (auto simp: mbind_def chan_send_def brief_ret split: option.splits)
  next
    case False
    then show ?thesis using nxt by (auto simp: Let_def brief_ret split: option.splits sum.splits)
  qed
qed

text \<open>Before the handshake nothing is served: a worker that never greets with the right protocol version
  changes no file, reaches no validator and no service, and gets at most one response, an error that closes
  the channel.\<close>

theorem nothing_before_handshake:
  assumes "\<not> mo_greeted M" and "mo_pending M = None" and "\<forall>ev \<in> set evs. ev_recv ev \<noteq> Inr (Some (RqHello PROTO_VERSION))"
  shows "\<exists>r sent t. serve_locked E held idle M evs w = (Some (r, M), w\<lparr>w_instant := t, w_sent := w_sent w @ sent\<rparr>)
    \<and> length sent \<le> 1 \<and> list_all fatal_response sent"
proof -
  obtain r sent t where l: "serve_loop E held idle idle M evs w = (Some (r, M), w\<lparr>w_instant := t, w_sent := w_sent w @ sent\<rparr>)"
    "length sent \<le> 1" "list_all fatal_response sent" using ungreeted_loop [OF assms, of w E held idle idle] unfolding brief_def by blast
  then show ?thesis
    by (cases r) (auto simp: serve_locked_def mbind_def [of "serve_loop E held idle idle M evs"] exit_none [OF assms(2)] mret_def)
qed

theorem nothing_before_handshake_witness:
  "\<exists>r sent t. serve_locked ex_env True 30 ex_monitor (tl ex_events) (ex_world [])
      = (Some (r, ex_monitor), (ex_world [])\<lparr>w_instant := t, w_sent := w_sent (ex_world []) @ sent\<rparr>)
    \<and> length sent \<le> 1 \<and> list_all fatal_response sent"
  by (rule nothing_before_handshake) (auto simp: ex_monitor_def monitor_new_def ex_events_def)

end
