(* ===== verification/Monitor_Commit.thy ===== *)
theory Monitor_Commit
  imports Monitor_Frame
begin

text \<open>
  Commit-confirm. A commit that is not confirmed is undone: at its deadline, on request, when the monitor
  stops and, if the process dies, at the next start, which does exactly what the deadline would have done.
  An edit made in the meantime is kept.
\<close>

section \<open>Computations that only reach the collaborators\<close>

definition offline :: "('h, 'a) mon \<Rightarrow> bool" where
  "offline m \<longleftrightarrow> (\<forall>w. \<exists>x h. m w = (Some x, w\<lparr>w_hooks := h\<rparr>))"

lemma offlineD: "offline m \<Longrightarrow> \<exists>x h. m w = (Some x, w\<lparr>w_hooks := h\<rparr>)"
  by (simp add: offline_def)

lemma offline_ret: "offline (mret x)"
proof -
  have "w = w\<lparr>w_hooks := w_hooks w\<rparr>" for w :: "'a world" by simp
  then show ?thesis unfolding offline_def mret_def by metis
qed

lemma offline_hook: "offline (mbind (hook_call f) (\<lambda>r. mret (g r)))"
  by (auto simp: offline_def mbind_def hook_call_def mret_def split: prod.splits)

lemma offline_replay: "offline (stop_started_mounts E M es)" "offline (replay_reload E M es)" "offline (replay_service E M svc)"
  unfolding stop_started_mounts_def replay_reload_def replay_service_def
  by (auto intro!: offline_ret offline_hook split: option.splits)

lemma os_call_Inr: "m (w_os w) = (Inr x, s) \<Longrightarrow> os_call m w = (Some (Inr x), w\<lparr>w_os := s\<rparr>)"
  by (simp add: os_call_def)

section \<open>Restoring in a calm world\<close>

definition entry_restorable :: "('h, 'j, 'v) menv \<Rightarrow> monitor \<Rightarrow> osys \<Rightarrow> rollback_entry \<Rightarrow> bytes \<Rightarrow> bool" where
  "entry_restorable E M s e c \<longleftrightarrow>
     restorable (me_fs E) s (re_backup e) (components (re_path e)) (re_new_digest e) (IpMarker (in_place_marker_key M)) c"

text \<open>The entries do not get in each other's way.\<close>

definition apart :: "monitor \<Rightarrow> rollback_entry list \<Rightarrow> bool" where
  "apart M es \<longleftrightarrow>
     distinct (map (\<lambda>e. components (re_path e)) es) \<and> distinct (map (\<lambda>e. butlast (re_backup e)) es)
     \<and> (\<forall>e \<in> set es. \<forall>e' \<in> set es. butlast (components (re_path e)) \<noteq> butlast (re_backup e'))
     \<and> (\<forall>e \<in> set es. in_place_marker_key M \<noteq> components (re_path e)
          \<and> butlast (in_place_marker_key M) \<noteq> butlast (re_backup e))"

lemma fresh_temps_keep:
  assumes "fresh_temps s (node_at s) dir" and "steady s s'"
    and "\<And>k. node_at s k = None \<Longrightarrow> butlast k = dir \<Longrightarrow> node_at s' k = None"
  shows "fresh_temps s' (node_at s') dir"
  unfolding fresh_temps_def
proof
  fix t
  obtain a where "a < NAME_ATTEMPTS" "node_at s (at dir (lit ''.detent-tmp-'' @ os_token s t a)) = None"
    using assms(1) by (auto simp: fresh_temps_def)
  moreover have "os_token s' = os_token s" using assms(2) by (simp add: steady_def)
  ultimately show "\<exists>a < NAME_ATTEMPTS. node_at s' (at dir (lit ''.detent-tmp-'' @ os_token s' t a)) = None"
    using assms(3) by auto
qed

lemma room_keep:
  assumes "room E s (node_at s) dir" and "steady s s'" and "\<And>k. butlast k = dir \<Longrightarrow> node_at s' k = node_at s k"
  shows "room E s' (node_at s') dir"
  using assms by (auto simp: room_def steady_def)

lemma restorable_keep:
  assumes r: "restorable E s backup target expected mode c" and st: "steady s s'"
    and same: "\<And>k. k \<noteq> other \<Longrightarrow> butlast k \<noteq> bdir \<Longrightarrow> node_at s' k = node_at s k"
    and ne: "target \<noteq> other" "butlast backup \<noteq> bdir" "butlast target \<noteq> bdir" "butlast other \<noteq> butlast backup"
    and there: "node_at s other \<noteq> None"
    and mk: "\<And>marker. mode = IpMarker marker \<Longrightarrow> marker \<noteq> other \<and> butlast marker \<noteq> bdir"
  shows "restorable E s' backup target expected mode c"
proof -
  obtain dir name bd bn f where h: "split_path target = Inr (dir, name)" "split_path backup = Inr (bd, bn)"
    "dir \<in> set (os_dirs s)" "dir \<noteq> bd" "contents_at s backup = Some c" "node_at s target = Some (Reg f)"
    "\<forall>d. expected = Some d \<longrightarrow> d = fe_sha E (f_contents f)"
    "room E s (node_at s) bd" "fresh_temps s (node_at s) dir"
    "writable s (node_at s) ((write_request_new target c bd)\<lparr>rq_in_place := mode\<rparr>)"
    "\<forall>marker. mode = IpMarker marker \<longrightarrow> butlast marker \<noteq> bd"
    using r unfolding restorable_def by blast
  have b: "butlast backup = bd" "butlast target = dir" using split_path_at [OF h(2)] split_path_at [OF h(1)] by simp_all
  have "node_at s' backup = node_at s backup" by (rule same) (use ne b in auto)
  then have 1: "contents_at s' backup = Some c" using h(5) by (simp add: contents_at_def)
  have 2: "node_at s' target = Some (Reg f)" using same [of target] ne h(6) by simp
  have 3: "room E s' (node_at s') bd" by (rule room_keep [OF h(8) st]) (rule same; use ne b in auto)
  have 4: "fresh_temps s' (node_at s') dir"
    by (rule fresh_temps_keep [OF h(9) st]) (use same ne b there in metis)
  have 5: "writable s' (node_at s') ((write_request_new target c bd)\<lparr>rq_in_place := mode\<rparr>)"
    using h(10) st same mk by (fastforce simp: writable_def steady_def write_request_new_def)
  have 6: "dir \<in> set (os_dirs s')" using h(3) st by (auto simp: steady_def)
  show ?thesis unfolding restorable_def using h 1 2 3 4 5 6 by blast
qed

lemma restore_entries_calm:
  assumes "calm (w_os w)" and "apart M es" and "list_all2 (entry_restorable E M (w_os w)) es cs"
  shows "\<exists>s'. restore_entries E (in_place_marker_key M) es w = (Some (length es), w\<lparr>w_os := s'\<rparr>) \<and> calm s' \<and> steady (w_os w) s'
    \<and> list_all2 (\<lambda>e c. contents_at s' (components (re_path e)) = Some c) es cs
    \<and> (\<forall>k. k \<notin> (\<lambda>e. components (re_path e)) ` set es \<and> butlast k \<notin> (\<lambda>e. butlast (re_backup e)) ` set es
         \<longrightarrow> node_at s' k = node_at (w_os w) k)"
  using assms
proof (induction es arbitrary: w cs)
  case Nil
  then show ?case by (auto simp: mret_def intro!: exI [of _ "w_os w"])
next
  case (Cons e es)
  obtain c cs' where cs: "cs = c # cs'" "entry_restorable E M (w_os w) e c" "list_all2 (entry_restorable E M (w_os w)) es cs'"
    using Cons.prems(3) by (cases cs) auto
  let ?t = "components (re_path e)" and ?b = "butlast (re_backup e)"
  obtain out s1 where r: "restore_backup_with (me_fs E) (re_backup e) ?t (re_new_digest e) (IpMarker (in_place_marker_key M)) (w_os w) = (Inr out, s1)"
    "calm s1" "steady (w_os w) s1" "contents_at s1 ?t = Some c"
    "\<And>k. k \<noteq> ?t \<Longrightarrow> butlast k \<noteq> ?b \<Longrightarrow> node_at s1 k = node_at (w_os w) k"
    using restore_calm [OF Cons.prems(1)] cs(2) unfolding entry_restorable_def by blast
  have there: "node_at (w_os w) ?t \<noteq> None" using cs(2) by (auto simp: entry_restorable_def restorable_def)
  have ap: "apart M es" using Cons.prems(2) by (simp add: apart_def)
  have oth: "?t \<noteq> components (re_path e')" "?b \<noteq> butlast (re_backup e')" "butlast (components (re_path e')) \<noteq> ?b"
    "butlast ?t \<noteq> butlast (re_backup e')" "in_place_marker_key M \<noteq> ?t" "butlast (in_place_marker_key M) \<noteq> ?b" if "e' \<in> set es" for e'
    using Cons.prems(2) that by (auto simp: apart_def)
  have rest: "list_all2 (entry_restorable E M s1) es cs'"
  proof (rule list.rel_mono_strong [OF cs(3)])
    fix e' c' assume e': "e' \<in> set es" "entry_restorable E M (w_os w) e' c'"
    show "entry_restorable E M s1 e' c'" unfolding entry_restorable_def
      by (rule restorable_keep [OF e'(2) [unfolded entry_restorable_def] r(3), where other = ?t and bdir = ?b])
        (use r(5) oth [OF e'(1)] there in auto)
  qed
  have "calm (w_os (w\<lparr>w_os := s1\<rparr>))" "list_all2 (entry_restorable E M (w_os (w\<lparr>w_os := s1\<rparr>))) es cs'" using r(2) rest by simp_all
  from Cons.IH [OF this(1) ap this(2)]
  obtain s2 where i: "restore_entries E (in_place_marker_key M) es (w\<lparr>w_os := s1\<rparr>) = (Some (length es), w\<lparr>w_os := s2\<rparr>)"
    "calm s2" "steady s1 s2" "list_all2 (\<lambda>e c. contents_at s2 (components (re_path e)) = Some c) es cs'"
    "\<And>k. k \<notin> (\<lambda>e. components (re_path e)) ` set es \<Longrightarrow> butlast k \<notin> (\<lambda>e. butlast (re_backup e)) ` set es \<Longrightarrow> node_at s2 k = node_at s1 k"
    by auto
  have "node_at s2 ?t = node_at s1 ?t" by (rule i(5)) (use oth in auto)
  then have "contents_at s2 ?t = Some c" using r(4) by (simp add: contents_at_def)
  moreover have "node_at s2 k = node_at (w_os w) k"
    if "k \<notin> (\<lambda>e. components (re_path e)) ` set (e # es)" "butlast k \<notin> (\<lambda>e. butlast (re_backup e)) ` set (e # es)" for k
    using i(5) [of k] r(5) [of k] that by auto
  moreover have "restore_entries E (in_place_marker_key M) (e # es) w = (Some (length (e # es)), w\<lparr>w_os := s2\<rparr>)"
    using r(1) i(1) by (simp add: mbind_def mret_def os_call_def)
  ultimately show ?case using i(2-4) r(3) cs(1) steady_trans by (intro exI [of _ s2]) auto
qed

section \<open>Undoing a pending commit\<close>

lemma clear_marker_calm:
  assumes "calm (w_os w)"
  shows "\<exists>s. clear_marker M w = (Some (Inr ()), w\<lparr>w_os := s\<rparr>) \<and> calm s \<and> node_at s = (node_at (w_os w))(marker_key M := None)"
proof (cases "node_at (w_os w) (marker_key M)")
  case None
  then show ?thesis using assms
    by (auto simp: clear_marker_def mbind_def mret_def os_call_def sys_unlink_def andthen_def syscall_calm error_kind_of_def
        fun_upd_idem intro!: exI [of _ "w_os w"])
next
  case (Some n)
  then show ?thesis using assms
    by (auto simp: clear_marker_def mbind_def mret_def os_call_def sys_unlink_def andthen_def syscall_calm node_at_del_fun
        intro!: exI [of _ "del_node (marker_key M) (w_os w)"])
qed

definition undo_exact :: "monitor \<Rightarrow> rollback_entry list \<Rightarrow> bytes list \<Rightarrow> osys \<Rightarrow> osys \<Rightarrow> bool" where
  "undo_exact M es cs s s' \<longleftrightarrow>
     list_all2 (\<lambda>e c. contents_at s' (components (re_path e)) = Some c) es cs \<and> node_at s' (marker_key M) = None
     \<and> (\<forall>k. k \<notin> (\<lambda>e. components (re_path e)) ` set es \<and> butlast k \<notin> (\<lambda>e. butlast (re_backup e)) ` set es \<and> k \<noteq> marker_key M
          \<longrightarrow> node_at s' k = node_at s k)"

lemma apart_rev: "apart M (rev es) \<longleftrightarrow> apart M es"
  by (simp add: apart_def rev_map [symmetric])

lemma undo_calm:
  assumes "calm (w_os w)" and "apart M (pc_entries p)" and "list_all2 (entry_restorable E M (w_os w)) (pc_entries p) cs"
    and "\<forall>e \<in> set (pc_entries p). marker_key M \<noteq> components (re_path e)"
  shows "\<exists>h s'. undo_pending E M p w = (Some (Inr (length (pc_entries p))), w\<lparr>w_hooks := h, w_os := s'\<rparr>)
    \<and> calm s' \<and> undo_exact M (pc_entries p) cs (w_os w) s'"
proof -
  let ?es = "pc_entries p"
  obtain x1 h1 where a1: "stop_started_mounts E M ?es w = (Some x1, w\<lparr>w_hooks := h1\<rparr>)" using offlineD [OF offline_replay(1) [of E M ?es], of w] by auto
  let ?w1 = "w\<lparr>w_hooks := h1\<rparr>"
  have "list_all2 (entry_restorable E M (w_os ?w1)) (rev ?es) (rev cs)" using assms(3) by simp
  then obtain s2 where a2: "roll_back E ?es (in_place_marker_key M) ?w1 = (Some (length ?es), ?w1\<lparr>w_os := s2\<rparr>)" "calm s2"
    "list_all2 (\<lambda>e c. contents_at s2 (components (re_path e)) = Some c) (rev ?es) (rev cs)"
    "\<forall>k. k \<notin> (\<lambda>e. components (re_path e)) ` set ?es \<and> butlast k \<notin> (\<lambda>e. butlast (re_backup e)) ` set ?es
         \<longrightarrow> node_at s2 k = node_at (w_os w) k"
    using restore_entries_calm [of ?w1 M "rev ?es" E "rev cs"] assms(1,2) by (auto simp: roll_back_def apart_rev)
  let ?w2 = "?w1\<lparr>w_os := s2\<rparr>"
  obtain x3 h3 where a3: "replay_reload E M ?es ?w2 = (Some x3, ?w2\<lparr>w_hooks := h3\<rparr>)" using offlineD [OF offline_replay(2) [of E M ?es], of ?w2] by auto
  obtain x4 h4 where a4: "replay_service E M (pc_service p) (?w2\<lparr>w_hooks := h3\<rparr>) = (Some x4, ?w2\<lparr>w_hooks := h3, w_hooks := h4\<rparr>)"
    using offlineD [OF offline_replay(3) [of E M "pc_service p"], of "?w2\<lparr>w_hooks := h3\<rparr>"] by auto
  let ?w4 = "?w2\<lparr>w_hooks := h3, w_hooks := h4\<rparr>"
  obtain s5 where a5: "clear_marker M ?w4 = (Some (Inr ()), ?w4\<lparr>w_os := s5\<rparr>)" "calm s5" "node_at s5 = (node_at s2)(marker_key M := None)"
    using clear_marker_calm [of ?w4 M] a2(2) by auto
  have "undo_pending E M p w = (Some (Inr (length ?es)), w\<lparr>w_hooks := h4, w_os := s5\<rparr>)"
    using a1 a2(1) a3 a4 a5(1) by (simp add: undo_pending_def mbind_def mret_def)
  moreover have "list_all2 (\<lambda>e c. contents_at s5 (components (re_path e)) = Some c) ?es cs"
  proof -
    have "list_all2 (\<lambda>e c. contents_at s2 (components (re_path e)) = Some c) ?es cs" using a2(3) by (simp only: list_all2_rev)
    then show ?thesis by (rule list.rel_mono_strong) (use assms(4) in \<open>force simp: contents_at_def a5(3)\<close>)
  qed
  ultimately show ?thesis using a2(4) a5 by (intro exI [of _ h4] exI [of _ s5]) (simp add: undo_exact_def)
qed

text \<open>C10. Rollback at the deadline. When the deadline of an unconfirmed commit has passed and no call fails, the
  check at the end of the turn restores the contents every written file had before, removes the marker, leaves
  every file outside the backup directories as it was, and forgets the commit.\<close>

theorem deadline_restores:
  assumes "mo_pending M = Some p" and "pc_deadline p \<le> w_instant w" and "calm (w_os w)" and "apart M (pc_entries p)"
    and "list_all2 (entry_restorable E M (w_os w)) (pc_entries p) cs"
    and "\<forall>e \<in> set (pc_entries p). marker_key M \<noteq> components (re_path e)"
  shows "\<exists>h s'. enforce_deadline E M w = (Some (Inr (), M\<lparr>mo_pending := None\<rparr>), w\<lparr>w_hooks := h, w_os := s'\<rparr>)
    \<and> undo_exact M (pc_entries p) cs (w_os w) s'"
proof -
  obtain h s' where u: "undo_pending E M p w = (Some (Inr (length (pc_entries p))), w\<lparr>w_hooks := h, w_os := s'\<rparr>)"
    "undo_exact M (pc_entries p) cs (w_os w) s'" using undo_calm [OF assms(3-6)] by blast
  then have "enforce_deadline E M w = (Some (Inr (), M\<lparr>mo_pending := None\<rparr>), w\<lparr>w_hooks := h, w_os := s'\<rparr>)"
    using assms(1,2) by (simp add: enforce_deadline_def mbind_def wreads_def mret_def forget_pending_def bind_result_def)
  then show ?thesis using u(2) by blast
qed

section \<open>Recovery after a death\<close>

lemma fs_read_calm:
  assumes "calm (w_os w)"
  shows "node_at (w_os w) k = None \<Longrightarrow> os_call (fs_read k) w = (Some (Inl (AeIo (lit ''read'') k ENOENT)), w)"
    and "contents_at (w_os w) k = Some b \<Longrightarrow> os_call (fs_read k) w = (Some (Inr b), w)"
  using assms by (auto simp: os_call_def fs_read_def andthen_def syscall_calm contents_at_def split: option.splits node.splits)

lemma recover_nothing_in_place:
  "calm (w_os w) \<Longrightarrow> node_at (w_os w) (in_place_marker_key M) = None \<Longrightarrow> recover_in_place E M w = (Some (Inr None), w)"
  by (simp add: recover_in_place_def mbind_def mret_def fs_read_calm error_kind_of_def)

text \<open>C11. Recovery is rollback. When the process died with a commit armed, the start of the next monitor, in a
  world where no call fails and the in-place marker is absent, ends in exactly the world that rolling back the
  pending commit would have ended in, and it reports as many restored files.\<close>

theorem recovery_is_rollback:
  assumes "calm (w_os w)" and "node_at (w_os w) (in_place_marker_key M) = None"
    and "contents_at (w_os w) (marker_key M) = Some (me_marker_json E m)" and "me_marker_parse E (me_marker_json E m) = Some m"
    and "pm_entries m = pc_entries p" and "pm_service m = pc_service p"
    and "apart M (pc_entries p)" and "list_all2 (entry_restorable E M (w_os w)) (pc_entries p) cs"
    and "\<forall>e \<in> set (pc_entries p). marker_key M \<noteq> components (re_path e)"
    and "\<forall>e \<in> set (pc_entries p). butlast (marker_key M) \<noteq> butlast (re_backup e)"
  shows "snd (recover_pending E M w) = snd (undo_pending E M p w)
    \<and> (\<exists>rv. fst (recover_pending E M w) = Some (Inr (Some rv)) \<and> fst (undo_pending E M p w) = Some (Inr (rv_restored rv)))"
proof -
  let ?es = "pc_entries p" and ?mk = "marker_key M"
  obtain x1 h1 where a1: "stop_started_mounts E M ?es w = (Some x1, w\<lparr>w_hooks := h1\<rparr>)"
    using offlineD [OF offline_replay(1) [of E M ?es], of w] by auto
  let ?w1 = "w\<lparr>w_hooks := h1\<rparr>"
  have "list_all2 (entry_restorable E M (w_os ?w1)) (rev ?es) (rev cs)" using assms(8) by simp
  then obtain s2 where a2: "roll_back E ?es (in_place_marker_key M) ?w1 = (Some (length ?es), ?w1\<lparr>w_os := s2\<rparr>)" "calm s2"
    "\<forall>k. k \<notin> (\<lambda>e. components (re_path e)) ` set ?es \<and> butlast k \<notin> (\<lambda>e. butlast (re_backup e)) ` set ?es
         \<longrightarrow> node_at s2 k = node_at (w_os w) k"
    using restore_entries_calm [of ?w1 M "rev ?es" E "rev cs"] assms(1,7) by (auto simp: roll_back_def apart_rev)
  let ?w2 = "?w1\<lparr>w_os := s2\<rparr>"
  obtain x3 h3 where a3: "replay_reload E M ?es ?w2 = (Some x3, ?w2\<lparr>w_hooks := h3\<rparr>)"
    using offlineD [OF offline_replay(2) [of E M ?es], of ?w2] by auto
  obtain x4 h4 where a4: "replay_service E M (pc_service p) (?w2\<lparr>w_hooks := h3\<rparr>) = (Some x4, ?w2\<lparr>w_hooks := h3, w_hooks := h4\<rparr>)"
    using offlineD [OF offline_replay(3) [of E M "pc_service p"], of "?w2\<lparr>w_hooks := h3\<rparr>"] by auto
  have "node_at s2 ?mk = node_at (w_os w) ?mk" using a2(3) assms(9,10) by auto
  then have mk: "node_at s2 ?mk \<noteq> None" using assms(3) by (auto simp: contents_at_def split: option.splits)
  then have un: "sys_unlink ?mk ?mk s2 = (Inr (), del_node ?mk s2)" using a2(2) by (simp add: sys_unlink_def andthen_def syscall_calm)
  have "undo_pending E M p w = (Some (Inr (length ?es)), w\<lparr>w_hooks := h4, w_os := del_node ?mk s2\<rparr>)"
    using a1 a2(1) a3 a4 un by (simp add: undo_pending_def clear_marker_def mbind_def mret_def os_call_def)
  moreover have "\<exists>rv. recover_pending E M w = (Some (Inr (Some rv)), w\<lparr>w_hooks := h4, w_os := del_node ?mk s2\<rparr>) \<and> rv_restored rv = length ?es"
    using a1 a2(1) a3 a4 un assms(4-6) recover_nothing_in_place [OF assms(1,2), of E] fs_read_calm(2) [OF assms(1,3)]
    by (simp add: recover_pending_def mbind_def mret_def os_call_def [of "sys_unlink _ _"])
  ultimately show ?thesis by auto
qed

section \<open>An example of a pending commit\<close>

definition ex_entry :: rollback_entry where
  "ex_entry = \<lparr>re_target = 0, re_path = lit ''/etc/hosts'',
     re_backup = ex_dir [''var'', ''lib'', ''detent'', ''backups'', ''hosts'', ''0'', ''b''], re_new_digest = Some [1, 2]\<rparr>"

definition ex_pending :: pending_commit where
  "ex_pending = \<lparr>pc_commit = 4, pc_deadline = 10, pc_entries = [ex_entry], pc_service = None\<rparr>"

definition ex_marker :: pending_commit_marker where
  "ex_marker = \<lparr>pm_commit = 4, pm_deadline_unix_ms = 10, pm_entries = [ex_entry], pm_service = None\<rparr>"

definition ex_armed_os :: osys where
  "ex_armed_os = (ex_os [])\<lparr>os_files :=
     [(ex_dir [''etc'', ''hosts''], Reg (ex_file [1, 2])),
      (ex_dir [''var'', ''lib'', ''detent'', ''backups'', ''hosts'', ''0'', ''b''], Reg (ex_file [9])),
      (ex_dir [''var'', ''lib'', ''detent'', ''pending-commit.json''], Reg (ex_file (ex_pending_json ex_marker)))]\<rparr>"

definition ex_armed :: monitor where
  "ex_armed = ex_monitor\<lparr>mo_pending := Some ex_pending\<rparr>"

definition ex_armed_world :: "unit world" where
  "ex_armed_world = \<lparr>w_os = ex_armed_os, w_hooks = (), w_instant = 20, w_sent = []\<rparr>"

lemma ex_marker_keys:
  "marker_key ex_armed = ex_dir [''var'', ''lib'', ''detent'', ''pending-commit.json'']"
  "in_place_marker_key ex_armed = ex_dir [''var'', ''lib'', ''detent'', ''write-in-progress.json'']"
  "components (re_path ex_entry) = ex_dir [''etc'', ''hosts'']"
  by code_simp+

lemma lit_simps: "lit [] = []" "lit (c # s) = of_char c # lit s"
  by (simp_all add: lit_def)

lemma ex_calm: "calm ex_armed_os"
  by (simp add: calm_def ex_armed_os_def ex_os_def ex_dir_def lit_eq_iff)

lemma ex_restorable: "entry_restorable ex_env ex_armed ex_armed_os ex_entry [9]"
proof -
  let ?t = "ex_dir [''etc'', ''hosts'']" and ?b = "ex_dir [''var'', ''lib'', ''detent'', ''backups'', ''hosts'', ''0'']"
  have n: "node_at ex_armed_os ?t = Some (Reg (ex_file [1, 2]))" "contents_at ex_armed_os (at ?b (lit ''b'')) = Some [9]"
    by (simp_all add: node_at_def contents_at_def ex_armed_os_def ex_dir_def lit_eq_iff at_def ex_file_def)
  have sp: "split_path ?t = Inr (ex_dir [''etc''], lit ''hosts'')" "split_path (at ?b (lit ''b'')) = Inr (?b, lit ''b'')"
    by (simp_all add: split_path_def ex_dir_def at_def)
  have "room ex_fs ex_armed_os (node_at ex_armed_os) ?b"
    by (auto simp: room_def ex_armed_os_def ex_os_def node_at_def ex_dir_def at_def backup_name_def NAME_ATTEMPTS_def lit_simps
        intro!: exI [of _ 0])
  moreover have "fresh_temps ex_armed_os (node_at ex_armed_os) (ex_dir [''etc''])"
    by (auto simp: fresh_temps_def ex_armed_os_def node_at_def ex_dir_def at_def NAME_ATTEMPTS_def lit_simps intro!: exI [of _ 0])
  moreover have "writable ex_armed_os (node_at ex_armed_os) ((write_request_new ?t [9] ?b)\<lparr>rq_in_place := mode\<rparr>)" for mode
    by (simp add: writable_def write_request_new_def ex_armed_os_def ex_os_def)
  ultimately have "restorable ex_fs ex_armed_os (at ?b (lit ''b'')) ?t (Some [1, 2])
      (IpMarker (ex_dir [''var'', ''lib'', ''detent'', ''write-in-progress.json''])) [9]"
    unfolding restorable_def using n sp
    by (intro exI [of _ "ex_dir [''etc'']"] exI [of _ "lit ''hosts''"] exI [of _ ?b] exI [of _ "lit ''b''"] exI [of _ "ex_file [1, 2]"])
      (simp add: ex_file_def ex_armed_os_def ex_os_def ex_dir_def lit_eq_iff)
  moreover have "at ?b (lit ''b'') = re_backup ex_entry" by (simp add: ex_entry_def at_def ex_dir_def)
  ultimately show ?thesis unfolding entry_restorable_def ex_marker_keys by (simp add: ex_env_def ex_entry_def)
qed

lemma ex_apart: "apart ex_armed [ex_entry]"
  by (simp add: apart_def ex_marker_keys) (simp add: ex_entry_def ex_dir_def lit_eq_iff)

lemma ex_armed_pending: "mo_pending ex_armed = Some ex_pending"
  by (simp add: ex_armed_def)

theorem deadline_restores_witness:
  "\<exists>h s'. enforce_deadline ex_env ex_armed ex_armed_world
      = (Some (Inr (), ex_armed\<lparr>mo_pending := None\<rparr>), ex_armed_world\<lparr>w_hooks := h, w_os := s'\<rparr>)
    \<and> undo_exact ex_armed (pc_entries ex_pending) [[9]] (w_os ex_armed_world) s'"
  by (rule deadline_restores)
    (auto simp: ex_armed_pending ex_armed_world_def ex_pending_def ex_calm ex_apart ex_restorable ex_marker_keys
      ex_dir_def lit_eq_iff)

theorem recovery_is_rollback_witness:
  "snd (recover_pending ex_env ex_armed ex_armed_world) = snd (undo_pending ex_env ex_armed ex_pending ex_armed_world)
    \<and> (\<exists>rv. fst (recover_pending ex_env ex_armed ex_armed_world) = Some (Inr (Some rv))
         \<and> fst (undo_pending ex_env ex_armed ex_pending ex_armed_world) = Some (Inr (rv_restored rv)))"
proof (rule recovery_is_rollback [where m = ex_marker and cs = "[[9]]"])
  show "calm (w_os ex_armed_world)" by (simp add: ex_armed_world_def ex_calm)
  show "node_at (w_os ex_armed_world) (in_place_marker_key ex_armed) = None"
    by (simp add: ex_marker_keys ex_armed_world_def ex_armed_os_def node_at_def ex_dir_def lit_eq_iff)
  show "contents_at (w_os ex_armed_world) (marker_key ex_armed) = Some (me_marker_json ex_env ex_marker)"
    by (simp add: ex_marker_keys ex_armed_world_def ex_armed_os_def contents_at_def node_at_def ex_dir_def lit_eq_iff ex_file_def ex_env_def)
  show "me_marker_parse ex_env (me_marker_json ex_env ex_marker) = Some ex_marker" by (simp add: ex_env_def)
  show "pm_entries ex_marker = pc_entries ex_pending" "pm_service ex_marker = pc_service ex_pending"
    by (simp_all add: ex_marker_def ex_pending_def)
  show "apart ex_armed (pc_entries ex_pending)" by (simp add: ex_pending_def ex_apart)
  show "list_all2 (entry_restorable ex_env ex_armed (w_os ex_armed_world)) (pc_entries ex_pending) [[9]]"
    by (simp add: ex_pending_def ex_armed_world_def ex_restorable)
  show "\<forall>e \<in> set (pc_entries ex_pending). marker_key ex_armed \<noteq> components (re_path e)"
    by (simp add: ex_pending_def ex_marker_keys ex_dir_def lit_eq_iff)
  show "\<forall>e \<in> set (pc_entries ex_pending). butlast (marker_key ex_armed) \<noteq> butlast (re_backup e)"
    by (simp add: ex_pending_def ex_marker_keys) (simp add: ex_entry_def ex_dir_def lit_eq_iff)
qed

section \<open>Edits survive\<close>

definition keeps_at :: "key \<Rightarrow> node \<Rightarrow> ('h, 'a) mon \<Rightarrow> bool" where
  "keeps_at t n m \<longleftrightarrow> (\<forall>w. node_at (w_os w) t = Some n \<longrightarrow> node_at (w_os (snd (m w))) t = Some n)"

lemma keeps_leaves: "leaves X m \<Longrightarrow> t \<notin> X \<Longrightarrow> keeps_at t n m"
  by (auto simp: keeps_at_def leaves_def spares_def)

lemma keeps_mbind: "keeps_at t n m \<Longrightarrow> (\<And>x. keeps_at t n (f x)) \<Longrightarrow> keeps_at t n (mbind m f)"
  unfolding keeps_at_def mbind_def by (auto split: prod.splits option.splits)

lemma keeps_os: "(\<And>s. node_at s t = Some n \<Longrightarrow> node_at (snd (m s)) t = Some n) \<Longrightarrow> keeps_at t n (os_call m)"
  unfolding keeps_at_def os_call_def by (auto split: prod.splits sum.splits stop.splits) (metis snd_conv)+

lemma restore_conflict:
  assumes "node_at s target = Some (Reg f)" and "d \<noteq> fe_sha E (f_contents f)"
    and "butlast target \<noteq> butlast backup" and "marker \<noteq> target" and "butlast marker \<noteq> butlast backup"
  shows "node_at (snd (restore_backup_with E backup target (Some d) (IpMarker marker) s)) = node_at s"
proof -
  have w: "node_at s2 = node_at s1"
    if "write_atomic E ((write_request_new target c (butlast backup))\<lparr>rq_expected_prev := Some d, rq_in_place := IpMarker marker\<rparr>) s1 = (r, s2)"
      "node_at s1 = node_at s" for c s1 r s2
    using write_atomic_spec [OF that(1), of f] assms that(2)
    by (simp add: write_request_new_def request_ok_def write_post_def)
  obtain r1 s1 where rd: "read_with_digest E backup s = (r1, s1)" by force
  have "node_at s1 = node_at s" using touchesD [OF touches_read_with_digest [of "{}"] rd] by auto
  then have "node_at (snd (write_atomic E ((write_request_new target c (butlast backup))\<lparr>rq_expected_prev := Some d,
      rq_in_place := IpMarker marker\<rparr>) s1)) = node_at s" for c
    using w [of c s1] by (metis prod.collapse)
  then show ?thesis using rd \<open>node_at s1 = node_at s\<close>
    by (cases r1) (auto simp: restore_backup_with_def andthen_def stop_with_def ret_def)
qed

text \<open>C28. An edit survives the rollback. When a file no longer holds what the commit wrote, undoing the
  commit leaves it exactly as it is, whichever calls fail and even if the process dies on the way.\<close>

theorem edit_survives_rollback:
  assumes "node_at (w_os w) t = Some (Reg f)" and "t \<noteq> in_place_marker_key M" and "t \<noteq> marker_key M"
    and "\<forall>e \<in> set (pc_entries p). butlast t \<noteq> butlast (re_backup e) \<and> butlast (in_place_marker_key M) \<noteq> butlast (re_backup e)"
    and "\<forall>e \<in> set (pc_entries p). components (re_path e) = t \<longrightarrow> (\<exists>d. re_new_digest e = Some d \<and> d \<noteq> fe_sha (me_fs E) (f_contents f))"
  shows "node_at (w_os (snd (undo_pending E M p w))) t = Some (Reg f)"
proof -
  let ?K = "keeps_at t (Reg f)"
  have off: "?K (stop_started_mounts E M es)" "?K (replay_reload E M es)" "?K (replay_service E M svc)" "?K (mret x)" for es svc x
    by (rule keeps_leaves [where X = "{}"]; simp add: inert_leaves inert_replay leaves_plain)+
  have one: "?K (os_call (restore_backup_with (me_fs E) (re_backup e) (components (re_path e)) (re_new_digest e) (IpMarker (in_place_marker_key M))))"
    if e: "e \<in> set (pc_entries p)" for e
  proof (cases "components (re_path e) = t")
    case True
    then obtain d where d: "re_new_digest e = Some d" "d \<noteq> fe_sha (me_fs E) (f_contents f)" using assms(5) e by blast
    show ?thesis
    proof (rule keeps_os)
      fix s assume n: "node_at s t = Some (Reg f)"
      then show "node_at (snd (restore_backup_with (me_fs E) (re_backup e) (components (re_path e)) (re_new_digest e)
          (IpMarker (in_place_marker_key M)) s)) t = Some (Reg f)"
        using restore_conflict [OF n d(2), of "re_backup e" "in_place_marker_key M"] assms(2,4) e True d(1) by auto
    qed
  next
    case False
    then show ?thesis
      by (intro keeps_leaves [OF leaves_os [OF leaves_restore]]) (use assms(2,4) e in auto)
  qed
  have "?K (restore_entries E (in_place_marker_key M) es)" if "set es \<subseteq> set (pc_entries p)" for es
    using that by (induction es) (auto intro!: keeps_mbind one off)
  then have rb: "?K (roll_back E (pc_entries p) (in_place_marker_key M))" by (simp add: roll_back_def)
  have "?K (os_call (sys_unlink (marker_key M) (marker_key M)))"
    by (intro keeps_leaves [OF leaves_os [OF leaves_touches [OF touches_unlink [of _ "{marker_key M}"]]]]) (use assms(3) in auto)
  then have "?K (clear_marker M)" unfolding clear_marker_def by (intro keeps_mbind off)
  then have "?K (undo_pending E M p)" unfolding undo_pending_def by (intro keeps_mbind off rb)
  then show ?thesis using assms(1) by (simp add: keeps_at_def)
qed

theorem edit_survives_rollback_witness:
  "node_at (w_os (snd (undo_pending ex_env ex_armed ex_pending
      (ex_armed_world\<lparr>w_os := put_node (ex_dir [''etc'', ''hosts'']) (Reg (ex_file [5])) (ex_armed_os\<lparr>os_script := [Fine, Fine, Kill 0]\<rparr>)\<rparr>))))
     (ex_dir [''etc'', ''hosts'']) = Some (Reg (ex_file [5]))"
  by (rule edit_survives_rollback)
    (auto simp: ex_marker_keys ex_pending_def ex_entry_def ex_dir_def lit_eq_iff ex_env_def ex_file_def)

end
