(* ===== verification/Commit_Refinement.thy ===== *)
theory Commit_Refinement
  imports Monitor_Commit
begin

text \<open>
  The commit-confirm protocol as an abstract machine with two states and no files, and the proof that the
  serving loop of the monitor refines it: whatever else the monitor does, its pending commit moves as the
  machine says. Facts about the machine then hold for the monitor.
\<close>

section \<open>The abstract machine\<close>

datatype commit_spec = NoCommit | Armed nat nat

fun spec_request :: "nat \<Rightarrow> request \<Rightarrow> commit_spec \<Rightarrow> commit_spec" where
  "spec_request now (RqStartConfirmTimer c t _) NoCommit = Armed c (now + clamp_timeout t * 1000)"
| "spec_request now (RqConfirmCommit c) (Armed c' d) = (if c = c' then NoCommit else Armed c' d)"
| "spec_request now (RqRollbackCommit c) (Armed c' d) = (if c = c' then NoCommit else Armed c' d)"
| "spec_request now _ st = st"

fun spec_answer :: "nat \<Rightarrow> request \<Rightarrow> commit_spec \<Rightarrow> response \<Rightarrow> bool" where
  "spec_answer now (RqStartConfirmTimer c t _) NoCommit r = (\<exists>n. r = RsConfirmTimerStarted c (clamp_timeout t) n)"
| "spec_answer now (RqStartConfirmTimer _ _ _) (Armed c' _) r = (r = RsError (PeCommitPending c'))"
| "spec_answer now (RqConfirmCommit c) (Armed c' d) r =
     (r = (if c \<noteq> c' then RsError (PeUnknownId IdCommit c) else if d \<le> now then RsError (PeCommitExpired c) else RsCommitted c))"
| "spec_answer now (RqRollbackCommit c) (Armed c' d) r =
     (if c \<noteq> c' then r = RsError (PeUnknownId IdCommit c) else \<exists>n. r = RsRolledBack c n)"
| "spec_answer now (RqConfirmCommit c) NoCommit r = (r = RsError (PeUnknownId IdCommit c))"
| "spec_answer now (RqRollbackCommit c) NoCommit r = (r = RsError (PeUnknownId IdCommit c))"
| "spec_answer now RqPendingCommit NoCommit r = (r = RsPending None)"
| "spec_answer now RqPendingCommit (Armed c _) r = (r = RsPending (Some c))"
| "spec_answer now _ _ _ = True"

fun spec_tick :: "nat \<Rightarrow> commit_spec \<Rightarrow> commit_spec" where
  "spec_tick now NoCommit = NoCommit"
| "spec_tick now (Armed c d) = (if d \<le> now then NoCommit else Armed c d)"

text \<open>One turn of the loop and a series of turns, with the clock.\<close>

definition spec_turn :: "chan_event \<Rightarrow> nat \<times> commit_spec \<Rightarrow> nat \<times> commit_spec" where
  "spec_turn ev x =
     (case x of (t, st) \<Rightarrow>
        let (t1, st1) = (case ev_recv ev of
               Inr (Some req) \<Rightarrow> (let t1 = max (ev_at ev) t in (t1, spec_request t1 req st))
             | _ \<Rightarrow> (t, st));
            t2 = max (ev_end ev) t1
        in (t2, spec_tick t2 st1))"

definition spec_run :: "chan_event list \<Rightarrow> nat \<times> commit_spec \<Rightarrow> nat \<times> commit_spec" where
  "spec_run evs x = fold spec_turn evs x"

text \<open>The answers the machine accepts over a series of turns.\<close>

fun spec_accepts :: "chan_event list \<Rightarrow> nat \<times> commit_spec \<Rightarrow> response list \<Rightarrow> bool" where
  "spec_accepts [] x rs = (rs = [])"
| "spec_accepts (ev # evs) x rs =
     (case ev_recv ev of
        Inr (Some req) \<Rightarrow>
          (case rs of
             r # rs' \<Rightarrow> spec_answer (max (ev_at ev) (fst x)) req (snd x) r \<and> spec_accepts evs (spec_turn ev x) rs'
           | [] \<Rightarrow> False)
      | _ \<Rightarrow> spec_accepts evs (spec_turn ev x) rs)"

definition timely :: "nat \<times> commit_spec \<Rightarrow> bool" where
  "timely x = (case x of (t, Armed c d) \<Rightarrow> t < d \<and> d \<le> t + MAX_CONFIRM_TIMEOUT_S * 1000 | (_, NoCommit) \<Rightarrow> True)"

lemma clamp_bounds: "1 \<le> clamp_timeout t" "clamp_timeout t \<le> MAX_CONFIRM_TIMEOUT_S"
  by (auto simp: clamp_timeout_def MAX_CONFIRM_TIMEOUT_S_def)

lemma request_timely:
  assumes "timely (t, st)" and "t \<le> t1"
  shows "case spec_request t1 req st of Armed c d \<Rightarrow> d \<le> t1 + MAX_CONFIRM_TIMEOUT_S * 1000 | NoCommit \<Rightarrow> True"
proof (cases st)
  case NoCommit
  then show ?thesis using clamp_bounds(2) by (cases req) (auto simp: mult_le_mono1)
next
  case (Armed c d)
  then show ?thesis using assms by (cases req) (auto simp: timely_def)
qed

lemma turn_timely: "timely x \<Longrightarrow> timely (spec_turn ev x)"
proof -
  assume x: "timely x"
  obtain t st where ts: "x = (t, st)" by force
  have tick: "timely (max e t1, spec_tick (max e t1) st1)"
    if "case st1 of Armed c d \<Rightarrow> d \<le> t1 + MAX_CONFIRM_TIMEOUT_S * 1000 | NoCommit \<Rightarrow> True" for e t1 st1
    using that by (cases st1) (auto simp: timely_def)
  have old: "case st of Armed c d \<Rightarrow> d \<le> t + MAX_CONFIRM_TIMEOUT_S * 1000 | NoCommit \<Rightarrow> True"
    using x ts by (cases st) (auto simp: timely_def)
  have req: "case spec_request (max (ev_at ev) t) req st of Armed c d \<Rightarrow> d \<le> max (ev_at ev) t + MAX_CONFIRM_TIMEOUT_S * 1000 | NoCommit \<Rightarrow> True" for req
    by (rule request_timely [of t]) (use x ts in simp_all)
  show ?thesis
    by (auto simp: spec_turn_def ts Let_def tick [OF old] tick [OF req] split: sum.splits option.splits)
qed

lemma run_timely: "timely x \<Longrightarrow> timely (spec_run evs x)"
  unfolding spec_run_def by (induction evs arbitrary: x) (simp_all add: turn_timely)

section \<open>The monitor refines it\<close>

definition commit_of :: "monitor \<Rightarrow> commit_spec" where
  "commit_of M = (case mo_pending M of None \<Rightarrow> NoCommit | Some p \<Rightarrow> Armed (pc_commit p) (pc_deadline p))"

text \<open>Computations that neither move the clock nor send.\<close>

definition silent :: "('h, 'a) mon \<Rightarrow> bool" where
  "silent m \<longleftrightarrow> (\<forall>w. w_instant (snd (m w)) = w_instant w \<and> w_sent (snd (m w)) = w_sent w)"

named_theorems silent_intros

lemma silent_plain [silent_intros]: "silent (mret x)" "silent (wreads f)" "silent (hook_call g)" "silent (os_call m)"
  by (auto simp: silent_def mret_def wreads_def hook_call_def os_call_def
      split: prod.splits sum.splits stop.splits option.splits)

lemma silent_mbind [silent_intros]: "silent m \<Longrightarrow> (\<And>x. silent (f x)) \<Longrightarrow> silent (mbind m f)"
  unfolding silent_def mbind_def by (auto split: prod.splits option.splits) (metis snd_conv)+

lemma silent_cases [silent_intros]:
  "silent m \<Longrightarrow> silent n \<Longrightarrow> silent (if b then m else n)"
  "silent m \<Longrightarrow> (\<And>x. silent (g x)) \<Longrightarrow> silent (case v of None \<Rightarrow> m | Some x \<Rightarrow> g x)"
  "(\<And>x. silent (g1 x)) \<Longrightarrow> (\<And>x. silent (g2 x)) \<Longrightarrow> silent (case u of Inl x \<Rightarrow> g1 x | Inr x \<Rightarrow> g2 x)"
  "(\<And>a b. silent (h a b)) \<Longrightarrow> silent (case p of (a, b) \<Rightarrow> h a b)"
  by (auto split: option.splits sum.splits prod.splits)

lemma silent_loops [silent_intros]:
  "silent (judge_all E M b cs)" "silent (read_all E ts)" "silent (collect_rows E ts)" "silent (restore_entries E marker es)"
proof -
  have j: "silent (judge_candidate E M cid spec b)" for cid spec
    unfolding judge_candidate_def create_check_candidate_def stage_candidate_def ensure_staging_dir_def by (intro silent_intros)
  show "silent (judge_all E M b cs)" by (induction cs) (auto intro!: silent_intros j split: sum.splits)
  show "silent (read_all E ts)" by (induction ts) (auto intro!: silent_intros)
  show "silent (collect_rows E ts)" by (induction ts) (auto intro!: silent_intros split: sum.splits)
  show "silent (restore_entries E marker es)" by (induction es) (auto intro!: silent_intros)
qed

lemma silent_judge [silent_intros]: "silent (judge_candidate E M cid spec b)"
  unfolding judge_candidate_def create_check_candidate_def stage_candidate_def ensure_staging_dir_def by (intro silent_intros)

lemma silent_undo [silent_intros]: "silent (undo_pending E M p)" "silent (clear_marker M)" "silent (enforce_deadline E M)"
proof -
  show c: "silent (clear_marker M)" for M unfolding clear_marker_def by (intro silent_intros)
  show "silent (undo_pending E M p)" for p
    unfolding undo_pending_def roll_back_def stop_started_mounts_def replay_reload_def replay_service_def by (intro silent_intros c)
  then show "silent (enforce_deadline E M)" unfolding enforce_deadline_def by (intro silent_intros)
qed

lemma silent_answer [silent_intros]: "silent m \<Longrightarrow> silent (answer M m)"
  unfolding answer_def by (intro silent_intros)

lemma silent_requests [silent_intros]:
  "silent (read_target E M i)" "silent (run_check E M i b)" "silent (service E M i action)"
  "silent (list_module_backups E M i)" "silent (restore E M i j)" "silent (mount E M i)"
  "silent (reload_unit_files E M i)" "silent (start_update E tag)"
  unfolding read_target_def run_check_def service_def list_module_backups_def restore_def collect_backups_def mount_def
    reload_unit_files_def start_update_def
  by (intro silent_intros)+

lemma silent_handle: "silent (handle E M req)"
proof (cases req)
  case (RqWriteTarget i expected b journal)
  show ?thesis unfolding RqWriteTarget handle.simps write_target_def revalidate_def by (intro silent_intros)
next
  case (RqStartConfirmTimer c t svc)
  show ?thesis unfolding RqStartConfirmTimer handle.simps start_confirm_timer_def Let_def write_pending_marker_def
    by (intro silent_intros)
next
  case (RqConfirmCommit c)
  show ?thesis unfolding RqConfirmCommit handle.simps confirm_commit_def by (intro silent_intros)
next
  case (RqRollbackCommit c)
  show ?thesis unfolding RqRollbackCommit handle.simps rollback_commit_def by (intro silent_intros)
qed (simp_all only: handle.simps silent_plain silent_answer silent_requests)

lemma record_write_pending [simp]: "mo_pending (record_write M i entry out journal) = mo_pending M" "mo_greeted (record_write M i entry out journal) = mo_greeted M"
  by (simp_all add: record_write_def split: option.splits)

lemma mbind_Some: "mbind m f w = (Some y, w') \<longleftrightarrow> (\<exists>x w1. m w = (Some x, w1) \<and> f x w1 = (Some y, w'))"
  by (auto simp: mbind_def split: prod.splits option.splits)

lemma mret_Some: "mret x w = (Some y, w') \<longleftrightarrow> y = x \<and> w' = w"
  by (auto simp: mret_def)

lemmas run_simps = mbind_Some mret_Some

lemma write_target_pending:
  assumes "write_target E M i expected b journal w = (Some (r, M'), w')"
  shows "mo_pending M' = mo_pending M \<and> mo_greeted M' = mo_greeted M"
proof (cases "al_target (mo_allow M) i")
  case None
  then show ?thesis using assms by (simp add: write_target_def mret_Some)
next
  case (Some entry)
  obtain rd w1 where rd: "os_call (read_with_digest (me_fs E) (entry_key entry)) w = (Some rd, w1)"
    using assms Some by (auto simp: write_target_def run_simps)
  show ?thesis
  proof (cases "previous_contents rd")
    case (Inl err)
    then show ?thesis using assms Some rd by (simp add: write_target_def run_simps)
  next
    case (Inr previous)
    obtain checked w2 where c: "revalidate E M (te_module entry) (te_path entry) previous b w1 = (Some checked, w2)"
      using assms Some rd Inr by (auto simp: write_target_def run_simps)
    show ?thesis
    proof (cases checked)
      case (Inl refusal)
      then show ?thesis using assms Some rd \<open>previous_contents rd = Inr previous\<close> c by (simp add: write_target_def run_simps)
    next
      case (Inr u)
      obtain written w3 where wr: "os_call (write_atomic (me_fs E) (target_request M entry expected b)) w2 = (Some written, w3)"
        using assms Some rd \<open>previous_contents rd = Inr previous\<close> c Inr by (auto simp: write_target_def run_simps)
      show ?thesis
        using assms Some rd \<open>previous_contents rd = Inr previous\<close> c Inr wr
        by (cases written) (simp_all add: write_target_def run_simps)
    qed
  qed
qed

lemma answer_run: "answer M m w = (Some (r, M'), w') \<longleftrightarrow> (\<exists>x. m w = (Some x, w') \<and> r = Inr x \<and> M' = M)"
  by (auto simp: answer_def run_simps)

lemma forget_simps [simp]: "mo_pending (forget_pending M) = None" "mo_greeted (forget_pending M) = mo_greeted M"
  by (simp_all add: forget_pending_def)

lemma deadline_run:
  assumes "enforce_deadline E M w = (Some (r, M'), w')"
  shows "commit_of M' = spec_tick (w_instant w) (commit_of M)" "mo_greeted M' = mo_greeted M" "w_instant w' = w_instant w"
    "w_sent w' = w_sent w"
proof -
  show "commit_of M' = spec_tick (w_instant w) (commit_of M)" "mo_greeted M' = mo_greeted M"
    using assms by (auto simp: enforce_deadline_def wreads_def run_simps commit_of_def split: option.splits if_splits)
  show "w_instant w' = w_instant w" "w_sent w' = w_sent w"
    using silent_undo(3) [of E M] assms unfolding silent_def by (metis snd_conv)+
qed

lemma start_outcome:
  assumes "start_confirm_timer E M c t svc w = (Some (r, M'), w')"
  shows "case mo_pending M of
      Some p \<Rightarrow> r = Inr (RsError (PeCommitPending (pc_commit p))) \<and> M' = M
    | None \<Rightarrow> (\<exists>err. r = Inl err \<and> M' = M\<lparr>mo_journal := []\<rparr>)
        \<or> r = Inr (RsConfirmTimerStarted c (clamp_timeout t) (min (length (mo_journal M)) u16_max))
          \<and> M' = M\<lparr>mo_journal := [], mo_pending := Some \<lparr>pc_commit = c, pc_deadline = w_instant w + clamp_timeout t * 1000,
               pc_entries = mo_journal M, pc_service = svc\<rparr>\<rparr>"
proof (cases "mo_pending M")
  case None
  obtain clock w1 where "os_call sys_now w = (Some clock, w1)"
    using assms None by (auto simp: start_confirm_timer_def Let_def run_simps wreads_def)
  then obtain x :: "monitor_error + unit" where "(r, M') = (case x of
       Inl err \<Rightarrow> (Inl err, M\<lparr>mo_journal := []\<rparr>)
     | Inr _ \<Rightarrow> (Inr (RsConfirmTimerStarted c (clamp_timeout t) (min (length (mo_journal M)) u16_max)),
         M\<lparr>mo_journal := [], mo_pending := Some \<lparr>pc_commit = c, pc_deadline = w_instant w + clamp_timeout t * 1000,
           pc_entries = mo_journal M, pc_service = svc\<rparr>\<rparr>))"
    using assms None unfolding start_confirm_timer_def Let_def by (simp add: run_simps wreads_def) (elim exE conjE, blast)
  then show ?thesis using None by (cases x) auto
next
  case (Some p)
  then show ?thesis using assms by (simp add: start_confirm_timer_def mret_Some)
qed

lemma start_run:
  assumes "start_confirm_timer E M c t svc w = (Some (Inr resp, M'), w')"
  shows "commit_of M' = spec_request (w_instant w) (RqStartConfirmTimer c t svc) (commit_of M)
    \<and> spec_answer (w_instant w) (RqStartConfirmTimer c t svc) (commit_of M) resp \<and> mo_greeted M' = mo_greeted M"
  using start_outcome [OF assms] by (cases "mo_pending M") (auto simp: commit_of_def)

lemma confirm_run:
  assumes "confirm_commit E M c w = (Some (Inr resp, M'), w')"
  shows "commit_of M' = spec_request (w_instant w) (RqConfirmCommit c) (commit_of M)
    \<and> spec_answer (w_instant w) (RqConfirmCommit c) (commit_of M) resp \<and> mo_greeted M' = mo_greeted M"
proof (cases "mo_pending M")
  case None
  then show ?thesis using assms by (simp add: confirm_commit_def wreads_def run_simps commit_of_def unknown_def)
next
  case (Some p)
  consider "pc_commit p \<noteq> c" | "pc_commit p = c" "pc_deadline p \<le> w_instant w" | "pc_commit p = c" "w_instant w < pc_deadline p"
    by linarith
  then show ?thesis
  proof cases
    case 1
    then show ?thesis using assms Some by (simp add: confirm_commit_def wreads_def run_simps commit_of_def unknown_def)
  next
    case 2
    obtain r where r: "enforce_deadline E M w = (Some (r, M'), w')" "bind_result r (\<lambda>_. Inr (RsError (PeCommitExpired c))) = Inr resp"
      using assms Some 2 by (auto simp: confirm_commit_def wreads_def run_simps)
    from deadline_run [OF r(1)] r(2) show ?thesis using Some 2 by (simp add: commit_of_def bind_result_eq_Inr)
  next
    case 3
    have "M' = forget_pending M \<and> (\<exists>r :: (monitor_error, unit) result. bind_result r (\<lambda>_. Inr (RsCommitted c)) = (Inr resp :: (monitor_error, response) result))"
      using assms Some 3 by (auto simp: confirm_commit_def wreads_def run_simps)
    then show ?thesis using Some 3 by (auto simp: commit_of_def bind_result_eq_Inr)
  qed
qed

lemma rollback_run:
  assumes "rollback_commit E M c w = (Some (Inr resp, M'), w')"
  shows "commit_of M' = spec_request (w_instant w) (RqRollbackCommit c) (commit_of M)
    \<and> spec_answer (w_instant w) (RqRollbackCommit c) (commit_of M) resp \<and> mo_greeted M' = mo_greeted M"
proof (cases "mo_pending M")
  case None
  then show ?thesis using assms by (simp add: rollback_commit_def run_simps commit_of_def unknown_def)
next
  case (Some p)
  show ?thesis
  proof (cases "pc_commit p = c")
    case True
    have "M' = forget_pending M \<and> (\<exists>r :: (monitor_error, nat) result. bind_result r (\<lambda>restored. Inr (RsRolledBack c (min restored u16_max))) = (Inr resp :: (monitor_error, response) result))"
      using assms Some True by (auto simp: rollback_commit_def run_simps)
    then show ?thesis using Some True by (auto simp: commit_of_def bind_result_eq_Inr)
  next
    case False
    then show ?thesis using assms Some by (simp add: rollback_commit_def run_simps commit_of_def unknown_def)
  qed
qed

lemma handle_run:
  assumes "handle E M req w = (Some (Inr resp, M'), w')"
  shows "commit_of M' = spec_request (w_instant w) req (commit_of M) \<and> spec_answer (w_instant w) req (commit_of M) resp
    \<and> mo_greeted M' = mo_greeted M"
proof (cases req)
  case (RqWriteTarget i expected b journal)
  then show ?thesis using assms by (auto simp: run_simps commit_of_def dest: write_target_pending)
next
  case (RqStartConfirmTimer c t svc)
  then show ?thesis using assms start_run by simp
next
  case (RqConfirmCommit c)
  then show ?thesis using assms confirm_run by simp
next
  case (RqRollbackCommit c)
  then show ?thesis using assms rollback_run by simp
qed (use assms in \<open>auto simp: answer_run commit_of_def mret_Some split: option.splits\<close>)

lemma serve_request_run:
  assumes "mo_greeted M" and "serve_request E True M req w = (Some (Inr resp, M'), w')"
  shows "commit_of M' = spec_request (w_instant w) req (commit_of M) \<and> spec_answer (w_instant w) req (commit_of M) resp
    \<and> mo_greeted M' \<and> w_instant w' = w_instant w \<and> w_sent w' = w_sent w"
proof -
  have h: "handle E M req w = (Some (Inr resp, M'), w')" using assms by (simp add: serve_request_def dispatch_def)
  have "w_instant w' = w_instant w \<and> w_sent w' = w_sent w" using silent_handle [of E M req] h unfolding silent_def by (metis snd_conv)
  then show ?thesis using handle_run [OF h] assms(1) by simp
qed

lemma next_turn_run:
  assumes "mbind (clock_to t) (\<lambda>_. mbind (enforce_deadline E M) (\<lambda>(r, M2).
      case r of Inl err \<Rightarrow> mret (Some (Inl err), M2) | Inr _ \<Rightarrow> f M2)) w = (Some (None, M'), w')" and "mo_greeted M"
  obtains M2 w2 where "f M2 w2 = (Some (None, M'), w')" "mo_greeted M2" "w_instant w2 = max t (w_instant w)" "w_sent w2 = w_sent w"
    "commit_of M2 = spec_tick (max t (w_instant w)) (commit_of M)"
proof -
  let ?w = "w\<lparr>w_instant := max t (w_instant w)\<rparr>"
  obtain r M2 w2 where d: "enforce_deadline E M ?w = (Some (r, M2), w2)"
    "(case r of Inl err \<Rightarrow> mret (Some (Inl err), M2) | Inr _ \<Rightarrow> f M2) w2 = (Some (None, M'), w')"
    using assms(1) by (auto simp: run_simps clock_to_def)
  have "f M2 w2 = (Some (None, M'), w')" using d(2) by (cases r) (auto simp: mret_Some)
  then show ?thesis using deadline_run [OF d(1)] assms(2) by (intro that [of M2 w2]) simp_all
qed

lemma loop_refines:
  assumes "mo_greeted M" and "serve_loop E True idle timeout M evs w = (Some (None, M'), w')"
  shows "(w_instant w', commit_of M') = spec_run evs (w_instant w, commit_of M)
    \<and> (\<exists>rs. w_sent w' = w_sent w @ rs \<and> spec_accepts evs (w_instant w, commit_of M) rs)"
  using assms
proof (induction evs arbitrary: timeout M w)
  case Nil
  then show ?case by (simp add: mret_Some spec_run_def)
next
  case (Cons ev evs)
  let ?want = "if mo_pending M \<noteq> None then PENDING_POLL else idle"
  let ?next = "\<lambda>M1. mbind (clock_to (ev_end ev)) (\<lambda>_. mbind (enforce_deadline E M1) (\<lambda>(r, M2).
      case r of Inl err \<Rightarrow> mret (Some (Inl err), M2) | Inr _ \<Rightarrow> serve_loop E True idle ?want M2 evs))"
  have step: "(w_instant w', commit_of M') = spec_run evs (max (ev_end ev) (w_instant w1), spec_tick (max (ev_end ev) (w_instant w1)) (commit_of M1))
      \<and> (\<exists>rs. w_sent w' = w_sent w1 @ rs
           \<and> spec_accepts evs (max (ev_end ev) (w_instant w1), spec_tick (max (ev_end ev) (w_instant w1)) (commit_of M1)) rs)"
    if "?next M1 w1 = (Some (None, M'), w')" "mo_greeted M1" for M1 w1
    using next_turn_run [OF that(1,2)] Cons.IH by metis
  show ?case
  proof (cases "ev_recv ev")
    case (Inl e)
    then show ?thesis using Cons.prems(2) by (auto simp: Let_def mret_Some split: option.splits if_splits)
  next
    case (Inr v)
    show ?thesis
    proof (cases v)
      case None
      then have "?next M w = (Some (None, M'), w')"
        using Cons.prems(2) Inr by (auto simp: Let_def mret_Some split: option.splits if_splits)
      from step [OF this Cons.prems(1)] show ?thesis using None Inr by (simp add: spec_run_def spec_turn_def Let_def)
    next
      case (Some req)
      let ?w = "w\<lparr>w_instant := max (ev_at ev) (w_instant w)\<rparr>"
      let ?turn = "mbind (serve_request E True M req) (\<lambda>(r, M1). case r of
           Inl err \<Rightarrow> mret (Some (Inl err), M1)
         | Inr resp \<Rightarrow> mbind (chan_send resp (ev_send ev)) (\<lambda>fault. case fault of
               Some e \<Rightarrow> mret (Some (finish_send_error e), M1)
             | None \<Rightarrow> if req = RqShutdown then mret (Some (Inr ExitShutdown), M1)
                 else if fatal_response resp then mret (Some (Inr ExitProtocolMismatch), M1) else ?next M1))"
      have "?turn ?w = (Some (None, M'), w')"
        using Cons.prems(2) Inr Some by (auto simp: Let_def mbind_Some clock_to_def mret_Some split: option.splits if_splits)
      then obtain x M1 w1 where x: "serve_request E True M req ?w = (Some (x, M1), w1)"
        "(case x of Inl err \<Rightarrow> mret (Some (Inl err), M1)
         | Inr resp \<Rightarrow> mbind (chan_send resp (ev_send ev)) (\<lambda>fault. case fault of
               Some e \<Rightarrow> mret (Some (finish_send_error e), M1)
             | None \<Rightarrow> if req = RqShutdown then mret (Some (Inr ExitShutdown), M1)
                 else if fatal_response resp then mret (Some (Inr ExitProtocolMismatch), M1) else ?next M1)) w1 = (Some (None, M'), w')"
        unfolding mbind_Some [of "serve_request E True M req"] split_paired_Ex prod.case by blast
      obtain resp where resp: "x = Inr resp" using x(2) by (cases x) (simp_all add: mret_Some)
      obtain fault w2 where f: "chan_send resp (ev_send ev) w1 = (Some fault, w2)"
        "(case fault of Some e \<Rightarrow> mret (Some (finish_send_error e), M1)
             | None \<Rightarrow> if req = RqShutdown then mret (Some (Inr ExitShutdown), M1)
                 else if fatal_response resp then mret (Some (Inr ExitProtocolMismatch), M1) else ?next M1) w2 = (Some (None, M'), w')"
        using x(2) unfolding resp sum.case mbind_Some [of "chan_send resp (ev_send ev)"] by blast
      have r: "serve_request E True M req ?w = (Some (Inr resp, M1), w1)"
        "chan_send resp (ev_send ev) w1 = (Some None, w2)" "?next M1 w2 = (Some (None, M'), w')"
        using x(1) f resp by (cases fault; auto simp: mret_Some split: if_splits)+
      have "w_instant w2 = w_instant w1" "w_sent w2 = w_sent w1 @ [resp]" using r(2) by (auto simp: chan_send_def split: option.splits)
      moreover note serve_request_run [OF Cons.prems(1) r(1)]
      ultimately show ?thesis using step [OF r(3)] Some Inr by (auto simp: spec_run_def spec_turn_def Let_def)
    qed
  qed
qed

text \<open>C1. Refinement of the commit-confirm protocol. After any series of turns of the loop of a greeted monitor,
  whatever the requests, the collaborators and the failures of system calls were, the clock and the pending
  commit are those of the abstract machine run on the same events, and the answers sent are answers the machine
  accepts, one for each request, in order.\<close>

theorem monitor_refines_commit_protocol:
  assumes "mo_greeted M" and "serve_loop E True idle timeout M evs w = (Some (None, M'), w')"
  shows "(w_instant w', commit_of M') = spec_run evs (w_instant w, commit_of M)
    \<and> (\<exists>rs. w_sent w' = w_sent w @ rs \<and> spec_accepts evs (w_instant w, commit_of M) rs)"
  using assms by (rule loop_refines)

definition ex_greeted :: monitor where
  "ex_greeted = ex_monitor\<lparr>mo_greeted := True\<rparr>"

definition ex_turn :: "request option \<Rightarrow> nat \<Rightarrow> chan_event" where
  "ex_turn req t = \<lparr>ev_set_timeout = None, ev_recv = Inr req, ev_at = t, ev_send = None, ev_end = t\<rparr>"

lemma write_private_calm:
  assumes "calm s" and "node_at s k = None \<longrightarrow> butlast k \<in> set (os_dirs s) \<and> butlast k \<notin> set (os_frozen s)"
    and "\<forall>n. node_at s k = Some n \<longrightarrow> (\<exists>f. n = Reg f)"
  shows "\<exists>s' f. write_private k b s = (Inr (), s') \<and> calm s' \<and> f_contents f = b \<and> node_at s' = (node_at s)(k \<mapsto> Reg f)"
proof (cases "node_at s k")
  case None
  then show ?thesis using assms
    by (force simp: write_private_def andthen_def open_create_def syscall_calm write_file_def fsync_def node_at_put_fun)
next
  case (Some n)
  then show ?thesis using assms
    by (force simp: write_private_def andthen_def open_create_def syscall_calm write_file_def fsync_def node_at_put_fun)
qed

definition state_ready :: "monitor \<Rightarrow> osys \<Rightarrow> bool" where
  "state_ready M s \<longleftrightarrow> state_key M \<noteq> [] \<and> state_key M \<notin> set (os_frozen s)
     \<and> (\<forall>n. node_at s (marker_key M) = Some n \<longrightarrow> (\<exists>f. n = Reg f))"

lemma prefixes_of_self: "p \<noteq> [] \<Longrightarrow> p \<in> set (prefixes_of p)"
  by (auto simp: image_iff intro!: bexI [of _ "length p - 1"])

lemma write_pending_marker_calm:
  assumes "calm (w_os w)" and "state_ready M (w_os w)"
  shows "\<exists>s' f. write_pending_marker E M m w = (Some (Inr ()), w\<lparr>w_os := s'\<rparr>) \<and> calm s' \<and> f_contents f = me_marker_json E m
    \<and> node_at s' = (node_at (w_os w))(marker_key M \<mapsto> Reg f)"
proof -
  let ?s = "w_os w\<lparr>os_dirs := prefixes_of (state_key M) @ os_dirs (w_os w)\<rparr>"
  have d: "create_dir_all (lit ''create_dir_all'') (state_key M) (w_os w) = (Inr (), ?s)"
    using assms(1) by (simp add: create_dir_all_def andthen_def syscall_calm modify_def)
  obtain s' f where "write_private (marker_key M) (me_marker_json E m) ?s = (Inr (), s')" "calm s'"
    "f_contents f = me_marker_json E m" "node_at s' = (node_at ?s)(marker_key M \<mapsto> Reg f)"
    using write_private_calm [of ?s "marker_key M" "me_marker_json E m"] assms
    by (auto simp del: prefixes_of.simps simp: state_ready_def marker_key_def prefixes_of_self)
  then show ?thesis using d by (auto simp: write_pending_marker_def mbind_def mret_def os_call_def map_err_def)
qed

lemma start_armed:
  assumes "mo_pending M = None" and "calm (w_os w)" and "state_ready M (w_os w)"
  shows "\<exists>s' p d f. start_confirm_timer E M c t svc w
        = (Some (Inr (RsConfirmTimerStarted c (clamp_timeout t) (min (length (mo_journal M)) u16_max)),
             M\<lparr>mo_journal := [], mo_pending := Some p\<rparr>), w\<lparr>w_os := s'\<rparr>)
    \<and> p = \<lparr>pc_commit = c, pc_deadline = w_instant w + clamp_timeout t * 1000, pc_entries = mo_journal M, pc_service = svc\<rparr>
    \<and> f_contents f = me_marker_json E \<lparr>pm_commit = c, pm_deadline_unix_ms = d, pm_entries = pc_entries p, pm_service = pc_service p\<rparr>
    \<and> node_at s' = (node_at (w_os w))(marker_key M \<mapsto> Reg f)"
proof -
  let ?ns = "os_clock (w_os w) (os_ticks (w_os w))" and ?w = "w\<lparr>w_os := w_os w\<lparr>os_ticks := Suc (os_ticks (w_os w))\<rparr>\<rparr>"
  let ?m = "\<lparr>pm_commit = c, pm_deadline_unix_ms = ?ns div 1000000 + clamp_timeout t * 1000, pm_entries = mo_journal M, pm_service = svc\<rparr>"
  let ?M = "M\<lparr>mo_journal := []\<rparr>"
  have k: "state_key ?M = state_key M" "marker_key ?M = marker_key M" by (simp_all add: state_key_def marker_key_def)
  have "calm (w_os ?w)" "state_ready ?M (w_os ?w)" using assms(2,3) by (simp_all add: state_ready_def k)
  from write_pending_marker_calm [OF this, of E ?m] obtain s' f where
    w: "write_pending_marker E ?M ?m ?w = (Some (Inr ()), w\<lparr>w_os := s'\<rparr>)" "f_contents f = me_marker_json E ?m"
      "node_at s' = (node_at (w_os w))(marker_key M \<mapsto> Reg f)" by (auto simp: k)
  have n: "os_call sys_now w = (Some (Inr ?ns), ?w)" by (simp add: os_call_def sys_now_def)
  show ?thesis using assms(1) n w
    by (intro exI [of _ s'] exI [of _ "\<lparr>pc_commit = c, pc_deadline = w_instant w + clamp_timeout t * 1000, pc_entries = mo_journal M, pc_service = svc\<rparr>"]
        exI [of _ "?ns div 1000000 + clamp_timeout t * 1000"] exI [of _ f])
      (simp add: start_confirm_timer_def Let_def mbind_def wreads_def mret_def)
qed

text \<open>An armed commit is on disk. When no commit is pending and no call fails, arming one is answered with the
  clamped timeout and the number of journaled writes, and afterwards the marker file holds the commit with exactly
  the entries and the service the monitor holds, and no other file has changed.\<close>

theorem armed_commit_on_disk:
  assumes "mo_pending M = None" and "calm (w_os w)" and "state_ready M (w_os w)"
  shows "\<exists>s' p d f. start_confirm_timer E M c t svc w
        = (Some (Inr (RsConfirmTimerStarted c (clamp_timeout t) (min (length (mo_journal M)) u16_max)),
             M\<lparr>mo_journal := [], mo_pending := Some p\<rparr>), w\<lparr>w_os := s'\<rparr>)
    \<and> p = \<lparr>pc_commit = c, pc_deadline = w_instant w + clamp_timeout t * 1000, pc_entries = mo_journal M, pc_service = svc\<rparr>
    \<and> f_contents f = me_marker_json E \<lparr>pm_commit = c, pm_deadline_unix_ms = d, pm_entries = pc_entries p, pm_service = pc_service p\<rparr>
    \<and> node_at s' = (node_at (w_os w))(marker_key M \<mapsto> Reg f)"
  using start_armed [OF assms] by blast

lemma ex_ready: "calm (w_os (ex_world []))" "state_ready ex_greeted (w_os (ex_world []))" "mo_pending ex_greeted = None" "mo_greeted ex_greeted"
proof -
  have k: "state_key ex_greeted = ex_dir [''var'', ''lib'', ''detent'']"
    "marker_key ex_greeted = ex_dir [''var'', ''lib'', ''detent'', ''pending-commit.json'']" by code_simp+
  show "calm (w_os (ex_world []))" by (simp add: ex_world_def ex_os_def calm_def ex_dir_def lit_eq_iff)
  show "state_ready ex_greeted (w_os (ex_world []))" unfolding state_ready_def k
    by (simp add: ex_world_def ex_os_def ex_dir_def node_at_def lit_eq_iff)
qed (simp_all add: ex_greeted_def ex_monitor_def monitor_new_def)

theorem armed_commit_on_disk_witness:
  "\<exists>s' p d f. start_confirm_timer ex_env ex_greeted 7 30 None (ex_world [])
        = (Some (Inr (RsConfirmTimerStarted 7 (clamp_timeout 30) (min (length (mo_journal ex_greeted)) u16_max)),
             ex_greeted\<lparr>mo_journal := [], mo_pending := Some p\<rparr>), (ex_world [])\<lparr>w_os := s'\<rparr>)
    \<and> p = \<lparr>pc_commit = 7, pc_deadline = w_instant (ex_world []) + clamp_timeout 30 * 1000, pc_entries = mo_journal ex_greeted, pc_service = None\<rparr>
    \<and> f_contents f = me_marker_json ex_env \<lparr>pm_commit = 7, pm_deadline_unix_ms = d, pm_entries = pc_entries p, pm_service = pc_service p\<rparr>
    \<and> node_at s' = (node_at (w_os (ex_world [])))(marker_key ex_greeted \<mapsto> Reg f)"
  using armed_commit_on_disk [OF ex_ready(3) ex_ready(1) ex_ready(2)] .

lemma ex_session_runs:
  "\<exists>s' p. serve_loop ex_env True 500 500 ex_greeted [ex_turn (Some (RqStartConfirmTimer 7 30 None)) 10] (ex_world [])
     = (Some (None, ex_greeted\<lparr>mo_journal := [], mo_pending := Some p\<rparr>), s')"
proof -
  let ?w = "(ex_world [])\<lparr>w_instant := 10\<rparr>"
  have "calm (w_os ?w)" "state_ready ex_greeted (w_os ?w)" using ex_ready by simp_all
  from start_armed [OF ex_ready(3) this, of ex_env 7 30 None] obtain s' p where
    st: "start_confirm_timer ex_env ex_greeted 7 30 None ?w = (Some (Inr (RsConfirmTimerStarted 7 (clamp_timeout 30) (min (length (mo_journal ex_greeted)) u16_max)),
             ex_greeted\<lparr>mo_journal := [], mo_pending := Some p\<rparr>), ?w\<lparr>w_os := s'\<rparr>)" "pc_deadline p = 10 + clamp_timeout 30 * 1000"
    by (auto simp: ex_world_def)
  have "serve_request ex_env True ex_greeted (RqStartConfirmTimer 7 30 None) ?w
     = start_confirm_timer ex_env ex_greeted 7 30 None ?w" using ex_ready(4) by (simp add: serve_request_def dispatch_def)
  then show ?thesis using st ex_ready(3)
    by (simp add: ex_turn_def Let_def mbind_def clock_to_def chan_send_def enforce_deadline_def wreads_def mret_def
        clamp_timeout_def MAX_CONFIRM_TIMEOUT_S_def fatal_response_def ex_world_def) blast
qed

text \<open>C27. No commit outlives its deadline: while the monitor serves, a commit that is pending after a turn has not
  reached its deadline, and the deadline is at most an hour away.\<close>

theorem pending_never_overdue:
  assumes "mo_greeted M" and "mo_pending M = None" and "serve_loop E True idle timeout M evs w = (Some (None, M'), w')"
    and "mo_pending M' = Some p"
  shows "w_instant w' < pc_deadline p \<and> pc_deadline p \<le> w_instant w' + 3600000"
proof -
  have "timely (w_instant w, commit_of M)" using assms(2) by (simp add: timely_def commit_of_def)
  from run_timely [OF this, of evs] have "timely (w_instant w', commit_of M')" using loop_refines [OF assms(1,3)] by simp
  then show ?thesis using assms(4) by (simp add: timely_def commit_of_def MAX_CONFIRM_TIMEOUT_S_def)
qed

theorem monitor_refines_commit_protocol_witness:
  "\<exists>M' w'. serve_loop ex_env True 500 500 ex_greeted [ex_turn (Some (RqStartConfirmTimer 7 30 None)) 10] (ex_world []) = (Some (None, M'), w')
     \<and> (w_instant w', commit_of M') = spec_run [ex_turn (Some (RqStartConfirmTimer 7 30 None)) 10] (w_instant (ex_world []), commit_of ex_greeted)
     \<and> (\<exists>rs. w_sent w' = w_sent (ex_world []) @ rs
          \<and> spec_accepts [ex_turn (Some (RqStartConfirmTimer 7 30 None)) 10] (w_instant (ex_world []), commit_of ex_greeted) rs)"
proof -
  obtain M' w' where r: "serve_loop ex_env True 500 500 ex_greeted [ex_turn (Some (RqStartConfirmTimer 7 30 None)) 10] (ex_world [])
     = (Some (None, M'), w')" using ex_session_runs by blast
  show ?thesis by (intro exI, rule conjI [OF r monitor_refines_commit_protocol [OF ex_ready(4) r]])
qed

theorem pending_never_overdue_witness:
  "\<exists>M' w' p. serve_loop ex_env True 500 500 ex_greeted [ex_turn (Some (RqStartConfirmTimer 7 30 None)) 10] (ex_world []) = (Some (None, M'), w')
     \<and> mo_pending M' = Some p \<and> w_instant w' < pc_deadline p \<and> pc_deadline p \<le> w_instant w' + 3600000"
proof -
  obtain w' p where r: "serve_loop ex_env True 500 500 ex_greeted [ex_turn (Some (RqStartConfirmTimer 7 30 None)) 10] (ex_world [])
     = (Some (None, ex_greeted\<lparr>mo_journal := [], mo_pending := Some p\<rparr>), w')" using ex_session_runs by blast
  have p: "mo_pending (ex_greeted\<lparr>mo_journal := [], mo_pending := Some p\<rparr>) = Some p" by simp
  show ?thesis by (intro exI, rule conjI [OF r conjI [OF p pending_never_overdue [OF ex_ready(4,3) r p]]])
qed

text \<open>C39. The marker is not written atomically. When the process dies while it writes the marker and what was written
  does not parse, every later start stops with CorruptMarker and changes nothing: the journaled writes stay in
  place, nothing is rolled back and no monitor serves until somebody removes the file.\<close>

theorem torn_marker_blocks_start:
  assumes "mo_pending M = None" and "os_script (w_os w) = [Fine, Fine, Kill n]" and "distinct (map fst (os_files (w_os w)))"
    and "state_ready M (w_os w)" and "node_at (w_os w) (marker_key M) = None" and "node_at (w_os w) (in_place_marker_key M) = None"
    and "\<And>d. me_marker_parse E (take n (me_marker_json E
          \<lparr>pm_commit = c, pm_deadline_unix_ms = d, pm_entries = mo_journal M, pm_service = svc\<rparr>)) = None"
  shows "\<exists>w1. start_confirm_timer E M c t svc w = (None, w1) \<and> recover_pending E M w1 = (Some (Inl MeCorruptMarker), w1)"
proof -
  let ?s = "w_os w" and ?k = "marker_key M" and ?d = "os_clock (w_os w) (os_ticks (w_os w)) div 1000000 + clamp_timeout t * 1000"
  let ?b = "me_marker_json E \<lparr>pm_commit = c, pm_deadline_unix_ms = ?d, pm_entries = mo_journal M, pm_service = svc\<rparr>"
  have k: "state_key (M\<lparr>mo_journal := []\<rparr>) = state_key M" "marker_key (M\<lparr>mo_journal := []\<rparr>) = ?k" by (simp_all add: state_key_def marker_key_def)
  have dir: "butlast ?k = state_key M" "state_key M \<in> set (prefixes_of (state_key M))" "state_key M \<notin> set (os_frozen ?s)"
    using assms(4) by (auto simp del: prefixes_of.simps simp: marker_key_def state_ready_def prefixes_of_self)
  define f where "f = \<lparr>f_contents = take n ?b, f_mode = 384, f_uid = os_euid ?s, f_gid = os_egid ?s, f_ino = os_next_ino ?s,
     f_xattrs = [], f_mtime = os_clock ?s (Suc (os_ticks ?s))\<rparr>"
  define s1 where "s1 = put_node ?k (Reg f) (put_node ?k (Reg (f\<lparr>f_contents := []\<rparr>))
     (?s\<lparr>os_ticks := Suc (os_ticks ?s), os_dirs := prefixes_of (state_key M) @ os_dirs ?s, os_script := [Kill n],
        os_next_ino := Suc (os_next_ino ?s)\<rparr>)\<lparr>os_script := []\<rparr>)"
  have run: "start_confirm_timer E M c t svc w = (None, w\<lparr>w_os := s1\<rparr>)"
    using assms(1,2,5) dir unfolding s1_def f_def
    by (simp del: prefixes_of.simps add: start_confirm_timer_def Let_def mbind_def wreads_def os_call_def sys_now_def write_pending_marker_def k create_dir_all_def
        andthen_def syscall_def syscall_cut_def modify_def write_private_def open_create_def write_file_def)
  have s1: "os_script s1 = []" "node_at s1 = (node_at ?s)(?k \<mapsto> Reg f)" "distinct (map fst (os_files s1))"
    using assms(3) by (auto simp: s1_def put_node_def node_at_def distinct_update fun_eq_iff update_conv)
  have c: "calm (w_os (w\<lparr>w_os := s1\<rparr>))" using s1(1,3) by (simp add: calm_def)
  have "in_place_marker_key M \<noteq> ?k" by (simp add: in_place_marker_key_def marker_key_def at_def IN_PLACE_MARKER_def PENDING_COMMIT_MARKER_def lit_eq_iff)
  then have ip: "node_at (w_os (w\<lparr>w_os := s1\<rparr>)) (in_place_marker_key M) = None" using assms(6) s1(2) by simp
  have "contents_at (w_os (w\<lparr>w_os := s1\<rparr>)) ?k = Some (take n ?b)" using s1(2) by (simp add: contents_at_def f_def)
  from fs_read_calm(2) [OF c this] recover_nothing_in_place [OF c ip, of E] assms(7)
  have "recover_pending E M (w\<lparr>w_os := s1\<rparr>) = (Some (Inl MeCorruptMarker), w\<lparr>w_os := s1\<rparr>)"
    by (simp add: recover_pending_def mbind_def mret_def)
  then show ?thesis using run by blast
qed

theorem torn_marker_blocks_start_witness:
  "\<exists>w1. start_confirm_timer ex_env ex_greeted 7 30 None (ex_world [Fine, Fine, Kill 0]) = (None, w1)
     \<and> recover_pending ex_env ex_greeted w1 = (Some (Inl MeCorruptMarker), w1)"
proof (rule torn_marker_blocks_start)
  have k: "state_key ex_greeted = ex_dir [''var'', ''lib'', ''detent'']"
    "marker_key ex_greeted = ex_dir [''var'', ''lib'', ''detent'', ''pending-commit.json'']"
    "in_place_marker_key ex_greeted = ex_dir [''var'', ''lib'', ''detent'', ''write-in-progress.json'']" by code_simp+
  show "node_at (w_os (ex_world [Fine, Fine, Kill 0])) (marker_key ex_greeted) = None"
    "node_at (w_os (ex_world [Fine, Fine, Kill 0])) (in_place_marker_key ex_greeted) = None"
    by (simp_all add: k ex_world_def ex_os_def ex_dir_def node_at_def lit_eq_iff)
  then show "state_ready ex_greeted (w_os (ex_world [Fine, Fine, Kill 0]))"
    by (simp add: state_ready_def k) (simp add: ex_world_def ex_os_def ex_dir_def lit_eq_iff)
  show "me_marker_parse ex_env (take 0 (me_marker_json ex_env m)) = None" for m by (simp add: ex_env_def)
qed (simp_all add: ex_ready ex_world_def ex_os_def ex_dir_def lit_eq_iff ex_env_def)

end
