(* ===== verification/Write_Safety.thy ===== *)
theory Write_Safety
  imports Commit_Refinement
begin

text \<open>
  What the atomic write promises, with and without failures: a write in a world without failures succeeds, a write
  stopped anywhere leaves the old or the new contents or a marker from which the next start restores the old ones.
\<close>

text \<open>C4. A write over an existing file is crash safe. Wherever the process dies and whichever system calls fail, the
  file is untouched, or has the new contents, or the marker on disk names a backup with the old contents; every other
  file that was there is unchanged, those in the backup directory and the marker excepted; and when the digest of the contents is not the expected one nothing changes at
  all and the write does not succeed.\<close>

theorem write_crash_safe:
  assumes "node_at s (rq_path req) = Some (Reg f)" and "request_ok req" and "write_atomic E req s = (r, s')"
  shows "(node_at s' (rq_path req) = Some (Reg f) \<or> contents_at s' (rq_path req) = Some (rq_contents req) \<or> covered E req f s')
    \<and> (\<forall>k. node_at s k \<noteq> None \<and> k \<noteq> rq_path req \<and> butlast k \<noteq> rq_backup_dir req \<and> rq_in_place req \<noteq> IpMarker k
          \<longrightarrow> node_at s' k = node_at s k)
    \<and> (\<forall>expected. rq_expected_prev req = Some expected \<and> expected \<noteq> fe_sha E (f_contents f)
          \<longrightarrow> node_at s' = node_at s \<and> (\<forall>out. r \<noteq> Inr out))"
  using write_atomic_spec [OF assms(3,1,2)] by (simp add: write_post_def safe_def)

text \<open>C30. A write that is answered with success happened: the file has the new contents, the outcome carries the
  digests of the old and the new contents, and the backup it names, present exactly when backups are kept, holds the
  old contents; and when no call fails, the digest is the expected one and there is room, the write is answered with success.\<close>

theorem write_succeeds:
  assumes "calm s" and "split_path (rq_path req) = Inr (dir, name)" and "dir \<in> set (os_dirs s)"
    and "node_at s (rq_path req) = Some (Reg f)" and "\<not> rq_create_missing req"
    and "\<And>d. rq_expected_prev req = Some d \<Longrightarrow> d = fe_sha E (f_contents f)"
    and "0 < rq_keep_backups req" and "room E s (node_at s) (rq_backup_dir req)" and "fresh_temps s (node_at s) dir"
    and "writable s (node_at s) req" and "request_ok req"
  shows "\<exists>out s' b. write_atomic E req s = (Inr out, s') \<and> contents_at s' (rq_path req) = Some (rq_contents req)
    \<and> wo_backup out = Some b \<and> contents_at s' b = Some (f_contents f) \<and> butlast b = rq_backup_dir req
    \<and> wo_prev_digest out = Some (fe_sha E (f_contents f)) \<and> wo_new_digest out = fe_sha E (rq_contents req)
    \<and> (\<forall>k. k \<noteq> rq_path req \<and> butlast k \<noteq> rq_backup_dir req \<longrightarrow> node_at s' k = node_at s k)"
proof -
  have ne: "dir \<noteq> rq_backup_dir req" "rq_in_place req = IpMarker marker \<Longrightarrow> butlast marker \<noteq> rq_backup_dir req" for marker
    using assms(2,11) split_path_at [OF assms(2)] by (auto simp: request_ok_def)
  obtain out s' where w: "write_atomic E req s = (Inr out, s')"
    "\<forall>k. k \<noteq> rq_path req \<and> butlast k \<noteq> rq_backup_dir req \<longrightarrow> node_at s' k = node_at s k"
    using write_atomic_calm [OF assms(1-5) _ assms(7-9) ne(1) assms(10) ne(2)] assms(6) by blast
  from write_atomic_spec [OF w(1) assms(4,11)] assms(7) w show ?thesis
    by (cases "wo_backup out") (auto simp: write_post_def)
qed

section \<open>Restarting after a torn write\<close>

lemma drop_marker_calm:
  assumes "calm (w_os w)" and "split_path (in_place_marker_key M) = Inr (d, n)" and "d \<in> set (os_dirs (w_os w))"
    and "node_at (w_os w) (in_place_marker_key M) \<noteq> None"
  shows "\<exists>s'. drop_in_place_marker M out w = (Some (Inr (Some out)), w\<lparr>w_os := s'\<rparr>) \<and> calm s'
    \<and> node_at s' = (node_at (w_os w))(in_place_marker_key M := None)"
proof -
  have "works (holds (w_os w) (node_at (w_os w))) (remove_marker (in_place_marker_key M))
      (\<lambda>_. holds (w_os w) ((node_at (w_os w))(in_place_marker_key M := None)))"
    by (rule works_remove_marker) (use assms in auto)
  moreover have "holds (w_os w) (node_at (w_os w)) (w_os w)" by (simp add: holds_def)
  ultimately obtain x s' where "remove_marker (in_place_marker_key M) (w_os w) = (Inr x, s')" "calm s'"
    "node_at s' = (node_at (w_os w))(in_place_marker_key M := None)"
    using worksD assms(1) by (fastforce simp: holds_def)
  then show ?thesis by (auto simp: drop_in_place_marker_def mbind_def mret_def os_call_def)
qed

text \<open>C29. A torn write is undone at the next start. When a write stopped in a crash-safe state with the file neither old
  nor new, the marker can be read back, and the monitor owns the target, the recovery of the next start restores the old
  contents, removes the marker, and says so.\<close>

theorem torn_write_is_undone:
  assumes "covered (me_fs E) req f (w_os w)"
    and "calm (w_os w)" and "rq_in_place req = IpMarker (in_place_marker_key M)" and "request_ok req"
    and "\<And>m. fe_marker_parse (me_fs E) (fe_marker_json (me_fs E) m) = Some m"
    and "\<And>b. butlast b = rq_backup_dir req \<Longrightarrow> marker_entry (mo_allow M) \<lparr>im_path = rq_path req, im_backup = Some b,
          im_prev = fe_sha (me_fs E) (f_contents f), im_new = fe_sha (me_fs E) (rq_contents req)\<rparr> \<noteq> None"
    and "node_at (w_os w) (rq_path req) = Some (Reg torn)"
    and "fe_sha (me_fs E) (f_contents torn) \<noteq> fe_sha (me_fs E) (f_contents f)"
      "fe_sha (me_fs E) (f_contents torn) \<noteq> fe_sha (me_fs E) (rq_contents req)"
    and "split_path (rq_path req) = Inr (dir, name)" and "dir \<in> set (os_dirs (w_os w))"
    and "split_path (in_place_marker_key M) = Inr (md, mn)" and "md \<in> set (os_dirs (w_os w))"
    and "\<And>b. butlast b = rq_backup_dir req \<Longrightarrow> contents_at (w_os w) b = Some (f_contents f) \<Longrightarrow> \<exists>bn. split_path b = Inr (rq_backup_dir req, bn)"
    and "room (me_fs E) (w_os w) (node_at (w_os w)) (rq_backup_dir req)" and "fresh_temps (w_os w) (node_at (w_os w)) dir"
  shows "\<exists>s'. recover_in_place E M w = (Some (Inr (Some IpoRestored)), w\<lparr>w_os := s'\<rparr>)
    \<and> contents_at s' (rq_path req) = Some (f_contents f) \<and> node_at s' (in_place_marker_key M) = None"
proof -
  let ?k = "in_place_marker_key M" and ?p = "rq_path req"
  obtain b where b: "contents_at (w_os w) ?k = Some (fe_marker_json (me_fs E) \<lparr>im_path = ?p, im_backup = Some b,
      im_prev = fe_sha (me_fs E) (f_contents f), im_new = fe_sha (me_fs E) (rq_contents req)\<rparr>)"
    "contents_at (w_os w) b = Some (f_contents f)" "butlast b = rq_backup_dir req"
    using assms(1,3) by (auto simp: covered_def)
  obtain bn where bn: "split_path b = Inr (rq_backup_dir req, bn)" using assms(14) [OF b(3,2)] by blast
  have ne: "dir \<noteq> rq_backup_dir req" "?k \<noteq> ?p" "butlast ?k \<noteq> rq_backup_dir req"
    using assms(3,4) split_path_at [OF assms(10)] by (auto simp: request_ok_def)
  have "contents_at (w_os w) ?p = Some (f_contents torn)" using assms(7) by (simp add: contents_at_def)
  from read_with_digest_calm [OF assms(2,10,11) this]
  have rd: "os_call (read_with_digest (me_fs E) ?p) w = (Some (Inr (f_contents torn, fe_sha (me_fs E) (f_contents torn))), w)"
    by (simp add: os_call_def)
  have "restorable (me_fs E) (w_os w) b ?p None IpGuarded (f_contents f)"
    unfolding restorable_def using assms(7,10,11,15,16) bn b ne(1) by (fastforce simp: writable_def write_request_new_def)
  from restore_calm [OF assms(2) this] obtain out s1 where
    r: "restore_backup_with (me_fs E) b ?p None IpGuarded (w_os w) = (Inr out, s1)" "calm s1" "steady (w_os w) s1"
      "contents_at s1 ?p = Some (f_contents f)" "\<And>k. k \<noteq> ?p \<Longrightarrow> butlast k \<noteq> butlast b \<Longrightarrow> node_at s1 k = node_at (w_os w) k"
    by blast
  have "node_at s1 ?k \<noteq> None" "md \<in> set (os_dirs s1)"
    using r(3,5) ne b assms(13) by (auto simp: contents_at_def steady_def split: option.splits)
  then obtain s2 where d: "drop_in_place_marker M IpoRestored (w\<lparr>w_os := s1\<rparr>) = (Some (Inr (Some IpoRestored)), w\<lparr>w_os := s2\<rparr>)"
    "node_at s2 = (node_at s1)(?k := None)"
    using drop_marker_calm [of "w\<lparr>w_os := s1\<rparr>" M md mn IpoRestored] r(2) assms(12) by auto
  obtain e where "marker_entry (mo_allow M) \<lparr>im_path = ?p, im_backup = Some b,
      im_prev = fe_sha (me_fs E) (f_contents f), im_new = fe_sha (me_fs E) (rq_contents req)\<rparr> = Some e" using assms(6) [OF b(3)] by blast
  then have "recover_in_place E M w = (Some (Inr (Some IpoRestored)), w\<lparr>w_os := s2\<rparr>)"
    using fs_read_calm(2) [OF assms(2) b(1)] rd r(1) d(1) assms(5,8,9)
    by (simp add: recover_in_place_def mbind_def mret_def Let_def os_call_def [of "restore_backup_with _ _ _ _ _"])
  then show ?thesis using d(2) r(4) ne(2) by (auto simp: contents_at_def)
qed

section \<open>Examples\<close>

definition ex_request :: write_request where
  "ex_request = (write_request_new (ex_dir [''etc'', ''hosts'']) [7] (ex_dir [''var'', ''lib'', ''detent'', ''backups'', ''hosts'', ''0'']))
     \<lparr>rq_in_place := IpMarker (in_place_marker_key ex_greeted)\<rparr>"

lemma ex_request_ok: "request_ok ex_request"
proof -
  have "in_place_marker_key ex_greeted = ex_dir [''var'', ''lib'', ''detent'', ''write-in-progress.json'']" by code_simp
  then show ?thesis by (simp add: request_ok_def ex_request_def write_request_new_def ex_dir_def lit_eq_iff)
qed

lemma ex_request_fields:
  "rq_path ex_request = ex_dir [''etc'', ''hosts'']" "rq_contents ex_request = [7]" "rq_expected_prev ex_request = None"
  "rq_backup_dir ex_request = ex_dir [''var'', ''lib'', ''detent'', ''backups'', ''hosts'', ''0'']" "rq_keep_backups ex_request = 20"
  "\<not> rq_create_missing ex_request"
  by (simp_all add: ex_request_def write_request_new_def)

lemma ex_target_there: "node_at (ex_os script) (rq_path ex_request) = Some (Reg (ex_file [1, 2]))"
  by (simp add: ex_request_fields node_at_def ex_os_def ex_dir_def lit_eq_iff)

theorem write_crash_safe_witness:
  "\<exists>r s'. write_atomic ex_fs ex_request (ex_os [Fine, Fine, Fine, Kill 0]) = (r, s')
    \<and> (node_at s' (rq_path ex_request) = Some (Reg (ex_file [1, 2])) \<or> contents_at s' (rq_path ex_request) = Some (rq_contents ex_request)
         \<or> covered ex_fs ex_request (ex_file [1, 2]) s')"
proof -
  obtain r s' where w: "write_atomic ex_fs ex_request (ex_os [Fine, Fine, Fine, Kill 0]) = (r, s')" by force
  show ?thesis using write_crash_safe [OF ex_target_there ex_request_ok w] w by blast
qed

theorem write_succeeds_witness:
  "\<exists>out s' b. write_atomic ex_fs ex_request (ex_os []) = (Inr out, s') \<and> contents_at s' (rq_path ex_request) = Some (rq_contents ex_request)
    \<and> wo_backup out = Some b \<and> contents_at s' b = Some (f_contents (ex_file [1, 2])) \<and> butlast b = rq_backup_dir ex_request
    \<and> wo_prev_digest out = Some (fe_sha ex_fs (f_contents (ex_file [1, 2]))) \<and> wo_new_digest out = fe_sha ex_fs (rq_contents ex_request)"
proof -
  have a: "calm (ex_os [])" using ex_ready(1) by (simp add: ex_world_def)
  have b: "split_path (rq_path ex_request) = Inr (ex_dir [''etc''], lit ''hosts'')" "ex_dir [''etc''] \<in> set (os_dirs (ex_os []))"
    by (simp_all add: ex_request_fields split_path_def ex_dir_def ex_os_def)
  have c: "room ex_fs (ex_os []) (node_at (ex_os [])) (rq_backup_dir ex_request)"
    by (auto simp: ex_request_fields room_def ex_os_def node_at_def ex_dir_def at_def backup_name_def NAME_ATTEMPTS_def lit_simps
        intro!: exI [of _ 0])
  have d: "fresh_temps (ex_os []) (node_at (ex_os [])) (ex_dir [''etc''])"
    by (auto simp: fresh_temps_def ex_os_def node_at_def ex_dir_def at_def NAME_ATTEMPTS_def lit_simps intro!: exI [of _ 0])
  have e: "writable (ex_os []) (node_at (ex_os [])) ex_request" by (simp add: writable_def ex_os_def)
  show ?thesis
    using write_succeeds [OF a b ex_target_there ex_request_fields(6) _ _ c d e ex_request_ok] by (simp add: ex_request_fields) blast
qed

definition ex_torn_os :: osys where
  "ex_torn_os = (ex_os [])\<lparr>os_files :=
     [(ex_dir [''etc'', ''hosts''], Reg (ex_file [1])),
      (ex_dir [''var'', ''lib'', ''detent'', ''backups'', ''hosts'', ''0'', ''b''], Reg (ex_file [1, 2])),
      (ex_dir [''var'', ''lib'', ''detent'', ''write-in-progress.json''], Reg (ex_file (ex_marker_json
         \<lparr>im_path = ex_dir [''etc'', ''hosts''], im_backup = Some (ex_dir [''var'', ''lib'', ''detent'', ''backups'', ''hosts'', ''0'', ''b'']),
           im_prev = [1, 2], im_new = [7]\<rparr>)))]\<rparr>"

theorem torn_write_is_undone_witness:
  "\<exists>s'. recover_in_place ex_env ex_greeted ((ex_world [])\<lparr>w_os := ex_torn_os\<rparr>)
      = (Some (Inr (Some IpoRestored)), (ex_world [])\<lparr>w_os := ex_torn_os\<rparr>\<lparr>w_os := s'\<rparr>)
    \<and> contents_at s' (rq_path ex_request) = Some (f_contents (ex_file [1, 2])) \<and> node_at s' (in_place_marker_key ex_greeted) = None"
proof (rule torn_write_is_undone [where torn = "ex_file [1]" and f = "ex_file [1, 2]" and req = ex_request])
  have k: "in_place_marker_key ex_greeted = ex_dir [''var'', ''lib'', ''detent'', ''write-in-progress.json'']" by code_simp
  let ?w = "(ex_world [])\<lparr>w_os := ex_torn_os\<rparr>" and ?b = "ex_dir [''var'', ''lib'', ''detent'', ''backups'', ''hosts'', ''0'']"
  have fs: "me_fs ex_env = ex_fs" by (simp add: ex_env_def)
  show "covered (me_fs ex_env) ex_request (ex_file [1, 2]) (w_os ?w)"
    unfolding covered_def fs
    by (rule exI [of _ "in_place_marker_key ex_greeted"], rule exI [of _ "at ?b (lit ''b'')"])
      (simp add: ex_request_def k write_request_new_def ex_torn_os_def contents_at_def node_at_def ex_dir_def at_def lit_eq_iff ex_file_def)
  show "calm (w_os ?w)" by (simp add: calm_def ex_torn_os_def ex_os_def ex_dir_def lit_eq_iff)
  show "rq_in_place ex_request = IpMarker (in_place_marker_key ex_greeted)" by (simp add: ex_request_def)
  show "marker_entry (mo_allow ex_greeted) \<lparr>im_path = rq_path ex_request, im_backup = Some b,
      im_prev = fe_sha (me_fs ex_env) (f_contents (ex_file [1, 2])), im_new = fe_sha (me_fs ex_env) (rq_contents ex_request)\<rparr> \<noteq> None"
    if b: "butlast b = rq_backup_dir ex_request" for b
  proof -
    have c: "entry_key ex_target = ex_dir [''etc'', ''hosts'']" "components (te_backup_dir ex_target) = ?b" by code_simp+
    have "key_parent b = Some ?b" using b by (auto simp: key_parent_def ex_request_fields ex_dir_def)
    then show ?thesis
      by (simp add: marker_entry_def ex_greeted_def ex_monitor_def monitor_new_def ex_allow_def al_target_def get_def c ex_request_fields)
        (simp add: ex_target_def)
  qed
  show "split_path (in_place_marker_key ex_greeted) = Inr (ex_dir [''var'', ''lib'', ''detent''], lit ''write-in-progress.json'')"
    by (simp add: k split_path_def ex_dir_def)
  show "\<exists>bn. split_path b = Inr (rq_backup_dir ex_request, bn)"
    if "butlast b = rq_backup_dir ex_request" "contents_at (w_os ?w) b = Some (f_contents (ex_file [1, 2]))" for b
    using that by (auto simp: ex_torn_os_def contents_at_def node_at_def ex_file_def ex_request_fields ex_dir_def split_path_def split: if_splits)
  show "room (me_fs ex_env) (w_os ?w) (node_at (w_os ?w)) (rq_backup_dir ex_request)"
    by (auto simp: fs ex_request_fields room_def ex_torn_os_def ex_os_def node_at_def ex_dir_def at_def backup_name_def NAME_ATTEMPTS_def lit_simps
        intro!: exI [of _ 0])
  show "fresh_temps (w_os ?w) (node_at (w_os ?w)) (ex_dir [''etc''])"
    by (auto simp: fresh_temps_def ex_torn_os_def ex_os_def node_at_def ex_dir_def at_def NAME_ATTEMPTS_def lit_simps intro!: exI [of _ 0])
  show "split_path (rq_path ex_request) = Inr (ex_dir [''etc''], lit ''hosts'')" by (simp add: ex_request_fields split_path_def ex_dir_def)
qed (simp_all add: ex_request_ok ex_env_def ex_request_fields ex_torn_os_def node_at_def ex_file_def ex_os_def)

end
