(* ===== verification/Client.thy ===== *)
theory Client
  imports Transport
begin

text \<open>
  \<^verbatim>\<open>crates/detent-platform/src/privsep/worker.rs\<close>: the worker's handle on the monitor. The channel and what is
  behind it are a parameter: \<open>ask req p\<close> is one exchange, a request sent and one response received, with the
  peer in state \<open>p\<close>. It may fail before or after the peer acted. \<open>cl_log\<close> lists the exchanges; nothing reads it,
  statements about what was sent, and in which order, are made with it.
\<close>

section \<open>The client\<close>

datatype client_error =
    ClChannel channel_error
  | ClRemote proto_error
  | ClUnexpected rstr rstr
  | ClNotGreeted

type_synonym 'p peer = "request \<Rightarrow> 'p \<Rightarrow> (channel_error, response) result \<times> 'p"

record 'p client =
  cl_peer :: 'p
  cl_tables :: "hello_ack_t option"
  cl_log :: "(request \<times> (channel_error, response) result) list"

type_synonym ('p, 'x) cl = "'p client \<Rightarrow> (client_error, 'x) result \<times> 'p client"

definition client_new :: "'p \<Rightarrow> 'p client" where
  "client_new p = \<lparr>cl_peer = p, cl_tables = None, cl_log = []\<rparr>"

section \<open>Exchanges\<close>

fun variant_name :: "response \<Rightarrow> rstr" where
  "variant_name (RsHelloAck _) = lit ''HelloAck''"
| "variant_name (RsTarget _) = lit ''Target''"
| "variant_name (RsWritten _) = lit ''Written''"
| "variant_name (RsChecked _) = lit ''Checked''"
| "variant_name (RsServiced _) = lit ''Serviced''"
| "variant_name (RsBackups _) = lit ''Backups''"
| "variant_name (RsRestored _ _) = lit ''Restored''"
| "variant_name (RsConfirmTimerStarted _ _ _) = lit ''ConfirmTimerStarted''"
| "variant_name (RsCommitted _) = lit ''Committed''"
| "variant_name RsShuttingDown = lit ''ShuttingDown''"
| "variant_name (RsError _) = lit ''Error''"
| "variant_name (RsRolledBack _ _) = lit ''RolledBack''"
| "variant_name (RsReplaced _) = lit ''Replaced''"
| "variant_name (RsPending _) = lit ''Pending''"
| "variant_name (RsUnitFilesReloaded _) = lit ''UnitFilesReloaded''"
| "variant_name (RsMounted _ _) = lit ''Mounted''"
| "variant_name (RsStaged _) = lit ''Staged''"
| "variant_name (RsUpdateStarted _) = lit ''UpdateStarted''"
| "variant_name (RsUnitStatus _) = lit ''UnitStatus''"

definition unexpected :: "string \<Rightarrow> response \<Rightarrow> client_error" where
  "unexpected want got =
     (case got of RsError err \<Rightarrow> ClRemote err | _ \<Rightarrow> ClUnexpected (lit want) (variant_name got))"

definition call :: "'p peer \<Rightarrow> request \<Rightarrow> ('p, response) cl" where
  "call ask req c =
     (case ask req (cl_peer c) of
        (r, p) \<Rightarrow> (case r of Inl e \<Rightarrow> Inl (ClChannel e) | Inr resp \<Rightarrow> Inr resp,
                   c\<lparr>cl_peer := p, cl_log := cl_log c @ [(req, r)]\<rparr>))"

definition checked_call :: "'p peer \<Rightarrow> request \<Rightarrow> ('p, response) cl" where
  "checked_call ask req c =
     (if cl_tables c = None then (Inl ClNotGreeted, c)
      else case call ask req c of
             (Inr (RsError err), c') \<Rightarrow> (Inl (ClRemote err), c')
           | (r, c') \<Rightarrow> (r, c'))"

definition answer_as :: "('p, response) cl \<Rightarrow> (response \<Rightarrow> (client_error, 'x) result) \<Rightarrow> ('p, 'x) cl" where
  "answer_as m f c = (case m c of (r, c') \<Rightarrow> (bind_result r f, c'))"

definition hello :: "'p peer \<Rightarrow> ('p, hello_ack_t) cl" where
  "hello ask c =
     (case call ask (RqHello PROTO_VERSION) c of
        (Inl e, c') \<Rightarrow> (Inl e, c')
      | (Inr (RsHelloAck ack), c') \<Rightarrow> (Inr ack, c'\<lparr>cl_tables := Some ack\<rparr>)
      | (Inr other, c') \<Rightarrow> (Inl (unexpected ''HelloAck'' other), c'))"

section \<open>Lookups in the tables\<close>

definition client_ack :: "'p client \<Rightarrow> (client_error, hello_ack_t) result" where
  "client_ack c = (case cl_tables c of Some ack \<Rightarrow> Inr ack | None \<Rightarrow> Inl ClNotGreeted)"

definition client_targets :: "'p client \<Rightarrow> (client_error, target_info list) result" where
  "client_targets c = bind_result (client_ack c) (\<lambda>ack. Inr (ha_targets ack))"

definition client_bindings :: "'p client \<Rightarrow> (client_error, binding_info list) result" where
  "client_bindings c = bind_result (client_ack c) (\<lambda>ack. Inr (ha_bindings ack))"

definition client_module_id :: "'p client \<Rightarrow> rstr \<Rightarrow> nat option" where
  "client_module_id c name =
     (case cl_tables c of
        None \<Rightarrow> None
      | Some ack \<Rightarrow> map_option mi_id (find (\<lambda>m. mi_name m = name) (ha_modules ack)))"

definition client_target_id :: "'p client \<Rightarrow> rstr \<Rightarrow> rstr \<Rightarrow> path_kind \<Rightarrow> nat option" where
  "client_target_id c m path k =
     (case (client_module_id c m, cl_tables c) of
        (Some i, Some ack) \<Rightarrow>
          map_option ti_id (find (\<lambda>t. ti_module t = i \<and> ti_path t = path \<and> ti_kind t = k) (ha_targets ack))
      | _ \<Rightarrow> None)"

definition client_binding_id :: "'p client \<Rightarrow> rstr \<Rightarrow> nat option" where
  "client_binding_id c m =
     (case (client_module_id c m, cl_tables c) of
        (Some i, Some ack) \<Rightarrow> map_option bi_id (find (\<lambda>b. bi_module b = i) (ha_bindings ack))
      | _ \<Rightarrow> None)"

definition client_check_id :: "'p client \<Rightarrow> rstr \<Rightarrow> nat option" where
  "client_check_id c m =
     (case (client_module_id c m, cl_tables c) of
        (Some i, Some ack) \<Rightarrow> map_option ci_id (find (\<lambda>k. ci_module k = i) (ha_checks ack))
      | _ \<Rightarrow> None)"

section \<open>Operations\<close>

definition client_read_target :: "'p peer \<Rightarrow> nat \<Rightarrow> ('p, target_contents) cl" where
  "client_read_target ask t =
     answer_as (checked_call ask (RqReadTarget t))
       (\<lambda>r. case r of RsTarget contents \<Rightarrow> Inr contents | other \<Rightarrow> Inl (unexpected ''Target'' other))"

definition client_write_target :: "'p peer \<Rightarrow> nat \<Rightarrow> digest option \<Rightarrow> bytes \<Rightarrow> bool \<Rightarrow> ('p, write_receipt) cl" where
  "client_write_target ask t expected b journal =
     answer_as (checked_call ask (RqWriteTarget t expected b journal))
       (\<lambda>r. case r of RsWritten receipt \<Rightarrow> Inr receipt | other \<Rightarrow> Inl (unexpected ''Written'' other))"

definition client_run_check :: "'p peer \<Rightarrow> nat \<Rightarrow> bytes \<Rightarrow> ('p, check_outcome) cl" where
  "client_run_check ask i b =
     answer_as (checked_call ask (RqRunCheck i b))
       (\<lambda>r. case r of RsChecked out \<Rightarrow> Inr out | other \<Rightarrow> Inl (unexpected ''Checked'' other))"

definition client_service :: "'p peer \<Rightarrow> nat \<Rightarrow> wire_action \<Rightarrow> ('p, service_outcome) cl" where
  "client_service ask i action =
     answer_as (checked_call ask (RqService i action))
       (\<lambda>r. case r of RsServiced out \<Rightarrow> Inr out | other \<Rightarrow> Inl (unexpected ''Serviced'' other))"

definition client_service_status :: "'p peer \<Rightarrow> nat \<Rightarrow> ('p, unit_status) cl" where
  "client_service_status ask i =
     answer_as (checked_call ask (RqService i WaStatus))
       (\<lambda>r. case r of RsUnitStatus st \<Rightarrow> Inr st | other \<Rightarrow> Inl (unexpected ''UnitStatus'' other))"

definition client_reload_unit_files :: "'p peer \<Rightarrow> nat \<Rightarrow> ('p, rstr) cl" where
  "client_reload_unit_files ask m =
     answer_as (checked_call ask (RqReloadUnitFiles m))
       (\<lambda>r. case r of RsUnitFilesReloaded detail \<Rightarrow> Inr detail | other \<Rightarrow> Inl (unexpected ''UnitFilesReloaded'' other))"

definition client_mount :: "'p peer \<Rightarrow> nat \<Rightarrow> ('p, bool \<times> mount_outcome list) cl" where
  "client_mount ask t =
     answer_as (checked_call ask (RqMount t))
       (\<lambda>r. case r of RsMounted activated units \<Rightarrow> Inr (activated, units) | other \<Rightarrow> Inl (unexpected ''Mounted'' other))"

definition client_list_backups :: "'p peer \<Rightarrow> nat \<Rightarrow> ('p, backup_info list) cl" where
  "client_list_backups ask m =
     answer_as (checked_call ask (RqListBackups m))
       (\<lambda>r. case r of RsBackups entries \<Rightarrow> Inr entries | other \<Rightarrow> Inl (unexpected ''Backups'' other))"

definition client_restore :: "'p peer \<Rightarrow> nat \<Rightarrow> nat \<Rightarrow> ('p, nat \<times> digest) cl" where
  "client_restore ask m backup =
     answer_as (checked_call ask (RqRestore m backup))
       (\<lambda>r. case r of RsRestored t d \<Rightarrow> Inr (t, d) | other \<Rightarrow> Inl (unexpected ''Restored'' other))"

definition client_start_confirm_timer :: "'p peer \<Rightarrow> nat \<Rightarrow> nat \<Rightarrow> pending_service option \<Rightarrow> ('p, nat \<times> nat) cl" where
  "client_start_confirm_timer ask commit timeout_s svc =
     answer_as (checked_call ask (RqStartConfirmTimer commit timeout_s svc))
       (\<lambda>r. case r of RsConfirmTimerStarted _ t n \<Rightarrow> Inr (t, n) | other \<Rightarrow> Inl (unexpected ''ConfirmTimerStarted'' other))"

definition client_pending_commit :: "'p peer \<Rightarrow> ('p, nat option) cl" where
  "client_pending_commit ask =
     answer_as (checked_call ask RqPendingCommit)
       (\<lambda>r. case r of RsPending commit \<Rightarrow> Inr commit | other \<Rightarrow> Inl (unexpected ''Pending'' other))"

definition client_confirm_commit :: "'p peer \<Rightarrow> nat \<Rightarrow> ('p, nat) cl" where
  "client_confirm_commit ask commit =
     answer_as (checked_call ask (RqConfirmCommit commit))
       (\<lambda>r. case r of RsCommitted c \<Rightarrow> Inr c | other \<Rightarrow> Inl (unexpected ''Committed'' other))"

definition client_rollback_commit :: "'p peer \<Rightarrow> nat \<Rightarrow> ('p, nat \<times> nat) cl" where
  "client_rollback_commit ask commit =
     answer_as (checked_call ask (RqRollbackCommit commit))
       (\<lambda>r. case r of RsRolledBack c n \<Rightarrow> Inr (c, n) | other \<Rightarrow> Inl (unexpected ''RolledBack'' other))"

definition client_start_update :: "'p peer \<Rightarrow> rstr \<Rightarrow> ('p, rstr) cl" where
  "client_start_update ask tag =
     answer_as (checked_call ask (RqStartUpdate tag))
       (\<lambda>r. case r of RsUpdateStarted detail \<Rightarrow> Inr detail | other \<Rightarrow> Inl (unexpected ''UpdateStarted'' other))"

definition client_shutdown :: "'p peer \<Rightarrow> ('p, unit) cl" where
  "client_shutdown ask =
     answer_as (checked_call ask RqShutdown)
       (\<lambda>r. case r of RsShuttingDown \<Rightarrow> Inr () | other \<Rightarrow> Inl (unexpected ''ShuttingDown'' other))"

section \<open>One request for each operation\<close>

text \<open>A client computation that puts at most the request \<open>req\<close> on the channel, once, keeps the tables, and answers
  with \<open>x\<close> only when the peer's response was one of \<open>R x\<close>.\<close>

definition exchanged ::
  "'p peer \<Rightarrow> request \<Rightarrow> ('x \<Rightarrow> response \<Rightarrow> bool) \<Rightarrow> 'p client \<Rightarrow> (client_error, 'x) result \<Rightarrow> 'p client \<Rightarrow> bool" where
  "exchanged ask req R c r c' \<longleftrightarrow>
     (\<exists>a. cl_log c' = cl_log c @ [(req, a)] \<and> ask req (cl_peer c) = (a, cl_peer c') \<and> (case r of Inr x \<Rightarrow> \<exists>resp. a = Inr resp \<and> R x resp | Inl _ \<Rightarrow> True))"

definition sends :: "'p peer \<Rightarrow> request \<Rightarrow> ('x \<Rightarrow> response \<Rightarrow> bool) \<Rightarrow> ('p, 'x) cl \<Rightarrow> bool" where
  "sends ask req R m \<longleftrightarrow>
     (\<forall>c. cl_tables (snd (m c)) = cl_tables c
        \<and> (exchanged ask req R c (fst (m c)) (snd (m c)) \<or> m c = (Inl ClNotGreeted, c)))"

lemma sends_checked_call: "sends ask req (\<lambda>x resp. x = resp) (checked_call ask req)"
  by (auto simp: sends_def exchanged_def checked_call_def call_def split: prod.splits sum.splits response.splits)

lemma sends_answer_as:
  assumes "sends ask req (\<lambda>x resp. x = resp) m" and "\<And>x resp. f resp = Inr x \<Longrightarrow> R x resp"
  shows "sends ask req R (answer_as m f)"
  unfolding sends_def
proof
  fix c
  obtain r0 c' where m: "m c = (r0, c')" by force
  then have a: "answer_as m f c = (bind_result r0 f, c')" by (simp add: answer_as_def)
  have t: "cl_tables c' = cl_tables c" "exchanged ask req (\<lambda>x resp. x = resp) c r0 c' \<or> (r0, c') = (Inl ClNotGreeted, c)"
    using assms(1) m unfolding sends_def by (metis fst_conv snd_conv)+
  have "exchanged ask req R c (bind_result r0 f) c'" if "exchanged ask req (\<lambda>x resp. x = resp) c r0 c'"
  proof (cases r0)
    case (Inl e)
    then show ?thesis using that by (simp add: exchanged_def bind_result_def)
  next
    case (Inr resp)
    then show ?thesis using that assms(2) by (auto simp: exchanged_def bind_result_def split: sum.splits)
  qed
  then show "cl_tables (snd (answer_as m f c)) = cl_tables c
      \<and> (exchanged ask req R c (fst (answer_as m f c)) (snd (answer_as m f c)) \<or> answer_as m f c = (Inl ClNotGreeted, c))"
    using t a by (auto simp: bind_result_def)
qed

lemmas client_defs = client_read_target_def client_write_target_def client_run_check_def client_service_def
  client_service_status_def client_reload_unit_files_def client_mount_def client_list_backups_def client_restore_def
  client_start_confirm_timer_def client_pending_commit_def client_confirm_commit_def client_rollback_commit_def
  client_start_update_def client_shutdown_def

lemma client_sends:
  "sends ask (RqReadTarget t) (\<lambda>x resp. resp = RsTarget x) (client_read_target ask t)"
  "sends ask (RqWriteTarget t expected b journal) (\<lambda>x resp. resp = RsWritten x) (client_write_target ask t expected b journal)"
  "sends ask (RqRunCheck i b) (\<lambda>x resp. resp = RsChecked x) (client_run_check ask i b)"
  "sends ask (RqService i action) (\<lambda>x resp. resp = RsServiced x) (client_service ask i action)"
  "sends ask (RqService i WaStatus) (\<lambda>x resp. resp = RsUnitStatus x) (client_service_status ask i)"
  "sends ask (RqReloadUnitFiles m) (\<lambda>x resp. resp = RsUnitFilesReloaded x) (client_reload_unit_files ask m)"
  "sends ask (RqMount t) (\<lambda>x resp. resp = RsMounted (fst x) (snd x)) (client_mount ask t)"
  "sends ask (RqListBackups m) (\<lambda>x resp. resp = RsBackups x) (client_list_backups ask m)"
  "sends ask (RqRestore m k) (\<lambda>x resp. resp = RsRestored (fst x) (snd x)) (client_restore ask m k)"
  "sends ask (RqStartConfirmTimer k n svc) (\<lambda>x resp. \<exists>c. resp = RsConfirmTimerStarted c (fst x) (snd x)) (client_start_confirm_timer ask k n svc)"
  "sends ask RqPendingCommit (\<lambda>x resp. resp = RsPending x) (client_pending_commit ask)"
  "sends ask (RqConfirmCommit k) (\<lambda>x resp. resp = RsCommitted x) (client_confirm_commit ask k)"
  "sends ask (RqRollbackCommit k) (\<lambda>x resp. resp = RsRolledBack (fst x) (snd x)) (client_rollback_commit ask k)"
  "sends ask (RqStartUpdate tag) (\<lambda>x resp. resp = RsUpdateStarted x) (client_start_update ask tag)"
  "sends ask RqShutdown (\<lambda>x resp. resp = RsShuttingDown) (client_shutdown ask)"
  unfolding client_defs
  by (rule sends_answer_as [OF sends_checked_call], auto split: response.splits)+

text \<open>The exchanges \<open>seg\<close> are what the peer, started in \<open>p\<close>, answered one after the other; it ends in \<open>p'\<close>.\<close>

fun history :: "'p peer \<Rightarrow> 'p \<Rightarrow> (request \<times> (channel_error, response) result) list \<Rightarrow> 'p \<Rightarrow> bool" where
  "history ask p [] p' \<longleftrightarrow> p' = p"
| "history ask p ((rq, a) # seg) p' \<longleftrightarrow> fst (ask rq p) = a \<and> history ask (snd (ask rq p)) seg p'"

lemma history_append: "history ask p s1 p1 \<Longrightarrow> history ask p1 s2 p2 \<Longrightarrow> history ask p (s1 @ s2) p2"
  by (induction ask p s1 p1 rule: history.induct) simp_all

lemma history_appendE:
  assumes "history ask p (s1 @ s2) p2"
  obtains p1 where "history ask p s1 p1" "history ask p1 s2 p2"
proof -
  have "\<exists>p1. history ask p s1 p1 \<and> history ask p1 s2 p2" using assms by (induction s1 arbitrary: p) auto
  then show thesis using that by blast
qed

end
