(* ===== verification/Engine.thy ===== *)
theory Engine
  imports Client Dyn_Module Operations Unified_Diff Audit_Chain
begin

text \<open>
  \<^verbatim>\<open>crates/detent-ops/src/engine.rs\<close>, \<^verbatim>\<open>error.rs\<close> and \<^verbatim>\<open>report.rs\<close>: the one place an operation turns into
  privileged work. An engine owns its modules, the client, the detected host, the audit sink and the last commit it
  armed. The monitor behind the client, the sink, the certificate hook, the clocks and the texts of errors are
  parameters (\<open>engine_env\<close>). \<open>en_trace\<close> is what was sent to \<^verbatim>\<open>tracing\<close>; \<open>en_hashes\<close> is the \<^verbatim>\<open>Hashes\<close> of the
  operation in progress.
\<close>

section \<open>Errors\<close>

datatype service_error =
    SvNoKnownUnit "rstr list"
  | SvInvalidUnitName rstr
  | SvUnsupported rstr
  | SvUnavailable rstr
  | SvFailed rstr

datatype ops_error =
    OeUnknownModule rstr
  | OeDenied denied
  | OeInvalid diagnostics
  | OeCheckFailed rstr rstr
  | OeHashConflict digest "digest option"
  | OeModule dyn_error
  | OePrivsep client_error
  | OeService service_error
  | OeNoTarget rstr
  | OeNoService rstr
  | OeCommitPending nat
  | OeNoBackup
  | OeArmFailed ops_error "ops_error option"
  | OeTargetMissing
  | OeAudit audit_error
  | OeAuditUnavailable audit_error
  | OeCert rstr rstr
  | OeUnsupported rstr
  | OeUpdateRunning
  | OeUpdateTagInvalid
  | OeUpdateNotNewer

fun ops_message_id :: "ops_error \<Rightarrow> rstr" where
  "ops_message_id (OeUnknownModule _) = lit ''ops-unknown-module''"
| "ops_message_id (OeDenied d) = dn_id d"
| "ops_message_id (OeInvalid _) = lit ''ops-invalid-model''"
| "ops_message_id (OeCheckFailed _ _) = lit ''ops-check-failed''"
| "ops_message_id (OeHashConflict _ _) = lit ''ops-hash-conflict''"
| "ops_message_id (OeModule err) = dyn_message_id err"
| "ops_message_id (OePrivsep _) = lit ''ops-privsep-failed''"
| "ops_message_id (OeService _) = lit ''ops-service-failed''"
| "ops_message_id (OeNoTarget _) = lit ''ops-no-target''"
| "ops_message_id (OeNoService _) = lit ''ops-no-service''"
| "ops_message_id (OeAudit _) = lit ''ops-audit-failed''"
| "ops_message_id (OeAuditUnavailable _) = lit ''ops-audit-unavailable''"
| "ops_message_id (OeCommitPending _) = lit ''ops-commit-pending''"
| "ops_message_id OeNoBackup = lit ''ops-no-backup''"
| "ops_message_id (OeArmFailed _ restore_error) =
     (case restore_error of None \<Rightarrow> lit ''ops-arm-failed-restored'' | Some _ \<Rightarrow> lit ''ops-arm-failed-unrestored'')"
| "ops_message_id OeTargetMissing = lit ''ops-target-missing''"
| "ops_message_id (OeCert i _) = i"
| "ops_message_id (OeUnsupported _) = lit ''ops-unsupported''"
| "ops_message_id OeUpdateRunning = lit ''ops-update-running''"
| "ops_message_id OeUpdateTagInvalid = lit ''ops-update-tag-invalid''"
| "ops_message_id OeUpdateNotNewer = lit ''ops-update-not-newer''"

section \<open>Reports\<close>

record 'j module_view =
  mv_descriptor :: module_descriptor
  mv_schema :: 'j
  mv_model :: "'j option"
  mv_current_hash :: "digest option"
  mv_diagnostics :: diagnostics
  mv_secret_pointers :: "rstr list"

record affected_service =
  af_unit :: rstr
  af_actions :: "service_command list"

record check_report =
  cr_program :: rstr
  cr_ran :: bool
  cr_passed :: bool
  cr_exit_code :: "int option"
  cr_detail :: rstr

record plan_report =
  pl_module :: rstr
  pl_path :: rstr
  pl_diff :: "hunk list"
  pl_rendered :: rstr
  pl_unified_diff :: rstr
  pl_affected_services :: "affected_service list"
  pl_checks :: "check_report list"
  pl_diagnostics :: diagnostics
  pl_current_hash :: digest
  pl_would_change :: bool

record pending_report =
  pr_commit_id :: nat
  pr_timeout_s :: nat
  pr_deadline :: rstr
  pr_rollback_targets :: nat

record service_report =
  sr_unit :: rstr
  sr_action :: service_command
  sr_active :: bool
  sr_detail :: rstr

datatype mount_report_state = MrMounted | MrAlreadyMounted | MrPending | MrFailed | MrProtected | MrStopped

fun mount_report_state_of :: "mount_state \<Rightarrow> mount_report_state" where
  "mount_report_state_of MsMounted = MrMounted"
| "mount_report_state_of MsAlreadyMounted = MrAlreadyMounted"
| "mount_report_state_of MsPending = MrPending"
| "mount_report_state_of MsFailed = MrFailed"
| "mount_report_state_of MsProtected = MrProtected"
| "mount_report_state_of MsStopped = MrStopped"

record mount_report =
  mr_mountpoint :: rstr
  mr_unit :: rstr
  mr_state :: mount_report_state
  mr_detail :: rstr

definition mount_report_of :: "mount_outcome \<Rightarrow> mount_report" where
  "mount_report_of out =
     \<lparr>mr_mountpoint = mo_mountpoint out, mr_unit = mo_unit out, mr_state = mount_report_state_of (mo_state out),
      mr_detail = mo_detail out\<rparr>"

record mounts_report =
  ms_activated :: bool
  ms_units :: "mount_report list"
  ms_error :: "rstr option"

record apply_report =
  ap_module :: rstr
  ap_path :: rstr
  ap_prev_hash :: "digest option"
  ap_new_hash :: digest
  ap_created :: bool
  ap_backed_up :: bool
  ap_service :: "service_report option"
  ap_commit :: "pending_report option"
  ap_checks :: "check_report list"
  ap_mounts :: "mounts_report option"

datatype network_backend = NbSystemdNetworkd | NbNetworkManager | NbIfupdown | NbNetplan | NbUnknown
datatype resolver_backend = RbSystemdResolved | RbNetworkManager | RbStatic | RbUnbound | RbUnknown

record distro =
  di_id :: rstr
  di_id_like :: "rstr list"
  di_version_id :: "rstr option"

record host_facts =
  hf_distro :: "distro option"
  hf_network_backend :: network_backend
  hf_resolver_backend :: resolver_backend
  hf_notes :: "rstr list"

record detected =
  de_profile :: host_profile
  de_facts :: host_facts

record host_report =
  hr_profile :: host_profile
  hr_distro_id :: "rstr option"
  hr_distro_version_id :: "rstr option"
  hr_network_backend :: rstr
  hr_resolver_backend :: rstr
  hr_notes :: "rstr list"

fun network_backend_name :: "network_backend \<Rightarrow> rstr" where
  "network_backend_name NbSystemdNetworkd = lit ''systemd_networkd''"
| "network_backend_name NbNetworkManager = lit ''network_manager''"
| "network_backend_name NbIfupdown = lit ''ifupdown''"
| "network_backend_name NbNetplan = lit ''netplan''"
| "network_backend_name NbUnknown = lit ''unknown''"

fun resolver_backend_name :: "resolver_backend \<Rightarrow> rstr" where
  "resolver_backend_name RbSystemdResolved = lit ''systemd_resolved''"
| "resolver_backend_name RbNetworkManager = lit ''network_manager''"
| "resolver_backend_name RbStatic = lit ''static''"
| "resolver_backend_name RbUnbound = lit ''unbound''"
| "resolver_backend_name RbUnknown = lit ''unknown''"

definition host_report_of :: "detected \<Rightarrow> host_report" where
  "host_report_of d =
     \<lparr>hr_profile = de_profile d, hr_distro_id = map_option di_id (hf_distro (de_facts d)),
      hr_distro_version_id = (case hf_distro (de_facts d) of Some x \<Rightarrow> di_version_id x | None \<Rightarrow> None),
      hr_network_backend = network_backend_name (hf_network_backend (de_facts d)),
      hr_resolver_backend = resolver_backend_name (hf_resolver_backend (de_facts d)), hr_notes = hf_notes (de_facts d)\<rparr>"

datatype expiry_warning = EwHalf | EwQuarter

record cert_report =
  ct_fingerprint :: rstr
  ct_not_after_unix :: "int option"
  ct_lifetime_used_percent :: "nat option"
  ct_renewal_due :: "bool option"
  ct_expiry_warning :: "expiry_warning option"

definition warning_for_percent :: "nat option \<Rightarrow> expiry_warning option" where
  "warning_for_percent used =
     (case used of
        Some p \<Rightarrow> if 75 \<le> p then Some EwQuarter else if 50 \<le> p then Some EwHalf else None
      | None \<Rightarrow> None)"

datatype unit_run_state = StActive | StInactive | StFailed | StActivating | StDeactivating | StUnknown

fun state_of_unit :: "unit_state \<Rightarrow> unit_run_state" where
  "state_of_unit UsActive = StActive"
| "state_of_unit UsInactive = StInactive"
| "state_of_unit UsFailed = StFailed"
| "state_of_unit UsActivating = StActivating"
| "state_of_unit UsDeactivating = StDeactivating"
| "state_of_unit UsUnknown = StUnknown"

text \<open>\<^verbatim>\<open>SystemTime\<close> counts whole seconds in an \<^verbatim>\<open>i64\<close>; a time that does not fit becomes \<open>None\<close>.\<close>

record service_status =
  ss_unit :: rstr
  ss_state :: unit_run_state
  ss_enabled :: "bool option"
  ss_since :: "(nat \<times> nat) option"

definition system_time_of :: "nat \<times> nat \<Rightarrow> (nat \<times> nat) option" where
  "system_time_of t =
     (case t of (secs, nanos) \<Rightarrow>
        if secs < 2 ^ 63 \<and> secs + nanos div 1000000000 < 2 ^ 63
        then Some (secs + nanos div 1000000000, nanos mod 1000000000) else None)"

definition service_status_of :: "unit_status \<Rightarrow> service_status" where
  "service_status_of st =
     \<lparr>ss_unit = us_unit st, ss_state = state_of_unit (us_state st), ss_enabled = us_enabled st,
      ss_since = (case us_since st of Some t \<Rightarrow> system_time_of t | None \<Rightarrow> None)\<rparr>"

datatype 'j op_outcome =
    OoModules "module_descriptor list"
  | OoModule "'j module_view"
  | OoValidated diagnostics
  | OoPlanned plan_report
  | OoApplied apply_report
  | OoCommitConfirmed nat
  | OoRolledBack nat nat
  | OoBackups "backup_info list"
  | OoRestored nat digest
  | OoStatus service_status
  | OoServiced service_report
  | OoHost host_report
  | OoAudit "audit_record list"
  | OoUpdateStarted rstr
  | OoCertStatus cert_report
  | OoCertRenewRequested

section \<open>The engine\<close>

record cert_front_end =
  cf_status :: "(ops_error, cert_report) result"
  cf_renew :: "(ops_error, unit) result"

record hashes =
  ha_prev :: "digest option"
  ha_new :: "digest option"
  ha_commit_id :: "nat option"

definition hashes_default :: hashes where
  "hashes_default = \<lparr>ha_prev = None, ha_new = None, ha_commit_id = None\<rparr>"

record wiring_t =
  wi_target :: nat
  wi_path :: rstr
  wi_checks :: "(nat \<times> rstr) list"
  wi_binding :: "(nat \<times> affected_service) option"

datatype trace_event =
    TrAudit audit_record
  | TrAuditLost audit_error
  | TrUpdateStarted rstr
  | TrUpdateCannot rstr

record ('j, 'p, 'a) engine =
  en_modules :: "'j dyn_module list"
  en_client :: "'p client"
  en_host :: detected
  en_audit :: 'a
  en_next_commit :: nat
  en_pending :: "pending_report option"
  en_cert :: "cert_front_end option"
  en_ticks :: nat
  en_hashes :: hashes
  en_trace :: "trace_event list"

text \<open>\<open>ee_exists\<close> asks the file system, which is part of the world behind the client; \<open>ee_now\<close> and \<open>ee_deadline\<close>
  are the texts of the time and of a deadline at the \<open>n\<close>-th reading of the clock.\<close>

record ('p, 'a, 'v) engine_env =
  ee_ask :: "'p peer"
  ee_record :: "audit_record \<Rightarrow> 'a \<Rightarrow> (audit_error, unit) result \<times> 'a"
  ee_query :: "audit_query \<Rightarrow> 'a \<Rightarrow> (audit_error, audit_record list) result"
  ee_now :: "nat \<Rightarrow> rstr"
  ee_deadline :: "nat \<Rightarrow> nat \<Rightarrow> rstr"
  ee_text :: "client_error \<Rightarrow> rstr"
  ee_exists :: "'p \<Rightarrow> rstr \<Rightarrow> bool"
  ee_semver :: "'v semver"

type_synonym ('j, 'p, 'a, 'x) eng =
  "('j, 'p, 'a) engine \<Rightarrow> (ops_error, 'x) result \<times> ('j, 'p, 'a) engine"

definition eret :: "'x \<Rightarrow> ('j, 'p, 'a, 'x) eng" where
  "eret x e = (Inr x, e)"

definition efail :: "ops_error \<Rightarrow> ('j, 'p, 'a, 'x) eng" where
  "efail err e = (Inl err, e)"

definition elift :: "(ops_error, 'x) result \<Rightarrow> ('j, 'p, 'a, 'x) eng" where
  "elift r e = (r, e)"

definition ereads :: "(('j, 'p, 'a) engine \<Rightarrow> 'x) \<Rightarrow> ('j, 'p, 'a, 'x) eng" where
  "ereads f e = (Inr (f e), e)"

definition emodify :: "(('j, 'p, 'a) engine \<Rightarrow> ('j, 'p, 'a) engine) \<Rightarrow> ('j, 'p, 'a, unit) eng" where
  "emodify f e = (Inr (), f e)"

definition ebind :: "('j, 'p, 'a, 'x) eng \<Rightarrow> ('x \<Rightarrow> ('j, 'p, 'a, 'y) eng) \<Rightarrow> ('j, 'p, 'a, 'y) eng" where
  "ebind m f e = (case m e of (Inl err, e') \<Rightarrow> (Inl err, e') | (Inr x, e') \<Rightarrow> f x e')"

text \<open>Run \<open>m\<close> and hand its result on as a value (\<^verbatim>\<open>match\<close> on a \<^verbatim>\<open>Result\<close>).\<close>

definition etry :: "('j, 'p, 'a, 'x) eng \<Rightarrow> ('j, 'p, 'a, (ops_error, 'x) result) eng" where
  "etry m e = (case m e of (r, e') \<Rightarrow> (Inr r, e'))"

definition eclient :: "('p, 'x) cl \<Rightarrow> ('j, 'p, 'a, (client_error, 'x) result) eng" where
  "eclient m e = (case m (en_client e) of (r, c) \<Rightarrow> (Inr r, e\<lparr>en_client := c\<rparr>))"

definition map_client :: "client_error \<Rightarrow> ops_error" where
  "map_client err =
     (case err of
        ClRemote (PeConflict expected actual) \<Rightarrow> OeHashConflict expected actual
      | ClRemote PeNotFound \<Rightarrow> OeTargetMissing
      | other \<Rightarrow> OePrivsep other)"

definition map_status_error :: "client_error \<Rightarrow> ops_error" where
  "map_status_error err =
     (case err of
        ClRemote (PeUnavailable message) \<Rightarrow> OeService (SvUnavailable message)
      | ClRemote (PeIo message) \<Rightarrow> OeService (SvFailed message)
      | other \<Rightarrow> OePrivsep other)"

definition map_err_with :: "('e \<Rightarrow> 'f) \<Rightarrow> ('e, 'x) result \<Rightarrow> ('f, 'x) result" where
  "map_err_with f r = (case r of Inl e \<Rightarrow> Inl (f e) | Inr x \<Rightarrow> Inr x)"

text \<open>\<^verbatim>\<open>self.client.m(...).map_err(map_client)?\<close>\<close>

definition easks :: "('p, 'x) cl \<Rightarrow> ('j, 'p, 'a, 'x) eng" where
  "easks m = ebind (eclient m) (\<lambda>r. elift (map_err_with map_client r))"

section \<open>Finding a module and its wiring\<close>

definition find_module :: "'j dyn_module list \<Rightarrow> rstr \<Rightarrow> (ops_error, 'j dyn_module) result" where
  "find_module modules i = (case find (\<lambda>m. dm_id m = i) modules of Some m \<Rightarrow> Inr m | None \<Rightarrow> Inl (OeUnknownModule i))"

definition module_id :: "'p client \<Rightarrow> 'j dyn_module \<Rightarrow> (ops_error, nat) result" where
  "module_id c m = (case client_module_id c (dm_id m) of Some i \<Rightarrow> Inr i | None \<Rightarrow> Inl (OeUnknownModule (dm_id m)))"

fun to_wire :: "service_command \<Rightarrow> wire_action" where
  "to_wire Restart = WaRestart"
| "to_wire Reload = WaReload"
| "to_wire Start = WaStart"
| "to_wire Stop = WaStop"

fun command_to_core :: "service_command \<Rightarrow> core_action" where
  "command_to_core Restart = CaRestart"
| "command_to_core Reload = CaReload"
| "command_to_core Start = CaStart"
| "command_to_core Stop = CaStop"

fun command_of_core :: "core_action \<Rightarrow> service_command" where
  "command_of_core CaRestart = Restart"
| "command_of_core CaReload = Reload"
| "command_of_core CaStart = Start"
| "command_of_core CaStop = Stop"

fun command :: "wire_action \<Rightarrow> service_command option" where
  "command WaRestart = Some Restart"
| "command WaReload = Some Reload"
| "command WaStart = Some Start"
| "command WaStop = Some Stop"
| "command WaStatus = None"

definition choose_target ::
  "module_descriptor \<Rightarrow> host_profile \<Rightarrow> (rstr \<Rightarrow> bool) \<Rightarrow> target_info list \<Rightarrow> rstr option \<Rightarrow> target_info option" where
  "choose_target d profile exists advertised model_target =
     (let find_info = (\<lambda>p. find (\<lambda>info. ti_path info = p) advertised);
          moved = (\<lambda>t. relocated d t profile exists)
      in case model_target of
           Some p \<Rightarrow>
             (case find (\<lambda>t. ts_path t = p) (md_targets d) of
                Some t \<Rightarrow> find_info (ts_path (moved t))
              | None \<Rightarrow> None)
         | None \<Rightarrow>
             (case (case find (\<lambda>t. find_info (ts_path t) \<noteq> None) (filter (\<lambda>t. ts_backend_detect t profile) (md_targets d)) of
                      Some t \<Rightarrow> find_info (ts_path (moved t))
                    | None \<Rightarrow> None) of
                Some info \<Rightarrow> Some info
              | None \<Rightarrow> (case advertised of info # _ \<Rightarrow> Some info | [] \<Rightarrow> None)))"

definition wiring ::
  "'p client \<Rightarrow> module_descriptor \<Rightarrow> host_profile \<Rightarrow> (rstr \<Rightarrow> bool) \<Rightarrow> rstr option \<Rightarrow> (ops_error, wiring_t) result" where
  "wiring c d profile exists model_target =
     (case client_module_id c (md_id d) of
        None \<Rightarrow> Inl (OeUnknownModule (md_id d))
      | Some m \<Rightarrow>
          bind_result (map_err_with OePrivsep (client_targets c)) (\<lambda>targets.
            let advertised = filter (\<lambda>t. ti_module t = m \<and> ti_kind t = PkFile) targets in
            case choose_target d profile exists advertised model_target of
              None \<Rightarrow> Inl (OeNoTarget (md_id d))
            | Some chosen \<Rightarrow>
                bind_result (map_err_with OePrivsep (client_bindings c)) (\<lambda>bindings.
                  Inr \<lparr>wi_target = ti_id chosen, wi_path = ti_path chosen,
                    wi_checks = map (\<lambda>k. (ci_id k, ci_program k))
                      (filter (\<lambda>k. ci_module k = m \<and> ti_id chosen \<in> set (ci_targets k))
                        (case cl_tables c of Some ack \<Rightarrow> ha_checks ack | None \<Rightarrow> [])),
                    wi_binding = map_option (\<lambda>b. (bi_id b, \<lparr>af_unit = bi_unit b, af_actions = filter_map command (bi_actions b)\<rparr>))
                      (find (\<lambda>b. bi_module b = m \<and> ti_id chosen \<in> set (bi_targets b)) bindings)\<rparr>)))"

text \<open>The wiring as an operation of the engine sees it.\<close>

definition wired :: "('p, 'a, 'v) engine_env \<Rightarrow> module_descriptor \<Rightarrow> rstr option \<Rightarrow> ('j, 'p, 'a, wiring_t) eng" where
  "wired EE d model_target =
     (\<lambda>e. (wiring (en_client e) d (de_profile (en_host e)) (ee_exists EE (cl_peer (en_client e))) model_target, e))"

definition the_module :: "rstr \<Rightarrow> ('j, 'p, 'a, 'j dyn_module) eng" where
  "the_module i = (\<lambda>e. (find_module (en_modules e) i, e))"

definition the_module_id :: "rstr \<Rightarrow> ('j, 'p, 'a, nat) eng" where
  "the_module_id i = (\<lambda>e. (bind_result (find_module (en_modules e) i) (module_id (en_client e)), e))"

definition model_wiring :: "('p, 'a, 'v) engine_env \<Rightarrow> rstr \<Rightarrow> 'j \<Rightarrow> ('j, 'p, 'a, wiring_t) eng" where
  "model_wiring EE i model =
     ebind (the_module i) (\<lambda>m.
     ebind (elift (map_err_with OeModule (dm_model_target_json m model))) (\<lambda>target.
       wired EE (dm_descriptor m) target))"

section \<open>Reading\<close>

definition decode :: "bytes \<Rightarrow> rstr \<Rightarrow> (ops_error, rstr) result" where
  "decode b path =
     (case from_utf8 b of
        Inr text \<Rightarrow> Inr text
      | Inl n \<Rightarrow> Inl (OeModule (ParseErr (Malformed (path @ lit '' is not valid UTF-8 at byte '' @ show_nat n) None))))"

definition CHECK_DETAIL_LIMIT :: nat where "CHECK_DETAIL_LIMIT = 512"

definition truncate_detail :: "rstr \<Rightarrow> rstr" where
  "truncate_detail detail = take_bytes CHECK_DETAIL_LIMIT detail"

definition validate_model :: "'j dyn_module \<Rightarrow> 'j \<Rightarrow> ('j, 'p, 'a, diagnostics) eng" where
  "validate_model m model =
     (\<lambda>e. (map_err_with OeModule (dm_validate_json m model (de_profile (en_host e))), e))"

definition get_module :: "('p, 'a, 'v) engine_env \<Rightarrow> rstr \<Rightarrow> ('j, 'p, 'a, 'j op_outcome) eng" where
  "get_module EE i =
     ebind (the_module i) (\<lambda>m.
     ebind (wired EE (dm_descriptor m) None) (\<lambda>w.
     ebind (eclient (client_read_target (ee_ask EE) (wi_target w))) (\<lambda>r.
     ebind (case r of
              Inr contents \<Rightarrow> eret (Some contents)
            | Inl (ClRemote PeNotFound) \<Rightarrow> eret None
            | Inl err \<Rightarrow> efail (map_client err)) (\<lambda>contents.
     ebind (case contents of
              Some contents \<Rightarrow>
                ebind (elift (decode (tc_bytes contents) (wi_path w))) (\<lambda>text.
                ebind (elift (map_err_with OeModule (dm_parse_to_model_json m text))) (\<lambda>model.
                  eret (Some model, Some (tc_digest contents))))
            | None \<Rightarrow> eret (None, None)) (\<lambda>(model, current_hash).
     ebind (case model of
              Some mo \<Rightarrow> validate_model m mo
            | None \<Rightarrow> eret [with_arg (lit ''path'') (wi_path w) (diagnostic_new Warning (lit ''ops-target-missing''))]) (\<lambda>ds.
       eret (OoModule \<lparr>mv_descriptor = dm_descriptor m, mv_schema = dm_schema_json m, mv_model = model,
         mv_current_hash = current_hash, mv_diagnostics = ds, mv_secret_pointers = dm_secret_pointers m\<rparr>)))))))"

fun run_checks :: "('p, 'a, 'v) engine_env \<Rightarrow> (nat \<times> rstr) list \<Rightarrow> bytes \<Rightarrow> ('j, 'p, 'a, check_report list) eng" where
  "run_checks EE [] candidate = eret []"
| "run_checks EE ((i, program) # checks) candidate =
     ebind (eclient (client_run_check (ee_ask EE) i candidate)) (\<lambda>r.
     ebind (run_checks EE checks candidate) (\<lambda>rest.
       eret ((case r of
                Inr out \<Rightarrow> \<lparr>cr_program = program, cr_ran = True, cr_passed = co_passed out, cr_exit_code = co_exit_code out,
                  cr_detail = truncate_detail (co_detail out)\<rparr>
              | Inl err \<Rightarrow> \<lparr>cr_program = program, cr_ran = False, cr_passed = False, cr_exit_code = None,
                  cr_detail = truncate_detail (ee_text EE err)\<rparr>) # rest)))"

definition plan :: "('p, 'a, 'v) engine_env \<Rightarrow> rstr \<Rightarrow> 'j \<Rightarrow> ('j, 'p, 'a, plan_report) eng" where
  "plan EE i model =
     ebind (the_module i) (\<lambda>m.
     ebind (model_wiring EE i model) (\<lambda>w.
     ebind (easks (client_read_target (ee_ask EE) (wi_target w))) (\<lambda>contents.
     ebind (elift (decode (tc_bytes contents) (wi_path w))) (\<lambda>current.
     ebind (validate_model m model) (\<lambda>ds.
       if has_errors ds then efail (OeInvalid ds)
       else
         ebind (elift (map_err_with OeModule (dm_apply_json m current model))) (\<lambda>rendered.
         ebind (run_checks EE (wi_checks w) (as_bytes rendered)) (\<lambda>checks.
           eret \<lparr>pl_module = md_id (dm_descriptor m), pl_path = wi_path w, pl_diff = diff current rendered DEFAULT_CONTEXT,
             pl_rendered = rendered,
             pl_unified_diff = render_unified (wi_path w) (wi_path w) (diff current rendered DEFAULT_CONTEXT),
             pl_affected_services = (case wi_binding w of Some (_, s) \<Rightarrow> [s] | None \<Rightarrow> []),
             pl_checks = checks, pl_diagnostics = ds, pl_current_hash = tc_digest contents,
             pl_would_change = (current \<noteq> rendered)\<rparr>)))))))"

definition service_status_op :: "('p, 'a, 'v) engine_env \<Rightarrow> rstr \<Rightarrow> ('j, 'p, 'a, 'j op_outcome) eng" where
  "service_status_op EE i =
     ebind (the_module i) (\<lambda>m.
     ebind (the_module_id i) (\<lambda>_.
     ebind (wired EE (dm_descriptor m) None) (\<lambda>w.
       case wi_binding w of
         None \<Rightarrow> efail (OeNoService (md_id (dm_descriptor m)))
       | Some (binding, _) \<Rightarrow>
           ebind (eclient (client_service_status (ee_ask EE) binding)) (\<lambda>r.
           ebind (elift (map_err_with map_status_error r)) (\<lambda>st.
             eret (OoStatus (service_status_of st)))))))"

definition update_apply :: "('p, 'a, 'v) engine_env \<Rightarrow> rstr \<Rightarrow> ('j, 'p, 'a, unit) eng" where
  "update_apply EE version =
     (case check_update_tag (ee_semver EE) version of
        Inl NotReleaseTag \<Rightarrow> efail OeUpdateTagInvalid
      | Inl NotNewer \<Rightarrow> efail OeUpdateNotNewer
      | Inr _ \<Rightarrow>
          ebind (eclient (client_start_update (ee_ask EE) version)) (\<lambda>r.
            case r of
              Inr detail \<Rightarrow> emodify (\<lambda>e. e\<lparr>en_trace := en_trace e @ [TrUpdateStarted detail]\<rparr>)
            | Inl err \<Rightarrow>
                (case err of
                   ClRemote PeUpdateRunning \<Rightarrow> efail OeUpdateRunning
                 | ClRemote (PeUnavailable note) \<Rightarrow>
                     ebind (emodify (\<lambda>e. e\<lparr>en_trace := en_trace e @ [TrUpdateCannot note]\<rparr>)) (\<lambda>_.
                       efail (OeUnsupported (lit ''update_apply'')))
                 | ClRemote (PeUnsupported note) \<Rightarrow>
                     ebind (emodify (\<lambda>e. e\<lparr>en_trace := en_trace e @ [TrUpdateCannot note]\<rparr>)) (\<lambda>_.
                       efail (OeUnsupported (lit ''update_apply'')))
                 | _ \<Rightarrow> efail (map_client err))))"

section \<open>Applying\<close>

definition apply_is_noop :: "('p, 'a, 'v) engine_env \<Rightarrow> 'j operation \<Rightarrow> ('j, 'p, 'a, bool) eng" where
  "apply_is_noop EE op =
     (case op of
        Apply i model expected_hash service_action _ \<Rightarrow>
          ebind (the_module i) (\<lambda>m.
          ebind (validate_model m model) (\<lambda>ds.
            if has_errors ds then eret False
            else
              ebind (model_wiring EE i model) (\<lambda>w.
                if service_action \<noteq> None \<and> wi_binding w = None then eret False
                else
                  ebind (easks (client_read_target (ee_ask EE) (wi_target w))) (\<lambda>contents.
                    if (case expected_hash of Some d \<Rightarrow> d \<noteq> tc_digest contents | None \<Rightarrow> False) then eret False
                    else
                      ebind (elift (decode (tc_bytes contents) (wi_path w))) (\<lambda>current.
                      ebind (elift (map_err_with OeModule (dm_apply_json m current model))) (\<lambda>rendered.
                        eret (current = rendered)))))))
      | _ \<Rightarrow> eret False)"

definition unchanged_report :: "rstr \<Rightarrow> rstr \<Rightarrow> digest \<Rightarrow> apply_report" where
  "unchanged_report m path d =
     \<lparr>ap_module = m, ap_path = path, ap_prev_hash = Some d, ap_new_hash = d, ap_created = False, ap_backed_up = False,
      ap_service = None, ap_commit = None, ap_checks = [], ap_mounts = None\<rparr>"

definition DEFAULT_CONFIRM :: nat where "DEFAULT_CONFIRM = 90"

definition arm_commit ::
  "('p, 'a, 'v) engine_env \<Rightarrow> nat option \<Rightarrow> pending_service option \<Rightarrow> ('j, 'p, 'a, pending_report) eng" where
  "arm_commit EE confirm svc =
     ebind (ereads en_next_commit) (\<lambda>commit.
     ebind (emodify (\<lambda>e. e\<lparr>en_next_commit := sat_add u32_max (en_next_commit e) 1\<rparr>)) (\<lambda>_.
     let requested = min (case confirm of Some s \<Rightarrow> s | None \<Rightarrow> DEFAULT_CONFIRM) u16_max in
     ebind (easks (client_start_confirm_timer (ee_ask EE) commit requested svc)) (\<lambda>(timeout_s, rollback_targets).
     ebind (ereads en_ticks) (\<lambda>n.
     ebind (emodify (\<lambda>e. e\<lparr>en_ticks := Suc (en_ticks e)\<rparr>)) (\<lambda>_.
       eret \<lparr>pr_commit_id = commit, pr_timeout_s = timeout_s, pr_deadline = ee_deadline EE n timeout_s,
         pr_rollback_targets = rollback_targets\<rparr>)))))"

definition undo_write ::
  "('p, 'a, 'v) engine_env \<Rightarrow> rstr \<Rightarrow> nat \<Rightarrow> digest option \<Rightarrow> bool \<Rightarrow> ('j, 'p, 'a, unit) eng" where
  "undo_write EE i target prev backed_up =
     (case (backed_up, prev) of
        (True, Some d) \<Rightarrow>
          ebind (the_module_id i) (\<lambda>m.
          ebind (easks (client_list_backups (ee_ask EE) m)) (\<lambda>entries.
            case find (\<lambda>info. bk_target info = target \<and> bk_digest info = d) entries of
              None \<Rightarrow> efail OeNoBackup
            | Some backup \<Rightarrow> ebind (easks (client_restore (ee_ask EE) m (bk_id backup))) (\<lambda>_. eret ())))
      | _ \<Rightarrow> efail OeNoBackup)"

definition arm_or_undo ::
  "('p, 'a, 'v) engine_env \<Rightarrow> nat option \<Rightarrow> pending_service option \<Rightarrow> module_descriptor \<Rightarrow> wiring_t \<Rightarrow> write_receipt
     \<Rightarrow> ('j, 'p, 'a, pending_report) eng" where
  "arm_or_undo EE confirm svc d w written =
     ebind (etry (arm_commit EE confirm svc)) (\<lambda>r.
       case r of
         Inr commit \<Rightarrow> eret commit
       | Inl arming \<Rightarrow>
           ebind (etry (undo_write EE (md_id d) (wi_target w) (wr_prev_digest written) (wr_backed_up written))) (\<lambda>restored.
             efail (OeArmFailed arming (case restored of Inl err \<Rightarrow> Some err | Inr _ \<Rightarrow> None))))"

definition discard_commit :: "('p, 'a, 'v) engine_env \<Rightarrow> pending_report option \<Rightarrow> ('j, 'p, 'a, unit) eng" where
  "discard_commit EE commit =
     (case commit of
        None \<Rightarrow> eret ()
      | Some p \<Rightarrow>
          ebind (eclient (client_rollback_commit (ee_ask EE) (pr_commit_id p))) (\<lambda>r.
            case r of
              Inr _ \<Rightarrow> emodify (\<lambda>e. e\<lparr>en_pending := None\<rparr>)
            | Inl _ \<Rightarrow> eret ()))"

definition reload_module :: "module_descriptor \<Rightarrow> ('j, 'p, 'a, nat option) eng" where
  "reload_module d =
     (if \<not> md_reload_unit_files d then eret None
      else ebind (the_module_id (md_id d)) (\<lambda>m. eret (Some m)))"

definition reload_or_discard ::
  "('p, 'a, 'v) engine_env \<Rightarrow> nat option \<Rightarrow> pending_report option \<Rightarrow> ('j, 'p, 'a, unit) eng" where
  "reload_or_discard EE m commit =
     (case m of
        None \<Rightarrow> eret ()
      | Some i \<Rightarrow>
          ebind (etry (easks (client_reload_unit_files (ee_ask EE) i))) (\<lambda>r.
            case r of
              Inr _ \<Rightarrow> eret ()
            | Inl err \<Rightarrow> ebind (discard_commit EE commit) (\<lambda>_. efail err)))"

definition mount_error_text :: "('p, 'a, 'v) engine_env \<Rightarrow> client_error \<Rightarrow> rstr" where
  "mount_error_text EE err =
     (case err of
        ClRemote (PeUnavailable message) \<Rightarrow> message
      | ClRemote (PeIo message) \<Rightarrow> message
      | other \<Rightarrow> ee_text EE other)"

definition start_mounts :: "('p, 'a, 'v) engine_env \<Rightarrow> module_descriptor \<Rightarrow> nat \<Rightarrow> ('j, 'p, 'a, mounts_report option) eng" where
  "start_mounts EE d target =
     (if md_added_mounts d = None then eret None
      else
        ebind (eclient (client_mount (ee_ask EE) target)) (\<lambda>r.
          eret (Some (case r of
              Inr (activated, units) \<Rightarrow>
                \<lparr>ms_activated = activated, ms_units = map mount_report_of units, ms_error = None\<rparr>
            | Inl err \<Rightarrow> \<lparr>ms_activated = True, ms_units = [], ms_error = Some (mount_error_text EE err)\<rparr>))))"

definition act :: "('p, 'a, 'v) engine_env \<Rightarrow> nat \<Rightarrow> rstr \<Rightarrow> service_command \<Rightarrow> ('j, 'p, 'a, service_report) eng" where
  "act EE binding unit action =
     ebind (easks (client_service (ee_ask EE) binding (to_wire action))) (\<lambda>out.
       eret \<lparr>sr_unit = unit, sr_action = action, sr_active = so_active out, sr_detail = so_detail out\<rparr>)"

definition pending_service_of :: "service_command option \<Rightarrow> (nat \<times> affected_service) option \<Rightarrow> pending_service option" where
  "pending_service_of action binding =
     (case (action, binding) of
        (Some a, Some (b, _)) \<Rightarrow> Some \<lparr>ps_binding = b, ps_action = to_wire a\<rparr>
      | _ \<Rightarrow> None)"

text \<open>Steps 5 to 8 of \<^verbatim>\<open>apply\<close>, after the write.\<close>

definition after_write ::
  "('p, 'a, 'v) engine_env \<Rightarrow> 'j dyn_module \<Rightarrow> service_command option \<Rightarrow> nat option \<Rightarrow> wiring_t \<Rightarrow> nat option
     \<Rightarrow> check_report list \<Rightarrow> bool \<Rightarrow> write_receipt \<Rightarrow> ('j, 'p, 'a, apply_report) eng" where
  "after_write EE m service_action confirm w reload checks commit_required receipt =
     ebind (if commit_required then
              ebind (arm_or_undo EE confirm (pending_service_of service_action (wi_binding w)) (dm_descriptor m) w receipt) (\<lambda>commit.
              ebind (emodify (\<lambda>e. e\<lparr>en_hashes := (en_hashes e)\<lparr>ha_commit_id := Some (pr_commit_id commit)\<rparr>,
                                   en_pending := Some commit\<rparr>)) (\<lambda>_.
                eret (Some commit)))
            else eret None) (\<lambda>commit.
     if commit_required \<and> \<not> wr_backed_up receipt then
       ebind (discard_commit EE commit) (\<lambda>_. efail OeNoBackup)
     else
       ebind (reload_or_discard EE reload commit) (\<lambda>_.
       ebind (start_mounts EE (dm_descriptor m) (wi_target w)) (\<lambda>mounts.
       ebind (case (service_action, wi_binding w) of
                (Some action, Some (binding, affected)) \<Rightarrow>
                  ebind (etry (act EE binding (af_unit affected) action)) (\<lambda>acted.
                    case acted of
                      Inr report \<Rightarrow> eret (Some report)
                    | Inl err \<Rightarrow> ebind (discard_commit EE commit) (\<lambda>_. efail err))
              | _ \<Rightarrow> eret None) (\<lambda>service.
         eret \<lparr>ap_module = md_id (dm_descriptor m), ap_path = wi_path w, ap_prev_hash = wr_prev_digest receipt,
           ap_new_hash = wr_new_digest receipt, ap_created = wr_created receipt, ap_backed_up = wr_backed_up receipt,
           ap_service = service, ap_commit = commit, ap_checks = checks, ap_mounts = mounts\<rparr>))))"

text \<open>Step 4 of \<^verbatim>\<open>apply\<close> from the rendered text on.\<close>

definition check_and_write ::
  "('p, 'a, 'v) engine_env \<Rightarrow> 'j dyn_module \<Rightarrow> service_command option \<Rightarrow> nat option \<Rightarrow> wiring_t \<Rightarrow> nat option
     \<Rightarrow> target_contents \<Rightarrow> rstr \<Rightarrow> ('j, 'p, 'a, apply_report) eng" where
  "check_and_write EE m service_action confirm w reload contents rendered =
     ebind (run_checks EE (wi_checks w) (as_bytes rendered)) (\<lambda>checks.
     let commit_required = (md_commit_confirm (dm_descriptor m) \<or> confirm \<noteq> None) in
     ebind (if commit_required then easks (client_pending_commit (ee_ask EE)) else eret None) (\<lambda>pending.
       case pending of
         Some commit \<Rightarrow> efail (OeCommitPending commit)
       | None \<Rightarrow>
           (case find (\<lambda>r. \<not> cr_ran r \<or> \<not> cr_passed r) checks of
              Some report \<Rightarrow> efail (OeCheckFailed (cr_program report) (cr_detail report))
            | None \<Rightarrow>
                ebind (easks (client_write_target (ee_ask EE) (wi_target w) (Some (tc_digest contents)) (as_bytes rendered)
                   commit_required)) (\<lambda>receipt.
                ebind (emodify (\<lambda>e. e\<lparr>en_hashes := (en_hashes e)\<lparr>ha_prev := wr_prev_digest receipt,
                                       ha_new := Some (wr_new_digest receipt)\<rparr>\<rparr>)) (\<lambda>_.
                  after_write EE m service_action confirm w reload checks commit_required receipt)))))"

definition apply_op ::
  "('p, 'a, 'v) engine_env \<Rightarrow> rstr \<Rightarrow> 'j \<Rightarrow> digest option \<Rightarrow> service_command option \<Rightarrow> nat option \<Rightarrow> ('j, 'p, 'a, apply_report) eng" where
  "apply_op EE i model expected_hash service_action confirm =
     ebind (the_module i) (\<lambda>m.
     ebind (validate_model m model) (\<lambda>ds.
       if has_errors ds then efail (OeInvalid ds)
       else
         ebind (model_wiring EE i model) (\<lambda>w.
           if service_action \<noteq> None \<and> wi_binding w = None then efail (OeNoService (md_id (dm_descriptor m)))
           else
             ebind (reload_module (dm_descriptor m)) (\<lambda>reload.
             ebind (easks (client_read_target (ee_ask EE) (wi_target w))) (\<lambda>contents.
             ebind (emodify (\<lambda>e. e\<lparr>en_hashes := (en_hashes e)\<lparr>ha_prev := Some (tc_digest contents)\<rparr>\<rparr>)) (\<lambda>_.
               if (case expected_hash of Some d \<Rightarrow> d \<noteq> tc_digest contents | None \<Rightarrow> False)
               then efail (OeHashConflict (the expected_hash) (Some (tc_digest contents)))
               else
                 ebind (elift (decode (tc_bytes contents) (wi_path w))) (\<lambda>current.
                 ebind (elift (map_err_with OeModule (dm_apply_json m current model))) (\<lambda>rendered.
                   if current = rendered
                   then eret (unchanged_report (md_id (dm_descriptor m)) (wi_path w) (tc_digest contents))
                   else check_and_write EE m service_action confirm w reload contents rendered))))))))"

definition restore_op ::
  "('p, 'a, 'v) engine_env \<Rightarrow> rstr \<Rightarrow> nat \<Rightarrow> digest option \<Rightarrow> ('j, 'p, 'a, 'j op_outcome) eng" where
  "restore_op EE i backup expected_hash =
     ebind (the_module_id i) (\<lambda>mid.
     ebind (the_module i) (\<lambda>m.
     ebind (wired EE (dm_descriptor m) None) (\<lambda>w.
     ebind (easks (client_read_target (ee_ask EE) (wi_target w))) (\<lambda>contents.
     ebind (emodify (\<lambda>e. e\<lparr>en_hashes := (en_hashes e)\<lparr>ha_prev := Some (tc_digest contents)\<rparr>\<rparr>)) (\<lambda>_.
       if (case expected_hash of Some d \<Rightarrow> d \<noteq> tc_digest contents | None \<Rightarrow> False)
       then efail (OeHashConflict (the expected_hash) (Some (tc_digest contents)))
       else
         ebind (easks (client_restore (ee_ask EE) mid backup)) (\<lambda>(target, new_hash).
         ebind (emodify (\<lambda>e. e\<lparr>en_hashes := (en_hashes e)\<lparr>ha_new := Some new_hash\<rparr>\<rparr>)) (\<lambda>_.
           eret (OoRestored target new_hash))))))))"

definition service_action_op ::
  "('p, 'a, 'v) engine_env \<Rightarrow> rstr \<Rightarrow> service_command \<Rightarrow> ('j, 'p, 'a, 'j op_outcome) eng" where
  "service_action_op EE i action =
     ebind (the_module i) (\<lambda>m.
     ebind (wired EE (dm_descriptor m) None) (\<lambda>w.
       case wi_binding w of
         None \<Rightarrow> efail (OeNoService (md_id (dm_descriptor m)))
       | Some (binding, affected) \<Rightarrow> ebind (act EE binding (af_unit affected) action) (\<lambda>r. eret (OoServiced r))))"

section \<open>Dispatch, audit and execution\<close>

fun dispatch_op :: "('p, 'a, 'v) engine_env \<Rightarrow> 'j operation \<Rightarrow> ('j, 'p, 'a, 'j op_outcome) eng" where
  "dispatch_op EE ListModules = ereads (\<lambda>e. OoModules (map dm_descriptor (en_modules e)))"
| "dispatch_op EE (GetModule i) = get_module EE i"
| "dispatch_op EE (Validate i model) =
     ebind (the_module i) (\<lambda>m. ebind (validate_model m model) (\<lambda>ds. eret (OoValidated ds)))"
| "dispatch_op EE (Plan i model) = ebind (plan EE i model) (\<lambda>p. eret (OoPlanned p))"
| "dispatch_op EE (Apply i model expected_hash service_action confirm) =
     ebind (apply_op EE i model expected_hash service_action confirm) (\<lambda>r. eret (OoApplied r))"
| "dispatch_op EE (ConfirmCommit commit) =
     ebind (emodify (\<lambda>e. e\<lparr>en_hashes := (en_hashes e)\<lparr>ha_commit_id := Some commit\<rparr>\<rparr>)) (\<lambda>_.
     ebind (easks (client_confirm_commit (ee_ask EE) commit)) (\<lambda>c.
     ebind (emodify (\<lambda>e. e\<lparr>en_pending := None\<rparr>)) (\<lambda>_. eret (OoCommitConfirmed c))))"
| "dispatch_op EE (RollbackCommit commit) =
     ebind (emodify (\<lambda>e. e\<lparr>en_hashes := (en_hashes e)\<lparr>ha_commit_id := Some commit\<rparr>\<rparr>)) (\<lambda>_.
     ebind (easks (client_rollback_commit (ee_ask EE) commit)) (\<lambda>(c, restored).
     ebind (emodify (\<lambda>e. e\<lparr>en_pending := None\<rparr>)) (\<lambda>_. eret (OoRolledBack c restored))))"
| "dispatch_op EE (ListBackups i) =
     ebind (the_module_id i) (\<lambda>m.
     ebind (easks (client_list_backups (ee_ask EE) m)) (\<lambda>entries. eret (OoBackups entries)))"
| "dispatch_op EE (Restore i backup expected_hash) = restore_op EE i backup expected_hash"
| "dispatch_op EE (ServiceStatus i) = service_status_op EE i"
| "dispatch_op EE (ServiceAction i action) = service_action_op EE i action"
| "dispatch_op EE HostProfile = ereads (\<lambda>e. OoHost (host_report_of (en_host e)))"
| "dispatch_op EE (AuditQuery q) =
     (\<lambda>e. (bind_result (map_err_with OeAudit (ee_query EE q (en_audit e))) (\<lambda>rs. Inr (OoAudit rs)), e))"
| "dispatch_op EE CertStatus =
     ebind (ereads en_cert) (\<lambda>hook. case hook of
         Some h \<Rightarrow> elift (bind_result (cf_status h) (\<lambda>r. Inr (OoCertStatus r)))
       | None \<Rightarrow> efail (OeUnsupported (lit ''cert_status'')))"
| "dispatch_op EE UpdateStatus = efail (OeUnsupported (lit ''update_status''))"
| "dispatch_op EE CertRenew =
     ebind (ereads en_cert) (\<lambda>hook. case hook of
         Some h \<Rightarrow> elift (bind_result (cf_renew h) (\<lambda>_. Inr OoCertRenewRequested))
       | None \<Rightarrow> efail (OeUnsupported (lit ''cert_renew'')))"
| "dispatch_op EE (UpdateApply version) = ebind (update_apply EE version) (\<lambda>_. eret (OoUpdateStarted version))"

definition emit ::
  "('p, 'a, 'v) engine_env \<Rightarrow> audit_record \<Rightarrow> ('j, 'p, 'a) engine \<Rightarrow> (audit_error, unit) result \<times> ('j, 'p, 'a) engine" where
  "emit EE r e =
     (case ee_record EE r (en_audit e) of
        (Inr _, a) \<Rightarrow> (Inr (), e\<lparr>en_audit := a, en_trace := en_trace e @ [TrAudit r]\<rparr>)
      | (Inl err, a) \<Rightarrow> (Inl err, e\<lparr>en_audit := a, en_trace := en_trace e @ [TrAudit r, TrAuditLost err]\<rparr>))"

text \<open>\<^verbatim>\<open>AuditRecord::new\<close> reads the clock.\<close>

definition new_record ::
  "('p, 'a, 'v) engine_env \<Rightarrow> identity \<Rightarrow> op_kind \<Rightarrow> rstr option \<Rightarrow> audit_result \<Rightarrow> ('j, 'p, 'a) engine
     \<Rightarrow> audit_record \<times> ('j, 'p, 'a) engine" where
  "new_record EE who k m result e =
     (audit_record_new (ee_now EE (en_ticks e)) who k m result, e\<lparr>en_ticks := Suc (en_ticks e)\<rparr>)"

text \<open>The record after the operation, and the plan record of a read-only operation.\<close>

definition outcome_record ::
  "('p, 'a, 'v) engine_env \<Rightarrow> identity \<Rightarrow> op_kind \<Rightarrow> rstr option \<Rightarrow> (ops_error, 'j op_outcome) result
     \<Rightarrow> ('j, 'p, 'a) engine \<Rightarrow> audit_record \<times> ('j, 'p, 'a) engine" where
  "outcome_record EE who k m result e =
     (case new_record EE who k m (case result of Inr _ \<Rightarrow> ROk | Inl _ \<Rightarrow> RError) e of
        (r, e') \<Rightarrow>
          (let r1 = with_hashes (ha_prev (en_hashes e)) (ha_new (en_hashes e)) r;
               r2 = (case ha_commit_id (en_hashes e) of Some c \<Rightarrow> with_commit_id c r1 | None \<Rightarrow> r1)
           in (case result of Inl err \<Rightarrow> with_error (ops_message_id err) r2 | Inr _ \<Rightarrow> r2, e')))"

definition finish_read_only ::
  "('p, 'a, 'v) engine_env \<Rightarrow> identity \<Rightarrow> op_kind \<Rightarrow> rstr option \<Rightarrow> (ops_error, 'j op_outcome) result
     \<Rightarrow> ('j, 'p, 'a) engine \<Rightarrow> ('j, 'p, 'a) engine" where
  "finish_read_only EE who k m result e =
     (case result of
        Inr (OoPlanned p) \<Rightarrow>
          if list_ex cr_ran (pl_checks p) then
            (case new_record EE who k m ROk e of
               (r, e') \<Rightarrow> snd (emit EE (with_hashes (Some (pl_current_hash p)) None r) e'))
          else e
      | _ \<Rightarrow> e)"

definition execute ::
  "('p, 'a, 'v) engine_env \<Rightarrow> 'j operation \<Rightarrow> identity \<Rightarrow> (identity \<Rightarrow> 'j operation \<Rightarrow> (denied, unit) result)
     \<Rightarrow> ('j, 'p, 'a, 'j op_outcome) eng" where
  "execute EE op who permit e =
     (let m = (case op_module op of
                 Some i \<Rightarrow> map_option (\<lambda>m. md_id (dm_descriptor m)) (find (\<lambda>m. dm_id m = i) (en_modules e))
               | None \<Rightarrow> None);
          k = op_kind_of op
      in case permit who op of
           Inl d \<Rightarrow>
             (case new_record EE who k m RDenied e of
                (r, e1) \<Rightarrow> (Inl (OeDenied d), snd (emit EE (with_error (dn_id d) r) e1)))
         | Inr _ \<Rightarrow>
             (case (if is_mutating op
                    then case apply_is_noop EE op e of (r, e') \<Rightarrow> (case r of Inr b \<Rightarrow> b | Inl _ \<Rightarrow> False, e')
                    else (False, e)) of
                (no_op, e1) \<Rightarrow>
                  (case (if is_mutating op \<and> \<not> no_op
                         then case new_record EE who k m RStarted e1 of (r, e') \<Rightarrow> emit EE r e'
                         else (Inr (), e1)) of
                     (Inl err, e2) \<Rightarrow> (Inl (OeAuditUnavailable err), e2)
                   | (Inr _, e2) \<Rightarrow>
                       (case dispatch_op EE op (e2\<lparr>en_hashes := hashes_default\<rparr>) of
                          (result, e3) \<Rightarrow>
                            if \<not> is_mutating op \<or> no_op
                            then (result, finish_read_only EE who k m result e3)
                            else (case outcome_record EE who k m result e3 of
                                    (r, e4) \<Rightarrow> (result, snd (emit EE r e4)))))))"

section \<open>The engine outside of operations\<close>

definition engine_new :: "'j dyn_module list \<Rightarrow> 'p client \<Rightarrow> detected \<Rightarrow> 'a \<Rightarrow> ('j, 'p, 'a) engine" where
  "engine_new modules c host audit =
     \<lparr>en_modules = modules, en_client = c, en_host = host, en_audit = audit, en_next_commit = 1, en_pending = None,
      en_cert = None, en_ticks = 0, en_hashes = hashes_default, en_trace = []\<rparr>"

definition set_cert_front_end :: "cert_front_end \<Rightarrow> ('j, 'p, 'a) engine \<Rightarrow> ('j, 'p, 'a) engine" where
  "set_cert_front_end hook e = e\<lparr>en_cert := Some hook\<rparr>"

definition engine_pending_commit :: "('p, 'a, 'v) engine_env \<Rightarrow> ('j, 'p, 'a, pending_report option) eng" where
  "engine_pending_commit EE =
     ebind (easks (client_pending_commit (ee_ask EE))) (\<lambda>active.
       case active of
         None \<Rightarrow> ebind (emodify (\<lambda>e. e\<lparr>en_pending := None\<rparr>)) (\<lambda>_. eret None)
       | Some c \<Rightarrow>
           ebind (ereads en_pending) (\<lambda>p.
             case p of
               Some report \<Rightarrow> if pr_commit_id report = c then eret (Some report) else efail (OeCommitPending c)
             | None \<Rightarrow> efail (OeCommitPending c)))"

definition engine_shutdown :: "('p, 'a, 'v) engine_env \<Rightarrow> ('j, 'p, 'a, unit) eng" where
  "engine_shutdown EE = ebind (eclient (client_shutdown (ee_ask EE))) (\<lambda>r. elift (map_err_with OePrivsep r))"

end
