(* ===== verification/Example_Engine.thy ===== *)
theory Example_Engine
  imports Engine Example_World
begin

text \<open>
  A concrete engine for the witnesses: the module of \<open>Example_World\<close> with models that are whole texts, a peer that
  plays back a script of responses and then closes, and a sink that keeps its records or refuses them.
\<close>

definition script_peer :: "response list peer" where
  "script_peer req rs = (case rs of r # rest \<Rightarrow> (Inr r, rest) | [] \<Rightarrow> (Inl CeClosed, []))"

definition list_sink :: "audit_record \<Rightarrow> audit_record list \<Rightarrow> (audit_error, unit) result \<times> audit_record list" where
  "list_sink r rs = (Inr (), rs @ [r])"

definition xe_env :: "(response list, audit_record list, nat) engine_env" where
  "xe_env = \<lparr>ee_ask = script_peer, ee_record = list_sink, ee_query = (\<lambda>_ rs. Inr rs), ee_now = (\<lambda>_. lit ''now''),
     ee_deadline = (\<lambda>_ _. lit ''later''), ee_text = (\<lambda>_. lit ''error''), ee_exists = (\<lambda>_ _. True),
     ee_semver = \<lparr>sv_parse = (\<lambda>_. None), sv_build_empty = (\<lambda>_. True), sv_greater = (>), sv_zero = 0, sv_pkg_version = []\<rparr>\<rparr>"

definition xe_module :: "rstr dyn_module" where
  "xe_module = \<lparr>dm_id = lit ''hosts'', dm_descriptor = ex_descriptor\<lparr>md_commit_confirm := False\<rparr>, dm_secret_pointers = [], dm_schema_json = [],
     dm_model_target_json = (\<lambda>_. Inr None), dm_parse_to_model_json = (\<lambda>t. Inr t), dm_apply_json = (\<lambda>_ model. Inr model),
     dm_validate_json = (\<lambda>_ _. Inr []), dm_defaults_json = (\<lambda>_. Inr [])\<rparr>"

definition xe_host :: detected where
  "xe_host = \<lparr>de_profile = ex_profile, de_facts = \<lparr>hf_distro = None, hf_network_backend = NbUnknown,
     hf_resolver_backend = RbUnknown, hf_notes = []\<rparr>\<rparr>"

definition xe_engine :: "response list \<Rightarrow> (rstr, response list, audit_record list) engine" where
  "xe_engine script = engine_new [xe_module] \<lparr>cl_peer = script, cl_tables = Some (hello_ack ex_allow), cl_log = []\<rparr> xe_host []"

definition xe_contents :: "bytes \<Rightarrow> target_contents" where
  "xe_contents b = \<lparr>tc_target = 0, tc_bytes = b, tc_digest = b\<rparr>"

definition xe_receipt :: "bytes \<Rightarrow> bytes \<Rightarrow> write_receipt" where
  "xe_receipt prev new = \<lparr>wr_target = 0, wr_prev_digest = Some prev, wr_new_digest = new, wr_created = False, wr_backed_up = True,
     wr_owner_preserved = True\<rparr>"

definition xe_apply :: "rstr operation" where
  "xe_apply = Apply (lit ''hosts'') (lit ''b'') None None None"

definition xe_who :: identity where
  "xe_who = identity_local (lit ''root'')"

lemmas xe_defs = script_peer_def list_sink_def xe_env_def xe_module_def xe_host_def xe_engine_def xe_contents_def
  xe_receipt_def xe_apply_def xe_who_def

end
