(* ===== verification/Engine_Log.thy ===== *)
theory Engine_Log
  imports Example_Engine
begin

text \<open>
  What the engine asks of the monitor. A small logic over the exchanges an engine computation adds to the log of its
  client, and the properties that rest on it: which requests an operation may send, what stands in the log before a
  write, and what a refused caller reaches.
\<close>

section \<open>Exchanges of a computation\<close>

abbreviation elog :: "('j, 'p, 'a) engine \<Rightarrow> (request \<times> (channel_error, response) result) list" where
  "elog e \<equiv> cl_log (en_client e)"

abbreviation epeer :: "('j, 'p, 'a) engine \<Rightarrow> 'p" where
  "epeer e \<equiv> cl_peer (en_client e)"

definition same_setup :: "('j, 'p, 'a) engine \<Rightarrow> ('j, 'p, 'a) engine \<Rightarrow> bool" where
  "same_setup e e' \<longleftrightarrow> en_modules e' = en_modules e \<and> en_host e' = en_host e
     \<and> cl_tables (en_client e') = cl_tables (en_client e) \<and> en_cert e' = en_cert e"

text \<open>Every exchange \<open>m\<close> adds satisfies \<open>P\<close> and took place with the peer, and \<open>m\<close> emits no audit record.\<close>

definition unlogged :: "trace_event list \<Rightarrow> bool" where
  "unlogged tr \<longleftrightarrow> list_all (\<lambda>x. case x of TrAudit _ \<Rightarrow> False | TrAuditLost _ \<Rightarrow> False | _ \<Rightarrow> True) tr"

lemma unlogged_simps [simp]:
  "unlogged []" "unlogged (a @ b) \<longleftrightarrow> unlogged a \<and> unlogged b" "unlogged [TrUpdateStarted d]" "unlogged [TrUpdateCannot d]"
  by (simp_all add: unlogged_def)

definition asks :: "'p peer \<Rightarrow> (request \<Rightarrow> bool) \<Rightarrow> ('j, 'p, 'a, 'x) eng \<Rightarrow> bool" where
  "asks ask P m \<longleftrightarrow> (\<forall>e. same_setup e (snd (m e)) \<and> en_audit (snd (m e)) = en_audit e
     \<and> (\<exists>seg. elog (snd (m e)) = elog e @ seg \<and> list_all (\<lambda>x. P (fst x)) seg \<and> history ask (epeer e) seg (epeer (snd (m e))))
     \<and> (\<exists>mid. en_trace (snd (m e)) = en_trace e @ mid \<and> unlogged mid))"

lemma same_setup_simps [simp]:
  "same_setup e e" "same_setup e (e\<lparr>en_hashes := h\<rparr>)" "same_setup e (e\<lparr>en_pending := p\<rparr>)" "same_setup e (e\<lparr>en_ticks := t\<rparr>)"
  "same_setup e (e\<lparr>en_trace := tr\<rparr>)" "same_setup e (e\<lparr>en_next_commit := n\<rparr>)" "same_setup e (e\<lparr>en_audit := a\<rparr>)"
  by (simp_all add: same_setup_def)

lemma same_setup_trans: "same_setup a b \<Longrightarrow> same_setup b c \<Longrightarrow> same_setup a c"
  by (simp add: same_setup_def)

named_theorems asks_intros

lemma asks_silent: "(\<And>e. same_setup e (snd (m e)) \<and> en_client (snd (m e)) = en_client e \<and> en_trace (snd (m e)) = en_trace e
    \<and> en_audit (snd (m e)) = en_audit e) \<Longrightarrow> asks ask P m"
  by (simp add: asks_def)

lemma asks_plain [asks_intros]:
  "asks ask P (eret x)" "asks ask P (efail err)" "asks ask P (elift r)" "asks ask P (ereads g)" "asks ask P (the_module i)" "asks ask P (the_module_id i)"
  "asks ask P (wired EE d t)" "asks ask P (validate_model m model)"
  "asks ask P (emodify (\<lambda>e. e\<lparr>en_hashes := h e\<rparr>))" "asks ask P (emodify (\<lambda>e. e\<lparr>en_pending := p e\<rparr>))"
  "asks ask P (emodify (\<lambda>e. e\<lparr>en_hashes := h e, en_pending := p e\<rparr>))"
  "asks ask P (emodify (\<lambda>e. e\<lparr>en_ticks := t1 e\<rparr>))"
  "asks ask P (emodify (\<lambda>e. e\<lparr>en_next_commit := n e\<rparr>))"
  by (auto intro!: asks_silent simp: eret_def efail_def elift_def ereads_def emodify_def the_module_def the_module_id_def
      wired_def validate_model_def same_setup_def)

lemma asks_trace [asks_intros]:
  "asks ask P (emodify (\<lambda>e. e\<lparr>en_trace := en_trace e @ [TrUpdateStarted d]\<rparr>))"
  "asks ask P (emodify (\<lambda>e. e\<lparr>en_trace := en_trace e @ [TrUpdateCannot d]\<rparr>))"
  by (simp_all add: asks_def emodify_def)

lemma asksD:
  assumes "asks ask P m" and "m e = (r, e')"
  obtains seg mid where "same_setup e e'" "elog e' = elog e @ seg" "list_all (\<lambda>x. P (fst x)) seg"
    "history ask (epeer e) seg (epeer e')" "en_trace e' = en_trace e @ mid" "unlogged mid"
  using assms unfolding asks_def by (metis snd_conv)

lemma asks_audit: "asks ask P m \<Longrightarrow> m e = (r, e') \<Longrightarrow> en_audit e' = en_audit e"
  unfolding asks_def by (metis snd_conv)

lemma asks_ebind [asks_intros]:
  assumes "asks ask P m" and "\<And>x. asks ask P (f x)"
  shows "asks ask P (ebind m f)"
  unfolding asks_def
proof
  fix e
  obtain r e1 where m: "m e = (r, e1)" by force
  obtain s1 m1 where s1: "same_setup e e1" "elog e1 = elog e @ s1" "list_all (\<lambda>x. P (fst x)) s1" "history ask (epeer e) s1 (epeer e1)"
    "en_trace e1 = en_trace e @ m1" "unlogged m1"
    by (rule asksD [OF assms(1) m])
  note a1 = asks_audit [OF assms(1) m]
  show "same_setup e (snd (ebind m f e)) \<and> en_audit (snd (ebind m f e)) = en_audit e \<and> (\<exists>seg. elog (snd (ebind m f e)) = elog e @ seg \<and> list_all (\<lambda>x. P (fst x)) seg
      \<and> history ask (epeer e) seg (epeer (snd (ebind m f e))))
    \<and> (\<exists>mid. en_trace (snd (ebind m f e)) = en_trace e @ mid \<and> unlogged mid)"
  proof (cases r)
    case (Inl err)
    then show ?thesis using m s1 a1 by (simp add: ebind_def)
  next
    case (Inr x)
    obtain r2 e2 where f: "f x e1 = (r2, e2)" by force
    obtain s2 m2 where "same_setup e1 e2" "elog e2 = elog e1 @ s2" "list_all (\<lambda>x. P (fst x)) s2" "history ask (epeer e1) s2 (epeer e2)"
      "en_trace e2 = en_trace e1 @ m2" "unlogged m2"
      by (rule asksD [OF assms(2) f])
    then show ?thesis using m f s1 Inr a1 asks_audit [OF assms(2) f] by (auto simp: ebind_def intro: same_setup_trans history_append intro!: exI [of _ "s1 @ s2"])
  qed
qed

lemma asks_etry [asks_intros]: "asks ask P m \<Longrightarrow> asks ask P (etry m)"
proof -
  have "snd (etry m e) = snd (m e)" for e by (simp add: etry_def split: prod.splits)
  then show "asks ask P m \<Longrightarrow> asks ask P (etry m)" by (simp add: asks_def)
qed

lemma asks_cases [asks_intros]:
  "asks ask P m \<Longrightarrow> asks ask P n \<Longrightarrow> asks ask P (if b then m else n)"
  "asks ask P m \<Longrightarrow> (\<And>x. asks ask P (g x)) \<Longrightarrow> asks ask P (case v of None \<Rightarrow> m | Some x \<Rightarrow> g x)"
  "(\<And>x. asks ask P (g1 x)) \<Longrightarrow> (\<And>x. asks ask P (g2 x)) \<Longrightarrow> asks ask P (case u of Inl x \<Rightarrow> g1 x | Inr x \<Rightarrow> g2 x)"
  "(\<And>a b. asks ask P (h a b)) \<Longrightarrow> asks ask P (case p of (a, b) \<Rightarrow> h a b)"
  "asks ask P m \<Longrightarrow> asks ask P n \<Longrightarrow> asks ask P (case b of True \<Rightarrow> m | False \<Rightarrow> n)"
  by (auto split: option.splits sum.splits prod.splits bool.splits)

lemma asks_eclient:
  assumes "sends ask req R (m :: ('p, 'x) cl)" and "P req"
  shows "asks ask P (eclient m :: ('j, 'p, 'a, (client_error, 'x) result) eng)"
  unfolding asks_def
proof
  fix e :: "('j, 'p, 'a) engine"
  obtain r c' where m: "m (en_client e) = (r, c')" by force
  have "cl_tables c' = cl_tables (en_client e)" "exchanged ask req R (en_client e) r c' \<or> (r, c') = (Inl ClNotGreeted, en_client e)"
    using assms(1) m unfolding sends_def by (metis fst_conv snd_conv)+
  then show "same_setup e (snd (eclient m e)) \<and> en_audit (snd (eclient m e)) = en_audit e \<and> (\<exists>seg. elog (snd (eclient m e)) = elog e @ seg \<and> list_all (\<lambda>x. P (fst x)) seg
      \<and> history ask (epeer e) seg (epeer (snd (eclient m e))))
    \<and> (\<exists>mid. en_trace (snd (eclient m e)) = en_trace e @ mid \<and> unlogged mid)"
    using m assms(2) by (auto simp: eclient_def same_setup_def exchanged_def)
qed

lemma asks_easks: "sends ask req R m \<Longrightarrow> P req \<Longrightarrow> asks ask P (easks m)"
  unfolding easks_def by (intro asks_intros asks_eclient)

lemmas asks_client = client_sends [THEN asks_eclient] client_sends [THEN asks_easks]

section \<open>Which requests an operation may send\<close>

definition may_send :: "'j operation \<Rightarrow> request \<Rightarrow> bool" where
  "may_send op rq =
     (case op of
        GetModule _ \<Rightarrow> (case rq of RqReadTarget _ \<Rightarrow> True | _ \<Rightarrow> False)
      | Plan _ _ \<Rightarrow> (case rq of RqReadTarget _ \<Rightarrow> True | RqRunCheck _ _ \<Rightarrow> True | _ \<Rightarrow> False)
      | Apply _ _ _ action _ \<Rightarrow>
          (case rq of
             RqReadTarget _ \<Rightarrow> True
           | RqRunCheck _ _ \<Rightarrow> True
           | RqPendingCommit \<Rightarrow> True
           | RqWriteTarget _ expected _ _ \<Rightarrow> expected \<noteq> None
           | RqStartConfirmTimer _ _ _ \<Rightarrow> True
           | RqListBackups _ \<Rightarrow> True
           | RqRestore _ _ \<Rightarrow> True
           | RqRollbackCommit _ \<Rightarrow> True
           | RqReloadUnitFiles _ \<Rightarrow> True
           | RqMount _ \<Rightarrow> True
           | RqService _ a \<Rightarrow> map_option to_wire action = Some a
           | _ \<Rightarrow> False)
      | ConfirmCommit c \<Rightarrow> rq = RqConfirmCommit c
      | RollbackCommit c \<Rightarrow> rq = RqRollbackCommit c
      | ListBackups _ \<Rightarrow> (case rq of RqListBackups _ \<Rightarrow> True | _ \<Rightarrow> False)
      | Restore _ k _ \<Rightarrow> (case rq of RqReadTarget _ \<Rightarrow> True | RqRestore _ k' \<Rightarrow> k' = k | _ \<Rightarrow> False)
      | ServiceStatus _ \<Rightarrow> (case rq of RqService _ a \<Rightarrow> a = WaStatus | _ \<Rightarrow> False)
      | ServiceAction _ k \<Rightarrow> (case rq of RqService _ a \<Rightarrow> a = to_wire k | _ \<Rightarrow> False)
      | UpdateApply v \<Rightarrow> rq = RqStartUpdate v
      | _ \<Rightarrow> False)"

lemma may_change: "may_send op rq \<Longrightarrow> changes_state rq \<Longrightarrow> is_mutating op"
  by (cases op; cases rq) (simp_all add: may_send_def is_mutating_def)

lemma asks_model_wiring [asks_intros]: "asks ask P (model_wiring EE i model)"
  unfolding model_wiring_def by (intro asks_intros)

lemma asks_run_checks: "(\<And>i b. P (RqRunCheck i b)) \<Longrightarrow> asks (ee_ask EE) P (run_checks EE checks candidate)"
  by (induction EE checks candidate rule: run_checks.induct) (auto intro!: asks_intros asks_client)

lemma asks_discard: "(\<And>c. P (RqRollbackCommit c)) \<Longrightarrow> asks (ee_ask EE) P (discard_commit EE commit)"
  unfolding discard_commit_def by (intro asks_intros asks_client)

lemma asks_after_write:
  assumes "\<And>c n svc. P (RqStartConfirmTimer c n svc)" "\<And>m. P (RqListBackups m)" "\<And>m k. P (RqRestore m k)"
    "\<And>c. P (RqRollbackCommit c)" "\<And>m. P (RqReloadUnitFiles m)" "\<And>t. P (RqMount t)"
    "\<And>i k. service_action = Some k \<Longrightarrow> P (RqService i (to_wire k))"
  shows "asks (ee_ask EE) P (after_write EE m service_action confirm w reload checks req receipt)"
proof -
  have 1: "asks (ee_ask EE) P (arm_or_undo EE confirm svc d w receipt)" for svc d
    unfolding arm_or_undo_def arm_commit_def undo_write_def Let_def by (intro asks_intros asks_client assms)
  have 2: "asks (ee_ask EE) P (reload_or_discard EE reload commit)" for commit
    unfolding reload_or_discard_def by (intro asks_intros asks_client asks_discard assms)
  have 3: "asks (ee_ask EE) P (start_mounts EE d t)" for d t unfolding start_mounts_def by (intro asks_intros asks_client assms)
  have 4: "asks (ee_ask EE) P (case (service_action, wi_binding w) of
                (Some action, Some (binding, affected)) \<Rightarrow>
                  ebind (etry (act EE binding (af_unit affected) action)) (\<lambda>acted.
                    case acted of
                      Inr report \<Rightarrow> eret (Some report)
                    | Inl err \<Rightarrow> ebind (discard_commit EE commit) (\<lambda>_. efail err))
              | _ \<Rightarrow> eret None)" for commit
    unfolding act_def using assms(7)
    by (auto split: option.splits intro!: asks_intros asks_client asks_discard assms(4))
  show ?thesis unfolding after_write_def by (intro asks_intros 1 2 3 4 asks_discard assms)
qed

lemma asks_apply: "asks (ee_ask EE) (may_send (Apply i model expected action confirm)) (apply_op EE i' model' expected' action confirm')"
proof -
  let ?P = "may_send (Apply i model expected action confirm)"
  have "asks (ee_ask EE) ?P (check_and_write EE m action c w reload contents rendered)" for m c w reload contents rendered
    unfolding check_and_write_def Let_def
    by (intro asks_intros asks_client asks_run_checks asks_after_write) (simp_all add: may_send_def)
  moreover have "asks (ee_ask EE) P (reload_module d)" for P d unfolding reload_module_def by (intro asks_intros)
  ultimately show ?thesis unfolding apply_op_def
    by (intro asks_intros asks_client) (simp_all add: may_send_def)
qed

lemma asks_noop: "is_mutating op \<Longrightarrow> asks (ee_ask EE) (may_send op) (apply_is_noop EE op)"
  by (cases op) (simp_all add: apply_is_noop_def asks_plain, intro asks_intros asks_client, simp add: may_send_def)

lemma asks_dispatch: "asks (ee_ask EE) (may_send op) (dispatch_op EE op)"
proof (cases op)
  case (GetModule i)
  show ?thesis unfolding GetModule dispatch_op.simps get_module_def
    by (intro asks_intros asks_client) (auto simp: may_send_def intro!: asks_plain split: client_error.splits proto_error.splits)
next
  case (Plan i model)
  show ?thesis unfolding Plan dispatch_op.simps plan_def
    by (intro asks_intros asks_client asks_run_checks) (simp_all add: may_send_def)
next
  case (Apply i model expected action confirm)
  show ?thesis unfolding Apply dispatch_op.simps by (intro asks_intros asks_apply)
next
  case (ConfirmCommit c)
  show ?thesis unfolding ConfirmCommit dispatch_op.simps by (intro asks_intros asks_client) (simp add: may_send_def)
next
  case (RollbackCommit c)
  show ?thesis unfolding RollbackCommit dispatch_op.simps by (intro asks_intros asks_client) (simp add: may_send_def)
next
  case (ListBackups i)
  show ?thesis unfolding ListBackups dispatch_op.simps by (intro asks_intros asks_client) (simp add: may_send_def)
next
  case (Restore i k expected)
  show ?thesis unfolding Restore dispatch_op.simps restore_op_def by (intro asks_intros asks_client) (simp_all add: may_send_def)
next
  case (ServiceStatus i)
  show ?thesis unfolding ServiceStatus dispatch_op.simps service_status_op_def
    by (intro asks_intros asks_client) (simp_all add: may_send_def)
next
  case (ServiceAction i k)
  show ?thesis unfolding ServiceAction dispatch_op.simps service_action_op_def act_def
    by (intro asks_intros asks_client) (simp_all add: may_send_def)
next
  case (UpdateApply v)
  have "asks (ee_ask EE) P (case err of ClRemote PeUpdateRunning \<Rightarrow> efail OeUpdateRunning
                 | ClRemote (PeUnavailable note) \<Rightarrow>
                     ebind (emodify (\<lambda>e. e\<lparr>en_trace := en_trace e @ [TrUpdateCannot note]\<rparr>)) (\<lambda>_.
                       efail (OeUnsupported (lit ''update_apply'')))
                 | ClRemote (PeUnsupported note) \<Rightarrow>
                     ebind (emodify (\<lambda>e. e\<lparr>en_trace := en_trace e @ [TrUpdateCannot note]\<rparr>)) (\<lambda>_.
                       efail (OeUnsupported (lit ''update_apply'')))
                 | _ \<Rightarrow> efail (map_client err))" for P err
    by (auto intro!: asks_intros split: client_error.splits proto_error.splits)
  then show ?thesis unfolding UpdateApply dispatch_op.simps update_apply_def
    by (auto intro!: asks_intros asks_client simp: may_send_def split: sum.splits tag_refusal.splits)
next
  case (AuditQuery q)
  show ?thesis unfolding AuditQuery dispatch_op.simps by (rule asks_silent) simp
qed (simp_all only: dispatch_op.simps, (intro asks_intros)+)

section \<open>Executing\<close>

lemma emit_frame: "same_setup e (snd (emit EE r e)) \<and> en_client (snd (emit EE r e)) = en_client e"
  by (auto simp: emit_def same_setup_def split: prod.splits sum.splits)

lemma new_record_frame: "same_setup e (snd (new_record EE who k m res e)) \<and> en_client (snd (new_record EE who k m res e)) = en_client e"
  by (simp add: new_record_def)

lemma outcome_frame: "en_client (snd (outcome_record EE who k m res e)) = en_client e"
  by (auto simp: outcome_record_def new_record_def Let_def)

lemma finish_frame: "en_client (finish_read_only EE who k m res e) = en_client e"
  by (auto simp: finish_read_only_def new_record_def emit_frame split: sum.splits op_outcome.splits)

lemma emit_client [simp]: "emit EE r e = (x, e') \<Longrightarrow> en_client e' = en_client e"
  using emit_frame [of e EE r] by simp

text \<open>The run of a permitted operation in parts: the look ahead, the first record, the dispatch, the last record.\<close>

lemma execute_parts:
  assumes "execute EE op who permit e = (r, e')" and "permit who op = Inr ()"
  obtains e1 e2 where "en_client e2 = en_client e1" "same_setup e1 e2"
    "if is_mutating op then e1 = snd (apply_is_noop EE op e) else e1 = e"
    "(\<exists>err. r = Inl (OeAuditUnavailable err) \<and> is_mutating op \<and> e' = e2)
     \<or> (\<exists>e3. dispatch_op EE op (e2\<lparr>en_hashes := hashes_default\<rparr>) = (r, e3) \<and> en_client e' = en_client e3)"
proof -
  let ?m = "case op_module op of Some i \<Rightarrow> map_option (\<lambda>m. md_id (dm_descriptor m)) (find (\<lambda>m. dm_id m = i) (en_modules e)) | None \<Rightarrow> None"
  let ?k = "op_kind_of op"
  obtain no_op e1 where n: "(if is_mutating op then case apply_is_noop EE op e of (r, e') \<Rightarrow> (case r of Inr b \<Rightarrow> b | Inl _ \<Rightarrow> False, e')
       else (False, e)) = (no_op, e1)" by force
  obtain s e2 where st: "(if is_mutating op \<and> \<not> no_op then case new_record EE who ?k ?m RStarted e1 of (r, e') \<Rightarrow> emit EE r e' else (Inr (), e1)) = (s, e2)"
    by force
  have c: "en_client e2 = en_client e1 \<and> same_setup e1 e2"
    using st emit_frame [of "snd (new_record EE who ?k ?m RStarted e1)" EE] new_record_frame [of e1 EE who ?k ?m RStarted]
    by (auto split: if_splits prod.splits intro: same_setup_trans) (metis same_setup_trans snd_conv)+
  have e1: "if is_mutating op then e1 = snd (apply_is_noop EE op e) else e1 = e" using n by (auto split: if_splits prod.splits)
  show thesis
  proof (cases s)
    case (Inl err)
    then have "r = Inl (OeAuditUnavailable err) \<and> e' = e2" using assms n st unfolding execute_def Let_def by simp
    moreover have "is_mutating op" using st Inl by (auto split: if_splits)
    ultimately show thesis using that c e1 by blast
  next
    case (Inr u)
    obtain res e3 where d: "dispatch_op EE op (e2\<lparr>en_hashes := hashes_default\<rparr>) = (res, e3)" by force
    have "(if \<not> is_mutating op \<or> no_op then (res, finish_read_only EE who ?k ?m res e3)
       else (case outcome_record EE who ?k ?m res e3 of (r, e4) \<Rightarrow> (res, snd (emit EE r e4)))) = (r, e')"
      using assms n st Inr d unfolding execute_def Let_def by simp
    moreover obtain rec e4 where o4: "outcome_record EE who ?k ?m res e3 = (rec, e4)" by force
    moreover have "en_client e4 = en_client e3" using outcome_frame [of EE who ?k ?m res e3] o4 by simp
    ultimately have "r = res \<and> en_client e' = en_client e3"
      using emit_frame [of e4 EE rec] finish_frame [of EE who ?k ?m res e3] by (auto split: if_splits)
    then show thesis using that c e1 d by blast
  qed
qed

lemma denied_run:
  assumes "permit who op = Inl d"
  shows "\<exists>rec lost a. execute EE op who permit e = (Inl (OeDenied d), e\<lparr>en_ticks := Suc (en_ticks e), en_audit := a, en_trace := en_trace e @ TrAudit rec # lost\<rparr>)
    \<and> ar_result rec = RDenied \<and> ar_who rec = id_subject who \<and> ar_op rec = op_kind_of op \<and> ar_error_id rec = Some (dn_id d)
    \<and> (lost = [] \<or> (\<exists>err. lost = [TrAuditLost err])) \<and> a = snd (ee_record EE rec (en_audit e))"
proof -
  define m where "m = (case op_module op of Some i \<Rightarrow> map_option (\<lambda>m. md_id (dm_descriptor m)) (find (\<lambda>m. dm_id m = i) (en_modules e)) | None \<Rightarrow> None)"
  define rec where "rec = with_error (dn_id d) (audit_record_new (ee_now EE (en_ticks e)) who (op_kind_of op) m RDenied)"
  obtain x a where x: "ee_record EE rec (en_audit e) = (x, a)" by force
  have run: "execute EE op who permit e = (Inl (OeDenied d), snd (emit EE rec (e\<lparr>en_ticks := Suc (en_ticks e)\<rparr>)))"
    using assms by (simp add: execute_def new_record_def Let_def m_def rec_def)
  have "ar_result rec = RDenied \<and> ar_who rec = id_subject who \<and> ar_op rec = op_kind_of op \<and> ar_error_id rec = Some (dn_id d)"
    by (simp add: rec_def with_error_def audit_record_new_def)
  moreover have "\<exists>lost. snd (emit EE rec (e\<lparr>en_ticks := Suc (en_ticks e)\<rparr>))
      = e\<lparr>en_ticks := Suc (en_ticks e), en_audit := a, en_trace := en_trace e @ TrAudit rec # lost\<rparr>
      \<and> (lost = [] \<or> (\<exists>err. lost = [TrAuditLost err]))"
  proof (cases x)
    case (Inl err)
    then show ?thesis using x by (intro exI [of _ "[TrAuditLost err]"]) (simp add: emit_def)
  next
    case (Inr u)
    then show ?thesis using x by (intro exI [of _ "[]"]) (simp add: emit_def)
  qed
  ultimately show ?thesis using run x by (metis snd_conv)
qed

text \<open>A refused caller reaches nothing. When the policy refuses an operation, the engine asks the monitor
  nothing, changes nothing of its own but the clock reading, and offers the sink exactly one record, which says who was
  refused what and why; a failure of the sink does not hide the refusal.\<close>

theorem denied_touches_nothing:
  assumes "permit who op = Inl d"
  shows "\<exists>rec lost a. execute EE op who permit e = (Inl (OeDenied d), e\<lparr>en_ticks := Suc (en_ticks e), en_audit := a, en_trace := en_trace e @ TrAudit rec # lost\<rparr>)
    \<and> ar_result rec = RDenied \<and> ar_who rec = id_subject who \<and> ar_op rec = op_kind_of op \<and> ar_error_id rec = Some (dn_id d)
    \<and> (lost = [] \<or> (\<exists>err. lost = [TrAuditLost err])) \<and> a = snd (ee_record EE rec (en_audit e))"
  by (rule denied_run [where permit = permit and who = who and op = op and d = d, OF assms])

theorem denied_touches_nothing_witness:
  "scoped_permit (scopes_of Read) xe_who xe_apply = Inl \<lparr>dn_id = lit ''web-denied-scope'', dn_required_scope = Some (lit ''write'')\<rparr>
    \<and> (\<exists>rec lost a. execute xe_env xe_apply xe_who (scoped_permit (scopes_of Read)) (xe_engine [])
          = (Inl (OeDenied \<lparr>dn_id = lit ''web-denied-scope'', dn_required_scope = Some (lit ''write'')\<rparr>),
             (xe_engine [])\<lparr>en_ticks := Suc (en_ticks (xe_engine [])), en_audit := a, en_trace := en_trace (xe_engine []) @ TrAudit rec # lost\<rparr>)
    \<and> ar_result rec = RDenied \<and> ar_who rec = id_subject xe_who \<and> ar_op rec = op_kind_of xe_apply
    \<and> ar_error_id rec = Some (dn_id \<lparr>dn_id = lit ''web-denied-scope'', dn_required_scope = Some (lit ''write'')\<rparr>)
    \<and> (lost = [] \<or> (\<exists>err. lost = [TrAuditLost err])) \<and> a = snd (ee_record xe_env rec (en_audit (xe_engine []))))"
proof -
  have d: "scoped_permit (scopes_of Read) xe_who xe_apply = Inl \<lparr>dn_id = lit ''web-denied-scope'', dn_required_scope = Some (lit ''write'')\<rparr>"
    by (simp add: scoped_permit_def xe_apply_def scopes_of_def scopes_allows_def denied_with_scope_def DENIED_SCOPE_ID_def)
  show ?thesis by (rule conjI [OF d denied_touches_nothing [where permit = "scoped_permit (scopes_of Read)", OF d]])
qed

text \<open>C26. An operation asks the monitor only for what it is for: every request sent while an operation runs is one the
  table of the operation names, and a request that changes the state of the monitor is sent only by an operation that
  counts as mutating, so that it was authorized and audited as one.\<close>

theorem operation_requests:
  "\<exists>seg. elog (snd (execute EE op who permit e)) = elog e @ seg
     \<and> list_all (\<lambda>x. may_send op (fst x) \<and> (if changes_state (fst x) then is_mutating op else True)) seg"
proof -
  obtain r e' where run: "execute EE op who permit e = (r, e')" by force
  have "\<exists>seg. elog e' = elog e @ seg \<and> list_all (\<lambda>x. may_send op (fst x)) seg"
  proof (cases "permit who op")
    case (Inl d)
    then show ?thesis using denied_run [where permit = permit and who = who and op = op and d = d and EE = EE and e = e] run by auto
  next
    case (Inr u)
    then obtain e1 e2 where p: "en_client e2 = en_client e1"
      "if is_mutating op then e1 = snd (apply_is_noop EE op e) else e1 = e"
      "(\<exists>err. r = Inl (OeAuditUnavailable err) \<and> is_mutating op \<and> e' = e2)
       \<or> (\<exists>e3. dispatch_op EE op (e2\<lparr>en_hashes := hashes_default\<rparr>) = (r, e3) \<and> en_client e' = en_client e3)"
      using execute_parts [OF run] by (metis old.unit.exhaust)
    obtain s1 where s1: "elog e1 = elog e @ s1" "list_all (\<lambda>x. may_send op (fst x)) s1"
      using p(2) asks_noop [of op EE] unfolding asks_def by (cases "is_mutating op") auto
    show ?thesis using p(3)
    proof (elim disjE exE conjE)
      assume "e' = e2"
      then show ?thesis using s1 p(1) by auto
    next
      fix e3 assume d: "dispatch_op EE op (e2\<lparr>en_hashes := hashes_default\<rparr>) = (r, e3)" "en_client e' = en_client e3"
      obtain s2 where "elog e3 = elog (e2\<lparr>en_hashes := hashes_default\<rparr>) @ s2" "list_all (\<lambda>x. may_send op (fst x)) s2"
        using asks_dispatch [of EE op] d(1) unfolding asks_def by (metis snd_conv)
      then show ?thesis using s1 p(1) d(2) by auto
    qed
  qed
  then show ?thesis using run may_change [of op] by (fastforce simp: list_all_iff)
qed

end
