(* ===== verification/Engine_Write.thy ===== *)
theory Engine_Write
  imports Engine_Log
begin

text \<open>
  What has to be in the log before the engine asks for a write, and how a write, its commit-confirm window and its
  failure are reported.
\<close>

section \<open>Runs\<close>

lemma ebind_run:
  "ebind m f e = (r, e') \<longleftrightarrow> (\<exists>err. m e = (Inl err, e') \<and> r = Inl err) \<or> (\<exists>x e1. m e = (Inr x, e1) \<and> f x e1 = (r, e'))"
  by (auto simp: ebind_def split: prod.splits sum.splits)

lemma ebind_Inr: "m e = (Inr x, e1) \<Longrightarrow> ebind m f e = f x e1"
  by (simp add: ebind_def)

lemma ebind_Inl: "m e = (Inl err, e1) \<Longrightarrow> ebind m f e = (Inl err, e1)"
  by (simp add: ebind_def)

lemma emodify_run: "emodify f e = (Inr (), f e)"
  by (simp add: emodify_def)

definition quiet :: "(request \<times> 'r) list \<Rightarrow> bool" where
  "quiet seg \<longleftrightarrow> list_all (\<lambda>x. \<not> (\<exists>t d b j. fst x = RqWriteTarget t d b j)) seg"

lemma quiet_simps [simp]: "quiet []" "quiet (xs @ ys) \<longleftrightarrow> quiet xs \<and> quiet ys"
  "quiet ((rq, a) # xs) \<longleftrightarrow> (\<forall>t d b j. rq \<noteq> RqWriteTarget t d b j) \<and> quiet xs"
  by (auto simp: quiet_def)

definition wordless :: "request \<Rightarrow> bool" where
  "wordless rq \<longleftrightarrow> \<not> (\<exists>t d b j. rq = RqWriteTarget t d b j)"

lemma wordless_simps [simp]: "wordless (RqReadTarget t)" "wordless (RqRunCheck i b)" "wordless RqPendingCommit"
  "wordless (RqStartConfirmTimer c n svc)" "wordless (RqListBackups m)" "wordless (RqRestore m k)" "wordless (RqRollbackCommit c)"
  "wordless (RqReloadUnitFiles m)" "wordless (RqMount t)" "wordless (RqService i a)" "\<not> wordless (RqWriteTarget t d b j)"
  by (auto simp: wordless_def)

lemma asks_quiet:
  assumes "asks ask wordless m" and "m e = (r, e')"
  obtains seg where "elog e' = elog e @ seg" "quiet seg" "same_setup e e'"
proof -
  obtain seg where "elog e' = elog e @ seg" "list_all (\<lambda>x. wordless (fst x)) seg" "same_setup e e'"
    using assms unfolding asks_def by (metis snd_conv)
  then show thesis using that by (auto simp: quiet_def wordless_def)
qed

lemma sends_run:
  assumes "sends ask req R m" and "m c = (r, c')"
  obtains seg where "cl_log c' = cl_log c @ seg" "cl_tables c' = cl_tables c" "list_all (\<lambda>x. fst x = req) seg"
    "\<forall>x. r = Inr x \<longrightarrow> (\<exists>resp. seg = [(req, Inr resp)] \<and> R x resp)"
proof -
  have t: "cl_tables c' = cl_tables c" "exchanged ask req R c r c' \<or> (r, c') = (Inl ClNotGreeted, c)"
    using assms unfolding sends_def by (metis fst_conv snd_conv)+
  from t(2) show thesis
  proof
    assume "exchanged ask req R c r c'"
    then obtain a where a: "cl_log c' = cl_log c @ [(req, a)]" "case r of Inr x \<Rightarrow> \<exists>resp. a = Inr resp \<and> R x resp | Inl _ \<Rightarrow> True"
      by (auto simp: exchanged_def)
    show thesis by (rule that [of "[(req, a)]"]) (use a t(1) in auto)
  next
    assume "(r, c') = (Inl ClNotGreeted, c)"
    then show thesis by (intro that [of "[]"]) auto
  qed
qed

lemma eclient_run:
  assumes "sends ask req R m" and "eclient m e = (r, e')"
  obtains r0 seg where "r = Inr r0" "elog e' = elog e @ seg" "same_setup e e'" "list_all (\<lambda>x. fst x = req) seg"
    "\<forall>x. r0 = Inr x \<longrightarrow> (\<exists>resp. seg = [(req, Inr resp)] \<and> R x resp)"
proof -
  obtain r0 c' where m: "m (en_client e) = (r0, c')" by force
  then have e: "r = Inr r0" "e' = e\<lparr>en_client := c'\<rparr>" using assms(2) by (auto simp: eclient_def)
  obtain seg where seg: "cl_log c' = elog e @ seg" "cl_tables c' = cl_tables (en_client e)"
    "list_all (\<lambda>x. fst x = req) seg" "\<forall>x. r0 = Inr x \<longrightarrow> (\<exists>resp. seg = [(req, Inr resp)] \<and> R x resp)" by (rule sends_run [OF assms(1) m])
  show thesis by (rule that [of r0 seg]) (use seg e in \<open>auto simp: same_setup_def\<close>)
qed

lemma easks_run:
  assumes "sends ask req R m" and "easks m e = (r, e')"
  obtains seg where "elog e' = elog e @ seg" "same_setup e e'" "list_all (\<lambda>x. fst x = req) seg"
    "\<forall>x. r = Inr x \<longrightarrow> (\<exists>resp. seg = [(req, Inr resp)] \<and> R x resp)"
proof -
  obtain r0 where m: "eclient m e = (Inr r0, e')" "r = map_err_with map_client r0"
    using assms(2) by (auto simp: easks_def ebind_def elift_def eclient_def split: prod.splits)
  obtain r1 seg where seg: "(Inr r0 :: (ops_error, _) result) = Inr r1" "elog e' = elog e @ seg" "same_setup e e'" "list_all (\<lambda>x. fst x = req) seg"
    "\<forall>x. r1 = Inr x \<longrightarrow> (\<exists>resp. seg = [(req, Inr resp)] \<and> R x resp)" by (rule eclient_run [OF assms(1) m(1)])
  show thesis by (rule that [of seg]) (use seg m(2) in \<open>auto simp: map_err_with_def split: sum.splits\<close>)
qed

lemma easks_once:
  assumes "sends ask req R m" and "easks m e = (r, e')"
  shows "\<exists>seg. elog e' = elog e @ seg \<and> (seg = [] \<and> (\<exists>err. r = Inl err) \<or> (\<exists>a. seg = [(req, a)]))"
proof -
  obtain r0 c' where m: "m (en_client e) = (r0, c')" "e' = e\<lparr>en_client := c'\<rparr>" "r = map_err_with map_client r0"
    using assms(2) by (auto simp: easks_def ebind_def elift_def eclient_def split: prod.splits)
  have "exchanged ask req R (en_client e) r0 c' \<or> (r0, c') = (Inl ClNotGreeted, en_client e)"
    using assms(1) m(1) unfolding sends_def by (metis fst_conv snd_conv)
  then show ?thesis using m by (auto simp: exchanged_def map_err_with_def)
qed

lemma only_quiet: "list_all (\<lambda>x. fst x = req) seg \<Longrightarrow> wordless req \<Longrightarrow> quiet seg"
  by (auto simp: quiet_def wordless_def list_all_iff)

lemma run_checks_log:
  "\<exists>reports e' seg. run_checks EE checks b e = (Inr reports, e') \<and> elog e' = elog e @ seg \<and> quiet seg \<and> same_setup e e'
    \<and> (list_all (\<lambda>r. cr_ran r \<and> cr_passed r) reports
        \<longrightarrow> list_all (\<lambda>k. \<exists>out. (RqRunCheck (fst k) b, Inr (RsChecked out)) \<in> set seg \<and> co_passed out) checks)"
proof (induction checks arbitrary: e)
  case Nil
  then show ?case by (simp add: eret_def)
next
  case (Cons k checks)
  obtain i program where k: "k = (i, program)" by force
  obtain r0 e1 where m: "eclient (client_run_check (ee_ask EE) i b) e = (r0, e1)" by force
  obtain r s1 where s1: "r0 = Inr r" "elog e1 = elog e @ s1" "same_setup e e1" "list_all (\<lambda>x. fst x = RqRunCheck i b) s1"
    "\<forall>x. r = Inr x \<longrightarrow> (\<exists>resp. s1 = [(RqRunCheck i b, Inr resp)] \<and> resp = RsChecked x)"
    by (rule eclient_run [OF client_sends(3) m])
  obtain reports e' s2 where i: "run_checks EE checks b e1 = (Inr reports, e')" "elog e' = elog e1 @ s2" "quiet s2" "same_setup e1 e'"
    "list_all (\<lambda>r. cr_ran r \<and> cr_passed r) reports
        \<longrightarrow> list_all (\<lambda>k. \<exists>out. (RqRunCheck (fst k) b, Inr (RsChecked out)) \<in> set s2 \<and> co_passed out) checks"
    using Cons.IH [of e1] by blast
  have q: "quiet s1" using only_quiet [OF s1(4)] by simp
  let ?rep = "case r of
      Inr out \<Rightarrow> \<lparr>cr_program = program, cr_ran = True, cr_passed = co_passed out, cr_exit_code = co_exit_code out,
        cr_detail = truncate_detail (co_detail out)\<rparr>
    | Inl err \<Rightarrow> \<lparr>cr_program = program, cr_ran = False, cr_passed = False, cr_exit_code = None,
        cr_detail = truncate_detail (ee_text EE err)\<rparr>"
  have "run_checks EE (k # checks) b e = (Inr (?rep # reports), e')"
    using m s1(1) i(1) by (simp add: k ebind_def eret_def)
  moreover have "elog e' = elog e @ s1 @ s2" "quiet (s1 @ s2)" "same_setup e e'" using s1 i q same_setup_trans by auto
  moreover have "list_all (\<lambda>k. \<exists>out. (RqRunCheck (fst k) b, Inr (RsChecked out)) \<in> set (s1 @ s2) \<and> co_passed out) (k # checks)"
    if all: "list_all (\<lambda>r. cr_ran r \<and> cr_passed r) (?rep # reports)"
  proof -
    obtain out where "r = Inr out" "co_passed out" using all by (cases r) auto
    then have "(RqRunCheck i b, Inr (RsChecked out)) \<in> set (s1 @ s2)" using s1(5) by auto
    moreover have "list_all (\<lambda>k. \<exists>out. (RqRunCheck (fst k) b, Inr (RsChecked out)) \<in> set (s1 @ s2) \<and> co_passed out) checks"
      using all i(5) by (auto simp: list_all_iff)
    ultimately show ?thesis using \<open>co_passed out\<close> k by auto
  qed
  ultimately show ?case by blast
qed

section \<open>What stands before a write\<close>

definition checked_before ::
  "wiring_t \<Rightarrow> bytes \<Rightarrow> bool \<Rightarrow> (request \<times> (channel_error, response) result) list \<Rightarrow> bool" where
  "checked_before w b journal pre \<longleftrightarrow>
     list_all (\<lambda>k. \<exists>out. (RqRunCheck (fst k) b, Inr (RsChecked out)) \<in> set pre \<and> co_passed out) (wi_checks w)
     \<and> (if journal then (RqPendingCommit, Inr (RsPending None)) \<in> set pre else True)"

lemma check_and_write_log:
  assumes "check_and_write EE m action confirm w reload contents rendered e = (r, e')"
  defines "j \<equiv> md_commit_confirm (dm_descriptor m) \<or> confirm \<noteq> None"
  shows "\<exists>seg. elog e' = elog e @ seg \<and> (quiet seg \<or> (\<exists>pre a post.
     seg = pre @ (RqWriteTarget (wi_target w) (Some (tc_digest contents)) (as_bytes rendered) j, a) # post
     \<and> quiet pre \<and> quiet post \<and> checked_before w (as_bytes rendered) j pre))"
proof -
  let ?b = "as_bytes rendered"
  obtain reports e1 s1 where c: "run_checks EE (wi_checks w) ?b e = (Inr reports, e1)" "elog e1 = elog e @ s1" "quiet s1"
    "list_all (\<lambda>r. cr_ran r \<and> cr_passed r) reports
        \<longrightarrow> list_all (\<lambda>k. \<exists>out. (RqRunCheck (fst k) ?b, Inr (RsChecked out)) \<in> set s1 \<and> co_passed out) (wi_checks w)"
    using run_checks_log by blast
  obtain p e2 where pe: "(if j then easks (client_pending_commit (ee_ask EE)) else eret None) e1 = (p, e2)" by force
  obtain s2 where s2: "elog e2 = elog e1 @ s2" "quiet s2" "p = Inr None \<Longrightarrow> j \<Longrightarrow> (RqPendingCommit, Inr (RsPending None)) \<in> set s2"
  proof (cases j)
    case True
    then have "easks (client_pending_commit (ee_ask EE)) e1 = (p, e2)" using pe by simp
    then obtain seg where seg: "elog e2 = elog e1 @ seg" "same_setup e1 e2" "list_all (\<lambda>x. fst x = RqPendingCommit) seg"
      "\<forall>x. p = Inr x \<longrightarrow> (\<exists>resp. seg = [(RqPendingCommit, Inr resp)] \<and> resp = RsPending x)"
      by (rule easks_run [OF client_sends(11)])
    have "quiet seg" using only_quiet [OF seg(3)] by simp
    then show ?thesis using that [of seg] seg by auto
  next
    case False
    then show ?thesis using pe that [of "[]"] by (auto simp: eret_def)
  qed
  let ?bad = "find (\<lambda>r. \<not> cr_ran r \<or> \<not> cr_passed r) reports"
  show ?thesis
  proof (cases "p = Inr None \<and> ?bad = None")
    case False
    have "e' = e2" using assms(1) c(1) pe False
      by (auto simp: check_and_write_def Let_def ebind_def efail_def j_def split: sum.splits option.splits)
    then show ?thesis using c s2 by auto
  next
    case True
    have pass: "list_all (\<lambda>r. cr_ran r \<and> cr_passed r) reports" using True by (auto simp: find_None_iff list_all_iff)
    have before: "checked_before w ?b j (s1 @ s2)" using c(4) pass s2(3) True by (auto simp: checked_before_def list_all_iff)
    obtain wr e3 where wr: "easks (client_write_target (ee_ask EE) (wi_target w) (Some (tc_digest contents)) ?b j) e2 = (wr, e3)" by force
    let ?rq = "RqWriteTarget (wi_target w) (Some (tc_digest contents)) ?b j"
    obtain s3 where s3: "elog e3 = elog e2 @ s3" "s3 = [] \<and> (\<exists>err. wr = Inl err) \<or> (\<exists>a. s3 = [(?rq, a)])"
      using easks_once [OF client_sends(2) wr] by blast
    show ?thesis
    proof (cases wr)
      case (Inl err)
      then have "e' = e3" using assms(1) c(1) pe True wr by (auto simp: check_and_write_def Let_def ebind_def j_def)
      then show ?thesis using c s2 s3 before by (auto intro!: exI [of _ "s1 @ s2"])
    next
      case (Inr receipt)
      let ?e = "e3\<lparr>en_hashes := (en_hashes e3)\<lparr>ha_prev := wr_prev_digest receipt, ha_new := Some (wr_new_digest receipt)\<rparr>\<rparr>"
      have "after_write EE m action confirm w reload reports j receipt ?e = (r, e')"
        using assms(1) c(1) pe True wr Inr by (auto simp: check_and_write_def Let_def ebind_def j_def emodify_def)
      moreover have "asks (ee_ask EE) wordless (after_write EE m action confirm w reload reports j receipt)" by (rule asks_after_write) simp_all
      ultimately obtain s4 where "elog e' = elog ?e @ s4" "quiet s4" using asks_quiet by blast
      then show ?thesis using c s2 s3 before Inr by (auto intro!: exI [of _ "s1 @ s2"])
    qed
  qed
qed

definition justified ::
  "('j, 'p, 'a) engine \<Rightarrow> 'j operation \<Rightarrow> (request \<times> (channel_error, response) result) list \<Rightarrow> nat \<Rightarrow> digest option \<Rightarrow> bytes \<Rightarrow> bool \<Rightarrow> bool" where
  "justified e op pre t d b journal \<longleftrightarrow>
     (\<exists>i model expected action confirm m ds w mt ex contents text rendered.
        op = Apply i model expected action confirm \<and> find_module (en_modules e) i = Inr m
        \<and> dm_validate_json m model (de_profile (en_host e)) = Inr ds \<and> \<not> has_errors ds
        \<and> dm_model_target_json m model = Inr mt
        \<and> wiring (en_client e) (dm_descriptor m) (de_profile (en_host e)) ex mt = Inr w \<and> t = wi_target w
        \<and> (RqReadTarget t, Inr (RsTarget contents)) \<in> set pre \<and> d = Some (tc_digest contents)
        \<and> (expected = None \<or> expected = d)
        \<and> from_utf8 (tc_bytes contents) = Inr text \<and> dm_apply_json m text model = Inr rendered \<and> text \<noteq> rendered
        \<and> b = as_bytes rendered \<and> journal = (md_commit_confirm (dm_descriptor m) \<or> confirm \<noteq> None)
        \<and> checked_before w b journal pre)"

lemma wiring_tables: "cl_tables c' = cl_tables c \<Longrightarrow> wiring c' = wiring c"
proof (intro ext)
  fix d profile ex mt
  assume t: "cl_tables c' = cl_tables c"
  then have l: "client_module_id c' = client_module_id c" "client_targets c' = client_targets c" "client_bindings c' = client_bindings c"
    by (auto simp: client_module_id_def client_targets_def client_bindings_def client_ack_def)
  show "wiring c' d profile ex mt = wiring c d profile ex mt" unfolding wiring_def l t ..
qed

lemma wiring_setup: "same_setup e e' \<Longrightarrow> wiring (en_client e') = wiring (en_client e)"
  by (rule wiring_tables) (simp add: same_setup_def)

lemma justified_setup: "same_setup e e' \<Longrightarrow> justified e' op = justified e op"
  by (intro ext) (simp add: justified_def wiring_setup, simp add: same_setup_def)

lemma checked_before_mono: "checked_before w b j pre \<Longrightarrow> set pre \<subseteq> set pre' \<Longrightarrow> checked_before w b j pre'"
  by (fastforce simp: checked_before_def list_all_iff split: if_splits)

text \<open>One write at most, and what stands before it.\<close>

definition careful :: "('j, 'p, 'a) engine \<Rightarrow> 'j operation \<Rightarrow> (request \<times> (channel_error, response) result) list \<Rightarrow> bool" where
  "careful e op seg \<longleftrightarrow> quiet seg \<or> (\<exists>pre t d b j a post. seg = pre @ (RqWriteTarget t d b j, a) # post
     \<and> quiet pre \<and> quiet post \<and> justified e op pre t d b j)"

lemma careful_write:
  "quiet pre \<Longrightarrow> quiet post \<Longrightarrow> justified e op pre t d b j \<Longrightarrow> careful e op (pre @ (RqWriteTarget t d b j, a) # post)"
  unfolding careful_def by blast

lemma justified_mono: "justified e op pre t d b j \<Longrightarrow> set pre \<subseteq> set pre' \<Longrightarrow> justified e op pre' t d b j"
  unfolding justified_def
  by (elim exE conjE) (intro exI conjI; (assumption | (rule checked_before_mono; assumption) | (erule subsetD; assumption)))

lemma careful_prefix: "quiet s0 \<Longrightarrow> careful e op seg \<Longrightarrow> careful e op (s0 @ seg)"
  unfolding careful_def
proof (elim disjE exE conjE)
  fix pre t d b j a post
  assume "quiet s0" "seg = pre @ (RqWriteTarget t d b j, a) # post" "quiet pre" "quiet post" "justified e op pre t d b j"
  then show "quiet (s0 @ seg) \<or> (\<exists>pre t d b j a post. s0 @ seg = pre @ (RqWriteTarget t d b j, a) # post
     \<and> quiet pre \<and> quiet post \<and> justified e op pre t d b j)"
    using justified_mono [of e op pre t d b j "s0 @ pre"]
    by (intro disjI2 exI [of _ "s0 @ pre"] exI [of _ t] exI [of _ d] exI [of _ b] exI [of _ j] exI [of _ a] exI [of _ post]) auto
qed simp

lemma reload_module_run: "reload_module d e = (r, e') \<Longrightarrow> e' = e"
  by (auto simp: reload_module_def ebind_def eret_def the_module_id_def split: if_splits sum.splits)

lemma apply_careful:
  assumes "apply_op EE i model expected action confirm e = (r, e')"
  shows "\<exists>seg. elog e' = elog e @ seg \<and> careful e (Apply i model expected action confirm) seg"
proof -
  let ?goal = "\<exists>seg. elog e' = elog e @ seg \<and> careful e (Apply i model expected action confirm) seg"
  have same: ?goal if "e' = e" using that by (intro exI [of _ "[]"]) (simp add: careful_def)
  show ?thesis
  proof (cases "find_module (en_modules e) i")
    case (Inl err)
    then have "e' = e" using assms by (simp add: apply_op_def ebind_def the_module_def)
    then show ?thesis by (rule same)
  next
    case (Inr m)
    note m = Inr
    show ?thesis
    proof (cases "\<exists>ds mt w. dm_validate_json m model (de_profile (en_host e)) = Inr ds \<and> \<not> has_errors ds
        \<and> dm_model_target_json m model = Inr mt
        \<and> wiring (en_client e) (dm_descriptor m) (de_profile (en_host e)) (ee_exists EE (cl_peer (en_client e))) mt = Inr w")
      case False
      then have "e' = e" using assms m
        by (auto simp: apply_op_def ebind_def the_module_def validate_model_def model_wiring_def wired_def elift_def efail_def
            map_err_with_def split: sum.splits if_splits)
      then show ?thesis by (rule same)
    next
      case True
      then obtain ds mt w where w: "dm_validate_json m model (de_profile (en_host e)) = Inr ds" "\<not> has_errors ds"
        "dm_model_target_json m model = Inr mt"
        "wiring (en_client e) (dm_descriptor m) (de_profile (en_host e)) (ee_exists EE (cl_peer (en_client e))) mt = Inr w" by blast
      let ?P = "de_profile (en_host e)" and ?op = "Apply i model expected action confirm"
      have tm: "the_module i e = (Inr m, e)" using m by (simp add: the_module_def)
      have vm: "validate_model m model e = (Inr ds, e)" using w(1) by (simp add: validate_model_def map_err_with_def)
      have mw: "model_wiring EE i model e = (Inr w, e)"
        using m w(3,4) by (simp add: model_wiring_def ebind_def the_module_def wired_def elift_def map_err_with_def)
      obtain rr where rr: "reload_module (dm_descriptor m) e = (rr, e)" using reload_module_run by (metis surj_pair)
      show ?thesis
      proof (cases "(action \<noteq> None \<and> wi_binding w = None) \<or> (\<exists>err. rr = Inl err)")
        case True
        then have "e' = e" using assms m w rr
          by (auto simp: apply_op_def ebind_def the_module_def validate_model_def model_wiring_def wired_def elift_def efail_def
              map_err_with_def split: if_splits)
        then show ?thesis by (rule same)
      next
        case False
        then obtain reload where reload: "rr = Inr reload" by (cases rr) auto
        obtain rc e2 where rc: "easks (client_read_target (ee_ask EE) (wi_target w)) e = (rc, e2)" by force
        obtain s1 where s1: "elog e2 = elog e @ s1" "same_setup e e2" "list_all (\<lambda>x. fst x = RqReadTarget (wi_target w)) s1"
          "\<forall>x. rc = Inr x \<longrightarrow> (\<exists>resp. s1 = [(RqReadTarget (wi_target w), Inr resp)] \<and> resp = RsTarget x)"
          by (rule easks_run [OF client_sends(1) rc])
        have q: "quiet s1" using only_quiet [OF s1(3)] by simp
        have stop: ?thesis if "elog e' = elog e2" using that s1(1) q by (auto simp: careful_def)
        let ?after = "\<lambda>contents. if (case expected of Some d \<Rightarrow> d \<noteq> tc_digest contents | None \<Rightarrow> False)
             then efail (OeHashConflict (the expected) (Some (tc_digest contents)))
             else ebind (elift (decode (tc_bytes contents) (wi_path w))) (\<lambda>current.
                 ebind (elift (map_err_with OeModule (dm_apply_json m current model))) (\<lambda>rendered.
                   if current = rendered
                   then eret (unchanged_report (md_id (dm_descriptor m)) (wi_path w) (tc_digest contents))
                   else check_and_write EE m action confirm w reload contents rendered))"
        let ?hash = "\<lambda>contents e. e\<lparr>en_hashes := (en_hashes e)\<lparr>ha_prev := Some (tc_digest contents)\<rparr>\<rparr>"
        have na: "(action \<noteq> None \<and> wi_binding w = None) = False" using False by blast
        have "ebind (easks (client_read_target (ee_ask EE) (wi_target w))) (\<lambda>contents.
            ebind (emodify (?hash contents)) (\<lambda>_. ?after contents)) e = (r, e')"
          using assms unfolding apply_op_def
          by (simp only: ebind_Inr [where m = "the_module i", OF tm] ebind_Inr [where m = "validate_model m model", OF vm] w(2)
              ebind_Inr [where m = "model_wiring EE i model", OF mw] na if_False
              ebind_Inr [where m = "reload_module d" for d, OF rr [unfolded reload]])
        then have step: "case rc of Inl err \<Rightarrow> (Inl err, e2) = (r, e') | Inr contents \<Rightarrow> ?after contents (?hash contents e2) = (r, e')"
          by (cases rc) (simp_all only: ebind_def [of "easks k" for k] ebind_def [of "emodify f" for f] rc emodify_run prod.case sum.case)
        show ?thesis
        proof (cases "\<exists>contents cur rendered. rc = Inr contents \<and> (expected = None \<or> expected = Some (tc_digest contents))
            \<and> from_utf8 (tc_bytes contents) = Inr cur \<and> dm_apply_json m cur model = Inr rendered \<and> cur \<noteq> rendered")
          case False
          then have "elog e' = elog e2" using step
            by (auto simp: ebind_def elift_def decode_def efail_def eret_def map_err_with_def split: sum.splits if_splits option.splits)
          then show ?thesis by (rule stop)
        next
          case True
          then obtain contents cur rendered where c: "rc = Inr contents" "expected = None \<or> expected = Some (tc_digest contents)"
            "from_utf8 (tc_bytes contents) = Inr cur" "dm_apply_json m cur model = Inr rendered" "cur \<noteq> rendered" by blast
          let ?e3 = "e2\<lparr>en_hashes := (en_hashes e2)\<lparr>ha_prev := Some (tc_digest contents)\<rparr>\<rparr>"
          have "check_and_write EE m action confirm w reload contents rendered ?e3 = (r, e')"
            using step c by (auto simp: ebind_def elift_def decode_def map_err_with_def split: if_splits option.splits)
          from check_and_write_log [OF this] obtain seg where
            seg: "elog e' = elog e2 @ seg" "quiet seg \<or> (\<exists>pre a post.
               seg = pre @ (RqWriteTarget (wi_target w) (Some (tc_digest contents)) (as_bytes rendered)
                  (md_commit_confirm (dm_descriptor m) \<or> confirm \<noteq> None), a) # post
               \<and> quiet pre \<and> quiet post \<and> checked_before w (as_bytes rendered) (md_commit_confirm (dm_descriptor m) \<or> confirm \<noteq> None) pre)"
            by auto
          have rd: "(RqReadTarget (wi_target w), Inr (RsTarget contents)) \<in> set s1" using s1(4) c(1) by auto
          have just: "justified e ?op (s1 @ pre) (wi_target w) (Some (tc_digest contents)) (as_bytes rendered)
              (md_commit_confirm (dm_descriptor m) \<or> confirm \<noteq> None)"
            if "checked_before w (as_bytes rendered) (md_commit_confirm (dm_descriptor m) \<or> confirm \<noteq> None) pre" for pre
            unfolding justified_def
            by (rule exI [of _ i], rule exI [of _ model], rule exI [of _ expected], rule exI [of _ action], rule exI [of _ confirm],
                rule exI [of _ m], rule exI [of _ ds], rule exI [of _ w], rule exI [of _ mt], rule exI, rule exI [of _ contents],
                rule exI [of _ cur], rule exI [of _ rendered])
              (use m w c rd checked_before_mono [OF that, of "s1 @ pre"] in auto)
          have "careful e ?op (s1 @ seg)" using seg(2)
          proof (elim disjE exE conjE)
            assume "quiet seg"
            then show ?thesis using q by (simp add: careful_def)
          next
            fix pre a post
            assume "seg = pre @ (RqWriteTarget (wi_target w) (Some (tc_digest contents)) (as_bytes rendered)
                  (md_commit_confirm (dm_descriptor m) \<or> confirm \<noteq> None), a) # post" "quiet pre" "quiet post"
              "checked_before w (as_bytes rendered) (md_commit_confirm (dm_descriptor m) \<or> confirm \<noteq> None) pre"
            then show ?thesis using careful_write [OF _ _ just [of pre], of post a] q by simp
          qed
          then show ?thesis using seg(1) s1(1) by auto
        qed
      qed
    qed
  qed
qed

lemma dispatch_careful:
  assumes "dispatch_op EE op e = (r, e')"
  shows "\<exists>seg. elog e' = elog e @ seg \<and> careful e op seg"
proof (cases "\<exists>i model expected action confirm. op = Apply i model expected action confirm")
  case True
  then obtain i model expected action confirm where op: "op = Apply i model expected action confirm" by blast
  obtain x where "apply_op EE i model expected action confirm e = (x, e')"
    using assms by (auto simp: op ebind_def eret_def split: prod.splits sum.splits)
  then show ?thesis unfolding op by (rule apply_careful)
next
  case False
  obtain seg where "elog e' = elog e @ seg" "list_all (\<lambda>x. may_send op (fst x)) seg"
    using asks_dispatch [of EE op] assms unfolding asks_def by (metis snd_conv)
  moreover have "\<not> may_send op (RqWriteTarget t d b j)" for t d b j using False by (cases op) (auto simp: may_send_def)
  ultimately show ?thesis by (force simp: careful_def quiet_def list_all_iff)
qed

lemma asks_noop_reads: "asks (ee_ask EE) wordless (apply_is_noop EE op)"
  by (cases op) (simp_all add: apply_is_noop_def asks_plain, intro asks_intros asks_client, simp)

text \<open>C9. No write without a reason. An operation asks for at most one write, only an apply does, and when it does the
  log before it shows that the current contents were read from the target the module is wired to and are the ones the
  caller expects, that every validator of that target passed on exactly the bytes to be written, and, when the write is
  to be confirmed, that no other commit is pending; the model validates without an error, the bytes are what the module
  renders from the contents read, they differ from them, and the write is conditional on the digest that was read.\<close>

theorem write_needs_reason:
  "\<exists>seg. elog (snd (execute EE op who permit e)) = elog e @ seg \<and> careful e op seg"
proof -
  obtain r e' where run: "execute EE op who permit e = (r, e')" by force
  have "\<exists>seg. elog e' = elog e @ seg \<and> careful e op seg"
  proof (cases "permit who op")
    case (Inl d)
    then show ?thesis using denied_run [where permit = permit and who = who and op = op and d = d and EE = EE and e = e] run
      by (auto simp: careful_def)
  next
    case (Inr u)
    then obtain e1 e2 where p: "en_client e2 = en_client e1" "same_setup e1 e2"
      "if is_mutating op then e1 = snd (apply_is_noop EE op e) else e1 = e"
      "(\<exists>err. r = Inl (OeAuditUnavailable err) \<and> is_mutating op \<and> e' = e2)
       \<or> (\<exists>e3. dispatch_op EE op (e2\<lparr>en_hashes := hashes_default\<rparr>) = (r, e3) \<and> en_client e' = en_client e3)"
      using execute_parts [OF run] by (metis old.unit.exhaust)
    obtain s1 where s1: "elog e1 = elog e @ s1" "quiet s1" "same_setup e e1"
    proof (cases "is_mutating op")
      case True
      then have "apply_is_noop EE op e = (fst (apply_is_noop EE op e), e1)" using p(3) by simp
      then show ?thesis using that by (rule asks_quiet [OF asks_noop_reads])
    next
      case False
      then show ?thesis using that [of "[]"] p(3) by simp
    qed
    show ?thesis using p(4)
    proof (elim disjE exE conjE)
      assume "e' = e2"
      then show ?thesis using s1 p(1) by (auto simp: careful_def)
    next
      fix e3 assume d: "dispatch_op EE op (e2\<lparr>en_hashes := hashes_default\<rparr>) = (r, e3)" "en_client e' = en_client e3"
      obtain s2 where s2: "elog e3 = elog e2 @ s2" "careful (e2\<lparr>en_hashes := hashes_default\<rparr>) op s2"
        using dispatch_careful [OF d(1)] by auto
      have "same_setup e (e2\<lparr>en_hashes := hashes_default\<rparr>)" using s1(3) p(2) by (auto simp: same_setup_def)
      from justified_setup [OF this] have "careful e op s2" using s2(2) by (simp add: careful_def)
      from careful_prefix [OF s1(2) this] show ?thesis using s1(1) s2(1) p(1) d(2) by auto
    qed
  qed
  then show ?thesis using run by simp
qed

section \<open>Audit records around an operation\<close>

definition audited :: "op_kind \<Rightarrow> identity \<Rightarrow> audit_result \<Rightarrow> audit_record \<Rightarrow> bool" where
  "audited k who res rec \<longleftrightarrow> ar_op rec = k \<and> ar_who rec = id_subject who \<and> ar_kind rec = id_kind who \<and> ar_result rec = res"

text \<open>What the process's log says when the sink refuses a record.\<close>

definition lost_record :: "('p, 'a, 'v) engine_env \<Rightarrow> audit_record \<Rightarrow> 'a \<Rightarrow> trace_event list" where
  "lost_record EE r a = (case fst (ee_record EE r a) of Inl err \<Rightarrow> [TrAuditLost err] | Inr _ \<Rightarrow> [])"

lemma emit_run:
  "emit EE r e = (map_sum id (\<lambda>_. ()) (fst (ee_record EE r (en_audit e))),
     e\<lparr>en_audit := snd (ee_record EE r (en_audit e)), en_trace := en_trace e @ TrAudit r # lost_record EE r (en_audit e)\<rparr>)"
  by (simp add: emit_def lost_record_def split: prod.splits sum.splits)

lemma outcome_run:
  assumes "outcome_record EE who k m res e = (rec, e')"
  shows "audited k who (case res of Inr _ \<Rightarrow> ROk | Inl _ \<Rightarrow> RError) rec \<and> en_trace e' = en_trace e \<and> en_audit e' = en_audit e \<and> en_client e' = en_client e
    \<and> ar_error_id rec = (case res of Inl err \<Rightarrow> Some (ops_message_id err) | Inr _ \<Rightarrow> None)
    \<and> ar_prev_hash rec = ha_prev (en_hashes e) \<and> ar_new_hash rec = ha_new (en_hashes e) \<and> ar_commit_id rec = ha_commit_id (en_hashes e)"
  using assms
  by (auto simp: outcome_record_def new_record_def Let_def audited_def audit_record_new_def with_hashes_def with_commit_id_def
      with_error_def split: sum.splits option.splits)

definition untraced :: "('j, 'p, 'a, 'x) eng \<Rightarrow> bool" where
  "untraced m \<longleftrightarrow> (\<forall>e. en_trace (snd (m e)) = en_trace e)"

lemma untraced_intros:
  "untraced (eret x)" "untraced (elift r)" "untraced (the_module i)" "untraced (wired EE d t)" "untraced (validate_model m model)"
  "untraced (easks c)"
  "untraced k \<Longrightarrow> (\<And>x. untraced (f x)) \<Longrightarrow> untraced (ebind k f)"
  "untraced k \<Longrightarrow> untraced n \<Longrightarrow> untraced (if b then k else n)"
  by (auto simp: untraced_def eret_def elift_def the_module_def wired_def validate_model_def easks_def eclient_def ebind_def
      split: prod.splits sum.splits) (metis snd_conv)+

lemma noop_trace: "apply_is_noop EE op e = (n, e1) \<Longrightarrow> en_trace e1 = en_trace e"
proof -
  have "untraced (apply_is_noop EE op)" unfolding apply_is_noop_def model_wiring_def
    by (cases op) (simp_all add: untraced_intros(1), intro untraced_intros)
  then show "apply_is_noop EE op e = (n, e1) \<Longrightarrow> en_trace e1 = en_trace e" unfolding untraced_def by (metis snd_conv)
qed

lemma reported:
  assumes "dispatch_op EE op e2 = (res, e3)" and "outcome_record EE who k m res e3 = (rec, e4)" and "e' = snd (emit EE rec e4)"
  shows "\<exists>seg mid. elog e' = elog e2 @ seg \<and> list_all (\<lambda>x. may_send op (fst x)) seg
    \<and> audited k who (case res of Inr _ \<Rightarrow> ROk | Inl _ \<Rightarrow> RError) rec
    \<and> ar_error_id rec = (case res of Inl err \<Rightarrow> Some (ops_message_id err) | Inr _ \<Rightarrow> None)
    \<and> en_audit e' = snd (ee_record EE rec (en_audit e2)) \<and> unlogged mid
    \<and> en_trace e' = en_trace e2 @ mid @ TrAudit rec # lost_record EE rec (en_audit e2)"
proof -
  obtain seg mid where mid: "elog e3 = elog e2 @ seg" "list_all (\<lambda>x. may_send op (fst x)) seg" "en_trace e3 = en_trace e2 @ mid" "unlogged mid"
    by (rule asksD [OF asks_dispatch assms(1)])
  note out = outcome_run [OF assms(2)]
  have a: "en_audit e4 = en_audit e2" using out asks_audit [OF asks_dispatch assms(1)] by simp
  have "elog e' = elog e2 @ seg" "en_audit e' = snd (ee_record EE rec (en_audit e2))"
    "en_trace e' = en_trace e2 @ mid @ TrAudit rec # lost_record EE rec (en_audit e2)"
    unfolding assms(3) emit_run using out mid by (simp_all add: a)
  then show ?thesis using mid out by blast
qed

text \<open>C12. A mutation is announced and reported. When a mutating operation is permitted and its look ahead does not find
  it idle, a record that it starts is handed to the audit sink, as it was before the operation, when no request that changes
  anything has been sent. If the sink refuses it, the operation ends there: it is answered as such, and no further request is sent.
  Only if the sink stored it is the operation dispatched; it emits no record of its own, and exactly one more record is handed
  to the sink after it, with its result, the id of its error, and the digests and the commit it saw.\<close>

theorem mutation_audited:
  assumes "permit who op = Inr ()" and "is_mutating op" and "fst (apply_is_noop EE op e) \<noteq> Inr True"
    and "execute EE op who permit e = (r, e')"
  shows "\<exists>start ahead. audited (op_kind_of op) who RStarted start \<and> list_all (\<lambda>x. \<not> changes_state (fst x)) ahead
    \<and> (case ee_record EE start (en_audit e) of
         (Inl err, a) \<Rightarrow> r = Inl (OeAuditUnavailable err) \<and> elog e' = elog e @ ahead \<and> en_audit e' = a
           \<and> en_trace e' = en_trace e @ [TrAudit start, TrAuditLost err]
       | (Inr _, a) \<Rightarrow> \<exists>seg mid rec. elog e' = elog e @ ahead @ seg \<and> list_all (\<lambda>x. may_send op (fst x)) seg
           \<and> audited (op_kind_of op) who (case r of Inr _ \<Rightarrow> ROk | Inl _ \<Rightarrow> RError) rec
           \<and> ar_error_id rec = (case r of Inl err \<Rightarrow> Some (ops_message_id err) | Inr _ \<Rightarrow> None)
           \<and> en_audit e' = snd (ee_record EE rec a) \<and> unlogged mid
           \<and> en_trace e' = en_trace e @ TrAudit start # mid @ TrAudit rec # lost_record EE rec a)"
proof -
  let ?m = "case op_module op of Some i \<Rightarrow> map_option (\<lambda>m. md_id (dm_descriptor m)) (find (\<lambda>m. dm_id m = i) (en_modules e)) | None \<Rightarrow> None"
  let ?k = "op_kind_of op"
  obtain n e1 where n: "apply_is_noop EE op e = (n, e1)" by force
  then have no: "(case n of Inr b \<Rightarrow> b | Inl _ \<Rightarrow> False) = False" using assms(3) by (cases n) auto
  have rd: "asks (ee_ask EE) (\<lambda>rq. \<not> changes_state rq) (apply_is_noop EE op)"
    by (cases op) (simp_all add: apply_is_noop_def asks_plain, intro asks_intros asks_client, simp)
  obtain s1 where s1: "elog e1 = elog e @ s1" "list_all (\<lambda>x. \<not> changes_state (fst x)) s1"
    by (rule asksD [OF rd n])
  note silent = noop_trace [OF n] asks_audit [OF rd n]
  define start where "start = audit_record_new (ee_now EE (en_ticks e1)) who ?k ?m RStarted"
  have st: "audited ?k who RStarted start" by (simp add: start_def audited_def audit_record_new_def)
  obtain x a where x: "ee_record EE start (en_audit e) = (x, a)" by force
  define e2 where "e2 = e1\<lparr>en_ticks := Suc (en_ticks e1), en_audit := a, en_trace := en_trace e @ TrAudit start # lost_record EE start (en_audit e)\<rparr>"
  have em: "emit EE start (e1\<lparr>en_ticks := Suc (en_ticks e1)\<rparr>) = (map_sum id (\<lambda>_. ()) x, e2)"
    using x silent by (simp add: emit_run e2_def)
  show ?thesis
  proof (cases x)
    case (Inl err)
    have "(r, e') = (Inl (OeAuditUnavailable err), e2)"
      using assms(1,2,4) n no em Inl by (simp add: execute_def new_record_def start_def Let_def)
    then show ?thesis using x Inl st s1 by (intro exI [of _ start] exI [of _ s1]) (simp add: e2_def lost_record_def)
  next
    case (Inr u)
    obtain res e3 where d: "dispatch_op EE op (e2\<lparr>en_hashes := hashes_default\<rparr>) = (res, e3)" by force
    obtain rec e4 where o4: "outcome_record EE who ?k ?m res e3 = (rec, e4)" by force
    have run: "r = res" "e' = snd (emit EE rec e4)"
      using assms(1,2,4) n no em Inr d o4 by (simp_all add: execute_def new_record_def start_def Let_def)
    note rep = reported [OF d o4 run(2)]
    have "en_trace e2 = en_trace e @ [TrAudit start]" "elog e2 = elog e @ s1" "en_audit e2 = a"
      using x Inr s1(1) by (simp_all add: e2_def lost_record_def)
    with rep have "\<exists>seg mid rec. elog e' = elog e @ s1 @ seg \<and> list_all (\<lambda>x. may_send op (fst x)) seg
        \<and> audited ?k who (case r of Inr _ \<Rightarrow> ROk | Inl _ \<Rightarrow> RError) rec \<and> ar_error_id rec = (case r of Inl err \<Rightarrow> Some (ops_message_id err) | Inr _ \<Rightarrow> None)
        \<and> en_audit e' = snd (ee_record EE rec a) \<and> unlogged mid
        \<and> en_trace e' = en_trace e @ TrAudit start # mid @ TrAudit rec # lost_record EE rec a"
      unfolding run(1) by auto
    moreover have "ee_record EE start (en_audit e) = (Inr u, a)" using x Inr by simp
    ultimately show ?thesis using st s1(2) by (intro exI [of _ start] exI [of _ s1]) (simp only: prod.case sum.case simp_thms)
  qed
qed

section \<open>A concrete run\<close>

lemma xe_tables: "hello_ack ex_allow = \<lparr>ha_proto = 4, ha_modules = [\<lparr>mi_id = 0, mi_name = lit ''hosts'', mi_commit_confirm = True\<rparr>],
   ha_targets = [\<lparr>ti_id = 0, ti_module = 0, ti_path = lit ''/etc/hosts'', ti_kind = PkFile\<rparr>], ha_checks = [], ha_bindings = []\<rparr>"
  by (simp add: hello_ack_def ex_allow_def ex_target_def ex_descriptor_def PROTO_VERSION_def narrow_u16_saturating_def u16_max_def)

lemma xe_wiring: "wiring \<lparr>cl_peer = p, cl_tables = Some (hello_ack ex_allow), cl_log = l\<rparr> (dm_descriptor xe_module) ex_profile ex None
    = Inr \<lparr>wi_target = 0, wi_path = lit ''/etc/hosts'', wi_checks = [], wi_binding = None\<rparr>"
  by (simp add: wiring_def xe_tables client_module_id_def xe_module_def ex_descriptor_def client_targets_def client_bindings_def
      client_ack_def bind_result_def map_err_with_def choose_target_def relocated_def)

lemma xe_simps:
  "dm_id xe_module = lit ''hosts''" "dm_model_target_json xe_module model = Inr None" "dm_apply_json xe_module t model = Inr model"
  "dm_validate_json xe_module model prof = Inr []" "md_id (dm_descriptor xe_module) = lit ''hosts''"
  "md_commit_confirm (dm_descriptor xe_module) = False" "md_reload_unit_files (dm_descriptor xe_module) = False"
  "md_added_mounts (dm_descriptor xe_module) = None" "de_profile xe_host = ex_profile"
  "ee_ask xe_env = script_peer" "ee_record xe_env = list_sink" "tc_bytes (xe_contents b) = b" "tc_digest (xe_contents b) = b"
  "wr_backed_up (xe_receipt d d') = True" "wr_prev_digest (xe_receipt d d') = Some d" "wr_new_digest (xe_receipt d d') = d'"
  by (simp_all add: xe_defs ex_descriptor_def)

lemma xe_read:
  "client_read_target script_peer 0 \<lparr>cl_peer = RsTarget c # rs, cl_tables = Some t, cl_log = l\<rparr>
    = (Inr c, \<lparr>cl_peer = rs, cl_tables = Some t, cl_log = l @ [(RqReadTarget 0, Inr (RsTarget c))]\<rparr>)"
  by (simp add: client_read_target_def answer_as_def checked_call_def call_def script_peer_def bind_result_def)

lemma xe_write:
  "client_write_target script_peer 0 d b j \<lparr>cl_peer = RsWritten x # rs, cl_tables = Some t, cl_log = l\<rparr>
    = (Inr x, \<lparr>cl_peer = rs, cl_tables = Some t, cl_log = l @ [(RqWriteTarget 0 d b j, Inr (RsWritten x))]\<rparr>)"
  by (simp add: client_write_target_def answer_as_def checked_call_def call_def script_peer_def bind_result_def)

lemma xe_ascii: "from_utf8 [97] = Inr [97]" "from_utf8 [98] = Inr [98]" "as_bytes [98] = [98]" "lit ''b'' = [98]"
  "encode_char 98 = [98]"
  by (simp_all add: lit_def) code_simp+

lemmas xe_run = execute_def apply_is_noop_def apply_op_def model_wiring_def wired_def the_module_def find_module_def
  validate_model_def has_errors_def ebind_def elift_def eret_def efail_def emodify_def easks_def eclient_def map_err_with_def
  decode_def check_and_write_def after_write_def reload_module_def reload_or_discard_def start_mounts_def is_mutating_def
  new_record_def emit_def outcome_record_def finish_read_only_def xe_wiring xe_read xe_write

text \<open>C40. An unaudited write. The look ahead of \<^verbatim>\<open>execute\<close> and the apply itself read the target separately. When the look ahead
  answers that nothing would change, the operation is dispatched all the same and answers what the dispatch does; every request it
  sends then is sent, a write included when the file changed between the two reads, and yet no record is handed to the
  audit sink, neither before nor after.\<close>

theorem unaudited_write:
  assumes "permit who op = Inr ()" and "apply_is_noop EE op e = (Inr True, e1)"
    and "dispatch_op EE op (e1\<lparr>en_hashes := hashes_default\<rparr>) = (res, e2)" and "x \<in> set (drop (length (elog e1)) (elog e2))" "changes_state (fst x)"
    and "execute EE op who permit e = (r, e')"
  shows "is_mutating op \<and> r = res \<and> x \<in> set (drop (length (elog e)) (elog e')) \<and> en_audit e' = en_audit e
    \<and> (\<exists>mid. en_trace e' = en_trace e @ mid \<and> unlogged mid)"
proof -
  obtain i model d act c where op: "op = Apply i model d act c" using assms(2) by (cases op) (auto simp: apply_is_noop_def eret_def)
  then have mu: "is_mutating op" by (simp add: is_mutating_def)
  have "\<not> (\<exists>p. res = Inr (OoPlanned p))" using assms(3) by (auto simp: op ebind_def eret_def split: prod.splits sum.splits)
  then have "finish_read_only EE who (op_kind_of op) m res e2 = e2" for m
    by (auto simp: finish_read_only_def split: sum.splits op_outcome.splits)
  then have run: "r = res" "e' = e2" using assms(1,2,3,6) mu by (simp_all add: execute_def Let_def)
  note ahead = asks_noop [OF mu, of EE]
  obtain s1 where s1: "elog e1 = elog e @ s1" by (rule asksD [OF ahead assms(2)])
  obtain seg mid where d: "elog e2 = elog (e1\<lparr>en_hashes := hashes_default\<rparr>) @ seg"
      "en_trace e2 = en_trace (e1\<lparr>en_hashes := hashes_default\<rparr>) @ mid" "unlogged mid"
    by (rule asksD [OF asks_dispatch assms(3)])
  have "en_audit e2 = en_audit e" using asks_audit [OF asks_dispatch assms(3)] asks_audit [OF ahead assms(2)] by simp
  then show ?thesis using mu run s1 d assms(4) noop_trace [OF assms(2)] by auto
qed

definition xe_race :: "response list" where
  "xe_race = [RsTarget (xe_contents [98]), RsTarget (xe_contents [97]), RsWritten (xe_receipt [97] [98])]"

theorem unaudited_write_witness:
  "let run = execute xe_env xe_apply xe_who allow_all_permit (xe_engine xe_race)
   in (RqWriteTarget 0 (Some [97]) [98] False, Inr (RsWritten (xe_receipt [97] [98]))) \<in> set (elog (snd run)) \<and> en_audit (snd run) = []"
proof -
  let ?e = "xe_engine xe_race"
  obtain b e1 where n: "apply_is_noop xe_env xe_apply ?e = (b, e1)" by force
  obtain res e2 where d: "dispatch_op xe_env xe_apply (e1\<lparr>en_hashes := hashes_default\<rparr>) = (res, e2)" by force
  obtain r e' where run: "execute xe_env xe_apply xe_who allow_all_permit ?e = (r, e')" by force
  have b: "b = Inr True" and e1: "e1 = ?e\<lparr>en_client := \<lparr>cl_peer = tl xe_race, cl_tables = Some (hello_ack ex_allow),
      cl_log = [(RqReadTarget 0, Inr (RsTarget (xe_contents [98])))]\<rparr>\<rparr>"
    using n by (auto simp add: xe_run xe_simps xe_engine_def xe_apply_def engine_new_def xe_ascii xe_race_def)
  have "(RqWriteTarget 0 (Some [97]) [98] False, Inr (RsWritten (xe_receipt [97] [98]))) \<in> set (drop (length (elog e1)) (elog e2))"
    using d e1 by (auto simp add: xe_run xe_simps xe_engine_def xe_apply_def engine_new_def xe_ascii xe_race_def)
  from unaudited_write [where permit = allow_all_permit, OF allow_all_permit_def n [unfolded b] d this _ run]
  show ?thesis using run by (auto simp: xe_engine_def engine_new_def dest: in_set_dropD)
qed

lemma xe_mutates:
  "fst (apply_is_noop xe_env xe_apply (xe_engine [RsTarget (xe_contents [97]), RsTarget (xe_contents [97]), RsWritten (xe_receipt [97] [98])])) \<noteq> Inr True"
  by (simp add: xe_run xe_simps xe_engine_def xe_apply_def engine_new_def xe_ascii)

theorem mutation_audited_witness:
  "\<exists>start rec. audited (op_kind_of xe_apply) xe_who RStarted start \<and> audited (op_kind_of xe_apply) xe_who ROk rec
    \<and> en_audit (snd (execute xe_env xe_apply xe_who allow_all_permit
        (xe_engine [RsTarget (xe_contents [97]), RsTarget (xe_contents [97]), RsWritten (xe_receipt [97] [98])]))) = [start, rec]"
proof -
  let ?e = "xe_engine [RsTarget (xe_contents [97]), RsTarget (xe_contents [97]), RsWritten (xe_receipt [97] [98])]"
  obtain r e' where run: "execute xe_env xe_apply xe_who allow_all_permit ?e = (r, e')" by force
  have "\<exists>x. r = Inr x" using run
    by (auto simp add: xe_run xe_simps xe_engine_def xe_apply_def allow_all_permit_def engine_new_def xe_ascii list_sink_def Let_def)
  moreover have "is_mutating xe_apply" by (simp add: xe_apply_def is_mutating_def)
  ultimately show ?thesis
    using mutation_audited [where permit = allow_all_permit, OF allow_all_permit_def _ xe_mutates run] run
    by (auto simp: xe_simps list_sink_def xe_engine_def engine_new_def split: sum.splits)
qed

end
