(* ===== verification/Peer_Monitor.thy ===== *)
theory Peer_Monitor
  imports Engine_Write Commit_Refinement
begin

text \<open>
  The monitor as the peer of the client. One exchange is the serving loop of the monitor run over a series of turns
  without a request and one turn with it; the schedule \<open>sched n\<close> says how many there are before the \<open>n\<close>-th request
  and when each turn takes place, and which of them fail. When the loop ends, the monitor rolls back and the channel is closed.
\<close>

section \<open>The peer\<close>

record 'h mon_peer =
  mp_monitor :: monitor
  mp_world :: "'h world"
  mp_turns :: nat
  mp_running :: bool

definition idle_turn :: "chan_event \<Rightarrow> chan_event" where
  "idle_turn ev = ev\<lparr>ev_recv := Inr None\<rparr>"

definition request_turn :: "request \<Rightarrow> chan_event \<Rightarrow> chan_event" where
  "request_turn req ev = ev\<lparr>ev_recv := Inr (Some req)\<rparr>"

definition turns_for :: "(nat \<Rightarrow> chan_event list \<times> chan_event) \<Rightarrow> nat \<Rightarrow> request \<Rightarrow> chan_event list" where
  "turns_for sched n req = map idle_turn (fst (sched n)) @ [request_turn req (snd (sched n))]"

definition monitor_peer :: "('h, 'j, 'v) menv \<Rightarrow> nat \<Rightarrow> (nat \<Rightarrow> chan_event list \<times> chan_event) \<Rightarrow> 'h mon_peer peer" where
  "monitor_peer E idle sched req p =
     (if \<not> mp_running p then (Inl CeClosed, p)
      else case serve_locked E True idle (mp_monitor p) (turns_for sched (mp_turns p) req) (mp_world p) of
             (None, w) \<Rightarrow> (Inl CeClosed, p\<lparr>mp_world := w, mp_running := False\<rparr>)
           | (Some (stop, M), w) \<Rightarrow>
               (if w_sent w = w_sent (mp_world p) then Inl CeClosed else Inr (last (w_sent w)),
                \<lparr>mp_monitor = M, mp_world = w, mp_turns = Suc (mp_turns p), mp_running = (stop = None)\<rparr>))"

lemma peer_running: "history (monitor_peer E idle sched) p seg p' \<Longrightarrow> mp_running p' \<Longrightarrow> mp_running p"
proof (induction seg arbitrary: p)
  case (Cons x seg)
  obtain rq a where x: "x = (rq, a)" by force
  have "mp_running (snd (monitor_peer E idle sched rq p))" using Cons x by simp
  then show ?case by (auto simp: monitor_peer_def split: if_splits)
qed simp

section \<open>Turns of the loop, one at a time\<close>

lemma loop_idle:
  assumes "serve_loop E True idle timeout M (idle_turn ev # evs) w = (Some (None, M'), w')"
  obtains M2 w2 where "enforce_deadline E M (w\<lparr>w_instant := max (ev_end ev) (w_instant w)\<rparr>) = (Some (Inr (), M2), w2)"
    "serve_loop E True idle (if mo_pending M \<noteq> None then PENDING_POLL else idle) M2 evs w2 = (Some (None, M'), w')"
proof -
  let ?want = "if mo_pending M \<noteq> None then PENDING_POLL else idle"
  have "mbind (clock_to (ev_end ev)) (\<lambda>_. mbind (enforce_deadline E M) (\<lambda>(r, M2).
      case r of Inl err \<Rightarrow> mret (Some (Inl err), M2) | Inr _ \<Rightarrow> serve_loop E True idle ?want M2 evs)) w = (Some (None, M'), w')"
    using assms by (auto simp: idle_turn_def Let_def mret_Some split: option.splits if_splits)
  then obtain r M2 w2 where d: "enforce_deadline E M (w\<lparr>w_instant := max (ev_end ev) (w_instant w)\<rparr>) = (Some (r, M2), w2)"
    "(case r of Inl err \<Rightarrow> mret (Some (Inl err), M2) | Inr _ \<Rightarrow> serve_loop E True idle ?want M2 evs) w2 = (Some (None, M'), w')"
    by (auto simp: run_simps clock_to_def)
  obtain u where "r = Inr u" using d(2) by (cases r) (auto simp: mret_Some)
  then show thesis using that d by simp
qed

lemma loop_request:
  assumes "serve_loop E True idle timeout M [ev] w = (Some (None, M'), w')" and "ev_recv ev = Inr (Some req)"
  obtains resp M1 w1 where
    "serve_request E True M req (w\<lparr>w_instant := max (ev_at ev) (w_instant w)\<rparr>) = (Some (Inr resp, M1), w1)"
    "enforce_deadline E M1 (w1\<lparr>w_sent := w_sent w1 @ [resp], w_instant := max (ev_end ev) (w_instant w1)\<rparr>) = (Some (Inr (), M'), w')"
proof -
  let ?w = "w\<lparr>w_instant := max (ev_at ev) (w_instant w)\<rparr>"
  let ?want = "if mo_pending M \<noteq> None then PENDING_POLL else idle"
  let ?next = "\<lambda>M1. mbind (clock_to (ev_end ev)) (\<lambda>_. mbind (enforce_deadline E M1) (\<lambda>(r, M2).
      case r of Inl err \<Rightarrow> mret (Some (Inl err), M2) | Inr _ \<Rightarrow> serve_loop E True idle ?want M2 []))"
  let ?answer = "\<lambda>M1 resp fault. case fault of
        Some e \<Rightarrow> mret (Some (finish_send_error e), M1)
      | None \<Rightarrow> if req = RqShutdown then mret (Some (Inr ExitShutdown), M1)
          else if fatal_response resp then mret (Some (Inr ExitProtocolMismatch), M1) else ?next M1"
  have "mbind (serve_request E True M req) (\<lambda>(r, M1). case r of
       Inl err \<Rightarrow> mret (Some (Inl err), M1)
     | Inr resp \<Rightarrow> mbind (chan_send resp (ev_send ev)) (?answer M1 resp)) ?w = (Some (None, M'), w')"
    using assms by (auto simp: Let_def mbind_Some clock_to_def mret_Some split: option.splits if_splits)
  then obtain x M1 w1 where x: "serve_request E True M req ?w = (Some (x, M1), w1)"
    "(case x of Inl err \<Rightarrow> mret (Some (Inl err), M1)
      | Inr resp \<Rightarrow> mbind (chan_send resp (ev_send ev)) (?answer M1 resp)) w1 = (Some (None, M'), w')"
    unfolding mbind_Some [of "serve_request E True M req"] split_paired_Ex prod.case by blast
  obtain resp where resp: "x = Inr resp" using x(2) by (cases x) (simp_all add: mret_Some)
  obtain fault w2 where f: "chan_send resp (ev_send ev) w1 = (Some fault, w2)" "?answer M1 resp fault w2 = (Some (None, M'), w')"
    using x(2) unfolding resp sum.case mbind_Some [of "chan_send resp (ev_send ev)"] by blast
  have n: "w2 = w1\<lparr>w_sent := w_sent w1 @ [resp]\<rparr>" "?next M1 w2 = (Some (None, M'), w')"
    using f by (cases fault; auto simp: mret_Some chan_send_def split: if_splits option.splits)+
  then obtain r M2 w3 where d: "enforce_deadline E M1 (w2\<lparr>w_instant := max (ev_end ev) (w_instant w2)\<rparr>) = (Some (r, M2), w3)"
    "(case r of Inl err \<Rightarrow> mret (Some (Inl err), M2) | Inr _ \<Rightarrow> serve_loop E True idle ?want M2 []) w3 = (Some (None, M'), w')"
    by (auto simp: run_simps clock_to_def)
  have "r = Inr () \<and> M2 = M' \<and> w3 = w'" using d(2) by (cases r) (auto simp: mret_Some)
  then show thesis using that [of resp M1 w1] x(1) resp d(1) n(1) by simp
qed

lemma deadline_outcome:
  assumes "enforce_deadline E M w = (Some (Inr (), M'), w')"
  shows "w_instant w' = w_instant w" "w_sent w' = w_sent w"
    "M' = (case mo_pending M of Some q \<Rightarrow> if w_instant w < pc_deadline q then M else forget_pending M | None \<Rightarrow> M)"
proof -
  show "w_instant w' = w_instant w" "w_sent w' = w_sent w" using deadline_run [OF assms] by auto
  show "M' = (case mo_pending M of Some q \<Rightarrow> if w_instant w < pc_deadline q then M else forget_pending M | None \<Rightarrow> M)"
    using assms by (auto simp: enforce_deadline_def wreads_def run_simps split: option.splits if_splits)
qed

text \<open>The commit \<open>q\<close> is pending in \<open>M\<close>, or it was and its deadline has passed at time \<open>t\<close>.\<close>

definition armed_or_due :: "pending_commit \<Rightarrow> monitor \<Rightarrow> nat \<Rightarrow> bool" where
  "armed_or_due q M t \<longleftrightarrow> mo_pending M = Some q \<or> mo_pending M = None \<and> pc_deadline q \<le> t"

text \<open>What turns without a request leave of the monitor.\<close>

definition rested :: "monitor \<Rightarrow> nat \<Rightarrow> monitor \<Rightarrow> nat \<Rightarrow> bool" where
  "rested M t M' t' \<longleftrightarrow> t \<le> t' \<and> mo_greeted M' = mo_greeted M \<and> mo_allow M' = mo_allow M
     \<and> (M' = M \<or> M' = forget_pending M \<and> (\<exists>q. mo_pending M = Some q \<and> pc_deadline q \<le> t'))"

lemma forget_allow [simp]: "mo_allow (forget_pending M) = mo_allow M" "forget_pending (forget_pending M) = forget_pending M"
  by (simp_all add: forget_pending_def)

lemma rested_refl: "rested M t M t" and rested_later: "rested M t M' t' \<Longrightarrow> t' \<le> t'' \<Longrightarrow> rested M t M' t''"
  by (auto simp: rested_def intro: order_trans)

lemma rested_trans: "rested M t M1 t1 \<Longrightarrow> rested M1 t1 M2 t2 \<Longrightarrow> rested M t M2 t2"
  by (auto simp: rested_def intro: order_trans)

lemma rested_deadline:
  assumes "enforce_deadline E M w = (Some (Inr (), M'), w')" and "t \<le> w_instant w"
  shows "rested M t M' (w_instant w')"
  using deadline_outcome [OF assms(1)] assms(2) by (auto simp: rested_def split: option.splits)

lemma rested_armed: "rested M t M' t' \<Longrightarrow> armed_or_due q M t \<Longrightarrow> armed_or_due q M' t'"
  by (auto simp: rested_def armed_or_due_def)

lemma rested_none: "rested M t M' t' \<Longrightarrow> mo_pending M = None \<Longrightarrow> M' = M"
  by (auto simp: rested_def)

lemma loop_rests:
  assumes "serve_loop E True idle timeout M (map idle_turn evs @ [request_turn req ev]) w = (Some (None, M'), w')"
  obtains M0 w0 timeout' where "rested M (w_instant w) M0 (w_instant w0)" "w_sent w0 = w_sent w"
    "serve_loop E True idle timeout' M0 [request_turn req ev] w0 = (Some (None, M'), w')"
  using assms
proof (induction evs arbitrary: timeout M w thesis)
  case Nil
  show ?case by (rule Nil.prems(1) [OF rested_refl refl]) (use Nil.prems(2) in simp)
next
  case (Cons e evs)
  have "serve_loop E True idle timeout M (idle_turn e # (map idle_turn evs @ [request_turn req ev])) w = (Some (None, M'), w')"
    using Cons.prems(2) by simp
  then obtain M2 w2 where d: "enforce_deadline E M (w\<lparr>w_instant := max (ev_end e) (w_instant w)\<rparr>) = (Some (Inr (), M2), w2)"
    "serve_loop E True idle (if mo_pending M \<noteq> None then PENDING_POLL else idle) M2 (map idle_turn evs @ [request_turn req ev]) w2 = (Some (None, M'), w')"
    by (rule loop_idle)
  have "rested M (w_instant w) M2 (w_instant w2)" by (rule rested_deadline [OF d(1)]) simp
  moreover have "w_sent w2 = w_sent w" using deadline_outcome(2) [OF d(1)] by simp
  moreover obtain M0 w0 timeout' where "rested M2 (w_instant w2) M0 (w_instant w0)" "w_sent w0 = w_sent w2"
    "serve_loop E True idle timeout' M0 [request_turn req ev] w0 = (Some (None, M'), w')"
    by (rule Cons.IH [OF _ d(2)])
  ultimately show ?case using Cons.prems(1) rested_trans by metis
qed

text \<open>One exchange with a monitor that is still running afterwards.\<close>

lemma peer_exchange:
  assumes "monitor_peer E idle sched req p = (a, p')" and "mp_running p'" and "mo_greeted (mp_monitor p)"
  obtains resp M0 w0 M1 w1 where "a = Inr resp" "rested (mp_monitor p) (w_instant (mp_world p)) M0 (w_instant w0)"
    "handle E M0 req w0 = (Some (Inr resp, M1), w1)" "w_instant w1 = w_instant w0"
    "rested M1 (w_instant w1) (mp_monitor p') (w_instant (mp_world p'))"
proof -
  have run: "mp_running p" using assms(1,2) by (auto simp: monitor_peer_def split: if_splits)
  obtain o1 M w where l: "serve_loop E True idle idle (mp_monitor p) (turns_for sched (mp_turns p) req) (mp_world p) = (Some (None, M), w)"
    and p': "p' = \<lparr>mp_monitor = M, mp_world = w, mp_turns = Suc (mp_turns p), mp_running = True\<rparr>"
    and a: "a = (if w_sent w = w_sent (mp_world p) then Inl CeClosed else Inr (last (w_sent w)))"
  proof -
    obtain stop M w where s: "serve_locked E True idle (mp_monitor p) (turns_for sched (mp_turns p) req) (mp_world p) = (Some (stop, M), w)"
      "stop = None" "p' = \<lparr>mp_monitor = M, mp_world = w, mp_turns = Suc (mp_turns p), mp_running = True\<rparr>"
      "a = (if w_sent w = w_sent (mp_world p) then Inl CeClosed else Inr (last (w_sent w)))"
      using assms(1,2) run by (auto simp: monitor_peer_def split: prod.splits option.splits)
    have "serve_loop E True idle idle (mp_monitor p) (turns_for sched (mp_turns p) req) (mp_world p) = (Some (None, M), w)"
      using s(1,2) by (auto simp: serve_locked_def run_simps split: option.splits)
    then show thesis using that s by blast
  qed
  obtain M0 w0 timeout' where r: "rested (mp_monitor p) (w_instant (mp_world p)) M0 (w_instant w0)" "w_sent w0 = w_sent (mp_world p)"
    "serve_loop E True idle timeout' M0 [request_turn req (snd (sched (mp_turns p)))] w0 = (Some (None, M), w)"
    by (rule loop_rests [OF l [unfolded turns_for_def]])
  obtain resp M1 w1 where q: "serve_request E True M0 req (w0\<lparr>w_instant := max (ev_at (snd (sched (mp_turns p)))) (w_instant w0)\<rparr>) = (Some (Inr resp, M1), w1)"
    "enforce_deadline E M1 (w1\<lparr>w_sent := w_sent w1 @ [resp], w_instant := max (ev_end (snd (sched (mp_turns p)))) (w_instant w1)\<rparr>) = (Some (Inr (), M), w)"
    by (rule loop_request [OF r(3), of req]) (simp_all add: request_turn_def)
  let ?w0 = "w0\<lparr>w_instant := max (ev_at (snd (sched (mp_turns p)))) (w_instant w0)\<rparr>"
  have g: "mo_greeted M0" using r(1) assms(3) by (simp add: rested_def)
  have i: "w_instant w1 = w_instant ?w0" "w_sent w1 = w_sent w0" using serve_request_run [OF g q(1)] by auto
  have h: "handle E M0 req ?w0 = (Some (Inr resp, M1), w1)" using q(1) g by (simp add: serve_request_def dispatch_def)
  have "w_sent w = w_sent (mp_world p) @ [resp]" using deadline_outcome(2) [OF q(2)] i(2) r(2) by simp
  then have "a = Inr resp" using a by simp
  moreover have "rested (mp_monitor p) (w_instant (mp_world p)) M0 (w_instant ?w0)" using r(1) by (rule rested_later) simp
  moreover have "rested M1 (w_instant w1) (mp_monitor p') (w_instant (mp_world p'))"
    using rested_deadline [OF q(2), of "w_instant w1"] p' by simp
  ultimately show thesis using that h i(1) by blast
qed

section \<open>Series of exchanges\<close>

definition spectator :: "request \<Rightarrow> bool" where
  "spectator rq =
     (case rq of
        RqReadTarget _ \<Rightarrow> True | RqRunCheck _ _ \<Rightarrow> True | RqService _ _ \<Rightarrow> True | RqListBackups _ \<Rightarrow> True
      | RqRestore _ _ \<Rightarrow> True | RqPendingCommit \<Rightarrow> True | RqMount _ \<Rightarrow> True | RqReloadUnitFiles _ \<Rightarrow> True | _ \<Rightarrow> False)"

lemma handle_spectator: "spectator req \<Longrightarrow> handle E M req w = (Some (r, M'), w') \<Longrightarrow> M' = M"
  by (cases req) (auto simp: spectator_def answer_run)

lemma record_write_allow [simp]: "mo_allow (record_write M i entry out journal) = mo_allow M"
  by (simp add: record_write_def split: option.splits)

lemma judge_all_refuses: "judge_all E M b cs w = (Some (Inl r), w') \<Longrightarrow> \<exists>err. r = RsError err"
proof (induction cs arbitrary: w)
  case Nil
  then show ?case by (simp add: mret_Some)
next
  case (Cons c cs)
  obtain x w1 where "judge_candidate E M (ce_id c) (ce_check c) b w = (Some x, w1)"
    using Cons.prems by (auto simp: mbind_Some)
  then show ?case using Cons by (cases x) (auto simp: run_simps split: if_splits)
qed

lemma gate_refuses: "gate_content E M m previous b = Inl r \<Longrightarrow> \<exists>err. r = RsError err"
  by (auto simp: gate_content_def unknown_def validate_candidate_def bind_result_def split: option.splits if_splits sum.splits)

lemma revalidate_refuses: "revalidate E M m target previous b w = (Some (Inl r), w') \<Longrightarrow> \<exists>err. r = RsError err"
  by (auto simp: revalidate_def mret_Some split: sum.splits if_splits dest: gate_refuses judge_all_refuses)

text \<open>The answer to a write that happened, and what the monitor remembers of it.\<close>

lemma write_target_answer:
  assumes "write_target E M i expected b journal w = (Some (r, M'), w')"
  shows "(M' = M \<and> (\<exists>err. r = RsError err)) \<or> (\<exists>entry out. al_target (mo_allow M) i = Some entry \<and> M' = record_write M i entry out journal
     \<and> r = RsWritten \<lparr>wr_target = i, wr_prev_digest = wo_prev_digest out, wr_new_digest = wo_new_digest out, wr_created = wo_created out,
          wr_backed_up = (wo_backup out \<noteq> None), wr_owner_preserved = wo_owner_preserved out\<rparr>)"
proof (cases "al_target (mo_allow M) i")
  case None
  then show ?thesis using assms by (simp add: write_target_def mret_Some unknown_def)
next
  case (Some entry)
  obtain rd w1 where rd: "os_call (read_with_digest (me_fs E) (entry_key entry)) w = (Some rd, w1)"
    using assms Some by (auto simp: write_target_def run_simps)
  show ?thesis
  proof (cases "previous_contents rd")
    case (Inl err)
    then show ?thesis using assms Some rd by (simp add: write_target_def run_simps)
  next
    case prev: (Inr previous)
    obtain checked w2 where c: "revalidate E M (te_module entry) (te_path entry) previous b w1 = (Some checked, w2)"
      using assms Some rd prev by (auto simp: write_target_def run_simps)
    show ?thesis
    proof (cases checked)
      case (Inl refusal)
      have "\<exists>err. refusal = RsError err" using c Inl revalidate_refuses by blast
      then show ?thesis using assms Some rd prev c Inl by (simp add: write_target_def run_simps)
    next
      case (Inr u)
      obtain written w3 where wr: "os_call (write_atomic (me_fs E) (target_request M entry expected b)) w2 = (Some written, w3)"
        using assms Some rd prev c Inr by (auto simp: write_target_def run_simps)
      show ?thesis using assms Some rd prev c Inr wr by (cases written) (auto simp: write_target_def run_simps)
    qed
  qed
qed

lemma handle_allow:
  assumes "handle E M req w = (Some (r, M'), w')"
  shows "mo_allow M' = mo_allow M"
proof (cases req)
  case (RqWriteTarget i expected b journal)
  then show ?thesis using assms by (auto simp: run_simps dest: write_target_answer)
next
  case (RqStartConfirmTimer c t svc)
  then have "start_confirm_timer E M c t svc w = (Some (r, M'), w')" using assms by simp
  from start_outcome [OF this] show ?thesis by (auto split: option.splits)
next
  case (RqConfirmCommit c)
  then show ?thesis using assms
    by (auto simp: confirm_commit_def enforce_deadline_def run_simps wreads_def split: option.splits if_splits)
next
  case (RqRollbackCommit c)
  then show ?thesis using assms by (auto simp: rollback_commit_def run_simps split: option.splits if_splits)
qed (use assms in \<open>auto simp: answer_run mret_Some\<close>)

lemma peer_frame:
  assumes "monitor_peer E idle sched req p = (a, p')" and "mp_running p'" and "mo_greeted (mp_monitor p)"
  shows "mo_greeted (mp_monitor p') \<and> mo_allow (mp_monitor p') = mo_allow (mp_monitor p)
    \<and> w_instant (mp_world p) \<le> w_instant (mp_world p')"
proof -
  obtain resp M0 w0 M1 w1 where x: "a = Inr resp" "rested (mp_monitor p) (w_instant (mp_world p)) M0 (w_instant w0)"
    "handle E M0 req w0 = (Some (Inr resp, M1), w1)" "w_instant w1 = w_instant w0"
    "rested M1 (w_instant w1) (mp_monitor p') (w_instant (mp_world p'))" by (rule peer_exchange [OF assms])
  then show ?thesis using handle_run [OF x(3)] handle_allow [OF x(3)] assms(3) by (auto simp: rested_def)
qed

lemma history_frame:
  assumes "history (monitor_peer E idle sched) p seg p'" and "mp_running p'" and "mo_greeted (mp_monitor p)"
  shows "mo_greeted (mp_monitor p') \<and> mo_allow (mp_monitor p') = mo_allow (mp_monitor p)
    \<and> w_instant (mp_world p) \<le> w_instant (mp_world p')"
  using assms
proof (induction seg arbitrary: p)
  case (Cons x seg)
  obtain rq a where x: "x = (rq, a)" by force
  let ?p = "snd (monitor_peer E idle sched rq p)"
  have h: "history (monitor_peer E idle sched) ?p seg p'" using Cons.prems(1) x by simp
  have f: "mo_greeted (mp_monitor ?p) \<and> mo_allow (mp_monitor ?p) = mo_allow (mp_monitor p) \<and> w_instant (mp_world p) \<le> w_instant (mp_world ?p)"
    using peer_frame [OF prod.collapse [symmetric] peer_running [OF h Cons.prems(2)] Cons.prems(3)] .
  then show ?case using Cons.IH [OF h Cons.prems(2)] by auto
qed simp

lemma history_armed:
  assumes "history (monitor_peer E idle sched) p seg p'" and "mp_running p'" and "mo_greeted (mp_monitor p)"
    and "list_all (\<lambda>x. spectator (fst x)) seg" and "armed_or_due q (mp_monitor p) (w_instant (mp_world p))"
  shows "armed_or_due q (mp_monitor p') (w_instant (mp_world p'))"
  using assms
proof (induction seg arbitrary: p)
  case (Cons x seg)
  obtain rq a where x: "x = (rq, a)" by force
  let ?p = "snd (monitor_peer E idle sched rq p)"
  have h: "history (monitor_peer E idle sched) ?p seg p'" using Cons.prems(1) x by simp
  have run: "mp_running ?p" by (rule peer_running [OF h Cons.prems(2)])
  obtain resp M0 w0 M1 w1 where s: "rested (mp_monitor p) (w_instant (mp_world p)) M0 (w_instant w0)"
    "handle E M0 rq w0 = (Some (Inr resp, M1), w1)" "w_instant w1 = w_instant w0"
    "rested M1 (w_instant w1) (mp_monitor ?p) (w_instant (mp_world ?p))"
    by (rule peer_exchange [OF prod.collapse [symmetric] run Cons.prems(3)])
  have "M1 = M0" using handle_spectator [OF _ s(2)] Cons.prems(4) x by simp
  then have "armed_or_due q (mp_monitor ?p) (w_instant (mp_world ?p))"
    using rested_armed [OF s(4)] rested_armed [OF s(1) Cons.prems(5)] s(3) by simp
  then show ?case using Cons.IH [OF h Cons.prems(2)] peer_frame [OF prod.collapse [symmetric] run Cons.prems(3)] Cons.prems(4) by simp
qed simp

text \<open>The three exchanges of a write under a confirmation: the monitor ends with a commit for exactly that write.\<close>

lemma history_commit:
  assumes "history (monitor_peer E idle sched) p [(RqPendingCommit, Inr (RsPending None)), (RqWriteTarget t d b True, Inr (RsWritten receipt)),
      (RqStartConfirmTimer c n svc, Inr (RsConfirmTimerStarted c' s k))] p'"
    and "mp_running p'" and "mo_greeted (mp_monitor p)" and "wr_backed_up receipt"
  shows "\<exists>entry backup deadline. al_target (mo_allow (mp_monitor p)) t = Some entry \<and> s = clamp_timeout n \<and> k = 1
    \<and> w_instant (mp_world p) + s * 1000 \<le> deadline
    \<and> armed_or_due \<lparr>pc_commit = c, pc_deadline = deadline,
          pc_entries = [\<lparr>re_target = t, re_path = te_path entry, re_backup = backup, re_new_digest = Some (wr_new_digest receipt)\<rparr>],
          pc_service = svc\<rparr> (mp_monitor p') (w_instant (mp_world p'))"
proof -
  let ?ask = "monitor_peer E idle sched"
  define p1 where "p1 = snd (?ask RqPendingCommit p)"
  define p2 where "p2 = snd (?ask (RqWriteTarget t d b True) p1)"
  have a: "?ask RqPendingCommit p = (Inr (RsPending None), p1)" "?ask (RqWriteTarget t d b True) p1 = (Inr (RsWritten receipt), p2)"
    "?ask (RqStartConfirmTimer c n svc) p2 = (Inr (RsConfirmTimerStarted c' s k), p')"
    using assms(1) by (auto simp: p1_def p2_def prod_eq_iff)
  have run: "mp_running p2" "mp_running p1"
    using peer_running [of E idle sched p2 "[(RqStartConfirmTimer c n svc, Inr (RsConfirmTimerStarted c' s k))]" p']
      peer_running [of E idle sched p1 "[(RqWriteTarget t d b True, Inr (RsWritten receipt))]" p2] a assms(2) by auto
  note f1 = peer_frame [OF a(1) run(2) assms(3)]
  then have g1: "mo_greeted (mp_monitor p1)" by simp
  note f2 = peer_frame [OF a(2) run(1) g1]
  then have g2: "mo_greeted (mp_monitor p2)" by simp
  obtain M0 w0 M1 w1 where s1: "handle E M0 RqPendingCommit w0 = (Some (Inr (RsPending None), M1), w1)"
    "rested M1 (w_instant w1) (mp_monitor p1) (w_instant (mp_world p1))"
    using peer_exchange [OF a(1) run(2) assms(3)] by (metis sum.inject(2))
  have none: "mo_pending (mp_monitor p1) = None"
    using s1 rested_none [OF s1(2)] by (auto simp: answer_run mret_Some)
  obtain M0 w0 M1 w1 where s2: "rested (mp_monitor p1) (w_instant (mp_world p1)) M0 (w_instant w0)"
    "handle E M0 (RqWriteTarget t d b True) w0 = (Some (Inr (RsWritten receipt), M1), w1)"
    "rested M1 (w_instant w1) (mp_monitor p2) (w_instant (mp_world p2))"
    using peer_exchange [OF a(2) run(1) g1] by (metis sum.inject(2))
  have M0: "M0 = mp_monitor p1" using rested_none [OF s2(1) none] .
  have "write_target E M0 t d b True w0 = (Some (RsWritten receipt, M1), w1)" using s2(2) by (auto simp: run_simps)
  from write_target_answer [OF this] obtain entry out where e: "al_target (mo_allow M0) t = Some entry"
    "M1 = record_write M0 t entry out True" "receipt = \<lparr>wr_target = t, wr_prev_digest = wo_prev_digest out, wr_new_digest = wo_new_digest out,
       wr_created = wo_created out, wr_backed_up = (wo_backup out \<noteq> None), wr_owner_preserved = wo_owner_preserved out\<rparr>" by auto
  obtain backup where bk: "wo_backup out = Some backup" using assms(4) e(3) by auto
  let ?entry = "\<lparr>re_target = t, re_path = te_path entry, re_backup = backup, re_new_digest = Some (wr_new_digest receipt)\<rparr>"
  have M1: "mo_pending M1 = None" "mo_journal M1 = [?entry]" using e bk none M0 by (simp_all add: record_write_def)
  have p2: "mp_monitor p2 = M1" using rested_none [OF s2(3) M1(1)] .
  obtain M0' w0' M1' w1' where s3: "rested (mp_monitor p2) (w_instant (mp_world p2)) M0' (w_instant w0')"
    "handle E M0' (RqStartConfirmTimer c n svc) w0' = (Some (Inr (RsConfirmTimerStarted c' s k), M1'), w1')"
    "w_instant w1' = w_instant w0'" "rested M1' (w_instant w1') (mp_monitor p') (w_instant (mp_world p'))"
    using peer_exchange [OF a(3) assms(2) g2] by (metis sum.inject(2))
  have "M0' = M1" using rested_none [OF s3(1)] p2 M1(1) by simp
  then have st: "start_confirm_timer E M1 c n svc w0' = (Some (Inr (RsConfirmTimerStarted c' s k), M1'), w1')" using s3(2) by simp
  let ?q = "\<lparr>pc_commit = c, pc_deadline = w_instant w0' + clamp_timeout n * 1000, pc_entries = [?entry], pc_service = svc\<rparr>"
  have q: "s = clamp_timeout n" "k = 1" "mo_pending M1' = Some ?q"
    using start_outcome [OF st] M1 by (auto simp: u16_max_def)
  have "armed_or_due ?q (mp_monitor p') (w_instant (mp_world p'))" by (rule rested_armed [OF s3(4)]) (simp add: armed_or_due_def q)
  moreover have "w_instant (mp_world p) \<le> w_instant w0'" using f1 f2 s3(1) by (simp add: rested_def)
  ultimately show ?thesis using e(1) M0 f1 q(1,2)
    by (intro exI [of _ entry] exI [of _ backup] exI [of _ "w_instant w0' + clamp_timeout n * 1000"]) simp
qed

end
