(* ===== verification/Engine_Monitor.thy ===== *)
theory Engine_Monitor
  imports Engine_Write Write_Safety
begin

text \<open>
  The engine and the monitor together: the engine picks a target from the tables of the handshake exactly as the monitor
  picks one from its allow-list.
\<close>

section \<open>The tables of the handshake\<close>

lemma find_of_map: "find P (map f xs) = map_option f (find (\<lambda>x. P (f x)) xs)"
  by (induction xs) simp_all

definition info_of :: "target_entry \<Rightarrow> target_info" where
  "info_of e = \<lparr>ti_id = te_id e, ti_module = te_module e, ti_path = te_path e, ti_kind = te_kind e\<rparr>"

lemma info_simps [simp]: "ti_id (info_of e) = te_id e" "ti_module (info_of e) = te_module e" "ti_path (info_of e) = te_path e"
  "ti_kind (info_of e) = te_kind e"
  by (simp_all add: info_of_def)

lemma find_nth:
  assumes "i < length xs" and "P (xs ! i)" and "\<And>j. j < i \<Longrightarrow> \<not> P (xs ! j)"
  shows "find P xs = Some (xs ! i)"
  unfolding find_Some_iff using assms by blast

lemma module_id_agrees:
  assumes "allow_ok al" and "cl_tables c = Some (hello_ack al)" and "m < length (al_modules al)"
  shows "client_module_id c (md_id (al_modules al ! m)) = Some m"
proof -
  let ?row = "\<lambda>(i, d). \<lparr>mi_id = narrow_u16_saturating i, mi_name = md_id d, mi_commit_confirm = md_commit_confirm d\<rparr>"
  let ?rows = "map ?row (enumerate 0 (al_modules al))"
  have n: "?rows ! i = ?row (i, al_modules al ! i)" if "i < length (al_modules al)" for i
    using that by (simp add: nth_enumerate_eq)
  have uniq: "md_id (al_modules al ! j) \<noteq> md_id (al_modules al ! m)" if "j < m" for j
  proof
    assume "md_id (al_modules al ! j) = md_id (al_modules al ! m)"
    then have "map_of (al_by_name al) (md_id (al_modules al ! m)) = Some j" "map_of (al_by_name al) (md_id (al_modules al ! m)) = Some m"
      using assms(1,3) that unfolding allow_ok_def tables_ok_def by auto
    then show False using that by simp
  qed
  have "find (\<lambda>x. mi_name x = md_id (al_modules al ! m)) ?rows = Some (?rows ! m)"
    by (rule find_nth) (use assms(3) uniq n in auto)
  then show ?thesis using assms n [of m] by (simp add: client_module_id_def hello_ack_def narrow_u16_saturating_def allow_ok_def)
qed

lemma choose_agrees:
  assumes "al_module al m = Some d"
  shows "choose_target d profile exists (map info_of (filter (\<lambda>e. te_kind e = PkFile) (targets_of al m))) None
    = map_option info_of (primary_target al m profile exists)"
  using assms
  by (simp add: choose_target_def primary_target_def Let_def find_of_map split: option.splits list.splits)

lemma primary_target_in:
  assumes "primary_target al m profile exists = Some e"
  shows "e \<in> set (al_targets al) \<and> te_module e = m"
proof -
  have pick: "x \<in> set es" if "(case (case u of Some t \<Rightarrow> find (P t) es | None \<Rightarrow> None) of Some x \<Rightarrow> Some x | None \<Rightarrow> (case es of x # _ \<Rightarrow> Some x | [] \<Rightarrow> None)) = Some x"
    for u :: "target_spec option" and P and es :: "target_entry list" and x
    using that by (auto split: option.splits list.splits dest: find_in_set)
  obtain d where "al_module al m = Some d" using assms by (auto simp: primary_target_def split: option.splits)
  then have "e \<in> set (filter (\<lambda>e. te_kind e = PkFile) (targets_of al m))"
    using assms unfolding primary_target_def Let_def by (intro pick) simp
  then show ?thesis by (auto simp: targets_of_def)
qed

lemma owned_id:
  assumes "allow_ok al" and "e \<in> set (al_targets al)"
  shows "te_id e \<in> owned (al_targets al) (te_module e) keep \<longleftrightarrow> keep (te_path e)"
proof -
  have id: "al_target al (te_id x) = Some x" if "x \<in> set (al_targets al)" for x
    using assms(1) that by (auto simp: allow_ok_def tables_ok_def rows_def target_row_def in_set_conv_nth al_target_def get_def)
  then have "x = e" if "x \<in> set (al_targets al)" "te_id x = te_id e" for x using that assms(2) by (metis option.inject)
  then show ?thesis using assms(2) by (auto simp: owned_def)
qed

lemma served_agrees:
  assumes "allow_ok al" and "e \<in> set (al_targets al)"
  shows "k \<in> set (al_checks al) \<Longrightarrow> ce_module k = te_module e \<Longrightarrow> te_id e \<in> set (ce_targets k) \<longleftrightarrow> judges (ce_check k) (te_path e)"
    and "b \<in> set (al_bindings al) \<Longrightarrow> be_module b = te_module e \<Longrightarrow> te_id e \<in> set (be_targets b) \<longleftrightarrow> serves (be_binding b) (te_path e)"
proof -
  have c: "rows (check_row (al_modules al) (al_targets al) (length (al_modules al))) (al_checks al)"
    and b: "rows (binding_row (al_modules al) (al_targets al) (length (al_modules al))) (al_bindings al)"
    using assms(1) by (simp_all add: allow_ok_def tables_ok_def)
  show "te_id e \<in> set (ce_targets k) \<longleftrightarrow> judges (ce_check k) (te_path e)" if "k \<in> set (al_checks al)" "ce_module k = te_module e"
    using rows_in_set [OF c that(1)] that(2) owned_id [OF assms] by (auto simp: check_row_def)
  show "te_id e \<in> set (be_targets b) \<longleftrightarrow> serves (be_binding b) (te_path e)" if "b \<in> set (al_bindings al)" "be_module b = te_module e"
    using rows_in_set [OF b that(1)] that(2) owned_id [OF assms] by (auto simp: binding_row_def)
qed

lemma find_cong_set: "(\<And>x. x \<in> set xs \<Longrightarrow> P x = Q x) \<Longrightarrow> find P xs = find Q xs"
  by (induction xs) auto

text \<open>C13. The engine and the monitor choose the same target. With the tables the monitor handed out in the handshake, the
  engine wires a module to the very row the monitor's own choice of a primary target gives, with the validators that judge
  that path and the first service binding that serves it, in the order of the allow-list; when the monitor has no file for
  the module, the engine says so.\<close>

theorem engine_wires_as_monitor:
  assumes "from_modules ms cfg = Inr al" and "cl_tables c = Some (hello_ack al)" and "m < length ms"
  shows "wiring c (ms ! m) profile exists None =
    (case primary_target al m profile exists of
       None \<Rightarrow> Inl (OeNoTarget (md_id (ms ! m)))
     | Some e \<Rightarrow>
         Inr \<lparr>wi_target = te_id e, wi_path = te_path e,
           wi_checks = map (\<lambda>k. (ce_id k, ec_program (ce_check k))) (filter (\<lambda>k. judges (ce_check k) (te_path e)) (checks_of al m)),
           wi_binding = map_option (\<lambda>b. (be_id b, \<lparr>af_unit = preferred_unit (be_binding b) (cf_init cfg),
               af_actions = filter_map command (map wire_of_core (sb_actions (be_binding b)))\<rparr>))
             (find (\<lambda>b. be_module b = m \<and> serves (be_binding b) (te_path e)) (al_bindings al))\<rparr>)"
proof -
  have ok: "allow_ok al" "al_modules al = ms" "al_config al = cfg" using from_modules_ok [OF assms(1)] by auto
  have d: "al_module al m = Some (ms ! m)" using ok(2) assms(3) by (simp add: al_module_def get_def)
  have mid: "client_module_id c (md_id (ms ! m)) = Some m" using module_id_agrees [OF ok(1) assms(2)] ok(2) assms(3) by simp
  have ts: "filter (\<lambda>t. ti_module t = m \<and> ti_kind t = PkFile) (ha_targets (hello_ack al))
      = map info_of (filter (\<lambda>e. te_kind e = PkFile) (targets_of al m))"
    by (simp add: hello_ack_def filter_map comp_def targets_of_def info_of_def conj_commute)
  note choose = choose_agrees [OF d, of profile exists]
  show ?thesis
  proof (cases "primary_target al m profile exists")
    case None
    then show ?thesis using choose
      by (simp add: wiring_def mid client_targets_def client_ack_def assms(2) bind_result_def map_err_with_def ts)
  next
    case (Some e)
    have e: "e \<in> set (al_targets al)" "te_module e = m" using primary_target_in [OF Some] by auto
    have ks: "filter (\<lambda>k. ce_module k = m \<and> te_id e \<in> set (ce_targets k)) (al_checks al)
        = filter (\<lambda>k. judges (ce_check k) (te_path e)) (checks_of al m)"
      unfolding checks_of_def filter_filter using served_agrees(1) [OF ok(1) e(1)] e(2) by (auto intro!: filter_cong)
    have bs: "find (\<lambda>b. be_module b = m \<and> te_id e \<in> set (be_targets b)) (al_bindings al)
        = find (\<lambda>b. be_module b = m \<and> serves (be_binding b) (te_path e)) (al_bindings al)"
      using served_agrees(2) [OF ok(1) e(1)] e(2) by (auto intro!: find_cong_set)
    show ?thesis using choose Some
      by (simp add: wiring_def mid client_targets_def client_bindings_def client_ack_def assms(2) bind_result_def map_err_with_def ts)
        (simp add: hello_ack_def filter_map comp_def find_of_map option.map_comp ks bs ok(3))
  qed
qed

theorem engine_wires_as_monitor_witness:
  "wiring ((client_new ())\<lparr>cl_tables := Some (hello_ack ex_allow)\<rparr>) ex_descriptor ex_profile (\<lambda>_. True) None =
    (case primary_target ex_allow 0 ex_profile (\<lambda>_. True) of
       None \<Rightarrow> Inl (OeNoTarget (md_id ex_descriptor))
     | Some e \<Rightarrow>
         Inr \<lparr>wi_target = te_id e, wi_path = te_path e,
           wi_checks = map (\<lambda>k. (ce_id k, ec_program (ce_check k))) (filter (\<lambda>k. judges (ce_check k) (te_path e)) (checks_of ex_allow 0)),
           wi_binding = map_option (\<lambda>b. (be_id b, \<lparr>af_unit = preferred_unit (be_binding b) (cf_init config_default),
               af_actions = filter_map command (map wire_of_core (sb_actions (be_binding b)))\<rparr>))
             (find (\<lambda>b. be_module b = 0 \<and> serves (be_binding b) (te_path e)) (al_bindings ex_allow))\<rparr>)"
proof -
  have t: "cl_tables ((client_new ())\<lparr>cl_tables := Some (hello_ack ex_allow)\<rparr>) = Some (hello_ack ex_allow)" by simp
  have n: "0 < length [ex_descriptor]" by simp
  show ?thesis using engine_wires_as_monitor [OF ex_allow_built t n, of ex_profile "\<lambda>_. True"] by (simp only: nth_Cons_0)
qed

end
