(* ===== verification/Engine_Compose.thy ===== *)
theory Engine_Compose
  imports Peer_Monitor Engine_Monitor
begin

text \<open>
  The engine with the monitor behind its client: what a successful apply leaves of the monitor.
\<close>

section \<open>Successful runs of the engine\<close>

lemma ebind_ok: "ebind m f e = (Inr y, e') \<longleftrightarrow> (\<exists>x e1. m e = (Inr x, e1) \<and> f x e1 = (Inr y, e'))"
  by (auto simp: ebind_def split: prod.splits sum.splits)

lemma etry_ok: "etry m e = (Inr r, e') \<longleftrightarrow> m e = (r, e')"
  by (auto simp: etry_def split: prod.splits)

lemma eret_ok: "eret x e = (Inr y, e') \<longleftrightarrow> y = x \<and> e' = e"
  by (auto simp: eret_def)

lemma efail_ok: "efail err e = (Inr y, e') \<longleftrightarrow> False"
  by (simp add: efail_def)

lemma elift_ok: "elift r e = (Inr y, e') \<longleftrightarrow> r = Inr y \<and> e' = e"
  by (auto simp: elift_def)

lemma emodify_ok: "emodify f e = (Inr y, e') \<longleftrightarrow> e' = f e"
  by (auto simp: emodify_def)

lemma ereads_ok: "ereads f e = (Inr y, e') \<longleftrightarrow> y = f e \<and> e' = e"
  by (auto simp: ereads_def)

lemmas ok_simps = ebind_ok etry_ok eret_ok efail_ok elift_ok emodify_ok ereads_ok

text \<open>When \<open>m\<close> succeeds, every request it sent satisfies \<open>P\<close>.\<close>

definition okasks :: "(request \<Rightarrow> bool) \<Rightarrow> ('j, 'p, 'a, 'x) eng \<Rightarrow> bool" where
  "okasks P m \<longleftrightarrow> (\<forall>e x e'. m e = (Inr x, e') \<longrightarrow> (\<exists>seg. elog e' = elog e @ seg \<and> list_all (\<lambda>x. P (fst x)) seg))"

lemma okasks_asks: "asks ask P m \<Longrightarrow> okasks P m"
  unfolding okasks_def asks_def by (metis snd_conv)

lemma okasks_run: "okasks P m \<Longrightarrow> m e = (Inr x, e') \<Longrightarrow> \<exists>seg. elog e' = elog e @ seg \<and> list_all (\<lambda>x. P (fst x)) seg"
  by (auto simp: okasks_def)

lemma okasks_ebind: "okasks P m \<Longrightarrow> (\<And>x. okasks P (f x)) \<Longrightarrow> okasks P (ebind m f)"
  unfolding okasks_def ebind_ok
proof (intro allI impI, elim exE conjE)
  fix e y e' x e1
  assume m: "\<forall>e x e'. m e = (Inr x, e') \<longrightarrow> (\<exists>seg. elog e' = elog e @ seg \<and> list_all (\<lambda>x. P (fst x)) seg)" "m e = (Inr x, e1)"
    and f: "\<And>x. \<forall>e y e'. f x e = (Inr y, e') \<longrightarrow> (\<exists>seg. elog e' = elog e @ seg \<and> list_all (\<lambda>x. P (fst x)) seg)" "f x e1 = (Inr y, e')"
  obtain s1 where "elog e1 = elog e @ s1" "list_all (\<lambda>x. P (fst x)) s1" using m by blast
  moreover obtain s2 where "elog e' = elog e1 @ s2" "list_all (\<lambda>x. P (fst x)) s2" using f by blast
  ultimately show "\<exists>seg. elog e' = elog e @ seg \<and> list_all (\<lambda>x. P (fst x)) seg" by (intro exI [of _ "s1 @ s2"]) simp
qed

lemma okasks_fails: "okasks P (ebind m (\<lambda>_. efail err))" "okasks P (efail err)"
  by (auto simp: okasks_def ok_simps)

definition afterwards :: "request \<Rightarrow> bool" where
  "afterwards rq = (case rq of RqReloadUnitFiles _ \<Rightarrow> True | RqMount _ \<Rightarrow> True | RqService _ _ \<Rightarrow> True | _ \<Rightarrow> False)"

lemma afterwards_simps [simp]: "afterwards (RqReloadUnitFiles m)" "afterwards (RqMount t)" "afterwards (RqService i a)"
  by (simp_all add: afterwards_def)

lemma afterwards_spectator: "afterwards rq \<Longrightarrow> spectator rq"
  by (cases rq) (simp_all add: afterwards_def spectator_def)

lemma okasks_reload: "okasks afterwards (reload_or_discard EE reload commit)"
proof (cases reload)
  case None
  then show ?thesis by (simp add: reload_or_discard_def okasks_asks [OF asks_plain(1)])
next
  case (Some i)
  have "okasks afterwards (etry (easks (client_reload_unit_files (ee_ask EE) i)))"
    by (rule okasks_asks [where ask = "ee_ask EE"], intro asks_intros asks_client) simp
  moreover have "okasks afterwards (case r of Inr _ \<Rightarrow> eret () | Inl err \<Rightarrow> ebind (discard_commit EE commit) (\<lambda>_. efail err))" for r :: "(ops_error, rstr) result"
    by (cases r) (simp_all add: okasks_asks [OF asks_plain(1)] okasks_fails)
  ultimately show ?thesis unfolding reload_or_discard_def Some option.case by (rule okasks_ebind)
qed

lemma okasks_act:
  "okasks afterwards (case (action, b) of
      (Some action, Some (binding, affected)) \<Rightarrow>
        ebind (etry (act EE binding (af_unit affected) action)) (\<lambda>acted.
          case acted of
            Inr report \<Rightarrow> eret (Some report)
          | Inl err \<Rightarrow> ebind (discard_commit EE commit) (\<lambda>_. efail err))
    | _ \<Rightarrow> eret None)"
proof -
  have "okasks afterwards (ebind (etry (act EE binding u action)) (\<lambda>acted.
          case acted of
            Inr report \<Rightarrow> eret (Some report)
          | Inl err \<Rightarrow> ebind (discard_commit EE commit) (\<lambda>_. efail err)))" for binding u action
  proof (rule okasks_ebind)
    show "okasks afterwards (etry (act EE binding u action))"
      by (rule okasks_asks [where ask = "ee_ask EE"], unfold act_def, intro asks_intros asks_client) simp
    show "okasks afterwards (case acted of Inr report \<Rightarrow> eret (Some report) | Inl err \<Rightarrow> ebind (discard_commit EE commit) (\<lambda>_. efail err))"
      for acted by (cases acted) (simp_all add: okasks_asks [OF asks_plain(1)] okasks_fails)
  qed
  then show ?thesis by (auto simp: okasks_asks [OF asks_plain(1)] split: option.splits)
qed

lemma okasks_mounts: "okasks afterwards (start_mounts EE d t)"
  by (rule okasks_asks [where ask = "ee_ask EE"], unfold start_mounts_def, intro asks_intros asks_client) simp

text \<open>What a request that was answered as expected leaves in the log.\<close>

lemma easks_ok:
  assumes "sends ask req R m" and "easks m e = (Inr x, e')"
  obtains resp where "elog e' = elog e @ [(req, Inr resp)]" "R x resp" "same_setup e e'"
proof -
  obtain seg where seg: "elog e' = elog e @ seg" "same_setup e e'"
    "\<forall>y. (Inr x :: (ops_error, _) result) = Inr y \<longrightarrow> (\<exists>resp. seg = [(req, Inr resp)] \<and> R y resp)" by (rule easks_run [OF assms])
  obtain resp where "seg = [(req, Inr resp)]" "R x resp" using seg(3) [rule_format, OF refl] by (elim exE conjE)
  with seg(1,2) show thesis by (intro that [of resp]) simp_all
qed

lemma arm_ok:
  assumes "arm_or_undo EE confirm svc d w receipt e = (Inr pr, e')"
  shows "\<exists>n c'. elog e' = elog e @ [(RqStartConfirmTimer (pr_commit_id pr) n svc, Inr (RsConfirmTimerStarted c' (pr_timeout_s pr) (pr_rollback_targets pr)))]"
proof -
  obtain r e1 where r: "arm_commit EE confirm svc e = (r, e1)" "(case r of
         Inr commit \<Rightarrow> eret commit
       | Inl arming \<Rightarrow>
           ebind (etry (undo_write EE (md_id d) (wi_target w) (wr_prev_digest receipt) (wr_backed_up receipt))) (\<lambda>restored.
             efail (OeArmFailed arming (case restored of Inl err \<Rightarrow> Some err | Inr _ \<Rightarrow> None)))) e1 = (Inr pr, e')"
    using assms unfolding arm_or_undo_def ebind_ok etry_ok by blast
  then have ok: "arm_commit EE confirm svc e = (Inr pr, e')" by (cases r) (auto simp: ok_simps)
  let ?n = "min (case confirm of Some s \<Rightarrow> s | None \<Rightarrow> DEFAULT_CONFIRM) u16_max"
  let ?e1 = "e\<lparr>en_next_commit := sat_add u32_max (en_next_commit e) 1\<rparr>"
  obtain s k e2 where st: "easks (client_start_confirm_timer (ee_ask EE) (en_next_commit e) ?n svc) ?e1 = (Inr (s, k), e2)"
    "elog e' = elog e2" "pr_commit_id pr = en_next_commit e" "pr_timeout_s pr = s" "pr_rollback_targets pr = k"
    using ok by (auto simp: arm_commit_def Let_def ok_simps)
  obtain resp where "elog e2 = elog ?e1 @ [(RqStartConfirmTimer (en_next_commit e) ?n svc, Inr resp)]"
    "\<exists>c. resp = RsConfirmTimerStarted c (fst (s, k)) (snd (s, k))" by (rule easks_ok [OF client_sends(10) st(1)])
  then show ?thesis using st by auto
qed

lemma after_write_ok:
  assumes "after_write EE m action confirm w reload checks True receipt e = (Inr rep, e')"
  shows "\<exists>pr n c' post. ap_commit rep = Some pr \<and> ap_new_hash rep = wr_new_digest receipt \<and> ap_path rep = wi_path w \<and> wr_backed_up receipt
    \<and> elog e' = elog e @ (RqStartConfirmTimer (pr_commit_id pr) n (pending_service_of action (wi_binding w)),
         Inr (RsConfirmTimerStarted c' (pr_timeout_s pr) (pr_rollback_targets pr))) # post
    \<and> list_all (\<lambda>x. afterwards (fst x)) post"
proof -
  let ?svc = "pending_service_of action (wi_binding w)"
  obtain pr e1 where a: "arm_or_undo EE confirm ?svc (dm_descriptor m) w receipt e = (Inr pr, e1)"
    and rest: "(if True \<and> \<not> wr_backed_up receipt then ebind (discard_commit EE (Some pr)) (\<lambda>_. efail OeNoBackup)
     else
       ebind (reload_or_discard EE reload (Some pr)) (\<lambda>_.
       ebind (start_mounts EE (dm_descriptor m) (wi_target w)) (\<lambda>mounts.
       ebind (case (action, wi_binding w) of
                (Some action, Some (binding, affected)) \<Rightarrow>
                  ebind (etry (act EE binding (af_unit affected) action)) (\<lambda>acted.
                    case acted of
                      Inr report \<Rightarrow> eret (Some report)
                    | Inl err \<Rightarrow> ebind (discard_commit EE (Some pr)) (\<lambda>_. efail err))
              | _ \<Rightarrow> eret None) (\<lambda>service.
         eret \<lparr>ap_module = md_id (dm_descriptor m), ap_path = wi_path w, ap_prev_hash = wr_prev_digest receipt,
           ap_new_hash = wr_new_digest receipt, ap_created = wr_created receipt, ap_backed_up = wr_backed_up receipt,
           ap_service = service, ap_commit = Some pr, ap_checks = checks, ap_mounts = mounts\<rparr>))))
      (e1\<lparr>en_hashes := (en_hashes e1)\<lparr>ha_commit_id := Some (pr_commit_id pr)\<rparr>, en_pending := Some pr\<rparr>) = (Inr rep, e')"
    using assms unfolding after_write_def if_True ebind_ok [where m = "ebind u v" for u v] emodify_ok eret_ok
    by (auto simp: ebind_ok emodify_ok eret_ok simp del: split_paired_Ex)
  let ?e1 = "e1\<lparr>en_hashes := (en_hashes e1)\<lparr>ha_commit_id := Some (pr_commit_id pr)\<rparr>, en_pending := Some pr\<rparr>"
  have b: "wr_backed_up receipt" using rest by (auto simp: ok_simps split: if_splits)
  obtain u e2 v e3 sv where r: "reload_or_discard EE reload (Some pr) ?e1 = (Inr u, e2)"
    "start_mounts EE (dm_descriptor m) (wi_target w) e2 = (Inr v, e3)"
    "(case (action, wi_binding w) of
                (Some action, Some (binding, affected)) \<Rightarrow>
                  ebind (etry (act EE binding (af_unit affected) action)) (\<lambda>acted.
                    case acted of
                      Inr report \<Rightarrow> eret (Some report)
                    | Inl err \<Rightarrow> ebind (discard_commit EE (Some pr)) (\<lambda>_. efail err))
              | _ \<Rightarrow> eret None) e3 = (Inr sv, e')"
    and rep: "ap_commit rep = Some pr \<and> ap_new_hash rep = wr_new_digest receipt \<and> ap_path rep = wi_path w"
    using rest b by (auto simp: ebind_ok [of "reload_or_discard EE reload (Some pr)"] ebind_ok [of "start_mounts EE d t" for d t]
        ebind_ok [of _ "\<lambda>service. eret (f service)" for f] eret_ok)
  obtain s1 s2 s3 where "elog e2 = elog e1 @ s1" "elog e3 = elog e2 @ s2" "elog e' = elog e3 @ s3"
    "list_all (\<lambda>x. afterwards (fst x)) (s1 @ s2 @ s3)"
    using okasks_run [OF okasks_reload r(1)] okasks_run [OF okasks_mounts r(2)] okasks_run [OF okasks_act r(3)] by auto
  then show ?thesis using arm_ok [OF a] b rep by (intro exI [of _ pr]) (elim exE, rule exI, rule exI, rule exI [of _ "s1 @ s2 @ s3"], simp)
qed

lemma after_write_unconfirmed: "after_write EE m action confirm w reload checks False receipt e = (Inr rep, e') \<Longrightarrow> ap_commit rep = None"
  by (auto simp: after_write_def ok_simps)

text \<open>The log of an apply that armed a commit: at its end the question whether a commit is pending, the write, the start
  of the window, and then only what follows a write.\<close>

definition commit_log ::
  "apply_report \<Rightarrow> pending_report \<Rightarrow> nat \<Rightarrow> digest \<Rightarrow> bytes \<Rightarrow> pending_service option \<Rightarrow> (request \<times> (channel_error, response) result) list \<Rightarrow> bool" where
  "commit_log rep pr t d b svc seg \<longleftrightarrow> (\<exists>pre receipt n c' post.
     seg = pre @ [(RqPendingCommit, Inr (RsPending None)), (RqWriteTarget t (Some d) b True, Inr (RsWritten receipt)),
       (RqStartConfirmTimer (pr_commit_id pr) n svc, Inr (RsConfirmTimerStarted c' (pr_timeout_s pr) (pr_rollback_targets pr)))] @ post
     \<and> wr_backed_up receipt \<and> wr_new_digest receipt = ap_new_hash rep \<and> list_all (\<lambda>x. afterwards (fst x)) post)"

lemma commit_log_prefix: "commit_log rep pr t d b svc seg \<Longrightarrow> commit_log rep pr t d b svc (pre @ seg)"
  unfolding commit_log_def by (metis append.assoc)

lemma check_and_write_ok:
  assumes "check_and_write EE m action confirm w reload contents rendered e = (Inr rep, e')" and "ap_commit rep = Some pr"
  shows "\<exists>seg. elog e' = elog e @ seg \<and> ap_path rep = wi_path w
    \<and> commit_log rep pr (wi_target w) (tc_digest contents) (as_bytes rendered) (pending_service_of action (wi_binding w)) seg"
proof -
  let ?j = "md_commit_confirm (dm_descriptor m) \<or> confirm \<noteq> None"
  let ?svc = "pending_service_of action (wi_binding w)"
  let ?wr = "client_write_target (ee_ask EE) (wi_target w) (Some (tc_digest contents)) (as_bytes rendered)"
  let ?hash = "\<lambda>receipt e. e\<lparr>en_hashes := (en_hashes e)\<lparr>ha_prev := wr_prev_digest receipt, ha_new := Some (wr_new_digest receipt)\<rparr>\<rparr>"
  obtain checks e1 pending e2 where c: "run_checks EE (wi_checks w) (as_bytes rendered) e = (Inr checks, e1)"
    "(if ?j then easks (client_pending_commit (ee_ask EE)) else eret None) e1 = (Inr pending, e2)"
    "(case pending of
         Some commit \<Rightarrow> efail (OeCommitPending commit)
       | None \<Rightarrow>
           (case find (\<lambda>r. \<not> cr_ran r \<or> \<not> cr_passed r) checks of
              Some report \<Rightarrow> efail (OeCheckFailed (cr_program report) (cr_detail report))
            | None \<Rightarrow> ebind (easks (?wr ?j)) (\<lambda>receipt. ebind (emodify (?hash receipt)) (\<lambda>_.
                  after_write EE m action confirm w reload checks ?j receipt)))) e2 = (Inr rep, e')"
    using assms(1) unfolding check_and_write_def Let_def ebind_ok [of "run_checks EE ks b" for ks b] ebind_ok [of "if b then x else y" for b x y] by blast
  then have none: "pending = None" by (cases pending) (simp_all add: efail_ok)
  obtain receipt e3 where w: "easks (?wr ?j) e2 = (Inr receipt, e3)"
    "after_write EE m action confirm w reload checks ?j receipt (?hash receipt e3) = (Inr rep, e')"
    using c(3) none by (auto simp: ok_simps split: option.splits)
  have j: "?j" using after_write_unconfirmed [of EE m action confirm w reload checks receipt] w(2) assms(2) by (cases ?j) auto
  have p: "easks (client_pending_commit (ee_ask EE)) e1 = (Inr None, e2)" using c(2) j none by auto
  have w': "easks (?wr True) e2 = (Inr receipt, e3)" using w(1) j by simp
  obtain s1 where s1: "elog e1 = elog e @ s1" using asksD [OF asks_run_checks [where P = "\<lambda>_. True"] c(1)] by blast
  obtain resp where r1: "elog e2 = elog e1 @ [(RqPendingCommit, Inr resp)]" "resp = RsPending None"
    by (rule easks_ok [OF client_sends(11) p])
  obtain resp' where r2: "elog e3 = elog e2 @ [(RqWriteTarget (wi_target w) (Some (tc_digest contents)) (as_bytes rendered) True, Inr resp')]"
    "resp' = RsWritten receipt" by (rule easks_ok [OF client_sends(2) w'])
  have aw: "after_write EE m action confirm w reload checks True receipt (?hash receipt e3) = (Inr rep, e')" using w(2) j by simp
  obtain pr' n c' post where a: "ap_commit rep = Some pr'" "ap_new_hash rep = wr_new_digest receipt" "wr_backed_up receipt" "ap_path rep = wi_path w"
    "elog e' = elog (?hash receipt e3) @ (RqStartConfirmTimer (pr_commit_id pr') n ?svc,
         Inr (RsConfirmTimerStarted c' (pr_timeout_s pr') (pr_rollback_targets pr'))) # post"
    "list_all (\<lambda>x. afterwards (fst x)) post"
    using after_write_ok [OF aw] by (elim exE conjE)
  have pr: "pr' = pr" using a(1) assms(2) by simp
  let ?core = "[(RqPendingCommit, Inr (RsPending None)),
     (RqWriteTarget (wi_target w) (Some (tc_digest contents)) (as_bytes rendered) True, Inr (RsWritten receipt)),
     (RqStartConfirmTimer (pr_commit_id pr) n ?svc, Inr (RsConfirmTimerStarted c' (pr_timeout_s pr) (pr_rollback_targets pr)))]"
  have "elog e' = elog e @ s1 @ ?core @ post" using s1 r1 r2 a(5) pr by simp
  moreover have "commit_log rep pr (wi_target w) (tc_digest contents) (as_bytes rendered) ?svc (s1 @ ?core @ post)"
    unfolding commit_log_def
    by (rule exI [of _ s1], rule exI [of _ receipt], rule exI [of _ n], rule exI [of _ c'], rule exI [of _ post]) (simp add: a)
  ultimately show ?thesis using a(4) by blast
qed

lemma apply_ok:
  assumes "apply_op EE i model expected action confirm e = (Inr rep, e')" and "ap_commit rep = Some pr"
  shows "\<exists>seg w d prof ex mt dg b svc. elog e' = elog e @ seg \<and> wiring (en_client e) d prof ex mt = Inr w \<and> ap_path rep = wi_path w
    \<and> commit_log rep pr (wi_target w) dg b svc seg"
proof -
  obtain m e1 contents e2 w reload rendered where
    s: "\<exists>pre. elog e2 = elog e @ pre" and wi: "\<exists>d prof ex mt. wiring (en_client e) d prof ex mt = Inr w" and run: "check_and_write EE m action confirm w reload contents rendered e2 = (Inr rep, e')"
  proof -
    obtain m e1 where m: "the_module i e = (Inr m, e1)" and 1: "ebind (validate_model m model) (\<lambda>ds.
       if has_errors ds then efail (OeInvalid ds)
       else
         ebind (model_wiring EE i model) (\<lambda>w.
           if action \<noteq> None \<and> wi_binding w = None then efail (OeNoService (md_id (dm_descriptor m)))
           else
             ebind (reload_module (dm_descriptor m)) (\<lambda>reload.
             ebind (easks (client_read_target (ee_ask EE) (wi_target w))) (\<lambda>contents.
             ebind (emodify (\<lambda>e. e\<lparr>en_hashes := (en_hashes e)\<lparr>ha_prev := Some (tc_digest contents)\<rparr>\<rparr>)) (\<lambda>_.
               if (case expected of Some d \<Rightarrow> d \<noteq> tc_digest contents | None \<Rightarrow> False)
               then efail (OeHashConflict (the expected) (Some (tc_digest contents)))
               else
                 ebind (elift (decode (tc_bytes contents) (wi_path w))) (\<lambda>current.
                 ebind (elift (map_err_with OeModule (dm_apply_json m current model))) (\<lambda>rendered.
                   if current = rendered
                   then eret (unchanged_report (md_id (dm_descriptor m)) (wi_path w) (tc_digest contents))
                   else check_and_write EE m action confirm w reload contents rendered))))))) e1 = (Inr rep, e')"
      using assms(1) unfolding apply_op_def ebind_ok [of "the_module i"] by blast
    obtain ds e2 w e3 reload e4 contents e5 where 2: "validate_model m model e1 = (Inr ds, e2)" "model_wiring EE i model e2 = (Inr w, e3)"
      "reload_module (dm_descriptor m) e3 = (Inr reload, e4)" "easks (client_read_target (ee_ask EE) (wi_target w)) e4 = (Inr contents, e5)"
      and 3: "(if (case expected of Some d \<Rightarrow> d \<noteq> tc_digest contents | None \<Rightarrow> False)
               then efail (OeHashConflict (the expected) (Some (tc_digest contents)))
               else
                 ebind (elift (decode (tc_bytes contents) (wi_path w))) (\<lambda>current.
                 ebind (elift (map_err_with OeModule (dm_apply_json m current model))) (\<lambda>rendered.
                   if current = rendered
                   then eret (unchanged_report (md_id (dm_descriptor m)) (wi_path w) (tc_digest contents))
                   else check_and_write EE m action confirm w reload contents rendered)))
          (e5\<lparr>en_hashes := (en_hashes e5)\<lparr>ha_prev := Some (tc_digest contents)\<rparr>\<rparr>) = (Inr rep, e')"
      using 1 unfolding ebind_ok [of "validate_model m model"] ebind_ok [of "model_wiring EE i model"] ebind_ok [of "reload_module d" for d]
        ebind_ok [of "easks c" for c] ebind_ok [of "emodify f" for f] emodify_ok
      by (auto simp: ebind_ok [of "model_wiring EE i model"] ebind_ok [of "reload_module d" for d] ebind_ok [of "easks c" for c]
          ebind_ok [of "emodify f" for f] emodify_ok efail_ok split: if_splits)
    obtain rendered where 4: "check_and_write EE m action confirm w reload contents rendered
        (e5\<lparr>en_hashes := (en_hashes e5)\<lparr>ha_prev := Some (tc_digest contents)\<rparr>\<rparr>) = (Inr rep, e')"
      using 3 assms(2) by (auto simp: ok_simps unchanged_report_def split: if_splits)
    have quiet: "elog e1 = elog e" "elog e2 = elog e1" "elog e3 = elog e2" "elog e4 = elog e3"
      using m 2 by (auto simp: the_module_def validate_model_def model_wiring_def reload_module_def wired_def the_module_id_def ok_simps split: if_splits)
    obtain resp where "elog e5 = elog e4 @ [(RqReadTarget (wi_target w), Inr resp)]" by (rule easks_ok [OF client_sends(1) 2(4)])
    moreover have "\<exists>d prof ex mt. wiring (en_client e) d prof ex mt = Inr w"
      using m 2(1,2) by (auto simp: the_module_def validate_model_def model_wiring_def wired_def ok_simps)
    ultimately show thesis using that [OF _ _ 4] quiet by simp
  qed
  obtain pre where "elog e2 = elog e @ pre" using s by blast
  moreover obtain seg where "elog e' = elog e2 @ seg" "ap_path rep = wi_path w"
    "commit_log rep pr (wi_target w) (tc_digest contents) (as_bytes rendered) (pending_service_of action (wi_binding w)) seg"
    using check_and_write_ok [OF run assms(2)] by blast
  ultimately have "elog e' = elog e @ (pre @ seg)" "ap_path rep = wi_path w"
    "commit_log rep pr (wi_target w) (tc_digest contents) (as_bytes rendered) (pending_service_of action (wi_binding w)) (pre @ seg)"
    using commit_log_prefix by auto
  then show ?thesis using wi by blast
qed

section \<open>Composed with the monitor\<close>

lemma wired_target:
  assumes "allow_ok al" and "cl_tables c = Some (hello_ack al)" and "wiring c d prof ex mt = Inr w"
  shows "\<exists>entry. al_target al (wi_target w) = Some entry \<and> te_path entry = wi_path w"
proof -
  obtain m chosen where ch: "choose_target d prof ex (filter (\<lambda>t. ti_module t = m \<and> ti_kind t = PkFile) (ha_targets (hello_ack al))) mt = Some chosen"
    "wi_target w = ti_id chosen" "wi_path w = ti_path chosen"
    using assms(2,3) by (auto simp: wiring_def client_targets_def client_ack_def bind_result_def map_err_with_def Let_def split: option.splits sum.splits)
  have "chosen \<in> set (ha_targets (hello_ack al))"
    using ch(1) by (auto simp: choose_target_def Let_def dest!: find_in_set split: option.splits list.splits)
      (metis (no_types, lifting) filter_is_subset list.set_intros(1) subsetD)+
  then obtain e where e: "e \<in> set (al_targets al)" "chosen = info_of e" by (auto simp: hello_ack_def info_of_def)
  then have "al_target al (te_id e) = Some e"
    using assms(1) by (auto simp: allow_ok_def tables_ok_def rows_def target_row_def in_set_conv_nth al_target_def get_def)
  then show ?thesis using ch e by simp
qed

lemma execute_history:
  assumes "execute EE op who permit e = (Inr out, e')"
  obtains e1 e2 e3 s1 s2 where "dispatch_op EE op e2 = (Inr out, e3)" "en_client e' = en_client e3"
    "elog e2 = elog e @ s1" "elog e3 = elog e2 @ s2" "history (ee_ask EE) (epeer e) (s1 @ s2) (epeer e')" "same_setup e e2"
proof -
  have pm: "permit who op = Inr ()"
  proof (cases "permit who op")
    case (Inl d)
    then show ?thesis using denied_run [where permit = permit and who = who and op = op and d = d and EE = EE and e = e] assms by auto
  qed simp
  obtain e1 e2 where p: "en_client e2 = en_client e1" "same_setup e1 e2"
      "if is_mutating op then e1 = snd (apply_is_noop EE op e) else e1 = e"
      "(\<exists>err. (Inr out :: (ops_error, _) result) = Inl (OeAuditUnavailable err) \<and> is_mutating op \<and> e' = e2)
       \<or> (\<exists>e3. dispatch_op EE op (e2\<lparr>en_hashes := hashes_default\<rparr>) = (Inr out, e3) \<and> en_client e' = en_client e3)"
    by (rule execute_parts [OF assms pm])
  then obtain e3 where d: "dispatch_op EE op (e2\<lparr>en_hashes := hashes_default\<rparr>) = (Inr out, e3)" "en_client e' = en_client e3" by auto
  obtain s1 where s1: "elog e1 = elog e @ s1" "history (ee_ask EE) (epeer e) s1 (epeer e1)" "same_setup e e1"
  proof (cases "is_mutating op")
    case True
    then have n: "apply_is_noop EE op e = (fst (apply_is_noop EE op e), e1)" using p(3) by simp
    obtain s mid where "same_setup e e1" "elog e1 = elog e @ s" "history (ee_ask EE) (epeer e) s (epeer e1)"
      by (rule asksD [OF asks_noop [OF True, of EE] n])
    then show ?thesis using that by simp
  next
    case False
    then show ?thesis using that [of "[]"] p(3) by simp
  qed
  obtain s2 where s2: "elog e3 = elog e2 @ s2" "history (ee_ask EE) (epeer e2) s2 (epeer e3)"
    using asksD [OF asks_dispatch d(1)] by auto
  have "history (ee_ask EE) (epeer e) (s1 @ s2) (epeer e')" using history_append [OF s1(2)] s2(2) p(1) d(2) by simp
  then show thesis using that [OF d(1) d(2)] s1 s2(1) p(1) same_setup_trans [OF s1(3) p(2)] by (simp add: same_setup_def)
qed

text \<open>C2. A confirmed apply is protected. When an apply is answered with a commit and the monitor behind the client is still
  serving, the monitor has exactly this commit pending, or its deadline has passed: the window is as long as the
  report says, and rolling it back concerns one file, the one the report names, guarded by the digest the report says was
  written. Nothing the engine asked for after the write (reloading, mounting, the service) has touched the commit.\<close>

theorem applied_commit_protects_write:
  assumes "execute EE op who permit e = (Inr (OoApplied rep), e')" and "ap_commit rep = Some pr"
    and "ee_ask EE = monitor_peer E idle sched" and "mp_running (epeer e')" and "mo_greeted (mp_monitor (epeer e))"
    and "allow_ok (mo_allow (mp_monitor (epeer e)))" and "cl_tables (en_client e) = Some (hello_ack (mo_allow (mp_monitor (epeer e))))"
  shows "\<exists>entry backup deadline svc. al_target (mo_allow (mp_monitor (epeer e))) (te_id entry) = Some entry \<and> te_path entry = ap_path rep
    \<and> pr_rollback_targets pr = 1 \<and> w_instant (mp_world (epeer e)) + pr_timeout_s pr * 1000 \<le> deadline
    \<and> armed_or_due \<lparr>pc_commit = pr_commit_id pr, pc_deadline = deadline,
          pc_entries = [\<lparr>re_target = te_id entry, re_path = ap_path rep, re_backup = backup, re_new_digest = Some (ap_new_hash rep)\<rparr>],
          pc_service = svc\<rparr> (mp_monitor (epeer e')) (w_instant (mp_world (epeer e')))"
proof -
  obtain e2 e3 s1 s2 where x: "dispatch_op EE op e2 = (Inr (OoApplied rep), e3)" "en_client e' = en_client e3"
    "elog e2 = elog e @ s1" "elog e3 = elog e2 @ s2" "history (ee_ask EE) (epeer e) (s1 @ s2) (epeer e')" "same_setup e e2"
    by (rule execute_history [OF assms(1)])
  obtain i model expected action confirm where op: "op = Apply i model expected action confirm"
    using x(1) by (cases op) (auto simp: ok_simps get_module_def service_status_op_def restore_op_def service_action_op_def map_err_with_def bind_result_def
        split: option.splits sum.splits prod.splits if_splits)
  have "apply_op EE i model expected action confirm e2 = (Inr rep, e3)" using x(1) by (auto simp: op ok_simps)
  from apply_ok [OF this assms(2)] obtain seg w d prof ex mt dg b svc where l: "elog e3 = elog e2 @ seg"
    "wiring (en_client e2) d prof ex mt = Inr w" "ap_path rep = wi_path w" "commit_log rep pr (wi_target w) dg b svc seg"
    by (elim exE conjE)
  have seg: "seg = s2" using l(1) x(4) by simp
  have tables: "cl_tables (en_client e2) = Some (hello_ack (mo_allow (mp_monitor (epeer e))))" using x(6) assms(7) by (simp add: same_setup_def)
  obtain entry where entry: "al_target (mo_allow (mp_monitor (epeer e))) (wi_target w) = Some entry" "te_path entry = wi_path w"
    using wired_target [OF assms(6) tables l(2)] by (elim exE conjE)
  obtain pre receipt n c' post where c: "seg = pre @ [(RqPendingCommit, Inr (RsPending None)), (RqWriteTarget (wi_target w) (Some dg) b True, Inr (RsWritten receipt)),
       (RqStartConfirmTimer (pr_commit_id pr) n svc, Inr (RsConfirmTimerStarted c' (pr_timeout_s pr) (pr_rollback_targets pr)))] @ post"
     "wr_backed_up receipt" "wr_new_digest receipt = ap_new_hash rep" "list_all (\<lambda>x. afterwards (fst x)) post"
    using l(4) unfolding commit_log_def by (elim exE conjE)
  let ?ask = "monitor_peer E idle sched"
  have "history ?ask (epeer e) ((s1 @ pre) @ [(RqPendingCommit, Inr (RsPending None)), (RqWriteTarget (wi_target w) (Some dg) b True, Inr (RsWritten receipt)),
       (RqStartConfirmTimer (pr_commit_id pr) n svc, Inr (RsConfirmTimerStarted c' (pr_timeout_s pr) (pr_rollback_targets pr)))] @ post) (epeer e')"
    using x(5) seg c(1) assms(3) by simp
  then obtain p1 p2 where h: "history ?ask (epeer e) (s1 @ pre) p1"
    "history ?ask p1 [(RqPendingCommit, Inr (RsPending None)), (RqWriteTarget (wi_target w) (Some dg) b True, Inr (RsWritten receipt)),
       (RqStartConfirmTimer (pr_commit_id pr) n svc, Inr (RsConfirmTimerStarted c' (pr_timeout_s pr) (pr_rollback_targets pr)))] p2"
    "history ?ask p2 post (epeer e')"
    by (elim history_appendE) (blast intro: history_append)
  have run2: "mp_running p2" by (rule peer_running [OF h(3) assms(4)])
  have run1: "mp_running p1" by (rule peer_running [OF h(2) run2])
  note f1 = history_frame [OF h(1) run1 assms(5)]
  have g1: "mo_greeted (mp_monitor p1)" using f1 by simp
  have g2: "mo_greeted (mp_monitor p2)" using history_frame [OF h(2) run2 g1] by simp
  obtain entry' backup deadline where q: "al_target (mo_allow (mp_monitor p1)) (wi_target w) = Some entry'" "pr_rollback_targets pr = 1"
    "w_instant (mp_world p1) + pr_timeout_s pr * 1000 \<le> deadline"
    "armed_or_due \<lparr>pc_commit = pr_commit_id pr, pc_deadline = deadline,
          pc_entries = [\<lparr>re_target = wi_target w, re_path = te_path entry', re_backup = backup, re_new_digest = Some (wr_new_digest receipt)\<rparr>],
          pc_service = svc\<rparr> (mp_monitor p2) (w_instant (mp_world p2))"
    using history_commit [OF h(2) run2 g1 c(2)] by blast
  have same: "entry' = entry" using q(1) entry(1) f1 by simp
  have post: "list_all (\<lambda>x. spectator (fst x)) post" using c(4) afterwards_spectator by (auto simp: list_all_iff)
  have id: "te_id entry = wi_target w"
    using assms(6) entry(1) by (auto simp: allow_ok_def tables_ok_def rows_def target_row_def al_target_def get_def split: if_splits)
  have "armed_or_due \<lparr>pc_commit = pr_commit_id pr, pc_deadline = deadline,
          pc_entries = [\<lparr>re_target = te_id entry, re_path = ap_path rep, re_backup = backup, re_new_digest = Some (ap_new_hash rep)\<rparr>],
          pc_service = svc\<rparr> (mp_monitor (epeer e')) (w_instant (mp_world (epeer e')))"
    using history_armed [OF h(3) assms(4) g2 post q(4)] c(3) same entry(2) l(3) id by simp
  then show ?thesis using entry l(3) id q(2,3) f1
    by (intro exI [of _ entry] exI [of _ backup] exI [of _ deadline] exI [of _ svc]) auto
qed

section \<open>A concrete system\<close>

definition xm_env :: "(unit, nat, nat) menv" where
  "xm_env = \<lparr>me_fs = \<lparr>fe_sha = (\<lambda>b. b), fe_stamp = (\<lambda>_. Some [84, 90]), fe_marker_json = (\<lambda>_. [1]), fe_marker_parse = (\<lambda>_. None)\<rparr>,
     me_hooks = ex_hooks, me_modules = [ex_module],
     me_semver = \<lparr>sv_parse = (\<lambda>_. None), sv_build_empty = (\<lambda>_. True), sv_greater = (>), sv_zero = 0, sv_pkg_version = []\<rparr>,
     me_update_feature = False, me_marker_json = (\<lambda>_. [1]), me_marker_parse = (\<lambda>_. None),
     me_probe = (\<lambda>_ _. ProbeDir 0 448), me_staging_dir = [RootDir, Normal (lit ''run'')],
     me_tempfile = ex_tempfile, me_dyn_text = (\<lambda>_. []), me_euid = 0\<rparr>"

definition xm_sched :: "nat \<Rightarrow> chan_event list \<times> chan_event" where
  "xm_sched n = ([ex_turn None (10 * n)], ex_turn None (10 * n + 5))"

definition xm_ee :: "(unit mon_peer, audit_record list, nat) engine_env" where
  "xm_ee = \<lparr>ee_ask = monitor_peer xm_env 500 xm_sched, ee_record = list_sink, ee_query = (\<lambda>_ rs. Inr rs), ee_now = (\<lambda>_. lit ''now''),
     ee_deadline = (\<lambda>_ _. lit ''later''), ee_text = (\<lambda>_. lit ''error''), ee_exists = (\<lambda>_ _. True),
     ee_semver = \<lparr>sv_parse = (\<lambda>_. None), sv_build_empty = (\<lambda>_. True), sv_greater = (>), sv_zero = 0, sv_pkg_version = []\<rparr>\<rparr>"

definition xm_engine :: "(rstr, unit mon_peer, audit_record list) engine" where
  "xm_engine = engine_new [xe_module] \<lparr>cl_peer = \<lparr>mp_monitor = ex_greeted, mp_world = ex_world [], mp_turns = 0, mp_running = True\<rparr>,
     cl_tables = Some (hello_ack ex_allow), cl_log = []\<rparr> xe_host []"

definition xm_apply :: "rstr operation" where
  "xm_apply = Apply (lit ''hosts'') (lit ''b'') None None (Some 30)"

lemma xm_runs:
  "case execute xm_ee xm_apply xe_who allow_all_permit xm_engine of (r, e) \<Rightarrow>
     (case r of Inr (OoApplied rep) \<Rightarrow> ap_commit rep \<noteq> None \<and> mp_running (epeer e) | _ \<Rightarrow> False)"
  by code_simp

theorem applied_commit_protects_write_witness:
  "\<exists>rep pr e'. execute xm_ee xm_apply xe_who allow_all_permit xm_engine = (Inr (OoApplied rep), e') \<and> ap_commit rep = Some pr
    \<and> (\<exists>entry backup deadline svc. al_target (mo_allow (mp_monitor (epeer xm_engine))) (te_id entry) = Some entry \<and> te_path entry = ap_path rep
    \<and> pr_rollback_targets pr = 1 \<and> w_instant (mp_world (epeer xm_engine)) + pr_timeout_s pr * 1000 \<le> deadline
    \<and> armed_or_due \<lparr>pc_commit = pr_commit_id pr, pc_deadline = deadline,
          pc_entries = [\<lparr>re_target = te_id entry, re_path = ap_path rep, re_backup = backup, re_new_digest = Some (ap_new_hash rep)\<rparr>],
          pc_service = svc\<rparr> (mp_monitor (epeer e')) (w_instant (mp_world (epeer e'))))"
proof -
  obtain rep pr e' where r: "execute xm_ee xm_apply xe_who allow_all_permit xm_engine = (Inr (OoApplied rep), e')" "ap_commit rep = Some pr"
    "mp_running (epeer e')"
    using xm_runs by (auto split: prod.splits sum.splits op_outcome.splits)
  have s: "ee_ask xm_ee = monitor_peer xm_env 500 xm_sched" by (simp add: xm_ee_def)
  have g: "mo_greeted (mp_monitor (epeer xm_engine))" "allow_ok (mo_allow (mp_monitor (epeer xm_engine)))"
    "cl_tables (en_client xm_engine) = Some (hello_ack (mo_allow (mp_monitor (epeer xm_engine))))"
    using from_modules_ok [OF ex_allow_built]
    by (simp_all add: xm_engine_def engine_new_def ex_greeted_def ex_monitor_def monitor_new_def)
  show ?thesis by (intro exI, rule conjI [OF r(1) conjI [OF r(2) applied_commit_protects_write [OF r(1,2) s r(3) g]]])
qed

end
