(* ===== verification/Version.thy ===== *)
theory Version
  imports Dyn_Module
begin

text \<open>
  \<^verbatim>\<open>crates/detent-core/src/version.rs\<close>: dotted versions, their order, and the gate for options that need a newer
  service than the installed one; and the rest of the JSON adapter of \<^verbatim>\<open>module.rs\<close>, which runs the gate. A JSON value
  and the functions of \<^verbatim>\<open>serde_json\<close> on it are a parameter (\<open>json_ops\<close>); an object is listed in its iteration order.

  The walk over a schema follows references and may come back to where it was. It is written with fuel, one unit for each
  level of nesting, and running out of fuel is \<open>None\<close>: that the depth limit of the code ends the walk is a theorem.
\<close>

section \<open>Versions\<close>

abbreviation (input) DOT :: rchar where "DOT \<equiv> 46"

fun all_some :: "'a option list \<Rightarrow> 'a list option" where
  "all_some [] = Some []"
| "all_some (None # xs) = None"
| "all_some (Some x # xs) = map_option ((#) x) (all_some xs)"

definition version_components :: "rstr \<Rightarrow> nat list option" where
  "version_components s =
     (let run = trim_end_by (\<lambda>c. c = DOT) (takeWhile (\<lambda>c. is_ascii_digit c \<or> c = DOT) (trim_start s))
      in all_some (map (parse_uint u64_max) (split_by (\<lambda>c. c = DOT) run)))"

datatype ordering = Less | Equal | Greater

definition nat_cmp :: "nat \<Rightarrow> nat \<Rightarrow> ordering" where
  "nat_cmp a b = (if a < b then Less else if a = b then Equal else Greater)"

definition or_zero :: "nat list \<Rightarrow> nat \<Rightarrow> nat" where
  "or_zero xs i = (case get xs i of Some x \<Rightarrow> x | None \<Rightarrow> 0)"

text \<open>The loop over the indices.\<close>

fun compare_at :: "nat list \<Rightarrow> nat list \<Rightarrow> nat list \<Rightarrow> ordering" where
  "compare_at left right [] = Equal"
| "compare_at left right (i # is) =
     (case nat_cmp (or_zero left i) (or_zero right i) of
        Equal \<Rightarrow> compare_at left right is
      | unequal \<Rightarrow> unequal)"

definition version_compare :: "rstr \<Rightarrow> rstr \<Rightarrow> ordering option" where
  "version_compare left right =
     (case (version_components left, version_components right) of
        (Some l, Some r) \<Rightarrow> Some (compare_at l r [0 ..< max (length l) (length r)])
      | _ \<Rightarrow> None)"

definition at_least :: "rstr \<Rightarrow> rstr \<Rightarrow> bool option" where
  "at_least installed required = map_option (\<lambda>c. c \<noteq> Less) (version_compare installed required)"

section \<open>The gate\<close>

definition VERSION_TOO_OLD :: rstr where "VERSION_TOO_OLD = lit ''core-version-too-old''"
definition VERSION_UNKNOWN :: rstr where "VERSION_UNKNOWN = lit ''core-version-unknown''"

definition since_diagnostic :: "host_profile \<Rightarrow> rstr \<Rightarrow> rstr \<Rightarrow> rstr \<Rightarrow> rstr \<Rightarrow> diagnostic option" where
  "since_diagnostic profile svc option_name since field =
     (let unknown_version = with_arg (lit ''service'') svc (with_arg (lit ''since'') since (with_arg (lit ''option'') option_name
            (with_field field (diagnostic_new Warning VERSION_UNKNOWN))))
      in case service_version profile svc of
           None \<Rightarrow> Some unknown_version
         | Some installed \<Rightarrow>
             (case at_least installed since of
                Some True \<Rightarrow> None
              | Some False \<Rightarrow>
                  Some (with_arg (lit ''installed'') installed (with_arg (lit ''service'') svc (with_arg (lit ''since'') since
                    (with_arg (lit ''option'') option_name (with_field field (diagnostic_new Error VERSION_TOO_OLD))))))
              | None \<Rightarrow> Some unknown_version))"

record 'j json_ops =
  js_is_null :: "'j \<Rightarrow> bool"
  js_as_array :: "'j \<Rightarrow> 'j list option"
  js_as_object :: "'j \<Rightarrow> (rstr \<times> 'j) list option"
  js_as_str :: "'j \<Rightarrow> rstr option"
  js_get :: "'j \<Rightarrow> rstr \<Rightarrow> 'j option"
  js_pointer :: "'j \<Rightarrow> rstr \<Rightarrow> 'j option"

definition MAX_SCHEMA_DEPTH :: nat where "MAX_SCHEMA_DEPTH = 16"

definition join_path :: "rstr \<Rightarrow> rstr \<Rightarrow> rstr" where
  "join_path base name = (if base = [] then name else base @ lit ''/'' @ name)"

fun fold_opt :: "('x \<Rightarrow> 's \<Rightarrow> 's option) \<Rightarrow> 'x list \<Rightarrow> 's \<Rightarrow> 's option" where
  "fold_opt f [] s = Some s"
| "fold_opt f (x # xs) s = Option.bind (f x s) (fold_opt f xs)"

definition js_unset :: "'j json_ops \<Rightarrow> 'j \<Rightarrow> bool" where
  "js_unset J val = (js_is_null J val \<or> js_as_array J val = Some [])"

definition js_since :: "'j json_ops \<Rightarrow> 'j \<Rightarrow> rstr option" where
  "js_since J schema = Option.bind (js_pointer J schema (lit ''/x-detent/since'')) (js_as_str J)"

definition js_ref :: "'j json_ops \<Rightarrow> 'j \<Rightarrow> 'j \<Rightarrow> 'j option" where
  "js_ref J root schema =
     Option.bind (js_get J schema (lit ''$ref'')) (\<lambda>r.
     Option.bind (js_as_str J r) (\<lambda>reference.
     Option.bind (strip_prefix (lit ''#'') reference) (js_pointer J root)))"

definition js_branches :: "'j json_ops \<Rightarrow> 'j \<Rightarrow> 'j list" where
  "js_branches J schema =
     concat (map (\<lambda>keyword. case Option.bind (js_get J schema keyword) (js_as_array J) of Some bs \<Rightarrow> bs | None \<Rightarrow> [])
       [lit ''anyOf'', lit ''oneOf'', lit ''allOf''])"

definition note_since :: "rstr \<Rightarrow> rstr option \<Rightarrow> (rstr \<times> rstr) list \<Rightarrow> (rstr \<times> rstr) list" where
  "note_since path since found =
     (case since of
        Some s \<Rightarrow> if (path, s) \<in> set found then found else found @ [(path, s)]
      | None \<Rightarrow> found)"

definition next_depth :: "nat \<Rightarrow> nat" where
  "next_depth depth = sat_add u64_max depth 1"

fun collect ::
  "nat \<Rightarrow> 'j json_ops \<Rightarrow> 'j \<Rightarrow> 'j \<Rightarrow> 'j \<Rightarrow> rstr \<Rightarrow> nat \<Rightarrow> (rstr \<times> rstr) list \<Rightarrow> (rstr \<times> rstr) list option" where
  "collect 0 J root schema val path depth found = None"
| "collect (Suc n) J root schema val path depth found =
     (if MAX_SCHEMA_DEPTH < depth \<or> js_unset J val then Some found
      else
        (let deeper = next_depth depth in
         Option.bind (case js_ref J root schema of
              Some t \<Rightarrow> collect n J root t val path deeper (note_since path (js_since J schema) found)
            | None \<Rightarrow> Some (note_since path (js_since J schema) found)) (\<lambda>f1.
         Option.bind (fold_opt (\<lambda>branch. collect n J root branch val path deeper) (js_branches J schema) f1) (\<lambda>f2.
         Option.bind (case (Option.bind (js_get J schema (lit ''properties'')) (js_as_object J), js_as_object J val) of
              (Some properties, Some object) \<Rightarrow>
                fold_opt (\<lambda>(name, property) f.
                    case map_of object name of
                      Some child \<Rightarrow> collect n J root property child (join_path path name) deeper f
                    | None \<Rightarrow> Some f) properties f2
            | _ \<Rightarrow> Some f2) (\<lambda>f3.
           case (js_get J schema (lit ''items''), js_as_array J val) of
             (Some items, Some array) \<Rightarrow>
               fold_opt (\<lambda>(index, child). collect n J root items child (join_path path (show_nat index)) deeper) (enumerate 0 array) f3
           | _ \<Rightarrow> Some f3)))))"

text \<open>Fuel that is enough (theorem \<open>schema_walk_ends\<close>).\<close>

definition WALK_FUEL :: nat where "WALK_FUEL = MAX_SCHEMA_DEPTH + 2"

definition since_gate :: "'j json_ops \<Rightarrow> 'j \<Rightarrow> 'j \<Rightarrow> host_profile \<Rightarrow> rstr \<Rightarrow> diagnostics" where
  "since_gate J schema model profile svc =
     (case collect WALK_FUEL J schema schema model [] 0 [] of
        Some found \<Rightarrow> filter_map (\<lambda>(path, since). since_diagnostic profile svc path since path) found
      | None \<Rightarrow> [])"

section \<open>The order of versions\<close>

lemma compare_at_spec:
  "compare_at l r [a ..< b] =
     (if \<forall>i. a \<le> i \<and> i < b \<longrightarrow> or_zero l i = or_zero r i then Equal
      else if \<exists>k. a \<le> k \<and> k < b \<and> (\<forall>i. a \<le> i \<and> i < k \<longrightarrow> or_zero l i = or_zero r i) \<and> or_zero l k < or_zero r k then Less else Greater)"
proof (induction "b - a" arbitrary: a)
  case 0
  then show ?case by simp
next
  case (Suc n)
  then have ab: "a < b" "[a ..< b] = a # [Suc a ..< b]" by (auto simp: upt_conv_Cons)
  note IH = Suc.hyps(1) [of "Suc a"]
  have n: "n = b - Suc a" using Suc.hyps(2) by simp
  consider (lt) "or_zero l a < or_zero r a" | (gt) "or_zero r a < or_zero l a" | (eq) "or_zero l a = or_zero r a" by linarith
  then show ?case
  proof cases
    case lt
    then have "\<not> (\<forall>i. a \<le> i \<and> i < b \<longrightarrow> or_zero l i = or_zero r i)"
      "\<exists>k. a \<le> k \<and> k < b \<and> (\<forall>i. a \<le> i \<and> i < k \<longrightarrow> or_zero l i = or_zero r i) \<and> or_zero l k < or_zero r k"
      using ab(1) by (auto intro!: exI [of _ a])
    then show ?thesis using lt ab(2) by (simp add: nat_cmp_def)
  next
    case gt
    have "\<not> (\<forall>i. a \<le> i \<and> i < b \<longrightarrow> or_zero l i = or_zero r i)" using gt ab(1) by (metis le_refl less_irrefl)
    moreover have "\<not> (\<exists>k. a \<le> k \<and> k < b \<and> (\<forall>i. a \<le> i \<and> i < k \<longrightarrow> or_zero l i = or_zero r i) \<and> or_zero l k < or_zero r k)"
      using gt by (metis le_eq_less_or_eq less_irrefl less_not_sym)
    ultimately show ?thesis using gt ab(2) by (simp add: nat_cmp_def)
  next
    case eq
    have all: "(\<forall>i. a \<le> i \<and> i < m \<longrightarrow> or_zero l i = or_zero r i) \<longleftrightarrow> (\<forall>i. Suc a \<le> i \<and> i < m \<longrightarrow> or_zero l i = or_zero r i)" for m
      using eq by (metis Suc_leI Suc_leD le_eq_less_or_eq)
    have ex: "(\<exists>k. a \<le> k \<and> k < b \<and> (\<forall>i. a \<le> i \<and> i < k \<longrightarrow> or_zero l i = or_zero r i) \<and> or_zero l k < or_zero r k)
       \<longleftrightarrow> (\<exists>k. Suc a \<le> k \<and> k < b \<and> (\<forall>i. Suc a \<le> i \<and> i < k \<longrightarrow> or_zero l i = or_zero r i) \<and> or_zero l k < or_zero r k)"
      unfolding all using eq by (metis Suc_leI Suc_leD le_eq_less_or_eq less_irrefl)
    have "compare_at l r [a ..< b] = compare_at l r [Suc a ..< b]" using eq ab(2) by (simp add: nat_cmp_def)
    then show ?thesis unfolding ex unfolding all using IH [OF n] by (rule trans)
  qed
qed

lemma or_zero_beyond: "length xs \<le> i \<Longrightarrow> or_zero xs i = 0"
  by (simp add: or_zero_def get_def)

text \<open>Versions are compared as sequences of numbers that go on with zeros for ever, in lexicographic order: the comparison
  is unknown exactly when one side is not a version, \<open>Equal\<close> when the sequences agree, and \<open>Less\<close> when the left one is smaller
  at the first place where they differ.\<close>

theorem version_compare_lexicographic:
  "version_compare left right =
     (case (version_components left, version_components right) of
        (Some l, Some r) \<Rightarrow>
          Some (if or_zero l = or_zero r then Equal
                else if \<exists>k. or_zero l k < or_zero r k \<and> map (or_zero l) [0 ..< k] = map (or_zero r) [0 ..< k] then Less
                else Greater)
      | _ \<Rightarrow> None)"
proof (cases "version_components left"; cases "version_components right")
  fix l r assume c: "version_components left = Some l" "version_components right = Some r"
  let ?b = "max (length l) (length r)"
  have beyond: "or_zero l i = 0 \<and> or_zero r i = 0" if "?b \<le> i" for i using that by (simp add: or_zero_beyond)
  have all: "(\<forall>i. 0 \<le> i \<and> i < ?b \<longrightarrow> or_zero l i = or_zero r i) \<longleftrightarrow> or_zero l = or_zero r"
  proof
    assume "\<forall>i. 0 \<le> i \<and> i < ?b \<longrightarrow> or_zero l i = or_zero r i"
    then have "or_zero l i = or_zero r i" for i using beyond [of i] by (cases "i < ?b") (auto simp: not_less)
    then show "or_zero l = or_zero r" by (rule ext)
  qed simp
  have ex: "(\<exists>k. 0 \<le> k \<and> k < ?b \<and> (\<forall>i. 0 \<le> i \<and> i < k \<longrightarrow> or_zero l i = or_zero r i) \<and> or_zero l k < or_zero r k)
     \<longleftrightarrow> (\<exists>k. or_zero l k < or_zero r k \<and> map (or_zero l) [0 ..< k] = map (or_zero r) [0 ..< k])"
  proof -
    have "k < ?b" if "or_zero l k < or_zero r k" for k using beyond [of k] that by (cases "k < ?b") (auto simp: not_less)
    moreover have "map (or_zero l) [0 ..< k] = map (or_zero r) [0 ..< k] \<longleftrightarrow> (\<forall>i. 0 \<le> i \<and> i < k \<longrightarrow> or_zero l i = or_zero r i)" for k
      by (auto simp: map_eq_conv)
    ultimately show ?thesis by blast
  qed
  show ?thesis using compare_at_spec [of l r 0 ?b] unfolding all ex by (simp add: version_compare_def c)
qed (simp_all add: version_compare_def)

section \<open>The walk over a schema\<close>

lemma fold_opt_total: "(\<And>x s. \<exists>t. f x s = Some t) \<Longrightarrow> \<exists>t. fold_opt f xs s = Some t"
proof (induction xs arbitrary: s)
  case (Cons x xs)
  obtain t where "f x s = Some t" using Cons.prems by blast
  moreover obtain u where "fold_opt f xs t = Some u" using Cons.IH [OF Cons.prems] by blast
  ultimately show ?case by simp
qed simp

lemma fold_opt_more: "(\<And>x s t. f x s = Some t \<Longrightarrow> g x s = Some t) \<Longrightarrow> fold_opt f xs s = Some t \<Longrightarrow> fold_opt g xs s = Some t"
  by (induction xs arbitrary: s) (auto simp: Option.bind_eq_Some_conv)

lemma both_total: "(\<And>a b. \<exists>t. g a b = Some t) \<Longrightarrow> \<exists>t. (case (x, y) of (Some a, Some b) \<Rightarrow> g a b | _ \<Rightarrow> Some s) = Some t"
  by (cases x; cases y) auto

lemma collect_enough:
  assumes "0 < n" and "MAX_SCHEMA_DEPTH + 2 \<le> n + depth"
  shows "\<exists>out. collect n J root schema val path depth found = Some out"
  using assms
proof (induction n arbitrary: schema val path depth found)
  case (Suc n)
  show ?case
  proof (cases "MAX_SCHEMA_DEPTH < depth \<or> js_unset J val")
    case False
    let ?d = "next_depth depth"
    have d: "?d = Suc depth" using False by (simp add: next_depth_def sat_add_def u64_max_def MAX_SCHEMA_DEPTH_def)
    have total: "\<exists>out. collect n J root s v p ?d f = Some out" for s v p f
      using Suc.prems False by (intro Suc.IH) (auto simp: d)
    obtain f1 where 1: "(case js_ref J root schema of
              Some t \<Rightarrow> collect n J root t val path ?d (note_since path (js_since J schema) found)
            | None \<Rightarrow> Some (note_since path (js_since J schema) found)) = Some f1"
      using total [of "the (js_ref J root schema)" val path "note_since path (js_since J schema) found"]
      by (cases "js_ref J root schema") auto
    obtain f2 where 2: "fold_opt (\<lambda>branch. collect n J root branch val path ?d) (js_branches J schema) f1 = Some f2"
      using fold_opt_total [of "\<lambda>branch. collect n J root branch val path ?d"] total by blast
    obtain f3 where 3: "(case (Option.bind (js_get J schema (lit ''properties'')) (js_as_object J), js_as_object J val) of
              (Some properties, Some object) \<Rightarrow>
                fold_opt (\<lambda>(name, property) f.
                    case map_of object name of
                      Some child \<Rightarrow> collect n J root property child (join_path path name) ?d f
                    | None \<Rightarrow> Some f) properties f2
            | _ \<Rightarrow> Some f2) = Some f3"
    proof -
      have "\<exists>t. fold_opt (\<lambda>(name, property) f.
                    case map_of ob name of
                      Some child \<Rightarrow> collect n J root property child (join_path path name) ?d f
                    | None \<Rightarrow> Some f) ps f2 = Some t" for ob ps
        by (rule fold_opt_total) (use total in \<open>auto split: option.splits\<close>)
      from both_total [where g = "\<lambda>ps ob. fold_opt (\<lambda>(name, property) f.
                    case map_of ob name of
                      Some child \<Rightarrow> collect n J root property child (join_path path name) ?d f
                    | None \<Rightarrow> Some f) ps f2", OF this] show thesis using that by blast
    qed
    have "\<exists>t. fold_opt (\<lambda>(index, child). collect n J root it child (join_path path (show_nat index)) ?d) xs f3 = Some t" for it xs
      by (rule fold_opt_total) (use total in auto)
    then show ?thesis using False 1 2 3 by (auto simp: Let_def split: option.splits)
  qed simp
qed simp

lemma collect_more: "collect n J root schema val path depth found = Some out \<Longrightarrow> collect (Suc n) J root schema val path depth found = Some out"
proof (induction n arbitrary: schema val path depth found out)
  case (Suc n)
  show ?case
  proof (cases "MAX_SCHEMA_DEPTH < depth \<or> js_unset J val")
    case True
    then show ?thesis using Suc.prems by auto
  next
    case False
    let ?d = "next_depth depth"
    obtain f1 f2 f3 where r: "(case js_ref J root schema of
              Some t \<Rightarrow> collect n J root t val path ?d (note_since path (js_since J schema) found)
            | None \<Rightarrow> Some (note_since path (js_since J schema) found)) = Some f1"
      "fold_opt (\<lambda>branch. collect n J root branch val path ?d) (js_branches J schema) f1 = Some f2"
      "(case (Option.bind (js_get J schema (lit ''properties'')) (js_as_object J), js_as_object J val) of
              (Some properties, Some object) \<Rightarrow>
                fold_opt (\<lambda>(name, property) f.
                    case map_of object name of
                      Some child \<Rightarrow> collect n J root property child (join_path path name) ?d f
                    | None \<Rightarrow> Some f) properties f2
            | _ \<Rightarrow> Some f2) = Some f3"
      "(case (js_get J schema (lit ''items''), js_as_array J val) of
             (Some items, Some array) \<Rightarrow>
               fold_opt (\<lambda>(index, child). collect n J root items child (join_path path (show_nat index)) ?d) (enumerate 0 array) f3
           | _ \<Rightarrow> Some f3) = Some out"
      using Suc.prems False by (auto simp: Let_def Option.bind_eq_Some_conv simp del: case_prod_unfold)
    note more = Suc.IH
    have 1: "(case js_ref J root schema of
              Some t \<Rightarrow> collect (Suc n) J root t val path ?d (note_since path (js_since J schema) found)
            | None \<Rightarrow> Some (note_since path (js_since J schema) found)) = Some f1"
      using r(1) more by (auto split: option.splits simp del: collect.simps)
    have 2: "fold_opt (\<lambda>branch. collect (Suc n) J root branch val path ?d) (js_branches J schema) f1 = Some f2"
      by (rule fold_opt_more [OF more r(2)])
    have props: "fold_opt (\<lambda>(name, property) f. case map_of ob name of
                      Some child \<Rightarrow> collect (Suc n) J root property child (join_path path name) ?d f
                    | None \<Rightarrow> Some f) ps f2 = Some f3"
      if "fold_opt (\<lambda>(name, property) f. case map_of ob name of
                      Some child \<Rightarrow> collect n J root property child (join_path path name) ?d f
                    | None \<Rightarrow> Some f) ps f2 = Some f3" for ob ps
      by (rule fold_opt_more [OF _ that]) (use more in \<open>auto split: option.splits simp del: collect.simps\<close>)
    have items: "fold_opt (\<lambda>(index, child). collect (Suc n) J root it child (join_path path (show_nat index)) ?d) xs f3 = Some out"
      if "fold_opt (\<lambda>(index, child). collect n J root it child (join_path path (show_nat index)) ?d) xs f3 = Some out" for it xs
      by (rule fold_opt_more [OF _ that]) (use more in \<open>auto simp del: collect.simps\<close>)
    show ?thesis unfolding collect.simps(2) [of "Suc n"] Let_def using False 1 2 r(3,4) props items
      by (auto split: option.splits simp del: collect.simps)
  qed
qed simp

text \<open>C22. The walk over a schema ends. Whatever the schema refers to, itself included, the walk nests no deeper than the depth
  limit allows: with fuel for that many levels it answers, and more fuel gives the same answer.\<close>

theorem schema_walk_ends:
  "\<exists>out. \<forall>n. collect (WALK_FUEL + n) J root schema val path depth found = Some out"
proof -
  obtain out where out: "collect WALK_FUEL J root schema val path depth found = Some out"
    using collect_enough [of WALK_FUEL depth J root schema val path found] by (auto simp: WALK_FUEL_def simp del: collect.simps)
  have "collect (WALK_FUEL + n) J root schema val path depth found = Some out" for n
    by (induction n) (use out collect_more in \<open>auto simp del: collect.simps\<close>)
  then show ?thesis by blast
qed

section \<open>The adapter\<close>

text \<open>What the adapter \<^verbatim>\<open>Dyn\<close> takes from a module besides its four functions on documents.\<close>

record ('d, 'm, 'j) full_module = "('d, 'm) config_module" +
  cm_id :: rstr
  cm_descriptor :: module_descriptor
  cm_validate :: "'m \<Rightarrow> host_profile \<Rightarrow> diagnostics"
  cm_defaults :: "host_profile \<Rightarrow> 'm"
  cm_model_target :: "'m \<Rightarrow> (edit_error, rstr option) result"
  cm_secret_pointers :: "rstr list"
  cm_schema :: 'j

definition module_base :: "('d, 'm, 'j) full_module \<Rightarrow> ('d, 'm) config_module" where
  "module_base M = \<lparr>cm_parse = cm_parse M, cm_render = cm_render M, cm_to_model = cm_to_model M, cm_apply = cm_apply M\<rparr>"

definition model_target_json ::
  "('d, 'm, 'j) full_module \<Rightarrow> ('j \<Rightarrow> (model_error, 'm) result) \<Rightarrow> 'j \<Rightarrow> (dyn_error, rstr option) result" where
  "model_target_json M from_json model_json =
     bind_result (map_err ModelErr (from_json model_json)) (\<lambda>model. map_err EditErr (cm_model_target M model))"

definition validate_json ::
  "'j json_ops \<Rightarrow> ('d, 'm, 'j) full_module \<Rightarrow> ('j \<Rightarrow> (model_error, 'm) result) \<Rightarrow> 'j \<Rightarrow> host_profile \<Rightarrow> (dyn_error, diagnostics) result" where
  "validate_json J M from_json model_json profile =
     bind_result (map_err ModelErr (from_json model_json)) (\<lambda>model.
       Inr (cm_validate M model profile
            @ since_gate J (cm_schema M) model_json profile (up_project (md_upstream (cm_descriptor M)))))"

definition defaults_json :: "('d, 'm, 'j) full_module \<Rightarrow> ('m \<Rightarrow> (model_error, 'j) result) \<Rightarrow> host_profile \<Rightarrow> (dyn_error, 'j) result" where
  "defaults_json M to_json profile = map_err ModelErr (to_json (cm_defaults M profile))"

definition dyn_of ::
  "'j json_ops \<Rightarrow> ('m \<Rightarrow> (model_error, 'j) result) \<Rightarrow> ('j \<Rightarrow> (model_error, 'm) result) \<Rightarrow> ('d, 'm, 'j) full_module \<Rightarrow> 'j dyn_module" where
  "dyn_of J to_json from_json M =
     \<lparr>dm_id = cm_id M, dm_descriptor = cm_descriptor M, dm_secret_pointers = cm_secret_pointers M, dm_schema_json = cm_schema M,
      dm_model_target_json = model_target_json M from_json,
      dm_parse_to_model_json = parse_to_model_json (module_base M) to_json,
      dm_apply_json = apply_json (module_base M) from_json,
      dm_validate_json = validate_json J M from_json,
      dm_defaults_json = defaults_json M to_json\<rparr>"

text \<open>An option that the walk finds set and that needs a newer version than the known one makes the validation fail.\<close>

lemma too_new_is_error:
  assumes "collect WALK_FUEL J schema schema model [] 0 [] = Some found" and "(path, since) \<in> set found"
    and "service_version profile svc = Some installed" and "at_least installed since = Some False"
  shows "has_errors (since_gate J schema model profile svc)"
proof -
  let ?f = "\<lambda>(path, since). since_diagnostic profile svc path since path"
  obtain d where d: "?f (path, since) = Some d" "dg_severity d = Error" using assms(3,4) by (simp add: since_diagnostic_def Let_def)
  have "d \<in> set (filter_map ?f found)" using assms(2) d(1) by (induction found) (auto split: option.splits)
  then show ?thesis using assms(1) d(2) by (auto simp: since_gate_def has_errors_def list_ex_iff)
qed

end
