(* ===== verification/Version_Gate.thy ===== *)
theory Version_Gate
  imports Version Engine_Log
begin

text \<open>
  The version gate seen from the engine: a module behind the JSON adapter whose model sets an option the installed service
  is too old for is not applied.
\<close>

lemma gated_model_invalid:
  assumes "from_json model = Inr m" and "collect WALK_FUEL J (cm_schema M) (cm_schema M) model [] 0 [] = Some found"
    and "(path, since) \<in> set found" and "service_version profile (up_project (md_upstream (cm_descriptor M))) = Some installed"
    and "at_least installed since = Some False"
  shows "\<exists>ds. validate_json J M from_json model profile = Inr ds \<and> has_errors ds"
  using too_new_is_error [OF assms(2-5)] assms(1) by (simp add: validate_json_def bind_result_def)

lemma invalid_model_refused:
  assumes "permit who op = Inr ()" and "op = Apply i model expected action confirm" and "find_module (en_modules e) i = Inr x"
    and "dm_validate_json x model (de_profile (en_host e)) = Inr ds" and "has_errors ds"
  shows "en_client (snd (execute EE op who permit e)) = en_client e
    \<and> (fst (execute EE op who permit e) = Inl (OeInvalid ds) \<or> (\<exists>err. fst (execute EE op who permit e) = Inl (OeAuditUnavailable err)))"
proof -
  have v: "the_module i e' = (Inr x, e')" "validate_model x model e' = (Inr ds, e')" if "same_setup e e'" for e'
    using that assms(3,4) by (simp_all add: the_module_def validate_model_def same_setup_def map_err_with_def)
  have n: "apply_is_noop EE op e = (Inr False, e)"
    using v [of e] assms(2,5) by (simp add: apply_is_noop_def ebind_def eret_def)
  have a: "dispatch_op EE op e' = (Inl (OeInvalid ds), e')" if "same_setup e e'" for e'
    using v [OF that] assms(2,5) by (simp add: apply_op_def ebind_def efail_def)
  have mut: "is_mutating op" using assms(2) by (simp add: is_mutating_def)
  let ?m = "case op_module op of Some i \<Rightarrow> map_option (\<lambda>m. md_id (dm_descriptor m)) (find (\<lambda>m. dm_id m = i) (en_modules e)) | None \<Rightarrow> None"
  obtain rec e1 where rec: "new_record EE who (op_kind_of op) ?m RStarted e = (rec, e1)" by force
  obtain s e2 where s: "emit EE rec e1 = (s, e2)" by force
  have f: "same_setup e e2" "en_client e2 = en_client e"
    using emit_frame [of e1 EE rec] new_record_frame [of e EE who "op_kind_of op" ?m RStarted] rec s by (auto intro: same_setup_trans)
  let ?e = "e2\<lparr>en_hashes := hashes_default\<rparr>"
  have d: "dispatch_op EE op ?e = (Inl (OeInvalid ds), ?e)" by (rule a [OF same_setup_trans [OF f(1)]]) simp
  obtain rec' e4 where o4: "outcome_record EE who (op_kind_of op) ?m (Inl (OeInvalid ds) :: (ops_error, 'a op_outcome) result) ?e = (rec', e4)" by force
  have c4: "en_client e4 = en_client e" using outcome_frame [of EE who "op_kind_of op" ?m "Inl (OeInvalid ds)" ?e] o4 f(2) by simp
  have run: "execute EE op who permit e =
      (case s of Inl err \<Rightarrow> (Inl (OeAuditUnavailable err), e2) | Inr _ \<Rightarrow> (Inl (OeInvalid ds), snd (emit EE rec' e4)))"
    using assms(1) mut n rec s d o4 by (cases s) (simp_all add: execute_def Let_def)
  show ?thesis using f(2) c4 emit_frame [of e4 EE rec'] by (cases s) (simp_all add: run)
qed

text \<open>C23. An option the installed service does not know is not applied. When the walk over the schema of a module finds
  an option set that needs a newer version than the one detected, an apply of that model is refused as invalid, or because the audit
  log is unavailable, and the monitor is asked nothing.\<close>

theorem too_new_option_refused:
  assumes "permit who (Apply i model expected action confirm) = Inr ()"
    and "find_module (en_modules e) i = Inr (dyn_of J to_json from_json M)" and "from_json model = Inr m"
    and "collect WALK_FUEL J (cm_schema M) (cm_schema M) model [] 0 [] = Some found" and "(path, since) \<in> set found"
    and "service_version (de_profile (en_host e)) (up_project (md_upstream (cm_descriptor M))) = Some installed"
    and "at_least installed since = Some False"
  shows "en_client (snd (execute EE (Apply i model expected action confirm) who permit e)) = en_client e
    \<and> ((\<exists>ds. fst (execute EE (Apply i model expected action confirm) who permit e) = Inl (OeInvalid ds) \<and> has_errors ds)
       \<or> (\<exists>err. fst (execute EE (Apply i model expected action confirm) who permit e) = Inl (OeAuditUnavailable err)))"
proof -
  obtain ds where "validate_json J M from_json model (de_profile (en_host e)) = Inr ds" "has_errors ds"
    using gated_model_invalid [where from_json = from_json and model = model, OF assms(3-7)] by blast
  then show ?thesis using invalid_model_refused [where permit = permit, OF assms(1) refl assms(2), of ds EE] by (auto simp: dyn_of_def)
qed

section \<open>A concrete module\<close>

datatype xj = XNull | XStr rstr | XObj "(rstr \<times> xj) list"

definition xj_ops :: "xj json_ops" where
  "xj_ops = \<lparr>js_is_null = (\<lambda>v. v = XNull), js_as_array = (\<lambda>_. None), js_as_object = (\<lambda>v. case v of XObj m \<Rightarrow> Some m | _ \<Rightarrow> None),
     js_as_str = (\<lambda>v. case v of XStr s \<Rightarrow> Some s | _ \<Rightarrow> None),
     js_get = (\<lambda>v k. case v of XObj m \<Rightarrow> map_of m k | _ \<Rightarrow> None),
     js_pointer = (\<lambda>v p. if p = [] then Some v else case v of XObj m \<Rightarrow> map_of m p | _ \<Rightarrow> None)\<rparr>"

text \<open>A schema that refers to itself and has one gated option.\<close>

definition xj_schema :: xj where
  "xj_schema = XObj [(lit ''$ref'', XStr (lit ''#'')),
     (lit ''properties'', XObj [(lit ''port'', XObj [(lit ''/x-detent/since'', XStr (lit ''4.10''))])])]"

definition xj_model :: xj where
  "xj_model = XObj [(lit ''port'', XStr (lit ''1''))]"

definition xj_module :: "(unit, unit, xj) full_module" where
  "xj_module = \<lparr>cm_parse = (\<lambda>_. Inr ()), cm_render = (\<lambda>_. []), cm_to_model = (\<lambda>_. Inr ()), cm_apply = (\<lambda>_ _. Inl (Unsupported [])),
     cm_id = lit ''hosts'', cm_descriptor = ex_descriptor\<lparr>md_upstream := (md_upstream ex_descriptor)\<lparr>up_project := lit ''samba''\<rparr>\<rparr>,
     cm_validate = (\<lambda>_ _. []), cm_defaults = (\<lambda>_. ()), cm_model_target = (\<lambda>_. Inr None), cm_secret_pointers = [], cm_schema = xj_schema\<rparr>"

definition xj_engine :: "(xj, response list, audit_record list) engine" where
  "xj_engine = engine_new [dyn_of xj_ops (\<lambda>_. Inr XNull) (\<lambda>_. Inr ()) xj_module]
     \<lparr>cl_peer = [], cl_tables = Some (hello_ack ex_allow), cl_log = []\<rparr>
     (xe_host\<lparr>de_profile := ex_profile\<lparr>hp_service_versions := [(lit ''samba'', lit ''4.9.5-Debian'')]\<rparr>\<rparr>) []"

lemma xj_found: "collect WALK_FUEL xj_ops xj_schema xj_schema xj_model [] 0 [] = Some [(lit ''port'', lit ''4.10'')]"
  by code_simp

lemma xj_old: "at_least (lit ''4.9.5-Debian'') (lit ''4.10'') = Some False"
  by code_simp

theorem too_new_option_refused_witness:
  "en_client (snd (execute xe_env (Apply (lit ''hosts'') xj_model None None None) xe_who allow_all_permit xj_engine)) = en_client xj_engine
    \<and> ((\<exists>ds. fst (execute xe_env (Apply (lit ''hosts'') xj_model None None None) xe_who allow_all_permit xj_engine) = Inl (OeInvalid ds) \<and> has_errors ds)
       \<or> (\<exists>err. fst (execute xe_env (Apply (lit ''hosts'') xj_model None None None) xe_who allow_all_permit xj_engine) = Inl (OeAuditUnavailable err)))"
proof -
  have f: "find_module (en_modules xj_engine) (lit ''hosts'') = Inr (dyn_of xj_ops (\<lambda>_. Inr XNull) (\<lambda>_. Inr ()) xj_module)"
    by (simp add: xj_engine_def engine_new_def find_module_def dyn_of_def xj_module_def)
  have s: "cm_schema xj_module = xj_schema" "up_project (md_upstream (cm_descriptor xj_module)) = lit ''samba''"
    by (simp_all add: xj_module_def)
  have v: "service_version (de_profile (en_host xj_engine)) (lit ''samba'') = Some (lit ''4.9.5-Debian'')"
    by (simp add: xj_engine_def engine_new_def service_version_def)
  show ?thesis
    by (rule too_new_option_refused [where permit = allow_all_permit and m = "()", OF allow_all_permit_def f refl xj_found [folded s(1)] _ v [folded s(2)] xj_old]) simp
qed

end
