(* ===== verification/Bundle.thy ===== *)
theory Bundle
  imports Text_Ops
begin

text \<open>
  \<^verbatim>\<open>crates/detent-update/src/bundle.rs\<close>: the signature bundle of a release as JSON, and the decoded view the verifier
  consumes. JSON and base64 are parameters: \<open>bn_json\<close> is \<^verbatim>\<open>serde_json\<close> with the derived shapes (an error carries its
  text), \<open>bn_statement\<close> the same for the statement, \<open>bn_b64\<close> the standard alphabet. A struct with a single field
  (\<^verbatim>\<open>LogIdJson\<close>, \<^verbatim>\<open>CheckpointJson\<close>, \<^verbatim>\<open>SignatureJson\<close> and their like) stands as that field.
\<close>

section \<open>Limits and names\<close>

definition MAX_BUNDLE_BYTES :: nat where "MAX_BUNDLE_BYTES = 2 ^ 20"
definition MAX_INCLUSION_PATH :: nat where "MAX_INCLUSION_PATH = 64"
definition MAX_RFC3161_TIMESTAMPS :: nat where "MAX_RFC3161_TIMESTAMPS = 4"
definition MEDIA_TYPE :: rstr where "MEDIA_TYPE = lit ''application/vnd.dev.sigstore.bundle.v0.3+json''"
definition REKOR_V2_KIND :: "rstr \<times> rstr" where "REKOR_V2_KIND = (lit ''hashedrekord'', lit ''0.0.2'')"
definition DSSE_PAYLOAD_TYPE :: rstr where "DSSE_PAYLOAD_TYPE = lit ''application/vnd.in-toto+json''"
definition LEGACY_DSSE_PAYLOAD_TYPE :: rstr where "LEGACY_DSSE_PAYLOAD_TYPE = lit ''application/vnd.dsse.envelope.v1+json''"
definition STATEMENT_TYPE :: rstr where "STATEMENT_TYPE = lit ''https://in-toto.io/Statement/v1''"

datatype bundle_error =
    BeOversized
  | BeMalformed rstr
  | BeBadMediaType rstr
  | BeBadBase64 rstr
  | BeBadStatement rstr

section \<open>The bundle as JSON\<close>

datatype certificate_json = CertRaw rstr | CertWrapped rstr

fun cert_text :: "certificate_json \<Rightarrow> rstr" where
  "cert_text (CertRaw r) = r"
| "cert_text (CertWrapped r) = r"

record inclusion_proof_json =
  ip_log_index :: int
  ip_tree_size :: nat
  ip_checkpoint :: rstr
  ip_hashes :: "rstr list"

record tlog_entry_json =
  tl_log_index :: int
  tl_integrated_time :: "int option"
  tl_key_id :: rstr
  tl_kind :: rstr
  tl_version :: rstr
  tl_body :: rstr
  tl_promise :: "rstr option"
  tl_proof :: inclusion_proof_json

record verification_material_json =
  vm_chain :: "certificate_json list option"
  vm_certificate :: "certificate_json option"
  vm_tlog :: "tlog_entry_json list"
  vm_timestamps :: "rstr list option"

record dsse_envelope_json =
  ds_payload_type :: rstr
  ds_payload :: rstr
  ds_signatures :: "rstr list"

record bundle_json =
  bj_media_type :: rstr
  bj_material :: verification_material_json
  bj_envelope :: dsse_envelope_json

section \<open>The decoded bundle\<close>

record subject =
  sj_name :: rstr
  sj_sha256 :: rstr

record statement =
  sm_type :: rstr
  sm_subject :: "subject list"

record decoded =
  dc_integrated_time :: int
  dc_certs :: "bytes list"
  dc_statement :: statement
  dc_dsse_payload :: bytes
  dc_dsse_payload_type :: rstr
  dc_dsse_signature :: bytes
  dc_log_index :: int
  dc_log_key_id :: bytes
  dc_kind :: rstr
  dc_kind_version :: rstr
  dc_body :: bytes
  dc_tree_size :: nat
  dc_proof_log_index :: int
  dc_path_hashes :: "bytes list"
  dc_checkpoint :: rstr
  dc_signed_entry_timestamp :: bytes
  dc_rfc3161_timestamps :: "bytes list"

definition is_rekor_v2 :: "decoded \<Rightarrow> bool" where
  "is_rekor_v2 d \<longleftrightarrow> (dc_kind d, dc_kind_version d) = REKOR_V2_KIND"

section \<open>Parsing\<close>

record bundle_env =
  bn_json :: "bytes \<Rightarrow> (rstr, bundle_json) result"
  bn_statement :: "bytes \<Rightarrow> statement option"
  bn_b64 :: "bytes \<Rightarrow> bytes option"

definition ok_or :: "'e \<Rightarrow> 'a option \<Rightarrow> ('e, 'a) result" where
  "ok_or err x = (case x of Some y \<Rightarrow> Inr y | None \<Rightarrow> Inl err)"

fun map_results :: "('a \<Rightarrow> ('e, 'b) result) \<Rightarrow> 'a list \<Rightarrow> ('e, 'b list) result" where
  "map_results f [] = Inr []"
| "map_results f (x # xs) = bind_result (f x) (\<lambda>y. bind_result (map_results f xs) (\<lambda>ys. Inr (y # ys)))"

definition decode_b64 :: "('x) bundle_env_scheme \<Rightarrow> rstr \<Rightarrow> rstr \<Rightarrow> (bundle_error, bytes) result" where
  "decode_b64 B txt_field field = ok_or (BeBadBase64 field) (bn_b64 B (as_bytes txt_field))"

definition signed_time :: "'x bundle_env_scheme \<Rightarrow> tlog_entry_json \<Rightarrow> (bundle_error, int \<times> bytes) result" where
  "signed_time B tlog =
     (if (tl_kind tlog, tl_version tlog) = REKOR_V2_KIND then Inr (0, [])
      else bind_result (ok_or (BeMalformed (lit ''no inclusionPromise (SET)'')) (tl_promise tlog)) (\<lambda>promise.
           bind_result (ok_or (BeMalformed (lit ''no integratedTime'')) (tl_integrated_time tlog)) (\<lambda>time.
           bind_result (decode_b64 B promise (lit ''signed entry timestamp'')) (\<lambda>set. Inr (time, set)))))"

definition rfc3161_timestamps :: "'x bundle_env_scheme \<Rightarrow> verification_material_json \<Rightarrow> (bundle_error, bytes list) result" where
  "rfc3161_timestamps B material =
     (let timestamps = (case vm_timestamps material of Some ts \<Rightarrow> ts | None \<Rightarrow> []) in
      if length timestamps > MAX_RFC3161_TIMESTAMPS
      then Inl (BeMalformed (lit ''more than '' @ show_nat MAX_RFC3161_TIMESTAMPS @ lit '' RFC 3161 timestamps''))
      else map_results (\<lambda>t. decode_b64 B t (lit ''rfc3161 timestamp'')) timestamps)"

definition decode_path :: "'x bundle_env_scheme \<Rightarrow> rstr list \<Rightarrow> (bundle_error, bytes list) result" where
  "decode_path B hashes =
     (if length hashes > MAX_INCLUSION_PATH
      then Inl (BeMalformed (lit ''inclusion path is longer than '' @ show_nat MAX_INCLUSION_PATH @ lit '' hashes''))
      else map_results (\<lambda>h. decode_b64 B h (lit ''inclusion path hash'')) hashes)"

definition cert_list :: "verification_material_json \<Rightarrow> certificate_json list" where
  "cert_list m =
     (case vm_chain m of
        Some cs \<Rightarrow> cs
      | None \<Rightarrow> (case vm_certificate m of Some c \<Rightarrow> [c] | None \<Rightarrow> []))"

definition hexdigit_byte :: "nat \<Rightarrow> bool" where
  "hexdigit_byte c \<longleftrightarrow> is_ascii_digit c \<or> 65 \<le> c \<and> c \<le> 70 \<or> 97 \<le> c \<and> c \<le> 102"

definition hex_digest :: "rstr \<Rightarrow> bool" where
  "hex_digest s \<longleftrightarrow> \<not> (length (as_bytes s) \<noteq> 64 \<or> \<not> list_all hexdigit_byte (as_bytes s))"

definition parse_statement :: "'x bundle_env_scheme \<Rightarrow> bytes \<Rightarrow> (bundle_error, statement) result" where
  "parse_statement B payload =
     bind_result (ok_or (BeBadStatement (lit ''unparsable'')) (bn_statement B payload)) (\<lambda>statement.
       if sm_type statement \<noteq> STATEMENT_TYPE then Inl (BeBadStatement (lit ''wrong _type''))
       else if sm_subject statement = [] then Inl (BeBadStatement (lit ''no subjects''))
       else if list_ex (\<lambda>s. \<not> hex_digest (sj_sha256 s)) (sm_subject statement)
       then Inl (BeBadStatement (lit ''subject digest is not hex sha256''))
       else Inr statement)"

text \<open>The envelope: its payload, its type and its one signature.\<close>

definition parse_envelope :: "'x bundle_env_scheme \<Rightarrow> dsse_envelope_json \<Rightarrow> (bundle_error, bytes \<times> bytes) result" where
  "parse_envelope B e =
     bind_result (decode_b64 B (ds_payload e) (lit ''dsse payload'')) (\<lambda>payload.
     if ds_payload_type e \<noteq> DSSE_PAYLOAD_TYPE \<and> ds_payload_type e \<noteq> LEGACY_DSSE_PAYLOAD_TYPE
     then Inl (BeMalformed (lit ''unexpected DSSE payload type: '' @ ds_payload_type e))
     else if length (ds_signatures e) \<noteq> 1
     then Inl (BeMalformed (lit ''Sigstore bundles must carry exactly one DSSE signature''))
     else bind_result (ok_or (BeMalformed (lit ''no DSSE signatures'')) (get (ds_signatures e) 0)) (\<lambda>sig.
          bind_result (decode_b64 B sig (lit ''dsse signature'')) (\<lambda>signature.
          Inr (payload, signature))))"

definition decode_fields ::
  "'x bundle_env_scheme \<Rightarrow> bundle_json \<Rightarrow> tlog_entry_json \<Rightarrow> bytes \<times> bytes \<Rightarrow> statement \<Rightarrow> bytes list \<Rightarrow> (bundle_error, decoded) result" where
  "decode_fields B json tlog ps statement certs =
     bind_result (signed_time B tlog) (\<lambda>(time, set).
     bind_result (rfc3161_timestamps B (bj_material json)) (\<lambda>stamps.
     bind_result (decode_b64 B (tl_key_id tlog) (lit ''log key id'')) (\<lambda>key_id.
     bind_result (decode_b64 B (tl_body tlog) (lit ''canonicalized body'')) (\<lambda>body.
     bind_result (decode_path B (ip_hashes (tl_proof tlog))) (\<lambda>hashes.
       Inr \<lparr>dc_integrated_time = time, dc_certs = certs, dc_statement = statement, dc_dsse_payload = fst ps,
         dc_dsse_payload_type = ds_payload_type (bj_envelope json), dc_dsse_signature = snd ps, dc_log_index = tl_log_index tlog,
         dc_log_key_id = key_id, dc_kind = tl_kind tlog, dc_kind_version = tl_version tlog, dc_body = body,
         dc_tree_size = ip_tree_size (tl_proof tlog), dc_proof_log_index = ip_log_index (tl_proof tlog), dc_path_hashes = hashes,
         dc_checkpoint = ip_checkpoint (tl_proof tlog), dc_signed_entry_timestamp = set, dc_rfc3161_timestamps = stamps\<rparr>)))))"

definition parse_bundle :: "'x bundle_env_scheme \<Rightarrow> bytes \<Rightarrow> (bundle_error, decoded) result" where
  "parse_bundle B bs =
     (if length bs > MAX_BUNDLE_BYTES then Inl BeOversized
      else
        (case bn_json B bs of
           Inl e \<Rightarrow> Inl (BeMalformed e)
         | Inr json \<Rightarrow>
             if bj_media_type json \<noteq> MEDIA_TYPE then Inl (BeBadMediaType (bj_media_type json))
             else if cert_list (bj_material json) = [] then Inl (BeMalformed (lit ''bundle carries no X.509 certificate''))
             else
               bind_result (ok_or (BeMalformed (lit ''no tlog entries'')) (get (vm_tlog (bj_material json)) 0)) (\<lambda>tlog.
               bind_result (parse_envelope B (bj_envelope json)) (\<lambda>ps.
               bind_result (parse_statement B (fst ps)) (\<lambda>statement.
               bind_result (map_results (\<lambda>c. decode_b64 B (cert_text c) (lit ''certificate'')) (cert_list (bj_material json))) (\<lambda>certs.
                 decode_fields B json tlog ps statement certs))))))"

section \<open>What a parsed bundle is\<close>

lemma map_results_length: "map_results f xs = Inr ys \<Longrightarrow> length ys = length xs"
  by (induction xs arbitrary: ys) (auto simp: bind_result_eq_Inr)

lemma ok_or_eq_Inr [simp]: "ok_or e x = Inr y \<longleftrightarrow> x = Some y"
  by (auto simp: ok_or_def split: option.splits)

text \<open>The limits of a bundle hold for whatever was parsed: at most 1 MiB, at least one certificate, a path of at most 64
  hashes, at most four timestamps, a statement of the right type with at least one subject and only digests of 64 hexadecimal digits;
  and an entry of the second log version carries neither a time nor a timestamp of the first.\<close>

theorem parsed_bundle_bounded:
  assumes "parse_bundle B bs = Inr d"
  shows "length bs \<le> 2 ^ 20 \<and> dc_certs d \<noteq> [] \<and> length (dc_path_hashes d) \<le> 64 \<and> length (dc_rfc3161_timestamps d) \<le> 4
    \<and> sm_type (dc_statement d) = STATEMENT_TYPE \<and> sm_subject (dc_statement d) \<noteq> []
    \<and> list_all (\<lambda>s. hex_digest (sj_sha256 s)) (sm_subject (dc_statement d))
    \<and> (\<not> is_rekor_v2 d \<or> dc_integrated_time d = 0 \<and> dc_signed_entry_timestamp d = [])"
proof -
  obtain json tlog ps st certs where p: "length bs \<le> MAX_BUNDLE_BYTES" "bn_json B bs = Inr json" "cert_list (bj_material json) \<noteq> []"
    "parse_statement B (fst ps) = Inr st"
    "map_results (\<lambda>c. decode_b64 B (cert_text c) (lit ''certificate'')) (cert_list (bj_material json)) = Inr certs"
    "decode_fields B json tlog ps st certs = Inr d"
    using assms by (auto simp: parse_bundle_def bind_result_eq_Inr split: if_splits sum.splits)
  obtain time set stamps hashes where f: "signed_time B tlog = Inr (time, set)" "rfc3161_timestamps B (bj_material json) = Inr stamps"
    "decode_path B (ip_hashes (tl_proof tlog)) = Inr hashes" "dc_certs d = certs" "dc_statement d = st" "dc_integrated_time d = time"
    "dc_signed_entry_timestamp d = set" "dc_path_hashes d = hashes" "dc_rfc3161_timestamps d = stamps" "dc_kind d = tl_kind tlog"
    "dc_kind_version d = tl_version tlog"
    using p(6) by (auto simp: decode_fields_def bind_result_eq_Inr)
  have "certs \<noteq> []" using map_results_length [OF p(5)] p(3) by auto
  moreover have "length hashes \<le> 64" using f(3) by (auto simp: decode_path_def MAX_INCLUSION_PATH_def dest: map_results_length split: if_splits)
  moreover have "length stamps \<le> 4"
    using f(2) by (auto simp: rfc3161_timestamps_def MAX_RFC3161_TIMESTAMPS_def Let_def dest: map_results_length split: if_splits)
  moreover have "sm_type st = STATEMENT_TYPE \<and> sm_subject st \<noteq> [] \<and> list_all (\<lambda>s. hex_digest (sj_sha256 s)) (sm_subject st)"
    using p(4) by (auto simp: parse_statement_def bind_result_eq_Inr list_all_iff list_ex_iff split: if_splits)
  moreover have "\<not> is_rekor_v2 d \<or> time = 0 \<and> set = []"
    using f(1,10,11) by (auto simp: signed_time_def is_rekor_v2_def split: if_splits)
  ultimately show ?thesis using p(1) f(4-9) by (simp add: MAX_BUNDLE_BYTES_def)
qed

text \<open>A bundle with one certificate and one log entry, and a base64 that keeps its input.\<close>

definition xb_statement :: statement where
  "xb_statement = \<lparr>sm_type = STATEMENT_TYPE, sm_subject = [\<lparr>sj_name = lit ''detent'', sj_sha256 = replicate 64 97\<rparr>]\<rparr>"

definition xb_tlog :: tlog_entry_json where
  "xb_tlog = \<lparr>tl_log_index = 7, tl_integrated_time = Some 100, tl_key_id = lit ''k'', tl_kind = lit ''dsse'', tl_version = lit ''0.0.1'',
     tl_body = lit ''body'', tl_promise = Some (lit ''set''),
     tl_proof = \<lparr>ip_log_index = 0, ip_tree_size = 1, ip_checkpoint = lit ''checkpoint'', ip_hashes = []\<rparr>\<rparr>"

definition xb_json :: bundle_json where
  "xb_json = \<lparr>bj_media_type = MEDIA_TYPE,
     bj_material = \<lparr>vm_chain = None, vm_certificate = Some (CertRaw (lit ''cert'')), vm_tlog = [xb_tlog], vm_timestamps = None\<rparr>,
     bj_envelope = \<lparr>ds_payload_type = DSSE_PAYLOAD_TYPE, ds_payload = lit ''payload'', ds_signatures = [lit ''sig'']\<rparr>\<rparr>"

definition xb_env :: bundle_env where
  "xb_env = \<lparr>bn_json = (\<lambda>_. Inr xb_json), bn_statement = (\<lambda>_. Some xb_statement), bn_b64 = Some\<rparr>"

definition xb_decoded :: decoded where
  "xb_decoded = (case parse_bundle xb_env [] of Inr d \<Rightarrow> d)"

lemma xb_parses: "parse_bundle xb_env [] = Inr xb_decoded"
  by code_simp

theorem parsed_bundle_bounded_witness:
  "parse_bundle xb_env [] = Inr xb_decoded \<and> dc_certs xb_decoded \<noteq> [] \<and> length (dc_path_hashes xb_decoded) \<le> 64
    \<and> list_all (\<lambda>s. hex_digest (sj_sha256 s)) (sm_subject (dc_statement xb_decoded))"
  using parsed_bundle_bounded [OF xb_parses] xb_parses by simp

end
