(* ===== verification/Merkle.thy ===== *)
theory Merkle
  imports Bundle
begin

text \<open>
  The inclusion proof of \<^verbatim>\<open>crates/detent-update/src/verify.rs\<close>: the leaf hash of a log entry and the root that a path of
  sibling hashes leads to. The reference is the hash tree of RFC 6962 over the entries of a log. SHA-256 is a parameter.

  The release build checks for overflow and aborts on a panic, so a computation that can panic answers an option, and
  \<open>None\<close> is the panic.
\<close>

section \<open>The code\<close>

datatype verification_error =
    VeBundleMalformed bundle_error
  | VeTrustRootUnavailable
  | VeCertChainInvalid
  | VeCertExpired
  | VeIdentityMismatch
  | VeIssuerMismatch
  | VeSignatureInvalid
  | VeDigestMismatch
  | VeSetInvalid
  | VeSctInvalid
  | VeTimestampInvalid
  | VeUnsupportedEntryKind

type_synonym 'a verified = "(verification_error, 'a) result option"

definition vbind :: "'a verified \<Rightarrow> ('a \<Rightarrow> 'b verified) \<Rightarrow> 'b verified" where
  "vbind m f = (case m of None \<Rightarrow> None | Some (Inl e) \<Rightarrow> Some (Inl e) | Some (Inr x) \<Rightarrow> f x)"

definition rekor_leaf_hash :: "(bytes \<Rightarrow> bytes) \<Rightarrow> bytes \<Rightarrow> bytes" where
  "rekor_leaf_hash sha body = sha (0x00 # body)"

text \<open>\<^verbatim>\<open>u64::next_power_of_two\<close>, which panics when the power does not fit.\<close>

fun bit_len :: "nat \<Rightarrow> nat" where
  "bit_len n = (if n = 0 then 0 else Suc (bit_len (n div 2)))"

declare bit_len.simps [simp del]

definition next_power_of_two :: "nat \<Rightarrow> nat option" where
  "next_power_of_two n = (if n \<le> 2 ^ 63 then Some (2 ^ bit_len (n - 1)) else None)"

definition merged :: "(bytes \<Rightarrow> bytes) \<Rightarrow> bytes \<Rightarrow> bytes \<Rightarrow> bytes" where
  "merged sha left right = sha (0x01 # left @ right)"

function root_from_path :: "(bytes \<Rightarrow> bytes) \<Rightarrow> nat \<Rightarrow> nat \<Rightarrow> bytes \<Rightarrow> bytes list \<Rightarrow> bytes verified" where
  "root_from_path sha index count leaf path =
     (if count = 0 \<or> count \<le> index then Some (Inl VeSetInvalid)
      else if count = 1 then Some (if path = [] then Inr leaf else Inl VeSetInvalid)
      else if path = [] then Some (Inl VeSetInvalid)
      else
        (case next_power_of_two count of
           None \<Rightarrow> None
         | Some p \<Rightarrow>
             (let k = p div 2 in
              if index < k
              then vbind (root_from_path sha index k leaf (butlast path)) (\<lambda>sub. Some (Inr (merged sha sub (last path))))
              else vbind (root_from_path sha (index - k) (count - k) leaf (butlast path)) (\<lambda>sub. Some (Inr (merged sha (last path) sub))))))"
  by pat_completeness auto
termination by (relation "measure (\<lambda>(sha, index, count, leaf, path). length path)") auto

declare root_from_path.simps [simp del]

definition inclusion_root :: "(bytes \<Rightarrow> bytes) \<Rightarrow> decoded \<Rightarrow> bytes verified" where
  "inclusion_root sha d =
     (let leaf_hash = rekor_leaf_hash sha (dc_body d) in
      if list_ex (\<lambda>h. length h \<noteq> 32) (dc_path_hashes d) then Some (Inl VeSetInvalid)
      else if dc_proof_log_index d < 0 \<or> dc_tree_size d = 0 then Some (Inl VeSetInvalid)
      else root_from_path sha (nat (dc_proof_log_index d)) (dc_tree_size d) leaf_hash (dc_path_hashes d))"

section \<open>The hash tree\<close>

text \<open>The largest power of two below \<open>n\<close>, by doubling.\<close>

function split_from :: "nat \<Rightarrow> nat \<Rightarrow> nat" where
  "split_from k n = (if 0 < k \<and> 2 * k < n then split_from (2 * k) n else k)"
  by pat_completeness auto
termination by (relation "measure (\<lambda>(k, n). n - k)") auto

declare split_from.simps [simp del]

definition split_point :: "nat \<Rightarrow> nat" where
  "split_point n = split_from 1 n"

lemma split_from_pow: "k = 2 ^ d \<Longrightarrow> \<exists>e. split_from k n = 2 ^ e"
proof (induction k n arbitrary: d rule: split_from.induct)
  case (1 k n)
  show ?case
  proof (cases "2 * k < n")
    case True
    then have "split_from k n = split_from (2 * k) n" using 1(2) by (subst split_from.simps) simp
    then show ?thesis using 1(1) [of "Suc d"] 1(2) True by simp
  next
    case False
    then have "split_from k n = k" by (subst split_from.simps) simp
    then show ?thesis using 1(2) by blast
  qed
qed

lemma split_from_bounds: "0 < k \<Longrightarrow> k < n \<Longrightarrow> split_from k n < n \<and> n \<le> 2 * split_from k n"
proof (induction k n rule: split_from.induct)
  case (1 k n)
  show ?case
  proof (cases "2 * k < n")
    case True
    then have "split_from k n = split_from (2 * k) n" using 1(2) by (subst split_from.simps) simp
    then show ?thesis using 1 True by simp
  next
    case False
    then have "split_from k n = k" by (subst split_from.simps) simp
    then show ?thesis using 1(3) False by simp
  qed
qed

definition halves :: "nat \<Rightarrow> nat \<Rightarrow> bool" where
  "halves n k \<longleftrightarrow> (\<exists>e. k = 2 ^ e) \<and> k < n \<and> n \<le> 2 * k"

lemma halves_unique: "halves n j \<Longrightarrow> halves n k \<Longrightarrow> j = k"
proof -
  have le: "a \<le> b" if "(2 :: nat) ^ a < n" "n \<le> 2 * 2 ^ b" for a b
  proof -
    have "(2 :: nat) ^ a < 2 ^ Suc b" using that by simp
    then show ?thesis by (subst (asm) power_strict_increasing_iff) auto
  qed
  then show "halves n j \<Longrightarrow> halves n k \<Longrightarrow> j = k" unfolding halves_def using le by (metis le_antisym)
qed

lemma halves_split_point: "2 \<le> n \<Longrightarrow> halves n (split_point n)"
  using split_from_pow [of 1 0 n] split_from_bounds [of 1 n] by (auto simp: halves_def split_point_def)

lemma bit_len_bounds: "0 < n \<Longrightarrow> 2 ^ (bit_len n - 1) \<le> n \<and> n < 2 ^ bit_len n \<and> 0 < bit_len n"
proof (induction n rule: bit_len.induct)
  case (1 n)
  show ?case
  proof (cases "n = 1")
    case True
    then show ?thesis by (simp add: bit_len.simps)
  next
    case False
    then have "0 < n div 2" using 1(2) by auto
    with 1 have ih: "2 ^ (bit_len (n div 2) - 1) \<le> n div 2" "n div 2 < 2 ^ bit_len (n div 2)" "0 < bit_len (n div 2)" by auto
    have "bit_len n = Suc (bit_len (n div 2))" using 1(2) by (subst bit_len.simps) simp
    moreover have "2 ^ bit_len (n div 2) = 2 * (2 :: nat) ^ (bit_len (n div 2) - 1)" using ih(3) by (cases "bit_len (n div 2)") auto
    moreover define x :: nat where "x = 2 ^ (bit_len (n div 2) - 1)"
    ultimately have "bit_len n = Suc (bit_len (n div 2))" "2 ^ bit_len (n div 2) = 2 * x" "x \<le> n div 2" "n div 2 < 2 * x" using ih by auto
    then show ?thesis by (simp, linarith)
  qed
qed

lemma next_power_halves:
  assumes "2 \<le> n" and "n \<le> 2 ^ 63"
  shows "\<exists>p. next_power_of_two n = Some p \<and> p div 2 = split_point n"
proof -
  let ?b = "bit_len (n - 1)"
  have b: "2 ^ (?b - 1) \<le> n - 1" "n - 1 < 2 ^ ?b" "0 < ?b" using bit_len_bounds [of "n - 1"] assms(1) by auto
  have p: "(2 :: nat) ^ ?b = 2 * 2 ^ (?b - 1)" using b(3) by (cases ?b) auto
  have "halves n (2 ^ (?b - 1))" unfolding halves_def
  proof (intro conjI exI [of _ "?b - 1"] refl)
    show "2 ^ (?b - 1) < n" using b(1) assms(1) by linarith
    show "n \<le> 2 * 2 ^ (?b - 1)" using b(2) p by linarith
  qed
  then have "2 ^ (?b - 1) = split_point n" by (rule halves_unique [OF _ halves_split_point [OF assms(1)]])
  then show ?thesis using assms(2) p by (simp add: next_power_of_two_def)
qed

text \<open>The tree of RFC 6962 over the entries \<open>D\<close>: its hash, the path of an entry, and everything that is hashed on the way.\<close>

function mth :: "(bytes \<Rightarrow> bytes) \<Rightarrow> bytes list \<Rightarrow> bytes" where
  "mth sha D =
     (case D of
        [] \<Rightarrow> sha []
      | [d] \<Rightarrow> sha (0x00 # d)
      | _ \<Rightarrow> sha (0x01 # mth sha (take (split_point (length D)) D) @ mth sha (drop (split_point (length D)) D)))"
  by pat_completeness auto
termination
proof (relation "measure (\<lambda>(sha, D). length D)", goal_cases)
  case (2 sha D a as b bs)
  then show ?case using halves_split_point [of "length D"] by (auto simp: halves_def)
next
  case (3 sha D a as b bs)
  then show ?case using halves_split_point [of "length D"] by (auto simp: halves_def)
qed simp

declare mth.simps [simp del]

function audit_path :: "(bytes \<Rightarrow> bytes) \<Rightarrow> nat \<Rightarrow> bytes list \<Rightarrow> bytes list" where
  "audit_path sha m D =
     (if length D < 2 then []
      else if m < split_point (length D)
      then audit_path sha m (take (split_point (length D)) D) @ [mth sha (drop (split_point (length D)) D)]
      else audit_path sha (m - split_point (length D)) (drop (split_point (length D)) D) @ [mth sha (take (split_point (length D)) D)])"
  by pat_completeness auto
termination
proof (relation "measure (\<lambda>(sha, m, D). length D)", goal_cases)
  case (2 sha m D)
  then show ?case using halves_split_point [of "length D"] by (auto simp: halves_def)
next
  case (3 sha m D)
  then show ?case using halves_split_point [of "length D"] by (auto simp: halves_def)
qed simp

function tree_inputs :: "(bytes \<Rightarrow> bytes) \<Rightarrow> bytes list \<Rightarrow> bytes list" where
  "tree_inputs sha D =
     (if length D < 2 then map ((#) 0x00) D
      else (0x01 # mth sha (take (split_point (length D)) D) @ mth sha (drop (split_point (length D)) D))
        # tree_inputs sha (take (split_point (length D)) D) @ tree_inputs sha (drop (split_point (length D)) D))"
  by pat_completeness auto
termination
proof (relation "measure (\<lambda>(sha, D). length D)", goal_cases)
  case (2 sha D)
  then show ?case using halves_split_point [of "length D"] by (auto simp: halves_def)
next
  case (3 sha D)
  then show ?case using halves_split_point [of "length D"] by (auto simp: halves_def)
qed simp

text \<open>What the walk up a path hashes.\<close>

function walk_inputs :: "(bytes \<Rightarrow> bytes) \<Rightarrow> nat \<Rightarrow> nat \<Rightarrow> bytes \<Rightarrow> bytes list \<Rightarrow> bytes list" where
  "walk_inputs sha index count leaf path =
     (if count < 2 \<or> path = [] then []
      else if index < split_point count
      then walk_inputs sha index (split_point count) leaf (butlast path)
           @ (case root_from_path sha index (split_point count) leaf (butlast path) of Some (Inr sub) \<Rightarrow> [0x01 # sub @ last path] | _ \<Rightarrow> [])
      else walk_inputs sha (index - split_point count) (count - split_point count) leaf (butlast path)
           @ (case root_from_path sha (index - split_point count) (count - split_point count) leaf (butlast path) of Some (Inr sub) \<Rightarrow> [0x01 # last path @ sub] | _ \<Rightarrow> []))"
  by pat_completeness auto
termination by (relation "measure (\<lambda>(sha, index, count, leaf, path). length path)") auto

declare audit_path.simps [simp del] tree_inputs.simps [simp del] walk_inputs.simps [simp del]

section \<open>The walk is exact\<close>

lemma vbind_eq_Inr: "vbind m f = Some (Inr y) \<longleftrightarrow> (\<exists>x. m = Some (Inr x) \<and> f x = Some (Inr y))"
  by (auto simp: vbind_def split: option.splits sum.splits)

lemma vbind_simps [simp]: "vbind (Some (Inr x)) f = f x" "vbind (Some (Inl e)) f = Some (Inl e)" "vbind None f = None"
  by (simp_all add: vbind_def)

text \<open>One step of the walk in a tree of at least two leaves, where the split is that of the tree.\<close>

lemma root_step:
  assumes "2 \<le> n" and "n \<le> 2 ^ 63" and "i < n" and "path \<noteq> []"
  shows "root_from_path sha i n leaf path =
    (if i < split_point n then vbind (root_from_path sha i (split_point n) leaf (butlast path)) (\<lambda>sub. Some (Inr (merged sha sub (last path))))
     else vbind (root_from_path sha (i - split_point n) (n - split_point n) leaf (butlast path)) (\<lambda>sub. Some (Inr (merged sha (last path) sub))))"
proof -
  obtain p where "next_power_of_two n = Some p" "p div 2 = split_point n" using next_power_halves [OF assms(1,2)] by blast
  then show ?thesis using assms by (subst root_from_path.simps) (simp add: Let_def)
qed

lemma root_leaf: "root_from_path sha i (Suc 0) leaf path = Some (Inr r) \<longleftrightarrow> i = 0 \<and> path = [] \<and> r = leaf"
  by (subst root_from_path.simps) auto

lemma root_range: "root_from_path sha i n leaf path = Some (Inr r) \<Longrightarrow> i < n \<and> (n = 1 \<or> path \<noteq> [])"
  by (subst (asm) root_from_path.simps) (auto split: if_splits)

lemma mth_node: "2 \<le> length D \<Longrightarrow> mth sha D = merged sha (mth sha (take (split_point (length D)) D)) (mth sha (drop (split_point (length D)) D))"
  by (subst mth.simps) (auto simp: merged_def split: list.splits)

lemma mth_leaf: "mth sha [d] = sha (0x00 # d)"
  by (subst mth.simps) simp

lemma split_parts:
  assumes "2 \<le> length D"
  shows "0 < split_point (length D)" "split_point (length D) < length D"
    "length (take (split_point (length D)) D) = split_point (length D)"
  using halves_split_point [OF assms] by (auto simp: halves_def)

lemma single_entry: "length D = 1 \<Longrightarrow> \<exists>d. D = [d]"
  by (cases D) auto

lemma audit_path_walks:
  assumes "i < length D" and "length D \<le> 2 ^ 63"
  shows "root_from_path sha i (length D) (sha (0x00 # D ! i)) (audit_path sha i D) = Some (Inr (mth sha D))"
  using assms
proof (induction sha i D rule: audit_path.induct)
  case (1 sha i D)
  let ?k = "split_point (length D)"
  show ?case
  proof (cases "length D < 2")
    case True
    then obtain d where "D = [d]" using 1(3) single_entry [of D] by fastforce
    then show ?thesis using 1(3) by (simp add: root_leaf audit_path.simps mth_leaf)
  next
    case False
    then have n: "2 \<le> length D" by simp
    note k = split_parts [OF n]
    have a: "audit_path sha i D = (if i < ?k then audit_path sha i (take ?k D) @ [mth sha (drop ?k D)]
        else audit_path sha (i - ?k) (drop ?k D) @ [mth sha (take ?k D)])"
      using False by (subst audit_path.simps) (simp add: Let_def)
    show ?thesis
    proof (cases "i < ?k")
      case True
      then show ?thesis using 1(1) [OF False True] 1(4) k n by (simp add: root_step a mth_node [OF n])
    next
      case ge: False
      then show ?thesis using 1(2) [OF False ge] 1(3,4) k n by (simp add: root_step a mth_node [OF n])
    qed
  qed
qed

lemma merged_inj:
  assumes "merged sha a b = merged sha c d" and "inj_on sha S" and "0x01 # a @ b \<in> S" and "0x01 # c @ d \<in> S" and "length a = length c"
  shows "a = c \<and> b = d"
  using inj_onD [OF assms(2) assms(1) [unfolded merged_def] assms(3,4)] assms(5) by simp

lemma root_length:
  assumes "root_from_path sha i n leaf path = Some (Inr r)" and "\<And>x. length (sha x) = 32" and "length leaf = 32"
  shows "length r = 32"
  using assms by (subst (asm) root_from_path.simps) (auto simp: vbind_eq_Inr merged_def Let_def split: if_splits option.splits)

lemma mth_length: "(\<And>x. length (sha x) = 32) \<Longrightarrow> length (mth sha D) = 32"
  by (subst mth.simps) (auto split: list.splits)

lemma tree_inputs_node:
  assumes "2 \<le> length D"
  shows "tree_inputs sha D = (0x01 # mth sha (take (split_point (length D)) D) @ mth sha (drop (split_point (length D)) D))
     # tree_inputs sha (take (split_point (length D)) D) @ tree_inputs sha (drop (split_point (length D)) D)"
  using assms by (subst tree_inputs.simps) (simp add: Let_def)

lemma walk_reaches_tree:
  assumes "root_from_path sha i (length D) leaf path = Some (Inr (mth sha D))" and "length D \<le> 2 ^ 63"
    and "\<And>x. length (sha x) = 32" and "length leaf = 32"
    and "inj_on sha S" and "set (tree_inputs sha D) \<subseteq> S" and "set (walk_inputs sha i (length D) leaf path) \<subseteq> S" and "0x00 # body \<in> S"
    and "leaf = sha (0x00 # body)" and "list_all (\<lambda>h. length h = 32) path"
  shows "i < length D \<and> body = D ! i \<and> path = audit_path sha i D"
  using assms
proof (induction sha i D arbitrary: path rule: audit_path.induct)
  case (1 sha i D)
  let ?k = "split_point (length D)"
  let ?L = "take ?k D" and ?R = "drop ?k D"
  note r = root_range [OF 1(3)]
  show ?case
  proof (cases "length D < 2")
    case True
    then obtain d where d: "D = [d]" using r single_entry [of D] by fastforce
    then have "sha (0x00 # body) = sha (0x00 # d)" "i = 0" "path = []" using 1(3,11) by (simp_all add: root_leaf mth_leaf)
    moreover have "0x00 # d \<in> S" using 1(8) by (simp add: d tree_inputs.simps)
    ultimately show ?thesis using inj_onD [OF 1(7)] 1(10) by (auto simp: d audit_path.simps)
  next
    case False
    then have n: "2 \<le> length D" by simp
    then have path: "path \<noteq> []" using r by auto
    then have p: "path = butlast path @ [last path]" by simp
    then have h: "list_all (\<lambda>h. length h = 32) (butlast path)" "length (last path) = 32"
      using path 1(12) by (auto simp: list_all_iff dest: in_set_butlastD)
    note k = split_parts [OF n]
    have node: "0x01 # mth sha ?L @ mth sha ?R \<in> S" "set (tree_inputs sha ?L) \<subseteq> S" "set (tree_inputs sha ?R) \<subseteq> S"
      using 1(8) by (simp_all add: tree_inputs_node [OF n])
    note len = root_length [OF _ 1(5,6)] mth_length [of sha, OF 1(5)]
    show ?thesis
    proof (cases "i < ?k")
      case True
      then obtain sub where sub: "root_from_path sha i ?k leaf (butlast path) = Some (Inr sub)" "mth sha D = merged sha sub (last path)"
        using 1(3) root_step [OF n 1(4) _ path, of i sha leaf] r by (auto simp: vbind_eq_Inr)
      have w: "set (walk_inputs sha i ?k leaf (butlast path)) \<subseteq> S" "0x01 # sub @ last path \<in> S"
        using 1(9) True n path sub(1) by (subst (asm) walk_inputs.simps, simp add: Let_def)+
      have eq: "sub = mth sha ?L \<and> last path = mth sha ?R"
        by (rule merged_inj [OF _ 1(7) w(2) node(1)]) (use sub mth_node [OF n] len in auto)
      then have "i < length ?L \<and> body = ?L ! i \<and> butlast path = audit_path sha i ?L"
        using 1(1) [OF False True _ _ 1(5,6,7) node(2) _ 1(10,11) h(1)] sub(1) w(1) k(3) 1(4) by simp
      then show ?thesis using eq p True False k by (subst audit_path.simps) (auto simp: Let_def)
    next
      case ge: False
      then obtain sub where sub: "root_from_path sha (i - ?k) (length D - ?k) leaf (butlast path) = Some (Inr sub)" "mth sha D = merged sha (last path) sub"
        using 1(3) root_step [OF n 1(4) _ path, of i sha leaf] r by (auto simp: vbind_eq_Inr)
      have w: "set (walk_inputs sha (i - ?k) (length D - ?k) leaf (butlast path)) \<subseteq> S" "0x01 # last path @ sub \<in> S"
        using 1(9) ge n path sub(1) by (subst (asm) walk_inputs.simps, simp add: Let_def)+
      have eq: "last path = mth sha ?L \<and> sub = mth sha ?R"
        by (rule merged_inj [OF _ 1(7) w(2) node(1)]) (use sub mth_node [OF n] len h(2) in auto)
      then have "i - ?k < length ?R \<and> body = ?R ! (i - ?k) \<and> butlast path = audit_path sha (i - ?k) ?R"
        using 1(2) [OF False ge _ _ 1(5,6,7) node(3) _ 1(10,11) h(1)] sub(1) w(1) 1(4) by simp
      then show ?thesis using eq p ge False k r by (subst audit_path.simps) (auto simp: Let_def)
    qed
  qed
qed

lemma audit_path_length: "(\<And>x. length (sha x) = 32) \<Longrightarrow> list_all (\<lambda>h. length h = 32) (audit_path sha m D)"
  by (induction sha m D rule: audit_path.induct) (subst audit_path.simps, simp add: Let_def mth_length)

section \<open>Inclusion\<close>

text \<open>Everything hashed when an entry is compared with a log.\<close>

definition hashed_strings :: "(bytes \<Rightarrow> bytes) \<Rightarrow> bytes list \<Rightarrow> decoded \<Rightarrow> bytes set" where
  "hashed_strings sha D d = insert (0x00 # dc_body d) (set (tree_inputs sha D)
     \<union> set (walk_inputs sha (nat (dc_proof_log_index d)) (dc_tree_size d) (rekor_leaf_hash sha (dc_body d)) (dc_path_hashes d)))"

lemma inclusion_root_walk:
  "inclusion_root sha d = Some (Inr r) \<longleftrightarrow> list_all (\<lambda>h. length h = 32) (dc_path_hashes d) \<and> 0 \<le> dc_proof_log_index d \<and> dc_tree_size d \<noteq> 0
    \<and> root_from_path sha (nat (dc_proof_log_index d)) (dc_tree_size d) (rekor_leaf_hash sha (dc_body d)) (dc_path_hashes d) = Some (Inr r)"
  by (auto simp: inclusion_root_def Let_def list_ex_iff list_all_iff)

lemma inclusion_iff:
  assumes "length D \<le> 2 ^ 63" and "dc_tree_size d = length D" and "\<forall>x. length (sha x) = 32" and "inj_on sha (hashed_strings sha D d)"
  shows "inclusion_root sha d = Some (Inr (mth sha D)) \<longleftrightarrow>
    0 \<le> dc_proof_log_index d \<and> nat (dc_proof_log_index d) < length D \<and> dc_body d = D ! nat (dc_proof_log_index d)
    \<and> dc_path_hashes d = audit_path sha (nat (dc_proof_log_index d)) D"
proof
  assume "inclusion_root sha d = Some (Inr (mth sha D))"
  note w = this [unfolded inclusion_root_walk assms(2) rekor_leaf_hash_def]
  show "0 \<le> dc_proof_log_index d \<and> nat (dc_proof_log_index d) < length D \<and> dc_body d = D ! nat (dc_proof_log_index d)
    \<and> dc_path_hashes d = audit_path sha (nat (dc_proof_log_index d)) D"
    using w walk_reaches_tree [where i = "nat (dc_proof_log_index d)" and path = "dc_path_hashes d" and body = "dc_body d",
        OF _ assms(1) _ _ assms(4) _ _ _ refl] assms(2,3)
    by (auto simp: hashed_strings_def rekor_leaf_hash_def)
next
  assume a: "0 \<le> dc_proof_log_index d \<and> nat (dc_proof_log_index d) < length D \<and> dc_body d = D ! nat (dc_proof_log_index d)
    \<and> dc_path_hashes d = audit_path sha (nat (dc_proof_log_index d)) D"
  then show "inclusion_root sha d = Some (Inr (mth sha D))"
    using audit_path_length [of sha "nat (dc_proof_log_index d)" D] audit_path_walks [OF _ assms(1), of "nat (dc_proof_log_index d)" sha] assms(2,3)
    by (auto simp: inclusion_root_walk rekor_leaf_hash_def)
qed

text \<open>C16. An inclusion proof is exact. For a log of at most $2^{63}$ entries, and a hash without collisions among the strings the
  proof and the tree of the log hash, the proof reaches the root of the tree exactly when its index is that of an entry, the
  entry is the body of the bundle, and its hashes are the siblings on the way from that entry to the root.\<close>

theorem inclusion_exact:
  assumes "length D \<le> 2 ^ 63" and "dc_tree_size d = length D" and "\<forall>x. length (sha x) = 32" and "inj_on sha (hashed_strings sha D d)"
  shows "inclusion_root sha d = Some (Inr (mth sha D)) \<longleftrightarrow>
    0 \<le> dc_proof_log_index d \<and> nat (dc_proof_log_index d) < length D \<and> dc_body d = D ! nat (dc_proof_log_index d)
    \<and> dc_path_hashes d = audit_path sha (nat (dc_proof_log_index d)) D"
  by (rule inclusion_iff [OF assms])

text \<open>A log of two entries under a hash that keeps the first 32 bytes.\<close>

definition xm_sha :: "bytes \<Rightarrow> bytes" where
  "xm_sha x = take 32 (x @ replicate 32 0)"

definition xm_log :: "bytes list" where
  "xm_log = [[1], [2]]"

definition xm_entry :: decoded where
  "xm_entry = xb_decoded\<lparr>dc_body := [2], dc_tree_size := 2, dc_proof_log_index := 1, dc_path_hashes := audit_path xm_sha 1 xm_log\<rparr>"

lemma split_point_2: "split_point 2 = 1" "split_point (Suc (Suc 0)) = Suc 0"
  by (simp_all add: split_point_def split_from.simps)

lemma leaf_inputs: "audit_path sha m [d] = []" "tree_inputs sha [d] = [0x00 # d]" "walk_inputs sha i (Suc 0) leaf path = []"
    "root_from_path sha 0 (Suc 0) leaf [] = Some (Inr leaf)"
  by (subst audit_path.simps tree_inputs.simps walk_inputs.simps root_from_path.simps, simp)+

lemma xm_path: "audit_path xm_sha (Suc 0) [a, b] = [xm_sha (0x00 # a)]"
  by (subst audit_path.simps) (simp add: split_point_2 leaf_inputs mth_leaf)

lemma xm_hashed: "hashed_strings xm_sha xm_log xm_entry = {[0x00, 1], [0x00, 2], 0x01 # xm_sha [0x00, 1] @ xm_sha [0x00, 2]}"
proof -
  have "tree_inputs sha [a, b] = [0x01 # sha (0x00 # a) @ sha (0x00 # b), 0x00 # a, 0x00 # b]" for sha a b
    by (subst tree_inputs.simps) (simp add: split_point_2 leaf_inputs mth_leaf)
  moreover have "walk_inputs sha (Suc 0) 2 leaf [h] = [0x01 # h @ leaf]" for sha leaf h
    by (subst walk_inputs.simps) (simp add: split_point_2 leaf_inputs)
  ultimately show ?thesis by (auto simp: hashed_strings_def xm_log_def xm_entry_def xm_path rekor_leaf_hash_def)
qed

theorem inclusion_exact_witness:
  "inclusion_root xm_sha xm_entry = Some (Inr (mth xm_sha xm_log)) \<and> dc_body xm_entry = xm_log ! 1"
proof -
  have "inj_on xm_sha (hashed_strings xm_sha xm_log xm_entry)" unfolding xm_hashed by (simp add: xm_sha_def)
  then have "inclusion_root xm_sha xm_entry = Some (Inr (mth xm_sha xm_log)) \<longleftrightarrow>
    0 \<le> dc_proof_log_index xm_entry \<and> nat (dc_proof_log_index xm_entry) < length xm_log \<and> dc_body xm_entry = xm_log ! nat (dc_proof_log_index xm_entry)
    \<and> dc_path_hashes xm_entry = audit_path xm_sha (nat (dc_proof_log_index xm_entry)) xm_log"
    by (intro inclusion_exact) (simp_all add: xm_log_def xm_entry_def xm_sha_def min_def)
  then show ?thesis by (simp add: xm_log_def xm_entry_def)
qed

lemma small_tree_no_panic: "n \<le> 2 ^ 63 \<Longrightarrow> root_from_path sha i n leaf path \<noteq> None"
proof (induction sha i n leaf path rule: root_from_path.induct)
  case (1 sha i n leaf path)
  show ?case
  proof (cases "2 \<le> n \<and> i < n \<and> path \<noteq> []")
    case True
    then obtain p where p: "next_power_of_two n = Some p" "p div 2 = split_point n" using next_power_halves 1(3) by blast
    have k: "split_point n < n" "0 < split_point n" using halves_split_point [of n] True by (auto simp: halves_def)
    have "root_from_path sha i (split_point n) leaf (butlast path) \<noteq> None" if "i < split_point n"
      using 1(1) [OF _ _ _ p(1) refl] True that k 1(3) by (simp add: p(2))
    moreover have "root_from_path sha (i - split_point n) (n - split_point n) leaf (butlast path) \<noteq> None" if "\<not> i < split_point n"
      using 1(2) [OF _ _ _ p(1) refl] True that k 1(3) by (simp add: p(2))
    ultimately show ?thesis using True 1(3) by (auto simp: root_step vbind_def split: sum.splits)
  next
    case False
    then show ?thesis by (subst root_from_path.simps) auto
  qed
qed

text \<open>C38. The inclusion check panics exactly for a tree size above $2^{63}$ with an index below it and a path of at least one hash,
  all of 32 bytes. The size is a number of the bundle that no signature has covered at this point, so a bundle with a changed
  size ends the process instead of being refused.\<close>

theorem inclusion_panics_exactly:
  "inclusion_root sha d = None \<longleftrightarrow>
     2 ^ 63 < dc_tree_size d \<and> 0 \<le> dc_proof_log_index d \<and> nat (dc_proof_log_index d) < dc_tree_size d
     \<and> dc_path_hashes d \<noteq> [] \<and> list_all (\<lambda>h. length h = 32) (dc_path_hashes d)"
proof (cases "dc_tree_size d \<le> 2 ^ 63")
  case True
  then show ?thesis using small_tree_no_panic by (auto simp: inclusion_root_def Let_def)
next
  case False
  then show ?thesis
    by (subst inclusion_root_def, subst root_from_path.simps)
       (auto simp: Let_def next_power_of_two_def list_ex_iff list_all_iff)
qed

end
