(* ===== verification/Der.thy ===== *)
theory Der
  imports Text_Ops
begin

text \<open>
  The DER of \<^verbatim>\<open>crates/detent-update/src/verify.rs\<close> (\<^verbatim>\<open>der_tlv\<close>, \<^verbatim>\<open>der_push\<close>, \<^verbatim>\<open>precert_tbs\<close>) and the
  cursor of \<^verbatim>\<open>tsa.rs\<close>. A byte is a number below 256. Reading undoes writing for contents below 16 MiB, and the
  body of a precertificate is the body of the certificate without its list of signed timestamps.
\<close>

section \<open>Elements\<close>

definition split_at_checked :: "nat \<Rightarrow> 'a list \<Rightarrow> ('a list \<times> 'a list) option" where
  "split_at_checked n xs = (if n \<le> length xs then Some (take n xs, drop n xs) else None)"

definition be_value :: "bytes \<Rightarrow> nat" where
  "be_value bs = foldl (\<lambda>len byte. len * 256 + byte) 0 bs"

definition der_length :: "bytes \<Rightarrow> (nat \<times> bytes) option" where
  "der_length inp =
     (case inp of
        [] \<Rightarrow> None
      | first # more \<Rightarrow>
          if first < 0x80 then Some (first, more)
          else
            (let count = first mod 128 in
             if \<not> (1 \<le> count \<and> count \<le> 3) then None
             else map_option (\<lambda>(bs, rest). (be_value bs, rest)) (split_at_checked count more)))"

definition der_tlv :: "bytes \<Rightarrow> (nat \<times> bytes \<times> bytes) option" where
  "der_tlv inp =
     (case inp of
        [] \<Rightarrow> None
      | tag # more \<Rightarrow>
          Option.bind (der_length more) (\<lambda>(len, body).
          map_option (\<lambda>(content, rest). (tag, content, rest)) (split_at_checked len body)))"

fun be_bytes :: "nat \<Rightarrow> nat \<Rightarrow> bytes" where
  "be_bytes 0 n = []"
| "be_bytes (Suc k) n = be_bytes k (n div 256) @ [n mod 256]"

definition der_push :: "bytes \<Rightarrow> nat \<Rightarrow> bytes \<Rightarrow> bytes option" where
  "der_push out tag content =
     (let len = length content in
      if len < 0x80 then Some (out @ [tag] @ [len] @ content)
      else
        (let significant = dropWhile (\<lambda>b. b = 0) (be_bytes 8 len) in
         if length significant \<le> u8_max
         then Some (out @ [tag] @ [128 + length significant mod 128] @ significant @ content)
         else None))"

section \<open>The body of a precertificate\<close>

definition SCT_LIST_OID_DER :: bytes where
  "SCT_LIST_OID_DER = [0x06, 0x0a, 0x2b, 0x06, 0x01, 0x04, 0x01, 0xd6, 0x79, 0x02, 0x04, 0x02]"

lemma split_at_checked_Some: "split_at_checked n xs = Some (a, b) \<longleftrightarrow> xs = a @ b \<and> length a = n"
  by (auto simp: split_at_checked_def)

lemma der_length_shorter: "der_length inp = Some (len, body) \<Longrightarrow> length body < length inp"
  by (auto simp: der_length_def Let_def split_at_checked_Some split: list.splits if_splits)

lemma der_tlv_shorter: "der_tlv inp = Some (tag, content, rest) \<Longrightarrow> length rest < length inp"
  by (auto simp: der_tlv_def Option.bind_eq_Some_conv split_at_checked_Some dest!: der_length_shorter split: list.splits)

definition whole_of :: "bytes \<Rightarrow> bytes \<Rightarrow> bytes" where
  "whole_of inp rest = take (length inp - length rest) inp"

lemma der_tlv_whole: "der_tlv inp = Some (tag, content, rest) \<Longrightarrow> der_tlv (whole_of inp rest) = Some (tag, content, [])"
  by (auto simp: der_tlv_def der_length_def whole_of_def Let_def Option.bind_eq_Some_conv split_at_checked_Some split: list.splits if_splits)

text \<open>The loop over the extensions: those kept, and how many lists of timestamps were removed.\<close>

function keep_extensions :: "bytes \<Rightarrow> bytes \<Rightarrow> nat \<Rightarrow> (bytes \<times> nat) option" where
  "keep_extensions extensions kept removed =
     (if extensions = [] then Some (kept, removed)
      else (case der_tlv extensions of
              None \<Rightarrow> None
            | Some (tag, extension, rest) \<Rightarrow>
                if tag \<noteq> 0x30 then None
                else if strip_prefix SCT_LIST_OID_DER extension \<noteq> None
                then Option.bind (checked_add u64_max removed 1) (keep_extensions rest kept)
                else keep_extensions rest (kept @ whole_of extensions rest) removed))"
  by pat_completeness auto
termination by (relation "measure (\<lambda>(e, k, r). length e)") (auto dest: der_tlv_shorter)

text \<open>The loop over the fields.\<close>

function strip_fields :: "bytes \<Rightarrow> bytes \<Rightarrow> nat \<Rightarrow> (bytes \<times> nat) option" where
  "strip_fields fields out removed =
     (if fields = [] then Some (out, removed)
      else (case der_tlv fields of
              None \<Rightarrow> None
            | Some (tag, content, rest) \<Rightarrow>
                if tag = 0xa3
                then (case der_tlv content of
                        Some (t, extensions, []) \<Rightarrow>
                          if t \<noteq> 0x30 then None
                          else Option.bind (keep_extensions extensions [] removed) (\<lambda>(kept, removed').
                               Option.bind (der_push [] 0x30 kept) (\<lambda>sequence.
                               Option.bind (der_push out 0xa3 sequence) (\<lambda>out'. strip_fields rest out' removed')))
                      | _ \<Rightarrow> None)
                else strip_fields rest (out @ whole_of fields rest) removed))"
  by pat_completeness auto
termination by (relation "measure (\<lambda>(f, k, r). length f)") (auto dest: der_tlv_shorter)

declare keep_extensions.simps [simp del] strip_fields.simps [simp del]

definition precert_tbs :: "bytes \<Rightarrow> bytes option" where
  "precert_tbs tbs =
     (case der_tlv tbs of
        Some (t, fields, []) \<Rightarrow>
          if t \<noteq> 0x30 then None
          else Option.bind (strip_fields fields [] 0) (\<lambda>(out_fields, removed).
               if removed \<noteq> 1 then None else der_push [] 0x30 out_fields)
      | _ \<Rightarrow> None)"

section \<open>Strings and the cursor\<close>

definition der_utf8_string :: "bytes \<Rightarrow> bytes option" where
  "der_utf8_string val =
     (case der_tlv val of
        Some (tag, content, []) \<Rightarrow> if tag = 0x0c then Some content else None
      | _ \<Rightarrow> None)"

text \<open>\<^verbatim>\<open>Der\<close>: what is left of the elements of one constructed value. An operation answers its result and the rest.\<close>

definition der_next :: "bytes \<Rightarrow> ((nat \<times> bytes \<times> bytes) \<times> bytes) option" where
  "der_next d =
     (case der_tlv d of
        None \<Rightarrow> None
      | Some (tag, content, rest) \<Rightarrow>
          if tag mod 32 = 31 then None else Some ((tag, content, whole_of d rest), rest))"

definition der_expect :: "nat \<Rightarrow> bytes \<Rightarrow> (bytes \<times> bytes) option" where
  "der_expect tag d =
     Option.bind (der_next d) (\<lambda>((found, content, whole), rest). if found = tag then Some (content, rest) else None)"

definition skip_optional :: "nat \<Rightarrow> bytes \<Rightarrow> bytes option" where
  "skip_optional tag d =
     (if d \<noteq> [] \<and> hd d = tag then map_option snd (der_next d) else Some d)"

definition der_single :: "bytes \<Rightarrow> nat \<Rightarrow> bytes option" where
  "der_single bs tag =
     Option.bind (der_expect tag bs) (\<lambda>(content, rest). if rest = [] then Some content else None)"

lemma der_next_shorter: "der_next d = Some (x, rest) \<Longrightarrow> length rest < length d"
  by (auto simp: der_next_def dest: der_tlv_shorter split: option.splits if_splits)

lemma der_expect_shorter: "der_expect tag d = Some (c, rest) \<Longrightarrow> length rest < length d"
  by (auto simp: der_expect_def Option.bind_eq_Some_conv dest: der_next_shorter split: if_splits)

section \<open>Reading undoes writing\<close>

text \<open>The encoding of one element.\<close>

definition der_element :: "nat \<times> bytes \<Rightarrow> bytes" where
  "der_element x = (case der_push [] (fst x) (snd x) of Some bs \<Rightarrow> bs | None \<Rightarrow> [])"

lemma be_value_snoc: "be_value (xs @ [b]) = be_value xs * 256 + b"
  by (simp add: be_value_def)

lemma be_value_bytes: "n < 256 ^ k \<Longrightarrow> be_value (be_bytes k n) = n"
proof (induction k arbitrary: n)
  case (Suc k)
  then have "n div 256 < 256 ^ k" by (simp add: less_mult_imp_div_less mult.commute)
  with Suc.IH show ?case by (simp add: be_value_snoc)
qed (simp add: be_value_def)

lemma length_be_bytes [simp]: "length (be_bytes k n) = k"
  by (induction k arbitrary: n) auto

lemma be_value_zeros: "be_value (dropWhile (\<lambda>b. b = 0) bs) = be_value bs"
  by (induction bs) (auto simp: be_value_def)

lemma be_bytes_zeros: "n < 256 ^ k \<Longrightarrow> k \<le> m \<Longrightarrow> dropWhile (\<lambda>b. b = 0) (be_bytes m n) = dropWhile (\<lambda>b. b = 0) (be_bytes k n)"
proof (induction m arbitrary: n k)
  case (Suc m)
  show ?case
  proof (cases k)
    case 0
    have "be_bytes j 0 = replicate j 0" for j by (induction j) (simp_all add: replicate_append_same)
    then show ?thesis using Suc.prems 0 by (simp add: dropWhile_append)
  next
    case (Suc k')
    have lt: "n div 256 < 256 ^ k'" using Suc.prems Suc by (simp add: less_mult_imp_div_less mult.commute)
    have d: "dropWhile (\<lambda>b. b = 0) (be_bytes m (n div 256)) = dropWhile (\<lambda>b. b = 0) (be_bytes k' (n div 256))"
      using Suc.IH [OF lt] Suc.prems Suc by simp
    have e: "dropWhile P (xs @ [x]) = (if dropWhile P xs = [] then dropWhile P [x] else dropWhile P xs @ [x])" for P :: "nat \<Rightarrow> bool" and xs x
      by (induction xs) auto
    show ?thesis by (simp add: Suc e d)
  qed
qed simp

lemma significant_short: "length (dropWhile (\<lambda>b. b = 0) (be_bytes 8 n)) \<le> u8_max"
  using length_dropWhile_le [of "\<lambda>b. b = 0" "be_bytes 8 n"] by (simp add: u8_max_def)

lemma der_element_unfold:
  "der_element (t, c) = t # (if length c < 0x80 then length c # c
     else (128 + length (dropWhile (\<lambda>b. b = 0) (be_bytes 8 (length c))) mod 128) # dropWhile (\<lambda>b. b = 0) (be_bytes 8 (length c)) @ c)"
  by (simp add: der_element_def der_push_def Let_def significant_short)

lemma der_push_element: "der_push out t c = Some (out @ der_element (t, c))"
  by (simp add: der_element_unfold der_push_def Let_def significant_short)

lemma der_element_longer: "length c < length (der_element (t, c))"
  by (simp add: der_element_unfold)

lemma der_element_nonempty [simp]: "der_element (t, c) \<noteq> []"
  by (simp add: der_element_unfold)

lemma der_tlv_element:
  assumes "length c < 2 ^ 24"
  shows "der_tlv (der_element (t, c) @ rest) = Some (t, c, rest)"
proof (cases "length c < 0x80")
  case True
  then show ?thesis
    by (auto simp: der_tlv_def der_element_def der_push_def der_length_def split_at_checked_def)
next
  case False
  let ?s = "dropWhile (\<lambda>b. b = 0) (be_bytes 8 (length c))"
  have n: "?s = dropWhile (\<lambda>b. b = 0) (be_bytes 3 (length c))" by (rule be_bytes_zeros) (use assms in simp_all)
  then have s: "length ?s \<le> 3" using length_dropWhile_le [of "\<lambda>b. b = 0" "be_bytes 3 (length c)"] by simp
  have v: "be_value ?s = length c" unfolding be_value_zeros by (rule be_value_bytes) (use assms in simp)
  then have "?s \<noteq> []" using False by (metis be_value_def foldl_Nil zero_less_numeral)
  then have l: "1 \<le> length ?s" by (simp add: Suc_leI)
  have m: "(128 + length ?s mod 128) mod 128 = length ?s" using s by simp
  have e: "der_element (t, c) = t # (128 + length ?s mod 128) # ?s @ c"
    using False s by (simp add: der_element_def der_push_def Let_def u8_max_def)
  have "der_length ((128 + length ?s mod 128) # ?s @ c @ rest) = Some (length c, c @ rest)"
    unfolding der_length_def Let_def using l s v by (simp only: list.case m) (auto simp: split_at_checked_def)
  then show ?thesis by (simp add: e der_tlv_def split_at_checked_def)
qed

text \<open>Reading an element gives back what was written: tag, contents and whatever follows, for contents below 16 MiB.\<close>

theorem der_roundtrip:
  assumes "length c < 2 ^ 24"
  shows "der_push out t c = Some (out @ der_element (t, c)) \<and> der_tlv (der_element (t, c) @ rest) = Some (t, c, rest)"
  using der_push_element der_tlv_element [OF assms] by simp

theorem der_roundtrip_witness:
  "der_push [7] 0x30 (replicate 300 1) = Some ([7] @ der_element (0x30, replicate 300 1))
    \<and> der_tlv (der_element (0x30, replicate 300 1) @ [2, 0]) = Some (0x30, replicate 300 1, [2, 0])"
  by (rule der_roundtrip) simp

lemma whole_of_element [simp]: "whole_of (a @ rest) rest = a"
  by (simp add: whole_of_def)

lemma der_next_element: "length c < 2 ^ 24 \<Longrightarrow> t mod 32 \<noteq> 31 \<Longrightarrow> der_next (der_element (t, c) @ rest) = Some ((t, c, der_element (t, c)), rest)"
  by (simp add: der_next_def der_tlv_element)

lemma der_expect_element: "length c < 2 ^ 24 \<Longrightarrow> t mod 32 \<noteq> 31 \<Longrightarrow> der_expect t (der_element (t, c) @ rest) = Some (c, rest)"
  by (simp add: der_expect_def der_next_element)

lemma der_single_element: "length c < 2 ^ 24 \<Longrightarrow> t mod 32 \<noteq> 31 \<Longrightarrow> der_single (der_element (t, c)) t = Some c"
  using der_expect_element [of c t "[]"] by (simp add: der_single_def)

section \<open>What remains of a certificate body\<close>

definition der_elements :: "(nat \<times> bytes) list \<Rightarrow> bytes" where
  "der_elements xs = concat (map der_element xs)"

lemma der_elements_simps [simp]: "der_elements [] = []" "der_elements (x # xs) = der_element x @ der_elements xs"
    "der_elements (xs @ ys) = der_elements xs @ der_elements ys"
  by (simp_all add: der_elements_def)

text \<open>Whether an extension is a list of signed timestamps.\<close>

definition is_sct :: "bytes \<Rightarrow> bool" where
  "is_sct extension \<longleftrightarrow> strip_prefix SCT_LIST_OID_DER extension \<noteq> None"

abbreviation extensions_der :: "bytes list \<Rightarrow> bytes" where
  "extensions_der exts \<equiv> der_elements (map (Pair 0x30) exts)"

lemma keep_extensions_step:
  assumes "length e < 2 ^ 24"
  shows "keep_extensions (der_element (0x30, e) @ rest) kept removed =
    (if is_sct e then Option.bind (checked_add u64_max removed 1) (keep_extensions rest kept)
     else keep_extensions rest (kept @ der_element (0x30, e)) removed)"
  unfolding is_sct_def by (subst keep_extensions.simps) (simp add: der_tlv_element [OF assms])

lemma keep_extensions_exact:
  assumes "list_all (\<lambda>e. length e < 2 ^ 24) exts" and "removed + length exts \<le> u64_max"
  shows "keep_extensions (extensions_der exts) kept removed =
    Some (kept @ extensions_der (filter (\<lambda>e. \<not> is_sct e) exts), removed + length (filter is_sct exts))"
  using assms
  by (induction exts arbitrary: kept removed) (auto simp: keep_extensions.simps [of "[]"] keep_extensions_step checked_add_def)

lemma strip_fields_plain:
  assumes "list_all (\<lambda>(t, c). t \<noteq> 0xa3 \<and> length c < 2 ^ 24) fs"
  shows "strip_fields (der_elements fs @ rest) out removed = strip_fields rest (out @ der_elements fs) removed"
  using assms
proof (induction fs arbitrary: out)
  case (Cons f fs)
  obtain t c where f: "f = (t, c)" by force
  then have c: "length c < 2 ^ 24" "t \<noteq> 0xa3" using Cons.prems by simp_all
  show ?case unfolding f using Cons.IH [of "out @ der_element (t, c)"] Cons.prems c(2)
    by (subst strip_fields.simps) (simp add: der_tlv_element [OF c(1)])
qed simp

lemma content_shorter:
  assumes "length (der_elements fs) < n"
  shows "list_all (\<lambda>(t, c). length c < n) fs"
  using assms
proof (induction fs)
  case (Cons f fs)
  obtain t c where "f = (t, c)" by force
  then show ?case using Cons der_element_longer [of c t] by simp
qed simp

lemma extensions_fewer: "length exts \<le> length (extensions_der exts)"
proof (induction exts)
  case (Cons e exts)
  then show ?case using der_element_longer [of e "0x30"] by simp
qed simp

text \<open>The body of a certificate: fields, the extensions among them.\<close>

definition tbs_fields :: "(nat \<times> bytes) list \<Rightarrow> bytes list \<Rightarrow> (nat \<times> bytes) list \<Rightarrow> bytes" where
  "tbs_fields before exts after =
     der_elements before @ der_element (0xa3, der_element (0x30, extensions_der exts)) @ der_elements after"

text \<open>C17. The body a signed timestamp covers is the body of the certificate without its list of timestamps and is otherwise
  unchanged: for a body below 16 MiB with one block of extensions, the result is the body with that extension left out and every
  enclosing length written anew when there is exactly one such extension, and there is no result otherwise.\<close>

theorem precert_tbs_exact:
  assumes "length (tbs_fields before exts after) < 2 ^ 24" and "list_all (\<lambda>(t, c). t \<noteq> 0xa3) (before @ after)"
  shows "precert_tbs (der_element (0x30, tbs_fields before exts after)) =
    (if length (filter is_sct exts) = 1 then Some (der_element (0x30, tbs_fields before (filter (\<lambda>e. \<not> is_sct e) exts) after)) else None)"
proof -
  let ?x = "der_element (0x30, extensions_der exts)"
  have b: "list_all (\<lambda>(t, c). t \<noteq> 0xa3 \<and> length c < 2 ^ 24) before" "list_all (\<lambda>(t, c). t \<noteq> 0xa3 \<and> length c < 2 ^ 24) after"
    using assms content_shorter [of before "2 ^ 24"] content_shorter [of after "2 ^ 24"] by (auto simp: tbs_fields_def list_all_iff)
  have x: "length ?x < 2 ^ 24" using assms(1) der_element_longer [of ?x "0xa3"] by (simp add: tbs_fields_def)
  have y: "length (extensions_der exts) < 2 ^ 24" using x der_element_longer [of "extensions_der exts" "0x30"] by simp
  have e: "list_all (\<lambda>e. length e < 2 ^ 24) exts" using content_shorter [OF y] by (simp add: list_all_iff)
  have n: "length exts \<le> u64_max" using extensions_fewer [of exts] y by (simp add: u64_max_def)
  have k: "keep_extensions (extensions_der exts) [] 0 = Some (extensions_der (filter (\<lambda>e. \<not> is_sct e) exts), length (filter is_sct exts))"
    using keep_extensions_exact [OF e, of 0 "[]"] n by simp
  have "strip_fields (tbs_fields before exts after) [] 0 =
      strip_fields (der_element (0xa3, ?x) @ der_elements after) (der_elements before) 0"
    using strip_fields_plain [OF b(1), of _ "[]" 0] by (simp add: tbs_fields_def)
  also have "\<dots> = strip_fields (der_elements after) (der_elements before
      @ der_element (0xa3, der_element (0x30, extensions_der (filter (\<lambda>e. \<not> is_sct e) exts)))) (length (filter is_sct exts))"
    using der_tlv_element [OF x, of "0xa3"] der_tlv_element [OF y, of "0x30" "[]"]
    by (subst strip_fields.simps) (simp add: k der_push_element)
  also have "\<dots> = Some (tbs_fields before (filter (\<lambda>e. \<not> is_sct e) exts) after, length (filter is_sct exts))"
    using strip_fields_plain [OF b(2), of "[]"] by (simp add: tbs_fields_def strip_fields.simps [of "[]"])
  finally show ?thesis using der_tlv_element [OF assms(1), of "0x30" "[]"] by (simp add: precert_tbs_def der_push_element)
qed

theorem precert_tbs_exact_witness:
  "precert_tbs (der_element (0x30, tbs_fields [(2, [5])] [SCT_LIST_OID_DER @ [4, 0], [6, 1, 9]] [(0x81, [])])) =
    Some (der_element (0x30, tbs_fields [(2, [5])] [[6, 1, 9]] [(0x81, [])]))"
  by (subst precert_tbs_exact) (code_simp | simp add: is_sct_def SCT_LIST_OID_DER_def)+

end
