(* ===== verification/Trust.thy ===== *)
theory Trust
  imports Merkle Der
begin

text \<open>
  \<^verbatim>\<open>crates/detent-update/src/trust.rs\<close>: the trust material a release is verified against, parsed from PEM text. What the
  packages of cryptography offer (hashes, certificates, signature checks) is the record \<open>crypto_env\<close>, a parameter: \<open>'k\<close> is a
  P-256 key, \<open>'s\<close> a parsed signature, \<open>'j\<close> a JSON value. A certificate is the record of what the sources read of it. The PEM files that
  the build embeds are arguments.
\<close>

section \<open>Third-party interfaces\<close>

datatype general_name = NameUri rstr | NameOther

datatype ct_version = CtV1 | CtOther nat

record sct =
  sc_version :: ct_version
  sc_key_id :: bytes
  sc_timestamp :: nat
  sc_extensions :: bytes
  sc_hash_alg :: nat
  sc_sign_alg :: nat
  sc_signature :: bytes

datatype parsed_extension = ExtSct "sct list" | ExtSubjectKeyId bytes | ExtOther

record x509_extension =
  xe_oid :: rstr
  xe_value :: bytes
  xe_parsed :: parsed_extension

record key_usage =
  ku_critical :: bool
  ku_any :: bool
  ku_server_auth :: bool
  ku_client_auth :: bool
  ku_code_signing :: bool
  ku_email_protection :: bool
  ku_time_stamping :: bool
  ku_ocsp_signing :: bool
  ku_other :: "rstr list"

record x509 =
  xc_san :: "(unit, general_name list option) result"
  xc_extensions :: "x509_extension list"
  xc_key_data :: bytes
  xc_spki_raw :: bytes
  xc_tbs :: bytes
  xc_signature :: bytes
  xc_subject :: bytes
  xc_issuer :: bytes
  xc_serial :: bytes
  xc_not_before :: int
  xc_not_after :: int
  xc_key_usage :: "(unit, key_usage option) result"

record spki =
  sp_algorithm :: rstr
  sp_key :: bytes

datatype sig_alg = ECDSA_P256_SHA256 | ECDSA_P256_SHA384 | ECDSA_P384_SHA256 | ECDSA_P384_SHA384 | ED25519

datatype webpki_error = WpCertExpired | WpCertNotValidYet | WpOther

record ('k, 's, 'j) crypto_env = bundle_env +
  cy_sha256 :: "bytes \<Rightarrow> bytes"
  cy_sha384 :: "bytes \<Rightarrow> bytes"
  cy_sha512 :: "bytes \<Rightarrow> bytes"
  cy_b64_encode :: "bytes \<Rightarrow> rstr"
  cy_x509 :: "bytes \<Rightarrow> x509 option"
  cy_spki :: "bytes \<Rightarrow> (bytes \<times> spki) option"
  cy_p256 :: "bytes \<Rightarrow> 'k option"
  cy_point :: "'k \<Rightarrow> bytes"
  cy_sig :: "bytes \<Rightarrow> 's option"
  cy_ecdsa :: "'k \<Rightarrow> bytes \<Rightarrow> 's \<Rightarrow> bool"
  cy_verify :: "sig_alg \<Rightarrow> bytes \<Rightarrow> bytes \<Rightarrow> bytes \<Rightarrow> bool"
  cy_anchor :: "bytes \<Rightarrow> bool"
  cy_end_entity :: "bytes \<Rightarrow> bool"
  cy_chain :: "bytes list \<Rightarrow> bytes list \<Rightarrow> bytes \<Rightarrow> nat \<Rightarrow> (webpki_error, unit) result"
  cy_gen_time :: "bytes \<Rightarrow> (bool \<times> int option) option"
  cy_json :: "bytes \<Rightarrow> 'j option"
  cy_json_str :: "'j \<Rightarrow> rstr \<Rightarrow> rstr option"

section \<open>The trust root\<close>

record note_log_key =
  nk_origin :: rstr
  nk_key :: bytes
  nk_log_id :: bytes
  nk_window :: "int \<times> int"

record tsa_chain =
  tc_leaf :: bytes
  tc_root :: bytes
  tc_window :: "int \<times> int"

record 'k ct_log_key =
  ck_log_id :: bytes
  ck_key :: 'k

record 'k trust_root =
  tr_fulcio_roots :: "bytes list"
  tr_rekor_key :: 'k
  tr_root_windows :: "(int \<times> int) list"
  tr_ct_logs :: "'k ct_log_key list"
  tr_rekor_v2_keys :: "note_log_key list"
  tr_tsas :: "tsa_chain list"

definition REKOR_V2_ORIGIN :: rstr where "REKOR_V2_ORIGIN = lit ''log2025-1.rekor.sigstore.dev''"
definition REKOR_V2_VALID_FROM :: int where "REKOR_V2_VALID_FROM = 1758585600"
definition TSA_VALID_FROM :: int where "TSA_VALID_FROM = 1751587200"
definition ED25519_OID :: rstr where "ED25519_OID = lit ''1.3.101.112''"
definition i64_max :: int where "i64_max = 2 ^ 63 - 1"

definition window_covers :: "int \<times> int \<Rightarrow> int \<Rightarrow> bool" where
  "window_covers window instant \<longleftrightarrow> fst window \<le> instant \<and> instant \<le> snd window"

definition note_key_from_spki ::
  "('k, 's, 'j, 'x) crypto_env_scheme \<Rightarrow> rstr \<Rightarrow> bytes \<Rightarrow> int \<times> int \<Rightarrow> (verification_error, note_log_key) result" where
  "note_key_from_spki Y origin spki_der window =
     bind_result (ok_or VeTrustRootUnavailable (cy_spki Y spki_der)) (\<lambda>(rest, spki).
       if rest \<noteq> [] \<or> sp_algorithm spki \<noteq> ED25519_OID then Inl VeTrustRootUnavailable
       else if length (sp_key spki) \<noteq> 32 then Inl VeTrustRootUnavailable
       else Inr \<lparr>nk_origin = origin, nk_key = sp_key spki,
         nk_log_id = cy_sha256 Y (as_bytes origin @ [LF] @ [0x01] @ sp_key spki), nk_window = window\<rparr>)"

section \<open>PEM\<close>

definition strip_suffix :: "rstr \<Rightarrow> rstr \<Rightarrow> rstr option" where
  "strip_suffix p s = map_option rev (strip_prefix (rev p) (rev s))"

text \<open>The lines of one block: its text, and the lines after it.\<close>

fun pem_block :: "rstr \<Rightarrow> rstr list \<Rightarrow> (verification_error, rstr \<times> rstr list) result" where
  "pem_block label [] = Inr ([], [])"
| "pem_block label (l # ls) =
     (case strip_prefix (lit ''-----END '') l of
        Some e \<Rightarrow> if trim (trim_end_by (\<lambda>c. c = 45) e) \<noteq> label then Inl VeTrustRootUnavailable else Inr ([], ls)
      | None \<Rightarrow> bind_result (pem_block label ls) (\<lambda>(body, rest). Inr (trim l @ body, rest)))"

lemma pem_block_shorter: "pem_block label ls = Inr (body, rest) \<Longrightarrow> length rest \<le> length ls"
  by (induction ls arbitrary: body rest) (force simp: bind_result_eq_Inr split: option.splits if_splits)+

function pems_in :: "('x) bundle_env_scheme \<Rightarrow> rstr \<Rightarrow> rstr list \<Rightarrow> (verification_error, bytes list) result" where
  "pems_in B label ls =
     (case dropWhile (\<lambda>l. \<not> starts_with (lit ''-----BEGIN '') l) ls of
        [] \<Rightarrow> Inr []
      | l # others \<Rightarrow>
          (case Option.bind (strip_prefix (lit ''-----BEGIN '') l) (strip_suffix (lit ''-----'')) of
             None \<Rightarrow> Inl VeTrustRootUnavailable
           | Some begin_label \<Rightarrow>
               if begin_label \<noteq> label then pems_in B label others
               else
                 (case pem_block label others of
                    Inl e \<Rightarrow> Inl e
                  | Inr (body, rest) \<Rightarrow>
                      (case bn_b64 B (as_bytes body) of
                         None \<Rightarrow> Inl VeTrustRootUnavailable
                       | Some der \<Rightarrow> bind_result (pems_in B label rest) (\<lambda>out. Inr (der # out))))))"
  by pat_completeness auto
termination
proof (relation "measure (\<lambda>(B, label, ls). length ls)", goal_cases)
  case (2 B label ls l others b)
  then show ?case using length_dropWhile_le [of "\<lambda>l. \<not> starts_with (lit ''-----BEGIN '') l" ls] by simp
next
  case (3 B label ls l others b p body rest der)
  then show ?case using length_dropWhile_le [of "\<lambda>l. \<not> starts_with (lit ''-----BEGIN '') l" ls] pem_block_shorter [of label others body rest] by simp
qed simp

declare pems_in.simps [simp del]

definition pems :: "'x bundle_env_scheme \<Rightarrow> rstr \<Rightarrow> rstr \<Rightarrow> (verification_error, bytes list) result" where
  "pems B s label = pems_in B label (str_lines s)"

definition pem_body :: "'x bundle_env_scheme \<Rightarrow> bytes \<Rightarrow> rstr \<Rightarrow> bytes option" where
  "pem_body B bs label =
     (case from_utf8 bs of
        Inl _ \<Rightarrow> None
      | Inr s \<Rightarrow> (case pems B s label of Inr (der # _) \<Rightarrow> Some der | _ \<Rightarrow> None))"

section \<open>Parsing the trust root\<close>

definition spki_to_p256 :: "('k, 's, 'j, 'x) crypto_env_scheme \<Rightarrow> bytes \<Rightarrow> (verification_error, 'k) result" where
  "spki_to_p256 Y spki_der =
     bind_result (ok_or VeTrustRootUnavailable (cy_spki Y spki_der)) (\<lambda>(_, spki).
       ok_or VeTrustRootUnavailable (cy_p256 Y (sp_key spki)))"

definition rekor_v2_keys ::
  "('k, 's, 'j, 'x) crypto_env_scheme \<Rightarrow> rstr \<Rightarrow> rstr \<Rightarrow> int \<times> int \<Rightarrow> (verification_error, note_log_key list) result" where
  "rekor_v2_keys Y pem origin window =
     bind_result (pems Y pem (lit ''PUBLIC KEY'')) (\<lambda>ders.
       case ders of
         [spki] \<Rightarrow> bind_result (note_key_from_spki Y origin spki window) (\<lambda>k. Inr [k])
       | _ \<Rightarrow> Inl VeTrustRootUnavailable)"

definition parse_tsas ::
  "('k, 's, 'j, 'x) crypto_env_scheme \<Rightarrow> rstr \<Rightarrow> int \<times> int \<Rightarrow> (verification_error, tsa_chain list) result" where
  "parse_tsas Y pem window =
     bind_result (pems Y pem (lit ''CERTIFICATE'')) (\<lambda>ders.
       case ders of
         [leaf, root] \<Rightarrow>
           if cy_x509 Y leaf = None \<or> cy_x509 Y root = None then Inl VeTrustRootUnavailable
           else Inr [\<lparr>tc_leaf = leaf, tc_root = root, tc_window = window\<rparr>]
       | _ \<Rightarrow> Inl VeTrustRootUnavailable)"

definition ct_log_of :: "('k, 's, 'j, 'x) crypto_env_scheme \<Rightarrow> bytes \<Rightarrow> (verification_error, 'k ct_log_key) result" where
  "ct_log_of Y spki =
     bind_result (spki_to_p256 Y spki) (\<lambda>key. Inr \<lparr>ck_log_id = cy_sha256 Y spki, ck_key = key\<rparr>)"

definition root_window :: "('k, 's, 'j, 'x) crypto_env_scheme \<Rightarrow> bytes \<Rightarrow> (verification_error, int \<times> int) result" where
  "root_window Y root =
     bind_result (ok_or VeTrustRootUnavailable (cy_x509 Y root)) (\<lambda>cert. Inr (xc_not_before cert, xc_not_after cert))"

text \<open>The embedded PEM of the second log and of the timestamp authority come first.\<close>

definition from_pems_with_ct ::
  "('k, 's, 'j, 'x) crypto_env_scheme \<Rightarrow> rstr \<Rightarrow> rstr \<Rightarrow> rstr \<Rightarrow> rstr \<Rightarrow> rstr \<Rightarrow> (verification_error, 'k trust_root) result" where
  "from_pems_with_ct Y rekor_v2_pem tsa_pem fulcio_pem rekor_pem ct_pem =
     bind_result (pems Y fulcio_pem (lit ''CERTIFICATE'')) (\<lambda>fulcio_roots.
     if fulcio_roots = [] then Inl VeTrustRootUnavailable
     else
     bind_result (map_results (root_window Y) fulcio_roots) (\<lambda>root_windows.
     bind_result (pems Y rekor_pem (lit ''PUBLIC KEY'')) (\<lambda>rekor_spkis.
     bind_result (ok_or VeTrustRootUnavailable (get rekor_spkis 0)) (\<lambda>rekor_spki.
     bind_result (spki_to_p256 Y rekor_spki) (\<lambda>rekor_key.
     bind_result (pems Y ct_pem (lit ''PUBLIC KEY'')) (\<lambda>ct_spkis.
     bind_result (map_results (ct_log_of Y) ct_spkis) (\<lambda>ct_logs.
     if ct_logs = [] then Inl VeTrustRootUnavailable
     else
     bind_result (rekor_v2_keys Y rekor_v2_pem REKOR_V2_ORIGIN (REKOR_V2_VALID_FROM, i64_max)) (\<lambda>v2.
     bind_result (parse_tsas Y tsa_pem (TSA_VALID_FROM, i64_max)) (\<lambda>ts.
       Inr \<lparr>tr_fulcio_roots = fulcio_roots, tr_rekor_key = rekor_key, tr_root_windows = root_windows, tr_ct_logs = ct_logs,
         tr_rekor_v2_keys = v2, tr_tsas = ts\<rparr>)))))))))"

text \<open>Two blocks of the wanted label with one of another between them, and text around them.\<close>

lemma pems_example:
  "pems xb_env (lit ''note'' @ [LF] @ lit ''-----BEGIN A-----'' @ [LF] @ lit '' ab '' @ [LF] @ lit ''c'' @ [LF] @ lit ''-----END A-----'' @ [LF]
     @ lit ''-----BEGIN B-----'' @ [LF] @ lit ''x'' @ [LF] @ lit ''-----END B-----'' @ [LF] @ lit ''-----BEGIN A-----'' @ [LF] @ lit ''d'') (lit ''A'')
   = Inr [lit ''abc'', lit ''d'']"
  by code_simp

section \<open>An example environment\<close>

text \<open>Cryptography that accepts every signature, over the hash and the base64 of the earlier examples.\<close>

definition xc_usage :: key_usage where
  "xc_usage = \<lparr>ku_critical = True, ku_any = False, ku_server_auth = False, ku_client_auth = False, ku_code_signing = False,
     ku_email_protection = False, ku_time_stamping = True, ku_ocsp_signing = False, ku_other = []\<rparr>"

definition xc_cert :: x509 where
  "xc_cert = \<lparr>xc_san = Inr None, xc_extensions = [], xc_key_data = [4], xc_spki_raw = [5], xc_tbs = [], xc_signature = [1], xc_subject = [0x30, 0],
     xc_issuer = [0x30, 0], xc_serial = [9], xc_not_before = 0, xc_not_after = 1000, xc_key_usage = Inr (Some xc_usage)\<rparr>"

definition xc_env :: "(bytes, bytes, unit) crypto_env" where
  "xc_env = \<lparr>bn_json = (\<lambda>_. Inr xb_json), bn_statement = (\<lambda>_. Some xb_statement), bn_b64 = Some,
     cy_sha256 = xm_sha, cy_sha384 = xm_sha, cy_sha512 = xm_sha, cy_b64_encode = (\<lambda>b. b), cy_x509 = (\<lambda>_. Some xc_cert),
     cy_spki = (\<lambda>b. Some ([], \<lparr>sp_algorithm = ED25519_OID, sp_key = b\<rparr>)), cy_p256 = Some, cy_point = (\<lambda>k. k), cy_sig = Some,
     cy_ecdsa = (\<lambda>_ _ _. True), cy_verify = (\<lambda>_ _ _ _. True), cy_anchor = (\<lambda>_. True), cy_end_entity = (\<lambda>_. True),
     cy_chain = (\<lambda>_ _ _ _. Inr ()), cy_gen_time = (\<lambda>_. Some (True, Some 100)), cy_json = (\<lambda>_. Some ()), cy_json_str = (\<lambda>_ _. None)\<rparr>"

end
