(* ===== verification/Timestamp.thy ===== *)
theory Timestamp
  imports Trust
begin

text \<open>
  \<^verbatim>\<open>crates/detent-update/src/tsa.rs\<close>: RFC 3161 timestamps, read along fixed paths of the DER. Each step of a cursor answers what it
  read and what is left, and nothing at all when the DER has another shape.
\<close>

section \<open>Tags and object identifiers\<close>

abbreviation (input) T_SEQUENCE :: nat where "T_SEQUENCE \<equiv> 0x30"
abbreviation (input) T_SET :: nat where "T_SET \<equiv> 0x31"
abbreviation (input) T_INTEGER :: nat where "T_INTEGER \<equiv> 0x02"
abbreviation (input) T_OCTET_STRING :: nat where "T_OCTET_STRING \<equiv> 0x04"
abbreviation (input) T_NULL :: nat where "T_NULL \<equiv> 0x05"
abbreviation (input) T_OID :: nat where "T_OID \<equiv> 0x06"
abbreviation (input) T_GENERALIZED_TIME :: nat where "T_GENERALIZED_TIME \<equiv> 0x18"
abbreviation (input) T_CONTEXT_0 :: nat where "T_CONTEXT_0 \<equiv> 0xa0"
abbreviation (input) T_CONTEXT_1 :: nat where "T_CONTEXT_1 \<equiv> 0xa1"
abbreviation (input) T_CONTEXT_0_PRIMITIVE :: nat where "T_CONTEXT_0_PRIMITIVE \<equiv> 0x80"

definition MAX_TIMESTAMP_BYTES :: nat where "MAX_TIMESTAMP_BYTES = 16 * 1024"

definition OID_SIGNED_DATA :: bytes where "OID_SIGNED_DATA = [0x2a, 0x86, 0x48, 0x86, 0xf7, 0x0d, 0x01, 0x07, 0x02]"
definition OID_TST_INFO :: bytes where "OID_TST_INFO = [0x2a, 0x86, 0x48, 0x86, 0xf7, 0x0d, 0x01, 0x09, 0x10, 0x01, 0x04]"
definition OID_CONTENT_TYPE :: bytes where "OID_CONTENT_TYPE = [0x2a, 0x86, 0x48, 0x86, 0xf7, 0x0d, 0x01, 0x09, 0x03]"
definition OID_MESSAGE_DIGEST :: bytes where "OID_MESSAGE_DIGEST = [0x2a, 0x86, 0x48, 0x86, 0xf7, 0x0d, 0x01, 0x09, 0x04]"
definition OID_SIGNING_CERTIFICATE :: bytes where
  "OID_SIGNING_CERTIFICATE = [0x2a, 0x86, 0x48, 0x86, 0xf7, 0x0d, 0x01, 0x09, 0x10, 0x02, 0x0c]"
definition OID_SIGNING_CERTIFICATE_V2 :: bytes where
  "OID_SIGNING_CERTIFICATE_V2 = [0x2a, 0x86, 0x48, 0x86, 0xf7, 0x0d, 0x01, 0x09, 0x10, 0x02, 0x2f]"
definition OID_SHA256 :: bytes where "OID_SHA256 = [0x60, 0x86, 0x48, 0x01, 0x65, 0x03, 0x04, 0x02, 0x01]"
definition OID_SHA384 :: bytes where "OID_SHA384 = [0x60, 0x86, 0x48, 0x01, 0x65, 0x03, 0x04, 0x02, 0x02]"
definition OID_SHA512 :: bytes where "OID_SHA512 = [0x60, 0x86, 0x48, 0x01, 0x65, 0x03, 0x04, 0x02, 0x03]"
definition OID_ECDSA_SHA256 :: bytes where "OID_ECDSA_SHA256 = [0x2a, 0x86, 0x48, 0xce, 0x3d, 0x04, 0x03, 0x02]"
definition OID_ECDSA_SHA384 :: bytes where "OID_ECDSA_SHA384 = [0x2a, 0x86, 0x48, 0xce, 0x3d, 0x04, 0x03, 0x03]"

section \<open>Digests and times\<close>

datatype tsa_hash = Sha256 | Sha384 | Sha512

fun hash_digest :: "('k, 's, 'j, 'x) crypto_env_scheme \<Rightarrow> tsa_hash \<Rightarrow> bytes \<Rightarrow> bytes" where
  "hash_digest Y Sha256 = cy_sha256 Y"
| "hash_digest Y Sha384 = cy_sha384 Y"
| "hash_digest Y Sha512 = cy_sha512 Y"

definition guard :: "bool \<Rightarrow> unit option" where
  "guard b = (if b then Some () else None)"

definition hash_algorithm :: "bytes \<Rightarrow> tsa_hash option" where
  "hash_algorithm d =
     Option.bind (der_expect T_OID d) (\<lambda>(oid, d).
     Option.bind (if oid = OID_SHA256 then Some Sha256 else if oid = OID_SHA384 then Some Sha384
                  else if oid = OID_SHA512 then Some Sha512 else None) (\<lambda>hash.
     Option.bind (if d \<noteq> []
                  then Option.bind (der_expect T_NULL d) (\<lambda>(c, d). Option.bind (guard (c = [])) (\<lambda>_. Some d))
                  else Some d) (\<lambda>d.
     Option.bind (guard (d = [])) (\<lambda>_. Some hash))))"

definition generalized_time :: "('k, 's, 'j, 'x) crypto_env_scheme \<Rightarrow> bytes \<Rightarrow> int option" where
  "generalized_time Y content =
     Option.bind (guard (get content 14 \<in> {Some 46, Some 90} \<and> 44 \<notin> set content)) (\<lambda>_.
     Option.bind (cy_gen_time Y content) (\<lambda>(utc, time).
     Option.bind (guard utc) (\<lambda>_. time)))"

section \<open>The parts of a timestamp\<close>

definition check_tst_info :: "('k, 's, 'j, 'x) crypto_env_scheme \<Rightarrow> bytes \<Rightarrow> bytes \<Rightarrow> int option" where
  "check_tst_info Y tst_info signed_bytes =
     Option.bind (der_single tst_info T_SEQUENCE) (\<lambda>d.
     Option.bind (der_expect T_INTEGER d) (\<lambda>(_, d).
     Option.bind (der_expect T_OID d) (\<lambda>(_, d).
     Option.bind (der_expect T_SEQUENCE d) (\<lambda>(imprint, d).
     Option.bind (der_expect T_SEQUENCE imprint) (\<lambda>(alg, imprint).
     Option.bind (hash_algorithm alg) (\<lambda>hash.
     Option.bind (der_expect T_OCTET_STRING imprint) (\<lambda>(hashed_message, imprint).
     Option.bind (guard (imprint = [])) (\<lambda>_.
     Option.bind (guard (hash_digest Y hash signed_bytes = hashed_message)) (\<lambda>_.
     Option.bind (der_expect T_INTEGER d) (\<lambda>(_, d).
     Option.bind (der_expect T_GENERALIZED_TIME d) (\<lambda>(time, _).
       generalized_time Y time)))))))))))"

definition check_ess_cert_id_v2 :: "('k, 's, 'j, 'x) crypto_env_scheme \<Rightarrow> bytes \<Rightarrow> tsa_chain \<Rightarrow> unit option" where
  "check_ess_cert_id_v2 Y values tsa =
     Option.bind (der_single values T_SEQUENCE) (\<lambda>d.
     Option.bind (der_expect T_SEQUENCE d) (\<lambda>(certs, _).
     Option.bind (der_expect T_SEQUENCE certs) (\<lambda>(cert_id, _).
     Option.bind (if cert_id \<noteq> [] \<and> hd cert_id = T_SEQUENCE
                  then Option.bind (der_expect T_SEQUENCE cert_id) (\<lambda>(alg, d). map_option (\<lambda>h. (h, d)) (hash_algorithm alg))
                  else Some (Sha256, cert_id)) (\<lambda>(hash, d).
     Option.bind (der_expect T_OCTET_STRING d) (\<lambda>(cert_hash, _).
       guard (hash_digest Y hash (tc_leaf tsa) = cert_hash))))))"

text \<open>The loop over the attributes, with the three slots it fills: content type, message digest, signing certificate.\<close>

type_synonym slots = "bytes option \<times> bytes option \<times> bytes option"

fun fill_slot :: "bytes \<Rightarrow> bytes \<Rightarrow> slots \<Rightarrow> slots option" where
  "fill_slot oid values (ct, md, cert) =
     (if oid = OID_CONTENT_TYPE then Option.bind (guard (ct = None)) (\<lambda>_. Some (Some values, md, cert))
      else if oid = OID_MESSAGE_DIGEST then Option.bind (guard (md = None)) (\<lambda>_. Some (ct, Some values, cert))
      else if oid = OID_SIGNING_CERTIFICATE_V2 then Option.bind (guard (cert = None)) (\<lambda>_. Some (ct, md, Some values))
      else if oid = OID_SIGNING_CERTIFICATE then None
      else Some (ct, md, cert))"

definition read_attribute :: "bytes \<Rightarrow> ((bytes \<times> bytes) \<times> bytes) option" where
  "read_attribute d =
     Option.bind (der_expect T_SEQUENCE d) (\<lambda>(attribute, rest).
     Option.bind (der_expect T_OID attribute) (\<lambda>(oid, a).
     Option.bind (der_expect T_SET a) (\<lambda>(values, a).
     Option.bind (guard (a = [])) (\<lambda>_. Some ((oid, values), rest)))))"

lemma read_attribute_shorter: "read_attribute d = Some (x, rest) \<Longrightarrow> length rest < length d"
  by (auto simp: read_attribute_def guard_def Option.bind_eq_Some_conv dest: der_expect_shorter split: if_splits)

function attribute_slots :: "bytes \<Rightarrow> slots \<Rightarrow> slots option" where
  "attribute_slots d slots =
     (if d = [] then Some slots
      else (case read_attribute d of
              None \<Rightarrow> None
            | Some ((oid, values), rest) \<Rightarrow> Option.bind (fill_slot oid values slots) (attribute_slots rest)))"
  by pat_completeness auto
termination by (relation "measure (\<lambda>(d, s). length d)") (auto dest: read_attribute_shorter)

declare attribute_slots.simps [simp del]

definition check_signed_attributes ::
  "('k, 's, 'j, 'x) crypto_env_scheme \<Rightarrow> bytes \<Rightarrow> tsa_hash \<Rightarrow> bytes \<Rightarrow> tsa_chain \<Rightarrow> unit option" where
  "check_signed_attributes Y attributes digest tst_info tsa =
     Option.bind (attribute_slots attributes (None, None, None)) (\<lambda>(content_type, message_digest, signing_certificate).
     Option.bind content_type (\<lambda>ct.
     Option.bind (der_single ct T_OID) (\<lambda>oid.
     Option.bind (guard (oid = OID_TST_INFO)) (\<lambda>_.
     Option.bind message_digest (\<lambda>md.
     Option.bind (der_single md T_OCTET_STRING) (\<lambda>value_digest.
     Option.bind (guard (value_digest = hash_digest Y digest tst_info)) (\<lambda>_.
       (case signing_certificate of
          Some values \<Rightarrow> check_ess_cert_id_v2 Y values tsa
        | None \<Rightarrow> Some ()))))))))"

text \<open>The signer: by issuer and serial number, or by key identifier.\<close>

definition check_signer_id :: "x509 \<Rightarrow> bytes \<Rightarrow> bytes option" where
  "check_signer_id leaf d =
     Option.bind (der_expect T_INTEGER d) (\<lambda>(version, d).
       if version = [1] then
         Option.bind (der_expect T_SEQUENCE d) (\<lambda>(sid, d).
         Option.bind (der_next sid) (\<lambda>((_, _, issuer), sid).
         Option.bind (der_expect T_INTEGER sid) (\<lambda>(serial, sid).
         Option.bind (guard (sid = [])) (\<lambda>_.
         Option.bind (guard (issuer = xc_issuer leaf \<and> serial = xc_serial leaf)) (\<lambda>_. Some d)))))
       else if version = [3] then
         Option.bind (der_expect T_CONTEXT_0_PRIMITIVE d) (\<lambda>(key_id, d).
         Option.bind (guard (list_ex (\<lambda>e. xe_parsed e = ExtSubjectKeyId key_id) (xc_extensions leaf))) (\<lambda>_. Some d))
       else None)"

definition signature_algorithms :: "bytes \<Rightarrow> sig_alg list option" where
  "signature_algorithms oid =
     (if oid = OID_ECDSA_SHA256 then Some [ECDSA_P256_SHA256, ECDSA_P384_SHA256]
      else if oid = OID_ECDSA_SHA384 then Some [ECDSA_P256_SHA384, ECDSA_P384_SHA384]
      else None)"

definition check_signer_info ::
  "('k, 's, 'j, 'x) crypto_env_scheme \<Rightarrow> bytes \<Rightarrow> bytes \<Rightarrow> x509 \<Rightarrow> tsa_chain \<Rightarrow> unit option" where
  "check_signer_info Y signer_info tst_info leaf tsa =
     Option.bind (check_signer_id leaf signer_info) (\<lambda>d.
     Option.bind (der_expect T_SEQUENCE d) (\<lambda>(alg, d).
     Option.bind (hash_algorithm alg) (\<lambda>digest.
     Option.bind (der_next d) (\<lambda>((attributes_tag, attributes, attributes_whole), d).
     Option.bind (guard (attributes_tag = T_CONTEXT_0)) (\<lambda>_.
     Option.bind (der_expect T_SEQUENCE d) (\<lambda>(sig_alg, d).
     Option.bind (der_expect T_OID sig_alg) (\<lambda>(oid, sig_alg).
     Option.bind (guard (sig_alg = [])) (\<lambda>_.
     Option.bind (der_expect T_OCTET_STRING d) (\<lambda>(signature, d).
     Option.bind (skip_optional T_CONTEXT_1 d) (\<lambda>d.
     Option.bind (guard (d = [])) (\<lambda>_.
     Option.bind (check_signed_attributes Y attributes digest tst_info tsa) (\<lambda>_.
     Option.bind (guard (attributes_whole \<noteq> [])) (\<lambda>_.
     Option.bind (signature_algorithms oid) (\<lambda>algorithms.
       guard (list_ex (\<lambda>a. cy_verify Y a (xc_key_data leaf) (T_SET # List.tl attributes_whole) signature) algorithms)))))))))))))))"

definition check_leaf_usage :: "x509 \<Rightarrow> unit option" where
  "check_leaf_usage leaf =
     (case xc_key_usage leaf of
        Inr (Some u) \<Rightarrow>
          guard (ku_critical u \<and> ku_time_stamping u \<and> \<not> ku_any u \<and> \<not> ku_server_auth u \<and> \<not> ku_client_auth u \<and> \<not> ku_code_signing u
            \<and> \<not> ku_email_protection u \<and> \<not> ku_ocsp_signing u \<and> ku_other u = [])
      | _ \<Rightarrow> None)"

text \<open>The way to the token's content and to its one signer.\<close>

definition signed_data_parts :: "bytes \<Rightarrow> (bytes \<times> bytes) option" where
  "signed_data_parts d =
     Option.bind (der_expect T_INTEGER d) (\<lambda>(_, d).
     Option.bind (der_expect T_SET d) (\<lambda>(_, d).
     Option.bind (der_expect T_SEQUENCE d) (\<lambda>(encapsulated, d).
     Option.bind (der_expect T_OID encapsulated) (\<lambda>(oid, e).
     Option.bind (guard (oid = OID_TST_INFO)) (\<lambda>_.
     Option.bind (der_expect T_CONTEXT_0 e) (\<lambda>(content, e).
     Option.bind (der_single content T_OCTET_STRING) (\<lambda>tst_info.
     Option.bind (guard (e = [])) (\<lambda>_.
     Option.bind (skip_optional T_CONTEXT_0 d) (\<lambda>d.
     Option.bind (skip_optional T_CONTEXT_1 d) (\<lambda>d.
     Option.bind (der_expect T_SET d) (\<lambda>(signers, d).
     Option.bind (der_single signers T_SEQUENCE) (\<lambda>signer_info.
     Option.bind (guard (d = [])) (\<lambda>_. Some (tst_info, signer_info))))))))))))))"

definition token_parts :: "bytes \<Rightarrow> (bytes \<times> bytes) option" where
  "token_parts signed_timestamp =
     Option.bind (der_single signed_timestamp T_SEQUENCE) (\<lambda>response.
     Option.bind (der_expect T_SEQUENCE response) (\<lambda>(status, response).
     Option.bind (der_expect T_INTEGER status) (\<lambda>(code, _).
     Option.bind (guard (code = [0])) (\<lambda>_.
     Option.bind (der_expect T_SEQUENCE response) (\<lambda>(token, response).
     Option.bind (guard (response = [])) (\<lambda>_.
     Option.bind (der_expect T_OID token) (\<lambda>(oid, token).
     Option.bind (guard (oid = OID_SIGNED_DATA)) (\<lambda>_.
     Option.bind (der_expect T_CONTEXT_0 token) (\<lambda>(content, token).
     Option.bind (der_single content T_SEQUENCE) (\<lambda>signed_data.
     Option.bind (guard (token = [])) (\<lambda>_.
       signed_data_parts signed_data)))))))))))"

definition tsa_check :: "('k, 's, 'j, 'x) crypto_env_scheme \<Rightarrow> bytes \<Rightarrow> bytes \<Rightarrow> tsa_chain \<Rightarrow> int option" where
  "tsa_check Y signed_timestamp signed_bytes tsa =
     Option.bind (cy_x509 Y (tc_leaf tsa)) (\<lambda>leaf.
     Option.bind (token_parts signed_timestamp) (\<lambda>(tst_info, signer_info).
     Option.bind (check_tst_info Y tst_info signed_bytes) (\<lambda>gen_time.
     Option.bind (check_signer_info Y signer_info tst_info leaf tsa) (\<lambda>_.
     Option.bind (check_leaf_usage leaf) (\<lambda>_.
     Option.bind (guard (window_covers (tc_window tsa) gen_time
         \<and> window_covers (xc_not_before leaf, xc_not_after leaf) gen_time)) (\<lambda>_. Some gen_time))))))"

definition verify_timestamp ::
  "('k, 's, 'j, 'x) crypto_env_scheme \<Rightarrow> bytes \<Rightarrow> bytes \<Rightarrow> tsa_chain \<Rightarrow> (verification_error, int) result" where
  "verify_timestamp Y signed_timestamp signed_bytes tsa =
     (if length signed_timestamp > MAX_TIMESTAMP_BYTES then Inl VeTimestampInvalid
      else ok_or VeTimestampInvalid (tsa_check Y signed_timestamp signed_bytes tsa))"

section \<open>What an accepted timestamp says\<close>

text \<open>All attributes, in order.\<close>

function attribute_list :: "bytes \<Rightarrow> (bytes \<times> bytes) list option" where
  "attribute_list d =
     (if d = [] then Some []
      else (case read_attribute d of
              None \<Rightarrow> None
            | Some (a, rest) \<Rightarrow> map_option ((#) a) (attribute_list rest)))"
  by pat_completeness auto
termination by (relation "measure length") (auto dest: read_attribute_shorter)

declare attribute_list.simps [simp del]

definition values_of :: "bytes \<Rightarrow> (bytes \<times> bytes) list \<Rightarrow> bytes list" where
  "values_of oid attrs = map snd (filter (\<lambda>a. fst a = oid) attrs)"

lemma guard_Some [simp]: "guard b = Some x \<longleftrightarrow> b"
  by (simp add: guard_def)

lemmas oid_defs = OID_CONTENT_TYPE_def OID_MESSAGE_DIGEST_def OID_SIGNING_CERTIFICATE_def OID_SIGNING_CERTIFICATE_V2_def

definition slot_list :: "bytes option \<Rightarrow> bytes list" where
  "slot_list x = (case x of None \<Rightarrow> [] | Some v \<Rightarrow> [v])"

lemma fill_slot_values:
  assumes "fill_slot oid v (ct, md, cert) = Some (ct', md', cert')"
  shows "slot_list ct' = slot_list ct @ values_of OID_CONTENT_TYPE [(oid, v)]"
    "slot_list md' = slot_list md @ values_of OID_MESSAGE_DIGEST [(oid, v)]"
    "values_of OID_SIGNING_CERTIFICATE [(oid, v)] = []"
  using assms by (auto simp: values_of_def slot_list_def oid_defs Option.bind_eq_Some_conv split: if_splits)

lemma values_of_Cons: "values_of x (a # attrs) = values_of x [a] @ values_of x attrs"
  by (simp add: values_of_def)

lemma slots_filled:
  "attribute_slots d (ct, md, cert) = Some (ct', md', cert') \<Longrightarrow>
     \<exists>attrs. attribute_list d = Some attrs \<and> slot_list ct' = slot_list ct @ values_of OID_CONTENT_TYPE attrs
       \<and> slot_list md' = slot_list md @ values_of OID_MESSAGE_DIGEST attrs \<and> values_of OID_SIGNING_CERTIFICATE attrs = []"
proof (induction d arbitrary: ct md cert rule: attribute_list.induct)
  case (1 d)
  show ?case
  proof (cases "d = []")
    case True
    then show ?thesis using 1(2) by (simp add: attribute_slots.simps attribute_list.simps values_of_def)
  next
    case False
    then obtain oid v rest slots where r: "read_attribute d = Some ((oid, v), rest)" "fill_slot oid v (ct, md, cert) = Some slots"
      "attribute_slots rest slots = Some (ct', md', cert')"
      using 1(2) by (subst (asm) attribute_slots.simps) (auto simp: Option.bind_eq_Some_conv split: option.splits prod.splits simp del: fill_slot.simps)
    obtain ct1 md1 cert1 where s: "slots = (ct1, md1, cert1)" by (cases slots)
    from 1(1) [OF False r(1) refl r(3) [unfolded s]] obtain attrs where a: "attribute_list rest = Some attrs"
      "slot_list ct' = slot_list ct1 @ values_of OID_CONTENT_TYPE attrs" "slot_list md' = slot_list md1 @ values_of OID_MESSAGE_DIGEST attrs"
      "values_of OID_SIGNING_CERTIFICATE attrs = []" by blast
    have "attribute_list d = Some ((oid, v) # attrs)" using False r(1) a(1) by (subst attribute_list.simps) simp
    then show ?thesis using a fill_slot_values [OF r(2) [unfolded s]] by (intro exI [of _ "(oid, v) # attrs"]) (simp add: values_of_Cons [of _ "(oid, v)" attrs] del: fill_slot.simps)
  qed
qed

lemma accepted_token:
  assumes "verify_timestamp Y ts bytes_signed tsa = Inr t"
  obtains leaf tst signer where "cy_x509 Y (tc_leaf tsa) = Some leaf" "token_parts ts = Some (tst, signer)"
    "check_tst_info Y tst bytes_signed = Some t" "check_signer_info Y signer tst leaf tsa = Some ()" "check_leaf_usage leaf = Some ()"
    "window_covers (tc_window tsa) t" "window_covers (xc_not_before leaf, xc_not_after leaf) t"
  using assms by (auto simp: verify_timestamp_def tsa_check_def Option.bind_eq_Some_conv split: if_splits)

lemma signer_attributes:
  assumes "check_signer_info Y signer tst leaf tsa = Some ()"
  shows "\<exists>attrs list digest alg whole sig md. cy_verify Y alg (xc_key_data leaf) (T_SET # List.tl whole) sig
    \<and> der_tlv whole = Some (T_CONTEXT_0, attrs, []) \<and> attribute_list attrs = Some list \<and> values_of OID_MESSAGE_DIGEST list = [md]
    \<and> der_single md T_OCTET_STRING = Some (hash_digest Y digest tst)"
proof -
  obtain d attrs whole digest d2 sig algs where c: "der_next d = Some ((T_CONTEXT_0, attrs, whole), d2)"
    "check_signed_attributes Y attrs digest tst tsa = Some ()"
    "list_ex (\<lambda>a. cy_verify Y a (xc_key_data leaf) (T_SET # List.tl whole) sig) algs"
    using assms unfolding check_signer_info_def by (auto simp: Option.bind_eq_Some_conv)
  obtain ct md cert where s: "attribute_slots attrs (None, None, None) = Some (ct, Some md, cert)"
    "der_single md T_OCTET_STRING = Some (hash_digest Y digest tst)"
    using c(2) unfolding check_signed_attributes_def by (auto simp: Option.bind_eq_Some_conv)
  obtain list where l: "attribute_list attrs = Some list" "values_of OID_MESSAGE_DIGEST list = [md]"
    using slots_filled [OF s(1)] by (auto simp: slot_list_def)
  have t: "der_tlv d = Some (T_CONTEXT_0, attrs, d2)" "whole = whole_of d d2" using c(1) by (auto simp: der_next_def split: option.splits if_splits)
  have "der_tlv whole = Some (T_CONTEXT_0, attrs, [])" using der_tlv_whole [OF t(1)] t(2) by simp
  then show ?thesis using c(3) l s(2) unfolding list_ex_iff by blast
qed

lemma tst_info_one:
  assumes "check_tst_info Y tst a = Some t" and "check_tst_info Y tst b = Some u"
  shows "t = u \<and> (\<exists>h. hash_digest Y h a = hash_digest Y h b)"
  using assms unfolding check_tst_info_def by (auto simp: Option.bind_eq_Some_conv)

text \<open>C18. A timestamp speaks about one signature. When the same timestamp is accepted for two strings, by whatever authorities, the
  strings are the same unless their digests collide, and so is the time. The authority has signed this: its key verifies a signature over attributes
  with exactly one message digest, which is the digest of the very content that names the string and the time; its certificate is for
  timestamps only; and the time lies in the window of the authority and of its certificate.\<close>

theorem timestamp_binds:
  assumes "verify_timestamp Y ts a tsa = Inr t" and "verify_timestamp Y ts b tsa' = Inr u" and "\<forall>h. inj_on (hash_digest Y h) {a, b}"
  shows "a = b \<and> t = u \<and> window_covers (tc_window tsa) t
    \<and> (\<exists>leaf tst signer attrs list digest alg whole sig md. cy_x509 Y (tc_leaf tsa) = Some leaf \<and> token_parts ts = Some (tst, signer)
       \<and> check_tst_info Y tst a = Some t \<and> check_leaf_usage leaf = Some () \<and> window_covers (xc_not_before leaf, xc_not_after leaf) t
       \<and> cy_verify Y alg (xc_key_data leaf) (0x31 # tl whole) sig \<and> der_tlv whole = Some (0xa0, attrs, [])
       \<and> attribute_list attrs = Some list \<and> values_of OID_MESSAGE_DIGEST list = [md] \<and> der_single md 0x04 = Some (hash_digest Y digest tst))"
proof -
  obtain leaf tst signer where a: "cy_x509 Y (tc_leaf tsa) = Some leaf" "token_parts ts = Some (tst, signer)"
    "check_tst_info Y tst a = Some t" "check_signer_info Y signer tst leaf tsa = Some ()" "check_leaf_usage leaf = Some ()"
    "window_covers (tc_window tsa) t" "window_covers (xc_not_before leaf, xc_not_after leaf) t"
    by (rule accepted_token [OF assms(1)])
  obtain tst' signer' where b: "token_parts ts = Some (tst', signer')" "check_tst_info Y tst' b = Some u" by (rule accepted_token [OF assms(2)])
  have one: "t = u" "\<exists>h. hash_digest Y h a = hash_digest Y h b" using tst_info_one [OF a(3)] a(2) b by auto
  then have "a = b" using assms(3) by (auto simp: inj_on_def)
  then show ?thesis using one(1) a(1,2,3,5,6,7) signer_attributes [OF a(4)] by blast
qed

text \<open>A granted response around a content and a signer, which the verifier takes apart again.\<close>

definition token_of :: "bytes \<Rightarrow> bytes \<Rightarrow> bytes" where
  "token_of tst signer = der_element (0x30, der_elements [(0x30, der_element (2, [0])), (0x30, der_elements [(6, OID_SIGNED_DATA),
     (0xa0, der_element (0x30, der_elements [(2, [3]), (0x31, []), (0x30, der_elements [(6, OID_TST_INFO), (0xa0, der_element (4, tst))]),
        (0x31, der_element (0x30, signer))]))])])"

lemma token_parts_token:
  assumes "length (token_of tst signer) < 2 ^ 24"
  shows "token_parts (token_of tst signer) = Some (tst, signer)"
proof -
  define tc sg where "tc = der_element (4, tst)" and "sg = der_element (0x30, signer)"
  define enc where "enc = der_elements [(6, OID_TST_INFO), (0xa0, tc)]"
  define sd where "sd = der_elements [(2, [3]), (0x31, []), (0x30, enc), (0x31, sg)]"
  define c0 where "c0 = der_element (0x30, sd)"
  define tok where "tok = der_elements [(6, OID_SIGNED_DATA), (0xa0, c0)]"
  define resp where "resp = der_elements [(0x30, der_element (2, [0])), (0x30, tok)]"
  have token: "token_of tst signer = der_element (0x30, resp)" by (simp add: token_of_def tc_def sg_def enc_def sd_def c0_def tok_def resp_def)
  note longer = der_element_longer
  have l1: "length resp < 2 ^ 24" using assms longer [of resp "0x30"] by (simp add: token)
  then have l2: "length tok < 2 ^ 24" "length (der_element (2, [0])) < 2 ^ 24" using longer [of tok "0x30"] longer [of "der_element (2, [0])" "0x30"] by (simp_all add: resp_def)
  then have l3: "length c0 < 2 ^ 24" using longer [of c0 "0xa0"] by (simp add: tok_def)
  then have l4: "length sd < 2 ^ 24" using longer [of sd "0x30"] by (simp add: c0_def)
  then have l5: "length enc < 2 ^ 24" "length sg < 2 ^ 24" using longer [of enc "0x30"] longer [of sg "0x31"] by (simp_all add: sd_def)
  then have l6: "length tc < 2 ^ 24" "length signer < 2 ^ 24" using longer [of tc "0xa0"] longer [of signer "0x30"] by (simp_all add: enc_def sg_def)
  then have l7: "length tst < 2 ^ 24" using longer [of tst 4] by (simp add: tc_def)
  note read = der_expect_element der_expect_element [where rest = "[]", simplified] der_single_element
  have "hd (der_element (t, c) @ r) = t" for t c r by (simp add: der_element_unfold)
  then have skip: "skip_optional u (der_element (t, c) @ r) = Some (der_element (t, c) @ r)" if "t \<noteq> u" for t u c r
    using that by (simp add: skip_optional_def)
  have sd': "signed_data_parts sd = Some (tst, signer)"
    using l5 l6 l7 skip [of "0x31" _ sg "[]"] unfolding signed_data_parts_def sd_def enc_def [symmetric]
    by (simp add: read guard_def, simp add: enc_def tc_def sg_def read guard_def OID_TST_INFO_def)
  show ?thesis unfolding token token_parts_def using l1 l2 l3 l4 sd'
    by (simp add: read guard_def, simp add: resp_def read guard_def, simp add: tok_def c0_def read guard_def OID_SIGNED_DATA_def)
qed

text \<open>A timestamp over one byte.\<close>

definition xt_tst :: bytes where
  "xt_tst = der_element (0x30, der_elements [(2, [1]), (6, [1]),
     (0x30, der_elements [(0x30, der_element (6, OID_SHA256)), (4, xm_sha [7])]), (2, [5]), (0x18, lit ''20260101000000Z'')])"

definition xt_attributes :: bytes where
  "xt_attributes = der_elements
     [(0x30, der_elements [(6, OID_CONTENT_TYPE), (0x31, der_element (6, OID_TST_INFO))]),
      (0x30, der_elements [(6, OID_MESSAGE_DIGEST), (0x31, der_element (4, xm_sha xt_tst))])]"

definition xt_signer :: bytes where
  "xt_signer = der_elements [(2, [1]), (0x30, der_elements [(0x30, []), (2, [9])]), (0x30, der_element (6, OID_SHA256)), (0xa0, xt_attributes),
     (0x30, der_element (6, OID_ECDSA_SHA256)), (4, [1])]"

definition xt_timestamp :: bytes where
  "xt_timestamp = token_of xt_tst xt_signer"

definition xt_tsa :: tsa_chain where
  "xt_tsa = \<lparr>tc_leaf = [], tc_root = [], tc_window = (50, 200)\<rparr>"

lemma xt_accepted: "verify_timestamp xc_env xt_timestamp [7] xt_tsa = Inr 100"
proof -
  have "length (token_of xt_tst xt_signer) < 1000" by code_simp
  moreover from this have "token_parts xt_timestamp = Some (xt_tst, xt_signer)" unfolding xt_timestamp_def by (intro token_parts_token) simp
  moreover have "check_tst_info xc_env xt_tst [7] = Some 100" "check_signer_info xc_env xt_signer xt_tst xc_cert xt_tsa = Some ()"
      "check_leaf_usage xc_cert = Some ()" by code_simp+
  ultimately show ?thesis
    by (simp add: verify_timestamp_def MAX_TIMESTAMP_BYTES_def xt_timestamp_def tsa_check_def window_covers_def xt_tsa_def guard_def ok_or_def)
       (simp add: xc_env_def xc_cert_def)
qed

theorem timestamp_binds_witness:
  "verify_timestamp xc_env xt_timestamp [7] xt_tsa = Inr 100 \<and> window_covers (tc_window xt_tsa) 100"
  using timestamp_binds [OF xt_accepted xt_accepted] xt_accepted by simp

end
