(* ===== verification/Verify.thy ===== *)
theory Verify
  imports Timestamp
begin

text \<open>
  \<^verbatim>\<open>crates/detent-update/src/verify.rs\<close>: the ordered steps that decide whether a downloaded file is a release. Everything is offline,
  over the trust root and the decoded bundle; the first step that fails is the answer. Steps after the inclusion proof can end in its
  panic (\<open>None\<close>).
\<close>

section \<open>Names and encodings\<close>

definition ISSUER :: rstr where "ISSUER = lit ''https://token.actions.githubusercontent.com''"
definition ISSUER_OID :: rstr where "ISSUER_OID = lit ''1.3.6.1.4.1.57264.1.1''"
definition ISSUER_V2_OID :: rstr where "ISSUER_V2_OID = lit ''1.3.6.1.4.1.57264.1.8''"
definition BUILD_SIGNER_URI_OID :: rstr where "BUILD_SIGNER_URI_OID = lit ''1.3.6.1.4.1.57264.1.9''"
definition SCT_LIST_OID :: rstr where "SCT_LIST_OID = lit ''1.3.6.1.4.1.11129.2.4.2''"
definition NOTE_SIGNATURE_PREFIX :: rstr where "NOTE_SIGNATURE_PREFIX = [0x2014, SP]"

definition P256_SPKI_PREFIX :: bytes where
  "P256_SPKI_PREFIX = [0x30, 0x59, 0x30, 0x13, 0x06, 0x07, 0x2a, 0x86, 0x48, 0xce, 0x3d, 0x02, 0x01, 0x06, 0x08, 0x2a,
     0x86, 0x48, 0xce, 0x3d, 0x03, 0x01, 0x07, 0x03, 0x42, 0x00]"

definition pinned_identity :: "rstr \<Rightarrow> rstr" where
  "pinned_identity tag = lit ''https://github.com/jauderho/detent/.github/workflows/release.yml@refs/tags/'' @ tag"

definition hex_lower :: "bytes \<Rightarrow> rstr" where
  "hex_lower bs =
     concat (map (\<lambda>b. [if b div 16 < 10 then 48 + b div 16 else 87 + b div 16, if b mod 16 < 10 then 48 + b mod 16 else 87 + b mod 16]) bs)"

definition show_int :: "int \<Rightarrow> rstr" where
  "show_int n = (if n < 0 then 45 # show_nat (nat (- n)) else show_nat (nat n))"

definition dsse_pae :: "bytes \<Rightarrow> bytes \<Rightarrow> bytes" where
  "dsse_pae payload_type payload =
     as_bytes (lit ''DSSEv1 '') @ as_bytes (show_nat (length payload_type)) @ [SP] @ payload_type @ [SP]
     @ as_bytes (show_nat (length payload)) @ [SP] @ payload"

section \<open>Signing times and the certificate chain\<close>

definition signing_times :: "('k, 's, 'j, 'x) crypto_env_scheme \<Rightarrow> decoded \<Rightarrow> 'k trust_root \<Rightarrow> (verification_error, int list) result" where
  "signing_times Y d trust =
     bind_result (map_results (\<lambda>token. ok_or VeTimestampInvalid (find_map (\<lambda>tsa.
         case verify_timestamp Y token (dc_dsse_signature d) tsa of Inr t \<Rightarrow> Some t | Inl _ \<Rightarrow> None) (tr_tsas trust)))
       (dc_rfc3161_timestamps d)) (\<lambda>stamps.
     let moments = (if is_rekor_v2 d then [] else [dc_integrated_time d]) @ stamps
     in if moments = [] then Inl VeTimestampInvalid else Inr moments)"

definition verify_chain_at ::
  "('k, 's, 'j, 'x) crypto_env_scheme \<Rightarrow> decoded \<Rightarrow> 'k trust_root \<Rightarrow> int \<Rightarrow> (verification_error, unit) result" where
  "verify_chain_at Y d trust time =
     (let usable_roots = map fst (filter (\<lambda>(_, window). window_covers window time) (zip (tr_fulcio_roots trust) (tr_root_windows trust))) in
      if usable_roots = [] then Inl VeTrustRootUnavailable
      else if \<not> list_all (cy_anchor Y) usable_roots then Inl VeCertChainInvalid
      else
        (case dc_certs d of
           [] \<Rightarrow> Inl VeCertChainInvalid
         | leaf_raw # intermediate_raws \<Rightarrow>
             if \<not> cy_end_entity Y leaf_raw then Inl VeCertChainInvalid
             else
               (case cy_chain Y usable_roots intermediate_raws leaf_raw (nat (max time 0)) of
                  Inr () \<Rightarrow> Inr ()
                | Inl WpCertExpired \<Rightarrow> Inl VeCertExpired
                | Inl WpCertNotValidYet \<Rightarrow> Inl VeCertExpired
                | Inl WpOther \<Rightarrow> Inl VeCertChainInvalid)))"

section \<open>Identity\<close>

definition build_signer_is :: "x509 \<Rightarrow> rstr \<Rightarrow> bool" where
  "build_signer_is leaf pinned \<longleftrightarrow>
     list_ex (\<lambda>e. xe_oid e = BUILD_SIGNER_URI_OID \<and> der_utf8_string (xe_value e) = Some (as_bytes pinned)) (xc_extensions leaf)"

definition check_identity :: "x509 \<Rightarrow> rstr \<Rightarrow> (verification_error, unit) result" where
  "check_identity leaf pinned =
     (case xc_san leaf of
        Inl _ \<Rightarrow> Inl VeCertChainInvalid
      | Inr san \<Rightarrow>
          (let san_matches = (case san of Some names \<Rightarrow> NameUri pinned \<in> set names | None \<Rightarrow> False)
           in if \<not> san_matches \<and> \<not> build_signer_is leaf pinned then Inl VeIdentityMismatch else Inr ()))"

definition check_issuer :: "x509 \<Rightarrow> (verification_error, unit) result" where
  "check_issuer leaf =
     (let modern_issuer = list_ex (\<lambda>e. xe_oid e = ISSUER_V2_OID \<and> der_utf8_string (xe_value e) = Some (as_bytes ISSUER)) (xc_extensions leaf);
          legacy_issuer = list_ex (\<lambda>e. xe_oid e = ISSUER_OID \<and> xe_value e = as_bytes ISSUER) (xc_extensions leaf)
      in if \<not> modern_issuer \<and> \<not> legacy_issuer then Inl VeIssuerMismatch else Inr ())"

definition sct_issuer_spki :: "('k, 's, 'j, 'x) crypto_env_scheme \<Rightarrow> x509 \<Rightarrow> bytes list \<Rightarrow> bytes option" where
  "sct_issuer_spki Y leaf candidates =
     find_map (\<lambda>der.
       case cy_x509 Y der of
         None \<Rightarrow> None
       | Some cert \<Rightarrow>
           (let signs_leaf = list_ex (\<lambda>a. cy_verify Y a (xc_key_data cert) (xc_tbs leaf) (xc_signature leaf))
                  [ECDSA_P256_SHA256, ECDSA_P384_SHA384]
            in if xc_subject cert = xc_issuer leaf \<and> signs_leaf then Some (xc_spki_raw cert) else None)) candidates"

text \<open>What a log of certificates signs.\<close>

definition sct_signed :: "bytes \<Rightarrow> bytes \<Rightarrow> sct \<Rightarrow> bytes" where
  "sct_signed issuer_key_hash tbs sct =
     [0, 0] @ be_bytes 8 (sc_timestamp sct) @ [0, 1] @ issuer_key_hash @ be_bytes 3 (length tbs) @ tbs
     @ be_bytes 2 (length (sc_extensions sct)) @ sc_extensions sct"

definition sct_ok :: "('k, 's, 'j, 'x) crypto_env_scheme \<Rightarrow> 'k ct_log_key list \<Rightarrow> bytes \<Rightarrow> bytes \<Rightarrow> sct \<Rightarrow> bool" where
  "sct_ok Y ct_logs issuer_key_hash tbs sct =
     (case find (\<lambda>log. ck_log_id log = sc_key_id sct) ct_logs of
        None \<Rightarrow> False
      | Some log \<Rightarrow>
          if length (sc_extensions sct) > u16_max then False
          else if sc_version sct \<noteq> CtV1 \<or> sc_hash_alg sct \<noteq> 4 \<or> sc_sign_alg sct \<noteq> 3 then False
          else
            (case cy_sig Y (sc_signature sct) of
               None \<Rightarrow> False
             | Some signature \<Rightarrow> cy_ecdsa Y (ck_key log) (sct_signed issuer_key_hash tbs sct) signature))"

definition leaf_scts :: "x509 \<Rightarrow> sct list option" where
  "leaf_scts leaf =
     find_map (\<lambda>e. case xe_parsed e of ExtSct scts \<Rightarrow> if xe_oid e = SCT_LIST_OID then Some scts else None | _ \<Rightarrow> None) (xc_extensions leaf)"

definition verify_embedded_scts ::
  "('k, 's, 'j, 'x) crypto_env_scheme \<Rightarrow> x509 \<Rightarrow> bytes \<Rightarrow> 'k ct_log_key list \<Rightarrow> (verification_error, unit) result" where
  "verify_embedded_scts Y leaf issuer_spki ct_logs =
     bind_result (ok_or VeSctInvalid (leaf_scts leaf)) (\<lambda>scts.
     bind_result (ok_or VeSctInvalid (precert_tbs (xc_tbs leaf))) (\<lambda>tbs.
       if length tbs > u32_max \<or> hd (be_bytes 4 (length tbs)) \<noteq> 0 then Inl VeSctInvalid
       else if list_ex (sct_ok Y ct_logs (cy_sha256 Y issuer_spki) tbs) scts then Inr ()
       else Inl VeSctInvalid))"

section \<open>Checkpoints\<close>

datatype 'k checkpoint_key = CkRekor 'k | CkNote note_log_key

definition checkpoint_key_hint :: "('k, 's, 'j, 'x) crypto_env_scheme \<Rightarrow> 'k \<Rightarrow> bytes" where
  "checkpoint_key_hint Y key = take 4 (cy_sha256 Y (P256_SPKI_PREFIX @ cy_point Y key))"

fun key_hint :: "('k, 's, 'j, 'x) crypto_env_scheme \<Rightarrow> 'k checkpoint_key \<Rightarrow> bytes" where
  "key_hint Y (CkRekor rekor) = checkpoint_key_hint Y rekor"
| "key_hint Y (CkNote note) = take 4 (nk_log_id note)"

definition split_terminator :: "rchar \<Rightarrow> rstr \<Rightarrow> rstr list" where
  "split_terminator c s = (let ps = split_by (\<lambda>x. x = c) s in if last ps = [] then butlast ps else ps)"

text \<open>One signature line: refused, of another signer (\<open>False\<close>), or a verified signature of this key (\<open>True\<close>).\<close>

definition signature_line ::
  "('k, 's, 'j, 'x) crypto_env_scheme \<Rightarrow> 'k checkpoint_key \<Rightarrow> bytes \<Rightarrow> rstr \<Rightarrow> (verification_error, bool) result" where
  "signature_line Y key signed_body l =
     (case map_option (split_by (\<lambda>x. x = SP)) (strip_prefix NOTE_SIGNATURE_PREFIX l) of
        Some [name, encoded] \<Rightarrow>
          (case bn_b64 Y (as_bytes encoded) of
             None \<Rightarrow> Inl VeSetInvalid
           | Some r \<Rightarrow>
               if length r < 4 then Inl VeSetInvalid
               else if name = [] \<or> drop 4 r = [] then Inl VeSetInvalid
               else if take 4 r \<noteq> key_hint Y key then Inr False
               else
                 (case key of
                    CkRekor rekor \<Rightarrow>
                      (case cy_sig Y (drop 4 r) of
                         None \<Rightarrow> Inl VeSetInvalid
                       | Some signature \<Rightarrow> if cy_ecdsa Y rekor signed_body signature then Inr True else Inl VeSetInvalid)
                  | CkNote note \<Rightarrow>
                      if name \<noteq> nk_origin note then Inr False
                      else if cy_verify Y ED25519 (nk_key note) signed_body (drop 4 r) then Inr True
                      else Inl VeSetInvalid))
      | _ \<Rightarrow> Inl VeSetInvalid)"

text \<open>The first three lines of a checkpoint: origin, tree size and root.\<close>

definition note_claims :: "('k, 's, 'j, 'x) crypto_env_scheme \<Rightarrow> rstr \<Rightarrow> (rstr \<times> nat \<times> bytes) option" where
  "note_claims Y body =
     (case split_by (\<lambda>x. x = LF) body of
        origin # sz # root_line # _ \<Rightarrow>
          if origin = [] \<or> sz = [] \<or> \<not> list_all is_ascii_digit (as_bytes sz) then None
          else Option.bind (parse_uint u64_max sz) (\<lambda>n. map_option (\<lambda>root. (origin, n, root)) (bn_b64 Y (as_bytes root_line)))
      | _ \<Rightarrow> None)"

definition verify_checkpoint ::
  "('k, 's, 'j, 'x) crypto_env_scheme \<Rightarrow> rstr \<Rightarrow> nat \<Rightarrow> bytes \<Rightarrow> 'k checkpoint_key \<Rightarrow> (verification_error, unit) result" where
  "verify_checkpoint Y checkpoint tree_size root key =
     (case split_str [LF, LF] checkpoint of
        None \<Rightarrow> Inl VeSetInvalid
      | Some (body, signature_lines) \<Rightarrow>
          if \<not> ends_with [LF] signature_lines then Inl VeSetInvalid
          else
            (case note_claims Y body of
               None \<Rightarrow> Inl VeSetInvalid
             | Some (origin, n, checkpoint_root) \<Rightarrow>
                 if (case key of CkNote note \<Rightarrow> origin \<noteq> nk_origin note | _ \<Rightarrow> False) \<or> n \<noteq> tree_size \<or> checkpoint_root \<noteq> root
                 then Inl VeSetInvalid
                 else
                   bind_result (map_results (signature_line Y key (as_bytes (body @ [LF]))) (split_terminator LF signature_lines)) (\<lambda>verified.
                     if True \<in> set verified then Inr () else Inl VeSetInvalid)))"

definition verify_v2_checkpoint ::
  "('k, 's, 'j, 'x) crypto_env_scheme \<Rightarrow> rstr \<Rightarrow> nat \<Rightarrow> bytes \<Rightarrow> note_log_key \<Rightarrow> (verification_error, unit) result" where
  "verify_v2_checkpoint Y checkpoint tree_size root key = verify_checkpoint Y checkpoint tree_size root (CkNote key)"

section \<open>The log entry\<close>

definition rekor_set_payload :: "('k, 's, 'j, 'x) crypto_env_scheme \<Rightarrow> bytes \<Rightarrow> int \<Rightarrow> bytes \<Rightarrow> int \<Rightarrow> rstr" where
  "rekor_set_payload Y body integrated_time log_id log_index =
     lit ''{\"body\":\"'' @ cy_b64_encode Y body @ lit ''\",\"integratedTime\":'' @ show_int integrated_time
     @ lit '',\"logID\":\"'' @ hex_lower log_id @ lit ''\",\"logIndex\":'' @ show_int log_index @ lit ''}''"

definition verify_set :: "('k, 's, 'j, 'x) crypto_env_scheme \<Rightarrow> decoded \<Rightarrow> 'k \<Rightarrow> (verification_error, unit) result" where
  "verify_set Y d rekor_key =
     (let payload = rekor_set_payload Y (dc_body d) (dc_integrated_time d) (dc_log_key_id d) (dc_log_index d) in
      bind_result (ok_or VeSetInvalid (cy_sig Y (dc_signed_entry_timestamp d))) (\<lambda>signature.
        if cy_ecdsa Y rekor_key (as_bytes payload) signature then Inr () else Inl VeSetInvalid))"

definition verify_dsse_body :: "('k, 's, 'j, 'x) crypto_env_scheme \<Rightarrow> decoded \<Rightarrow> 'j \<Rightarrow> (verification_error, unit) result" where
  "verify_dsse_body Y d body =
     bind_result (ok_or VeSetInvalid (cy_json_str Y body (lit ''/spec/signatures/0/signature''))) (\<lambda>signature.
     bind_result (ok_or VeSetInvalid (bn_b64 Y (as_bytes signature))) (\<lambda>decoded_sig.
     if decoded_sig \<noteq> dc_dsse_signature d then Inl VeSetInvalid
     else bind_result (ok_or VeSetInvalid (cy_json_str Y body (lit ''/spec/payloadHash/value''))) (\<lambda>payload_hash.
       if payload_hash \<noteq> hex_lower (cy_sha256 Y (dc_dsse_payload d)) then Inl VeSetInvalid else Inr ())))"

definition verify_hashedrekord_body :: "('k, 's, 'j, 'x) crypto_env_scheme \<Rightarrow> decoded \<Rightarrow> 'j \<Rightarrow> bytes \<Rightarrow> (verification_error, unit) result" where
  "verify_hashedrekord_body Y d body leaf_point =
     bind_result (ok_or VeSetInvalid (cy_json_str Y body (lit ''/spec/signature/content''))) (\<lambda>content.
     bind_result (ok_or VeSetInvalid (cy_json_str Y body (lit ''/spec/signature/publicKey''))) (\<lambda>public_key.
     bind_result (ok_or VeSetInvalid (bn_b64 Y (as_bytes content))) (\<lambda>decoded_sig.
     if decoded_sig \<noteq> dc_dsse_signature d then Inl VeSetInvalid
     else
     bind_result (ok_or VeSetInvalid (bn_b64 Y (as_bytes public_key))) (\<lambda>pem.
     bind_result (ok_or VeSetInvalid (pem_body Y pem (lit ''PUBLIC KEY''))) (\<lambda>key_der.
     bind_result (ok_or VeSetInvalid (cy_spki Y key_der)) (\<lambda>(_, spki).
       if sp_key spki \<noteq> leaf_point then Inl VeSetInvalid else Inr ()))))))"

definition verify_body_agreement :: "('k, 's, 'j, 'x) crypto_env_scheme \<Rightarrow> decoded \<Rightarrow> bytes \<Rightarrow> (verification_error, unit) result" where
  "verify_body_agreement Y d leaf_point =
     bind_result (ok_or VeSetInvalid (cy_json Y (dc_body d))) (\<lambda>body.
       if dc_kind d = lit ''dsse'' then verify_dsse_body Y d body
       else if dc_kind d = lit ''hashedrekord'' then verify_hashedrekord_body Y d body leaf_point
       else Inl VeUnsupportedEntryKind)"

definition verify_inclusion :: "('k, 's, 'j, 'x) crypto_env_scheme \<Rightarrow> decoded \<Rightarrow> 'k trust_root \<Rightarrow> bytes \<Rightarrow> unit verified" where
  "verify_inclusion Y d trust leaf_point =
     vbind (inclusion_root (cy_sha256 Y) d) (\<lambda>root.
       Some (bind_result (verify_checkpoint Y (dc_checkpoint d) (dc_tree_size d) root (CkRekor (tr_rekor_key trust))) (\<lambda>_.
         verify_body_agreement Y d leaf_point)))"

definition rekor_v2_body :: "('k, 's, 'j, 'x) crypto_env_scheme \<Rightarrow> decoded \<Rightarrow> bytes \<Rightarrow> x509 \<Rightarrow> (verification_error, rstr) result" where
  "rekor_v2_body Y d leaf_der leaf =
     (if (case strip_prefix P256_SPKI_PREFIX (xc_spki_raw leaf) of None \<Rightarrow> True | Some point \<Rightarrow> length point \<noteq> 65)
      then Inl VeUnsupportedEntryKind
      else
        (let digest = cy_sha256 Y (dsse_pae (as_bytes (dc_dsse_payload_type d)) (dc_dsse_payload d)) in
         Inr (lit ''{\"apiVersion\":\"0.0.2\",\"kind\":\"hashedrekord\",\"spec\":{\"hashedRekordV002\":{''
           @ lit ''\"data\":{\"algorithm\":\"SHA2_256\",\"digest\":\"'' @ cy_b64_encode Y digest @ lit ''\"},''
           @ lit ''\"signature\":{\"content\":\"'' @ cy_b64_encode Y (dc_dsse_signature d)
           @ lit ''\",\"verifier\":{\"keyDetails\":\"PKIX_ECDSA_P256_SHA_256\",''
           @ lit ''\"x509Certificate\":{\"rawBytes\":\"'' @ cy_b64_encode Y leaf_der @ lit ''\"}}}}}}'')))"

definition verify_rekor_v2_entry ::
  "('k, 's, 'j, 'x) crypto_env_scheme \<Rightarrow> decoded \<Rightarrow> 'k trust_root \<Rightarrow> int list \<Rightarrow> bytes \<Rightarrow> x509 \<Rightarrow> unit verified" where
  "verify_rekor_v2_entry Y d trust moments leaf_der leaf =
     (case find (\<lambda>key. nk_log_id key = dc_log_key_id d) (tr_rekor_v2_keys trust) of
        None \<Rightarrow> Some (Inl VeSetInvalid)
      | Some key \<Rightarrow>
          if \<not> list_all (window_covers (nk_window key)) moments then Some (Inl VeSetInvalid)
          else
            vbind (Some (rekor_v2_body Y d leaf_der leaf)) (\<lambda>body.
              if as_bytes body \<noteq> dc_body d then Some (Inl VeSetInvalid)
              else vbind (inclusion_root (cy_sha256 Y) d) (\<lambda>root.
                Some (verify_v2_checkpoint Y (dc_checkpoint d) (dc_tree_size d) root key))))"

section \<open>All steps\<close>

text \<open>Steps 2 to 5: times, chain, identity, issuer, certificate log, signature and subject. The answer is the times and the leaf.\<close>

definition verify_signer ::
  "('k, 's, 'j, 'x) crypto_env_scheme \<Rightarrow> decoded \<Rightarrow> bytes \<Rightarrow> rstr \<Rightarrow> 'k trust_root \<Rightarrow> (verification_error, int list \<times> bytes \<times> x509) result" where
  "verify_signer Y d file_digest pinned trust =
     bind_result (signing_times Y d trust) (\<lambda>moments.
     bind_result (map_results (verify_chain_at Y d trust) moments) (\<lambda>_.
     (case dc_certs d of
        [] \<Rightarrow> Inl VeCertChainInvalid
      | leaf_raw # intermediate_raws \<Rightarrow>
          bind_result (ok_or VeCertChainInvalid (cy_x509 Y leaf_raw)) (\<lambda>leaf.
          bind_result (check_identity leaf pinned) (\<lambda>_.
          bind_result (check_issuer leaf) (\<lambda>_.
          bind_result (ok_or VeSctInvalid (sct_issuer_spki Y leaf (tr_fulcio_roots trust @ intermediate_raws))) (\<lambda>issuer_spki.
          bind_result (verify_embedded_scts Y leaf issuer_spki (tr_ct_logs trust)) (\<lambda>_.
          bind_result (ok_or VeCertChainInvalid (cy_p256 Y (xc_key_data leaf))) (\<lambda>leaf_key.
          bind_result (ok_or VeSignatureInvalid (cy_sig Y (dc_dsse_signature d))) (\<lambda>signature.
          if \<not> cy_ecdsa Y leaf_key (dsse_pae (as_bytes (dc_dsse_payload_type d)) (dc_dsse_payload d)) signature
          then Inl VeSignatureInvalid
          else if length (filter (\<lambda>s. sj_sha256 s = hex_lower file_digest) (sm_subject (dc_statement d))) \<noteq> 1
          then Inl VeDigestMismatch
          else Inr (moments, leaf_raw, leaf)))))))))))"

definition verify_for_identity ::
  "('k, 's, 'j, 'x) crypto_env_scheme \<Rightarrow> decoded \<Rightarrow> bytes \<Rightarrow> rstr \<Rightarrow> 'k trust_root \<Rightarrow> unit verified" where
  "verify_for_identity Y d file_digest pinned trust =
     vbind (Some (verify_signer Y d file_digest pinned trust)) (\<lambda>(moments, leaf_raw, leaf).
       if is_rekor_v2 d then verify_rekor_v2_entry Y d trust moments leaf_raw leaf
       else vbind (verify_inclusion Y d trust (xc_key_data leaf)) (\<lambda>_. Some (verify_set Y d (tr_rekor_key trust))))"

definition verify_release :: "('k, 's, 'j, 'x) crypto_env_scheme \<Rightarrow> decoded \<Rightarrow> bytes \<Rightarrow> rstr \<Rightarrow> 'k trust_root \<Rightarrow> unit verified" where
  "verify_release Y d file_digest tag trust = verify_for_identity Y d file_digest (pinned_identity tag) trust"

section \<open>What is signed determines what was meant\<close>

lemma digits_value_show: "digits_value (show_nat n) = n"
proof (induction n rule: show_nat.induct)
  case (1 n)
  show ?case
  proof (cases "n < 10")
    case True
    then show ?thesis by (simp add: show_nat.simps digits_value_def)
  next
    case False
    then have "show_nat n = show_nat (n div 10) @ [48 + n mod 10]" by (subst show_nat.simps) simp
    then show ?thesis using 1 False by (simp add: digits_value_def)
  qed
qed

lemma show_nat_digits: "list_all is_ascii_digit (show_nat n)"
proof (induction n rule: show_nat.induct)
  case (1 n)
  then show ?case by (subst show_nat.simps) (auto simp: is_ascii_digit_def [of "48 + _"])
qed

lemma as_bytes_digits: "list_all is_ascii_digit s \<Longrightarrow> as_bytes s = s"
  by (induction s) (simp_all add: encode_char_def is_ascii_digit_def)

lemma before_separator:
  assumes "a @ c # x = b @ c # y" and "c \<notin> set a" and "c \<notin> set b"
  shows "a = b \<and> x = y"
  using assms
proof (induction a arbitrary: b)
  case Nil
  then show ?case by (cases b) auto
next
  case (Cons d a)
  then show ?case by (cases b) auto
qed

text \<open>A number, a blank, that many bytes.\<close>

lemma counted_prefix:
  assumes "show_nat (length t) @ SP # t @ x = show_nat (length t') @ SP # t' @ x'"
  shows "t = t' \<and> x = x'"
proof -
  have "SP \<notin> set (show_nat n)" for n using show_nat_digits [of n] by (auto simp: list_all_iff is_ascii_digit_def)
  then have "show_nat (length t) = show_nat (length t')" "t @ x = t' @ x'" using before_separator [OF assms] by blast+
  moreover from this(1) have "length t = length t'" using digits_value_show by metis
  ultimately show ?thesis by simp
qed

text \<open>C21. The string a release is signed over determines both the type and the payload: no payload of one type can be passed off as
  another payload or as a payload of another type.\<close>

theorem dsse_pae_injective:
  "dsse_pae t p = dsse_pae t' p' \<longleftrightarrow> t = t' \<and> p = p'"
proof
  assume "dsse_pae t p = dsse_pae t' p'"
  then have e: "show_nat (length t) @ SP # t @ SP # show_nat (length p) @ SP # p
      = show_nat (length t') @ SP # t' @ SP # show_nat (length p') @ SP # p'"
    by (simp add: dsse_pae_def as_bytes_digits show_nat_digits)
  have "t = t'" "show_nat (length p) @ SP # p @ [] = show_nat (length p') @ SP # p' @ []" using counted_prefix [OF e] by simp_all
  then show "t = t' \<and> p = p'" using counted_prefix [of p "[]" p' "[]"] by blast
qed simp

section \<open>An accepted release\<close>

text \<open>A release signed under the tag \<open>v1\<close>, whose entry is the only one of its log.\<close>

definition xv_root :: bytes where
  "xv_root = xm_sha (0x00 # as_bytes (lit ''body''))"

definition xv_note :: rstr where
  "xv_note = lit ''o'' @ [LF] @ lit ''1'' @ [LF] @ xv_root"

definition xv_checkpoint :: rstr where
  "xv_checkpoint = xv_note @ [LF, LF] @ NOTE_SIGNATURE_PREFIX @ lit ''n'' @ [SP] @ take 4 P256_SPKI_PREFIX @ lit ''s'' @ [LF]"

definition xv_decoded :: decoded where
  "xv_decoded = xb_decoded\<lparr>dc_checkpoint := xv_checkpoint\<rparr>"

definition xv_json :: bundle_json where
  "xv_json = xb_json\<lparr>bj_material := (bj_material xb_json)\<lparr>vm_tlog := [xb_tlog\<lparr>tl_proof := (tl_proof xb_tlog)\<lparr>ip_checkpoint := xv_checkpoint\<rparr>\<rparr>]\<rparr>\<rparr>"

definition xv_tbs :: bytes where
  "xv_tbs = der_element (0x30, tbs_fields [] [SCT_LIST_OID_DER] [])"

definition xv_cert :: x509 where
  "xv_cert = xc_cert\<lparr>xc_san := Inr (Some [NameUri (pinned_identity (lit ''v1''))]),
     xc_extensions := [\<lparr>xe_oid = ISSUER_OID, xe_value = as_bytes ISSUER, xe_parsed = ExtOther\<rparr>,
       \<lparr>xe_oid = SCT_LIST_OID, xe_value = [], xe_parsed = ExtSct [\<lparr>sc_version = CtV1, sc_key_id = [1], sc_timestamp = 5, sc_extensions = [],
          sc_hash_alg = 4, sc_sign_alg = 3, sc_signature = [1]\<rparr>]\<rparr>],
     xc_tbs := xv_tbs\<rparr>"

definition xv_set :: rstr where
  "xv_set = rekor_set_payload xc_env (dc_body xv_decoded) (dc_integrated_time xv_decoded) (dc_log_key_id xv_decoded) (dc_log_index xv_decoded)"

text \<open>The log key \<open>[2]\<close> has signed the one checkpoint and the one entry timestamp; every other key signs everything.\<close>

definition xv_env :: "(bytes, bytes, unit) crypto_env" where
  "xv_env = xc_env\<lparr>bn_json := (\<lambda>_. Inr xv_json), cy_x509 := (\<lambda>_. Some xv_cert),
     cy_ecdsa := (\<lambda>k m _. k \<noteq> [2] \<or> m = as_bytes (xv_note @ [LF]) \<or> m = as_bytes xv_set),
     cy_json_str := (\<lambda>_ p. if p = lit ''/spec/payloadHash/value'' then Some (hex_lower (xm_sha (as_bytes (lit ''payload''))))
        else Some (lit ''sig''))\<rparr>"

definition xv_trust :: "bytes trust_root" where
  "xv_trust = \<lparr>tr_fulcio_roots = [[0]], tr_rekor_key = [2], tr_root_windows = [(0, 1000)], tr_ct_logs = [\<lparr>ck_log_id = [1], ck_key = [3]\<rparr>],
     tr_rekor_v2_keys = [], tr_tsas = []\<rparr>"

lemma xv_parses: "parse_bundle xv_env [] = Inr xv_decoded"
  by code_simp

lemma xv_signer: "verify_signer xv_env xv_decoded (replicate 32 0xaa) (pinned_identity (lit ''v1'')) xv_trust = Inr ([100], as_bytes (lit ''cert''), xv_cert)"
  by code_simp

lemma xv_included: "verify_inclusion xv_env xv_decoded xv_trust (xc_key_data xv_cert) = Some (Inr ())"
  by code_simp

lemma xv_stamped: "verify_set xv_env xv_decoded (tr_rekor_key xv_trust) = Inr ()"
  by code_simp

lemma xv_accepted: "verify_release xv_env xv_decoded (replicate 32 0xaa) (lit ''v1'') xv_trust = Some (Inr ())"
proof -
  have "\<not> is_rekor_v2 xv_decoded" by code_simp
  then show ?thesis by (simp add: verify_release_def verify_for_identity_def xv_signer xv_included xv_stamped)
qed

end
