(* ===== verification/Authentic.thy ===== *)
theory Authentic
  imports Verify
begin

text \<open>
  What an accepted release is, in terms of what the parameters of cryptography say and not of the steps of \<^verbatim>\<open>verify.rs\<close>: which certificate signed
  it, when, under which identity, which logs vouch for it, and that its entry is in a log. Each predicate below is read off the
  data of the bundle and the answers of the libraries; the lemmas show that the steps of the code establish it.
\<close>

section \<open>Who signed\<close>

text \<open>The certificate names a workflow exactly, as an alternative name or in the extension for the signer of the build.\<close>

definition names_workflow :: "x509 \<Rightarrow> rstr \<Rightarrow> bool" where
  "names_workflow leaf uri \<longleftrightarrow>
     (\<exists>names. xc_san leaf = Inr (Some names) \<and> NameUri uri \<in> set names)
     \<or> (\<exists>e \<in> set (xc_extensions leaf). xe_oid e = lit ''1.3.6.1.4.1.57264.1.9'' \<and> der_tlv (xe_value e) = Some (0x0c, as_bytes uri, []))"

text \<open>The issuer of the identity, in its newer or its older extension.\<close>

definition names_issuer :: "x509 \<Rightarrow> rstr \<Rightarrow> bool" where
  "names_issuer leaf uri \<longleftrightarrow>
     (\<exists>e \<in> set (xc_extensions leaf).
        xe_oid e = lit ''1.3.6.1.4.1.57264.1.8'' \<and> der_tlv (xe_value e) = Some (0x0c, as_bytes uri, [])
        \<or> xe_oid e = lit ''1.3.6.1.4.1.57264.1.1'' \<and> xe_value e = as_bytes uri)"

text \<open>At this time the certificate chains to roots that are trusted and whose own windows cover it.\<close>

definition chains_at :: "('k, 's, 'j, 'x) crypto_env_scheme \<Rightarrow> 'k trust_root \<Rightarrow> bytes \<Rightarrow> bytes list \<Rightarrow> int \<Rightarrow> bool" where
  "chains_at Y trust leaf_raw others t \<longleftrightarrow>
     (\<exists>roots. roots \<noteq> [] \<and> cy_end_entity Y leaf_raw \<and> cy_chain Y roots others leaf_raw (nat t) = Inr ()
        \<and> (\<forall>r \<in> set roots. cy_anchor Y r
             \<and> (\<exists>from until. (r, (from, until)) \<in> set (zip (tr_fulcio_roots trust) (tr_root_windows trust)) \<and> from \<le> t \<and> t \<le> until)))"

text \<open>The times: that of the entry where the log has one, and one for each timestamp, from an authority of the trust root.\<close>

definition stamped_at :: "('k, 's, 'j, 'x) crypto_env_scheme \<Rightarrow> decoded \<Rightarrow> 'k trust_root \<Rightarrow> int list \<Rightarrow> bool" where
  "stamped_at Y d trust moments \<longleftrightarrow> moments \<noteq> []
     \<and> (\<exists>stamps. moments = (if is_rekor_v2 d then [] else [dc_integrated_time d]) @ stamps
          \<and> list_all2 (\<lambda>token t. \<exists>tsa \<in> set (tr_tsas trust). verify_timestamp Y token (dc_dsse_signature d) tsa = Inr t)
              (dc_rfc3161_timestamps d) stamps)"

text \<open>A log of certificates has signed a timestamp over the precertificate, for the key of the authority that issued the certificate.\<close>

definition certificate_logged :: "('k, 's, 'j, 'x) crypto_env_scheme \<Rightarrow> 'k trust_root \<Rightarrow> x509 \<Rightarrow> bytes list \<Rightarrow> bool" where
  "certificate_logged Y trust leaf others \<longleftrightarrow>
     (\<exists>der ca tbs e scts sct log sig.
        der \<in> set (tr_fulcio_roots trust) \<union> set others \<and> cy_x509 Y der = Some ca \<and> xc_subject ca = xc_issuer leaf
        \<and> (\<exists>a \<in> {ECDSA_P256_SHA256, ECDSA_P384_SHA384}. cy_verify Y a (xc_key_data ca) (xc_tbs leaf) (xc_signature leaf))
        \<and> precert_tbs (xc_tbs leaf) = Some tbs
        \<and> e \<in> set (xc_extensions leaf) \<and> xe_oid e = lit ''1.3.6.1.4.1.11129.2.4.2'' \<and> xe_parsed e = ExtSct scts \<and> sct \<in> set scts
        \<and> log \<in> set (tr_ct_logs trust) \<and> ck_log_id log = sc_key_id sct
        \<and> sc_version sct = CtV1 \<and> sc_hash_alg sct = 4 \<and> sc_sign_alg sct = 3 \<and> cy_sig Y (sc_signature sct) = Some sig
        \<and> cy_ecdsa Y (ck_key log)
            ([0, 0] @ be_bytes 8 (sc_timestamp sct) @ [0, 1] @ cy_sha256 Y (xc_spki_raw ca) @ be_bytes 3 (length tbs) @ tbs
              @ be_bytes 2 (length (sc_extensions sct)) @ sc_extensions sct) sig)"

section \<open>Which log vouches for it\<close>

text \<open>A signature line of a note whose signature verifies under a key.\<close>

definition note_signature :: "('k, 's, 'j, 'x) crypto_env_scheme \<Rightarrow> 'k checkpoint_key \<Rightarrow> bytes \<Rightarrow> rstr \<Rightarrow> bool" where
  "note_signature Y key msg l \<longleftrightarrow>
     (\<exists>name encoded r. l = [0x2014, SP] @ name @ [SP] @ encoded \<and> bn_b64 Y (as_bytes encoded) = Some r \<and> take 4 r = key_hint Y key
        \<and> (case key of
             CkRekor k \<Rightarrow> (\<exists>sig. cy_sig Y (drop 4 r) = Some sig \<and> cy_ecdsa Y k msg sig)
           | CkNote note \<Rightarrow> name = nk_origin note \<and> cy_verify Y ED25519 (nk_key note) msg (drop 4 r)))"

text \<open>The checkpoint of the bundle is a note with this size and root, and carries a signature of the key over exactly this note.\<close>

definition signed_note :: "('k, 's, 'j, 'x) crypto_env_scheme \<Rightarrow> decoded \<Rightarrow> 'k checkpoint_key \<Rightarrow> rstr \<Rightarrow> bool" where
  "signed_note Y d key body \<longleftrightarrow>
     (\<exists>rest. split_str [LF, LF] (dc_checkpoint d) = Some (body, rest)
        \<and> (\<exists>l \<in> set (split_by (\<lambda>x. x = LF) rest). note_signature Y key (as_bytes (body @ [LF])) l))"

definition states_root :: "('k, 's, 'j, 'x) crypto_env_scheme \<Rightarrow> rstr \<Rightarrow> rstr \<Rightarrow> nat \<Rightarrow> bytes \<Rightarrow> bool" where
  "states_root Y body origin n root \<longleftrightarrow>
     (\<exists>digits root_line rest. split_by (\<lambda>x. x = LF) body = origin # digits # root_line # rest
        \<and> parse_uint u64_max digits = Some n \<and> bn_b64 Y (as_bytes root_line) = Some root)"

definition checkpointed :: "('k, 's, 'j, 'x) crypto_env_scheme \<Rightarrow> decoded \<Rightarrow> 'k checkpoint_key \<Rightarrow> bool" where
  "checkpointed Y d key \<longleftrightarrow>
     (\<exists>body origin root. signed_note Y d key body \<and> states_root Y body origin (dc_tree_size d) root
        \<and> (case key of CkRekor _ \<Rightarrow> True | CkNote note \<Rightarrow> origin = nk_origin note) \<and> inclusion_root (cy_sha256 Y) d = Some (Inr root))"

text \<open>An entry of the first log version: its body carries the signature, and the digest of the payload or the key of the certificate; the log has
  signed its time, its index and its body.\<close>

definition entry_v1 :: "('k, 's, 'j, 'x) crypto_env_scheme \<Rightarrow> decoded \<Rightarrow> 'k trust_root \<Rightarrow> x509 \<Rightarrow> bool" where
  "entry_v1 Y d trust leaf \<longleftrightarrow>
     checkpointed Y d (CkRekor (tr_rekor_key trust))
     \<and> (\<exists>json. cy_json Y (dc_body d) = Some json
         \<and> (dc_kind d = lit ''dsse''
              \<and> (\<exists>s. cy_json_str Y json (lit ''/spec/signatures/0/signature'') = Some s \<and> bn_b64 Y (as_bytes s) = Some (dc_dsse_signature d))
              \<and> cy_json_str Y json (lit ''/spec/payloadHash/value'') = Some (hex_lower (cy_sha256 Y (dc_dsse_payload d)))
            \<or> dc_kind d = lit ''hashedrekord''
              \<and> (\<exists>s. cy_json_str Y json (lit ''/spec/signature/content'') = Some s \<and> bn_b64 Y (as_bytes s) = Some (dc_dsse_signature d))
              \<and> (\<exists>k pem der rest spki. cy_json_str Y json (lit ''/spec/signature/publicKey'') = Some k \<and> bn_b64 Y (as_bytes k) = Some pem
                   \<and> pem_body Y pem (lit ''PUBLIC KEY'') = Some der \<and> cy_spki Y der = Some (rest, spki) \<and> sp_key spki = xc_key_data leaf)))
     \<and> (\<exists>sig. cy_sig Y (dc_signed_entry_timestamp d) = Some sig
         \<and> cy_ecdsa Y (tr_rekor_key trust)
             (as_bytes (lit ''{\"body\":\"'' @ cy_b64_encode Y (dc_body d) @ lit ''\",\"integratedTime\":'' @ show_int (dc_integrated_time d)
               @ lit '',\"logID\":\"'' @ hex_lower (dc_log_key_id d) @ lit ''\",\"logIndex\":'' @ show_int (dc_log_index d) @ lit ''}'')) sig)"

text \<open>An entry of the second version: its body is the text rebuilt from the signature, the certificate and the digest of the signed string.\<close>

definition entry_v2 :: "('k, 's, 'j, 'x) crypto_env_scheme \<Rightarrow> decoded \<Rightarrow> 'k trust_root \<Rightarrow> bytes \<Rightarrow> x509 \<Rightarrow> int list \<Rightarrow> bool" where
  "entry_v2 Y d trust leaf_raw leaf moments \<longleftrightarrow>
     (\<exists>key \<in> set (tr_rekor_v2_keys trust). nk_log_id key = dc_log_key_id d
        \<and> (\<forall>t \<in> set moments. fst (nk_window key) \<le> t \<and> t \<le> snd (nk_window key)) \<and> checkpointed Y d (CkNote key))
     \<and> (\<exists>point. xc_spki_raw leaf = P256_SPKI_PREFIX @ point \<and> length point = 65)
     \<and> dc_body d = as_bytes (
         lit ''{\"apiVersion\":\"0.0.2\",\"kind\":\"hashedrekord\",\"spec\":{\"hashedRekordV002\":{'' @ lit ''\"data\":{\"algorithm\":\"SHA2_256\",\"digest\":\"''
         @ cy_b64_encode Y (cy_sha256 Y (dsse_pae (as_bytes (dc_dsse_payload_type d)) (dc_dsse_payload d)))
         @ lit ''\"},'' @ lit ''\"signature\":{\"content\":\"'' @ cy_b64_encode Y (dc_dsse_signature d)
         @ lit ''\",\"verifier\":{\"keyDetails\":\"PKIX_ECDSA_P256_SHA_256\",'' @ lit ''\"x509Certificate\":{\"rawBytes\":\"''
         @ cy_b64_encode Y leaf_raw @ lit ''\"}}}}}}'')"

section \<open>The steps establish it\<close>

lemma strip_prefix_Some: "strip_prefix p s = Some r \<Longrightarrow> s = p @ r"
  by (induction p s rule: strip_prefix.induct) (auto split: if_splits)

lemma find_map_Some: "find_map f xs = Some y \<Longrightarrow> \<exists>x \<in> set xs. f x = Some y"
  by (induction xs) (auto split: option.splits)

lemma utf8_string_Some: "der_utf8_string v = Some c \<longleftrightarrow> der_tlv v = Some (0x0c, c, [])"
  by (cases "der_tlv v") (auto simp: der_utf8_string_def split: list.splits if_splits)

lemma identity_named: "check_identity leaf uri = Inr () \<Longrightarrow> names_workflow leaf uri"
  by (auto simp: check_identity_def names_workflow_def build_signer_is_def BUILD_SIGNER_URI_OID_def utf8_string_Some list_ex_iff
      split: sum.splits option.splits if_splits)

lemma issuer_named: "check_issuer leaf = Inr () \<Longrightarrow> names_issuer leaf (lit ''https://token.actions.githubusercontent.com'')"
  by (auto simp: check_issuer_def names_issuer_def ISSUER_def ISSUER_OID_def ISSUER_V2_OID_def utf8_string_Some list_ex_iff split: if_splits)

lemma chain_trusted:
  assumes "verify_chain_at Y d trust t = Inr ()" and "dc_certs d = leaf_raw # others"
  shows "chains_at Y trust leaf_raw others t"
proof -
  let ?roots = "map fst (filter (\<lambda>(_, window). window_covers window t) (zip (tr_fulcio_roots trust) (tr_root_windows trust)))"
  have "?roots \<noteq> []" "list_all (cy_anchor Y) ?roots" "cy_end_entity Y leaf_raw" "cy_chain Y ?roots others leaf_raw (nat (max t 0)) = Inr ()"
    using assms by (auto simp: verify_chain_at_def Let_def split: if_splits sum.splits webpki_error.splits)
  moreover have "nat (max t 0) = nat t" by simp
  ultimately show ?thesis unfolding chains_at_def
    by (intro exI [of _ ?roots]) (fastforce simp: list_all_iff window_covers_def)
qed

lemma times_stamped:
  assumes "signing_times Y d trust = Inr moments"
  shows "stamped_at Y d trust moments"
proof -
  have "list_all2 (\<lambda>x y. f x = Inr y) xs ys" if "map_results f xs = Inr ys" for f and xs :: "bytes list" and ys :: "int list"
    using that by (induction xs arbitrary: ys) (auto simp: bind_result_eq_Inr)
  then obtain stamps where s: "list_all2 (\<lambda>token t. find_map (\<lambda>tsa. case verify_timestamp Y token (dc_dsse_signature d) tsa of Inr t \<Rightarrow> Some t | Inl _ \<Rightarrow> None)
       (tr_tsas trust) = Some t) (dc_rfc3161_timestamps d) stamps"
    "moments = (if is_rekor_v2 d then [] else [dc_integrated_time d]) @ stamps" "moments \<noteq> []"
    using assms by (fastforce simp: signing_times_def bind_result_eq_Inr Let_def split: if_splits)
  from s(1) have "list_all2 (\<lambda>token t. \<exists>tsa \<in> set (tr_tsas trust). verify_timestamp Y token (dc_dsse_signature d) tsa = Inr t) (dc_rfc3161_timestamps d) stamps"
    by (rule list_all2_mono) (auto dest!: find_map_Some split: sum.splits)
  then show ?thesis using s(2,3) unfolding stamped_at_def by blast
qed

lemma scts_logged:
  assumes "sct_issuer_spki Y leaf (tr_fulcio_roots trust @ others) = Some issuer" and "verify_embedded_scts Y leaf issuer (tr_ct_logs trust) = Inr ()"
  shows "certificate_logged Y trust leaf others"
proof -
  obtain der where der: "der \<in> set (tr_fulcio_roots trust) \<union> set others"
    "(case cy_x509 Y der of None \<Rightarrow> None
      | Some cert \<Rightarrow> (let signs_leaf = list_ex (\<lambda>a. cy_verify Y a (xc_key_data cert) (xc_tbs leaf) (xc_signature leaf)) [ECDSA_P256_SHA256, ECDSA_P384_SHA384]
          in if xc_subject cert = xc_issuer leaf \<and> signs_leaf then Some (xc_spki_raw cert) else None)) = Some issuer"
    using find_map_Some [OF assms(1) [unfolded sct_issuer_spki_def]] by auto
  then obtain ca where x: "cy_x509 Y der = Some ca" by (cases "cy_x509 Y der") simp_all
  with der(2) have ca: "xc_subject ca = xc_issuer leaf" "issuer = xc_spki_raw ca"
    "\<exists>a \<in> {ECDSA_P256_SHA256, ECDSA_P384_SHA384}. cy_verify Y a (xc_key_data ca) (xc_tbs leaf) (xc_signature leaf)"
    by (auto simp: Let_def split: if_splits)
  obtain scts tbs sct where v: "leaf_scts leaf = Some scts" "precert_tbs (xc_tbs leaf) = Some tbs" "sct \<in> set scts"
    "sct_ok Y (tr_ct_logs trust) (cy_sha256 Y issuer) tbs sct"
    using assms(2) by (auto simp: verify_embedded_scts_def bind_result_eq_Inr list_ex_iff split: if_splits)
  obtain e where e: "e \<in> set (xc_extensions leaf)"
    "(case xe_parsed e of ExtSct scts \<Rightarrow> if xe_oid e = SCT_LIST_OID then Some scts else None | _ \<Rightarrow> None) = Some scts"
    using find_map_Some [OF v(1) [unfolded leaf_scts_def]] by blast
  from e(2) have p: "xe_oid e = lit ''1.3.6.1.4.1.11129.2.4.2''" "xe_parsed e = ExtSct scts"
    by (cases "xe_parsed e"; auto simp: SCT_LIST_OID_def split: if_splits)+
  obtain log sig where l: "log \<in> set (tr_ct_logs trust)" "ck_log_id log = sc_key_id sct" "sc_version sct = CtV1" "sc_hash_alg sct = 4" "sc_sign_alg sct = 3"
    "cy_sig Y (sc_signature sct) = Some sig" "cy_ecdsa Y (ck_key log) (sct_signed (cy_sha256 Y issuer) tbs sct) sig"
    using v(4) by (auto simp: sct_ok_def find_Some_iff in_set_conv_nth split: option.splits if_splits)
  show ?thesis unfolding certificate_logged_def
    by (rule exI [of _ der], rule exI [of _ ca], rule exI [of _ tbs], rule exI [of _ e], rule exI [of _ scts], rule exI [of _ sct],
        rule exI [of _ log], rule exI [of _ sig]) (use der(1) x ca v(2,3) e(1) p l in \<open>auto simp: sct_signed_def\<close>)
qed

lemma split_by_two: "split_by P s = [a, b] \<Longrightarrow> \<exists>c. P c \<and> s = a @ [c] @ b"
proof (induction s arbitrary: a)
  case (Cons c s)
  have one: "split_by P t = [w] \<Longrightarrow> t = w" for t w
    by (induction t arbitrary: w) (auto split: if_splits list.splits)
  show ?case
  proof (cases "P c")
    case True
    then show ?thesis using Cons.prems one by auto
  next
    case False
    then obtain w where "split_by P s = [w, b]" "a = c # w" using Cons.prems by (auto split: list.splits)
    then show ?thesis using Cons.IH by auto
  qed
qed simp

lemma line_verifies:
  assumes "signature_line Y key msg l = Inr True"
  shows "note_signature Y key msg l"
proof -
  obtain t where t: "strip_prefix NOTE_SIGNATURE_PREFIX l = Some t" "length (split_by (\<lambda>x. x = SP) t) = 2"
    using assms by (auto simp: signature_line_def split: option.splits list.splits)
  then obtain name encoded where w: "split_by (\<lambda>x. x = SP) t = [name, encoded]" by (auto simp: numeral_2_eq_2 length_Suc_conv)
  then obtain r where r: "bn_b64 Y (as_bytes encoded) = Some r" using assms t(1) by (auto simp: signature_line_def split: option.splits)
  have "take 4 r = key_hint Y key" and k: "case key of CkRekor k \<Rightarrow> (\<exists>sig. cy_sig Y (drop 4 r) = Some sig \<and> cy_ecdsa Y k msg sig)
      | CkNote note \<Rightarrow> name = nk_origin note \<and> cy_verify Y ED25519 (nk_key note) msg (drop 4 r)"
    using assms t(1) w r by (auto simp: signature_line_def split: if_splits checkpoint_key.splits option.splits)
  moreover have "l = [0x2014, SP] @ name @ [SP] @ encoded"
    using strip_prefix_Some [OF t(1)] split_by_two [OF w] by (auto simp: NOTE_SIGNATURE_PREFIX_def)
  ultimately show ?thesis unfolding note_signature_def using r by blast
qed

lemma map_results_member: "map_results f xs = Inr ys \<Longrightarrow> y \<in> set ys \<Longrightarrow> \<exists>x \<in> set xs. f x = Inr y"
  by (induction xs arbitrary: ys) (auto simp: bind_result_eq_Inr)

lemma claims_stated: "note_claims Y body = Some (origin, n, root) \<Longrightarrow> states_root Y body origin n root"
  by (auto simp: note_claims_def states_root_def Option.bind_eq_Some_conv split: list.splits if_splits)

lemma checkpoint_signed:
  assumes "verify_checkpoint Y (dc_checkpoint d) n root key = Inr ()"
  shows "\<exists>body origin. signed_note Y d key body \<and> states_root Y body origin n root
    \<and> (case key of CkRekor _ \<Rightarrow> True | CkNote note \<Rightarrow> origin = nk_origin note)"
proof -
  obtain body rest origin verified where c: "split_str [LF, LF] (dc_checkpoint d) = Some (body, rest)" "note_claims Y body = Some (origin, n, root)"
    "map_results (signature_line Y key (as_bytes (body @ [LF]))) (split_terminator LF rest) = Inr verified" "True \<in> set verified"
    "case key of CkRekor _ \<Rightarrow> True | CkNote note \<Rightarrow> origin = nk_origin note"
    using assms unfolding verify_checkpoint_def
    by (auto simp: bind_result_eq_Inr simp del: as_bytes_simps split: option.splits if_splits checkpoint_key.splits)
  obtain l where l: "l \<in> set (split_terminator LF rest)" "signature_line Y key (as_bytes (body @ [LF])) l = Inr True"
    using map_results_member [OF c(3,4)] by blast
  then have "l \<in> set (split_by (\<lambda>x. x = LF) rest)" by (auto simp: split_terminator_def Let_def dest: in_set_butlastD split: if_splits)
  then show ?thesis using c(1,5) claims_stated [OF c(2)] line_verifies [OF l(2)] unfolding signed_note_def by blast
qed

lemma body_agrees:
  assumes "verify_body_agreement Y d (xc_key_data leaf) = Inr ()" and "checkpointed Y d (CkRekor (tr_rekor_key trust))"
    and "verify_set Y d (tr_rekor_key trust) = Inr ()"
  shows "entry_v1 Y d trust leaf"
proof -
  obtain json where j: "cy_json Y (dc_body d) = Some json"
    "dc_kind d = lit ''dsse'' \<and> verify_dsse_body Y d json = Inr () \<or> dc_kind d = lit ''hashedrekord'' \<and> verify_hashedrekord_body Y d json (xc_key_data leaf) = Inr ()"
    using assms(1) by (auto simp: verify_body_agreement_def bind_result_eq_Inr split: if_splits)
  have dsse: "verify_dsse_body Y d json = Inr () \<Longrightarrow>
      (\<exists>s. cy_json_str Y json (lit ''/spec/signatures/0/signature'') = Some s \<and> bn_b64 Y (as_bytes s) = Some (dc_dsse_signature d))
      \<and> cy_json_str Y json (lit ''/spec/payloadHash/value'') = Some (hex_lower (cy_sha256 Y (dc_dsse_payload d)))"
    by (auto simp: verify_dsse_body_def bind_result_eq_Inr split: if_splits)
  have rekord: "verify_hashedrekord_body Y d json (xc_key_data leaf) = Inr () \<Longrightarrow>
      (\<exists>s. cy_json_str Y json (lit ''/spec/signature/content'') = Some s \<and> bn_b64 Y (as_bytes s) = Some (dc_dsse_signature d))
      \<and> (\<exists>k pem der rest spki. cy_json_str Y json (lit ''/spec/signature/publicKey'') = Some k \<and> bn_b64 Y (as_bytes k) = Some pem
           \<and> pem_body Y pem (lit ''PUBLIC KEY'') = Some der \<and> cy_spki Y der = Some (rest, spki) \<and> sp_key spki = xc_key_data leaf)"
    by (auto simp: verify_hashedrekord_body_def bind_result_eq_Inr split: if_splits)
  have "\<exists>sig. cy_sig Y (dc_signed_entry_timestamp d) = Some sig \<and> cy_ecdsa Y (tr_rekor_key trust)
      (as_bytes (rekor_set_payload Y (dc_body d) (dc_integrated_time d) (dc_log_key_id d) (dc_log_index d))) sig"
    using assms(3) by (auto simp: verify_set_def bind_result_eq_Inr Let_def split: if_splits)
  then show ?thesis unfolding entry_v1_def rekor_set_payload_def using assms(2) j dsse rekord by blast
qed

lemma v2_entry_agrees:
  assumes "verify_rekor_v2_entry Y d trust moments leaf_raw leaf = Some (Inr ())"
  shows "entry_v2 Y d trust leaf_raw leaf moments"
proof -
  obtain key where k: "find (\<lambda>key. nk_log_id key = dc_log_key_id d) (tr_rekor_v2_keys trust) = Some key"
    using assms by (auto simp: verify_rekor_v2_entry_def split: option.splits)
  obtain body root where b: "list_all (window_covers (nk_window key)) moments" "rekor_v2_body Y d leaf_raw leaf = Inr body" "as_bytes body = dc_body d"
    "inclusion_root (cy_sha256 Y) d = Some (Inr root)" "verify_checkpoint Y (dc_checkpoint d) (dc_tree_size d) root (CkNote key) = Inr ()"
    using assms k by (auto simp: verify_rekor_v2_entry_def verify_v2_checkpoint_def vbind_eq_Inr split: if_splits)
  have key: "key \<in> set (tr_rekor_v2_keys trust)" "nk_log_id key = dc_log_key_id d" using k by (auto simp: find_Some_iff)
  have "checkpointed Y d (CkNote key)" using checkpoint_signed [OF b(5)] b(4) unfolding checkpointed_def by blast
  moreover obtain point where "strip_prefix P256_SPKI_PREFIX (xc_spki_raw leaf) = Some point" "length point = 65"
    using b(2) by (auto simp: rekor_v2_body_def split: option.splits if_splits)
  moreover from this have "xc_spki_raw leaf = P256_SPKI_PREFIX @ point" by (rule_tac strip_prefix_Some)
  moreover have "dc_body d = as_bytes body" using b(3) by simp
  ultimately show ?thesis using b(1,2) key unfolding entry_v2_def
    by (auto simp: rekor_v2_body_def Let_def list_all_iff window_covers_def split: option.splits if_splits)
qed

text \<open>The keys of the logs.\<close>

definition log_keys :: "'k trust_root \<Rightarrow> 'k checkpoint_key set" where
  "log_keys trust = insert (CkRekor (tr_rekor_key trust)) (CkNote ` set (tr_rekor_v2_keys trust))"

lemma accepted_parts:
  assumes "verify_release Y d file_digest tag trust = Some (Inr ())"
  obtains moments leaf_raw leaf where "verify_signer Y d file_digest (pinned_identity tag) trust = Inr (moments, leaf_raw, leaf)"
    "if is_rekor_v2 d then entry_v2 Y d trust leaf_raw leaf moments else entry_v1 Y d trust leaf"
proof -
  obtain moments leaf_raw leaf where s: "verify_signer Y d file_digest (pinned_identity tag) trust = Inr (moments, leaf_raw, leaf)"
    using assms by (auto simp: verify_release_def verify_for_identity_def vbind_eq_Inr)
  have "if is_rekor_v2 d then entry_v2 Y d trust leaf_raw leaf moments else entry_v1 Y d trust leaf"
  proof (cases "is_rekor_v2 d")
    case True
    then show ?thesis using assms s v2_entry_agrees by (auto simp: verify_release_def verify_for_identity_def vbind_eq_Inr)
  next
    case False
    then obtain root where r: "inclusion_root (cy_sha256 Y) d = Some (Inr root)"
      "verify_checkpoint Y (dc_checkpoint d) (dc_tree_size d) root (CkRekor (tr_rekor_key trust)) = Inr ()"
      "verify_body_agreement Y d (xc_key_data leaf) = Inr ()" "verify_set Y d (tr_rekor_key trust) = Inr ()"
      using assms s by (auto simp: verify_release_def verify_for_identity_def verify_inclusion_def vbind_eq_Inr bind_result_eq_Inr)
    have "checkpointed Y d (CkRekor (tr_rekor_key trust))" using checkpoint_signed [OF r(2)] r(1) unfolding checkpointed_def by blast
    then show ?thesis using False body_agrees r(3,4) by simp
  qed
  then show thesis using that s by blast
qed

lemma map_results_all: "map_results f xs = Inr ys \<Longrightarrow> \<forall>x \<in> set xs. \<exists>y. f x = Inr y"
  by (induction xs arbitrary: ys) (auto simp: bind_result_eq_Inr)

lemma signer_checked:
  assumes "verify_signer Y d file_digest pinned trust = Inr (moments, leaf_raw, leaf)"
  obtains others issuer key sig where "dc_certs d = leaf_raw # others" "cy_x509 Y leaf_raw = Some leaf" "signing_times Y d trust = Inr moments"
    "\<forall>t \<in> set moments. verify_chain_at Y d trust t = Inr ()" "check_identity leaf pinned = Inr ()" "check_issuer leaf = Inr ()"
    "sct_issuer_spki Y leaf (tr_fulcio_roots trust @ others) = Some issuer" "verify_embedded_scts Y leaf issuer (tr_ct_logs trust) = Inr ()"
    "cy_p256 Y (xc_key_data leaf) = Some key" "cy_sig Y (dc_dsse_signature d) = Some sig"
    "cy_ecdsa Y key (dsse_pae (as_bytes (dc_dsse_payload_type d)) (dc_dsse_payload d)) sig"
    "length (filter (\<lambda>s. sj_sha256 s = hex_lower file_digest) (sm_subject (dc_statement d))) = 1"
proof (cases "dc_certs d")
  case Nil
  then show thesis using assms by (auto simp: verify_signer_def bind_result_eq_Inr)
next
  case (Cons c others)
  have "\<forall>t \<in> set ms. verify_chain_at Y d trust t = Inr ()" if "map_results (verify_chain_at Y d trust) ms = Inr us" for ms us
    using map_results_all [OF that] by simp
  with Cons show thesis using assms that unfolding verify_signer_def
    by (auto simp: bind_result_eq_Inr split: if_splits)
qed

section \<open>An accepted release\<close>

text \<open>C5. An accepted release is authentic. When a file is accepted as the release with a tag, there is at least one signing time, and they are the time of the
  log entry where it has one and those of all timestamps of the bundle, each from a trusted authority. At each of them the first certificate of the bundle chains
  to trusted roots whose windows cover the time. It names exactly the release workflow at exactly this tag, and the expected issuer; a trusted certificate log
  has signed its precertificate for the authority that issued it; its key verifies the signature over the payload with its type; exactly one subject
  of the statement has the digest of the file. The log entry is bound to all this: its body carries the same signature and payload or key (or is the very
  text made of them), a trusted log has signed the time of the entry, and a note signed by a trusted log states the size of the proof and the root it reaches.\<close>

theorem accepted_release_authentic:
  assumes "verify_release Y d file_digest tag trust = Some (Inr ())"
  shows "\<exists>leaf_raw others leaf moments key sig.
    dc_certs d = leaf_raw # others \<and> cy_x509 Y leaf_raw = Some leaf
    \<and> stamped_at Y d trust moments \<and> (\<forall>t \<in> set moments. chains_at Y trust leaf_raw others t)
    \<and> names_workflow leaf (lit ''https://github.com/jauderho/detent/.github/workflows/release.yml@refs/tags/'' @ tag)
    \<and> names_issuer leaf (lit ''https://token.actions.githubusercontent.com'')
    \<and> certificate_logged Y trust leaf others
    \<and> cy_p256 Y (xc_key_data leaf) = Some key \<and> cy_sig Y (dc_dsse_signature d) = Some sig
    \<and> cy_ecdsa Y key (dsse_pae (as_bytes (dc_dsse_payload_type d)) (dc_dsse_payload d)) sig
    \<and> length (filter (\<lambda>s. sj_sha256 s = hex_lower file_digest) (sm_subject (dc_statement d))) = 1
    \<and> (if is_rekor_v2 d then entry_v2 Y d trust leaf_raw leaf moments else entry_v1 Y d trust leaf)"
proof -
  obtain moments leaf_raw leaf where e: "verify_signer Y d file_digest (pinned_identity tag) trust = Inr (moments, leaf_raw, leaf)"
    "if is_rekor_v2 d then entry_v2 Y d trust leaf_raw leaf moments else entry_v1 Y d trust leaf"
    by (rule accepted_parts [OF assms])
  show ?thesis
  proof (rule signer_checked [OF e(1)], intro exI conjI)
    fix others issuer key sig
    assume a: "dc_certs d = leaf_raw # others" "signing_times Y d trust = Inr moments" "\<forall>t \<in> set moments. verify_chain_at Y d trust t = Inr ()"
      "check_identity leaf (pinned_identity tag) = Inr ()" "check_issuer leaf = Inr ()"
      "sct_issuer_spki Y leaf (tr_fulcio_roots trust @ others) = Some issuer" "verify_embedded_scts Y leaf issuer (tr_ct_logs trust) = Inr ()"
    show "stamped_at Y d trust moments" by (rule times_stamped [OF a(2)])
    show "\<forall>t \<in> set moments. chains_at Y trust leaf_raw others t" using a(1,3) chain_trusted by blast
    show "names_workflow leaf (lit ''https://github.com/jauderho/detent/.github/workflows/release.yml@refs/tags/'' @ tag)"
      using identity_named [OF a(4)] by (simp add: pinned_identity_def)
    show "names_issuer leaf (lit ''https://token.actions.githubusercontent.com'')" by (rule issuer_named [OF a(5)])
    show "certificate_logged Y trust leaf others" by (rule scts_logged [OF a(6,7)])
  qed (use e(2) in auto)
qed

section \<open>The entry is in the log\<close>

text \<open>What is relied on outside the program. \<open>issued\<close> are the notes the owner of a key has signed. The bundle is free of forgeries when the note it
  carries was issued by every trusted key under which one of its own signatures over that note verifies; nothing is said about other signatures or
  other notes. A log is honest when every note it has issued states the root of a beginning of the log.\<close>

definition no_forgery :: "('k, 's, 'j, 'x) crypto_env_scheme \<Rightarrow> 'k trust_root \<Rightarrow> ('k checkpoint_key \<Rightarrow> rstr set) \<Rightarrow> decoded \<Rightarrow> bool" where
  "no_forgery Y trust issued d \<longleftrightarrow> (\<forall>k \<in> log_keys trust. \<forall>body. signed_note Y d k body \<longrightarrow> body \<in> issued k)"

definition honest_log :: "('k, 's, 'j, 'x) crypto_env_scheme \<Rightarrow> rstr set \<Rightarrow> bytes list \<Rightarrow> bool" where
  "honest_log Y notes log \<longleftrightarrow>
     (\<forall>body \<in> notes. \<forall>origin n root. states_root Y body origin n root \<longrightarrow> n \<le> length log \<and> root = mth (cy_sha256 Y) (take n log))"

text \<open>C6. The entry of an accepted release is in a log. Unless the bundle carries a forged signature, the logs are dishonest about what they issued, or
  the hash collides among the strings that the tree and the proof hash, the body of the entry stands in the log of one of the trusted keys, at the index
  the bundle gives, and the hashes of the proof are the siblings on its way to the root.\<close>

theorem accepted_entry_logged:
  assumes "verify_release Y d file_digest tag trust = Some (Inr ())" and "no_forgery Y trust issued d"
    and "\<forall>k \<in> log_keys trust. honest_log Y (issued k) (logs k) \<and> length (logs k) \<le> 2 ^ 63
      \<and> inj_on (cy_sha256 Y) (hashed_strings (cy_sha256 Y) (take (dc_tree_size d) (logs k)) d)"
    and "\<forall>x. length (cy_sha256 Y x) = 32"
  shows "\<exists>k \<in> log_keys trust. dc_tree_size d \<le> length (logs k) \<and> 0 \<le> dc_proof_log_index d
    \<and> nat (dc_proof_log_index d) < dc_tree_size d \<and> dc_body d = logs k ! nat (dc_proof_log_index d)
    \<and> dc_path_hashes d = audit_path (cy_sha256 Y) (nat (dc_proof_log_index d)) (take (dc_tree_size d) (logs k))"
proof -
  obtain moments leaf_raw leaf where "if is_rekor_v2 d then entry_v2 Y d trust leaf_raw leaf moments else entry_v1 Y d trust leaf"
    by (rule accepted_parts [OF assms(1)])
  then obtain key where key: "key \<in> log_keys trust" "checkpointed Y d key"
    by (auto simp: entry_v1_def entry_v2_def log_keys_def split: if_splits)
  then obtain body origin root where b: "signed_note Y d key body" "states_root Y body origin (dc_tree_size d) root" "inclusion_root (cy_sha256 Y) d = Some (Inr root)"
    unfolding checkpointed_def by blast
  have "body \<in> issued key" using assms(2) key(1) b(1) unfolding no_forgery_def by blast
  note h = assms(3) [rule_format, OF key(1)]
  have root: "dc_tree_size d \<le> length (logs key)" "root = mth (cy_sha256 Y) (take (dc_tree_size d) (logs key))"
    using conjunct1 [OF h, unfolded honest_log_def] \<open>body \<in> issued key\<close> b(2) by blast+
  have "inclusion_root (cy_sha256 Y) d = Some (Inr (mth (cy_sha256 Y) (take (dc_tree_size d) (logs key)))) \<longleftrightarrow>
      0 \<le> dc_proof_log_index d \<and> nat (dc_proof_log_index d) < length (take (dc_tree_size d) (logs key))
      \<and> dc_body d = take (dc_tree_size d) (logs key) ! nat (dc_proof_log_index d)
      \<and> dc_path_hashes d = audit_path (cy_sha256 Y) (nat (dc_proof_log_index d)) (take (dc_tree_size d) (logs key))"
    by (rule inclusion_iff) (use h root(1) assms(4) in auto)
  then show ?thesis using b(3) key(1) root by (intro bexI [of _ key]) auto
qed

section \<open>A concrete release\<close>

theorem accepted_release_authentic_witness:
  "verify_release xv_env xv_decoded (replicate 32 0xaa) (lit ''v1'') xv_trust = Some (Inr ())
    \<and> (\<exists>leaf others. dc_certs xv_decoded = as_bytes (lit ''cert'') # others \<and> cy_x509 xv_env (as_bytes (lit ''cert'')) = Some leaf
        \<and> names_workflow leaf (lit ''https://github.com/jauderho/detent/.github/workflows/release.yml@refs/tags/v1'')
        \<and> certificate_logged xv_env xv_trust leaf others \<and> entry_v1 xv_env xv_decoded xv_trust leaf)"
proof -
  have v: "\<not> is_rekor_v2 xv_decoded" "hd (dc_certs xv_decoded) = as_bytes (lit ''cert'')" by code_simp+
  have "lit ''https://github.com/jauderho/detent/.github/workflows/release.yml@refs/tags/'' @ lit ''v1''
      = lit ''https://github.com/jauderho/detent/.github/workflows/release.yml@refs/tags/v1''" by code_simp
  with accepted_release_authentic [OF xv_accepted] v xv_accepted show ?thesis by auto
qed

theorem accepted_entry_logged_witness:
  "verify_release xv_env xv_decoded (replicate 32 0xaa) (lit ''v1'') xv_trust = Some (Inr ())
    \<and> dc_body xv_decoded = [as_bytes (lit ''body'')] ! nat (dc_proof_log_index xv_decoded) \<and> nat (dc_proof_log_index xv_decoded) < 1"
proof -
  let ?issued = "\<lambda>k. {xv_note}" and ?logs = "\<lambda>k. [as_bytes (lit ''body'')]"
  have sha: "cy_sha256 xv_env = xm_sha" by (simp add: xv_env_def xc_env_def)
  have k: "log_keys xv_trust = {CkRekor [2]}" by (simp add: log_keys_def xv_trust_def)
  have f: "dc_tree_size xv_decoded = 1" "dc_body xv_decoded = as_bytes (lit ''body'')" by code_simp+
  have "map_option fst (split_str [LF, LF] (dc_checkpoint xv_decoded)) = Some xv_note" by code_simp
  then have forged: "no_forgery xv_env xv_trust ?issued xv_decoded" by (auto simp: no_forgery_def signed_note_def)
  have n: "split_by (\<lambda>x. x = LF) xv_note = [lit ''o'', lit ''1'', xv_root]" "parse_uint u64_max (lit ''1'') = Some 1" "bn_b64 xv_env (as_bytes xv_root) = Some xv_root"
    by code_simp+
  have honest: "honest_log xv_env {xv_note} [as_bytes (lit ''body'')]"
    using n by (auto simp: honest_log_def states_root_def sha mth_leaf xv_root_def)
  have "hashed_strings xm_sha [as_bytes (lit ''body'')] xv_decoded = {0x00 # as_bytes (lit ''body'')}"
    by (simp add: hashed_strings_def leaf_inputs f)
  then show ?thesis using accepted_entry_logged [OF xv_accepted forged, of ?logs] xv_accepted honest
    by (simp add: k sha f(1) xm_sha_def min_def)
qed

end
