(* ===== verification/Update_Policy.thy ===== *)
theory Update_Policy
  imports Verify "HOL-Library.Option_ord"
begin

text \<open>
  \<^verbatim>\<open>crates/detent-update/src/policy.rs\<close>, and of \<^verbatim>\<open>fetch.rs\<close> the list of releases and the file of digests: which release an
  update acts on. A version is an element of a linear order with a parser (\<^verbatim>\<open>semver\<close>); an instant is a number of nanoseconds; JSON
  and the format of times are parameters.
\<close>

section \<open>Policy\<close>

definition SECURITY_MARKER :: rstr where "SECURITY_MARKER = lit ''detent-security: true''"
definition DEFAULT_MIN_AGE_DAYS :: nat where "DEFAULT_MIN_AGE_DAYS = 2"

datatype policy_error =
    PeNoUpdate
  | PeDowngradeRefused rstr rstr
  | PeTooYoung rstr nat
  | PeBadTag rstr

record policy =
  po_min_age_days :: nat
  po_allow_downgrade :: bool

definition policy_default :: policy where
  "policy_default = \<lparr>po_min_age_days = DEFAULT_MIN_AGE_DAYS, po_allow_downgrade = False\<rparr>"

record candidate =
  ca_tag :: rstr
  ca_published :: "int option"
  ca_body :: rstr

record 'v semver_env =
  sv_parse :: "rstr \<Rightarrow> 'v option"
  sv_show :: "'v \<Rightarrow> rstr"

definition version_of :: "('v, 'x) semver_env_scheme \<Rightarrow> rstr \<Rightarrow> 'v option" where
  "version_of V tag = sv_parse V (case strip_prefix (lit ''v'') tag of Some rest \<Rightarrow> rest | None \<Rightarrow> tag)"

text \<open>\<^verbatim>\<open>Duration::whole_days\<close> rounds towards zero.\<close>

definition DAY :: int where "DAY = 86400 * 10 ^ 9"

definition whole_days :: "int \<Rightarrow> int" where
  "whole_days age = (if age < 0 then - ((- age) div DAY) else age div DAY)"

definition blank :: "rchar \<Rightarrow> bool" where
  "blank c \<longleftrightarrow> c = SP \<or> c = TAB"

definition is_security :: "candidate \<Rightarrow> bool" where
  "is_security release \<longleftrightarrow>
     list_ex (\<lambda>l. trim_end_by blank (dropWhile blank l) = SECURITY_MARKER) (str_lines (ca_body release))"

definition gate_age :: "candidate \<Rightarrow> int \<Rightarrow> policy \<Rightarrow> (policy_error, candidate) result" where
  "gate_age release now policy =
     (if \<not> is_security release
      then
        (case ca_published release of
           Some published \<Rightarrow>
             if whole_days (now - published) < min (int (po_min_age_days policy)) i64_max
             then Inl (PeTooYoung (ca_tag release) (po_min_age_days policy))
             else Inr release
         | None \<Rightarrow> Inl (PeTooYoung (ca_tag release) (po_min_age_days policy)))
      else Inr release)"

text \<open>The stable sort, newest version first and the later published first among equals.\<close>

definition release_order :: "(candidate \<times> 'v :: linorder) list \<Rightarrow> (candidate \<times> 'v) list" where
  "release_order xs = rev (sort_key (\<lambda>(release, version). (version, ca_published release)) (rev xs))"

fun select_loop ::
  "('v :: linorder, 'x) semver_env_scheme \<Rightarrow> 'v \<Rightarrow> int \<Rightarrow> policy \<Rightarrow> (candidate \<times> 'v) list \<Rightarrow> policy_error option \<Rightarrow> (policy_error, candidate) result" where
  "select_loop V current now policy [] too_young = Inl (case too_young of Some e \<Rightarrow> e | None \<Rightarrow> PeNoUpdate)"
| "select_loop V current now policy ((release, version) # rest) too_young =
     (let gated =
        (case gate_age release now policy of
           Inr _ \<Rightarrow> Inr release
         | Inl (PeTooYoung t m) \<Rightarrow>
             select_loop V current now policy rest (Some (case too_young of Some e \<Rightarrow> e | None \<Rightarrow> PeTooYoung t m))
         | Inl e \<Rightarrow> Inl e)
      in if current < version then gated
         else if version = current
         then (if too_young = None then Inl PeNoUpdate else select_loop V current now policy rest too_young)
         else if \<not> po_allow_downgrade policy
         then (if too_young = None then Inl (PeDowngradeRefused (ca_tag release) (sv_show V current))
               else select_loop V current now policy rest too_young)
         else gated)"

definition parsed_releases :: "('v, 'x) semver_env_scheme \<Rightarrow> candidate list \<Rightarrow> (candidate \<times> 'v) list" where
  "parsed_releases V releases = filter_map (\<lambda>r. map_option (Pair r) (version_of V (ca_tag r))) releases"

definition select :: "('v :: linorder, 'x) semver_env_scheme \<Rightarrow> candidate list \<Rightarrow> 'v \<Rightarrow> int \<Rightarrow> policy \<Rightarrow> (policy_error, candidate) result" where
  "select V releases current now policy = select_loop V current now policy (release_order (parsed_releases V releases)) None"

section \<open>Releases and digests\<close>

definition MAX_RELEASES_BYTES :: nat where "MAX_RELEASES_BYTES = 2 ^ 20"
definition MAX_BINARY_BYTES :: nat where "MAX_BINARY_BYTES = 64 * 2 ^ 20"
definition RELEASES_URL :: rstr where "RELEASES_URL = lit ''https://api.github.com/repos/jauderho/detent/releases''"

datatype fetch_error =
    FeTooLarge nat
  | FeBadStatus rstr nat
  | FeUnreachable rstr rstr
  | FeBadJson rstr
  | FeMissingSum rstr

record github_asset =
  ga_name :: rstr
  ga_url :: rstr

record github_release =
  gr_tag_name :: rstr
  gr_draft :: bool
  gr_prerelease :: bool
  gr_published_at :: "rstr option"
  gr_body :: rstr
  gr_assets :: "github_asset list"

record release =
  rl_candidate :: candidate
  rl_binary_url :: rstr
  rl_bundle_url :: rstr
  rl_sums_url :: rstr

definition release_of :: "(rstr \<Rightarrow> int option) \<Rightarrow> rstr \<Rightarrow> github_release \<Rightarrow> release option" where
  "release_of rfc3339 triple g =
     (let asset = (\<lambda>name. find (\<lambda>a. ga_name a = name) (gr_assets g)) in
      Option.bind (asset (lit ''detent-'' @ triple)) (\<lambda>binary.
      Option.bind (asset (lit ''SHA256SUMS'')) (\<lambda>sums.
      Option.bind (asset (lit ''detent-'' @ triple @ lit ''.sigstore.json'')) (\<lambda>bundle.
        Some \<lparr>rl_candidate = \<lparr>ca_tag = gr_tag_name g, ca_published = Option.bind (gr_published_at g) rfc3339, ca_body = gr_body g\<rparr>,
          rl_binary_url = ga_url binary, rl_bundle_url = ga_url bundle, rl_sums_url = ga_url sums\<rparr>))))"

definition usable_releases :: "(rstr \<Rightarrow> int option) \<Rightarrow> rstr \<Rightarrow> github_release list \<Rightarrow> release list" where
  "usable_releases rfc3339 triple gs = filter_map (release_of rfc3339 triple) (filter (\<lambda>g. \<not> gr_draft g \<and> \<not> gr_prerelease g) gs)"

text \<open>The pairs of hexadecimal digits of a digest.\<close>

fun hex_pairs :: "bytes \<Rightarrow> bytes option" where
  "hex_pairs (a # b # rest) =
     Option.bind (from_str_radix 16 255 [a, b]) (\<lambda>n. map_option ((#) n) (hex_pairs rest))"
| "hex_pairs _ = Some []"

fun digest_in_lines :: "rstr list \<Rightarrow> rstr \<Rightarrow> (fetch_error, bytes) result" where
  "digest_in_lines [] asset = Inl (FeMissingSum asset)"
| "digest_in_lines (l # ls) asset =
     (case split_str [SP, SP] l of
        None \<Rightarrow> digest_in_lines ls asset
      | Some (hex, name) \<Rightarrow>
          if trim name \<noteq> asset then digest_in_lines ls asset
          else if \<not> hex_digest (trim hex) then Inl (FeMissingSum asset)
          else ok_or (FeMissingSum asset) (hex_pairs (as_bytes (trim hex))))"

definition digest_from_sums :: "rstr \<Rightarrow> rstr \<Rightarrow> (fetch_error, bytes) result" where
  "digest_from_sums sums asset = digest_in_lines (str_lines sums) asset"

section \<open>The selected release\<close>

text \<open>Whether the age gate lets a release through.\<close>

definition passes_gate :: "int \<Rightarrow> policy \<Rightarrow> candidate \<Rightarrow> bool" where
  "passes_gate now policy r \<longleftrightarrow> is_security r
     \<or> (\<exists>p. ca_published r = Some p \<and> min (int (po_min_age_days policy)) i64_max \<le> whole_days (now - p))"

lemma gate_age_cases: "gate_age r now policy = (if passes_gate now policy r then Inr r else Inl (PeTooYoung (ca_tag r) (po_min_age_days policy)))"
  by (auto simp: gate_age_def passes_gate_def split: option.splits)

text \<open>What the loop answers: the first that may be taken and passes the gate.\<close>

definition takeable :: "'v :: linorder \<Rightarrow> policy \<Rightarrow> 'v \<Rightarrow> bool" where
  "takeable current policy version \<longleftrightarrow> current < version \<or> version < current \<and> po_allow_downgrade policy"

lemma select_loop_sound:
  assumes "select_loop V current now policy xs young = Inr r"
  shows "\<exists>pre v post. xs = pre @ (r, v) # post \<and> takeable current policy v \<and> passes_gate now policy r
    \<and> list_all (\<lambda>(x, w). takeable current policy w \<longrightarrow> \<not> passes_gate now policy x) pre"
  using assms
proof (induction xs arbitrary: young)
  case (Cons a xs)
  obtain x w where a: "a = (x, w)" by force
  show ?case
  proof (cases "takeable current policy w \<and> passes_gate now policy x")
    case True
    then have "r = x" using Cons.prems by (auto simp: a takeable_def gate_age_cases Let_def split: if_splits)
    then show ?thesis using True by (intro exI [of _ "[]"] exI [of _ w] exI [of _ xs]) (simp add: a)
  next
    case False
    then obtain young' where "select_loop V current now policy xs young' = Inr r"
      using Cons.prems by (auto simp: a takeable_def gate_age_cases Let_def split: if_splits)
    from Cons.IH [OF this] obtain pre v post where "xs = pre @ (r, v) # post" "takeable current policy v" "passes_gate now policy r"
      "list_all (\<lambda>(x, w). takeable current policy w \<longrightarrow> \<not> passes_gate now policy x) pre" by blast
    then show ?thesis using False by (intro exI [of _ "a # pre"] exI [of _ v] exI [of _ post]) (auto simp: a)
  qed
qed simp

lemma select_loop_finds:
  assumes "(x, v) \<in> set xs" and "current < v" and "passes_gate now policy x" and "sorted_wrt (\<lambda>a b. snd b \<le> snd a) xs"
  shows "\<exists>r. select_loop V current now policy xs young = Inr r"
  using assms
proof (induction xs arbitrary: young)
  case (Cons a xs)
  obtain y w where a: "a = (y, w)" by force
  then have "v \<le> w" using Cons.prems by auto
  then have w: "current < w" using Cons.prems(2) by simp
  show ?case
  proof (cases "passes_gate now policy y")
    case True
    then show ?thesis using w by (simp add: a gate_age_cases)
  next
    case False
    then have "(x, v) \<in> set xs" using Cons.prems a by auto
    then show ?thesis using Cons.IH Cons.prems w False by (simp add: a gate_age_cases)
  qed
qed simp

lemma release_order_sorted: "sorted_wrt (\<lambda>a b. snd b \<le> snd a) (release_order xs)"
proof -
  have "sorted_wrt (\<lambda>a b. snd a \<le> snd b) (sort_key (\<lambda>(r, v). (v, ca_published r)) ys)" for ys :: "(candidate \<times> 'a) list"
    using sorted_sort_key [of "\<lambda>(r, v). (v, ca_published r)" ys] unfolding sorted_map
    by (rule sorted_wrt_mono_rel [rotated]) (auto simp: less_eq_prod_def split: prod.splits)
  then show ?thesis by (simp add: release_order_def sorted_wrt_rev)
qed

lemma set_release_order: "set (release_order (parsed_releases V releases)) = {(r, v). r \<in> set releases \<and> version_of V (ca_tag r) = Some v}"
  by (auto simp: release_order_def parsed_releases_def set_filter_map)

text \<open>C19. The newest release that qualifies is selected. When some release is newer than the running version and passes the age gate, one is
  selected, it comes from the list, passes the gate, is newer than the running version, and is at least as new as every such release.\<close>

theorem newest_release_selected:
  assumes "x \<in> set releases" and "version_of V (ca_tag x) = Some v" and "current < v" and "passes_gate now policy x"
  shows "\<exists>r w. select V releases current now policy = Inr r \<and> r \<in> set releases \<and> version_of V (ca_tag r) = Some w
    \<and> passes_gate now policy r \<and> v \<le> w"
proof -
  let ?xs = "release_order (parsed_releases V releases)"
  have x: "(x, v) \<in> set ?xs" using assms(1,2) by (simp add: set_release_order)
  obtain r where r: "select_loop V current now policy ?xs None = Inr r" using select_loop_finds [OF x assms(3,4) release_order_sorted] by blast
  obtain pre w post where s: "?xs = pre @ (r, w) # post" "passes_gate now policy r"
    "list_all (\<lambda>(x, w). takeable current policy w \<longrightarrow> \<not> passes_gate now policy x) pre" using select_loop_sound [OF r] by blast
  have "(x, v) \<notin> set pre" using s(3) assms(3,4) by (auto simp: list_all_iff takeable_def)
  then have "v \<le> w" using x release_order_sorted [of "parsed_releases V releases"] unfolding s(1) by (auto simp: sorted_wrt_append)
  moreover have "(r, w) \<in> set ?xs" by (simp add: s(1))
  ultimately show ?thesis using r s(2) by (auto simp: select_def set_release_order)
qed

text \<open>Nothing else is ever selected: a selected release is one of the list with a version, newer than the running version or older with
  downgrades allowed, never the running version itself, and it passes the age gate: it is marked as a security release, or it is published and old enough.\<close>

theorem selected_release_allowed:
  assumes "select V releases current now policy = Inr r"
  shows "r \<in> set releases \<and> (\<exists>v. version_of V (ca_tag r) = Some v \<and> (current < v \<or> v < current \<and> po_allow_downgrade policy))
    \<and> (is_security r \<or> (\<exists>p. ca_published r = Some p \<and> min (int (po_min_age_days policy)) i64_max \<le> whole_days (now - p)))"
proof -
  obtain pre v post where s: "release_order (parsed_releases V releases) = pre @ (r, v) # post" "takeable current policy v" "passes_gate now policy r"
    using select_loop_sound [OF assms [unfolded select_def]] by blast
  have "(r, v) \<in> set (release_order (parsed_releases V releases))" by (simp add: s(1))
  then show ?thesis using s(2,3) by (auto simp: set_release_order takeable_def passes_gate_def)
qed

text \<open>Versions that are numbers.\<close>

definition xp_semver :: "nat semver_env" where
  "xp_semver = \<lparr>sv_parse = parse_uint u64_max, sv_show = show_nat\<rparr>"

definition xp_release :: "rstr \<Rightarrow> int \<Rightarrow> candidate" where
  "xp_release tag day = \<lparr>ca_tag = tag, ca_published = Some (day * DAY), ca_body = lit ''notes''\<rparr>"

definition xp_releases :: "candidate list" where
  "xp_releases = [xp_release (lit ''v1'') 1, xp_release (lit ''v3'') 9, xp_release (lit ''v2'') 5]"

lemma xp_gate: "passes_gate (10 * DAY) policy_default (xp_release (lit ''v2'') 5)"
  by (simp add: passes_gate_def xp_release_def policy_default_def DEFAULT_MIN_AGE_DAYS_def whole_days_def DAY_def i64_max_def)

theorem newest_release_selected_witness:
  "\<exists>r w. select xp_semver xp_releases 1 (10 * DAY) policy_default = Inr r \<and> r \<in> set xp_releases \<and> version_of xp_semver (ca_tag r) = Some w
    \<and> passes_gate (10 * DAY) policy_default r \<and> 2 \<le> w"
proof (rule newest_release_selected [of "xp_release (lit ''v2'') 5"])
  show "version_of xp_semver (ca_tag (xp_release (lit ''v2'') 5)) = Some 2" by code_simp
qed (simp_all add: xp_gate, simp add: xp_releases_def)

lemma xp_selects: "select xp_semver xp_releases 1 (10 * DAY) policy_default = Inr (xp_release (lit ''v2'') 5)"
  by code_simp

theorem selected_release_allowed_witness:
  "xp_release (lit ''v2'') 5 \<in> set xp_releases \<and> (\<exists>v. version_of xp_semver (ca_tag (xp_release (lit ''v2'') 5)) = Some v \<and> 1 < v)"
  using selected_release_allowed [OF xp_selects] by (auto simp: policy_default_def)

text \<open>With downgrades allowed, a newer release that is still too young makes the update go back to an older one although the running version is
  listed; without the newer release there is no update.\<close>

lemma young_release_downgrades:
  "select xp_semver xp_releases 2 (10 * DAY) (policy_default\<lparr>po_allow_downgrade := True\<rparr>) = Inr (xp_release (lit ''v1'') 1)
    \<and> select xp_semver (filter (\<lambda>r. ca_tag r \<noteq> lit ''v3'') xp_releases) 2 (10 * DAY) (policy_default\<lparr>po_allow_downgrade := True\<rparr>) = Inl PeNoUpdate"
  by code_simp

end
