(* ===== verification/Update_Flow.thy ===== *)
theory Update_Flow
  imports Update_Policy
begin

text \<open>
  \<^verbatim>\<open>crates/detent-update/src/update.rs\<close>: the check for updates, the preparation of a release and the cache of the last check. The
  network, the file system and the probed process are one world \<open>'w\<close>; the record \<open>update_env\<close> has a function for each thing the code asks of
  it (\<^verbatim>\<open>Transport::get\<close>, \<^verbatim>\<open>std::fs\<close>, the package \<^verbatim>\<open>tempfile\<close>, \<^verbatim>\<open>Command::output\<close>). An answer is an option because
  verification can panic.
\<close>

section \<open>Reports and errors\<close>

datatype held = HeldTooYoung nat | HeldRejected

record check_report =
  cr_update_available :: bool
  cr_current :: rstr
  cr_tag :: "rstr option"
  cr_published :: "rstr option"
  cr_security :: bool
  cr_held :: "held option"

datatype update_error =
    UeFetch fetch_error
  | UePolicy policy_error
  | UeVerification verification_error
  | UeSumMismatch rstr
  | UeBundle bundle_error
  | UeTrustRoot
  | UeNoAssets rstr
  | UeSelfTest rstr
  | UeFeatureShrink
  | UeBadTarget rstr
  | UeInstall rstr rstr
  | UeUnhealthy nat rstr
  | UeNoUpdate
  | UeNotOffered rstr
  | UeRejected rstr
  | UeNotNewer rstr rstr

record update_candidate =
  uc_tag :: rstr
  uc_digest :: bytes
  uc_staging :: path
  uc_binary_path :: path

record feature_set =
  fs_version :: rstr
  fs_features :: "rstr list"

record cached_report =
  cd_checked_at :: int
  cd_report :: check_report

record process_output =
  po_success :: bool
  po_status :: rstr
  po_stdout :: bytes

record ('v, 'w) update_env = "'v semver_env" +
  ue_triple :: rstr
  ue_releases_json :: "bytes \<Rightarrow> (rstr, github_release list) result"
  ue_features_json :: "rstr \<Rightarrow> (rstr, feature_set) result"
  ue_rfc3339 :: "rstr \<Rightarrow> int option"
  ue_show_time :: "int \<Rightarrow> rstr"
  ue_cached_json :: "bytes \<Rightarrow> cached_report option"
  ue_cached_text :: "cached_report \<Rightarrow> (rstr, bytes) result"
  ue_tags_json :: "bytes \<Rightarrow> rstr list option"
  ue_bad_file_json :: "bytes \<Rightarrow> rstr list option"
  ue_tags_text :: "rstr list \<Rightarrow> bytes option"
  uw_get :: "rstr \<Rightarrow> nat \<Rightarrow> 'w \<Rightarrow> (fetch_error, bytes) result \<times> 'w"
  uw_staging :: "path \<Rightarrow> 'w \<Rightarrow> (rstr, path) result \<times> 'w"
  uw_drop :: "path \<Rightarrow> 'w \<Rightarrow> 'w"
  uw_write :: "path \<Rightarrow> bytes \<Rightarrow> 'w \<Rightarrow> (rstr, unit) result \<times> 'w"
  uw_chmod :: "path \<Rightarrow> nat \<Rightarrow> 'w \<Rightarrow> (rstr, unit) result \<times> 'w"
  uw_run :: "path \<Rightarrow> rstr list \<Rightarrow> 'w \<Rightarrow> (rstr, process_output) result \<times> 'w"
  uw_read :: "path \<Rightarrow> 'w \<Rightarrow> bytes option \<times> 'w"
  uw_create_dir_all :: "path \<Rightarrow> 'w \<Rightarrow> (rstr, unit) result \<times> 'w"
  uw_temp_file :: "path \<Rightarrow> 'w \<Rightarrow> (rstr, path) result \<times> 'w"
  uw_sync :: "path \<Rightarrow> 'w \<Rightarrow> (rstr, unit) result \<times> 'w"
  uw_persist :: "path \<Rightarrow> path \<Rightarrow> 'w \<Rightarrow> (rstr, unit) result \<times> 'w"
  uw_remove_file :: "path \<Rightarrow> 'w \<Rightarrow> (rstr, unit) result \<times> 'w"

section \<open>Computations\<close>

type_synonym ('w, 'a) flow = "'w \<Rightarrow> (update_error, 'a) result option \<times> 'w"

definition fret :: "'a \<Rightarrow> ('w, 'a) flow" where "fret x w = (Some (Inr x), w)"
definition ffail :: "update_error \<Rightarrow> ('w, 'a) flow" where "ffail e w = (Some (Inl e), w)"

definition fbind :: "('w, 'a) flow \<Rightarrow> ('a \<Rightarrow> ('w, 'b) flow) \<Rightarrow> ('w, 'b) flow" where
  "fbind m f w = (case m w of (Some (Inr x), w') \<Rightarrow> f x w' | (Some (Inl e), w') \<Rightarrow> (Some (Inl e), w') | (None, w') \<Rightarrow> (None, w'))"

definition flift :: "(update_error, 'a) result \<Rightarrow> ('w, 'a) flow" where "flift r w = (Some r, w)"

definition fcall :: "('e \<Rightarrow> update_error) \<Rightarrow> ('w \<Rightarrow> ('e, 'a) result \<times> 'w) \<Rightarrow> ('w, 'a) flow" where
  "fcall err f w = (case f w of (Inl e, w') \<Rightarrow> (Some (Inl (err e)), w') | (Inr x, w') \<Rightarrow> (Some (Inr x), w'))"

definition err_with :: "('e \<Rightarrow> 'f) \<Rightarrow> ('e, 'a) result \<Rightarrow> ('f, 'a) result" where
  "err_with f r = (case r of Inl e \<Rightarrow> Inl (f e) | Inr x \<Rightarrow> Inr x)"

section \<open>The list of releases and the check\<close>

definition list_releases :: "('v, 'w, 'x) update_env_scheme \<Rightarrow> ('w, release list) flow" where
  "list_releases P =
     fbind (fcall UeFetch (uw_get P RELEASES_URL MAX_RELEASES_BYTES)) (\<lambda>bs.
     fbind (flift (err_with (\<lambda>e. UeFetch (FeBadJson e)) (ue_releases_json P bs))) (\<lambda>gs.
       fret (usable_releases (ue_rfc3339 P) (ue_triple P) gs)))"

definition asset_name :: "('v, 'w, 'x) update_env_scheme \<Rightarrow> rstr" where
  "asset_name P = lit ''detent-'' @ ue_triple P"

definition good_candidates :: "release list \<Rightarrow> rstr list \<Rightarrow> candidate list" where
  "good_candidates releases bad = filter (\<lambda>c. ca_tag c \<notin> set bad) (map rl_candidate releases)"

text \<open>The last of the greatest, as \<^verbatim>\<open>Iterator::max_by\<close>.\<close>

fun max_last :: "('v :: linorder \<times> 'a) list \<Rightarrow> ('v \<times> 'a) option" where
  "max_last [] = None"
| "max_last (x # xs) = (case max_last xs of None \<Rightarrow> Some x | Some y \<Rightarrow> if fst y < fst x then Some x else Some y)"

definition rejected_tag :: "('v :: linorder, 'x) semver_env_scheme \<Rightarrow> release list \<Rightarrow> rstr list \<Rightarrow> 'v \<Rightarrow> rstr option" where
  "rejected_tag V releases bad current =
     map_option snd (max_last (filter (\<lambda>(v, _). current < v)
       (filter_map (\<lambda>t. map_option (\<lambda>v. (v, t)) (version_of V t))
         (filter (\<lambda>t. list_ex (\<lambda>r. ca_tag (rl_candidate r) = t) releases) bad))))"

definition report_of ::
  "('v :: linorder, 'w, 'x) update_env_scheme \<Rightarrow> release list \<Rightarrow> rstr list \<Rightarrow> 'v \<Rightarrow> (policy_error, candidate) result \<Rightarrow> check_report" where
  "report_of P releases bad current outcome =
     (let base = \<lparr>cr_update_available = False, cr_current = sv_show P current, cr_tag = None, cr_published = None, cr_security = False, cr_held = None\<rparr>
      in case outcome of
           Inr chosen \<Rightarrow>
             base\<lparr>cr_update_available := True, cr_tag := Some (ca_tag chosen),
               cr_published := map_option (ue_show_time P) (ca_published chosen), cr_security := contains_str SECURITY_MARKER (ca_body chosen)\<rparr>
         | Inl PeNoUpdate \<Rightarrow>
             (let rejected = rejected_tag P releases bad current
              in base\<lparr>cr_tag := rejected, cr_held := map_option (\<lambda>_. HeldRejected) rejected\<rparr>)
         | Inl (PeDowngradeRefused c _) \<Rightarrow> base\<lparr>cr_tag := Some c\<rparr>
         | Inl (PeTooYoung t days) \<Rightarrow> base\<lparr>cr_tag := Some t, cr_held := Some (HeldTooYoung days)\<rparr>
         | Inl (PeBadTag t) \<Rightarrow> base\<lparr>cr_tag := Some t\<rparr>)"

definition check_update ::
  "('v :: linorder, 'w, 'x) update_env_scheme \<Rightarrow> 'v \<Rightarrow> policy \<Rightarrow> int \<Rightarrow> rstr list \<Rightarrow> ('w, check_report) flow" where
  "check_update P current policy now bad =
     fbind (list_releases P) (\<lambda>releases.
       fret (report_of P releases bad current (select P (good_candidates releases bad) current now policy)))"

section \<open>Preparing a release\<close>

definition select_tag ::
  "('v :: linorder, 'x) semver_env_scheme \<Rightarrow> release list \<Rightarrow> rstr \<Rightarrow> 'v \<Rightarrow> int \<Rightarrow> policy \<Rightarrow> rstr list \<Rightarrow> (update_error, candidate) result" where
  "select_tag V releases tag current now policy bad =
     (case find (\<lambda>r. ca_tag (rl_candidate r) = tag) releases of
        None \<Rightarrow> Inl (UeNotOffered tag)
      | Some release \<Rightarrow>
          if tag \<in> set bad then Inl (UeRejected tag)
          else if version_of V tag = None then Inl (UePolicy (PeBadTag tag))
          else
            (case select V [rl_candidate release] current now policy of
               Inr chosen \<Rightarrow> Inr chosen
             | Inl PeNoUpdate \<Rightarrow> Inl (UeNotNewer tag (sv_show V current))
             | Inl e \<Rightarrow> Inl (UePolicy e)))"

definition choose_release ::
  "('v :: linorder, 'x) semver_env_scheme \<Rightarrow> release list \<Rightarrow> rstr option \<Rightarrow> 'v \<Rightarrow> int \<Rightarrow> policy \<Rightarrow> rstr list \<Rightarrow> (update_error, candidate) result" where
  "choose_release V releases tag current now policy bad =
     (case tag of
        Some t \<Rightarrow> select_tag V releases t current now policy bad
      | None \<Rightarrow> err_with (\<lambda>_. UeNoUpdate) (select V (good_candidates releases bad) current now policy))"

text \<open>The downloads and checks between the creation of the staging directory and the candidate.\<close>

definition fetch_and_verify ::
  "('v, 'w, 'x) update_env_scheme \<Rightarrow> ('k, 's, 'j, 'y) crypto_env_scheme \<Rightarrow> 'k trust_root \<Rightarrow> release \<Rightarrow> rstr \<Rightarrow> path \<Rightarrow> ('w, update_candidate) flow" where
  "fetch_and_verify P Y trust release tag staging =
     fbind (fcall UeFetch (uw_get P (rl_sums_url release) MAX_RELEASES_BYTES)) (\<lambda>sums_bytes.
     fbind (flift (err_with (\<lambda>_. UeNoAssets tag) (from_utf8 sums_bytes))) (\<lambda>sums_text.
     fbind (flift (err_with UeFetch (digest_from_sums sums_text (asset_name P)))) (\<lambda>expected.
     fbind (fcall UeFetch (uw_get P (rl_binary_url release) MAX_BINARY_BYTES)) (\<lambda>binary_bytes.
     let digest = cy_sha256 Y binary_bytes in
     if digest \<noteq> expected then ffail (UeSumMismatch (asset_name P))
     else
     fbind (fcall UeFetch (uw_get P (rl_bundle_url release) MAX_BUNDLE_BYTES)) (\<lambda>bundle_bytes.
     fbind (flift (err_with UeBundle (parse_bundle Y bundle_bytes))) (\<lambda>decoded.
     fbind (\<lambda>w. (map_option (err_with UeVerification) (verify_release Y decoded digest tag trust), w)) (\<lambda>_.
     let binary_path = path_join staging (asset_name P) in
     fbind (fcall (\<lambda>err. UeFetch (FeUnreachable (rl_binary_url release) (lit ''staging: '' @ err))) (uw_write P binary_path binary_bytes)) (\<lambda>_.
     fbind (fcall (\<lambda>err. UeFetch (FeUnreachable (rl_binary_url release) (lit ''staging: '' @ err))) (uw_chmod P binary_path 0x1ed)) (\<lambda>_.
       fret \<lparr>uc_tag = tag, uc_digest = digest, uc_staging = staging, uc_binary_path = binary_path\<rparr>)))))))))"

text \<open>An error drops the staging directory, which removes it.\<close>

definition or_drop :: "('v, 'w, 'x) update_env_scheme \<Rightarrow> path \<Rightarrow> ('w, 'a) flow \<Rightarrow> ('w, 'a) flow" where
  "or_drop P staging m w = (case m w of (Some (Inl e), w') \<Rightarrow> (Some (Inl e), uw_drop P staging w') | r \<Rightarrow> r)"

definition prepare_release ::
  "('v :: linorder, 'w, 'x) update_env_scheme \<Rightarrow> ('k, 's, 'j, 'y) crypto_env_scheme \<Rightarrow> 'v \<Rightarrow> policy \<Rightarrow> int \<Rightarrow> 'k trust_root \<Rightarrow> path \<Rightarrow> rstr list
     \<Rightarrow> rstr option \<Rightarrow> ('w, update_candidate) flow" where
  "prepare_release P Y current policy now trust staging_parent bad tag =
     fbind (list_releases P) (\<lambda>releases.
     fbind (flift (choose_release P releases tag current now policy bad)) (\<lambda>chosen.
     fbind (flift (ok_or (UeNoAssets (ca_tag chosen)) (find (\<lambda>r. ca_tag (rl_candidate r) = ca_tag chosen) releases))) (\<lambda>release.
     fbind (fcall (\<lambda>err. UeFetch (FeUnreachable [] (lit ''staging dir: '' @ err))) (uw_staging P staging_parent)) (\<lambda>staging.
       or_drop P staging (fetch_and_verify P Y trust release (ca_tag chosen) staging)))))"

section \<open>The self test\<close>

definition feature_covers :: "feature_set \<Rightarrow> feature_set \<Rightarrow> bool" where
  "feature_covers current new = list_all (\<lambda>f. f \<in> set (fs_features new)) (fs_features current)"

definition self_test :: "('v, 'w, 'x) update_env_scheme \<Rightarrow> path \<Rightarrow> ('w, feature_set) flow" where
  "self_test P binary =
     fbind (fcall UeSelfTest (uw_run P binary [lit ''--self-test'', lit ''--json''])) (\<lambda>out.
       if \<not> po_success out then ffail (UeSelfTest (po_status out))
       else flift (err_with UeSelfTest (ue_features_json P (trim (from_utf8_lossy (po_stdout out))))))"

definition confirm_features :: "('v, 'w, 'x) update_env_scheme \<Rightarrow> path \<Rightarrow> feature_set \<Rightarrow> ('w, feature_set) flow" where
  "confirm_features P binary current =
     fbind (self_test P binary) (\<lambda>new. if \<not> feature_covers current new then ffail UeFeatureShrink else fret new)"

section \<open>The cache of the last check and the list of bad releases\<close>

text \<open>Errors here are those of the file system; modes are \<^verbatim>\<open>0755\<close> above and \<^verbatim>\<open>0644\<close> below.\<close>

type_synonym ('w, 'a) disk = "'w \<Rightarrow> (rstr, 'a) result \<times> 'w"

definition dbind :: "('w, 'a) disk \<Rightarrow> ('a \<Rightarrow> ('w, 'b) disk) \<Rightarrow> ('w, 'b) disk" where
  "dbind m f w = (case m w of (Inl e, w') \<Rightarrow> (Inl e, w') | (Inr x, w') \<Rightarrow> f x w')"

definition CHECK_INTERVAL :: int where "CHECK_INTERVAL = 86400 * 10 ^ 9"

definition stamp_path :: "path \<Rightarrow> path" where "stamp_path state_root = path_join state_root (lit ''update/check.json'')"
definition bad_path :: "path \<Rightarrow> path" where "bad_path state_root = path_join state_root (lit ''update/bad.json'')"

definition read_cached :: "('v, 'w, 'x) update_env_scheme \<Rightarrow> path \<Rightarrow> 'w \<Rightarrow> cached_report option \<times> 'w" where
  "read_cached P stamp w = (case uw_read P stamp w of (r, w') \<Rightarrow> (Option.bind r (ue_cached_json P), w'))"

definition dedup_sorted :: "rstr list \<Rightarrow> rstr list" where
  "dedup_sorted tags = remdups_adj (sort tags)"

definition read_bad :: "('v, 'w, 'x) update_env_scheme \<Rightarrow> path \<Rightarrow> 'w \<Rightarrow> rstr list \<times> 'w" where
  "read_bad P p w =
     (case uw_read P p w of
        (None, w') \<Rightarrow> ([], w')
      | (Some r, w') \<Rightarrow>
          (case ue_tags_json P r of
             Some tags \<Rightarrow> (dedup_sorted tags, w')
           | None \<Rightarrow> (case ue_bad_file_json P r of Some tags \<Rightarrow> (dedup_sorted tags, w') | None \<Rightarrow> ([], w'))))"

definition is_fresh :: "int \<Rightarrow> int \<Rightarrow> bool" where
  "is_fresh checked_at now \<longleftrightarrow> checked_at \<le> now \<and> now - checked_at < CHECK_INTERVAL"

text \<open>A temporary file that is not persisted is dropped, which removes it.\<close>

definition write_atomic_file :: "('v, 'w, 'x) update_env_scheme \<Rightarrow> path \<Rightarrow> bytes \<Rightarrow> ('w, unit) disk" where
  "write_atomic_file P p body =
     (let dir = (case path_parent p of Some d \<Rightarrow> d | None \<Rightarrow> lit ''.'') in
      dbind (uw_temp_file P dir) (\<lambda>tmp w.
        case dbind (uw_write P tmp body) (\<lambda>_.
             dbind (uw_chmod P tmp 0x1a4) (\<lambda>_.
             dbind (uw_sync P tmp) (\<lambda>_. uw_persist P tmp p))) w of
          (Inl e, w') \<Rightarrow> (Inl e, uw_drop P tmp w')
        | r \<Rightarrow> r))"

definition write_cached :: "('v, 'w, 'x) update_env_scheme \<Rightarrow> path \<Rightarrow> check_report \<Rightarrow> int \<Rightarrow> bool \<Rightarrow> ('w, cached_report option) disk" where
  "write_cached P stamp report now force =
     (let cached = \<lparr>cd_checked_at = now, cd_report = report\<rparr>;
          write = dbind (case path_parent stamp of Some parent \<Rightarrow> uw_create_dir_all P parent | None \<Rightarrow> (\<lambda>w. (Inr (), w))) (\<lambda>_.
                  dbind (\<lambda>w. (ue_cached_text P cached, w)) (\<lambda>body.
                  dbind (write_atomic_file P stamp body) (\<lambda>_ w. (Inr (Some cached), w))))
      in if force then write
         else (\<lambda>w. case read_cached P stamp w of
                 (Some existing, w') \<Rightarrow> if is_fresh (cd_checked_at existing) now then (Inr None, w') else write w'
               | (None, w') \<Rightarrow> write w'))"

definition mark_bad :: "('v, 'w, 'x) update_env_scheme \<Rightarrow> path \<Rightarrow> rstr \<Rightarrow> 'w \<Rightarrow> 'w" where
  "mark_bad P p tag w =
     (case read_bad P p w of
        (tags, w1) \<Rightarrow>
          if tag \<in> set tags then w1
          else
            (case ue_tags_text P (dedup_sorted (tags @ [tag])) of
               None \<Rightarrow> w1
             | Some body \<Rightarrow>
                 (let w2 = (case path_parent p of Some parent \<Rightarrow> snd (uw_create_dir_all P parent w1) | None \<Rightarrow> w1);
                      w3 = snd (write_atomic_file P p body w2)
                  in case path_parent p of
                       Some parent \<Rightarrow> snd (uw_remove_file P (path_join parent (lit ''check.json'')) w3)
                     | None \<Rightarrow> w3)))"

section \<open>What a prepared release is\<close>

lemma fbind_ok: "fbind m f w = (Some (Inr y), w') \<longleftrightarrow> (\<exists>x w1. m w = (Some (Inr x), w1) \<and> f x w1 = (Some (Inr y), w'))"
  by (auto simp: fbind_def split: prod.splits option.splits sum.splits)

lemma fret_ok: "fret x w = (Some (Inr y), w') \<longleftrightarrow> y = x \<and> w' = w"
  by (auto simp: fret_def)

lemma ffail_ok: "ffail e w = (Some (Inr y), w') \<longleftrightarrow> False"
  by (simp add: ffail_def)

lemma flift_ok: "flift r w = (Some (Inr y), w') \<longleftrightarrow> r = Inr y \<and> w' = w"
  by (auto simp: flift_def)

lemma fcall_ok: "fcall err g w = (Some (Inr y), w') \<longleftrightarrow> g w = (Inr y, w')"
  by (auto simp: fcall_def split: prod.splits sum.splits)

lemma or_drop_ok: "or_drop P staging m w = (Some (Inr y), w') \<longleftrightarrow> m w = (Some (Inr y), w')"
  by (auto simp: or_drop_def split: prod.splits option.splits sum.splits)

lemma err_with_ok: "err_with f r = Inr y \<longleftrightarrow> r = Inr y"
  by (auto simp: err_with_def split: sum.splits)

lemmas flow_simps = fbind_ok fret_ok ffail_ok flift_ok fcall_ok or_drop_ok err_with_ok

lemma chosen_release_allowed:
  assumes "choose_release V releases tag current now policy bad = Inr c"
  shows "ca_tag c \<notin> set bad \<and> (\<exists>v. version_of V (ca_tag c) = Some v \<and> takeable current policy v) \<and> passes_gate now policy c
    \<and> (tag = None \<or> tag = Some (ca_tag c)) \<and> (\<exists>r \<in> set releases. rl_candidate r = c)"
proof -
  have sel: "c \<in> set cs \<and> (\<exists>v. version_of V (ca_tag c) = Some v \<and> takeable current policy v) \<and> passes_gate now policy c"
    if s: "select V cs current now policy = Inr c" for cs
  proof -
    obtain pre v post where s: "release_order (parsed_releases V cs) = pre @ (c, v) # post" "takeable current policy v" "passes_gate now policy c"
      using select_loop_sound [OF s [unfolded select_def]] by blast
    have "(c, v) \<in> set (release_order (parsed_releases V cs))" by (simp add: s(1))
    then show ?thesis using s(2,3) by (auto simp: set_release_order)
  qed
  show ?thesis
  proof (cases tag)
    case None
    then show ?thesis using assms sel [of "good_candidates releases bad"] by (force simp: choose_release_def flow_simps good_candidates_def)
  next
    case (Some t)
    then obtain r where r: "find (\<lambda>r. ca_tag (rl_candidate r) = t) releases = Some r" "t \<notin> set bad" "select V [rl_candidate r] current now policy = Inr c"
      using assms by (auto simp: choose_release_def select_tag_def split: option.splits if_splits sum.splits policy_error.splits)
    then show ?thesis using sel [OF r(3)] Some by (auto simp: find_Some_iff)
  qed
qed

text \<open>A release of the list is made of one published release of the feed that is neither a draft nor a preview, and its three addresses are those of
  the assets with the three names.\<close>

definition offered :: "(rstr \<Rightarrow> int option) \<Rightarrow> rstr \<Rightarrow> github_release list \<Rightarrow> release \<Rightarrow> bool" where
  "offered rfc3339 triple feed r \<longleftrightarrow>
     (\<exists>g \<in> set feed. \<not> gr_draft g \<and> \<not> gr_prerelease g \<and> rl_candidate r = \<lparr>ca_tag = gr_tag_name g, ca_published = Option.bind (gr_published_at g) rfc3339, ca_body = gr_body g\<rparr>
        \<and> (\<exists>a \<in> set (gr_assets g). ga_name a = lit ''detent-'' @ triple \<and> ga_url a = rl_binary_url r)
        \<and> (\<exists>a \<in> set (gr_assets g). ga_name a = lit ''SHA256SUMS'' \<and> ga_url a = rl_sums_url r)
        \<and> (\<exists>a \<in> set (gr_assets g). ga_name a = lit ''detent-'' @ triple @ lit ''.sigstore.json'' \<and> ga_url a = rl_bundle_url r))"

lemma usable_offered: "r \<in> set (usable_releases rfc triple feed) \<Longrightarrow> offered rfc triple feed r"
proof -
  have member: "y \<in> set (filter_map f xs) \<Longrightarrow> \<exists>x \<in> set xs. f x = Some y" for f y and xs :: "github_release list"
    by (induction xs) (auto split: option.splits)
  assume "r \<in> set (usable_releases rfc triple feed)"
  then obtain g where g: "g \<in> set feed" "\<not> gr_draft g" "\<not> gr_prerelease g" "release_of rfc triple g = Some r"
    unfolding usable_releases_def by (auto dest!: member)
  have "\<exists>a \<in> set xs. P a \<and> ga_url a = ga_url x" if "find P xs = Some x" for P x and xs :: "github_asset list"
    using that by (auto simp: find_Some_iff)
  with g show ?thesis unfolding offered_def release_of_def
    by (intro bexI [of _ g]) (auto simp: Option.bind_eq_Some_conv)
qed

text \<open>What the downloads and checks of a release have done when they answer a candidate.\<close>

lemma fetched_and_verified:
  assumes "fetch_and_verify P Y trust release tag staging w = (Some (Inr c), w')"
  obtains sums_bytes sums binary bundle_bytes decoded w1 w2 w3 w4 where
    "uw_get P (rl_sums_url release) MAX_RELEASES_BYTES w = (Inr sums_bytes, w1)" "from_utf8 sums_bytes = Inr sums"
    "digest_from_sums sums (asset_name P) = Inr (uc_digest c)"
    "uw_get P (rl_binary_url release) MAX_BINARY_BYTES w1 = (Inr binary, w2)" "uc_digest c = cy_sha256 Y binary"
    "uw_get P (rl_bundle_url release) MAX_BUNDLE_BYTES w2 = (Inr bundle_bytes, w3)" "parse_bundle Y bundle_bytes = Inr decoded"
    "verify_release Y decoded (uc_digest c) tag trust = Some (Inr ())"
    "uw_write P (uc_binary_path c) binary w3 = (Inr (), w4)" "uw_chmod P (uc_binary_path c) 0x1ed w4 = (Inr (), w')"
    "uc_tag c = tag" "uc_staging c = staging" "uc_binary_path c = path_join staging (asset_name P)"
  using assms unfolding fetch_and_verify_def by (auto simp: flow_simps Let_def split: if_splits)

text \<open>C7. Only a verified release is staged. When the preparation answers a candidate, the feed that was just fetched offers a release with its tag, which is
  the first with this tag in the list; the tag is not on the list of bad releases, and is the one asked for when one was asked for. A release of the list with
  this tag (the same one, where no two releases share a tag) has a version the policy admits, and is marked as a security release or published long enough ago. The digest of the
  candidate is that of the bytes downloaded from the address of the binary of this release, and the one its list of digests names for this build; the bundle downloaded
  from the address of its bundle verifies this digest for this tag against the trust root; and only then were these very bytes
  written to the staging directory and made executable.\<close>

theorem prepared_release_verified:
  assumes "prepare_release P Y current policy now trust parent bad tag w = (Some (Inr c), w')"
  shows "\<exists>feed_bytes feed releases release chosen v sums_bytes sums binary bundle_bytes decoded w0 w1 w2 w3 w4 w5.
    uw_get P RELEASES_URL (2 ^ 20) w = (Inr feed_bytes, w0) \<and> ue_releases_json P feed_bytes = Inr feed
    \<and> releases = usable_releases (ue_rfc3339 P) (ue_triple P) feed
    \<and> find (\<lambda>r. ca_tag (rl_candidate r) = uc_tag c) releases = Some release \<and> offered (ue_rfc3339 P) (ue_triple P) feed release
    \<and> uc_tag c \<notin> set bad \<and> (tag = None \<or> tag = Some (uc_tag c))
    \<and> chosen \<in> rl_candidate ` set releases \<and> ca_tag chosen = uc_tag c
    \<and> (distinct (map (\<lambda>r. ca_tag (rl_candidate r)) releases) \<longrightarrow> chosen = rl_candidate release)
    \<and> version_of P (uc_tag c) = Some v \<and> (current < v \<or> v < current \<and> po_allow_downgrade policy)
    \<and> ((\<exists>l \<in> set (str_lines (ca_body chosen)). trim_end_by blank (dropWhile blank l) = lit ''detent-security: true'')
        \<or> (\<exists>p. ca_published chosen = Some p \<and> min (int (po_min_age_days policy)) i64_max \<le> whole_days (now - p)))
    \<and> uw_get P (rl_sums_url release) (2 ^ 20) w1 = (Inr sums_bytes, w2) \<and> from_utf8 sums_bytes = Inr sums
    \<and> digest_from_sums sums (lit ''detent-'' @ ue_triple P) = Inr (uc_digest c)
    \<and> uw_get P (rl_binary_url release) (64 * 2 ^ 20) w2 = (Inr binary, w3) \<and> uc_digest c = cy_sha256 Y binary
    \<and> uw_get P (rl_bundle_url release) (2 ^ 20) w3 = (Inr bundle_bytes, w4) \<and> parse_bundle Y bundle_bytes = Inr decoded
    \<and> verify_release Y decoded (uc_digest c) (uc_tag c) trust = Some (Inr ())
    \<and> uw_write P (uc_binary_path c) binary w4 = (Inr (), w5) \<and> uw_chmod P (uc_binary_path c) 0x1ed w5 = (Inr (), w')"
proof -
  obtain feed_bytes feed w0 chosen release staging w1 where p: "uw_get P RELEASES_URL MAX_RELEASES_BYTES w = (Inr feed_bytes, w0)"
    "ue_releases_json P feed_bytes = Inr feed"
    "choose_release P (usable_releases (ue_rfc3339 P) (ue_triple P) feed) tag current now policy bad = Inr chosen"
    "find (\<lambda>r. ca_tag (rl_candidate r) = ca_tag chosen) (usable_releases (ue_rfc3339 P) (ue_triple P) feed) = Some release"
    "fetch_and_verify P Y trust release (ca_tag chosen) staging w1 = (Some (Inr c), w')"
    using assms by (auto simp: prepare_release_def list_releases_def flow_simps)
  let ?releases = "usable_releases (ue_rfc3339 P) (ue_triple P) feed"
  note allowed = chosen_release_allowed [OF p(3)]
  then obtain v where v: "version_of P (ca_tag chosen) = Some v" "takeable current policy v" by blast
  have r: "release \<in> set ?releases" "ca_tag (rl_candidate release) = ca_tag chosen" using p(4) by (auto simp: find_Some_iff)
  have same: "chosen = rl_candidate release" if d: "distinct (map (\<lambda>r. ca_tag (rl_candidate r)) ?releases)"
  proof -
    obtain r' where r': "r' \<in> set ?releases" "rl_candidate r' = chosen" using allowed by blast
    then have "r' = release" using d r by (auto simp: distinct_map inj_on_def)
    then show ?thesis using r' by simp
  qed
  have gate: "(\<exists>l \<in> set (str_lines (ca_body chosen)). trim_end_by blank (dropWhile blank l) = lit ''detent-security: true'')
      \<or> (\<exists>p. ca_published chosen = Some p \<and> min (int (po_min_age_days policy)) i64_max \<le> whole_days (now - p))"
    using allowed by (auto simp: passes_gate_def is_security_def list_ex_iff SECURITY_MARKER_def)
  note caps = MAX_RELEASES_BYTES_def MAX_BINARY_BYTES_def MAX_BUNDLE_BYTES_def asset_name_def
  show ?thesis
    by (rule fetched_and_verified [OF p(5)], unfold caps)
      (use p(1,2,4) [unfolded caps] allowed v r(1) usable_offered [OF r(1)] same gate in
        \<open>(intro exI conjI; (assumption | simp)?), auto simp: takeable_def\<close>)
qed

text \<open>A feed with one release, three downloads that are told apart by their addresses, and a disk that takes everything.\<close>

definition xf_github :: github_release where
  "xf_github = \<lparr>gr_tag_name = lit ''v1'', gr_draft = False, gr_prerelease = False, gr_published_at = Some [], gr_body = [],
     gr_assets = [\<lparr>ga_name = lit ''detent-x'', ga_url = lit ''b''\<rparr>, \<lparr>ga_name = lit ''SHA256SUMS'', ga_url = lit ''s''\<rparr>,
       \<lparr>ga_name = lit ''detent-x.sigstore.json'', ga_url = lit ''j''\<rparr>]\<rparr>"

definition xf_file :: "rstr \<Rightarrow> bytes" where
  "xf_file url = (if url = lit ''b'' then replicate 32 0xaa else if url = lit ''s'' then replicate 64 97 @ lit ''  detent-x'' else [])"

definition xf_env :: "(nat, bytes list) update_env" where
  "xf_env = \<lparr>sv_parse = parse_uint u64_max, sv_show = show_nat, ue_triple = lit ''x'', ue_releases_json = (\<lambda>_. Inr [xf_github]),
     ue_features_json = (\<lambda>_. Inl []), ue_rfc3339 = (\<lambda>_. Some 0), ue_show_time = (\<lambda>_. []), ue_cached_json = (\<lambda>_. None), ue_cached_text = (\<lambda>_. Inl []),
     ue_tags_json = (\<lambda>_. None), ue_bad_file_json = (\<lambda>_. None), ue_tags_text = (\<lambda>_. None),
     uw_get = (\<lambda>url _ w. (Inr (xf_file url), w)),
     uw_staging = (\<lambda>_ w. (Inr (lit ''/tmp/s''), w)), uw_drop = (\<lambda>_ w. w), uw_write = (\<lambda>_ body w. (Inr (), body # w)),
     uw_chmod = (\<lambda>_ _ w. (Inr (), w)), uw_run = (\<lambda>_ _ w. (Inl [], w)), uw_read = (\<lambda>_ w. (None, w)), uw_create_dir_all = (\<lambda>_ w. (Inr (), w)),
     uw_temp_file = (\<lambda>_ w. (Inl [], w)), uw_sync = (\<lambda>_ w. (Inr (), w)), uw_persist = (\<lambda>_ _ w. (Inr (), w)), uw_remove_file = (\<lambda>_ w. (Inr (), w))\<rparr>"

definition xf_candidate :: update_candidate where
  "xf_candidate = \<lparr>uc_tag = lit ''v1'', uc_digest = replicate 32 0xaa, uc_staging = lit ''/tmp/s'', uc_binary_path = lit ''/tmp/s/detent-x''\<rparr>"

definition xf_release :: release where
  "xf_release = \<lparr>rl_candidate = \<lparr>ca_tag = lit ''v1'', ca_published = Some 0, ca_body = []\<rparr>, rl_binary_url = lit ''b'', rl_bundle_url = lit ''j'', rl_sums_url = lit ''s''\<rparr>"

text \<open>Any transport that delivers these files will do, as long as the limit leaves room for them.\<close>

lemma xf_prepared_via:
  assumes fetcher: "\<And>url cap w. 100 \<le> cap \<Longrightarrow> fetcher url cap w = (Inr (xf_file url), w)"
  shows "prepare_release (xf_env\<lparr>uw_get := fetcher\<rparr>) xv_env 0 policy_default (5 * DAY) xv_trust (lit ''/tmp'') [] None []
    = (Some (Inr xf_candidate), [replicate 32 0xaa])"
proof -
  let ?P = "xf_env\<lparr>uw_get := fetcher\<rparr>"
  have caps: "100 \<le> MAX_RELEASES_BYTES" "100 \<le> MAX_BINARY_BYTES" "100 \<le> MAX_BUNDLE_BYTES"
    by (simp_all add: MAX_RELEASES_BYTES_def MAX_BINARY_BYTES_def MAX_BUNDLE_BYTES_def)
  have u: "usable_releases (ue_rfc3339 xf_env) (lit ''x'') [xf_github] = [xf_release]" by code_simp
  have l: "list_releases ?P w = (Some (Inr [xf_release]), w)" for w
    using u by (simp add: list_releases_def fbind_def fcall_def flift_def fret_def err_with_def fetcher caps xf_env_def)
  have c: "choose_release xf_env [xf_release] None 0 (5 * DAY) policy_default [] = Inr (rl_candidate xf_release)" by code_simp
  have v: "version_of ?P = version_of xf_env" by (rule ext) (simp add: version_of_def xf_env_def)
  have loop: "select_loop ?P x now pol xs young = select_loop xf_env x now pol xs young" for x now pol xs young
    by (induction xs arbitrary: young) (auto simp: Let_def split: sum.splits policy_error.splits)
  have c': "choose_release ?P [xf_release] None 0 (5 * DAY) policy_default [] = Inr (rl_candidate xf_release)"
    using c by (simp add: choose_release_def select_def parsed_releases_def v loop)
  have s: "digest_from_sums (replicate 64 97 @ lit ''  detent-x'') (lit ''detent-x'') = Inr (replicate 32 0xaa)"
    "from_utf8 (replicate 64 97 @ lit ''  detent-x'') = Inr (replicate 64 97 @ lit ''  detent-x'')"
    "cy_sha256 xv_env (replicate 32 0xaa) = replicate 32 0xaa" "path_join (lit ''/tmp/s'') (lit ''detent-x'') = lit ''/tmp/s/detent-x''" by code_simp+
  have g: "xf_file (lit ''s'') = replicate 64 97 @ lit ''  detent-x''" "xf_file (lit ''b'') = replicate 32 0xaa"
    "xf_file (lit ''j'') = []" "uw_staging xf_env d w = (Inr (lit ''/tmp/s''), w)" "uw_write xf_env p b w = (Inr (), b # w)"
    "uw_chmod xf_env p m w = (Inr (), w)" "asset_name ?P = lit ''detent-x''" for w d p b m
    by (simp_all add: xf_env_def asset_name_def lit_def xf_file_def)
  have f: "fetch_and_verify ?P xv_env xv_trust xf_release (lit ''v1'') (lit ''/tmp/s'') [] = (Some (Inr xf_candidate), [replicate 32 0xaa])"
    unfolding fetch_and_verify_def Let_def
    by (simp add: fbind_def fcall_def flift_def fret_def err_with_def g s fetcher caps xf_release_def xv_parses xv_accepted xf_candidate_def
        del: replicate.simps)
  have "find (\<lambda>r. ca_tag (rl_candidate r) = ca_tag (rl_candidate xf_release)) [xf_release] = Some xf_release" "ca_tag (rl_candidate xf_release) = lit ''v1''"
    by (simp_all add: xf_release_def)
  then show ?thesis by (simp add: prepare_release_def fbind_def l c' flift_def ok_or_def fcall_def g or_drop_def f)
qed

lemma xf_prepared: "prepare_release xf_env xv_env 0 policy_default (5 * DAY) xv_trust (lit ''/tmp'') [] None [] = (Some (Inr xf_candidate), [replicate 32 0xaa])"
proof -
  have "uw_get xf_env url cap w = (Inr (xf_file url), w)" for url cap w by (simp add: xf_env_def)
  moreover have "xf_env\<lparr>uw_get := uw_get xf_env\<rparr> = xf_env" by simp
  ultimately show ?thesis using xf_prepared_via [of "uw_get xf_env"] by simp
qed

theorem prepared_release_verified_witness:
  "prepare_release xf_env xv_env 0 policy_default (5 * DAY) xv_trust (lit ''/tmp'') [] None [] = (Some (Inr xf_candidate), [replicate 32 0xaa])
    \<and> (\<exists>feed release sums binary decoded. offered (ue_rfc3339 xf_env) (ue_triple xf_env) feed release \<and> ca_tag (rl_candidate release) = lit ''v1''
        \<and> digest_from_sums sums (lit ''detent-x'') = Inr (uc_digest xf_candidate) \<and> uc_digest xf_candidate = cy_sha256 xv_env binary
        \<and> verify_release xv_env decoded (uc_digest xf_candidate) (lit ''v1'') xv_trust = Some (Inr ()))"
proof -
  have f: "uc_tag xf_candidate = lit ''v1''" "lit ''detent-'' @ ue_triple xf_env = lit ''detent-x''"
    by (simp_all add: xf_candidate_def xf_env_def lit_def)
  obtain feed release sums binary decoded where "offered (ue_rfc3339 xf_env) (ue_triple xf_env) feed release"
    "\<exists>rs. find (\<lambda>r. ca_tag (rl_candidate r) = uc_tag xf_candidate) rs = Some release"
    "digest_from_sums sums (lit ''detent-'' @ ue_triple xf_env) = Inr (uc_digest xf_candidate)" "uc_digest xf_candidate = cy_sha256 xv_env binary"
    "verify_release xv_env decoded (uc_digest xf_candidate) (uc_tag xf_candidate) xv_trust = Some (Inr ())"
    using prepared_release_verified [OF xf_prepared] by blast
  then show ?thesis using xf_prepared f by (auto simp: find_Some_iff)
qed

end
