(* ===== verification/Fetch_Client.thy ===== *)
theory Fetch_Client
  imports Update_Flow
begin

text \<open>
  The client of \<^verbatim>\<open>crates/detent-update/src/fetch.rs\<close>: one GET with its redirects, \<^verbatim>\<open>RealTransport::get\<close> and \<^verbatim>\<open>resolve_location\<close>. The connection is
  that of the package \<^verbatim>\<open>hyper\<close>, a parameter: a request answers an error text (also when it times out) or a response, whose body is the finite list of
  its frames. The sink is a state with an operation that writes to it; the update flow passes a byte vector.
\<close>

section \<open>One request\<close>

datatype frame = FrData bytes | FrMetadata | FrError rstr | FrTimeout

record http_response =
  hr_status :: nat
  hr_location :: "rstr option"
  hr_frames :: "frame list"

record ('w, 's) client_env =
  cl_uri_error :: "rstr \<Rightarrow> rstr option"
  cl_request :: "rstr \<Rightarrow> 'w \<Rightarrow> (rstr, http_response) result \<times> 'w"
  cl_write :: "bytes \<Rightarrow> 's \<Rightarrow> (rstr, unit) result \<times> 's"

definition resolve_location :: "rstr \<Rightarrow> rstr \<Rightarrow> rstr" where
  "resolve_location base location =
     (if starts_with (lit ''https://'') location \<or> starts_with (lit ''http://'') location then location
      else if starts_with [SLASH] location
      then
        (case split_str (lit ''://'') base of
           Some (scheme, rest) \<Rightarrow> scheme @ lit ''://'' @ takeWhile (\<lambda>c. c \<noteq> SLASH) rest
         | None \<Rightarrow> takeWhile (\<lambda>c. c \<noteq> SLASH) base) @ location
      else (case rsplit_once SLASH base of Some (prefix, _) \<Rightarrow> prefix | None \<Rightarrow> base) @ [SLASH] @ location)"

text \<open>The loop over the frames of a body.\<close>

fun read_frames :: "('w, 's, 'x) client_env_scheme \<Rightarrow> rstr \<Rightarrow> nat \<Rightarrow> frame list \<Rightarrow> nat \<Rightarrow> 's \<Rightarrow> (fetch_error, nat) result \<times> 's" where
  "read_frames C url cap [] got s = (Inr got, s)"
| "read_frames C url cap (f # fs) got s =
     (case f of
        FrTimeout \<Rightarrow> (Inl (FeUnreachable url (lit ''timed out'')), s)
      | FrError err \<Rightarrow> (Inl (FeUnreachable url err), s)
      | FrMetadata \<Rightarrow> (Inl (FeUnreachable url (lit ''stream returned a metadata frame'')), s)
      | FrData bs \<Rightarrow>
          (let got' = sat_add u64_max got (length bs) in
           if cap < got' then (Inl (FeTooLarge cap), s)
           else (case cl_write C bs s of
                   (Inl err, s') \<Rightarrow> (Inl (FeUnreachable url err), s')
                 | (Inr _, s') \<Rightarrow> read_frames C url cap fs got' s')))"

datatype outcome = Redirected rstr | Finished nat

definition one_request :: "('w, 's, 'x) client_env_scheme \<Rightarrow> rstr \<Rightarrow> nat \<Rightarrow> 's \<Rightarrow> 'w \<Rightarrow> (fetch_error, outcome) result \<times> 's \<times> 'w" where
  "one_request C url cap s w =
     (case cl_uri_error C url of
        Some err \<Rightarrow> (Inl (FeUnreachable url (lit ''request: '' @ err)), s, w)
      | None \<Rightarrow>
          (case cl_request C url w of
             (Inl err, w') \<Rightarrow> (Inl (FeUnreachable url err), s, w')
           | (Inr response, w') \<Rightarrow>
               if hr_status response \<in> {301, 302, 303, 307, 308}
               then
                 (case hr_location response of
                    None \<Rightarrow> (Inl (FeUnreachable url (lit ''redirect without Location'')), s, w')
                  | Some loc \<Rightarrow>
                      (let next_url = resolve_location url loc in
                       if \<not> starts_with (lit ''https://'') next_url
                       then (Inl (FeUnreachable next_url (lit ''redirect to non-https refused'')), s, w')
                       else (Inr (Redirected next_url), s, w')))
               else if \<not> (200 \<le> hr_status response \<and> hr_status response < 300)
               then (Inl (FeBadStatus url (hr_status response)), s, w')
               else (case read_frames C url cap (hr_frames response) 0 s of
                       (Inl e, s') \<Rightarrow> (Inl e, s', w')
                     | (Inr got, s') \<Rightarrow> (Inr (Finished got), s', w'))))"

section \<open>The redirects\<close>

text \<open>\<^verbatim>\<open>for _ in 0..6\<close>, with the number of rounds left.\<close>

fun get_rounds :: "('w, 's, 'x) client_env_scheme \<Rightarrow> nat \<Rightarrow> rstr \<Rightarrow> nat \<Rightarrow> 's \<Rightarrow> 'w \<Rightarrow> (fetch_error, nat) result \<times> 's \<times> 'w" where
  "get_rounds C 0 url cap s w = (Inl (FeUnreachable url (lit ''too many redirects'')), s, w)"
| "get_rounds C (Suc n) url cap s w =
     (case one_request C url cap s w of
        (Inl e, s', w') \<Rightarrow> (Inl e, s', w')
      | (Inr (Finished got), s', w') \<Rightarrow> (Inr got, s', w')
      | (Inr (Redirected next_url), s', w') \<Rightarrow> get_rounds C n next_url cap s' w')"

definition transport_get :: "('w, 's, 'x) client_env_scheme \<Rightarrow> rstr \<Rightarrow> nat \<Rightarrow> 's \<Rightarrow> 'w \<Rightarrow> (fetch_error, nat) result \<times> 's \<times> 'w" where
  "transport_get C = get_rounds C 6"

text \<open>The call as the update flow makes it: into an empty byte vector, which it reads when the call answers.\<close>

definition get_bytes :: "('w, bytes, 'x) client_env_scheme \<Rightarrow> rstr \<Rightarrow> nat \<Rightarrow> 'w \<Rightarrow> (fetch_error, bytes) result \<times> 'w" where
  "get_bytes C url cap w =
     (case transport_get C url cap [] w of
        (Inl e, _, w') \<Rightarrow> (Inl e, w')
      | (Inr _, s, w') \<Rightarrow> (Inr s, w'))"

definition into_vec :: "('w, bytes, 'x) client_env_scheme \<Rightarrow> ('w, bytes, 'x) client_env_scheme" where
  "into_vec C = C\<lparr>cl_write := (\<lambda>bs s. (Inr (), s @ bs))\<rparr>"

section \<open>Requests and bytes\<close>

text \<open>A client that keeps the addresses it was asked for.\<close>

definition logged :: "('w, 's) client_env \<Rightarrow> ('w \<times> rstr list, 's) client_env" where
  "logged C = \<lparr>cl_uri_error = cl_uri_error C, cl_request = (\<lambda>url (w, urls). (case cl_request C url w of (r, w') \<Rightarrow> (r, (w', urls @ [url])))),
     cl_write = cl_write C\<rparr>"

lemma read_frames_vec:
  assumes "read_frames (into_vec C) url cap fs got s = (r, s')" and "got \<le> cap" and "cap < u64_max"
  shows "\<exists>written. s' = s @ written \<and> got + length written \<le> cap \<and> (\<forall>n. r = Inr n \<longrightarrow> n = got + length written)"
  using assms
proof (induction fs arbitrary: got s)
  case (Cons f fs)
  show ?case
  proof (cases f)
    case (FrData bs)
    show ?thesis
    proof (cases "cap < sat_add u64_max got (length bs)")
      case True
      then show ?thesis using Cons.prems FrData by auto
    next
      case False
      then have got: "sat_add u64_max got (length bs) = got + length bs" "got + length bs \<le> cap"
        using Cons.prems(3) by (auto simp: sat_add_def)
      then have "read_frames (into_vec C) url cap fs (got + length bs) (s @ bs) = (r, s')"
        using Cons.prems(1) FrData by (simp add: into_vec_def)
      from Cons.IH [OF this got(2) Cons.prems(3)] show ?thesis by fastforce
    qed
  qed (use Cons.prems in auto)
qed auto

lemma one_request_vec:
  assumes "one_request (into_vec C) url cap s w = (r, s', w')" and "cap < u64_max"
  shows "\<exists>written. s' = s @ written \<and> length written \<le> cap \<and> (\<forall>n. r = Inr (Finished n) \<longrightarrow> n = length written)
    \<and> (\<forall>u. r = Inr (Redirected u) \<longrightarrow> s' = s \<and> starts_with (lit ''https://'') u)"
proof -
  have "\<exists>written. t = s @ written \<and> length written \<le> cap \<and> (\<forall>n. q = Inr n \<longrightarrow> n = length written)"
    if "read_frames (into_vec C) url cap fs 0 s = (q, t)" for fs q t
    using read_frames_vec [OF that _ assms(2)] by simp
  then show ?thesis using assms(1)
    by (fastforce simp: one_request_def Let_def split: option.splits prod.splits sum.splits if_splits)
qed

lemma get_rounds_vec:
  assumes "get_rounds (into_vec C) n url cap s w = (r, s', w')" and "cap < u64_max"
  shows "\<exists>written. s' = s @ written \<and> length written \<le> cap \<and> (\<forall>m. r = Inr m \<longrightarrow> m = length written)"
  using assms
proof (induction n arbitrary: url w)
  case (Suc n)
  obtain q t v where q: "one_request (into_vec C) url cap s w = (q, t, v)" by (metis prod_cases3)
  note one = one_request_vec [OF q Suc.prems(2)]
  show ?case
  proof (cases q)
    case (Inr out)
    then show ?thesis
    proof (cases out)
      case (Redirected u)
      then have "get_rounds (into_vec C) n u cap s v = (r, s', w')" using Suc.prems(1) q Inr one by auto
      then show ?thesis using Suc.IH Suc.prems(2) by blast
    qed (use Suc.prems q one Inr in auto)
  qed (use Suc.prems q one in auto)
qed auto

text \<open>The addresses of the requests: one a round, and every one a redirect led to is of the secure scheme.\<close>

lemma one_request_logged:
  assumes "one_request (logged C) url cap s (w, urls) = (r, s', (w', urls'))"
  shows "(urls' = urls \<and> (\<exists>e. r = Inl e)) \<or> urls' = urls @ [url]"
    and "r = Inr (Redirected u) \<Longrightarrow> starts_with (lit ''https://'') u"
proof -
  obtain a v where a: "cl_request C url w = (a, v)" by force
  have u: "cl_uri_error (logged C) = cl_uri_error C" "cl_request (logged C) url (w, urls) = (a, (v, urls @ [url]))"
    by (simp_all add: logged_def a)
  have "((urls' = urls \<and> (\<exists>e. r = Inl e)) \<or> urls' = urls @ [url]) \<and> (r = Inr (Redirected u) \<longrightarrow> starts_with (lit ''https://'') u)"
  proof (cases a)
    case (Inl e)
    then show ?thesis using assms unfolding one_request_def u by (auto split: option.splits)
  next
    case (Inr response)
    obtain q t where q: "read_frames (logged C) url cap (hr_frames response) 0 s = (q, t)" by force
    show ?thesis using assms unfolding one_request_def u Inr q
      by (cases "cl_uri_error C url"; cases q; cases "hr_location response") (auto simp: Let_def q split: if_splits)
  qed
  then show "(urls' = urls \<and> (\<exists>e. r = Inl e)) \<or> urls' = urls @ [url]" and "r = Inr (Redirected u) \<Longrightarrow> starts_with (lit ''https://'') u"
    by blast+
qed

lemma get_rounds_logged:
  assumes "get_rounds (logged C) n url cap s (w, urls) = (r, s', (w', urls'))"
  shows "\<exists>new. urls' = urls @ new \<and> length new \<le> n \<and> (\<forall>u \<in> set new. u = url \<or> starts_with (lit ''https://'') u)"
  using assms
proof (induction n arbitrary: url s w urls)
  case (Suc n)
  obtain q t v us where q: "one_request (logged C) url cap s (w, urls) = (q, t, (v, us))" by (metis prod_cases4)
  note one = one_request_logged [OF q]
  show ?case
  proof (cases "\<exists>u. q = Inr (Redirected u)")
    case True
    then obtain u where u: "q = Inr (Redirected u)" by blast
    then have "get_rounds (logged C) n u cap t (v, us) = (r, s', (w', urls'))" using Suc.prems q by simp
    from Suc.IH [OF this] obtain new where n: "urls' = us @ new" "length new \<le> n" "\<forall>x \<in> set new. x = u \<or> starts_with (lit ''https://'') x"
      by blast
    have "us = urls @ [url]" "starts_with (lit ''https://'') u" using one u by auto
    then show ?thesis using n by (intro exI [of _ "url # new"]) auto
  next
    case False
    then have "urls' = us" using Suc.prems q by (auto split: sum.splits outcome.splits)
    then show ?thesis using one(1) by auto
  qed
qed simp

lemma into_vec_logged: "cl_write C = (\<lambda>bs s. (Inr (), s @ bs)) \<Longrightarrow> into_vec (logged C) = logged C"
  by (simp add: into_vec_def logged_def)

text \<open>C20. A download is confined and bounded. Whatever the servers answer, one call makes at most six requests, each to the address it was given or to one
  of the secure scheme, and puts at most the allowed number of bytes into the vector, which are exactly as many as it answers.\<close>

theorem download_confined:
  assumes "cl_write C = (\<lambda>bs s. (Inr (), s @ bs))" and "cap < u64_max"
    and "transport_get (logged C) url cap [] (w, []) = (r, got, (w', urls))"
  shows "length urls \<le> 6 \<and> list_all (\<lambda>u. u = url \<or> starts_with (lit ''https://'') u) urls
    \<and> length got \<le> cap \<and> (\<forall>n. r = Inr n \<longrightarrow> n = length got)"
  using get_rounds_logged [OF assms(3) [unfolded transport_get_def]]
    get_rounds_vec [of "logged C" 6 url cap "[]" "(w, [])" r got "(w', urls)"] assms
  by (auto simp: transport_get_def into_vec_logged list_all_iff)

section \<open>What a transport promises to the update flow\<close>

locale capped_transport =
  fixes get :: "rstr \<Rightarrow> nat \<Rightarrow> 'w \<Rightarrow> (fetch_error, bytes) result \<times> 'w"
  assumes capped: "get url cap w = (Inr bs, w') \<Longrightarrow> cap < u64_max \<Longrightarrow> length bs \<le> cap"
begin

lemma staged_bytes:
  assumes "uw_get P = get" and "fetch_and_verify P Y trust release tag staging w = (Some (Inr c), w')"
  shows "\<exists>binary bundle decoded w1 w2. length binary \<le> MAX_BINARY_BYTES \<and> uc_digest c = cy_sha256 Y binary
    \<and> length bundle \<le> MAX_BUNDLE_BYTES \<and> parse_bundle Y bundle = Inr decoded \<and> verify_release Y decoded (uc_digest c) tag trust = Some (Inr ())
    \<and> uw_write P (uc_binary_path c) binary w1 = (Inr (), w2)"
proof -
  have "MAX_BINARY_BYTES < u64_max" "MAX_BUNDLE_BYTES < u64_max" by (simp_all add: MAX_BINARY_BYTES_def MAX_BUNDLE_BYTES_def u64_max_def)
  with capped have small: "length bs \<le> MAX_BINARY_BYTES" if "get url MAX_BINARY_BYTES v = (Inr bs, v')" for url v bs v' using that by blast
  have tight: "length bs \<le> MAX_BUNDLE_BYTES" if "get url MAX_BUNDLE_BYTES v = (Inr bs, v')" for url v bs v'
    using that capped \<open>MAX_BUNDLE_BYTES < u64_max\<close> by blast
  show ?thesis using assms(2) small tight unfolding fetch_and_verify_def by (auto simp: flow_simps Let_def assms(1) split: if_splits) blast
qed

end

interpretation client: capped_transport "get_bytes (into_vec C)" for C
proof
  fix url cap w bs w' assume "get_bytes (into_vec C) url cap w = (Inr bs, w')" and cap: "cap < u64_max"
  then obtain n where "get_rounds (into_vec C) 6 url cap [] w = (Inr n, bs, w')"
    by (auto simp: get_bytes_def transport_get_def split: prod.splits sum.splits)
  from get_rounds_vec [OF this cap] show "length bs \<le> cap" by auto
qed

text \<open>With this client the update flow never stages more than its limits. Whatever the servers answer, a prepared release was written from at most
  64 MiB whose digest is that of the candidate, and the bundle that verifies this digest for the tag was at most 1 MiB.\<close>

theorem prepared_download_bounded:
  assumes "uw_get P = get_bytes (into_vec C)"
    and "prepare_release P Y current policy now trust parent bad tag w = (Some (Inr c), w')"
  shows "\<exists>binary bundle decoded w1 w2. length binary \<le> 64 * 2 ^ 20 \<and> uc_digest c = cy_sha256 Y binary \<and> length bundle \<le> 2 ^ 20
    \<and> parse_bundle Y bundle = Inr decoded \<and> verify_release Y decoded (uc_digest c) (uc_tag c) trust = Some (Inr ())
    \<and> uw_write P (uc_binary_path c) binary w1 = (Inr (), w2)"
proof -
  obtain release t staging w1 where f: "fetch_and_verify P Y trust release t staging w1 = (Some (Inr c), w')"
    using assms(2) by (auto simp: prepare_release_def flow_simps)
  have "uc_tag c = t" using f by (auto simp: fetch_and_verify_def flow_simps Let_def split: if_splits)
  then show ?thesis using client.staged_bytes [OF assms(1) f] by (simp add: MAX_BINARY_BYTES_def MAX_BUNDLE_BYTES_def)
qed

section \<open>Concrete servers\<close>

text \<open>A server that redirects once and then answers in two frames, and one that leads in a circle.\<close>

definition xs_client :: "(unit, bytes) client_env" where
  "xs_client = \<lparr>cl_uri_error = (\<lambda>_. None),
     cl_request = (\<lambda>url w. (Inr (if url = lit ''https://a/x'' then \<lparr>hr_status = 302, hr_location = Some (lit ''/y''), hr_frames = []\<rparr>
       else if url = lit ''https://a/y'' then \<lparr>hr_status = 200, hr_location = None, hr_frames = [FrData [1, 2], FrData [3]]\<rparr>
       else \<lparr>hr_status = 301, hr_location = Some (lit ''https://a/loop''), hr_frames = []\<rparr>), w)),
     cl_write = (\<lambda>bs s. (Inr (), s @ bs))\<rparr>"

theorem download_confined_witness:
  "(case transport_get (logged xs_client) (lit ''https://a/x'') 3 [] ((), []) of (r, got, (w, urls)) \<Rightarrow>
      r = Inr 3 \<and> got = [1, 2, 3] \<and> urls = [lit ''https://a/x'', lit ''https://a/y''] \<and> length urls \<le> 6 \<and> length got \<le> 3)"
proof -
  have w: "cl_write xs_client = (\<lambda>bs s. (Inr (), s @ bs))" by (simp add: xs_client_def)
  have run: "transport_get (logged xs_client) (lit ''https://a/x'') 3 [] ((), [])
      = (Inr 3, [1, 2, 3], ((), [lit ''https://a/x'', lit ''https://a/y'']))" by code_simp
  show ?thesis using download_confined [OF w _ run] run by (simp add: u64_max_def)
qed

lemma redirect_circle_ends:
  "fst (transport_get (logged xs_client) (lit ''https://a/z'') 3 [] ((), [])) = Inl (FeUnreachable (lit ''https://a/loop'') (lit ''too many redirects''))"
  by code_simp

definition xs_feed :: "(bytes list, bytes) client_env" where
  "xs_feed = \<lparr>cl_uri_error = (\<lambda>_. None), cl_request = (\<lambda>url w. (Inr \<lparr>hr_status = 200, hr_location = None, hr_frames = [FrData (xf_file url)]\<rparr>, w)),
     cl_write = (\<lambda>bs s. (Inr (), s @ bs))\<rparr>"

lemma xs_feed_get: "100 \<le> cap \<Longrightarrow> get_bytes (into_vec xs_feed) url cap w = (Inr (xf_file url), w)"
proof -
  assume "100 \<le> cap"
  moreover have "length (xf_file url) \<le> 100" by (simp add: xf_file_def lit_def)
  ultimately have cap: "length (xf_file url) \<le> cap" and u: "sat_add u64_max 0 (length (xf_file url)) = length (xf_file url)"
    by (simp_all add: sat_add_def u64_max_def)
  have "read_frames (into_vec xs_feed) url cap [FrData (xf_file url)] 0 [] = (Inr (length (xf_file url)), xf_file url)"
    using cap u by (simp add: into_vec_def)
  then have "one_request (into_vec xs_feed) url cap [] w = (Inr (Finished (length (xf_file url))), xf_file url, w)"
    by (simp add: one_request_def into_vec_def xs_feed_def)
  then show ?thesis by (simp add: get_bytes_def transport_get_def eval_nat_numeral)
qed

theorem prepared_download_bounded_witness:
  "prepare_release (xf_env\<lparr>uw_get := get_bytes (into_vec xs_feed)\<rparr>) xv_env 0 policy_default (5 * DAY) xv_trust (lit ''/tmp'') [] None []
      = (Some (Inr xf_candidate), [replicate 32 0xaa])
    \<and> (\<exists>binary. length binary \<le> 64 * 2 ^ 20 \<and> uc_digest xf_candidate = cy_sha256 xv_env binary)"
proof -
  let ?P = "xf_env\<lparr>uw_get := get_bytes (into_vec xs_feed)\<rparr>"
  have run: "prepare_release ?P xv_env 0 policy_default (5 * DAY) xv_trust (lit ''/tmp'') [] None [] = (Some (Inr xf_candidate), [replicate 32 0xaa])"
    by (rule xf_prepared_via) (rule xs_feed_get)
  have "uw_get ?P = get_bytes (into_vec xs_feed)" by simp
  from prepared_download_bounded [OF this run] show ?thesis using run by blast
qed

end
