(* ===== verification/Install.thy ===== *)
theory Install
  imports Atomic_Write
begin

text \<open>
  \<^verbatim>\<open>crates/detent-update/src/install.rs\<close>: the swap of the running binary and its rollback, on the file system of \<open>Syscalls\<close> with its
  faults and deaths. An \<^verbatim>\<open>UpdateError::Install\<close> is \<open>AeIo\<close> with the name of the step, a \<^verbatim>\<open>BadTarget\<close> is \<open>AeNotRegularFile\<close>. The name of
  the temporary file is the choice of the package \<^verbatim>\<open>tempfile\<close>, an argument here; it removes the file when it is dropped. Names that are
  hard links of one file have the same inode number, and whatever is written through one of them shows under all. An open file is
  named by its key, since no open file is renamed or removed here; where a symbolic link leads is an argument, \<open>lead\<close>.
\<close>

section \<open>Inodes\<close>

text \<open>A change of a file changes it under every name of its inode.\<close>

fun node_on :: "nat \<Rightarrow> (regular \<Rightarrow> regular) \<Rightarrow> node \<Rightarrow> node" where
  "node_on i u (Reg g) = Reg (if f_ino g = i then u g else g)"
| "node_on i u Symlink = Symlink"
| "node_on i u Special = Special"

definition on_inode :: "nat \<Rightarrow> (regular \<Rightarrow> regular) \<Rightarrow> osys \<Rightarrow> osys" where
  "on_inode i u s = s\<lparr>os_files := map (\<lambda>(k, n). (k, node_on i u n)) (os_files s)\<rparr>"

definition inode_call :: "rstr \<Rightarrow> key \<Rightarrow> (regular \<Rightarrow> regular) \<Rightarrow> unit sys" where
  "inode_call op k u =
     andthen (syscall op k) (\<lambda>_ s.
       case node_at s k of
         Some (Reg g) \<Rightarrow> (Inr (), on_inode (f_ino g) u s)
       | _ \<Rightarrow> (Inl (Failed (AeIo op k ENOENT)), s))"

definition hard_link :: "key \<Rightarrow> key \<Rightarrow> unit sys" where
  "hard_link src dst =
     andthen (syscall (lit ''linkat'') dst) (\<lambda>_ s.
       case node_at s src of
         None \<Rightarrow> (Inl (Failed (AeIo (lit ''linkat'') dst ENOENT)), s)
       | Some n \<Rightarrow> if node_at s dst \<noteq> None then (Inl (Failed (AeIo (lit ''linkat'') dst EEXIST)), s) else (Inr (), put_node dst n s))"

text \<open>A rename over another name of the same file does nothing and succeeds.\<close>

definition rename_file :: "key \<Rightarrow> key \<Rightarrow> unit sys" where
  "rename_file src dst =
     andthen (syscall (lit ''renameat'') dst) (\<lambda>_ s.
       case node_at s src of
         None \<Rightarrow> (Inl (Failed (AeIo (lit ''renameat'') dst ENOENT)), s)
       | Some n \<Rightarrow>
           if (case (n, node_at s dst) of (Reg g, Some (Reg h)) \<Rightarrow> f_ino g = f_ino h | _ \<Rightarrow> False)
           then (Inr (), s)
           else (Inr (), put_node dst n (del_node src s)))"

definition followed :: "(key \<Rightarrow> key) \<Rightarrow> key \<Rightarrow> osys \<Rightarrow> key" where
  "followed lead p s = (if node_at s p = Some Symlink then lead p else p)"

definition open_read :: "(key \<Rightarrow> key) \<Rightarrow> key \<Rightarrow> key sys" where
  "open_read lead p =
     andthen (syscall (lit ''open'') p) (\<lambda>_ s.
       case node_at s (followed lead p s) of
         Some (Reg _) \<Rightarrow> (Inr (followed lead p s), s)
       | _ \<Rightarrow> (Inl (Failed (AeIo (lit ''open'') p ENOENT)), s))"

text \<open>Open for writing, created with a mode or truncated.\<close>

definition open_truncate :: "(key \<Rightarrow> key) \<Rightarrow> key \<Rightarrow> nat \<Rightarrow> key sys" where
  "open_truncate lead p mode =
     andthen (syscall (lit ''open'') p) (\<lambda>_ s.
       let q = followed lead p s in
       case node_at s q of
         Some (Reg g) \<Rightarrow> (Inr q, on_inode (f_ino g) (\<lambda>h. h\<lparr>f_contents := []\<rparr>) s)
       | None \<Rightarrow> (Inr q, put_node q (Reg \<lparr>f_contents = [], f_mode = mode, f_uid = os_euid s, f_gid = os_egid s, f_ino = os_next_ino s,
             f_xattrs = [], f_mtime = os_clock s (os_ticks s)\<rparr>) (s\<lparr>os_next_ino := Suc (os_next_ino s)\<rparr>))
       | _ \<Rightarrow> (Inl (Failed (AeIo (lit ''open'') p (Hard (EOTHER 0)))), s))"

text \<open>The bytes of one open file appended to another: what the source has when it is read, which is after the other was opened.\<close>

definition copy_bytes :: "key \<Rightarrow> key \<Rightarrow> unit sys" where
  "copy_bytes src dst s =
     (case (node_at s src, node_at s dst) of
        (Some (Reg a), Some (Reg b)) \<Rightarrow>
          (case syscall_cut (lit ''write'') dst s of
             (None, s') \<Rightarrow> (Inr (), on_inode (f_ino b) (\<lambda>h. h\<lparr>f_contents := f_contents h @ f_contents a\<rparr>) s')
           | (Some (n, e), s') \<Rightarrow> (Inl e, on_inode (f_ino b) (\<lambda>h. h\<lparr>f_contents := f_contents h @ take n (f_contents a)\<rparr>) s'))
      | _ \<Rightarrow> (Inl (Failed (AeIo (lit ''write'') dst ENOENT)), s))"

definition set_mode :: "key \<Rightarrow> nat \<Rightarrow> unit sys" where
  "set_mode k mode = inode_call (lit ''fchmod'') k (\<lambda>g. g\<lparr>f_mode := mode\<rparr>)"

definition mode_at :: "key \<Rightarrow> osys \<Rightarrow> nat" where
  "mode_at k s = (case node_at s k of Some (Reg g) \<Rightarrow> f_mode g | _ \<Rightarrow> 0)"

text \<open>\<^verbatim>\<open>std::fs::copy\<close>: both files are opened, the one truncated, before anything is read.\<close>

definition fs_copy :: "(key \<Rightarrow> key) \<Rightarrow> key \<Rightarrow> key \<Rightarrow> unit sys" where
  "fs_copy lead src dst =
     andthen (open_read lead src) (\<lambda>from.
     andthen (reads (mode_at from)) (\<lambda>mode.
     andthen (open_truncate lead dst mode) (\<lambda>into.
     andthen (set_mode into mode) (\<lambda>_.
       copy_bytes from into))))"

section \<open>Steps\<close>

text \<open>\<^verbatim>\<open>map_err(|err| failed(step, &err))\<close>.\<close>

definition in_step :: "rstr \<Rightarrow> 'a sys \<Rightarrow> 'a sys" where
  "in_step step m s = (case m s of (Inl (Failed (AeIo _ p e)), s') \<Rightarrow> (Inl (Failed (AeIo step p e)), s') | r \<Rightarrow> r)"

definition PREVIOUS_SUFFIX :: rstr where "PREVIOUS_SUFFIX = lit ''.prev''"

record installed =
  in_target :: key
  in_previous :: key

definition previous_path :: "key \<Rightarrow> (atomic_error, key) result" where
  "previous_path target =
     (if target = [] then Inl (AeNotRegularFile target)
      else (case last target of
              Normal w \<Rightarrow> Inr (butlast target @ [Normal (w @ PREVIOUS_SUFFIX)])
            | _ \<Rightarrow> Inl (AeNotRegularFile target)))"

definition directory_of :: "key \<Rightarrow> key" where
  "directory_of target = (if butlast target = [] then [CurDir] else butlast target)"

definition sync_directory :: "key \<Rightarrow> unit sys" where
  "sync_directory p = in_step (lit ''sync-dir'') (andthen (open_dir (directory_of p)) (\<lambda>_. fsync (directory_of p)))"

text \<open>An operation whose failure does not matter; a dead process is dead.\<close>

definition best_effort :: "unit sys \<Rightarrow> unit sys" where
  "best_effort m s = (case m s of (Inl Killed, s') \<Rightarrow> (Inl Killed, s') | (_, s') \<Rightarrow> (Inr (), s'))"

definition remove_best_effort :: "key \<Rightarrow> unit sys" where
  "remove_best_effort p = best_effort (sys_unlink p p)"

section \<open>The swap\<close>

definition keep_previous :: "(key \<Rightarrow> key) \<Rightarrow> key \<Rightarrow> key \<Rightarrow> unit sys" where
  "keep_previous lead target previous =
     andthen (remove_best_effort previous) (\<lambda>_ s.
       case hard_link target previous s of
         (Inr _, s') \<Rightarrow> (Inr (), s')
       | (Inl Killed, s') \<Rightarrow> (Inl Killed, s')
       | (Inl (Failed _), s') \<Rightarrow> in_step (lit ''keep'') (fs_copy lead target previous) s')"

definition stage :: "(key \<Rightarrow> key) \<Rightarrow> key \<Rightarrow> key \<Rightarrow> nat \<Rightarrow> unit sys" where
  "stage lead temp candidate mode =
     andthen (in_step (lit ''stage'') (sys_create temp temp 0x180)) (\<lambda>_.
     guarded temp (
       andthen (in_step (lit ''read'') (open_read lead candidate)) (\<lambda>source.
       andthen (in_step (lit ''copy'') (copy_bytes source temp)) (\<lambda>_.
       andthen (in_step (lit ''mode'') (set_mode temp mode)) (\<lambda>_.
         in_step (lit ''sync'') (fsync temp))))))"

definition persist :: "key \<Rightarrow> key \<Rightarrow> unit sys" where
  "persist temp target = guarded temp (in_step (lit ''install'') (rename_file temp target))"

definition swap_kept :: "(key \<Rightarrow> key) \<Rightarrow> key \<Rightarrow> key \<Rightarrow> key \<Rightarrow> unit sys" where
  "swap_kept lead temp target previous =
     andthen (guarded temp (keep_previous lead target previous)) (\<lambda>_.
     andthen (persist temp target) (\<lambda>_. sync_directory target))"

definition swap :: "(key \<Rightarrow> key) \<Rightarrow> key \<Rightarrow> key \<Rightarrow> key \<Rightarrow> installed sys" where
  "swap lead temp candidate target s =
     (case syscall (lit ''lstat'') target s of
        (Inl Killed, s1) \<Rightarrow> (Inl Killed, s1)
      | (Inl (Failed _), s1) \<Rightarrow> (Inl (Failed (AeNotRegularFile target)), s1)
      | (Inr _, s1) \<Rightarrow>
          (case node_at s1 target of
             Some (Reg f) \<Rightarrow>
               andthen (lift (previous_path target)) (\<lambda>previous.
               andthen (stage lead temp candidate (f_mode f)) (\<lambda>_ s2.
                 case swap_kept lead temp target previous s2 of
                   (Inr _, s3) \<Rightarrow> (Inr \<lparr>in_target = target, in_previous = previous\<rparr>, s3)
                 | (Inl Killed, s3) \<Rightarrow> (Inl Killed, s3)
                 | (Inl (Failed e), s3) \<Rightarrow> andthen (remove_best_effort previous) (\<lambda>_. stop_with e) s3)) s1
           | _ \<Rightarrow> (Inl (Failed (AeNotRegularFile target)), s1)))"

definition rollback :: "installed \<Rightarrow> unit sys" where
  "rollback i =
     andthen (in_step (lit ''rollback'') (rename_file (in_previous i) (in_target i))) (\<lambda>_. sync_directory (in_target i))"

section \<open>What each call leaves\<close>

lemma node_at_on_inode [simp]: "node_at (on_inode i u s) k = map_option (node_on i u) (node_at s k)"
  by (simp add: node_at_def on_inode_def map_of_map case_prod_beta' flip: case_prod_beta')

lemma os_fields_on_inode [simp]: "os_next_ino (on_inode i u s) = os_next_ino s" "os_dirs (on_inode i u s) = os_dirs s"
  by (simp_all add: on_inode_def)

lemma node_at_ino [simp]: "node_at (s\<lparr>os_next_ino := n\<rparr>) = node_at s"
  by (rule ext) (simp add: node_at_def)

lemma previous_path_other: "previous_path target = Inr previous \<Longrightarrow> previous \<noteq> target"
proof -
  assume a: "previous_path target = Inr previous"
  then obtain w where w: "target \<noteq> []" "last target = Normal w" "previous = butlast target @ [Normal (w @ PREVIOUS_SUFFIX)]"
    by (auto simp: previous_path_def split: if_splits component.splits)
  then have "last previous = Normal (w @ PREVIOUS_SUFFIX)" by simp
  then show ?thesis using w(2) by (auto simp: PREVIOUS_SUFFIX_def lit_def)
qed

text \<open>Triples for the calls. The assertion after a failure is the same for every way to fail.\<close>

lemma triple_inode_call:
  assumes "quiet P" and "\<And>s. P s \<Longrightarrow> B s"
    and "\<And>s g. P s \<Longrightarrow> node_at s k = Some (Reg g) \<Longrightarrow> Q (on_inode (f_ino g) u s)"
  shows "triple P (inode_call op k u) (\<lambda>_. Q) (\<lambda>_. B)"
  unfolding inode_call_def
  by (rule triple_andthen [OF triple_call]) (use assms in \<open>auto simp: triple_def split: option.splits node.splits\<close>)

lemma triple_create:
  assumes "quiet P" and "\<And>s. P s \<Longrightarrow> B s"
    and "\<And>s g. P s \<Longrightarrow> node_at s k = None \<Longrightarrow> f_contents g = [] \<Longrightarrow> f_ino g = os_next_ino s
      \<Longrightarrow> Q (put_node k (Reg g) (s\<lparr>os_next_ino := Suc (os_next_ino s)\<rparr>))"
  shows "triple P (sys_create k p mode) (\<lambda>_. Q) (\<lambda>_. B)"
  unfolding sys_create_def
  by (rule triple_andthen [OF triple_call]) (use assms in \<open>auto simp: triple_def\<close>)

lemma triple_open_truncate:
  assumes "quiet P" and "\<And>s. P s \<Longrightarrow> B s" and "\<And>s. P s \<Longrightarrow> node_at s p \<noteq> Some Symlink"
    and "\<And>s g. P s \<Longrightarrow> node_at s p = Some (Reg g) \<Longrightarrow> Q p (on_inode (f_ino g) (\<lambda>h. h\<lparr>f_contents := []\<rparr>) s)"
    and "\<And>s g. P s \<Longrightarrow> node_at s p = None \<Longrightarrow> f_contents g = [] \<Longrightarrow> f_ino g = os_next_ino s
      \<Longrightarrow> Q p (put_node p (Reg g) (s\<lparr>os_next_ino := Suc (os_next_ino s)\<rparr>))"
  shows "triple P (open_truncate lead p mode) Q (\<lambda>_. B)"
  unfolding open_truncate_def
  by (rule triple_andthen [OF triple_call])
    (use assms in \<open>auto simp: triple_def followed_def Let_def split: option.splits node.splits\<close>)

lemma triple_rename_file:
  assumes "quiet P" and "\<And>s. P s \<Longrightarrow> B s"
    and "\<And>s. P s \<Longrightarrow> \<exists>g h. node_at s src = Some (Reg g) \<and> node_at s dst = Some (Reg h) \<and> f_ino g \<noteq> f_ino h"
    and "\<And>s n. P s \<Longrightarrow> node_at s src = Some n \<Longrightarrow> Q (put_node dst n (del_node src s))"
  shows "triple P (rename_file src dst) (\<lambda>_. Q) (\<lambda>_. B)"
  unfolding rename_file_def
proof (rule triple_andthen [OF triple_call])
  show "triple P (\<lambda>s. case node_at s src of None \<Rightarrow> (Inl (Failed (AeIo (lit ''renameat'') dst ENOENT)), s)
      | Some n \<Rightarrow> if (case (n, node_at s dst) of (Reg g, Some (Reg h)) \<Rightarrow> f_ino g = f_ino h | _ \<Rightarrow> False) then (Inr (), s)
          else (Inr (), put_node dst n (del_node src s))) (\<lambda>_. Q) (\<lambda>_. B)"
    unfolding triple_def using assms(3,4) by fastforce
qed (use assms in auto)

lemma triple_copy_bytes:
  assumes "quiet P" and "\<And>s. P s \<Longrightarrow> B s"
    and "\<And>s a b n. P s \<Longrightarrow> node_at s src = Some (Reg a) \<Longrightarrow> node_at s dst = Some (Reg b)
      \<Longrightarrow> B (on_inode (f_ino b) (\<lambda>h. h\<lparr>f_contents := f_contents h @ take n (f_contents a)\<rparr>) s)"
    and "\<And>s a b. P s \<Longrightarrow> node_at s src = Some (Reg a) \<Longrightarrow> node_at s dst = Some (Reg b)
      \<Longrightarrow> Q (on_inode (f_ino b) (\<lambda>h. h\<lparr>f_contents := f_contents h @ f_contents a\<rparr>) s)"
  shows "triple P (copy_bytes src dst) (\<lambda>_. Q) (\<lambda>_. B)"
  unfolding triple_def
proof (intro allI impI)
  fix s assume p: "P s"
  show "case copy_bytes src dst s of (Inr x, s') \<Rightarrow> Q s' | (Inl e, s') \<Rightarrow> B s'"
  proof (cases "\<exists>a b. node_at s src = Some (Reg a) \<and> node_at s dst = Some (Reg b)")
    case True
    then obtain a b where n: "node_at s src = Some (Reg a)" "node_at s dst = Some (Reg b)" by blast
    obtain r es where r: "syscall_cut (lit ''write'') dst s = (r, s\<lparr>os_script := es\<rparr>)" using syscall_cut_cases by metis
    have "P (s\<lparr>os_script := es\<rparr>)" using assms(1) p by (rule quietD)
    then show ?thesis using assms(3,4) [of "s\<lparr>os_script := es\<rparr>" a b] n r by (auto simp: copy_bytes_def split: option.splits prod.splits)
  next
    case False
    then show ?thesis using assms(2) [OF p] by (auto simp: copy_bytes_def split: option.splits node.splits)
  qed
qed

lemma triple_in_step: "triple P m Q (\<lambda>_. B) \<Longrightarrow> triple P (in_step step m) Q (\<lambda>_. B)"
  unfolding triple_def in_step_def by (fastforce split: prod.splits sum.splits stop.splits atomic_error.splits)

lemma triple_unlink:
  assumes "quiet P" and "\<And>s. P s \<Longrightarrow> Q s" and "\<And>s. P s \<Longrightarrow> Q (del_node k s)"
  shows "triple P (sys_unlink k p) (\<lambda>_. Q) (\<lambda>_. Q)"
  unfolding sys_unlink_def
  by (rule triple_andthen [OF triple_call]) (use assms in \<open>auto simp: triple_def\<close>)

lemma triple_guarded:
  assumes "triple P m Q (\<lambda>_. B)" and "quiet B" and "\<And>s. B s \<Longrightarrow> B (del_node k s)"
  shows "triple P (guarded k m) Q (\<lambda>_. B)"
proof -
  have u: "triple B (sys_unlink k k) (\<lambda>_. B) (\<lambda>_. B)" by (rule triple_unlink) (use assms in auto)
  show ?thesis unfolding triple_def
  proof (intro allI impI)
    fix s assume p: "P s"
    obtain r t where m: "m s = (r, t)" by force
    show "case guarded k m s of (Inr x, s') \<Rightarrow> Q x s' | (Inl e, s') \<Rightarrow> B s'"
    proof (cases r)
      case (Inr x)
      then show ?thesis using tripleD(1) [OF assms(1) p] m by (simp add: guarded_def)
    next
      case (Inl e)
      then have b: "B t" using tripleD(2) [OF assms(1) p] m by blast
      obtain q v where v: "sys_unlink k k t = (q, v)" by force
      have "B v" using tripleD [OF u b] v by (cases q) auto
      then show ?thesis using b m Inl v by (cases e; cases q) (auto simp: guarded_def split: stop.splits)
    qed
  qed
qed

lemma triple_remove:
  assumes "quiet P" and "\<And>s. P s \<Longrightarrow> Q s" and "\<And>s. P s \<Longrightarrow> Q (del_node k s)"
  shows "triple P (remove_best_effort k) (\<lambda>_. Q) (\<lambda>_. Q)"
proof -
  have u: "triple P (sys_unlink k k) (\<lambda>_. Q) (\<lambda>_. Q)" by (rule triple_unlink) (use assms in auto)
  show ?thesis unfolding triple_def
  proof (intro allI impI)
    fix s assume p: "P s"
    obtain q v where v: "sys_unlink k k s = (q, v)" by force
    have "Q v" using tripleD [OF u p] v by (cases q) auto
    then show "case remove_best_effort k s of (Inr x, s') \<Rightarrow> Q s' | (Inl e, s') \<Rightarrow> Q s'"
      using v by (cases q) (auto simp: remove_best_effort_def best_effort_def split: stop.splits)
  qed
qed

section \<open>Files of their own\<close>

text \<open>Inode numbers in use are below the next one; a name stands for no file or for one with another inode; a name is the only one of its file.\<close>

definition inodes_below :: "osys \<Rightarrow> bool" where
  "inodes_below s \<longleftrightarrow> (\<forall>k g. node_at s k = Some (Reg g) \<longrightarrow> f_ino g < os_next_ino s)"

definition unlinked :: "osys \<Rightarrow> key \<Rightarrow> nat \<Rightarrow> bool" where
  "unlinked s k i \<longleftrightarrow> node_at s k = None \<or> (\<exists>g. node_at s k = Some (Reg g) \<and> f_ino g \<noteq> i)"

definition owned :: "osys \<Rightarrow> key \<Rightarrow> regular \<Rightarrow> bool" where
  "owned s k g \<longleftrightarrow> node_at s k = Some (Reg g) \<and> (\<forall>k' h. k' \<noteq> k \<longrightarrow> node_at s k' = Some (Reg h) \<longrightarrow> f_ino h \<noteq> f_ino g)"

lemma quiet_nodes: "(\<And>s s'. node_at s = node_at s' \<Longrightarrow> os_next_ino s = os_next_ino s' \<Longrightarrow> P s = P s') \<Longrightarrow> quiet P"
  unfolding quiet_def by (metis node_at_script osys.select_convs(6) osys.surjective osys.update_convs(10))

lemma node_on_other: "(\<And>g. n = Reg g \<Longrightarrow> f_ino g \<noteq> i) \<Longrightarrow> node_on i u n = n"
  by (cases n) auto

lemma owned_others: "owned s k g \<Longrightarrow> k' \<noteq> k \<Longrightarrow> node_at (on_inode (f_ino g) u s) k' = node_at s k'"
  by (cases "node_at s k'") (auto simp: owned_def intro: node_on_other)

lemma owned_change: "owned s k g \<Longrightarrow> f_ino (u g) = f_ino g \<Longrightarrow> owned (on_inode (f_ino g) u s) k (u g)"
  using owned_others [of s k g] by (auto simp: owned_def)

lemma node_on_Reg: "node_on i u n = Reg h \<longleftrightarrow> (\<exists>g. n = Reg g \<and> h = (if f_ino g = i then u g else g))"
  by (cases n) auto

lemma inodes_below_change [simp]: "inodes_below s \<Longrightarrow> (\<And>h. f_ino (u h) = f_ino h) \<Longrightarrow> inodes_below (on_inode i u s)"
  by (auto simp: inodes_below_def node_on_Reg)

lemma fresh_owned:
  assumes "inodes_below s" and "f_ino g = os_next_ino s"
  shows "owned (put_node k (Reg g) (s\<lparr>os_next_ino := Suc (os_next_ino s)\<rparr>)) k g" "inodes_below (put_node k (Reg g) (s\<lparr>os_next_ino := Suc (os_next_ino s)\<rparr>))"
  using assms by (auto simp: owned_def inodes_below_def less_Suc_eq) (metis less_irrefl)

text \<open>What holds until the rename: the target is the old binary, and \<^verbatim>\<open>.prev\<close> is not another name of it.\<close>

definition untouched :: "key \<Rightarrow> key \<Rightarrow> regular \<Rightarrow> osys \<Rightarrow> bool" where
  "untouched target previous f s \<longleftrightarrow> node_at s target = Some (Reg f) \<and> inodes_below s \<and> unlinked s previous (f_ino f)"

definition staged :: "key \<Rightarrow> bytes \<Rightarrow> nat \<Rightarrow> osys \<Rightarrow> bool" where
  "staged temp contents mode s \<longleftrightarrow> (\<exists>g. owned s temp g \<and> f_contents g = contents \<and> f_mode g = mode)"

text \<open>These contents, this mode.\<close>

definition holds :: "key \<Rightarrow> bytes \<Rightarrow> nat \<Rightarrow> osys \<Rightarrow> bool" where
  "holds k contents mode s \<longleftrightarrow> (\<exists>g. node_at s k = Some (Reg g) \<and> f_contents g = contents \<and> f_mode g = mode)"

abbreviation old :: "key \<Rightarrow> regular \<Rightarrow> osys \<Rightarrow> bool" where
  "old target f s \<equiv> node_at s target = Some (Reg f)"

lemma stage_triple:
  assumes "temp \<noteq> candidate" "temp \<noteq> target" "temp \<noteq> previous"
  shows "triple (\<lambda>s. untouched target previous f s \<and> node_at s candidate = Some (Reg c)) (stage lead temp candidate mode)
    (\<lambda>_ s. untouched target previous f s \<and> staged temp (f_contents c) mode s) (\<lambda>_. old target f)"
proof -
  let ?A = "\<lambda>s. untouched target previous f s \<and> node_at s candidate = Some (Reg c)"
  let ?E = "\<lambda>b s. ?A s \<and> (\<exists>g. owned s temp g \<and> f_contents g = b)"
  let ?S = "\<lambda>s. untouched target previous f s \<and> staged temp (f_contents c) mode s" and ?B = "old target f"
  have q: "quiet ?A" "\<And>b. quiet (?E b)" "quiet ?S" "quiet ?B"
    by (rule quiet_nodes; simp add: untouched_def staged_def inodes_below_def unlinked_def owned_def)+
  have b: "\<And>s. untouched target previous f s \<Longrightarrow> ?B s" by (simp add: untouched_def)
  have frame: "untouched target previous f (on_inode (f_ino g) u s)" "node_at s candidate = node_at (on_inode (f_ino g) u s) candidate"
    if "untouched target previous f s" "owned s temp g" "\<And>h. f_ino (u h) = f_ino h" for s g u
    using that assms owned_others [OF that(2)] by (simp_all add: untouched_def unlinked_def del: node_at_on_inode)
  have 1: "triple ?A (in_step (lit ''stage'') (sys_create temp temp 0x180)) (\<lambda>_. ?E []) (\<lambda>_. ?B)"
  proof (intro triple_in_step triple_create)
    fix s and g :: regular
    assume a: "?A s" "f_contents g = []" "f_ino g = os_next_ino s"
    then have "inodes_below s" by (simp add: untouched_def)
    note new = fresh_owned [OF this a(3), of temp]
    from a new(2) assms have "?A (put_node temp (Reg g) (s\<lparr>os_next_ino := Suc (os_next_ino s)\<rparr>))" by (auto simp: untouched_def unlinked_def)
    then show "?E [] (put_node temp (Reg g) (s\<lparr>os_next_ino := Suc (os_next_ino s)\<rparr>))" using new(1) a(2) by blast
  qed (use q b in auto)
  have 2: "triple (?E []) (in_step (lit ''read'') (open_read lead candidate)) (\<lambda>x s. ?E [] s \<and> x = candidate) (\<lambda>_. ?B)"
    unfolding open_read_def
    by (intro triple_in_step triple_andthen [OF triple_call]) (use q b in \<open>auto simp: triple_def followed_def\<close>)
  have 3: "triple (\<lambda>s. ?E [] s \<and> x = candidate) (in_step (lit ''copy'') (copy_bytes x temp)) (\<lambda>_. ?E (f_contents c)) (\<lambda>_. ?B)" for x
  proof (intro triple_in_step triple_copy_bytes)
    fix s a and g :: regular and n
    assume h: "?E [] s \<and> x = candidate" "node_at s x = Some (Reg a)" "node_at s temp = Some (Reg g)"
    then have o: "owned s temp g" "f_contents g = []" "a = c" by (auto simp: owned_def)
    let ?s = "\<lambda>w. on_inode (f_ino g) (\<lambda>h. h\<lparr>f_contents := f_contents h @ w\<rparr>) s"
    have keep: "?A (?s w)" "owned (?s w) temp (g\<lparr>f_contents := f_contents g @ w\<rparr>)" for w
      using frame [of s g "\<lambda>h. h\<lparr>f_contents := f_contents h @ w\<rparr>"] owned_change [OF o(1), of "\<lambda>h. h\<lparr>f_contents := f_contents h @ w\<rparr>"] h(1) o(1)
      by (auto simp del: node_at_on_inode)
    show "?B (?s (take n (f_contents a)))" using keep(1) b by blast
    show "?E (f_contents c) (?s (f_contents a))" using keep [of "f_contents a"] o(2,3) by (auto simp del: node_at_on_inode)
  qed (use q b in \<open>auto simp: quiet_def\<close>)
  have 4: "triple (?E (f_contents c)) (in_step (lit ''mode'') (set_mode temp mode)) (\<lambda>_. ?S) (\<lambda>_. ?B)"
    unfolding set_mode_def
  proof (intro triple_in_step triple_inode_call)
    fix s g assume h: "?E (f_contents c) s" "node_at s temp = Some (Reg g)"
    then have o: "owned s temp g" "f_contents g = f_contents c" by (auto simp: owned_def)
    show "?S (on_inode (f_ino g) (\<lambda>g. g\<lparr>f_mode := mode\<rparr>) s)"
      using frame(1) [of s g "\<lambda>g. g\<lparr>f_mode := mode\<rparr>"] owned_change [OF o(1), of "\<lambda>g. g\<lparr>f_mode := mode\<rparr>"] h(1) o
      unfolding staged_def by (intro conjI exI [of _ "g\<lparr>f_mode := mode\<rparr>"]) auto
  qed (use q b in auto)
  have 5: "triple ?S (in_step (lit ''sync'') (fsync temp)) (\<lambda>_. ?S) (\<lambda>_. ?B)"
    by (intro triple_in_step triple_fsync q(3)) (use b in auto)
  show ?thesis unfolding stage_def
    by (intro triple_andthen [OF 1] triple_guarded triple_andthen [OF 2] triple_andthen [OF 3] triple_andthen [OF 4] 5 q(4))
      (use assms in auto)
qed

section \<open>Keeping the old binary\<close>

text \<open>The target and the staged file stand, and \<^verbatim>\<open>.prev\<close> is a file of its own with these contents.\<close>

definition kept_aside :: "key \<Rightarrow> key \<Rightarrow> key \<Rightarrow> regular \<Rightarrow> bytes \<Rightarrow> nat \<Rightarrow> bytes \<Rightarrow> osys \<Rightarrow> bool" where
  "kept_aside temp target previous f new mode b s \<longleftrightarrow> old target f s \<and> staged temp new mode s
     \<and> (\<exists>p. node_at s previous = Some (Reg p) \<and> f_ino p \<noteq> f_ino f \<and> f_contents p = b)"

lemma owned_apart: "owned s k g \<Longrightarrow> j \<noteq> f_ino g \<Longrightarrow> (\<And>h. f_ino (u h) = f_ino h) \<Longrightarrow> owned (on_inode j u s) k g"
  by (auto simp: owned_def node_on_Reg)

lemma staged_apart:
  assumes "staged temp new mode s" and "node_at s k = Some (Reg p)" "k \<noteq> temp" and "\<And>h. f_ino (u h) = f_ino h"
  shows "staged temp new mode (on_inode (f_ino p) u s)"
proof -
  obtain g where g: "owned s temp g" "f_contents g = new" "f_mode g = mode" using assms(1) by (auto simp: staged_def)
  then have "f_ino p \<noteq> f_ino g" using assms(2,3) by (auto simp: owned_def)
  then show ?thesis using owned_apart [OF g(1) _ assms(4)] g unfolding staged_def by blast
qed

lemma staged_put: "staged temp new mode s \<Longrightarrow> inodes_below s \<Longrightarrow> k \<noteq> temp \<Longrightarrow> f_ino g = os_next_ino s
    \<Longrightarrow> staged temp new mode (put_node k (Reg g) (s\<lparr>os_next_ino := n\<rparr>))"
  unfolding staged_def owned_def inodes_below_def by (auto split: if_splits) (metis nat_neq_iff)

lemma staged_link: "staged temp new mode s \<Longrightarrow> k \<noteq> temp \<Longrightarrow> target \<noteq> temp \<Longrightarrow> node_at s target = Some (Reg f)
    \<Longrightarrow> staged temp new mode (put_node k (Reg f) s)"
  unfolding staged_def owned_def by auto

lemma staged_del: "staged temp new mode s \<Longrightarrow> k \<noteq> temp \<Longrightarrow> staged temp new mode (del_node k s)"
  unfolding staged_def owned_def by auto

lemma kept_aside_change:
  assumes "kept_aside temp target previous f new mode b s" "node_at s previous = Some (Reg p)" "previous \<noteq> temp"
    and "\<And>h. f_ino (u h) = f_ino h"
  shows "kept_aside temp target previous f new mode (f_contents (u p)) (on_inode (f_ino p) u s)"
  using assms staged_apart [OF _ assms(2,3,4)] by (auto simp: kept_aside_def)

lemmas swap_states = untouched_def inodes_below_def unlinked_def kept_aside_def staged_def owned_def holds_def

lemma fs_copy_triple:
  assumes "temp \<noteq> target" "temp \<noteq> previous" "previous \<noteq> target"
  shows "triple (\<lambda>s. untouched target previous f s \<and> staged temp new mode s) (fs_copy lead target previous)
    (\<lambda>_. kept_aside temp target previous f new mode (f_contents f)) (\<lambda>_. old target f)"
proof -
  let ?P = "\<lambda>s. untouched target previous f s \<and> staged temp new mode s"
  let ?K = "kept_aside temp target previous f new mode" and ?B = "old target f"
  have q: "quiet ?P" "\<And>b. quiet (?K b)" by (rule quiet_nodes; simp add: swap_states)+
  have b: "\<And>s. ?P s \<Longrightarrow> ?B s" "\<And>x s. ?K x s \<Longrightarrow> ?B s" by (simp_all add: untouched_def kept_aside_def)
  have 1: "triple ?P (open_read lead target) (\<lambda>x s. ?P s \<and> x = target) (\<lambda>_. ?B)"
    unfolding open_read_def by (intro triple_andthen [OF triple_call]) (use q b in \<open>auto simp: triple_def followed_def untouched_def\<close>)
  have 2: "triple (\<lambda>s. ?P s \<and> x = target) (reads (mode_at x)) (\<lambda>_ s. ?P s \<and> x = target) (\<lambda>_. ?B)" for x
    by (simp add: triple_def reads_def)
  have 3: "triple (\<lambda>s. ?P s \<and> x = target) (open_truncate lead previous m) (\<lambda>y s. ?K [] s \<and> x = target \<and> y = previous) (\<lambda>_. ?B)" for x m
  proof (rule triple_open_truncate)
    fix s and g :: regular
    assume p: "?P s \<and> x = target"
    note files = p [unfolded untouched_def unlinked_def]
    show "node_at s previous \<noteq> Some Symlink" using files by auto
    show "?K [] (on_inode (f_ino g) (\<lambda>h. h\<lparr>f_contents := []\<rparr>) s) \<and> x = target \<and> previous = previous" if "node_at s previous = Some (Reg g)"
      using files that assms staged_apart [of temp new mode s previous g] by (auto simp: kept_aside_def)
    show "?K [] (put_node previous (Reg g) (s\<lparr>os_next_ino := Suc (os_next_ino s)\<rparr>)) \<and> x = target \<and> previous = previous"
      if "f_contents g = []" "f_ino g = os_next_ino s"
    proof -
      have "f_ino f < os_next_ino s" using files by (auto simp: inodes_below_def)
      then show ?thesis using files that assms staged_put [of temp new mode s previous g] by (auto simp: kept_aside_def)
    qed
  qed (use q b in \<open>auto simp: quiet_def\<close>)
  have 4: "triple (\<lambda>s. ?K [] s \<and> x = target \<and> y = previous) (set_mode y m) (\<lambda>_ s. ?K [] s \<and> x = target \<and> y = previous) (\<lambda>_. ?B)" for x y m
    unfolding set_mode_def
    by (rule triple_inode_call)
      (use q b assms kept_aside_change [where u = "\<lambda>g. g\<lparr>f_mode := m\<rparr>" and b = "[]"] in \<open>auto simp: quiet_def kept_aside_def\<close>)
  have 5: "triple (\<lambda>s. ?K [] s \<and> x = target \<and> y = previous) (copy_bytes x y) (\<lambda>_. ?K (f_contents f)) (\<lambda>_. ?B)" for x y
  proof (rule triple_copy_bytes)
    fix s a p n assume h: "?K [] s \<and> x = target \<and> y = previous" "node_at s x = Some (Reg a)" "node_at s y = Some (Reg p)"
    let ?s = "\<lambda>w. on_inode (f_ino p) (\<lambda>h. h\<lparr>f_contents := f_contents h @ w\<rparr>) s"
    have a: "a = f" "f_contents p = []" using h by (auto simp: kept_aside_def)
    have k: "?K w (?s w)" for w
      using kept_aside_change [of temp target previous f new mode "[]" s p "\<lambda>h. h\<lparr>f_contents := f_contents h @ w\<rparr>"] h a assms by auto
    show "?B (?s (take n (f_contents a)))" using k b(2) by blast
    show "?K (f_contents f) (?s (f_contents a))" using k a(1) by simp
  qed (use q b in \<open>auto simp: quiet_def\<close>)
  show ?thesis unfolding fs_copy_def
    by (intro triple_andthen [OF 1] triple_andthen [OF 2] triple_andthen [OF 3] triple_andthen [OF 4] 5)
qed

lemma triple_or_else:
  assumes "triple P a (\<lambda>_. Q) (\<lambda>_. P)" and "triple P b (\<lambda>_. Q) (\<lambda>_. B)" and "\<And>s. P s \<Longrightarrow> B s"
  shows "triple P (\<lambda>s. case a s of (Inr _, s') \<Rightarrow> (Inr (), s') | (Inl Killed, s') \<Rightarrow> (Inl Killed, s') | (Inl (Failed _), s') \<Rightarrow> b s')
    (\<lambda>_. Q) (\<lambda>_. B)"
  unfolding triple_def
proof (intro allI impI)
  fix s assume p: "P s"
  obtain r t where a: "a s = (r, t)" by force
  show "case (case a s of (Inr _, s') \<Rightarrow> (Inr (), s') | (Inl Killed, s') \<Rightarrow> (Inl Killed, s') | (Inl (Failed _), s') \<Rightarrow> b s') of
      (Inr x, s') \<Rightarrow> Q s' | (Inl e, s') \<Rightarrow> B s'"
    using tripleD [OF assms(1) p] a assms(3) assms(2) [unfolded triple_def]
    by (cases r rule: sum.exhaust; cases "projl r") auto
qed

text \<open>What a hard link or a copy leaves: the target and the staged file as they were, and the old bytes at \<^verbatim>\<open>.prev\<close>.\<close>

definition backed :: "key \<Rightarrow> key \<Rightarrow> key \<Rightarrow> regular \<Rightarrow> bytes \<Rightarrow> nat \<Rightarrow> osys \<Rightarrow> bool" where
  "backed temp target previous f new mode s \<longleftrightarrow> old target f s \<and> staged temp new mode s
     \<and> (\<exists>p. node_at s previous = Some (Reg p) \<and> f_contents p = f_contents f)"

lemma keep_previous_triple:
  assumes "temp \<noteq> target" "temp \<noteq> previous" "previous \<noteq> target"
  shows "triple (\<lambda>s. untouched target previous f s \<and> staged temp new mode s) (keep_previous lead target previous)
    (\<lambda>_. backed temp target previous f new mode) (\<lambda>_. old target f)"
proof -
  let ?P = "\<lambda>s. untouched target previous f s \<and> staged temp new mode s" and ?D = "backed temp target previous f new mode"
  have q: "quiet ?P" by (rule quiet_nodes) (simp add: swap_states)
  have b: "\<And>s. ?P s \<Longrightarrow> old target f s" by (simp add: untouched_def)
  have "?P (del_node previous s)" if "?P s" for s
    using that assms staged_del [of temp new mode s previous] by (auto simp: untouched_def inodes_below_def unlinked_def)
  then have 1: "triple ?P (remove_best_effort previous) (\<lambda>_. ?P) (\<lambda>_. ?P)" by (intro triple_remove q)
  have "?D (put_node previous (Reg f) s)" if "?P s" for s
    using that assms staged_link [of temp new mode s previous target f] by (auto simp: untouched_def backed_def)
  then have 2: "triple ?P (hard_link target previous) (\<lambda>_. ?D) (\<lambda>_. ?P)"
    unfolding hard_link_def by (intro triple_andthen [OF triple_call]) (use q in \<open>auto simp: triple_def untouched_def\<close>)
  have 3: "triple ?P (in_step (lit ''keep'') (fs_copy lead target previous)) (\<lambda>_. ?D) (\<lambda>_. old target f)"
    by (intro triple_in_step triple_conseq [OF fs_copy_triple [OF assms, of f new mode lead]]) (auto simp: kept_aside_def backed_def)
  show ?thesis unfolding keep_previous_def
    by (rule triple_andthen [OF triple_conseq [OF 1] triple_or_else [OF 2 3 b]]) (use b in auto)
qed

lemma touches_in_step [touch]: "touches X m \<Longrightarrow> touches X (in_step step m)"
  unfolding touches_def in_step_def by (auto split: prod.splits sum.splits stop.splits atomic_error.splits) (metis snd_conv)+

lemma sync_directory_nodes:
  assumes "sync_directory p s = (r, s')"
  shows "node_at s' = node_at s" "r = Inl (Failed e) \<Longrightarrow> \<exists>q x. e = AeIo (lit ''sync-dir'') q x"
proof -
  have t: "touches {} (sync_directory p)" unfolding sync_directory_def by (intro touch)
  show "node_at s' = node_at s" using touchesD [OF t assms] by auto
  let ?m = "andthen (open_dir (directory_of p)) (\<lambda>_. fsync (directory_of p))"
  have tr: "triple (\<lambda>_. True) ?m (\<lambda>_ _. True) (\<lambda>e _. e = Killed \<or> (\<exists>op q x. e = Failed (AeIo op q x)))"
    unfolding open_dir_def fsync_def
    by (intro triple_andthen [where Q = "\<lambda>_ _. True"] triple_syscall) (auto simp: quiet_def triple_def)
  show "\<exists>q x. e = AeIo (lit ''sync-dir'') q x" if r: "r = Inl (Failed e)"
  proof (cases "?m s")
    case (Pair q s1)
    show ?thesis
    proof (cases q)
      case (Inl a)
      from tripleD(2) [OF tr TrueI Pair [unfolded Inl]] show ?thesis
        using assms r Pair Inl by (auto simp: sync_directory_def in_step_def)
    next
      case (Inr u)
      then show ?thesis using assms r Pair by (simp add: sync_directory_def in_step_def)
    qed
  qed
qed

section \<open>The swap is atomic\<close>

text \<open>The new binary is in place and the old bytes are beside it, in another file.\<close>

definition swapped :: "key \<Rightarrow> key \<Rightarrow> regular \<Rightarrow> bytes \<Rightarrow> nat \<Rightarrow> osys \<Rightarrow> bool" where
  "swapped target previous f new mode s \<longleftrightarrow> (\<exists>g p. node_at s target = Some (Reg g) \<and> f_contents g = new \<and> f_mode g = mode
     \<and> node_at s previous = Some (Reg p) \<and> f_contents p = f_contents f \<and> f_ino p \<noteq> f_ino g)"

lemma swapped_holds: "swapped target previous f new mode s \<Longrightarrow> holds target new mode s"
  by (auto simp: swapped_def holds_def)

lemma persist_triple:
  assumes "temp \<noteq> target" "temp \<noteq> previous" "previous \<noteq> target"
  shows "triple (backed temp target previous f new mode) (persist temp target)
    (\<lambda>_. swapped target previous f new mode) (\<lambda>_. old target f)"
  unfolding persist_def
proof (intro triple_guarded triple_in_step triple_rename_file)
  fix s n assume a: "backed temp target previous f new mode s"
  then obtain g p where g: "owned s temp g" "f_contents g = new" "f_mode g = mode" "node_at s target = Some (Reg f)"
      "node_at s previous = Some (Reg p)" "f_contents p = f_contents f" by (auto simp: backed_def staged_def)
  then have i: "f_ino f \<noteq> f_ino g" "f_ino p \<noteq> f_ino g" "node_at s temp = Some (Reg g)" using assms by (auto simp: owned_def)
  then show "\<exists>g h. node_at s temp = Some (Reg g) \<and> node_at s target = Some (Reg h) \<and> f_ino g \<noteq> f_ino h" using g(4) by metis
  show "swapped target previous f new mode (put_node target n (del_node temp s))" if "node_at s temp = Some n"
    using that g i assms by (auto simp: swapped_def)
qed (use assms in \<open>auto simp: backed_def quiet_def staged_def owned_def\<close>)

text \<open>How a swap that did not answer leaves the target, by the way it stopped.\<close>

definition broken_off :: "key \<Rightarrow> regular \<Rightarrow> bytes \<Rightarrow> nat \<Rightarrow> stop \<Rightarrow> osys \<Rightarrow> bool" where
  "broken_off target f new mode e s \<longleftrightarrow> old target f s
     \<or> holds target new mode s \<and> (e = Killed \<or> (\<exists>q x. e = Failed (AeIo (lit ''sync-dir'') q x)))"

lemma sync_directory_triple:
  "triple (swapped target previous f new mode) (sync_directory p) (\<lambda>_. swapped target previous f new mode) (broken_off target f new mode)"
  unfolding triple_def
proof (intro allI impI)
  fix s assume a: "swapped target previous f new mode s"
  obtain r t where r: "sync_directory p s = (r, t)" by force
  have "swapped target previous f new mode t" using a sync_directory_nodes(1) [OF r] by (simp add: swapped_def)
  then show "case sync_directory p s of (Inr x, s') \<Rightarrow> swapped target previous f new mode s' | (Inl e, s') \<Rightarrow> broken_off target f new mode e s'"
    using sync_directory_nodes(2) [OF r] swapped_holds r by (cases r; cases "projl r") (auto simp: broken_off_def)
qed

lemma swap_kept_triple:
  assumes "temp \<noteq> target" "temp \<noteq> previous" "previous \<noteq> target"
  shows "triple (\<lambda>s. untouched target previous f s \<and> staged temp new mode s) (swap_kept lead temp target previous)
    (\<lambda>_. swapped target previous f new mode) (broken_off target f new mode)"
proof -
  have off: "old target f s \<Longrightarrow> broken_off target f new mode e s" for e s by (simp add: broken_off_def)
  have "triple (\<lambda>s. untouched target previous f s \<and> staged temp new mode s) (guarded temp (keep_previous lead target previous))
      (\<lambda>_. backed temp target previous f new mode) (\<lambda>_. old target f)"
    by (rule triple_guarded [OF keep_previous_triple [OF assms]]) (use assms in \<open>auto simp: quiet_def\<close>)
  then have 1: "triple (\<lambda>s. untouched target previous f s \<and> staged temp new mode s) (guarded temp (keep_previous lead target previous))
      (\<lambda>_. backed temp target previous f new mode) (broken_off target f new mode)"
    by (rule triple_conseq) (auto intro: off)
  have 2: "triple (backed temp target previous f new mode) (persist temp target) (\<lambda>_. swapped target previous f new mode)
      (broken_off target f new mode)"
    by (rule triple_conseq [OF persist_triple [OF assms]]) (auto intro: off)
  show ?thesis unfolding swap_kept_def by (rule triple_andthen [OF 1 triple_andthen [OF 2 sync_directory_triple]])
qed

lemma triple_killed:
  assumes "triple P m Q (\<lambda>_. B)" and "\<And>s t a. m s = (Inl a, t) \<Longrightarrow> a = Killed" and "\<And>s. B s \<Longrightarrow> R Killed s"
  shows "triple P m Q R"
  unfolding triple_def
proof (intro allI impI)
  fix s assume p: "P s"
  obtain r t where m: "m s = (r, t)" by force
  show "case m s of (Inr x, s') \<Rightarrow> Q x s' | (Inl e, s') \<Rightarrow> R e s'"
    using tripleD [OF assms(1) p] assms(2) [of s] assms(3) m by (cases r) auto
qed

lemma triple_on_failure:
  assumes "triple P m (\<lambda>_ s. Q x s) R" and "\<And>e. triple (R (Failed e)) (h e) Q R"
  shows "triple P (\<lambda>s. case m s of (Inr _, s') \<Rightarrow> (Inr x, s') | (Inl Killed, s') \<Rightarrow> (Inl Killed, s') | (Inl (Failed e), s') \<Rightarrow> h e s') Q R"
  unfolding triple_def
proof (intro allI impI)
  fix s assume p: "P s"
  obtain r t where m: "m s = (r, t)" by force
  show "case (case m s of (Inr _, s') \<Rightarrow> (Inr x, s') | (Inl Killed, s') \<Rightarrow> (Inl Killed, s') | (Inl (Failed e), s') \<Rightarrow> h e s') of
      (Inr x, s') \<Rightarrow> Q x s' | (Inl e, s') \<Rightarrow> R e s'"
  proof (cases r)
    case (Inl e)
    then have "R e t" using tripleD(2) [OF assms(1) p] m by blast
    then show ?thesis using m Inl assms(2) by (cases e) (auto simp: triple_def)
  qed (use tripleD(1) [OF assms(1) p] m in auto)
qed

lemma take_back_triple:
  assumes "previous \<noteq> target"
  shows "triple (broken_off target f new mode (Failed e)) (andthen (remove_best_effort previous) (\<lambda>_. stop_with e))
    Q (broken_off target f new mode)"
proof -
  let ?B = "broken_off target f new mode (Failed e)"
  have "triple ?B (remove_best_effort previous) (\<lambda>_. ?B) (\<lambda>_. ?B)"
    by (rule triple_remove) (use assms in \<open>auto simp: broken_off_def quiet_def holds_def\<close>)
  moreover have "a = Killed" if "remove_best_effort previous s = (Inl a, t)" for s t a
    using that by (auto simp: remove_best_effort_def best_effort_def split: prod.splits sum.splits stop.splits)
  moreover have "broken_off target f new mode Killed s" if "?B s" for s using that by (auto simp: broken_off_def)
  ultimately have "triple ?B (remove_best_effort previous) (\<lambda>_. ?B) (broken_off target f new mode)" by (rule triple_killed)
  then show ?thesis by (rule triple_andthen) (auto simp: triple_def stop_with_def)
qed

lemma swap_triple:
  assumes names: "previous_path target = Inr previous" "temp \<noteq> target" "temp \<noteq> candidate" "temp \<noteq> previous"
  shows "triple (\<lambda>s. untouched target previous f s \<and> node_at s candidate = Some (Reg c)) (swap lead temp candidate target)
    (\<lambda>i s. i = \<lparr>in_target = target, in_previous = previous\<rparr> \<and> swapped target previous f (f_contents c) (f_mode f) s)
    (broken_off target f (f_contents c) (f_mode f))"
  unfolding triple_def
proof (intro allI impI)
  let ?P = "\<lambda>s. untouched target previous f s \<and> node_at s candidate = Some (Reg c)"
  let ?Q = "\<lambda>i s. i = \<lparr>in_target = target, in_previous = previous\<rparr> \<and> swapped target previous f (f_contents c) (f_mode f) s"
  let ?B = "broken_off target f (f_contents c) (f_mode f)"
  fix s assume p: "?P s"
  note other = previous_path_other [OF names(1)]
  have off: "old target f s \<Longrightarrow> ?B e s" for e s by (simp add: broken_off_def)
  let ?fin = "\<lambda>_ s2. case swap_kept lead temp target previous s2 of
      (Inr _, s3) \<Rightarrow> (Inr \<lparr>in_target = target, in_previous = previous\<rparr>, s3) | (Inl Killed, s3) \<Rightarrow> (Inl Killed, s3)
    | (Inl (Failed e), s3) \<Rightarrow> andthen (remove_best_effort previous) (\<lambda>_. stop_with e) s3"
  have last: "triple (\<lambda>s. untouched target previous f s \<and> staged temp (f_contents c) (f_mode f) s) (?fin u) ?Q ?B" for u :: unit
    by (rule triple_on_failure [OF triple_conseq [OF swap_kept_triple [OF names(2,4) other]] take_back_triple [OF other]]) auto
  have rest: "triple ?P (andthen (stage lead temp candidate (f_mode f)) ?fin) ?Q ?B"
    by (rule triple_andthen [OF triple_conseq [OF stage_triple [OF names(3,2,4)]] last]) (auto intro: off)
  obtain r s1 where r: "syscall (lit ''lstat'') target s = (r, s1)" by force
  have pre: "triple ?P (syscall (lit ''lstat'') target) (\<lambda>_. ?P) (\<lambda>_. ?P)"
    by (rule triple_call) (auto intro: quiet_nodes simp: swap_states)
  have p1: "?P s1" using tripleD [OF pre p] r by (cases r) metis+
  then have t: "node_at s1 target = Some (Reg f)" by (simp add: untouched_def)
  show "case swap lead temp candidate target s of (Inr i, s') \<Rightarrow> ?Q i s' | (Inl e, s') \<Rightarrow> ?B e s'"
  proof (cases r)
    case (Inl e)
    then show ?thesis using r off [OF t] by (cases e) (simp_all add: swap_def)
  next
    case (Inr u)
    then have "swap lead temp candidate target s = andthen (stage lead temp candidate (f_mode f)) ?fin s1"
      using r t names(1) by (simp add: swap_def andthen_def lift_def)
    then show ?thesis using rest p1 by (simp only: triple_def)
  qed
qed

text \<open>C8. The swap replaces the binary atomically. Let the target be a regular file and the candidate another, under a temporary name
  that is none of the three, and let \<^verbatim>\<open><target>.prev\<close> be absent or a regular file that is not a hard link of the target; a new file gets an inode number that is not in use. However the
  swap stops (done, failed at any call, or killed at any call), the target is untouched or it is the candidate's bytes, complete, with
  the mode of the binary it replaces. When the swap answers, the target is the candidate and \<^verbatim>\<open><target>.prev\<close> has the old bytes.
  When it reports an error, the target is untouched unless the one thing that failed was the flush of the directory after the
  rename. (A \<^verbatim>\<open>.prev\<close> that a killed swap left as a hard link of the target is what \<open>relinked_swap_truncates\<close> is about.)\<close>

theorem swap_atomic:
  assumes "swap lead temp candidate target s = (r, s')"
    and "node_at s target = Some (Reg f)" "node_at s candidate = Some (Reg c)"
    and "previous_path target = Inr previous" "temp \<noteq> target" "temp \<noteq> candidate" "temp \<noteq> previous"
    and "inodes_below s" "unlinked s previous (f_ino f)"
  shows "(node_at s' target = Some (Reg f) \<or> holds target (f_contents c) (f_mode f) s')
    \<and> (\<forall>i. r = Inr i \<longrightarrow> i = \<lparr>in_target = target, in_previous = previous\<rparr> \<and> holds target (f_contents c) (f_mode f) s'
          \<and> contents_at s' previous = Some (f_contents f))
    \<and> (\<forall>e. r = Inl (Failed e) \<longrightarrow> node_at s' target = Some (Reg f) \<or> (\<exists>q x. e = AeIo (lit ''sync-dir'') q x))"
proof -
  have p: "untouched target previous f s \<and> node_at s candidate = Some (Reg c)" using assms by (simp add: untouched_def)
  note stops = tripleD [OF swap_triple [OF assms(4-7), of f c lead] p]
  show ?thesis
  proof (cases r)
    case (Inr i)
    then have "i = \<lparr>in_target = target, in_previous = previous\<rparr>" "swapped target previous f (f_contents c) (f_mode f) s'"
      using stops(1) assms(1) by blast+
    then show ?thesis using Inr by (auto simp: swapped_def holds_def contents_at_def)
  next
    case (Inl e)
    then have "broken_off target f (f_contents c) (f_mode f) e s'" using stops(2) assms(1) by blast
    then show ?thesis using Inl by (auto simp: broken_off_def)
  qed
qed

text \<open>A rollback undoes a swap. After a swap that answered, a rollback that stops anywhere (done, failed or killed) leaves the
  target whole: the new binary, or the old bytes again. One that answers has put the old bytes back, and the kept file is gone.\<close>

theorem rollback_restores:
  assumes "swap lead temp candidate target s = (Inr i, s')" and "rollback i s' = (r, s'')"
    and "node_at s target = Some (Reg f)" "node_at s candidate = Some (Reg c)"
    and "previous_path target = Inr previous" "temp \<noteq> target" "temp \<noteq> candidate" "temp \<noteq> previous"
    and "inodes_below s" "unlinked s previous (f_ino f)"
  shows "(contents_at s'' target = Some (f_contents f) \<or> contents_at s'' target = Some (f_contents c))
    \<and> (r = Inr () \<longrightarrow> contents_at s'' target = Some (f_contents f) \<and> node_at s'' previous = None)"
proof -
  have p: "untouched target previous f s \<and> node_at s candidate = Some (Reg c)" using assms by (simp add: untouched_def)
  note swapped = tripleD(1) [OF swap_triple [OF assms(5-8), of f c lead] p assms(1)]
  let ?S = "swapped target previous f (f_contents c) (f_mode f)"
  let ?R = "\<lambda>s. contents_at s target = Some (f_contents f) \<and> node_at s previous = None"
  let ?E = "\<lambda>s. contents_at s target = Some (f_contents f) \<or> contents_at s target = Some (f_contents c)"
  have "triple ?S (in_step (lit ''rollback'') (rename_file previous target)) (\<lambda>_. ?R) (\<lambda>_. ?E)"
    by (intro triple_in_step triple_rename_file)
      (use previous_path_other [OF assms(5)] in \<open>auto simp: swapped_def quiet_def contents_at_def\<close>)
  moreover have "triple ?R (sync_directory target) (\<lambda>_. ?R) (\<lambda>_. ?E)"
    unfolding triple_def by (auto simp: contents_at_def dest: sync_directory_nodes(1) split: prod.splits sum.splits)
  ultimately have "triple ?S (rollback i) (\<lambda>_. ?R) (\<lambda>_. ?E)"
    using swapped unfolding rollback_def by (auto intro: triple_andthen)
  from tripleD [OF this conjunct2 [OF swapped]] show ?thesis using assms(2) by (cases r) auto
qed

section \<open>A swap on a concrete system\<close>

definition bin_file :: "nat \<Rightarrow> bytes \<Rightarrow> nat \<Rightarrow> regular" where
  "bin_file ino b mode = \<lparr>f_contents = b, f_mode = mode, f_uid = 0, f_gid = 0, f_ino = ino, f_xattrs = [], f_mtime = 0\<rparr>"

definition bin_key :: "string \<Rightarrow> key" where
  "bin_key name = [RootDir, Normal (lit ''usr''), Normal (lit name)]"

definition bin_os :: "sysevent list \<Rightarrow> osys" where
  "bin_os script = \<lparr>os_files = [(bin_key ''detent'', Reg (bin_file 1 [1, 2] 0x1ED)), (bin_key ''detent.prev'', Reg (bin_file 2 [0] 0x1ED)),
       (bin_key ''candidate'', Reg (bin_file 3 [7, 8, 9] 0x180))],
     os_dirs = [[RootDir, Normal (lit ''usr'')]], os_frozen = [], os_euid = 0, os_egid = 0, os_next_ino = 5,
     os_clock = (\<lambda>_. 0), os_ticks = 0, os_token = (\<lambda>_ a. [a]), os_script = script\<rparr>"

definition bin_swap :: "string \<Rightarrow> osys \<Rightarrow> (stop, installed) result \<times> osys" where
  "bin_swap temp = swap id (bin_key temp) (bin_key ''candidate'') (bin_key ''detent'')"

lemma bin_ready:
  "node_at (bin_os script) (bin_key ''detent'') = Some (Reg (bin_file 1 [1, 2] 0x1ED))"
  "node_at (bin_os script) (bin_key ''candidate'') = Some (Reg (bin_file 3 [7, 8, 9] 0x180))"
  "previous_path (bin_key ''detent'') = Inr (bin_key ''detent.prev'')"
  "bin_key ''tmp'' \<noteq> bin_key ''detent''" "bin_key ''tmp'' \<noteq> bin_key ''candidate''" "bin_key ''tmp'' \<noteq> bin_key ''detent.prev''"
  by (simp_all add: node_at_def bin_os_def bin_key_def previous_path_def PREVIOUS_SUFFIX_def lit_def)

lemma bin_unlinked: "inodes_below (bin_os script)" "unlinked (bin_os script) (bin_key ''detent.prev'') (f_ino (bin_file 1 [1, 2] 0x1ED))"
  by (auto simp: inodes_below_def unlinked_def node_at_def bin_os_def bin_key_def bin_file_def lit_def split: if_splits)

lemma bin_swapped:
  "fst (bin_swap ''tmp'' (bin_os [])) = Inr \<lparr>in_target = bin_key ''detent'', in_previous = bin_key ''detent.prev''\<rparr>"
  by code_simp

theorem swap_atomic_witness:
  "contents_at (snd (bin_swap ''tmp'' (bin_os []))) (bin_key ''detent'') = Some [7, 8, 9]
    \<and> contents_at (snd (bin_swap ''tmp'' (bin_os []))) (bin_key ''detent.prev'') = Some [1, 2]"
proof -
  obtain s' where run: "swap id (bin_key ''tmp'') (bin_key ''candidate'') (bin_key ''detent'') (bin_os [])
      = (Inr \<lparr>in_target = bin_key ''detent'', in_previous = bin_key ''detent.prev''\<rparr>, s')"
    using bin_swapped unfolding bin_swap_def by (metis prod.collapse)
  show ?thesis using swap_atomic [OF run bin_ready bin_unlinked] run by (auto simp: bin_swap_def holds_def contents_at_def bin_file_def)
qed

theorem rollback_restores_witness:
  "contents_at (snd (rollback \<lparr>in_target = bin_key ''detent'', in_previous = bin_key ''detent.prev''\<rparr> (snd (bin_swap ''tmp'' (bin_os [])))))
     (bin_key ''detent'') = Some [1, 2]"
proof -
  let ?i = "\<lparr>in_target = bin_key ''detent'', in_previous = bin_key ''detent.prev''\<rparr>"
  obtain s' where run: "swap id (bin_key ''tmp'') (bin_key ''candidate'') (bin_key ''detent'') (bin_os []) = (Inr ?i, s')"
    using bin_swapped unfolding bin_swap_def by (metis prod.collapse)
  have "fst (rollback ?i (snd (bin_swap ''tmp'' (bin_os [])))) = Inr ()" by code_simp
  then obtain s'' where undone: "rollback ?i s' = (Inr (), s'')" using run by (metis bin_swap_def prod.collapse snd_conv)
  then show ?thesis using rollback_restores [OF run undone bin_ready bin_unlinked] run by (simp add: bin_swap_def bin_file_def)
qed

text \<open>Where the directory cannot be flushed after the rename, the swap answers an error although the target is already the new
  binary, and then removes the kept one: neither \<^verbatim>\<open>the target still holds the original binary\<close> nor a way back is left. (The tenth
  call of this run opens the directory, the eleventh flushes it.)\<close>

theorem unsynced_swap_loses_previous:
  "(case bin_swap ''tmp'' (bin_os (replicate 9 Fine @ [Fault 0 (EOTHER 5)])) of (r, s') \<Rightarrow>
      r = Inl (Failed (AeIo (lit ''sync-dir'') [RootDir, Normal (lit ''usr'')] (Hard (EOTHER 5))))
      \<and> contents_at s' (bin_key ''detent'') = Some [7, 8, 9] \<and> node_at s' (bin_key ''detent.prev'') = None)"
  by code_simp

text \<open>A swap killed before its rename leaves \<^verbatim>\<open>.prev\<close> as a hard link of the target. When the next swap cannot remove it, the copy it
  falls back to opens the same file twice: it truncates the running binary, and answers an error, or dies, with nothing left to run.
  The rule that any failure before the rename leaves the original binary in place does not hold there.\<close>

definition bin_relinked :: "sysevent list \<Rightarrow> osys" where
  "bin_relinked script = (snd (bin_swap ''tmp'' (bin_os (replicate 8 Fine @ [Kill 0]))))\<lparr>os_script := script\<rparr>"

theorem relinked_swap_truncates:
  "contents_at (bin_relinked script) (bin_key ''detent'') = Some [1, 2]
    \<and> contents_at (snd (bin_swap ''tmp2'' (bin_relinked (replicate 6 Fine @ [Fault 0 (EOTHER 1)] @ replicate 3 Fine @ [Kill 0])))) (bin_key ''detent'') = Some []"
  by code_simp

end
