(* ===== verification/Spec2Isabelle.thy ===== *)
theory Spec2Isabelle
  imports Hosts Unified_Diff Audit_Log Rate_Limit Token_Limit Coalesce Session_Trace Totp Write_Safety Engine_Compose Version_Gate Authentic Fetch_Client Install
begin

text \<open>
  \<^bold>\<open>The program.\<close> Detent administers the configuration files of a server. A worker process answers the administrator
  (web, command line, MCP); its operations engine plans and applies changes; a small privileged monitor is the only
  process that may write files and drive services. Worker and monitor talk over a socket in a closed protocol whose
  requests carry indices into tables that the monitor built itself. A change can be applied under a confirmation
  window: unless it is confirmed in time, the monitor restores the old file.

  \<^bold>\<open>Conventions.\<close> A string is the list of its code points (\<open>rstr\<close>), a byte string a list of numbers (\<open>bytes\<close>). An error
  is the left side of a sum (\<open>('e, 'a) result\<close>), a struct is a \<^verbatim>\<open>record\<close>, an enum a \<^verbatim>\<open>datatype\<close>; a field or constructor
  carries a short prefix of its type. Integers of the program that may overflow are kept at their width (\<open>word\<close>, or
  numbers with \<open>sat_add\<close>, \<open>mod\<close> or a range check where the code saturates, wraps or checks). Loops are structural
  recursion or come with a measure. Only the walk over a schema (\<open>collect\<close>) has fuel, two more than \<open>MAX_SCHEMA_DEPTH\<close>, and is shown
  never to run out of it. Where the code can panic (release verification), the answer is an option and \<open>None\<close> is the panic. Third-party code is a parameter: SHA-256,
  HMAC, JSON, postcard, semver, the clock and the formatting of times are fields of environment records
  (\<open>codec\<close>, \<open>fsenv\<close>, \<open>menv\<close>, \<open>engine_env\<close>, \<open>semver\<close>, \<open>wire\<close>, \<open>crypto_env\<close>, \<open>update_env\<close>), and what is relied on stands as a hypothesis where it is used.

  \<^bold>\<open>Shared theories.\<close> \<open>Prelude\<close> and \<open>Text_Ops\<close> hold results, strings, splitting and UTF-8 as Rust's standard library has
  them; \<open>Tables\<close> bounded keyed tables and the locales \<open>machine\<close> (an invariant of a step relation) and \<open>keyed_table\<close>
  (operations on one key leave the others alone).

  \<^bold>\<open>detent-core.\<close> \<open>Align\<close> is \<^verbatim>\<open>align.rs\<close>, the bounded shortest edit script: what it returns is an edit script and none is
  shorter. \<open>Document\<close> is the lossless line document of \<^verbatim>\<open>doc.rs\<close>, \<open>Entry_Edit\<close> its entry plans: parsing and rendering
  are inverse, every edit leaves a document that reads back as itself, and planning reaches the wanted entries and keeps
  every other line. \<open>Diag\<close>, \<open>Descriptor\<close>, \<open>Module_Sdk\<close> and \<open>Dyn_Module\<close> are diagnostics, descriptors and the module
  interface; the locales \<open>entry_format\<close> and \<open>conformant\<close> state what a line format and a module have to promise.
  \<open>Net_Addr\<close> and \<open>Hosts\<close> are the hosts module, which interprets both locales. \<open>Exec_Deny\<close> is the rule against new directives that
  run code, with the decoding of fstab fields: the rule is inclusion of multisets of directives. \<open>Version\<close> is
  \<^verbatim>\<open>version.rs\<close>: the order of versions, and the walk over a schema, which ends also when the schema refers to itself;
  \<open>Version_Gate\<close> follows a finding of that walk through the module interface to an apply that is refused.

  \<^bold>\<open>detent-platform.\<close> \<open>Syscalls\<close> is a file system with injected faults and deaths; \<open>Atomic_File\<close> is \<^verbatim>\<open>atomic.rs\<close> on it,
  \<open>Atomic_Write\<close> and \<open>Atomic_Total\<close> say what its operations touch and when they succeed. \<open>Proto\<close>, \<open>Transport\<close> and
  \<open>Allowlist\<close> are the protocol, its framing and the tables. \<open>Monitor\<close> is \<^verbatim>\<open>monitor.rs\<close>: every handler, the serving loop,
  rollback and recovery. \<open>Monitor_Frame\<close> shows that only the files of the allow-list and their backups change,
  \<open>Monitor_Commit\<close> that an unconfirmed change is undone, also by the next start, \<open>Commit_Refinement\<close> that the loop refines
  an abstract commit protocol with two states, \<open>Write_Safety\<close> that a write is old or new wherever it stops, or
  is undone by the next start. \<open>Client\<close> is the worker's side of the channel, \<^verbatim>\<open>worker.rs\<close>. \<open>Example_World\<close> has the concrete instances of the witnesses.

  \<^bold>\<open>detent-ops.\<close> \<open>Operations\<close> has identities, operations and policies, \<open>Unified_Diff\<close> the diff, \<open>Audit_Chain\<close> and \<open>Audit_Log\<close> the
  audit log with its hash chain, rotation and torn lines. \<open>Engine\<close> is \<^verbatim>\<open>engine.rs\<close> with \<^verbatim>\<open>error.rs\<close> and \<^verbatim>\<open>report.rs\<close>, over any peer
  of the client. \<open>Engine_Log\<close> is a logic for the requests a computation sends, \<open>Engine_Write\<close> shows what must be
  in the log before a write and which audit records surround an operation, \<open>Engine_Monitor\<close> that engine and monitor choose the same
  target. \<open>Peer_Monitor\<close> puts the serving loop of the monitor behind the client and \<open>Engine_Compose\<close> shows what a confirmed apply
  leaves of the whole system.

  \<^bold>\<open>detent-web.\<close> \<open>Auth_Error\<close>, \<open>Rate_Limit\<close>, \<open>Token_Limit\<close>, \<open>Coalesce\<close>, \<open>Session_Store\<close>, \<open>Session_Trace\<close>, \<open>Base32\<close> and \<open>Totp\<close>
  are the parts of authentication that keep state or decide: limits hold over every history, a session goes back to a login within its limits, sessions that ended
  stay ended, a one-time password is accepted once.

  \<^bold>\<open>detent-update.\<close> \<open>Bundle\<close> is \<^verbatim>\<open>bundle.rs\<close>, the signature bundle of a release. \<open>Der\<close> has the DER of \<^verbatim>\<open>verify.rs\<close> and \<^verbatim>\<open>tsa.rs\<close>: what is
  written is read back, and a precertificate is its certificate without one extension. \<open>Merkle\<close> is the inclusion proof, equal to the audit path of
  the hash tree of a log; \<open>Trust\<close> the trust material of \<^verbatim>\<open>trust.rs\<close>; \<open>Timestamp\<close> all of \<^verbatim>\<open>tsa.rs\<close>; \<open>Verify\<close> the ordered steps of
  \<^verbatim>\<open>verify.rs\<close>; \<open>Authentic\<close> says in terms of the bundle and the answers of the libraries what an accepted release is, and that its entry stands in a
  log, for logs that are honest about the notes they issued and a bundle without a forged signature. \<open>Update_Policy\<close> is the choice of a release (\<^verbatim>\<open>policy.rs\<close>, and the list of
  releases in \<^verbatim>\<open>fetch.rs\<close>), \<open>Update_Flow\<close> is \<^verbatim>\<open>update.rs\<close>: what is staged has passed every check. \<open>Fetch_Client\<close> is the download of \<^verbatim>\<open>fetch.rs\<close> with its
  redirects and its cap; the locale \<open>capped_transport\<close> states what the update flow relies on, and the client interprets it. \<open>Install\<close> is
  \<^verbatim>\<open>install.rs\<close> on the file system of \<open>Syscalls\<close>, where hard links share an inode: the swap of the binary is atomic as long as the kept
  binary is not a hard link of the target, and a rollback undoes it; what happens when it is one is a theorem too.

  \<^bold>\<open>Bounds.\<close> \<open>MAX_EDIT_DISTANCE\<close>, \<open>MAX_FRAME\<close>, \<open>MAX_CONFIRM_TIMEOUT_S\<close>, \<open>MAX_SCHEMA_DEPTH\<close> and the table sizes are the
  program's own. The serving loop runs over a finite list of events; a monitor with no event left is waiting.

  \<^bold>\<open>Not modelled.\<close> The other configuration modules (one syntax each on the machinery above), process start, sandbox and
  service back ends (system calls and external programs behind the monitor's hooks), HTTP, TLS and the web routes, credential
  files and password hashing, the ACME client, the TLS connection and the health check of
  updates, and the command line. Log lines and the texts
  of errors are left out where nothing reads them.
\<close>

end
